(* ===== verification/Busytok_Prelude.thy ===== *)
theory Busytok_Prelude
  imports Main "HOL-Library.Word" "HOL-Library.Sublist" "HOL-Library.Multiset"
begin

text \<open>
  Shared vocabulary of the development: the named theorem collections, the shape of fallible
  results, SQL-flavoured list operations (the tables of the store are lists of rows), the byte
  view of Rust strings, and the 64-bit integer operations the code calls explicitly.
\<close>

named_theorems store_simps
named_theorems db_ok_intros

section \<open>Results\<close>

text \<open>
  \<open>'e + 'a\<close> is Rust's \<open>Result\<close>: \<open>Inl\<close> the error, \<open>Inr\<close> the value. A stateful
  operation that may fail returns \<open>'e + ('a \<times> 's)\<close>; a failed one leaves the state it was
  given to the caller (SQLite rolls a failed statement back).
\<close>

definition is_ok :: "'e + 'a \<Rightarrow> bool" where
  "is_ok r = (case r of Inl _ \<Rightarrow> False | Inr _ \<Rightarrow> True)"

definition map_err :: "('e \<Rightarrow> 'f) \<Rightarrow> 'e + 'a \<Rightarrow> 'f + 'a" where
  "map_err f r = (case r of Inl e \<Rightarrow> Inl (f e) | Inr a \<Rightarrow> Inr a)"

lemma is_ok_simps [simp]: "is_ok (Inl e) = False" "is_ok (Inr a) = True"
  by (simp_all add: is_ok_def)

lemma is_okE: "is_ok r \<Longrightarrow> (\<And>a. r = Inr a \<Longrightarrow> P) \<Longrightarrow> P"
  by (cases r) auto

lemma map_err_simps [simp]: "map_err f (Inl e) = Inl (f e)" "map_err f (Inr a) = Inr a"
  by (simp_all add: map_err_def)

lemma map_err_eq_Inr [simp]: "map_err f r = Inr a \<longleftrightarrow> r = Inr a"
  by (cases r) auto

text \<open>\<open>Option::unwrap_or\<close>.\<close>

definition unwrap_or :: "'a \<Rightarrow> 'a option \<Rightarrow> 'a" where
  "unwrap_or d v = (case v of None \<Rightarrow> d | Some x \<Rightarrow> x)"

lemma unwrap_or_simps [simp]: "unwrap_or d None = d" "unwrap_or d (Some x) = x"
  by (simp_all add: unwrap_or_def)

text \<open>SQL's two-argument \<open>COALESCE\<close> where the second argument may itself be null.\<close>

definition coalesce :: "'a option \<Rightarrow> 'a option \<Rightarrow> 'a option" where
  "coalesce a b = (case a of None \<Rightarrow> b | Some _ \<Rightarrow> a)"

lemma coalesce_simps [simp]: "coalesce None b = b" "coalesce (Some x) b = Some x"
  by (simp_all add: coalesce_def)

section \<open>Tables as lists of rows\<close>

text \<open>\<open>UPDATE ... SET f WHERE P\<close> and the number of rows it changes.\<close>

definition upd_where :: "('a \<Rightarrow> bool) \<Rightarrow> ('a \<Rightarrow> 'a) \<Rightarrow> 'a list \<Rightarrow> 'a list" where
  "upd_where P f xs = map (\<lambda>x. if P x then f x else x) xs"

definition count_where :: "('a \<Rightarrow> bool) \<Rightarrow> 'a list \<Rightarrow> nat" where
  "count_where P xs = length (filter P xs)"

lemma upd_where_Nil [simp]: "upd_where P f [] = []"
  by (simp add: upd_where_def)

lemma upd_where_Cons [simp]:
  "upd_where P f (x # xs) = (if P x then f x else x) # upd_where P f xs"
  by (simp add: upd_where_def)

lemma upd_where_append [simp]:
  "upd_where P f (xs @ ys) = upd_where P f xs @ upd_where P f ys"
  by (simp add: upd_where_def)

lemma length_upd_where [simp]: "length (upd_where P f xs) = length xs"
  by (simp add: upd_where_def)

lemma upd_where_id: "(\<And>x. x \<in> set xs \<Longrightarrow> \<not> P x) \<Longrightarrow> upd_where P f xs = xs"
  by (induction xs) auto

lemma in_upd_whereE:
  assumes "y \<in> set (upd_where P f xs)"
  obtains x where "x \<in> set xs" "P x" "y = f x" | "y \<in> set xs" "\<not> P y"
  using assms by (auto simp: upd_where_def split: if_splits)

lemma upd_where_keep: "x \<in> set xs \<Longrightarrow> \<not> P x \<Longrightarrow> x \<in> set (upd_where P f xs)"
  by (force simp: upd_where_def)

lemma upd_where_hit: "x \<in> set xs \<Longrightarrow> P x \<Longrightarrow> f x \<in> set (upd_where P f xs)"
  by (force simp: upd_where_def)

text \<open>An update that leaves a column alone leaves the column's list alone.\<close>

lemma map_upd_where:
  "(\<And>x. P x \<Longrightarrow> k (f x) = k x) \<Longrightarrow> map k (upd_where P f xs) = map k xs"
  by (induction xs) auto

lemma find_upd_where:
  "(\<And>x. P x \<Longrightarrow> Q (f x) = Q x) \<Longrightarrow>
   find Q (upd_where P f xs) = map_option (\<lambda>x. if P x then f x else x) (find Q xs)"
  by (induction xs) auto

lemma list_ex_upd_where:
  "(\<And>x. P x \<Longrightarrow> Q (f x) = Q x) \<Longrightarrow> list_ex Q (upd_where P f xs) = list_ex Q xs"
  by (induction xs) auto

lemma count_where_pos: "0 < count_where P xs \<longleftrightarrow> (\<exists>x \<in> set xs. P x)"
  by (induction xs) (auto simp: count_where_def)

lemma count_where_zero: "count_where P xs = 0 \<longleftrightarrow> (\<forall>x \<in> set xs. \<not> P x)"
  by (induction xs) (auto simp: count_where_def)

lemma count_where_upd_le:
  "(\<And>x. x \<in> set xs \<Longrightarrow> P x \<Longrightarrow> Q (f x) \<Longrightarrow> Q x) \<Longrightarrow>
   count_where Q (upd_where P f xs) \<le> count_where Q xs"
  by (induction xs) (auto simp: count_where_def)

lemma count_where_append [simp]:
  "count_where P (xs @ ys) = count_where P xs + count_where P ys"
  by (simp add: count_where_def)

lemma count_where_Cons [simp]:
  "count_where P (x # xs) = (if P x then 1 else 0) + count_where P xs"
  "count_where P [] = 0"
  by (simp_all add: count_where_def)

lemma count_where_filter_le: "count_where P (filter Q xs) \<le> count_where P xs"
  by (induction xs) auto

lemma find_SomeD: "find P xs = Some x \<Longrightarrow> x \<in> set xs \<and> P x"
  by (induction xs) (auto split: if_splits)

lemma find_NoneD: "find P xs = None \<Longrightarrow> x \<in> set xs \<Longrightarrow> \<not> P x"
  by (induction xs) (auto split: if_splits)

lemma find_None_iff_all: "find P xs = None \<longleftrightarrow> (\<forall>x \<in> set xs. \<not> P x)"
  by (induction xs) auto

lemma find_append:
  "find P (xs @ ys) = (case find P xs of None \<Rightarrow> find P ys | Some x \<Rightarrow> Some x)"
  by (induction xs) auto

text \<open>With a duplicate-free key, looking a row's key up finds that row.\<close>

lemma find_distinct_key:
  "distinct (map k xs) \<Longrightarrow> x \<in> set xs \<Longrightarrow> find (\<lambda>y. k y = k x) xs = Some x"
  by (induction xs) (auto simp: rev_image_eqI)

lemma distinct_key_inj:
  "distinct (map k xs) \<Longrightarrow> x \<in> set xs \<Longrightarrow> y \<in> set xs \<Longrightarrow> k x = k y \<Longrightarrow> x = y"
  by (induction xs) (auto simp: rev_image_eqI)

text \<open>A key test with a condition that holds of the row itself touches that row alone.\<close>

lemma distinct_map_distinct: "distinct (map k xs) \<Longrightarrow> distinct xs"
  by (simp add: distinct_map)

lemma count_where_unique:
  "distinct (map k xs) \<Longrightarrow> x \<in> set xs \<Longrightarrow> P x \<Longrightarrow> count_where (\<lambda>y. k y = k x \<and> P y) xs = 1"
proof (induction xs)
  case (Cons z zs)
  show ?case
  proof (cases "z = x")
    case True
    with Cons.prems(1) have "\<forall>y \<in> set zs. \<not> (k y = k x \<and> P y)" by (auto simp: rev_image_eqI)
    then have "count_where (\<lambda>y. k y = k x \<and> P y) zs = 0" by (simp only: count_where_zero)
    with True Cons.prems show ?thesis by simp
  next
    case False
    with Cons.prems have "x \<in> set zs" "k z \<noteq> k x" by (auto simp: rev_image_eqI)
    with Cons show ?thesis by simp
  qed
qed simp

lemma upd_where_unique:
  assumes "distinct (map k xs)" "x \<in> set xs" "P x"
  shows "upd_where (\<lambda>y. k y = k x \<and> P y) f xs = upd_where (\<lambda>y. y = x) f xs"
  using assms distinct_key_inj[OF assms(1,2)] by (fastforce simp: upd_where_def)

lemma count_where_upd_single:
  "\<forall>y \<in> set xs. \<not> P y \<Longrightarrow> distinct xs \<Longrightarrow> count_where P (upd_where (\<lambda>y. y = x) f xs) \<le> 1"
proof (induction xs)
  case (Cons z zs)
  show ?case
  proof (cases "z = x")
    case True
    with Cons.prems have "upd_where (\<lambda>y. y = x) f zs = zs" by (intro upd_where_id) auto
    moreover have "count_where P zs = 0" using Cons.prems(1) by (simp add: count_where_zero)
    ultimately show ?thesis using True by simp
  next
    case False
    with Cons show ?thesis by simp
  qed
qed simp

text \<open>\<open>LIMIT n\<close>: SQLite reads a negative limit as no limit.\<close>

definition sql_limit :: "int \<Rightarrow> 'a list \<Rightarrow> 'a list" where
  "sql_limit n xs = (if n < 0 then xs else take (nat n) xs)"

lemma set_sql_limit: "set (sql_limit n xs) \<subseteq> set xs"
  by (simp add: sql_limit_def set_take_subset)

lemma length_sql_limit: "0 \<le> n \<Longrightarrow> length (sql_limit n xs) = min (nat n) (length xs)"
  by (simp add: sql_limit_def min.commute)

section \<open>ORDER BY\<close>

text \<open>
  A stable insertion sort by a given comparison: rows that compare equal keep the order of the
  table, which is what SQLite does without promising it.
\<close>

fun insert_by :: "('a \<Rightarrow> 'a \<Rightarrow> bool) \<Rightarrow> 'a \<Rightarrow> 'a list \<Rightarrow> 'a list" where
  "insert_by le x [] = [x]"
| "insert_by le x (y # ys) = (if le x y then x # y # ys else y # insert_by le x ys)"

definition sort_by :: "('a \<Rightarrow> 'a \<Rightarrow> bool) \<Rightarrow> 'a list \<Rightarrow> 'a list" where
  "sort_by le xs = foldr (insert_by le) xs []"

lemma sort_by_simps [simp]:
  "sort_by le [] = []"
  "sort_by le (x # xs) = insert_by le x (sort_by le xs)"
  by (simp_all add: sort_by_def)

lemma mset_insert_by [simp]: "mset (insert_by le x xs) = add_mset x (mset xs)"
  by (induction xs) auto

lemma mset_sort_by [simp]: "mset (sort_by le xs) = mset xs"
  by (induction xs) auto

lemma set_insert_by [simp]: "set (insert_by le x xs) = insert x (set xs)"
  by (induction xs) auto

lemma set_sort_by [simp]: "set (sort_by le xs) = set xs"
  by (induction xs) auto

lemma length_sort_by [simp]: "length (sort_by le xs) = length xs"
  by (metis mset_sort_by size_mset)

lemma sum_list_sort_by: "sum_list (map f (sort_by le xs)) = sum_list (map f xs)" for f :: "'a \<Rightarrow> int"
proof -
  have "sum_list (map f ys) = sum_mset (image_mset f (mset ys))" for ys
    by (induction ys) simp_all
  then show ?thesis by simp
qed

lemma sorted_insert_by:
  assumes "transp le" "totalp le" "reflp le" "sorted_wrt le xs"
  shows "sorted_wrt le (insert_by le x xs)"
  using assms(4)
proof (induction xs)
  case (Cons y ys)
  show ?case
  proof (cases "le x y")
    case True
    with Cons.prems assms(1) show ?thesis by (auto dest: transpD)
  next
    case False
    with assms(2,3) have "le y x" by (metis reflpD totalpD)
    with False Cons show ?thesis by auto
  qed
qed simp

lemma sorted_sort_by:
  "transp le \<Longrightarrow> totalp le \<Longrightarrow> reflp le \<Longrightarrow> sorted_wrt le (sort_by le xs)"
  by (induction xs) (auto intro: sorted_insert_by)

text \<open>The first row of an ordered result is a least one.\<close>

lemma sort_by_hd_least:
  assumes "transp le" "totalp le" "reflp le" "sort_by le xs = y # ys" "x \<in> set xs"
  shows "le y x"
proof -
  have "sorted_wrt le (y # ys)"
    using sorted_sort_by[OF assms(1,2,3), of xs] assms(4) by simp
  moreover have "x \<in> set (y # ys)"
    using assms(4,5) set_sort_by[of le xs] by simp
  ultimately show ?thesis using assms(3) by (auto dest: reflpD)
qed

text \<open>Byte order on strings, as SQLite's \<open>BINARY\<close> collation and Rust's \<open>Ord\<close> have it.\<close>

fun str_le :: "string \<Rightarrow> string \<Rightarrow> bool" where
  "str_le [] _ = True"
| "str_le (_ # _) [] = False"
| "str_le (a # as) (b # bs) =
     (if (of_char a :: nat) < of_char b then True
      else if of_char a = (of_char b :: nat) then str_le as bs else False)"

lemma str_le_refl [simp]: "str_le s s"
  by (induction s) auto

lemma str_le_total: "str_le s t \<or> str_le t s"
  by (induction s t rule: str_le.induct) auto

lemma str_le_trans: "str_le r s \<Longrightarrow> str_le s t \<Longrightarrow> str_le r t"
proof (induction r s arbitrary: t rule: str_le.induct)
  case (3 a as b bs)
  then show ?case by (cases t) (auto split: if_splits)
qed auto

lemma str_le_antisym: "str_le s t \<Longrightarrow> str_le t s \<Longrightarrow> s = t"
proof (induction s t rule: str_le.induct)
  case (1 t)
  then show ?case by (cases t) auto
qed (auto split: if_splits)

section \<open>Rust strings\<close>

text \<open>
  A Rust \<open>String\<close> is its UTF-8 bytes: a list of 8-bit characters. \<open>len()\<close> is the length of the
  list; \<open>chars()\<close> counts the bytes that start a code point, that is those that are not
  continuation bytes \<open>0b10xxxxxx\<close>.
\<close>

definition utf8_start :: "char \<Rightarrow> bool" where
  "utf8_start c = (let n = (of_char c :: nat) in n < 128 \<or> 192 \<le> n)"

definition chars_count :: "string \<Rightarrow> nat" where
  "chars_count s = length (filter utf8_start s)"

text \<open>\<open>s.chars().take(n).collect()\<close>.\<close>

fun chars_take :: "nat \<Rightarrow> string \<Rightarrow> string" where
  "chars_take n [] = []"
| "chars_take n (c # cs) =
     (if utf8_start c then (case n of 0 \<Rightarrow> [] | Suc m \<Rightarrow> c # chars_take m cs)
      else c # chars_take n cs)"

lemma chars_take_prefix: "prefix (chars_take n s) s"
  by (induction n s rule: chars_take.induct) (auto split: nat.splits)

lemma length_chars_take_le: "length (chars_take n s) \<le> length s"
  using chars_take_prefix prefix_length_le by blast

lemma chars_count_take_le: "chars_count (chars_take n s) \<le> n"
  by (induction n s rule: chars_take.induct) (auto simp: chars_count_def split: nat.splits)

lemma chars_take_all: "chars_count s \<le> n \<Longrightarrow> chars_take n s = s"
  by (induction n s rule: chars_take.induct) (auto simp: chars_count_def split: nat.splits)

text \<open>\<open>[...].join(sep)\<close>.\<close>

fun join :: "string \<Rightarrow> string list \<Rightarrow> string" where
  "join sep [] = []"
| "join sep [x] = x"
| "join sep (x # y # ys) = x @ sep @ join sep (y # ys)"

text \<open>\<open>s.trim_end_matches(c)\<close>.\<close>

definition trim_end_char :: "char \<Rightarrow> string \<Rightarrow> string" where
  "trim_end_char c s = rev (dropWhile (\<lambda>d. d = c) (rev s))"

lemma length_trim_end_char_le: "length (trim_end_char c s) \<le> length s"
  using length_dropWhile_le[of "\<lambda>d. d = c" "rev s"] by (simp add: trim_end_char_def)

lemma trim_end_char_snoc [simp]: "trim_end_char c (s @ [c]) = trim_end_char c s"
  by (simp add: trim_end_char_def)

definition nl :: string where
  "nl = [CHR 0x0A]"

lemma length_nl [simp]: "length nl = 1"
  by (simp add: nl_def)

text \<open>Decimal formatting of unsigned and signed integers (\<open>format!("{n}")\<close>).\<close>

fun show_nat :: "nat \<Rightarrow> string" where
  "show_nat n = (if n < 10 then [char_of (48 + n)]
                 else show_nat (n div 10) @ [char_of (48 + n mod 10)])"

declare show_nat.simps [simp del]

definition show_int :: "int \<Rightarrow> string" where
  "show_int n = (if n < 0 then ''-'' @ show_nat (nat (- n)) else show_nat (nat n))"

text \<open>The single quote, which a HOL string literal cannot spell.\<close>

definition qt :: string where
  "qt = [CHR 0x27]"

text \<open>\<open>u8::to_ascii_lowercase\<close>, \<open>str::split\<close> at a character and \<open>str::contains\<close>.\<close>

definition to_ascii_lower :: "char \<Rightarrow> char" where
  "to_ascii_lower c = (let n = (of_char c :: nat) in if 65 \<le> n \<and> n \<le> 90 then char_of (n + 32) else c)"

fun split_on :: "char \<Rightarrow> string \<Rightarrow> string list" where
  "split_on c [] = [[]]"
| "split_on c (x # xs) =
     (case split_on c xs of
        [] \<Rightarrow> [[]]
      | y # ys \<Rightarrow> if x = c then [] # y # ys else (x # y) # ys)"

definition contains_str :: "string \<Rightarrow> string \<Rightarrow> bool" where
  "contains_str p s = list_ex (\<lambda>n. prefix p (drop n s)) [0..<Suc (length s)]"

lemma split_on_not_Nil [simp]: "split_on c s \<noteq> []"
  by (induction s) (auto split: list.splits)

lemma split_on_no_sep: "c \<notin> set s \<Longrightarrow> split_on c s = [s]"
  by (induction s) auto

lemma split_on_append: "c \<notin> set s \<Longrightarrow> split_on c (s @ c # t) = s # split_on c t"
  by (induction s) (auto split: list.splits)

lemma split_on_parts: "part \<in> set (split_on c s) \<Longrightarrow> c \<notin> set part"
  by (induction s arbitrary: part) (auto split: list.splits if_splits)

lemma split_on_join: "(\<And>s. s \<in> set parts \<Longrightarrow> c \<notin> set s) \<Longrightarrow> parts \<noteq> [] \<Longrightarrow> split_on c (join [c] parts) = parts"
  by (induction "[c]" parts rule: join.induct) (auto simp: split_on_no_sep split_on_append)

section \<open>64-bit integers\<close>

text \<open>
  \<open>i64\<close> values are \<open>int\<close>s; the operations the code calls because of the width are written with
  the width.
\<close>

definition i64_max :: int where "i64_max = 9223372036854775807"
definition i64_min :: int where "i64_min = - 9223372036854775808"

definition i64_range :: "int \<Rightarrow> bool" where
  "i64_range n = (i64_min \<le> n \<and> n \<le> i64_max)"

definition checked_i64 :: "int \<Rightarrow> int option" where
  "checked_i64 n = (if i64_range n then Some n else None)"

definition checked_mul :: "int \<Rightarrow> int \<Rightarrow> int option" where
  "checked_mul a b = checked_i64 (a * b)"

definition checked_add :: "int \<Rightarrow> int \<Rightarrow> int option" where
  "checked_add a b = checked_i64 (a + b)"

definition i64_saturating_sub :: "int \<Rightarrow> int \<Rightarrow> int" where
  "i64_saturating_sub a b = max i64_min (min i64_max (a - b))"

text \<open>\<open>i64::try_from(u64)\<close>.\<close>

definition i64_try_from :: "64 word \<Rightarrow> int option" where
  "i64_try_from w = checked_i64 (uint w)"

lemma i64_range_saturating_sub: "i64_range (i64_saturating_sub a b)"
  by (auto simp: i64_range_def i64_saturating_sub_def i64_min_def i64_max_def)

lemma i64_saturating_sub_exact:
  "i64_range (a - b) \<Longrightarrow> i64_saturating_sub a b = a - b"
  by (auto simp: i64_range_def i64_saturating_sub_def)

end
