(* ===== verification/Subagent_Models.thy ===== *)
theory Subagent_Models
  imports Busytok_Prelude
begin

text \<open>
  The in-memory types of the logical-subagent layer
  (\<^verbatim>\<open>crates/busytok-subagent/src/models.rs\<close>): the status enums with their string forms, the
  identity record, the delegate request and result.
\<close>

text \<open>An \<open>f64\<close> that is only stored and copied is its 64-bit pattern.\<close>

type_synonym f64_bits = "64 word"

section \<open>Status enums\<close>

datatype subagent_status = Hot | Warm | Cold | Deleted

fun subagent_status_str :: "subagent_status \<Rightarrow> string" where
  "subagent_status_str Hot = ''hot''"
| "subagent_status_str Warm = ''warm''"
| "subagent_status_str Cold = ''cold''"
| "subagent_status_str Deleted = ''deleted''"

definition subagent_status_parse :: "string \<Rightarrow> string + subagent_status" where
  "subagent_status_parse s =
     (if s = ''hot'' then Inr Hot
      else if s = ''warm'' then Inr Warm
      else if s = ''cold'' then Inr Cold
      else if s = ''deleted'' then Inr Deleted
      else Inl (''invalid subagent status: '' @ s))"

datatype task_status = Queued | Running | Completed | Failed | Cancelled

fun task_status_str :: "task_status \<Rightarrow> string" where
  "task_status_str Queued = ''queued''"
| "task_status_str Running = ''running''"
| "task_status_str Completed = ''completed''"
| "task_status_str Failed = ''failed''"
| "task_status_str Cancelled = ''cancelled''"

fun is_terminal :: "task_status \<Rightarrow> bool" where
  "is_terminal Queued = False"
| "is_terminal Running = False"
| "is_terminal Completed = True"
| "is_terminal Failed = True"
| "is_terminal Cancelled = True"

definition task_status_parse :: "string \<Rightarrow> string + task_status" where
  "task_status_parse s =
     (if s = ''queued'' then Inr Queued
      else if s = ''running'' then Inr Running
      else if s = ''completed'' then Inr Completed
      else if s = ''failed'' then Inr Failed
      else if s = ''cancelled'' then Inr Cancelled
      else Inl (''invalid task status: '' @ s))"

datatype queue_reason = PressureGatePaused | SubagentBusy | QHotSessionLimit

fun queue_reason_str :: "queue_reason \<Rightarrow> string" where
  "queue_reason_str PressureGatePaused = ''pressure_gate_paused''"
| "queue_reason_str SubagentBusy = ''subagent_busy''"
| "queue_reason_str QHotSessionLimit = ''hot_session_limit''"

datatype task_error_kind = KAuth | KRateLimit | KTimeout | KCrash | KNetwork | KHotSessionLimit
  | KUnknown

fun task_error_kind_str :: "task_error_kind \<Rightarrow> string" where
  "task_error_kind_str KAuth = ''auth''"
| "task_error_kind_str KRateLimit = ''rate_limit''"
| "task_error_kind_str KTimeout = ''timeout''"
| "task_error_kind_str KCrash = ''crash''"
| "task_error_kind_str KNetwork = ''network''"
| "task_error_kind_str KHotSessionLimit = ''hot_session_limit''"
| "task_error_kind_str KUnknown = ''unknown''"

section \<open>Identity, requests and results\<close>

record logical_subagent =
  s_id :: string
  s_name :: string
  s_project_id :: string
  s_repo_path :: string
  s_repo_hash :: string
  s_branch :: "string option"
  s_intent :: "string option"
  s_default_profile :: string
  s_bound_provider_id :: string
  s_bound_model_id :: string
  s_status :: subagent_status
  s_created_at_ms :: int
  s_updated_at_ms :: int
  s_last_active_at_ms :: "int option"

definition is_ascii_alphanumeric :: "char \<Rightarrow> bool" where
  "is_ascii_alphanumeric c =
     (let n = (of_char c :: nat)
      in (48 \<le> n \<and> n \<le> 57) \<or> (65 \<le> n \<and> n \<le> 90) \<or> (97 \<le> n \<and> n \<le> 122))"

text \<open>
  \<open>LogicalSubagent::is_valid_name\<close>. A non-ASCII code point is not alphanumeric, and neither is
  any of its bytes, so testing the bytes is testing the characters.
\<close>

definition is_valid_name :: "string \<Rightarrow> bool" where
  "is_valid_name name =
     (if name = [] \<or> 64 < length name \<or> (case name of c # _ \<Rightarrow> c = CHR ''.'' | [] \<Rightarrow> False) then False
      else list_all (\<lambda>c. is_ascii_alphanumeric c \<or> c = CHR ''_'' \<or> c = CHR ''-'' \<or> c = CHR ''.'') name)"

record task_summary =
  sum_id :: string
  sum_subagent_id :: string
  sum_profile :: string
  sum_status :: task_status
  sum_prompt :: "string option"
  sum_result_summary :: "string option"
  sum_error :: "string option"
  sum_created_at_ms :: int
  sum_completed_at_ms :: "int option"

record delegate_request =
  rq_subagent_name :: string
  rq_subagent_id :: "string option"
  rq_cwd :: string
  rq_profile :: string
  rq_intent :: "string option"
  rq_prompt :: string
  rq_prompt_artifact_ref :: "string option"
  rq_timeout_seconds :: "64 word option"
  rq_model_override :: "string option"
  rq_source_harness :: "string option"
  rq_source_session_id :: "string option"
  rq_bound_provider_id :: "string option"
  rq_bound_model_id :: "string option"
  rq_reuse_policy :: "string option"

record resolve_params =
  rp_name :: "string option"
  rp_id :: "string option"
  rp_cwd :: "string option"

record task_usage =
  tu_model :: "string option"
  tu_provider :: "string option"
  tu_input_tokens :: "int option"
  tu_output_tokens :: "int option"
  tu_cache_read_tokens :: "int option"
  tu_cache_write_tokens :: "int option"
  tu_cost_usd :: "f64_bits option"

definition task_usage_default :: task_usage where
  "task_usage_default =
     \<lparr>tu_model = None, tu_provider = None, tu_input_tokens = None, tu_output_tokens = None,
      tu_cache_read_tokens = None, tu_cache_write_tokens = None, tu_cost_usd = None\<rparr>"

record delegate_result =
  dr_task_id :: string
  dr_subagent_id :: string
  dr_subagent_name :: string
  dr_adapter :: string
  dr_adapter_session_id :: "string option"
  dr_session_reused :: bool
  dr_status :: task_status
  dr_profile :: string
  dr_model :: "string option"
  dr_summary :: "string option"
  dr_usage :: task_usage
  dr_created :: bool
  dr_queue_reason :: "queue_reason option"

section \<open>Lemmas\<close>

lemma subagent_status_roundtrip [simp]:
  "subagent_status_parse (subagent_status_str st) = Inr st"
  by (cases st) (simp_all add: subagent_status_parse_def)

lemma task_status_roundtrip [simp]: "task_status_parse (task_status_str st) = Inr st"
  by (cases st) (simp_all add: task_status_parse_def)

lemma task_status_parse_Inr: "task_status_parse s = Inr st \<longleftrightarrow> s = task_status_str st"
  by (cases st) (auto simp: task_status_parse_def)

lemma subagent_status_parse_Inr: "subagent_status_parse s = Inr st \<longleftrightarrow> s = subagent_status_str st"
  by (cases st) (auto simp: subagent_status_parse_def)

lemma task_status_str_inj [simp]: "task_status_str a = task_status_str b \<longleftrightarrow> a = b"
  by (cases a; cases b) auto

lemma subagent_status_str_inj [simp]: "subagent_status_str a = subagent_status_str b \<longleftrightarrow> a = b"
  by (cases a; cases b) auto

lemma queue_reason_str_inj [simp]: "queue_reason_str a = queue_reason_str b \<longleftrightarrow> a = b"
  by (cases a; cases b) auto

lemma task_error_kind_str_inj [simp]: "task_error_kind_str a = task_error_kind_str b \<longleftrightarrow> a = b"
  by (cases a; cases b) auto

lemma is_valid_name_bounds:
  "is_valid_name n \<Longrightarrow> n \<noteq> [] \<and> length n \<le> 64 \<and> hd n \<noteq> CHR ''.'' \<and> CHR ''/'' \<notin> set n"
  by (cases n) (auto simp: is_valid_name_def is_ascii_alphanumeric_def list_all_iff split: if_splits)

end
