(* ===== verification/Store_Tables.thy ===== *)
theory Store_Tables
  imports Subagent_Models
begin

text \<open>
  The rows of \<^verbatim>\<open>crates/busytok-store/src/repository.rs\<close> (subagent part) and of the provider
  catalog, the database as one record of tables, the errors a statement can end with, and the
  schema constraints of \<^verbatim>\<open>migrations/0003..0006\<close> as executable predicates.
\<close>

record logical_row =
  l_id :: string
  l_name :: string
  l_project_id :: string
  l_repo_path :: string
  l_repo_hash :: string
  l_branch :: "string option"
  l_intent :: "string option"
  l_default_profile :: string
  l_bound_provider_id :: string
  l_bound_model_id :: string
  l_status :: string
  l_created_at_ms :: int
  l_updated_at_ms :: int
  l_last_active_at_ms :: "int option"

record memory_row =
  m_id :: string
  m_subagent_id :: string
  m_hot_summary :: "string option"
  m_long_summary :: "string option"
  m_key_files_json :: "string option"
  m_decisions_json :: "string option"
  m_attempts_json :: "string option"
  m_open_questions_json :: "string option"
  m_artifact_refs_json :: "string option"
  m_last_compacted_at_ms :: "int option"
  m_last_compacted_task_id :: "string option"
  m_updated_at_ms :: int

record task_row =
  t_id :: string
  t_subagent_id :: string
  t_source_harness :: "string option"
  t_source_session_id :: "string option"
  t_intent :: "string option"
  t_profile :: string
  t_prompt :: "string option"
  t_prompt_artifact_ref :: "string option"
  t_output_schema_name :: "string option"
  t_output_schema_version :: int
  t_status :: string
  t_result_summary :: "string option"
  t_result_json :: "string option"
  t_error :: "string option"
  t_created_at_ms :: int
  t_started_at_ms :: "int option"
  t_completed_at_ms :: "int option"
  t_timeout_seconds :: "int option"
  t_model_override :: "string option"
  t_error_kind :: "string option"
  t_queue_reason :: "string option"

record binding_row =
  b_id :: string
  b_subagent_id :: string
  b_harness :: string
  b_adapter_session_id :: "string option"
  b_adapter_process_id :: "string option"
  b_is_hot :: int
  b_status :: string
  b_created_at_ms :: int
  b_last_used_at_ms :: "int option"
  b_closed_at_ms :: "int option"
  b_detail_json :: "string option"

record usage_row =
  u_id :: string
  u_task_id :: string
  u_subagent_id :: string
  u_source_usage_event_id :: "string option"
  u_harness :: string
  u_provider :: "string option"
  u_model :: "string option"
  u_input_tokens :: "int option"
  u_output_tokens :: "int option"
  u_cache_read_tokens :: "int option"
  u_cache_write_tokens :: "int option"
  u_total_cost_usd :: "f64_bits option"
  u_duration_ms :: "int option"
  u_created_at_ms :: int

record event_row =
  e_id :: string
  e_event_type :: string
  e_target_id :: "string option"
  e_rss_mb :: "f64_bits option"
  e_cpu_percent :: "f64_bits option"
  e_detail_json :: "string option"
  e_created_at_ms :: int

datatype provider_kind = OpenAiCompatible | AnthropicCompatible

record provider =
  p_id :: string
  p_name :: string
  p_provider_kind :: provider_kind
  p_base_url :: string
  p_enabled :: bool
  p_api_key :: "string option"
  p_created_at_ms :: int
  p_updated_at_ms :: int

record model =
  md_id :: string
  md_provider_id :: string
  md_model_id :: string
  md_enabled :: bool
  md_display_name :: "string option"
  md_reasoning :: bool
  md_context_window :: "int option"
  md_max_tokens :: "int option"
  md_created_at_ms :: int
  md_updated_at_ms :: int

record db =
  logicals :: "logical_row list"
  memories :: "memory_row list"
  tasks :: "task_row list"
  bindings :: "binding_row list"
  usages :: "usage_row list"
  events :: "event_row list"
  providers :: "provider list"
  models :: "model list"

text \<open>
  How a statement fails: a violated constraint of the schema, a failure of the engine (disk,
  lock), or an error raised by the layer above with a message.
\<close>

datatype db_error = Unique_Violation | Check_Violation | Fk_Violation | Engine_Failure
  | Other_Error string

definition empty_db :: db where
  "empty_db = \<lparr>logicals = [], memories = [], tasks = [], bindings = [], usages = [], events = [],
               providers = [], models = []\<rparr>"

section \<open>Schema constraints\<close>

definition task_status_allowed :: "string \<Rightarrow> bool" where
  "task_status_allowed s =
     (s \<in> {''queued'', ''running'', ''completed'', ''failed'', ''cancelled''})"

definition logical_status_allowed :: "string \<Rightarrow> bool" where
  "logical_status_allowed s = (s \<in> {''hot'', ''warm'', ''cold'', ''deleted''})"

definition binding_status_allowed :: "string \<Rightarrow> bool" where
  "binding_status_allowed s = (s \<in> {''hot'', ''warm'', ''closed'', ''crashed''})"

text \<open>The foreign key target every child row names.\<close>

definition has_logical :: "string \<Rightarrow> db \<Rightarrow> bool" where
  "has_logical sid d = list_ex (\<lambda>l. l_id l = sid) (logicals d)"

text \<open>\<open>SubagentMemoryRow::new_empty\<close>.\<close>

definition new_empty_memory :: "int \<Rightarrow> string \<Rightarrow> memory_row" where
  "new_empty_memory now sid =
     \<lparr>m_id = ''mem-'' @ sid, m_subagent_id = sid, m_hot_summary = None, m_long_summary = None,
      m_key_files_json = None, m_decisions_json = None, m_attempts_json = None,
      m_open_questions_json = None, m_artifact_refs_json = None, m_last_compacted_at_ms = None,
      m_last_compacted_task_id = None, m_updated_at_ms = now\<rparr>"

lemma task_status_allowed_str [simp]: "task_status_allowed (task_status_str s)"
  by (cases s) (simp_all add: task_status_allowed_def)

lemma logical_status_allowed_str [simp]: "logical_status_allowed (subagent_status_str s)"
  by (cases s) (simp_all add: logical_status_allowed_def)

lemma task_status_allowed_parse:
  "task_status_allowed s \<longleftrightarrow> is_ok (task_status_parse s)"
  by (auto simp: task_status_allowed_def task_status_parse_def)

lemma status_allowed_lits [simp]:
  "task_status_allowed ''queued''" "task_status_allowed ''running''"
  "task_status_allowed ''completed''" "task_status_allowed ''failed''"
  "task_status_allowed ''cancelled''" "logical_status_allowed ''hot''"
  "logical_status_allowed ''warm''" "logical_status_allowed ''cold''"
  "logical_status_allowed ''deleted''" "binding_status_allowed ''hot''"
  "binding_status_allowed ''warm''" "binding_status_allowed ''closed''"
  "binding_status_allowed ''crashed''"
  by (simp_all add: task_status_allowed_def logical_status_allowed_def binding_status_allowed_def)

lemma has_logical_iff: "has_logical sid d \<longleftrightarrow> sid \<in> l_id ` set (logicals d)"
  by (auto simp: has_logical_def list_ex_iff)

section \<open>Catalog lookups\<close>

text \<open>
  \<open>get_provider_with_secret\<close> and \<open>get_model_by_provider_and_model_id\<close>; the kind column is kept
  decoded.
\<close>

definition get_provider_with_secret :: "string \<Rightarrow> db \<Rightarrow> provider option" where
  "get_provider_with_secret i d = find (\<lambda>p. p_id p = i) (providers d)"

definition get_model_by_provider_and_model_id :: "string \<Rightarrow> string \<Rightarrow> db \<Rightarrow> model option" where
  "get_model_by_provider_and_model_id pid mid d =
     find (\<lambda>m. md_provider_id m = pid \<and> md_model_id m = mid) (models d)"

end
