(* ===== verification/Store_Logicals.thy ===== *)
theory Store_Logicals
  imports Store_Tables
begin

text \<open>
  The identity, memory, usage and event queries of
  \<^verbatim>\<open>crates/busytok-store/src/subagent_queries.rs\<close>. A write is built as the new table and then
  checked against the schema's constraints, the way the engine accepts or rejects it; an
  \<open>ON CONFLICT ... DO UPDATE\<close> looks at its conflict target first.
\<close>

section \<open>Logical subagents\<close>

definition active :: "logical_row \<Rightarrow> bool" where
  "active l = (l_status l \<noteq> ''deleted'')"

definition name_key :: "logical_row \<Rightarrow> string \<times> string \<times> string" where
  "name_key l = (l_project_id l, l_repo_hash l, l_name l)"

text \<open>The partial unique index \<open>idx_subagent_unique_active_name\<close>.\<close>

definition unique_active_names :: "logical_row list \<Rightarrow> bool" where
  "unique_active_names ls = distinct (map name_key (filter active ls))"

definition put_logicals :: "logical_row list \<Rightarrow> db \<Rightarrow> db_error + db" where
  "put_logicals ls d =
     (if \<not> list_all (\<lambda>l. logical_status_allowed (l_status l)) ls then Inl Check_Violation
      else if \<not> unique_active_names ls then Inl Unique_Violation
      else Inr (d\<lparr>logicals := ls\<rparr>))"

definition upsert_logical_subagent :: "logical_row \<Rightarrow> db \<Rightarrow> db_error + db" where
  "upsert_logical_subagent row d =
     put_logicals
       (if has_logical (l_id row) d
        then upd_where (\<lambda>l. l_id l = l_id row)
               (\<lambda>l. row\<lparr>l_created_at_ms := l_created_at_ms l\<rparr>) (logicals d)
        else logicals d @ [row]) d"

definition get_logical_subagent :: "string \<Rightarrow> db \<Rightarrow> logical_row option" where
  "get_logical_subagent i d = find (\<lambda>l. l_id l = i) (logicals d)"

text \<open>\<open>ORDER BY last_active_at_ms DESC NULLS LAST\<close>.\<close>

fun last_active_desc :: "int option \<Rightarrow> int option \<Rightarrow> bool" where
  "last_active_desc _ None = True"
| "last_active_desc None (Some _) = False"
| "last_active_desc (Some a) (Some b) = (b \<le> a)"

definition recently_active :: "logical_row \<Rightarrow> logical_row \<Rightarrow> bool" where
  "recently_active a b = last_active_desc (l_last_active_at_ms a) (l_last_active_at_ms b)"

definition list_active_by_repo :: "string \<Rightarrow> db \<Rightarrow> logical_row list" where
  "list_active_by_repo repo_hash d =
     sort_by recently_active
       (filter (\<lambda>l. l_repo_hash l = repo_hash \<and> l_status l \<noteq> ''deleted'') (logicals d))"

definition find_by_name_in_repo :: "string \<Rightarrow> string \<Rightarrow> string \<Rightarrow> db \<Rightarrow> logical_row list" where
  "find_by_name_in_repo project_id repo_hash name d =
     filter (\<lambda>l. l_project_id l = project_id \<and> l_repo_hash l = repo_hash \<and> l_name l = name)
       (logicals d)"

definition list_filtered ::
    "string option \<Rightarrow> string option \<Rightarrow> bool \<Rightarrow> db \<Rightarrow> logical_row list" where
  "list_filtered status project include_deleted d =
     sort_by recently_active
       (filter (\<lambda>l. (include_deleted \<or> l_status l \<noteq> ''deleted'')
                   \<and> (case status of None \<Rightarrow> True | Some s \<Rightarrow> l_status l = s)
                   \<and> (case project of None \<Rightarrow> True | Some p \<Rightarrow> l_project_id l = p))
         (logicals d))"

text \<open>
  The explicit cascade, children first; the second statement fails while a usage record of
  another subagent still names one of the tasks.
\<close>

definition hard_delete_logical_subagent :: "string \<Rightarrow> db \<Rightarrow> db_error + db" where
  "hard_delete_logical_subagent i d =
     (let us = filter (\<lambda>u. u_subagent_id u \<noteq> i) (usages d);
          gone = map t_id (filter (\<lambda>t. t_subagent_id t = i) (tasks d))
      in if list_ex (\<lambda>u. u_task_id u \<in> set gone) us then Inl Fk_Violation
         else Inr (d\<lparr>usages := us,
                     tasks := filter (\<lambda>t. t_subagent_id t \<noteq> i) (tasks d),
                     bindings := filter (\<lambda>b. b_subagent_id b \<noteq> i) (bindings d),
                     memories := filter (\<lambda>m. m_subagent_id m \<noteq> i) (memories d),
                     events := filter (\<lambda>e. e_target_id e \<noteq> Some i) (events d),
                     logicals := filter (\<lambda>l. l_id l \<noteq> i) (logicals d)\<rparr>))"

section \<open>Memory\<close>

definition get_memory :: "string \<Rightarrow> db \<Rightarrow> memory_row option" where
  "get_memory sid d = find (\<lambda>m. m_subagent_id m = sid) (memories d)"

definition upsert_memory :: "memory_row \<Rightarrow> db \<Rightarrow> db_error + db" where
  "upsert_memory row d =
     (if list_ex (\<lambda>m. m_subagent_id m = m_subagent_id row) (memories d)
      then Inr (d\<lparr>memories := upd_where (\<lambda>m. m_subagent_id m = m_subagent_id row)
                                (\<lambda>m. row\<lparr>m_id := m_id m\<rparr>) (memories d)\<rparr>)
      else if list_ex (\<lambda>m. m_id m = m_id row) (memories d) then Inl Unique_Violation
      else if \<not> has_logical (m_subagent_id row) d then Inl Fk_Violation
      else Inr (d\<lparr>memories := memories d @ [row]\<rparr>))"

text \<open>A fresh row has \<open>[]\<close> in each JSON column and the id prefix \<open>mem_\<close>.\<close>

definition write_hot_summary :: "int \<Rightarrow> string \<Rightarrow> string \<Rightarrow> db \<Rightarrow> db_error + db" where
  "write_hot_summary now sid hot_summary d =
     (case get_memory sid d of
        Some _ \<Rightarrow>
          Inr (d\<lparr>memories := upd_where (\<lambda>m. m_subagent_id m = sid)
                   (\<lambda>m. m\<lparr>m_hot_summary := Some hot_summary, m_updated_at_ms := now\<rparr>)
                   (memories d)\<rparr>)
      | None \<Rightarrow>
          (let row = \<lparr>m_id = ''mem_'' @ sid, m_subagent_id = sid, m_hot_summary = Some hot_summary,
                      m_long_summary = None, m_key_files_json = Some ''[]'',
                      m_decisions_json = Some ''[]'', m_attempts_json = Some ''[]'',
                      m_open_questions_json = Some ''[]'', m_artifact_refs_json = Some ''[]'',
                      m_last_compacted_at_ms = None, m_last_compacted_task_id = None,
                      m_updated_at_ms = now\<rparr>
           in if list_ex (\<lambda>m. m_id m = m_id row) (memories d) then Inl Unique_Violation
              else if \<not> has_logical sid d then Inl Fk_Violation
              else Inr (d\<lparr>memories := memories d @ [row]\<rparr>)))"

text \<open>\<open>EXISTS (... hot_summary IS NOT NULL)\<close>, the recoverable memory that makes a subagent warm.\<close>

definition has_hot_summary :: "string \<Rightarrow> db \<Rightarrow> bool" where
  "has_hot_summary sid d =
     list_ex (\<lambda>m. m_subagent_id m = sid \<and> m_hot_summary m \<noteq> None) (memories d)"

section \<open>Usage records and resource events\<close>

definition insert_usage_record :: "usage_row \<Rightarrow> db \<Rightarrow> db_error + db" where
  "insert_usage_record row d =
     (if list_ex (\<lambda>u. u_id u = u_id row) (usages d) then Inl Unique_Violation
      else if \<not> list_ex (\<lambda>t. t_id t = u_task_id row) (tasks d) then Inl Fk_Violation
      else if \<not> has_logical (u_subagent_id row) d then Inl Fk_Violation
      else Inr (d\<lparr>usages := usages d @ [row]\<rparr>))"

definition insert_resource_event :: "event_row \<Rightarrow> db \<Rightarrow> db_error + db" where
  "insert_resource_event row d =
     (if list_ex (\<lambda>e. e_id e = e_id row) (events d) then Inl Unique_Violation
      else Inr (d\<lparr>events := events d @ [row]\<rparr>))"

definition newest_event :: "event_row \<Rightarrow> event_row \<Rightarrow> bool" where
  "newest_event a b = (e_created_at_ms b \<le> e_created_at_ms a)"

definition list_resource_events :: "string option \<Rightarrow> int \<Rightarrow> db \<Rightarrow> event_row list" where
  "list_resource_events target_id limit d =
     sql_limit limit (sort_by newest_event
       (filter (\<lambda>e. case target_id of None \<Rightarrow> True | Some i \<Rightarrow> e_target_id e = Some i) (events d)))"

section \<open>Lemmas\<close>

lemma put_logicalsD:
  assumes "put_logicals ls d = Inr d'"
  shows "d' = d\<lparr>logicals := ls\<rparr>" "unique_active_names ls"
    "l \<in> set ls \<Longrightarrow> logical_status_allowed (l_status l)"
  using assms by (auto simp: put_logicals_def list_all_iff split: if_splits)

lemma put_logicals_frame:
  "put_logicals ls d = Inr d' \<Longrightarrow> memories d' = memories d \<and> tasks d' = tasks d \<and>
   bindings d' = bindings d \<and> usages d' = usages d \<and> events d' = events d \<and>
   providers d' = providers d \<and> models d' = models d"
  by (auto dest: put_logicalsD(1))

lemma recently_active_order:
  "transp recently_active" "totalp recently_active" "reflp recently_active"
proof -
  have "last_active_desc a b \<Longrightarrow> last_active_desc b c \<Longrightarrow> last_active_desc a c" for a b c
    by (cases a; cases b; cases c) auto
  then show "transp recently_active" by (auto simp: recently_active_def transp_def)
  have "last_active_desc a b \<or> last_active_desc b a" for a b
    by (cases a; cases b) auto
  then show "totalp recently_active" by (auto simp: recently_active_def totalp_on_def)
  have "last_active_desc a a" for a by (cases a) auto
  then show "reflp recently_active" by (simp add: recently_active_def reflp_def)
qed

text \<open>What the unique index gives the resolver: an active name is found at most once.\<close>

lemma unique_active_at_most_one:
  assumes "unique_active_names (logicals d)"
  shows "length (filter (\<lambda>l. l_status l \<noteq> ''deleted'') (find_by_name_in_repo p h n d)) \<le> 1"
proof -
  let ?xs = "filter (\<lambda>l. l_status l \<noteq> ''deleted'') (find_by_name_in_repo p h n d)"
  have "?xs = filter (\<lambda>l. name_key l = (p, h, n)) (filter active (logicals d))"
    by (auto simp: find_by_name_in_repo_def active_def name_key_def intro: filter_cong)
  moreover have "distinct (map name_key xs) \<Longrightarrow> length (filter (\<lambda>l. name_key l = k) xs) \<le> 1"
    for xs :: "logical_row list" and k
    by (induction xs) (auto simp: filter_empty_conv rev_image_eqI)
  ultimately show ?thesis using assms unfolding unique_active_names_def by metis
qed

lemma get_logical_in: "get_logical_subagent i d = Some l \<Longrightarrow> l \<in> set (logicals d) \<and> l_id l = i"
  using find_SomeD by (fastforce simp: get_logical_subagent_def)

lemma get_logical_None: "get_logical_subagent i d = None \<longleftrightarrow> \<not> has_logical i d"
  by (auto simp: get_logical_subagent_def find_None_iff_all has_logical_def list_ex_iff)

lemma get_memory_in: "get_memory i d = Some m \<Longrightarrow> m \<in> set (memories d) \<and> m_subagent_id m = i"
  using find_SomeD by (fastforce simp: get_memory_def)

lemma has_hot_summary_iff:
  "has_hot_summary sid d \<longleftrightarrow> (\<exists>m \<in> set (memories d). m_subagent_id m = sid \<and> m_hot_summary m \<noteq> None)"
  by (auto simp: has_hot_summary_def list_ex_iff)

lemma upsert_logical_subagent_get:
  assumes "upsert_logical_subagent row d = Inr d'"
  shows "\<exists>l. get_logical_subagent (l_id row) d' = Some l \<and>
             l\<lparr>l_created_at_ms := l_created_at_ms row\<rparr> = row"
proof (cases "has_logical (l_id row) d")
  case True
  then obtain l where l: "get_logical_subagent (l_id row) d = Some l"
    by (cases "get_logical_subagent (l_id row) d") (simp_all add: get_logical_None)
  moreover have "d' = d\<lparr>logicals := upd_where (\<lambda>l. l_id l = l_id row)
               (\<lambda>l. row\<lparr>l_created_at_ms := l_created_at_ms l\<rparr>) (logicals d)\<rparr>"
    using assms True by (auto simp: upsert_logical_subagent_def dest: put_logicalsD(1))
  ultimately show ?thesis
    using get_logical_in[OF l] by (simp add: get_logical_subagent_def find_upd_where)
next
  case False
  then have "find (\<lambda>l. l_id l = l_id row) (logicals d) = None"
    using get_logical_None[of "l_id row" d] by (simp add: get_logical_subagent_def)
  then have "find (\<lambda>l. l_id l = l_id row) (logicals d @ [row]) = Some row"
    by (simp add: find_append)
  with assms False show ?thesis
    by (auto simp: upsert_logical_subagent_def get_logical_subagent_def dest!: put_logicalsD(1))
qed

lemma upsert_memory_get:
  assumes "upsert_memory row d = Inr d'"
  shows "\<exists>ms. d' = d\<lparr>memories := ms\<rparr>"
    "\<exists>m. get_memory (m_subagent_id row) d' = Some m \<and> m\<lparr>m_id := m_id row\<rparr> = row"
proof -
  show "\<exists>ms. d' = d\<lparr>memories := ms\<rparr>"
    using assms by (auto simp: upsert_memory_def split: if_splits)
  show "\<exists>m. get_memory (m_subagent_id row) d' = Some m \<and> m\<lparr>m_id := m_id row\<rparr> = row"
  proof (cases "get_memory (m_subagent_id row) d")
    case None
    then have "\<not> list_ex (\<lambda>m. m_subagent_id m = m_subagent_id row) (memories d)"
      by (simp add: get_memory_def find_None_iff_all list_ex_iff)
    with assms None show ?thesis
      by (auto simp: upsert_memory_def get_memory_def find_append split: if_splits)
  next
    case (Some m)
    then have "list_ex (\<lambda>m. m_subagent_id m = m_subagent_id row) (memories d)"
      using get_memory_in by (auto simp: list_ex_iff)
    with assms Some get_memory_in[OF Some] show ?thesis
      by (auto simp: upsert_memory_def get_memory_def find_upd_where)
  qed
qed

text \<open>Hard delete leaves nothing that names the subagent.\<close>

lemma hard_delete_removes:
  assumes "hard_delete_logical_subagent i d = Inr d'"
  shows "i \<notin> l_id ` set (logicals d') \<and> i \<notin> t_subagent_id ` set (tasks d')
       \<and> i \<notin> b_subagent_id ` set (bindings d') \<and> i \<notin> m_subagent_id ` set (memories d')
       \<and> i \<notin> u_subagent_id ` set (usages d') \<and> Some i \<notin> e_target_id ` set (events d')"
  using assms by (auto simp: hard_delete_logical_subagent_def Let_def split: if_splits)

end
