(* ===== verification/Store_Tasks.thy ===== *)
theory Store_Tasks
  imports Store_Tables
begin

text \<open>
  The task queries of \<^verbatim>\<open>crates/busytok-store/src/subagent_queries.rs\<close>: each statement as a
  function on the task table, with the constraints of the schema as its errors. The clock the
  source reads with \<open>now_ms()\<close> is the argument \<open>now\<close>.
\<close>

section \<open>Statements\<close>

definition insert_task :: "task_row \<Rightarrow> db \<Rightarrow> db_error + db" where
  "insert_task row d =
     (if list_ex (\<lambda>t. t_id t = t_id row) (tasks d) then Inl Unique_Violation
      else if \<not> task_status_allowed (t_status row)
              \<or> (t_prompt row = None \<and> t_prompt_artifact_ref row = None) then Inl Check_Violation
      else if \<not> has_logical (t_subagent_id row) d then Inl Fk_Violation
      else Inr (d\<lparr>tasks := tasks d @ [row]\<rparr>))"

definition get_task :: "string \<Rightarrow> db \<Rightarrow> task_row option" where
  "get_task i d = find (\<lambda>t. t_id t = i) (tasks d)"

text \<open>\<open>ORDER BY created_at_ms DESC\<close>.\<close>

definition newest_first :: "task_row \<Rightarrow> task_row \<Rightarrow> bool" where
  "newest_first a b = (t_created_at_ms b \<le> t_created_at_ms a)"

definition list_tasks :: "string \<Rightarrow> int \<Rightarrow> db \<Rightarrow> task_row list" where
  "list_tasks sid limit d =
     sql_limit limit (sort_by newest_first (filter (\<lambda>t. t_subagent_id t = sid) (tasks d)))"

text \<open>The \<open>SET\<close> clause the two status writers share.\<close>

definition write_status ::
    "int \<Rightarrow> string \<Rightarrow> string option \<Rightarrow> string option \<Rightarrow> task_row \<Rightarrow> task_row" where
  "write_status now st result_summary err t =
     (let completed_at = (if st = ''completed'' \<or> st = ''failed'' \<or> st = ''cancelled''
                          then Some now else None);
          clear_started_at = (st = ''queued'')
      in t\<lparr>t_status := st,
           t_result_summary := coalesce result_summary (t_result_summary t),
           t_error := coalesce err (t_error t),
           t_completed_at_ms := coalesce completed_at (t_completed_at_ms t),
           t_started_at_ms := (if clear_started_at then None else t_started_at_ms t)\<rparr>)"

definition set_task_status ::
    "int \<Rightarrow> string \<Rightarrow> string \<Rightarrow> string option \<Rightarrow> string option \<Rightarrow> db \<Rightarrow> db_error + db" where
  "set_task_status now i st result_summary err d =
     (let hit = (\<lambda>t. t_id t = i)
      in if list_ex hit (tasks d) \<and> \<not> task_status_allowed st then Inl Check_Violation
         else Inr (d\<lparr>tasks := upd_where hit (write_status now st result_summary err) (tasks d)\<rparr>))"

definition set_task_status_if_not_cancelled ::
    "int \<Rightarrow> string \<Rightarrow> string \<Rightarrow> string option \<Rightarrow> string option \<Rightarrow> db \<Rightarrow> db_error + (bool \<times> db)" where
  "set_task_status_if_not_cancelled now i st result_summary err d =
     (let hit = (\<lambda>t. t_id t = i \<and> t_status t \<noteq> ''cancelled'');
          rows = count_where hit (tasks d)
      in if 0 < rows \<and> \<not> task_status_allowed st then Inl Check_Violation
         else Inr (0 < rows,
                   d\<lparr>tasks := upd_where hit (write_status now st result_summary err) (tasks d)\<rparr>))"

definition terminal_string :: "string \<Rightarrow> bool" where
  "terminal_string s = (s = ''completed'' \<or> s = ''failed'' \<or> s = ''cancelled'')"

definition cancel_task_if_not_terminal ::
    "string \<Rightarrow> string option \<Rightarrow> int \<Rightarrow> db \<Rightarrow> bool \<times> db" where
  "cancel_task_if_not_terminal i reason now d =
     (let hit = (\<lambda>t. t_id t = i \<and> \<not> terminal_string (t_status t))
      in (0 < count_where hit (tasks d),
          d\<lparr>tasks := upd_where hit
              (\<lambda>t. t\<lparr>t_status := ''cancelled'', t_error := Some (unwrap_or ''CANCELLED'' reason),
                     t_completed_at_ms := Some now\<rparr>) (tasks d)\<rparr>))"

definition set_task_error_kind :: "string \<Rightarrow> string option \<Rightarrow> db \<Rightarrow> db" where
  "set_task_error_kind i kind d =
     d\<lparr>tasks := upd_where (\<lambda>t. t_id t = i) (\<lambda>t. t\<lparr>t_error_kind := kind\<rparr>) (tasks d)\<rparr>"

definition set_task_queue_reason :: "string \<Rightarrow> string option \<Rightarrow> db \<Rightarrow> db" where
  "set_task_queue_reason i reason d =
     d\<lparr>tasks := upd_where (\<lambda>t. t_id t = i) (\<lambda>t. t\<lparr>t_queue_reason := reason\<rparr>) (tasks d)\<rparr>"

text \<open>\<open>count as u32\<close> truncates; the count is the \<open>u32\<close> read as a number.\<close>

definition as_u32 :: "nat \<Rightarrow> nat" where
  "as_u32 n = n mod 2 ^ 32"

definition count_tasks_since :: "string \<Rightarrow> int \<Rightarrow> db \<Rightarrow> nat" where
  "count_tasks_since sid since d =
     as_u32 (count_where (\<lambda>t. t_subagent_id t = sid \<and> since < t_created_at_ms t) (tasks d))"

definition running_for :: "string \<Rightarrow> task_row \<Rightarrow> bool" where
  "running_for sid t = (t_subagent_id t = sid \<and> t_status t = ''running'')"

definition has_running_task :: "string \<Rightarrow> db \<Rightarrow> bool" where
  "has_running_task sid d = (0 < count_where (running_for sid) (tasks d))"

definition task_counts_by_status :: "db \<Rightarrow> nat \<times> nat" where
  "task_counts_by_status d =
     (as_u32 (count_where (\<lambda>t. t_status t = ''queued'') (tasks d)),
      as_u32 (count_where (\<lambda>t. t_status t = ''running'') (tasks d)))"

text \<open>
  The reaper. \<open>orphaned\<close> is its \<open>WHERE\<close> clause; the update is over the selected ids that are
  still running.
\<close>

definition orphaned :: "int \<Rightarrow> int \<Rightarrow> int \<Rightarrow> task_row \<Rightarrow> bool" where
  "orphaned now default_timeout buffer t =
     (t_status t = ''running'' \<and>
      (case t_started_at_ms t of
         None \<Rightarrow> False
       | Some started \<Rightarrow>
           started < now - (unwrap_or default_timeout (t_timeout_seconds t) * 1000 + buffer)))"

definition reap_orphaned_running_tasks ::
    "int \<Rightarrow> int \<Rightarrow> int \<Rightarrow> db \<Rightarrow> string list \<times> db" where
  "reap_orphaned_running_tasks now default_timeout buffer d =
     (let ids = map t_id (filter (orphaned now default_timeout buffer) (tasks d))
      in if ids = [] then ([], d)
         else (ids,
               d\<lparr>tasks := upd_where (\<lambda>t. t_status t = ''running'' \<and> t_id t \<in> set ids)
                   (\<lambda>t. t\<lparr>t_status := ''failed'', t_error := Some ''ORPHANED_REAPED'',
                          t_completed_at_ms := Some now\<rparr>) (tasks d)\<rparr>))"

text \<open>
  The dispatcher's pick: the oldest queued task of a subagent with no running task, flipped to
  running in the same transaction.
\<close>

definition eligible :: "task_row list \<Rightarrow> task_row \<Rightarrow> bool" where
  "eligible ts t = (t_status t = ''queued'' \<and> \<not> list_ex (running_for (t_subagent_id t)) ts)"

definition oldest_first :: "task_row \<Rightarrow> task_row \<Rightarrow> bool" where
  "oldest_first a b = (t_created_at_ms a \<le> t_created_at_ms b)"

text \<open>The \<open>SET\<close> clause of the flip.\<close>

definition start_task :: "int \<Rightarrow> task_row \<Rightarrow> task_row" where
  "start_task now t = t\<lparr>t_status := ''running'', t_started_at_ms := Some now, t_queue_reason := None\<rparr>"

definition pick_oldest_queued_task :: "int \<Rightarrow> db \<Rightarrow> task_row option \<times> db" where
  "pick_oldest_queued_task now d =
     (case sort_by oldest_first (filter (eligible (tasks d)) (tasks d)) of
        [] \<Rightarrow> (None, d)
      | c # _ \<Rightarrow>
          (let hit = (\<lambda>t. t_id t = t_id c \<and> t_status t = ''queued'');
               rows = count_where hit (tasks d)
           in if rows = 0 then (None, d)
              else let d' = d\<lparr>tasks := upd_where hit (start_task now) (tasks d)\<rparr>
                   in (get_task (t_id c) d', d')))"

definition newest_then_id :: "task_row \<Rightarrow> task_row \<Rightarrow> bool" where
  "newest_then_id a b =
     (t_created_at_ms b < t_created_at_ms a
      \<or> (t_created_at_ms a = t_created_at_ms b \<and> str_le (t_id b) (t_id a)))"

definition list_recent_tasks_all :: "int \<Rightarrow> db \<Rightarrow> task_row list" where
  "list_recent_tasks_all limit d = sql_limit limit (sort_by newest_then_id (tasks d))"

definition count_tasks_by_subagent :: "db \<Rightarrow> (string \<times> nat) list" where
  "count_tasks_by_subagent d =
     map (\<lambda>sid. (sid, count_where (\<lambda>t. t_subagent_id t = sid) (tasks d)))
       (remdups (map t_subagent_id (tasks d)))"

definition last_task_by_subagent :: "db \<Rightarrow> (string \<times> int \<times> string) list" where
  "last_task_by_subagent d =
     List.map_filter
       (\<lambda>sid. case sort_by newest_then_id (filter (\<lambda>t. t_subagent_id t = sid) (tasks d)) of
                [] \<Rightarrow> None
              | t # _ \<Rightarrow> Some (sid, t_created_at_ms t, t_status t))
       (remdups (map t_subagent_id (tasks d)))"

section \<open>Comparisons are orders\<close>

lemma newest_first_order: "transp newest_first" "totalp newest_first" "reflp newest_first"
  by (auto simp: newest_first_def transp_def totalp_on_def reflp_def)

lemma oldest_first_order: "transp oldest_first" "totalp oldest_first" "reflp oldest_first"
  by (auto simp: oldest_first_def transp_def totalp_on_def reflp_def)

lemma newest_then_id_order:
  "transp newest_then_id" "totalp newest_then_id" "reflp newest_then_id"
proof -
  show "transp newest_then_id"
    by (auto simp: newest_then_id_def transp_def intro: str_le_trans)
  show "totalp newest_then_id"
    using str_le_total by (fastforce simp: newest_then_id_def totalp_on_def)
  show "reflp newest_then_id"
    by (auto simp: newest_then_id_def reflp_def)
qed

section \<open>The task table's invariant\<close>

text \<open>
  A row: a status of the schema, a prompt or an artifact, not started while queued, started while
  running. The table: unique ids and at most one running task per subagent.
\<close>

definition task_ok :: "task_row \<Rightarrow> bool" where
  "task_ok t \<longleftrightarrow> task_status_allowed (t_status t)
     \<and> (t_prompt t \<noteq> None \<or> t_prompt_artifact_ref t \<noteq> None)
     \<and> (t_status t = ''queued'' \<longrightarrow> t_started_at_ms t = None)
     \<and> (t_status t = ''running'' \<longrightarrow> t_started_at_ms t \<noteq> None)"

definition tasks_ok :: "task_row list \<Rightarrow> bool" where
  "tasks_ok ts \<longleftrightarrow> distinct (map t_id ts) \<and> (\<forall>t \<in> set ts. task_ok t)
     \<and> (\<forall>sid. count_where (running_for sid) ts \<le> 1)"

lemma tasks_ok_Nil [simp]: "tasks_ok []"
  by (simp add: tasks_ok_def)

lemma tasks_okD:
  assumes "tasks_ok ts"
  shows "distinct (map t_id ts)" "t \<in> set ts \<Longrightarrow> task_ok t" "count_where (running_for sid) ts \<le> 1"
  using assms by (auto simp: tasks_ok_def)

lemma write_status_fields [simp]:
  "t_id (write_status now st rs er t) = t_id t"
  "t_subagent_id (write_status now st rs er t) = t_subagent_id t"
  "t_status (write_status now st rs er t) = st"
  "t_prompt (write_status now st rs er t) = t_prompt t"
  "t_prompt_artifact_ref (write_status now st rs er t) = t_prompt_artifact_ref t"
  "t_created_at_ms (write_status now st rs er t) = t_created_at_ms t"
  "t_queue_reason (write_status now st rs er t) = t_queue_reason t"
  by (simp_all add: write_status_def Let_def)

lemma write_status_started:
  "t_started_at_ms (write_status now st rs er t) =
     (if st = ''queued'' then None else t_started_at_ms t)"
  by (simp add: write_status_def Let_def)

lemma write_status_ok:
  "task_ok t \<Longrightarrow> task_status_allowed st \<Longrightarrow> st \<noteq> ''running'' \<Longrightarrow>
   task_ok (write_status now st rs er t)"
  by (simp add: task_ok_def write_status_started)

text \<open>
  The update lemma every statement uses: an update that keeps ids, keeps each touched row in
  order and never makes a row running keeps the table's invariant.
\<close>

lemma tasks_ok_upd:
  assumes ok: "tasks_ok ts"
    and key: "\<And>t. P t \<Longrightarrow> t_id (f t) = t_id t"
    and row: "\<And>t. P t \<Longrightarrow> task_ok t \<Longrightarrow> task_ok (f t)"
    and run: "\<And>t sid. P t \<Longrightarrow> running_for sid (f t) \<Longrightarrow> running_for sid t"
  shows "tasks_ok (upd_where P f ts)"
proof -
  have "distinct (map t_id (upd_where P f ts))"
    using tasks_okD(1)[OF ok] map_upd_where[of P t_id f ts] key by simp
  moreover have "\<forall>t \<in> set (upd_where P f ts). task_ok t"
    using tasks_okD(2)[OF ok] row by (auto simp: upd_where_def)
  moreover have "count_where (running_for sid) (upd_where P f ts) \<le> 1" for sid
    using count_where_upd_le[of ts P "running_for sid" f] run tasks_okD(3)[OF ok, of sid]
    by (meson le_trans)
  ultimately show ?thesis by (simp add: tasks_ok_def)
qed

lemma insert_taskD:
  assumes "insert_task row d = Inr d'"
  shows "d' = d\<lparr>tasks := tasks d @ [row]\<rparr>" "t_id row \<notin> t_id ` set (tasks d)"
    "task_status_allowed (t_status row)" "has_logical (t_subagent_id row) d"
    "t_prompt row \<noteq> None \<or> t_prompt_artifact_ref row \<noteq> None"
  using assms by (auto simp: insert_task_def list_ex_iff split: if_splits)

lemma insert_task_ok:
  assumes "insert_task row d = Inr d'" "tasks_ok (tasks d)" "task_ok row"
    and "t_status row = ''running'' \<Longrightarrow> \<not> has_running_task (t_subagent_id row) d"
  shows "tasks_ok (tasks d')"
  using insert_taskD(1,2)[OF assms(1)] assms(2-4)
  by (auto simp: tasks_ok_def has_running_task_def running_for_def)

lemma set_task_status_ok:
  "set_task_status now i st rs er d = Inr d' \<Longrightarrow> st \<noteq> ''running'' \<Longrightarrow> tasks_ok (tasks d) \<Longrightarrow>
   tasks_ok (tasks d')"
proof -
  assume a: "set_task_status now i st rs er d = Inr d'" "st \<noteq> ''running''" "tasks_ok (tasks d)"
  show ?thesis
  proof (cases "list_ex (\<lambda>t. t_id t = i) (tasks d)")
    case True
    with a have "task_status_allowed st"
      and d': "d' = d\<lparr>tasks := upd_where (\<lambda>t. t_id t = i) (write_status now st rs er) (tasks d)\<rparr>"
      by (auto simp: set_task_status_def split: if_splits)
    with a show ?thesis
      by (auto intro!: tasks_ok_upd write_status_ok simp: running_for_def)
  next
    case False
    then have "upd_where (\<lambda>t. t_id t = i) (write_status now st rs er) (tasks d) = tasks d"
      by (intro upd_where_id) (auto simp: list_ex_iff)
    with a False show ?thesis by (auto simp: set_task_status_def)
  qed
qed

lemma set_if_not_cancelled_ok:
  assumes "set_task_status_if_not_cancelled now i st rs er d = Inr (u, d')"
    and "st \<noteq> ''running''" "tasks_ok (tasks d)"
  shows "tasks_ok (tasks d')"
proof (cases "count_where (\<lambda>t. t_id t = i \<and> t_status t \<noteq> ''cancelled'') (tasks d) = 0")
  case True
  then have "upd_where (\<lambda>t. t_id t = i \<and> t_status t \<noteq> ''cancelled'')
      (write_status now st rs er) (tasks d) = tasks d"
    by (intro upd_where_id) (auto simp: count_where_zero)
  with assms True show ?thesis by (auto simp: set_task_status_if_not_cancelled_def Let_def)
next
  case False
  with assms show ?thesis
    by (auto simp: set_task_status_if_not_cancelled_def Let_def running_for_def split: if_splits
        intro!: tasks_ok_upd write_status_ok)
qed

lemma cancel_task_ok:
  "cancel_task_if_not_terminal i reason now d = (u, d') \<Longrightarrow> tasks_ok (tasks d) \<Longrightarrow>
   tasks_ok (tasks d')"
  by (auto simp: cancel_task_if_not_terminal_def Let_def task_ok_def running_for_def
      intro!: tasks_ok_upd)

lemma set_task_error_kind_ok: "tasks_ok (tasks d) \<Longrightarrow> tasks_ok (tasks (set_task_error_kind i k d))"
  by (auto simp: set_task_error_kind_def task_ok_def running_for_def intro!: tasks_ok_upd)

lemma set_task_queue_reason_ok:
  "tasks_ok (tasks d) \<Longrightarrow> tasks_ok (tasks (set_task_queue_reason i r d))"
  by (auto simp: set_task_queue_reason_def task_ok_def running_for_def intro!: tasks_ok_upd)

lemma reap_ok:
  "reap_orphaned_running_tasks now dt buf d = (ids, d') \<Longrightarrow> tasks_ok (tasks d) \<Longrightarrow>
   tasks_ok (tasks d')"
  by (auto simp: reap_orphaned_running_tasks_def Let_def task_ok_def running_for_def
      split: if_splits intro!: tasks_ok_upd)


section \<open>The dispatcher's pick\<close>

text \<open>
  What the pick does: nothing when no task is eligible; otherwise it starts an eligible task than
  which no eligible one is older, and returns the row as it now stands.
\<close>

lemma pick_cases [consumes 1, case_names none some]:
  assumes ok: "tasks_ok (tasks d)"
  obtains
    (none) "pick_oldest_queued_task now d = (None, d)" "\<forall>t \<in> set (tasks d). \<not> eligible (tasks d) t"
  | (some) c where "c \<in> set (tasks d)" "eligible (tasks d) c"
      "\<forall>t \<in> set (tasks d). eligible (tasks d) t \<longrightarrow> t_created_at_ms c \<le> t_created_at_ms t"
      "pick_oldest_queued_task now d =
         (Some (start_task now c),
          d\<lparr>tasks := upd_where (\<lambda>t. t = c) (start_task now) (tasks d)\<rparr>)"
proof (cases "sort_by oldest_first (filter (eligible (tasks d)) (tasks d))")
  case Nil
  then have "filter (eligible (tasks d)) (tasks d) = []" by (metis set_empty set_sort_by)
  then have "\<forall>t \<in> set (tasks d). \<not> eligible (tasks d) t" by (simp add: filter_empty_conv)
  with Nil show ?thesis by (intro none) (simp_all add: pick_oldest_queued_task_def)
next
  case (Cons c cs)
  then have "c \<in> set (filter (eligible (tasks d)) (tasks d))"
    by (metis list.set_intros(1) set_sort_by)
  then have c: "c \<in> set (tasks d)" "eligible (tasks d) c" by auto
  from c have q: "t_status c = ''queued''" by (simp add: eligible_def)
  note dist = tasks_okD(1)[OF ok]
  let ?hit = "\<lambda>t. t_id t = t_id c \<and> t_status t = ''queued''"
  have one: "count_where ?hit (tasks d) = 1"
    using count_where_unique[where k = t_id and P = "\<lambda>t. t_status t = ''queued''", OF dist c(1)] q
    by simp
  have upd: "upd_where ?hit (start_task now) (tasks d)
      = upd_where (\<lambda>t. t = c) (start_task now) (tasks d)"
    using upd_where_unique[where k = t_id and P = "\<lambda>t. t_status t = ''queued''", OF dist c(1)] q
    by simp
  let ?d' = "d\<lparr>tasks := upd_where (\<lambda>t. t = c) (start_task now) (tasks d)\<rparr>"
  have "start_task now c \<in> set (tasks ?d')" using upd_where_hit[OF c(1)] by simp
  moreover have "distinct (map t_id (tasks ?d'))"
    using dist map_upd_where[of "\<lambda>t. t = c" t_id "start_task now"] by (simp add: start_task_def)
  ultimately have "get_task (t_id c) ?d' = Some (start_task now c)"
    using find_distinct_key[where k = t_id] by (force simp: get_task_def start_task_def)
  with Cons one upd have res: "pick_oldest_queued_task now d = (Some (start_task now c), ?d')"
    by (simp add: pick_oldest_queued_task_def Let_def)
  have "\<forall>t \<in> set (tasks d). eligible (tasks d) t \<longrightarrow> t_created_at_ms c \<le> t_created_at_ms t"
    using sort_by_hd_least[OF oldest_first_order Cons] by (auto simp: oldest_first_def)
  with c res show ?thesis by (intro some)
qed

lemma pick_ok:
  assumes ok: "tasks_ok (tasks d)" and pick: "pick_oldest_queued_task now d = (r, d')"
  shows "tasks_ok (tasks d')"
  using ok
proof (cases rule: pick_cases[where now = now])
  case none
  with pick ok show ?thesis by simp
next
  case (some c)
  let ?ts = "upd_where (\<lambda>t. t = c) (start_task now) (tasks d)"
  have d': "tasks d' = ?ts" using some(4) pick by simp
  have "distinct (map t_id ?ts)"
    using tasks_okD(1)[OF ok] map_upd_where[of "\<lambda>t. t = c" t_id "start_task now"]
    by (simp add: start_task_def)
  moreover have "task_ok (start_task now c)"
    using tasks_okD(2)[OF ok some(1)] by (auto simp: task_ok_def start_task_def)
  then have "\<forall>t \<in> set ?ts. task_ok t"
    using tasks_okD(2)[OF ok] by (auto simp: upd_where_def)
  moreover have "count_where (running_for sid) ?ts \<le> 1" for sid
  proof (cases "sid = t_subagent_id c")
    case True
    have "\<forall>t \<in> set (tasks d). \<not> running_for sid t"
      using some(2) True by (auto simp: eligible_def list_ex_iff)
    then show ?thesis
      using distinct_map_distinct[OF tasks_okD(1)[OF ok]] by (intro count_where_upd_single)
  next
    case False
    then have "count_where (running_for sid) ?ts \<le> count_where (running_for sid) (tasks d)"
      by (intro count_where_upd_le) (auto simp: running_for_def start_task_def)
    then show ?thesis using tasks_okD(3)[OF ok, of sid] by simp
  qed
  ultimately show ?thesis using d' by (simp add: tasks_ok_def)
qed


section \<open>The interface the manager writes through\<close>

text \<open>
  What \<open>SubagentManager\<close> relies on when an executor's terminal write races with a cancel: a
  guarded write on a live task sets its status and says so, on a cancelled task it changes
  nothing and says so, a cancel changes live tasks only, and neither touches another task.
\<close>

locale task_store =
  fixes get :: "string \<Rightarrow> 'db \<Rightarrow> 'task option"
    and status :: "'task \<Rightarrow> string"
    and guarded :: "int \<Rightarrow> string \<Rightarrow> string \<Rightarrow> string option \<Rightarrow> string option \<Rightarrow> 'db \<Rightarrow>
                    db_error + (bool \<times> 'db)"
    and cancel :: "string \<Rightarrow> string option \<Rightarrow> int \<Rightarrow> 'db \<Rightarrow> bool \<times> 'db"
    and wf :: "'db \<Rightarrow> bool"
  assumes guarded_live:
      "wf d \<Longrightarrow> get i d = Some t \<Longrightarrow> status t \<noteq> ''cancelled'' \<Longrightarrow>
       guarded now i st rs er d = Inr (u, d') \<Longrightarrow>
       u \<and> (\<exists>t'. get i d' = Some t' \<and> status t' = st)"
    and guarded_cancelled:
      "wf d \<Longrightarrow> get i d = Some t \<Longrightarrow> status t = ''cancelled'' \<Longrightarrow>
       guarded now i st rs er d = Inr (False, d)"
    and guarded_other:
      "wf d \<Longrightarrow> guarded now j st rs er d = Inr (u, d') \<Longrightarrow> i \<noteq> j \<Longrightarrow> get i d' = get i d"
    and guarded_wf: "wf d \<Longrightarrow> guarded now i st rs er d = Inr (u, d') \<Longrightarrow> wf d'"
    and cancel_live:
      "wf d \<Longrightarrow> get i d = Some t \<Longrightarrow> \<not> terminal_string (status t) \<Longrightarrow> cancel i r now d = (u, d') \<Longrightarrow>
       u \<and> (\<exists>t'. get i d' = Some t' \<and> status t' = ''cancelled'')"
    and cancel_done:
      "wf d \<Longrightarrow> get i d = Some t \<Longrightarrow> terminal_string (status t) \<Longrightarrow> cancel i r now d = (False, d)"
    and cancel_other: "wf d \<Longrightarrow> cancel j r now d = (u, d') \<Longrightarrow> i \<noteq> j \<Longrightarrow> get i d' = get i d"
    and cancel_wf: "wf d \<Longrightarrow> cancel i r now d = (u, d') \<Longrightarrow> wf d'"

text \<open>A write or a cancel as a value, and a run of them; a failed statement changes nothing.\<close>

datatype store_write =
    Guarded_Write int string string "string option" "string option"
  | Cancel_Write string "string option" int

fun store_step ::
    "(int \<Rightarrow> string \<Rightarrow> string \<Rightarrow> string option \<Rightarrow> string option \<Rightarrow> 'db \<Rightarrow> db_error + (bool \<times> 'db)) \<Rightarrow>
     (string \<Rightarrow> string option \<Rightarrow> int \<Rightarrow> 'db \<Rightarrow> bool \<times> 'db) \<Rightarrow> store_write \<Rightarrow> 'db \<Rightarrow> 'db" where
  "store_step g c (Guarded_Write now i st rs er) d =
     (case g now i st rs er d of Inl _ \<Rightarrow> d | Inr (_, d') \<Rightarrow> d')"
| "store_step g c (Cancel_Write i r now) d = snd (c i r now d)"

context task_store begin

lemma step_wf: "wf d \<Longrightarrow> wf (store_step guarded cancel w d)"
  by (cases w) (auto split: sum.splits intro: guarded_wf cancel_wf prod.collapse[symmetric])

lemma step_keeps_cancelled:
  assumes "wf d" "get i d = Some t" "status t = ''cancelled''"
  shows "get i (store_step guarded cancel w d) = Some t"
proof (cases w)
  case (Guarded_Write now j st rs er)
  with assms show ?thesis
    using guarded_cancelled[OF assms] guarded_other[OF assms(1)]
    by (cases "i = j") (auto split: sum.splits)
next
  case (Cancel_Write j r now)
  have fin: "terminal_string (status t)" using assms(3) by (simp add: terminal_string_def)
  obtain u d' where c: "cancel j r now d = (u, d')" by (cases "cancel j r now d")
  with Cancel_Write assms cancel_done[OF assms(1,2) fin] cancel_other[OF assms(1) c]
  show ?thesis by (cases "i = j") auto
qed

lemma cancelled_is_final:
  "wf d \<Longrightarrow> get i d = Some t \<Longrightarrow> status t = ''cancelled'' \<Longrightarrow>
   get i (fold (store_step guarded cancel) ws d) = Some t"
  by (induction ws arbitrary: d) (auto simp: step_wf step_keeps_cancelled)

text \<open>A cancel that reports success wins over every later executor write.\<close>

lemma successful_cancel_is_final:
  assumes "wf d" "get i d = Some t" "cancel i r now d = (True, d')"
  shows "\<exists>t'. get i (fold (store_step guarded cancel) ws d') = Some t' \<and> status t' = ''cancelled''"
proof -
  have "\<not> terminal_string (status t)" using cancel_done[OF assms(1,2), of r now] assms(3) by auto
  then obtain t' where "get i d' = Some t'" "status t' = ''cancelled''"
    using cancel_live[OF assms(1,2) _ assms(3)] by blast
  with cancelled_is_final[OF cancel_wf[OF assms(1,3)]] show ?thesis by blast
qed

end

definition unique_task_ids :: "db \<Rightarrow> bool" where
  "unique_task_ids d = distinct (map t_id (tasks d))"

lemma get_task_upd:
  assumes "unique_task_ids d" "\<And>t. P t \<Longrightarrow> t_id (f t) = t_id t"
  shows "get_task i (d\<lparr>tasks := upd_where P f (tasks d)\<rparr>) =
           map_option (\<lambda>t. if P t then f t else t) (get_task i d)"
  using assms(2) by (simp add: get_task_def find_upd_where)

lemma get_task_in: "get_task i d = Some t \<Longrightarrow> t \<in> set (tasks d) \<and> t_id t = i"
  using find_SomeD by (fastforce simp: get_task_def)

lemma get_task_unique:
  "unique_task_ids d \<Longrightarrow> t \<in> set (tasks d) \<Longrightarrow> get_task (t_id t) d = Some t"
  by (simp add: unique_task_ids_def get_task_def find_distinct_key)

lemma count_where_get_task:
  assumes "unique_task_ids d"
  shows "0 < count_where (\<lambda>t. t_id t = i \<and> P t) (tasks d) \<longleftrightarrow> (\<exists>t. get_task i d = Some t \<and> P t)"
  using get_task_in get_task_unique[OF assms] by (fastforce simp: count_where_pos)

lemma unique_task_ids_upd:
  "unique_task_ids d \<Longrightarrow> (\<And>t. P t \<Longrightarrow> t_id (f t) = t_id t) \<Longrightarrow>
   unique_task_ids (d\<lparr>tasks := upd_where P f (tasks d)\<rparr>)"
  using map_upd_where[of P t_id f "tasks d"] by (simp add: unique_task_ids_def)

text \<open>
  The characteristic equation of the guarded write, used by every proof about it: on a table with
  unique ids it is the write of one row, or nothing.
\<close>

lemma set_if_not_cancelled_eq:
  assumes "unique_task_ids d"
  shows "set_task_status_if_not_cancelled now i st rs er d =
    (case get_task i d of
       None \<Rightarrow> Inr (False, d)
     | Some t \<Rightarrow>
         if t_status t = ''cancelled'' then Inr (False, d)
         else if \<not> task_status_allowed st then Inl Check_Violation
         else Inr (True, d\<lparr>tasks := upd_where (\<lambda>u. u = t) (write_status now st rs er) (tasks d)\<rparr>))"
proof (cases "0 < count_where (\<lambda>t. t_id t = i \<and> t_status t \<noteq> ''cancelled'') (tasks d)")
  case True
  then obtain t where t: "get_task i d = Some t" "t_status t \<noteq> ''cancelled''"
    using count_where_get_task[OF assms, of i "\<lambda>t. t_status t \<noteq> ''cancelled''"] by auto
  let ?hit = "\<lambda>t. t_id t = i \<and> t_status t \<noteq> ''cancelled''"
  have "upd_where ?hit f (tasks d) = upd_where (\<lambda>u. u = t) f (tasks d)" for f
    using upd_where_unique[where P = "\<lambda>t. t_status t \<noteq> ''cancelled''", OF assms[unfolded unique_task_ids_def]
        _ t(2), of f] get_task_in[OF t(1)]
    by blast
  with True t show ?thesis by (simp add: set_task_status_if_not_cancelled_def Let_def)
next
  case False
  then have "upd_where (\<lambda>t. t_id t = i \<and> t_status t \<noteq> ''cancelled'') f (tasks d) = tasks d" for f
    by (intro upd_where_id) (auto simp: count_where_pos)
  moreover have "get_task i d = Some t \<Longrightarrow> t_status t = ''cancelled''" for t
    using False count_where_get_task[OF assms, of i "\<lambda>t. t_status t \<noteq> ''cancelled''"] by auto
  ultimately show ?thesis using False
    by (auto simp: set_task_status_if_not_cancelled_def Let_def split: option.splits)
qed

interpretation store: task_store get_task t_status set_task_status_if_not_cancelled
  cancel_task_if_not_terminal unique_task_ids
proof unfold_locales
  fix d i t now st rs er u d'
  assume wf: "unique_task_ids d" and g: "get_task i d = Some t" and live: "t_status t \<noteq> ''cancelled''"
    and w: "set_task_status_if_not_cancelled now i st rs er d = Inr (u, d')"
  from wf g live w have "u" and
    d': "d' = d\<lparr>tasks := upd_where (\<lambda>u. u = t) (write_status now st rs er) (tasks d)\<rparr>"
    by (auto simp: set_if_not_cancelled_eq split: if_splits)
  then show "u \<and> (\<exists>t'. get_task i d' = Some t' \<and> t_status t' = st)"
    using g by (simp add: get_task_upd[OF wf])
next
  fix d i t now st rs er
  assume "unique_task_ids d" "get_task i d = Some t" "t_status t = ''cancelled''"
  then show "set_task_status_if_not_cancelled now i st rs er d = Inr (False, d)"
    by (simp add: set_if_not_cancelled_eq)
next
  fix d now j st rs er u d' i
  assume wf: "unique_task_ids d" and w: "set_task_status_if_not_cancelled now j st rs er d = Inr (u, d')"
    and ne: "i \<noteq> (j :: string)"
  show "get_task i d' = get_task i d"
  proof (cases "d' = d")
    case False
    with w wf obtain t where t: "get_task j d = Some t"
      and d': "d' = d\<lparr>tasks := upd_where (\<lambda>u. u = t) (write_status now st rs er) (tasks d)\<rparr>"
      by (auto simp: set_if_not_cancelled_eq split: option.splits if_splits)
    have "get_task i d \<noteq> Some t" using get_task_in[OF t] get_task_in[of i d t] ne by blast
    with d' show ?thesis by (cases "get_task i d") (simp_all add: get_task_upd[OF wf])
  qed simp
next
  fix d now i st rs er u d'
  assume "unique_task_ids d" "set_task_status_if_not_cancelled now i st rs er d = Inr (u, d')"
  then show "unique_task_ids d'"
    by (auto simp: set_if_not_cancelled_eq unique_task_ids_upd split: if_splits option.splits)
next
  fix d i t r now u d'
  assume wf: "unique_task_ids d" and g: "get_task i d = Some t" and live: "\<not> terminal_string (t_status t)"
    and c: "cancel_task_if_not_terminal i r now d = (u, d')"
  have "0 < count_where (\<lambda>t. t_id t = i \<and> \<not> terminal_string (t_status t)) (tasks d)"
    using count_where_get_task[OF wf, of i "\<lambda>t. \<not> terminal_string (t_status t)"] g live by auto
  with c g live get_task_in[OF g] show "u \<and> (\<exists>t'. get_task i d' = Some t' \<and> t_status t' = ''cancelled'')"
    by (auto simp: cancel_task_if_not_terminal_def Let_def get_task_upd[OF wf])
next
  fix d i t r now
  assume wf: "unique_task_ids d" and g: "get_task i d = Some t" and fin: "terminal_string (t_status t)"
  have none: "count_where (\<lambda>t. t_id t = i \<and> \<not> terminal_string (t_status t)) (tasks d) = 0"
    using count_where_get_task[OF wf, of i "\<lambda>t. \<not> terminal_string (t_status t)"] g fin by simp
  then have "upd_where (\<lambda>t. t_id t = i \<and> \<not> terminal_string (t_status t)) f (tasks d) = tasks d" for f
    by (intro upd_where_id) (simp add: count_where_zero)
  with none show "cancel_task_if_not_terminal i r now d = (False, d)"
    by (simp add: cancel_task_if_not_terminal_def Let_def)
next
  fix d j r now u d' i
  assume wf: "unique_task_ids d" and c: "cancel_task_if_not_terminal j r now d = (u, d')"
    and ne: "i \<noteq> (j :: string)"
  then show "get_task i d' = get_task i d"
    by (cases "get_task i d")
      (auto simp: cancel_task_if_not_terminal_def Let_def get_task_upd dest: get_task_in)
next
  fix d i r now u d'
  assume "unique_task_ids d" "cancel_task_if_not_terminal i r now d = (u, d')"
  then show "unique_task_ids d'"
    by (auto simp: cancel_task_if_not_terminal_def Let_def unique_task_ids_upd)
qed

section \<open>Properties\<close>

text \<open>A row for the examples: a prompt task with a status, a start and a creation time.\<close>

definition sample_task :: "string \<Rightarrow> string \<Rightarrow> string \<Rightarrow> int \<Rightarrow> int option \<Rightarrow> task_row" where
  "sample_task i sid st created started =
     \<lparr>t_id = i, t_subagent_id = sid, t_source_harness = None, t_source_session_id = None,
      t_intent = None, t_profile = ''pi/search-cheap'', t_prompt = Some ''p'',
      t_prompt_artifact_ref = None, t_output_schema_name = None, t_output_schema_version = 1,
      t_status = st, t_result_summary = None, t_result_json = None, t_error = None,
      t_created_at_ms = created, t_started_at_ms = started, t_completed_at_ms = None,
      t_timeout_seconds = None, t_model_override = None, t_error_kind = None, t_queue_reason = None\<rparr>"

definition sample_db :: db where
  "sample_db = empty_db\<lparr>tasks :=
     [sample_task ''a'' ''x'' ''running'' 1 (Some 1), sample_task ''b'' ''x'' ''queued'' 2 None,
      sample_task ''c'' ''y'' ''queued'' 4 None, sample_task ''d'' ''z'' ''queued'' 3 None]\<rparr>"

lemma sample_tasks_ok: "tasks_ok (tasks sample_db)"
proof -
  have "count_where (running_for sid) (tasks sample_db) \<le> 1" for sid
    by (simp add: sample_db_def sample_task_def running_for_def)
  then show ?thesis
    by (simp add: tasks_ok_def) (simp add: sample_db_def sample_task_def task_ok_def)
qed

lemma eligible_iff:
  "eligible (tasks d) t \<longleftrightarrow> t_status t = ''queued'' \<and> \<not> has_running_task (t_subagent_id t) d"
  by (auto simp: eligible_def has_running_task_def list_ex_iff count_where_zero)

text \<open>
  C2. The dispatcher's pick serves subagents first-in first-out and serializes each: it starts a
  queued task of a subagent without a running task, and none created earlier was eligible; when it
  starts nothing, every queued task waits for a running one of its subagent and the table is
  unchanged.
\<close>

theorem pick_fifo_per_subagent:
  assumes "tasks_ok (tasks d)" "pick_oldest_queued_task now d = (r, d')"
  shows "case r of
      None \<Rightarrow> d' = d \<and> (\<forall>t \<in> set (tasks d). t_status t = ''queued'' \<longrightarrow> has_running_task (t_subagent_id t) d)
    | Some t \<Rightarrow> \<exists>c \<in> set (tasks d).
        t_status c = ''queued'' \<and> \<not> has_running_task (t_subagent_id c) d
        \<and> (\<forall>u \<in> set (tasks d). t_status u = ''queued'' \<and> \<not> has_running_task (t_subagent_id u) d
              \<longrightarrow> t_created_at_ms c \<le> t_created_at_ms u)
        \<and> t = c\<lparr>t_status := ''running'', t_started_at_ms := Some now, t_queue_reason := None\<rparr>
        \<and> tasks d' = map (\<lambda>u. if u = c then t else u) (tasks d)"
  using assms(1)
proof (cases rule: pick_cases[where now = now])
  case none
  with assms(2) show ?thesis by (auto simp: eligible_iff)
next
  case (some c)
  with assms(2) show ?thesis
    by (auto simp: eligible_iff start_task_def upd_where_def intro!: bexI[of _ c])
qed

theorem pick_fifo_per_subagent_witness:
  "\<exists>c \<in> set (tasks sample_db). t_status c = ''queued'' \<and> \<not> has_running_task (t_subagent_id c) sample_db
     \<and> t_id c = ''d''"
proof -
  have "fst (pick_oldest_queued_task 9 sample_db) = Some (sample_task ''d'' ''z'' ''running'' 3 (Some 9))"
    by (simp add: sample_db_def sample_task_def pick_oldest_queued_task_def eligible_def running_for_def
        oldest_first_def start_task_def get_task_def)
  then obtain d' where "pick_oldest_queued_task 9 sample_db
      = (Some (sample_task ''d'' ''z'' ''running'' 3 (Some 9)), d')"
    by (metis prod.collapse)
  from pick_fifo_per_subagent[OF sample_tasks_ok this] obtain c where
    c: "c \<in> set (tasks sample_db)" "t_status c = ''queued''"
       "\<not> has_running_task (t_subagent_id c) sample_db"
    and eq: "sample_task ''d'' ''z'' ''running'' 3 (Some 9)
      = c\<lparr>t_status := ''running'', t_started_at_ms := Some 9, t_queue_reason := None\<rparr>"
    by auto
  from arg_cong[OF eq, of t_id] have "t_id c = ''d''" by (simp add: sample_task_def)
  with c show ?thesis by blast
qed

text \<open>
  The reaper fails exactly the running tasks started longer ago than their timeout (their
  own, else the default) plus the buffer, reports exactly their ids, and changes no other row.
\<close>

theorem reap_exact:
  assumes "unique_task_ids d" "reap_orphaned_running_tasks now default_timeout buffer d = (ids, d')"
  shows "ids = map t_id (filter (orphaned now default_timeout buffer) (tasks d))
    \<and> tasks d' = map (\<lambda>t. if orphaned now default_timeout buffer t
                          then t\<lparr>t_status := ''failed'', t_error := Some ''ORPHANED_REAPED'',
                                 t_completed_at_ms := Some now\<rparr>
                          else t) (tasks d)"
proof -
  let ?o = "orphaned now default_timeout buffer"
  have ids: "ids = map t_id (filter ?o (tasks d))"
    using assms(2) by (auto simp: reap_orphaned_running_tasks_def Let_def split: if_splits)
  have hit: "t_status t = ''running'' \<and> t_id t \<in> set ids \<longleftrightarrow> ?o t" if "t \<in> set (tasks d)" for t
    using that distinct_key_inj[OF assms(1)[unfolded unique_task_ids_def], of t]
    by (auto simp: ids orphaned_def)
  show ?thesis
  proof (cases "ids = []")
    case True
    with ids have "\<forall>t \<in> set (tasks d). \<not> ?o t" by (simp add: filter_empty_conv)
    with True assms(2) ids show ?thesis
      by (auto simp: reap_orphaned_running_tasks_def Let_def intro: map_idI[symmetric] split: if_splits)
  next
    case False
    with assms(2) ids have "tasks d' = upd_where (\<lambda>t. t_status t = ''running'' \<and> t_id t \<in> set ids)
        (\<lambda>t. t\<lparr>t_status := ''failed'', t_error := Some ''ORPHANED_REAPED'', t_completed_at_ms := Some now\<rparr>)
        (tasks d)"
      by (auto simp: reap_orphaned_running_tasks_def Let_def split: if_splits)
    with ids hit show ?thesis by (simp add: upd_where_def)
  qed
qed

theorem reap_exact_witness:
  "map t_id (filter (orphaned 400000 300 60000) (tasks sample_db)) = [''a'']
   \<and> t_status (hd (tasks (snd (reap_orphaned_running_tasks 400000 300 60000 sample_db)))) = ''failed''"
proof -
  have u: "unique_task_ids sample_db" by (simp add: unique_task_ids_def sample_db_def sample_task_def)
  have o: "map t_id (filter (orphaned 400000 300 60000) (tasks sample_db)) = [''a'']"
    by (simp add: sample_db_def sample_task_def orphaned_def)
  show ?thesis
    using reap_exact[OF u prod.collapse[symmetric], of 400000 300 60000] o
    by (simp add: sample_db_def sample_task_def orphaned_def)
qed

text \<open>
  C4. A cancel that reports success is final: whatever guarded writes and further cancels follow,
  in any order, the task is still there and still cancelled.
\<close>

theorem successful_cancel_wins:
  assumes "unique_task_ids d" "get_task i d = Some t" "cancel_task_if_not_terminal i reason now d = (True, d')"
  shows "\<exists>t'. get_task i (fold (store_step set_task_status_if_not_cancelled cancel_task_if_not_terminal) ws d')
              = Some t' \<and> t_status t' = ''cancelled''"
  using assms by (rule store.successful_cancel_is_final)

theorem successful_cancel_wins_witness:
  "\<exists>t'. get_task ''a'' (fold (store_step set_task_status_if_not_cancelled cancel_task_if_not_terminal)
          [Guarded_Write 7 ''a'' ''completed'' (Some ''done'') None]
          (snd (cancel_task_if_not_terminal ''a'' None 6 sample_db))) = Some t' \<and> t_status t' = ''cancelled''"
proof (rule successful_cancel_wins)
  show "unique_task_ids sample_db" by (simp add: unique_task_ids_def sample_db_def sample_task_def)
  show "get_task ''a'' sample_db = Some (sample_task ''a'' ''x'' ''running'' 1 (Some 1))"
    by (simp add: get_task_def sample_db_def sample_task_def)
  show "cancel_task_if_not_terminal ''a'' None 6 sample_db
      = (True, snd (cancel_task_if_not_terminal ''a'' None 6 sample_db))"
    by (simp add: cancel_task_if_not_terminal_def Let_def sample_db_def sample_task_def terminal_string_def)
qed

end
