(* ===== verification/Store_Bindings.thy ===== *)
theory Store_Bindings
  imports Store_Logicals Store_Tasks
begin

text \<open>
  The harness bindings of \<^verbatim>\<open>crates/busytok-store/src/subagent_queries.rs\<close> and the transactions
  that change a binding and its subagent's status together: commit, restore, hibernate, eviction,
  crash and shutdown reconciliation.
\<close>

section \<open>Bindings\<close>

definition is_hot :: "binding_row \<Rightarrow> bool" where
  "is_hot b = (b_is_hot b = 1)"

definition hot_key :: "binding_row \<Rightarrow> string \<times> string" where
  "hot_key b = (b_subagent_id b, b_harness b)"

text \<open>The partial unique index \<open>idx_subagent_binding_one_hot\<close>.\<close>

definition one_hot :: "binding_row list \<Rightarrow> bool" where
  "one_hot bs = distinct (map hot_key (filter is_hot bs))"

definition put_bindings :: "binding_row list \<Rightarrow> db \<Rightarrow> db_error + db" where
  "put_bindings bs d =
     (if \<not> list_all (\<lambda>b. binding_status_allowed (b_status b)) bs then Inl Check_Violation
      else if \<not> one_hot bs then Inl Unique_Violation
      else Inr (d\<lparr>bindings := bs\<rparr>))"

text \<open>The \<open>DO UPDATE SET\<close> clause of \<open>upsert_binding\<close>.\<close>

definition overwrite_binding :: "binding_row \<Rightarrow> binding_row \<Rightarrow> binding_row" where
  "overwrite_binding row b =
     b\<lparr>b_adapter_session_id := b_adapter_session_id row,
       b_adapter_process_id := b_adapter_process_id row, b_is_hot := b_is_hot row,
       b_status := b_status row, b_last_used_at_ms := b_last_used_at_ms row,
       b_closed_at_ms := b_closed_at_ms row, b_detail_json := b_detail_json row\<rparr>"

definition upsert_binding :: "binding_row \<Rightarrow> db \<Rightarrow> db_error + db" where
  "upsert_binding row d =
     (if list_ex (\<lambda>b. b_id b = b_id row) (bindings d)
      then put_bindings (upd_where (\<lambda>b. b_id b = b_id row) (overwrite_binding row) (bindings d)) d
      else if \<not> has_logical (b_subagent_id row) d then Inl Fk_Violation
      else put_bindings (bindings d @ [row]) d)"

text \<open>The \<open>DO UPDATE SET\<close> clause of \<open>upsert_hot_binding\<close>: not \<open>is_hot\<close>, not \<open>closed_at_ms\<close>.\<close>

definition refresh_binding :: "binding_row \<Rightarrow> binding_row \<Rightarrow> binding_row" where
  "refresh_binding row b =
     b\<lparr>b_adapter_session_id := b_adapter_session_id row,
       b_adapter_process_id := b_adapter_process_id row, b_status := b_status row,
       b_last_used_at_ms := b_last_used_at_ms row, b_detail_json := b_detail_json row\<rparr>"

definition upsert_hot_binding :: "binding_row \<Rightarrow> db \<Rightarrow> db_error + db" where
  "upsert_hot_binding row d =
     (let hit = (\<lambda>b. is_hot b \<and> hot_key b = hot_key row)
      in if is_hot row \<and> list_ex hit (bindings d)
         then put_bindings (upd_where hit (refresh_binding row) (bindings d)) d
         else if list_ex (\<lambda>b. b_id b = b_id row) (bindings d) then Inl Unique_Violation
         else if \<not> has_logical (b_subagent_id row) d then Inl Fk_Violation
         else put_bindings (bindings d @ [row]) d)"

definition hot_binding :: "string \<Rightarrow> string \<Rightarrow> db \<Rightarrow> binding_row option" where
  "hot_binding sid harness d =
     find (\<lambda>b. b_subagent_id b = sid \<and> b_harness b = harness \<and> is_hot b) (bindings d)"

text \<open>\<open>ORDER BY last_used_at_ms ASC\<close>: SQLite sorts nulls first.\<close>

fun last_used_asc :: "int option \<Rightarrow> int option \<Rightarrow> bool" where
  "last_used_asc None _ = True"
| "last_used_asc (Some _) None = False"
| "last_used_asc (Some a) (Some b) = (a \<le> b)"

definition least_recently_used :: "binding_row \<Rightarrow> binding_row \<Rightarrow> bool" where
  "least_recently_used a b = last_used_asc (b_last_used_at_ms a) (b_last_used_at_ms b)"

definition find_lru_hot_binding :: "string \<Rightarrow> db \<Rightarrow> binding_row option" where
  "find_lru_hot_binding harness d =
     (case sql_limit 1 (sort_by least_recently_used
             (filter (\<lambda>b. b_harness b = harness \<and> is_hot b) (bindings d))) of
        [] \<Rightarrow> None
      | b # _ \<Rightarrow> Some b)"

definition find_hot_binding_by_session :: "string \<Rightarrow> string \<Rightarrow> db \<Rightarrow> binding_row option" where
  "find_hot_binding_by_session session harness d =
     find (\<lambda>b. b_adapter_session_id b = Some session \<and> b_harness b = harness \<and> is_hot b) (bindings d)"

definition find_binding_by_session :: "string \<Rightarrow> string \<Rightarrow> db \<Rightarrow> binding_row option" where
  "find_binding_by_session session harness d =
     find (\<lambda>b. b_adapter_session_id b = Some session \<and> b_harness b = harness) (bindings d)"

section \<open>Transactions over a binding and a status\<close>

text \<open>The status update every transaction ends with.\<close>

definition touch_logical :: "string \<Rightarrow> int \<Rightarrow> logical_row \<Rightarrow> logical_row" where
  "touch_logical st now l =
     l\<lparr>l_status := st, l_updated_at_ms := now,
       l_last_active_at_ms := coalesce (l_last_active_at_ms l) (Some now)\<rparr>"

definition commit_hot_binding_and_status ::
    "int \<Rightarrow> binding_row \<Rightarrow> string \<Rightarrow> db \<Rightarrow> db_error + db" where
  "commit_hot_binding_and_status now binding sid d =
     (case upsert_hot_binding binding d of
        Inl e \<Rightarrow> Inl e
      | Inr d1 \<Rightarrow>
          put_logicals (upd_where (\<lambda>l. l_id l = sid) (touch_logical ''hot'' now) (logicals d1)) d1)"

definition restore_hot_binding_and_status ::
    "int \<Rightarrow> binding_row \<Rightarrow> string \<Rightarrow> db \<Rightarrow> db_error + db" where
  "restore_hot_binding_and_status now binding sid d =
     (let hit = (\<lambda>b. b_id b = b_id binding \<and> b_subagent_id b = sid \<and> b_harness b = b_harness binding);
          r = (if count_where hit (bindings d) = 0
               then upsert_hot_binding
                      (binding\<lparr>b_is_hot := 1, b_status := ''hot'', b_closed_at_ms := None,
                               b_last_used_at_ms := Some now\<rparr>) d
               else put_bindings
                      (upd_where hit (\<lambda>b. b\<lparr>b_is_hot := 1, b_status := ''hot'',
                                            b_closed_at_ms := None, b_last_used_at_ms := Some now\<rparr>)
                        (bindings d)) d)
      in case r of
           Inl e \<Rightarrow> Inl e
         | Inr d1 \<Rightarrow>
             put_logicals (upd_where (\<lambda>l. l_id l = sid) (touch_logical ''hot'' now) (logicals d1)) d1)"

definition commit_hibernate_binding_and_status ::
    "int \<Rightarrow> binding_row \<Rightarrow> string \<Rightarrow> string \<Rightarrow> db \<Rightarrow> db_error + db" where
  "commit_hibernate_binding_and_status now binding sid new_status d =
     (case upsert_binding binding d of
        Inl e \<Rightarrow> Inl e
      | Inr d1 \<Rightarrow>
          put_logicals
            (upd_where (\<lambda>l. l_id l = sid \<and> l_status l \<noteq> ''deleted'') (touch_logical new_status now)
              (logicals d1)) d1)"

text \<open>\<open>now\<close> is read twice in an eviction: by \<open>write_hot_summary\<close> and by the status update.\<close>

definition commit_eviction ::
    "int \<Rightarrow> int \<Rightarrow> binding_row \<Rightarrow> string \<Rightarrow> string option \<Rightarrow> db \<Rightarrow> db_error + (string \<times> db)" where
  "commit_eviction now1 now binding sid hot_summary d =
     (case (case hot_summary of None \<Rightarrow> Inr d | Some s \<Rightarrow> write_hot_summary now1 sid s d) of
        Inl e \<Rightarrow> Inl e
      | Inr d1 \<Rightarrow>
          (case upsert_binding binding d1 of
             Inl e \<Rightarrow> Inl e
           | Inr d2 \<Rightarrow>
               (let new_status = (if has_hot_summary sid d2 then ''warm'' else ''cold'')
                in case put_logicals
                     (upd_where (\<lambda>l. l_id l = sid \<and> l_status l \<noteq> ''deleted'')
                       (touch_logical new_status now) (logicals d2)) d2 of
                     Inl e \<Rightarrow> Inl e
                   | Inr d3 \<Rightarrow> Inr (new_status, d3))))"

definition affected_ids :: "string \<Rightarrow> db \<Rightarrow> string list" where
  "affected_ids harness d =
     remdups (map b_subagent_id (filter (\<lambda>b. is_hot b \<and> b_harness b = harness) (bindings d)))"

definition release_binding :: "int \<Rightarrow> string \<Rightarrow> binding_row \<Rightarrow> binding_row" where
  "release_binding now st b = b\<lparr>b_is_hot := 0, b_status := st, b_closed_at_ms := Some now\<rparr>"

definition rollback_status :: "int \<Rightarrow> db \<Rightarrow> logical_row \<Rightarrow> logical_row" where
  "rollback_status now d l =
     l\<lparr>l_status := (if has_hot_summary (l_id l) d then ''warm'' else ''cold''), l_updated_at_ms := now\<rparr>"

text \<open>The three updates of the reconciliations, one definition each.\<close>

definition in_flight :: "string list \<Rightarrow> task_row \<Rightarrow> bool" where
  "in_flight affected t = (t_status t = ''running'' \<and> t_subagent_id t \<in> set affected)"

definition fail_in_flight :: "int \<Rightarrow> string list \<Rightarrow> db \<Rightarrow> db" where
  "fail_in_flight now affected d =
     d\<lparr>tasks := upd_where (in_flight affected)
         (\<lambda>t. t\<lparr>t_status := ''failed'', t_error := Some ''SIDECAR_CRASHED'',
                t_completed_at_ms := Some now\<rparr>) (tasks d)\<rparr>"

definition live_on :: "string \<Rightarrow> binding_row \<Rightarrow> bool" where
  "live_on harness b = (is_hot b \<and> b_harness b = harness)"

definition release_hot :: "int \<Rightarrow> string \<Rightarrow> string \<Rightarrow> db \<Rightarrow> db" where
  "release_hot now st harness d =
     d\<lparr>bindings := upd_where (live_on harness) (release_binding now st) (bindings d)\<rparr>"

definition rolled_back :: "string list \<Rightarrow> logical_row \<Rightarrow> bool" where
  "rolled_back affected l = (l_status l \<noteq> ''deleted'' \<and> l_id l \<in> set affected)"

definition roll_back_statuses :: "int \<Rightarrow> string list \<Rightarrow> db \<Rightarrow> db_error + db" where
  "roll_back_statuses now affected d =
     put_logicals (upd_where (rolled_back affected) (rollback_status now d) (logicals d)) d"

record crash_counts =
  cc_tasks_failed :: nat
  cc_bindings_released :: nat
  cc_status_rolled_back :: nat

definition reconcile_sidecar_crash :: "int \<Rightarrow> string \<Rightarrow> db \<Rightarrow> db_error + (crash_counts \<times> db)" where
  "reconcile_sidecar_crash now harness d =
     (let affected = affected_ids harness d
      in if affected = [] then
           Inr (\<lparr>cc_tasks_failed = 0, cc_bindings_released = 0, cc_status_rolled_back = 0\<rparr>, d)
         else case roll_back_statuses now affected
                     (release_hot now ''crashed'' harness (fail_in_flight now affected d)) of
                Inl e \<Rightarrow> Inl e
              | Inr d' \<Rightarrow>
                  Inr (\<lparr>cc_tasks_failed = count_where (in_flight affected) (tasks d),
                        cc_bindings_released = count_where (live_on harness) (bindings d),
                        cc_status_rolled_back = count_where (rolled_back affected) (logicals d)\<rparr>, d'))"

record shutdown_counts =
  sc_bindings_released :: nat
  sc_status_rolled_back :: nat

definition release_hot_bindings_for_shutdown ::
    "int \<Rightarrow> string \<Rightarrow> db \<Rightarrow> db_error + (shutdown_counts \<times> db)" where
  "release_hot_bindings_for_shutdown now harness d =
     (let affected = affected_ids harness d
      in if affected = [] then Inr (\<lparr>sc_bindings_released = 0, sc_status_rolled_back = 0\<rparr>, d)
         else case roll_back_statuses now affected (release_hot now ''closed'' harness d) of
                Inl e \<Rightarrow> Inl e
              | Inr d' \<Rightarrow>
                  Inr (\<lparr>sc_bindings_released = count_where (live_on harness) (bindings d),
                        sc_status_rolled_back = count_where (rolled_back affected) (logicals d)\<rparr>, d'))"

section \<open>The hot invariant\<close>

text \<open>
  A subagent that is not deleted is hot iff it has a hot binding. \<open>h\<close> is the one harness the
  daemon runs.
\<close>

definition has_hot :: "string \<Rightarrow> db \<Rightarrow> bool" where
  "has_hot sid d = list_ex (\<lambda>b. is_hot b \<and> b_subagent_id b = sid) (bindings d)"

definition hot_inv :: "string \<Rightarrow> db \<Rightarrow> bool" where
  "hot_inv h d \<longleftrightarrow> (\<forall>b \<in> set (bindings d). is_hot b \<longrightarrow> b_harness b = h)
     \<and> (\<forall>l \<in> set (logicals d). active l \<longrightarrow> (l_status l = ''hot'' \<longleftrightarrow> has_hot (l_id l) d))"

lemma has_hot_iff: "has_hot sid d \<longleftrightarrow> (\<exists>b \<in> set (bindings d). is_hot b \<and> b_subagent_id b = sid)"
  by (auto simp: has_hot_def list_ex_iff)

lemma put_bindingsD:
  assumes "put_bindings bs d = Inr d'"
  shows "d' = d\<lparr>bindings := bs\<rparr>" "one_hot bs" "b \<in> set bs \<Longrightarrow> binding_status_allowed (b_status b)"
  using assms by (auto simp: put_bindings_def list_all_iff split: if_splits)

lemma overwrite_binding_fields [simp]:
  "b_id (overwrite_binding r b) = b_id b" "b_subagent_id (overwrite_binding r b) = b_subagent_id b"
  "b_harness (overwrite_binding r b) = b_harness b" "is_hot (overwrite_binding r b) = is_hot r"
  "b_status (overwrite_binding r b) = b_status r"
  by (simp_all add: overwrite_binding_def is_hot_def)

lemma refresh_binding_fields [simp]:
  "b_id (refresh_binding r b) = b_id b" "b_subagent_id (refresh_binding r b) = b_subagent_id b"
  "b_harness (refresh_binding r b) = b_harness b" "is_hot (refresh_binding r b) = is_hot b"
  by (simp_all add: refresh_binding_def is_hot_def)

lemma touch_logical_fields [simp]:
  "l_id (touch_logical st now l) = l_id l" "l_status (touch_logical st now l) = st"
  "name_key (touch_logical st now l) = name_key l" "active (touch_logical st now l) = (st \<noteq> ''deleted'')"
  by (simp_all add: touch_logical_def name_key_def active_def)

lemma release_binding_fields [simp]:
  "b_id (release_binding now st b) = b_id b" "b_status (release_binding now st b) = st"
  "b_subagent_id (release_binding now st b) = b_subagent_id b" "is_hot (release_binding now st b) = False"
  by (simp_all add: release_binding_def is_hot_def)

lemma rollback_status_fields [simp]:
  "l_id (rollback_status now d l) = l_id l"
  "l_status (rollback_status now d l) = (if has_hot_summary (l_id l) d then ''warm'' else ''cold'')"
  "name_key (rollback_status now d l) = name_key l"
  by (simp_all add: rollback_status_def name_key_def)

text \<open>Which subagents are hot after each binding write.\<close>

lemma upsert_hot_binding_frame:
  assumes "upsert_hot_binding row d = Inr d'"
  shows "\<exists>bs. d' = d\<lparr>bindings := bs\<rparr>"
  using assms by (auto simp: upsert_hot_binding_def Let_def dest!: put_bindingsD(1) split: if_splits)

lemma upsert_hot_binding_hot:
  assumes "upsert_hot_binding row d = Inr d'" "is_hot row"
  shows "has_hot sid d' \<longleftrightarrow> has_hot sid d \<or> sid = b_subagent_id row"
proof (cases "list_ex (\<lambda>b. is_hot b \<and> hot_key b = hot_key row) (bindings d)")
  case True
  then have d': "d' = d\<lparr>bindings := upd_where (\<lambda>b. is_hot b \<and> hot_key b = hot_key row)
      (refresh_binding row) (bindings d)\<rparr>"
    using assms by (auto simp: upsert_hot_binding_def Let_def dest: put_bindingsD(1))
  have "has_hot sid d' = has_hot sid d"
    by (simp add: d' has_hot_def list_ex_upd_where)
  moreover have "has_hot (b_subagent_id row) d"
    using True by (auto simp: has_hot_iff list_ex_iff hot_key_def)
  ultimately show ?thesis by auto
next
  case False
  then have "d' = d\<lparr>bindings := bindings d @ [row]\<rparr>"
    using assms by (auto simp: upsert_hot_binding_def Let_def dest: put_bindingsD(1) split: if_splits)
  then show ?thesis using assms(2) by (auto simp: has_hot_iff)
qed

lemma upsert_hot_binding_harness:
  assumes "upsert_hot_binding row d = Inr d'" "b_harness row = h"
    and "\<forall>b \<in> set (bindings d). is_hot b \<longrightarrow> b_harness b = h"
  shows "\<forall>b \<in> set (bindings d'). is_hot b \<longrightarrow> b_harness b = h"
  using assms by (auto simp: upsert_hot_binding_def Let_def upd_where_def dest!: put_bindingsD(1)
      split: if_splits)

lemma upsert_binding_frame:
  assumes "upsert_binding row d = Inr d'"
  shows "\<exists>bs. d' = d\<lparr>bindings := bs\<rparr>"
  using assms by (auto simp: upsert_binding_def dest!: put_bindingsD(1) split: if_splits)

lemma upsert_binding_closed:
  assumes "upsert_binding row d = Inr d'" "\<not> is_hot row" "b_subagent_id row = own"
    and "\<And>b. b \<in> set (bindings d) \<Longrightarrow> b_id b = b_id row \<Longrightarrow> b_subagent_id b = own"
    and "\<And>b. b \<in> set (bindings d) \<Longrightarrow> is_hot b \<Longrightarrow> b_subagent_id b = own \<Longrightarrow> b_id b = b_id row"
  shows "has_hot sid d' \<longleftrightarrow> has_hot sid d \<and> sid \<noteq> own"
    and "b \<in> set (bindings d') \<Longrightarrow> is_hot b \<Longrightarrow> b \<in> set (bindings d)"
proof -
  have *: "d' = d\<lparr>bindings := upd_where (\<lambda>b. b_id b = b_id row) (overwrite_binding row) (bindings d)\<rparr>
       \<or> d' = d\<lparr>bindings := bindings d @ [row]\<rparr> \<and> (\<forall>b \<in> set (bindings d). b_id b \<noteq> b_id row)"
    using assms(1)
    by (auto simp: upsert_binding_def list_ex_iff dest: put_bindingsD(1) split: if_splits)
  then have "b \<in> set (bindings d') \<and> is_hot b \<longleftrightarrow>
      b \<in> set (bindings d) \<and> is_hot b \<and> b_id b \<noteq> b_id row" for b
    using assms(2) by (auto simp: upd_where_def image_iff)
  then show "has_hot sid d' \<longleftrightarrow> has_hot sid d \<and> sid \<noteq> own"
    "b \<in> set (bindings d') \<Longrightarrow> is_hot b \<Longrightarrow> b \<in> set (bindings d)"
    using assms(4,5) by (auto simp: has_hot_iff)
qed

text \<open>A session operation as a value, run as the manager and the executor run it.\<close>

datatype session_op =
    Commit_Hot int binding_row string
  | Restore_Hot int binding_row string
  | Hibernate int binding_row string string
  | Evict int int binding_row string "string option"
  | Sidecar_Crash int string
  | Sidecar_Shutdown int string

fun run_session_op :: "session_op \<Rightarrow> db \<Rightarrow> db_error + db" where
  "run_session_op (Commit_Hot now b sid) d = commit_hot_binding_and_status now b sid d"
| "run_session_op (Restore_Hot now b sid) d = restore_hot_binding_and_status now b sid d"
| "run_session_op (Hibernate now b sid st) d = commit_hibernate_binding_and_status now b sid st d"
| "run_session_op (Evict now1 now b sid s) d =
     (case commit_eviction now1 now b sid s d of Inl e \<Rightarrow> Inl e | Inr (_, d') \<Rightarrow> Inr d')"
| "run_session_op (Sidecar_Crash now h) d =
     (case reconcile_sidecar_crash now h d of Inl e \<Rightarrow> Inl e | Inr (_, d') \<Rightarrow> Inr d')"
| "run_session_op (Sidecar_Shutdown now h) d =
     (case release_hot_bindings_for_shutdown now h d of Inl e \<Rightarrow> Inl e | Inr (_, d') \<Rightarrow> Inr d')"

text \<open>
  What the doc comments ask of a caller: a hot row for a commit, the subagent's own closed row for
  a cool-down, and that row the one that was hot, if any was.
\<close>

definition closed_row_of :: "string \<Rightarrow> binding_row \<Rightarrow> db \<Rightarrow> bool" where
  "closed_row_of sid b d \<longleftrightarrow> \<not> is_hot b \<and> b_subagent_id b = sid
     \<and> list_all (\<lambda>c. (b_id c = b_id b \<longrightarrow> b_subagent_id c = sid)
                     \<and> (is_hot c \<and> b_subagent_id c = sid \<longrightarrow> b_id c = b_id b)) (bindings d)"

fun session_call :: "string \<Rightarrow> session_op \<Rightarrow> db \<Rightarrow> bool" where
  "session_call h (Commit_Hot now b sid) d = (is_hot b \<and> b_subagent_id b = sid \<and> b_harness b = h)"
| "session_call h (Restore_Hot now b sid) d = (b_subagent_id b = sid \<and> b_harness b = h)"
| "session_call h (Hibernate now b sid st) d = (closed_row_of sid b d \<and> st \<noteq> ''hot'')"
| "session_call h (Evict now1 now b sid s) d = closed_row_of sid b d"
| "session_call h (Sidecar_Crash now k) d = (k = h)"
| "session_call h (Sidecar_Shutdown now k) d = (k = h)"

text \<open>The status half of the transactions.\<close>

lemma hot_inv_mark_hot:
  assumes inv: "hot_inv h d" and h: "\<forall>b \<in> set (bindings d1). is_hot b \<longrightarrow> b_harness b = h"
    and logs: "logicals d1 = logicals d"
    and hot: "\<And>s. has_hot s d1 \<longleftrightarrow> has_hot s d \<or> s = sid"
    and put: "put_logicals (upd_where (\<lambda>l. l_id l = sid) (touch_logical ''hot'' now) (logicals d1)) d1
                = Inr d2"
  shows "hot_inv h d2"
proof -
  have d2: "d2 = d1\<lparr>logicals := upd_where (\<lambda>l. l_id l = sid) (touch_logical ''hot'' now) (logicals d)\<rparr>"
    using put_logicalsD(1)[OF put] logs by simp
  have "has_hot s d2 = has_hot s d1" for s by (simp add: d2 has_hot_def)
  moreover have "\<forall>l \<in> set (logicals d2). active l \<longrightarrow>
      (l_status l = ''hot'' \<longleftrightarrow> has_hot (l_id l) d \<or> l_id l = sid)"
    using inv by (auto simp: d2 hot_inv_def elim!: in_upd_whereE)
  ultimately show ?thesis using h hot by (simp add: hot_inv_def d2)
qed

lemma hot_inv_mark_cool:
  assumes inv: "hot_inv h d" and h: "\<And>b. b \<in> set (bindings d1) \<Longrightarrow> is_hot b \<Longrightarrow> b \<in> set (bindings d)"
    and logs: "logicals d1 = logicals d" and st: "st \<noteq> ''hot''"
    and hot: "\<And>s. has_hot s d1 \<longleftrightarrow> has_hot s d \<and> s \<noteq> sid"
    and put: "put_logicals (upd_where (\<lambda>l. l_id l = sid \<and> l_status l \<noteq> ''deleted'')
                (touch_logical st now) (logicals d1)) d1 = Inr d2"
  shows "hot_inv h d2"
proof -
  have d2: "d2 = d1\<lparr>logicals := upd_where (\<lambda>l. l_id l = sid \<and> l_status l \<noteq> ''deleted'')
      (touch_logical st now) (logicals d)\<rparr>"
    using put_logicalsD(1)[OF put] logs by simp
  have "has_hot s d2 = has_hot s d1" for s by (simp add: d2 has_hot_def)
  moreover have "\<forall>l \<in> set (logicals d2). active l \<longrightarrow>
      (l_status l = ''hot'' \<longleftrightarrow> has_hot (l_id l) d \<and> l_id l \<noteq> sid)"
    using inv st by (auto simp: d2 hot_inv_def active_def elim!: in_upd_whereE)
  ultimately show ?thesis using h hot inv by (auto simp: hot_inv_def d2)
qed

lemma release_hot_inv:
  assumes inv: "hot_inv h d" and logs: "logicals d0 = logicals d" and bs: "bindings d0 = bindings d"
    and put: "roll_back_statuses now (affected_ids h d) (release_hot now st h d0) = Inr d2"
  shows "hot_inv h d2 \<and> (\<forall>b \<in> set (bindings d2). \<not> is_hot b) \<and> (\<forall>l \<in> set (logicals d2). l_status l \<noteq> ''hot'')
       \<and> tasks d2 = tasks d0"
proof -
  let ?d1 = "release_hot now st h d0"
  have d2: "d2 = ?d1\<lparr>logicals := upd_where (rolled_back (affected_ids h d)) (rollback_status now ?d1) (logicals d)\<rparr>"
    using put logs by (auto simp: roll_back_statuses_def release_hot_def dest: put_logicalsD(1))
  have cold: "\<forall>b \<in> set (bindings d2). \<not> is_hot b"
    using inv bs by (auto simp: d2 release_hot_def live_on_def hot_inv_def elim!: in_upd_whereE)
  have "l_id l \<in> set (affected_ids h d)" if "l \<in> set (logicals d)" "l_status l = ''hot''" for l
    using inv that by (force simp: hot_inv_def affected_ids_def has_hot_iff active_def)
  then have nohot: "\<forall>l \<in> set (logicals d2). l_status l \<noteq> ''hot''"
    by (auto simp: d2 rolled_back_def elim!: in_upd_whereE split: if_splits)
  moreover have "hot_inv h d2" using cold nohot by (auto simp: hot_inv_def has_hot_iff)
  ultimately show ?thesis using cold by (simp add: d2 release_hot_def)
qed

lemma no_hot_of_affected_Nil:
  "hot_inv h d \<Longrightarrow> affected_ids h d = [] \<Longrightarrow> \<forall>b \<in> set (bindings d). \<not> is_hot b"
  by (auto simp: affected_ids_def hot_inv_def filter_empty_conv)

lemma commit_hot_inv:
  assumes "hot_inv h d" "is_hot b" "b_subagent_id b = sid" "b_harness b = h"
    and "commit_hot_binding_and_status now b sid d = Inr d'"
  shows "hot_inv h d'"
proof -
  from assms(5) obtain d1 where d1: "upsert_hot_binding b d = Inr d1"
    and put: "put_logicals (upd_where (\<lambda>l. l_id l = sid) (touch_logical ''hot'' now) (logicals d1)) d1 = Inr d'"
    by (auto simp: commit_hot_binding_and_status_def split: sum.splits)
  show ?thesis
    using upsert_hot_binding_hot[OF d1 assms(2)] upsert_hot_binding_harness[OF d1 assms(4)]
      upsert_hot_binding_frame[OF d1] assms(1,3) hot_inv_mark_hot[OF assms(1) _ _ _ put]
    by (auto simp: hot_inv_def)
qed

lemma restore_hot_inv:
  assumes inv: "hot_inv h d" and own: "b_subagent_id b = sid" "b_harness b = h"
    and r: "restore_hot_binding_and_status now b sid d = Inr d'"
  shows "hot_inv h d'"
proof -
  let ?hit = "\<lambda>c. b_id c = b_id b \<and> b_subagent_id c = sid \<and> b_harness c = b_harness b"
  let ?f = "\<lambda>c. c\<lparr>b_is_hot := 1, b_status := ''hot'', b_closed_at_ms := None, b_last_used_at_ms := Some now\<rparr>"
  obtain d1 where put: "put_logicals (upd_where (\<lambda>l. l_id l = sid) (touch_logical ''hot'' now)
        (logicals d1)) d1 = Inr d'"
    and d1: "if count_where ?hit (bindings d) = 0 then upsert_hot_binding (?f b) d = Inr d1
             else put_bindings (upd_where ?hit ?f (bindings d)) d = Inr d1"
    using r by (auto simp: restore_hot_binding_and_status_def Let_def split: sum.splits if_splits)
  have old: "\<forall>b \<in> set (bindings d). is_hot b \<longrightarrow> b_harness b = h" using inv by (simp add: hot_inv_def)
  show ?thesis
  proof (cases "count_where ?hit (bindings d) = 0")
    case True
    with d1 have u: "upsert_hot_binding (?f b) d = Inr d1" by simp
    have "is_hot (?f b)" by (simp add: is_hot_def)
    from upsert_hot_binding_hot[OF u this] upsert_hot_binding_harness[OF u _ old]
      upsert_hot_binding_frame[OF u] own hot_inv_mark_hot[OF inv _ _ _ put]
    show ?thesis by auto
  next
    case False
    with d1 have d1': "d1 = d\<lparr>bindings := upd_where ?hit ?f (bindings d)\<rparr>"
      by (simp add: put_bindingsD(1))
    obtain c where "c \<in> set (bindings d)" "?hit c"
      using False by (auto simp: count_where_zero)
    then have "?f c \<in> set (bindings d1)" by (auto simp: d1' intro: upd_where_hit)
    then have mine: "has_hot sid d1" using \<open>?hit c\<close> unfolding has_hot_iff
      by (intro bexI[of _ "?f c"]) (simp_all add: is_hot_def)
    have others: "has_hot s d1 = has_hot s d" if "s \<noteq> sid" for s
    proof -
      have "list_ex (\<lambda>b. is_hot b \<and> b_subagent_id b = s) (upd_where ?hit ?f (bindings d))
          = list_ex (\<lambda>b. is_hot b \<and> b_subagent_id b = s) (bindings d)"
        by (rule list_ex_upd_where) (use that in simp)
      then show ?thesis by (simp add: d1' has_hot_def)
    qed
    show ?thesis
    proof (rule hot_inv_mark_hot[OF inv _ _ _ put])
      show "\<forall>b \<in> set (bindings d1). is_hot b \<longrightarrow> b_harness b = h"
        using old own by (auto simp: d1' elim!: in_upd_whereE)
      show "logicals d1 = logicals d" by (simp add: d1')
      show "has_hot s d1 \<longleftrightarrow> has_hot s d \<or> s = sid" for s
        using mine others[of s] by (cases "s = sid") simp_all
    qed
  qed
qed

lemma closed_row_ofD:
  assumes "closed_row_of sid b d"
  shows "\<not> is_hot b" "b_subagent_id b = sid"
    "c \<in> set (bindings d) \<Longrightarrow> b_id c = b_id b \<Longrightarrow> b_subagent_id c = sid"
    "c \<in> set (bindings d) \<Longrightarrow> is_hot c \<Longrightarrow> b_subagent_id c = sid \<Longrightarrow> b_id c = b_id b"
  using assms by (auto simp: closed_row_of_def list_all_iff)

lemma upsert_closed_then_cool:
  assumes inv: "hot_inv h d" and row: "closed_row_of sid b d" and st: "st \<noteq> ''hot''"
    and u: "upsert_binding b d = Inr d1"
    and put: "put_logicals (upd_where (\<lambda>l. l_id l = sid \<and> l_status l \<noteq> ''deleted'')
                (touch_logical st now) (logicals d1)) d1 = Inr d2"
  shows "hot_inv h d2"
proof (rule hot_inv_mark_cool[OF inv _ _ st _ put])
  show "logicals d1 = logicals d" using upsert_binding_frame[OF u] by auto
  show "\<And>b. b \<in> set (bindings d1) \<Longrightarrow> is_hot b \<Longrightarrow> b \<in> set (bindings d)"
    by (rule upsert_binding_closed(2)[OF u closed_row_ofD[OF row]])
  show "\<And>s. has_hot s d1 \<longleftrightarrow> has_hot s d \<and> s \<noteq> sid"
    by (rule upsert_binding_closed(1)[OF u closed_row_ofD[OF row]])
qed

lemma write_hot_summary_frame:
  assumes "write_hot_summary now sid s d = Inr d'"
  shows "\<exists>ms. d' = d\<lparr>memories := ms\<rparr>" "has_hot_summary sid d'"
proof -
  show "\<exists>ms. d' = d\<lparr>memories := ms\<rparr>"
    using assms by (auto simp: write_hot_summary_def Let_def split: option.splits if_splits)
  show "has_hot_summary sid d'"
  proof (cases "get_memory sid d")
    case None
    with assms show ?thesis
      by (auto simp: write_hot_summary_def Let_def has_hot_summary_iff split: if_splits)
  next
    case (Some m)
    let ?f = "\<lambda>m. m\<lparr>m_hot_summary := Some s, m_updated_at_ms := now\<rparr> :: memory_row"
    have "?f m \<in> set (memories d')"
      using get_memory_in[OF Some] assms Some by (auto simp: write_hot_summary_def intro: upd_where_hit)
    then show ?thesis using get_memory_in[OF Some] unfolding has_hot_summary_iff
      by (intro bexI[of _ "?f m"]) simp_all
  qed
qed

lemma hot_inv_memories [simp]: "hot_inv h (d\<lparr>memories := ms\<rparr>) = hot_inv h d"
  by (simp add: hot_inv_def has_hot_def)

lemma commit_evictionE:
  assumes "commit_eviction now1 now b sid s d = Inr (st, d')"
  obtains d1 d2 where
    "(case s of None \<Rightarrow> Inr d | Some x \<Rightarrow> write_hot_summary now1 sid x d) = Inr d1"
    "upsert_binding b d1 = Inr d2" "st = (if has_hot_summary sid d2 then ''warm'' else ''cold'')"
    "put_logicals (upd_where (\<lambda>l. l_id l = sid \<and> l_status l \<noteq> ''deleted'')
        (touch_logical st now) (logicals d2)) d2 = Inr d'"
  using assms by (auto simp: commit_eviction_def Let_def split: sum.splits if_splits)

lemma commit_eviction_inv:
  assumes inv: "hot_inv h d" and row: "closed_row_of sid b d"
    and ev: "commit_eviction now1 now b sid s d = Inr (st, d')"
  shows "hot_inv h d'"
  using ev
proof (cases rule: commit_evictionE)
  case (1 d1 d2)
  have d1: "\<exists>ms. d1 = d\<lparr>memories := ms\<rparr>"
  proof (cases s)
    case None
    with 1(1) have "d1 = d\<lparr>memories := memories d\<rparr>" by simp
    then show ?thesis by blast
  next
    case (Some x)
    with 1(1) write_hot_summary_frame(1) show ?thesis by simp
  qed
  then have "hot_inv h d1" "closed_row_of sid b d1" using inv row by (auto simp: closed_row_of_def)
  then show ?thesis using upsert_closed_then_cool[OF _ _ _ 1(2,4)] 1(3) by simp
qed

text \<open>Crash and shutdown: nothing of the harness is hot afterwards, whatever it was.\<close>

lemma reconcile_crash_inv:
  assumes inv: "hot_inv h d" and r: "reconcile_sidecar_crash now h d = Inr (c, d')"
  shows "hot_inv h d' \<and> (\<forall>b \<in> set (bindings d'). \<not> is_hot b)"
proof (cases "affected_ids h d = []")
  case True
  with r have "d' = d" by (simp add: reconcile_sidecar_crash_def)
  with no_hot_of_affected_Nil[OF inv True] inv show ?thesis by simp
next
  case False
  with r have put: "roll_back_statuses now (affected_ids h d)
      (release_hot now ''crashed'' h (fail_in_flight now (affected_ids h d) d)) = Inr d'"
    by (simp add: reconcile_sidecar_crash_def Let_def split: sum.splits)
  then show ?thesis using release_hot_inv[OF inv _ _ put] by (simp add: fail_in_flight_def)
qed

lemma release_shutdown_inv:
  assumes inv: "hot_inv h d" and r: "release_hot_bindings_for_shutdown now h d = Inr (c, d')"
  shows "hot_inv h d' \<and> (\<forall>b \<in> set (bindings d'). \<not> is_hot b) \<and> tasks d' = tasks d"
proof (cases "affected_ids h d = []")
  case True
  with r have "d' = d" by (simp add: release_hot_bindings_for_shutdown_def)
  with no_hot_of_affected_Nil[OF inv True] inv show ?thesis by simp
next
  case False
  with r have put: "roll_back_statuses now (affected_ids h d) (release_hot now ''closed'' h d) = Inr d'"
    by (simp add: release_hot_bindings_for_shutdown_def Let_def split: sum.splits)
  then show ?thesis using release_hot_inv[OF inv _ _ put] by simp
qed

text \<open>A crash fails every task that was running on the harness, and no other task changes.\<close>

lemma reconcile_crash_tasks:
  assumes "reconcile_sidecar_crash now h d = Inr (c, d')"
  shows "tasks d' = tasks (fail_in_flight now (affected_ids h d) d)"
proof (cases "affected_ids h d = []")
  case True
  moreover have "fail_in_flight now [] d = d"
    by (simp add: fail_in_flight_def in_flight_def upd_where_id)
  ultimately show ?thesis using assms by (simp add: reconcile_sidecar_crash_def)
next
  case False
  with assms show ?thesis
    by (auto simp: reconcile_sidecar_crash_def Let_def roll_back_statuses_def release_hot_def
        dest: put_logicalsD(1) split: sum.splits)
qed

lemma session_op_inv:
  assumes "hot_inv h d" "session_call h op d" "run_session_op op d = Inr d'"
  shows "hot_inv h d'"
  using assms
proof (cases op)
  case (Hibernate now b sid st)
  with assms obtain d1 where "upsert_binding b d = Inr d1"
    "put_logicals (upd_where (\<lambda>l. l_id l = sid \<and> l_status l \<noteq> ''deleted'')
        (touch_logical st now) (logicals d1)) d1 = Inr d'"
    by (auto simp: commit_hibernate_binding_and_status_def split: sum.splits)
  with Hibernate assms upsert_closed_then_cool show ?thesis by auto
qed (auto intro: commit_hot_inv restore_hot_inv commit_eviction_inv
      dest: reconcile_crash_inv release_shutdown_inv split: sum.splits)

end
