(* ===== verification/Store_Invariant.thy ===== *)
theory Store_Invariant
  imports Store_Bindings
begin

text \<open>
  The invariant of the whole subagent schema, and that every statement of the store keeps it:
  keys, checked values, foreign keys, the two partial unique indexes, and the task table's own
  invariant (at most one running task per subagent).
\<close>

definition keys_ok :: "db \<Rightarrow> bool" where
  "keys_ok d \<longleftrightarrow> distinct (map l_id (logicals d)) \<and> distinct (map m_id (memories d))
     \<and> distinct (map m_subagent_id (memories d)) \<and> distinct (map b_id (bindings d))
     \<and> distinct (map u_id (usages d)) \<and> distinct (map e_id (events d))"

definition values_ok :: "db \<Rightarrow> bool" where
  "values_ok d \<longleftrightarrow> (\<forall>l \<in> set (logicals d). logical_status_allowed (l_status l))
     \<and> (\<forall>b \<in> set (bindings d). binding_status_allowed (b_status b))
     \<and> unique_active_names (logicals d) \<and> one_hot (bindings d)"

text \<open>The subagent ids the child rows name, and the ids they may name.\<close>

definition child_ids :: "db \<Rightarrow> string set" where
  "child_ids d = m_subagent_id ` set (memories d) \<union> t_subagent_id ` set (tasks d)
     \<union> b_subagent_id ` set (bindings d) \<union> u_subagent_id ` set (usages d)"

definition fk_ok :: "db \<Rightarrow> bool" where
  "fk_ok d \<longleftrightarrow> child_ids d \<subseteq> l_id ` set (logicals d) \<and> u_task_id ` set (usages d) \<subseteq> t_id ` set (tasks d)"

definition db_ok :: "db \<Rightarrow> bool" where
  "db_ok d \<longleftrightarrow> keys_ok d \<and> values_ok d \<and> fk_ok d \<and> tasks_ok (tasks d)"

lemmas db_ok_defs = db_ok_def keys_ok_def values_ok_def fk_ok_def

lemma db_ok_empty [simp]: "db_ok empty_db"
  by (simp add: db_ok_defs empty_db_def unique_active_names_def one_hot_def child_ids_def)

lemma db_okD:
  assumes "db_ok d"
  shows "tasks_ok (tasks d)" "unique_active_names (logicals d)" "one_hot (bindings d)"
    "distinct (map l_id (logicals d))" "distinct (map m_subagent_id (memories d))"
    "t \<in> set (tasks d) \<Longrightarrow> has_logical (t_subagent_id t) d"
    "l \<in> set (logicals d) \<Longrightarrow> logical_status_allowed (l_status l)"
    "b \<in> set (bindings d) \<Longrightarrow> has_logical (b_subagent_id b) d"
  using assms by (auto simp: db_ok_defs has_logical_iff child_ids_def)

section \<open>One table at a time\<close>

lemma db_ok_put_tasks:
  assumes "db_ok d" "tasks_ok ts" "map t_id ts = map t_id (tasks d)"
    "map t_subagent_id ts = map t_subagent_id (tasks d)"
  shows "db_ok (d\<lparr>tasks := ts\<rparr>)"
proof -
  have "t_id ` set ts = t_id ` set (tasks d)" "t_subagent_id ` set ts = t_subagent_id ` set (tasks d)"
    using assms(3,4) by (metis set_map)+
  with assms(1,2) show ?thesis by (simp add: db_ok_defs child_ids_def)
qed

lemma db_ok_put_logicals:
  assumes "db_ok d" "put_logicals ls d = Inr d'" "distinct (map l_id ls)"
    "l_id ` set (logicals d) \<subseteq> l_id ` set ls"
  shows "db_ok d'"
proof -
  have d': "d' = d\<lparr>logicals := ls\<rparr>" and val: "unique_active_names ls" "\<forall>l \<in> set ls. logical_status_allowed (l_status l)"
    using put_logicalsD[OF assms(2)] by blast+
  have "child_ids d' = child_ids d" by (simp add: d' child_ids_def)
  with assms(1,4) have "fk_ok d'" by (auto simp: d' fk_ok_def db_ok_def)
  with assms(1,3) val show ?thesis by (simp add: d' db_ok_def keys_ok_def values_ok_def)
qed

lemma db_ok_upd_logicals:
  assumes "db_ok d" "put_logicals (upd_where P f (logicals d)) d = Inr d'" "\<And>l. P l \<Longrightarrow> l_id (f l) = l_id l"
  shows "db_ok d'"
proof -
  have same: "map l_id (upd_where P f (logicals d)) = map l_id (logicals d)"
    using assms(3) by (rule map_upd_where)
  then have "l_id ` set (upd_where P f (logicals d)) = l_id ` set (logicals d)" by (metis set_map)
  with same show ?thesis
    using db_ok_put_logicals[OF assms(1,2)] db_okD(4)[OF assms(1)] by simp
qed

lemma db_ok_put_bindings:
  assumes "db_ok d" "put_bindings bs d = Inr d'" "distinct (map b_id bs)"
    "b_subagent_id ` set bs \<subseteq> l_id ` set (logicals d)"
  shows "db_ok d'"
proof -
  have d': "d' = d\<lparr>bindings := bs\<rparr>" and val: "one_hot bs" "\<forall>b \<in> set bs. binding_status_allowed (b_status b)"
    using put_bindingsD[OF assms(2)] by blast+
  with assms(1,3,4) show ?thesis by (simp add: db_ok_defs child_ids_def)
qed

lemma db_ok_upd_bindings:
  assumes "db_ok d" "put_bindings (upd_where P f (bindings d)) d = Inr d'"
    "\<And>b. P b \<Longrightarrow> b_id (f b) = b_id b \<and> b_subagent_id (f b) = b_subagent_id b"
  shows "db_ok d'"
proof -
  have same: "map b_id (upd_where P f (bindings d)) = map b_id (bindings d)"
    "map b_subagent_id (upd_where P f (bindings d)) = map b_subagent_id (bindings d)"
    using assms(3) by (auto intro: map_upd_where)
  from same(2) have "b_subagent_id ` set (upd_where P f (bindings d)) = b_subagent_id ` set (bindings d)"
    by (metis set_map)
  with same(1) show ?thesis
    using db_ok_put_bindings[OF assms(1,2)] assms(1) by (simp add: db_ok_defs child_ids_def)
qed

lemma db_ok_add_binding:
  assumes ok: "db_ok d" and p: "put_bindings (bindings d @ [row]) d = Inr d'"
    and sub: "has_logical (b_subagent_id row) d" and new: "\<not> list_ex (\<lambda>b. b_id b = b_id row) (bindings d)"
  shows "db_ok d'"
proof (rule db_ok_put_bindings[OF ok p])
  show "distinct (map b_id (bindings d @ [row]))"
    using ok new by (auto simp: db_ok_def keys_ok_def list_ex_iff)
  show "b_subagent_id ` set (bindings d @ [row]) \<subseteq> l_id ` set (logicals d)"
    using ok sub by (auto simp: db_ok_def fk_ok_def child_ids_def has_logical_iff)
qed

lemma db_ok_put_memories:
  "db_ok d \<Longrightarrow> distinct (map m_id ms) \<Longrightarrow> distinct (map m_subagent_id ms) \<Longrightarrow>
   m_subagent_id ` set ms \<subseteq> l_id ` set (logicals d) \<Longrightarrow> db_ok (d\<lparr>memories := ms\<rparr>)"
  by (simp add: db_ok_defs child_ids_def)

lemma db_ok_upd_memories:
  assumes "db_ok d" "\<And>m. P m \<Longrightarrow> m_id (f m) = m_id m \<and> m_subagent_id (f m) = m_subagent_id m"
  shows "db_ok (d\<lparr>memories := upd_where P f (memories d)\<rparr>)"
proof -
  have same: "map m_id (upd_where P f (memories d)) = map m_id (memories d)"
    "map m_subagent_id (upd_where P f (memories d)) = map m_subagent_id (memories d)"
    using assms(2) by (auto intro: map_upd_where)
  from same(2) have "m_subagent_id ` set (upd_where P f (memories d)) = m_subagent_id ` set (memories d)"
    by (metis set_map)
  with same show ?thesis
    using db_ok_put_memories[OF assms(1)] assms(1) by (simp add: db_ok_defs child_ids_def)
qed

lemma db_ok_add_memory:
  assumes "db_ok d" "m_subagent_id m \<notin> m_subagent_id ` set (memories d)" "m_id m \<notin> m_id ` set (memories d)"
    "has_logical (m_subagent_id m) d"
  shows "db_ok (d\<lparr>memories := memories d @ [m]\<rparr>)"
  using assms by (intro db_ok_put_memories) (auto simp: db_ok_defs child_ids_def has_logical_iff)

section \<open>Every statement\<close>

lemma upsert_logical_db_ok [db_ok_intros]:
  assumes "upsert_logical_subagent row d = Inr d'" "db_ok d"
  shows "db_ok d'"
proof (cases "has_logical (l_id row) d")
  case True
  with assms(1) have "put_logicals (upd_where (\<lambda>l. l_id l = l_id row)
      (\<lambda>l. row\<lparr>l_created_at_ms := l_created_at_ms l\<rparr>) (logicals d)) d = Inr d'"
    by (simp add: upsert_logical_subagent_def)
  then show ?thesis by (rule db_ok_upd_logicals[OF assms(2)]) simp
next
  case False
  with assms(1) have p: "put_logicals (logicals d @ [row]) d = Inr d'"
    by (simp add: upsert_logical_subagent_def)
  from False show ?thesis
    using db_ok_put_logicals[OF assms(2) p] db_okD(4)[OF assms(2)] by (auto simp: has_logical_iff)
qed

lemma upsert_memory_db_ok [db_ok_intros]:
  assumes "upsert_memory row d = Inr d'" "db_ok d"
  shows "db_ok d'"
proof (cases "list_ex (\<lambda>m. m_subagent_id m = m_subagent_id row) (memories d)")
  case True
  with assms(1) have "d' = d\<lparr>memories := upd_where (\<lambda>m. m_subagent_id m = m_subagent_id row)
                                (\<lambda>m. row\<lparr>m_id := m_id m\<rparr>) (memories d)\<rparr>"
    by (simp add: upsert_memory_def)
  then show ?thesis using db_ok_upd_memories[OF assms(2)] by simp
next
  case False
  with assms(1) have "d' = d\<lparr>memories := memories d @ [row]\<rparr>" "has_logical (m_subagent_id row) d"
    "m_id row \<notin> m_id ` set (memories d)"
    by (auto simp: upsert_memory_def list_ex_iff split: if_splits)
  moreover have "m_subagent_id row \<notin> m_subagent_id ` set (memories d)"
    using False by (auto simp: list_ex_iff)
  ultimately show ?thesis using db_ok_add_memory[OF assms(2)] by simp
qed

lemma write_hot_summary_db_ok [db_ok_intros]:
  assumes "write_hot_summary now sid s d = Inr d'" "db_ok d"
  shows "db_ok d'"
proof (cases "get_memory sid d")
  case None
  then have "sid \<notin> m_subagent_id ` set (memories d)"
    by (auto simp: get_memory_def find_None_iff_all)
  with assms(1) None show ?thesis
    by (auto simp: write_hot_summary_def Let_def list_ex_iff split: if_splits
        intro!: db_ok_add_memory[OF assms(2)])
next
  case (Some m)
  with assms(1) show ?thesis
    by (auto simp: write_hot_summary_def intro: db_ok_upd_memories[OF assms(2)])
qed

lemma upsert_binding_db_ok [db_ok_intros]:
  assumes "upsert_binding row d = Inr d'" "db_ok d"
  shows "db_ok d'"
proof (cases "list_ex (\<lambda>b. b_id b = b_id row) (bindings d)")
  case True
  with assms(1) have "put_bindings (upd_where (\<lambda>b. b_id b = b_id row) (overwrite_binding row) (bindings d)) d
      = Inr d'" by (simp add: upsert_binding_def)
  then show ?thesis by (rule db_ok_upd_bindings[OF assms(2)]) simp
next
  case False
  with assms(1) have p: "put_bindings (bindings d @ [row]) d = Inr d'" and "has_logical (b_subagent_id row) d"
    by (auto simp: upsert_binding_def split: if_splits)
  with False show ?thesis by (intro db_ok_add_binding[OF assms(2) p])
qed

lemma upsert_hot_binding_db_ok [db_ok_intros]:
  assumes "upsert_hot_binding row d = Inr d'" "db_ok d"
  shows "db_ok d'"
proof (cases "is_hot row \<and> list_ex (\<lambda>b. is_hot b \<and> hot_key b = hot_key row) (bindings d)")
  case True
  with assms(1) have "put_bindings (upd_where (\<lambda>b. is_hot b \<and> hot_key b = hot_key row)
      (refresh_binding row) (bindings d)) d = Inr d'" by (simp add: upsert_hot_binding_def)
  then show ?thesis by (rule db_ok_upd_bindings[OF assms(2)]) simp
next
  case False
  with assms(1) have p: "put_bindings (bindings d @ [row]) d = Inr d'" and "has_logical (b_subagent_id row) d"
    and "\<not> list_ex (\<lambda>b. b_id b = b_id row) (bindings d)"
    by (auto simp: upsert_hot_binding_def Let_def split: if_splits)
  then show ?thesis by (intro db_ok_add_binding[OF assms(2) p])
qed

lemma commit_hot_db_ok [db_ok_intros]:
  "commit_hot_binding_and_status now b sid d = Inr d' \<Longrightarrow> db_ok d \<Longrightarrow> db_ok d'"
  by (auto simp: commit_hot_binding_and_status_def split: sum.splits
      intro: db_ok_upd_logicals upsert_hot_binding_db_ok)

lemma restore_hot_db_ok [db_ok_intros]:
  assumes "restore_hot_binding_and_status now b sid d = Inr d'" "db_ok d"
  shows "db_ok d'"
proof -
  let ?hit = "\<lambda>c. b_id c = b_id b \<and> b_subagent_id c = sid \<and> b_harness c = b_harness b"
  let ?f = "\<lambda>c. c\<lparr>b_is_hot := 1, b_status := ''hot'', b_closed_at_ms := None, b_last_used_at_ms := Some now\<rparr>"
  obtain d1 where put: "put_logicals (upd_where (\<lambda>l. l_id l = sid) (touch_logical ''hot'' now)
        (logicals d1)) d1 = Inr d'"
    and d1: "upsert_hot_binding (?f b) d = Inr d1 \<or> put_bindings (upd_where ?hit ?f (bindings d)) d = Inr d1"
    using assms(1) by (auto simp: restore_hot_binding_and_status_def Let_def split: sum.splits if_splits)
  from d1 have "db_ok d1"
    using upsert_hot_binding_db_ok[OF _ assms(2)] db_ok_upd_bindings[OF assms(2)] by fastforce
  then show ?thesis by (rule db_ok_upd_logicals[OF _ put]) simp
qed

lemma commit_hibernate_db_ok [db_ok_intros]:
  "commit_hibernate_binding_and_status now b sid st d = Inr d' \<Longrightarrow> db_ok d \<Longrightarrow> db_ok d'"
  by (auto simp: commit_hibernate_binding_and_status_def split: sum.splits
      intro: db_ok_upd_logicals upsert_binding_db_ok)

lemma commit_eviction_db_ok [db_ok_intros]:
  assumes ev: "commit_eviction now1 now b sid s d = Inr (st, d')" and ok: "db_ok d"
  shows "db_ok d'"
  using ev
proof (cases rule: commit_evictionE)
  case (1 d1 d2)
  then have "db_ok d1" using ok write_hot_summary_db_ok[OF _ ok] by (auto split: option.splits)
  then have "db_ok d2" using upsert_binding_db_ok 1(2) by blast
  then show ?thesis by (rule db_ok_upd_logicals[OF _ 1(4)]) simp
qed

lemma fail_in_flight_db_ok: "db_ok d \<Longrightarrow> db_ok (fail_in_flight now ids d)"
  unfolding fail_in_flight_def
  by (intro db_ok_put_tasks tasks_ok_upd map_upd_where)
    (auto simp: db_okD(1) task_ok_def running_for_def)

lemma filter_upd_where_drop:
  "(\<And>x. P x \<Longrightarrow> \<not> Q (f x)) \<Longrightarrow> filter Q (upd_where P f xs) = filter (\<lambda>x. \<not> P x) (filter Q xs)"
  by (induction xs) auto

lemma one_hot_release:
  "one_hot bs \<Longrightarrow> one_hot (upd_where (live_on h) (release_binding now st) bs)"
  unfolding one_hot_def
  by (subst filter_upd_where_drop) (simp_all add: distinct_map_filter del: filter_filter)

lemma release_hot_db_ok:
  assumes "db_ok d" "binding_status_allowed st"
  shows "db_ok (release_hot now st h d)"
proof -
  let ?bs = "upd_where (live_on h) (release_binding now st) (bindings d)"
  have "put_bindings ?bs d = Inr (release_hot now st h d)"
    using assms one_hot_release[of "bindings d" h now st]
    by (auto simp: put_bindings_def release_hot_def list_all_iff db_ok_defs elim!: in_upd_whereE)
  then show ?thesis by (rule db_ok_upd_bindings[OF assms(1)]) simp
qed

lemma roll_back_statuses_db_ok: "roll_back_statuses now ids d = Inr d' \<Longrightarrow> db_ok d \<Longrightarrow> db_ok d'"
  unfolding roll_back_statuses_def by (erule db_ok_upd_logicals[rotated]) simp_all

text \<open>A roll-back keeps who is active, so it never meets the name index and never fails.\<close>

lemma unique_active_names_same:
  assumes "\<And>l. P l \<Longrightarrow> active (f l) = active l \<and> name_key (f l) = name_key l"
  shows "unique_active_names (upd_where P f ls) = unique_active_names ls"
proof -
  have "map name_key (filter active (upd_where P f ls)) = map name_key (filter active ls)"
    using assms by (induction ls) auto
  then show ?thesis by (simp add: unique_active_names_def)
qed

lemma roll_back_statuses_total:
  assumes "db_ok d"
  shows "\<exists>d'. roll_back_statuses now ids d = Inr d'"
proof -
  have "unique_active_names (upd_where (rolled_back ids) (rollback_status now d) (logicals d))"
    using db_okD(2)[OF assms] unique_active_names_same[of "rolled_back ids" "rollback_status now d"]
    by (simp add: rolled_back_def active_def)
  moreover have "logical_status_allowed (l_status l)"
    if "l \<in> set (upd_where (rolled_back ids) (rollback_status now d) (logicals d))" for l
    using that db_okD(7)[OF assms] by (auto elim!: in_upd_whereE)
  ultimately show ?thesis by (auto simp: roll_back_statuses_def put_logicals_def list_all_iff)
qed

lemma reconcile_crash_db_ok [db_ok_intros]:
  assumes "reconcile_sidecar_crash now h d = Inr (c, d')" "db_ok d"
  shows "db_ok d'"
proof (cases "affected_ids h d = []")
  case True
  with assms show ?thesis by (simp add: reconcile_sidecar_crash_def)
next
  case False
  with assms(1) have "roll_back_statuses now (affected_ids h d)
      (release_hot now ''crashed'' h (fail_in_flight now (affected_ids h d) d)) = Inr d'"
    by (simp add: reconcile_sidecar_crash_def Let_def split: sum.splits)
  then show ?thesis
    by (rule roll_back_statuses_db_ok) (simp add: release_hot_db_ok fail_in_flight_db_ok assms(2))
qed

lemma release_shutdown_db_ok [db_ok_intros]:
  assumes "release_hot_bindings_for_shutdown now h d = Inr (c, d')" "db_ok d"
  shows "db_ok d'"
proof (cases "affected_ids h d = []")
  case True
  with assms show ?thesis by (simp add: release_hot_bindings_for_shutdown_def)
next
  case False
  with assms(1) have "roll_back_statuses now (affected_ids h d) (release_hot now ''closed'' h d) = Inr d'"
    by (simp add: release_hot_bindings_for_shutdown_def Let_def split: sum.splits)
  then show ?thesis by (rule roll_back_statuses_db_ok) (simp add: release_hot_db_ok assms(2))
qed

lemma reconcile_crash_total:
  assumes "db_ok d"
  shows "\<exists>c d'. reconcile_sidecar_crash now h d = Inr (c, d')"
proof -
  have "db_ok (release_hot now ''crashed'' h (fail_in_flight now (affected_ids h d) d))"
    by (simp add: release_hot_db_ok fail_in_flight_db_ok assms)
  from roll_back_statuses_total[OF this, of now "affected_ids h d"] show ?thesis
    by (auto simp: reconcile_sidecar_crash_def Let_def)
qed

lemma run_session_op_db_ok:
  "run_session_op op d = Inr d' \<Longrightarrow> db_ok d \<Longrightarrow> db_ok d'"
  by (cases op) (auto intro: db_ok_intros split: sum.splits)

lemma insert_usage_db_ok [db_ok_intros]:
  assumes "insert_usage_record row d = Inr d'" "db_ok d"
  shows "db_ok d'"
proof -
  have "d' = d\<lparr>usages := usages d @ [row]\<rparr>" "u_id row \<notin> u_id ` set (usages d)"
    "u_task_id row \<in> t_id ` set (tasks d)" "u_subagent_id row \<in> l_id ` set (logicals d)"
    using assms(1)
    by (auto simp: insert_usage_record_def has_logical_iff list_ex_iff image_iff eq_commute split: if_splits)
  with assms(2) show ?thesis by (auto simp: db_ok_defs child_ids_def)
qed

lemma insert_event_db_ok [db_ok_intros]:
  assumes "insert_resource_event row d = Inr d'" "db_ok d"
  shows "db_ok d'"
proof -
  have "d' = d\<lparr>events := events d @ [row]\<rparr>" "e_id row \<notin> e_id ` set (events d)"
    using assms(1) by (auto simp: insert_resource_event_def list_ex_iff split: if_splits)
  with assms(2) show ?thesis by (simp add: db_ok_defs child_ids_def)
qed

lemma insert_task_db_ok [db_ok_intros]:
  assumes "insert_task row d = Inr d'" "db_ok d" "task_ok row"
    and "t_status row = ''running'' \<Longrightarrow> \<not> has_running_task (t_subagent_id row) d"
  shows "db_ok d'"
proof -
  have "tasks_ok (tasks d @ [row])"
    using insert_task_ok[OF assms(1) db_okD(1)[OF assms(2)] assms(3,4)] insert_taskD(1)[OF assms(1)] by simp
  with insert_taskD[OF assms(1)] assms(2) show ?thesis
    by (auto simp: db_ok_defs child_ids_def has_logical_iff)
qed

lemma db_ok_upd_tasks:
  assumes ok: "db_ok d"
    and key: "\<And>t. P t \<Longrightarrow> t_id (f t) = t_id t \<and> t_subagent_id (f t) = t_subagent_id t"
    and row: "\<And>t. P t \<Longrightarrow> task_ok t \<Longrightarrow> task_ok (f t)"
    and run: "\<And>t sid. P t \<Longrightarrow> running_for sid (f t) \<Longrightarrow> running_for sid t"
  shows "db_ok (d\<lparr>tasks := upd_where P f (tasks d)\<rparr>)"
  using assms by (intro db_ok_put_tasks tasks_ok_upd map_upd_where) (auto simp: db_okD(1))

lemma write_status_db_ok:
  "db_ok d \<Longrightarrow> task_status_allowed st \<Longrightarrow> st \<noteq> ''running'' \<Longrightarrow>
   db_ok (d\<lparr>tasks := upd_where P (write_status now st rs er) (tasks d)\<rparr>)"
  by (intro db_ok_upd_tasks write_status_ok) (auto simp: running_for_def)

lemma set_task_status_db_ok [db_ok_intros]:
  assumes "set_task_status now i st rs er d = Inr d'" "db_ok d" "st \<noteq> ''running''"
  shows "db_ok d'"
proof (cases "list_ex (\<lambda>t. t_id t = i) (tasks d)")
  case True
  with assms show ?thesis
    by (auto simp: set_task_status_def intro: write_status_db_ok split: if_splits)
next
  case False
  then have "upd_where (\<lambda>t. t_id t = i) (write_status now st rs er) (tasks d) = tasks d"
    by (intro upd_where_id) (auto simp: list_ex_iff)
  with False assms show ?thesis by (auto simp: set_task_status_def)
qed

lemma set_if_not_cancelled_db_ok [db_ok_intros]:
  assumes "set_task_status_if_not_cancelled now i st rs er d = Inr (u, d')" "db_ok d" "st \<noteq> ''running''"
  shows "db_ok d'"
proof -
  have "unique_task_ids d" using tasks_okD(1)[OF db_okD(1)[OF assms(2)]] by (simp add: unique_task_ids_def)
  with assms show ?thesis
    by (auto simp: set_if_not_cancelled_eq intro: write_status_db_ok split: option.splits if_splits)
qed

lemma cancel_task_db_ok [db_ok_intros]:
  "cancel_task_if_not_terminal i r now d = (u, d') \<Longrightarrow> db_ok d \<Longrightarrow> db_ok d'"
  by (auto simp: cancel_task_if_not_terminal_def Let_def task_ok_def running_for_def
      intro!: db_ok_upd_tasks)

lemma set_task_error_kind_db_ok [db_ok_intros]: "db_ok d \<Longrightarrow> db_ok (set_task_error_kind i k d)"
  by (auto simp: set_task_error_kind_def task_ok_def running_for_def intro!: db_ok_upd_tasks)

lemma set_task_queue_reason_db_ok [db_ok_intros]: "db_ok d \<Longrightarrow> db_ok (set_task_queue_reason i r d)"
  by (auto simp: set_task_queue_reason_def task_ok_def running_for_def intro!: db_ok_upd_tasks)

lemma reap_db_ok [db_ok_intros]:
  "reap_orphaned_running_tasks now dt buf d = (ids, d') \<Longrightarrow> db_ok d \<Longrightarrow> db_ok d'"
  by (auto simp: reap_orphaned_running_tasks_def Let_def task_ok_def running_for_def
      split: if_splits intro!: db_ok_upd_tasks)

lemma pick_db_ok [db_ok_intros]:
  assumes "pick_oldest_queued_task now d = (r, d')" "db_ok d"
  shows "db_ok d'"
  using db_okD(1)[OF assms(2)]
proof (cases rule: pick_cases[where now = now])
  case none
  with assms show ?thesis by simp
next
  case (some c)
  let ?ts = "upd_where (\<lambda>t. t = c) (start_task now) (tasks d)"
  have "map t_id ?ts = map t_id (tasks d)" "map t_subagent_id ?ts = map t_subagent_id (tasks d)"
    by (auto intro!: map_upd_where simp: start_task_def)
  moreover have "tasks_ok ?ts" using pick_ok[OF db_okD(1)[OF assms(2)] some(4)] by simp
  ultimately show ?thesis using db_ok_put_tasks[OF assms(2)] some(4) assms(1) by simp
qed

lemma hard_delete_db_ok [db_ok_intros]:
  assumes "hard_delete_logical_subagent i d = Inr d'" "db_ok d"
  shows "db_ok d'"
proof -
  have d': "d' = d\<lparr>usages := filter (\<lambda>u. u_subagent_id u \<noteq> i) (usages d),
                     tasks := filter (\<lambda>t. t_subagent_id t \<noteq> i) (tasks d),
                     bindings := filter (\<lambda>b. b_subagent_id b \<noteq> i) (bindings d),
                     memories := filter (\<lambda>m. m_subagent_id m \<noteq> i) (memories d),
                     events := filter (\<lambda>e. e_target_id e \<noteq> Some i) (events d),
                     logicals := filter (\<lambda>l. l_id l \<noteq> i) (logicals d)\<rparr>"
    and clear: "\<forall>u \<in> set (usages d). u_subagent_id u \<noteq> i \<longrightarrow>
                  (\<forall>t \<in> set (tasks d). t_subagent_id t = i \<longrightarrow> u_task_id u \<noteq> t_id t)"
    using assms(1)
    by (auto simp: hard_delete_logical_subagent_def Let_def list_ex_iff image_iff split: if_splits)
  have keys: "keys_ok d'" using assms(2) by (simp add: d' db_ok_def keys_ok_def distinct_map_filter)
  have vals: "values_ok d'"
    using assms(2) distinct_map_filter[of name_key "filter active (logicals d)" "\<lambda>l. l_id l \<noteq> i"]
      distinct_map_filter[of hot_key "filter is_hot (bindings d)" "\<lambda>b. b_subagent_id b \<noteq> i"]
    by (simp add: d' db_ok_def values_ok_def unique_active_names_def one_hot_def conj_commute)
  have "child_ids d' \<subseteq> child_ids d - {i}" by (auto simp: d' child_ids_def)
  also have "\<dots> \<subseteq> l_id ` set (logicals d) - {i}"
    using assms(2) by (intro Diff_mono order_refl) (simp add: db_ok_def fk_ok_def)
  also have "\<dots> = l_id ` set (logicals d')" by (auto simp: d')
  finally have "child_ids d' \<subseteq> l_id ` set (logicals d')" .
  moreover have "u_task_id ` set (usages d') \<subseteq> t_id ` set (tasks d')"
  proof safe
    fix u assume "u \<in> set (usages d')"
    then have u: "u \<in> set (usages d)" "u_subagent_id u \<noteq> i" by (simp_all add: d')
    then obtain t where t: "t \<in> set (tasks d)" "u_task_id u = t_id t"
      using assms(2) by (auto simp: db_ok_def fk_ok_def)
    with u clear have "t \<in> set (tasks d')" by (auto simp: d')
    with t(2) show "u_task_id u \<in> t_id ` set (tasks d')" by simp
  qed
  ultimately have "fk_ok d'" by (simp add: fk_ok_def)
  moreover have "tasks_ok (tasks d')"
  proof -
    have "count_where (running_for sid) (filter (\<lambda>t. t_subagent_id t \<noteq> i) (tasks d)) \<le> 1" for sid
      using le_trans[OF count_where_filter_le tasks_okD(3)[OF db_okD(1)[OF assms(2)]]] .
    then show ?thesis using db_okD(1)[OF assms(2)] by (simp add: d' tasks_ok_def distinct_map_filter)
  qed
  ultimately show ?thesis using keys vals by (simp add: db_ok_def)
qed

section \<open>Properties\<close>

text \<open>
  A hard delete either succeeds, and then no table names the subagent any more, every row of
  the others is still there as it was and the schema holds; or it fails with a foreign-key
  violation, and then a usage record of another subagent names one of the subagent's tasks.
\<close>

theorem hard_delete_complete:
  assumes "db_ok d"
  shows "case hard_delete_logical_subagent i d of
      Inr d' \<Rightarrow> db_ok d' \<and> i \<notin> l_id ` set (logicals d') \<and> i \<notin> child_ids d' \<and> Some i \<notin> e_target_id ` set (events d')
        \<and> logicals d' = filter (\<lambda>l. l_id l \<noteq> i) (logicals d)
        \<and> tasks d' = filter (\<lambda>t. t_subagent_id t \<noteq> i) (tasks d)
        \<and> bindings d' = filter (\<lambda>b. b_subagent_id b \<noteq> i) (bindings d)
        \<and> memories d' = filter (\<lambda>m. m_subagent_id m \<noteq> i) (memories d)
        \<and> usages d' = filter (\<lambda>u. u_subagent_id u \<noteq> i) (usages d)
    | Inl e \<Rightarrow> e = Fk_Violation
        \<and> (\<exists>u \<in> set (usages d). \<exists>t \<in> set (tasks d).
             u_subagent_id u \<noteq> i \<and> u_task_id u = t_id t \<and> t_subagent_id t = i)"
proof (cases "hard_delete_logical_subagent i d")
  case (Inl e)
  then show ?thesis
    by (auto simp: hard_delete_logical_subagent_def Let_def list_ex_iff split: if_splits)
next
  case (Inr d')
  with hard_delete_db_ok[OF Inr assms] hard_delete_removes[OF Inr] show ?thesis
    by (auto simp: child_ids_def hard_delete_logical_subagent_def Let_def split: if_splits)
qed

text \<open>The example: subagent x runs task a and is hot; subagent y only queues.\<close>

definition sample_logical :: "string \<Rightarrow> string \<Rightarrow> string \<Rightarrow> logical_row" where
  "sample_logical i n st =
     \<lparr>l_id = i, l_name = n, l_project_id = ''p'', l_repo_path = ''/r'', l_repo_hash = ''h'',
      l_branch = None, l_intent = None, l_default_profile = ''pi/search-cheap'',
      l_bound_provider_id = ''prov'', l_bound_model_id = ''mod'', l_status = st,
      l_created_at_ms = 0, l_updated_at_ms = 0, l_last_active_at_ms = None\<rparr>"

definition sample_binding :: "string \<Rightarrow> string \<Rightarrow> int \<Rightarrow> string \<Rightarrow> binding_row" where
  "sample_binding i sid hot st =
     \<lparr>b_id = i, b_subagent_id = sid, b_harness = ''pi-sdk'', b_adapter_session_id = Some ''sess'',
      b_adapter_process_id = None, b_is_hot = hot, b_status = st, b_created_at_ms = 1,
      b_last_used_at_ms = Some 1, b_closed_at_ms = None, b_detail_json = None\<rparr>"

definition sample_store :: db where
  "sample_store = empty_db\<lparr>
     logicals := [sample_logical ''x'' ''one'' ''hot'', sample_logical ''y'' ''two'' ''cold''],
     tasks := [sample_task ''a'' ''x'' ''running'' 1 (Some 1), sample_task ''b'' ''y'' ''queued'' 2 None],
     bindings := [sample_binding ''bx'' ''x'' 1 ''hot'']\<rparr>"

lemma sample_store_ok: "db_ok sample_store" "hot_inv ''pi-sdk'' sample_store"
proof -
  have "count_where (running_for sid) (tasks sample_store) \<le> 1" for sid
    by (simp add: sample_store_def sample_task_def running_for_def)
  then have "tasks_ok (tasks sample_store)"
    by (simp add: tasks_ok_def) (simp add: sample_store_def sample_task_def task_ok_def)
  moreover have "keys_ok sample_store"
    by (simp add: keys_ok_def sample_store_def sample_logical_def sample_binding_def empty_db_def)
  moreover have "values_ok sample_store"
    by (simp add: values_ok_def sample_store_def sample_logical_def sample_binding_def empty_db_def
        unique_active_names_def one_hot_def active_def name_key_def hot_key_def is_hot_def)
  moreover have "fk_ok sample_store"
    by (simp add: fk_ok_def child_ids_def sample_store_def sample_logical_def sample_binding_def
        sample_task_def empty_db_def)
  ultimately show "db_ok sample_store" by (simp add: db_ok_def)
  show "hot_inv ''pi-sdk'' sample_store"
    by (simp add: hot_inv_def sample_store_def sample_logical_def sample_binding_def has_hot_def is_hot_def)
qed

theorem hard_delete_complete_witness:
  "\<exists>d'. hard_delete_logical_subagent ''x'' sample_store = Inr d' \<and> db_ok d' \<and> ''x'' \<notin> child_ids d'
     \<and> map t_id (tasks d') = [''b'']"
proof -
  have "\<exists>d'. hard_delete_logical_subagent ''x'' sample_store = Inr d'"
    by (simp add: hard_delete_logical_subagent_def sample_store_def empty_db_def)
  then obtain d' where d': "hard_delete_logical_subagent ''x'' sample_store = Inr d'" by blast
  with hard_delete_complete[OF sample_store_ok(1), of "''x''"]
  have "db_ok d'" "''x'' \<notin> child_ids d'" "tasks d' = filter (\<lambda>t. t_subagent_id t \<noteq> ''x'') (tasks sample_store)"
    by simp_all
  with d' show ?thesis by (simp add: sample_store_def sample_task_def)
qed

lemma affected_iff: "hot_inv h d \<Longrightarrow> sid \<in> set (affected_ids h d) \<longleftrightarrow> has_hot sid d"
  by (auto simp: affected_ids_def has_hot_iff hot_inv_def)

lemma release_shutdown_total:
  assumes "db_ok d"
  shows "\<exists>c d'. release_hot_bindings_for_shutdown now h d = Inr (c, d')"
proof -
  have "db_ok (release_hot now ''closed'' h d)"
    using assms by (intro release_hot_db_ok) simp_all
  from roll_back_statuses_total[OF this, of now "affected_ids h d"] show ?thesis
    by (auto simp: release_hot_bindings_for_shutdown_def Let_def)
qed

text \<open>The statuses a roll-back leaves.\<close>

lemma release_hot_logicals:
  assumes inv: "hot_inv h d" and logs: "logicals d0 = logicals d" and mem: "memories d0 = memories d"
    and put: "roll_back_statuses now (affected_ids h d) (release_hot now st h d0) = Inr d2"
  shows "logicals d2 = map (\<lambda>l. if active l \<and> has_hot (l_id l) d
            then l\<lparr>l_status := (if has_hot_summary (l_id l) d then ''warm'' else ''cold''), l_updated_at_ms := now\<rparr>
            else l) (logicals d)"
  using put_logicalsD(1)[OF put[unfolded roll_back_statuses_def]] logs mem affected_iff[OF inv]
  by (simp add: release_hot_def upd_where_def rolled_back_def active_def rollback_status_def
      has_hot_summary_def)

lemma no_hot_map_id:
  assumes "hot_inv h d" "affected_ids h d = []"
  shows "\<not> has_hot sid d"
  using assms affected_iff[OF assms(1), of sid] by simp

lemma crash_facts:
  assumes "db_ok d" "hot_inv h d"
  shows "\<exists>c d'. reconcile_sidecar_crash now h d = Inr (c, d') \<and> db_ok d' \<and> hot_inv h d'
     \<and> (\<forall>b \<in> set (bindings d'). \<not> is_hot b)
     \<and> tasks d' = map (\<lambda>t. if t_status t = ''running'' \<and> has_hot (t_subagent_id t) d
                         then t\<lparr>t_status := ''failed'', t_error := Some ''SIDECAR_CRASHED'',
                                t_completed_at_ms := Some now\<rparr> else t) (tasks d)
     \<and> logicals d' = map (\<lambda>l. if active l \<and> has_hot (l_id l) d
            then l\<lparr>l_status := (if has_hot_summary (l_id l) d then ''warm'' else ''cold''), l_updated_at_ms := now\<rparr>
            else l) (logicals d)"
proof -
  obtain c d' where r: "reconcile_sidecar_crash now h d = Inr (c, d')"
    using reconcile_crash_total[OF assms(1)] by blast
  have t: "tasks d' = map (\<lambda>t. if t_status t = ''running'' \<and> has_hot (t_subagent_id t) d
                         then t\<lparr>t_status := ''failed'', t_error := Some ''SIDECAR_CRASHED'',
                                t_completed_at_ms := Some now\<rparr> else t) (tasks d)"
    using reconcile_crash_tasks[OF r] affected_iff[OF assms(2)]
    by (simp add: fail_in_flight_def upd_where_def in_flight_def)
  have l: "logicals d' = map (\<lambda>l. if active l \<and> has_hot (l_id l) d
            then l\<lparr>l_status := (if has_hot_summary (l_id l) d then ''warm'' else ''cold''), l_updated_at_ms := now\<rparr>
            else l) (logicals d)"
  proof (cases "affected_ids h d = []")
    case True
    with r have "d' = d" by (simp add: reconcile_sidecar_crash_def)
    with no_hot_map_id[OF assms(2) True] show ?thesis by simp
  next
    case False
    with r have "roll_back_statuses now (affected_ids h d)
        (release_hot now ''crashed'' h (fail_in_flight now (affected_ids h d) d)) = Inr d'"
      by (simp add: reconcile_sidecar_crash_def Let_def split: sum.splits)
    from release_hot_logicals[OF assms(2) _ _ this] show ?thesis by (simp add: fail_in_flight_def)
  qed
  from r t l reconcile_crash_db_ok[OF r assms(1)] reconcile_crash_inv[OF assms(2) r] show ?thesis by blast
qed

text \<open>
  Crash reconciliation never fails, and afterwards: no binding and no subagent is hot; every
  task that was running for a subagent with a hot binding is failed with \<open>SIDECAR_CRASHED\<close> and
  every other task is untouched; each such subagent is warm if it has a hot summary and cold if
  not, deleted ones stay deleted; the schema and the hot invariant hold.
\<close>

theorem crash_reconciliation:
  assumes "db_ok d" "hot_inv h d"
  shows "\<exists>c d'. reconcile_sidecar_crash now h d = Inr (c, d') \<and> db_ok d' \<and> hot_inv h d'
     \<and> (\<forall>b \<in> set (bindings d'). \<not> is_hot b)
     \<and> tasks d' = map (\<lambda>t. if t_status t = ''running'' \<and> has_hot (t_subagent_id t) d
                         then t\<lparr>t_status := ''failed'', t_error := Some ''SIDECAR_CRASHED'',
                                t_completed_at_ms := Some now\<rparr> else t) (tasks d)
     \<and> logicals d' = map (\<lambda>l. if active l \<and> has_hot (l_id l) d
            then l\<lparr>l_status := (if has_hot_summary (l_id l) d then ''warm'' else ''cold''), l_updated_at_ms := now\<rparr>
            else l) (logicals d)"
  using assms by (rule crash_facts)

theorem crash_reconciliation_witness:
  "\<exists>c d'. reconcile_sidecar_crash 9 ''pi-sdk'' sample_store = Inr (c, d')
     \<and> map t_status (tasks d') = [''failed'', ''queued''] \<and> map l_status (logicals d') = [''cold'', ''cold'']"
proof -
  from crash_reconciliation[OF sample_store_ok, of 9] obtain c d' where
    "reconcile_sidecar_crash 9 ''pi-sdk'' sample_store = Inr (c, d')"
    "tasks d' = map (\<lambda>t. if t_status t = ''running'' \<and> has_hot (t_subagent_id t) sample_store
        then t\<lparr>t_status := ''failed'', t_error := Some ''SIDECAR_CRASHED'', t_completed_at_ms := Some 9\<rparr>
        else t) (tasks sample_store)"
    "logicals d' = map (\<lambda>l. if active l \<and> has_hot (l_id l) sample_store
        then l\<lparr>l_status := (if has_hot_summary (l_id l) sample_store then ''warm'' else ''cold''),
               l_updated_at_ms := 9\<rparr> else l) (logicals sample_store)"
    by blast
  then show ?thesis
    by (simp add: sample_store_def sample_task_def sample_logical_def sample_binding_def has_hot_def
        is_hot_def active_def has_hot_summary_def empty_db_def)
qed

text \<open>
  A clean shutdown never fails either: nothing stays hot, statuses roll back the same way, and
  no task changes at all.
\<close>

theorem shutdown_release:
  assumes "db_ok d" "hot_inv h d"
  shows "\<exists>c d'. release_hot_bindings_for_shutdown now h d = Inr (c, d') \<and> db_ok d' \<and> hot_inv h d'
     \<and> (\<forall>b \<in> set (bindings d'). \<not> is_hot b) \<and> tasks d' = tasks d
     \<and> logicals d' = map (\<lambda>l. if active l \<and> has_hot (l_id l) d
            then l\<lparr>l_status := (if has_hot_summary (l_id l) d then ''warm'' else ''cold''), l_updated_at_ms := now\<rparr>
            else l) (logicals d)"
proof -
  obtain c d' where r: "release_hot_bindings_for_shutdown now h d = Inr (c, d')"
    using release_shutdown_total[OF assms(1)] by blast
  have "logicals d' = map (\<lambda>l. if active l \<and> has_hot (l_id l) d
            then l\<lparr>l_status := (if has_hot_summary (l_id l) d then ''warm'' else ''cold''), l_updated_at_ms := now\<rparr>
            else l) (logicals d)"
  proof (cases "affected_ids h d = []")
    case True
    with r have "d' = d" by (simp add: release_hot_bindings_for_shutdown_def)
    with no_hot_map_id[OF assms(2) True] show ?thesis by simp
  next
    case False
    with r have "roll_back_statuses now (affected_ids h d) (release_hot now ''closed'' h d) = Inr d'"
      by (simp add: release_hot_bindings_for_shutdown_def Let_def split: sum.splits)
    from release_hot_logicals[OF assms(2) _ _ this] show ?thesis by simp
  qed
  with r release_shutdown_db_ok[OF r assms(1)] release_shutdown_inv[OF assms(2) r] show ?thesis by blast
qed

theorem shutdown_release_witness:
  "\<exists>c d'. release_hot_bindings_for_shutdown 9 ''pi-sdk'' sample_store = Inr (c, d')
     \<and> map t_status (tasks d') = [''running'', ''queued''] \<and> map l_status (logicals d') = [''cold'', ''cold'']"
proof -
  from shutdown_release[OF sample_store_ok, of 9] obtain c d' where
    "release_hot_bindings_for_shutdown 9 ''pi-sdk'' sample_store = Inr (c, d')"
    "tasks d' = tasks sample_store"
    "logicals d' = map (\<lambda>l. if active l \<and> has_hot (l_id l) sample_store
        then l\<lparr>l_status := (if has_hot_summary (l_id l) sample_store then ''warm'' else ''cold''),
               l_updated_at_ms := 9\<rparr> else l) (logicals sample_store)"
    by blast
  then show ?thesis
    by (simp add: sample_store_def sample_task_def sample_logical_def sample_binding_def has_hot_def
        is_hot_def active_def has_hot_summary_def empty_db_def)
qed

lemma upsert_binding_row:
  assumes "upsert_binding row d = Inr d'"
  shows "\<exists>b \<in> set (bindings d'). b_id b = b_id row \<and> b_status b = b_status row \<and> b_is_hot b = b_is_hot row"
proof (cases "list_ex (\<lambda>b. b_id b = b_id row) (bindings d)")
  case True
  then obtain b where b: "b \<in> set (bindings d)" "b_id b = b_id row" by (auto simp: list_ex_iff)
  have "d' = d\<lparr>bindings := upd_where (\<lambda>b. b_id b = b_id row) (overwrite_binding row) (bindings d)\<rparr>"
    using assms True by (auto simp: upsert_binding_def dest: put_bindingsD(1))
  with b have "overwrite_binding row b \<in> set (bindings d')" by (auto intro: upd_where_hit)
  with b show ?thesis by (intro bexI[of _ "overwrite_binding row b"]) (simp_all add: overwrite_binding_def)
next
  case False
  with assms show ?thesis by (auto simp: upsert_binding_def dest!: put_bindingsD(1) split: if_splits)
qed

lemma eviction_facts:
  assumes "commit_eviction now1 now binding sid summary d = Inr (st, d')"
  shows "st = (if has_hot_summary sid d' then ''warm'' else ''cold'')
    \<and> (summary \<noteq> None \<longrightarrow> st = ''warm'')
    \<and> (\<exists>b \<in> set (bindings d'). b_id b = b_id binding \<and> b_status b = b_status binding \<and> b_is_hot b = b_is_hot binding)
    \<and> map l_status (logicals d') =
        map (\<lambda>l. if l_id l = sid \<and> active l then st else l_status l) (logicals d)
    \<and> tasks d' = tasks d"
  using assms
proof (cases rule: commit_evictionE)
  case (1 d1 d2)
  note frame = put_logicals_frame[OF 1(4)] put_logicalsD(1)[OF 1(4)]
  obtain bs where bs: "d2 = d1\<lparr>bindings := bs\<rparr>" using upsert_binding_frame[OF 1(2)] by blast
  have d1: "\<exists>ms. d1 = d\<lparr>memories := ms\<rparr>" and sum: "summary \<noteq> None \<longrightarrow> has_hot_summary sid d1"
    using 1(1) write_hot_summary_frame by (auto split: option.splits intro: exI[of _ "memories d"])
  have "has_hot_summary sid d' = has_hot_summary sid d2" "has_hot_summary sid d2 = has_hot_summary sid d1"
    using frame(1) bs by (simp_all add: has_hot_summary_def)
  with 1(3) sum have st: "st = (if has_hot_summary sid d' then ''warm'' else ''cold'')"
    "summary \<noteq> None \<longrightarrow> st = ''warm''" by simp_all
  have "map l_status (logicals d') = map (\<lambda>l. if l_id l = sid \<and> active l then st else l_status l) (logicals d)"
    using frame(2) bs d1 by (auto simp: upd_where_def active_def)
  moreover have "tasks d' = tasks d" using frame(1) bs d1 by auto
  ultimately show ?thesis using st upsert_binding_row[OF 1(2)] frame(1) by simp
qed

text \<open>
  An eviction that commits leaves the caller's closed row in the table and reports the status
  it wrote: \<open>warm\<close> exactly when a hot summary is recoverable, in particular whenever the adapter
  returned one; the subagent has that status unless it is deleted, which it then stays.
\<close>

theorem eviction_status:
  assumes "commit_eviction now1 now binding sid summary d = Inr (st, d')"
  shows "st = (if has_hot_summary sid d' then ''warm'' else ''cold'')
    \<and> (summary \<noteq> None \<longrightarrow> st = ''warm'')
    \<and> (\<exists>b \<in> set (bindings d'). b_id b = b_id binding \<and> b_status b = b_status binding \<and> b_is_hot b = b_is_hot binding)
    \<and> map l_status (logicals d') =
        map (\<lambda>l. if l_id l = sid \<and> active l then st else l_status l) (logicals d)
    \<and> tasks d' = tasks d"
  using assms by (rule eviction_facts)

theorem eviction_status_witness:
  "\<exists>d'. commit_eviction 8 9 (sample_binding ''bx'' ''x'' 0 ''closed'') ''x'' (Some ''done'') sample_store
      = Inr (''warm'', d') \<and> map l_status (logicals d') = [''warm'', ''cold'']"
proof -
  have "\<exists>st d'. commit_eviction 8 9 (sample_binding ''bx'' ''x'' 0 ''closed'') ''x'' (Some ''done'') sample_store
      = Inr (st, d')"
    by (simp add: commit_eviction_def has_hot_summary_def write_hot_summary_def get_memory_def upsert_binding_def
        put_bindings_def put_logicals_def Let_def sample_store_def sample_logical_def sample_binding_def
        sample_task_def empty_db_def has_logical_def one_hot_def is_hot_def hot_key_def
        overwrite_binding_def touch_logical_def unique_active_names_def active_def name_key_def)
  then obtain st d' where e: "commit_eviction 8 9 (sample_binding ''bx'' ''x'' 0 ''closed'') ''x'' (Some ''done'')
      sample_store = Inr (st, d')" by blast
  from eviction_status[OF e] have "st = ''warm''" by blast
  with e eviction_status[OF e] show ?thesis
    by (simp add: sample_store_def sample_logical_def active_def)
qed

end
