(* ===== verification/Subagent_Error.thy ===== *)
theory Subagent_Error
  imports Store_Tables
begin

text \<open>
  Errors of the subagent layer (\<^verbatim>\<open>error.rs\<close>, \<^verbatim>\<open>sidecar/mod.rs\<close>, the codes of
  \<^verbatim>\<open>sidecar/protocol.rs\<close>) and their classification in \<^verbatim>\<open>manager.rs\<close>.
\<close>

datatype subagent_error =
    NotFound string
  | AmbiguousName string
  | InvalidName string
  | InvalidArgument string
  | ProfileNotFound string
  | Disabled
  | Store db_error
  | TaskTimeout
  | SidecarSpawn string
  | SidecarRpc string "int option"
  | SidecarIo string
  | SidecarTimeout string
  | SidecarCrashed string
  | HotSessionLimit string
  | HotSessionStateDivergence string
  | Validation string

text \<open>
  \<open>SidecarError\<close>; \<open>'v\<close> is the type of JSON values of the serializer library, of which the code
  uses one access.
\<close>

datatype 'v sidecar_error =
    SpawnErr string
  | RpcErr string
  | TimeoutErr string
  | CrashedErr string
  | IoErr string
  | Application int string "'v option"

definition SESSION_NOT_FOUND :: int where "SESSION_NOT_FOUND = -32001"
definition HOT_SESSION_LIMIT_REACHED :: int where "HOT_SESSION_LIMIT_REACHED = -32002"
definition TASK_TIMEOUT :: int where "TASK_TIMEOUT = -32003"
definition PROFILE_NOT_FOUND :: int where "PROFILE_NOT_FOUND = -32005"
definition AUTH_FAILURE :: int where "AUTH_FAILURE = -32010"
definition RATE_LIMIT :: int where "RATE_LIMIT = -32011"
definition NETWORK_ERROR :: int where "NETWORK_ERROR = -32012"

lemmas protocol_codes = SESSION_NOT_FOUND_def HOT_SESSION_LIMIT_REACHED_def TASK_TIMEOUT_def
  PROFILE_NOT_FOUND_def AUTH_FAILURE_def RATE_LIMIT_def NETWORK_ERROR_def

text \<open>\<open>SubagentError::code\<close>.\<close>

fun error_code :: "subagent_error \<Rightarrow> string" where
  "error_code (NotFound _) = ''subagent.not_found''"
| "error_code (AmbiguousName _) = ''subagent.ambiguous_name''"
| "error_code (InvalidName _) = ''subagent.invalid_name''"
| "error_code (InvalidArgument _) = ''subagent.invalid_argument''"
| "error_code (ProfileNotFound _) = ''subagent.profile_not_found''"
| "error_code Disabled = ''subagent.disabled''"
| "error_code (Store _) = ''subagent.store_error''"
| "error_code TaskTimeout = ''subagent.task_timeout''"
| "error_code (SidecarSpawn _) = ''subagent.sidecar_spawn_failed''"
| "error_code (SidecarRpc _ _) = ''subagent.sidecar_rpc_error''"
| "error_code (SidecarIo _) = ''subagent.sidecar_io_error''"
| "error_code (SidecarTimeout _) = ''subagent.sidecar_timeout''"
| "error_code (SidecarCrashed _) = ''subagent.sidecar_crashed''"
| "error_code (HotSessionLimit _) = ''subagent.hot_session_limit''"
| "error_code (HotSessionStateDivergence _) = ''subagent.hot_session_state_divergence''"
| "error_code (Validation _) = ''subagent.validation_error''"

text \<open>The \<open>Display\<close> text (the \<open>#[error(...)]\<close> attributes), what \<open>e.to_string()\<close> stores.\<close>

fun error_to_string :: "subagent_error \<Rightarrow> string" where
  "error_to_string (NotFound s) = ''logical subagent not found: '' @ s"
| "error_to_string (AmbiguousName s) = ''ambiguous subagent name: '' @ s"
| "error_to_string (InvalidName s) = ''invalid subagent name: '' @ s"
| "error_to_string (InvalidArgument s) = ''invalid argument: '' @ s"
| "error_to_string (ProfileNotFound s) = ''profile not found: '' @ s"
| "error_to_string Disabled = ''subagent feature is disabled''"
| "error_to_string (Store _) = ''database error''"
| "error_to_string TaskTimeout = ''task timed out''"
| "error_to_string (SidecarSpawn s) = ''sidecar spawn failed: '' @ s"
| "error_to_string (SidecarRpc s _) = ''sidecar rpc error: '' @ s"
| "error_to_string (SidecarIo s) = ''sidecar io error: '' @ s"
| "error_to_string (SidecarTimeout s) = ''sidecar timeout: '' @ s"
| "error_to_string (SidecarCrashed s) = ''sidecar crashed: '' @ s"
| "error_to_string (HotSessionLimit c) = ''hot session limit reached, candidate: '' @ c"
| "error_to_string (HotSessionStateDivergence s) = ''hot session state divergence: '' @ s"
| "error_to_string (Validation s) = s"

text \<open>
  \<open>From<SidecarError>\<close>. \<open>get_str v k\<close> is \<open>v.get(k).and_then(Value::as_str)\<close>.
\<close>

definition from_sidecar_error ::
    "('v \<Rightarrow> string \<Rightarrow> string option) \<Rightarrow> 'v sidecar_error \<Rightarrow> subagent_error" where
  "from_sidecar_error get_str e =
     (case e of
        SpawnErr msg \<Rightarrow> SidecarSpawn msg
      | RpcErr msg \<Rightarrow> SidecarRpc msg None
      | TimeoutErr msg \<Rightarrow> SidecarTimeout msg
      | CrashedErr msg \<Rightarrow> SidecarCrashed msg
      | IoErr msg \<Rightarrow> SidecarIo msg
      | Application code msg data \<Rightarrow>
          (if code = SESSION_NOT_FOUND then NotFound msg
           else if code = PROFILE_NOT_FOUND then ProfileNotFound msg
           else if code = TASK_TIMEOUT then TaskTimeout
           else if code = HOT_SESSION_LIMIT_REACHED then
             HotSessionLimit
               (unwrap_or [] (Option.bind data (\<lambda>d. get_str d ''candidate'')))
           else SidecarRpc (''['' @ show_int code @ ''] '' @ msg) (Some code)))"

text \<open>\<open>subagent_error_to_task_error_kind\<close> of \<^verbatim>\<open>manager.rs\<close>.\<close>

fun subagent_error_to_task_error_kind :: "subagent_error \<Rightarrow> task_error_kind option" where
  "subagent_error_to_task_error_kind (SidecarTimeout _) = Some KTimeout"
| "subagent_error_to_task_error_kind TaskTimeout = Some KTimeout"
| "subagent_error_to_task_error_kind (SidecarCrashed _) = Some KCrash"
| "subagent_error_to_task_error_kind (SidecarIo _) = Some KNetwork"
| "subagent_error_to_task_error_kind (SidecarSpawn _) = Some KCrash"
| "subagent_error_to_task_error_kind (HotSessionLimit _) = Some KHotSessionLimit"
| "subagent_error_to_task_error_kind (HotSessionStateDivergence _) = Some KUnknown"
| "subagent_error_to_task_error_kind (SidecarRpc _ code) =
     (if code = Some AUTH_FAILURE then Some KAuth
      else if code = Some RATE_LIMIT then Some KRateLimit
      else if code = Some NETWORK_ERROR then Some KNetwork
      else if code = Some TASK_TIMEOUT then Some KTimeout
      else Some KUnknown)"
| "subagent_error_to_task_error_kind _ = None"

fun is_hot_session_limit :: "subagent_error \<Rightarrow> bool" where
  "is_hot_session_limit (HotSessionLimit _) = True"
| "is_hot_session_limit _ = False"

text \<open>
  Which errors of the sidecar reach the re-queue path: exactly the capacity code, whatever the
  data field holds.
\<close>

lemma from_sidecar_error_hot_limit:
  "is_hot_session_limit (from_sidecar_error g e) \<longleftrightarrow>
     (\<exists>msg d. e = Application HOT_SESSION_LIMIT_REACHED msg d)"
  by (cases e) (auto simp: from_sidecar_error_def protocol_codes)

text \<open>
  Every failure the sidecar reports is classified once converted, except the two lookup errors
  (session and profile not found), which are not task failures.
\<close>

lemma from_sidecar_error_classified:
  "subagent_error_to_task_error_kind (from_sidecar_error g e) = None \<longleftrightarrow>
     (\<exists>msg d. e = Application SESSION_NOT_FOUND msg d \<or> e = Application PROFILE_NOT_FOUND msg d)"
  by (cases e) (auto simp: from_sidecar_error_def protocol_codes)

text \<open>Every wire code lives in the subagent namespace.\<close>

lemma error_code_prefix: "take 9 (error_code e) = ''subagent.''"
  by (cases e) simp_all

end
