(* ===== verification/Subagent_Env.thy ===== *)
theory Subagent_Env
  imports Store_Invariant Subagent_Error "HOL-Library.State_Monad"
begin

text \<open>
  How the handlers of the subagent layer run against the shared database: the state monad over
  \<open>db\<close> with errors as values, a critical section of the database mutex, a store call that may
  fail, and the environment of one handler run (clock, fresh ids, path functions, which store
  calls fail, and what the other threads of the daemon do to the database between two critical
  sections).
\<close>

section \<open>Environment\<close>

text \<open>A critical section of a handler: one acquisition of the database mutex.\<close>

datatype lock_site =
    L_Resolve | L_Validate | L_Insert | L_Precheck | L_Setup_Validate | L_Setup | L_Failure
  | L_Persist | L_Rollback | L_Final | L_Outcome | L_Reap | L_Pick | L_Lookup | L_Missing
  | L_Recheck | L_Cancel_Read | L_Cancel_Write | L_Cancel_Reread | L_Cancel_Provider
  | L_Hibernate_Resolve | L_Hibernate | L_Hibernate_Restore | L_Delete_Resolve | L_Delete | L_Read

text \<open>A store call of a handler.\<close>

datatype call_site =
    C_Find_Name | C_Create | C_Seed_Memory | C_Get_Logical | C_Get_Provider | C_Get_Model
  | C_Has_Running | C_Insert_Task | C_Get_Task | C_Get_Memory | C_List_Tasks | C_Count_Since
  | C_Get_Sub_Row | C_Fail_Status | C_Error_Kind | C_Result_Status | C_Recent_Tasks | C_Usage
  | C_Upsert_Memory | C_Commit_Hot | C_Commit_Fail | C_Status_Read | C_Status_Write
  | C_Rollback_Read | C_Eviction | C_Final_Read | C_Requeue | C_Queue_Reason | C_Deadline_Status
  | C_Deadline_Kind | C_Outcome_Status | C_Reap | C_Pick | C_Lookup | C_Missing | C_Recheck
  | C_Cancel_Read | C_Cancel_Write | C_Cancel_Reread | C_Cancel_Provider | C_Hot_Binding
  | C_Hibernate | C_Event | C_Restore | C_Hard_Delete | C_List_Filtered | C_Counts
  | C_Counts_By_Sub | C_Last_Tasks | C_Recent_All

record env =
  en_now :: "call_site \<Rightarrow> int"
  en_uuid :: "call_site \<Rightarrow> string"
  en_fault :: "call_site \<Rightarrow> bool"
  en_between :: "lock_site \<Rightarrow> db \<Rightarrow> db"
  en_canonicalize :: "string \<Rightarrow> string option"
  en_project_hash :: "string \<Rightarrow> string"
  en_gate_paused :: bool

section \<open>Steps\<close>

type_synonym 'a step = "(db, 'a) state"
type_synonym 'a fallible = "(db, subagent_error + 'a) state"

definition succeed :: "'a \<Rightarrow> 'a fallible" where
  "succeed a = State_Monad.return (Inr a)"

definition raise :: "subagent_error \<Rightarrow> 'a fallible" where
  "raise e = State_Monad.return (Inl e)"

text \<open>The \<open>?\<close> operator.\<close>

definition try_bind :: "'a fallible \<Rightarrow> ('a \<Rightarrow> 'b fallible) \<Rightarrow> 'b fallible" where
  "try_bind m k = State_Monad.bind m (\<lambda>r. case r of Inl e \<Rightarrow> raise e | Inr a \<Rightarrow> k a)"

text \<open>A critical section sees what the other threads did since the last one.\<close>

definition locked :: "env \<Rightarrow> lock_site \<Rightarrow> 'a step \<Rightarrow> 'a step" where
  "locked env l m = State (\<lambda>d. run_state m (en_between env l d))"

definition query :: "env \<Rightarrow> call_site \<Rightarrow> (db \<Rightarrow> 'a) \<Rightarrow> 'a fallible" where
  "query env c f =
     State (\<lambda>d. (if en_fault env c then Inl (Store Engine_Failure) else Inr (f d), d))"

definition exec :: "env \<Rightarrow> call_site \<Rightarrow> (db \<Rightarrow> db_error + db) \<Rightarrow> unit fallible" where
  "exec env c f =
     State (\<lambda>d. if en_fault env c then (Inl (Store Engine_Failure), d)
                else case f d of Inl e \<Rightarrow> (Inl (Store e), d) | Inr d' \<Rightarrow> (Inr (), d'))"

definition exec_val :: "env \<Rightarrow> call_site \<Rightarrow> (db \<Rightarrow> db_error + ('a \<times> db)) \<Rightarrow> 'a fallible" where
  "exec_val env c f =
     State (\<lambda>d. if en_fault env c then (Inl (Store Engine_Failure), d)
                else case f d of Inl e \<Rightarrow> (Inl (Store e), d) | Inr (a, d') \<Rightarrow> (Inr a, d'))"

definition exec_total :: "env \<Rightarrow> call_site \<Rightarrow> (db \<Rightarrow> 'a \<times> db) \<Rightarrow> 'a fallible" where
  "exec_total env c f = exec_val env c (\<lambda>d. Inr (f d))"

text \<open>\<open>let _ = ...\<close> and \<open>.ok()\<close>.\<close>

definition ignore :: "'a fallible \<Rightarrow> unit step" where
  "ignore m = State_Monad.bind m (\<lambda>_. State_Monad.return ())"

definition lift_ok :: "'a step \<Rightarrow> 'a fallible" where
  "lift_ok m = State_Monad.bind m succeed"

lemma run_succeed [simp]: "run_state (succeed a) d = (Inr a, d)"
  by (simp add: succeed_def)

lemma run_raise [simp]: "run_state (raise e) d = (Inl e, d)"
  by (simp add: raise_def)

lemma run_try_bind [simp]:
  "run_state (try_bind m k) d =
     (case run_state m d of (Inl e, d') \<Rightarrow> (Inl e, d') | (Inr a, d') \<Rightarrow> run_state (k a) d')"
  by (auto simp: try_bind_def split: prod.splits sum.splits)

lemma run_locked [simp]: "run_state (locked env l m) d = run_state m (en_between env l d)"
  by (simp add: locked_def)

lemma run_query [simp]:
  "run_state (query env c f) d =
     (if en_fault env c then Inl (Store Engine_Failure) else Inr (f d), d)"
  by (simp add: query_def)

lemma run_exec [simp]:
  "run_state (exec env c f) d =
     (if en_fault env c then (Inl (Store Engine_Failure), d)
      else case f d of Inl e \<Rightarrow> (Inl (Store e), d) | Inr d' \<Rightarrow> (Inr (), d'))"
  by (simp add: exec_def)

lemma run_exec_val [simp]:
  "run_state (exec_val env c f) d =
     (if en_fault env c then (Inl (Store Engine_Failure), d)
      else case f d of Inl e \<Rightarrow> (Inl (Store e), d) | Inr (a, d') \<Rightarrow> (Inr a, d'))"
  by (simp add: exec_val_def)

lemma run_exec_total [simp]:
  "run_state (exec_total env c f) d =
     (if en_fault env c then (Inl (Store Engine_Failure), d)
      else case f d of (a, d') \<Rightarrow> (Inr a, d'))"
  by (simp add: exec_total_def split: prod.splits)

lemma run_ignore [simp]: "run_state (ignore m) d = ((), snd (run_state m d))"
  by (simp add: ignore_def split: prod.splits)

lemma run_lift_ok [simp]:
  "run_state (lift_ok m) d = (case run_state m d of (a, d') \<Rightarrow> (Inr a, d'))"
  by (simp add: lift_ok_def split: prod.splits)

section \<open>Keeping an invariant\<close>

definition keeps :: "('s \<Rightarrow> bool) \<Rightarrow> ('s, 'a) state \<Rightarrow> bool" where
  "keeps I m \<longleftrightarrow> (\<forall>s. I s \<longrightarrow> I (snd (run_state m s)))"

named_theorems keeps_intros

lemma keepsD: "keeps I m \<Longrightarrow> I s \<Longrightarrow> run_state m s = (r, s') \<Longrightarrow> I s'"
  by (fastforce simp: keeps_def)

lemma keeps_return [keeps_intros]: "keeps I (State_Monad.return a)"
  by (simp add: keeps_def)

lemma keeps_succeed [keeps_intros]: "keeps I (succeed a)"
  by (simp add: keeps_def)

lemma keeps_raise [keeps_intros]: "keeps I (raise e)"
  by (simp add: keeps_def)

lemma keeps_bind [keeps_intros]:
  "keeps I m \<Longrightarrow> (\<And>a. keeps I (k a)) \<Longrightarrow> keeps I (State_Monad.bind m k)"
  by (fastforce simp: keeps_def split: prod.splits)

lemma keeps_try_bind [keeps_intros]:
  "keeps I m \<Longrightarrow> (\<And>a. keeps I (k a)) \<Longrightarrow> keeps I (try_bind m k)"
  unfolding try_bind_def by (rule keeps_bind) (auto split: sum.splits intro: keeps_raise)

lemma keeps_ignore [keeps_intros]: "keeps I m \<Longrightarrow> keeps I (ignore m)"
  by (simp add: keeps_def)

lemma keeps_lift_ok [keeps_intros]: "keeps I m \<Longrightarrow> keeps I (lift_ok m)"
  unfolding lift_ok_def by (intro keeps_bind keeps_succeed)

lemma keeps_if [keeps_intros]:
  "(b \<Longrightarrow> keeps I m) \<Longrightarrow> (\<not> b \<Longrightarrow> keeps I n) \<Longrightarrow> keeps I (if b then m else n)"
  by simp

lemma keeps_case_option [keeps_intros]:
  "(x = None \<Longrightarrow> keeps I m) \<Longrightarrow> (\<And>a. x = Some a \<Longrightarrow> keeps I (f a)) \<Longrightarrow>
   keeps I (case x of None \<Rightarrow> m | Some a \<Rightarrow> f a)"
  by (cases x) simp_all

lemma keeps_case_sum [keeps_intros]:
  "(\<And>a. x = Inl a \<Longrightarrow> keeps I (f a)) \<Longrightarrow> (\<And>b. x = Inr b \<Longrightarrow> keeps I (g b)) \<Longrightarrow>
   keeps I (case x of Inl a \<Rightarrow> f a | Inr b \<Rightarrow> g b)"
  by (cases x) simp_all

lemma keeps_case_prod [keeps_intros]:
  "(\<And>a b. x = (a, b) \<Longrightarrow> keeps I (f a b)) \<Longrightarrow> keeps I (case x of (a, b) \<Rightarrow> f a b)"
  by (cases x) simp

lemma keeps_case_list [keeps_intros]:
  "(x = [] \<Longrightarrow> keeps I m) \<Longrightarrow> (\<And>y ys. x = y # ys \<Longrightarrow> keeps I (f y ys)) \<Longrightarrow>
   keeps I (case x of [] \<Rightarrow> m | y # ys \<Rightarrow> f y ys)"
  by (cases x) simp_all

lemma keeps_let [keeps_intros]: "keeps I (f x) \<Longrightarrow> keeps I (let y = x in f y)"
  by simp

lemma keeps_query [keeps_intros]: "keeps I (query env c f)"
  by (simp add: keeps_def)

lemma keeps_locked:
  "(\<And>d. I d \<Longrightarrow> I (en_between env l d)) \<Longrightarrow> keeps I m \<Longrightarrow> keeps I (locked env l m)"
  by (simp add: keeps_def)

lemma keeps_exec [keeps_intros]:
  "(\<And>d d'. f d = Inr d' \<Longrightarrow> I d \<Longrightarrow> I d') \<Longrightarrow> keeps I (exec env c f)"
  by (auto simp: keeps_def split: sum.splits)

lemma keeps_exec_val [keeps_intros]:
  "(\<And>d d' a. f d = Inr (a, d') \<Longrightarrow> I d \<Longrightarrow> I d') \<Longrightarrow> keeps I (exec_val env c f)"
  by (auto simp: keeps_def split: sum.splits)

lemma keeps_exec_total [keeps_intros]:
  "(\<And>d d' a. f d = (a, d') \<Longrightarrow> I d \<Longrightarrow> I d') \<Longrightarrow> keeps I (exec_total env c f)"
  unfolding exec_total_def by (rule keeps_exec_val) auto

text \<open>What a handler may assume of the other threads: each keeps the store's invariant.\<close>

definition rely_ok :: "env \<Rightarrow> bool" where
  "rely_ok env \<longleftrightarrow> (\<forall>l d. db_ok d \<longrightarrow> db_ok (en_between env l d))"

lemma keeps_locked_db [keeps_intros]:
  "rely_ok env \<Longrightarrow> keeps db_ok m \<Longrightarrow> keeps db_ok (locked env l m)"
  by (rule keeps_locked) (auto simp: rely_ok_def)

text \<open>A quiet environment: nothing fails, no other thread runs, every clock read is \<open>t\<close>.\<close>

definition quiet_env :: "int \<Rightarrow> env" where
  "quiet_env t = \<lparr>en_now = (\<lambda>_. t), en_uuid = (\<lambda>_. ''u''), en_fault = (\<lambda>_. False),
     en_between = (\<lambda>_ d. d), en_canonicalize = (\<lambda>p. Some p), en_project_hash = (\<lambda>p. p),
     en_gate_paused = False\<rparr>"

lemma quiet_env_simps [simp]:
  "en_now (quiet_env t) c = t" "en_uuid (quiet_env t) c = ''u''" "\<not> en_fault (quiet_env t) c"
  "en_between (quiet_env t) l d = d" "en_canonicalize (quiet_env t) p = Some p"
  "en_project_hash (quiet_env t) p = p" "\<not> en_gate_paused (quiet_env t)"
  by (simp_all add: quiet_env_def)

lemma rely_ok_quiet [simp]: "rely_ok (quiet_env t)"
  by (simp add: rely_ok_def)

end
