(* ===== verification/Resolver.thy ===== *)
theory Resolver
  imports Subagent_Env
begin

text \<open>
  \<^verbatim>\<open>crates/busytok-subagent/src/resolver.rs\<close>: name and id resolution. The functions run inside a
  critical section of their caller. \<open>std::fs::canonicalize\<close> and \<open>derive_project_hash\<close> (SHA-256)
  are parameters of the environment.
\<close>

record resolved =
  rs_subagent :: logical_subagent
  rs_created :: bool

definition row_to_model :: "logical_row \<Rightarrow> logical_subagent" where
  "row_to_model r =
     \<lparr>s_id = l_id r, s_name = l_name r, s_project_id = l_project_id r, s_repo_path = l_repo_path r,
      s_repo_hash = l_repo_hash r, s_branch = l_branch r, s_intent = l_intent r,
      s_default_profile = l_default_profile r, s_bound_provider_id = l_bound_provider_id r,
      s_bound_model_id = l_bound_model_id r,
      s_status = (case subagent_status_parse (l_status r) of Inr st \<Rightarrow> st | Inl _ \<Rightarrow> Cold),
      s_created_at_ms = l_created_at_ms r, s_updated_at_ms = l_updated_at_ms r,
      s_last_active_at_ms = l_last_active_at_ms r\<rparr>"

text \<open>\<open>canonicalize(cwd).unwrap_or_else(|_| cwd)\<close>.\<close>

definition canonical_cwd :: "env \<Rightarrow> string \<Rightarrow> string" where
  "canonical_cwd env cwd = unwrap_or cwd (en_canonicalize env cwd)"

definition validate_bound_provider_model :: "env \<Rightarrow> string \<Rightarrow> string \<Rightarrow> unit fallible" where
  "validate_bound_provider_model env provider_id model_id =
     try_bind (query env C_Get_Provider (get_provider_with_secret provider_id)) (\<lambda>p.
     case p of
       None \<Rightarrow> raise (Validation (''provider not found: '' @ provider_id))
     | Some prov \<Rightarrow>
         if \<not> p_enabled prov then raise (Validation (''provider disabled: '' @ provider_id))
         else
           try_bind (query env C_Get_Model (get_model_by_provider_and_model_id provider_id model_id)) (\<lambda>m.
           case m of
             None \<Rightarrow> raise (Validation (''model not found in provider: '' @ model_id))
           | Some md \<Rightarrow>
               if \<not> md_enabled md then raise (Validation (''model disabled: '' @ model_id))
               else succeed ()))"

definition create_subagent ::
    "env \<Rightarrow> string \<Rightarrow> string \<Rightarrow> string \<Rightarrow> string \<Rightarrow> string \<Rightarrow> string \<Rightarrow> logical_subagent fallible" where
  "create_subagent env name cwd repo_hash default_profile bound_provider_id bound_model_id =
     (let now = en_now env C_Create;
          i = en_uuid env C_Create;
          row = \<lparr>l_id = i, l_name = name, l_project_id = repo_hash, l_repo_path = cwd,
                 l_repo_hash = repo_hash, l_branch = None, l_intent = None,
                 l_default_profile = default_profile, l_bound_provider_id = bound_provider_id,
                 l_bound_model_id = bound_model_id, l_status = ''cold'', l_created_at_ms = now,
                 l_updated_at_ms = now, l_last_active_at_ms = None\<rparr>
      in try_bind (exec env C_Create (upsert_logical_subagent row)) (\<lambda>_.
         try_bind (exec env C_Seed_Memory
                     (upsert_memory (new_empty_memory (en_now env C_Seed_Memory) i))) (\<lambda>_.
         succeed (row_to_model row))))"

definition resolve_by_name ::
    "env \<Rightarrow> string \<Rightarrow> string \<Rightarrow> string \<Rightarrow> string \<Rightarrow> string \<Rightarrow> resolved fallible" where
  "resolve_by_name env name cwd default_profile bound_provider_id bound_model_id =
     (if \<not> is_valid_name name then raise (InvalidName name)
      else
        (let ccwd = canonical_cwd env cwd;
             repo_hash = en_project_hash env ccwd
         in try_bind (query env C_Find_Name (find_by_name_in_repo repo_hash repo_hash name)) (\<lambda>matches.
            case filter (\<lambda>r. l_status r \<noteq> ''deleted'') matches of
              [] \<Rightarrow>
                if bound_provider_id = [] \<or> bound_model_id = [] then
                  raise (Validation
                    ''bound_provider_id and bound_model_id are both required to create a subagent'')
                else
                  try_bind (validate_bound_provider_model env bound_provider_id bound_model_id) (\<lambda>_.
                  try_bind (create_subagent env name ccwd repo_hash default_profile
                              bound_provider_id bound_model_id) (\<lambda>s.
                  succeed \<lparr>rs_subagent = s, rs_created = True\<rparr>))
            | [r] \<Rightarrow> succeed \<lparr>rs_subagent = row_to_model r, rs_created = False\<rparr>
            | _ \<Rightarrow> raise (AmbiguousName name))))"

definition resolve_by_id_include_deleted :: "env \<Rightarrow> string \<Rightarrow> logical_subagent fallible" where
  "resolve_by_id_include_deleted env i =
     try_bind (query env C_Get_Logical (get_logical_subagent i)) (\<lambda>r.
     case r of None \<Rightarrow> raise (NotFound i) | Some row \<Rightarrow> succeed (row_to_model row))"

definition resolve_by_id :: "env \<Rightarrow> string \<Rightarrow> logical_subagent fallible" where
  "resolve_by_id env i =
     try_bind (resolve_by_id_include_deleted env i) (\<lambda>sub.
     if s_status sub = Deleted then raise (NotFound i) else succeed sub)"

definition lookup_by_name_impl ::
    "env \<Rightarrow> string \<Rightarrow> string \<Rightarrow> bool \<Rightarrow> logical_subagent fallible" where
  "lookup_by_name_impl env name cwd include_deleted =
     (if \<not> is_valid_name name then raise (InvalidName name)
      else
        (let repo_hash = en_project_hash env (canonical_cwd env cwd)
         in try_bind (query env C_Find_Name (find_by_name_in_repo repo_hash repo_hash name)) (\<lambda>matches.
            case (if include_deleted then matches
                  else filter (\<lambda>r. l_status r \<noteq> ''deleted'') matches) of
              [] \<Rightarrow> raise (NotFound name)
            | [r] \<Rightarrow> succeed (row_to_model r)
            | _ \<Rightarrow> raise (AmbiguousName name))))"

definition lookup_by_name :: "env \<Rightarrow> string \<Rightarrow> string \<Rightarrow> logical_subagent fallible" where
  "lookup_by_name env name cwd = lookup_by_name_impl env name cwd False"

definition lookup_by_name_include_deleted :: "env \<Rightarrow> string \<Rightarrow> string \<Rightarrow> logical_subagent fallible" where
  "lookup_by_name_include_deleted env name cwd = lookup_by_name_impl env name cwd True"

section \<open>Lemmas\<close>

lemma row_to_model_fields [simp]:
  "s_id (row_to_model r) = l_id r" "s_name (row_to_model r) = l_name r"
  "s_bound_provider_id (row_to_model r) = l_bound_provider_id r"
  "s_bound_model_id (row_to_model r) = l_bound_model_id r"
  "s_repo_path (row_to_model r) = l_repo_path r"
  by (simp_all add: row_to_model_def)

lemma row_to_model_status:
  "s_status (row_to_model r) = Deleted \<longleftrightarrow> l_status r = ''deleted''"
  by (auto simp: row_to_model_def subagent_status_parse_def)

text \<open>Every resolver operation keeps the schema's invariant; only creation writes.\<close>

lemma validate_bound_provider_model_keeps [keeps_intros]:
  "keeps I (validate_bound_provider_model env p m)"
  unfolding validate_bound_provider_model_def by (intro keeps_intros)

lemma create_subagent_keeps [keeps_intros]: "keeps db_ok (create_subagent env n c h dp p m)"
  unfolding create_subagent_def by (intro keeps_intros) (auto intro: db_ok_intros)

lemma resolve_by_name_keeps [keeps_intros]: "keeps db_ok (resolve_by_name env n c dp p m)"
  unfolding resolve_by_name_def by (intro keeps_intros)

lemma resolve_by_id_include_deleted_keeps [keeps_intros]:
  "keeps I (resolve_by_id_include_deleted env i)"
  unfolding resolve_by_id_include_deleted_def by (intro keeps_intros)

lemma resolve_by_id_keeps [keeps_intros]: "keeps I (resolve_by_id env i)"
  unfolding resolve_by_id_def by (intro keeps_intros)

lemma lookup_by_name_impl_keeps [keeps_intros]: "keeps I (lookup_by_name_impl env n c b)"
  unfolding lookup_by_name_impl_def by (intro keeps_intros)

lemma lookup_by_name_keeps [keeps_intros]:
  "keeps I (lookup_by_name env n c)" "keeps I (lookup_by_name_include_deleted env n c)"
  unfolding lookup_by_name_def lookup_by_name_include_deleted_def by (intro keeps_intros)+

text \<open>The ordinary lookups never write and never return a tombstone.\<close>

lemma resolve_by_id_sound:
  assumes "run_state (resolve_by_id env i) d = (Inr s, d')"
  shows "d' = d \<and> s_status s \<noteq> Deleted \<and> s_id s = i \<and> (\<exists>l \<in> set (logicals d). s = row_to_model l)"
  using assms
  by (auto simp: resolve_by_id_def resolve_by_id_include_deleted_def
      split: option.splits if_splits dest: get_logical_in)

lemma lookup_by_name_sound:
  assumes "run_state (lookup_by_name env n c) d = (Inr s, d')"
  shows "d' = d \<and> s_status s \<noteq> Deleted \<and> s_name s = n \<and> (\<exists>l \<in> set (logicals d). s = row_to_model l)"
proof -
  let ?h = "en_project_hash env (canonical_cwd env c)"
  from assms obtain r where r: "filter (\<lambda>r. l_status r \<noteq> ''deleted'') (find_by_name_in_repo ?h ?h n d) = [r]"
    and s: "s = row_to_model r" and d': "d' = d"
    by (auto simp: lookup_by_name_def lookup_by_name_impl_def Let_def split: if_splits list.splits)
  from r have "r \<in> set (filter (\<lambda>r. l_status r \<noteq> ''deleted'') (find_by_name_in_repo ?h ?h n d))" by simp
  with s d' show ?thesis by (auto simp: find_by_name_in_repo_def row_to_model_status)
qed

text \<open>
  With the unique index on active names the ambiguity branches are dead: an ordinary name lookup
  is decided by whether an active row of that name exists.
\<close>

lemma lookup_by_name_unambiguous:
  assumes "unique_active_names (logicals d)"
  shows "fst (run_state (lookup_by_name env n c) d) \<noteq> Inl (AmbiguousName n)"
proof -
  let ?h = "en_project_hash env (canonical_cwd env c)"
  have "length (filter (\<lambda>r. l_status r \<noteq> ''deleted'') (find_by_name_in_repo ?h ?h n d)) \<le> 1"
    by (rule unique_active_at_most_one[OF assms])
  then show ?thesis
    by (auto simp: lookup_by_name_def lookup_by_name_impl_def Let_def split: list.splits)
qed

text \<open>
  What \<open>resolve_by_name\<close> does when it succeeds: it returns the active row of the name, or creates
  one that is cold, bound to an enabled provider and model, and has a memory row.
\<close>

lemma create_subagentD:
  assumes "run_state (create_subagent env n c h dp p m) d = (Inr s, d')"
  shows "s_status s = Cold \<and> s_name s = n \<and> s_bound_provider_id s = p \<and> s_bound_model_id s = m"
    "\<exists>l. get_logical_subagent (s_id s) d' = Some l \<and> l_status l = ''cold'' \<and> l_name l = n"
    "get_memory (s_id s) d' \<noteq> None" "providers d' = providers d \<and> models d' = models d \<and> tasks d' = tasks d"
proof -
  define row where "row = \<lparr>l_id = en_uuid env C_Create, l_name = n, l_project_id = h, l_repo_path = c,
      l_repo_hash = h, l_branch = None, l_intent = None, l_default_profile = dp,
      l_bound_provider_id = p, l_bound_model_id = m, l_status = ''cold'',
      l_created_at_ms = en_now env C_Create, l_updated_at_ms = en_now env C_Create,
      l_last_active_at_ms = None\<rparr>"
  obtain d1 where d1: "upsert_logical_subagent row d = Inr d1" and s: "s = row_to_model row"
    and d': "upsert_memory (new_empty_memory (en_now env C_Seed_Memory) (l_id row)) d1 = Inr d'"
    using assms by (auto simp: create_subagent_def Let_def row_def split: if_splits sum.splits)
  show "s_status s = Cold \<and> s_name s = n \<and> s_bound_provider_id s = p \<and> s_bound_model_id s = m"
    by (simp add: s row_def row_to_model_def subagent_status_parse_def)
  have frame: "logicals d' = logicals d1" "providers d' = providers d1" "models d' = models d1" "tasks d' = tasks d1"
    using upsert_memory_get(1)[OF d'] by auto
  obtain l where "get_logical_subagent (l_id row) d1 = Some l" "l\<lparr>l_created_at_ms := l_created_at_ms row\<rparr> = row"
    using upsert_logical_subagent_get[OF d1] by blast
  then have "get_logical_subagent (s_id s) d' = Some l" "l_status l = ''cold''" "l_name l = n"
    by (auto simp: s frame get_logical_subagent_def row_def dest: arg_cong[of _ _ l_status] arg_cong[of _ _ l_name])
  then show "\<exists>l. get_logical_subagent (s_id s) d' = Some l \<and> l_status l = ''cold'' \<and> l_name l = n" by blast
  show "get_memory (s_id s) d' \<noteq> None"
    using upsert_memory_get(2)[OF d'] by (auto simp: s new_empty_memory_def)
  show "providers d' = providers d \<and> models d' = models d \<and> tasks d' = tasks d"
    using put_logicals_frame d1 frame by (auto simp: upsert_logical_subagent_def)
qed

lemma validate_bound_provider_modelD:
  assumes "run_state (validate_bound_provider_model env p m) d = (Inr u, d')"
  shows "d' = d" "\<exists>prov md. get_provider_with_secret p d = Some prov \<and> p_enabled prov
       \<and> get_model_by_provider_and_model_id p m d = Some md \<and> md_enabled md"
  using assms by (auto simp: validate_bound_provider_model_def split: if_splits option.splits)

lemma resolve_by_name_sound:
  assumes "run_state (resolve_by_name env n c dp p m) d = (Inr r, d')"
  shows "is_valid_name n \<and> s_name (rs_subagent r) = n \<and> s_status (rs_subagent r) \<noteq> Deleted
    \<and> (if rs_created r
       then (\<exists>prov md. get_provider_with_secret p d = Some prov \<and> p_enabled prov
               \<and> get_model_by_provider_and_model_id p m d = Some md \<and> md_enabled md)
            \<and> s_bound_provider_id (rs_subagent r) = p \<and> s_bound_model_id (rs_subagent r) = m
            \<and> get_memory (s_id (rs_subagent r)) d' \<noteq> None
            \<and> has_logical (s_id (rs_subagent r)) d'
       else d' = d \<and> (\<exists>l \<in> set (logicals d). rs_subagent r = row_to_model l))"
proof -
  let ?h = "en_project_hash env (canonical_cwd env c)"
  let ?act = "filter (\<lambda>r. l_status r \<noteq> ''deleted'') (find_by_name_in_repo ?h ?h n d)"
  from assms have v: "is_valid_name n" and f: "\<not> en_fault env C_Find_Name"
    by (auto simp: resolve_by_name_def Let_def split: if_splits)
  consider (new) "?act = []" | (one) x where "?act = [x]" | (many) x y zs where "?act = x # y # zs"
    by (metis list.exhaust)
  then show ?thesis
  proof cases
    case new
    then obtain s where "run_state (validate_bound_provider_model env p m) d = (Inr (), d)"
      and c: "run_state (create_subagent env n (canonical_cwd env c) ?h dp p m) d = (Inr s, d')"
      and r: "r = \<lparr>rs_subagent = s, rs_created = True\<rparr>"
      using assms v f validate_bound_provider_modelD(1)
      by (fastforce simp: resolve_by_name_def Let_def split: if_splits prod.splits sum.splits)
    with validate_bound_provider_modelD(2) create_subagentD[OF c] v show ?thesis
      using get_logical_None[of "s_id s" d'] by fastforce
  next
    case (one x)
    have "x \<in> set ?act" by (simp only: one) simp
    with one assms v f show ?thesis
      by (auto simp: resolve_by_name_def Let_def find_by_name_in_repo_def row_to_model_status)
  next
    case (many x y zs)
    with assms v f show ?thesis by (auto simp: resolve_by_name_def Let_def)
  qed
qed

section \<open>Properties\<close>

text \<open>The name key an ordinary request resolves to.\<close>

definition request_key :: "env \<Rightarrow> string \<Rightarrow> string \<Rightarrow> string \<times> string \<times> string" where
  "request_key env n c =
     (let h = en_project_hash env (canonical_cwd env c) in (h, h, n))"

lemma active_matches:
  "filter (\<lambda>r. l_status r \<noteq> ''deleted'') (find_by_name_in_repo h h n d)
     = filter (\<lambda>l. active l \<and> name_key l = (h, h, n)) (logicals d)"
  by (auto simp: find_by_name_in_repo_def active_def name_key_def intro: filter_cong)

lemma resolve_by_name_created:
  assumes "run_state (resolve_by_name env n c dp p m) d = (Inr r, d')"
  shows "rs_created r \<longleftrightarrow> \<not> (\<exists>l \<in> set (logicals d). active l \<and> name_key l = request_key env n c)"
proof -
  let ?h = "en_project_hash env (canonical_cwd env c)"
  let ?xs = "filter (\<lambda>l. active l \<and> name_key l = (?h, ?h, n)) (logicals d)"
  have none: "?xs = [] \<longleftrightarrow> \<not> (\<exists>l \<in> set (logicals d). active l \<and> name_key l = request_key env n c)"
    by (auto simp: filter_empty_conv request_key_def Let_def)
  have "rs_created r \<longleftrightarrow> ?xs = []"
    using assms
    by (cases ?xs; cases "tl ?xs")
      (auto simp: resolve_by_name_def Let_def active_matches split: if_splits sum.splits prod.splits)
  with none show ?thesis by simp
qed

text \<open>
  Resolving a request by name: a success returns a valid-named subagent that is not deleted. It
  creates one exactly when no active subagent of that project has the name, and then cold, bound
  to the requested provider and model, both enabled, with its row and its memory row stored;
  otherwise it returns the stored row and writes nothing.
\<close>

theorem resolve_by_name_correct:
  assumes "run_state (resolve_by_name env n c dp p m) d = (Inr r, d')"
  shows "is_valid_name n \<and> s_name (rs_subagent r) = n \<and> s_status (rs_subagent r) \<noteq> Deleted
    \<and> (rs_created r \<longleftrightarrow> \<not> (\<exists>l \<in> set (logicals d). active l \<and> name_key l = request_key env n c))
    \<and> (if rs_created r
       then (\<exists>prov md. get_provider_with_secret p d = Some prov \<and> p_enabled prov
               \<and> get_model_by_provider_and_model_id p m d = Some md \<and> md_enabled md)
            \<and> s_bound_provider_id (rs_subagent r) = p \<and> s_bound_model_id (rs_subagent r) = m
            \<and> get_memory (s_id (rs_subagent r)) d' \<noteq> None
            \<and> has_logical (s_id (rs_subagent r)) d'
       else d' = d \<and> (\<exists>l \<in> set (logicals d). rs_subagent r = row_to_model l))"
  using resolve_by_name_sound[OF assms] resolve_by_name_created[OF assms] by blast

text \<open>A catalog with one enabled provider and one complete model.\<close>

definition sample_catalog :: "db \<Rightarrow> db" where
  "sample_catalog d = d\<lparr>
     providers := [\<lparr>p_id = ''prov'', p_name = ''P'', p_provider_kind = OpenAiCompatible, p_base_url = ''u'',
                    p_enabled = True, p_api_key = Some ''k'', p_created_at_ms = 0, p_updated_at_ms = 0\<rparr>],
     models := [\<lparr>md_id = ''m1'', md_provider_id = ''prov'', md_model_id = ''mod'', md_enabled = True,
                 md_display_name = None, md_reasoning = False, md_context_window = Some 1000,
                 md_max_tokens = Some 100, md_created_at_ms = 0, md_updated_at_ms = 0\<rparr>]\<rparr>"

theorem resolve_by_name_correct_witness:
  "\<exists>r d'. run_state (resolve_by_name (quiet_env 5) ''one'' ''/r'' ''pi/search-cheap'' ''prov'' ''mod'')
       (sample_catalog empty_db) = (Inr r, d') \<and> rs_created r \<and> get_memory (s_id (rs_subagent r)) d' \<noteq> None"
proof -
  let ?run = "run_state (resolve_by_name (quiet_env 5) ''one'' ''/r'' ''pi/search-cheap'' ''prov'' ''mod'')
       (sample_catalog empty_db)"
  have "\<exists>r d'. ?run = (Inr r, d')"
    by (simp add: resolve_by_name_def Let_def is_valid_name_def is_ascii_alphanumeric_def find_by_name_in_repo_def
        validate_bound_provider_model_def create_subagent_def sample_catalog_def empty_db_def
        get_provider_with_secret_def get_model_by_provider_and_model_id_def upsert_logical_subagent_def
        put_logicals_def has_logical_def unique_active_names_def upsert_memory_def new_empty_memory_def)
  then obtain r d' where run: "?run = (Inr r, d')" by blast
  from resolve_by_name_correct[OF run] have "rs_created r"
    by (simp add: sample_catalog_def empty_db_def)
  with run resolve_by_name_correct[OF run] show ?thesis by (intro exI[of _ r] exI[of _ d']) simp
qed

end
