(* ===== verification/Memory.thy ===== *)
theory Memory
  imports Store_Tables "HOL-Library.Countable"
begin

text \<open>
  \<^verbatim>\<open>crates/busytok-subagent/src/memory.rs\<close>: merging a sidecar's memory update into the memory row
  and the rule-based compaction. The JSON codecs of the serializer library and the two Unicode
  functions \<open>trim\<close> and \<open>to_lowercase\<close> are parameters.
\<close>

section \<open>Data\<close>

record key_file =
  kf_path :: string
  kf_reason :: string
  kf_last_seen_at_ms :: int
  kf_score :: int

record open_question =
  oq_question :: string
  oq_status :: string
  oq_created_at_ms :: int
  oq_last_seen_at_ms :: int

record memory_update =
  mu_current_state_summary :: "string option"
  mu_key_files :: "key_file list"
  mu_decisions :: "string list"
  mu_open_questions :: "open_question list"

definition memory_update_default :: memory_update where
  "memory_update_default = \<lparr>mu_current_state_summary = None, mu_key_files = [], mu_decisions = [],
     mu_open_questions = []\<rparr>"

text \<open>
  \<open>SubagentContextConfig\<close>; the product of a \<open>usize\<close> with the \<open>f64\<close> ratio, cut back to
  \<open>usize\<close>, is the field \<open>cx_threshold\<close>.
\<close>

record context_config =
  cx_default_budget_tokens :: nat
  cx_max_budget_tokens :: nat
  cx_recent_tasks_limit :: nat
  cx_compaction_tasks_threshold :: nat
  cx_threshold :: "nat \<Rightarrow> nat"

text \<open>What the code uses of \<open>serde_json\<close> and of Unicode.\<close>

record text_lib =
  tl_parse_files :: "string \<Rightarrow> key_file list option"
  tl_print_files :: "key_file list \<Rightarrow> string"
  tl_parse_questions :: "string \<Rightarrow> open_question list option"
  tl_print_questions :: "open_question list \<Rightarrow> string"
  tl_parse_strings :: "string \<Rightarrow> string list option"
  tl_print_strings :: "string list \<Rightarrow> string"
  tl_trim :: "string \<Rightarrow> string"
  tl_to_lowercase :: "string \<Rightarrow> string"

text \<open>Documented of the serializer: what it prints it parses back.\<close>

definition codec_ok :: "text_lib \<Rightarrow> bool" where
  "codec_ok tx \<longleftrightarrow> (\<forall>xs. tl_parse_files tx (tl_print_files tx xs) = Some xs)
     \<and> (\<forall>xs. tl_parse_questions tx (tl_print_questions tx xs) = Some xs)
     \<and> (\<forall>xs. tl_parse_strings tx (tl_print_strings tx xs) = Some xs)"

definition MAX_LONG_SUMMARY_CHARS :: nat where "MAX_LONG_SUMMARY_CHARS = 3000"
definition MAX_DECISIONS :: nat where "MAX_DECISIONS = 20"
definition MAX_KEY_FILES :: nat where "MAX_KEY_FILES = 20"
definition MAX_OPEN_QUESTIONS :: nat where "MAX_OPEN_QUESTIONS = 10"
definition MAX_ATTEMPTS :: nat where "MAX_ATTEMPTS = 10"
definition RECENT_TASKS_FOR_COMPACTION :: nat where "RECENT_TASKS_FOR_COMPACTION = 5"
definition OLD_LONG_SUMMARY_KEEP_CHARS :: nat where "OLD_LONG_SUMMARY_KEEP_CHARS = 2000"
definition RECENT_SUMMARIES_KEEP_CHARS :: nat where "RECENT_SUMMARIES_KEEP_CHARS = 1000"

lemmas memory_consts = MAX_LONG_SUMMARY_CHARS_def MAX_DECISIONS_def MAX_KEY_FILES_def
  MAX_OPEN_QUESTIONS_def MAX_ATTEMPTS_def RECENT_TASKS_FOR_COMPACTION_def
  OLD_LONG_SUMMARY_KEEP_CHARS_def RECENT_SUMMARIES_KEEP_CHARS_def

section \<open>Helpers\<close>

definition parse_json_vec :: "(string \<Rightarrow> 'a list option) \<Rightarrow> string option \<Rightarrow> 'a list" where
  "parse_json_vec parse json = unwrap_or [] (Option.bind json parse)"

text \<open>The last \<open>n\<close> items: \<open>v[v.len().saturating_sub(n)..]\<close>.\<close>

definition take_last :: "nat \<Rightarrow> 'a list \<Rightarrow> 'a list" where
  "take_last n xs = drop (length xs - n) xs"

text \<open>\<open>iter_mut().find(P)\<close> and an update of what it found.\<close>

fun upd_first :: "('a \<Rightarrow> bool) \<Rightarrow> ('a \<Rightarrow> 'a) \<Rightarrow> 'a list \<Rightarrow> 'a list" where
  "upd_first P f [] = []"
| "upd_first P f (x # xs) = (if P x then f x # xs else x # upd_first P f xs)"

definition same_path_normalized :: "string \<Rightarrow> string \<Rightarrow> bool" where
  "same_path_normalized a b = (map to_ascii_lower a = map to_ascii_lower b)"

definition strip_prefix :: "string \<Rightarrow> string \<Rightarrow> string option" where
  "strip_prefix p s = (if prefix p s then Some (drop (length p) s) else None)"

definition forward_slashes :: "string \<Rightarrow> string" where
  "forward_slashes s = map (\<lambda>c. if c = CHR 0x5C then CHR ''/'' else c) s"

definition normalize_path :: "string \<Rightarrow> string \<Rightarrow> string" where
  "normalize_path path repo_path =
     (let p = forward_slashes path;
          p = (if repo_path = [] then p
               else let repo_fwd = forward_slashes repo_path;
                        with_slash = repo_fwd @ ''/''
                    in case strip_prefix with_slash p of
                         Some q \<Rightarrow> q
                       | None \<Rightarrow> (case strip_prefix repo_fwd p of Some q \<Rightarrow> q | None \<Rightarrow> p))
      in unwrap_or p (strip_prefix ''./'' p))"

text \<open>\<open>s.lines().next().unwrap_or(s)\<close>: a line ends at LF, and a CR before it is dropped.\<close>

definition first_line :: "string \<Rightarrow> string" where
  "first_line s =
     (let pre = takeWhile (\<lambda>c. c \<noteq> CHR 0x0A) s
      in if length pre < length s \<and> pre \<noteq> [] \<and> last pre = CHR 0x0D then butlast pre else pre)"

section \<open>Merging\<close>

definition merge_key_file :: "string \<Rightarrow> key_file \<Rightarrow> key_file list \<Rightarrow> key_file list" where
  "merge_key_file repo_path f files =
     (let normalized = normalize_path (kf_path f) repo_path;
          same = (\<lambda>e. same_path_normalized (kf_path e) normalized)
      in if list_ex same files
         then upd_first same
                (\<lambda>e. e\<lparr>kf_score := max (kf_score e) (kf_score f),
                       kf_last_seen_at_ms := max (kf_last_seen_at_ms e) (kf_last_seen_at_ms f),
                       kf_reason := kf_reason f\<rparr>) files
         else files @ [\<lparr>kf_path = normalized, kf_reason = kf_reason f,
                        kf_last_seen_at_ms = kf_last_seen_at_ms f, kf_score = kf_score f\<rparr>])"

definition merge_question :: "text_lib \<Rightarrow> open_question \<Rightarrow> open_question list \<Rightarrow> open_question list" where
  "merge_question tx q questions =
     (let trimmed = tl_trim tx (oq_question q);
          lower = tl_to_lowercase tx trimmed;
          same = (\<lambda>e. tl_to_lowercase tx (tl_trim tx (oq_question e)) = lower)
      in if list_ex same questions
         then upd_first same
                (\<lambda>e. e\<lparr>oq_last_seen_at_ms := max (oq_last_seen_at_ms e) (oq_last_seen_at_ms q),
                       oq_status := (if oq_status q = ''resolved'' then ''resolved'' else oq_status e)\<rparr>)
                questions
         else questions @ [\<lparr>oq_question = trimmed, oq_status = oq_status q,
                            oq_created_at_ms = oq_created_at_ms q,
                            oq_last_seen_at_ms = oq_last_seen_at_ms q\<rparr>])"

definition merge_decision :: "string \<Rightarrow> string list \<Rightarrow> string list" where
  "merge_decision x decisions = (if list_ex (\<lambda>e. e = x) decisions then decisions else decisions @ [x])"

definition merge_attempt :: "string \<Rightarrow> task_row list \<Rightarrow> string list \<Rightarrow> string list" where
  "merge_attempt task_id recent_tasks attempts =
     take_last MAX_ATTEMPTS
       (case recent_tasks of
          [] \<Rightarrow> attempts
        | t # _ \<Rightarrow>
            (case t_result_summary t of
               None \<Rightarrow> attempts
             | Some summary \<Rightarrow>
                 (let entry = task_id @ '': '' @ first_line summary
                  in if list_ex (\<lambda>a. a = entry) attempts then attempts else attempts @ [entry])))"

section \<open>Compaction\<close>

definition opt_len :: "string option \<Rightarrow> nat" where
  "opt_len s = (case s of None \<Rightarrow> 0 | Some x \<Rightarrow> length x)"

definition memory_oversized :: "context_config \<Rightarrow> memory_row \<Rightarrow> task_row list \<Rightarrow> nat \<Rightarrow> bool" where
  "memory_oversized cfg mem recent_tasks profile_budget_tokens =
     (cx_threshold cfg (profile_budget_tokens * 4)
        < opt_len (m_hot_summary mem) + opt_len (m_long_summary mem)
          + sum_list (map (\<lambda>t. opt_len (t_result_summary t)) recent_tasks))"

definition compact :: "text_lib \<Rightarrow> task_row list \<Rightarrow> memory_row \<Rightarrow> memory_row" where
  "compact tx recent_tasks mem =
     (let old_long = chars_take OLD_LONG_SUMMARY_KEEP_CHARS (unwrap_or [] (m_long_summary mem));
          recent_summaries =
            chars_take RECENT_SUMMARIES_KEEP_CHARS
              (join nl (List.map_filter t_result_summary (take RECENT_TASKS_FOR_COMPACTION recent_tasks)));
          new_long = (if recent_summaries = [] then old_long
                      else old_long @ nl @ nl @ ''Recent findings:'' @ nl @ recent_summaries);
          new_long = chars_take MAX_LONG_SUMMARY_CHARS new_long;
          questions = filter (\<lambda>q. oq_status q \<noteq> ''resolved'')
                        (parse_json_vec (tl_parse_questions tx) (m_open_questions_json mem))
      in mem\<lparr>m_long_summary := (if new_long = [] then None else Some new_long),
             m_open_questions_json := Some (tl_print_questions tx questions)\<rparr>)"

definition better_file :: "key_file \<Rightarrow> key_file \<Rightarrow> bool" where
  "better_file a b = (kf_score b < kf_score a
     \<or> (kf_score a = kf_score b \<and> kf_last_seen_at_ms b \<le> kf_last_seen_at_ms a))"

text \<open>\<open>MemoryUpdater::update\<close>; \<open>now1\<close> and \<open>now2\<close> are its two clock reads.\<close>

definition merged_memory ::
    "text_lib \<Rightarrow> memory_row \<Rightarrow> memory_update \<Rightarrow> task_row list \<Rightarrow> string \<Rightarrow> string \<Rightarrow> memory_row" where
  "merged_memory tx current upd recent_tasks task_id repo_path =
     current\<lparr>m_hot_summary := coalesce (mu_current_state_summary upd) (m_hot_summary current),
       m_key_files_json := Some (tl_print_files tx
         (fold (merge_key_file repo_path) (mu_key_files upd)
           (parse_json_vec (tl_parse_files tx) (m_key_files_json current)))),
       m_open_questions_json := Some (tl_print_questions tx
         (fold (merge_question tx) (mu_open_questions upd)
           (parse_json_vec (tl_parse_questions tx) (m_open_questions_json current)))),
       m_decisions_json := Some (tl_print_strings tx
         (fold merge_decision (mu_decisions upd)
           (parse_json_vec (tl_parse_strings tx) (m_decisions_json current)))),
       m_attempts_json := Some (tl_print_strings tx
         (merge_attempt task_id recent_tasks
           (parse_json_vec (tl_parse_strings tx) (m_attempts_json current))))\<rparr>"

definition compacted_memory :: "text_lib \<Rightarrow> task_row list \<Rightarrow> string \<Rightarrow> int \<Rightarrow> memory_row \<Rightarrow> memory_row" where
  "compacted_memory tx recent_tasks task_id now1 current =
     (let mem = compact tx recent_tasks current
      in mem\<lparr>m_decisions_json := Some (tl_print_strings tx
           (take_last MAX_DECISIONS (parse_json_vec (tl_parse_strings tx) (m_decisions_json mem)))),
         m_key_files_json := Some (tl_print_files tx
           (take MAX_KEY_FILES (sort_by better_file
             (parse_json_vec (tl_parse_files tx) (m_key_files_json mem))))),
         m_open_questions_json := Some (tl_print_questions tx
           (take MAX_OPEN_QUESTIONS (parse_json_vec (tl_parse_questions tx) (m_open_questions_json mem)))),
         m_last_compacted_at_ms := Some now1, m_last_compacted_task_id := Some task_id\<rparr>)"

definition update_memory ::
    "text_lib \<Rightarrow> context_config \<Rightarrow> int \<Rightarrow> int \<Rightarrow> memory_row \<Rightarrow> memory_update \<Rightarrow> task_row list \<Rightarrow>
     nat \<Rightarrow> string \<Rightarrow> nat \<Rightarrow> string \<Rightarrow> memory_row" where
  "update_memory tx cfg now1 now2 current upd recent_tasks tasks_since task_id budget repo_path =
     (let mem = merged_memory tx current upd recent_tasks task_id repo_path;
          should_compact = (cx_compaction_tasks_threshold cfg \<le> tasks_since
                            \<or> memory_oversized cfg mem recent_tasks budget);
          mem = (if should_compact then compacted_memory tx recent_tasks task_id now1 mem else mem)
      in mem\<lparr>m_updated_at_ms := now2\<rparr>)"

section \<open>Lemmas\<close>

lemma parse_json_vec_None [simp]: "parse_json_vec parse None = []"
  by (simp add: parse_json_vec_def)

lemma parse_json_vec_codec [simp]:
  assumes "codec_ok tx"
  shows "parse_json_vec (tl_parse_files tx) (Some (tl_print_files tx fs)) = fs"
    "parse_json_vec (tl_parse_questions tx) (Some (tl_print_questions tx qs)) = qs"
    "parse_json_vec (tl_parse_strings tx) (Some (tl_print_strings tx xs)) = xs"
  using assms by (simp_all add: parse_json_vec_def codec_ok_def)

lemma length_take_last: "length (take_last n xs) = min n (length xs)"
  by (simp add: take_last_def)

lemma set_take_last: "set (take_last n xs) \<subseteq> set xs"
  by (simp add: take_last_def set_drop_subset)

lemma length_upd_first [simp]: "length (upd_first P f xs) = length xs"
  by (induction xs) auto

lemma map_upd_first: "(\<And>x. k (f x) = k x) \<Longrightarrow> map k (upd_first P f xs) = map k xs"
  by (induction xs) auto

text \<open>Key files: one entry per path, up to ASCII case.\<close>

definition path_key :: "key_file \<Rightarrow> string" where
  "path_key f = map to_ascii_lower (kf_path f)"

lemma merge_key_file_distinct:
  assumes "distinct (map path_key files)"
  shows "distinct (map path_key (merge_key_file repo f files))"
proof (cases "list_ex (\<lambda>e. same_path_normalized (kf_path e) (normalize_path (kf_path f) repo)) files")
  case True
  have "map path_key (upd_first P (\<lambda>e. e\<lparr>kf_score := max (kf_score e) (kf_score f),
          kf_last_seen_at_ms := max (kf_last_seen_at_ms e) (kf_last_seen_at_ms f),
          kf_reason := kf_reason f\<rparr>) files) = map path_key files" for P
    by (rule map_upd_first) (simp add: path_key_def)
  with True assms show ?thesis by (simp add: merge_key_file_def Let_def)
next
  case False
  with assms show ?thesis
    by (auto simp: merge_key_file_def Let_def list_ex_iff same_path_normalized_def path_key_def)
qed

lemma merge_key_files_distinct:
  "distinct (map path_key files) \<Longrightarrow> distinct (map path_key (fold (merge_key_file repo) fs files))"
  by (induction fs arbitrary: files) (auto intro: merge_key_file_distinct)

lemma merge_decision_distinct: "distinct ds \<Longrightarrow> distinct (merge_decision x ds)"
  by (auto simp: merge_decision_def list_ex_iff)

lemma merge_decisions:
  "set (fold merge_decision xs ds) = set ds \<union> set xs \<and> (distinct ds \<longrightarrow> distinct (fold merge_decision xs ds))
   \<and> prefix ds (fold merge_decision xs ds)"
proof (induction xs arbitrary: ds)
  case (Cons x xs)
  have "set (merge_decision x ds) = insert x (set ds)" "prefix ds (merge_decision x ds)"
    by (auto simp: merge_decision_def list_ex_iff)
  with Cons[of "merge_decision x ds"] show ?case
    by (auto intro: merge_decision_distinct prefix_order.trans)
qed simp

lemma better_file_order: "transp better_file" "totalp better_file" "reflp better_file"
  by (auto simp: better_file_def transp_def totalp_on_def reflp_def)

text \<open>What an update leaves in the row, whether it compacted or not.\<close>

lemma update_memory_cases [consumes 1, case_names compacted merged]:
  assumes "mem' = update_memory tx cfg now1 now2 mem upd ts n i budget repo"
  obtains (compacted)
      "mem' = (compacted_memory tx ts i now1 (merged_memory tx mem upd ts i repo))\<lparr>m_updated_at_ms := now2\<rparr>"
      "cx_compaction_tasks_threshold cfg \<le> n \<or> memory_oversized cfg (merged_memory tx mem upd ts i repo) ts budget"
  | (merged) "mem' = (merged_memory tx mem upd ts i repo)\<lparr>m_updated_at_ms := now2\<rparr>"
      "n < cx_compaction_tasks_threshold cfg"
  using assms by (auto simp: update_memory_def Let_def split: if_splits)

lemma update_memory_ids:
  "m_id (update_memory tx cfg now1 now2 mem upd ts n i b r) = m_id mem"
  "m_subagent_id (update_memory tx cfg now1 now2 mem upd ts n i b r) = m_subagent_id mem"
  "m_hot_summary (update_memory tx cfg now1 now2 mem upd ts n i b r)
     = coalesce (mu_current_state_summary upd) (m_hot_summary mem)"
  by (simp_all add: update_memory_def compacted_memory_def compact_def merged_memory_def Let_def)

lemma compact_long_summary:
  "(case m_long_summary (compact tx ts mem) of None \<Rightarrow> True
    | Some s \<Rightarrow> s \<noteq> [] \<and> chars_count s \<le> MAX_LONG_SUMMARY_CHARS)"
  by (auto simp: compact_def Let_def chars_count_take_le)

lemma compacted_memory_caps:
  assumes "codec_ok tx"
  shows "length (parse_json_vec (tl_parse_files tx) (m_key_files_json (compacted_memory tx ts i now mem))) \<le> 20
    \<and> sorted_wrt better_file (parse_json_vec (tl_parse_files tx) (m_key_files_json (compacted_memory tx ts i now mem)))
    \<and> length (parse_json_vec (tl_parse_strings tx) (m_decisions_json (compacted_memory tx ts i now mem))) \<le> 20
    \<and> length (parse_json_vec (tl_parse_questions tx) (m_open_questions_json (compacted_memory tx ts i now mem))) \<le> 10
    \<and> (\<forall>q \<in> set (parse_json_vec (tl_parse_questions tx)
            (m_open_questions_json (compacted_memory tx ts i now mem))). oq_status q \<noteq> ''resolved'')"
proof -
  have "sorted_wrt better_file (take n (sort_by better_file fs))" for n fs
    using sorted_sort_by[OF better_file_order] by (rule sorted_wrt_take)
  then show ?thesis using assms
    by (auto simp: compacted_memory_def compact_def Let_def memory_consts length_take_last
        dest!: in_set_takeD)
qed

lemma merge_attempt_cap: "length (merge_attempt i ts xs) \<le> 10"
  by (simp add: merge_attempt_def length_take_last memory_consts)

lemma update_memory_attempts:
  assumes "codec_ok tx"
  shows "length (parse_json_vec (tl_parse_strings tx)
           (m_attempts_json (update_memory tx cfg now1 now2 mem upd ts n i b r))) \<le> 10"
  using assms merge_attempt_cap
  by (simp add: update_memory_def compacted_memory_def compact_def merged_memory_def Let_def)

text \<open>A text library for examples: lists are printed by their position in an enumeration.\<close>

definition enc_file :: "key_file \<Rightarrow> string \<times> string \<times> int \<times> int" where
  "enc_file f = (kf_path f, kf_reason f, kf_last_seen_at_ms f, kf_score f)"

definition dec_file :: "string \<times> string \<times> int \<times> int \<Rightarrow> key_file" where
  "dec_file t = (case t of (p, r, s, c) \<Rightarrow>
     \<lparr>kf_path = p, kf_reason = r, kf_last_seen_at_ms = s, kf_score = c\<rparr>)"

definition enc_question :: "open_question \<Rightarrow> string \<times> string \<times> int \<times> int" where
  "enc_question q = (oq_question q, oq_status q, oq_created_at_ms q, oq_last_seen_at_ms q)"

definition dec_question :: "string \<times> string \<times> int \<times> int \<Rightarrow> open_question" where
  "dec_question t = (case t of (q, s, c, l) \<Rightarrow>
     \<lparr>oq_question = q, oq_status = s, oq_created_at_ms = c, oq_last_seen_at_ms = l\<rparr>)"

definition unary_lib :: text_lib where
  "unary_lib =
     \<lparr>tl_parse_files = (\<lambda>s. Some (map dec_file (from_nat (length s)))),
      tl_print_files = (\<lambda>xs. replicate (to_nat (map enc_file xs)) CHR ''1''),
      tl_parse_questions = (\<lambda>s. Some (map dec_question (from_nat (length s)))),
      tl_print_questions = (\<lambda>xs. replicate (to_nat (map enc_question xs)) CHR ''1''),
      tl_parse_strings = (\<lambda>s. Some (from_nat (length s))),
      tl_print_strings = (\<lambda>xs. replicate (to_nat xs) CHR ''1''),
      tl_trim = (\<lambda>s. s), tl_to_lowercase = map to_ascii_lower\<rparr>"

lemma codec_ok_unary [simp]: "codec_ok unary_lib"
proof -
  have "dec_file \<circ> enc_file = id" "dec_question \<circ> enc_question = id"
    by (auto simp: fun_eq_iff dec_file_def enc_file_def dec_question_def enc_question_def)
  then show ?thesis by (simp add: codec_ok_def unary_lib_def)
qed

section \<open>Properties\<close>

text \<open>The lists a memory row stores.\<close>

definition stored_files :: "text_lib \<Rightarrow> memory_row \<Rightarrow> key_file list" where
  "stored_files tx m = parse_json_vec (tl_parse_files tx) (m_key_files_json m)"

definition stored_questions :: "text_lib \<Rightarrow> memory_row \<Rightarrow> open_question list" where
  "stored_questions tx m = parse_json_vec (tl_parse_questions tx) (m_open_questions_json m)"

definition stored_decisions :: "text_lib \<Rightarrow> memory_row \<Rightarrow> string list" where
  "stored_decisions tx m = parse_json_vec (tl_parse_strings tx) (m_decisions_json m)"

definition stored_attempts :: "text_lib \<Rightarrow> memory_row \<Rightarrow> string list" where
  "stored_attempts tx m = parse_json_vec (tl_parse_strings tx) (m_attempts_json m)"

lemma merged_stored:
  assumes "codec_ok tx"
  shows "stored_files tx (merged_memory tx m u ts i r) = fold (merge_key_file r) (mu_key_files u) (stored_files tx m)"
    "stored_questions tx (merged_memory tx m u ts i r) = fold (merge_question tx) (mu_open_questions u) (stored_questions tx m)"
    "stored_decisions tx (merged_memory tx m u ts i r) = fold merge_decision (mu_decisions u) (stored_decisions tx m)"
    "stored_attempts tx (merged_memory tx m u ts i r) = merge_attempt i ts (stored_attempts tx m)"
  using assms by (simp_all add: stored_files_def stored_questions_def stored_decisions_def
      stored_attempts_def merged_memory_def)

lemma compacted_stored:
  assumes "codec_ok tx"
  shows "stored_files tx (compacted_memory tx ts i now m) = take MAX_KEY_FILES (sort_by better_file (stored_files tx m))"
    "stored_questions tx (compacted_memory tx ts i now m)
       = take MAX_OPEN_QUESTIONS (filter (\<lambda>q. oq_status q \<noteq> ''resolved'') (stored_questions tx m))"
    "stored_decisions tx (compacted_memory tx ts i now m) = take_last MAX_DECISIONS (stored_decisions tx m)"
    "stored_attempts tx (compacted_memory tx ts i now m) = stored_attempts tx m"
  using assms by (simp_all add: stored_files_def stored_questions_def stored_decisions_def
      stored_attempts_def compacted_memory_def compact_def Let_def)

lemma stored_updated [simp]:
  "stored_files tx (m\<lparr>m_updated_at_ms := t\<rparr>) = stored_files tx m"
  "stored_questions tx (m\<lparr>m_updated_at_ms := t\<rparr>) = stored_questions tx m"
  "stored_decisions tx (m\<lparr>m_updated_at_ms := t\<rparr>) = stored_decisions tx m"
  "stored_attempts tx (m\<lparr>m_updated_at_ms := t\<rparr>) = stored_attempts tx m"
  by (simp_all add: stored_files_def stored_questions_def stored_decisions_def stored_attempts_def)

text \<open>The lists after an update: the merged ones, cut down when the update compacts.\<close>

lemma update_memory_stored:
  assumes "codec_ok tx" "mem' = update_memory tx cfg t1st t2nd mem upd ts n i budget repo"
  shows "let files = fold (merge_key_file repo) (mu_key_files upd) (stored_files tx mem);
       questions = fold (merge_question tx) (mu_open_questions upd) (stored_questions tx mem);
       decisions = fold merge_decision (mu_decisions upd) (stored_decisions tx mem);
       compacts = (cx_compaction_tasks_threshold cfg \<le> n
                   \<or> memory_oversized cfg (merged_memory tx mem upd ts i repo) ts budget)
     in stored_files tx mem' = (if compacts then take 20 (sort_by better_file files) else files)
      \<and> stored_questions tx mem' = (if compacts then take 10 (filter (\<lambda>q. oq_status q \<noteq> ''resolved'') questions) else questions)
      \<and> stored_decisions tx mem' = (if compacts then take_last 20 decisions else decisions)
      \<and> stored_attempts tx mem' = merge_attempt i ts (stored_attempts tx mem)"
  using assms
  by (simp add: update_memory_def Let_def merged_stored[OF assms(1)] compacted_stored[OF assms(1)] memory_consts)

lemma distinct_map_mset: "mset xs = mset ys \<Longrightarrow> distinct (map f xs) = distinct (map f ys)"
  by (metis mset_eq_imp_distinct_iff mset_map)

lemma set_merge_key_file:
  "path_key ` set (merge_key_file r f fs) \<subseteq> path_key ` set fs \<union> {map to_ascii_lower (normalize_path (kf_path f) r)}"
proof (cases "list_ex (\<lambda>e. same_path_normalized (kf_path e) (normalize_path (kf_path f) r)) fs")
  case True
  let ?P = "\<lambda>e. same_path_normalized (kf_path e) (normalize_path (kf_path f) r)"
  let ?g = "\<lambda>e. e\<lparr>kf_score := max (kf_score e) (kf_score f),
          kf_last_seen_at_ms := max (kf_last_seen_at_ms e) (kf_last_seen_at_ms f),
          kf_reason := kf_reason f\<rparr>"
  have "map path_key (upd_first ?P ?g fs) = map path_key fs"
    by (rule map_upd_first) (simp add: path_key_def)
  then have "path_key ` set (upd_first ?P ?g fs) = path_key ` set fs" by (metis list.set_map)
  moreover have "merge_key_file r f fs = upd_first ?P ?g fs" using True by (simp add: merge_key_file_def)
  ultimately show ?thesis by (simp only: Un_upper1)
qed (auto simp: merge_key_file_def Let_def path_key_def)

lemma set_merge_key_files:
  "path_key ` set (fold (merge_key_file r) us fs)
     \<subseteq> path_key ` set fs \<union> (\<lambda>f. map to_ascii_lower (normalize_path (kf_path f) r)) ` set us"
proof (induction us arbitrary: fs)
  case (Cons u us)
  define N :: "key_file \<Rightarrow> string" where "N = (\<lambda>f. map to_ascii_lower (normalize_path (kf_path f) r))"
  have "path_key ` set (fold (merge_key_file r) (u # us) fs) \<subseteq> path_key ` set (merge_key_file r u fs) \<union> N ` set us"
    using Cons[of "merge_key_file r u fs"] by (simp add: N_def)
  also have "\<dots> \<subseteq> (path_key ` set fs \<union> {N u}) \<union> N ` set us"
    using set_merge_key_file[of r u fs] by (intro Un_mono order_refl) (simp add: N_def)
  also have "\<dots> = path_key ` set fs \<union> N ` set (u # us)" by simp
  finally show ?case by (simp only: N_def)
qed simp

text \<open>
  A memory update keeps the row's identity and its last known state (a new summary wins, else
  the old one stays), keeps one key file per path up to ASCII case, each of them stored before or
  named by the update, and no decision twice; it keeps at most ten attempts. This holds on the
  compacting and on the plain branch.
\<close>

theorem memory_update_sound:
  assumes "codec_ok tx" "distinct (map path_key (stored_files tx mem))" "distinct (stored_decisions tx mem)"
    and "mem' = update_memory tx cfg now1 now2 mem upd ts n i budget repo"
  shows "m_id mem' = m_id mem \<and> m_subagent_id mem' = m_subagent_id mem \<and> m_updated_at_ms mem' = now2
    \<and> m_hot_summary mem' = coalesce (mu_current_state_summary upd) (m_hot_summary mem)
    \<and> distinct (map path_key (stored_files tx mem'))
    \<and> path_key ` set (stored_files tx mem') \<subseteq> path_key ` set (stored_files tx mem)
        \<union> (\<lambda>f. map to_ascii_lower (normalize_path (kf_path f) repo)) ` set (mu_key_files upd)
    \<and> distinct (stored_decisions tx mem')
    \<and> set (stored_decisions tx mem') \<subseteq> set (stored_decisions tx mem) \<union> set (mu_decisions upd)
    \<and> length (stored_attempts tx mem') \<le> 10"
proof -
  let ?mg = "merged_memory tx mem upd ts i repo"
  have ids: "m_id mem' = m_id mem" "m_subagent_id mem' = m_subagent_id mem" "m_updated_at_ms mem' = now2"
    "m_hot_summary mem' = coalesce (mu_current_state_summary upd) (m_hot_summary mem)"
    using assms(4) update_memory_ids[of tx cfg now1 now2 mem upd ts n i budget repo]
    by (simp_all add: update_memory_def Let_def)
  have f: "distinct (map path_key (stored_files tx ?mg))" "distinct (stored_decisions tx ?mg)"
    using assms(2,3) merge_decisions by (auto simp: merged_stored[OF assms(1)] intro: merge_key_files_distinct)
  have fs: "path_key ` set (stored_files tx ?mg) \<subseteq> path_key ` set (stored_files tx mem)
        \<union> (\<lambda>f. map to_ascii_lower (normalize_path (kf_path f) repo)) ` set (mu_key_files upd)"
    "set (stored_decisions tx ?mg) \<subseteq> set (stored_decisions tx mem) \<union> set (mu_decisions upd)"
    "length (stored_attempts tx ?mg) \<le> 10"
    using set_merge_key_files merge_decisions[of "mu_decisions upd" "stored_decisions tx mem"] merge_attempt_cap
    by (auto simp: merged_stored[OF assms(1)])
  have "distinct (map path_key (stored_files tx mem')) \<and> distinct (stored_decisions tx mem')
     \<and> set (stored_files tx mem') \<subseteq> set (stored_files tx ?mg)
     \<and> set (stored_decisions tx mem') \<subseteq> set (stored_decisions tx ?mg)
     \<and> stored_attempts tx mem' = stored_attempts tx ?mg"
    using assms(4)
  proof (cases rule: update_memory_cases)
    case compacted
    have "distinct (map path_key (sort_by better_file (stored_files tx ?mg)))"
      using f(1) distinct_map_mset[OF mset_sort_by] by metis
    then have "distinct (map path_key (take MAX_KEY_FILES (sort_by better_file (stored_files tx ?mg))))"
      by (simp add: take_map[symmetric])
    moreover have "set (take MAX_KEY_FILES (sort_by better_file (stored_files tx ?mg))) \<subseteq> set (stored_files tx ?mg)"
      by (metis set_sort_by set_take_subset)
    ultimately show ?thesis
      using f(2) set_take_last[of MAX_DECISIONS "stored_decisions tx ?mg"]
      by (simp add: compacted compacted_stored[OF assms(1)]) (simp add: take_last_def)
  next
    case merged
    with f show ?thesis by simp
  qed
  with ids fs show ?thesis by (metis (no_types, lifting) image_mono order_trans)
qed

text \<open>A row with a stored decision, and an update that repeats it and reports one file twice.\<close>

definition sample_memory :: memory_row where
  "sample_memory = (new_empty_memory 1 ''x'')\<lparr>m_decisions_json := Some (tl_print_strings unary_lib [''d''])\<rparr>"

definition sample_update :: memory_update where
  "sample_update = memory_update_default\<lparr>
     mu_current_state_summary := Some ''now'', mu_decisions := [''d'', ''e''],
     mu_key_files := [\<lparr>kf_path = ''/repo/A.rs'', kf_reason = ''r'', kf_last_seen_at_ms = 1, kf_score = 2\<rparr>,
                      \<lparr>kf_path = ''./a.rs'', kf_reason = ''s'', kf_last_seen_at_ms = 2, kf_score = 1\<rparr>]\<rparr>"

definition sample_context_config :: "nat \<Rightarrow> context_config" where
  "sample_context_config threshold = \<lparr>cx_default_budget_tokens = 8, cx_max_budget_tokens = 16,
     cx_recent_tasks_limit = 5, cx_compaction_tasks_threshold = threshold, cx_threshold = (\<lambda>n. n)\<rparr>"

lemma sample_memory_stored [simp]:
  "stored_files unary_lib sample_memory = []" "stored_decisions unary_lib sample_memory = [''d'']"
  by (simp_all add: stored_files_def stored_decisions_def sample_memory_def new_empty_memory_def)

theorem memory_update_sound_witness:
  "m_hot_summary (update_memory unary_lib (sample_context_config 3) 8 9 sample_memory sample_update [] 0 ''t'' 10 ''/repo'')
     = Some ''now''
   \<and> path_key ` set (stored_files unary_lib
        (update_memory unary_lib (sample_context_config 3) 8 9 sample_memory sample_update [] 0 ''t'' 10 ''/repo''))
     \<subseteq> {''a.rs''}"
proof -
  have "(\<lambda>f. map to_ascii_lower (normalize_path (kf_path f) ''/repo'')) ` set (mu_key_files sample_update) = {''a.rs''}"
    by (simp add: sample_update_def memory_update_default_def normalize_path_def forward_slashes_def
        strip_prefix_def to_ascii_lower_def char_of_def bit_0 Let_def)
  then show ?thesis
    using memory_update_sound[OF codec_ok_unary, of sample_memory _ "sample_context_config 3" 8 9 sample_update "[]" 0
        "''t''" 10 "''/repo''"]
    by (simp add: sample_update_def memory_update_default_def)
qed

text \<open>
  When the update compacts (enough tasks since the last compaction, or the memory over its
  threshold), the row is bounded: at most 20 key files with the best scores first, the last 20
  decisions, at most 10 questions none of which is resolved, and a long summary of at most 3000
  characters that is absent rather than empty; the compaction is recorded with its time and task.
\<close>

theorem compaction_bounds:
  assumes "codec_ok tx"
    and "cx_compaction_tasks_threshold cfg \<le> n \<or> memory_oversized cfg (merged_memory tx mem upd ts i repo) ts budget"
    and "mem' = update_memory tx cfg now1 now2 mem upd ts n i budget repo"
  shows "length (stored_files tx mem') \<le> 20 \<and> sorted_wrt better_file (stored_files tx mem')
    \<and> stored_decisions tx mem' = take_last 20 (fold merge_decision (mu_decisions upd) (stored_decisions tx mem))
    \<and> length (stored_questions tx mem') \<le> 10
    \<and> (\<forall>q \<in> set (stored_questions tx mem'). oq_status q \<noteq> ''resolved'')
    \<and> (case m_long_summary mem' of None \<Rightarrow> True | Some s \<Rightarrow> s \<noteq> [] \<and> chars_count s \<le> 3000)
    \<and> m_last_compacted_at_ms mem' = Some now1 \<and> m_last_compacted_task_id mem' = Some i"
proof -
  let ?mg = "merged_memory tx mem upd ts i repo"
  have m: "mem' = (compacted_memory tx ts i now1 ?mg)\<lparr>m_updated_at_ms := now2\<rparr>"
    using assms(2,3) by (simp only: update_memory_def Let_def if_True)
  have long: "m_long_summary mem' = m_long_summary (compact tx ts ?mg)"
    and "m_last_compacted_at_ms mem' = Some now1" "m_last_compacted_task_id mem' = Some i"
    by (simp_all add: m compacted_memory_def Let_def)
  moreover have "stored_decisions tx mem' = take_last 20 (fold merge_decision (mu_decisions upd) (stored_decisions tx mem))"
    by (simp add: m compacted_stored[OF assms(1)] merged_stored[OF assms(1)] memory_consts)
  moreover have "case m_long_summary mem' of None \<Rightarrow> True | Some s \<Rightarrow> s \<noteq> [] \<and> chars_count s \<le> 3000"
    using compact_long_summary[of tx ts ?mg] unfolding long MAX_LONG_SUMMARY_CHARS_def .
  ultimately show ?thesis
    using compacted_memory_caps[OF assms(1), of ts i now1 ?mg]
    by (simp add: m stored_files_def stored_questions_def)
qed

theorem compaction_bounds_witness:
  "stored_decisions unary_lib
     (update_memory unary_lib (sample_context_config 3) 8 9 sample_memory sample_update [] 3 ''t'' 10 ''/repo'')
     = [''d'', ''e'']"
proof -
  have "cx_compaction_tasks_threshold (sample_context_config 3) \<le> 3 \<or>
      memory_oversized (sample_context_config 3) (merged_memory unary_lib sample_memory sample_update [] ''t'' ''/repo'') [] 10"
    by (simp add: sample_context_config_def)
  from compaction_bounds[OF codec_ok_unary this refl, of 8 9] show ?thesis
    by (simp add: sample_update_def memory_update_default_def merge_decision_def take_last_def)
qed

lemma strip_prefix_append [simp]: "strip_prefix p (p @ s) = Some s"
  by (simp add: strip_prefix_def)

text \<open>
  A path inside the repository is stored relative to it: its repository prefix and one
  separator are removed, whichever slashes the path or the repository uses.
\<close>

theorem normalize_path_relative:
  assumes "repo \<noteq> []" "\<not> prefix ''./'' (forward_slashes q)" "sep = CHR ''/'' \<or> sep = CHR 0x5C"
  shows "normalize_path (repo @ sep # q) repo = forward_slashes q"
proof -
  have "forward_slashes (repo @ sep # q) = (forward_slashes repo @ ''/'') @ forward_slashes q"
    using assms(3) by (auto simp: forward_slashes_def)
  then have "strip_prefix (forward_slashes repo @ ''/'') (forward_slashes (repo @ sep # q)) = Some (forward_slashes q)"
    by (metis strip_prefix_append)
  moreover have "strip_prefix ''./'' (forward_slashes q) = None" using assms(2) by (simp add: strip_prefix_def)
  ultimately show ?thesis using assms(1) by (simp add: normalize_path_def Let_def)
qed

theorem normalize_path_relative_witness:
  "normalize_path (''/w'' @ [CHR 0x5C] @ ''a.rs'') ''/w'' = ''a.rs''"
  using normalize_path_relative[of "''/w''" "''a.rs''" "CHR 0x5C"]
  by (simp add: forward_slashes_def)

text \<open>
  The prefix test has no separator boundary: a path that is not in the repository but whose
  directory name starts with the repository's loses the common part too.
\<close>

theorem normalize_path_sibling:
  "normalize_path ''/repository/a.rs'' ''/repo'' = ''sitory/a.rs''
   \<and> normalize_path ''/repo/a.rs'' ''/repo'' = ''a.rs''
   \<and> normalize_path ''/other/a.rs'' ''/repo'' = ''/other/a.rs''"
  by (simp add: normalize_path_def forward_slashes_def strip_prefix_def Let_def)

end
