(* ===== verification/Context.thy ===== *)
theory Context
  imports Memory
begin

text \<open>
  \<^verbatim>\<open>crates/busytok-subagent/src/context.rs\<close>: the prompt context, its sections, and the
  progressive trimming that fits it to a byte budget. A string's length is its UTF-8 length, as in
  the code.
\<close>

record compact_context =
  cc_compact_context :: string
  cc_budget_tokens :: nat
  cc_source :: string

record memory_snapshot =
  sn_hot_summary :: "string option"
  sn_long_summary :: "string option"
  sn_key_files :: "key_file list"
  sn_decisions :: "string list"
  sn_open_questions :: "open_question list"

record context_parts =
  cp_header :: string
  cp_recent_summaries :: "string list"
  cp_attempts :: "string list"
  cp_key_files :: "key_file list"
  cp_open_questions :: "open_question list"
  cp_decisions :: "string list"
  cp_long_summary :: "string option"
  cp_hot_summary :: "string option"
  cp_prompt :: string

record trim_state =
  tr_recent :: "nat option"
  tr_attempts :: "nat option"
  tr_key_files :: "nat option"
  tr_open_questions :: "nat option"
  tr_long_summary_chars :: "nat option"

section \<open>Rendering\<close>

definition bullets :: "string \<Rightarrow> string list \<Rightarrow> string" where
  "bullets title items = title @ nl @ join nl (map (\<lambda>s. ''- '' @ s) items) @ nl"

text \<open>One section: absent when its sl is empty or it is dropped.\<close>

definition section_of :: "nat option \<Rightarrow> (nat \<Rightarrow> 'a list) \<Rightarrow> ('a list \<Rightarrow> string) \<Rightarrow> string" where
  "section_of level sl show =
     (case level of None \<Rightarrow> [] | Some n \<Rightarrow> (if sl n = [] then [] else show (sl n)))"

definition render :: "context_parts \<Rightarrow> trim_state \<Rightarrow> string" where
  "render p st =
     cp_header p
     @ section_of (tr_recent st) (\<lambda>n. take n (cp_recent_summaries p)) (bullets ''Recent tasks:'')
     @ section_of (tr_attempts st) (\<lambda>n. take_last n (cp_attempts p)) (bullets ''Attempts:'')
     @ section_of (tr_key_files st) (\<lambda>n. take n (cp_key_files p))
         (\<lambda>fs. ''Key files: '' @ join '', '' (map kf_path fs) @ nl)
     @ section_of (tr_open_questions st) (\<lambda>n. take n (cp_open_questions p))
         (\<lambda>qs. bullets ''Open questions:'' (map oq_question qs))
     @ (if cp_decisions p = [] then [] else bullets ''Decisions:'' (cp_decisions p))
     @ (case tr_long_summary_chars st of
          None \<Rightarrow> []
        | Some chars \<Rightarrow>
            (case cp_long_summary p of
               None \<Rightarrow> []
             | Some long \<Rightarrow> ''Long-term findings:'' @ nl @ chars_take chars long @ nl))
     @ (case cp_hot_summary p of None \<Rightarrow> [] | Some hot \<Rightarrow> ''Current state:'' @ nl @ hot @ nl)
     @ cp_prompt p"

definition finalize :: "string \<Rightarrow> string" where
  "finalize s = trim_end_char (CHR 0x0A) s @ nl"

section \<open>Trimming\<close>

definition try_fit :: "context_parts \<Rightarrow> nat \<Rightarrow> trim_state \<Rightarrow> string option" where
  "try_fit p budget_chars st =
     (let rendered = render p st
      in if length rendered \<le> budget_chars then Some (finalize rendered) else None)"

text \<open>
  The states of the priorities 1 to 4, in the order the code tries them: the section at its
  smaller levels when it is larger than the level, then dropped; a later section starts where the
  earlier ones ended.
\<close>

definition trim_levels :: "context_parts \<Rightarrow> trim_state \<Rightarrow> trim_state list" where
  "trim_levels p st =
     (let recent_full = length (cp_recent_summaries p);
          r3 = st\<lparr>tr_recent := Some 3\<rparr>; r1 = st\<lparr>tr_recent := Some 1\<rparr>; r0 = st\<lparr>tr_recent := None\<rparr>;
          a3 = r0\<lparr>tr_attempts := Some 3\<rparr>; a0 = r0\<lparr>tr_attempts := None\<rparr>;
          k10 = a0\<lparr>tr_key_files := Some 10\<rparr>; k0 = a0\<lparr>tr_key_files := None\<rparr>;
          q5 = k0\<lparr>tr_open_questions := Some 5\<rparr>; q0 = k0\<lparr>tr_open_questions := None\<rparr>
      in (if 3 < recent_full then [r3] else []) @ (if 1 < recent_full then [r1] else []) @ [r0]
         @ (if 3 < length (cp_attempts p) then [a3] else []) @ [a0]
         @ (if 10 < length (cp_key_files p) then [k10] else []) @ [k0]
         @ (if 5 < length (cp_open_questions p) then [q5] else []) @ [q0])"

fun first_fit :: "context_parts \<Rightarrow> nat \<Rightarrow> trim_state list \<Rightarrow> string option" where
  "first_fit p budget_chars [] = None"
| "first_fit p budget_chars (st # sts) =
     (case try_fit p budget_chars st of Some out \<Rightarrow> Some out | None \<Rightarrow> first_fit p budget_chars sts)"

definition full_state :: "context_parts \<Rightarrow> trim_state" where
  "full_state p =
     \<lparr>tr_recent = Some (length (cp_recent_summaries p)), tr_attempts = Some (length (cp_attempts p)),
      tr_key_files = Some (length (cp_key_files p)),
      tr_open_questions = Some (length (cp_open_questions p)),
      tr_long_summary_chars =
        Some (case cp_long_summary p of None \<Rightarrow> 0 | Some s \<Rightarrow> chars_count s)\<rparr>"

text \<open>The state with every trimmable item section dropped, and priority 5.\<close>

definition items_dropped :: "trim_state \<Rightarrow> trim_state" where
  "items_dropped st =
     st\<lparr>tr_recent := None, tr_attempts := None, tr_key_files := None, tr_open_questions := None\<rparr>"

definition long_overhead :: nat where
  "long_overhead = length ''Long-term findings:'' + length nl + length nl"

definition trim_long :: "context_parts \<Rightarrow> nat \<Rightarrow> trim_state \<Rightarrow> string" where
  "trim_long p budget_chars st =
     (if cp_long_summary p \<noteq> None then
        (let st = st\<lparr>tr_long_summary_chars := None\<rparr>;
             without_long = render p st;
             remaining = budget_chars - length without_long
         in if length without_long < budget_chars \<and> long_overhead < remaining
               \<and> length (render p (st\<lparr>tr_long_summary_chars := Some (remaining - long_overhead)\<rparr>))
                    \<le> budget_chars
            then finalize (render p (st\<lparr>tr_long_summary_chars := Some (remaining - long_overhead)\<rparr>))
            else finalize without_long)
      else finalize (render p st))"

definition assemble_with_budget :: "context_parts \<Rightarrow> nat \<Rightarrow> string" where
  "assemble_with_budget p budget_chars =
     (let st = full_state p;
          full = render p st
      in if length full \<le> budget_chars then finalize full
         else case first_fit p budget_chars (trim_levels p st) of
                Some out \<Rightarrow> out
              | None \<Rightarrow> trim_long p budget_chars (items_dropped st))"

text \<open>\<open>ContextBuilder::build\<close>.\<close>

definition effective_budget :: "context_config \<Rightarrow> nat \<Rightarrow> nat" where
  "effective_budget cfg profile_budget_tokens =
     (let effective = (if profile_budget_tokens = 0 then cx_default_budget_tokens cfg
                       else profile_budget_tokens);
          max_budget = max (cx_max_budget_tokens cfg) 1
      in min (max effective 1) max_budget)"

definition context_header :: "logical_row \<Rightarrow> string" where
  "context_header sub =
     ''You are Busytok logical subagent: '' @ l_name sub @ nl
     @ (case l_intent sub of None \<Rightarrow> [] | Some intent \<Rightarrow> nl @ ''Long-term goal: '' @ intent @ nl)"

definition snapshot_of :: "text_lib \<Rightarrow> memory_row \<Rightarrow> memory_snapshot" where
  "snapshot_of tx mem =
     \<lparr>sn_hot_summary = m_hot_summary mem, sn_long_summary = m_long_summary mem,
      sn_key_files = parse_json_vec (tl_parse_files tx) (m_key_files_json mem),
      sn_decisions = parse_json_vec (tl_parse_strings tx) (m_decisions_json mem),
      sn_open_questions = parse_json_vec (tl_parse_questions tx) (m_open_questions_json mem)\<rparr>"

definition parts_of ::
    "text_lib \<Rightarrow> context_config \<Rightarrow> logical_row \<Rightarrow> memory_row \<Rightarrow> task_row list \<Rightarrow> string \<Rightarrow> context_parts" where
  "parts_of tx cfg sub mem recent_tasks prompt =
     (let snapshot = snapshot_of tx mem;
          sorted = sort_by (\<lambda>a b. t_created_at_ms b \<le> t_created_at_ms a) recent_tasks
      in \<lparr>cp_header = context_header sub,
          cp_recent_summaries =
            List.map_filter t_result_summary (take (cx_recent_tasks_limit cfg) sorted),
          cp_attempts = parse_json_vec (tl_parse_strings tx) (m_attempts_json mem),
          cp_key_files = sn_key_files snapshot, cp_open_questions = sn_open_questions snapshot,
          cp_decisions = sn_decisions snapshot, cp_long_summary = sn_long_summary snapshot,
          cp_hot_summary = sn_hot_summary snapshot,
          cp_prompt = nl @ ''Current task:'' @ nl @ prompt @ nl\<rparr>)"

definition build_context ::
    "text_lib \<Rightarrow> context_config \<Rightarrow> logical_row \<Rightarrow> memory_row \<Rightarrow> task_row list \<Rightarrow> string \<Rightarrow> nat \<Rightarrow>
     compact_context \<times> memory_snapshot" where
  "build_context tx cfg sub mem recent_tasks prompt profile_budget_tokens =
     (let budget = effective_budget cfg profile_budget_tokens
      in (\<lparr>cc_compact_context =
             assemble_with_budget (parts_of tx cfg sub mem recent_tasks prompt) (budget * 4),
           cc_budget_tokens = budget, cc_source = ''busytok-context-builder/v1''\<rparr>,
          snapshot_of tx mem))"

section \<open>Lemmas\<close>

text \<open>What the trimming never touches: identity, decisions, current state, task.\<close>

definition protected_part :: "context_parts \<Rightarrow> string" where
  "protected_part p =
     cp_header p
     @ (if cp_decisions p = [] then [] else bullets ''Decisions:'' (cp_decisions p))
     @ (case cp_hot_summary p of None \<Rightarrow> [] | Some hot \<Rightarrow> ''Current state:'' @ nl @ hot @ nl)
     @ cp_prompt p"

lemma section_of_None [simp]: "section_of None sl show = []"
  by (simp add: section_of_def)

lemma render_all_dropped:
  "render p ((items_dropped st)\<lparr>tr_long_summary_chars := None\<rparr>) = protected_part p"
  by (simp add: render_def items_dropped_def protected_part_def)

lemma render_no_long_items:
  "cp_long_summary p = None \<Longrightarrow> render p (items_dropped st) = protected_part p"
  by (simp add: render_def items_dropped_def protected_part_def split: option.splits)

lemma length_finalize_le: "s \<noteq> [] \<Longrightarrow> last s = CHR 0x0A \<Longrightarrow> length (finalize s) \<le> length s"
proof -
  assume "s \<noteq> []" "last s = CHR 0x0A"
  then have s: "s = butlast s @ [CHR 0x0A]" by (metis append_butlast_last_id)
  have "length (trim_end_char (CHR 0x0A) s) \<le> length (butlast s)"
    by (subst s) (simp only: trim_end_char_snoc length_trim_end_char_le)
  moreover have "Suc (length (butlast s)) = length s" using \<open>s \<noteq> []\<close> by (simp add: Suc_diff_le)
  ultimately show ?thesis by (simp only: finalize_def length_append length_nl)
qed

text \<open>The prompt section ends every rendering with a newline.\<close>

definition prompt_ends :: "context_parts \<Rightarrow> bool" where
  "prompt_ends p = (cp_prompt p \<noteq> [] \<and> last (cp_prompt p) = CHR 0x0A)"

lemma finalize_render_le:
  assumes "prompt_ends p"
  shows "length (finalize (render p st)) \<le> length (render p st)"
proof -
  have "render p st \<noteq> [] \<and> last (render p st) = CHR 0x0A"
    using assms by (simp add: render_def prompt_ends_def)
  then show ?thesis by (intro length_finalize_le) simp_all
qed

lemma first_fit_length:
  assumes "prompt_ends p" "first_fit p b sts = Some out"
  shows "length out \<le> b"
  using assms(2)
proof (induction sts)
  case (Cons st sts)
  then show ?case using finalize_render_le[OF assms(1), of st]
    by (auto simp: try_fit_def Let_def split: if_splits option.splits)
qed simp

lemma trim_long_length:
  assumes "prompt_ends p" "length (protected_part p) \<le> b"
  shows "length (trim_long p b (items_dropped st)) \<le> b"
proof (cases "cp_long_summary p")
  case None
  with assms finalize_render_le[OF assms(1), of "items_dropped st"] show ?thesis
    by (simp add: trim_long_def render_no_long_items)
next
  case (Some s)
  have "length (finalize (protected_part p)) \<le> b"
    using finalize_render_le[OF assms(1), of "(items_dropped st)\<lparr>tr_long_summary_chars := None\<rparr>"] assms(2)
    by (simp add: render_all_dropped)
  moreover have "length (render p x) \<le> b \<Longrightarrow> length (finalize (render p x)) \<le> b" for x
    using finalize_render_le[OF assms(1), of x] by simp
  ultimately show ?thesis using Some by (simp add: trim_long_def Let_def render_all_dropped)
qed

lemma assemble_within_budget:
  assumes "prompt_ends p" "length (protected_part p) \<le> b"
  shows "length (assemble_with_budget p b) \<le> b"
  using finalize_render_le[OF assms(1), of "full_state p"] first_fit_length[OF assms(1)]
    trim_long_length[OF assms]
  by (auto simp: assemble_with_budget_def Let_def split: option.splits)

text \<open>Every result is a finalized rendering: the protected sections are all there.\<close>

lemma first_fit_render: "first_fit p b sts = Some out \<Longrightarrow> \<exists>st \<in> set sts. out = finalize (render p st)"
  by (induction sts) (auto simp: try_fit_def Let_def split: if_splits option.splits)

lemma assemble_is_render: "\<exists>st. assemble_with_budget p b = finalize (render p st)"
proof -
  have trim: "\<exists>st'. trim_long p b st = finalize (render p st')" for st
    unfolding trim_long_def Let_def by (cases "cp_long_summary p") auto
  show ?thesis
  proof (cases "first_fit p b (trim_levels p (full_state p))")
    case None
    obtain st where st: "trim_long p b (items_dropped (full_state p)) = finalize (render p st)"
      using trim[of "items_dropped (full_state p)"] by blast
    show ?thesis
    proof (cases "length (render p (full_state p)) \<le> b")
      case True
      then have "assemble_with_budget p b = finalize (render p (full_state p))"
        by (simp add: assemble_with_budget_def Let_def)
      then show ?thesis by blast
    next
      case False
      with None st have "assemble_with_budget p b = finalize (render p st)"
        by (simp add: assemble_with_budget_def Let_def)
      then show ?thesis by blast
    qed
  next
    case (Some out)
    then have "assemble_with_budget p b = finalize (render p (full_state p)) \<or> assemble_with_budget p b = out"
      by (simp add: assemble_with_budget_def Let_def)
    with first_fit_render[OF Some] show ?thesis by blast
  qed
qed

lemma hd_dropWhile_not: "dropWhile P xs \<noteq> [] \<Longrightarrow> \<not> P (hd (dropWhile P xs))"
  by (induction xs) auto

lemma finalize_ends: "\<exists>s. finalize t = s @ nl \<and> (s = [] \<or> last s \<noteq> CHR 0x0A)"
proof (intro exI conjI)
  show "finalize t = trim_end_char (CHR 0x0A) t @ nl" by (simp only: finalize_def)
  show "trim_end_char (CHR 0x0A) t = [] \<or> last (trim_end_char (CHR 0x0A) t) \<noteq> CHR 0x0A"
    using hd_dropWhile_not[of "\<lambda>d. d = CHR 0x0A" "rev t"] by (auto simp: trim_end_char_def last_rev)
qed

lemma prompt_ends_parts [simp]: "prompt_ends (parts_of tx cfg sub mem ts x)"
  by (simp add: prompt_ends_def nl_def parts_of_def Let_def)

section \<open>Properties\<close>

lemma effective_budget_bounds:
  "1 \<le> effective_budget cfg b \<and> effective_budget cfg b \<le> max (cx_max_budget_tokens cfg) 1"
  by (auto simp: effective_budget_def Let_def)

text \<open>
  C36. The built context fits its budget: four bytes per token of an effective budget that is
  between one and the configured maximum, whatever the request asks, as long as the sections that
  are never trimmed (identity, decisions, current state, task) fit by themselves.
\<close>

theorem context_fits_budget:
  assumes "length (protected_part (parts_of tx cfg sub mem ts prompt)) \<le> effective_budget cfg b * 4"
  shows "length (cc_compact_context (fst (build_context tx cfg sub mem ts prompt b)))
      \<le> cc_budget_tokens (fst (build_context tx cfg sub mem ts prompt b)) * 4
    \<and> 1 \<le> cc_budget_tokens (fst (build_context tx cfg sub mem ts prompt b))
    \<and> cc_budget_tokens (fst (build_context tx cfg sub mem ts prompt b)) \<le> max (cx_max_budget_tokens cfg) 1"
  using assemble_within_budget[OF prompt_ends_parts assms] effective_budget_bounds
  by (simp add: build_context_def Let_def)

definition sample_row :: logical_row where
  "sample_row = \<lparr>l_id = ''x'', l_name = ''one'', l_project_id = ''p'', l_repo_path = ''/r'', l_repo_hash = ''h'',
      l_branch = None, l_intent = None, l_default_profile = ''pi/search-cheap'',
      l_bound_provider_id = ''prov'', l_bound_model_id = ''mod'', l_status = ''cold'',
      l_created_at_ms = 0, l_updated_at_ms = 0, l_last_active_at_ms = None\<rparr>"

theorem context_fits_budget_witness:
  "length (cc_compact_context (fst (build_context unary_lib (sample_context_config 3) sample_row
      (new_empty_memory 1 ''x'') [] ''p'' 99))) \<le> 64"
proof -
  have b: "effective_budget (sample_context_config 3) 99 = 16"
    by (simp add: effective_budget_def sample_context_config_def)
  have "length (protected_part (parts_of unary_lib (sample_context_config 3) sample_row (new_empty_memory 1 ''x'') [] ''p''))
      \<le> effective_budget (sample_context_config 3) 99 * 4"
    unfolding b by (simp add: protected_part_def parts_of_def Let_def snapshot_of_def context_header_def sample_row_def
        new_empty_memory_def)
  from context_fits_budget[OF this] show ?thesis by (simp add: build_context_def Let_def b)
qed

text \<open>The shape every rendering has: items and long summary vary, the rest is fixed.\<close>

definition assembled :: "context_parts \<Rightarrow> string \<Rightarrow> string \<Rightarrow> string" where
  "assembled p items long =
     cp_header p @ items
     @ (if cp_decisions p = [] then [] else bullets ''Decisions:'' (cp_decisions p)) @ long
     @ (case cp_hot_summary p of None \<Rightarrow> [] | Some hot \<Rightarrow> ''Current state:'' @ nl @ hot @ nl) @ cp_prompt p"

definition long_cut :: "context_parts \<Rightarrow> string \<Rightarrow> bool" where
  "long_cut p long \<longleftrightarrow> long = [] \<or>
     (\<exists>s n. cp_long_summary p = Some s \<and> long = ''Long-term findings:'' @ nl @ chars_take n s @ nl)"

lemma render_assembled: "\<exists>items long. render p st = assembled p items long \<and> long_cut p long"
proof -
  let ?long = "case tr_long_summary_chars st of None \<Rightarrow> [] | Some chars \<Rightarrow>
      (case cp_long_summary p of None \<Rightarrow> [] | Some long \<Rightarrow> ''Long-term findings:'' @ nl @ chars_take chars long @ nl)"
  let ?items = "section_of (tr_recent st) (\<lambda>n. take n (cp_recent_summaries p)) (bullets ''Recent tasks:'')
     @ section_of (tr_attempts st) (\<lambda>n. take_last n (cp_attempts p)) (bullets ''Attempts:'')
     @ section_of (tr_key_files st) (\<lambda>n. take n (cp_key_files p))
         (\<lambda>fs. ''Key files: '' @ join '', '' (map kf_path fs) @ nl)
     @ section_of (tr_open_questions st) (\<lambda>n. take n (cp_open_questions p))
         (\<lambda>qs. bullets ''Open questions:'' (map oq_question qs))"
  have "render p st = assembled p ?items ?long"
    by (simp only: render_def assembled_def append_assoc)
  moreover have "long_cut p ?long"
    by (cases "tr_long_summary_chars st"; cases "cp_long_summary p") (auto simp: long_cut_def)
  ultimately show ?thesis by blast
qed

lemma full_render_fits:
  "length (render p (full_state p)) \<le> b \<Longrightarrow> assemble_with_budget p b = finalize (render p (full_state p))"
  by (simp add: assemble_with_budget_def Let_def)

text \<open>
  Whatever the budget, the built context is the identity header, some trimmed item sections,
  the decisions, nothing or a cut of the long summary, the current state and the task, in this
  order, and it ends in exactly one newline.
\<close>

theorem context_keeps_protected_sections:
  "\<exists>items long body.
     cc_compact_context (fst (build_context tx cfg sub mem ts prompt b))
       = finalize (assembled (parts_of tx cfg sub mem ts prompt) items long)
     \<and> long_cut (parts_of tx cfg sub mem ts prompt) long
     \<and> cc_compact_context (fst (build_context tx cfg sub mem ts prompt b)) = body @ nl
     \<and> take 1 (rev body) \<noteq> nl"
proof -
  let ?p = "parts_of tx cfg sub mem ts prompt"
  let ?out = "cc_compact_context (fst (build_context tx cfg sub mem ts prompt b))"
  obtain st where st: "?out = finalize (render ?p st)"
    using assemble_is_render[of ?p "effective_budget cfg b * 4"] by (auto simp: build_context_def Let_def)
  obtain items long where r: "render ?p st = assembled ?p items long" "long_cut ?p long"
    using render_assembled by blast
  obtain body where "finalize (render ?p st) = body @ nl" "body = [] \<or> last body \<noteq> CHR 0x0A"
    using finalize_ends by blast
  moreover from this(2) have "take 1 (rev body) \<noteq> nl"
    by (cases body rule: rev_cases) (auto simp: nl_def)
  ultimately show ?thesis using st r by metis
qed

text \<open>Parts with nothing but a long summary.\<close>

definition long_only :: "string \<Rightarrow> context_parts" where
  "long_only s = \<lparr>cp_header = ''h'' @ nl, cp_recent_summaries = [], cp_attempts = [], cp_key_files = [],
     cp_open_questions = [], cp_decisions = [], cp_long_summary = Some s, cp_hot_summary = None,
     cp_prompt = nl @ ''p'' @ nl\<rparr>"

text \<open>
  The cut of the long summary counts bytes as if they were characters: with 35 bytes free, 40
  ASCII characters are cut to the 14 that fit beside the section's title, while 20 two-byte
  characters of the same size, of which 7 would fit, are dropped altogether.
\<close>

theorem long_summary_cut:
  "assemble_with_budget (long_only (replicate 40 (CHR ''e''))) 40
      = ''h'' @ nl @ ''Long-term findings:'' @ nl @ replicate 14 (CHR ''e'') @ nl @ nl @ ''p'' @ nl
   \<and> assemble_with_budget (long_only (concat (replicate 20 [CHR 0xC3, CHR 0xA9]))) 40 = ''h'' @ nl @ nl @ ''p'' @ nl"
  by code_simp

end
