(* ===== verification/Manager_Core.thy ===== *)
theory Manager_Core
  imports Resolver Context
begin

text \<open>
  Settings, constants and helpers of \<^verbatim>\<open>crates/busytok-subagent/src/manager.rs\<close>: timeout validation,
  the provider and model checks, status writes, and the lookup of a control request.
\<close>

section \<open>Settings\<close>

record profile_config =
  pf_write_access :: bool
  pf_tools :: "string list"
  pf_context_budget_tokens :: nat
  pf_timeout_seconds :: "64 word"

text \<open>\<open>SubagentSettings\<close>, with the profile map as an association list.\<close>

record settings =
  st_enabled :: bool
  st_context :: context_config
  st_profiles :: "(string \<times> profile_config) list"
  st_sidecar_task_timeout_seconds :: "64 word"

text \<open>\<open>SubagentManager\<close>, less the shared registries that the environment stands for.\<close>

record manager =
  mg_settings :: settings
  mg_adapter :: string
  mg_text :: text_lib

definition REAPER_BUFFER_MS :: int where "REAPER_BUFFER_MS = 60000"
definition MAX_SAFE_TIMEOUT_SECONDS :: int where
  "MAX_SAFE_TIMEOUT_SECONDS = (i64_max - REAPER_BUFFER_MS) div 1000"
definition HOT_SESSION_RETRY_DEADLINE_MS :: int where "HOT_SESSION_RETRY_DEADLINE_MS = 300000"

section \<open>Timeouts\<close>

definition validate_timeout_seconds :: "64 word \<Rightarrow> subagent_error + int" where
  "validate_timeout_seconds timeout =
     (case i64_try_from timeout of
        None \<Rightarrow>
          Inl (InvalidArgument (''timeout_seconds '' @ show_nat (unat timeout) @ '' exceeds i64::MAX (''
                 @ show_int i64_max @ ''); use a smaller value''))
      | Some secs \<Rightarrow>
          (case Option.bind (checked_mul secs 1000) (\<lambda>v. checked_add v REAPER_BUFFER_MS) of
             None \<Rightarrow>
               Inl (InvalidArgument (''timeout_seconds '' @ show_nat (unat timeout)
                 @ '' would overflow the reaper cutoff arithmetic (timeout * 1000 + ''
                 @ show_int REAPER_BUFFER_MS @ ''); use a value <= '' @ show_int MAX_SAFE_TIMEOUT_SECONDS))
           | Some _ \<Rightarrow> Inr secs))"

definition cap_timeout_for_reaper :: "64 word \<Rightarrow> int" where
  "cap_timeout_for_reaper timeout =
     (case validate_timeout_seconds timeout of Inl _ \<Rightarrow> MAX_SAFE_TIMEOUT_SECONDS | Inr secs \<Rightarrow> secs)"

lemma validate_timeout_seconds_iff:
  "validate_timeout_seconds w = Inr secs \<longleftrightarrow> uint w \<le> MAX_SAFE_TIMEOUT_SECONDS \<and> secs = uint w"
proof -
  obtain n where n: "uint w = n" "0 \<le> n" by (metis uint_ge_0)
  then show ?thesis
    by (auto simp: validate_timeout_seconds_def i64_try_from_def checked_mul_def checked_add_def
        checked_i64_def i64_range_def i64_min_def i64_max_def MAX_SAFE_TIMEOUT_SECONDS_def
        REAPER_BUFFER_MS_def split: option.splits)
qed

lemma cap_timeout_for_reaper_eq: "cap_timeout_for_reaper w = min (uint w) MAX_SAFE_TIMEOUT_SECONDS"
proof (cases "validate_timeout_seconds w")
  case (Inr secs)
  then have "uint w \<le> MAX_SAFE_TIMEOUT_SECONDS" "secs = uint w"
    using validate_timeout_seconds_iff by blast+
  with Inr show ?thesis by (simp add: cap_timeout_for_reaper_def)
next
  case (Inl e)
  then have "\<not> uint w \<le> MAX_SAFE_TIMEOUT_SECONDS"
    using validate_timeout_seconds_iff[of w "uint w"] by auto
  with Inl show ?thesis by (simp add: cap_timeout_for_reaper_def)
qed

section \<open>Helpers\<close>

definition profile_known :: "manager \<Rightarrow> string \<Rightarrow> bool" where
  "profile_known mg profile =
     (profile \<in> {''pi/search-cheap'', ''pi/review-cheap'', ''pi/plan-cheap''}
      \<or> map_of (st_profiles (mg_settings mg)) profile \<noteq> None)"

definition validate_bound_resources ::
    "env \<Rightarrow> logical_subagent \<Rightarrow> string \<Rightarrow> (provider \<times> model) fallible" where
  "validate_bound_resources env subagent effective_model_id =
     try_bind (query env C_Get_Provider (get_provider_with_secret (s_bound_provider_id subagent))) (\<lambda>p.
     case p of
       None \<Rightarrow> raise (Validation (''bound provider not found: '' @ s_bound_provider_id subagent))
     | Some prov \<Rightarrow>
       if \<not> p_enabled prov then
         raise (Validation (''bound provider disabled: '' @ s_bound_provider_id subagent))
       else if unwrap_or [] (p_api_key prov) = [] then
         raise (Validation (''bound provider missing api key: '' @ s_bound_provider_id subagent))
       else
       try_bind (query env C_Get_Model (get_model_by_provider_and_model_id
                   (s_bound_provider_id subagent) effective_model_id)) (\<lambda>m.
       case m of
         None \<Rightarrow> raise (Validation (''bound model not found in provider: '' @ effective_model_id))
       | Some md \<Rightarrow>
         if \<not> md_enabled md then
           raise (Validation (''bound model disabled: '' @ effective_model_id))
         else if md_context_window md = None then
           raise (Validation (''model '' @ qt @ effective_model_id @ qt
             @ '' missing context_window metadata; re-create the model with context_window + max_tokens''))
         else if md_max_tokens md = None then
           raise (Validation (''model '' @ qt @ effective_model_id @ qt
             @ '' missing max_tokens metadata; re-create the model with context_window + max_tokens''))
         else succeed (prov, md)))"

definition set_logical_status :: "env \<Rightarrow> string \<Rightarrow> subagent_status \<Rightarrow> unit fallible" where
  "set_logical_status env i status =
     try_bind (query env C_Status_Read (get_logical_subagent i)) (\<lambda>r.
     case r of
       None \<Rightarrow> raise (NotFound i)
     | Some row \<Rightarrow>
         (let now = en_now env C_Status_Write
          in exec env C_Status_Write (upsert_logical_subagent
               (row\<lparr>l_status := subagent_status_str status, l_updated_at_ms := now,
                    l_last_active_at_ms := Some now\<rparr>))))"

text \<open>\<open>resolve\<close>: by id, or by name and cwd; never both, never neither.\<close>

definition resolve :: "env \<Rightarrow> resolve_params \<Rightarrow> logical_subagent fallible" where
  "resolve env p =
     (case (rp_id p, rp_name p) of
        (Some _, Some _) \<Rightarrow> raise (InvalidArgument ''id and name are mutually exclusive'')
      | (None, None) \<Rightarrow> raise (InvalidArgument ''either id or name must be provided'')
      | (Some i, None) \<Rightarrow> resolve_by_id env i
      | (None, Some name) \<Rightarrow>
          (case rp_cwd p of
             None \<Rightarrow> raise (InvalidArgument ''cwd is required when name is provided'')
           | Some cwd \<Rightarrow> lookup_by_name env name cwd))"

definition task_row_to_summary :: "task_row \<Rightarrow> task_summary" where
  "task_row_to_summary r =
     \<lparr>sum_id = t_id r, sum_subagent_id = t_subagent_id r, sum_profile = t_profile r,
      sum_status = (case task_status_parse (t_status r) of Inr st \<Rightarrow> st | Inl _ \<Rightarrow> Queued),
      sum_prompt = t_prompt r, sum_result_summary = t_result_summary r, sum_error = t_error r,
      sum_created_at_ms = t_created_at_ms r, sum_completed_at_ms = t_completed_at_ms r\<rparr>"

section \<open>Lemmas\<close>

lemma validate_bound_resources_keeps [keeps_intros]: "keeps I (validate_bound_resources env s m)"
  unfolding validate_bound_resources_def by (intro keeps_intros)

lemma set_logical_status_keeps [keeps_intros]: "keeps db_ok (set_logical_status env i st)"
  unfolding set_logical_status_def Let_def by (intro keeps_intros) (auto intro: db_ok_intros)

lemma resolve_keeps [keeps_intros]: "keeps I (resolve env p)"
  unfolding resolve_def by (auto split: option.splits prod.splits intro!: keeps_intros)

text \<open>Resources that pass the check are enabled, keyed and complete; the check writes nothing.\<close>

lemma validate_bound_resourcesD:
  assumes "run_state (validate_bound_resources env s m) d = (Inr (prov, md), d')"
  shows "d' = d \<and> get_provider_with_secret (s_bound_provider_id s) d = Some prov \<and> p_enabled prov
    \<and> (\<exists>key. p_api_key prov = Some key \<and> key \<noteq> [])
    \<and> get_model_by_provider_and_model_id (s_bound_provider_id s) m d = Some md \<and> md_enabled md
    \<and> md_context_window md \<noteq> None \<and> md_max_tokens md \<noteq> None"
  using assms
  by (auto simp: validate_bound_resources_def unwrap_or_def split: if_splits option.splits)

lemma validate_bound_resources_frame: "snd (run_state (validate_bound_resources env s m) d) = d"
  by (auto simp: validate_bound_resources_def split: option.splits)

lemma resolve_sound:
  assumes "run_state (resolve env p) d = (Inr s, d')"
  shows "d' = d \<and> s_status s \<noteq> Deleted \<and> (\<exists>l \<in> set (logicals d). s = row_to_model l)"
  using assms
  by (auto simp: resolve_def split: option.splits dest: resolve_by_id_sound lookup_by_name_sound)

lemma set_logical_statusD:
  assumes "run_state (set_logical_status env i st) d = (Inr u, d')"
  shows "\<exists>row. get_logical_subagent i d = Some row \<and> upsert_logical_subagent
      (row\<lparr>l_status := subagent_status_str st, l_updated_at_ms := en_now env C_Status_Write,
           l_last_active_at_ms := Some (en_now env C_Status_Write)\<rparr>) d = Inr d'"
  using assms
  by (auto simp: set_logical_status_def Let_def split: if_splits option.splits sum.splits)

section \<open>Properties\<close>

text \<open>
  A task timeout is accepted exactly when the reaper's cutoff arithmetic on it, \<open>timeout * 1000
  + buffer\<close>, fits a signed 64-bit integer, and then unchanged; the capped fallback for profile
  timeouts is the same value where it is accepted, always passes the check itself and never makes
  the arithmetic overflow.
\<close>

theorem timeout_validation:
  "(validate_timeout_seconds w = Inr secs \<longleftrightarrow> uint w * 1000 + REAPER_BUFFER_MS \<le> i64_max \<and> secs = uint w)
   \<and> cap_timeout_for_reaper w = min (uint w) MAX_SAFE_TIMEOUT_SECONDS
   \<and> i64_range (cap_timeout_for_reaper w * 1000 + REAPER_BUFFER_MS)
   \<and> validate_timeout_seconds (word_of_int (cap_timeout_for_reaper w)) = Inr (cap_timeout_for_reaper w)"
proof -
  have edge: "uint v \<le> MAX_SAFE_TIMEOUT_SECONDS \<longleftrightarrow> uint v * 1000 + REAPER_BUFFER_MS \<le> i64_max" for v :: "64 word"
    by (simp add: MAX_SAFE_TIMEOUT_SECONDS_def REAPER_BUFFER_MS_def i64_max_def) linarith
  have nn: "0 \<le> uint w" by simp
  have range: "0 \<le> min (uint w) MAX_SAFE_TIMEOUT_SECONDS" "min (uint w) MAX_SAFE_TIMEOUT_SECONDS < 2 ^ 64"
    using nn by (simp_all add: MAX_SAFE_TIMEOUT_SECONDS_def REAPER_BUFFER_MS_def i64_max_def min_def)
  then have "uint (word_of_int (min (uint w) MAX_SAFE_TIMEOUT_SECONDS) :: 64 word) = min (uint w) MAX_SAFE_TIMEOUT_SECONDS"
    by (simp add: uint_word_of_int)
  then have "validate_timeout_seconds (word_of_int (cap_timeout_for_reaper w)) = Inr (cap_timeout_for_reaper w)"
    by (simp add: validate_timeout_seconds_iff cap_timeout_for_reaper_eq)
  moreover have "i64_range (cap_timeout_for_reaper w * 1000 + REAPER_BUFFER_MS)"
    using nn by (simp add: cap_timeout_for_reaper_eq i64_range_def i64_min_def i64_max_def
        MAX_SAFE_TIMEOUT_SECONDS_def REAPER_BUFFER_MS_def min_def)
  ultimately show ?thesis
    using edge[of w] by (simp add: validate_timeout_seconds_iff cap_timeout_for_reaper_eq)
qed

text \<open>
  A bound provider and model pass the check before a task exactly when both catalog reads
  succeed, the provider exists, is enabled and has a non-empty key, and the model exists under that
  provider, is enabled and knows its context window and output limit; the check never writes.
\<close>

theorem bound_resources_exact:
  "(fst (run_state (validate_bound_resources env s m) d) = Inr (prov, md) \<longleftrightarrow>
      \<not> en_fault env C_Get_Provider \<and> \<not> en_fault env C_Get_Model
      \<and> get_provider_with_secret (s_bound_provider_id s) d = Some prov \<and> p_enabled prov
      \<and> (\<exists>key. p_api_key prov = Some key \<and> key \<noteq> [])
      \<and> get_model_by_provider_and_model_id (s_bound_provider_id s) m d = Some md \<and> md_enabled md
      \<and> md_context_window md \<noteq> None \<and> md_max_tokens md \<noteq> None)
   \<and> snd (run_state (validate_bound_resources env s m) d) = d"
proof -
  have "fst (run_state (validate_bound_resources env s m) d) = Inr (prov, md) \<longleftrightarrow>
      \<not> en_fault env C_Get_Provider \<and> \<not> en_fault env C_Get_Model
      \<and> get_provider_with_secret (s_bound_provider_id s) d = Some prov \<and> p_enabled prov
      \<and> unwrap_or [] (p_api_key prov) \<noteq> []
      \<and> get_model_by_provider_and_model_id (s_bound_provider_id s) m d = Some md \<and> md_enabled md
      \<and> md_context_window md \<noteq> None \<and> md_max_tokens md \<noteq> None"
    by (auto simp: validate_bound_resources_def split: option.splits)
  moreover have "unwrap_or [] k \<noteq> [] \<longleftrightarrow> (\<exists>key. k = Some key \<and> key \<noteq> [])" for k :: "string option"
    by (cases k) simp_all
  ultimately show ?thesis by (simp add: validate_bound_resources_frame)
qed

text \<open>
  Control requests find a subagent by id or by name and directory, never by both or neither; a
  lookup writes nothing, never returns a deleted subagent, returns the stored row asked for, and
  on a store that satisfies the schema never ends in an ambiguous name.
\<close>

theorem control_lookup:
  assumes "db_ok d"
  shows "case run_state (resolve env p) d of (r, d') \<Rightarrow> d' = d \<and>
     (case r of
        Inr s \<Rightarrow> s_status s \<noteq> Deleted \<and> (\<exists>l \<in> set (logicals d). s = row_to_model l)
          \<and> (case rp_id p of
               Some i \<Rightarrow> rp_name p = None \<and> s_id s = i
             | None \<Rightarrow> rp_name p = Some (s_name s) \<and> rp_cwd p \<noteq> None)
      | Inl e \<Rightarrow> (\<forall>n. e \<noteq> AmbiguousName n))"
proof -
  obtain r d' where run: "run_state (resolve env p) d = (r, d')" by fastforce
  have frame: "d' = d"
    using run by (auto simp: resolve_def resolve_by_id_def resolve_by_id_include_deleted_def
        lookup_by_name_def lookup_by_name_impl_def Let_def split: option.splits if_splits list.splits)
  show ?thesis
  proof (cases r)
    case (Inr s)
    have "case rp_id p of Some i \<Rightarrow> rp_name p = None \<and> s_id s = i
        | None \<Rightarrow> rp_name p = Some (s_name s) \<and> rp_cwd p \<noteq> None"
      using run Inr resolve_by_id_sound[where d = d] lookup_by_name_sound[where d = d]
      by (fastforce simp: resolve_def split: option.splits)
    with resolve_sound[of env p d s d'] run Inr frame show ?thesis by simp
  next
    case (Inl e)
    have "e \<noteq> AmbiguousName n" for n
    proof
      assume e: "e = AmbiguousName n"
      have "\<exists>nm cwd. fst (run_state (lookup_by_name env nm cwd) d) = Inl (AmbiguousName n)"
        using run Inl e by (auto simp: resolve_def resolve_by_id_def resolve_by_id_include_deleted_def
            split: option.splits if_splits) (metis fst_conv)
      then obtain nm cwd where l: "fst (run_state (lookup_by_name env nm cwd) d) = Inl (AmbiguousName n)"
        by blast
      then have "n = nm"
        by (auto simp: lookup_by_name_def lookup_by_name_impl_def Let_def split: if_splits list.splits)
      with l lookup_by_name_unambiguous[OF db_okD(2)[OF assms]] show False by blast
    qed
    with run Inl frame show ?thesis by simp
  qed
qed

theorem control_lookup_witness:
  "fst (run_state (resolve (quiet_env 5) \<lparr>rp_name = Some ''two'', rp_id = None, rp_cwd = Some ''h''\<rparr>)
      (sample_store\<lparr>logicals := map (\<lambda>l. l\<lparr>l_project_id := ''h''\<rparr>) (logicals sample_store)\<rparr>))
     = Inr (row_to_model (sample_logical ''y'' ''two'' ''cold''\<lparr>l_project_id := ''h''\<rparr>))
   \<and> (case run_state (resolve (quiet_env 5) \<lparr>rp_name = None, rp_id = Some ''x'', rp_cwd = None\<rparr>) sample_store of
        (r, d') \<Rightarrow> d' = sample_store \<and> (case r of Inr s \<Rightarrow> s_id s = ''x'' | Inl e \<Rightarrow> False))"
proof -
  have 1: "fst (run_state (resolve (quiet_env 5) \<lparr>rp_name = Some ''two'', rp_id = None, rp_cwd = Some ''h''\<rparr>)
      (sample_store\<lparr>logicals := map (\<lambda>l. l\<lparr>l_project_id := ''h''\<rparr>) (logicals sample_store)\<rparr>))
     = Inr (row_to_model (sample_logical ''y'' ''two'' ''cold''\<lparr>l_project_id := ''h''\<rparr>))"
    by (simp add: resolve_def lookup_by_name_def lookup_by_name_impl_def Let_def is_valid_name_def
        is_ascii_alphanumeric_def canonical_cwd_def find_by_name_in_repo_def sample_store_def
        sample_logical_def)
  have "is_ok (fst (run_state (resolve (quiet_env 5) \<lparr>rp_name = None, rp_id = Some ''x'', rp_cwd = None\<rparr>) sample_store))"
    by (simp add: resolve_def resolve_by_id_def resolve_by_id_include_deleted_def get_logical_subagent_def
        sample_store_def sample_logical_def row_to_model_def subagent_status_parse_def is_ok_def)
  with control_lookup[OF sample_store_ok(1), where env = "quiet_env 5" and p = "\<lparr>rp_name = None, rp_id = Some ''x'', rp_cwd = None\<rparr>"]
  have "case run_state (resolve (quiet_env 5) \<lparr>rp_name = None, rp_id = Some ''x'', rp_cwd = None\<rparr>) sample_store of
        (r, d') \<Rightarrow> d' = sample_store \<and> (case r of Inr s \<Rightarrow> s_id s = ''x'' | Inl e \<Rightarrow> False)"
    by (auto simp: is_ok_def split: prod.splits sum.splits)
  with 1 show ?thesis by blast
qed

end
