(* ===== verification/Manager_Delegate.thy ===== *)
theory Manager_Delegate
  imports Manager_Core
begin

text \<open>
  \<open>SubagentManager::delegate\<close>: the checks on the request, the resolution of the subagent, the
  reuse policy, and the insertion of the task row as queued or running. The background execution
  it spawns is the second component of its value.
\<close>

section \<open>The request\<close>

text \<open>The checks that precede any database access: the bound pair and the stored timeout.\<close>

definition check_request ::
    "manager \<Rightarrow> delegate_request \<Rightarrow> subagent_error + ((string \<times> string) option \<times> int option)" where
  "check_request mg req =
     (let has_artifact = (case rq_prompt_artifact_ref req of None \<Rightarrow> False | Some s \<Rightarrow> s \<noteq> [])
      in if \<not> st_enabled (mg_settings mg) then Inl Disabled
         else if rq_model_override req = None \<and> \<not> profile_known mg (rq_profile req) then
           Inl (ProfileNotFound (rq_profile req))
         else if has_artifact \<and> rq_prompt req \<noteq> [] then
           Inl (InvalidArgument ''prompt and prompt_artifact_ref are mutually exclusive'')
         else if \<not> has_artifact \<and> rq_prompt req = [] then
           Inl (InvalidArgument ''either prompt or prompt_artifact_ref must be set'')
         else
           (case (case (rq_bound_provider_id req, rq_bound_model_id req) of
                    (Some p, Some m) \<Rightarrow> Inr (Some (p, m))
                  | (None, None) \<Rightarrow> Inr None
                  | _ \<Rightarrow> Inl (Validation
                           ''bound_provider_id and bound_model_id must be provided together'')) of
              Inl e \<Rightarrow> Inl e
            | Inr bound_pair \<Rightarrow>
                (case rq_timeout_seconds req of
                   None \<Rightarrow> Inr (bound_pair, None)
                 | Some timeout \<Rightarrow>
                     (case validate_timeout_seconds timeout of
                        Inl e \<Rightarrow> Inl e
                      | Inr secs \<Rightarrow> Inr (bound_pair, Some secs)))))"

text \<open>The reuse policy, decided on the policy string and on whether the subagent is new.\<close>

definition check_reuse_policy ::
    "delegate_request \<Rightarrow> logical_subagent \<Rightarrow> bool \<Rightarrow> subagent_error + unit" where
  "check_reuse_policy req subagent created =
     (let policy = rq_reuse_policy req; name = qt @ rq_subagent_name req @ qt
      in if (policy = Some ''create'' \<or> policy = Some ''fail'') \<and> \<not> created then
           Inl (InvalidArgument (''subagent '' @ name
             @ '' already exists; use --reuse-policy=reuse to reuse it''))
         else if policy = Some ''reuse'' \<and> created then
           Inl (InvalidArgument (''subagent '' @ name
             @ '' not found; use --reuse-policy=create to create it''))
         else if policy = Some ''reuse'' \<and> \<not> created then Inr ()
         else if \<not> created then
           (case (rq_bound_provider_id req, rq_bound_model_id req) of
              (Some req_pid, Some req_mid) \<Rightarrow>
                if req_pid \<noteq> s_bound_provider_id subagent \<or> req_mid \<noteq> s_bound_model_id subagent then
                  Inl (InvalidArgument (''subagent '' @ name @ '' exists but is bound to provider=''
                    @ s_bound_provider_id subagent @ ''/model='' @ s_bound_model_id subagent
                    @ '', which differs from the requested provider='' @ req_pid @ ''/model='' @ req_mid
                    @ ''. Use --reuse-policy=reuse to ignore this conflict.''))
                else Inr ()
            | _ \<Rightarrow> Inr ())
         else Inr ())"

section \<open>The task row\<close>

definition new_task_row ::
    "delegate_request \<Rightarrow> string \<Rightarrow> string \<Rightarrow> int \<Rightarrow> int option \<Rightarrow> queue_reason option \<Rightarrow> task_row" where
  "new_task_row req task_id sid now timeout_seconds reason =
     \<lparr>t_id = task_id, t_subagent_id = sid, t_source_harness = rq_source_harness req,
      t_source_session_id = rq_source_session_id req, t_intent = rq_intent req,
      t_profile = rq_profile req, t_prompt = Some (rq_prompt req),
      t_prompt_artifact_ref = rq_prompt_artifact_ref req, t_output_schema_name = None,
      t_output_schema_version = 1,
      t_status = (if reason \<noteq> None then ''queued'' else ''running''),
      t_result_summary = None, t_result_json = None, t_error = None, t_created_at_ms = now,
      t_started_at_ms = (if reason \<noteq> None then None else Some now), t_completed_at_ms = None,
      t_timeout_seconds = timeout_seconds, t_model_override = rq_model_override req,
      t_error_kind = None, t_queue_reason = map_option queue_reason_str reason\<rparr>"

text \<open>
  The insert section: \<open>has_running\<close> and the insert happen under one lock. The value is the queue
  reason, \<open>None\<close> for a task that starts now.
\<close>

definition queue_decision :: "bool \<Rightarrow> bool \<Rightarrow> queue_reason option" where
  "queue_decision paused has_running =
     (if paused \<or> has_running then Some (if paused then PressureGatePaused else SubagentBusy)
      else None)"

definition insert_section ::
    "env \<Rightarrow> delegate_request \<Rightarrow> string \<Rightarrow> string \<Rightarrow> int \<Rightarrow> int option \<Rightarrow> bool \<Rightarrow> queue_reason option fallible" where
  "insert_section env req task_id sid now timeout_seconds paused =
     State_Monad.bind (query env C_Has_Running (has_running_task sid)) (\<lambda>r.
     (let has_running = (case r of Inl _ \<Rightarrow> False | Inr b \<Rightarrow> b);
          reason = queue_decision paused has_running
      in try_bind (exec env C_Insert_Task
                     (insert_task (new_task_row req task_id sid now timeout_seconds reason))) (\<lambda>_.
         succeed reason)))"

definition delegate_reply ::
    "manager \<Rightarrow> delegate_request \<Rightarrow> logical_subagent \<Rightarrow> bool \<Rightarrow> string \<Rightarrow> queue_reason option \<Rightarrow> delegate_result" where
  "delegate_reply mg req subagent created task_id reason =
     \<lparr>dr_task_id = task_id, dr_subagent_id = s_id subagent, dr_subagent_name = s_name subagent,
      dr_adapter = mg_adapter mg, dr_adapter_session_id = None, dr_session_reused = False,
      dr_status = (if reason \<noteq> None then Queued else Running), dr_profile = rq_profile req,
      dr_model = rq_model_override req, dr_summary = None, dr_usage = task_usage_default,
      dr_created = created, dr_queue_reason = reason\<rparr>"

section \<open>delegate\<close>

type_synonym spawned = "(task_row \<times> logical_subagent) option"

definition resolve_target ::
    "env \<Rightarrow> delegate_request \<Rightarrow> (string \<times> string) option \<Rightarrow> resolved fallible" where
  "resolve_target env req bound_pair =
     (case rq_subagent_id req of
        Some i \<Rightarrow> try_bind (resolve_by_id env i) (\<lambda>s. succeed \<lparr>rs_subagent = s, rs_created = False\<rparr>)
      | None \<Rightarrow>
          (let (p, m) = unwrap_or ([], []) bound_pair
           in resolve_by_name env (rq_subagent_name req) (rq_cwd req) (rq_profile req) p m))"

definition delegate :: "env \<Rightarrow> manager \<Rightarrow> delegate_request \<Rightarrow> (delegate_result \<times> spawned) fallible" where
  "delegate env mg req =
     try_bind (State_Monad.return (check_request mg req)) (\<lambda>checked.
     case checked of (bound_pair, timeout_seconds) \<Rightarrow>
     try_bind (locked env L_Resolve (resolve_target env req bound_pair)) (\<lambda>res.
     (let subagent = rs_subagent res; created = rs_created res
      in try_bind (State_Monad.return (check_reuse_policy req subagent created)) (\<lambda>_.
         (let effective_model_id = unwrap_or (s_bound_model_id subagent) (rq_model_override req)
          in try_bind (locked env L_Validate (validate_bound_resources env subagent effective_model_id)) (\<lambda>_.
             (let paused = en_gate_paused env;
                  now = en_now env C_Insert_Task;
                  task_id = ''task_'' @ en_uuid env C_Insert_Task
              in try_bind (locked env L_Insert
                             (insert_section env req task_id (s_id subagent) now timeout_seconds paused)) (\<lambda>reason.
                 succeed
                   (delegate_reply mg req subagent created task_id reason,
                    if reason \<noteq> None then None
                    else Some (new_task_row req task_id (s_id subagent) now timeout_seconds None, subagent))))))))))"

section \<open>Lemmas\<close>

lemma new_task_row_fields [simp]:
  "t_id (new_task_row req i sid now ts r) = i"
  "t_subagent_id (new_task_row req i sid now ts r) = sid"
  "t_queue_reason (new_task_row req i sid now ts r) = map_option queue_reason_str r"
  "t_created_at_ms (new_task_row req i sid now ts r) = now"
  "t_timeout_seconds (new_task_row req i sid now ts r) = ts"
  by (simp_all add: new_task_row_def)

lemma new_task_row_status:
  "t_status (new_task_row req i sid now ts r) = (if r \<noteq> None then ''queued'' else ''running'')"
  by (simp add: new_task_row_def)

lemma new_task_row_ok: "task_ok (new_task_row req i sid now ts r)"
  by (simp add: task_ok_def new_task_row_def)

lemma queue_decision_None [simp]: "queue_decision p b = None \<longleftrightarrow> \<not> p \<and> \<not> b"
  by (simp add: queue_decision_def)

text \<open>The insert section as one database action.\<close>

lemma run_insert_section:
  assumes "\<not> en_fault env C_Has_Running"
  shows "run_state (insert_section env req i sid now ts paused) d =
     (let reason = queue_decision paused (has_running_task sid d)
      in if en_fault env C_Insert_Task then (Inl (Store Engine_Failure), d)
         else case insert_task (new_task_row req i sid now ts reason) d of
                Inl e \<Rightarrow> (Inl (Store e), d)
              | Inr d' \<Rightarrow> (Inr reason, d'))"
  using assms by (simp add: insert_section_def Let_def split: sum.splits)

lemma insert_section_keeps:
  assumes "\<not> en_fault env C_Has_Running"
  shows "keeps db_ok (insert_section env req i sid now ts paused)"
  unfolding keeps_def
proof (intro allI impI)
  fix d assume ok: "db_ok d"
  let ?row = "new_task_row req i sid now ts (queue_decision paused (has_running_task sid d))"
  have "db_ok d'" if "insert_task ?row d = Inr d'" for d'
    using that ok by (rule insert_task_db_ok) (auto simp: new_task_row_ok new_task_row_status split: if_splits)
  then show "db_ok (snd (run_state (insert_section env req i sid now ts paused) d))"
    using ok by (simp add: run_insert_section[OF assms] Let_def split: sum.splits)
qed

lemma resolve_target_keeps [keeps_intros]: "keeps db_ok (resolve_target env req bp)"
  unfolding resolve_target_def by (intro keeps_intros)

text \<open>
  Whatever the other threads do between its critical sections, \<open>delegate\<close> keeps the store's
  invariant, as long as the \<open>has_running\<close> query itself answers.
\<close>

lemma delegate_keeps:
  assumes "rely_ok env" "\<not> en_fault env C_Has_Running"
  shows "keeps db_ok (delegate env mg req)"
  unfolding delegate_def Let_def
  by (intro keeps_intros assms(1) insert_section_keeps[OF assms(2)])

lemma insert_sectionD:
  assumes "run_state (insert_section env req i sid now ts paused) d = (Inr reason, d')"
  shows "insert_task (new_task_row req i sid now ts reason) d = Inr d'"
    "reason = queue_decision paused (\<not> en_fault env C_Has_Running \<and> has_running_task sid d)"
  using assms
  by (auto simp: insert_section_def Let_def split: if_splits sum.splits prod.splits)

text \<open>A successful \<open>delegate\<close>, taken apart.\<close>

lemma delegateE:
  assumes "run_state (delegate env mg req) d = (Inr (res, sp), d')"
  obtains bp ts sub created d1 d2 reason where
    "check_request mg req = Inr (bp, ts)"
    "run_state (resolve_target env req bp) (en_between env L_Resolve d)
       = (Inr \<lparr>rs_subagent = sub, rs_created = created\<rparr>, d1)"
    "check_reuse_policy req sub created = Inr ()"
    "run_state (validate_bound_resources env sub (unwrap_or (s_bound_model_id sub) (rq_model_override req)))
        (en_between env L_Validate d1) = (Inr d2, en_between env L_Validate d1)"
    "run_state (insert_section env req (''task_'' @ en_uuid env C_Insert_Task) (s_id sub)
        (en_now env C_Insert_Task) ts (en_gate_paused env))
        (en_between env L_Insert (en_between env L_Validate d1)) = (Inr reason, d')"
    "res = delegate_reply mg req sub created (''task_'' @ en_uuid env C_Insert_Task) reason"
    "sp = (if reason \<noteq> None then None
           else Some (new_task_row req (''task_'' @ en_uuid env C_Insert_Task) (s_id sub)
                        (en_now env C_Insert_Task) ts None, sub))"
proof -
  obtain bp ts where c: "check_request mg req = Inr (bp, ts)"
    using assms by (cases "check_request mg req") (auto simp: delegate_def)
  obtain rs d1 where r: "run_state (resolve_target env req bp) (en_between env L_Resolve d) = (Inr rs, d1)"
    using assms c by (auto simp: delegate_def Let_def split: prod.splits sum.splits)
  have p: "check_reuse_policy req (rs_subagent rs) (rs_created rs) = Inr ()"
    using assms c r by (auto simp: delegate_def Let_def split: prod.splits sum.splits)
  let ?v = "run_state (validate_bound_resources env (rs_subagent rs)
      (unwrap_or (s_bound_model_id (rs_subagent rs)) (rq_model_override req))) (en_between env L_Validate d1)"
  have sv: "snd ?v = en_between env L_Validate d1" by (rule validate_bound_resources_frame)
  obtain x where v: "?v = (Inr x, en_between env L_Validate d1)"
    using assms c r p sv by (cases ?v) (auto simp: delegate_def Let_def split: sum.splits)
  let ?sub = "rs_subagent rs" and ?i = "''task_'' @ en_uuid env C_Insert_Task"
  obtain reason where i: "run_state (insert_section env req ?i (s_id ?sub) (en_now env C_Insert_Task) ts
        (en_gate_paused env)) (en_between env L_Insert (en_between env L_Validate d1)) = (Inr reason, d')"
    and "res = delegate_reply mg req ?sub (rs_created rs) ?i reason"
    and "sp = (if reason \<noteq> None then None
           else Some (new_task_row req ?i (s_id ?sub) (en_now env C_Insert_Task) ts None, ?sub))"
    using assms c r p v by (auto simp: delegate_def Let_def split: prod.splits sum.splits)
  moreover have "run_state (resolve_target env req bp) (en_between env L_Resolve d)
      = (Inr \<lparr>rs_subagent = ?sub, rs_created = rs_created rs\<rparr>, d1)"
    using r by (cases rs) simp
  ultimately show thesis using that[OF c _ p v] by blast
qed

text \<open>The identity a \<open>delegate\<close> acts on exists, is not deleted, and is the one it reports.\<close>

lemma resolve_target_sound:
  assumes "run_state (resolve_target env req bp) d = (Inr r, d')"
  shows "s_status (rs_subagent r) \<noteq> Deleted"
proof (cases "rq_subagent_id req")
  case None
  with assms resolve_by_name_sound show ?thesis by (fastforce simp: resolve_target_def split: prod.splits)
next
  case (Some i)
  with assms show ?thesis
    by (auto simp: resolve_target_def split: prod.splits sum.splits dest: resolve_by_id_sound)
qed

text \<open>
  The database that the insert section finds: the resolution of the subagent has run, and other
  threads at the three points where the lock is free.
\<close>

definition before_insert :: "env \<Rightarrow> delegate_request \<Rightarrow> manager \<Rightarrow> db \<Rightarrow> db" where
  "before_insert env req mg d =
     (case check_request mg req of
        Inl _ \<Rightarrow> d
      | Inr (bp, _) \<Rightarrow> en_between env L_Insert (en_between env L_Validate
          (snd (run_state (resolve_target env req bp) (en_between env L_Resolve d)))))"

text \<open>A refused request inserts nothing: with no other thread writing, the task table is as it was.\<close>

lemma create_subagent_tasks: "keeps (\<lambda>d. tasks d = ts) (create_subagent env n c h dp p m)"
proof -
  have "upsert_logical_subagent r d = Inr x \<Longrightarrow> tasks x = tasks d" for r d x
    by (auto simp: upsert_logical_subagent_def dest: put_logicals_frame)
  moreover have "upsert_memory r d = Inr x \<Longrightarrow> tasks x = tasks d" for r x d
    using upsert_memory_get(1) by fastforce
  ultimately show ?thesis
    unfolding create_subagent_def Let_def by (intro keeps_intros) auto
qed

lemma resolve_target_tasks: "keeps (\<lambda>d. tasks d = ts) (resolve_target env req bp)"
  unfolding resolve_target_def resolve_by_name_def Let_def
  by (intro keeps_intros create_subagent_tasks)

text \<open>Keeping a property on the error exits only.\<close>

definition errs_keep :: "(db \<Rightarrow> bool) \<Rightarrow> 'a fallible \<Rightarrow> bool" where
  "errs_keep I m \<longleftrightarrow> (\<forall>d e d'. I d \<longrightarrow> run_state m d = (Inl e, d') \<longrightarrow> I d')"

lemma errs_keepD: "errs_keep I m \<Longrightarrow> I d \<Longrightarrow> run_state m d = (Inl e, d') \<Longrightarrow> I d'"
  by (simp add: errs_keep_def)

lemma errs_keep_try_bind:
  assumes "keeps I m" "\<And>a. errs_keep I (k a)"
  shows "errs_keep I (try_bind m k)"
  unfolding errs_keep_def
proof (intro allI impI)
  fix d e d' assume I: "I d" and r: "run_state (try_bind m k) d = (Inl e, d')"
  show "I d'"
  proof (cases "run_state m d")
    case (Pair x d1)
    then have "I d1" using keepsD[OF assms(1) I] by blast
    with Pair r assms(2) show ?thesis by (cases x) (auto simp: errs_keep_def)
  qed
qed

lemma errs_keep_succeed: "errs_keep I (succeed a)"
  by (simp add: errs_keep_def)

lemma errs_keep_last: "errs_keep I m \<Longrightarrow> errs_keep I (try_bind m (\<lambda>a. succeed (f a)))"
  by (fastforce simp: errs_keep_def split: prod.splits sum.splits)

lemma errs_keep_insert_section:
  "(\<And>d. I d \<Longrightarrow> I (en_between env l d)) \<Longrightarrow> errs_keep I (locked env l (insert_section env req i sid now ts p))"
  by (auto simp: errs_keep_def insert_section_def Let_def split: sum.splits if_splits prod.splits)

lemma delegate_error_inserts_nothing:
  assumes "run_state (delegate env mg req) d = (Inl e, d')" "\<And>l x. tasks (en_between env l x) = tasks x"
  shows "tasks d' = tasks d"
proof -
  let ?I = "\<lambda>x. tasks x = tasks d"
  have res: "keeps ?I (locked env L_Resolve (resolve_target env req bp))" for bp
    by (rule keeps_locked[OF _ resolve_target_tasks]) (simp add: assms(2))
  have val: "keeps ?I (locked env L_Validate (validate_bound_resources env s m))" for s m
    by (rule keeps_locked[OF _ validate_bound_resources_keeps]) (simp add: assms(2))
  have ins: "errs_keep ?I (try_bind (locked env L_Insert (insert_section env req i sid now ts p))
      (\<lambda>r. succeed (f r)))" for i sid now ts p and f :: "queue_reason option \<Rightarrow> delegate_result \<times> spawned"
    by (rule errs_keep_last[OF errs_keep_insert_section]) (simp add: assms(2))
  have "errs_keep ?I (delegate env mg req)"
    unfolding delegate_def Let_def
    by (rule errs_keep_try_bind[OF keeps_return], split prod.split, intro allI impI,
        rule errs_keep_try_bind[OF res], rule errs_keep_try_bind[OF keeps_return],
        rule errs_keep_try_bind[OF val], rule ins)
  from errs_keepD[OF this _ assms(1)] show ?thesis by simp
qed

section \<open>Properties\<close>

text \<open>
  A delegate request passes its checks exactly when the feature is enabled, the profile is
  known or a model override makes it irrelevant, exactly one of prompt and artifact reference is
  given, provider and model are bound together or not at all, and the timeout, if any, is one the
  reaper can handle; what is stored is that pair and that timeout.
\<close>

theorem request_checks:
  "check_request mg req = Inr (pair, timeout) \<longleftrightarrow>
     st_enabled (mg_settings mg)
     \<and> (if rq_model_override req = None then profile_known mg (rq_profile req) else True)
     \<and> (rq_prompt req = [] \<longleftrightarrow> unwrap_or [] (rq_prompt_artifact_ref req) \<noteq> [])
     \<and> (rq_bound_provider_id req = None \<longleftrightarrow> rq_bound_model_id req = None)
     \<and> pair = Option.bind (rq_bound_provider_id req) (\<lambda>p. map_option (Pair p) (rq_bound_model_id req))
     \<and> (case rq_timeout_seconds req of
          None \<Rightarrow> timeout = None
        | Some w \<Rightarrow> timeout = Some (uint w) \<and> uint w * 1000 + REAPER_BUFFER_MS \<le> i64_max)"
proof -
  have t: "validate_timeout_seconds w = Inr secs \<longleftrightarrow> uint w * 1000 + REAPER_BUFFER_MS \<le> i64_max \<and> secs = uint w"
    for w secs
    by (simp add: validate_timeout_seconds_iff MAX_SAFE_TIMEOUT_SECONDS_def REAPER_BUFFER_MS_def i64_max_def)
      linarith
  have te: "validate_timeout_seconds w = Inl e \<Longrightarrow> \<not> uint w * 1000 + REAPER_BUFFER_MS \<le> i64_max" for w e
    using t[of w "uint w"] by auto
  have a: "(case r of None \<Rightarrow> False | Some s \<Rightarrow> s \<noteq> []) \<longleftrightarrow> unwrap_or [] r \<noteq> []" for r :: "string option"
    by (cases r) simp_all
  show ?thesis
    unfolding check_request_def a Let_def
    by (cases "rq_bound_provider_id req"; cases "rq_bound_model_id req"; cases "rq_timeout_seconds req")
      (auto simp: t dest: te split: sum.splits)
qed

text \<open>
  The reuse policy as a table: a new subagent is refused under \<open>reuse\<close> only; an existing one
  is refused under \<open>create\<close> and \<open>fail\<close>, accepted as it is under \<open>reuse\<close>, and under any other
  policy, or none, accepted unless the request names a different provider or model.
\<close>

theorem reuse_policy_table:
  "is_ok (check_reuse_policy req sub created) \<longleftrightarrow>
     (if created then rq_reuse_policy req \<noteq> Some ''reuse''
      else if rq_reuse_policy req = Some ''reuse'' then True
      else rq_reuse_policy req \<noteq> Some ''create'' \<and> rq_reuse_policy req \<noteq> Some ''fail''
        \<and> \<not> (\<exists>p m. rq_bound_provider_id req = Some p \<and> rq_bound_model_id req = Some m
               \<and> (p, m) \<noteq> (s_bound_provider_id sub, s_bound_model_id sub)))"
  by (auto simp: check_reuse_policy_def Let_def split: option.splits)

text \<open>A manager without profiles, and a request to the subagent of an id.\<close>

definition sample_manager :: manager where
  "sample_manager =
     \<lparr>mg_settings = \<lparr>st_enabled = True, st_context = sample_context_config 3, st_profiles = [],
                     st_sidecar_task_timeout_seconds = 300\<rparr>,
      mg_adapter = ''pi-sdk'', mg_text = unary_lib\<rparr>"

definition sample_request :: "string \<Rightarrow> delegate_request" where
  "sample_request i =
     \<lparr>rq_subagent_name = ''n'', rq_subagent_id = Some i, rq_cwd = ''/r'', rq_profile = ''pi/search-cheap'',
      rq_intent = None, rq_prompt = ''p'', rq_prompt_artifact_ref = None, rq_timeout_seconds = None,
      rq_model_override = None, rq_source_harness = None, rq_source_session_id = None,
      rq_bound_provider_id = None, rq_bound_model_id = None, rq_reuse_policy = None\<rparr>"

lemma sample_request_ok: "check_request sample_manager (sample_request i) = Inr (None, None)"
  by (simp add: check_request_def sample_manager_def sample_request_def profile_known_def)

lemma sample_request_fields [simp]:
  "rq_subagent_name (sample_request i) = ''n''" "rq_subagent_id (sample_request i) = Some i"
  "rq_prompt (sample_request i) = ''p''" "rq_prompt_artifact_ref (sample_request i) = None"
  "rq_model_override (sample_request i) = None" "rq_bound_provider_id (sample_request i) = None"
  "rq_bound_model_id (sample_request i) = None" "rq_reuse_policy (sample_request i) = None"
  by (simp_all add: sample_request_def)

lemmas sample_run = delegate_def sample_request_ok resolve_target_def resolve_by_id_def
  resolve_by_id_include_deleted_def get_logical_subagent_def row_to_model_def subagent_status_parse_def
  check_reuse_policy_def validate_bound_resources_def get_provider_with_secret_def
  get_model_by_provider_and_model_id_def insert_section_def has_running_task_def running_for_def
  queue_decision_def new_task_row_def insert_task_def has_logical_def Let_def
  sample_catalog_def sample_store_def sample_logical_def sample_task_def empty_db_def

lemma sample_delegate:
  "\<exists>res sp d'. run_state (delegate (quiet_env 5) sample_manager (sample_request ''x''))
      (sample_catalog sample_store) = (Inr (res, sp), d')
      \<and> dr_subagent_id res = ''x'' \<and> dr_queue_reason res = Some SubagentBusy"
  by (simp add: sample_run delegate_reply_def)

text \<open>
  C27. A successful \<open>delegate\<close>, whatever other threads do between its critical sections, ends by
  adding exactly one task row to the table its insert section finds, for a subagent that exists there, with the prompt, the
  profile and the checked timeout of the request and the reported id, status and reason: queued and not started when the gate is
  paused, or when the check for a running task answers and finds one; otherwise, also when that check fails, running and started now.
  It spawns an execution exactly in the second case, of that row.
\<close>

theorem delegate_queues_or_starts:
  assumes "run_state (delegate env mg req) d = (Inr (res, sp), d')"
  shows "\<exists>row. let d0 = before_insert env req mg d; now = en_now env C_Insert_Task;
       busy = (\<not> en_fault env C_Has_Running \<and> has_running_task (dr_subagent_id res) d0)
     in d' = d0\<lparr>tasks := tasks d0 @ [row]\<rparr> \<and> has_logical (dr_subagent_id res) d0
       \<and> t_id row = dr_task_id res \<and> t_subagent_id row = dr_subagent_id res
       \<and> t_prompt row = Some (rq_prompt req) \<and> t_profile row = rq_profile req
       \<and> (\<exists>bp. check_request mg req = Inr (bp, t_timeout_seconds row))
       \<and> dr_queue_reason res = (if en_gate_paused env then Some PressureGatePaused
                               else if busy then Some SubagentBusy else None)
       \<and> dr_status res = (if en_gate_paused env \<or> busy then Queued else Running)
       \<and> t_queue_reason row = map_option queue_reason_str (dr_queue_reason res)
       \<and> t_status row = task_status_str (dr_status res)
       \<and> t_started_at_ms row = (if dr_status res = Running then Some now else None)
       \<and> (case sp of None \<Rightarrow> dr_status res = Queued
          | Some (t, sub) \<Rightarrow> dr_status res = Running \<and> t = row \<and> s_id sub = dr_subagent_id res)"
  using assms
proof (cases rule: delegateE)
  case (1 bp ts sub created d1 d2 reason)
  let ?d0 = "before_insert env req mg d"
  have d0: "en_between env L_Insert (en_between env L_Validate d1) = ?d0" using 1(1,2) by (simp add: before_insert_def)
  let ?row = "new_task_row req (''task_'' @ en_uuid env C_Insert_Task) (s_id sub) (en_now env C_Insert_Task) ts reason"
  note ins = insert_sectionD[OF 1(5), unfolded d0]
  have "d' = ?d0\<lparr>tasks := tasks ?d0 @ [?row]\<rparr>" "has_logical (s_id sub) ?d0" using insert_taskD(1,4)[OF ins(1)] by simp_all
  moreover have "reason = queue_decision (en_gate_paused env)
      (\<not> en_fault env C_Has_Running \<and> has_running_task (s_id sub) ?d0)" by (rule ins(2))
  ultimately show ?thesis using 1(1,6,7)
    by (intro exI[of _ ?row]) (auto simp: Let_def delegate_reply_def new_task_row_def queue_decision_def)
qed

theorem delegate_queues_or_starts_witness:
  "\<exists>row \<in> set (tasks (snd (run_state (delegate (quiet_env 5) sample_manager (sample_request ''x''))
        (sample_catalog sample_store)))). t_status row = ''queued'' \<and> t_queue_reason row = Some ''subagent_busy''"
proof -
  obtain res sp d' where r: "run_state (delegate (quiet_env 5) sample_manager (sample_request ''x''))
      (sample_catalog sample_store) = (Inr (res, sp), d')" "dr_queue_reason res = Some SubagentBusy"
    using sample_delegate by blast
  from delegate_queues_or_starts[OF r(1), unfolded Let_def] obtain d0 row where "d' = d0\<lparr>tasks := tasks d0 @ [row]\<rparr>"
    "t_status row = task_status_str (dr_status res)" "t_queue_reason row = Some ''subagent_busy''"
    "dr_status res = Queued"
    by (elim exE conjE) (rule that, assumption+, simp_all add: r(2) split: if_splits)
  with r show ?thesis by (intro bexI[of _ row]) simp_all
qed

text \<open>
  A refused \<open>delegate\<close> leaves no task behind: with no other thread writing tasks, the task
  table is what it was, whichever check or statement refused the request.
\<close>

theorem refused_delegate_inserts_nothing:
  assumes "run_state (delegate env mg req) d = (Inl e, d')" "\<And>l x. tasks (en_between env l x) = tasks x"
  shows "tasks d' = tasks d"
  using assms by (rule delegate_error_inserts_nothing)

theorem refused_delegate_inserts_nothing_witness:
  "\<exists>d'. run_state (delegate (quiet_env 5) sample_manager (sample_request ''nobody'')) sample_store
     = (Inl (NotFound ''nobody''), d') \<and> tasks d' = tasks sample_store"
proof -
  obtain d' where r: "run_state (delegate (quiet_env 5) sample_manager (sample_request ''nobody'')) sample_store
     = (Inl (NotFound ''nobody''), d')"
    by (simp add: sample_run)
  from refused_delegate_inserts_nothing[OF r] r show ?thesis by simp
qed

end
