(* ===== verification/Manager_Execute.thy ===== *)
theory Manager_Execute
  imports Manager_Delegate
begin

text \<open>
  Running a task: the executor interface and the mock executors of \<^verbatim>\<open>mock_executor.rs\<close>, and
  \<open>execute_task\<close> and \<open>execute_and_persist\<close> of \<^verbatim>\<open>manager.rs\<close> with their database sections, the
  two-phase session handshake and the re-queue of a task that met the hot-session limit.
\<close>

section \<open>The executor\<close>

record executor_input =
  xi_task_id :: string
  xi_subagent_id :: string
  xi_subagent_name :: string
  xi_cwd :: string
  xi_profile :: string
  xi_model :: string
  xi_prompt :: string
  xi_prompt_artifact_ref :: "string option"
  xi_timeout_seconds :: "64 word option"
  xi_tools :: "string list"
  xi_memory :: memory_snapshot
  xi_context :: compact_context
  xi_write_access :: bool
  xi_provider_id :: string
  xi_provider_kind :: provider_kind
  xi_provider_base_url :: string
  xi_provider_api_key :: string
  xi_model_reasoning :: bool
  xi_model_context_window :: int
  xi_model_max_tokens :: int
  xi_model_display_name :: "string option"

record executor_output =
  xo_adapter_session_id :: "string option"
  xo_session_reused :: bool
  xo_status :: task_status
  xo_summary :: string
  xo_usage :: task_usage
  xo_memory_update :: memory_update
  xo_error_kind :: "task_error_kind option"

text \<open>An \<open>anyhow\<close> error: one that downcasts to \<open>SubagentError\<close>, or any other.\<close>

datatype exec_error = Typed subagent_error | Untyped string

text \<open>\<open>TaskExecutor\<close>: a session call answers \<open>Some message\<close> when it fails.\<close>

record executor =
  ex_execute :: "executor_input \<Rightarrow> exec_error + executor_output"
  ex_activate_session :: "string \<Rightarrow> string \<Rightarrow> string option"
  ex_close_session :: "string \<Rightarrow> string \<Rightarrow> string option"

definition mock_executor :: executor where
  "mock_executor =
     \<lparr>ex_execute = (\<lambda>input.
        let summary = ''[mock] no sidecar wired yet; prompt was: '' @ xi_prompt input
        in Inr \<lparr>xo_adapter_session_id = None, xo_session_reused = False, xo_status = Completed,
                xo_summary = summary,
                xo_usage = task_usage_default\<lparr>tu_model := Some (xi_model input),
                  tu_provider := Some ''mock'', tu_input_tokens := Some (int (length (xi_prompt input))),
                  tu_output_tokens := Some (int (length summary))\<rparr>,
                xo_memory_update = memory_update_default, xo_error_kind = None\<rparr>),
      ex_activate_session = (\<lambda>_ _. None), ex_close_session = (\<lambda>_ _. None)\<rparr>"

definition failing_executor :: "string \<Rightarrow> executor" where
  "failing_executor reason =
     \<lparr>ex_execute = (\<lambda>_. Inl (Typed (SidecarSpawn
        (''sidecar was enabled but failed to initialize: '' @ reason)))),
      ex_activate_session = (\<lambda>_ _. None), ex_close_session = (\<lambda>_ _. None)\<rparr>"

text \<open>The session calls a run makes, for the properties of the handshake.\<close>

datatype session_call = Activate string string | Close string string

section \<open>Setup\<close>

definition cancelled_reply :: "manager \<Rightarrow> task_row \<Rightarrow> logical_subagent \<Rightarrow> string option \<Rightarrow> delegate_result" where
  "cancelled_reply mg task subagent mdl =
     \<lparr>dr_task_id = t_id task, dr_subagent_id = s_id subagent, dr_subagent_name = s_name subagent,
      dr_adapter = mg_adapter mg, dr_adapter_session_id = None, dr_session_reused = False,
      dr_status = Cancelled, dr_profile = t_profile task, dr_model = mdl,
      dr_summary = Some ''cancelled by user'', dr_usage = task_usage_default, dr_created = False,
      dr_queue_reason = None\<rparr>"

definition profile_budget :: "manager \<Rightarrow> profile_config option \<Rightarrow> nat" where
  "profile_budget mg profile_cfg =
     (case profile_cfg of
        None \<Rightarrow> cx_default_budget_tokens (st_context (mg_settings mg))
      | Some p \<Rightarrow> pf_context_budget_tokens p)"

text \<open>What the setup section hands on: the input, the memory row, the count, the profile.\<close>

type_synonym prepared = "executor_input \<times> memory_row \<times> nat \<times> profile_config option"

definition prepare_input ::
    "env \<Rightarrow> manager \<Rightarrow> task_row \<Rightarrow> logical_subagent \<Rightarrow> string \<Rightarrow> provider \<Rightarrow> model \<Rightarrow> prepared fallible" where
  "prepare_input env mg task subagent effective_model_id prov md =
     (let sid = s_id subagent; cfg = st_context (mg_settings mg)
      in try_bind (query env C_Get_Memory (get_memory sid)) (\<lambda>mem.
         let memory_row = unwrap_or (new_empty_memory (en_now env C_Get_Memory) sid) mem
         in try_bind (query env C_List_Tasks (list_tasks sid (int (cx_recent_tasks_limit cfg)))) (\<lambda>recent_tasks.
         try_bind (query env C_Count_Since
             (count_tasks_since sid (unwrap_or 0 (m_last_compacted_at_ms memory_row)))) (\<lambda>tasks_since.
         let profile_cfg = map_of (st_profiles (mg_settings mg)) (t_profile task);
             budget = profile_budget mg profile_cfg;
             tools = (case profile_cfg of None \<Rightarrow> [] | Some p \<Rightarrow> pf_tools p);
             write_access = (case profile_cfg of None \<Rightarrow> False | Some p \<Rightarrow> pf_write_access p)
         in try_bind (query env C_Get_Sub_Row (get_logical_subagent sid)) (\<lambda>sub_row.
         case sub_row of
           None \<Rightarrow> raise (NotFound sid)
         | Some row \<Rightarrow>
             (let prompt = unwrap_or [] (t_prompt task);
                  (compact_ctx, snapshot) =
                    build_context (mg_text mg) cfg row memory_row recent_tasks prompt budget;
                  input = \<lparr>xi_task_id = t_id task, xi_subagent_id = sid,
                    xi_subagent_name = s_name subagent, xi_cwd = s_repo_path subagent,
                    xi_profile = t_profile task, xi_model = effective_model_id, xi_prompt = prompt,
                    xi_prompt_artifact_ref = t_prompt_artifact_ref task,
                    xi_timeout_seconds = map_option word_of_int (t_timeout_seconds task),
                    xi_tools = tools, xi_memory = snapshot, xi_context = compact_ctx,
                    xi_write_access = write_access, xi_provider_id = p_id prov,
                    xi_provider_kind = p_provider_kind prov, xi_provider_base_url = p_base_url prov,
                    xi_provider_api_key = unwrap_or [] (p_api_key prov),
                    xi_model_reasoning = md_reasoning md,
                    xi_model_context_window = the (md_context_window md),
                    xi_model_max_tokens = the (md_max_tokens md),
                    xi_model_display_name = md_display_name md\<rparr>
              in succeed (input, memory_row, tasks_since, profile_cfg)))))))"

section \<open>Persisting a result\<close>

definition usage_row_of ::
    "env \<Rightarrow> manager \<Rightarrow> task_row \<Rightarrow> logical_subagent \<Rightarrow> task_usage \<Rightarrow> int \<Rightarrow> usage_row" where
  "usage_row_of env mg task subagent usage duration_ms =
     \<lparr>u_id = ''usage_'' @ t_id task, u_task_id = t_id task, u_subagent_id = s_id subagent,
      u_source_usage_event_id = None, u_harness = mg_adapter mg, u_provider = tu_provider usage,
      u_model = tu_model usage, u_input_tokens = tu_input_tokens usage,
      u_output_tokens = tu_output_tokens usage, u_cache_read_tokens = tu_cache_read_tokens usage,
      u_cache_write_tokens = tu_cache_write_tokens usage, u_total_cost_usd = tu_cost_usd usage,
      u_duration_ms = Some duration_ms, u_created_at_ms = en_now env C_Usage\<rparr>"

definition set_guarded ::
    "env \<Rightarrow> call_site \<Rightarrow> string \<Rightarrow> string \<Rightarrow> string option \<Rightarrow> string option \<Rightarrow> bool fallible" where
  "set_guarded env c i st result_summary err =
     exec_val env c (set_task_status_if_not_cancelled (en_now env c) i st result_summary err)"

definition set_error_kind :: "env \<Rightarrow> call_site \<Rightarrow> string \<Rightarrow> task_error_kind option \<Rightarrow> unit step" where
  "set_error_kind env c i kind =
     (case kind of
        None \<Rightarrow> State_Monad.return ()
      | Some k \<Rightarrow> ignore (exec env c (\<lambda>d. Inr (set_task_error_kind i (Some (task_error_kind_str k)) d))))"

text \<open>Phase 1: status, error kind, usage, memory. The value is the new memory row.\<close>

definition persist_result ::
    "env \<Rightarrow> manager \<Rightarrow> task_row \<Rightarrow> logical_subagent \<Rightarrow> prepared \<Rightarrow> executor_output \<Rightarrow> int \<Rightarrow>
     memory_row fallible" where
  "persist_result env mg task subagent su out duration_ms =
     (case su of (_, memory_row, tasks_since, profile_cfg) \<Rightarrow>
        (let cfg = st_context (mg_settings mg)
         in try_bind (set_guarded env C_Result_Status (t_id task) (task_status_str (xo_status out))
                        (Some (xo_summary out)) None) (\<lambda>_.
            State_Monad.bind (set_error_kind env C_Error_Kind (t_id task) (xo_error_kind out)) (\<lambda>_.
            try_bind (query env C_Recent_Tasks
                (list_tasks (s_id subagent) (int (cx_recent_tasks_limit cfg)))) (\<lambda>recent_tasks.
            try_bind (exec env C_Usage (insert_usage_record
                (usage_row_of env mg task subagent (xo_usage out) duration_ms))) (\<lambda>_.
            let updated_mem = update_memory (mg_text mg) cfg (en_now env C_Recent_Tasks)
                  (en_now env C_Upsert_Memory) memory_row (xo_memory_update out) recent_tasks
                  tasks_since (t_id task) (profile_budget mg profile_cfg) (s_repo_path subagent)
            in try_bind (exec env C_Upsert_Memory (upsert_memory updated_mem)) (\<lambda>_.
               succeed updated_mem)))))))"

text \<open>Phase 2: the hot binding, or the warm/cold status. Errors are captured, not propagated.\<close>

record persist_outcome =
  po_error :: "subagent_error option"
  po_committed_last_used_at_ms :: "int option"

definition hot_binding_row :: "env \<Rightarrow> manager \<Rightarrow> logical_subagent \<Rightarrow> string \<Rightarrow> int \<Rightarrow> binding_row" where
  "hot_binding_row env mg subagent session now_ms =
     \<lparr>b_id = en_uuid env C_Commit_Hot, b_subagent_id = s_id subagent, b_harness = mg_adapter mg,
      b_adapter_session_id = Some session, b_adapter_process_id = None, b_is_hot = 1,
      b_status = ''hot'', b_created_at_ms = now_ms, b_last_used_at_ms = Some now_ms,
      b_closed_at_ms = None, b_detail_json = None\<rparr>"

definition persist_section ::
    "env \<Rightarrow> manager \<Rightarrow> task_row \<Rightarrow> logical_subagent \<Rightarrow> prepared \<Rightarrow> executor_output \<Rightarrow> int \<Rightarrow>
     string option \<Rightarrow> persist_outcome step" where
  "persist_section env mg task subagent su out duration_ms hot_sid =
     State_Monad.bind (persist_result env mg task subagent su out duration_ms) (\<lambda>persist.
     case persist of
       Inl e \<Rightarrow> State_Monad.return \<lparr>po_error = Some e, po_committed_last_used_at_ms = None\<rparr>
     | Inr updated_mem \<Rightarrow>
         (case hot_sid of
            Some session \<Rightarrow>
              (let now_ms = en_now env C_Commit_Hot
               in State_Monad.bind
                    (exec env C_Commit_Hot (commit_hot_binding_and_status (en_now env C_Commit_Fail)
                       (hot_binding_row env mg subagent session now_ms) (s_id subagent))) (\<lambda>committed.
                  case committed of
                    Inl store_err \<Rightarrow>
                      State_Monad.bind
                        (ignore (set_guarded env C_Commit_Fail (t_id task) ''failed'' None
                                   (Some (error_to_string store_err)))) (\<lambda>_.
                      State_Monad.return \<lparr>po_error = Some store_err, po_committed_last_used_at_ms = None\<rparr>)
                  | Inr _ \<Rightarrow>
                      State_Monad.return \<lparr>po_error = None, po_committed_last_used_at_ms = Some now_ms\<rparr>))
          | None \<Rightarrow>
              State_Monad.bind
                (set_logical_status env (s_id subagent)
                   (if m_hot_summary updated_mem \<noteq> None then Warm else Cold)) (\<lambda>r.
              State_Monad.return
                \<lparr>po_error = (case r of Inl e \<Rightarrow> Some e | Inr _ \<Rightarrow> None),
                 po_committed_last_used_at_ms = None\<rparr>)))"

section \<open>The two-phase session handshake\<close>

text \<open>
  After a failed activation: roll the binding back unless another run owns it. The value says
  whether to close the pending session.
\<close>

definition activate_rollback ::
    "env \<Rightarrow> manager \<Rightarrow> logical_subagent \<Rightarrow> string \<Rightarrow> int option \<Rightarrow> bool fallible" where
  "activate_rollback env mg subagent session committed =
     try_bind (query env C_Rollback_Read (hot_binding (s_id subagent) (mg_adapter mg))) (\<lambda>binding_opt.
     case binding_opt of
       None \<Rightarrow> succeed True
     | Some binding \<Rightarrow>
         if b_adapter_session_id binding \<noteq> Some session then succeed True
         else if b_last_used_at_ms binding \<noteq> committed then succeed False
         else
           try_bind (exec_val env C_Eviction
               (commit_eviction (en_now env C_Eviction) (en_now env C_Eviction)
                  (binding\<lparr>b_is_hot := 0, b_status := ''closed'',
                           b_closed_at_ms := Some (en_now env C_Rollback_Read)\<rparr>)
                  (s_id subagent) None)) (\<lambda>_.
           succeed True))"

type_synonym 'a run = "((subagent_error + 'a) \<times> session_call list) step"

definition session_lifecycle ::
    "env \<Rightarrow> manager \<Rightarrow> executor \<Rightarrow> logical_subagent \<Rightarrow> string \<Rightarrow> string option \<Rightarrow> persist_outcome \<Rightarrow> unit run" where
  "session_lifecycle env mg ex subagent provider_id hot_sid po =
     (case hot_sid of
        Some session \<Rightarrow>
          (case po_error po of
             Some err \<Rightarrow> State_Monad.return (Inl err, [Close session provider_id])
           | None \<Rightarrow>
               if ex_activate_session ex session provider_id = None
               then State_Monad.return (Inr (), [Activate session provider_id])
               else
                 State_Monad.bind
                   (locked env L_Rollback
                      (activate_rollback env mg subagent session (po_committed_last_used_at_ms po))) (\<lambda>r.
                 case r of
                   Inl e \<Rightarrow> State_Monad.return (Inl e, [Activate session provider_id])
                 | Inr should_close_session \<Rightarrow>
                     State_Monad.return
                       (Inr (), Activate session provider_id
                                # (if should_close_session then [Close session provider_id] else []))))
      | None \<Rightarrow>
          (case po_error po of
             Some err \<Rightarrow> State_Monad.return (Inl err, [])
           | None \<Rightarrow> State_Monad.return (Inr (), [])))"

section \<open>execute_task\<close>

definition final_status :: "env \<Rightarrow> task_row \<Rightarrow> executor_output \<Rightarrow> task_status step" where
  "final_status env task out =
     State_Monad.bind (query env C_Final_Read (get_task (t_id task))) (\<lambda>r.
     State_Monad.return
       (case r of
          Inr (Some t) \<Rightarrow> if t_status t = ''cancelled'' then Cancelled else xo_status out
        | _ \<Rightarrow> xo_status out))"

definition exec_failure :: "exec_error \<Rightarrow> subagent_error" where
  "exec_failure e = (case e of Typed se \<Rightarrow> se | Untyped msg \<Rightarrow> Store (Other_Error msg))"

definition failure_section :: "env \<Rightarrow> task_row \<Rightarrow> subagent_error \<Rightarrow> unit step" where
  "failure_section env task e =
     State_Monad.bind (ignore (set_guarded env C_Fail_Status (t_id task) ''failed'' None None)) (\<lambda>_.
     set_error_kind env C_Error_Kind (t_id task) (subagent_error_to_task_error_kind e))"

text \<open>\<open>out.adapter_session_id\<close>, where an empty id is no id.\<close>

definition hot_session_id :: "executor_output \<Rightarrow> string option" where
  "hot_session_id out =
     (case xo_adapter_session_id out of None \<Rightarrow> None | Some s \<Rightarrow> if s = [] then None else Some s)"

text \<open>
  \<open>complete_task\<close> is the part of \<open>execute_task\<close> after the executor returned a result; \<open>started\<close>
  is the clock read before the setup section.
\<close>

definition complete_task ::
    "env \<Rightarrow> manager \<Rightarrow> executor \<Rightarrow> task_row \<Rightarrow> logical_subagent \<Rightarrow> provider \<Rightarrow> prepared \<Rightarrow> int \<Rightarrow>
     executor_output \<Rightarrow> delegate_result run" where
  "complete_task env mg ex task subagent prov su started out =
     (let duration_ms = i64_saturating_sub (en_now env C_Result_Status) started;
          hot_sid = hot_session_id out;
          mdl = Some (unwrap_or (s_bound_model_id subagent) (t_model_override task))
      in State_Monad.bind (locked env L_Persist
             (persist_section env mg task subagent su out duration_ms hot_sid)) (\<lambda>po.
         State_Monad.bind (session_lifecycle env mg ex subagent (p_id prov) hot_sid po) (\<lambda>(r, calls).
         case r of
           Inl e \<Rightarrow> State_Monad.return (Inl e, calls)
         | Inr _ \<Rightarrow>
             State_Monad.bind (locked env L_Final (final_status env task out)) (\<lambda>st.
             State_Monad.return
               (Inr \<lparr>dr_task_id = t_id task, dr_subagent_id = s_id subagent,
                     dr_subagent_name = s_name subagent, dr_adapter = mg_adapter mg,
                     dr_adapter_session_id = xo_adapter_session_id out,
                     dr_session_reused = xo_session_reused out, dr_status = st,
                     dr_profile = t_profile task, dr_model = mdl, dr_summary = Some (xo_summary out),
                     dr_usage = xo_usage out, dr_created = False, dr_queue_reason = None\<rparr>, calls)))))"

definition execute_task ::
    "env \<Rightarrow> manager \<Rightarrow> executor \<Rightarrow> bool \<Rightarrow> task_row \<Rightarrow> logical_subagent \<Rightarrow> delegate_result run" where
  "execute_task env mg ex cancel_signal task subagent =
     (let effective_model_id = unwrap_or (s_bound_model_id subagent) (t_model_override task);
          mdl = Some effective_model_id
      in State_Monad.bind (locked env L_Precheck (query env C_Get_Task (get_task (t_id task)))) (\<lambda>pre.
         if (case pre of Inr (Some t) \<Rightarrow> t_status t = ''cancelled'' | _ \<Rightarrow> False)
         then State_Monad.return (Inr (cancelled_reply mg task subagent mdl), [])
         else
         State_Monad.bind (locked env L_Setup_Validate
             (validate_bound_resources env subagent effective_model_id)) (\<lambda>validated.
         case validated of
           Inl e \<Rightarrow> State_Monad.return (Inl e, [])
         | Inr (prov, md) \<Rightarrow>
         State_Monad.bind (locked env L_Setup
             (prepare_input env mg task subagent effective_model_id prov md)) (\<lambda>su.
         case su of
           Inl e \<Rightarrow> State_Monad.return (Inl e, [])
         | Inr s \<Rightarrow>
             if cancel_signal
             then State_Monad.return (Inr (cancelled_reply mg task subagent mdl), [])
             else
               (case ex_execute ex (fst s) of
                  Inl err \<Rightarrow>
                    (let e = exec_failure err
                     in if is_hot_session_limit e then State_Monad.return (Inl e, [])
                        else State_Monad.bind (locked env L_Failure (failure_section env task e)) (\<lambda>_.
                             State_Monad.return (Inl e, [])))
                | Inr out \<Rightarrow>
                    complete_task env mg ex task subagent prov s (en_now env C_Get_Memory) out)))))"

section \<open>execute_and_persist\<close>

text \<open>The error half: re-queue within the deadline, or fail.\<close>

definition outcome_section :: "env \<Rightarrow> task_row \<Rightarrow> subagent_error \<Rightarrow> unit step" where
  "outcome_section env task e =
     (if is_hot_session_limit e then
        (let age_ms = i64_saturating_sub (en_now env C_Outcome_Status) (t_created_at_ms task)
         in if age_ms < HOT_SESSION_RETRY_DEADLINE_MS then
              State_Monad.bind (ignore (set_guarded env C_Requeue (t_id task) ''queued'' None None)) (\<lambda>_.
              ignore (exec env C_Queue_Reason
                (\<lambda>d. Inr (set_task_queue_reason (t_id task) (Some (queue_reason_str QHotSessionLimit)) d))))
            else
              State_Monad.bind (ignore (set_guarded env C_Deadline_Status (t_id task) ''failed'' None
                                          (Some (error_to_string e)))) (\<lambda>_.
              set_error_kind env C_Deadline_Kind (t_id task) (Some KHotSessionLimit)))
      else
        ignore (set_guarded env C_Outcome_Status (t_id task) ''failed'' None (Some (error_to_string e))))"

text \<open>The value: the result the completion hook is called with, if any, and the session calls.\<close>

definition execute_and_persist ::
    "env \<Rightarrow> manager \<Rightarrow> executor \<Rightarrow> bool \<Rightarrow> task_row \<Rightarrow> logical_subagent \<Rightarrow>
     (delegate_result option \<times> session_call list) step" where
  "execute_and_persist env mg ex cancel_signal task subagent =
     State_Monad.bind (execute_task env mg ex cancel_signal task subagent) (\<lambda>(r, calls).
     case r of
       Inr result \<Rightarrow> State_Monad.return (Some result, calls)
     | Inl e \<Rightarrow>
         State_Monad.bind (locked env L_Outcome (outcome_section env task e)) (\<lambda>_.
         State_Monad.return (None, calls)))"

section \<open>Lemmas\<close>

text \<open>
  What the manager asks of an executor: it does not report the task as still running, which the
  guarded write would store unchecked.
\<close>

definition executor_ok :: "executor \<Rightarrow> bool" where
  "executor_ok ex \<longleftrightarrow> (\<forall>input out. ex_execute ex input = Inr out \<longrightarrow> xo_status out \<noteq> Running)"

lemma executor_ok_mock [simp]: "executor_ok mock_executor"
  by (simp add: executor_ok_def mock_executor_def Let_def)

lemma executor_ok_failing [simp]: "executor_ok (failing_executor r)"
  by (simp add: executor_ok_def failing_executor_def)

lemma set_guarded_keeps [keeps_intros]: "st \<noteq> ''running'' \<Longrightarrow> keeps db_ok (set_guarded env c i st rs er)"
  unfolding set_guarded_def by (intro keeps_intros) (auto intro: db_ok_intros)

lemma set_error_kind_keeps [keeps_intros]: "keeps db_ok (set_error_kind env c i k)"
  unfolding set_error_kind_def by (intro keeps_intros) (auto intro: db_ok_intros)

lemma prepare_input_keeps [keeps_intros]: "keeps I (prepare_input env mg task sub m prov md)"
  unfolding prepare_input_def Let_def by (intro keeps_intros)

lemma task_status_str_running [simp]: "task_status_str st = ''running'' \<longleftrightarrow> st = Running"
  by (cases st) simp_all

lemma persist_result_keeps [keeps_intros]:
  "xo_status out \<noteq> Running \<Longrightarrow> keeps db_ok (persist_result env mg task sub su out dur)"
  unfolding persist_result_def Let_def
  by (cases su) (simp, intro keeps_intros; auto intro: db_ok_intros)

lemma persist_section_keeps [keeps_intros]:
  "xo_status out \<noteq> Running \<Longrightarrow> keeps db_ok (persist_section env mg task sub su out dur sid)"
  unfolding persist_section_def Let_def by (intro keeps_intros) (auto intro: db_ok_intros)

lemma activate_rollback_keeps [keeps_intros]: "keeps db_ok (activate_rollback env mg sub sid c)"
  unfolding activate_rollback_def by (intro keeps_intros) (auto intro: db_ok_intros)

lemma session_lifecycle_keeps [keeps_intros]:
  "rely_ok env \<Longrightarrow> keeps db_ok (session_lifecycle env mg ex sub pid sid po)"
  unfolding session_lifecycle_def by (intro keeps_intros)

lemma final_status_keeps [keeps_intros]: "keeps I (final_status env task out)"
  unfolding final_status_def by (intro keeps_intros)

lemma failure_section_keeps [keeps_intros]: "keeps db_ok (failure_section env task e)"
  unfolding failure_section_def by (intro keeps_intros) simp

lemma complete_task_keeps [keeps_intros]:
  "rely_ok env \<Longrightarrow> xo_status out \<noteq> Running \<Longrightarrow> keeps db_ok (complete_task env mg ex task sub prov su st out)"
  unfolding complete_task_def Let_def by (intro keeps_intros)

lemma outcome_section_keeps [keeps_intros]: "keeps db_ok (outcome_section env task e)"
  unfolding outcome_section_def Let_def by (intro keeps_intros) (auto intro: db_ok_intros)

lemma execute_task_keeps [keeps_intros]:
  "rely_ok env \<Longrightarrow> executor_ok ex \<Longrightarrow> keeps db_ok (execute_task env mg ex cs task sub)"
  unfolding execute_task_def Let_def
  by (intro keeps_intros) (auto simp: executor_ok_def)

lemma execute_and_persist_keeps [keeps_intros]:
  "rely_ok env \<Longrightarrow> executor_ok ex \<Longrightarrow> keeps db_ok (execute_and_persist env mg ex cs task sub)"
  unfolding execute_and_persist_def by (intro keeps_intros)

text \<open>The handshake: a session the executor opened is activated or closed on every path.\<close>

lemma complete_task_calls:
  assumes "hot_session_id out = Some session"
    and "run_state (complete_task env mg ex task sub prov su st out) d = ((r, calls), d')"
  shows "calls \<in> {[Close session (p_id prov)], [Activate session (p_id prov)],
                  [Activate session (p_id prov), Close session (p_id prov)]}
     \<and> (calls = [Close session (p_id prov)] \<longrightarrow> (\<exists>e. r = Inl e))
     \<and> (ex_activate_session ex session (p_id prov) = None \<longrightarrow> length calls = 1)"
  using assms
  by (auto simp: complete_task_def session_lifecycle_def Let_def split: prod.splits option.splits
      sum.splits if_splits)

lemma complete_task_no_session:
  assumes "hot_session_id out = None"
    and "run_state (complete_task env mg ex task sub prov su st out) d = ((r, calls), d')"
  shows "calls = []"
  using assms
  by (auto simp: complete_task_def session_lifecycle_def Let_def split: prod.splits option.splits sum.splits)

text \<open>What \<open>execute_task\<close> returns agrees with a cancel it can see.\<close>

lemma complete_task_cancelled:
  assumes "run_state (complete_task env mg ex task sub prov su st out) d = ((Inr res, calls), d')"
    and "\<not> en_fault env C_Final_Read" "get_task (t_id task) d' = Some t" "t_status t = ''cancelled''"
  shows "dr_status res = Cancelled"
  using assms
  by (auto simp: complete_task_def final_status_def Let_def split: prod.splits option.splits
      sum.splits if_splits)

lemma execute_task_cancelled:
  assumes "run_state (execute_task env mg ex cs task sub) d = ((Inr res, calls), d')"
    and "\<not> en_fault env C_Final_Read" "get_task (t_id task) d' = Some t" "t_status t = ''cancelled''"
  shows "dr_status res = Cancelled"
proof -
  have "dr_status (cancelled_reply mg task sub m) = Cancelled" for m by (simp add: cancelled_reply_def)
  with assms complete_task_cancelled[OF _ assms(2-4)] show ?thesis
    by (auto simp: execute_task_def Let_def split: prod.splits option.splits sum.splits if_splits)
qed

text \<open>An environment in which no store call fails and no other thread runs.\<close>

definition calm_env :: "env \<Rightarrow> bool" where
  "calm_env env \<longleftrightarrow> (\<forall>c. \<not> en_fault env c) \<and> (\<forall>l d. en_between env l d = d)"

lemma calm_envD [simp]:
  "calm_env env \<Longrightarrow> \<not> en_fault env c" "calm_env env \<Longrightarrow> en_between env l d = d"
  by (simp_all add: calm_env_def)

lemma calm_env_quiet [simp]: "calm_env (quiet_env t)"
  by (simp add: calm_env_def)

lemma get_task_modify:
  assumes "unique_task_ids d" "get_task i d = Some t" "t_id (f t) = t_id t"
  shows "get_task i (d\<lparr>tasks := upd_where (\<lambda>u. u = t) f (tasks d)\<rparr>) = Some (f t)"
    "unique_task_ids (d\<lparr>tasks := upd_where (\<lambda>u. u = t) f (tasks d)\<rparr>)"
  using assms get_task_upd[OF assms(1), of "\<lambda>u. u = t" f i] unique_task_ids_upd[OF assms(1), of "\<lambda>u. u = t" f]
  by simp_all

text \<open>A guarded write on a live row, read back.\<close>

lemma set_guarded_live:
  assumes "calm_env env" "unique_task_ids d" "get_task i d = Some t" "t_status t \<noteq> ''cancelled''"
    "task_status_allowed st"
  obtains d' where "run_state (set_guarded env c i st rs er) d = (Inr True, d')"
    "get_task i d' = Some (write_status (en_now env c) st rs er t)" "unique_task_ids d'"
proof
  let ?d' = "d\<lparr>tasks := upd_where (\<lambda>u. u = t) (write_status (en_now env c) st rs er) (tasks d)\<rparr>"
  show "run_state (set_guarded env c i st rs er) d = (Inr True, ?d')"
    using assms by (simp add: set_guarded_def set_if_not_cancelled_eq)
  show "get_task i ?d' = Some (write_status (en_now env c) st rs er t)" "unique_task_ids ?d'"
    using get_task_modify[OF assms(2,3)] by simp_all
qed

lemma set_error_kind_get:
  assumes "calm_env env" "unique_task_ids d" "get_task i d = Some t"
  shows "get_task i (snd (run_state (set_error_kind env c i k) d)) =
     Some (case k of None \<Rightarrow> t | Some x \<Rightarrow> t\<lparr>t_error_kind := Some (task_error_kind_str x)\<rparr>)"
proof -
  have "t_id t = i" using get_task_in[OF assms(3)] by simp
  then show ?thesis
    using assms get_task_upd[OF assms(2), of "\<lambda>t. t_id t = i"]
    by (cases k) (simp_all add: set_error_kind_def set_task_error_kind_def)
qed

text \<open>
  The re-queue: within the deadline a task that met the hot-session limit is queued again, not
  started, with the reason; past it, it has failed with the classification.
\<close>

lemma outcome_requeues:
  assumes "calm_env env" "unique_task_ids d" "get_task (t_id task) d = Some t" "t_status t \<noteq> ''cancelled''"
    and "i64_saturating_sub (en_now env C_Outcome_Status) (t_created_at_ms task) < HOT_SESSION_RETRY_DEADLINE_MS"
  shows "get_task (t_id task) (snd (run_state (outcome_section env task (HotSessionLimit c)) d)) =
    Some ((write_status (en_now env C_Requeue) ''queued'' None None t)\<lparr>t_queue_reason := Some ''hot_session_limit''\<rparr>)"
proof -
  obtain d1 where d1: "run_state (set_guarded env C_Requeue (t_id task) ''queued'' None None) d = (Inr True, d1)"
    "get_task (t_id task) d1 = Some (write_status (en_now env C_Requeue) ''queued'' None None t)" "unique_task_ids d1"
    by (rule set_guarded_live[OF assms(1-4) status_allowed_lits(1)])
  have "t_id t = t_id task" using get_task_in[OF assms(3)] by simp
  with d1 assms(1,5) get_task_upd[OF d1(3), of "\<lambda>t. t_id t = t_id task"] show ?thesis
    by (simp add: outcome_section_def Let_def set_task_queue_reason_def)
qed

lemma outcome_deadline:
  assumes "calm_env env" "unique_task_ids d" "get_task (t_id task) d = Some t" "t_status t \<noteq> ''cancelled''"
    and "HOT_SESSION_RETRY_DEADLINE_MS \<le> i64_saturating_sub (en_now env C_Outcome_Status) (t_created_at_ms task)"
  shows "get_task (t_id task) (snd (run_state (outcome_section env task (HotSessionLimit c)) d)) =
    Some ((write_status (en_now env C_Deadline_Status) ''failed'' None
             (Some (''hot session limit reached, candidate: '' @ c)) t)\<lparr>t_error_kind := Some ''hot_session_limit''\<rparr>)"
proof -
  obtain d1 where d1: "run_state (set_guarded env C_Deadline_Status (t_id task) ''failed'' None
      (Some (error_to_string (HotSessionLimit c)))) d = (Inr True, d1)"
    "get_task (t_id task) d1 = Some (write_status (en_now env C_Deadline_Status) ''failed'' None
        (Some (error_to_string (HotSessionLimit c))) t)" "unique_task_ids d1"
    by (rule set_guarded_live[OF assms(1-4) status_allowed_lits(4)])
  with assms(5) set_error_kind_get[OF assms(1) d1(3,2), of C_Deadline_Kind "Some KHotSessionLimit"]
  show ?thesis by (simp add: outcome_section_def Let_def)
qed

text \<open>A cancelled row keeps its status through either half; only its queue reason may change.\<close>

lemma outcome_keeps_cancelled:
  assumes "calm_env env" "unique_task_ids d" "get_task (t_id task) d = Some t" "t_status t = ''cancelled''"
  shows "\<exists>t'. get_task (t_id task) (snd (run_state (outcome_section env task e) d)) = Some t'
     \<and> t_status t' = ''cancelled'' \<and> t_error t' = t_error t \<and> t_completed_at_ms t' = t_completed_at_ms t"
proof -
  have g: "run_state (set_guarded env c (t_id task) st rs er) d = (Inr False, d)" for c st rs er
    using assms by (simp add: set_guarded_def set_if_not_cancelled_eq)
  have i: "t_id t = t_id task" using get_task_in[OF assms(3)] by simp
  show ?thesis
    using assms g i set_error_kind_get[OF assms(1-3), of C_Deadline_Kind "Some KHotSessionLimit"]
      get_task_upd[OF assms(2), of "\<lambda>t. t_id t = t_id task"]
    by (auto simp: outcome_section_def Let_def set_task_queue_reason_def)
qed

text \<open>Any other failure: the row has failed with the message.\<close>

lemma outcome_fails:
  assumes "calm_env env" "unique_task_ids d" "get_task (t_id task) d = Some t" "t_status t \<noteq> ''cancelled''"
    and "\<not> is_hot_session_limit e"
  shows "get_task (t_id task) (snd (run_state (outcome_section env task e) d)) =
    Some (write_status (en_now env C_Outcome_Status) ''failed'' None (Some (error_to_string e)) t)"
proof -
  obtain d1 where "run_state (set_guarded env C_Outcome_Status (t_id task) ''failed'' None
      (Some (error_to_string e))) d = (Inr True, d1)"
    "get_task (t_id task) d1 = Some (write_status (en_now env C_Outcome_Status) ''failed'' None
        (Some (error_to_string e)) t)"
    by (rule set_guarded_live[OF assms(1-4) status_allowed_lits(4)])
  with assms(5) show ?thesis by (simp add: outcome_section_def)
qed

section \<open>Properties\<close>

lemma guarded_calm:
  assumes "calm_env env" "unique_task_ids d" "get_task i d = Some t" "task_status_allowed st"
  shows "get_task i (snd (run_state (set_guarded env c i st rs er) d)) =
      Some (if t_status t = ''cancelled'' then t else write_status (en_now env c) st rs er t)"
    "unique_task_ids (snd (run_state (set_guarded env c i st rs er) d))"
proof -
  have "get_task i (snd (run_state (set_guarded env c i st rs er) d)) =
      Some (if t_status t = ''cancelled'' then t else write_status (en_now env c) st rs er t)
      \<and> unique_task_ids (snd (run_state (set_guarded env c i st rs er) d))"
  proof (cases "t_status t = ''cancelled''")
    case True
    with assms show ?thesis by (simp add: set_guarded_def set_if_not_cancelled_eq)
  next
    case False
    obtain d' where "run_state (set_guarded env c i st rs er) d = (Inr True, d')"
      "get_task i d' = Some (write_status (en_now env c) st rs er t)" "unique_task_ids d'"
      by (rule set_guarded_live[OF assms(1-3) False assms(4)])
    with False show ?thesis by simp
  qed
  then show "get_task i (snd (run_state (set_guarded env c i st rs er) d)) =
      Some (if t_status t = ''cancelled'' then t else write_status (en_now env c) st rs er t)"
    "unique_task_ids (snd (run_state (set_guarded env c i st rs er) d))" by simp_all
qed

lemma sample_task_fields [simp]:
  "t_id (sample_task i sid st c started) = i" "t_subagent_id (sample_task i sid st c started) = sid"
  "t_status (sample_task i sid st c started) = st" "t_created_at_ms (sample_task i sid st c started) = c"
  by (simp_all add: sample_task_def)

lemma sample_unique: "unique_task_ids sample_db"
  by (simp add: unique_task_ids_def sample_db_def)

text \<open>
  What the error half of a run leaves in the task's row, on every branch: a capacity error
  within the retry deadline queues the task again, unstarted, with the reason; past the deadline it
  fails it with the classification; any other error fails it with its message; and a row that was
  cancelled in the meantime keeps its status, error and completion time, though the capacity
  branches still write its queue reason or error kind.
\<close>

theorem outcome_table:
  assumes "calm_env env" "unique_task_ids d" "get_task (t_id task) d = Some t"
  shows "get_task (t_id task) (snd (run_state (outcome_section env task e) d)) = Some
    (if is_hot_session_limit e then
       if i64_saturating_sub (en_now env C_Outcome_Status) (t_created_at_ms task) < HOT_SESSION_RETRY_DEADLINE_MS
       then (if t_status t = ''cancelled'' then t
             else write_status (en_now env C_Requeue) ''queued'' None None t)
              \<lparr>t_queue_reason := Some ''hot_session_limit''\<rparr>
       else (if t_status t = ''cancelled'' then t
             else write_status (en_now env C_Deadline_Status) ''failed'' None (Some (error_to_string e)) t)
              \<lparr>t_error_kind := Some ''hot_session_limit''\<rparr>
     else if t_status t = ''cancelled'' then t
          else write_status (en_now env C_Outcome_Status) ''failed'' None (Some (error_to_string e)) t)"
proof -
  have i: "t_id t = t_id task" using get_task_in[OF assms(3)] by simp
  note g = guarded_calm[OF assms]
  show ?thesis
  proof (cases "is_hot_session_limit e")
    case False
    with g(1)[of "''failed''"] show ?thesis by (simp add: outcome_section_def)
  next
    case True
    have q: "get_task (t_id task) (set_task_queue_reason (t_id task) r d1) = map_option (\<lambda>u. u\<lparr>t_queue_reason := r\<rparr>) (get_task (t_id task) d1)"
      if "unique_task_ids d1" for r d1
      using that get_task_upd[OF that, of "\<lambda>u. u = u \<and> t_id u = t_id task" "\<lambda>u. u\<lparr>t_queue_reason := r\<rparr>" "t_id task"]
      by (auto simp: set_task_queue_reason_def map_option_case dest: get_task_in split: option.splits)
    show ?thesis
      using True assms(1) g[of "''queued''"] g[of "''failed''"] q
        set_error_kind_get[OF assms(1), of _ "t_id task" _ C_Deadline_Kind "Some KHotSessionLimit"]
      by (simp add: outcome_section_def Let_def)
  qed
qed

theorem outcome_table_witness:
  "map_option (\<lambda>t. (t_status t, t_started_at_ms t, t_queue_reason t))
      (get_task ''a'' (snd (run_state (outcome_section (quiet_env 7) (sample_task ''a'' ''x'' ''running'' 1 (Some 1))
         (HotSessionLimit ''s'')) sample_db))) = Some (''queued'', None, Some ''hot_session_limit'')"
proof -
  let ?t = "sample_task ''a'' ''x'' ''running'' 1 (Some 1)"
  have "get_task (t_id ?t) sample_db = Some ?t"
    by (simp add: get_task_def sample_db_def sample_task_def)
  from outcome_table[OF calm_env_quiet sample_unique this, where e = "HotSessionLimit ''s''"]
  show ?thesis
    by (simp add: i64_saturating_sub_def i64_min_def i64_max_def HOT_SESSION_RETRY_DEADLINE_MS_def
        write_status_started)
qed

text \<open>
  The two-phase session handshake. When the executor reports no session the run makes no
  session call; when it reports one, the run closes it if persisting failed, else activates it,
  and after a failed activation closes it at most once; a run that ends in an error here did not
  activate, unless the roll-back itself failed.
\<close>

theorem session_handshake:
  "case run_state (complete_task env mg ex task sub prov su st out) d of ((r, calls), d') \<Rightarrow>
     (case hot_session_id out of
        None \<Rightarrow> calls = []
      | Some session \<Rightarrow>
          (if po_error (fst (run_state (locked env L_Persist (persist_section env mg task sub su out
                (i64_saturating_sub (en_now env C_Result_Status) st) (Some session))) d)) \<noteq> None
           then calls = [Close session (p_id prov)] \<and> \<not> is_ok r
           else if ex_activate_session ex session (p_id prov) = None
           then calls = [Activate session (p_id prov)] \<and> is_ok r
           else take 1 calls = [Activate session (p_id prov)]
             \<and> (if is_ok r then drop 1 calls \<in> {[], [Close session (p_id prov)]} else drop 1 calls = [])))"
  by (auto simp: complete_task_def session_lifecycle_def Let_def is_ok_def split: prod.splits option.splits
      sum.splits if_splits)

lemma activate_rollback_cases:
  assumes "run_state (activate_rollback env mg sub session committed) d = (Inr close, d')"
  shows "case hot_binding (s_id sub) (mg_adapter mg) d of
      None \<Rightarrow> close \<and> d' = d
    | Some b \<Rightarrow>
        if b_adapter_session_id b \<noteq> Some session then close \<and> d' = d
        else if b_last_used_at_ms b \<noteq> committed then \<not> close \<and> d' = d
        else close \<and> (\<exists>st. commit_eviction (en_now env C_Eviction) (en_now env C_Eviction)
                  (b\<lparr>b_is_hot := 0, b_status := ''closed'', b_closed_at_ms := Some (en_now env C_Rollback_Read)\<rparr>)
                  (s_id sub) None d = Inr (st, d'))"
  using assms by (auto simp: activate_rollback_def split: option.splits if_splits sum.splits)

text \<open>
  After a failed activation, the hot binding decides: absent or of another session, the pending
  session is closed and nothing is written; of this session but refreshed by another run, the
  session is left alone; of this session and this run, its row is closed, the subagent is warm or
  cold by its hot summary, no task changes, and the session is closed.
\<close>

theorem activation_rollback:
  assumes "run_state (activate_rollback env mg sub session committed) d = (Inr close, d')"
  shows "case hot_binding (s_id sub) (mg_adapter mg) d of
      None \<Rightarrow> close \<and> d' = d
    | Some b \<Rightarrow>
        if b_adapter_session_id b \<noteq> Some session then close \<and> d' = d
        else if b_last_used_at_ms b \<noteq> committed then \<not> close \<and> d' = d
        else close \<and> tasks d' = tasks d
          \<and> (\<exists>c \<in> set (bindings d'). b_id c = b_id b \<and> \<not> is_hot c \<and> b_status c = ''closed'')
          \<and> map l_status (logicals d') = map (\<lambda>l. if l_id l = s_id sub \<and> active l
              then (if has_hot_summary (s_id sub) d' then ''warm'' else ''cold'') else l_status l) (logicals d)"
proof (cases "hot_binding (s_id sub) (mg_adapter mg) d")
  case None
  with activate_rollback_cases[OF assms] show ?thesis by simp
next
  case (Some b)
  show ?thesis
  proof (cases "b_adapter_session_id b = Some session \<and> b_last_used_at_ms b = committed")
    case False
    with Some activate_rollback_cases[OF assms] show ?thesis by (auto split: if_splits)
  next
    case True
    with Some activate_rollback_cases[OF assms] obtain st where "close"
      and ev: "commit_eviction (en_now env C_Eviction) (en_now env C_Eviction)
                  (b\<lparr>b_is_hot := 0, b_status := ''closed'', b_closed_at_ms := Some (en_now env C_Rollback_Read)\<rparr>)
                  (s_id sub) None d = Inr (st, d')" by auto
    with True Some eviction_facts[OF ev] show ?thesis by (auto simp: is_hot_def)
  qed
qed

theorem activation_rollback_witness:
  "\<exists>d'. run_state (activate_rollback (quiet_env 7) sample_manager (row_to_model (sample_logical ''x'' ''one'' ''hot''))
        ''sess'' (Some 1)) sample_store = (Inr True, d')
     \<and> map l_status (logicals d') = [''cold'', ''cold'']"
proof -
  let ?sub = "row_to_model (sample_logical ''x'' ''one'' ''hot'')"
  have h: "hot_binding (s_id ?sub) (mg_adapter sample_manager) sample_store = Some (sample_binding ''bx'' ''x'' 1 ''hot'')"
    by (simp add: hot_binding_def sample_store_def sample_manager_def sample_logical_def sample_binding_def is_hot_def)
  have "\<exists>d'. run_state (activate_rollback (quiet_env 7) sample_manager ?sub ''sess'' (Some 1)) sample_store = (Inr True, d')
      \<and> memories d' = []"
    unfolding activate_rollback_def using h
    by (simp add: commit_eviction_def has_hot_summary_def get_memory_def upsert_binding_def
        put_bindings_def put_logicals_def Let_def sample_store_def sample_logical_def sample_binding_def
        sample_task_def empty_db_def has_logical_def one_hot_def is_hot_def hot_key_def
        overwrite_binding_def touch_logical_def unique_active_names_def active_def name_key_def)
  then obtain d' where r: "run_state (activate_rollback (quiet_env 7) sample_manager ?sub ''sess'' (Some 1)) sample_store
      = (Inr True, d')" and m: "memories d' = []" by blast
  have "\<not> has_hot_summary ''x'' d'" using m by (simp add: has_hot_summary_def get_memory_def)
  with activation_rollback[OF r] h r show ?thesis
    by (simp add: sample_binding_def) (simp add: sample_store_def sample_logical_def active_def)
qed

lemma set_error_kind_unique:
  "unique_task_ids d \<Longrightarrow> unique_task_ids (snd (run_state (set_error_kind env c i k) d))"
  by (cases k) (auto simp: set_error_kind_def set_task_error_kind_def intro: unique_task_ids_upd)

text \<open>A run whose executor fails.\<close>

lemma execute_task_failure:
  assumes "calm_env env" "get_task (t_id task) d = Some t" "t_status t \<noteq> ''cancelled''"
    and "run_state (validate_bound_resources env sub (unwrap_or (s_bound_model_id sub) (t_model_override task))) d
           = (Inr (prov, md), d)"
    and "run_state (prepare_input env mg task sub (unwrap_or (s_bound_model_id sub) (t_model_override task)) prov md) d
           = (Inr s, d)"
    and "ex_execute ex (fst s) = Inl err"
  shows "run_state (execute_task env mg ex False task sub) d =
     (let e = exec_failure err
      in if is_hot_session_limit e then ((Inl e, []), d)
         else ((Inl e, []), snd (run_state (failure_section env task e) d)))"
  using assms by (simp add: execute_task_def Let_def split: prod.splits)

text \<open>
  A task whose executor fails, with nothing else running and no store failure: no completion is
  reported, no session call is made, and unless the failure is the capacity error the row is failed
  with the error's text and carries its classification where it has one.
\<close>

theorem executor_failure_recorded:
  assumes "calm_env env" "unique_task_ids d" "get_task (t_id task) d = Some t" "t_status t \<noteq> ''cancelled''"
    and "run_state (validate_bound_resources env sub (unwrap_or (s_bound_model_id sub) (t_model_override task))) d
           = (Inr (prov, md), d)"
    and "run_state (prepare_input env mg task sub (unwrap_or (s_bound_model_id sub) (t_model_override task)) prov md) d
           = (Inr s, d)"
    and "ex_execute ex (fst s) = Inl err" "\<not> is_hot_session_limit (exec_failure err)"
  shows "case run_state (execute_and_persist env mg ex False task sub) d of ((res, calls), d') \<Rightarrow>
     res = None \<and> calls = []
     \<and> (\<exists>t'. get_task (t_id task) d' = Some t' \<and> t_status t' = ''failed''
          \<and> t_error t' = Some (error_to_string (exec_failure err)) \<and> t_completed_at_ms t' \<noteq> None
          \<and> t_error_kind t' = coalesce (map_option task_error_kind_str
                (subagent_error_to_task_error_kind (exec_failure err))) (t_error_kind t))"
proof -
  let ?e = "exec_failure err"
  let ?d1 = "snd (run_state (set_guarded env C_Fail_Status (t_id task) ''failed'' None None) d)"
  let ?d2 = "snd (run_state (failure_section env task ?e) d)"
  let ?t1 = "write_status (en_now env C_Fail_Status) ''failed'' None None t"
  have d1: "get_task (t_id task) ?d1 = Some ?t1" "unique_task_ids ?d1"
    using guarded_calm[OF assms(1-3) status_allowed_lits(4)] assms(4) by simp_all
  let ?t2 = "case subagent_error_to_task_error_kind ?e of None \<Rightarrow> ?t1
      | Some x \<Rightarrow> ?t1\<lparr>t_error_kind := Some (task_error_kind_str x)\<rparr>"
  have d2: "get_task (t_id task) ?d2 = Some ?t2" "unique_task_ids ?d2"
    using set_error_kind_get[OF assms(1) d1(2,1)] set_error_kind_unique[OF d1(2)]
    by (simp_all add: failure_section_def)
  have live: "t_status ?t2 \<noteq> ''cancelled''" by (simp split: option.splits)
  have d3: "get_task (t_id task) (snd (run_state (outcome_section env task ?e) ?d2))
      = Some (write_status (en_now env C_Outcome_Status) ''failed'' None (Some (error_to_string ?e)) ?t2)"
    by (rule outcome_fails[OF assms(1) d2(2,1) live assms(8)])
  have "run_state (execute_and_persist env mg ex False task sub) d
      = ((None, []), snd (run_state (outcome_section env task ?e) ?d2))"
    using execute_task_failure[OF assms(1,3-7)] assms(1,8)
    by (simp add: execute_and_persist_def Let_def split: prod.splits)
  with d3 show ?thesis by (simp add: write_status_def Let_def split: option.splits)
qed

text \<open>The example's subagent, and the two reads that precede its execution.\<close>

abbreviation "sample_sub \<equiv> row_to_model (sample_logical ''x'' ''one'' ''hot'')"
abbreviation "sample_run_task \<equiv> sample_task ''a'' ''x'' ''running'' 1 (Some 1)"
abbreviation "sample_full \<equiv> sample_catalog sample_store"

lemma sample_run_task_fields [simp]:
  "t_model_override (sample_task i sid st c started) = None" "t_profile (sample_task i sid st c started) = ''pi/search-cheap''"
  "t_error_kind (sample_task i sid st c started) = None" "t_prompt (sample_task i sid st c started) = Some ''p''"
  by (simp_all add: sample_task_def)

lemma sample_logical_fields [simp]:
  "l_id (sample_logical i n st) = i" "l_bound_provider_id (sample_logical i n st) = ''prov''"
  "l_bound_model_id (sample_logical i n st) = ''mod''" "l_status (sample_logical i n st) = st"
  by (simp_all add: sample_logical_def)

lemma sample_full_ok: "unique_task_ids sample_full" "get_task ''a'' sample_full = Some sample_run_task"
  by (simp_all add: unique_task_ids_def get_task_def sample_catalog_def sample_store_def)

lemma sample_validated: "\<exists>prov md. run_state (validate_bound_resources (quiet_env t) sample_sub ''mod'') sample_full
    = (Inr (prov, md), sample_full) \<and> p_id prov = ''prov''"
  by (simp add: validate_bound_resources_def get_provider_with_secret_def
      get_model_by_provider_and_model_id_def sample_catalog_def)

lemma sample_prepared: "\<exists>s. run_state (prepare_input (quiet_env t) sample_manager sample_run_task sample_sub ''mod'' prov md) sample_full
    = (Inr s, sample_full)"
  by (simp add: prepare_input_def Let_def get_logical_subagent_def sample_catalog_def sample_store_def
      sample_logical_def split: prod.split)

theorem executor_failure_recorded_witness:
  "case run_state (execute_and_persist (quiet_env 7) sample_manager (failing_executor ''no node'') False
        sample_run_task sample_sub) sample_full of ((res, calls), d') \<Rightarrow>
     \<exists>t'. get_task ''a'' d' = Some t' \<and> t_status t' = ''failed'' \<and> t_error_kind t' = Some ''crash''"
proof -
  obtain prov md where v: "run_state (validate_bound_resources (quiet_env 7) sample_sub ''mod'') sample_full
      = (Inr (prov, md), sample_full)"
    using sample_validated by blast
  obtain s where s: "run_state (prepare_input (quiet_env 7) sample_manager sample_run_task sample_sub ''mod'' prov md) sample_full
      = (Inr s, sample_full)"
    using sample_prepared by blast
  have x: "ex_execute (failing_executor ''no node'') (fst s)
      = Inl (Typed (SidecarSpawn (''sidecar was enabled but failed to initialize: '' @ ''no node'')))"
    by (simp add: failing_executor_def)
  have "case run_state (execute_and_persist (quiet_env 7) sample_manager (failing_executor ''no node'') False
        sample_run_task sample_sub) sample_full of ((res, calls), d') \<Rightarrow> res = None \<and> calls = []
     \<and> (\<exists>t'. get_task (t_id sample_run_task) d' = Some t' \<and> t_status t' = ''failed''
          \<and> t_error t' = Some (error_to_string (exec_failure (Typed (SidecarSpawn (''sidecar was enabled but failed to initialize: '' @ ''no node'')))))
          \<and> t_completed_at_ms t' \<noteq> None
          \<and> t_error_kind t' = coalesce (map_option task_error_kind_str
                (subagent_error_to_task_error_kind (exec_failure (Typed (SidecarSpawn (''sidecar was enabled but failed to initialize: '' @ ''no node'')))))) (t_error_kind sample_run_task))"
  proof (rule executor_failure_recorded[OF calm_env_quiet sample_full_ok(1) _ _ _ _ x])
    show "get_task (t_id sample_run_task) sample_full = Some sample_run_task" using sample_full_ok(2) by simp
    show "run_state (validate_bound_resources (quiet_env 7) sample_sub
        (unwrap_or (s_bound_model_id sample_sub) (t_model_override sample_run_task))) sample_full
        = (Inr (prov, md), sample_full)" using v by simp
    show "run_state (prepare_input (quiet_env 7) sample_manager sample_run_task sample_sub
        (unwrap_or (s_bound_model_id sample_sub) (t_model_override sample_run_task)) prov md) sample_full
        = (Inr s, sample_full)" using s by simp
  qed (simp_all add: exec_failure_def)
  then show ?thesis by (auto simp: exec_failure_def split: prod.splits)
qed

text \<open>A run whose executor succeeds, taken apart.\<close>

lemma persist_resultE:
  assumes "run_state (persist_result env mg task sub (inp, mem, n, pf) out dur) d = (Inr mem', d')"
  obtains u d1 d2 d3 ts where
    "run_state (set_guarded env C_Result_Status (t_id task) (task_status_str (xo_status out))
        (Some (xo_summary out)) None) d = (Inr u, d1)"
    "d2 = snd (run_state (set_error_kind env C_Error_Kind (t_id task) (xo_error_kind out)) d1)"
    "insert_usage_record (usage_row_of env mg task sub (xo_usage out) dur) d2 = Inr d3"
    "ts = list_tasks (s_id sub) (int (cx_recent_tasks_limit (st_context (mg_settings mg)))) d2"
    "mem' = update_memory (mg_text mg) (st_context (mg_settings mg)) (en_now env C_Recent_Tasks)
        (en_now env C_Upsert_Memory) mem (xo_memory_update out) ts n (t_id task) (profile_budget mg pf) (s_repo_path sub)"
    "upsert_memory mem' d3 = Inr d'"
proof -
  let ?g = "run_state (set_guarded env C_Result_Status (t_id task) (task_status_str (xo_status out))
        (Some (xo_summary out)) None) d"
  obtain u d1 where g: "?g = (Inr u, d1)"
    using assms by (cases ?g; cases "fst ?g") (auto simp: persist_result_def Let_def)
  let ?d2 = "snd (run_state (set_error_kind env C_Error_Kind (t_id task) (xo_error_kind out)) d1)"
  obtain d3 where i: "insert_usage_record (usage_row_of env mg task sub (xo_usage out) dur) ?d2 = Inr d3"
    using assms g by (auto simp: persist_result_def Let_def split: prod.splits sum.splits if_splits)
  show thesis
    using assms g i that[OF g refl i refl]
    by (auto simp: persist_result_def Let_def split: prod.splits sum.splits if_splits)
qed

lemma guarded_frame:
  "run_state (set_guarded env c i st rs er) d = (r, d') \<Longrightarrow> \<exists>ts. d' = d\<lparr>tasks := ts\<rparr>"
  by (auto simp: set_guarded_def set_task_status_if_not_cancelled_def Let_def split: if_splits sum.splits
      intro: exI[of _ "tasks d"])

lemma error_kind_frame: "\<exists>ts. snd (run_state (set_error_kind env c i k) d) = d\<lparr>tasks := ts\<rparr>"
  by (cases k) (auto simp: set_error_kind_def set_task_error_kind_def intro: exI[of _ "tasks d"])

lemma upd_where_all_status:
  "map l_status (upd_where (\<lambda>l. l_id l = i) (touch_logical ''hot'' now) ls)
     = map (\<lambda>l. if l_id l = i then ''hot'' else l_status l) ls"
  by (simp add: upd_where_def)

lemma commit_hotD:
  assumes "commit_hot_binding_and_status now b sid d = Inr d'" "is_hot b"
  shows "has_hot (b_subagent_id b) d' \<and> tasks d' = tasks d \<and> usages d' = usages d \<and> memories d' = memories d
    \<and> map l_status (logicals d') = map (\<lambda>l. if l_id l = sid then ''hot'' else l_status l) (logicals d)"
proof -
  obtain d1 where u: "upsert_hot_binding b d = Inr d1"
    and p: "put_logicals (upd_where (\<lambda>l. l_id l = sid) (touch_logical ''hot'' now) (logicals d1)) d1 = Inr d'"
    using assms(1) by (auto simp: commit_hot_binding_and_status_def split: sum.splits)
  obtain bs where "d1 = d\<lparr>bindings := bs\<rparr>" using upsert_hot_binding_frame[OF u] by blast
  with put_logicalsD(1)[OF p] upsert_hot_binding_hot[OF u assms(2), of "b_subagent_id b"] show ?thesis
    by (auto simp: has_hot_def upd_where_all_status)
qed

lemma complete_task_success:
  assumes "calm_env env" "hot_session_id out = Some session" "ex_activate_session ex session (p_id prov) = None"
    and "run_state (complete_task env mg ex task sub prov su st out) d = ((Inr res, calls), d')"
  obtains mem' d4 where
    "run_state (persist_result env mg task sub su out (i64_saturating_sub (en_now env C_Result_Status) st)) d
       = (Inr mem', d4)"
    "commit_hot_binding_and_status (en_now env C_Commit_Fail)
       (hot_binding_row env mg sub session (en_now env C_Commit_Hot)) (s_id sub) d4 = Inr d'"
    "calls = [Activate session (p_id prov)]"
    "dr_status res = (case get_task (t_id task) d' of
        Some u \<Rightarrow> if t_status u = ''cancelled'' then Cancelled else xo_status out | None \<Rightarrow> xo_status out)"
proof -
  let ?dur = "i64_saturating_sub (en_now env C_Result_Status) st"
  obtain po d5 where po: "run_state (persist_section env mg task sub su out ?dur (Some session)) d = (po, d5)"
    by fastforce
  have a: "po_error po = None" "d' = d5" "calls = [Activate session (p_id prov)]"
    "dr_status res = (case get_task (t_id task) d' of
        Some u \<Rightarrow> if t_status u = ''cancelled'' then Cancelled else xo_status out | None \<Rightarrow> xo_status out)"
    using assms po
    by (simp_all add: complete_task_def session_lifecycle_def final_status_def Let_def split: option.splits)
      (auto split: option.splits)
  obtain p d4 where p: "run_state (persist_result env mg task sub su out ?dur) d = (p, d4)" by fastforce
  show thesis
  proof (cases p)
    case (Inl e)
    with po p a(1) show ?thesis by (auto simp: persist_section_def)
  next
    case (Inr mem')
    with po p a(1,2) assms(1) have "commit_hot_binding_and_status (en_now env C_Commit_Fail)
       (hot_binding_row env mg sub session (en_now env C_Commit_Hot)) (s_id sub) d4 = Inr d'"
      by (auto simp: persist_section_def Let_def split: sum.splits prod.splits)
    with p Inr a(3,4) show ?thesis by (intro that) simp_all
  qed
qed

text \<open>What persisting the result leaves, whatever the session does afterwards.\<close>

lemma persist_result_effects:
  assumes "calm_env env" "unique_task_ids d" "get_task (t_id task) d = Some t" "t_status t \<noteq> ''cancelled''"
    and "m_subagent_id mem = s_id sub"
    and "run_state (persist_result env mg task sub (inp, mem, n, pf) out dur) d = (Inr mem', d')"
  shows "get_task (t_id task) d' = Some
      (let u = write_status (en_now env C_Result_Status) (task_status_str (xo_status out)) (Some (xo_summary out)) None t
       in case xo_error_kind out of None \<Rightarrow> u | Some x \<Rightarrow> u\<lparr>t_error_kind := Some (task_error_kind_str x)\<rparr>)"
    "usages d' = usages d @ [usage_row_of env mg task sub (xo_usage out) dur]" "logicals d' = logicals d"
    "\<exists>m. get_memory (s_id sub) d' = Some m \<and> m\<lparr>m_id := m_id mem\<rparr> = update_memory (mg_text mg)
       (st_context (mg_settings mg)) (en_now env C_Recent_Tasks) (en_now env C_Upsert_Memory) mem (xo_memory_update out)
       (list_tasks (s_id sub) (int (cx_recent_tasks_limit (st_context (mg_settings mg)))) d') n (t_id task)
       (profile_budget mg pf) (s_repo_path sub)"
proof -
  from assms(6) obtain u d1 d2 d3 ts where
    g: "run_state (set_guarded env C_Result_Status (t_id task) (task_status_str (xo_status out))
        (Some (xo_summary out)) None) d = (Inr u, d1)"
    and d2: "d2 = snd (run_state (set_error_kind env C_Error_Kind (t_id task) (xo_error_kind out)) d1)"
    and i: "insert_usage_record (usage_row_of env mg task sub (xo_usage out) dur) d2 = Inr d3"
    and ts: "ts = list_tasks (s_id sub) (int (cx_recent_tasks_limit (st_context (mg_settings mg)))) d2"
    and mem': "mem' = update_memory (mg_text mg) (st_context (mg_settings mg)) (en_now env C_Recent_Tasks)
        (en_now env C_Upsert_Memory) mem (xo_memory_update out) ts n (t_id task) (profile_budget mg pf) (s_repo_path sub)"
    and m: "upsert_memory mem' d3 = Inr d'"
    by (rule persist_resultE)
  let ?t1 = "write_status (en_now env C_Result_Status) (task_status_str (xo_status out)) (Some (xo_summary out)) None t"
  have t1: "get_task (t_id task) d1 = Some ?t1" "unique_task_ids d1"
    using guarded_calm[OF assms(1-3), where st = "task_status_str (xo_status out)" and c = C_Result_Status
        and rs = "Some (xo_summary out)" and er = None] assms(4) g by simp_all
  have d3: "d3 = d2\<lparr>usages := usages d2 @ [usage_row_of env mg task sub (xo_usage out) dur]\<rparr>"
    using i by (auto simp: insert_usage_record_def split: if_splits)
  obtain ms where d4: "d' = d3\<lparr>memories := ms\<rparr>" using upsert_memory_get(1)[OF m] by blast
  have f: "logicals d2 = logicals d" "usages d2 = usages d"
    using guarded_frame[OF g] error_kind_frame[of env C_Error_Kind "t_id task" "xo_error_kind out" d1] by (auto simp: d2)
  show "logicals d' = logicals d" "usages d' = usages d @ [usage_row_of env mg task sub (xo_usage out) dur]"
    using d3 d4 f by simp_all
  show "get_task (t_id task) d' = Some (let u = ?t1
       in case xo_error_kind out of None \<Rightarrow> u | Some x \<Rightarrow> u\<lparr>t_error_kind := Some (task_error_kind_str x)\<rparr>)"
    using set_error_kind_get[OF assms(1) t1(2,1), of C_Error_Kind "xo_error_kind out"] d3 d4
    by (simp add: d2 get_task_def Let_def)
  have id: "m_subagent_id mem' = s_id sub" "m_id mem' = m_id mem" using assms(5) by (simp_all add: mem' update_memory_ids)
  obtain mm where "get_memory (s_id sub) d' = Some mm" "mm\<lparr>m_id := m_id mem\<rparr> = mem'"
    using upsert_memory_get(2)[OF m] id by auto
  moreover have "ts = list_tasks (s_id sub) (int (cx_recent_tasks_limit (st_context (mg_settings mg)))) d'"
    using d3 d4 by (simp add: ts list_tasks_def)
  ultimately show "\<exists>m. get_memory (s_id sub) d' = Some m \<and> m\<lparr>m_id := m_id mem\<rparr> = update_memory (mg_text mg)
       (st_context (mg_settings mg)) (en_now env C_Recent_Tasks) (en_now env C_Upsert_Memory) mem (xo_memory_update out)
       (list_tasks (s_id sub) (int (cx_recent_tasks_limit (st_context (mg_settings mg)))) d') n (t_id task)
       (profile_budget mg pf) (s_repo_path sub)"
    unfolding mem' by auto
qed

text \<open>
  C28. A task that is not cancelled and whose executor succeeds with a session that then activates, with nothing else running
  and no store failure: the row has the executor's status and summary, the usage record is stored, and so is the
  merged memory (the summary, key files, open questions, decisions and attempts of the row that the
  preparation read with the executor's update merged in, cut to their bounds when the update compacts), the
  subagent has a hot binding and the status \<open>hot\<close>, exactly one
  activation is made, and the reply carries the executor's status. Task ids are unique, and printed JSON parses back.
\<close>

theorem completed_run_effects:
  assumes "calm_env env" "unique_task_ids d" "get_task (t_id task) d = Some t" "t_status t \<noteq> ''cancelled''"
    and "hot_session_id out = Some session" "ex_activate_session ex session (p_id prov) = None"
    and "m_subagent_id mem = s_id sub" "codec_ok (mg_text mg)"
    and "run_state (complete_task env mg ex task sub prov (inp, mem, n, pf) st out) d = ((Inr res, calls), d')"
  shows "calls = [Activate session (p_id prov)] \<and> dr_status res = xo_status out
    \<and> (\<exists>t'. get_task (t_id task) d' = Some t' \<and> t_status t' = task_status_str (xo_status out)
          \<and> t_result_summary t' = Some (xo_summary out)
          \<and> t_error_kind t' = coalesce (map_option task_error_kind_str (xo_error_kind out)) (t_error_kind t))
    \<and> usages d' = usages d @ [usage_row_of env mg task sub (xo_usage out)
                                 (i64_saturating_sub (en_now env C_Result_Status) st)]
    \<and> (\<exists>m. get_memory (s_id sub) d' = Some m
          \<and> (let tx = mg_text mg; cfg = st_context (mg_settings mg); upd = xo_memory_update out; repo = s_repo_path sub;
                 recent = list_tasks (s_id sub) (int (cx_recent_tasks_limit cfg)) d';
                 files = fold (merge_key_file repo) (mu_key_files upd) (stored_files tx mem);
                 questions = fold (merge_question tx) (mu_open_questions upd) (stored_questions tx mem);
                 decisions = fold merge_decision (mu_decisions upd) (stored_decisions tx mem);
                 compacts = (cx_compaction_tasks_threshold cfg \<le> n \<or> memory_oversized cfg
                   (merged_memory tx mem upd recent (t_id task) repo) recent (profile_budget mg pf))
             in m_hot_summary m = coalesce (mu_current_state_summary upd) (m_hot_summary mem)
              \<and> stored_files tx m = (if compacts then take 20 (sort_by better_file files) else files)
              \<and> stored_questions tx m = (if compacts then take 10 (filter (\<lambda>q. oq_status q \<noteq> ''resolved'') questions) else questions)
              \<and> stored_decisions tx m = (if compacts then take_last 20 decisions else decisions)
              \<and> stored_attempts tx m = merge_attempt (t_id task) recent (stored_attempts tx mem)))
    \<and> has_hot (s_id sub) d'
    \<and> map l_status (logicals d') = map (\<lambda>l. if l_id l = s_id sub then ''hot'' else l_status l) (logicals d)"
proof -
  let ?dur = "i64_saturating_sub (en_now env C_Result_Status) st"
  obtain mem' d4 where p: "run_state (persist_result env mg task sub (inp, mem, n, pf) out ?dur) d = (Inr mem', d4)"
    and c: "commit_hot_binding_and_status (en_now env C_Commit_Fail)
       (hot_binding_row env mg sub session (en_now env C_Commit_Hot)) (s_id sub) d4 = Inr d'"
    and calls: "calls = [Activate session (p_id prov)]"
    and res: "dr_status res = (case get_task (t_id task) d' of
        Some u \<Rightarrow> if t_status u = ''cancelled'' then Cancelled else xo_status out | None \<Rightarrow> xo_status out)"
    using complete_task_success[OF assms(1,5,6,9)] by blast
  note e = persist_result_effects[OF assms(1-4,7) p]
  have hot: "has_hot (s_id sub) d'" "tasks d' = tasks d4" "usages d' = usages d4" "memories d' = memories d4"
    "map l_status (logicals d') = map (\<lambda>l. if l_id l = s_id sub then ''hot'' else l_status l) (logicals d)"
    using commit_hotD[OF c] by (simp_all add: hot_binding_row_def is_hot_def e(3))
  obtain t' where t': "get_task (t_id task) d' = Some t'" "t_status t' = task_status_str (xo_status out)"
    "t_result_summary t' = Some (xo_summary out)"
    "t_error_kind t' = coalesce (map_option task_error_kind_str (xo_error_kind out)) (t_error_kind t)"
    using e(1) hot(2) by (cases "xo_error_kind out") (simp_all add: get_task_def write_status_def Let_def)
  then have "dr_status res = xo_status out" using res by (cases "xo_status out") simp_all
  let ?recent = "list_tasks (s_id sub) (int (cx_recent_tasks_limit (st_context (mg_settings mg)))) d'"
  let ?new = "update_memory (mg_text mg) (st_context (mg_settings mg)) (en_now env C_Recent_Tasks)
      (en_now env C_Upsert_Memory) mem (xo_memory_update out) ?recent n (t_id task) (profile_budget mg pf) (s_repo_path sub)"
  obtain m where m: "get_memory (s_id sub) d' = Some m" "m\<lparr>m_id := m_id mem\<rparr> = ?new"
    using e(4) hot(2,4) by (auto simp: get_memory_def list_tasks_def)
  have "m_hot_summary m = m_hot_summary ?new" "stored_files (mg_text mg) m = stored_files (mg_text mg) ?new"
    "stored_questions (mg_text mg) m = stored_questions (mg_text mg) ?new"
    "stored_decisions (mg_text mg) m = stored_decisions (mg_text mg) ?new"
    "stored_attempts (mg_text mg) m = stored_attempts (mg_text mg) ?new"
    by (simp_all add: m(2)[symmetric] stored_files_def stored_questions_def stored_decisions_def stored_attempts_def)
  note stored = this(1)[unfolded update_memory_ids(3)] this(2-)
    update_memory_stored[OF assms(8) refl, where cfg = "st_context (mg_settings mg)" and t1st = "en_now env C_Recent_Tasks"
      and t2nd = "en_now env C_Upsert_Memory" and mem = mem and upd = "xo_memory_update out" and ts = ?recent and n = n
      and i = "t_id task" and budget = "profile_budget mg pf" and repo = "s_repo_path sub"]
  have "dr_status res = xo_status out" by fact
  with t' calls hot(1,3,5) e(2) m(1) stored show ?thesis unfolding Let_def by simp
qed

text \<open>An executor whose tasks complete in a session that always activates.\<close>

definition sample_output :: executor_output where
  "sample_output = \<lparr>xo_adapter_session_id = Some ''s1'', xo_session_reused = False, xo_status = Completed,
     xo_summary = ''done'', xo_usage = task_usage_default, xo_memory_update = sample_update, xo_error_kind = None\<rparr>"

lemma sample_full_tables [simp]:
  "tasks sample_full = [sample_run_task, sample_task ''b'' ''y'' ''queued'' 2 None]"
  "logicals sample_full = [sample_logical ''x'' ''one'' ''hot'', sample_logical ''y'' ''two'' ''cold'']"
  "bindings sample_full = [sample_binding ''bx'' ''x'' 1 ''hot'']"
  "memories sample_full = []" "usages sample_full = []"
  by (simp_all add: sample_catalog_def sample_store_def empty_db_def)

lemma sample_output_fields [simp]:
  "hot_session_id sample_output = Some ''s1''" "xo_status sample_output = Completed"
  "xo_summary sample_output = ''done''" "xo_memory_update sample_output = sample_update"
  "xo_error_kind sample_output = None" "xo_usage sample_output = task_usage_default"
  by (simp_all add: hot_session_id_def sample_output_def)

lemma sample_persist:
  "\<exists>mem' d'. run_state (persist_result (quiet_env 7) sample_manager sample_run_task sample_sub
      (inp, new_empty_memory 1 ''x'', 0, None) sample_output 6) sample_full = (Inr mem', d')
     \<and> bindings d' = bindings sample_full \<and> logicals d' = logicals sample_full"
  by (simp add: persist_result_def Let_def set_guarded_def set_task_status_if_not_cancelled_def
      set_error_kind_def insert_usage_record_def usage_row_of_def upsert_memory_def update_memory_ids
      has_logical_def new_empty_memory_def)

lemma sample_commit:
  assumes "bindings d = bindings sample_full" "logicals d = logicals sample_full"
  shows "\<exists>d'. commit_hot_binding_and_status 7 (hot_binding_row (quiet_env 7) sample_manager sample_sub ''s1'' 7) ''x'' d = Inr d'"
  using assms
  by (simp add: commit_hot_binding_and_status_def upsert_hot_binding_def put_bindings_def put_logicals_def
      hot_binding_row_def sample_manager_def sample_binding_def is_hot_def hot_key_def one_hot_def
      refresh_binding_def touch_logical_def unique_active_names_def active_def name_key_def
      sample_logical_def Let_def)

lemma sample_complete:
  "\<exists>res calls d'. run_state (complete_task (quiet_env 7) sample_manager mock_executor sample_run_task sample_sub
      prov (inp, new_empty_memory 1 ''x'', 0, None) 1 sample_output) sample_full
      = ((Inr res, calls), d')"
proof -
  obtain mem' d4 where p: "run_state (persist_result (quiet_env 7) sample_manager sample_run_task sample_sub
      (inp, new_empty_memory 1 ''x'', 0, None) sample_output 6) sample_full = (Inr mem', d4)"
    "bindings d4 = bindings sample_full" "logicals d4 = logicals sample_full"
    using sample_persist by blast
  obtain d5 where "commit_hot_binding_and_status 7 (hot_binding_row (quiet_env 7) sample_manager sample_sub ''s1'' 7) ''x'' d4 = Inr d5"
    using sample_commit[OF p(2,3)] by blast
  with p(1) show ?thesis
    by (simp add: complete_task_def persist_section_def session_lifecycle_def final_status_def Let_def
        i64_saturating_sub_def i64_min_def i64_max_def mock_executor_def)
qed

definition sample_prov :: provider where
  "sample_prov = \<lparr>p_id = ''prov'', p_name = ''P'', p_provider_kind = OpenAiCompatible, p_base_url = ''u'',
     p_enabled = True, p_api_key = Some ''k'', p_created_at_ms = 0, p_updated_at_ms = 0\<rparr>"

definition sample_input :: executor_input where
  "sample_input = \<lparr>xi_task_id = ''a'', xi_subagent_id = ''x'', xi_subagent_name = ''one'', xi_cwd = ''/r'',
     xi_profile = ''pi/search-cheap'', xi_model = ''mod'', xi_prompt = ''p'', xi_prompt_artifact_ref = None,
     xi_timeout_seconds = Some 60, xi_tools = [], xi_memory = snapshot_of (mg_text sample_manager) (new_empty_memory 1 ''x''),
     xi_context = \<lparr>cc_compact_context = ''p'', cc_budget_tokens = 10, cc_source = ''busytok''\<rparr>,
     xi_write_access = False, xi_provider_id = ''prov'', xi_provider_kind = OpenAiCompatible,
     xi_provider_base_url = ''u'', xi_provider_api_key = ''k'', xi_model_reasoning = False,
     xi_model_context_window = 1000, xi_model_max_tokens = 100, xi_model_display_name = None\<rparr>"

theorem completed_run_effects_witness:
  "case run_state (complete_task (quiet_env 7) sample_manager mock_executor sample_run_task sample_sub
      sample_prov (sample_input, new_empty_memory 1 ''x'', 0, None) 1 sample_output) sample_full of ((r, calls), d') \<Rightarrow>
     calls = [Activate ''s1'' ''prov''] \<and> has_hot ''x'' d' \<and> map l_status (logicals d') = [''hot'', ''cold'']
     \<and> length (usages d') = 1"
proof -
  obtain res calls d' where r: "run_state (complete_task (quiet_env 7) sample_manager mock_executor sample_run_task sample_sub
      sample_prov (sample_input, new_empty_memory 1 ''x'', 0, None) 1 sample_output) sample_full = ((Inr res, calls), d')"
    using sample_complete by blast
  have g: "get_task (t_id sample_run_task) sample_full = Some sample_run_task" using sample_full_ok(2) by simp
  have "calls = [Activate ''s1'' (p_id sample_prov)]" "has_hot (s_id sample_sub) d'"
    "usages d' = usages sample_full @ [usage_row_of (quiet_env 7) sample_manager sample_run_task sample_sub
        (xo_usage sample_output) (i64_saturating_sub (en_now (quiet_env 7) C_Result_Status) 1)]"
    "map l_status (logicals d') = map (\<lambda>l. if l_id l = s_id sample_sub then ''hot'' else l_status l) (logicals sample_full)"
    using completed_run_effects[OF calm_env_quiet sample_full_ok(1) g _ _ _ _ _ r, of "''s1''"]
    by (simp_all add: mock_executor_def new_empty_memory_def sample_manager_def)
  with r show ?thesis by (simp add: sample_prov_def)
qed


text \<open>
  What a run answers agrees with a cancel it can see: if the task's row is cancelled when the run
  ends and the last read of it did not fail, a reply, when there is one, says cancelled, whether
  the cancel came before, during or after the executor.
\<close>

theorem cancelled_run_says_cancelled:
  assumes "run_state (execute_task env mg ex cs task sub) d = ((Inr res, calls), d')"
    and "\<not> en_fault env C_Final_Read" "get_task (t_id task) d' = Some t" "t_status t = ''cancelled''"
  shows "dr_status res = Cancelled"
  using assms by (rule execute_task_cancelled)

theorem cancelled_run_says_cancelled_witness:
  "\<exists>res calls d'. run_state (execute_task (quiet_env 7) sample_manager mock_executor False sample_run_task sample_sub)
      (sample_full\<lparr>tasks := [sample_task ''a'' ''x'' ''cancelled'' 1 (Some 1)]\<rparr>) = ((Inr res, calls), d')
      \<and> dr_status res = Cancelled"
proof -
  let ?d = "sample_full\<lparr>tasks := [sample_task ''a'' ''x'' ''cancelled'' 1 (Some 1)]\<rparr>"
  have g: "get_task ''a'' ?d = Some (sample_task ''a'' ''x'' ''cancelled'' 1 (Some 1))" by (simp add: get_task_def)
  have "\<exists>res calls. run_state (execute_task (quiet_env 7) sample_manager mock_executor False sample_run_task sample_sub) ?d
      = ((Inr res, calls), ?d)"
    by (simp add: execute_task_def Let_def g)
  then obtain res calls where r: "run_state (execute_task (quiet_env 7) sample_manager mock_executor False sample_run_task sample_sub) ?d
      = ((Inr res, calls), ?d)" by blast
  have "dr_status res = Cancelled" by (rule cancelled_run_says_cancelled[OF r, of "sample_task ''a'' ''x'' ''cancelled'' 1 (Some 1)"]) (simp_all add: g)
  with r show ?thesis by blast
qed

end
