(* ===== verification/Manager_Control.thy ===== *)
theory Manager_Control
  imports Manager_Execute
begin

text \<open>
  The control operations of \<^verbatim>\<open>manager.rs\<close>: the reaper and the dispatcher's tick, cancel, the read
  operations with their runtime overlay, hibernate and delete.
\<close>

section \<open>Reaper and dispatcher\<close>

definition max_profile_timeout :: "settings \<Rightarrow> 64 word" where
  "max_profile_timeout st =
     (case map (\<lambda>p. pf_timeout_seconds (snd p)) (st_profiles st) of
        [] \<Rightarrow> 300
      | t # ts \<Rightarrow> fold max ts t)"

definition reap_orphaned_tasks :: "env \<Rightarrow> manager \<Rightarrow> string list step" where
  "reap_orphaned_tasks env mg =
     (let default_timeout = max (max_profile_timeout (mg_settings mg))
                                (st_sidecar_task_timeout_seconds (mg_settings mg))
      in State_Monad.bind (locked env L_Reap (exec_total env C_Reap
             (reap_orphaned_running_tasks (en_now env C_Reap) (cap_timeout_for_reaper default_timeout)
                REAPER_BUFFER_MS))) (\<lambda>r.
         State_Monad.return (case r of Inl _ \<Rightarrow> [] | Inr reaped \<Rightarrow> reaped)))"

text \<open>\<open>.ok().flatten()\<close> of a fallible query.\<close>

definition ok_flatten :: "subagent_error + 'a option \<Rightarrow> 'a option" where
  "ok_flatten r = (case r of Inl _ \<Rightarrow> None | Inr v \<Rightarrow> v)"

text \<open>
  One tick of the dispatcher after the select, not the reaper's: what it picked, and what the
  execution came to.
\<close>

definition dispatcher_tick ::
    "env \<Rightarrow> manager \<Rightarrow> executor \<Rightarrow> bool \<Rightarrow> (task_row \<times> delegate_result option) option step" where
  "dispatcher_tick env mg ex cancel_signal =
     (if en_gate_paused env then State_Monad.return None
      else State_Monad.bind (locked env L_Pick (exec_total env C_Pick
             (pick_oldest_queued_task (en_now env C_Pick)))) (\<lambda>picked.
      case ok_flatten picked of
        None \<Rightarrow> State_Monad.return None
      | Some task \<Rightarrow>
          State_Monad.bind (locked env L_Lookup (query env C_Lookup
              (get_logical_subagent (t_subagent_id task)))) (\<lambda>row.
          case ok_flatten row of
            None \<Rightarrow>
              State_Monad.bind (ignore (locked env L_Missing
                  (set_guarded env C_Missing (t_id task) ''failed'' None (Some ''subagent not found'')))) (\<lambda>_.
              State_Monad.return (Some (task, None)))
          | Some l \<Rightarrow>
              State_Monad.bind (locked env L_Recheck (query env C_Recheck (get_task (t_id task)))) (\<lambda>t.
              if (case ok_flatten t of None \<Rightarrow> True | Some x \<Rightarrow> t_status x = ''cancelled'')
              then State_Monad.return (Some (task, None))
              else
                State_Monad.bind (execute_and_persist env mg ex cancel_signal task (row_to_model l)) (\<lambda>(res, _).
                State_Monad.return (Some (task, res)))))))"

section \<open>Cancel\<close>

record cancel_outcome =
  co_previous_status :: string
  co_new_status :: string
  co_cancelled :: bool

text \<open>The second component: the provider the cancel RPC goes to, when one is sent.\<close>

definition cancel_task ::
    "env \<Rightarrow> string \<Rightarrow> string option \<Rightarrow> (cancel_outcome \<times> string option) fallible" where
  "cancel_task env task_id reason =
     try_bind (locked env L_Cancel_Read (query env C_Cancel_Read (get_task task_id))) (\<lambda>t.
     case t of
       None \<Rightarrow> raise (NotFound (''task '' @ task_id))
     | Some task \<Rightarrow>
         (let previous_status = t_status task
          in if terminal_string previous_status then
               succeed (\<lparr>co_previous_status = previous_status, co_new_status = previous_status,
                         co_cancelled = False\<rparr>, None)
             else
               try_bind (locked env L_Cancel_Write (exec_total env C_Cancel_Write
                   (cancel_task_if_not_terminal task_id reason (en_now env C_Cancel_Read)))) (\<lambda>updated.
               if \<not> updated then
                 try_bind (locked env L_Cancel_Reread (query env C_Cancel_Reread (get_task task_id))) (\<lambda>t2.
                 succeed (\<lparr>co_previous_status = previous_status,
                           co_new_status = (case t2 of None \<Rightarrow> previous_status | Some x \<Rightarrow> t_status x),
                           co_cancelled = False\<rparr>, None))
               else
                 State_Monad.bind (locked env L_Cancel_Provider (query env C_Cancel_Provider
                     (get_logical_subagent (t_subagent_id task)))) (\<lambda>l.
                 (let provider_id = (case ok_flatten l of None \<Rightarrow> [] | Some row \<Rightarrow> l_bound_provider_id row)
                  in succeed (\<lparr>co_previous_status = previous_status, co_new_status = ''cancelled'',
                               co_cancelled = True\<rparr>,
                              if provider_id = [] then None else Some provider_id))))))"

section \<open>Reads\<close>

definition overlay_one :: "env \<Rightarrow> int \<Rightarrow> logical_subagent \<Rightarrow> logical_subagent fallible" where
  "overlay_one env now sub =
     try_bind (query env C_Has_Running (has_running_task (s_id sub))) (\<lambda>has_running.
     succeed
       (if has_running then
          sub\<lparr>s_status := Hot,
              s_last_active_at_ms :=
                (if (case s_last_active_at_ms sub of None \<Rightarrow> True | Some ts \<Rightarrow> 300000 < now - ts)
                 then Some now else s_last_active_at_ms sub)\<rparr>
        else sub))"

fun overlay_all :: "env \<Rightarrow> int \<Rightarrow> logical_subagent list \<Rightarrow> logical_subagent list fallible" where
  "overlay_all env now [] = succeed []"
| "overlay_all env now (s # ss) =
     try_bind (overlay_one env now s) (\<lambda>s'.
     try_bind (overlay_all env now ss) (\<lambda>ss'. succeed (s' # ss')))"

definition overlay_runtime_status :: "env \<Rightarrow> logical_subagent list \<Rightarrow> logical_subagent list fallible" where
  "overlay_runtime_status env subs = overlay_all env (en_now env C_Has_Running) subs"

definition list_subagents ::
    "env \<Rightarrow> subagent_status option \<Rightarrow> string option \<Rightarrow> bool \<Rightarrow> logical_subagent list fallible" where
  "list_subagents env status project include_deleted =
     locked env L_Read
       (let db_status_filter = (if status = Some Deleted then map_option subagent_status_str status else None)
        in try_bind (query env C_List_Filtered (list_filtered db_status_filter project include_deleted)) (\<lambda>rows.
           try_bind (overlay_runtime_status env (map row_to_model rows)) (\<lambda>subagents.
           succeed (case status of
               None \<Rightarrow> subagents
             | Some st \<Rightarrow> if st = Deleted then subagents else filter (\<lambda>s. s_status s = st) subagents))))"

definition show_subagent :: "env \<Rightarrow> resolve_params \<Rightarrow> logical_subagent fallible" where
  "show_subagent env p =
     locked env L_Read
       (try_bind (resolve env p) (\<lambda>sub.
        try_bind (overlay_runtime_status env [sub]) (\<lambda>subs. succeed (hd subs))))"

definition MAX_TASKS_LIMIT :: int where "MAX_TASKS_LIMIT = 500"

definition subagent_tasks :: "env \<Rightarrow> resolve_params \<Rightarrow> int \<Rightarrow> task_summary list fallible" where
  "subagent_tasks env p limit =
     (if limit < 0 then raise (InvalidArgument (''limit must be >= 0, got '' @ show_int limit))
      else locked env L_Read
        (try_bind (resolve env p) (\<lambda>sub.
         try_bind (query env C_List_Tasks (list_tasks (s_id sub) (min limit MAX_TASKS_LIMIT))) (\<lambda>rows.
         succeed (map task_row_to_summary rows)))))"

definition recent_tasks_all :: "env \<Rightarrow> int \<Rightarrow> task_summary list fallible" where
  "recent_tasks_all env limit =
     locked env L_Read
       (try_bind (query env C_Recent_All (list_recent_tasks_all limit)) (\<lambda>rows.
        succeed (map task_row_to_summary rows)))"

definition task_counts :: "env \<Rightarrow> (nat \<times> nat) step" where
  "task_counts env =
     locked env L_Read
       (State_Monad.bind (query env C_Counts task_counts_by_status) (\<lambda>r.
        State_Monad.return (case r of Inl _ \<Rightarrow> (0, 0) | Inr c \<Rightarrow> c)))"

definition task_status_of :: "env \<Rightarrow> string \<Rightarrow> string option fallible" where
  "task_status_of env task_id =
     locked env L_Read
       (try_bind (query env C_Get_Task (get_task task_id)) (\<lambda>t. succeed (map_option t_status t)))"

text \<open>The hash maps of the snapshot, as the association lists they are collected from.\<close>

record runtime_snapshot =
  sn_subagents :: "logical_subagent list"
  sn_task_counts :: "(string \<times> nat) list"
  sn_last_tasks :: "(string \<times> int \<times> string) list"
  sn_recent_tasks :: "task_summary list"
  sn_name_lookup :: "(string \<times> string) list"

definition runtime_status_snapshot :: "env \<Rightarrow> int \<Rightarrow> runtime_snapshot fallible" where
  "runtime_status_snapshot env recent_limit =
     locked env L_Read
       (try_bind (query env C_List_Filtered (list_filtered None None True)) (\<lambda>all_rows.
        let name_lookup = map (\<lambda>r. (l_id r, l_name r)) all_rows;
            subs = map row_to_model (filter (\<lambda>r. l_status r \<noteq> ''deleted'') all_rows)
        in try_bind (overlay_runtime_status env subs) (\<lambda>subagents.
           try_bind (query env C_Counts_By_Sub count_tasks_by_subagent) (\<lambda>counts.
           try_bind (query env C_Last_Tasks last_task_by_subagent) (\<lambda>lasts.
           try_bind (query env C_Recent_All (list_recent_tasks_all recent_limit)) (\<lambda>recent.
           succeed \<lparr>sn_subagents = subagents, sn_task_counts = counts, sn_last_tasks = lasts,
                    sn_recent_tasks = map task_row_to_summary recent, sn_name_lookup = name_lookup\<rparr>))))))"

section \<open>Hibernate and delete\<close>

definition lifecycle_busy :: subagent_error where
  "lifecycle_busy =
     Validation ''subagent lifecycle is busy; retry after the current task finishes (waited 5000 ms)''"

text \<open>The value: the subagent, and the binding as it was when a hot one was released.\<close>

definition hibernate_section ::
    "env \<Rightarrow> manager \<Rightarrow> string \<Rightarrow> (logical_subagent \<times> binding_row option) fallible" where
  "hibernate_section env mg resolved_id =
     try_bind (resolve env \<lparr>rp_name = None, rp_id = Some resolved_id, rp_cwd = None\<rparr>) (\<lambda>sub.
     try_bind (query env C_Get_Memory (get_memory (s_id sub))) (\<lambda>mem.
     let new_status = (if Option.bind mem m_hot_summary \<noteq> None then Warm else Cold)
     in try_bind (query env C_Hot_Binding (hot_binding (s_id sub) (mg_adapter mg))) (\<lambda>binding.
     case binding of
       None \<Rightarrow>
         try_bind (set_logical_status env (s_id sub) new_status) (\<lambda>_. succeed (sub, None))
     | Some b \<Rightarrow>
         (let now = en_now env C_Hot_Binding
          in try_bind (exec env C_Hibernate (commit_hibernate_binding_and_status (en_now env C_Hibernate)
                 (b\<lparr>b_is_hot := 0, b_status := ''closed'', b_closed_at_ms := Some now\<rparr>)
                 (s_id sub) (subagent_status_str new_status))) (\<lambda>_.
             State_Monad.bind (ignore (exec env C_Event (insert_resource_event
                 \<lparr>e_id = ''re_'' @ en_uuid env C_Event, e_event_type = ''session_hibernate'',
                  e_target_id = Some (s_id sub), e_rss_mb = None, e_cpu_percent = None,
                  e_detail_json = None, e_created_at_ms = now\<rparr>))) (\<lambda>_.
             succeed (sub, Some b)))))))"

definition hibernate :: "env \<Rightarrow> manager \<Rightarrow> executor \<Rightarrow> bool \<Rightarrow> resolve_params \<Rightarrow> string fallible" where
  "hibernate env mg ex gate_acquired p =
     try_bind (locked env L_Hibernate_Resolve (resolve env p)) (\<lambda>found.
     if \<not> gate_acquired then raise lifecycle_busy
     else
       try_bind (locked env L_Hibernate (hibernate_section env mg (s_id found))) (\<lambda>(sub, original).
       case Option.bind original b_adapter_session_id of
         None \<Rightarrow> succeed (s_id sub)
       | Some session \<Rightarrow>
           (case ex_close_session ex session (s_bound_provider_id sub) of
              None \<Rightarrow> succeed (s_id sub)
            | Some msg \<Rightarrow>
                State_Monad.bind (ignore (locked env L_Hibernate_Restore (exec env C_Restore
                    (restore_hot_binding_and_status (en_now env C_Restore) (the original) (s_id sub))))) (\<lambda>_.
                raise (SidecarRpc (''session.close failed during hibernate for '' @ session @ '': '' @ msg)
                         None)))))"

definition delete_resolve :: "env \<Rightarrow> resolve_params \<Rightarrow> string fallible" where
  "delete_resolve env p =
     (case rp_id p of
        Some i \<Rightarrow> succeed i
      | None \<Rightarrow>
          (case rp_name p of
             None \<Rightarrow> raise (InvalidArgument ''either id or name must be provided'')
           | Some name \<Rightarrow>
               (case rp_cwd p of
                  None \<Rightarrow> raise (InvalidArgument ''cwd is required when name is provided'')
                | Some cwd \<Rightarrow>
                    try_bind (lookup_by_name_include_deleted env name cwd) (\<lambda>s. succeed (s_id s)))))"

definition delete_section :: "env \<Rightarrow> bool \<Rightarrow> string \<Rightarrow> string fallible" where
  "delete_section env hard resolved_id =
     try_bind (resolve_by_id_include_deleted env resolved_id) (\<lambda>sub.
     if \<not> hard \<and> s_status sub = Deleted then succeed (s_id sub)
     else
       try_bind (if hard then exec env C_Hard_Delete (hard_delete_logical_subagent (s_id sub))
                 else set_logical_status env (s_id sub) Deleted) (\<lambda>_.
       succeed (s_id sub)))"

definition delete_subagent :: "env \<Rightarrow> bool \<Rightarrow> resolve_params \<Rightarrow> bool \<Rightarrow> string fallible" where
  "delete_subagent env gate_acquired p hard =
     try_bind (locked env L_Delete_Resolve (delete_resolve env p)) (\<lambda>resolved_id.
     if \<not> gate_acquired then raise lifecycle_busy
     else locked env L_Delete (delete_section env hard resolved_id))"

section \<open>Lemmas\<close>

lemma reap_orphaned_tasks_keeps [keeps_intros]: "rely_ok env \<Longrightarrow> keeps db_ok (reap_orphaned_tasks env mg)"
  unfolding reap_orphaned_tasks_def Let_def by (intro keeps_intros) (auto intro: db_ok_intros)

lemma dispatcher_tick_keeps [keeps_intros]:
  "rely_ok env \<Longrightarrow> executor_ok ex \<Longrightarrow> keeps db_ok (dispatcher_tick env mg ex cs)"
  unfolding dispatcher_tick_def by (intro keeps_intros) (auto intro: db_ok_intros)

lemma cancel_task_keeps [keeps_intros]: "rely_ok env \<Longrightarrow> keeps db_ok (cancel_task env i r)"
  unfolding cancel_task_def Let_def by (intro keeps_intros) (auto intro: db_ok_intros)

lemma overlay_keeps [keeps_intros]: "keeps I (overlay_runtime_status env subs)"
proof -
  have "keeps I (overlay_all env now subs)" for now
    by (induction subs) (auto simp: overlay_one_def intro!: keeps_intros)
  then show ?thesis by (simp add: overlay_runtime_status_def)
qed

lemma reads_keep [keeps_intros]:
  assumes "\<And>d. I d \<Longrightarrow> I (en_between env L_Read d)"
  shows "keeps I (list_subagents env st pr b)" "keeps I (show_subagent env p)"
    "keeps I (subagent_tasks env p lim)" "keeps I (recent_tasks_all env lim)"
    "keeps I (task_counts env)" "keeps I (task_status_of env i)"
    "keeps I (runtime_status_snapshot env lim)"
  unfolding list_subagents_def show_subagent_def subagent_tasks_def recent_tasks_all_def task_counts_def
    task_status_of_def runtime_status_snapshot_def Let_def
  by (intro keeps_intros keeps_locked assms; assumption)+

lemma hibernate_keeps [keeps_intros]: "rely_ok env \<Longrightarrow> keeps db_ok (hibernate env mg ex g p)"
  unfolding hibernate_def hibernate_section_def Let_def by (intro keeps_intros) (auto intro: db_ok_intros)

lemma delete_keeps [keeps_intros]: "rely_ok env \<Longrightarrow> keeps db_ok (delete_subagent env g p hard)"
  unfolding delete_subagent_def delete_resolve_def delete_section_def
  by (intro keeps_intros) (auto intro: db_ok_intros)

section \<open>Properties\<close>

text \<open>
  A cancel, with no store failure and nothing else running: an unknown task is refused; a
  finished task is reported as it is, unchanged; a queued or running one is cancelled with the given
  reason (or \<open>CANCELLED\<close>) and the time, and the adapter is told exactly when the owner names a
  provider.
\<close>

theorem cancel_table:
  assumes "calm_env env" "unique_task_ids d"
  shows "run_state (cancel_task env i reason) d =
    (case get_task i d of
       None \<Rightarrow> (Inl (NotFound (''task '' @ i)), d)
     | Some t \<Rightarrow>
         if terminal_string (t_status t)
         then (Inr (\<lparr>co_previous_status = t_status t, co_new_status = t_status t, co_cancelled = False\<rparr>, None), d)
         else (Inr (\<lparr>co_previous_status = t_status t, co_new_status = ''cancelled'', co_cancelled = True\<rparr>,
                  case get_logical_subagent (t_subagent_id t) d of
                    None \<Rightarrow> None
                  | Some l \<Rightarrow> if l_bound_provider_id l = [] then None else Some (l_bound_provider_id l)),
               d\<lparr>tasks := map (\<lambda>u. if u = t then t\<lparr>t_status := ''cancelled'',
                    t_error := Some (unwrap_or ''CANCELLED'' reason),
                    t_completed_at_ms := Some (en_now env C_Cancel_Read)\<rparr> else u) (tasks d)\<rparr>))"
proof (cases "get_task i d")
  case None
  with assms show ?thesis by (simp add: cancel_task_def)
next
  case (Some t)
  note t = get_task_in[OF Some]
  let ?f = "\<lambda>t. t\<lparr>t_status := ''cancelled'', t_error := Some (unwrap_or ''CANCELLED'' reason),
      t_completed_at_ms := Some (en_now env C_Cancel_Read)\<rparr>"
  show ?thesis
  proof (cases "terminal_string (t_status t)")
    case True
    with Some assms show ?thesis by (simp add: cancel_task_def Let_def)
  next
    case False
    note dist = assms(2)[unfolded unique_task_ids_def]
    have "count_where (\<lambda>u. t_id u = i \<and> \<not> terminal_string (t_status u)) (tasks d) = 1"
      using count_where_unique[where k = t_id and P = "\<lambda>u. \<not> terminal_string (t_status u)", OF dist] t False by auto
    moreover have "upd_where (\<lambda>u. t_id u = i \<and> \<not> terminal_string (t_status u)) ?f (tasks d)
        = map (\<lambda>u. if u = t then ?f t else u) (tasks d)"
    proof -
      have "upd_where (\<lambda>u. t_id u = t_id t \<and> \<not> terminal_string (t_status u)) ?f (tasks d)
          = upd_where (\<lambda>u. u = t) ?f (tasks d)"
        by (rule upd_where_unique[where k = t_id and P = "\<lambda>u. \<not> terminal_string (t_status u)", OF dist])
          (simp_all add: t False)
      also have "\<dots> = map (\<lambda>u. if u = t then ?f t else u) (tasks d)"
        unfolding upd_where_def by (rule map_cong) simp_all
      finally show ?thesis using t by (simp only:)
    qed
    ultimately have "cancel_task_if_not_terminal i reason (en_now env C_Cancel_Read) d
        = (True, d\<lparr>tasks := map (\<lambda>u. if u = t then ?f t else u) (tasks d)\<rparr>)"
      by (simp add: cancel_task_if_not_terminal_def Let_def)
    with Some False assms(1) show ?thesis
      by (simp add: cancel_task_def Let_def ok_flatten_def get_logical_subagent_def split: option.split)
  qed
qed

theorem cancel_table_witness:
  "case run_state (cancel_task (quiet_env 9) ''a'' (Some ''why'')) sample_full of (r, d') \<Rightarrow>
     r = Inr (\<lparr>co_previous_status = ''running'', co_new_status = ''cancelled'', co_cancelled = True\<rparr>, Some ''prov'')
     \<and> map t_status (tasks d') = [''cancelled'', ''queued'']"
proof -
  have "sample_task ''b'' ''y'' ''queued'' 2 None \<noteq> sample_run_task" by (simp add: sample_task_def)
  with cancel_table[OF calm_env_quiet sample_full_ok(1), of 9 "''a''" "Some ''why''"] show ?thesis
    by (simp add: sample_full_ok(2) terminal_string_def get_logical_subagent_def)
qed

text \<open>
  The read operations never write: each leaves the database as its critical section found it,
  on success and on every error.
\<close>

theorem reads_never_write:
  "snd (run_state (list_subagents env st pr inc) d) = en_between env L_Read d
   \<and> snd (run_state (show_subagent env p) d) = en_between env L_Read d
   \<and> snd (run_state (recent_tasks_all env lim) d) = en_between env L_Read d
   \<and> snd (run_state (task_counts env) d) = en_between env L_Read d
   \<and> snd (run_state (task_status_of env i) d) = en_between env L_Read d
   \<and> snd (run_state (runtime_status_snapshot env lim) d) = en_between env L_Read d
   \<and> snd (run_state (subagent_tasks env p lim) d) = (if lim < 0 then d else en_between env L_Read d)"
proof -
  have pure: "snd (run_state m (en_between env L_Read d)) = en_between env L_Read d"
    if "\<And>I. keeps I m" for m :: "'a step"
    using that[of "\<lambda>x. x = en_between env L_Read d"] by (simp add: keeps_def)
  let ?tasks = "try_bind (resolve env p) (\<lambda>sub. try_bind (query env C_List_Tasks
      (list_tasks (s_id sub) (min lim MAX_TASKS_LIMIT))) (\<lambda>rows. succeed (map task_row_to_summary rows)))"
  have "snd (run_state ?tasks (en_between env L_Read d)) = en_between env L_Read d"
    by (rule pure) (intro keeps_intros)
  then have "snd (run_state (subagent_tasks env p lim) d) = (if lim < 0 then d else en_between env L_Read d)"
    by (simp add: subagent_tasks_def del: run_try_bind)
  then show ?thesis
    unfolding list_subagents_def show_subagent_def recent_tasks_all_def task_counts_def task_status_of_def
      runtime_status_snapshot_def run_locked Let_def
    by (intro conjI pure keeps_intros) assumption
qed
text \<open>The overlay as a function of the row and the database.\<close>

definition displayed :: "int \<Rightarrow> db \<Rightarrow> logical_row \<Rightarrow> logical_subagent" where
  "displayed now d l =
     (let s = row_to_model l
      in if has_running_task (l_id l) d
         then s\<lparr>s_status := Hot, s_last_active_at_ms :=
                (case l_last_active_at_ms l of
                   None \<Rightarrow> Some now
                 | Some ts \<Rightarrow> if 300000 < now - ts then Some now else Some ts)\<rparr>
         else s)"

lemma row_to_model_active [simp]: "s_last_active_at_ms (row_to_model l) = l_last_active_at_ms l"
  by (simp add: row_to_model_def)

lemma overlay_displayed:
  assumes "\<not> en_fault env C_Has_Running"
  shows "run_state (overlay_all env now (map row_to_model ls)) d = (Inr (map (displayed now d) ls), d)"
proof (induction ls)
  case (Cons l ls)
  have "run_state (overlay_one env now (row_to_model l)) d = (Inr (displayed now d l), d)"
    using assms by (simp add: overlay_one_def displayed_def Let_def split: option.split)
  with Cons show ?case by simp
qed simp

text \<open>
  A listing with no store failure shows the stored rows the project and the deleted flag
  select, most recently active first, each with the runtime overlay: a subagent with a running task
  is shown hot. A hot, warm or cold filter applies to the shown status; a \<open>deleted\<close> filter to the
  stored one, so what it lists may be shown hot.
\<close>

theorem list_shows_overlay:
  assumes "calm_env env"
  shows "fst (run_state (list_subagents env status project include_deleted) d) = Inr
    (let shown = map (displayed (en_now env C_Has_Running) d)
     in case status of
          None \<Rightarrow> shown (list_filtered None project include_deleted d)
        | Some Deleted \<Rightarrow> shown (list_filtered (Some ''deleted'') project include_deleted d)
        | Some st \<Rightarrow> filter (\<lambda>s. s_status s = st) (shown (list_filtered None project include_deleted d)))"
  using assms
  by (cases status; cases "the status")
    (simp_all add: list_subagents_def overlay_runtime_status_def overlay_displayed Let_def)

theorem list_shows_overlay_witness:
  "map_option (map s_id) (case fst (run_state (list_subagents (quiet_env 9) (Some Hot) None False) sample_full) of
       Inr xs \<Rightarrow> Some xs | Inl e \<Rightarrow> None) = Some [''x'']"
proof -
  have r: "list_filtered None None False sample_full
      = [sample_logical ''x'' ''one'' ''hot'', sample_logical ''y'' ''two'' ''cold'']"
    by (simp add: list_filtered_def sample_logical_def recently_active_def)
  have "has_running_task ''x'' sample_full" "\<not> has_running_task ''y'' sample_full"
    by (simp_all add: has_running_task_def running_for_def)
  then show ?thesis
    using list_shows_overlay[OF calm_env_quiet, of 9 "Some Hot" None False sample_full]
    by (simp add: r displayed_def row_to_model_def subagent_status_parse_def Let_def)
qed

text \<open>
  The task listing of a subagent refuses a negative limit; otherwise it fails only as the lookup
  fails or when the query does, and never returns more rows than the limit nor more than 500: the
  newest ones of that subagent, in order.
\<close>

theorem tasks_bounded:
  "if limit < 0
   then fst (run_state (subagent_tasks env p limit) d)
          = Inl (InvalidArgument (''limit must be >= 0, got '' @ show_int limit))
   else case fst (run_state (subagent_tasks env p limit) d) of
      Inl e \<Rightarrow> fst (run_state (resolve env p) (en_between env L_Read d)) = Inl e
        \<or> en_fault env C_List_Tasks \<and> e = Store Engine_Failure
    | Inr rows \<Rightarrow> int (length rows) \<le> min limit 500
        \<and> sorted_wrt (\<lambda>a b. sum_created_at_ms b \<le> sum_created_at_ms a) rows
        \<and> (\<exists>s. fst (run_state (resolve env p) (en_between env L_Read d)) = Inr s
             \<and> set rows \<subseteq> task_row_to_summary ` {t \<in> set (tasks (en_between env L_Read d)). t_subagent_id t = s_id s})"
proof (cases "limit < 0")
  case True
  then show ?thesis by (simp add: subagent_tasks_def)
next
  case False
  let ?d = "en_between env L_Read d"
  obtain r where r: "run_state (resolve env p) ?d = (r, ?d)"
    using keepsD[OF resolve_keeps, of "\<lambda>x. x = ?d" ?d env p] by (metis prod.exhaust)
  show ?thesis
  proof (cases r)
    case (Inl e)
    with r False show ?thesis by (simp add: subagent_tasks_def)
  next
    case (Inr s)
    let ?s = "sort_by newest_first (filter (\<lambda>t. t_subagent_id t = s_id s) (tasks ?d))"
    have l: "list_tasks (s_id s) (min limit MAX_TASKS_LIMIT) ?d = take (nat (min limit 500)) ?s"
      using False by (simp add: list_tasks_def sql_limit_def MAX_TASKS_LIMIT_def)
    have "sorted_wrt newest_first (take (nat (min limit 500)) ?s)"
      by (rule sorted_wrt_take) (rule sorted_sort_by[OF newest_first_order])
    then have "sorted_wrt (\<lambda>a b. sum_created_at_ms b \<le> sum_created_at_ms a)
        (map task_row_to_summary (take (nat (min limit 500)) ?s))"
      by (simp add: sorted_wrt_map newest_first_def[abs_def] task_row_to_summary_def)
    moreover have "task_row_to_summary ` set (take (nat (min limit 500)) ?s)
        \<subseteq> task_row_to_summary ` {t \<in> set (tasks ?d). t_subagent_id t = s_id s}"
      using set_take_subset[of "nat (min limit 500)" ?s] by auto
    ultimately show ?thesis using Inr r False by (auto simp: subagent_tasks_def l)
  qed
qed

text \<open>Hibernate.\<close>

lemma hot_binding_in: "hot_binding sid h d = Some b \<Longrightarrow> b \<in> set (bindings d) \<and> is_hot b \<and> b_subagent_id b = sid \<and> b_harness b = h"
  using find_SomeD by (fastforce simp: hot_binding_def)

lemma commit_hibernateD:
  assumes "commit_hibernate_binding_and_status now b sid st d = Inr d'"
  shows "(\<exists>c \<in> set (bindings d'). b_id c = b_id b \<and> b_status c = b_status b \<and> b_is_hot c = b_is_hot b)
    \<and> map l_status (logicals d') = map (\<lambda>l. if l_id l = sid \<and> active l then st else l_status l) (logicals d)
    \<and> tasks d' = tasks d \<and> memories d' = memories d"
proof -
  obtain d1 where u: "upsert_binding b d = Inr d1"
    and p: "put_logicals (upd_where (\<lambda>l. l_id l = sid \<and> l_status l \<noteq> ''deleted'') (touch_logical st now) (logicals d1)) d1 = Inr d'"
    using assms by (auto simp: commit_hibernate_binding_and_status_def split: sum.splits)
  obtain bs where "d1 = d\<lparr>bindings := bs\<rparr>" using upsert_binding_frame[OF u] by blast
  with put_logicalsD(1)[OF p] upsert_binding_row[OF u] show ?thesis
    by (auto simp: upd_where_def active_def)
qed

lemma hibernate_sectionD:
  assumes "calm_env env" "run_state (hibernate_section env mg i) d = (Inr (sub, original), d')"
    and "hot_binding i (mg_adapter mg) d = Some b"
  shows "s_id sub = i \<and> original = Some b
    \<and> (\<exists>c \<in> set (bindings d'). b_id c = b_id b \<and> b_status c = ''closed'' \<and> \<not> is_hot c)
    \<and> map l_status (logicals d') = map (\<lambda>l. if l_id l = i \<and> active l
          then (if Option.bind (get_memory i d) m_hot_summary \<noteq> None then ''warm'' else ''cold'') else l_status l) (logicals d)
    \<and> tasks d' = tasks d"
proof -
  let ?st = "if Option.bind (get_memory i d) m_hot_summary \<noteq> None then Warm else Cold"
  let ?b = "b\<lparr>b_is_hot := 0, b_status := ''closed'', b_closed_at_ms := Some (en_now env C_Hot_Binding)\<rparr>"
  have res: "run_state (resolve env \<lparr>rp_name = None, rp_id = Some i, rp_cwd = None\<rparr>) d = (Inr sub, d)"
    using assms resolve_by_id_sound[where env = env and i = i and d = d]
    by (auto simp: hibernate_section_def resolve_def Let_def split: prod.splits sum.splits option.splits if_splits)
  then have id: "s_id sub = i" using resolve_by_id_sound by (auto simp: resolve_def)
  let ?e = "\<lparr>e_id = ''re_'' @ en_uuid env C_Event, e_event_type = ''session_hibernate'',
                  e_target_id = Some i, e_rss_mb = None, e_cpu_percent = None,
                  e_detail_json = None, e_created_at_ms = en_now env C_Hot_Binding\<rparr>"
  have run: "run_state (hibernate_section env mg i) d =
      (case commit_hibernate_binding_and_status (en_now env C_Hibernate) ?b i (subagent_status_str ?st) d of
         Inl e \<Rightarrow> (Inl (Store e), d)
       | Inr d1 \<Rightarrow> (Inr (sub, Some b), snd (run_state (ignore (exec env C_Event (insert_resource_event ?e))) d1)))"
    using res id assms(1,3) by (simp add: hibernate_section_def Let_def split: sum.split)
  then obtain d1 where h: "commit_hibernate_binding_and_status (en_now env C_Hibernate) ?b i (subagent_status_str ?st) d = Inr d1"
    using assms(2) by (auto split: sum.splits)
  with run assms(2) have o: "original = Some b"
    and d': "d' = snd (run_state (ignore (exec env C_Event (insert_resource_event ?e))) d1)"
    by simp_all
  have "bindings d' = bindings d1" "logicals d' = logicals d1" "tasks d' = tasks d1"
    using assms(1) by (auto simp: d' insert_resource_event_def)
  moreover have "\<exists>c \<in> set (bindings d1). b_id c = b_id b \<and> b_status c = ''closed'' \<and> \<not> is_hot c"
    using commit_hibernateD[OF h] by (auto simp: is_hot_def)
  moreover have "subagent_status_str ?st = (if Option.bind (get_memory i d) m_hot_summary \<noteq> None then ''warm'' else ''cold'')"
    by simp
  ultimately show ?thesis using commit_hibernateD[OF h] id o by presburger
qed

text \<open>
  A hibernate that succeeds on a subagent with a hot binding, with no store failure and nothing
  else running: the adapter closed the binding's session, the row is closed, the subagent is warm
  exactly when its memory has a hot summary and cold otherwise, and no task changed.
\<close>

theorem hibernate_success:
  assumes "calm_env env" "run_state (hibernate env mg ex True \<lparr>rp_name = None, rp_id = Some i, rp_cwd = None\<rparr>) d = (Inr j, d')"
    and "hot_binding i (mg_adapter mg) d = Some b"
  shows "j = i \<and> (case b_adapter_session_id b of None \<Rightarrow> True | Some s \<Rightarrow> \<exists>pid. ex_close_session ex s pid = None)
    \<and> (\<exists>c \<in> set (bindings d'). b_id c = b_id b \<and> b_status c = ''closed'' \<and> \<not> is_hot c)
    \<and> map l_status (logicals d') = map (\<lambda>l. if l_id l = i \<and> active l
          then (if Option.bind (get_memory i d) m_hot_summary \<noteq> None then ''warm'' else ''cold'') else l_status l) (logicals d)
    \<and> tasks d' = tasks d"
proof -
  let ?p = "\<lparr>rp_name = None, rp_id = Some i, rp_cwd = None\<rparr> :: resolve_params"
  obtain found where f: "run_state (resolve env ?p) d = (Inr found, d)" "s_id found = i"
    using assms(1,2) resolve_by_id_sound[where env = env and i = i and d = d]
    by (auto simp: hibernate_def resolve_def split: prod.splits sum.splits)
  obtain sub original d1 where s: "run_state (hibernate_section env mg i) d = (Inr (sub, original), d1)"
    using assms(1,2) f by (auto simp: hibernate_def split: prod.splits sum.splits)
  have h: "s_id sub = i" "original = Some b" using hibernate_sectionD[OF assms(1) s assms(3)] by simp_all
  have "j = i \<and> d' = d1 \<and> (case b_adapter_session_id b of None \<Rightarrow> True | Some x \<Rightarrow> \<exists>pid. ex_close_session ex x pid = None)"
    using assms(1,2) f s h by (auto simp: hibernate_def split: option.splits)
  with hibernate_sectionD[OF assms(1) s assms(3)] show ?thesis by simp
qed

theorem hibernate_success_witness:
  "case run_state (hibernate (quiet_env 9) sample_manager mock_executor True
        \<lparr>rp_name = None, rp_id = Some ''x'', rp_cwd = None\<rparr>) sample_full of (r, d') \<Rightarrow>
     r = Inr ''x'' \<and> map l_status (logicals d') = [''cold'', ''cold'']"
proof -
  let ?p = "\<lparr>rp_name = None, rp_id = Some ''x'', rp_cwd = None\<rparr> :: resolve_params"
  have b: "hot_binding ''x'' (mg_adapter sample_manager) sample_full = Some (sample_binding ''bx'' ''x'' 1 ''hot'')"
    by (simp add: hot_binding_def sample_manager_def sample_binding_def is_hot_def)
  have "\<exists>sub d1. run_state (hibernate_section (quiet_env 9) sample_manager ''x'') sample_full
      = (Inr (sub, Some (sample_binding ''bx'' ''x'' 1 ''hot'')), d1) \<and> s_id sub = ''x''"
    by (simp add: hibernate_section_def resolve_def resolve_by_id_def
        resolve_by_id_include_deleted_def get_logical_subagent_def b Let_def get_memory_def
        commit_hibernate_binding_and_status_def upsert_binding_def put_bindings_def put_logicals_def
        sample_binding_def overwrite_binding_def one_hot_def is_hot_def touch_logical_def
        unique_active_names_def active_def name_key_def sample_logical_def
        row_to_model_def subagent_status_parse_def)
  then obtain sub d1 where s: "run_state (hibernate_section (quiet_env 9) sample_manager ''x'') sample_full
      = (Inr (sub, Some (sample_binding ''bx'' ''x'' 1 ''hot'')), d1)" "s_id sub = ''x''" by blast
  have f: "run_state (resolve (quiet_env 9) ?p) sample_full = (Inr sample_sub, sample_full)"
    by (simp add: resolve_def resolve_by_id_def resolve_by_id_include_deleted_def get_logical_subagent_def row_to_model_status)
  have "\<exists>j d'. run_state (hibernate (quiet_env 9) sample_manager mock_executor True ?p) sample_full = (Inr j, d')"
    using f s by (simp add: hibernate_def mock_executor_def sample_binding_def)
  then obtain j d' where r: "run_state (hibernate (quiet_env 9) sample_manager mock_executor True ?p) sample_full = (Inr j, d')"
    by blast
  from hibernate_success[OF calm_env_quiet r b] r show ?thesis by (simp add: active_def get_memory_def)
qed

text \<open>Delete.\<close>

lemma soft_delete_statement:
  assumes ok: "db_ok d" and l: "get_logical_subagent i d = Some l" and now: "calm_env env"
  shows "\<exists>d'. run_state (set_logical_status env i Deleted) d = (Inr (), d')
    \<and> map l_status (logicals d') = map (\<lambda>x. if l_id x = i then ''deleted'' else l_status x) (logicals d)
    \<and> map l_id (logicals d') = map l_id (logicals d)
    \<and> bindings d' = bindings d \<and> tasks d' = tasks d \<and> memories d' = memories d"
proof -
  let ?row = "l\<lparr>l_status := ''deleted'', l_updated_at_ms := en_now env C_Status_Write,
      l_last_active_at_ms := Some (en_now env C_Status_Write)\<rparr>"
  let ?f = "\<lambda>x. ?row\<lparr>l_created_at_ms := l_created_at_ms x\<rparr>"
  let ?ls = "upd_where (\<lambda>x. l_id x = i) ?f (logicals d)"
  note in_l = get_logical_in[OF l]
  have u: "unique_active_names ?ls"
  proof -
    have "filter active ?ls = filter (\<lambda>x. \<not> l_id x = i) (filter active (logicals d))"
      by (rule filter_upd_where_drop) (simp add: active_def)
    then show ?thesis
      using distinct_map_filter[OF db_okD(2)[OF ok, unfolded unique_active_names_def], of "\<lambda>x. \<not> l_id x = i"]
      by (simp only: unique_active_names_def)
  qed
  have "\<forall>x \<in> set ?ls. logical_status_allowed (l_status x)"
    using db_okD(7)[OF ok] by (auto elim!: in_upd_whereE)
  with u have "put_logicals ?ls d = Inr (d\<lparr>logicals := ?ls\<rparr>)" by (simp add: put_logicals_def list_all_iff)
  moreover have "has_logical (l_id ?row) d" using in_l get_logical_None[of i d] l by auto
  ultimately have "run_state (set_logical_status env i Deleted) d = (Inr (), d\<lparr>logicals := ?ls\<rparr>)"
    using now l in_l by (simp add: set_logical_status_def Let_def upsert_logical_subagent_def)
  moreover have "map l_status ?ls = map (\<lambda>x. if l_id x = i then ''deleted'' else l_status x) (logicals d)"
    by (simp add: upd_where_def)
  moreover have "map l_id ?ls = map l_id (logicals d)" using in_l by (intro map_upd_where) simp
  ultimately show ?thesis by simp
qed

lemma get_logical_by_lists:
  assumes "map l_id (logicals d') = map l_id (logicals d)" "get_logical_subagent i d = Some l"
    and "map l_status (logicals d') = map (\<lambda>x. if l_id x = i then st else l_status x) (logicals d)"
  shows "\<exists>l'. get_logical_subagent i d' = Some l' \<and> l_status l' = st"
proof -
  have "i \<in> l_id ` set (logicals d')"
    using assms(1) get_logical_in[OF assms(2)] by (metis image_eqI list.set_map)
  then obtain l' where l': "get_logical_subagent i d' = Some l'"
    by (cases "get_logical_subagent i d'") (auto simp: get_logical_None has_logical_iff)
  then obtain k where k: "k < length (logicals d')" "logicals d' ! k = l'" "l_id l' = i"
    by (meson get_logical_in in_set_conv_nth)
  have len: "length (logicals d') = length (logicals d)" using assms(1) by (metis length_map)
  have "l_id (logicals d ! k) = i" using arg_cong[OF assms(1), of "\<lambda>xs. xs ! k"] k len by simp
  then have "l_status l' = st" using arg_cong[OF assms(3), of "\<lambda>xs. xs ! k"] k len by simp
  with l' show ?thesis by blast
qed

text \<open>
  A soft delete of a known subagent, on a store that satisfies the schema, with no store failure
  and nothing else running, always succeeds; it only marks the row deleted, keeping its tasks,
  memory and bindings (also a hot binding), and doing it again succeeds and changes nothing.
\<close>

theorem soft_delete_effects:
  assumes "db_ok d" "calm_env env" "get_logical_subagent i d = Some l" "l_status l \<noteq> ''deleted''"
  shows "\<exists>d'. run_state (delete_subagent env True \<lparr>rp_name = None, rp_id = Some i, rp_cwd = None\<rparr> False) d = (Inr i, d')
    \<and> map l_status (logicals d') = map (\<lambda>x. if l_id x = i then ''deleted'' else l_status x) (logicals d)
    \<and> bindings d' = bindings d \<and> tasks d' = tasks d \<and> memories d' = memories d
    \<and> run_state (delete_subagent env True \<lparr>rp_name = None, rp_id = Some i, rp_cwd = None\<rparr> False) d' = (Inr i, d')"
proof -
  note in_l = get_logical_in[OF assms(3)]
  obtain d' where d': "run_state (set_logical_status env i Deleted) d = (Inr (), d')"
    "map l_status (logicals d') = map (\<lambda>x. if l_id x = i then ''deleted'' else l_status x) (logicals d)"
    "map l_id (logicals d') = map l_id (logicals d)" "bindings d' = bindings d" "tasks d' = tasks d" "memories d' = memories d"
    using soft_delete_statement[OF assms(1,3,2)] by blast
  obtain l' where l': "get_logical_subagent i d' = Some l'" "l_status l' = ''deleted''"
    using get_logical_by_lists[OF d'(3) assms(3) d'(2)] by blast
  have "run_state (delete_subagent env True \<lparr>rp_name = None, rp_id = Some i, rp_cwd = None\<rparr> False) d = (Inr i, d')"
    using assms(2-4) in_l d'(1)
    by (simp add: delete_subagent_def delete_resolve_def delete_section_def resolve_by_id_include_deleted_def
        row_to_model_status)
  moreover have "run_state (delete_subagent env True \<lparr>rp_name = None, rp_id = Some i, rp_cwd = None\<rparr> False) d' = (Inr i, d')"
    using assms(2) l' get_logical_in[OF l'(1)]
    by (simp add: delete_subagent_def delete_resolve_def delete_section_def resolve_by_id_include_deleted_def
        row_to_model_status)
  ultimately show ?thesis using d' by blast
qed

theorem soft_delete_effects_witness:
  "\<exists>d'. run_state (delete_subagent (quiet_env 9) True \<lparr>rp_name = None, rp_id = Some ''x'', rp_cwd = None\<rparr> False) sample_store
      = (Inr ''x'', d') \<and> map l_status (logicals d') = [''deleted'', ''cold'']
      \<and> has_hot ''x'' d'"
proof -
  have g: "get_logical_subagent ''x'' sample_store = Some (sample_logical ''x'' ''one'' ''hot'')"
    by (simp add: get_logical_subagent_def sample_store_def)
  from soft_delete_effects[OF sample_store_ok(1) calm_env_quiet g, of 9]
  show ?thesis by (auto simp: sample_store_def has_hot_def sample_binding_def is_hot_def)
qed

text \<open>A deleted subagent with a task still queued.\<close>

definition tombstone_db :: db where
  "tombstone_db = sample_catalog (empty_db\<lparr>
     logicals := [sample_logical ''x'' ''one'' ''deleted''],
     tasks := [sample_task ''a'' ''x'' ''queued'' 1 None]\<rparr>)"

abbreviation "tombstone_task \<equiv> (sample_task ''a'' ''x'' ''running'' 1 (Some 9))"

lemma tombstone_tables [simp]:
  "tasks tombstone_db = [sample_task ''a'' ''x'' ''queued'' 1 None]"
  "logicals tombstone_db = [sample_logical ''x'' ''one'' ''deleted'']"
  "bindings tombstone_db = []" "memories tombstone_db = []" "usages tombstone_db = []"
  "providers tombstone_db = providers sample_full" "models tombstone_db = models sample_full"
  by (simp_all add: tombstone_db_def sample_catalog_def empty_db_def)

lemma tombstone_pick:
  "pick_oldest_queued_task 9 tombstone_db = (Some tombstone_task, tombstone_db\<lparr>tasks := [tombstone_task]\<rparr>)"
  by (simp add: pick_oldest_queued_task_def eligible_def running_for_def start_task_def get_task_def)
    (simp add: sample_task_def)

abbreviation "tombstone_sub \<equiv> row_to_model (sample_logical ''x'' ''one'' ''deleted'')"
abbreviation "tombstone_picked \<equiv> tombstone_db\<lparr>tasks := [tombstone_task]\<rparr>"

lemma tombstone_persist:
  assumes "xo_error_kind out = None" "xo_memory_update out = memory_update_default"
  shows "\<exists>mem' d'. run_state (persist_result (quiet_env 9) sample_manager tombstone_task tombstone_sub
      (inp, new_empty_memory 9 ''x'', n, None) out dur) tombstone_picked = (Inr mem', d')
     \<and> logicals d' = logicals tombstone_db \<and> m_hot_summary mem' = None"
  using assms
  by (simp add: persist_result_def Let_def set_guarded_def set_task_status_if_not_cancelled_def
      set_error_kind_def insert_usage_record_def usage_row_of_def upsert_memory_def update_memory_ids
      has_logical_def new_empty_memory_def memory_update_default_def)

lemma tombstone_complete:
  assumes "xo_error_kind out = None" "xo_memory_update out = memory_update_default" "hot_session_id out = None"
  shows "\<exists>res calls d'. run_state (complete_task (quiet_env 9) sample_manager mock_executor
      tombstone_task tombstone_sub prov (inp, new_empty_memory 9 ''x'', n, None) st out) tombstone_picked
      = ((Inr res, calls), d') \<and> map l_status (logicals d') = [''cold'']"
proof -
  obtain mem' d4 where p: "run_state (persist_result (quiet_env 9) sample_manager tombstone_task tombstone_sub
      (inp, new_empty_memory 9 ''x'', n, None) out (i64_saturating_sub 9 st)) tombstone_picked = (Inr mem', d4)"
    "logicals d4 = logicals tombstone_db" "m_hot_summary mem' = None"
    using tombstone_persist[OF assms(1,2)] by blast
  have "\<exists>d5. run_state (set_logical_status (quiet_env 9) ''x'' Cold) d4 = (Inr (), d5) \<and> map l_status (logicals d5) = [''cold'']"
    using p(2) by (simp add: set_logical_status_def get_logical_subagent_def upsert_logical_subagent_def
        has_logical_def put_logicals_def unique_active_names_def active_def)
  with p(1,3) assms(3) show ?thesis
    by (auto simp: complete_task_def persist_section_def session_lifecycle_def final_status_def Let_def)
qed

text \<open>
  The dispatcher does not ask whether the owner of a queued task was deleted: it runs the task,
  and the status written at the end brings the tombstone back to life.
\<close>

theorem dispatcher_revives_tombstone:
  "map l_status (logicals tombstone_db) = [''deleted'']
   \<and> map l_status (logicals (snd (run_state (dispatcher_tick (quiet_env 9) sample_manager mock_executor False)
        tombstone_db))) = [''cold'']"
proof -
  let ?prov = "hd (providers sample_full)" and ?md = "hd (models sample_full)"
  have g: "get_task ''a'' tombstone_picked = Some tombstone_task"
    "get_logical_subagent ''x'' tombstone_picked = Some (sample_logical ''x'' ''one'' ''deleted'')"
    by (simp_all add: get_task_def get_logical_subagent_def)
  have v: "run_state (validate_bound_resources (quiet_env 9) tombstone_sub ''mod'') tombstone_picked
      = (Inr (?prov, ?md), tombstone_picked)"
    by (simp add: validate_bound_resources_def get_provider_with_secret_def
        get_model_by_provider_and_model_id_def sample_catalog_def)
  have "\<exists>inp n. run_state (prepare_input (quiet_env 9) sample_manager tombstone_task tombstone_sub ''mod'' ?prov ?md)
      tombstone_picked = (Inr (inp, new_empty_memory 9 ''x'', n, None), tombstone_picked)"
    by (simp add: prepare_input_def Let_def g get_memory_def sample_manager_def split: prod.split)
  then obtain inp n where s: "run_state (prepare_input (quiet_env 9) sample_manager tombstone_task tombstone_sub ''mod'' ?prov ?md)
      tombstone_picked = (Inr (inp, new_empty_memory 9 ''x'', n, None), tombstone_picked)" by blast
  obtain out where o: "ex_execute mock_executor inp = Inr out" "xo_error_kind out = None"
    "xo_memory_update out = memory_update_default" "hot_session_id out = None"
    by (simp add: mock_executor_def Let_def hot_session_id_def)
  have "map l_status (logicals (snd (run_state (execute_and_persist (quiet_env 9) sample_manager mock_executor False
      tombstone_task tombstone_sub) tombstone_picked))) = [''cold'']"
  proof -
    have "run_state (execute_task (quiet_env 9) sample_manager mock_executor False tombstone_task tombstone_sub) tombstone_picked
        = run_state (complete_task (quiet_env 9) sample_manager mock_executor tombstone_task tombstone_sub ?prov
            (inp, new_empty_memory 9 ''x'', n, None) 9 out) tombstone_picked"
      using g v s o by (simp add: execute_task_def Let_def)
    with tombstone_complete[OF o(2-4), of ?prov inp n 9] show ?thesis
      by (auto simp: execute_and_persist_def)
  qed
  then show ?thesis
    by (auto simp: dispatcher_tick_def tombstone_pick ok_flatten_def g split: prod.splits)
qed

end
