(* ===== verification/Subagent_System.thy ===== *)
theory Subagent_System
  imports Manager_Control Step_Machines
begin

text \<open>
  The subagent layer as a transition system over the shared database. A step is one run of a
  handler in an environment whose other threads keep the store's invariant between the handler's
  critical sections, or one transaction of the sidecar supervisor. The Boolean of a step says whether its busy check
  answered: \<open>delegate\<close> takes a failing one for no.
\<close>

section \<open>Steps\<close>

inductive sys_step :: "manager \<Rightarrow> bool \<Rightarrow> db \<Rightarrow> db \<Rightarrow> bool" for mg where
  sys_delegate: "rely_ok env \<Longrightarrow> run_state (delegate env mg req) d = (r, d')
     \<Longrightarrow> sys_step mg (\<not> en_fault env C_Has_Running) d d'"
| sys_execute: "rely_ok env \<Longrightarrow> executor_ok ex \<Longrightarrow>
     run_state (execute_and_persist env mg ex cs task sub) d = (r, d') \<Longrightarrow> sys_step mg True d d'"
| sys_tick: "rely_ok env \<Longrightarrow> executor_ok ex \<Longrightarrow>
     run_state (dispatcher_tick env mg ex cs) d = (r, d') \<Longrightarrow> sys_step mg True d d'"
| sys_reap: "rely_ok env \<Longrightarrow> run_state (reap_orphaned_tasks env mg) d = (r, d') \<Longrightarrow> sys_step mg True d d'"
| sys_cancel: "rely_ok env \<Longrightarrow> run_state (cancel_task env i reason) d = (r, d') \<Longrightarrow> sys_step mg True d d'"
| sys_hibernate: "rely_ok env \<Longrightarrow> run_state (hibernate env mg ex g p) d = (r, d') \<Longrightarrow> sys_step mg True d d'"
| sys_delete: "rely_ok env \<Longrightarrow> run_state (delete_subagent env g p hard) d = (r, d') \<Longrightarrow> sys_step mg True d d'"
| sys_session: "run_session_op op d = Inr d' \<Longrightarrow> sys_step mg True d d'"
| sys_event: "insert_resource_event row d = Inr d' \<Longrightarrow> sys_step mg True d d'"

inductive_cases sys_stepE: "sys_step mg answered d d'"

text \<open>A database with a catalog and nothing else, as after the migrations.\<close>

definition fresh_db :: "db \<Rightarrow> bool" where
  "fresh_db d \<longleftrightarrow> logicals d = [] \<and> memories d = [] \<and> tasks d = [] \<and> bindings d = []
     \<and> usages d = [] \<and> events d = []"

lemma fresh_db_ok: "fresh_db d \<Longrightarrow> db_ok d"
  by (simp add: fresh_db_def db_ok_defs child_ids_def unique_active_names_def one_hot_def)

lemma sys_step_db_ok:
  assumes "sys_step mg True d d'" "db_ok d"
  shows "db_ok d'"
  using assms(1)
proof (cases rule: sys_step.cases)
  case (sys_delegate env req r)
  then show ?thesis by (intro keepsD[OF delegate_keeps assms(2) sys_delegate(3)]) simp_all
next
  case (sys_execute env ex cs task sub r)
  show ?thesis by (rule keepsD[OF execute_and_persist_keeps[OF sys_execute(1,2)] assms(2) sys_execute(3)])
next
  case (sys_tick env ex cs r)
  show ?thesis by (rule keepsD[OF dispatcher_tick_keeps[OF sys_tick(1,2)] assms(2) sys_tick(3)])
next
  case (sys_reap env r)
  show ?thesis by (rule keepsD[OF reap_orphaned_tasks_keeps[OF sys_reap(1)] assms(2) sys_reap(2)])
next
  case (sys_cancel env i reason r)
  show ?thesis by (rule keepsD[OF cancel_task_keeps[OF sys_cancel(1)] assms(2) sys_cancel(2)])
next
  case (sys_hibernate env ex g p r)
  show ?thesis by (rule keepsD[OF hibernate_keeps[OF sys_hibernate(1)] assms(2) sys_hibernate(2)])
next
  case (sys_delete env g p hard r)
  show ?thesis by (rule keepsD[OF delete_keeps[OF sys_delete(1)] assms(2) sys_delete(2)])
next
  case (sys_session op)
  then show ?thesis using run_session_op_db_ok assms(2) by blast
next
  case (sys_event row)
  then show ?thesis using insert_event_db_ok assms(2) by blast
qed

interpretation system: invariant_machine fresh_db "sys_step mg True" db_ok for mg
  by unfold_locales (auto intro: fresh_db_ok sys_step_db_ok)

section \<open>Sessions\<close>

text \<open>
  The statements that create and change subagents and their sessions, called as their doc comments
  ask: a fresh subagent is inserted cold under a new id, and the session transactions run on their
  callers' rows.
\<close>

inductive session_step :: "string \<Rightarrow> db \<Rightarrow> db \<Rightarrow> bool" for h where
  session_create: "l_status row = ''cold'' \<Longrightarrow> \<not> has_logical (l_id row) d \<Longrightarrow>
     upsert_logical_subagent row d = Inr d' \<Longrightarrow> session_step h d d'"
| session_run: "session_call h op d \<Longrightarrow> run_session_op op d = Inr d' \<Longrightarrow> session_step h d d'"

inductive_cases session_stepE: "session_step h d d'"

definition session_inv :: "string \<Rightarrow> db \<Rightarrow> bool" where
  "session_inv h d \<longleftrightarrow> db_ok d \<and> hot_inv h d"

lemma session_create_inv:
  assumes "session_inv h d" "l_status row = ''cold''" "\<not> has_logical (l_id row) d"
    and "upsert_logical_subagent row d = Inr d'"
  shows "session_inv h d'"
proof -
  have d': "d' = d\<lparr>logicals := logicals d @ [row]\<rparr>"
    using assms(3,4) by (auto simp: upsert_logical_subagent_def dest: put_logicalsD(1))
  have "\<not> has_hot (l_id row) d"
    using assms(1,3) db_okD(8)[of d] unfolding session_inv_def has_hot_iff by metis
  then have "hot_inv h d'" using assms(1,2) by (auto simp: session_inv_def hot_inv_def d' has_hot_def)
  with assms(1,4) upsert_logical_db_ok show ?thesis by (auto simp: session_inv_def)
qed

interpretation sessions: invariant_machine fresh_db "session_step h" "session_inv h" for h
proof unfold_locales
  show "fresh_db d \<Longrightarrow> session_inv h d" for d by (simp add: session_inv_def fresh_db_ok) (simp add: fresh_db_def hot_inv_def)
  show "session_inv h d \<Longrightarrow> session_step h d d' \<Longrightarrow> session_inv h d'" for d d'
  proof (erule session_stepE)
    fix row assume "session_inv h d" "l_status row = ''cold''" "\<not> has_logical (l_id row) d"
      "upsert_logical_subagent row d = Inr d'"
    then show "session_inv h d'" by (rule session_create_inv)
  next
    fix op assume "session_inv h d" "session_call h op d" "run_session_op op d = Inr d'"
    then show "session_inv h d'"
      using session_op_inv run_session_op_db_ok unfolding session_inv_def by blast
  qed
qed

section \<open>Properties\<close>

text \<open>
  C1. As long as the busy check of every \<open>delegate\<close> answers (a failing one is taken for no, see \<open>failing_busy_check\<close>), in
  every state the subagent layer can reach from an empty store, under any interleaving of its
  handlers and of the sidecar's transactions: a subagent runs at most one task at a time, a running
  task has a start time and a queued one has none, no row names a subagent that does not exist, and
  active names and hot bindings are unique.
\<close>

theorem reachable_store_ok:
  assumes "reach fresh_db (sys_step mg True) d"
  shows "count_where (running_for sid) (tasks d) \<le> 1
    \<and> (\<forall>t \<in> set (tasks d). has_logical (t_subagent_id t) d
         \<and> (if t_status t = ''running'' then t_started_at_ms t \<noteq> None
            else if t_status t = ''queued'' then t_started_at_ms t = None else True))
    \<and> child_ids d \<subseteq> l_id ` set (logicals d)
    \<and> unique_active_names (logicals d) \<and> one_hot (bindings d)"
proof -
  have ok: "db_ok d" by (rule system.reachable_inv[OF assms])
  have "\<forall>t \<in> set (tasks d). task_ok t" using tasks_okD(2)[OF db_okD(1)[OF ok]] by blast
  moreover have "child_ids d \<subseteq> l_id ` set (logicals d)" using ok by (simp add: db_ok_def fk_ok_def)
  ultimately show ?thesis
    using db_okD(2,3,6)[OF ok] tasks_okD(3)[OF db_okD(1)[OF ok], of sid] by (auto simp: task_ok_def)
qed

text \<open>A request that creates its subagent, from the catalog alone.\<close>

definition first_request :: delegate_request where
  "first_request = (sample_request ''x'')\<lparr>rq_subagent_id := None, rq_subagent_name := ''one'',
     rq_bound_provider_id := Some ''prov'', rq_bound_model_id := Some ''mod''\<rparr>"

lemmas delegate_run = delegate_def check_request_def first_request_def sample_manager_def sample_request_def
      profile_known_def resolve_target_def resolve_by_name_def is_valid_name_def is_ascii_alphanumeric_def
      find_by_name_in_repo_def validate_bound_provider_model_def create_subagent_def
      sample_catalog_def empty_db_def get_provider_with_secret_def get_model_by_provider_and_model_id_def
      upsert_logical_subagent_def put_logicals_def has_logical_def unique_active_names_def
      upsert_memory_def new_empty_memory_def check_reuse_policy_def validate_bound_resources_def
      insert_section_def has_running_task_def queue_decision_def insert_task_def new_task_row_def
      row_to_model_def Let_def

lemma first_delegate:
  "\<exists>r d'. run_state (delegate (quiet_env 5) sample_manager first_request) (sample_catalog empty_db) = (r, d')
     \<and> map t_status (tasks d') = [''running'']"
  by (simp add: delegate_run)

theorem reachable_store_ok_witness:
  "\<exists>d. reach fresh_db (sys_step sample_manager True) d \<and> map t_status (tasks d) = [''running'']
     \<and> count_where (running_for ''u'') (tasks d) \<le> 1"
proof -
  obtain r d' where d: "run_state (delegate (quiet_env 5) sample_manager first_request) (sample_catalog empty_db) = (r, d')"
    "map t_status (tasks d') = [''running'']"
    using first_delegate by (elim exE conjE) (rule that)
  have "reach fresh_db (sys_step sample_manager True) (sample_catalog empty_db)"
    by (rule reach_init) (simp add: fresh_db_def sample_catalog_def empty_db_def)
  moreover have "sys_step sample_manager True (sample_catalog empty_db) d'"
    using sys_delegate[OF rely_ok_quiet d(1)] by simp
  ultimately have "reach fresh_db (sys_step sample_manager True) d'" by (rule reach_step)
  with d(2) reachable_store_ok[OF this, of "''u''"] show ?thesis by (intro exI[of _ d'] conjI) simp_all
qed

text \<open>The same request again, the check for a running task failing.\<close>

definition failing_check :: env where
  "failing_check = (quiet_env 6)\<lparr>en_uuid := (\<lambda>_. ''v''), en_fault := (\<lambda>c. c = C_Has_Running)\<rparr>"

lemma rely_ok_failing_check: "rely_ok failing_check"
  by (simp add: failing_check_def rely_ok_def)

text \<open>The state after the first request.\<close>

definition one_running :: db where
  "one_running = snd (run_state (delegate (quiet_env 5) sample_manager first_request) (sample_catalog empty_db))"

lemma second_delegate:
  "map (\<lambda>t. (t_id t, t_subagent_id t, t_status t))
      (tasks (snd (run_state (delegate failing_check sample_manager first_request) one_running)))
   = [(''task_u'', ''u'', ''running''), (''task_v'', ''u'', ''running'')]"
  by (simp add: delegate_run one_running_def failing_check_def canonical_cwd_def)

text \<open>
  When the busy check of a \<open>delegate\<close> fails it is taken for no: from a reachable state in which a subagent runs a task, a
  second request whose check fails starts another one, and two tasks of the subagent run at once.
\<close>

theorem failing_busy_check:
  "\<exists>d d'. reach fresh_db (sys_step sample_manager True) d \<and> sys_step sample_manager False d d'
     \<and> count_where (running_for ''u'') (tasks d') = 2"
proof -
  obtain r d where d: "run_state (delegate (quiet_env 5) sample_manager first_request) (sample_catalog empty_db) = (r, d)"
    by fastforce
  then have "reach fresh_db (sys_step sample_manager True) one_running"
    using sys_delegate[OF rely_ok_quiet d] reach_step[OF reach_init[of fresh_db "sample_catalog empty_db"]]
    by (simp add: one_running_def fresh_db_def sample_catalog_def empty_db_def)
  moreover obtain r' d' where d': "run_state (delegate failing_check sample_manager first_request) one_running = (r', d')"
    by fastforce
  have "\<not> sys_step sample_manager False one_running d' \<Longrightarrow> False"
    using sys_delegate[OF rely_ok_failing_check d'] by (simp add: failing_check_def)
  moreover have "count_where (running_for ''u'') (tasks d') = 2"
    using second_delegate by (auto simp: d' running_for_def)
  ultimately show ?thesis by blast
qed

text \<open>
  C3. A subagent that is not deleted has the status \<open>hot\<close> exactly when it has a hot binding, in every
  state reachable by creating subagents and by the session transactions (commit, restore,
  hibernate, evict, crash, shutdown), called with rows of the kind their comments ask for; and no
  subagent ever has two.
\<close>

theorem hot_iff_binding:
  assumes "reach fresh_db (session_step h) d" "l \<in> set (logicals d)" "active l"
  shows "(l_status l = ''hot'' \<longleftrightarrow> has_hot (l_id l) d)
    \<and> count_where (\<lambda>b. is_hot b \<and> b_subagent_id b = l_id l) (bindings d) \<le> 1"
proof -
  have inv: "db_ok d" "hot_inv h d" using sessions.reachable_inv[OF assms(1)] by (simp_all add: session_inv_def)
  have "length (filter (\<lambda>b. k = hot_key b) bs) \<le> 1" if "distinct (map hot_key bs)" for bs :: "binding_row list" and k
    using that by (induction bs) (auto simp: filter_empty_conv rev_image_eqI)
  from this[of "filter is_hot (bindings d)" "(l_id l, h)"] db_okD(3)[OF inv(1)]
  have "length (filter (\<lambda>b. (l_id l, h) = hot_key b) (filter is_hot (bindings d))) \<le> 1" by (simp add: one_hot_def)
  moreover have "filter (\<lambda>b. (l_id l, h) = hot_key b) (filter is_hot (bindings d))
      = filter (\<lambda>b. is_hot b \<and> b_subagent_id b = l_id l) (bindings d)"
    using inv(2) by (auto simp: hot_inv_def hot_key_def intro!: filter_cong)
  ultimately show ?thesis using inv(2) assms(2,3) by (simp add: hot_inv_def count_where_def)
qed

theorem hot_iff_binding_witness:
  "\<exists>d. reach fresh_db (session_step ''pi-sdk'') d \<and> map l_status (logicals d) = [''hot''] \<and> has_hot ''x'' d"
proof -
  let ?l = "sample_logical ''x'' ''one'' ''cold''"
  let ?d1 = "empty_db\<lparr>logicals := [?l]\<rparr>"
  let ?op = "Commit_Hot 9 (sample_binding ''bx'' ''x'' 1 ''hot'') ''x''"
  have "reach fresh_db (session_step ''pi-sdk'') empty_db"
    by (rule reach_init) (simp add: fresh_db_def empty_db_def)
  then have r1: "reach fresh_db (session_step ''pi-sdk'') ?d1"
  proof (rule reach_step[where step = "session_step ''pi-sdk''"])
    show "session_step ''pi-sdk'' empty_db ?d1"
      by (rule session_create[of ?l])
        (simp_all add: has_logical_def empty_db_def upsert_logical_subagent_def put_logicals_def
          unique_active_names_def active_def)
  qed
  have "\<exists>d2. run_session_op ?op ?d1 = Inr d2 \<and> map l_status (logicals d2) = [''hot''] \<and> l_id (hd (logicals d2)) = ''x''"
    by (simp add: commit_hot_binding_and_status_def upsert_hot_binding_def put_bindings_def put_logicals_def
        sample_binding_def is_hot_def hot_key_def one_hot_def empty_db_def has_logical_def
        unique_active_names_def active_def Let_def)
  then obtain d2 where d2: "run_session_op ?op ?d1 = Inr d2" "map l_status (logicals d2) = [''hot'']"
    "l_id (hd (logicals d2)) = ''x''" by (elim exE conjE) (rule that)
  have call: "session_call ''pi-sdk'' ?op ?d1" by (simp add: sample_binding_def is_hot_def)
  have r2: "reach fresh_db (session_step ''pi-sdk'') d2"
    by (rule reach_step[where step = "session_step ''pi-sdk''", OF r1]) (rule session_run[OF call d2(1)])
  have l: "hd (logicals d2) \<in> set (logicals d2)" "l_status (hd (logicals d2)) = ''hot''"
    using d2(2) by (cases "logicals d2"; simp)+
  then have "has_hot ''x'' d2" using hot_iff_binding[OF r2 l(1)] d2(3) by (simp add: active_def)
  with r2 d2(2) show ?thesis by (intro exI[of _ d2] conjI)
qed

end
