(* ===== verification/Pressure.thy ===== *)
theory Pressure
  imports Step_Machines Complex_Main
begin

text \<open>
  Resource pressure: the gate and the responder of \<^verbatim>\<open>crates/busytok-subagent/src/pressure.rs\<close>,
  the predicates and the latch of \<^verbatim>\<open>resource.rs\<close>, and the decision the supervision loop takes
  on a sample (\<open>maybe_sample_resources\<close> in
  \<^verbatim>\<open>sidecar/supervisor.rs\<close>). The detached responder tasks are
  interleaved with the loop's ticks in a step relation.
\<close>

section \<open>The gate\<close>

datatype pressure_action = Resume | HibernateLru | PauseNewTasks | GracefulRestart | ForceKill

fun pauses :: "pressure_action \<Rightarrow> bool" where
  "pauses PauseNewTasks = True"
| "pauses GracefulRestart = True"
| "pauses ForceKill = True"
| "pauses _ = False"

record pressure_gate =
  g_paused :: bool
  g_last_action :: pressure_action

definition gate_new :: pressure_gate where
  "gate_new = \<lparr>g_paused = False, g_last_action = Resume\<rparr>"

definition set_action :: "pressure_action \<Rightarrow> pressure_gate \<Rightarrow> pressure_gate" where
  "set_action a g = g\<lparr>g_paused := pauses a, g_last_action := a\<rparr>"

section \<open>The responder\<close>

text \<open>What one run of \<open>respond\<close> does, in order; its calls' results are in the world.\<close>

datatype effect = Set_Gate pressure_action | Evict_Lru | Ensure_Started | Prepare_Hibernate_All
  | Shutdown_Internal | Force_Kill

record responder_world =
  rw_supervisor_alive :: bool
  rw_executor_alive :: bool
  rw_ensure_started_ok :: bool
  rw_shutdown_ok :: bool

definition respond_effects :: "responder_world \<Rightarrow> pressure_action \<Rightarrow> effect list" where
  "respond_effects w a =
     (if \<not> rw_supervisor_alive w then []
      else if \<not> rw_executor_alive w then []
      else case a of
        Resume \<Rightarrow> [Set_Gate Resume]
      | HibernateLru \<Rightarrow> [Evict_Lru, Set_Gate HibernateLru]
      | PauseNewTasks \<Rightarrow> [Set_Gate PauseNewTasks, Evict_Lru]
      | GracefulRestart \<Rightarrow>
          [Set_Gate GracefulRestart, Ensure_Started]
          @ (if rw_ensure_started_ok w then [Prepare_Hibernate_All] else [])
          @ [Shutdown_Internal]
          @ (if rw_shutdown_ok w then [Set_Gate Resume]
             else [Set_Gate ForceKill, Force_Kill, Set_Gate Resume])
      | ForceKill \<Rightarrow> [Set_Gate ForceKill, Force_Kill, Set_Gate Resume])"

fun run_effect :: "effect \<Rightarrow> pressure_gate \<Rightarrow> pressure_gate" where
  "run_effect (Set_Gate a) g = set_action a g"
| "run_effect _ g = g"

text \<open>\<open>respond\<close> as a whole: skipped while another run holds the in-flight lock.\<close>

definition respond ::
    "bool \<Rightarrow> responder_world \<Rightarrow> pressure_action \<Rightarrow> pressure_gate \<Rightarrow> effect list \<times> pressure_gate" where
  "respond in_flight w a g =
     (if in_flight then ([], g)
      else (respond_effects w a, fold run_effect (respond_effects w a) g))"

section \<open>Samples and the latch\<close>

datatype resource_pressure_state = Normal | Pressure | LimitExceeded

text \<open>The tiers are ordered by severity.\<close>

fun tier :: "resource_pressure_state \<Rightarrow> nat" where
  "tier Normal = 0"
| "tier Pressure = 1"
| "tier LimitExceeded = 2"

instantiation resource_pressure_state :: linorder
begin

definition less_eq_resource_pressure_state where "s \<le> t \<longleftrightarrow> tier s \<le> tier t"
definition less_resource_pressure_state where "s < t \<longleftrightarrow> tier s < tier t"

instance
proof
  fix x y z :: resource_pressure_state
  show "x < y \<longleftrightarrow> x \<le> y \<and> \<not> y \<le> x"
    by (auto simp: less_eq_resource_pressure_state_def less_resource_pressure_state_def)
  show "x \<le> x" by (simp add: less_eq_resource_pressure_state_def)
  show "x \<le> y \<Longrightarrow> y \<le> z \<Longrightarrow> x \<le> z" by (simp add: less_eq_resource_pressure_state_def)
  show "x \<le> y \<Longrightarrow> y \<le> x \<Longrightarrow> x = y"
    by (cases x; cases y) (simp_all add: less_eq_resource_pressure_state_def)
  show "x \<le> y \<or> y \<le> x" by (auto simp: less_eq_resource_pressure_state_def)
qed

end

definition transition_event ::
    "resource_pressure_state \<Rightarrow> resource_pressure_state \<Rightarrow> string option" where
  "transition_event old new =
     (case (old, new) of
        (Normal, Pressure) \<Rightarrow> Some ''memory_pressure''
      | (Normal, LimitExceeded) \<Rightarrow> Some ''rss_limit_exceeded''
      | (Pressure, LimitExceeded) \<Rightarrow> Some ''rss_limit_exceeded''
      | (Pressure, Normal) \<Rightarrow> None
      | (LimitExceeded, Normal) \<Rightarrow> None
      | (LimitExceeded, Pressure) \<Rightarrow> None
      | _ \<Rightarrow> None)"

definition is_recovery :: "resource_pressure_state \<Rightarrow> resource_pressure_state \<Rightarrow> bool" where
  "is_recovery old new =
     (case (old, new) of
        (Pressure, Normal) \<Rightarrow> True
      | (LimitExceeded, Normal) \<Rightarrow> True
      | _ \<Rightarrow> False)"

text \<open>
  Megabyte values are \<open>f64\<close> quotients of byte counts by \<open>2 ^ 20\<close>; the quotient is exact for
  counts below \<open>2 ^ 53\<close>, and the model keeps it exact.
\<close>

record resource_sample =
  sa_service_rss_mb :: rat
  sa_sidecar_rss_mb :: "rat option"
  sa_sidecar_cpu_percent :: "rat option"
  sa_hot_session_count :: nat
  sa_system_available_mb :: rat
  sa_queued_task_count :: nat
  sa_running_task_count :: nat

record monitor_limits =
  ml_memory_pressure_free_mb :: nat
  ml_soft_limit_mb :: nat
  ml_hard_limit_mb :: nat

definition bytes_to_mb :: "nat \<Rightarrow> rat" where
  "bytes_to_mb bytes = of_nat bytes / (1024 * 1024)"

definition is_under_pressure :: "monitor_limits \<Rightarrow> resource_sample \<Rightarrow> bool" where
  "is_under_pressure ml s = (sa_system_available_mb s < of_nat (ml_memory_pressure_free_mb ml))"

definition exceeds_soft_limit :: "monitor_limits \<Rightarrow> resource_sample \<Rightarrow> bool" where
  "exceeds_soft_limit ml s =
     (case sa_sidecar_rss_mb s of None \<Rightarrow> False | Some rss \<Rightarrow> of_nat (ml_soft_limit_mb ml) < rss)"

definition exceeds_hard_limit :: "monitor_limits \<Rightarrow> resource_sample \<Rightarrow> bool" where
  "exceeds_hard_limit ml s =
     (case sa_sidecar_rss_mb s of None \<Rightarrow> False | Some rss \<Rightarrow> of_nat (ml_hard_limit_mb ml) < rss)"

definition choose_available_bytes :: "bool \<Rightarrow> nat \<Rightarrow> nat \<Rightarrow> nat \<Rightarrow> nat" where
  "choose_available_bytes macos available tot used =
     (if macos then tot - used
      else if 0 < available then available else tot - used)"

definition classify :: "monitor_limits \<Rightarrow> resource_sample \<Rightarrow> resource_pressure_state" where
  "classify ml s =
     (if exceeds_hard_limit ml s then LimitExceeded
      else if is_under_pressure ml s \<or> exceeds_soft_limit ml s then Pressure
      else Normal)"

text \<open>One tick: the new latch, the event written, and the action handed to the responder.\<close>

definition pressure_tick ::
    "monitor_limits \<Rightarrow> resource_sample \<Rightarrow> resource_pressure_state \<Rightarrow>
     resource_pressure_state \<times> string option \<times> pressure_action option" where
  "pressure_tick ml s old =
     (let new = classify ml s in
      if is_recovery old new then (new, None, Some Resume)
      else case transition_event old new of
        None \<Rightarrow> (new, None, None)
      | Some event \<Rightarrow>
          (new, Some event,
           if exceeds_hard_limit ml s then Some ForceKill
           else if exceeds_soft_limit ml s then Some GracefulRestart
           else if new = Pressure \<and> old = Normal then Some PauseNewTasks
           else None))"

section \<open>The loop and the detached responder tasks\<close>

record press_sys =
  ps_latch :: resource_pressure_state
  ps_gate :: pressure_gate
  ps_pending :: "pressure_action list"
  ps_busy :: "effect list option"

definition press_start :: press_sys where
  "press_start = \<lparr>ps_latch = Normal, ps_gate = gate_new, ps_pending = [], ps_busy = None\<rparr>"

text \<open>\<open>invoke_pressure_responder\<close> spawns a task; the task runs later, or skips.\<close>

definition tick_sys :: "monitor_limits \<Rightarrow> resource_sample \<Rightarrow> press_sys \<Rightarrow> press_sys" where
  "tick_sys ml sample s =
     (case pressure_tick ml sample (ps_latch s) of
        (new, _, action) \<Rightarrow>
          s\<lparr>ps_latch := new,
            ps_pending := (case action of None \<Rightarrow> ps_pending s | Some a \<Rightarrow> ps_pending s @ [a])\<rparr>)"

inductive responder_step :: "responder_world \<Rightarrow> press_sys \<Rightarrow> press_sys \<Rightarrow> bool" for w where
  r_begin: "a \<in> set (ps_pending s) \<Longrightarrow> ps_busy s = None \<Longrightarrow>
     responder_step w s (s\<lparr>ps_pending := remove1 a (ps_pending s), ps_busy := Some (respond_effects w a)\<rparr>)"
| r_skip: "a \<in> set (ps_pending s) \<Longrightarrow> ps_busy s = Some es \<Longrightarrow>
     responder_step w s (s\<lparr>ps_pending := remove1 a (ps_pending s)\<rparr>)"
| r_effect: "ps_busy s = Some (e # es) \<Longrightarrow>
     responder_step w s (s\<lparr>ps_gate := run_effect e (ps_gate s), ps_busy := Some es\<rparr>)"
| r_finish: "ps_busy s = Some [] \<Longrightarrow> responder_step w s (s\<lparr>ps_busy := None\<rparr>)"

inductive_cases responder_stepE: "responder_step w s t"

text \<open>
  Any interleaving; and the calm one, where a tick finds no response pending or running and the
  manager, which holds the supervisor and the executor, still lives.
\<close>

inductive press_step :: "monitor_limits \<Rightarrow> press_sys \<Rightarrow> press_sys \<Rightarrow> bool" for ml where
  p_tick: "press_step ml s (tick_sys ml sample s)"
| p_resp: "responder_step w s t \<Longrightarrow> press_step ml s t"

inductive calm_step :: "monitor_limits \<Rightarrow> press_sys \<Rightarrow> press_sys \<Rightarrow> bool" for ml where
  c_tick: "ps_pending s = [] \<Longrightarrow> ps_busy s = None \<Longrightarrow> calm_step ml s (tick_sys ml sample s)"
| c_resp: "rw_supervisor_alive w \<Longrightarrow> rw_executor_alive w \<Longrightarrow> responder_step w s t \<Longrightarrow> calm_step ml s t"

section \<open>Lemmas\<close>

text \<open>An event is written exactly on an escalation; a recovery is a fall back to normal.\<close>

lemma transition_event_iff: "transition_event old new \<noteq> None \<longleftrightarrow> old < new"
  by (cases old; cases new) (simp_all add: transition_event_def less_resource_pressure_state_def)

lemma is_recovery_iff: "is_recovery old new \<longleftrightarrow> new < old \<and> new = Normal"
  by (cases old; cases new) (simp_all add: is_recovery_def less_resource_pressure_state_def)

lemma respond_gate:
  assumes "rw_supervisor_alive w" "rw_executor_alive w"
  shows "g_paused (fold run_effect (respond_effects w a) g) \<longleftrightarrow> a = PauseNewTasks"
  using assms by (cases a) (simp_all add: respond_effects_def set_action_def)

lemma pressure_tick_latch: "fst (pressure_tick ml sample old) = classify ml sample"
  by (simp add: pressure_tick_def Let_def split: option.splits)

text \<open>No action at all unless the tick escalates or recovers.\<close>

lemma pressure_tick_no_edge:
  assumes "classify ml sample \<le> old" "classify ml sample \<noteq> Normal \<or> old = Normal"
  shows "pressure_tick ml sample old = (classify ml sample, None, None)"
proof -
  have "\<not> is_recovery old (classify ml sample)" using assms(2) by (auto simp: is_recovery_iff)
  moreover have "transition_event old (classify ml sample) = None"
    using assms(1) transition_event_iff[of old "classify ml sample"] by (auto simp: not_less)
  ultimately show ?thesis by (simp add: pressure_tick_def Let_def)
qed

text \<open>A tick that leaves the latch normal either recovered, and resumes, or did nothing.\<close>

lemma pressure_tick_normal:
  assumes "classify ml sample = Normal"
  shows "pressure_tick ml sample old = (Normal, None, if old = Normal then None else Some Resume)"
  using assms by (cases old) (simp_all add: pressure_tick_def Let_def is_recovery_def transition_event_def)

text \<open>
  The invariant of the calm interleaving: at most one response is outstanding, and once it is done
  a normal latch means an open gate.
\<close>

definition gate_settles :: "press_sys \<Rightarrow> bool" where
  "gate_settles s \<longleftrightarrow>
     (case ps_busy s of
        None \<Rightarrow> (case ps_pending s of
            [] \<Rightarrow> ps_latch s = Normal \<longrightarrow> \<not> g_paused (ps_gate s)
          | [a] \<Rightarrow> ps_latch s = Normal \<longrightarrow> a = Resume
          | _ \<Rightarrow> False)
      | Some es \<Rightarrow> ps_pending s = [] \<and>
          (ps_latch s = Normal \<longrightarrow> \<not> g_paused (fold run_effect es (ps_gate s))))"

lemma gate_settles_tick:
  assumes "gate_settles s" "ps_pending s = []" "ps_busy s = None"
  shows "gate_settles (tick_sys ml sample s)"
proof (cases "classify ml sample = Normal")
  case True
  with assms show ?thesis by (auto simp: gate_settles_def tick_sys_def pressure_tick_normal)
next
  case False
  obtain ev act where t: "pressure_tick ml sample (ps_latch s) = (classify ml sample, ev, act)"
    by (metis pressure_tick_latch prod.collapse)
  with False assms show ?thesis by (cases act) (simp_all add: gate_settles_def tick_sys_def)
qed

lemma gate_settles_responder:
  assumes "gate_settles s" "responder_step w s t" "rw_supervisor_alive w" "rw_executor_alive w"
  shows "gate_settles t"
  using assms(2)
proof (cases rule: responder_step.cases)
  case (r_begin a)
  with assms(1) have p: "ps_pending s = [a]" "ps_latch s = Normal \<Longrightarrow> a = Resume"
    by (auto simp: gate_settles_def split: list.splits)
  with r_begin respond_gate[OF assms(3,4), of a "ps_gate s"] show ?thesis
    by (auto simp: gate_settles_def)
next
  case (r_skip a es)
  with assms(1) show ?thesis by (simp add: gate_settles_def)
qed (use assms(1) in \<open>auto simp: gate_settles_def\<close>)

interpretation calm: invariant_machine "\<lambda>s. s = press_start" "calm_step ml" gate_settles for ml
proof unfold_locales
  show "s = press_start \<Longrightarrow> gate_settles s" for s
    by (simp add: gate_settles_def press_start_def gate_new_def)
  show "gate_settles s \<Longrightarrow> calm_step ml s t \<Longrightarrow> gate_settles t" for s t
    by (erule calm_step.cases) (auto intro: gate_settles_tick gate_settles_responder)
qed

section \<open>Properties\<close>

text \<open>Limits and samples for the examples.\<close>

definition sample_limits :: monitor_limits where
  "sample_limits = \<lparr>ml_memory_pressure_free_mb = 500, ml_soft_limit_mb = 1000, ml_hard_limit_mb = 2000\<rparr>"

definition sample_of :: "rat option \<Rightarrow> rat \<Rightarrow> resource_sample" where
  "sample_of rss free =
     \<lparr>sa_service_rss_mb = 100, sa_sidecar_rss_mb = rss, sa_sidecar_cpu_percent = None, sa_hot_session_count = 1,
      sa_system_available_mb = free, sa_queued_task_count = 0, sa_running_task_count = 0\<rparr>"

abbreviation "all_alive \<equiv>
  \<lparr>rw_supervisor_alive = True, rw_executor_alive = True, rw_ensure_started_ok = True, rw_shutdown_ok = True\<rparr>"

lemma sample_classes [simp]:
  "classify sample_limits (sample_of None 100) = Pressure"
  "classify sample_limits (sample_of None 9000) = Normal"
  "classify sample_limits (sample_of (Some 1500) 9000) = Pressure"
  "classify sample_limits (sample_of (Some 3000) 9000) = LimitExceeded"
  by (simp_all add: classify_def sample_limits_def sample_of_def exceeds_hard_limit_def
      exceeds_soft_limit_def is_under_pressure_def)

text \<open>The two ticks of the examples: free memory runs out, and comes back.\<close>

lemma sample_ticks:
  "tick_sys sample_limits (sample_of None 100) (s\<lparr>ps_latch := Normal\<rparr>)
     = s\<lparr>ps_latch := Pressure, ps_pending := ps_pending s @ [PauseNewTasks]\<rparr>"
  "tick_sys sample_limits (sample_of None 9000) (s\<lparr>ps_latch := Pressure\<rparr>)
     = s\<lparr>ps_latch := Normal, ps_pending := ps_pending s @ [Resume]\<rparr>"
  "tick_sys sample_limits (sample_of None 9000) (s\<lparr>ps_latch := Normal\<rparr>) = s\<lparr>ps_latch := Normal\<rparr>"
proof -
  have "\<not> exceeds_hard_limit sample_limits (sample_of None 100)"
    "\<not> exceeds_soft_limit sample_limits (sample_of None 100)"
    by (simp_all add: sample_of_def exceeds_hard_limit_def exceeds_soft_limit_def)
  then show "tick_sys sample_limits (sample_of None 100) (s\<lparr>ps_latch := Normal\<rparr>)
     = s\<lparr>ps_latch := Pressure, ps_pending := ps_pending s @ [PauseNewTasks]\<rparr>"
    by (simp add: tick_sys_def pressure_tick_def Let_def is_recovery_def transition_event_def)
qed (simp_all add: tick_sys_def pressure_tick_normal)

lemma calm_is_press: "calm_step ml s t \<Longrightarrow> press_step ml s t"
  by (erule calm_step.cases) (auto intro: press_step.intros)

text \<open>Memory runs out and the pause's run has shut the gate; its eviction is still to come.\<close>

abbreviation "shut \<equiv> set_action PauseNewTasks gate_new"

lemma pause_in_flight:
  "reach (\<lambda>s. s = press_start) (calm_step sample_limits)
     (press_start\<lparr>ps_latch := Pressure, ps_gate := shut, ps_busy := Some [Evict_Lru]\<rparr>)"
proof -
  let ?R = "reach (\<lambda>s. s = press_start) (calm_step sample_limits)"
  have alive: "rw_supervisor_alive all_alive" "rw_executor_alive all_alive" by simp_all
  note c = reach_step[where step = "calm_step sample_limits", OF _ c_resp[OF alive]]
  have "?R press_start" by (rule reach_init) simp
  from reach_step[where step = "calm_step sample_limits", OF this c_tick[where sample = "sample_of None 100"]]
  have "?R (press_start\<lparr>ps_latch := Pressure, ps_pending := [PauseNewTasks]\<rparr>)"
    using sample_ticks(1)[of press_start] by (simp add: press_start_def)
  from c[OF this r_begin]
  have "?R (press_start\<lparr>ps_latch := Pressure, ps_busy := Some [Set_Gate PauseNewTasks, Evict_Lru]\<rparr>)"
    by (simp add: press_start_def respond_effects_def)
  from c[OF this r_effect] show ?thesis by (simp add: press_start_def)
qed

text \<open>
  What a supervision tick does with a sample, on every branch: the latch becomes the sample's
  class, an event is written exactly on an escalation, and the action depends on the edge alone: a
  fall back to normal resumes; an escalation kills over the hard limit, restarts over the soft
  limit and pauses otherwise; every other tick does nothing, also one that is still over a limit.
\<close>

theorem pressure_tick_actions:
  "case pressure_tick ml sample old of (new, event, action) \<Rightarrow>
     new = classify ml sample
     \<and> (event \<noteq> None \<longleftrightarrow> old < new)
     \<and> (action = Some Resume \<longleftrightarrow> new < old \<and> new = Normal)
     \<and> (action = Some ForceKill \<longleftrightarrow> old < new \<and> exceeds_hard_limit ml sample)
     \<and> (action = Some GracefulRestart \<longleftrightarrow>
          old < new \<and> exceeds_soft_limit ml sample \<and> \<not> exceeds_hard_limit ml sample)
     \<and> (action = Some PauseNewTasks \<longleftrightarrow>
          old < new \<and> \<not> exceeds_soft_limit ml sample \<and> \<not> exceeds_hard_limit ml sample)
     \<and> (action = None \<longleftrightarrow> new = old \<or> new < old \<and> new = Pressure)"
  by (cases old; cases "exceeds_hard_limit ml sample"; cases "exceeds_soft_limit ml sample";
      cases "is_under_pressure ml sample")
    (simp_all add: pressure_tick_def Let_def classify_def is_recovery_def transition_event_def
      less_resource_pressure_state_def)

text \<open>
  A run of the responder leaves the gate paused exactly when it answers \<open>PauseNewTasks\<close>: a kill
  and a restart open it again themselves, whatever their calls return; a run skipped because
  another is in flight, or without its supervisor or executor, leaves the gate as it was.
\<close>

theorem respond_leaves_gate:
  "g_paused (snd (respond in_flight w a g)) \<longleftrightarrow>
     (if \<not> in_flight \<and> rw_supervisor_alive w \<and> rw_executor_alive w then a = PauseNewTasks
      else g_paused g)"
  by (simp add: respond_def respond_gate) (simp add: respond_effects_def)

text \<open>
  C34. While the manager lives and every response is over before the next tick, the gate follows the
  latch: with nothing pending or running and a normal latch, new tasks are admitted.
\<close>

theorem calm_gate_opens:
  assumes "reach (\<lambda>s. s = press_start) (calm_step ml) s"
    and "ps_latch s = Normal" "ps_pending s = []" "ps_busy s = None"
  shows "\<not> g_paused (ps_gate s)"
  using calm.reachable_inv[OF assms(1)] assms(2-4) by (simp add: gate_settles_def)

theorem calm_gate_opens_witness:
  "\<exists>s. reach (\<lambda>s. s = press_start) (calm_step sample_limits) s
     \<and> ps_gate s = set_action Resume shut \<and> \<not> g_paused (ps_gate s)"
proof -
  let ?R = "reach (\<lambda>s. s = press_start) (calm_step sample_limits)"
  let ?s = "press_start\<lparr>ps_gate := set_action Resume shut\<rparr>"
  have alive: "rw_supervisor_alive all_alive" "rw_executor_alive all_alive" by simp_all
  note c = reach_step[where step = "calm_step sample_limits", OF _ c_resp[OF alive]]
  from c[OF pause_in_flight r_effect]
  have "?R (press_start\<lparr>ps_latch := Pressure, ps_gate := shut, ps_busy := Some []\<rparr>)" by simp
  from c[OF this r_finish] have "?R (press_start\<lparr>ps_latch := Pressure, ps_gate := shut\<rparr>)"
    by (simp add: press_start_def)
  from reach_step[where step = "calm_step sample_limits", OF this c_tick[where sample = "sample_of None 9000"]]
  have "?R (press_start\<lparr>ps_gate := shut, ps_pending := [Resume]\<rparr>)"
    using sample_ticks(2)[of "press_start\<lparr>ps_gate := shut\<rparr>"] by (simp add: press_start_def)
  from c[OF this r_begin]
  have "?R (press_start\<lparr>ps_gate := shut, ps_busy := Some [Set_Gate Resume]\<rparr>)"
    by (simp add: press_start_def respond_effects_def)
  from c[OF this r_effect]
  have "?R (press_start\<lparr>ps_gate := set_action Resume shut, ps_busy := Some []\<rparr>)" by simp
  from c[OF this r_finish] have r: "?R ?s" by (simp add: press_start_def)
  have "\<not> g_paused (ps_gate ?s)" by (rule calm_gate_opens[OF r]) (simp_all add: press_start_def)
  with r show ?thesis by (intro exI[of _ ?s]) simp
qed

text \<open>
  Without that assumption the gate can stay shut: while a pause is still running, the recovery's
  \<open>Resume\<close> is skipped; then the latch is normal, nothing is pending or running, the gate is
  paused, and a further healthy sample changes nothing.
\<close>

theorem gate_can_stick:
  "\<exists>s. reach (\<lambda>s. s = press_start) (press_step sample_limits) s
     \<and> ps_latch s = Normal \<and> ps_pending s = [] \<and> ps_busy s = None \<and> g_paused (ps_gate s)
     \<and> tick_sys sample_limits (sample_of None 9000) s = s"
proof -
  let ?R = "reach (\<lambda>s. s = press_start) (press_step sample_limits)"
  let ?b = "press_start\<lparr>ps_gate := shut, ps_busy := Some [Evict_Lru]\<rparr>"
  let ?s = "press_start\<lparr>ps_gate := shut\<rparr>"
  note c = reach_step[where step = "press_step sample_limits", OF _ p_resp[where w = all_alive]]
  note reach_mono[OF pause_in_flight calm_is_press]
  from reach_step[where step = "press_step sample_limits", OF this p_tick[where sample = "sample_of None 9000"]]
  have "?R (?b\<lparr>ps_pending := [Resume]\<rparr>)" using sample_ticks(2)[of ?b] by (simp add: press_start_def)
  from c[OF this r_skip] have "?R ?b" by (simp add: press_start_def)
  from c[OF this r_effect] have "?R (press_start\<lparr>ps_gate := shut, ps_busy := Some []\<rparr>)" by simp
  from c[OF this r_finish] have r: "?R ?s" by (simp add: press_start_def)
  have "ps_latch ?s = Normal" "ps_pending ?s = []" "ps_busy ?s = None" "g_paused (ps_gate ?s)"
    "tick_sys sample_limits (sample_of None 9000) ?s = ?s"
    using sample_ticks(3)[of ?s] by (simp_all add: press_start_def set_action_def)
  with r show ?thesis by blast
qed

end
