(* ===== verification/Usage_Events.thy ===== *)
theory Usage_Events
  imports Subagent_Models Complex_Main
begin

text \<open>
  The usage event of \<open>busytok-domain\<close> (\<open>events.rs\<close>, \<open>agent.rs\<close>, \<open>cache_metrics.rs\<close>, \<open>identity.rs\<close>):
  what every log line of an agent becomes, the provider payload shapes with the unified cache
  metrics, and the metadata fingerprint. The 46 fields of the struct are grouped into records by
  what they describe; token counters are integers whose sums wrap as those of a release build do, costs 64-bit
  patterns of floats.
\<close>

section \<open>Agents and payload shapes\<close>

datatype agent_kind = ClaudeCode | Codex

fun agent_str :: "agent_kind \<Rightarrow> string" where
  "agent_str ClaudeCode = ''claude_code''"
| "agent_str Codex = ''codex''"

definition agent_parse :: "string \<Rightarrow> string + agent_kind" where
  "agent_parse s =
     (if s = ''claude_code'' \<or> s = ''claude'' \<or> s = ''Claude Code'' then Inr ClaudeCode
      else if s = ''codex'' \<or> s = ''Codex'' then Inr Codex
      else Inl (''unknown agent kind: '' @ s))"

datatype payload_shape = Codex_Shape | Anthropic_Native | Anthropic_Compatible

fun shape_str :: "payload_shape \<Rightarrow> string" where
  "shape_str Codex_Shape = ''codex''"
| "shape_str Anthropic_Native = ''anthropic_native''"
| "shape_str Anthropic_Compatible = ''anthropic_compatible_non_cached_input''"

definition shape_parse :: "string \<Rightarrow> payload_shape" where
  "shape_parse s = (if s = ''codex'' then Codex_Shape else if s = ''anthropic_native'' then Anthropic_Native
                    else Anthropic_Compatible)"

text \<open>Addition and subtraction of \<open>i64\<close> in a release build: modulo \<open>2^64\<close>, around zero.\<close>

definition i64_wrap :: "int \<Rightarrow> int" where
  "i64_wrap n = (n + 2 ^ 63) mod 2 ^ 64 - 2 ^ 63"

definition i64_add :: "int \<Rightarrow> int \<Rightarrow> int" where
  "i64_add a b = i64_wrap (a + b)"

definition i64_sub :: "int \<Rightarrow> int \<Rightarrow> int" where
  "i64_sub a b = i64_wrap (a - b)"

lemma i64_wrap_id: "i64_range n \<Longrightarrow> i64_wrap n = n"
  by (simp add: i64_wrap_def i64_range_def i64_min_def i64_max_def)

lemma i64_exact: "i64_range (a + b) \<Longrightarrow> i64_add a b = a + b" "i64_range (a - b) \<Longrightarrow> i64_sub a b = a - b"
  by (simp_all add: i64_add_def i64_sub_def i64_wrap_id)

record cache_metrics =
  cm_prompt_input_total_tokens :: int
  cm_prompt_input_non_cached_tokens :: int
  cm_cache_read_tokens :: int
  cm_cache_write_tokens :: int

definition from_raw :: "payload_shape \<Rightarrow> int \<Rightarrow> int \<Rightarrow> int \<Rightarrow> cache_metrics" where
  "from_raw shape raw_input r w =
     (case shape of
        Codex_Shape \<Rightarrow>
          \<lparr>cm_prompt_input_total_tokens = raw_input, cm_prompt_input_non_cached_tokens = i64_sub raw_input r,
           cm_cache_read_tokens = r, cm_cache_write_tokens = 0\<rparr>
      | Anthropic_Native \<Rightarrow>
          \<lparr>cm_prompt_input_total_tokens = raw_input, cm_prompt_input_non_cached_tokens = i64_sub (i64_sub raw_input r) w,
           cm_cache_read_tokens = r, cm_cache_write_tokens = w\<rparr>
      | Anthropic_Compatible \<Rightarrow>
          \<lparr>cm_prompt_input_total_tokens = i64_add (i64_add raw_input r) w, cm_prompt_input_non_cached_tokens = raw_input,
           cm_cache_read_tokens = r, cm_cache_write_tokens = w\<rparr>)"

definition invariant_holds :: "cache_metrics \<Rightarrow> bool" where
  "invariant_holds m =
     (0 \<le> cm_prompt_input_total_tokens m \<and> 0 \<le> cm_prompt_input_non_cached_tokens m
      \<and> 0 \<le> cm_cache_read_tokens m \<and> 0 \<le> cm_cache_write_tokens m
      \<and> i64_add (i64_add (cm_cache_read_tokens m) (cm_cache_write_tokens m)) (cm_prompt_input_non_cached_tokens m)
          = cm_prompt_input_total_tokens m)"

text \<open>The rate as an exact rational; the code's division rounds it to a double.\<close>

definition cache_hit_rate :: "cache_metrics \<Rightarrow> rat option" where
  "cache_hit_rate m =
     (if \<not> invariant_holds m \<or> cm_prompt_input_total_tokens m = 0 then None
      else let rate = of_int (cm_cache_read_tokens m) / of_int (cm_prompt_input_total_tokens m)
           in if 0 \<le> rate \<and> rate \<le> 1 then Some rate else None)"

section \<open>The event\<close>

record event_tokens =
  et_input_tokens :: int
  et_output_tokens :: int
  et_total_tokens :: int
  et_cached_input_tokens :: int
  et_cache_creation_tokens :: int
  et_cache_read_tokens :: int
  et_reasoning_tokens :: int
  et_thoughts_tokens :: int
  et_tool_tokens :: int

record event_source =
  es_file_id :: string
  es_path :: string
  es_line :: nat
  es_offset_start :: nat
  es_offset_end :: nat

record event_project =
  ep_project_path :: "string option"
  ep_project_hash :: "string option"
  ep_cwd :: "string option"

record event_model =
  em_model :: "string option"
  em_model_provider :: "string option"
  em_agent_version :: "string option"
  em_client_kind :: "string option"
  em_speed :: "string option"

record event_cost =
  ec_cost_usd :: "f64_bits option"
  ec_estimated_cost_usd :: "f64_bits option"
  ec_cost_currency :: "string option"
  ec_cost_source :: "string option"
  ec_price_catalog_version :: "string option"

record usage_event =
  ue_id :: string
  ue_agent :: agent_kind
  ue_source :: event_source
  ue_session_id :: string
  ue_turn_id :: "string option"
  ue_source_request_id :: "string option"
  ue_message_id :: "string option"
  ue_timestamp_ms :: int
  ue_project :: event_project
  ue_model :: event_model
  ue_tokens :: event_tokens
  ue_shape :: payload_shape
  ue_prompt_input_total_tokens :: int
  ue_prompt_input_non_cached_tokens :: int
  ue_cost :: event_cost
  ue_is_error :: bool
  ue_error_type :: "string option"
  ue_usage_limit_reset_time_ms :: "int option"
  ue_raw_event_hash :: string
  ue_is_sidechain :: bool
  ue_dedupe_key :: "string option"
  ue_created_at_ms :: int
  ue_updated_at_ms :: int

text \<open>The unified metrics an event carries.\<close>

definition event_metrics :: "usage_event \<Rightarrow> cache_metrics" where
  "event_metrics e =
     \<lparr>cm_prompt_input_total_tokens = ue_prompt_input_total_tokens e,
      cm_prompt_input_non_cached_tokens = ue_prompt_input_non_cached_tokens e,
      cm_cache_read_tokens = et_cache_read_tokens (ue_tokens e),
      cm_cache_write_tokens = et_cache_creation_tokens (ue_tokens e)\<rparr>"

text \<open>Counters are added and subtracted field by field.\<close>

definition zero_tokens :: event_tokens where
  "zero_tokens = \<lparr>et_input_tokens = 0, et_output_tokens = 0, et_total_tokens = 0, et_cached_input_tokens = 0,
     et_cache_creation_tokens = 0, et_cache_read_tokens = 0, et_reasoning_tokens = 0,
     et_thoughts_tokens = 0, et_tool_tokens = 0\<rparr>"

definition map_tokens :: "(int \<Rightarrow> int \<Rightarrow> int) \<Rightarrow> event_tokens \<Rightarrow> event_tokens \<Rightarrow> event_tokens" where
  "map_tokens f a b =
     \<lparr>et_input_tokens = f (et_input_tokens a) (et_input_tokens b),
      et_output_tokens = f (et_output_tokens a) (et_output_tokens b),
      et_total_tokens = f (et_total_tokens a) (et_total_tokens b),
      et_cached_input_tokens = f (et_cached_input_tokens a) (et_cached_input_tokens b),
      et_cache_creation_tokens = f (et_cache_creation_tokens a) (et_cache_creation_tokens b),
      et_cache_read_tokens = f (et_cache_read_tokens a) (et_cache_read_tokens b),
      et_reasoning_tokens = f (et_reasoning_tokens a) (et_reasoning_tokens b),
      et_thoughts_tokens = f (et_thoughts_tokens a) (et_thoughts_tokens b),
      et_tool_tokens = f (et_tool_tokens a) (et_tool_tokens b)\<rparr>"

abbreviation "add_tokens \<equiv> map_tokens (+)"
abbreviation "sub_tokens \<equiv> map_tokens (-)"

lemma tokens_laws:
  "add_tokens a zero_tokens = a" "add_tokens zero_tokens a = a"
  "add_tokens a b = add_tokens b a" "add_tokens (add_tokens a b) c = add_tokens a (add_tokens b c)"
  "add_tokens (sub_tokens a b) b = a"
  by (simp_all add: map_tokens_def zero_tokens_def)

definition sum_tokens :: "event_tokens list \<Rightarrow> event_tokens" where
  "sum_tokens ts = foldr add_tokens ts zero_tokens"

lemma sum_tokens_simps [simp]:
  "sum_tokens [] = zero_tokens" "sum_tokens (t # ts) = add_tokens t (sum_tokens ts)"
  by (simp_all add: sum_tokens_def)

lemma add_tokens_left: "add_tokens a (add_tokens b c) = add_tokens b (add_tokens a c)"
  by (simp add: map_tokens_def)

lemmas add_tokens_ac = tokens_laws(3,4) add_tokens_left

lemma sum_tokens_append: "sum_tokens (xs @ ys) = add_tokens (sum_tokens xs) (sum_tokens ys)"
  by (induction xs) (simp_all add: tokens_laws add_tokens_left)

lemma sum_tokens_field:
  "et_input_tokens (sum_tokens ts) = sum_list (map et_input_tokens ts)"
  "et_output_tokens (sum_tokens ts) = sum_list (map et_output_tokens ts)"
  "et_total_tokens (sum_tokens ts) = sum_list (map et_total_tokens ts)"
  "et_cached_input_tokens (sum_tokens ts) = sum_list (map et_cached_input_tokens ts)"
  "et_reasoning_tokens (sum_tokens ts) = sum_list (map et_reasoning_tokens ts)"
  by (induction ts) (simp_all add: zero_tokens_def map_tokens_def)

section \<open>Identity\<close>

definition derive_session_id :: "string option \<Rightarrow> string \<Rightarrow> string" where
  "derive_session_id source_session_id source_file_id =
     (case source_session_id of None \<Rightarrow> source_file_id
      | Some s \<Rightarrow> if s = [] then source_file_id else s)"

record fingerprint =
  fp_agent :: string
  fp_session_id :: string
  fp_turn_id :: "string option"
  fp_request_id :: "string option"
  fp_message_id :: "string option"
  fp_input_tokens :: int
  fp_output_tokens :: int
  fp_total_tokens :: int
  fp_exclude_tokens :: bool

text \<open>The bytes the hash is taken of; a counter is eight little-endian bytes.\<close>

definition le_bytes :: "int \<Rightarrow> string" where
  "le_bytes i = map (\<lambda>k. char_of (nat ((i div 256 ^ k) mod 256))) [0..<8]"

definition fingerprint_bytes :: "fingerprint \<Rightarrow> string" where
  "fingerprint_bytes fp =
     fp_agent fp @ [CHR 0x00] @ fp_session_id fp @ [CHR 0x00] @ unwrap_or [] (fp_turn_id fp) @ [CHR 0x00]
     @ unwrap_or [] (fp_request_id fp) @ [CHR 0x00] @ unwrap_or [] (fp_message_id fp) @ [CHR 0x00]
     @ (if fp_exclude_tokens fp then []
        else le_bytes (fp_input_tokens fp) @ le_bytes (fp_output_tokens fp) @ le_bytes (fp_total_tokens fp))"

text \<open>SHA-256 in hexadecimal is a parameter.\<close>

definition metadata_event_hash :: "(string \<Rightarrow> string) \<Rightarrow> fingerprint \<Rightarrow> string" where
  "metadata_event_hash sha256_hex fp = sha256_hex (fingerprint_bytes fp)"

end
