(* ===== verification/Jsonl_Scanner.thy ===== *)
theory Jsonl_Scanner
  imports Busytok_Prelude
begin

text \<open>
  The line scanner of the tailer, \<open>busytok-tailer/src/scanner.rs\<close>: the buffer that splits raw bytes
  into completed lines, and one read of a log file from a checkpoint. Bytes and strings are byte
  lists; a lossy decode makes a byte list valid UTF-8. Offsets are naturals: the code's \<open>u64\<close>s are
  positions in an existing file, and no sum of the code exceeds the file's size.
\<close>

section \<open>String::from_utf8_lossy\<close>

text \<open>
  One chunk of the lossy decoder of the standard library: how many bytes it takes, and whether
  they are one valid scalar value. An invalid chunk is a maximal prefix of a valid one.
\<close>

definition continuation :: "char \<Rightarrow> bool" where
  "continuation c = (let n = of_char c :: nat in 0x80 \<le> n \<and> n \<le> 0xBF)"

definition second_ok :: "nat \<Rightarrow> char \<Rightarrow> bool" where
  "second_ok first c =
     (let n = of_char c :: nat in
      if first = 0xE0 then 0xA0 \<le> n \<and> n \<le> 0xBF
      else if first = 0xED then 0x80 \<le> n \<and> n \<le> 0x9F
      else if first = 0xF0 then 0x90 \<le> n \<and> n \<le> 0xBF
      else if first = 0xF4 then 0x80 \<le> n \<and> n \<le> 0x8F
      else 0x80 \<le> n \<and> n \<le> 0xBF)"

definition utf8_width :: "nat \<Rightarrow> nat" where
  "utf8_width n =
     (if n < 0x80 then 1 else if 0xC2 \<le> n \<and> n \<le> 0xDF then 2
      else if 0xE0 \<le> n \<and> n \<le> 0xEF then 3 else if 0xF0 \<le> n \<and> n \<le> 0xF4 then 4 else 0)"

definition good_tail :: "char \<Rightarrow> string \<Rightarrow> nat" where
  "good_tail c more =
     (case more of
        [] \<Rightarrow> 0
      | d # ds \<Rightarrow> if second_ok (of_char c) d then 1 + length (takeWhile continuation ds) else 0)"

definition utf8_chunk :: "string \<Rightarrow> nat \<times> bool" where
  "utf8_chunk s =
     (case s of
        [] \<Rightarrow> (0, True)
      | c # more \<Rightarrow>
          (let w = utf8_width (of_char c); got = min (good_tail c more) (w - 1)
           in if w = 0 then (1, False) else if w - 1 \<le> got then (w, True) else (1 + got, False)))"

definition replacement :: string where
  "replacement = [CHR 0xEF, CHR 0xBF, CHR 0xBD]"

lemma utf8_chunk_pos: "s \<noteq> [] \<Longrightarrow> 0 < fst (utf8_chunk s)"
  by (cases s) (auto simp: utf8_chunk_def Let_def utf8_width_def)

function utf8_lossy :: "string \<Rightarrow> string" where
  "utf8_lossy s =
     (if s = [] then []
      else case utf8_chunk s of (n, ok) \<Rightarrow> (if ok then take n s else replacement) @ utf8_lossy (drop n s))"
  by pat_completeness auto
termination
  by (relation "measure length") (auto, metis diff_less fst_conv length_greater_0_conv utf8_chunk_pos)

declare utf8_lossy.simps [simp del]

function utf8_valid :: "string \<Rightarrow> bool" where
  "utf8_valid s =
     (if s = [] then True else case utf8_chunk s of (n, ok) \<Rightarrow> ok \<and> utf8_valid (drop n s))"
  by pat_completeness auto
termination
  by (relation "measure length") (auto, metis diff_less fst_conv length_greater_0_conv utf8_chunk_pos)

declare utf8_valid.simps [simp del]

section \<open>The line buffer\<close>

abbreviation "LF \<equiv> CHR 0x0A"
abbreviation "CR \<equiv> CHR 0x0D"

fun normalize_crlf :: "string \<Rightarrow> string" where
  "normalize_crlf [] = []"
| "normalize_crlf [c] = [c]"
| "normalize_crlf (c # d # rest) =
     (if c = CR \<and> d = LF then LF # normalize_crlf rest else c # normalize_crlf (d # rest))"

text \<open>
  The loop over the combined bytes; \<open>cur\<close> is \<open>combined[start..i]\<close>. The value: the completed lines
  and the bytes after the last newline.
\<close>

fun scan_lines :: "string \<Rightarrow> string \<Rightarrow> string list \<times> string" where
  "scan_lines cur [] = ([], cur)"
| "scan_lines cur (b # bs) =
     (if b = LF then
        (case scan_lines [] bs of (ls, rest) \<Rightarrow>
           (if cur = [] then (ls, rest) else (utf8_lossy cur # ls, rest)))
      else scan_lines (cur @ [b]) bs)"

text \<open>\<open>push_bytes\<close>: the buffer is its pending bytes.\<close>

definition push_bytes :: "string \<Rightarrow> string \<Rightarrow> string list \<times> string" where
  "push_bytes pending data = scan_lines [] (normalize_crlf (pending @ data))"

section \<open>read_file_once\<close>

record scan_file_request =
  sf_source_id :: string
  sf_source_file_id :: string
  sf_path :: string
  sf_resume_offset :: nat
  sf_previous_inode :: "string option"

record parse_context =
  pc_source_file_id :: string
  pc_source_path :: string
  pc_inode :: "string option"
  pc_source_line :: nat
  pc_source_offset_start :: nat
  pc_source_offset_end :: nat
  pc_replay_sequence :: nat

record tailed_line =
  tl_text :: string
  tl_context :: parse_context

record scan_read_batch =
  sb_source_id :: string
  sb_source_file_id :: string
  sb_lines :: "tailed_line list"
  sb_pending_bytes :: string
  sb_checkpoint_offset :: nat
  sb_file_size_bytes :: nat
  sb_last_mtime_ms :: "int option"
  sb_was_reset :: bool

text \<open>
  What the calls of one read see of the file: its metadata (\<open>None\<close> when the call fails), its inode
  where the platform has one, and its bytes when it is opened and read, which may be later ones
  than the metadata tells.
\<close>

record disk_file =
  df_metadata :: "(nat \<times> int option) option"
  df_inode :: "string option"
  df_content :: "string option"

datatype scan_error = Metadata_Failed string | Open_Failed string | Read_Failed nat string

fun position :: "('a \<Rightarrow> bool) \<Rightarrow> 'a list \<Rightarrow> nat option" where
  "position P [] = None"
| "position P (x # xs) = (if P x then Some 0 else map_option Suc (position P xs))"

definition line_context :: "scan_file_request \<Rightarrow> string option \<Rightarrow> nat \<Rightarrow> nat \<Rightarrow> nat \<Rightarrow> parse_context" where
  "line_context rq inode number start_off end_off =
     \<lparr>pc_source_file_id = sf_source_file_id rq, pc_source_path = sf_path rq, pc_inode = inode,
      pc_source_line = number, pc_source_offset_start = start_off, pc_source_offset_end = end_off,
      pc_replay_sequence = number\<rparr>"

text \<open>The loop that gives each completed line the offsets of the next newline of the raw buffer.\<close>

fun attach_offsets ::
    "scan_file_request \<Rightarrow> string option \<Rightarrow> nat \<Rightarrow> string \<Rightarrow> nat \<Rightarrow> nat \<Rightarrow> string list \<Rightarrow> tailed_line list" where
  "attach_offsets rq inode eff buf raw_pos number [] = []"
| "attach_offsets rq inode eff buf raw_pos number (l # ls) =
     (case position (\<lambda>b. b = LF) (drop raw_pos buf) of
        None \<Rightarrow> []
      | Some p \<Rightarrow>
          (let line_end = raw_pos + p + 1
           in \<lparr>tl_text = l, tl_context = line_context rq inode (number + 1) (eff + raw_pos) (eff + line_end)\<rparr>
              # attach_offsets rq inode eff buf line_end (number + 1) ls))"

definition checkpoint_of :: "nat \<Rightarrow> tailed_line list \<Rightarrow> nat" where
  "checkpoint_of eff lines =
     (if lines = [] then eff else pc_source_offset_end (tl_context (last lines)))"

definition scan_buffer :: "scan_file_request \<Rightarrow> string option \<Rightarrow> nat \<Rightarrow> string \<Rightarrow> tailed_line list \<times> string" where
  "scan_buffer rq inode eff buf =
     (case push_bytes [] buf of (completed, pending) \<Rightarrow>
        (attach_offsets rq inode eff buf 0 0 completed, pending))"

definition was_reset :: "scan_file_request \<Rightarrow> string option \<Rightarrow> nat \<Rightarrow> bool" where
  "was_reset rq inode file_size =
     ((sf_previous_inode rq \<noteq> None \<and> inode \<noteq> None \<and> sf_previous_inode rq \<noteq> inode)
      \<or> file_size < sf_resume_offset rq)"

definition read_file_once :: "scan_file_request \<Rightarrow> disk_file \<Rightarrow> scan_error + scan_read_batch" where
  "read_file_once rq df =
     (case df_metadata df of
        None \<Rightarrow> Inl (Metadata_Failed (sf_path rq))
      | Some (file_size, mtime) \<Rightarrow>
          (let inode = df_inode df;
               reset = was_reset rq inode file_size;
               eff = (if reset then 0 else sf_resume_offset rq);
               batch = \<lparr>sb_source_id = sf_source_id rq, sb_source_file_id = sf_source_file_id rq,
                        sb_lines = [], sb_pending_bytes = [], sb_checkpoint_offset = eff,
                        sb_file_size_bytes = file_size, sb_last_mtime_ms = mtime, sb_was_reset = reset\<rparr>
           in if file_size \<le> eff then Inr batch
              else case df_content df of
                None \<Rightarrow> Inl (Open_Failed (sf_path rq))
              | Some bytes \<Rightarrow>
                  (let n = file_size - eff
                   in if length (drop eff bytes) < n then Inl (Read_Failed n (sf_path rq))
                      else case scan_buffer rq inode eff (take n (drop eff bytes)) of (lines, pending) \<Rightarrow>
                        Inr (batch\<lparr>sb_lines := lines, sb_pending_bytes := pending,
                                   sb_checkpoint_offset := checkpoint_of eff lines\<rparr>))))"

section \<open>Reference: split at newlines\<close>

text \<open>Every segment that a newline ends, empty ones too, and what follows the last newline.\<close>

fun nl_split :: "string \<Rightarrow> string list \<times> string" where
  "nl_split [] = ([], [])"
| "nl_split (b # bs) =
     (case nl_split bs of (ls, r) \<Rightarrow>
        (if b = LF then ([] # ls, r)
         else case ls of [] \<Rightarrow> ([], b # r) | l # ls' \<Rightarrow> ((b # l) # ls', r)))"

definition strip_cr :: "string \<Rightarrow> string" where
  "strip_cr l = (if l \<noteq> [] \<and> last l = CR then butlast l else l)"

definition lines_of :: "string \<Rightarrow> string list" where
  "lines_of buf = map utf8_lossy (filter (\<lambda>l. l \<noteq> []) (map strip_cr (fst (nl_split buf))))"

lemma nl_split_no_nl: "LF \<notin> set l \<Longrightarrow> nl_split l = ([], l)"
  by (induction l) auto

lemma nl_split_line: "LF \<notin> set l \<Longrightarrow> nl_split (l @ LF # r) = (l # fst (nl_split r), snd (nl_split r))"
  by (induction l) (auto split: prod.split)

lemma buffer_cases:
  obtains (open_line) "LF \<notin> set (buf :: string)"
  | (closed_line) l r where "LF \<notin> set l" "buf = l @ LF # r"
  by (cases "LF \<in> set buf") (auto dest: split_list_first)

lemma buffer_induct [case_names open_line closed_line]:
  assumes "\<And>l. LF \<notin> set l \<Longrightarrow> P l" and "\<And>l r. LF \<notin> set l \<Longrightarrow> P r \<Longrightarrow> P (l @ LF # r)"
  shows "P (buf :: string)"
proof (induction buf rule: length_induct)
  case (1 buf)
  show ?case
    by (cases rule: buffer_cases[of buf]) (use 1 assms in auto)
qed

lemma normalize_no_nl: "LF \<notin> set l \<Longrightarrow> normalize_crlf l = l"
  by (induction l rule: normalize_crlf.induct) auto

lemma normalize_line: "LF \<notin> set l \<Longrightarrow> normalize_crlf (l @ LF # r) = strip_cr l @ LF # normalize_crlf r"
proof (induction l rule: normalize_crlf.induct)
  case 1 show ?case by (cases r) (auto simp: strip_cr_def)
next
  case (2 c) then show ?case by (cases r) (auto simp: strip_cr_def)
qed (auto simp: strip_cr_def)

lemma scan_lines_no_nl: "LF \<notin> set l \<Longrightarrow> scan_lines cur l = ([], cur @ l)"
  by (induction l arbitrary: cur) auto

lemma scan_lines_line:
  "LF \<notin> set l \<Longrightarrow> scan_lines cur (l @ LF # r) =
     ((if cur @ l = [] then [] else [utf8_lossy (cur @ l)]) @ fst (scan_lines [] r), snd (scan_lines [] r))"
  by (induction l arbitrary: cur) (auto split: prod.split)

lemma push_bytes_lines: "push_bytes [] buf = (lines_of buf, snd (nl_split buf))"
proof (induction buf rule: buffer_induct)
  case (open_line l)
  then show ?case by (simp add: push_bytes_def normalize_no_nl scan_lines_no_nl nl_split_no_nl lines_of_def)
next
  case (closed_line l r)
  moreover have "LF \<notin> set (strip_cr l)"
    using closed_line(1) by (auto simp: strip_cr_def dest: in_set_butlastD)
  ultimately show ?case
    by (simp add: push_bytes_def normalize_line scan_lines_line nl_split_line lines_of_def)
qed

lemma push_bytes_pending: "push_bytes pending data = push_bytes [] (pending @ data)"
  by (simp add: push_bytes_def)

lemma nl_split_append:
  "nl_split (x @ y) = (fst (nl_split x) @ fst (nl_split (snd (nl_split x) @ y)), snd (nl_split (snd (nl_split x) @ y)))"
  by (induction x rule: buffer_induct) (simp_all add: nl_split_no_nl nl_split_line)

lemma lines_of_append:
  "lines_of (x @ y) = lines_of x @ lines_of (snd (nl_split x) @ y)"
  by (simp add: lines_of_def nl_split_append[of x y])

section \<open>The offsets of a read\<close>

text \<open>Where the segments of a buffer lie, each with its newline.\<close>

fun ranges :: "nat \<Rightarrow> string list \<Rightarrow> (nat \<times> nat) list" where
  "ranges p [] = []"
| "ranges p (l # ls) = (p, p + length l + 1) # ranges (p + length l + 1) ls"

lemma length_ranges [simp]: "length (ranges p ls) = length ls"
  by (induction ls arbitrary: p) auto

fun number_lines ::
    "scan_file_request \<Rightarrow> string option \<Rightarrow> nat \<Rightarrow> nat \<Rightarrow> (string \<times> nat \<times> nat) list \<Rightarrow> tailed_line list" where
  "number_lines rq inode eff number [] = []"
| "number_lines rq inode eff number ((l, a, b) # ls) =
     \<lparr>tl_text = l, tl_context = line_context rq inode (number + 1) (eff + a) (eff + b)\<rparr>
     # number_lines rq inode eff (number + 1) ls"

lemma position_line: "LF \<notin> set l \<Longrightarrow> position (\<lambda>b. b = LF) (l @ LF # r) = Some (length l)"
  by (induction l) auto

lemma position_no_nl: "LF \<notin> set l \<Longrightarrow> position (\<lambda>b. b = LF) l = None"
  by (induction l) auto

lemma attach_offsets_ranges:
  "attach_offsets rq inode eff (done @ todo) (length done) number ls =
     number_lines rq inode eff number (zip ls (ranges (length done) (fst (nl_split todo))))"
proof (induction todo arbitrary: "done" number ls rule: buffer_induct)
  case (open_line l)
  then show ?case by (cases ls) (simp_all add: position_no_nl nl_split_no_nl)
next
  case (closed_line l r)
  show ?case
  proof (cases ls)
    case (Cons x xs)
    have "attach_offsets rq inode eff ((done @ l @ [LF]) @ r) (length (done @ l @ [LF])) (number + 1) xs =
       number_lines rq inode eff (number + 1) (zip xs (ranges (length (done @ l @ [LF])) (fst (nl_split r))))"
      by (rule closed_line(2))
    then show ?thesis using closed_line(1) Cons by (simp add: position_line nl_split_line Let_def add.assoc)
  qed simp
qed

lemma scan_buffer_lines:
  "scan_buffer rq inode eff buf =
     (number_lines rq inode eff 0 (zip (lines_of buf) (ranges 0 (fst (nl_split buf)))), snd (nl_split buf))"
  using attach_offsets_ranges[of rq inode eff "[]" buf 0 "lines_of buf"]
  by (simp add: scan_buffer_def push_bytes_lines)

lemma map_text_number_lines [simp]: "map tl_text (number_lines rq i eff k ls) = map fst ls"
  by (induction rq i eff k ls rule: number_lines.induct) auto

lemma number_lines_Nil [simp]: "number_lines rq i eff k ls = [] \<longleftrightarrow> ls = []"
  by (cases ls) auto

lemma last_number_lines:
  "ls \<noteq> [] \<Longrightarrow> pc_source_offset_end (tl_context (last (number_lines rq i eff k ls))) = eff + snd (snd (last ls))"
  by (induction rq i eff k ls rule: number_lines.induct) (auto simp: line_context_def)

lemma length_lines_of: "length (lines_of buf) \<le> length (fst (nl_split buf))"
proof -
  have "length (filter (\<lambda>l. l \<noteq> []) (map strip_cr (fst (nl_split buf)))) \<le> length (map strip_cr (fst (nl_split buf)))"
    by (rule length_filter_le)
  then show ?thesis by (simp add: lines_of_def)
qed

text \<open>The end of the \<open>n\<close>-th segment.\<close>

definition nth_end :: "string \<Rightarrow> nat \<Rightarrow> nat" where
  "nth_end buf n = sum_list (map (\<lambda>l. length l + 1) (take n (fst (nl_split buf))))"

lemma ranges_Nil [simp]: "ranges p ls = [] \<longleftrightarrow> ls = []"
  by (cases ls) auto

lemma zip_take_len: "zip xs ys = zip xs (take (length xs) ys)"
proof (induction xs arbitrary: ys)
  case (Cons x xs) show ?case by (cases ys) (use Cons in auto)
qed simp

lemma ranges_take_last:
  "0 < n \<Longrightarrow> n \<le> length ls \<Longrightarrow>
   snd (last (take n (ranges p ls))) = p + sum_list (map (\<lambda>l. length l + 1) (take n ls))"
  by (induction p ls arbitrary: n rule: ranges.induct) (auto simp: take_Cons split: nat.split)

lemma checkpoint_nth_end:
  "checkpoint_of eff (fst (scan_buffer rq inode eff buf)) = eff + nth_end buf (length (lines_of buf))"
proof (cases "lines_of buf = []")
  case True then show ?thesis by (simp add: scan_buffer_lines checkpoint_of_def nth_end_def)
next
  case False
  let ?n = "length (lines_of buf)" and ?rs = "ranges 0 (fst (nl_split buf))"
  have n: "0 < ?n" "?n \<le> length (fst (nl_split buf))" using False length_lines_of by auto
  have ne: "zip (lines_of buf) ?rs \<noteq> []" using n by (cases "lines_of buf"; cases "fst (nl_split buf)") auto
  have "zip (lines_of buf) ?rs = zip (lines_of buf) (take ?n ?rs)" by (rule zip_take_len)
  moreover have "length (take ?n ?rs) = ?n" using n by simp
  ultimately have "snd (last (zip (lines_of buf) ?rs)) = last (take ?n ?rs)"
    using n by (metis last_zip length_greater_0_conv snd_conv take_eq_Nil length_0_conv)
  then show ?thesis
    using ne n ranges_take_last[of ?n "fst (nl_split buf)" 0]
    by (simp add: scan_buffer_lines checkpoint_of_def last_number_lines nth_end_def)
qed

text \<open>A buffer up to the end of its \<open>n\<close>-th segment.\<close>

lemma nl_split_at_end:
  "n \<le> length (fst (nl_split buf)) \<Longrightarrow>
   nl_split (take (nth_end buf n) buf) = (take n (fst (nl_split buf)), [])
   \<and> nl_split (drop (nth_end buf n) buf) = (drop n (fst (nl_split buf)), snd (nl_split buf))
   \<and> nth_end buf n \<le> length buf"
proof (induction buf arbitrary: n rule: buffer_induct)
  case (open_line l)
  then show ?case by (simp add: nl_split_no_nl nth_end_def)
next
  case (closed_line l r)
  show ?case
  proof (cases n)
    case (Suc m)
    have "m \<le> length (fst (nl_split r))" using closed_line(1,3) Suc by (simp add: nl_split_line)
    from closed_line(2)[OF this] closed_line(1) show ?thesis
      by (simp add: Suc nl_split_line nth_end_def)
  qed (simp add: nth_end_def)
qed

lemma lines_at_checkpoint:
  fixes buf :: string
  defines "cp \<equiv> nth_end buf (length (lines_of buf))"
  shows "lines_of (take cp buf) @ lines_of (drop cp buf @ added) = lines_of (buf @ added)"
    and "\<exists>k. lines_of (take cp buf) = take k (lines_of buf)" and "cp \<le> length buf"
proof -
  note at = nl_split_at_end[OF length_lines_of, of buf, folded cp_def]
  have sp: "buf @ added = take cp buf @ (drop cp buf @ added)" by simp
  show "lines_of (take cp buf) @ lines_of (drop cp buf @ added) = lines_of (buf @ added)"
    using at lines_of_append[of "take cp buf" "drop cp buf @ added"] by (subst sp) simp
  have "lines_of buf = lines_of (take cp buf) @ lines_of (drop cp buf)"
    using at lines_of_append[of "take cp buf" "drop cp buf"] by simp
  then show "\<exists>k. lines_of (take cp buf) = take k (lines_of buf)" by (metis append_eq_conv_conj)
  show "cp \<le> length buf" using at by simp
qed

text \<open>Each blank line of the buffer costs at most one line that is read again.\<close>

definition blank_lines :: "string \<Rightarrow> nat" where
  "blank_lines buf = count_where (\<lambda>l. strip_cr l = []) (fst (nl_split buf))"

lemma lines_before_checkpoint:
  "length (lines_of buf) \<le> length (lines_of (take (nth_end buf (length (lines_of buf))) buf)) + blank_lines buf"
proof -
  let ?cp = "nth_end buf (length (lines_of buf))" and ?raw = "fst (nl_split buf)"
  note at = nl_split_at_end[OF length_lines_of, of buf]
  have "lines_of buf = lines_of (take ?cp buf) @ lines_of (drop ?cp buf)"
    using at lines_of_append[of "take ?cp buf" "drop ?cp buf"] by simp
  then have "length (lines_of buf) = length (lines_of (take ?cp buf)) + length (lines_of (drop ?cp buf))"
    by (metis length_append)
  moreover have "length (lines_of (drop ?cp buf)) \<le> length ?raw - length (lines_of buf)"
    using length_lines_of[of "drop ?cp buf"] at by simp
  moreover have "length ?raw = length (lines_of buf) + blank_lines buf"
    using sum_length_filter_compl[of "\<lambda>l. strip_cr l = []" ?raw]
    by (simp add: lines_of_def blank_lines_def count_where_def filter_map comp_def)
  ultimately show ?thesis by linarith
qed

lemma no_blank_lines:
  assumes "[] \<notin> strip_cr ` set (fst (nl_split buf))"
  shows "length (lines_of buf) = length (fst (nl_split buf))"
    and "lines_of (drop (nth_end buf (length (lines_of buf))) buf @ added) = lines_of (snd (nl_split buf) @ added)"
proof -
  have "filter (\<lambda>l. l \<noteq> []) (map strip_cr (fst (nl_split buf))) = map strip_cr (fst (nl_split buf))"
    using assms by (auto simp: filter_id_conv) (metis image_eqI)
  then show len: "length (lines_of buf) = length (fst (nl_split buf))" by (simp add: lines_of_def)
  have "fst (nl_split (drop (nth_end buf (length (lines_of buf))) buf)) = []"
    using nl_split_at_end[OF length_lines_of, of buf] len by simp
  moreover from this nl_split_at_end[OF length_lines_of, of buf]
  have "lines_of (drop (nth_end buf (length (lines_of buf))) buf) = []" by (simp add: lines_of_def)
  ultimately show "lines_of (drop (nth_end buf (length (lines_of buf))) buf @ added) = lines_of (snd (nl_split buf) @ added)"
    using nl_split_at_end[OF length_lines_of, of buf] by (subst lines_of_append) simp
qed

section \<open>A read, taken apart\<close>

definition effective_offset :: "scan_file_request \<Rightarrow> string option \<Rightarrow> nat \<Rightarrow> nat" where
  "effective_offset rq inode file_size = (if was_reset rq inode file_size then 0 else sf_resume_offset rq)"

lemma effective_offset_le: "effective_offset rq inode n \<le> n"
  by (simp add: effective_offset_def was_reset_def)

text \<open>
  A read of a log that may grow meanwhile: the metadata gave the length of \<open>c\<close>, and the bytes that are there when they are read
  start with \<open>c\<close>.
\<close>

definition sees :: "disk_file \<Rightarrow> string \<Rightarrow> bool" where
  "sees df c \<longleftrightarrow> (\<exists>later. df_content df = Some (c @ later)) \<and> map_option fst (df_metadata df) = Some (length c)"

lemma read_sees:
  assumes "sees df c"
  shows "\<exists>b. read_file_once rq df = Inr b
     \<and> (let eff = effective_offset rq (df_inode df) (length c); buf = drop eff c
        in sb_was_reset b = was_reset rq (df_inode df) (length c)
           \<and> sb_lines b = fst (scan_buffer rq (df_inode df) eff buf)
           \<and> map tl_text (sb_lines b) = lines_of buf
           \<and> sb_pending_bytes b = snd (nl_split buf)
           \<and> sb_checkpoint_offset b = eff + nth_end buf (length (lines_of buf)))"
proof -
  let ?eff = "effective_offset rq (df_inode df) (length c)"
  obtain m where m: "df_metadata df = Some (length c, m)" using assms by (auto simp: sees_def)
  obtain later where c: "df_content df = Some (c @ later)" using assms by (auto simp: sees_def)
  show ?thesis
  proof (cases "length c \<le> ?eff")
    case True
    then have "drop ?eff c = []" by simp
    with m c True show ?thesis
      by (simp add: read_file_once_def Let_def effective_offset_def[symmetric] scan_buffer_lines lines_of_def nth_end_def)
  next
    case False
    have t: "map tl_text (fst (scan_buffer rq (df_inode df) ?eff (drop ?eff c))) = lines_of (drop ?eff c)"
      using length_lines_of[of "drop ?eff c"] by (simp add: scan_buffer_lines map_fst_zip_take min_def)
    have "fst (scan_buffer rq (df_inode df) ?eff (drop ?eff c)) = fst (scan_buffer rq (df_inode df) ?eff (drop ?eff c))
       \<and> snd (scan_buffer rq (df_inode df) ?eff (drop ?eff c)) = snd (nl_split (drop ?eff c))"
      by (simp add: scan_buffer_lines)
    with m c False t checkpoint_nth_end[of ?eff rq "df_inode df" "drop ?eff c"] show ?thesis
      by (cases "scan_buffer rq (df_inode df) ?eff (drop ?eff c)")
         (simp add: read_file_once_def Let_def effective_offset_def[symmetric])
  qed
qed

section \<open>Lossy decoding\<close>

lemma utf8_chunk_length: "s \<noteq> [] \<Longrightarrow> fst (utf8_chunk s) \<le> length s"
proof (cases s)
  case (Cons c cs)
  have "good_tail c cs \<le> length cs"
    by (cases cs) (auto simp: good_tail_def length_takeWhile_le)
  with Cons show ?thesis by (auto simp: utf8_chunk_def Let_def)
qed simp

text \<open>A valid chunk is valid whatever follows it.\<close>

lemma takeWhile_take_prefix: "n \<le> length (takeWhile P xs) \<Longrightarrow> n \<le> length (takeWhile P (take n xs @ ys))"
  by (induction xs arbitrary: n) (auto simp: take_Cons split: nat.split if_splits)

lemma good_tail_prefix:
  assumes "n \<le> good_tail c cs"
  shows "n \<le> good_tail c (take n cs @ ys)"
proof (cases cs)
  case (Cons d ds)
  show ?thesis
  proof (cases n)
    case (Suc m)
    with assms Cons have "second_ok (of_char c) d" "m \<le> length (takeWhile continuation ds)"
      by (auto simp: good_tail_def split: if_splits)
    with takeWhile_take_prefix Suc Cons show ?thesis by (auto simp: good_tail_def)
  qed simp
qed (use assms in \<open>auto simp: good_tail_def\<close>)

lemma utf8_chunk_prefix:
  assumes "s \<noteq> []" "utf8_chunk s = (n, True)"
  shows "utf8_chunk (take n s @ ys) = (n, True)"
proof -
  obtain c cs where s: "s = c # cs" using assms(1) by (cases s) auto
  let ?w = "utf8_width (of_char c)"
  have w: "n = ?w" "?w \<noteq> 0" "?w - 1 \<le> good_tail c cs"
    using assms(2) by (auto simp: s utf8_chunk_def Let_def split: if_splits)
  have "take n s = c # take (?w - 1) cs" using w by (simp add: s take_Cons')
  with good_tail_prefix[OF w(3), of ys] w show ?thesis
    by (simp add: utf8_chunk_def Let_def min_def)
qed

lemma utf8_lossy_valid: "utf8_valid (utf8_lossy s)"
proof (induction s rule: utf8_lossy.induct)
  case (1 s)
  show ?case
  proof (cases "s = []")
    case True then show ?thesis by (simp add: utf8_lossy.simps[of "[]"] utf8_valid.simps[of "[]"])
  next
    case False
    obtain n ok where ch: "utf8_chunk s = (n, ok)" by (cases "utf8_chunk s")
    with 1 False have ih: "utf8_valid (utf8_lossy (drop n s))" by auto
    have n: "0 < n" "n \<le> length s" using utf8_chunk_pos[OF False] utf8_chunk_length[OF False] ch by auto
    have "utf8_valid (take n s @ utf8_lossy (drop n s))" if "ok"
      using utf8_chunk_prefix[OF False, of n "utf8_lossy (drop n s)"] ch that ih n
      by (subst utf8_valid.simps) auto
    moreover have "utf8_chunk (replacement @ r) = (3, True)" for r
      by (simp add: replacement_def utf8_chunk_def utf8_width_def good_tail_def second_ok_def continuation_def Let_def)
    then have "utf8_valid (replacement @ r) = utf8_valid r" for r
      by (subst utf8_valid.simps) (simp add: replacement_def)
    ultimately show ?thesis using False ch ih by (subst utf8_lossy.simps) auto
  qed
qed

lemma utf8_lossy_id: "utf8_valid s \<Longrightarrow> utf8_lossy s = s"
proof (induction s rule: utf8_valid.induct)
  case (1 s)
  then show ?case
    by (subst utf8_lossy.simps) (auto simp: utf8_valid.simps[of s] split: if_splits prod.splits)
qed

lemma utf8_lossy_Nil [simp]: "utf8_lossy s = [] \<longleftrightarrow> s = []"
proof -
  have "utf8_lossy s \<noteq> []" if "s \<noteq> []"
    using that utf8_chunk_pos[OF that]
    by (subst utf8_lossy.simps) (auto simp: replacement_def split: prod.split)
  then show ?thesis by (auto simp: utf8_lossy.simps[of "[]"])
qed

section \<open>Properties\<close>

text \<open>
  C33. How the bytes arrive does not matter: pushing a piece and then another gives the lines, and
  leaves the pending bytes, of pushing both at once; and the lines of a buffer are those of the
  reference: every newline-ended segment without its carriage return, unless it is empty, decoded
  to valid UTF-8, which leaves a valid segment as it is.
\<close>

theorem line_buffer_chunks:
  "push_bytes p (a @ b) = (fst (push_bytes p a) @ fst (push_bytes (snd (push_bytes p a)) b),
                           snd (push_bytes (snd (push_bytes p a)) b))
   \<and> push_bytes p a = (lines_of (p @ a), snd (nl_split (p @ a)))
   \<and> list_all (\<lambda>l. l \<noteq> [] \<and> utf8_valid l) (fst (push_bytes p a))
   \<and> (if utf8_valid s then utf8_lossy s = s else utf8_valid (utf8_lossy s))"
proof -
  have "push_bytes x y = (lines_of (x @ y), snd (nl_split (x @ y)))" for x y
    using push_bytes_lines push_bytes_pending by simp
  then show ?thesis
    using lines_of_append[of "p @ a" b] nl_split_append[of "p @ a" b]
    by (auto simp: list_all_iff lines_of_def utf8_lossy_valid utf8_lossy_id)
qed

text \<open>
  C37. No completed line of a growing log is lost between two reads of it, and none is read in the
  wrong order: the lines of the second read continue the first read's from the checkpoint on,
  which lies at most as many lines back as the part the first read saw has blank lines; so each line is delivered exactly once when
  there was none. The log may also grow during a read; it is not truncated or replaced, and the second read resumes with the
  checkpoint and the inode of the first.
\<close>

theorem growing_log_read:
  assumes "sees df c" "sees df' (c @ added)" "df_inode df' = df_inode df"
    and "read_file_once rq df = Inr b"
    and "read_file_once (rq\<lparr>sf_resume_offset := sb_checkpoint_offset b, sf_previous_inode := df_inode df\<rparr>) df' = Inr b'"
  shows "let eff = effective_offset rq (df_inode df) (length c); lines = map tl_text (sb_lines b)
    in \<not> sb_was_reset b' \<and> eff \<le> sb_checkpoint_offset b \<and> sb_checkpoint_offset b \<le> length c
       \<and> (\<exists>k. take k lines @ map tl_text (sb_lines b') = lines_of (drop eff (c @ added))
            \<and> length lines \<le> k + blank_lines (drop eff c))
       \<and> (if [] \<notin> strip_cr ` set (fst (nl_split (drop eff c)))
          then lines @ map tl_text (sb_lines b') = lines_of (drop eff (c @ added)) else True)"
proof -
  define eff buf where "eff = effective_offset rq (df_inode df) (length c)" and "buf = drop eff c"
  define cp where "cp = nth_end buf (length (lines_of buf))"
  let ?rq = "rq\<lparr>sf_resume_offset := sb_checkpoint_offset b, sf_previous_inode := df_inode df\<rparr>"
  have eff: "eff \<le> length c" by (simp add: eff_def effective_offset_le)
  have b: "map tl_text (sb_lines b) = lines_of buf" "sb_checkpoint_offset b = eff + cp"
    using read_sees[OF assms(1), of rq] assms(4) by (auto simp: Let_def eff_def buf_def cp_def)
  have cp: "cp \<le> length buf" using lines_at_checkpoint(3) by (simp add: cp_def)
  then have le: "eff + cp \<le> length c" using eff by (simp add: buf_def)
  have nr: "\<not> was_reset ?rq (df_inode df') (length (c @ added))"
    using assms(3) le b(2) by (auto simp: was_reset_def)
  then have eff': "effective_offset ?rq (df_inode df') (length (c @ added)) = eff + cp"
    by (simp add: effective_offset_def b(2))
  have dr: "drop (eff + cp) (c @ added) = drop cp buf @ added" "drop eff (c @ added) = buf @ added"
    using le eff by (simp_all add: buf_def add.commute)
  have b': "\<not> sb_was_reset b'" "map tl_text (sb_lines b') = lines_of (drop cp buf @ added)"
    using read_sees[OF assms(2), of ?rq] assms(5) nr eff' dr by (auto simp: Let_def)
  have "lines_of (take cp buf) @ map tl_text (sb_lines b') = lines_of (buf @ added)"
    unfolding b'(2) cp_def by (rule lines_at_checkpoint(1))
  moreover obtain k where k: "lines_of (take cp buf) = take k (lines_of buf)"
    using lines_at_checkpoint(2)[of buf] by (auto simp: cp_def)
  moreover have "length (lines_of buf) \<le> k + blank_lines buf"
    using lines_before_checkpoint[of buf] k by (simp add: cp_def[symmetric] min_def split: if_splits)
  moreover have "lines_of buf @ map tl_text (sb_lines b') = lines_of (buf @ added)"
    if "[] \<notin> strip_cr ` set (fst (nl_split buf))"
    using no_blank_lines(2)[OF that] lines_of_append[of buf added] by (simp add: b'(2) cp_def)
  ultimately show ?thesis
    unfolding Let_def eff_def[symmetric] buf_def[symmetric] dr(2) b(1) using b(2) b'(1) le by (auto intro!: exI[of _ k])
qed

definition sample_scan :: scan_file_request where
  "sample_scan = \<lparr>sf_source_id = ''codex'', sf_source_file_id = ''f'', sf_path = ''/l'', sf_resume_offset = 0,
     sf_previous_inode = None\<rparr>"

definition sample_disk :: "string \<Rightarrow> disk_file" where
  "sample_disk c = \<lparr>df_metadata = Some (length c, None), df_inode = Some ''7'', df_content = Some c\<rparr>"

lemma sees_sample: "sees (sample_disk c) c"
  by (simp add: sees_def sample_disk_def)

lemma utf8_lossy_ascii: "utf8_width (of_char b) = 1 \<Longrightarrow> utf8_lossy [b] = [b]"
  by (subst utf8_lossy.simps) (simp add: utf8_chunk_def utf8_lossy.simps[of "[]"])

theorem growing_log_read_witness:
  "\<exists>b b'. read_file_once sample_scan (sample_disk ''a'') = Inr b
     \<and> read_file_once (sample_scan\<lparr>sf_resume_offset := sb_checkpoint_offset b, sf_previous_inode := Some ''7''\<rparr>)
          (sample_disk (''a'' @ [LF])) = Inr b'
     \<and> map tl_text (sb_lines b @ sb_lines b') = [''a'']"
proof -
  obtain b where b: "read_file_once sample_scan (sample_disk ''a'') = Inr b"
    using read_sees[OF sees_sample] by blast
  let ?rq = "sample_scan\<lparr>sf_resume_offset := sb_checkpoint_offset b, sf_previous_inode := Some ''7''\<rparr>"
  obtain b' where b': "read_file_once ?rq (sample_disk (''a'' @ [LF])) = Inr b'"
    using read_sees[OF sees_sample] by blast
  have "effective_offset sample_scan (df_inode (sample_disk ''a'')) (length ''a'') = 0"
    by (simp add: effective_offset_def sample_scan_def)
  with growing_log_read[OF sees_sample sees_sample _ b, of "[LF]" b'] b' show ?thesis
    using b by (simp add: sample_disk_def strip_cr_def lines_of_def utf8_lossy_ascii utf8_width_def Let_def)
qed

lemma numbered_slices:
  assumes "c = pre @ done @ todo"
  shows "list_all (\<lambda>l. let a = pc_source_offset_start (tl_context l); e = pc_source_offset_end (tl_context l);
              raw = take (e - 1 - a) (drop a c)
            in LF \<notin> set raw \<and> take (e - a) (drop a c) = raw @ [LF] \<and> tl_text l = utf8_lossy (strip_cr raw))
       (number_lines rq i (length pre) k (zip (map (\<lambda>l. utf8_lossy (strip_cr l)) (fst (nl_split todo)))
          (ranges (length done) (fst (nl_split todo)))))
     \<and> concat (map (\<lambda>l. let a = pc_source_offset_start (tl_context l); e = pc_source_offset_end (tl_context l)
                      in take (e - a) (drop a c))
          (number_lines rq i (length pre) k (zip (map (\<lambda>l. utf8_lossy (strip_cr l)) (fst (nl_split todo)))
            (ranges (length done) (fst (nl_split todo)))))) @ snd (nl_split todo) = todo"
  using assms
proof (induction todo arbitrary: "done" k rule: buffer_induct)
  case (open_line l)
  then show ?case by (simp add: nl_split_no_nl)
next
  case (closed_line l r)
  have "c = pre @ (done @ l @ [LF]) @ r" using closed_line(3) by simp
  note ih = closed_line(2)[OF this, of "Suc k"]
  have "drop (length pre + length done) c = l @ LF # r" using closed_line(3) by simp
  with ih closed_line(1) show ?case
    by (simp add: nl_split_line line_context_def Let_def)
qed

text \<open>
  The byte offsets of a read are exact when the part it read has no blank line: each line's
  range is one raw line with its newline, its text is that range decoded, and the ranges and the
  pending bytes together are the whole part, in order; the checkpoint is where the pending bytes
  start.
\<close>

theorem scan_offsets_exact:
  assumes "sees df c" "read_file_once rq df = Inr b"
    and "[] \<notin> strip_cr ` set (fst (nl_split (drop (effective_offset rq (df_inode df) (length c)) c)))"
  shows "list_all (\<lambda>l. let a = pc_source_offset_start (tl_context l); e = pc_source_offset_end (tl_context l);
              raw = take (e - 1 - a) (drop a c)
            in LF \<notin> set raw \<and> take (e - a) (drop a c) = raw @ [LF] \<and> tl_text l = utf8_lossy (strip_cr raw))
       (sb_lines b)
     \<and> concat (map (\<lambda>l. let a = pc_source_offset_start (tl_context l); e = pc_source_offset_end (tl_context l)
                      in take (e - a) (drop a c)) (sb_lines b)) @ sb_pending_bytes b
       = drop (effective_offset rq (df_inode df) (length c)) c
     \<and> sb_checkpoint_offset b + length (sb_pending_bytes b) = length c"
proof -
  define eff buf where "eff = effective_offset rq (df_inode df) (length c)" and "buf = drop eff c"
  have nb: "[] \<notin> strip_cr ` set (fst (nl_split buf))" using assms(3) by (simp add: eff_def buf_def)
  have eff: "eff \<le> length c" by (simp add: eff_def effective_offset_le)
  have lo: "lines_of buf = map (\<lambda>l. utf8_lossy (strip_cr l)) (fst (nl_split buf))"
    using nb by (simp add: lines_of_def filter_map comp_def) (metis (mono_tags, lifting) filter_True image_eqI)
  have b: "sb_lines b = fst (scan_buffer rq (df_inode df) eff buf)" "sb_pending_bytes b = snd (nl_split buf)"
    "sb_checkpoint_offset b = eff + nth_end buf (length (lines_of buf))"
    using read_sees[OF assms(1), of rq] assms(2) by (auto simp: Let_def eff_def buf_def)
  have "c = take eff c @ [] @ buf" and len: "length (take eff c) = eff" using eff by (simp_all add: buf_def)
  note sl = numbered_slices[OF this(1), of rq "df_inode df" 0, unfolded len list.size(3)]
  have "drop (nth_end buf (length (lines_of buf))) buf = snd (nl_split buf)"
    using nl_split_at_end[OF length_lines_of, of buf] no_blank_lines(1)[OF nb]
    by (cases rule: buffer_cases[of "drop (nth_end buf (length (lines_of buf))) buf"])
       (auto simp: nl_split_no_nl nl_split_line)
  then have "length (snd (nl_split buf)) + nth_end buf (length (lines_of buf)) = length buf"
    using nl_split_at_end[OF length_lines_of, of buf] by (metis le_add_diff_inverse2 length_drop)
  then have "sb_checkpoint_offset b + length (sb_pending_bytes b) = length c"
    using b eff by (simp add: buf_def)
  with sl show ?thesis
    unfolding eff_def[symmetric] buf_def[symmetric] b(1,2) scan_buffer_lines lo fst_conv by blast
qed

theorem scan_offsets_exact_witness:
  "\<exists>b. read_file_once sample_scan (sample_disk [CHR 0x61, LF]) = Inr b
     \<and> sb_checkpoint_offset b + length (sb_pending_bytes b) = 2"
proof -
  obtain b where b: "read_file_once sample_scan (sample_disk [CHR 0x61, LF]) = Inr b"
    using read_sees[OF sees_sample] by blast
  have "effective_offset sample_scan (df_inode (sample_disk [CHR 0x61, LF])) (length [CHR 0x61, LF]) = 0"
    by (simp add: effective_offset_def sample_scan_def)
  with scan_offsets_exact[OF sees_sample b] b show ?thesis by (simp add: strip_cr_def)
qed

text \<open>
  With a blank line the offsets of a read slip: the line after it gets the blank line's range,
  the checkpoint stops before the last line, and the next read of the same file delivers it again.
\<close>

theorem blank_line_rereads:
  "\<exists>b b'. read_file_once sample_scan (sample_disk [CHR 0x61, LF, LF, CHR 0x62, LF]) = Inr b
     \<and> map (\<lambda>l. (tl_text l, pc_source_offset_start (tl_context l), pc_source_offset_end (tl_context l))) (sb_lines b)
          = [(''a'', 0, 2), (''b'', 2, 3)]
     \<and> sb_checkpoint_offset b = 3
     \<and> read_file_once (sample_scan\<lparr>sf_resume_offset := 3, sf_previous_inode := Some ''7''\<rparr>)
          (sample_disk [CHR 0x61, LF, LF, CHR 0x62, LF]) = Inr b'
     \<and> map tl_text (sb_lines b') = [''b'']"
  by (simp add: read_file_once_def sample_disk_def sample_scan_def was_reset_def scan_buffer_lines lines_of_def
      strip_cr_def utf8_lossy_ascii utf8_width_def checkpoint_of_def line_context_def)

end
