(* ===== verification/Project_Paths.thy ===== *)
theory Project_Paths
  imports Busytok_Prelude
begin

text \<open>
  Paths: the components of a Unix path as the standard library's \<open>Path\<close> gives them, and the
  project path normalization of \<open>busytok-domain/src/identity.rs\<close> (\<open>normalize_project_path\<close>,
  \<open>expand_tilde\<close>, \<open>normalize_path_components\<close>, \<open>derive_project_hash\<close>, \<open>hash_short\<close>). The home
  directory and SHA-256 are parameters; Windows prefixes are not modelled.
\<close>

section \<open>std::path\<close>

datatype path_component = Root_Dir | Cur_Dir | Parent_Dir | Normal string

fun seg_component :: "string \<Rightarrow> path_component list" where
  "seg_component s =
     (if s = [] \<or> s = ''.'' then [] else if s = ''..'' then [Parent_Dir] else [Normal s])"

declare seg_component.simps [simp del]

text \<open>A leading dot of a relative path is a component, every other one is skipped.\<close>

definition components :: "string \<Rightarrow> path_component list" where
  "components p =
     (let segs = split_on CHR ''/'' p in
      (if prefix ''/'' p then [Root_Dir] else if hd segs = ''.'' then [Cur_Dir] else [])
      @ concat (map seg_component segs))"

definition file_name :: "string \<Rightarrow> string option" where
  "file_name p =
     (case components p of
        [] \<Rightarrow> None
      | cs \<Rightarrow> (case last cs of Normal s \<Rightarrow> Some s | _ \<Rightarrow> None))"

text \<open>A name is cut at its last dot, unless that dot is its first character.\<close>

definition split_at_dot :: "string \<Rightarrow> string \<times> string option" where
  "split_at_dot name =
     (let after = rev (takeWhile (\<lambda>c. c \<noteq> CHR ''.'') (rev name));
          before = take (length name - length after - 1) name
      in if length after = length name \<or> before = [] then (name, None) else (before, Some after))"

definition file_stem :: "string \<Rightarrow> string option" where
  "file_stem p = map_option (\<lambda>n. fst (split_at_dot n)) (file_name p)"

definition path_extension :: "string \<Rightarrow> string option" where
  "path_extension p = Option.bind (file_name p) (\<lambda>n. snd (split_at_dot n))"

definition path_join :: "string \<Rightarrow> string \<Rightarrow> string" where
  "path_join base rest =
     (if prefix ''/'' rest then rest
      else if base = [] \<or> suffix ''/'' base then base @ rest else base @ ''/'' @ rest)"

section \<open>Normalization\<close>

datatype identity_error = Empty_Path | Not_Absolute string

text \<open>The cleaned path is whether it is absolute, and its names.\<close>

fun push_component :: "path_component \<Rightarrow> bool \<times> string list \<Rightarrow> bool \<times> string list" where
  "push_component Root_Dir _ = (True, [])"
| "push_component Cur_Dir r = r"
| "push_component Parent_Dir (rooted, names) = (rooted, butlast names)"
| "push_component (Normal c) (rooted, names) = (rooted, names @ [c])"

definition normalize_path_components :: "string \<Rightarrow> bool \<times> string list" where
  "normalize_path_components p = fold push_component (components p) (False, [])"

definition display_path :: "bool \<times> string list \<Rightarrow> string" where
  "display_path r = (if fst r then ''/'' else []) @ join ''/'' (snd r)"

definition expand_tilde :: "string option \<Rightarrow> string \<Rightarrow> string" where
  "expand_tilde home p =
     (if p = ''~'' then unwrap_or p home
      else if prefix ''~/'' p \<or> prefix [CHR ''~'', CHR 0x5C] p
      then (case home of Some h \<Rightarrow> path_join h (drop 2 p) | None \<Rightarrow> p)
      else p)"

definition normalize_project_path :: "string option \<Rightarrow> string \<Rightarrow> identity_error + string" where
  "normalize_project_path home p =
     (if p = [] then Inl Empty_Path
      else let normalized = normalize_path_components (expand_tilde home p)
           in if fst normalized then Inr (display_path normalized)
              else Inl (Not_Absolute (display_path normalized)))"

definition derive_project_hash :: "(string \<Rightarrow> string) \<Rightarrow> string \<Rightarrow> string" where
  "derive_project_hash sha256_hex normalized = sha256_hex normalized"

definition hash_short :: "(string \<Rightarrow> string) \<Rightarrow> string \<Rightarrow> string" where
  "hash_short sha256_hex input = take 12 (sha256_hex input)"

section \<open>Normal forms\<close>

definition clean_name :: "string \<Rightarrow> bool" where
  "clean_name s = (s \<noteq> [] \<and> s \<noteq> ''.'' \<and> s \<noteq> ''..'' \<and> CHR ''/'' \<notin> set s)"

lemma components_clean: "Normal s \<in> set (components p) \<Longrightarrow> clean_name s"
  by (auto simp: components_def Let_def seg_component.simps clean_name_def
           dest: split_on_parts split: if_splits)

lemma push_component_clean:
  assumes "list_all clean_name (snd r)" "\<And>s. c = Normal s \<Longrightarrow> clean_name s"
  shows "list_all clean_name (snd (push_component c r))"
  using assms by (cases "(c, r)" rule: push_component.cases) (auto simp: list_all_iff dest: in_set_butlastD)

lemma normalized_clean: "list_all clean_name (snd (normalize_path_components p))"
proof -
  have "list_all clean_name (snd (fold push_component cs r))"
    if "list_all clean_name (snd r)" "\<And>s. Normal s \<in> set cs \<Longrightarrow> clean_name s" for cs r
    using that by (induction cs arbitrary: r) (simp_all add: push_component_clean)
  from this [of "(False, [])" "components p"] show ?thesis
    by (simp add: normalize_path_components_def components_clean)
qed

lemma concat_clean: "list_all clean_name names \<Longrightarrow> concat (map seg_component names) = map Normal names"
  by (induction names) (auto simp: seg_component.simps clean_name_def)

lemma components_display:
  "list_all clean_name names \<Longrightarrow> components (display_path (True, names)) = Root_Dir # map Normal names"
proof -
  assume c: "list_all clean_name names"
  show ?thesis
  proof (cases "names = []")
    case True
    then show ?thesis by (simp add: components_def display_path_def seg_component.simps)
  next
    case False
    have "split_on CHR ''/'' (join ''/'' names) = names"
      using c False by (intro split_on_join) (auto simp: list_all_iff clean_name_def)
    then have "split_on CHR ''/'' (display_path (True, names)) = [] # names"
      using split_on_append [of "CHR ''/''" "[]"] by (simp add: display_path_def del: split_on.simps)
    then show ?thesis
      using concat_clean [OF c] by (simp add: components_def seg_component.simps del: split_on.simps)
        (simp add: display_path_def)
  qed
qed

lemma fold_push_names: "fold push_component (map Normal ns) (b, names) = (b, names @ ns)"
  by (induction ns arbitrary: names) simp_all

text \<open>
  A project path that normalizes is absolute and in normal form: its components are the root and
  clean names without dots, and normalizing it again changes nothing, so the project hash taken of
  it does not depend on how often it was normalized.
\<close>

theorem project_path_canonical:
  assumes "normalize_project_path home p = Inr q"
  shows "normalize_project_path home q = Inr q
         \<and> (\<exists>names. list_all clean_name names \<and> components q = Root_Dir # map Normal names)"
proof -
  let ?n = "normalize_path_components (expand_tilde home p)"
  obtain names where n: "?n = (True, names)" and q: "q = display_path (True, names)"
    using assms by (cases ?n) (auto simp: normalize_project_path_def Let_def split: if_splits)
  have clean: "list_all clean_name names"
    using normalized_clean [of "expand_tilde home p"] n by simp
  have root: "prefix ''/'' q" "q \<noteq> []"
    by (simp_all add: q display_path_def)
  then have "expand_tilde home q = q"
    by (cases q) (auto simp: expand_tilde_def)
  then have "normalize_project_path home q = Inr q"
    using root clean
    by (simp add: normalize_project_path_def normalize_path_components_def q components_display fold_push_names)
  then show ?thesis
    using clean components_display [OF clean] q by blast
qed

theorem project_path_canonical_witness:
  "normalize_project_path (Some ''/home/u'') ''~/a/./b/../c'' = Inr ''/home/u/a/c''
   \<and> normalize_project_path (Some ''/home/u'') ''/home/u/a/c'' = Inr ''/home/u/a/c''"
proof -
  have h: "normalize_project_path (Some ''/home/u'') ''~/a/./b/../c'' = Inr ''/home/u/a/c''"
    by code_simp
  show ?thesis
    using h project_path_canonical [OF h] by blast
qed

end
