(* ===== verification/Log_Adapters.thy ===== *)
theory Log_Adapters
  imports Usage_Events Jsonl_Scanner Project_Paths
begin

text \<open>
  The adapters that turn one line of an agent's log into events: \<open>busytok-adapters/src/claude.rs\<close> and
  \<open>codex.rs\<close>, with the event types of \<open>busytok-domain/src/events.rs\<close>. The serde decoders, the RFC 3339
  parser, Unicode trimming and lower case, the clock, the home directory and SHA-256 are the fields
  of \<open>log_lib\<close>; the clock is read once per line for a missing timestamp and once for the creation time.
\<close>

section \<open>Parsed events\<close>

record tool_event =
  te_id :: string
  te_agent :: agent_kind
  te_source :: event_source
  te_session_id :: string
  te_message_id :: "string option"
  te_tool_name :: string
  te_status :: "string option"
  te_timestamp_ms :: "int option"
  te_project_hash :: "string option"
  te_created_at_ms :: int

record diagnostic_event =
  de_id :: string
  de_agent :: "agent_kind option"
  de_source_id :: "string option"
  de_source_file_id :: "string option"
  de_source_path :: "string option"
  de_source_line :: "int option"
  de_category :: string
  de_severity :: string
  de_message :: string
  de_detail_json :: "string option"
  de_happened_at_ms :: int
  de_created_at_ms :: int

record codex_snapshot =
  cs_source :: event_source
  cs_session_id :: string
  cs_turn_id :: "string option"
  cs_token_event_ordinal :: int
  cs_input_tokens :: int
  cs_cached_input_tokens :: int
  cs_output_tokens :: int
  cs_reasoning_tokens :: int
  cs_total_tokens :: int
  cs_delta_input_tokens :: "int option"
  cs_delta_cached_input_tokens :: "int option"
  cs_delta_output_tokens :: "int option"
  cs_delta_reasoning_tokens :: "int option"
  cs_delta_total_tokens :: "int option"
  cs_model :: "string option"
  cs_model_provider :: "string option"
  cs_cost_usd :: "f64_bits option"
  cs_raw_usage_json :: string
  cs_timestamp_ms :: int

datatype normalized_event = Usage usage_event | Tool tool_event | Diagnostic diagnostic_event

datatype parsed_log_event = Normalized normalized_event | Codex_Snapshot codex_snapshot

datatype parse_error = Malformed_Json string | Missing_Required_Field string
  | Unsupported_Schema string | Content_Excluded string

datatype usage_write_policy = Insert_Once | Replace

fun parse_error_text :: "parse_error \<Rightarrow> string" where
  "parse_error_text (Malformed_Json reason) = ''malformed JSON: '' @ reason"
| "parse_error_text (Missing_Required_Field field) = ''missing required field: '' @ field"
| "parse_error_text (Unsupported_Schema details) = ''unsupported schema: '' @ details"
| "parse_error_text (Content_Excluded reason) = ''content excluded: '' @ reason"

definition source_of :: "parse_context \<Rightarrow> event_source" where
  "source_of ctx =
     \<lparr>es_file_id = pc_source_file_id ctx, es_path = pc_source_path ctx, es_line = pc_source_line ctx,
      es_offset_start = pc_source_offset_start ctx, es_offset_end = pc_source_offset_end ctx\<rparr>"

section \<open>Lines as serde decodes them\<close>

datatype json = J_Null | J_Bool bool | J_Int int | J_Real f64_bits | J_String string
  | J_Array "json list" | J_Object "(string \<times> json) list"

fun json_get :: "string \<Rightarrow> json \<Rightarrow> json option" where
  "json_get k (J_Object kvs) = map_of kvs k"
| "json_get k _ = None"

fun as_str :: "json \<Rightarrow> string option" where
  "as_str (J_String s) = Some s"
| "as_str _ = None"

fun as_object :: "json \<Rightarrow> json option" where
  "as_object (J_Object kvs) = Some (J_Object kvs)"
| "as_object _ = None"

record claude_usage =
  cu_input_tokens :: "int option"
  cu_output_tokens :: "int option"
  cu_cache_creation_input_tokens :: "int option"
  cu_cache_read_input_tokens :: "int option"
  cu_speed :: "string option"

record claude_message =
  cg_id :: "string option"
  cg_model :: "string option"
  cg_usage :: "claude_usage option"
  cg_content :: "json list option"

record claude_line =
  cl_cwd :: "string option"
  cl_session_id :: "string option"
  cl_timestamp :: "string option"
  cl_version :: "string option"
  cl_message :: "claude_message option"
  cl_request_id :: "string option"
  cl_cost_usd :: "f64_bits option"
  cl_is_api_error_message :: "bool option"
  cl_is_sidechain :: "bool option"

record codex_usage =
  cx_input_tokens :: int
  cx_cached_input_tokens :: int
  cx_output_tokens :: int
  cx_reasoning_output_tokens :: int
  cx_total_tokens :: int

record codex_line =
  xl_session_id :: "string option"
  xl_timestamp :: string
  xl_model :: "string option"
  xl_last_token_usage :: "codex_usage option"
  xl_total_token_usage :: "codex_usage option"
  xl_cost_usd :: "f64_bits option"

record codex_envelope =
  xe_timestamp :: string
  xe_event_type :: string
  xe_payload :: json

record log_lib =
  ll_trim :: "string \<Rightarrow> string"
  ll_to_lowercase :: "string \<Rightarrow> string"
  ll_rfc3339 :: "string \<Rightarrow> (int \<times> int) option"
  ll_home_dir :: "string option"
  ll_sha256_hex :: "string \<Rightarrow> string"
  ll_now :: "parse_context \<Rightarrow> int"
  ll_created :: "parse_context \<Rightarrow> int"
  ll_claude_line :: "string \<Rightarrow> string + claude_line"
  ll_codex_line :: "string \<Rightarrow> string + codex_line"
  ll_codex_envelope :: "string \<Rightarrow> string + codex_envelope"
  ll_codex_usage :: "json \<Rightarrow> string + codex_usage"
  ll_json :: "string \<Rightarrow> json option"

text \<open>Seconds and milliseconds of the parsed time.\<close>

definition parse_iso8601_to_ms :: "log_lib \<Rightarrow> string \<Rightarrow> int option" where
  "parse_iso8601_to_ms l ts =
     map_option (\<lambda>(secs, ms). secs * 1000 + ms) (ll_rfc3339 l (ll_trim l ts))"

text \<open>\<open>str::parse::<i64>\<close>: an optional sign, then digits, within range.\<close>

definition is_digit :: "char \<Rightarrow> bool" where
  "is_digit c = (let n = of_char c :: nat in 48 \<le> n \<and> n \<le> 57)"

definition digits_value :: "string \<Rightarrow> int" where
  "digits_value s = foldl (\<lambda>acc c. acc * 10 + (of_char c - 48)) 0 s"

definition parse_i64 :: "string \<Rightarrow> int option" where
  "parse_i64 s =
     (let (neg, ds) = (case s of [] \<Rightarrow> (False, [])
                       | c # cs \<Rightarrow> if c = CHR ''-'' then (True, cs) else if c = CHR ''+'' then (False, cs)
                                   else (False, s))
      in if ds \<noteq> [] \<and> list_all is_digit ds
         then checked_i64 (if neg then - digits_value ds else digits_value ds) else None)"

section \<open>Claude Code\<close>

definition claude_can_parse_path :: "log_lib \<Rightarrow> string \<Rightarrow> bool" where
  "claude_can_parse_path l path =
     (let name_lower = (case file_name path of Some n \<Rightarrow> ll_to_lowercase l n | None \<Rightarrow> [])
      in (path_extension path = Some ''jsonl'' \<or> suffix ''jsonl'' name_lower)
         \<and> \<not> contains_str ''codex'' name_lower)"

definition KNOWN_COMPATIBLE :: "string list" where
  "KNOWN_COMPATIBLE =
     [''deepseek'', ''glm'', ''qwen'', ''moonshot'', ''kimi'', ''yi-'', ''baichuan'', ''spark'', ''ernie'',
      ''doubao'', ''hunyuan'']"

definition claude_shape :: "string option \<Rightarrow> int \<Rightarrow> int \<Rightarrow> int \<Rightarrow> payload_shape" where
  "claude_shape model raw_input cache_read cache_creation =
     (let model_lower = map to_ascii_lower (unwrap_or [] model) in
      if list_ex (\<lambda>f. contains_str f model_lower) KNOWN_COMPATIBLE then Anthropic_Compatible
      else if raw_input < i64_add cache_read cache_creation then Anthropic_Compatible
      else Anthropic_Native)"

text \<open>The message and the request name the event; without either, its place and content do.\<close>

definition claude_event_id :: "string option \<Rightarrow> string option \<Rightarrow> parse_context \<Rightarrow> string \<Rightarrow> string" where
  "claude_event_id message_id request_id ctx raw_event_hash =
     (case message_id of
        Some mid \<Rightarrow> (case request_id of Some rid \<Rightarrow> ''claude:'' @ mid @ '':'' @ rid | None \<Rightarrow> ''claude:'' @ mid)
      | None \<Rightarrow>
          (case request_id of Some rid \<Rightarrow> ''claude:req:'' @ rid
           | None \<Rightarrow> ''claude:'' @ pc_source_file_id ctx @ '':'' @ show_nat (pc_source_offset_start ctx)
                     @ '':'' @ raw_event_hash))"

text \<open>The first content block whose text carries a usable reset time wins.\<close>

definition block_reset_time :: "log_lib \<Rightarrow> json \<Rightarrow> int option" where
  "block_reset_time l c =
     Option.bind (Option.bind (json_get ''text'' c) as_str) (\<lambda>text.
       if contains_str ''Claude AI usage limit reached'' text
       then (case split_on CHR ''|'' text of
               _ # ts_str # _ \<Rightarrow>
                 Option.bind (parse_i64 (ll_trim l ts_str)) (\<lambda>ts. if 0 < ts then Some (ts * 1000) else None)
             | _ \<Rightarrow> None)
       else None)"

fun first_some :: "('a \<Rightarrow> 'b option) \<Rightarrow> 'a list \<Rightarrow> 'b option" where
  "first_some f [] = None"
| "first_some f (x # xs) = (case f x of Some y \<Rightarrow> Some y | None \<Rightarrow> first_some f xs)"

definition extract_usage_limit_reset :: "log_lib \<Rightarrow> claude_line \<Rightarrow> int option" where
  "extract_usage_limit_reset l parsed =
     Option.bind (Option.bind (cl_message parsed) cg_content) (first_some (block_reset_time l))"

definition claude_fingerprint :: "string \<Rightarrow> string option \<Rightarrow> string option \<Rightarrow> int \<Rightarrow> int \<Rightarrow> int \<Rightarrow> fingerprint" where
  "claude_fingerprint session_id request_id message_id input output total_tokens =
     \<lparr>fp_agent = ''claude_code'', fp_session_id = session_id, fp_turn_id = None,
      fp_request_id = Some (unwrap_or [] request_id), fp_message_id = Some (unwrap_or [] message_id),
      fp_input_tokens = input, fp_output_tokens = output, fp_total_tokens = total_tokens,
      fp_exclude_tokens = False\<rparr>"

definition claude_project :: "log_lib \<Rightarrow> string option \<Rightarrow> event_project" where
  "claude_project l cwd =
     (let normalized = (case cwd of None \<Rightarrow> None
                        | Some p \<Rightarrow> (case normalize_project_path (ll_home_dir l) p of Inr q \<Rightarrow> Some q | Inl _ \<Rightarrow> None))
      in \<lparr>ep_project_path = normalized,
          ep_project_hash = map_option (derive_project_hash (ll_sha256_hex l)) normalized, ep_cwd = cwd\<rparr>)"

definition claude_event ::
  "log_lib \<Rightarrow> parse_context \<Rightarrow> claude_line \<Rightarrow> claude_message \<Rightarrow> claude_usage \<Rightarrow> usage_event" where
  "claude_event l ctx parsed message usage =
     (let raw_input = unwrap_or 0 (cu_input_tokens usage);
          output = unwrap_or 0 (cu_output_tokens usage);
          cache_read = unwrap_or 0 (cu_cache_read_input_tokens usage);
          cache_creation = unwrap_or 0 (cu_cache_creation_input_tokens usage);
          shape = claude_shape (cg_model message) raw_input cache_read cache_creation;
          unified = from_raw shape raw_input cache_read cache_creation;
          session_id = derive_session_id (cl_session_id parsed) (pc_source_file_id ctx);
          timestamp_ms = unwrap_or (ll_now l ctx) (Option.bind (cl_timestamp parsed) (parse_iso8601_to_ms l));
          total_tokens = i64_add (i64_add (i64_add raw_input output) cache_creation) cache_read;
          raw_event_hash = metadata_event_hash (ll_sha256_hex l)
            (claude_fingerprint session_id (cl_request_id parsed) (cg_id message) raw_input output total_tokens)
      in \<lparr>ue_id = claude_event_id (cg_id message) (cl_request_id parsed) ctx raw_event_hash,
          ue_agent = ClaudeCode, ue_source = source_of ctx, ue_session_id = session_id,
          ue_turn_id = None, ue_source_request_id = cl_request_id parsed, ue_message_id = cg_id message,
          ue_timestamp_ms = timestamp_ms, ue_project = claude_project l (cl_cwd parsed),
          ue_model = \<lparr>em_model = cg_model message, em_model_provider = Some ''anthropic'',
            em_agent_version = cl_version parsed, em_client_kind = Some ''claude_code'',
            em_speed = cu_speed usage\<rparr>,
          ue_tokens = \<lparr>et_input_tokens = raw_input, et_output_tokens = output, et_total_tokens = total_tokens,
            et_cached_input_tokens = cache_read, et_cache_creation_tokens = cache_creation,
            et_cache_read_tokens = cache_read, et_reasoning_tokens = 0, et_thoughts_tokens = 0,
            et_tool_tokens = 0\<rparr>,
          ue_shape = shape, ue_prompt_input_total_tokens = cm_prompt_input_total_tokens unified,
          ue_prompt_input_non_cached_tokens = cm_prompt_input_non_cached_tokens unified,
          ue_cost = \<lparr>ec_cost_usd = cl_cost_usd parsed, ec_estimated_cost_usd = None,
            ec_cost_currency = Some ''USD'',
            ec_cost_source = Some (if cl_cost_usd parsed = None then ''unknown'' else ''source''),
            ec_price_catalog_version = None\<rparr>,
          ue_is_error = False, ue_error_type = None,
          ue_usage_limit_reset_time_ms =
            (if unwrap_or False (cl_is_api_error_message parsed) then extract_usage_limit_reset l parsed else None),
          ue_raw_event_hash = raw_event_hash,
          ue_is_sidechain = unwrap_or False (cl_is_sidechain parsed),
          ue_dedupe_key = map_option (\<lambda>mid. ''claude:msg:'' @ mid) (cg_id message),
          ue_created_at_ms = ll_created l ctx, ue_updated_at_ms = ll_created l ctx\<rparr>)"

definition claude_parse_line ::
  "log_lib \<Rightarrow> parse_context \<Rightarrow> string \<Rightarrow> parse_error + parsed_log_event list" where
  "claude_parse_line l ctx line =
     (let trimmed = ll_trim l line in
      if trimmed = [] then Inr []
      else case ll_claude_line l trimmed of
             Inl e \<Rightarrow> Inl (Malformed_Json (''malformed JSON: '' @ e))
           | Inr parsed \<Rightarrow>
               (case (cl_message parsed, Option.bind (cl_message parsed) cg_usage) of
                  (Some message, Some usage) \<Rightarrow>
                    if cg_model message = Some ''<synthetic>'' then Inr []
                    else Inr [Normalized (Usage (claude_event l ctx parsed message usage))]
                | _ \<Rightarrow> Inr []))"

section \<open>Codex\<close>

definition codex_can_parse_path :: "log_lib \<Rightarrow> string \<Rightarrow> bool" where
  "codex_can_parse_path l path =
     (path_extension path = Some ''jsonl''
      \<and> (contains_str ''/.codex/sessions/'' (ll_to_lowercase l path)
         \<or> (case file_name path of Some n \<Rightarrow> contains_str ''codex'' (ll_to_lowercase l n) | None \<Rightarrow> False)))"

definition infer_session_id :: "parse_context \<Rightarrow> string" where
  "infer_session_id ctx =
     (case file_stem (pc_source_path ctx) of
        Some stem \<Rightarrow> if stem = [] then pc_source_file_id ctx else stem
      | None \<Rightarrow> pc_source_file_id ctx)"

text \<open>The reported total_tokens, or a fallback sum when it is not positive.\<close>

definition usage_total :: "codex_usage \<Rightarrow> int" where
  "usage_total u =
     (if 0 < cx_total_tokens u then cx_total_tokens u
      else cx_input_tokens u + cx_output_tokens u + cx_reasoning_output_tokens u)"

definition snapshot_from_usage ::
  "log_lib \<Rightarrow> parse_context \<Rightarrow> string \<Rightarrow> string \<Rightarrow> string \<Rightarrow> string option \<Rightarrow> codex_usage option
   \<Rightarrow> codex_usage option \<Rightarrow> f64_bits option \<Rightarrow> parse_error + parsed_log_event list" where
  "snapshot_from_usage l ctx raw_line timestamp session_id model last_usage total_usage cost =
     (case coalesce total_usage last_usage of
        None \<Rightarrow> Inl (Missing_Required_Field ''total_token_usage or last_token_usage'')
      | Some usage \<Rightarrow>
          Inr [Codex_Snapshot
            \<lparr>cs_source = source_of ctx, cs_session_id = session_id, cs_turn_id = None,
             cs_token_event_ordinal = 0, cs_input_tokens = cx_input_tokens usage,
             cs_cached_input_tokens = cx_cached_input_tokens usage,
             cs_output_tokens = cx_output_tokens usage,
             cs_reasoning_tokens = cx_reasoning_output_tokens usage, cs_total_tokens = usage_total usage,
             cs_delta_input_tokens = map_option cx_input_tokens last_usage,
             cs_delta_cached_input_tokens = map_option cx_cached_input_tokens last_usage,
             cs_delta_output_tokens = map_option cx_output_tokens last_usage,
             cs_delta_reasoning_tokens = map_option cx_reasoning_output_tokens last_usage,
             cs_delta_total_tokens = map_option usage_total last_usage,
             cs_model = model, cs_model_provider = Some ''openai'', cs_cost_usd = cost,
             cs_raw_usage_json = raw_line,
             cs_timestamp_ms = unwrap_or (ll_now l ctx) (parse_iso8601_to_ms l timestamp)\<rparr>])"

definition snapshot_from_legacy_line ::
  "log_lib \<Rightarrow> parse_context \<Rightarrow> string \<Rightarrow> codex_line \<Rightarrow> parse_error + parsed_log_event list" where
  "snapshot_from_legacy_line l ctx raw_line parsed =
     snapshot_from_usage l ctx raw_line (xl_timestamp parsed)
       (unwrap_or (infer_session_id ctx) (xl_session_id parsed)) (xl_model parsed)
       (xl_last_token_usage parsed) (xl_total_token_usage parsed) (xl_cost_usd parsed)"

text \<open>A \<open>token_count\<close> payload: the totals (or, without them, the last usage), then the delta.\<close>

definition snapshot_from_info ::
  "log_lib \<Rightarrow> parse_context \<Rightarrow> string \<Rightarrow> string \<Rightarrow> json \<Rightarrow> parse_error + parsed_log_event list" where
  "snapshot_from_info l ctx raw_line timestamp info =
     (case coalesce (json_get ''total_token_usage'' info) (json_get ''last_token_usage'' info) of
        None \<Rightarrow> Inr []
      | Some total_value \<Rightarrow>
          (case ll_codex_usage l total_value of
             Inl e \<Rightarrow> Inl (Malformed_Json (''Codex token_count usage parse error: '' @ e))
           | Inr total_usage \<Rightarrow>
               (let model = Option.bind (Option.bind (json_get ''model'' info) as_str)
                      (\<lambda>s. let t = ll_trim l s in if t = [] then None else Some t);
                    finish = (\<lambda>last_usage. snapshot_from_usage l ctx raw_line timestamp
                                (infer_session_id ctx) model last_usage (Some total_usage) None)
                in case json_get ''last_token_usage'' info of
                     None \<Rightarrow> finish None
                   | Some v \<Rightarrow>
                       (case ll_codex_usage l v of
                          Inl e \<Rightarrow> Inl (Malformed_Json (''Codex token_count delta parse error: '' @ e))
                        | Inr u \<Rightarrow> finish (Some u)))))"

definition codex_event_line ::
  "log_lib \<Rightarrow> parse_context \<Rightarrow> string \<Rightarrow> parse_error + parsed_log_event list" where
  "codex_event_line l ctx trimmed =
     (case ll_codex_envelope l trimmed of
        Inl e \<Rightarrow> Inl (Malformed_Json (''Codex JSON parse error: '' @ e))
      | Inr parsed \<Rightarrow>
          if xe_event_type parsed \<noteq> ''event_msg'' then Inr []
          else if unwrap_or [] (Option.bind (json_get ''type'' (xe_payload parsed)) as_str) \<noteq> ''token_count''
          then Inr []
          else case Option.bind (json_get ''info'' (xe_payload parsed)) as_object of
                 None \<Rightarrow> Inr []
               | Some info \<Rightarrow> snapshot_from_info l ctx trimmed (xe_timestamp parsed) info)"

definition codex_parse_line ::
  "log_lib \<Rightarrow> parse_context \<Rightarrow> string \<Rightarrow> parse_error + parsed_log_event list" where
  "codex_parse_line l ctx line =
     (let trimmed = ll_trim l line in
      if trimmed = [] then Inr []
      else case ll_codex_line l trimmed of
             Inr parsed \<Rightarrow>
               if xl_total_token_usage parsed \<noteq> None \<or> xl_last_token_usage parsed \<noteq> None
               then snapshot_from_legacy_line l ctx trimmed parsed
               else codex_event_line l ctx trimmed
           | Inl _ \<Rightarrow> codex_event_line l ctx trimmed)"

section \<open>The adapter interface\<close>

record adapter =
  ad_agent :: agent_kind
  ad_can_parse_path :: "string \<Rightarrow> bool"
  ad_parse_line :: "parse_context \<Rightarrow> string \<Rightarrow> parse_error + parsed_log_event list"
  ad_write_policy :: usage_write_policy

definition claude_adapter :: "log_lib \<Rightarrow> adapter" where
  "claude_adapter l =
     \<lparr>ad_agent = ClaudeCode, ad_can_parse_path = claude_can_parse_path l,
      ad_parse_line = claude_parse_line l, ad_write_policy = Replace\<rparr>"

definition codex_adapter :: "log_lib \<Rightarrow> adapter" where
  "codex_adapter l =
     \<lparr>ad_agent = Codex, ad_can_parse_path = codex_can_parse_path l,
      ad_parse_line = codex_parse_line l, ad_write_policy = Insert_Once\<rparr>"

text \<open>
  What the runtime relies on: a line gives at most one event, which names the line it came from and is
  of the adapter's kind.
\<close>

fun event_line :: "parsed_log_event \<Rightarrow> event_source option" where
  "event_line (Normalized (Usage e)) = Some (ue_source e)"
| "event_line (Codex_Snapshot s) = Some (cs_source s)"
| "event_line (Normalized (Tool t)) = Some (te_source t)"
| "event_line (Normalized (Diagnostic d)) = None"

definition snapshots_only :: "parsed_log_event list \<Rightarrow> bool" where
  "snapshots_only evs = list_all (\<lambda>e. case e of Codex_Snapshot _ \<Rightarrow> True | _ \<Rightarrow> False) evs"

definition usage_only :: "parsed_log_event list \<Rightarrow> bool" where
  "usage_only evs = list_all (\<lambda>e. case e of Normalized (Usage _) \<Rightarrow> True | _ \<Rightarrow> False) evs"

locale log_adapter =
  fixes a :: adapter
  assumes at_most_one: "ad_parse_line a ctx line = Inr evs \<Longrightarrow> length evs \<le> 1"
    and names_line: "ad_parse_line a ctx line = Inr evs \<Longrightarrow> ev \<in> set evs \<Longrightarrow> event_line ev = Some (source_of ctx)"
    and kind: "ad_parse_line a ctx line = Inr evs \<Longrightarrow>
      (case ad_agent a of ClaudeCode \<Rightarrow> usage_only evs | Codex \<Rightarrow> snapshots_only evs)"
begin

lemma no_diagnostics: "ad_parse_line a ctx line = Inr evs \<Longrightarrow> Normalized (Diagnostic d) \<notin> set evs"
  using names_line by fastforce

lemma parsed_cases:
  assumes "ad_parse_line a ctx line = Inr evs"
  obtains "evs = []" | ev where "evs = [ev]" "event_line ev = Some (source_of ctx)"
proof (cases evs)
  case (Cons ev rest)
  with at_most_one [OF assms] have "rest = []" by simp
  with Cons names_line [OF assms] that(2) show ?thesis by simp
qed (use that(1) in simp)

end

lemma claude_parse_shape:
  "claude_parse_line l ctx line = Inr evs \<Longrightarrow>
     evs = [] \<or> (\<exists>parsed message usage. evs = [Normalized (Usage (claude_event l ctx parsed message usage))])"
  by (auto simp: claude_parse_line_def Let_def split: if_splits sum.splits option.splits)

lemma snapshot_from_usage_Inr:
  "snapshot_from_usage l ctx raw ts sid m last_usage total_usage cost = Inr evs \<Longrightarrow>
     \<exists>s. evs = [Codex_Snapshot s] \<and> cs_source s = source_of ctx \<and> cs_turn_id s = None"
  by (auto simp: snapshot_from_usage_def split: option.splits)

lemma codex_event_line_shape:
  "codex_event_line l ctx raw = Inr evs \<Longrightarrow>
     evs = [] \<or> (\<exists>s. evs = [Codex_Snapshot s] \<and> cs_source s = source_of ctx \<and> cs_turn_id s = None)"
  by (auto simp: codex_event_line_def snapshot_from_info_def Let_def
           split: sum.splits if_splits option.splits dest!: snapshot_from_usage_Inr)

lemma codex_parse_shape:
  "codex_parse_line l ctx line = Inr evs \<Longrightarrow>
     evs = [] \<or> (\<exists>s. evs = [Codex_Snapshot s] \<and> cs_source s = source_of ctx \<and> cs_turn_id s = None)"
  by (auto simp: codex_parse_line_def snapshot_from_legacy_line_def Let_def
           split: sum.splits if_splits dest!: snapshot_from_usage_Inr codex_event_line_shape)

lemma claude_event_source: "ue_source (claude_event l ctx parsed message usage) = source_of ctx"
  by (simp add: claude_event_def Let_def)

interpretation claude: log_adapter "claude_adapter l" for l
  by unfold_locales
    (auto simp: claude_adapter_def usage_only_def claude_event_source dest!: claude_parse_shape)

interpretation codex: log_adapter "codex_adapter l" for l
  by unfold_locales
    (auto simp: codex_adapter_def snapshots_only_def dest!: codex_parse_shape)

section \<open>Properties of a Claude line\<close>

text \<open>
  C39. When a Claude line's counters are not negative and add up within 64 bits, the event's unified cache metrics satisfy the
  cache invariant (no anomaly is possible from this adapter): the native shape is only chosen when
  the cache fits in the input. The event's total is prompt plus output for a compatible provider;
  for the native shape, whose prompt already contains the cache, it exceeds that by the cache. (Beyond 64 bits the sums wrap, see
  \<open>huge_cache_is_native\<close>.)
\<close>

theorem claude_metrics_sound:
  assumes "claude_parse_line l ctx line = Inr [Normalized (Usage e)]"
    and "0 \<le> et_input_tokens (ue_tokens e)" "0 \<le> et_cache_read_tokens (ue_tokens e)"
        "0 \<le> et_cache_creation_tokens (ue_tokens e)" "0 \<le> et_output_tokens (ue_tokens e)"
    and "et_input_tokens (ue_tokens e) + et_output_tokens (ue_tokens e) + et_cache_creation_tokens (ue_tokens e)
         + et_cache_read_tokens (ue_tokens e) < 2 ^ 63"
  shows "invariant_holds (event_metrics e)
         \<and> et_total_tokens (ue_tokens e) =
             ue_prompt_input_total_tokens e + et_output_tokens (ue_tokens e)
             + (if ue_shape e = Anthropic_Native
                then et_cache_read_tokens (ue_tokens e) + et_cache_creation_tokens (ue_tokens e) else 0)"
proof -
  obtain parsed message usage where e: "e = claude_event l ctx parsed message usage"
    using claude_parse_shape [OF assms(1)] by auto
  have exact: "i64_add a b = a + b" if "0 \<le> a" "0 \<le> b" "a + b < 2 ^ 63" for a b
    using that by (intro i64_exact) (simp add: i64_range_def i64_min_def i64_max_def)
  have exact': "i64_sub a b = a - b" if "0 \<le> b" "b \<le> a" "a < 2 ^ 63" for a b
    using that by (intro i64_exact) (simp add: i64_range_def i64_min_def i64_max_def)
  show ?thesis
    using assms(2-) unfolding e
    by (auto simp: claude_event_def event_metrics_def invariant_holds_def from_raw_def claude_shape_def Let_def exact exact'
             split: payload_shape.splits if_splits)
qed

text \<open>Two cache counters of \<open>2^62\<close> wrap to a negative sum: the line is read as native, and its metrics are an anomaly.\<close>

lemma huge_cache_is_native:
  "claude_shape None 0 (2 ^ 62) (2 ^ 62) = Anthropic_Native
   \<and> cm_prompt_input_non_cached_tokens (from_raw Anthropic_Native 0 (2 ^ 62) (2 ^ 62)) < 0"
  by (simp add: claude_shape_def KNOWN_COMPATIBLE_def contains_str_def from_raw_def i64_add_def i64_sub_def i64_wrap_def)

text \<open>
  The identity of a Claude event. Two events of one message share the dedupe key whatever their
  request ids, and events of different messages never do; within a message the event id is the same
  exactly when the request id is.
\<close>

theorem claude_message_identity:
  assumes "claude_parse_line l ctx line = Inr [Normalized (Usage e)]"
    and "claude_parse_line l ctx' line' = Inr [Normalized (Usage e')]"
    and "ue_message_id e = Some mid"
  shows "(ue_dedupe_key e' = ue_dedupe_key e \<longleftrightarrow> ue_message_id e' = Some mid)
         \<and> (if ue_message_id e' = Some mid
            then ue_id e' = ue_id e \<longleftrightarrow> ue_source_request_id e' = ue_source_request_id e else True)"
proof -
  obtain p m u p' m' u' where e: "e = claude_event l ctx p m u" "e' = claude_event l ctx' p' m' u'"
    using claude_parse_shape [OF assms(1)] claude_parse_shape [OF assms(2)] by auto
  show ?thesis
    using assms(3) unfolding e
    by (auto simp: claude_event_def claude_event_id_def Let_def split: option.splits)
qed

text \<open>A library for concrete runs: every line decodes to the given record.\<close>

definition sample_lib :: "(string \<Rightarrow> claude_line) \<Rightarrow> (string \<Rightarrow> codex_line) \<Rightarrow> log_lib" where
  "sample_lib claude cdx =
     \<lparr>ll_trim = (\<lambda>s. s), ll_to_lowercase = map to_ascii_lower, ll_rfc3339 = (\<lambda>_. None),
      ll_home_dir = None, ll_sha256_hex = (\<lambda>s. s), ll_now = (\<lambda>_. 0), ll_created = (\<lambda>_. 0),
      ll_claude_line = (\<lambda>s. Inr (claude s)), ll_codex_line = (\<lambda>s. Inr (cdx s)),
      ll_codex_envelope = (\<lambda>_. Inl []), ll_codex_usage = (\<lambda>_. Inl []), ll_json = (\<lambda>_. None)\<rparr>"

definition sample_line :: "string \<Rightarrow> claude_line" where
  "sample_line rid =
     \<lparr>cl_cwd = None, cl_session_id = Some ''s'', cl_timestamp = None, cl_version = None,
      cl_message = Some \<lparr>cg_id = Some ''m'', cg_model = Some ''claude-opus'',
        cg_usage = Some \<lparr>cu_input_tokens = Some 100, cu_output_tokens = Some 20,
          cu_cache_creation_input_tokens = Some 10, cu_cache_read_input_tokens = Some 30, cu_speed = None\<rparr>,
        cg_content = None\<rparr>,
      cl_request_id = Some rid, cl_cost_usd = None, cl_is_api_error_message = None,
      cl_is_sidechain = None\<rparr>"

definition sample_ctx :: parse_context where
  "sample_ctx = \<lparr>pc_source_file_id = ''f'', pc_source_path = ''/p.jsonl'', pc_inode = None, pc_source_line = 1,
     pc_source_offset_start = 0, pc_source_offset_end = 9, pc_replay_sequence = 0\<rparr>"

definition sample_event :: "string \<Rightarrow> usage_event" where
  "sample_event rid =
     claude_event (sample_lib sample_line undefined) sample_ctx (sample_line rid) (the (cl_message (sample_line rid)))
       (the (cg_usage (the (cl_message (sample_line rid)))))"

lemma sample_parse:
  "rid \<noteq> [] \<Longrightarrow> claude_parse_line (sample_lib sample_line undefined) sample_ctx rid
     = Inr [Normalized (Usage (sample_event rid))]"
  by (simp add: claude_parse_line_def sample_event_def sample_lib_def sample_line_def)

lemma sample_event_fields:
  "ue_tokens (sample_event rid) =
     \<lparr>et_input_tokens = 100, et_output_tokens = 20, et_total_tokens = 160, et_cached_input_tokens = 30,
      et_cache_creation_tokens = 10, et_cache_read_tokens = 30, et_reasoning_tokens = 0,
      et_thoughts_tokens = 0, et_tool_tokens = 0\<rparr>"
  "ue_message_id (sample_event rid) = Some ''m''" "ue_source_request_id (sample_event rid) = Some rid"
  by (simp_all add: sample_event_def claude_event_def sample_line_def Let_def i64_add_def i64_wrap_def)

theorem claude_metrics_sound_witness:
  "claude_parse_line (sample_lib sample_line undefined) sample_ctx ''r1'' = Inr [Normalized (Usage (sample_event ''r1''))]
   \<and> invariant_holds (event_metrics (sample_event ''r1''))"
  using claude_metrics_sound [OF sample_parse [of "''r1''"]] sample_parse [of "''r1''"]
  by (simp add: sample_event_fields)

theorem claude_message_identity_witness:
  "ue_dedupe_key (sample_event ''r2'') = ue_dedupe_key (sample_event ''r1'')
   \<and> ue_id (sample_event ''r2'') \<noteq> ue_id (sample_event ''r1'')"
  using claude_message_identity [OF sample_parse [of "''r1''"] sample_parse [of "''r2''"], of "''m''"]
  by (simp add: sample_event_fields)

end
