(* ===== verification/Usage_Store.thy ===== *)
theory Usage_Store
  imports Log_Adapters
begin

text \<open>
  The table of usage events, \<open>busytok-store/src/write_queries.rs\<close>: the write path that collapses the
  rows of one message, with the token deltas it hands to the rollups and the per-event diagnostics
  it keeps in step, and the retention of events and diagnostics. A row is the event with its
  generation and its dedupe column; the primary key is the event's id and the pair of generation and
  dedupe key is unique (\<open>0001_baseline.sql\<close>). Subtraction of floats is a parameter.
\<close>

section \<open>Rows\<close>

record usage_table_row =
  ur_event :: usage_event
  ur_generation_id :: string
  ur_dedupe_key :: string

record usage_db =
  ud_usage_events :: "usage_table_row list"
  ud_diagnostic_events :: "diagnostic_event list"

datatype usage_store_error = Unique_Violation string

abbreviation row_id :: "usage_table_row \<Rightarrow> string" where
  "row_id r \<equiv> ue_id (ur_event r)"

text \<open>The columns as bound: a missing cost source is stored as unknown.\<close>

definition bound_event :: "usage_event \<Rightarrow> usage_event" where
  "bound_event e =
     e\<lparr>ue_cost := (ue_cost e)\<lparr>ec_cost_source := Some (unwrap_or ''unknown'' (ec_cost_source (ue_cost e)))\<rparr>\<rparr>"

definition table_row :: "usage_event \<Rightarrow> string \<Rightarrow> string \<Rightarrow> usage_table_row" where
  "table_row e generation_id dedupe_key =
     \<lparr>ur_event = bound_event e, ur_generation_id = generation_id, ur_dedupe_key = dedupe_key\<rparr>"

definition same_dedupe :: "string \<Rightarrow> string \<Rightarrow> usage_table_row \<Rightarrow> bool" where
  "same_dedupe generation_id dedupe_key r = (ur_generation_id r = generation_id \<and> ur_dedupe_key r = dedupe_key)"

text \<open>\<open>INSERT OR IGNORE\<close>, with the number of rows it changed.\<close>

definition insert_ignore ::
  "usage_event \<Rightarrow> string \<Rightarrow> string \<Rightarrow> usage_table_row list \<Rightarrow> usage_table_row list \<times> nat" where
  "insert_ignore e generation_id dedupe_key rows =
     (if list_ex (\<lambda>r. row_id r = ue_id e \<or> same_dedupe generation_id dedupe_key r) rows then (rows, 0)
      else (rows @ [table_row e generation_id dedupe_key], 1))"

text \<open>\<open>ON CONFLICT(id) DO UPDATE\<close>: the refreshed columns, the generation and the rest unchanged.\<close>

definition refresh_row :: "usage_event \<Rightarrow> string \<Rightarrow> usage_table_row \<Rightarrow> usage_table_row" where
  "refresh_row e dedupe_key r =
     (let old = ur_event r; new = bound_event e
      in r\<lparr>ur_dedupe_key := dedupe_key,
           ur_event := old\<lparr>ue_model := (ue_model old)\<lparr>em_speed := em_speed (ue_model new)\<rparr>,
             ue_usage_limit_reset_time_ms := ue_usage_limit_reset_time_ms new,
             ue_tokens := ue_tokens new,
             ue_cost := (ue_cost old)\<lparr>ec_cost_usd := ec_cost_usd (ue_cost new),
               ec_estimated_cost_usd := ec_estimated_cost_usd (ue_cost new),
               ec_cost_source := ec_cost_source (ue_cost new),
               ec_price_catalog_version := ec_price_catalog_version (ue_cost new)\<rparr>,
             ue_raw_event_hash := ue_raw_event_hash new, ue_dedupe_key := ue_dedupe_key new,
             ue_is_sidechain := ue_is_sidechain new, ue_shape := ue_shape new,
             ue_prompt_input_total_tokens := ue_prompt_input_total_tokens new,
             ue_prompt_input_non_cached_tokens := ue_prompt_input_non_cached_tokens new,
             ue_updated_at_ms := max (ue_updated_at_ms new) (ue_updated_at_ms old)\<rparr>\<rparr>)"

definition upsert_by_id ::
  "usage_event \<Rightarrow> string \<Rightarrow> string \<Rightarrow> usage_table_row list \<Rightarrow> usage_store_error + usage_table_row list" where
  "upsert_by_id e generation_id dedupe_key rows =
     (case find (\<lambda>r. row_id r = ue_id e) rows of
        Some r \<Rightarrow>
          if list_ex (\<lambda>q. row_id q \<noteq> ue_id e \<and> same_dedupe (ur_generation_id r) dedupe_key q) rows
          then Inl (Unique_Violation (ue_id e))
          else Inr (upd_where (\<lambda>r. row_id r = ue_id e) (refresh_row e dedupe_key) rows)
      | None \<Rightarrow>
          if list_ex (same_dedupe generation_id dedupe_key) rows then Inl (Unique_Violation (ue_id e))
          else Inr (rows @ [table_row e generation_id dedupe_key]))"

section \<open>Candidates and winners\<close>

record old_event_tokens =
  oe_event_id :: string
  oe_tokens :: event_tokens
  oe_cost_usd :: "f64_bits option"
  oe_estimated_cost_usd :: "f64_bits option"

definition cost_delta :: "(f64_bits \<Rightarrow> f64_bits \<Rightarrow> f64_bits) \<Rightarrow> f64_bits option \<Rightarrow> f64_bits option \<Rightarrow> f64_bits option" where
  "cost_delta fsub new old =
     (case (new, old) of (Some n, Some o') \<Rightarrow> Some (fsub n o') | (Some n, None) \<Rightarrow> Some n | (None, _) \<Rightarrow> None)"

definition compute_delta :: "(f64_bits \<Rightarrow> f64_bits \<Rightarrow> f64_bits) \<Rightarrow> old_event_tokens \<Rightarrow> usage_event \<Rightarrow> usage_event" where
  "compute_delta fsub old new =
     new\<lparr>ue_tokens := sub_tokens (ue_tokens new) (oe_tokens old),
         ue_cost := (ue_cost new)\<lparr>ec_cost_usd := cost_delta fsub (ec_cost_usd (ue_cost new)) (oe_cost_usd old),
           ec_estimated_cost_usd :=
             cost_delta fsub (ec_estimated_cost_usd (ue_cost new)) (oe_estimated_cost_usd old)\<rparr>\<rparr>"

record existing_row =
  xr_id :: string
  xr_is_sidechain :: bool
  xr_total_tokens :: int
  xr_tokens :: old_event_tokens

definition existing_row_view :: "usage_event \<Rightarrow> existing_row" where
  "existing_row_view e =
     \<lparr>xr_id = ue_id e, xr_is_sidechain = ue_is_sidechain e, xr_total_tokens = et_total_tokens (ue_tokens e),
      xr_tokens = \<lparr>oe_event_id = ue_id e, oe_tokens = ue_tokens e, oe_cost_usd = ec_cost_usd (ue_cost e),
                   oe_estimated_cost_usd = ec_estimated_cost_usd (ue_cost e)\<rparr>\<rparr>"

definition fetch_existing_for_dedupe :: "string \<Rightarrow> string \<Rightarrow> usage_table_row list \<Rightarrow> existing_row option" where
  "fetch_existing_for_dedupe generation_id dedupe_key rows =
     map_option (\<lambda>r. existing_row_view (ur_event r)) (find (same_dedupe generation_id dedupe_key) rows)"

definition remove_other_dedupe_rows ::
  "string \<Rightarrow> string \<Rightarrow> string \<Rightarrow> usage_table_row list \<Rightarrow> usage_table_row list" where
  "remove_other_dedupe_rows generation_id dedupe_key keep_id rows =
     filter (\<lambda>r. \<not> (same_dedupe generation_id dedupe_key r \<and> row_id r \<noteq> keep_id)) rows"

definition new_beats_existing :: "usage_event \<Rightarrow> existing_row \<Rightarrow> bool" where
  "new_beats_existing new existing =
     (if xr_is_sidechain existing \<and> \<not> ue_is_sidechain new then True
      else if \<not> xr_is_sidechain existing \<and> ue_is_sidechain new then False
      else xr_total_tokens existing < et_total_tokens (ue_tokens new))"

section \<open>The cache-metric diagnostic\<close>

definition upsert_diagnostic_event :: "diagnostic_event \<Rightarrow> diagnostic_event list \<Rightarrow> diagnostic_event list" where
  "upsert_diagnostic_event d ds = filter (\<lambda>x. de_id x \<noteq> de_id d) ds @ [d]"

definition delete_diagnostic_by_id :: "string \<Rightarrow> diagnostic_event list \<Rightarrow> diagnostic_event list" where
  "delete_diagnostic_by_id i ds = filter (\<lambda>d. de_id d \<noteq> i) ds"

definition violation_id :: "string \<Rightarrow> string" where
  "violation_id event_id = ''cache-metric-violation:'' @ event_id"

definition dquote :: string where "dquote = [CHR 0x22]"

definition violation_detail :: "usage_event \<Rightarrow> string" where
  "violation_detail e =
     ''{'' @ dquote @ ''event_id'' @ dquote @ '':'' @ dquote @ ue_id e @ dquote
     @ '','' @ dquote @ ''shape'' @ dquote @ '':'' @ dquote @ shape_str (ue_shape e) @ dquote
     @ '','' @ dquote @ ''total'' @ dquote @ '':'' @ show_int (ue_prompt_input_total_tokens e)
     @ '','' @ dquote @ ''non_cached'' @ dquote @ '':'' @ show_int (ue_prompt_input_non_cached_tokens e)
     @ '','' @ dquote @ ''cache_read'' @ dquote @ '':'' @ show_int (et_cache_read_tokens (ue_tokens e))
     @ '','' @ dquote @ ''cache_write'' @ dquote @ '':'' @ show_int (et_cache_creation_tokens (ue_tokens e))
     @ ''}''"

definition violation_diagnostic :: "int \<Rightarrow> usage_event \<Rightarrow> diagnostic_event" where
  "violation_diagnostic now e =
     \<lparr>de_id = violation_id (ue_id e), de_agent = Some (ue_agent e), de_source_id = Some [],
      de_source_file_id = Some (es_file_id (ue_source e)), de_source_path = Some (es_path (ue_source e)),
      de_source_line = Some (int (es_line (ue_source e))), de_category = ''cache_metric'',
      de_severity = ''warning'',
      de_message = ''cache metric invariant violated; cache_hit_rate nulled'',
      de_detail_json = Some (violation_detail e), de_happened_at_ms = ue_timestamp_ms e,
      de_created_at_ms = now\<rparr>"

definition sync_cache_metric_diagnostic :: "int \<Rightarrow> usage_event \<Rightarrow> diagnostic_event list \<Rightarrow> diagnostic_event list" where
  "sync_cache_metric_diagnostic now e ds =
     (if invariant_holds (event_metrics e) then delete_diagnostic_by_id (violation_id (ue_id e)) ds
      else upsert_diagnostic_event (violation_diagnostic now e) ds)"

section \<open>The batch write\<close>

record store_lib =
  sl_fsub :: "f64_bits \<Rightarrow> f64_bits \<Rightarrow> f64_bits"
  sl_now :: "usage_event \<Rightarrow> int"

record dedup_state =
  ds_db :: usage_db
  ds_effective_events :: "usage_event list"
  ds_inserted_ids :: "string list"
  ds_winners :: "string \<Rightarrow> existing_row option"
  ds_inserted :: int
  ds_replaced :: int
  ds_dropped :: int

definition dedup_start :: "usage_db \<Rightarrow> dedup_state" where
  "dedup_start db =
     \<lparr>ds_db = db, ds_effective_events = [], ds_inserted_ids = [], ds_winners = (\<lambda>_. None),
      ds_inserted = 0, ds_replaced = 0, ds_dropped = 0\<rparr>"

definition event_dedupe_key :: "usage_event \<Rightarrow> string" where
  "event_dedupe_key e = unwrap_or (ue_id e) (ue_dedupe_key e)"

text \<open>An event that is new to the table counts in full.\<close>

definition record_insert :: "usage_event \<Rightarrow> dedup_state \<Rightarrow> dedup_state" where
  "record_insert e st =
     st\<lparr>ds_effective_events := ds_effective_events st @ [e], ds_inserted_ids := ds_inserted_ids st @ [ue_id e],
        ds_inserted := ds_inserted st + 1\<rparr>"

definition write_insert_once :: "store_lib \<Rightarrow> string \<Rightarrow> usage_event \<Rightarrow> dedup_state \<Rightarrow> dedup_state" where
  "write_insert_once l generation_id e st =
     (let (rows, changes) = insert_ignore e generation_id (ue_id e) (ud_usage_events (ds_db st)) in
      if 0 < changes
      then record_insert e
             (st\<lparr>ds_db := \<lparr>ud_usage_events = rows,
                           ud_diagnostic_events =
                             sync_cache_metric_diagnostic (sl_now l e) e (ud_diagnostic_events (ds_db st))\<rparr>\<rparr>)
      else st)"

text \<open>The displaced row, with its diagnostic, makes room for a winner with another id.\<close>

definition evict_displaced :: "string \<Rightarrow> string \<Rightarrow> usage_event \<Rightarrow> existing_row option \<Rightarrow> usage_db \<Rightarrow> usage_db" where
  "evict_displaced generation_id dedupe_key e existing db =
     (case existing of
        Some x \<Rightarrow>
          if xr_id x \<noteq> ue_id e
          then \<lparr>ud_usage_events = remove_other_dedupe_rows generation_id dedupe_key (ue_id e) (ud_usage_events db),
                ud_diagnostic_events = delete_diagnostic_by_id (violation_id (xr_id x)) (ud_diagnostic_events db)\<rparr>
          else db
      | None \<Rightarrow> db)"

definition write_replace ::
  "store_lib \<Rightarrow> string \<Rightarrow> usage_event \<Rightarrow> dedup_state \<Rightarrow> usage_store_error + dedup_state" where
  "write_replace l generation_id e st =
     (let dedupe_key = event_dedupe_key e;
          existing = (case ds_winners st dedupe_key of
                        Some w \<Rightarrow> Some w
                      | None \<Rightarrow> fetch_existing_for_dedupe generation_id dedupe_key (ud_usage_events (ds_db st)))
      in if \<not> (case existing of None \<Rightarrow> True | Some x \<Rightarrow> new_beats_existing e x)
         then Inr (st\<lparr>ds_dropped := ds_dropped st + 1\<rparr>)
         else let db = evict_displaced generation_id dedupe_key e existing (ds_db st) in
              case upsert_by_id e generation_id dedupe_key (ud_usage_events db) of
                Inl err \<Rightarrow> Inl err
              | Inr rows \<Rightarrow>
                  (let st = st\<lparr>ds_db := \<lparr>ud_usage_events = rows,
                                         ud_diagnostic_events =
                                           sync_cache_metric_diagnostic (sl_now l e) e (ud_diagnostic_events db)\<rparr>\<rparr>;
                       st = (case existing of
                               None \<Rightarrow> record_insert e st
                             | Some x \<Rightarrow>
                                 st\<lparr>ds_effective_events := ds_effective_events st @ [compute_delta (sl_fsub l) (xr_tokens x) e],
                                    ds_replaced := ds_replaced st + 1\<rparr>)
                   in Inr (st\<lparr>ds_winners := (ds_winners st)(dedupe_key := Some (existing_row_view e))\<rparr>)))"

fun write_event ::
  "store_lib \<Rightarrow> string \<Rightarrow> usage_event \<times> usage_write_policy \<Rightarrow> dedup_state \<Rightarrow> usage_store_error + dedup_state" where
  "write_event l generation_id (e, Insert_Once) st = Inr (write_insert_once l generation_id e st)"
| "write_event l generation_id (e, Replace) st = write_replace l generation_id e st"

fun write_events ::
  "store_lib \<Rightarrow> string \<Rightarrow> (usage_event \<times> usage_write_policy) list \<Rightarrow> dedup_state \<Rightarrow> usage_store_error + dedup_state" where
  "write_events l generation_id [] st = Inr st"
| "write_events l generation_id (x # xs) st =
     (case write_event l generation_id x st of
        Inl err \<Rightarrow> Inl err | Inr st \<Rightarrow> write_events l generation_id xs st)"

text \<open>A failed batch leaves the table to its transaction, which rolls it back.\<close>

definition upsert_usage_events_dedup_aware ::
  "store_lib \<Rightarrow> (usage_event \<times> usage_write_policy) list \<Rightarrow> string \<Rightarrow> usage_db \<Rightarrow> usage_store_error + dedup_state" where
  "upsert_usage_events_dedup_aware l events generation_id db = write_events l generation_id events (dedup_start db)"

definition insert_usage_events_batch ::
  "store_lib \<Rightarrow> usage_event list \<Rightarrow> string \<Rightarrow> usage_db \<Rightarrow> usage_store_error + (int \<times> usage_db)" where
  "insert_usage_events_batch l events generation_id db =
     (case upsert_usage_events_dedup_aware l (map (\<lambda>e. (e, Insert_Once)) events) generation_id db of
        Inl err \<Rightarrow> Inl err | Inr st \<Rightarrow> Inr (ds_inserted st, ds_db st))"

section \<open>Retention\<close>

definition prune_usage_events :: "int \<Rightarrow> string \<Rightarrow> usage_db \<Rightarrow> int \<times> usage_db" where
  "prune_usage_events now generation_id db =
     (let cutoff = now - 86400000;
          aged = (\<lambda>r. ur_generation_id r = generation_id \<and> ue_timestamp_ms (ur_event r) < cutoff);
          gone = filter aged (ud_usage_events db)
      in (int (length gone),
          \<lparr>ud_usage_events = filter (\<lambda>r. \<not> aged r) (ud_usage_events db),
           ud_diagnostic_events =
             filter (\<lambda>d. \<not> list_ex (\<lambda>r. de_id d = violation_id (row_id r)) gone) (ud_diagnostic_events db)\<rparr>))"

definition prunable :: "diagnostic_event \<Rightarrow> bool" where
  "prunable d = (de_category d \<noteq> ''cache_metric'')"

definition prune_diagnostic_events :: "int \<Rightarrow> usage_db \<Rightarrow> int \<times> usage_db" where
  "prune_diagnostic_events older_than_ms db =
     (let ds = ud_diagnostic_events db;
          kept = filter (\<lambda>d. \<not> (de_created_at_ms d < older_than_ms \<and> prunable d)) ds;
          count = int (count_where prunable kept);
          oldest = map de_id (sql_limit (count - 10000)
                     (sort_by (\<lambda>a b. de_created_at_ms a \<le> de_created_at_ms b) (filter prunable kept)));
          kept' = (if 10000 < count then filter (\<lambda>d. de_id d \<notin> set oldest) kept else kept)
      in (int (length ds) - int (length kept'), db\<lparr>ud_diagnostic_events := kept'\<rparr>))"

section \<open>The table's invariant\<close>

text \<open>
  Ids and dedupe pairs are unique. Within the generation an id determines the dedupe key
  (\<open>key_of\<close>), as the adapters' ids do, and the ids of other generations (\<open>foreign\<close>) are not the
  batch's: the primary key is the id alone.
\<close>

definition dedupe_pair :: "usage_table_row \<Rightarrow> string \<times> string" where
  "dedupe_pair r = (ur_generation_id r, ur_dedupe_key r)"

definition table_ok :: "string \<Rightarrow> (string \<Rightarrow> string) \<Rightarrow> (string \<Rightarrow> bool) \<Rightarrow> usage_table_row list \<Rightarrow> bool" where
  "table_ok g key_of foreign rows =
     (distinct (map row_id rows) \<and> distinct (map dedupe_pair rows)
      \<and> list_all (\<lambda>r. if ur_generation_id r = g then ur_dedupe_key r = key_of (row_id r) \<and> \<not> foreign (row_id r)
                      else foreign (row_id r)) rows)"

fun event_ok :: "(string \<Rightarrow> string) \<Rightarrow> (string \<Rightarrow> bool) \<Rightarrow> usage_event \<times> usage_write_policy \<Rightarrow> bool" where
  "event_ok key_of foreign (e, p) =
     (\<not> foreign (ue_id e)
      \<and> key_of (ue_id e) = (case p of Insert_Once \<Rightarrow> ue_id e | Replace \<Rightarrow> event_dedupe_key e))"

definition generation_tokens :: "string \<Rightarrow> usage_table_row list \<Rightarrow> event_tokens" where
  "generation_tokens g rows =
     sum_tokens (map (\<lambda>r. ue_tokens (ur_event r)) (filter (\<lambda>r. ur_generation_id r = g) rows))"

text \<open>The ids of the rows that violate the cache invariant.\<close>

definition violating :: "usage_table_row list \<Rightarrow> string \<Rightarrow> bool" where
  "violating rows i = list_ex (\<lambda>r. row_id r = i \<and> \<not> invariant_holds (event_metrics (ur_event r))) rows"

definition diagnostics_ok :: "usage_db \<Rightarrow> bool" where
  "diagnostics_ok db =
     ((\<forall>i. list_ex (\<lambda>d. de_id d = violation_id i) (ud_diagnostic_events db) = violating (ud_usage_events db) i)
      \<and> list_all (\<lambda>d. if prefix (violation_id []) (de_id d) then \<not> prunable d else True) (ud_diagnostic_events db))"

lemma generation_tokens_simps [simp]:
  "generation_tokens g [] = zero_tokens"
  "generation_tokens g (r # rows) =
     (if ur_generation_id r = g then add_tokens (ue_tokens (ur_event r)) (generation_tokens g rows)
      else generation_tokens g rows)"
  "generation_tokens g (xs @ ys) = add_tokens (generation_tokens g xs) (generation_tokens g ys)"
  by (simp_all add: generation_tokens_def sum_tokens_append)

lemma violating_simps [simp]:
  "violating [] i = False"
  "violating (r # rows) i = (row_id r = i \<and> \<not> invariant_holds (event_metrics (ur_event r)) \<or> violating rows i)"
  "violating (xs @ ys) i = (violating xs i \<or> violating ys i)"
  by (simp_all add: violating_def)

lemma bound_event_simps [simp]:
  "ue_id (bound_event e) = ue_id e" "ue_tokens (bound_event e) = ue_tokens e"
  "event_metrics (bound_event e) = event_metrics e" "existing_row_view (bound_event e) = existing_row_view e"
  by (simp_all add: bound_event_def event_metrics_def existing_row_view_def)

lemma table_row_simps [simp]:
  "ur_event (table_row e g k) = bound_event e" "ur_generation_id (table_row e g k) = g"
  "ur_dedupe_key (table_row e g k) = k"
  by (simp_all add: table_row_def)

lemma refresh_row_simps [simp]:
  "ue_id (ur_event (refresh_row e k r)) = ue_id (ur_event r)"
  "ue_tokens (ur_event (refresh_row e k r)) = ue_tokens e"
  "event_metrics (ur_event (refresh_row e k r)) = event_metrics e"
  "ur_generation_id (refresh_row e k r) = ur_generation_id r" "ur_dedupe_key (refresh_row e k r) = k"
  by (simp_all add: refresh_row_def Let_def event_metrics_def bound_event_def)

lemma refresh_row_view [simp]:
  "ue_id (ur_event r) = ue_id e \<Longrightarrow> existing_row_view (ur_event (refresh_row e k r)) = existing_row_view e"
  by (simp add: refresh_row_def Let_def existing_row_view_def bound_event_def)

section \<open>One row by its key\<close>

lemma find_split:
  "find P xs = Some x \<Longrightarrow> \<exists>as bs. xs = as @ x # bs \<and> P x \<and> list_all (\<lambda>y. \<not> P y) as"
proof (induction xs)
  case (Cons y xs)
  show ?case
  proof (cases "P y")
    case True
    with Cons.prems have "y # xs = [] @ x # xs" "P x" by simp_all
    then show ?thesis by (metis list.pred_inject(1))
  next
    case False
    with Cons obtain as bs where "xs = as @ x # bs" "P x" "list_all (\<lambda>y. \<not> P y) as" by auto
    with False have "y # xs = (y # as) @ x # bs" "P x" "list_all (\<lambda>y. \<not> P y) (y # as)" by simp_all
    then show ?thesis by blast
  qed
qed simp

text \<open>The row of a key splits the table, and no other row has its key or its id.\<close>

lemma key_split:
  assumes "table_ok g key_of foreign rows" "find (same_dedupe g k) rows = Some r"
  obtains as bs where "rows = as @ r # bs" "same_dedupe g k r"
    "list_all (\<lambda>q. \<not> same_dedupe g k q \<and> row_id q \<noteq> row_id r) (as @ bs)"
proof -
  obtain as bs where s: "rows = as @ r # bs" "same_dedupe g k r"
    using find_split [OF assms(2)] by blast
  have "list_all (\<lambda>q. \<not> same_dedupe g k q \<and> row_id q \<noteq> row_id r) (as @ bs)"
  proof -
    have fresh: "row_id r \<notin> row_id ` set (as @ bs)" "dedupe_pair r \<notin> dedupe_pair ` set (as @ bs)"
      using assms(1) s(1) by (simp_all add: table_ok_def image_Un)
    have "\<not> same_dedupe g k q \<and> row_id q \<noteq> row_id r" if q: "q \<in> set (as @ bs)" for q
      using fresh imageI [OF q, of row_id] imageI [OF q, of dedupe_pair] s(2)
      by (auto simp: same_dedupe_def dedupe_pair_def)
    then show ?thesis by (simp add: list_all_iff)
  qed
  with s that show ?thesis by blast
qed

lemma find_append_none: "list_all (\<lambda>q. \<not> P q) xs \<Longrightarrow> find P (xs @ ys) = find P ys"
  by (induction xs) simp_all

lemma find_none: "list_all (\<lambda>q. \<not> P q) xs \<Longrightarrow> find P xs = None"
  by (induction xs) simp_all

lemma no_row_with_id:
  assumes "table_ok g key_of foreign rows" "find (same_dedupe g (key_of i)) rows = None" "\<not> foreign i"
  shows "list_all (\<lambda>r. row_id r \<noteq> i \<and> \<not> same_dedupe g (key_of i) r) rows"
  using assms by (auto simp: table_ok_def list_all_iff find_None_iff same_dedupe_def split: if_splits)

text \<open>What a write does to the table, as its users see it.\<close>

definition effect_ok ::
  "string \<Rightarrow> (string \<Rightarrow> string) \<Rightarrow> (string \<Rightarrow> bool) \<Rightarrow> usage_event \<Rightarrow> usage_table_row list \<Rightarrow> usage_table_row list \<Rightarrow> bool" where
  "effect_ok g key_of foreign e rows rows' =
     (let k = key_of (ue_id e); old = fetch_existing_for_dedupe g k rows in
      table_ok g key_of foreign rows'
      \<and> (\<forall>j. fetch_existing_for_dedupe g j rows' =
              (if j = k then Some (existing_row_view e) else fetch_existing_for_dedupe g j rows))
      \<and> add_tokens (generation_tokens g rows') (case old of None \<Rightarrow> zero_tokens | Some x \<Rightarrow> oe_tokens (xr_tokens x))
          = add_tokens (generation_tokens g rows) (ue_tokens e)
      \<and> filter (\<lambda>r. ur_generation_id r \<noteq> g) rows' = filter (\<lambda>r. ur_generation_id r \<noteq> g) rows
      \<and> (\<forall>i. violating rows' i =
              (if i = ue_id e then \<not> invariant_holds (event_metrics e)
               else case old of Some x \<Rightarrow> i \<noteq> xr_id x \<and> violating rows i | None \<Rightarrow> violating rows i)))"

lemma not_violating: "list_all (\<lambda>r. row_id r \<noteq> i) rows \<Longrightarrow> \<not> violating rows i"
  by (induction rows) auto

lemma append_effect:
  assumes ok: "table_ok g key_of foreign rows" and "\<not> foreign (ue_id e)"
    and none: "fetch_existing_for_dedupe g (key_of (ue_id e)) rows = None"
  shows "effect_ok g key_of foreign e rows (rows @ [table_row e g (key_of (ue_id e))])"
proof -
  have absent: "list_all (\<lambda>r. row_id r \<noteq> ue_id e \<and> \<not> same_dedupe g (key_of (ue_id e)) r) rows"
    using no_row_with_id [OF ok _ assms(2)] none by (simp add: fetch_existing_for_dedupe_def)
  have "table_ok g key_of foreign (rows @ [table_row e g (key_of (ue_id e))])"
    using ok assms(2) absent
    by (auto simp: table_ok_def list_all_iff dedupe_pair_def same_dedupe_def)
  moreover have "find (same_dedupe g j) (rows @ [table_row e g (key_of (ue_id e))]) =
      (if j = key_of (ue_id e) then Some (table_row e g j) else find (same_dedupe g j) rows)" for j
  proof -
    have "find (same_dedupe g (key_of (ue_id e))) rows = None"
      using absent by (intro find_none) (auto simp: list_all_iff)
    then show ?thesis
      by (cases "j = key_of (ue_id e)") (simp_all add: find_append same_dedupe_def split: option.split)
  qed
  moreover have "\<not> violating rows (ue_id e)"
    using absent by (intro not_violating) (auto simp: list_all_iff)
  ultimately show ?thesis
    using none by (auto simp: effect_ok_def Let_def fetch_existing_for_dedupe_def tokens_laws)
qed

lemma replace_effect:
  assumes ok: "table_ok g key_of foreign rows" and e: "\<not> foreign (ue_id e)"
    and found: "find (same_dedupe g (key_of (ue_id e))) rows = Some r"
  shows "row_id r = ue_id e \<Longrightarrow>
           effect_ok g key_of foreign e rows (upd_where (\<lambda>r. row_id r = ue_id e) (refresh_row e (key_of (ue_id e))) rows)"
    and "row_id r \<noteq> ue_id e \<Longrightarrow>
           effect_ok g key_of foreign e rows
             (remove_other_dedupe_rows g (key_of (ue_id e)) (ue_id e) rows @ [table_row e g (key_of (ue_id e))])"
proof -
  let ?k = "key_of (ue_id e)"
  obtain as bs where rows: "rows = as @ r # bs" and r: "same_dedupe g ?k r"
    and others: "list_all (\<lambda>q. \<not> same_dedupe g ?k q \<and> row_id q \<noteq> row_id r) (as @ bs)"
    using key_split [OF ok found] by blast
  have old: "fetch_existing_for_dedupe g ?k rows = Some (existing_row_view (ur_event r))"
    using found by (simp add: fetch_existing_for_dedupe_def)
  have gen: "ur_generation_id r = g" "ur_dedupe_key r = ?k"
    using r by (simp_all add: same_dedupe_def)
  have ok': "table_ok g key_of foreign (as @ bs)"
    using ok by (auto simp: rows table_ok_def)
  have none: "list_all (\<lambda>q. \<not> same_dedupe g ?k q) as" "list_all (\<lambda>q. \<not> same_dedupe g ?k q) bs"
    using others by (auto simp: list_all_iff)
  note absent = find_none [OF none(1)] find_none [OF none(2)]
  have fetch: "fetch_existing_for_dedupe g j (as @ bs) =
      (if j = ?k then None else fetch_existing_for_dedupe g j rows)" for j
    using absent gen
    by (cases "j = ?k")
      (simp_all add: fetch_existing_for_dedupe_def rows find_append same_dedupe_def [of _ _ r] split: option.split)
  have clean: "\<not> violating (as @ bs) (row_id r)"
    using others by (intro not_violating) (auto simp: list_all_iff)
  show "effect_ok g key_of foreign e rows (upd_where (\<lambda>r. row_id r = ue_id e) (refresh_row e ?k) rows)"
    if same: "row_id r = ue_id e"
  proof -
    have keep: "upd_where (\<lambda>r. row_id r = ue_id e) (refresh_row e ?k) xs = xs" if "set xs \<subseteq> set (as @ bs)" for xs
      using others same that by (intro upd_where_id) (auto simp: list_all_iff)
    have rows': "upd_where (\<lambda>r. row_id r = ue_id e) (refresh_row e ?k) rows = as @ refresh_row e ?k r # bs"
      using keep [of as] keep [of bs] same by (simp add: rows)
    have "table_ok g key_of foreign (as @ refresh_row e ?k r # bs)"
      using ok gen e same by (auto simp: rows table_ok_def dedupe_pair_def)
    moreover have "fetch_existing_for_dedupe g j (as @ refresh_row e ?k r # bs) =
        (if j = ?k then Some (existing_row_view e) else fetch_existing_for_dedupe g j rows)" for j
      using absent gen same
      by (cases "j = ?k")
        (simp_all add: fetch_existing_for_dedupe_def rows find_append same_dedupe_def [of _ _ r]
          same_dedupe_def [of _ _ "refresh_row e ?k r"] split: option.split)
    ultimately show ?thesis
      using old gen same clean unfolding rows'
      by (simp add: effect_ok_def rows existing_row_view_def add_tokens_ac)
  qed
  show "effect_ok g key_of foreign e rows
          (remove_other_dedupe_rows g ?k (ue_id e) rows @ [table_row e g ?k])"
    if diff: "row_id r \<noteq> ue_id e"
  proof -
    have keep: "remove_other_dedupe_rows g ?k (ue_id e) xs = xs" if "set xs \<subseteq> set (as @ bs)" for xs
      using others that by (auto simp: remove_other_dedupe_rows_def list_all_iff intro!: filter_True)
    have removed: "remove_other_dedupe_rows g ?k (ue_id e) rows = as @ bs"
      using keep [of as] keep [of bs] r diff by (simp add: rows remove_other_dedupe_rows_def)
    have none': "fetch_existing_for_dedupe g ?k (as @ bs) = None"
      using fetch by simp
    note eff = append_effect [OF ok' e none', unfolded effect_ok_def Let_def none', simplified option.case]
    have viol: "violating (as @ bs) i = (i \<noteq> row_id r \<and> violating rows i)" for i
      using clean by (cases "i = row_id r") (simp_all add: rows)
    have tokens: "add_tokens (generation_tokens g (as @ bs)) (ue_tokens (ur_event r)) = generation_tokens g rows"
      using gen by (simp add: rows add_tokens_ac)
    show ?thesis
      unfolding removed effect_ok_def Let_def old option.case
    proof (intro conjI allI)
      show "table_ok g key_of foreign ((as @ bs) @ [table_row e g ?k])"
        using eff by blast
      show "fetch_existing_for_dedupe g j ((as @ bs) @ [table_row e g ?k]) =
          (if j = ?k then Some (existing_row_view e) else fetch_existing_for_dedupe g j rows)" for j
        using eff fetch [of j] by simp
      show "add_tokens (generation_tokens g ((as @ bs) @ [table_row e g ?k])) (oe_tokens (xr_tokens (existing_row_view (ur_event r))))
          = add_tokens (generation_tokens g rows) (ue_tokens e)"
        by (simp add: tokens [symmetric] existing_row_view_def add_tokens_ac tokens_laws(1,2))
      show "filter (\<lambda>r. ur_generation_id r \<noteq> g) ((as @ bs) @ [table_row e g ?k])
          = filter (\<lambda>r. ur_generation_id r \<noteq> g) rows"
        using gen by (simp add: rows)
      show "violating ((as @ bs) @ [table_row e g ?k]) i =
          (if i = ue_id e then \<not> invariant_holds (event_metrics e)
           else i \<noteq> xr_id (existing_row_view (ur_event r)) \<and> violating rows i)" for i
        using eff viol [of i] by (simp add: existing_row_view_def)
    qed
  qed
qed

lemma find_id_None:
  "list_all (\<lambda>r. row_id r \<noteq> i \<and> \<not> same_dedupe g k r) rows \<Longrightarrow> find (\<lambda>r. row_id r = i) rows = None"
  by (intro find_none) (auto simp: list_all_iff)

lemma upsert_fresh:
  assumes "table_ok g key_of foreign rows" "\<not> foreign (ue_id e)"
    and "fetch_existing_for_dedupe g (key_of (ue_id e)) rows = None"
  shows "upsert_by_id e g (key_of (ue_id e)) rows = Inr (rows @ [table_row e g (key_of (ue_id e))])"
proof -
  have absent: "list_all (\<lambda>r. row_id r \<noteq> ue_id e \<and> \<not> same_dedupe g (key_of (ue_id e)) r) rows"
    using no_row_with_id [OF assms(1) _ assms(2)] assms(3) by (simp add: fetch_existing_for_dedupe_def)
  moreover have "\<not> list_ex (same_dedupe g (key_of (ue_id e))) rows"
    using absent by (auto simp: list_all_iff list_ex_iff)
  ultimately show ?thesis
    by (simp add: upsert_by_id_def find_id_None)
qed

lemma upsert_effect:
  assumes ok: "table_ok g key_of foreign (ud_usage_events db)" and e: "\<not> foreign (ue_id e)"
  shows "\<exists>rows. upsert_by_id e g (key_of (ue_id e))
             (ud_usage_events (evict_displaced g (key_of (ue_id e)) e
                (fetch_existing_for_dedupe g (key_of (ue_id e)) (ud_usage_events db)) db)) = Inr rows
           \<and> effect_ok g key_of foreign e (ud_usage_events db) rows"
proof (cases "find (same_dedupe g (key_of (ue_id e))) (ud_usage_events db)")
  case None
  then have "fetch_existing_for_dedupe g (key_of (ue_id e)) (ud_usage_events db) = None"
    by (simp add: fetch_existing_for_dedupe_def)
  with upsert_fresh [OF ok e this] append_effect [OF ok e this] show ?thesis
    by (simp add: evict_displaced_def)
next
  case (Some r)
  let ?k = "key_of (ue_id e)" and ?rows = "ud_usage_events db"
  have old: "fetch_existing_for_dedupe g ?k ?rows = Some (existing_row_view (ur_event r))"
    using Some by (simp add: fetch_existing_for_dedupe_def)
  have xr: "xr_id (existing_row_view (ur_event r)) = row_id r"
    by (simp add: existing_row_view_def)
  obtain as bs where rows: "?rows = as @ r # bs" and r: "same_dedupe g ?k r"
    and others: "list_all (\<lambda>q. \<not> same_dedupe g ?k q \<and> row_id q \<noteq> row_id r) (as @ bs)"
    using key_split [OF ok Some] by blast
  show ?thesis
  proof (cases "row_id r = ue_id e")
    case True
    have "find (\<lambda>q. row_id q = ue_id e) ?rows = Some r"
      using True others
      by (simp add: rows find_append find_id_None [of "ue_id e" g ?k] list_all_iff)
    moreover have "\<not> list_ex (\<lambda>q. row_id q \<noteq> ue_id e \<and> same_dedupe (ur_generation_id r) ?k q) ?rows"
      using True others r by (auto simp: rows list_all_iff list_ex_iff same_dedupe_def)
    ultimately show ?thesis
      using True old xr replace_effect(1) [OF ok e Some True]
      by (simp add: evict_displaced_def upsert_by_id_def)
  next
    case False
    let ?left = "remove_other_dedupe_rows g ?k (ue_id e) ?rows"
    have left: "?left = as @ bs"
    proof -
      have "remove_other_dedupe_rows g ?k (ue_id e) xs = xs" if "set xs \<subseteq> set (as @ bs)" for xs
        using others that by (auto simp: remove_other_dedupe_rows_def list_all_iff intro!: filter_True)
      from this [of as] this [of bs] show ?thesis
        using r False by (simp add: rows remove_other_dedupe_rows_def)
    qed
    have "table_ok g key_of foreign ?left"
      unfolding left using ok by (auto simp: rows table_ok_def)
    moreover have "fetch_existing_for_dedupe g ?k ?left = None"
      unfolding left using others find_none [of "same_dedupe g ?k" "as @ bs"]
      by (simp add: fetch_existing_for_dedupe_def list_all_iff)
    ultimately have "upsert_by_id e g ?k ?left = Inr (?left @ [table_row e g ?k])"
      using e by (intro upsert_fresh)
    then show ?thesis
      using False old xr replace_effect(2) [OF ok e Some False] by (simp add: evict_displaced_def)
  qed
qed

section \<open>The diagnostics stay in step\<close>

lemma violation_id_eq [simp]: "violation_id i = violation_id j \<longleftrightarrow> i = j"
  by (simp add: violation_id_def)

lemma delete_diagnostic_has:
  "list_ex (\<lambda>d. de_id d = j) (delete_diagnostic_by_id i ds) = (j \<noteq> i \<and> list_ex (\<lambda>d. de_id d = j) ds)"
  by (auto simp: delete_diagnostic_by_id_def list_ex_iff)

lemma sync_diagnostic_has:
  "list_ex (\<lambda>d. de_id d = violation_id j) (sync_cache_metric_diagnostic now e ds) =
     (if j = ue_id e then \<not> invariant_holds (event_metrics e) else list_ex (\<lambda>d. de_id d = violation_id j) ds)"
  by (auto simp: sync_cache_metric_diagnostic_def upsert_diagnostic_event_def violation_diagnostic_def
           delete_diagnostic_by_id_def list_ex_iff)

section \<open>One write\<close>

text \<open>The order of the winner selection: a parent beats a sidechain, then the larger total.\<close>

definition at_least :: "existing_row \<Rightarrow> existing_row \<Rightarrow> bool" where
  "at_least y x =
     (if xr_is_sidechain x = xr_is_sidechain y then xr_total_tokens x \<le> xr_total_tokens y
      else \<not> xr_is_sidechain y)"

lemma at_least_refl [simp]: "at_least x x"
  by (simp add: at_least_def)

lemma at_least_trans: "at_least z y \<Longrightarrow> at_least y x \<Longrightarrow> at_least z x"
  by (auto simp: at_least_def split: if_splits)

lemma not_beaten: "\<not> new_beats_existing e x \<longleftrightarrow> at_least x (existing_row_view e)"
  by (auto simp: new_beats_existing_def at_least_def existing_row_view_def)

lemma beats_at_least: "new_beats_existing e x \<Longrightarrow> at_least (existing_row_view e) x"
  by (auto simp: new_beats_existing_def at_least_def existing_row_view_def split: if_splits)

definition state_ok :: "string \<Rightarrow> (string \<Rightarrow> string) \<Rightarrow> (string \<Rightarrow> bool) \<Rightarrow> dedup_state \<Rightarrow> bool" where
  "state_ok g key_of foreign st =
     (table_ok g key_of foreign (ud_usage_events (ds_db st)) \<and> diagnostics_ok (ds_db st)
      \<and> (\<forall>k w. ds_winners st k = Some w \<longrightarrow>
             fetch_existing_for_dedupe g k (ud_usage_events (ds_db st)) = Some w))"

text \<open>What one event does: conservation, the other generations untouched, and nobody's row gets worse.\<close>

definition step_ok :: "string \<Rightarrow> dedup_state \<Rightarrow> dedup_state \<Rightarrow> bool" where
  "step_ok g st st' =
     (let rows = ud_usage_events (ds_db st); rows' = ud_usage_events (ds_db st') in
      add_tokens (generation_tokens g rows') (sum_tokens (map ue_tokens (ds_effective_events st)))
        = add_tokens (generation_tokens g rows) (sum_tokens (map ue_tokens (ds_effective_events st')))
      \<and> filter (\<lambda>r. ur_generation_id r \<noteq> g) rows' = filter (\<lambda>r. ur_generation_id r \<noteq> g) rows
      \<and> (\<forall>k x. fetch_existing_for_dedupe g k rows = Some x \<longrightarrow>
              (\<exists>y. fetch_existing_for_dedupe g k rows' = Some y \<and> at_least y x)))"

lemma add_tokens_cancel: "add_tokens a b = add_tokens c b \<longleftrightarrow> a = c"
  by (cases a; cases c) (simp add: map_tokens_def)

lemma effect_step:
  assumes eff: "effect_ok g key_of foreign e rows rows'"
    and old: "old = fetch_existing_for_dedupe g (key_of (ue_id e)) rows"
    and wins: "case old of None \<Rightarrow> True | Some x \<Rightarrow> new_beats_existing e x"
    and rows: "ud_usage_events (ds_db st) = rows" "ud_usage_events (ds_db st') = rows'"
    and effective: "ds_effective_events st' = ds_effective_events st
        @ [case old of None \<Rightarrow> e | Some x \<Rightarrow> compute_delta fsub (xr_tokens x) e]"
  shows "step_ok g st st'"
proof -
  let ?o = "case old of None \<Rightarrow> zero_tokens | Some x \<Rightarrow> oe_tokens (xr_tokens x)"
  have tokens: "add_tokens (generation_tokens g rows') ?o = add_tokens (generation_tokens g rows) (ue_tokens e)"
    using eff by (simp add: effect_ok_def Let_def old)
  have delta: "ue_tokens (case old of None \<Rightarrow> e | Some x \<Rightarrow> compute_delta fsub (xr_tokens x) e) = sub_tokens (ue_tokens e) ?o"
    by (cases old) (simp_all add: compute_delta_def map_tokens_def zero_tokens_def)
  have balance: "add_tokens a (add_tokens s (sub_tokens b x)) = add_tokens r s" if "add_tokens r x = add_tokens a b" for a b r s x
    using that by (cases a; cases b; cases r; cases s; cases x) (simp add: map_tokens_def; linarith)
  have "add_tokens (generation_tokens g rows') (sum_tokens (map ue_tokens (ds_effective_events st)))
        = add_tokens (generation_tokens g rows) (sum_tokens (map ue_tokens (ds_effective_events st')))"
    using balance [OF tokens] by (simp add: effective sum_tokens_append delta tokens_laws(1))
  moreover have "\<exists>y. fetch_existing_for_dedupe g k rows' = Some y \<and> at_least y x"
    if "fetch_existing_for_dedupe g k rows = Some x" for k x
    using eff that wins old by (auto simp: effect_ok_def Let_def intro: beats_at_least)
  ultimately show ?thesis
    using eff rows by (simp add: step_ok_def effect_ok_def Let_def)
qed

lemma diagnostics_step:
  assumes ok: "diagnostics_ok db" and eff: "effect_ok g key_of foreign e (ud_usage_events db) rows"
  shows "diagnostics_ok
     \<lparr>ud_usage_events = rows,
      ud_diagnostic_events = sync_cache_metric_diagnostic now e (ud_diagnostic_events (evict_displaced g (key_of (ue_id e)) e
        (fetch_existing_for_dedupe g (key_of (ue_id e)) (ud_usage_events db)) db))\<rparr>"
proof -
  let ?old = "fetch_existing_for_dedupe g (key_of (ue_id e)) (ud_usage_events db)"
  let ?ds = "ud_diagnostic_events (evict_displaced g (key_of (ue_id e)) e ?old db)"
  have "list_ex (\<lambda>d. de_id d = violation_id i) (sync_cache_metric_diagnostic now e ?ds) = violating rows i" for i
    using ok eff
    by (cases ?old)
      (auto simp: sync_diagnostic_has evict_displaced_def effect_ok_def diagnostics_ok_def delete_diagnostic_has)
  moreover have "list_all (\<lambda>d. if prefix (violation_id []) (de_id d) then \<not> prunable d else True) ?ds"
    using ok by (auto simp: evict_displaced_def diagnostics_ok_def delete_diagnostic_by_id_def list_all_iff split: option.split)
  then have "list_all (\<lambda>d. if prefix (violation_id []) (de_id d) then \<not> prunable d else True)
      (sync_cache_metric_diagnostic now e ?ds)"
    by (auto simp: sync_cache_metric_diagnostic_def upsert_diagnostic_event_def delete_diagnostic_by_id_def
             violation_diagnostic_def prunable_def list_all_iff)
  ultimately show ?thesis by (simp add: diagnostics_ok_def)
qed

lemma step_ok_refl: "ds_db st' = ds_db st \<Longrightarrow> ds_effective_events st' = ds_effective_events st \<Longrightarrow> step_ok g st st'"
  by (auto simp: step_ok_def Let_def)

lemma step_ok_trans:
  assumes "step_ok g a b" "step_ok g b c"
  shows "step_ok g a c"
proof -
  have balance: "add_tokens c' ea = add_tokens a' ec"
    if "add_tokens b' ea = add_tokens a' eb" "add_tokens c' eb = add_tokens b' ec" for a' b' c' ea eb ec
  proof -
    have "add_tokens (add_tokens c' ea) eb = add_tokens ea (add_tokens c' eb)" by (simp add: add_tokens_ac)
    also have "\<dots> = add_tokens ec (add_tokens b' ea)" by (simp add: that(2) add_tokens_ac)
    also have "\<dots> = add_tokens (add_tokens a' ec) eb" by (simp add: that(1) add_tokens_ac)
    finally show ?thesis by (simp add: add_tokens_cancel)
  qed
  have "\<exists>y. fetch_existing_for_dedupe g k (ud_usage_events (ds_db c)) = Some y \<and> at_least y x"
    if x: "fetch_existing_for_dedupe g k (ud_usage_events (ds_db a)) = Some x" for k x
  proof -
    obtain y where y: "fetch_existing_for_dedupe g k (ud_usage_events (ds_db b)) = Some y" "at_least y x"
      using assms(1) x by (auto simp: step_ok_def Let_def)
    then obtain z where "fetch_existing_for_dedupe g k (ud_usage_events (ds_db c)) = Some z" "at_least z y"
      using assms(2) by (auto simp: step_ok_def Let_def)
    with y(2) show ?thesis by (auto intro: at_least_trans)
  qed
  moreover have "add_tokens (generation_tokens g (ud_usage_events (ds_db c))) (sum_tokens (map ue_tokens (ds_effective_events a)))
      = add_tokens (generation_tokens g (ud_usage_events (ds_db a))) (sum_tokens (map ue_tokens (ds_effective_events c)))"
    by (rule balance [OF assms(1) [unfolded step_ok_def Let_def, THEN conjunct1]
          assms(2) [unfolded step_ok_def Let_def, THEN conjunct1]])
  moreover have "filter (\<lambda>r. ur_generation_id r \<noteq> g) (ud_usage_events (ds_db c))
      = filter (\<lambda>r. ur_generation_id r \<noteq> g) (ud_usage_events (ds_db a))"
    using assms by (simp only: step_ok_def Let_def)
  ultimately show ?thesis
    unfolding step_ok_def Let_def by blast
qed

lemma insert_once_step:
  assumes st: "state_ok g key_of foreign st" and e: "event_ok key_of foreign (e, Insert_Once)"
  shows "state_ok g key_of foreign (write_insert_once l g e st) \<and> step_ok g st (write_insert_once l g e st)"
proof (cases "fetch_existing_for_dedupe g (ue_id e) (ud_usage_events (ds_db st))")
  case None
  let ?rows = "ud_usage_events (ds_db st)" and ?rows' = "ud_usage_events (ds_db st) @ [table_row e g (ue_id e)]"
  have key: "key_of (ue_id e) = ue_id e" and own: "\<not> foreign (ue_id e)" using e by simp_all
  have ok: "table_ok g key_of foreign ?rows" using st by (simp add: state_ok_def)
  have eff: "effect_ok g key_of foreign e ?rows ?rows'"
    using append_effect [OF ok own] None by (simp add: key)
  have "list_all (\<lambda>r. row_id r \<noteq> ue_id e \<and> \<not> same_dedupe g (ue_id e) r) ?rows"
    using no_row_with_id [OF ok _ own] None by (simp add: key fetch_existing_for_dedupe_def)
  then have written: "write_insert_once l g e st = record_insert e
      (st\<lparr>ds_db := \<lparr>ud_usage_events = ?rows',
         ud_diagnostic_events = sync_cache_metric_diagnostic (sl_now l e) e (ud_diagnostic_events (ds_db st))\<rparr>\<rparr>)"
    by (auto simp: write_insert_once_def insert_ignore_def list_all_iff list_ex_iff)
  have "diagnostics_ok \<lparr>ud_usage_events = ?rows',
      ud_diagnostic_events = sync_cache_metric_diagnostic (sl_now l e) e (ud_diagnostic_events (ds_db st))\<rparr>"
    using diagnostics_step [OF _ eff, of "sl_now l e"] st None by (simp add: state_ok_def evict_displaced_def key)
  moreover have "fetch_existing_for_dedupe g k ?rows' = Some w" if "ds_winners st k = Some w" for k w
    using eff st that None key by (auto simp: effect_ok_def Let_def state_ok_def)
  ultimately have "state_ok g key_of foreign (write_insert_once l g e st)"
    using eff by (simp add: written record_insert_def state_ok_def effect_ok_def Let_def)
  moreover have "step_ok g st (write_insert_once l g e st)"
    using effect_step [OF eff refl, of st "write_insert_once l g e st" undefined] None key
    by (simp add: written record_insert_def)
  ultimately show ?thesis ..
next
  case (Some x)
  then have "list_ex (same_dedupe g (ue_id e)) (ud_usage_events (ds_db st))"
    by (auto simp: fetch_existing_for_dedupe_def list_ex_iff dest: find_SomeD)
  then have "write_insert_once l g e st = st"
    by (auto simp: write_insert_once_def insert_ignore_def list_ex_iff)
  then show ?thesis
    using st step_ok_refl by simp
qed

lemma write_replace_step:
  assumes st: "state_ok g key_of foreign st" and e: "event_ok key_of foreign (e, Replace)"
  shows "\<exists>st'. write_replace l g e st = Inr st' \<and> state_ok g key_of foreign st' \<and> step_ok g st st'
           \<and> (\<exists>y. fetch_existing_for_dedupe g (event_dedupe_key e) (ud_usage_events (ds_db st')) = Some y
                  \<and> at_least y (existing_row_view e))"
proof -
  let ?k = "event_dedupe_key e" and ?db = "ds_db st"
  let ?old = "fetch_existing_for_dedupe g ?k (ud_usage_events ?db)"
  have key: "key_of (ue_id e) = ?k" and own: "\<not> foreign (ue_id e)" using e by simp_all
  have ok: "table_ok g key_of foreign (ud_usage_events ?db)" using st by (simp add: state_ok_def)
  have existing: "(case ds_winners st ?k of Some w \<Rightarrow> Some w | None \<Rightarrow> ?old) = ?old"
    using st by (auto simp: state_ok_def split: option.split)
  show ?thesis
  proof (cases "case ?old of None \<Rightarrow> True | Some x \<Rightarrow> new_beats_existing e x")
    case False
    then obtain x where x: "?old = Some x" "\<not> new_beats_existing e x" by (auto split: option.splits)
    let ?st = "st\<lparr>ds_dropped := ds_dropped st + 1\<rparr>"
    have "write_replace l g e st = Inr ?st"
      using False existing by (simp add: write_replace_def Let_def)
    moreover have "state_ok g key_of foreign ?st" using st by (simp add: state_ok_def)
    moreover have "step_ok g st ?st" by (intro step_ok_refl) simp_all
    ultimately show ?thesis
      using x not_beaten by auto
  next
    case wins: True
    obtain rows where rows: "upsert_by_id e g ?k (ud_usage_events (evict_displaced g ?k e ?old ?db)) = Inr rows"
      and eff: "effect_ok g key_of foreign e (ud_usage_events ?db) rows"
      using upsert_effect [OF ok own] by (auto simp: key)
    let ?db' = "\<lparr>ud_usage_events = rows, ud_diagnostic_events =
        sync_cache_metric_diagnostic (sl_now l e) e (ud_diagnostic_events (evict_displaced g ?k e ?old ?db))\<rparr>"
    let ?mid = "case ?old of None \<Rightarrow> record_insert e (st\<lparr>ds_db := ?db'\<rparr>)
        | Some x \<Rightarrow> st\<lparr>ds_db := ?db', ds_effective_events := ds_effective_events st @ [compute_delta (sl_fsub l) (xr_tokens x) e],
                       ds_replaced := ds_replaced st + 1\<rparr>"
    let ?st = "?mid\<lparr>ds_winners := (ds_winners st)(?k := Some (existing_row_view e))\<rparr>"
    have mid: "ds_db ?mid = ?db'" "ds_winners ?mid = ds_winners st"
      "ds_effective_events ?mid = ds_effective_events st
         @ [case ?old of None \<Rightarrow> e | Some x \<Rightarrow> compute_delta (sl_fsub l) (xr_tokens x) e]"
      by (simp_all add: record_insert_def split: option.split)
    have written: "write_replace l g e st = Inr ?st"
      using wins rows mid by (cases ?old) (simp_all add: write_replace_def Let_def existing [simplified] record_insert_def)
    have fetch: "fetch_existing_for_dedupe g j rows =
        (if j = ?k then Some (existing_row_view e) else fetch_existing_for_dedupe g j (ud_usage_events ?db))" for j
      using eff by (simp add: effect_ok_def Let_def key)
    have "diagnostics_ok ?db'"
      using diagnostics_step [OF _ eff, of "sl_now l e"] st by (simp add: state_ok_def key)
    then have "state_ok g key_of foreign ?st"
      using eff fetch st by (auto simp: state_ok_def mid effect_ok_def Let_def key)
    moreover have "step_ok g st ?st"
      using effect_step [OF eff, of ?old st ?st "sl_fsub l"] wins mid by (simp add: key)
    ultimately show ?thesis
      using written fetch [of ?k] by (simp add: mid)
  qed
qed

lemma write_event_step:
  assumes "state_ok g key_of foreign st" "event_ok key_of foreign (e, p)"
  shows "\<exists>st'. write_event l g (e, p) st = Inr st' \<and> state_ok g key_of foreign st' \<and> step_ok g st st'
           \<and> (p = Replace \<longrightarrow> (\<exists>y. fetch_existing_for_dedupe g (event_dedupe_key e) (ud_usage_events (ds_db st')) = Some y
                  \<and> at_least y (existing_row_view e)))"
  using insert_once_step [OF assms(1), of e l] write_replace_step [OF assms(1), of e l] assms(2)
  by (cases p) auto

section \<open>A batch\<close>

lemma write_events_steps:
  assumes "state_ok g key_of foreign st" "list_all (event_ok key_of foreign) events"
  shows "\<exists>st'. write_events l g events st = Inr st' \<and> state_ok g key_of foreign st' \<and> step_ok g st st'
           \<and> (\<forall>e. (e, Replace) \<in> set events \<longrightarrow>
                (\<exists>y. fetch_existing_for_dedupe g (event_dedupe_key e) (ud_usage_events (ds_db st')) = Some y
                     \<and> at_least y (existing_row_view e)))"
  using assms
proof (induction events arbitrary: st)
  case Nil
  then show ?case by (auto intro: step_ok_refl)
next
  case (Cons ev events)
  obtain e p where ev: "ev = (e, p)" by (cases ev)
  obtain s1 where s1: "write_event l g (e, p) st = Inr s1" "state_ok g key_of foreign s1" "step_ok g st s1"
    and best: "p = Replace \<Longrightarrow> \<exists>y. fetch_existing_for_dedupe g (event_dedupe_key e) (ud_usage_events (ds_db s1)) = Some y
                  \<and> at_least y (existing_row_view e)"
    using write_event_step [OF Cons.prems(1), of e p l] Cons.prems(2) ev by auto
  obtain s2 where s2: "write_events l g events s1 = Inr s2" "state_ok g key_of foreign s2" "step_ok g s1 s2"
    and rest: "\<And>e. (e, Replace) \<in> set events \<Longrightarrow>
        \<exists>y. fetch_existing_for_dedupe g (event_dedupe_key e) (ud_usage_events (ds_db s2)) = Some y
            \<and> at_least y (existing_row_view e)"
    using Cons.IH [OF s1(2)] Cons.prems(2) by auto
  have "\<exists>y. fetch_existing_for_dedupe g (event_dedupe_key e) (ud_usage_events (ds_db s2)) = Some y
            \<and> at_least y (existing_row_view e)" if r: "p = Replace"
  proof -
    obtain x where x: "fetch_existing_for_dedupe g (event_dedupe_key e) (ud_usage_events (ds_db s1)) = Some x"
      "at_least x (existing_row_view e)" using best [OF r] by blast
    then obtain y where "fetch_existing_for_dedupe g (event_dedupe_key e) (ud_usage_events (ds_db s2)) = Some y" "at_least y x"
      using s2(3) by (auto simp: step_ok_def Let_def)
    with x(2) show ?thesis by (auto intro: at_least_trans)
  qed
  with rest s1(1) s2 step_ok_trans [OF s1(3) s2(3)] ev show ?case by auto
qed

lemma upsert_batch:
  assumes "table_ok g key_of foreign (ud_usage_events db)" "diagnostics_ok db" "list_all (event_ok key_of foreign) events"
  shows "\<exists>st. upsert_usage_events_dedup_aware l events g db = Inr st
           \<and> state_ok g key_of foreign st \<and> step_ok g (dedup_start db) st
           \<and> (\<forall>e. (e, Replace) \<in> set events \<longrightarrow>
                (\<exists>y. fetch_existing_for_dedupe g (event_dedupe_key e) (ud_usage_events (ds_db st)) = Some y
                     \<and> at_least y (existing_row_view e)))"
  unfolding upsert_usage_events_dedup_aware_def
  using assms by (intro write_events_steps) (simp_all add: state_ok_def dedup_start_def)

text \<open>The primary key and the unique index of the table.\<close>

definition usage_schema :: "usage_table_row list \<Rightarrow> bool" where
  "usage_schema rows = (distinct (map row_id rows) \<and> distinct (map dedupe_pair rows))"

text \<open>The dedupe key that goes with each id: in the rows of the generation and in the events of a batch.\<close>

definition keyed_ids ::
  "string \<Rightarrow> (usage_event \<times> usage_write_policy) list \<Rightarrow> usage_table_row list \<Rightarrow> (string \<times> string) list" where
  "keyed_ids g events rows =
     map (\<lambda>r. (row_id r, ur_dedupe_key r)) (filter (\<lambda>r. ur_generation_id r = g) rows)
     @ map (\<lambda>(e, p). (ue_id e, case p of Insert_Once \<Rightarrow> ue_id e | Replace \<Rightarrow> event_dedupe_key e)) events"

text \<open>What the write path supposes of ids: each has one dedupe key, and none is that of a row of another generation.\<close>

definition ids_have_one_key ::
  "string \<Rightarrow> (usage_event \<times> usage_write_policy) list \<Rightarrow> usage_table_row list \<Rightarrow> bool" where
  "ids_have_one_key g events rows =
     list_all (\<lambda>(i, k). map_of (keyed_ids g events rows) i = Some k) (keyed_ids g events rows)"

definition ids_of_this_generation ::
  "string \<Rightarrow> (usage_event \<times> usage_write_policy) list \<Rightarrow> usage_table_row list \<Rightarrow> bool" where
  "ids_of_this_generation g events rows =
     list_all (\<lambda>r. ur_generation_id r = g \<or> \<not> list_ex (\<lambda>(e, _). ue_id e = row_id r) events) rows"

lemma batch_identity:
  assumes "usage_schema rows" "ids_have_one_key g events rows" "ids_of_this_generation g events rows"
  obtains key_of foreign where "table_ok g key_of foreign rows" "list_all (event_ok key_of foreign) events"
proof
  define key_of where "key_of = (\<lambda>i. case map_of (keyed_ids g events rows) i of Some k \<Rightarrow> k | None \<Rightarrow> [])"
  define foreign where "foreign = (\<lambda>i. list_ex (\<lambda>r. ur_generation_id r \<noteq> g \<and> row_id r = i) rows)"
  have key: "key_of i = k" if "(i, k) \<in> set (keyed_ids g events rows)" for i k
    using assms(2) that by (auto simp: ids_have_one_key_def list_all_iff key_of_def)
  have "ur_dedupe_key r = key_of (row_id r)" if "r \<in> set rows" "ur_generation_id r = g" for r
    using key[of "row_id r" "ur_dedupe_key r"] that by (simp add: keyed_ids_def)
  moreover have "\<not> foreign (row_id r)" if "r \<in> set rows" "ur_generation_id r = g" for r
    using assms(1) that by (auto simp: foreign_def list_ex_iff usage_schema_def distinct_map inj_on_def)
  moreover have "foreign (row_id r)" if "r \<in> set rows" "ur_generation_id r \<noteq> g" for r
    using that by (auto simp: foreign_def list_ex_iff)
  ultimately show "table_ok g key_of foreign rows"
    using assms(1) by (auto simp: table_ok_def list_all_iff usage_schema_def)
  have "\<not> foreign (ue_id e) \<and> key_of (ue_id e) = (case p of Insert_Once \<Rightarrow> ue_id e | Replace \<Rightarrow> event_dedupe_key e)"
    if "(e, p) \<in> set events" for e p
    using that assms(3) key[of "ue_id e" "case p of Insert_Once \<Rightarrow> ue_id e | Replace \<Rightarrow> event_dedupe_key e"]
    by (force simp: foreign_def list_ex_iff list_all_iff ids_of_this_generation_def keyed_ids_def)
  then show "list_all (event_ok key_of foreign) events" by (auto simp: list_all_iff)
qed

text \<open>
  C10. As long as no event has the id of a row of another generation and each id has one dedupe key (see
  \<open>shared_id_crosses_generations\<close> for what happens otherwise), and the stored violation diagnostics are in step with the rows: a
  batch cannot fail on the table's constraints, and it conserves tokens: what the rows of the
  generation hold afterwards is what they held before plus the sum of the effective events it hands
  to the rollups, field by field, across insertions, replacements of a row, evictions of a
  displaced row and dropped candidates. Ids and dedupe keys stay unique and the rows of other generations are
  untouched.
\<close>

theorem usage_write_conserves:
  assumes "usage_schema (ud_usage_events db)" "diagnostics_ok db"
    and "ids_have_one_key g events (ud_usage_events db)" "ids_of_this_generation g events (ud_usage_events db)"
  shows "\<exists>st. upsert_usage_events_dedup_aware l events g db = Inr st
           \<and> generation_tokens g (ud_usage_events (ds_db st))
               = add_tokens (generation_tokens g (ud_usage_events db)) (sum_tokens (map ue_tokens (ds_effective_events st)))
           \<and> usage_schema (ud_usage_events (ds_db st)) \<and> diagnostics_ok (ds_db st)
           \<and> filter (\<lambda>r. ur_generation_id r \<noteq> g) (ud_usage_events (ds_db st))
               = filter (\<lambda>r. ur_generation_id r \<noteq> g) (ud_usage_events db)"
proof -
  obtain key_of foreign where ok: "table_ok g key_of foreign (ud_usage_events db)" "list_all (event_ok key_of foreign) events"
    by (rule batch_identity[OF assms(1,3,4)])
  obtain st where "upsert_usage_events_dedup_aware l events g db = Inr st" "state_ok g key_of foreign st"
    "step_ok g (dedup_start db) st"
    using upsert_batch [OF ok(1) assms(2) ok(2), of l] by blast
  then show ?thesis
    by (auto simp: state_ok_def step_ok_def dedup_start_def Let_def tokens_laws(1) table_ok_def usage_schema_def)
qed

text \<open>
  When the id of an event is that of a row of another generation, as when a rebuild reads a log again that the live
  generation has read, the write updates that row in place: no row of the generation changes, and yet the event is
  counted as inserted and handed in full to the rollups.
\<close>

theorem shared_id_crosses_generations:
  assumes "usage_schema (ud_usage_events db)" "r \<in> set (ud_usage_events db)" "row_id r = ue_id e" "ur_generation_id r \<noteq> g"
    and "fetch_existing_for_dedupe g (event_dedupe_key e) (ud_usage_events db) = None" "ur_dedupe_key r = event_dedupe_key e"
  shows "\<exists>st. upsert_usage_events_dedup_aware l [(e, Replace)] g db = Inr st
     \<and> ds_inserted st = 1 \<and> ds_effective_events st = [e]
     \<and> filter (\<lambda>r. ur_generation_id r = g) (ud_usage_events (ds_db st)) = filter (\<lambda>r. ur_generation_id r = g) (ud_usage_events db)
     \<and> (\<exists>q \<in> set (ud_usage_events (ds_db st)). row_id q = ue_id e \<and> ur_generation_id q = ur_generation_id r
          \<and> ue_tokens (ur_event q) = ue_tokens e)"
proof -
  let ?rows = "ud_usage_events db" and ?k = "event_dedupe_key e"
  have same: "q = r" if "q \<in> set ?rows" "row_id q = ue_id e" for q
    using assms(1-3) that by (auto simp: usage_schema_def distinct_map inj_on_def)
  have pair: "q = r" if "q \<in> set ?rows" "same_dedupe (ur_generation_id r) ?k q" for q
    using assms(1,2,6) that by (auto simp: usage_schema_def distinct_map inj_on_def dedupe_pair_def same_dedupe_def)
  have find: "find (\<lambda>q. row_id q = ue_id e) ?rows = Some r"
  proof (cases "find (\<lambda>q. row_id q = ue_id e) ?rows")
    case None
    with assms(2,3) show ?thesis by (simp add: find_None_iff)
  next
    case (Some q)
    then have "q \<in> set ?rows" "row_id q = ue_id e" by (auto simp: find_Some_iff)
    with Some same show ?thesis by blast
  qed
  let ?new = "upd_where (\<lambda>q. row_id q = ue_id e) (refresh_row e ?k) ?rows"
  have up: "upsert_by_id e g ?k ?rows = Inr ?new"
    using pair assms(3) by (auto simp: upsert_by_id_def find list_ex_iff)
  have "filter (\<lambda>q. ur_generation_id q = g) ?new = filter (\<lambda>q. ur_generation_id q = g) ?rows"
  proof -
    have "\<forall>q \<in> set ?rows. row_id q = ue_id e \<longrightarrow> ur_generation_id q \<noteq> g" using same assms(4) by blast
    moreover have "filter P (upd_where Q f qs) = filter P qs"
      if "\<forall>q \<in> set qs. Q q \<longrightarrow> \<not> P q \<and> \<not> P (f q)" for P Q f and qs :: "usage_table_row list"
      using that by (induction qs) auto
    ultimately show ?thesis by (simp add: refresh_row_def Let_def)
  qed
  moreover have "refresh_row e ?k r \<in> set ?new" using assms(2,3) by (force simp: upd_where_def)
  moreover have "row_id (refresh_row e ?k r) = ue_id e" "ur_generation_id (refresh_row e ?k r) = ur_generation_id r"
    "ue_tokens (ur_event (refresh_row e ?k r)) = ue_tokens e"
    using assms(3) by (simp_all add: refresh_row_def Let_def bound_event_def)
  moreover have "\<exists>st. upsert_usage_events_dedup_aware l [(e, Replace)] g db = Inr st
     \<and> ds_inserted st = 1 \<and> ds_effective_events st = [e] \<and> ud_usage_events (ds_db st) = ?new"
    using assms(5) by (simp add: upsert_usage_events_dedup_aware_def write_replace_def dedup_start_def evict_displaced_def
        record_insert_def up Let_def)
  ultimately show ?thesis by metis
qed

text \<open>
  The row that survives for a message is unbeaten: no event of the batch, and no row the table
  had, beats it. A parent's usage is never displaced by a sidechain replay, and within a class the
  row holds the largest total.
\<close>

theorem survivor_unbeaten:
  assumes "table_ok g key_of foreign (ud_usage_events db)" "diagnostics_ok db"
    and "list_all (event_ok key_of foreign) events" "(e, Replace) \<in> set events"
  shows "\<exists>st x. upsert_usage_events_dedup_aware l events g db = Inr st
           \<and> fetch_existing_for_dedupe g (event_dedupe_key e) (ud_usage_events (ds_db st)) = Some x
           \<and> \<not> new_beats_existing e x
           \<and> (case fetch_existing_for_dedupe g (event_dedupe_key e) (ud_usage_events db) of
                None \<Rightarrow> True | Some old \<Rightarrow> at_least x old)"
proof -
  obtain st where st: "upsert_usage_events_dedup_aware l events g db = Inr st" "step_ok g (dedup_start db) st"
    and best: "\<exists>y. fetch_existing_for_dedupe g (event_dedupe_key e) (ud_usage_events (ds_db st)) = Some y
                     \<and> at_least y (existing_row_view e)"
    using upsert_batch [OF assms(1-3), of l] assms(4) by blast
  then obtain x where x: "fetch_existing_for_dedupe g (event_dedupe_key e) (ud_usage_events (ds_db st)) = Some x"
    "at_least x (existing_row_view e)" by blast
  have "case fetch_existing_for_dedupe g (event_dedupe_key e) (ud_usage_events db) of None \<Rightarrow> True | Some old \<Rightarrow> at_least x old"
  proof (cases "fetch_existing_for_dedupe g (event_dedupe_key e) (ud_usage_events db)")
    case (Some old)
    then have "\<exists>y. fetch_existing_for_dedupe g (event_dedupe_key e) (ud_usage_events (ds_db st)) = Some y \<and> at_least y old"
      using st(2) by (simp add: step_ok_def Let_def dedup_start_def)
    with Some x(1) show ?thesis by simp
  qed simp
  with st(1) x show ?thesis
    using not_beaten by blast
qed

section \<open>Retention\<close>

lemma violating_filter:
  assumes "distinct (map row_id rows)"
  shows "violating (filter (\<lambda>r. \<not> P r) rows) i = (violating rows i \<and> \<not> list_ex (\<lambda>r. row_id r = i) (filter P rows))"
proof -
  have "r = s" if "r \<in> set rows" "s \<in> set rows" "row_id r = row_id s" for r s
    using assms that by (simp add: distinct_map inj_on_def)
  then show ?thesis
    by (auto simp: violating_def list_ex_iff)
qed

lemma prune_usage_diagnostics:
  assumes "distinct (map row_id (ud_usage_events db))" "diagnostics_ok db"
  shows "diagnostics_ok (snd (prune_usage_events now g db))"
proof -
  let ?aged = "\<lambda>r. ur_generation_id r = g \<and> ue_timestamp_ms (ur_event r) < now - 86400000"
  have kept: "list_ex (\<lambda>d. de_id d = violation_id i) (filter (\<lambda>d. \<not> list_ex (\<lambda>r. de_id d = violation_id (row_id r)) gone) ds)
      = (list_ex (\<lambda>d. de_id d = violation_id i) ds \<and> \<not> list_ex (\<lambda>r. row_id r = i) gone)" for gone ds i
    by (induction ds) (auto simp: list_ex_iff)
  have "list_ex (\<lambda>d. de_id d = violation_id i)
          (filter (\<lambda>d. \<not> list_ex (\<lambda>r. de_id d = violation_id (row_id r)) (filter ?aged (ud_usage_events db)))
            (ud_diagnostic_events db))
      = (violating (ud_usage_events db) i \<and> \<not> list_ex (\<lambda>r. row_id r = i) (filter ?aged (ud_usage_events db)))" for i
    using assms(2) unfolding kept by (simp add: diagnostics_ok_def)
  then have "list_ex (\<lambda>d. de_id d = violation_id i)
          (filter (\<lambda>d. \<not> list_ex (\<lambda>r. de_id d = violation_id (row_id r)) (filter ?aged (ud_usage_events db)))
            (ud_diagnostic_events db))
      = violating (filter (\<lambda>r. \<not> ?aged r) (ud_usage_events db)) i" for i
    unfolding violating_filter [OF assms(1)] by blast
  moreover have "list_all (\<lambda>d. if prefix (violation_id []) (de_id d) then \<not> prunable d else True)
      (filter Q (ud_diagnostic_events db))" for Q
    using assms(2) by (simp add: diagnostics_ok_def list_all_iff)
  ultimately show ?thesis
    unfolding prune_usage_events_def Let_def snd_conv diagnostics_ok_def usage_db.simps by blast
qed

lemma prune_diagnostics_keeps:
  assumes "diagnostics_ok db"
  shows "diagnostics_ok (snd (prune_diagnostic_events t db))"
proof -
  let ?ds = "ud_diagnostic_events db"
  let ?kept = "filter (\<lambda>d. \<not> (de_created_at_ms d < t \<and> prunable d)) ?ds"
  let ?oldest = "map de_id (sql_limit (int (count_where prunable ?kept) - 10000)
                     (sort_by (\<lambda>a b. de_created_at_ms a \<le> de_created_at_ms b) (filter prunable ?kept)))"
  have plain: "\<not> prefix (violation_id []) i" if "i \<in> set ?oldest" for i
    using assms that set_sql_limit by (fastforce simp: diagnostics_ok_def list_all_iff)
  have pre: "prefix (violation_id []) (violation_id i)" for i
    by (simp add: violation_id_def)
  have "d \<in> set ?kept" if "d \<in> set ?ds" "de_id d = violation_id i" for d i
    using assms that pre [of i] by (auto simp: diagnostics_ok_def list_all_iff)
  then have kept: "list_ex (\<lambda>d. de_id d = violation_id i) ?kept = list_ex (\<lambda>d. de_id d = violation_id i) ?ds" for i
    unfolding list_ex_iff by (meson filter_is_subset subsetD)
  have other: "j \<notin> I \<Longrightarrow> list_ex (\<lambda>d. de_id d = j) (filter (\<lambda>d. de_id d \<notin> I) xs) = list_ex (\<lambda>d. de_id d = j) xs"
    for j I xs by (induction xs) auto
  have "violation_id i \<notin> set ?oldest" for i
    using plain pre by blast
  note other = other [OF this]
  have result: "ud_diagnostic_events (snd (prune_diagnostic_events t db)) =
      (if 10000 < int (count_where prunable ?kept) then filter (\<lambda>d. de_id d \<notin> set ?oldest) ?kept else ?kept)"
    by (simp add: prune_diagnostic_events_def Let_def)
  have "list_ex (\<lambda>d. de_id d = violation_id i) (ud_diagnostic_events (snd (prune_diagnostic_events t db)))
      = list_ex (\<lambda>d. de_id d = violation_id i) ?ds" for i
    unfolding result by (cases "10000 < int (count_where prunable ?kept)") (simp_all only: if_True if_False other kept)
  with assms show ?thesis
    by (auto simp: diagnostics_ok_def prune_diagnostic_events_def Let_def list_all_iff)
qed

text \<open>
  A cache-metric diagnostic exists for an event id exactly when the table has a row of that id
  whose metrics violate the cache invariant: the write path keeps it so through insertions,
  recoveries, evictions and dropped candidates, and both retentions keep it too.
\<close>

theorem diagnostics_in_step:
  assumes "table_ok g key_of foreign (ud_usage_events db)" "diagnostics_ok db"
    and "list_all (event_ok key_of foreign) events"
  shows "\<exists>st. upsert_usage_events_dedup_aware l events g db = Inr st \<and> diagnostics_ok (ds_db st)
           \<and> diagnostics_ok (snd (prune_usage_events now g (ds_db st)))
           \<and> diagnostics_ok (snd (prune_diagnostic_events older (ds_db st)))"
proof -
  obtain st where st: "upsert_usage_events_dedup_aware l events g db = Inr st" "state_ok g key_of foreign st"
    using upsert_batch [OF assms, of l] by blast
  then have ok: "diagnostics_ok (ds_db st)" "distinct (map row_id (ud_usage_events (ds_db st)))"
    by (simp_all add: state_ok_def table_ok_def)
  with st(1) prune_usage_diagnostics [OF ok(2,1)] prune_diagnostics_keeps [OF ok(1)] show ?thesis
    by blast
qed

lemma table_ok_filter: "table_ok g key_of foreign rows \<Longrightarrow> table_ok g key_of foreign (filter P rows)"
  by (auto simp: table_ok_def list_all_iff intro: distinct_map_filter)

lemma fetch_filter_None:
  "fetch_existing_for_dedupe g k rows = None \<Longrightarrow> fetch_existing_for_dedupe g k (filter P rows) = None"
  by (auto simp: fetch_existing_for_dedupe_def find_None_iff)

lemma single_fresh_write:
  assumes "table_ok g key_of foreign (ud_usage_events db)" "event_ok key_of foreign (e, Replace)"
    and "fetch_existing_for_dedupe g (event_dedupe_key e) (ud_usage_events db) = None"
  shows "\<exists>st. upsert_usage_events_dedup_aware l [(e, Replace)] g db = Inr st \<and> ds_effective_events st = [e]
           \<and> ud_usage_events (ds_db st) = ud_usage_events db @ [table_row e g (event_dedupe_key e)]"
  using upsert_fresh [OF assms(1), of e] assms(2,3)
  by (simp add: upsert_usage_events_dedup_aware_def write_replace_def dedup_start_def evict_displaced_def
      record_insert_def Let_def)

text \<open>
  Retention forgets what deduplication needs. An event older than a day is counted in full; the
  next pruning deletes its row, and when the same message is read again, from the copy of it that a
  resumed session writes into a new log, it is an insertion once more and its tokens are handed to the
  rollups, which are additive and never pruned, a second time.
\<close>

theorem pruned_message_recounted:
  assumes "table_ok g key_of foreign (ud_usage_events db)" "event_ok key_of foreign (e, Replace)"
    and "fetch_existing_for_dedupe g (event_dedupe_key e) (ud_usage_events db) = None"
    and "ue_timestamp_ms e < now - 86400000"
  shows "\<exists>st st'. upsert_usage_events_dedup_aware l [(e, Replace)] g db = Inr st
           \<and> upsert_usage_events_dedup_aware l [(e, Replace)] g (snd (prune_usage_events now g (ds_db st))) = Inr st'
           \<and> ds_effective_events st = [e] \<and> ds_effective_events st' = [e]"
proof -
  obtain st where st: "upsert_usage_events_dedup_aware l [(e, Replace)] g db = Inr st" "ds_effective_events st = [e]"
    "ud_usage_events (ds_db st) = ud_usage_events db @ [table_row e g (event_dedupe_key e)]"
    using single_fresh_write [OF assms(1-3), of l] by blast
  let ?db = "snd (prune_usage_events now g (ds_db st))"
  have rows: "ud_usage_events ?db = filter (\<lambda>r. \<not> (ur_generation_id r = g \<and> ue_timestamp_ms (ur_event r) < now - 86400000))
      (ud_usage_events db)"
    using st(3) assms(4) by (simp add: prune_usage_events_def Let_def bound_event_def table_row_def)
  obtain st' where "upsert_usage_events_dedup_aware l [(e, Replace)] g ?db = Inr st'" "ds_effective_events st' = [e]"
    using single_fresh_write [of g key_of foreign ?db e l, unfolded rows, OF table_ok_filter [OF assms(1)] assms(2)
        fetch_filter_None [OF assms(3)]] by blast
  with st show ?thesis by blast
qed

section \<open>Concrete tables\<close>

definition empty_usage_db :: usage_db where
  "empty_usage_db = \<lparr>ud_usage_events = [], ud_diagnostic_events = []\<rparr>"

definition sample_store_lib :: store_lib where
  "sample_store_lib = \<lparr>sl_fsub = (-), sl_now = (\<lambda>_. 0)\<rparr>"

definition sample_batch :: "(usage_event \<times> usage_write_policy) list" where
  "sample_batch = [(sample_event ''r1'', Replace), (sample_event ''r2'', Replace)]"

text \<open>Both events are of one message, so both ids have its key.\<close>

definition sample_key :: "string \<Rightarrow> string" where
  "sample_key i = ''claude:msg:m''"

lemma sample_identity:
  "ue_dedupe_key (sample_event rid) = Some ''claude:msg:m''" "ue_timestamp_ms (sample_event rid) = 0"
  "ue_is_sidechain (sample_event rid) = False" "ue_id (sample_event rid) = ''claude:m:'' @ rid"
  by (simp_all add: sample_event_def claude_event_def sample_line_def sample_lib_def claude_event_id_def Let_def)

lemma sample_ok:
  "table_ok ''g'' sample_key (\<lambda>_. False) (ud_usage_events empty_usage_db)" "diagnostics_ok empty_usage_db"
  "list_all (event_ok sample_key (\<lambda>_. False)) sample_batch"
  by (simp_all add: table_ok_def diagnostics_ok_def empty_usage_db_def sample_batch_def sample_key_def
      event_dedupe_key_def sample_identity)

lemma sample_schema:
  "usage_schema (ud_usage_events empty_usage_db)"
  "ids_have_one_key ''g'' sample_batch (ud_usage_events empty_usage_db)"
  "ids_of_this_generation ''g'' sample_batch (ud_usage_events empty_usage_db)"
  by (simp_all add: usage_schema_def ids_have_one_key_def ids_of_this_generation_def keyed_ids_def empty_usage_db_def
      sample_batch_def event_dedupe_key_def sample_identity)

theorem usage_write_conserves_witness:
  "\<exists>st. upsert_usage_events_dedup_aware sample_store_lib sample_batch ''g'' empty_usage_db = Inr st
      \<and> generation_tokens ''g'' (ud_usage_events (ds_db st)) = sum_tokens (map ue_tokens (ds_effective_events st))"
  using usage_write_conserves [OF sample_schema(1) sample_ok(2) sample_schema(2,3), of sample_store_lib]
  by (auto simp: empty_usage_db_def tokens_laws(2))

text \<open>The live generation \<open>h\<close> has the event that a rebuild writes into \<open>g\<close>.\<close>

theorem shared_id_crosses_generations_witness:
  "\<exists>st. upsert_usage_events_dedup_aware sample_store_lib [(sample_event ''r1'', Replace)] ''g''
       (empty_usage_db\<lparr>ud_usage_events := [table_row (sample_event ''r1'') ''h'' ''claude:msg:m'']\<rparr>) = Inr st
     \<and> ds_inserted st = 1 \<and> filter (\<lambda>r. ur_generation_id r = ''g'') (ud_usage_events (ds_db st)) = []"
proof -
  let ?r = "table_row (sample_event ''r1'') ''h'' ''claude:msg:m''"
  let ?db = "empty_usage_db\<lparr>ud_usage_events := [?r]\<rparr>"
  have "usage_schema (ud_usage_events ?db)" "?r \<in> set (ud_usage_events ?db)" "row_id ?r = ue_id (sample_event ''r1'')"
    "ur_generation_id ?r \<noteq> ''g''" "fetch_existing_for_dedupe ''g'' (event_dedupe_key (sample_event ''r1'')) (ud_usage_events ?db) = None"
    "ur_dedupe_key ?r = event_dedupe_key (sample_event ''r1'')"
    by (simp_all add: usage_schema_def table_row_def bound_event_def fetch_existing_for_dedupe_def same_dedupe_def
        event_dedupe_key_def sample_identity)
  from shared_id_crosses_generations[OF this, of sample_store_lib] show ?thesis by (auto simp: table_row_def)
qed

theorem survivor_unbeaten_witness:
  "\<exists>st x. upsert_usage_events_dedup_aware sample_store_lib sample_batch ''g'' empty_usage_db = Inr st
      \<and> fetch_existing_for_dedupe ''g'' ''claude:msg:m'' (ud_usage_events (ds_db st)) = Some x
      \<and> \<not> new_beats_existing (sample_event ''r2'') x"
  using survivor_unbeaten [OF sample_ok, of "sample_event ''r2''" sample_store_lib]
  by (auto simp: sample_batch_def event_dedupe_key_def sample_identity)

theorem diagnostics_in_step_witness:
  "\<exists>st. upsert_usage_events_dedup_aware sample_store_lib sample_batch ''g'' empty_usage_db = Inr st
      \<and> diagnostics_ok (snd (prune_usage_events 86400001 ''g'' (ds_db st)))"
  using diagnostics_in_step [OF sample_ok, of sample_store_lib 86400001] by blast

theorem pruned_message_recounted_witness:
  "\<exists>st st'. upsert_usage_events_dedup_aware sample_store_lib [(sample_event ''r1'', Replace)] ''g'' empty_usage_db = Inr st
      \<and> upsert_usage_events_dedup_aware sample_store_lib [(sample_event ''r1'', Replace)] ''g''
          (snd (prune_usage_events 86400001 ''g'' (ds_db st))) = Inr st'
      \<and> ds_effective_events st = [sample_event ''r1''] \<and> ds_effective_events st' = [sample_event ''r1'']"
  using sample_ok
  by (intro pruned_message_recounted [where key_of = sample_key and foreign = "\<lambda>_. False"])
    (simp_all add: sample_batch_def sample_identity fetch_existing_for_dedupe_def empty_usage_db_def)

end
