(* ===== verification/Keyed_Tables.thy ===== *)
theory Keyed_Tables
  imports Busytok_Prelude
begin

text \<open>
  Tables of rows under a primary key, as the store's additive tables are written: the upsert that
  merges a new row into the row of its key, the interface it offers its users, and the counters of a
  table whose merge adds.
\<close>

section \<open>Upserts\<close>

text \<open>\<open>INSERT ... ON CONFLICT(key) DO UPDATE\<close>: the row of the key is merged with the new one.\<close>

fun upsert_row :: "('r \<Rightarrow> 'k) \<Rightarrow> ('r \<Rightarrow> 'r \<Rightarrow> 'r) \<Rightarrow> 'r \<Rightarrow> 'r list \<Rightarrow> 'r list" where
  "upsert_row key merge x [] = [x]"
| "upsert_row key merge x (r # rs) =
     (if key r = key x then merge r x # rs else r # upsert_row key merge x rs)"

text \<open>The row of a key, and the keys, of a table that holds one row per key.\<close>

definition row_of :: "('r \<Rightarrow> 'k) \<Rightarrow> 'k \<Rightarrow> 'r list \<Rightarrow> 'r option" where
  "row_of key k rows = find (\<lambda>r. key r = k) rows"

text \<open>A merge that keeps the key of the row.\<close>

locale keyed_table =
  fixes key :: "'r \<Rightarrow> 'k" and merge :: "'r \<Rightarrow> 'r \<Rightarrow> 'r"
  assumes key_merge: "key r = key x \<Longrightarrow> key (merge r x) = key r"
begin

lemma keys_upsert: "key ` set (upsert_row key merge x rs) = insert (key x) (key ` set rs)"
  by (induction rs) (auto simp: key_merge)

lemma distinct_upsert: "distinct (map key rs) \<Longrightarrow> distinct (map key (upsert_row key merge x rs))"
proof (induction rs)
  case (Cons r rs)
  moreover have "key r \<notin> key ` set (upsert_row key merge x rs)" if "key r \<noteq> key x"
    using Cons.prems that by (auto simp: keys_upsert)
  ultimately show ?case by (auto simp: key_merge)
qed simp

lemma distinct_upserts: "distinct (map key rs) \<Longrightarrow> distinct (map key (fold (upsert_row key merge) xs rs))"
  by (induction xs arbitrary: rs) (simp_all add: distinct_upsert)

lemma row_of_upsert:
  "row_of key k (upsert_row key merge x rs) =
     (if key x = k then Some (case row_of key k rs of None \<Rightarrow> x | Some r \<Rightarrow> merge r x) else row_of key k rs)"
  by (induction rs) (auto simp: row_of_def key_merge)

end

text \<open>The sum of a counter over the rows whose key satisfies a predicate.\<close>

definition count_rows :: "('r \<Rightarrow> 'k) \<Rightarrow> ('c \<Rightarrow> 'r \<Rightarrow> int) \<Rightarrow> ('k \<Rightarrow> bool) \<Rightarrow> 'c \<Rightarrow> 'r list \<Rightarrow> int" where
  "count_rows key amount P c rows = sum_list (map (amount c) (filter (\<lambda>r. P (key r)) rows))"

lemma count_rows_simps [simp]:
  "count_rows key amount P c [] = 0"
  "count_rows key amount P c (r # rs) = (if P (key r) then amount c r else 0) + count_rows key amount P c rs"
  by (simp_all add: count_rows_def)

lemma count_rows_append [simp]:
  "count_rows key amount P c (xs @ ys) = count_rows key amount P c xs + count_rows key amount P c ys"
  by (simp add: count_rows_def)

lemma count_rows_map:
  "count_rows key amount P c (map f xs) = sum_list (map (\<lambda>x. amount c (f x)) (filter (\<lambda>x. P (key (f x))) xs))"
  by (simp add: count_rows_def filter_map comp_def)

text \<open>What an upsert into such a table promises.\<close>

locale additive_table = keyed_table key merge for key :: "'r \<Rightarrow> 'k" and merge +
  fixes amount :: "'c \<Rightarrow> 'r \<Rightarrow> int"
  assumes amount_merge: "amount c (merge r x) = amount c r + amount c x"
begin

lemma count_upsert:
  "count_rows key amount P c (upsert_row key merge x rs)
   = count_rows key amount P c rs + (if P (key x) then amount c x else 0)"
  by (induction rs) (auto simp: key_merge amount_merge)

lemma count_upserts:
  "count_rows key amount P c (fold (upsert_row key merge) xs rs)
   = count_rows key amount P c rs + count_rows key amount P c xs"
  by (induction xs arbitrary: rs) (simp_all add: count_upsert)

end

end
