(* ===== verification/Source_Files.thy ===== *)
theory Source_Files
  imports Usage_Store Keyed_Tables
begin

text \<open>
  The sources and files behind the usage events: checkpoints, log sources, the per-source health
  summary (\<open>busytok-store/src/write_queries.rs\<close>), the durable event sequence and the outbox
  (\<open>outbox_queries.rs\<close>). A statement's clock reading is an argument.
\<close>

section \<open>Checkpoints\<close>

text \<open>\<open>source_file_checkpoints\<close> and \<open>log_files\<close> have the same columns.\<close>

record file_row =
  fr_id :: string
  fr_source_id :: string
  fr_agent :: string
  fr_path :: string
  fr_inode :: "string option"
  fr_offset_bytes :: int
  fr_size_bytes :: int
  fr_last_mtime_ms :: "int option"
  fr_state :: string
  fr_last_error :: "string option"
  fr_first_seen_at_ms :: int
  fr_last_seen_at_ms :: int
  fr_created_at_ms :: int
  fr_updated_at_ms :: int

definition new_file_row ::
  "int \<Rightarrow> string \<Rightarrow> string \<Rightarrow> string \<Rightarrow> string \<Rightarrow> string option \<Rightarrow> int \<Rightarrow> int \<Rightarrow> int option \<Rightarrow> string \<Rightarrow> string option \<Rightarrow> file_row" where
  "new_file_row now i source_id agent path inode offset_bytes size_bytes last_mtime_ms state last_error =
     \<lparr>fr_id = i, fr_source_id = source_id, fr_agent = agent, fr_path = path, fr_inode = inode,
      fr_offset_bytes = offset_bytes, fr_size_bytes = size_bytes, fr_last_mtime_ms = last_mtime_ms,
      fr_state = state, fr_last_error = last_error, fr_first_seen_at_ms = now, fr_last_seen_at_ms = now,
      fr_created_at_ms = now, fr_updated_at_ms = now\<rparr>"

definition merge_file_row :: "file_row \<Rightarrow> file_row \<Rightarrow> file_row" where
  "merge_file_row old new =
     new\<lparr>fr_first_seen_at_ms := fr_first_seen_at_ms old, fr_created_at_ms := fr_created_at_ms old\<rparr>"

interpretation files: keyed_table fr_id merge_file_row
  by unfold_locales (simp add: merge_file_row_def)

definition upsert_source_file_checkpoint :: "file_row \<Rightarrow> file_row list \<Rightarrow> file_row list" where
  "upsert_source_file_checkpoint x rows = upsert_row fr_id merge_file_row x rows"

definition upsert_log_file_checkpoint :: "file_row \<Rightarrow> file_row list \<Rightarrow> file_row list" where
  "upsert_log_file_checkpoint x rows = upsert_row fr_id merge_file_row x rows"

definition get_log_file :: "string \<Rightarrow> file_row list \<Rightarrow> file_row option" where
  "get_log_file i rows = row_of fr_id i rows"

section \<open>Sources\<close>

record log_source_row =
  lo_id :: string
  lo_agent :: string
  lo_source_type :: string
  lo_root_path :: string
  lo_configured_by_user :: int
  lo_default_discovery_enabled :: int
  lo_status :: string
  lo_last_scan_started_at_ms :: "int option"
  lo_last_scan_completed_at_ms :: "int option"
  lo_last_error :: "string option"
  lo_first_seen_at_ms :: int
  lo_last_seen_at_ms :: int
  lo_created_at_ms :: int
  lo_updated_at_ms :: int

definition merge_log_source :: "log_source_row \<Rightarrow> log_source_row \<Rightarrow> log_source_row" where
  "merge_log_source old new =
     old\<lparr>lo_agent := lo_agent new, lo_source_type := lo_source_type new, lo_root_path := lo_root_path new,
         lo_status := lo_status new,
         lo_last_scan_started_at_ms := coalesce (lo_last_scan_started_at_ms new) (lo_last_scan_started_at_ms old),
         lo_last_scan_completed_at_ms := lo_last_scan_completed_at_ms new, lo_last_error := lo_last_error new,
         lo_last_seen_at_ms := lo_last_seen_at_ms new, lo_updated_at_ms := lo_updated_at_ms new\<rparr>"

interpretation sources: keyed_table lo_id merge_log_source
  by unfold_locales (simp add: merge_log_source_def)

definition upsert_log_source :: "log_source_row \<Rightarrow> log_source_row list \<Rightarrow> log_source_row list" where
  "upsert_log_source x rows = upsert_row lo_id merge_log_source x rows"

section \<open>Source health summaries\<close>

record summary_row =
  sh_generation_id :: string
  sh_source_id :: string
  sh_agent :: string
  sh_root_path :: string
  sh_source_type :: string
  sh_status :: string
  sh_configured_by_user :: int
  sh_last_scan_at_ms :: "int option"
  sh_file_count :: int
  sh_parsed_file_count :: int
  sh_event_count :: int
  sh_last_error :: "string option"
  sh_latest_activity_at_ms :: "int option"
  sh_created_at_ms :: int
  sh_updated_at_ms :: int

text \<open>The tables a summary is computed from, and the summaries.\<close>

record source_db =
  sd_log_sources :: "log_source_row list"
  sd_log_files :: "file_row list"
  sd_checkpoints :: "file_row list"
  sd_summaries :: "summary_row list"

definition live_source :: "log_source_row \<Rightarrow> bool" where
  "live_source s = (lo_status s \<noteq> ''removed'' \<and> lo_status s \<noteq> ''unknown'')"

definition source_event_times :: "string \<Rightarrow> string \<Rightarrow> file_row list \<Rightarrow> usage_table_row list \<Rightarrow> int list" where
  "source_event_times g source_id files rows =
     concat (map (\<lambda>f. map (ue_timestamp_ms \<circ> ur_event)
       (filter (\<lambda>r. es_file_id (ue_source (ur_event r)) = fr_id f \<and> ur_generation_id r = g) rows))
       (filter (\<lambda>f. fr_source_id f = source_id) files))"

definition summary_of :: "int \<Rightarrow> string \<Rightarrow> source_db \<Rightarrow> usage_table_row list \<Rightarrow> log_source_row \<Rightarrow> summary_row" where
  "summary_of now g db rows s =
     (let own = filter (\<lambda>f. fr_source_id f = lo_id s) (sd_log_files db);
          times = source_event_times g (lo_id s) (sd_log_files db) rows
      in \<lparr>sh_generation_id = g, sh_source_id = lo_id s, sh_agent = lo_agent s, sh_root_path = lo_root_path s,
          sh_source_type = lo_source_type s, sh_status = lo_status s,
          sh_configured_by_user = lo_configured_by_user s, sh_last_scan_at_ms = lo_last_scan_completed_at_ms s,
          sh_file_count = int (length own),
          sh_parsed_file_count = int (length (filter (\<lambda>f. 0 < fr_offset_bytes f) own)),
          sh_event_count = int (length times), sh_last_error = lo_last_error s,
          sh_latest_activity_at_ms = (if times = [] then None else Some (Max (set times))),
          sh_created_at_ms = now, sh_updated_at_ms = now\<rparr>)"

text \<open>One source: its summary is deleted, and inserted again when the source is live.\<close>

definition refresh_source_summary ::
  "int \<Rightarrow> string \<Rightarrow> usage_table_row list \<Rightarrow> string \<Rightarrow> source_db \<Rightarrow> source_db" where
  "refresh_source_summary now g rows source_id db =
     db\<lparr>sd_summaries :=
          filter (\<lambda>x. \<not> (sh_generation_id x = g \<and> sh_source_id x = source_id)) (sd_summaries db)
          @ map (summary_of now g db rows)
              (filter (\<lambda>s. lo_id s = source_id \<and> live_source s) (sd_log_sources db))\<rparr>"

text \<open>A \<open>BTreeSet\<close> iterates in order, without duplicates.\<close>

definition ordered_ids :: "string list \<Rightarrow> string list" where
  "ordered_ids ids = sort_by str_le (remdups ids)"

definition refresh_source_summaries_for_sources ::
  "int \<Rightarrow> string \<Rightarrow> usage_table_row list \<Rightarrow> string list \<Rightarrow> source_db \<Rightarrow> source_db" where
  "refresh_source_summaries_for_sources now g rows ids db =
     fold (refresh_source_summary now g rows) (ordered_ids (filter (\<lambda>i. i \<noteq> []) ids)) db"

definition rebuild_source_summaries :: "int \<Rightarrow> string \<Rightarrow> usage_table_row list \<Rightarrow> source_db \<Rightarrow> source_db" where
  "rebuild_source_summaries now g rows db =
     (let db = db\<lparr>sd_summaries := filter (\<lambda>x. sh_generation_id x \<noteq> g) (sd_summaries db)\<rparr>
      in refresh_source_summaries_for_sources now g rows (map lo_id (filter live_source (sd_log_sources db))) db)"

text \<open>The sources of a batch: those of its files, and the given ones.\<close>

definition affected_source_ids ::
  "(string \<Rightarrow> string) \<Rightarrow> source_db \<Rightarrow> usage_event list \<Rightarrow> string list \<Rightarrow> string list" where
  "affected_source_ids trim db events fallback =
     (let given = filter (\<lambda>i. i \<noteq> []) (map trim fallback);
          files = ordered_ids (filter (\<lambda>i. i \<noteq> []) (map (\<lambda>e. trim (es_file_id (ue_source e))) events));
          found = concat (map (\<lambda>i. case get_log_file i (sd_log_files db) of
                     None \<Rightarrow> [] | Some f \<Rightarrow> if trim (fr_source_id f) \<noteq> [] then [fr_source_id f] else []) files)
      in ordered_ids (given @ found))"

definition refresh_source_summaries_for_inserted_events ::
  "(string \<Rightarrow> string) \<Rightarrow> int \<Rightarrow> string \<Rightarrow> usage_table_row list \<Rightarrow> usage_event list \<Rightarrow> string list \<Rightarrow> source_db \<Rightarrow> source_db" where
  "refresh_source_summaries_for_inserted_events trim now g rows events fallback db =
     refresh_source_summaries_for_sources now g rows (affected_source_ids trim db events fallback) db"

section \<open>The event sequence and the outbox\<close>

text \<open>The singleton row may be missing; it is created on demand.\<close>

record sequence_row =
  sq_latest_event_seq :: int
  sq_latest_event_timestamp_ms :: "int option"
  sq_updated_at_ms :: int

record outbox_db =
  ob_sequence :: "sequence_row option"
  ob_log :: "(int \<times> string \<times> int) list"

definition ensure_event_sequence_state :: "int \<Rightarrow> outbox_db \<Rightarrow> outbox_db" where
  "ensure_event_sequence_state now db =
     (case ob_sequence db of
        Some _ \<Rightarrow> db
      | None \<Rightarrow> db\<lparr>ob_sequence := Some \<lparr>sq_latest_event_seq = 0, sq_latest_event_timestamp_ms = None,
                                         sq_updated_at_ms = now\<rparr>\<rparr>)"

definition latest_seq :: "outbox_db \<Rightarrow> int" where
  "latest_seq db = (case ob_sequence db of None \<Rightarrow> 0 | Some s \<Rightarrow> sq_latest_event_seq s)"

definition allocate_event_sequence_batch :: "int \<Rightarrow> int \<Rightarrow> outbox_db \<Rightarrow> (int \<times> int) \<times> outbox_db" where
  "allocate_event_sequence_batch now n db =
     (let db = ensure_event_sequence_state now db; old_seq = latest_seq db; new_seq = old_seq + n
      in ((old_seq + 1, new_seq),
          db\<lparr>ob_sequence := map_option (\<lambda>s. s\<lparr>sq_latest_event_seq := new_seq, sq_updated_at_ms := now\<rparr>)
               (ob_sequence db)\<rparr>))"

definition read_latest_event_seq :: "int \<Rightarrow> outbox_db \<Rightarrow> int \<times> outbox_db" where
  "read_latest_event_seq now db = (let db = ensure_event_sequence_state now db in (latest_seq db, db))"

definition update_latest_event_timestamp :: "int \<Rightarrow> int \<Rightarrow> outbox_db \<Rightarrow> outbox_db" where
  "update_latest_event_timestamp now timestamp_ms db =
     db\<lparr>ob_sequence := map_option (\<lambda>s.
          s\<lparr>sq_latest_event_timestamp_ms := Some (max (unwrap_or 0 (sq_latest_event_timestamp_ms s)) timestamp_ms),
            sq_updated_at_ms := now\<rparr>) (ob_sequence db)\<rparr>"

definition append_durable_outbox_events :: "int \<Rightarrow> (int \<times> string) list \<Rightarrow> outbox_db \<Rightarrow> outbox_db" where
  "append_durable_outbox_events now entries db =
     db\<lparr>ob_log := ob_log db @ map (\<lambda>(seq, json). (seq, json, now)) entries\<rparr>"

definition read_outbox_since :: "int \<Rightarrow> int \<Rightarrow> outbox_db \<Rightarrow> (int \<times> string) list" where
  "read_outbox_since after_seq limit db =
     sql_limit limit (sort_by (\<lambda>a b. fst a \<le> fst b)
       (map (\<lambda>(seq, json, _). (seq, json)) (filter (\<lambda>(seq, _). after_seq < seq) (ob_log db))))"

lemma allocate_result:
  "fst (allocate_event_sequence_batch now n db) = (latest_seq db + 1, latest_seq db + n)"
  "latest_seq (snd (allocate_event_sequence_batch now n db)) = latest_seq db + n"
  "ob_log (snd (allocate_event_sequence_batch now n db)) = ob_log db"
  by (simp_all add: allocate_event_sequence_batch_def ensure_event_sequence_state_def latest_seq_def Let_def
        split: option.split)

lemma latest_seq_append [simp]: "latest_seq (append_durable_outbox_events now es db) = latest_seq db"
  by (simp add: append_durable_outbox_events_def latest_seq_def)

end
