(* ===== verification/Service_Status.thy ===== *)
theory Service_Status
  imports Source_Files
begin

text \<open>
  The in-memory status of the service, \<open>busytok-runtime/src/status.rs\<close>: readiness, the active
  generation, the counters of the chips, the live bucket and the ring buffer of transient samples.
  Progress and connectivity, which only travel through, are not modelled.
\<close>

datatype readiness = Starting | Rebuilding | Ready_Degraded | Ready_Exact

fun readiness_str :: "readiness \<Rightarrow> string" where
  "readiness_str Starting = ''starting''"
| "readiness_str Rebuilding = ''rebuilding''"
| "readiness_str Ready_Degraded = ''ready_degraded''"
| "readiness_str Ready_Exact = ''ready_exact''"

record live_sample =
  ls_bucket_start_ms :: int
  ls_tokens_per_sec :: f64_bits
  ls_cost_per_sec :: "f64_bits option"
  ls_events_per_sec :: f64_bits

record live_bucket =
  lb_bucket_start_ms :: int
  lb_total_tokens :: int
  lb_cost_usd :: f64_bits
  lb_event_count :: int

text \<open>The bits of 0.0 are zero.\<close>

definition live_bucket_default :: live_bucket where
  "live_bucket_default =
     \<lparr>lb_bucket_start_ms = 0, lb_total_tokens = 0, lb_cost_usd = 0, lb_event_count = 0\<rparr>"

record client_rollup =
  cr_client_kind :: string
  cr_active_source_count :: int
  cr_event_count :: int

record status_snapshot =
  ss_readiness :: readiness
  ss_active_generation_id :: "string option"
  ss_latest_event_seq :: "int option"
  ss_writer_queue_depth :: int
  ss_aggregate_lag_ms :: int
  ss_transient_ring_buffer :: "live_sample list"
  ss_live_bucket :: live_bucket
  ss_total_usage_event_count :: int
  ss_source_count :: int
  ss_chip_data_hydrated :: bool
  ss_cached_client_rollups :: "client_rollup list"

definition status_default :: status_snapshot where
  "status_default =
     \<lparr>ss_readiness = Starting, ss_active_generation_id = None, ss_latest_event_seq = None,
      ss_writer_queue_depth = 0, ss_aggregate_lag_ms = 0, ss_transient_ring_buffer = [],
      ss_live_bucket = live_bucket_default, ss_total_usage_event_count = 0, ss_source_count = 0,
      ss_chip_data_hydrated = False, ss_cached_client_rollups = []\<rparr>"

definition TRANSIENT_RING_BUFFER_CAPACITY :: nat where
  "TRANSIENT_RING_BUFFER_CAPACITY = 450"

definition push_transient_sample :: "live_sample \<Rightarrow> status_snapshot \<Rightarrow> status_snapshot" where
  "push_transient_sample x s =
     (let ring = ss_transient_ring_buffer s;
          ring = (if TRANSIENT_RING_BUFFER_CAPACITY \<le> length ring then tl ring else ring)
      in s\<lparr>ss_transient_ring_buffer := ring @ [x]\<rparr>)"

definition apply_runtime_health_update :: "int \<Rightarrow> int \<Rightarrow> int option \<Rightarrow> status_snapshot \<Rightarrow> status_snapshot" where
  "apply_runtime_health_update queue_depth lag_ms seq s =
     (let s = s\<lparr>ss_writer_queue_depth := queue_depth, ss_aggregate_lag_ms := lag_ms\<rparr>
      in if seq \<noteq> None then s\<lparr>ss_latest_event_seq := seq\<rparr> else s)"

definition apply_durable_transition :: "readiness \<Rightarrow> string option \<Rightarrow> status_snapshot \<Rightarrow> status_snapshot" where
  "apply_durable_transition r gen s = s\<lparr>ss_readiness := r, ss_active_generation_id := gen\<rparr>"

record service_state_view =
  vw_latest_event_seq :: "int option"
  vw_readiness :: readiness
  vw_active_generation_id :: "string option"
  vw_writer_queue_depth :: int
  vw_aggregate_lag_ms :: int

definition hydrate_from_service_state_row :: "service_state_view \<Rightarrow> status_snapshot \<Rightarrow> status_snapshot" where
  "hydrate_from_service_state_row row s =
     s\<lparr>ss_latest_event_seq := vw_latest_event_seq row, ss_readiness := vw_readiness row,
       ss_active_generation_id := vw_active_generation_id row,
       ss_writer_queue_depth := vw_writer_queue_depth row, ss_aggregate_lag_ms := vw_aggregate_lag_ms row\<rparr>"

text \<open>The rollups per client of a generation are the result of a read query.\<close>

definition hydrate_chip_data ::
  "(string \<Rightarrow> client_rollup list) \<Rightarrow> usage_table_row list \<Rightarrow> log_source_row list \<Rightarrow> status_snapshot \<Rightarrow> status_snapshot" where
  "hydrate_chip_data read_client_rollups rows sources s =
     (if ss_chip_data_hydrated s then s
      else let s = s\<lparr>ss_total_usage_event_count := int (length rows),
                     ss_source_count := int (count_where (\<lambda>x. lo_status x \<noteq> ''removed'') sources)\<rparr>;
               s = (case ss_active_generation_id s of
                      Some g \<Rightarrow> s\<lparr>ss_cached_client_rollups := read_client_rollups g\<rparr>
                    | None \<Rightarrow> s)
           in s\<lparr>ss_chip_data_hydrated := True\<rparr>)"

definition invalidate_chip_data :: "status_snapshot \<Rightarrow> status_snapshot" where
  "invalidate_chip_data s = s\<lparr>ss_chip_data_hydrated := False, ss_cached_client_rollups := []\<rparr>"

text \<open>The ring buffer holds the last samples, at most its capacity.\<close>

lemma ring_after_push [simp]:
  "ss_transient_ring_buffer (push_transient_sample x s)
   = (if TRANSIENT_RING_BUFFER_CAPACITY \<le> length (ss_transient_ring_buffer s)
      then tl (ss_transient_ring_buffer s) else ss_transient_ring_buffer s) @ [x]"
  by (simp add: push_transient_sample_def Let_def)

lemma ring_buffer_keeps_latest:
  assumes "ss_transient_ring_buffer s = []"
  shows "ss_transient_ring_buffer (fold push_transient_sample xs s)
         = drop (length xs - TRANSIENT_RING_BUFFER_CAPACITY) xs"
proof -
  obtain c where c: "TRANSIENT_RING_BUFFER_CAPACITY = Suc c"
    by (simp add: TRANSIENT_RING_BUFFER_CAPACITY_def numeral_eq_Suc)
  show ?thesis
  proof (induction xs rule: rev_induct)
    case (snoc x xs)
    have "Suc (length xs - Suc c) = length xs - c" if "c < length xs" using that by simp
    moreover have "tl (drop k xs) = drop (Suc k) xs" for k by (simp add: drop_Suc drop_tl)
    ultimately show ?case
      using snoc by (auto simp: c not_less_eq_eq)
  qed (simp add: assms)
qed

end
