(* ===== verification/Utc_Dates.thy ===== *)
theory Utc_Dates
  imports Busytok_Prelude "HOL-Library.Signed_Division"
begin

text \<open>
  Buckets of time and UTC dates, as \<open>update_materialized_aggregates_from_events\<close> of
  \<open>busytok-store/src/write_queries.rs\<close> computes them: the start of a bucket by division that
  truncates, and the year and month loops from days since 1970 to a date. The loops are inverse to
  counting the days of the proleptic Gregorian calendar, for which a closed form is given.
\<close>

section \<open>Buckets\<close>

definition bucket_start :: "int \<Rightarrow> int \<Rightarrow> int" where
  "bucket_start width timestamp_ms = (timestamp_ms sdiv width) * width"

lemma bucket_start_floor: "0 \<le> t \<Longrightarrow> 0 < w \<Longrightarrow> bucket_start w t = t - t mod w"
  by (simp add: bucket_start_def signed_divide_int_def sgn_if minus_mod_eq_div_mult)

section \<open>Dates\<close>

definition leap_year :: "int \<Rightarrow> bool" where
  "leap_year y = ((y mod 4 = 0 \<and> y mod 100 \<noteq> 0) \<or> y mod 400 = 0)"

definition days_in_year :: "int \<Rightarrow> int" where
  "days_in_year y = (if leap_year y then 366 else 365)"

lemma days_in_year_bounds: "365 \<le> days_in_year y" "days_in_year y \<le> 366" "0 < days_in_year y"
  by (simp_all add: days_in_year_def)

function year_loop :: "int \<Rightarrow> int \<Rightarrow> int \<times> int" where
  "year_loop y remaining =
     (if remaining < days_in_year y then (y, remaining)
      else year_loop (y + 1) (remaining - days_in_year y))"
  by auto
termination
  by (relation "measure (\<lambda>(y, r). nat r)") (auto simp: days_in_year_def split: if_splits)

declare year_loop.simps [simp del]

definition month_days :: "int \<Rightarrow> int list" where
  "month_days y = [31, if leap_year y then 29 else 28, 31, 30, 31, 30, 31, 31, 30, 31, 30, 31]"

fun month_loop :: "int list \<Rightarrow> int \<Rightarrow> int \<Rightarrow> int \<times> int" where
  "month_loop [] m remaining = (m, remaining)"
| "month_loop (md # mds) m remaining =
     (if remaining < md then (m, remaining) else month_loop mds (m + 1) (remaining - md))"

definition civil_date :: "int \<Rightarrow> int \<times> int \<times> int" where
  "civil_date days =
     (let (y, r) = year_loop 1970 days; (m, r) = month_loop (month_days y) 1 r in (y, m, r + 1))"

text \<open>\<open>{:04}\<close> and \<open>{:02}\<close>: the sign counts towards the width.\<close>

definition pad_int :: "nat \<Rightarrow> int \<Rightarrow> string" where
  "pad_int width n =
     (let digits = show_nat (nat \<bar>n\<bar>); sign = (if n < 0 then ''-'' else [])
      in sign @ replicate (width - length sign - length digits) CHR ''0'' @ digits)"

definition utc_date :: "int \<Rightarrow> string" where
  "utc_date timestamp_ms =
     (let day_secs = ((timestamp_ms sdiv 1000) sdiv 86400) * 86400;
          (y, m, d) = civil_date (day_secs sdiv 86400)
      in pad_int 4 y @ ''-'' @ pad_int 2 m @ ''-'' @ pad_int 2 d)"

lemma utc_date_samples:
  "utc_date 0 = ''1970-01-01''" "utc_date 951782400000 = ''2000-02-29''" "utc_date 1735689599999 = ''2024-12-31''"
  by code_simp+

section \<open>The calendar\<close>

text \<open>The days before a year and before a month, and the number of a date.\<close>

definition days_before_year :: "int \<Rightarrow> int" where
  "days_before_year y = (\<Sum>k < nat (y - 1970). days_in_year (1970 + int k))"

definition day_number :: "int \<times> int \<times> int \<Rightarrow> int" where
  "day_number date =
     (case date of (y, m, d) \<Rightarrow> days_before_year y + sum_list (take (nat (m - 1)) (month_days y)) + (d - 1))"

definition valid_date :: "int \<times> int \<times> int \<Rightarrow> bool" where
  "valid_date date =
     (case date of (y, m, d) \<Rightarrow>
        1970 \<le> y \<and> 1 \<le> m \<and> m \<le> 12 \<and> 1 \<le> d \<and> d \<le> month_days y ! nat (m - 1))"

lemma days_before_year_step: "1970 \<le> y \<Longrightarrow> days_before_year (y + 1) = days_before_year y + days_in_year y"
proof -
  assume "1970 \<le> y"
  then have "nat (y + 1 - 1970) = Suc (nat (y - 1970))" by simp
  with \<open>1970 \<le> y\<close> show ?thesis by (simp add: days_before_year_def)
qed

lemma div_pred: "0 < n \<Longrightarrow> y div n = (y - 1) div n + (if y mod n = 0 then 1 else 0)" for y n :: int
proof -
  assume n: "0 < n"
  have y: "y = n * (y div n) + y mod n" by simp
  have r: "0 \<le> y mod n" "y mod n < n" using n by simp_all
  show ?thesis
  proof (cases "y mod n = 0")
    case True
    have "(y - 1) div n = y div n - 1"
      by (rule int_div_pos_eq[where r = "n - 1"]) (use True y n in \<open>simp_all add: right_diff_distrib\<close>)
    with True show ?thesis by simp
  next
    case False
    have "(y - 1) div n = y div n"
      by (rule int_div_pos_eq[where r = "y mod n - 1"]) (use False y r in simp_all)
    with False show ?thesis by simp
  qed
qed

lemma mod_zero_mono: "m dvd n \<Longrightarrow> y mod n = 0 \<Longrightarrow> y mod m = 0" for y m n :: int
  using dvd_trans[of m n y] by (simp add: dvd_eq_mod_eq_0)

lemma leap_year_count:
  "y div 4 - y div 100 + y div 400 = (y - 1) div 4 - (y - 1) div 100 + (y - 1) div 400 + (if leap_year y then 1 else 0)"
proof -
  define a b c where "a = (y - 1) div 4" and "b = (y - 1) div 100" and "c = (y - 1) div 400"
  have y: "y div 4 = a + (if y mod 4 = 0 then 1 else 0)" "y div 100 = b + (if y mod 100 = 0 then 1 else 0)"
    "y div 400 = c + (if y mod 400 = 0 then 1 else 0)"
    unfolding a_def b_def c_def by (rule div_pred; simp)+
  have m: "y mod 400 = 0 \<Longrightarrow> y mod 100 = 0" "y mod 100 = 0 \<Longrightarrow> y mod 4 = 0"
    by (rule mod_zero_mono; simp)+
  show ?thesis
    unfolding y leap_year_def a_def[symmetric] b_def[symmetric] c_def[symmetric]
    by (cases "y mod 4 = 0"; cases "y mod 100 = 0"; cases "y mod 400 = 0") (use m in simp_all)
qed

lemma days_before_year_closed:
  "1970 \<le> y \<Longrightarrow> days_before_year y
     = 365 * (y - 1970) + ((y - 1) div 4 - (y - 1) div 100 + (y - 1) div 400) - 477"
proof (induction y rule: int_ge_induct)
  case base
  show ?case by (simp add: days_before_year_def)
next
  case (step y)
  then show ?case using leap_year_count[of y] by (simp add: days_before_year_step days_in_year_def)
qed

lemma year_loop_correct:
  assumes "1970 \<le> y" "0 \<le> r" "year_loop y r = (y', r')"
  shows "y \<le> y' \<and> 0 \<le> r' \<and> r' < days_in_year y' \<and> days_before_year y' + r' = days_before_year y + r"
  using assms
proof (induction y r rule: year_loop.induct)
  case (1 y r)
  show ?case
  proof (cases "r < days_in_year y")
    case True
    with "1.prems" show ?thesis by (simp add: year_loop.simps[of y])
  next
    case False
    with "1.prems" have "year_loop (y + 1) (r - days_in_year y) = (y', r')" by (simp add: year_loop.simps[of y])
    with "1.IH"[OF False] "1.prems" False show ?thesis by (simp add: days_before_year_step)
  qed
qed

lemma year_loop_inverse:
  assumes "0 \<le> r" "r < days_in_year (y + int n)"
  shows "year_loop y ((\<Sum>k < n. days_in_year (y + int k)) + r) = (y + int n, r)"
  using assms
proof (induction n arbitrary: y)
  case 0
  then show ?case by (simp add: year_loop.simps[of y])
next
  case (Suc n)
  have "(\<Sum>k < Suc n. days_in_year (y + int k)) = days_in_year y + (\<Sum>k < n. days_in_year (y + 1 + int k))"
    by (subst sum.lessThan_Suc_shift) (simp add: ac_simps)
  moreover have "0 \<le> (\<Sum>k < n. days_in_year (y + 1 + int k))"
    by (rule sum_nonneg) (simp add: days_in_year_def)
  ultimately show ?case
    using Suc.IH[of "y + 1"] Suc.prems by (simp add: year_loop.simps[of y] ac_simps)
qed

lemma month_loop_correct:
  assumes "0 \<le> r" "r < sum_list mds" "month_loop mds m r = (m', r')"
  shows "m \<le> m' \<and> m' < m + int (length mds) \<and> 0 \<le> r' \<and> r' < mds ! nat (m' - m)
         \<and> sum_list (take (nat (m' - m)) mds) + r' = r"
  using assms
proof (induction mds arbitrary: m r)
  case (Cons md mds)
  show ?case
  proof (cases "r < md")
    case False
    with Cons.prems have "month_loop mds (m + 1) (r - md) = (m', r')" by simp
    from Cons.IH[OF _ _ this] Cons.prems False
    have "m + 1 \<le> m' \<and> m' < m + 1 + int (length mds) \<and> 0 \<le> r' \<and> r' < mds ! nat (m' - (m + 1))
          \<and> sum_list (take (nat (m' - (m + 1))) mds) + r' = r - md" by simp
    moreover from this have "nat (m' - m) = Suc (nat (m' - (m + 1)))" by linarith
    ultimately show ?thesis by simp
  qed (use Cons.prems in simp)
qed simp

lemma month_loop_inverse:
  assumes "i < length mds" "\<forall>x \<in> set mds. 0 \<le> x" "0 \<le> r" "r < mds ! i"
  shows "month_loop mds m (sum_list (take i mds) + r) = (m + int i, r)"
  using assms
proof (induction mds arbitrary: i m)
  case (Cons md mds)
  then show ?case
  proof (cases i)
    case (Suc j)
    have "0 \<le> sum_list (take j mds)"
      using Cons.prems(2) by (intro sum_list_nonneg) (auto dest: in_set_takeD)
    with Suc Cons show ?thesis by simp
  qed simp
qed simp

lemma sum_month_days: "sum_list (month_days y) = days_in_year y"
  by (simp add: month_days_def days_in_year_def)

lemma length_month_days [simp]: "length (month_days y) = 12"
  by (simp add: month_days_def)

lemma month_days_nonneg: "\<forall>x \<in> set (month_days y). 0 \<le> x"
  by (simp add: month_days_def)

text \<open>
  The year and month loops return, and they are the inverse of counting days: a day from 1970 on
  becomes a valid date with that number, every valid date from 1970 on is reached, and the days before
  a year are those of the closed Gregorian formula.
\<close>

theorem civil_date_roundtrip:
  "(if 0 \<le> n then valid_date (civil_date n) \<and> day_number (civil_date n) = n else True)
   \<and> (if valid_date (y, m, d)
      then civil_date (day_number (y, m, d)) = (y, m, d)
        \<and> day_number (y, m, d) = 365 * (y - 1970) + ((y - 1) div 4 - (y - 1) div 100 + (y - 1) div 400) - 477
             + sum_list (take (nat (m - 1)) (month_days y)) + (d - 1)
      else True)"
proof -
  have "valid_date (civil_date n) \<and> day_number (civil_date n) = n" if "0 \<le> n"
  proof -
    obtain y' r where yr: "year_loop 1970 n = (y', r)" by fastforce
    obtain m' r' where mr: "month_loop (month_days y') 1 r = (m', r')" by fastforce
    have "days_before_year 1970 = 0" by (simp add: days_before_year_def)
    with year_loop_correct[OF _ that yr] month_loop_correct[OF _ _ mr]
    show ?thesis by (auto simp: civil_date_def yr mr valid_date_def day_number_def sum_month_days)
  qed
  moreover have "civil_date (day_number (y, m, d)) = (y, m, d)" if v: "valid_date (y, m, d)"
  proof -
    let ?i = "nat (m - 1)" and ?md = "month_days y"
    from v have i: "?i < length ?md" and d: "0 \<le> d - 1" "d - 1 < ?md ! ?i" by (auto simp: valid_date_def)
    have "0 \<le> sum_list (take ?i ?md)"
      using month_days_nonneg[of y] by (intro sum_list_nonneg) (auto dest: in_set_takeD)
    moreover have "sum_list (take ?i ?md) + (d - 1) < days_in_year y"
    proof -
      have "sum_list ?md = sum_list (take ?i ?md) + (?md ! ?i + sum_list (drop (Suc ?i) ?md))"
        using i by (metis Cons_nth_drop_Suc append_take_drop_id sum_list.Cons sum_list_append)
      moreover have "0 \<le> sum_list (drop (Suc ?i) ?md)"
        using month_days_nonneg[of y] by (intro sum_list_nonneg) (auto dest: in_set_dropD)
      ultimately show ?thesis using d by (simp add: sum_month_days[symmetric])
    qed
    moreover have "1970 + int (nat (y - 1970)) = y" using v by (simp add: valid_date_def)
    ultimately have "year_loop 1970 (day_number (y, m, d)) = (y, sum_list (take ?i ?md) + (d - 1))"
      using year_loop_inverse[of "sum_list (take ?i ?md) + (d - 1)" 1970 "nat (y - 1970)"] d
      by (simp add: day_number_def days_before_year_def add.assoc)
    moreover have "month_loop ?md 1 (sum_list (take ?i ?md) + (d - 1)) = (m, d - 1)"
      using month_loop_inverse[OF i month_days_nonneg d, of 1] v by (simp add: valid_date_def)
    ultimately show ?thesis by (simp add: civil_date_def)
  qed
  ultimately show ?thesis by (auto simp: day_number_def valid_date_def days_before_year_closed)
qed

end
