(* ===== verification/Usage_Rollups.thy ===== *)
theory Usage_Rollups
  imports Usage_Events Utc_Dates Keyed_Tables
begin

text \<open>
  The additive rollup tables of \<open>busytok-store/src/write_queries.rs\<close>: the buckets of two seconds, an
  hour and a day, the four tables by dimension and day, and \<open>daily_usage\<close> by local date. Each is a
  list of rows under a primary key, and every event is one upsert per table that adds its counters to
  the row of its key. Addition of floats and the time zone database are parameters.
\<close>

section \<open>The rows\<close>

record ('k, 'x) rollup_row =
  rr_key :: 'k
  rr_extra :: 'x
  rr_input_tokens :: int
  rr_output_tokens :: int
  rr_total_tokens :: int
  rr_cost_usd :: "f64_bits option"
  rr_cost_status :: string
  rr_event_count :: int
  rr_created_at_ms :: int
  rr_updated_at_ms :: int

definition new_rollup :: "'k \<Rightarrow> 'x \<Rightarrow> int \<Rightarrow> usage_event \<Rightarrow> ('k, 'x) rollup_row" where
  "new_rollup key extra now e =
     \<lparr>rr_key = key, rr_extra = extra, rr_input_tokens = et_input_tokens (ue_tokens e),
      rr_output_tokens = et_output_tokens (ue_tokens e), rr_total_tokens = et_total_tokens (ue_tokens e),
      rr_cost_usd = ec_cost_usd (ue_cost e),
      rr_cost_status = (if ec_cost_usd (ue_cost e) \<noteq> None then ''exact'' else ''unavailable''),
      rr_event_count = 1, rr_created_at_ms = now, rr_updated_at_ms = now\<rparr>"

definition merge_cost :: "(f64_bits \<Rightarrow> f64_bits \<Rightarrow> f64_bits) \<Rightarrow> f64_bits option \<Rightarrow> f64_bits option \<Rightarrow> f64_bits option" where
  "merge_cost fadd old new =
     (case (old, new) of (Some a, Some b) \<Rightarrow> Some (fadd a b) | (Some a, None) \<Rightarrow> Some a | (None, b) \<Rightarrow> b)"

definition merge_status :: "string \<Rightarrow> string \<Rightarrow> string" where
  "merge_status old new =
     (if old = ''partial'' \<or> new = ''partial'' then ''partial''
      else if old = new then old
      else if old = ''unknown'' then new
      else if new = ''unknown'' then old
      else ''partial'')"

definition merge_rollup ::
  "(f64_bits \<Rightarrow> f64_bits \<Rightarrow> f64_bits) \<Rightarrow> ('x \<Rightarrow> 'x \<Rightarrow> 'x) \<Rightarrow> ('k, 'x) rollup_row \<Rightarrow> ('k, 'x) rollup_row \<Rightarrow> ('k, 'x) rollup_row" where
  "merge_rollup fadd merge_extra r x =
     r\<lparr>rr_extra := merge_extra (rr_extra r) (rr_extra x),
       rr_input_tokens := rr_input_tokens r + rr_input_tokens x,
       rr_output_tokens := rr_output_tokens r + rr_output_tokens x,
       rr_total_tokens := rr_total_tokens r + rr_total_tokens x,
       rr_cost_usd := merge_cost fadd (rr_cost_usd r) (rr_cost_usd x),
       rr_cost_status := merge_status (rr_cost_status r) (rr_cost_status x),
       rr_event_count := rr_event_count r + rr_event_count x,
       rr_updated_at_ms := rr_updated_at_ms x\<rparr>"

text \<open>The time of last activity, and the columns the session table coalesces.\<close>

definition merge_last_active :: "int option \<Rightarrow> int option \<Rightarrow> int option" where
  "merge_last_active old new = Some (max (unwrap_or 0 old) (unwrap_or 0 new))"

record session_columns =
  sx_client_kind :: "string option"
  sx_project_path :: "string option"
  sx_project_hash :: "string option"
  sx_model :: "string option"
  sx_last_active_at_ms :: "int option"

definition merge_session :: "session_columns \<Rightarrow> session_columns \<Rightarrow> session_columns" where
  "merge_session old new =
     \<lparr>sx_client_kind = coalesce (sx_client_kind new) (sx_client_kind old),
      sx_project_path = coalesce (sx_project_path new) (sx_project_path old),
      sx_project_hash = coalesce (sx_project_hash new) (sx_project_hash old),
      sx_model = coalesce (sx_model new) (sx_model old),
      sx_last_active_at_ms = merge_last_active (sx_last_active_at_ms old) (sx_last_active_at_ms new)\<rparr>"

definition merge_project :: "string option \<times> int option \<Rightarrow> string option \<times> int option \<Rightarrow> string option \<times> int option" where
  "merge_project old new = (coalesce (fst new) (fst old), merge_last_active (snd old) (snd new))"

text \<open>The counters of a row and of an event.\<close>

datatype bucket_counter = Input_Tokens | Output_Tokens | Total_Tokens | Event_Count

fun row_counter :: "bucket_counter \<Rightarrow> ('k, 'x) rollup_row \<Rightarrow> int" where
  "row_counter Input_Tokens r = rr_input_tokens r"
| "row_counter Output_Tokens r = rr_output_tokens r"
| "row_counter Total_Tokens r = rr_total_tokens r"
| "row_counter Event_Count r = rr_event_count r"

fun event_counter :: "bucket_counter \<Rightarrow> usage_event \<Rightarrow> int" where
  "event_counter Input_Tokens e = et_input_tokens (ue_tokens e)"
| "event_counter Output_Tokens e = et_output_tokens (ue_tokens e)"
| "event_counter Total_Tokens e = et_total_tokens (ue_tokens e)"
| "event_counter Event_Count e = 1"

lemma row_counter_new [simp]: "row_counter c (new_rollup k x now e) = event_counter c e"
  by (cases c) (simp_all add: new_rollup_def)

lemma rr_key_new [simp]: "rr_key (new_rollup k x now e) = k"
  by (simp add: new_rollup_def)

interpretation rollup: additive_table rr_key "merge_rollup fadd merge_extra" row_counter
  for fadd and merge_extra :: "'x \<Rightarrow> 'x \<Rightarrow> 'x"
proof
  fix c and r x :: "('k, 'x) rollup_row"
  show "row_counter c (merge_rollup fadd merge_extra r x) = row_counter c r + row_counter c x"
    by (cases c) (simp_all add: merge_rollup_def)
qed (simp add: merge_rollup_def)

text \<open>\<open>daily_usage\<close>: every counter of the event, by local date and time zone.\<close>

record daily_row =
  dr_key :: "string \<times> string \<times> string \<times> string \<times> string \<times> string"
  dr_tokens :: event_tokens
  dr_cost_usd :: "f64_bits option"
  dr_estimated_cost_usd :: "f64_bits option"
  dr_event_count :: int

definition merge_daily :: "(f64_bits \<Rightarrow> f64_bits \<Rightarrow> f64_bits) \<Rightarrow> daily_row \<Rightarrow> daily_row \<Rightarrow> daily_row" where
  "merge_daily fadd r x =
     r\<lparr>dr_tokens := add_tokens (dr_tokens r) (dr_tokens x),
       dr_cost_usd := merge_cost fadd (dr_cost_usd r) (dr_cost_usd x),
       dr_estimated_cost_usd := merge_cost fadd (dr_estimated_cost_usd r) (dr_estimated_cost_usd x),
       dr_event_count := dr_event_count r + dr_event_count x\<rparr>"

text \<open>A counter of \<open>daily_usage\<close>: a column of the tokens, or the number of events.\<close>

datatype token_column =
  Col_Input | Col_Output | Col_Total | Col_Cached | Col_Cache_Creation | Col_Cache_Read
  | Col_Reasoning | Col_Thoughts | Col_Tool

fun column_of :: "token_column \<Rightarrow> event_tokens \<Rightarrow> int" where
  "column_of Col_Input t = et_input_tokens t"
| "column_of Col_Output t = et_output_tokens t"
| "column_of Col_Total t = et_total_tokens t"
| "column_of Col_Cached t = et_cached_input_tokens t"
| "column_of Col_Cache_Creation t = et_cache_creation_tokens t"
| "column_of Col_Cache_Read t = et_cache_read_tokens t"
| "column_of Col_Reasoning t = et_reasoning_tokens t"
| "column_of Col_Thoughts t = et_thoughts_tokens t"
| "column_of Col_Tool t = et_tool_tokens t"

lemma column_add [simp]: "column_of c (add_tokens a b) = column_of c a + column_of c b"
  by (cases c) (simp_all add: map_tokens_def)

lemma column_zero [simp]: "column_of c zero_tokens = 0"
  by (cases c) (simp_all add: zero_tokens_def)

lemma column_sum [simp]: "column_of c (sum_tokens ts) = sum_list (map (column_of c) ts)"
  by (induction ts) simp_all

lemma tokens_eqI: "(\<And>c. column_of c a = column_of c b) \<Longrightarrow> a = b"
proof -
  assume *: "\<And>c. column_of c a = column_of c b"
  show "a = b"
    using *[of Col_Input] *[of Col_Output] *[of Col_Total] *[of Col_Cached] *[of Col_Cache_Creation]
      *[of Col_Cache_Read] *[of Col_Reasoning] *[of Col_Thoughts] *[of Col_Tool]
    by (cases a; cases b) simp
qed

fun daily_counter :: "token_column option \<Rightarrow> daily_row \<Rightarrow> int" where
  "daily_counter (Some c) r = column_of c (dr_tokens r)"
| "daily_counter None r = dr_event_count r"

fun daily_event_counter :: "token_column option \<Rightarrow> usage_event \<Rightarrow> int" where
  "daily_event_counter (Some c) e = column_of c (ue_tokens e)"
| "daily_event_counter None e = 1"

interpretation daily: additive_table dr_key "merge_daily fadd" daily_counter for fadd
proof
  fix c and r x :: daily_row
  show "daily_counter c (merge_daily fadd r x) = daily_counter c r + daily_counter c x"
    by (cases c) (simp_all add: merge_daily_def)
qed (simp add: merge_daily_def)

section \<open>The updates of a batch\<close>

type_synonym time_totals = "(string \<times> int \<times> string \<times> string, unit) rollup_row"
type_synonym project_totals = "(string \<times> string \<times> string \<times> string \<times> string, string option \<times> int option) rollup_row"
type_synonym model_totals = "(string \<times> string \<times> string \<times> string, int option) rollup_row"
type_synonym session_totals = "(string \<times> string \<times> string \<times> string, session_columns) rollup_row"
type_synonym client_totals = "(string \<times> string \<times> string \<times> string, int option) rollup_row"

record rollup_db =
  ro_buckets_2s :: "time_totals list"
  ro_buckets_hour :: "time_totals list"
  ro_buckets_day :: "time_totals list"
  ro_by_project_day :: "project_totals list"
  ro_by_model_day :: "model_totals list"
  ro_by_session_day :: "session_totals list"
  ro_by_client_day :: "client_totals list"
  ro_daily_usage :: "daily_row list"

definition event_model_name :: "usage_event \<Rightarrow> string" where
  "event_model_name e = unwrap_or [] (em_model (ue_model e))"

definition time_row :: "string \<Rightarrow> int \<Rightarrow> int \<Rightarrow> usage_event \<Rightarrow> time_totals" where
  "time_row g width now e =
     new_rollup (g, bucket_start width (ue_timestamp_ms e), agent_str (ue_agent e), event_model_name e) () now e"

definition project_row :: "string \<Rightarrow> int \<Rightarrow> usage_event \<Rightarrow> project_totals" where
  "project_row g now e =
     new_rollup
       (g, utc_date (ue_timestamp_ms e), unwrap_or [] (ep_project_hash (ue_project e)),
        agent_str (ue_agent e), event_model_name e)
       (ep_project_path (ue_project e), Some (ue_timestamp_ms e)) now e"

definition model_row :: "string \<Rightarrow> int \<Rightarrow> usage_event \<Rightarrow> model_totals" where
  "model_row g now e =
     new_rollup (g, utc_date (ue_timestamp_ms e), agent_str (ue_agent e), event_model_name e)
       (Some (ue_timestamp_ms e)) now e"

definition session_row :: "string \<Rightarrow> int \<Rightarrow> usage_event \<Rightarrow> session_totals" where
  "session_row g now e =
     new_rollup (g, utc_date (ue_timestamp_ms e), ue_session_id e, agent_str (ue_agent e))
       \<lparr>sx_client_kind = em_client_kind (ue_model e), sx_project_path = ep_project_path (ue_project e),
        sx_project_hash = ep_project_hash (ue_project e), sx_model = em_model (ue_model e),
        sx_last_active_at_ms = Some (ue_timestamp_ms e)\<rparr> now e"

definition client_row :: "string \<Rightarrow> int \<Rightarrow> usage_event \<Rightarrow> client_totals" where
  "client_row g now e =
     new_rollup (g, utc_date (ue_timestamp_ms e), unwrap_or [] (em_client_kind (ue_model e)), agent_str (ue_agent e))
       (Some (ue_timestamp_ms e)) now e"

text \<open>The first loop fills the buckets of time, the second the dimensions.\<close>

definition upsert_time_buckets ::
  "(f64_bits \<Rightarrow> f64_bits \<Rightarrow> f64_bits) \<Rightarrow> int \<Rightarrow> string \<Rightarrow> usage_event \<Rightarrow> rollup_db \<Rightarrow> rollup_db" where
  "upsert_time_buckets fadd now g e db =
     (let put = (\<lambda>width. upsert_row rr_key (merge_rollup fadd (\<lambda>_ _. ())) (time_row g width now e)) in
      db\<lparr>ro_buckets_2s := put 2000 (ro_buckets_2s db),
         ro_buckets_hour := put 3600000 (ro_buckets_hour db),
         ro_buckets_day := put 86400000 (ro_buckets_day db)\<rparr>)"

definition upsert_dimensions ::
  "(f64_bits \<Rightarrow> f64_bits \<Rightarrow> f64_bits) \<Rightarrow> int \<Rightarrow> string \<Rightarrow> usage_event \<Rightarrow> rollup_db \<Rightarrow> rollup_db" where
  "upsert_dimensions fadd now g e db =
     db\<lparr>ro_by_project_day :=
          upsert_row rr_key (merge_rollup fadd merge_project) (project_row g now e) (ro_by_project_day db),
        ro_by_model_day :=
          upsert_row rr_key (merge_rollup fadd merge_last_active) (model_row g now e) (ro_by_model_day db),
        ro_by_session_day :=
          upsert_row rr_key (merge_rollup fadd merge_session) (session_row g now e) (ro_by_session_day db),
        ro_by_client_day :=
          upsert_row rr_key (merge_rollup fadd merge_last_active) (client_row g now e) (ro_by_client_day db)\<rparr>"

definition update_materialized_aggregates_from_events ::
  "(f64_bits \<Rightarrow> f64_bits \<Rightarrow> f64_bits) \<Rightarrow> int \<Rightarrow> usage_event list \<Rightarrow> string \<Rightarrow> rollup_db \<Rightarrow> rollup_db" where
  "update_materialized_aggregates_from_events fadd now events g db =
     fold (upsert_dimensions fadd now g) events (fold (upsert_time_buckets fadd now g) events db)"

text \<open>The reporting time zone: its name, and the local date of a timestamp, which can fail.\<close>

record reporting_timezone =
  tz_canonical_name :: string
  tz_local_date :: "int \<Rightarrow> string option"

definition daily_row_of :: "reporting_timezone \<Rightarrow> string \<Rightarrow> string \<Rightarrow> usage_event \<Rightarrow> daily_row" where
  "daily_row_of tz g date e =
     \<lparr>dr_key = (date, tz_canonical_name tz, agent_str (ue_agent e), unwrap_or [] (ep_project_hash (ue_project e)),
                event_model_name e, g),
      dr_tokens = ue_tokens e, dr_cost_usd = ec_cost_usd (ue_cost e),
      dr_estimated_cost_usd = ec_estimated_cost_usd (ue_cost e), dr_event_count = 1\<rparr>"

fun upsert_daily_usage_for_events ::
  "(f64_bits \<Rightarrow> f64_bits \<Rightarrow> f64_bits) \<Rightarrow> usage_event list \<Rightarrow> reporting_timezone \<Rightarrow> string \<Rightarrow> daily_row list
   \<Rightarrow> string + daily_row list" where
  "upsert_daily_usage_for_events fadd [] tz g rows = Inr rows"
| "upsert_daily_usage_for_events fadd (e # events) tz g rows =
     (case tz_local_date tz (ue_timestamp_ms e) of
        None \<Rightarrow> Inl (''failed to compute date for event '' @ ue_id e)
      | Some date \<Rightarrow>
          upsert_daily_usage_for_events fadd events tz g
            (upsert_row dr_key (merge_daily fadd) (daily_row_of tz g date e) rows))"

text \<open>The variant for rows that are built already.\<close>

definition upsert_daily_usage_rows ::
  "(f64_bits \<Rightarrow> f64_bits \<Rightarrow> f64_bits) \<Rightarrow> daily_row list \<Rightarrow> daily_row list \<Rightarrow> daily_row list" where
  "upsert_daily_usage_rows fadd new rows = fold (upsert_row dr_key (merge_daily fadd)) new rows"

section \<open>The tables after a batch\<close>

lemma time_tables:
  "ro_buckets_2s (fold (upsert_time_buckets fadd now g) es db)
     = fold (upsert_row rr_key (merge_rollup fadd (\<lambda>_ _. ()))) (map (time_row g 2000 now) es) (ro_buckets_2s db)"
  "ro_buckets_hour (fold (upsert_time_buckets fadd now g) es db)
     = fold (upsert_row rr_key (merge_rollup fadd (\<lambda>_ _. ()))) (map (time_row g 3600000 now) es) (ro_buckets_hour db)"
  "ro_buckets_day (fold (upsert_time_buckets fadd now g) es db)
     = fold (upsert_row rr_key (merge_rollup fadd (\<lambda>_ _. ()))) (map (time_row g 86400000 now) es) (ro_buckets_day db)"
  by (induction es arbitrary: db) (simp_all add: upsert_time_buckets_def)

lemma time_tables_others:
  "ro_by_project_day (fold (upsert_time_buckets fadd now g) es db) = ro_by_project_day db"
  "ro_by_model_day (fold (upsert_time_buckets fadd now g) es db) = ro_by_model_day db"
  "ro_by_session_day (fold (upsert_time_buckets fadd now g) es db) = ro_by_session_day db"
  "ro_by_client_day (fold (upsert_time_buckets fadd now g) es db) = ro_by_client_day db"
  "ro_daily_usage (fold (upsert_time_buckets fadd now g) es db) = ro_daily_usage db"
  by (induction es arbitrary: db) (simp_all add: upsert_time_buckets_def)

lemma dimension_tables:
  "ro_by_project_day (fold (upsert_dimensions fadd now g) es db)
     = fold (upsert_row rr_key (merge_rollup fadd merge_project)) (map (project_row g now) es) (ro_by_project_day db)"
  "ro_by_model_day (fold (upsert_dimensions fadd now g) es db)
     = fold (upsert_row rr_key (merge_rollup fadd merge_last_active)) (map (model_row g now) es) (ro_by_model_day db)"
  "ro_by_session_day (fold (upsert_dimensions fadd now g) es db)
     = fold (upsert_row rr_key (merge_rollup fadd merge_session)) (map (session_row g now) es) (ro_by_session_day db)"
  "ro_by_client_day (fold (upsert_dimensions fadd now g) es db)
     = fold (upsert_row rr_key (merge_rollup fadd merge_last_active)) (map (client_row g now) es) (ro_by_client_day db)"
  by (induction es arbitrary: db) (simp_all add: upsert_dimensions_def)

lemma dimension_tables_others:
  "ro_buckets_2s (fold (upsert_dimensions fadd now g) es db) = ro_buckets_2s db"
  "ro_buckets_hour (fold (upsert_dimensions fadd now g) es db) = ro_buckets_hour db"
  "ro_buckets_day (fold (upsert_dimensions fadd now g) es db) = ro_buckets_day db"
  "ro_daily_usage (fold (upsert_dimensions fadd now g) es db) = ro_daily_usage db"
  by (induction es arbitrary: db) (simp_all add: upsert_dimensions_def)

lemmas aggregate_tables =
  time_tables time_tables_others dimension_tables dimension_tables_others

lemma ro_daily_usage_aggregates [simp]:
  "ro_daily_usage (update_materialized_aggregates_from_events fadd now es g db) = ro_daily_usage db"
  by (simp add: update_materialized_aggregates_from_events_def aggregate_tables)

text \<open>The daily table: the batch fails on the first event without a local date, otherwise it is a fold.\<close>

lemma daily_usage_result:
  "upsert_daily_usage_for_events fadd es tz g rows =
     (case find (\<lambda>e. tz_local_date tz (ue_timestamp_ms e) = None) es of
        Some e \<Rightarrow> Inl (''failed to compute date for event '' @ ue_id e)
      | None \<Rightarrow> Inr (upsert_daily_usage_rows fadd
                  (map (\<lambda>e. daily_row_of tz g (the (tz_local_date tz (ue_timestamp_ms e))) e) es) rows))"
  by (induction es arbitrary: rows) (auto simp: upsert_daily_usage_rows_def split: option.split)

text \<open>What a table gains from events whose key satisfies a predicate.\<close>

definition gain :: "(usage_event \<Rightarrow> 'k) \<Rightarrow> ('k \<Rightarrow> bool) \<Rightarrow> bucket_counter \<Rightarrow> usage_event list \<Rightarrow> int" where
  "gain key_of P c es = sum_list (map (event_counter c) (filter (\<lambda>e. P (key_of e)) es))"

lemma count_new_rows:
  assumes "\<And>e. row e = new_rollup (key_of e) (x e) now e"
  shows "count_rows rr_key row_counter P c (map row es) = gain key_of P c es"
  by (simp add: count_rows_map gain_def assms comp_def)

lemma rollup_table_exact:
  assumes "\<And>e. row e = new_rollup (key_of e) (x e) now e"
  shows "count_rows rr_key row_counter P c (fold (upsert_row rr_key (merge_rollup fadd mx)) (map row es) rows)
         = count_rows rr_key row_counter P c rows + gain key_of P c es"
  by (simp add: rollup.count_upserts count_new_rows[OF assms])

text \<open>
  Each of the seven tables is the exact sum, key by key. For every predicate on its primary
  key, and so for every single row, a batch adds to each counter what the events with such a key
  carry, the number of events included, and nothing else.
\<close>

theorem rollups_exact:
  "let db' = update_materialized_aggregates_from_events fadd now es g db;
       agent = (\<lambda>e. agent_str (ue_agent e)); day = (\<lambda>e. utc_date (ue_timestamp_ms e));
       bucket = (\<lambda>w e. (g, bucket_start w (ue_timestamp_ms e), agent e, event_model_name e))
   in count_rows rr_key row_counter P1 c (ro_buckets_2s db')
        = count_rows rr_key row_counter P1 c (ro_buckets_2s db) + gain (bucket 2000) P1 c es
    \<and> count_rows rr_key row_counter P1 c (ro_buckets_hour db')
        = count_rows rr_key row_counter P1 c (ro_buckets_hour db) + gain (bucket 3600000) P1 c es
    \<and> count_rows rr_key row_counter P1 c (ro_buckets_day db')
        = count_rows rr_key row_counter P1 c (ro_buckets_day db) + gain (bucket 86400000) P1 c es
    \<and> count_rows rr_key row_counter P2 c (ro_by_project_day db')
        = count_rows rr_key row_counter P2 c (ro_by_project_day db)
          + gain (\<lambda>e. (g, day e, unwrap_or [] (ep_project_hash (ue_project e)), agent e, event_model_name e)) P2 c es
    \<and> count_rows rr_key row_counter P3 c (ro_by_model_day db')
        = count_rows rr_key row_counter P3 c (ro_by_model_day db) + gain (\<lambda>e. (g, day e, agent e, event_model_name e)) P3 c es
    \<and> count_rows rr_key row_counter P3 c (ro_by_session_day db')
        = count_rows rr_key row_counter P3 c (ro_by_session_day db) + gain (\<lambda>e. (g, day e, ue_session_id e, agent e)) P3 c es
    \<and> count_rows rr_key row_counter P3 c (ro_by_client_day db')
        = count_rows rr_key row_counter P3 c (ro_by_client_day db)
          + gain (\<lambda>e. (g, day e, unwrap_or [] (em_client_kind (ue_model e)), agent e)) P3 c es"
  unfolding Let_def update_materialized_aggregates_from_events_def aggregate_tables
  by (intro conjI rollup_table_exact)
    (rule time_row_def project_row_def model_row_def session_row_def client_row_def)+

end
