(* ===== verification/Generations.thy ===== *)
theory Generations
  imports Service_Status Usage_Rollups Step_Machines
begin

text \<open>
  Generations and readiness: the durable state and its queries (\<open>generation_queries.rs\<close>,
  \<open>generation_commands.rs\<close> and the generation part of \<open>write_queries.rs\<close>), the rebuild with its
  replay queue and promotion barrier (\<open>busytok-runtime/src/rebuild.rs\<close>), and the manager that keeps
  the status snapshot in step (\<open>generation_manager.rs\<close>). A clock reading is an argument.
\<close>

section \<open>The durable state\<close>

record service_state_row =
  sv_writer_queue_depth :: int
  sv_aggregate_lag_ms :: int
  sv_readiness :: "string option"
  sv_active_generation_id :: "string option"
  sv_last_exact_rebuild_at_ms :: "int option"
  sv_updated_at_ms :: int

record generation_row =
  gn_generation_id :: string
  gn_state :: string
  gn_started_at_ms :: int
  gn_promoted_at_ms :: "int option"
  gn_is_active :: bool
  gn_created_at_ms :: int
  gn_updated_at_ms :: int

record observation_row =
  go_generation_id :: string
  go_source_file_id :: string
  go_observed_at_ms :: int
  go_offset_bytes :: int
  go_size_bytes :: int
  go_last_mtime_ms :: "int option"
  go_scan_status :: "string option"
  go_scan_errors :: "string option"

record replay_row =
  rq_id :: int
  rq_source_file_id :: string
  rq_event_seq :: int
  rq_event_data_json :: string
  rq_attempts :: int
  rq_last_attempt_at_ms :: "int option"
  rq_status :: string
  rq_created_at_ms :: int
  rq_updated_at_ms :: int

record generation_db =
  gd_service :: "service_state_row option"
  gd_generations :: "generation_row list"
  gd_observations :: "observation_row list"
  gd_replay :: "replay_row list"
  gd_usage :: usage_db
  gd_sources :: source_db
  gd_rollups :: rollup_db
  gd_sequence :: outbox_db

section \<open>Queries\<close>

text \<open>SQL's \<open>TRIM\<close> strips spaces; Rust's \<open>trim\<close> is a parameter.\<close>

definition sql_trim :: "string \<Rightarrow> string" where
  "sql_trim s = trim_end_char (CHR 0x20) (dropWhile (\<lambda>c. c = CHR 0x20) s)"

definition promoted_active :: "generation_row \<Rightarrow> bool" where
  "promoted_active r = (gn_state r = ''promoted'' \<and> gn_is_active r)"

definition generation_is_promoted_active :: "generation_db \<Rightarrow> string \<Rightarrow> bool" where
  "generation_is_promoted_active db g =
     (0 < count_where (\<lambda>r. gn_generation_id r = g \<and> promoted_active r) (gd_generations db))"

definition promotion_time :: "generation_row \<Rightarrow> int" where
  "promotion_time r = unwrap_or (gn_updated_at_ms r) (gn_promoted_at_ms r)"

definition read_active_generation :: "(string \<Rightarrow> string) \<Rightarrow> generation_db \<Rightarrow> string option" where
  "read_active_generation trim db =
     (let service_gen = (case Option.bind (gd_service db) sv_active_generation_id of
                           Some i \<Rightarrow> if trim i = [] then None else Some i
                         | None \<Rightarrow> None);
          newest = (case sort_by (\<lambda>a b. promotion_time b \<le> promotion_time a)
                           (filter promoted_active (gd_generations db)) of
                      [] \<Rightarrow> None | r # _ \<Rightarrow> Some (gn_generation_id r))
      in case service_gen of
           Some g \<Rightarrow> if generation_is_promoted_active db g then Some g else newest
         | None \<Rightarrow> newest)"

definition generation_has_usage_events :: "generation_db \<Rightarrow> string \<Rightarrow> bool" where
  "generation_has_usage_events db g =
     (0 < count_where (\<lambda>r. ur_generation_id r = g) (ud_usage_events (gd_usage db)))"

definition generation_has_materialized_read_rows :: "generation_db \<Rightarrow> string \<Rightarrow> bool" where
  "generation_has_materialized_read_rows db g =
     (let ro = gd_rollups db in
      list_ex (\<lambda>r. fst (rr_key r) = g) (ro_buckets_2s ro)
      \<or> list_ex (\<lambda>r. fst (rr_key r) = g) (ro_buckets_hour ro)
      \<or> list_ex (\<lambda>r. fst (rr_key r) = g) (ro_buckets_day ro)
      \<or> list_ex (\<lambda>r. fst (rr_key r) = g) (ro_by_project_day ro)
      \<or> list_ex (\<lambda>r. fst (rr_key r) = g) (ro_by_model_day ro)
      \<or> list_ex (\<lambda>r. fst (rr_key r) = g) (ro_by_session_day ro)
      \<or> list_ex (\<lambda>r. fst (rr_key r) = g) (ro_by_client_day ro)
      \<or> list_ex (\<lambda>x. sh_generation_id x = g) (sd_summaries (gd_sources db)))"

definition service_state_is_ready_exact_for_generation :: "generation_db \<Rightarrow> string \<Rightarrow> bool" where
  "service_state_is_ready_exact_for_generation db g =
     (case gd_service db of
        None \<Rightarrow> False
      | Some s \<Rightarrow> sv_readiness s = Some ''ready_exact'' \<and> sv_active_generation_id s = Some g)"

definition has_blocking_degradation_diagnostic :: "generation_db \<Rightarrow> bool" where
  "has_blocking_degradation_diagnostic db =
     (0 < count_where (\<lambda>d. de_severity d = ''error''
                          \<and> (de_category d = ''generation_drift'' \<or> de_category d = ''promotion_failed''))
            (ud_diagnostic_events (gd_usage db)))"

text \<open>The writer's view of the active generation: \<open>service_state\<close> first, whatever its state.\<close>

definition null_le :: "int option \<Rightarrow> int option \<Rightarrow> bool" where
  "null_le a b = (case (a, b) of (None, _) \<Rightarrow> True | (Some x, Some y) \<Rightarrow> x \<le> y | _ \<Rightarrow> False)"

definition current_active_generation_id :: "generation_db \<Rightarrow> string option" where
  "current_active_generation_id db =
     (case Option.bind (gd_service db) sv_active_generation_id of
        Some (c # cs) \<Rightarrow> Some (c # cs)
      | _ \<Rightarrow>
          (case sort_by (\<lambda>a b. if gn_promoted_at_ms a = gn_promoted_at_ms b
                               then gn_updated_at_ms b \<le> gn_updated_at_ms a
                               else null_le (gn_promoted_at_ms b) (gn_promoted_at_ms a))
                  (filter gn_is_active (gd_generations db)) of
             [] \<Rightarrow> None | r # _ \<Rightarrow> Some (gn_generation_id r)))"

section \<open>Readiness commands\<close>

definition upsert_service ::
  "service_state_row \<Rightarrow> (service_state_row \<Rightarrow> service_state_row) \<Rightarrow> generation_db \<Rightarrow> generation_db" where
  "upsert_service fresh change db =
     db\<lparr>gd_service := Some (case gd_service db of None \<Rightarrow> fresh | Some s \<Rightarrow> change s)\<rparr>"

definition new_service :: "int \<Rightarrow> string option \<Rightarrow> string option \<Rightarrow> int option \<Rightarrow> service_state_row" where
  "new_service now readiness gen exact =
     \<lparr>sv_writer_queue_depth = 0, sv_aggregate_lag_ms = 0, sv_readiness = readiness,
      sv_active_generation_id = gen, sv_last_exact_rebuild_at_ms = exact, sv_updated_at_ms = now\<rparr>"

definition persist_ready_exact_for_generation :: "int \<Rightarrow> string \<Rightarrow> generation_db \<Rightarrow> generation_db" where
  "persist_ready_exact_for_generation now g =
     upsert_service (new_service now (Some ''ready_exact'') (Some g) (Some now))
       (\<lambda>s. s\<lparr>sv_readiness := Some ''ready_exact'', sv_active_generation_id := Some g,
              sv_last_exact_rebuild_at_ms := Some now, sv_updated_at_ms := now\<rparr>)"

definition persist_ready_degraded_for_generation :: "int \<Rightarrow> string \<Rightarrow> generation_db \<Rightarrow> generation_db" where
  "persist_ready_degraded_for_generation now g =
     upsert_service (new_service now (Some ''ready_degraded'') (Some g) None)
       (\<lambda>s. s\<lparr>sv_readiness := Some ''ready_degraded'', sv_active_generation_id := Some g,
              sv_last_exact_rebuild_at_ms := None, sv_updated_at_ms := now\<rparr>)"

text \<open>
  The compare-and-swap: \<open>NULL IN ('starting', 'ready_degraded')\<close> is not true, so a row without a
  readiness keeps its columns.
\<close>

definition transition_readiness :: "int \<Rightarrow> string \<Rightarrow> string \<Rightarrow> generation_db \<Rightarrow> bool \<times> generation_db" where
  "transition_readiness now target g db =
     (if target = ''ready_exact'' \<and> \<not> generation_is_promoted_active db g then (False, db)
      else let allowed = (\<lambda>s. (sv_readiness s = Some ''starting'' \<or> sv_readiness s = Some ''ready_degraded'')
                             \<and> (target \<noteq> ''ready_exact'' \<or> generation_is_promoted_active db g));
               db' = upsert_service (new_service now (Some target) (Some g) None)
                       (\<lambda>s. if allowed s
                            then s\<lparr>sv_readiness := Some target, sv_active_generation_id := Some g,
                                   sv_updated_at_ms := now\<rparr>
                            else s) db
           in (case gd_service db' of
                 None \<Rightarrow> False
               | Some s \<Rightarrow> sv_readiness s = Some target \<and> sv_active_generation_id s = Some g, db'))"

definition checkpoint_writer_metrics :: "int \<Rightarrow> int \<Rightarrow> int \<Rightarrow> generation_db \<Rightarrow> generation_db" where
  "checkpoint_writer_metrics now queue_depth lag_ms =
     upsert_service ((new_service now None None None)\<lparr>sv_writer_queue_depth := queue_depth, sv_aggregate_lag_ms := lag_ms\<rparr>)
       (\<lambda>s. s\<lparr>sv_writer_queue_depth := queue_depth, sv_aggregate_lag_ms := lag_ms, sv_updated_at_ms := now\<rparr>)"

section \<open>Recovery of missing generation metadata\<close>

record recovery_result =
  gr_generation_id :: string
  gr_repaired :: bool
  gr_ready_exact :: bool

definition deactivate_all :: "int \<Rightarrow> generation_row list \<Rightarrow> generation_row list" where
  "deactivate_all now = map (\<lambda>r. r\<lparr>gn_is_active := False, gn_updated_at_ms := now\<rparr>)"

definition merge_promoted :: "int \<Rightarrow> generation_row \<Rightarrow> generation_row \<Rightarrow> generation_row" where
  "merge_promoted now old new =
     old\<lparr>gn_state := ''promoted'', gn_promoted_at_ms := Some now, gn_is_active := True, gn_updated_at_ms := now\<rparr>"

interpretation gens: keyed_table gn_generation_id "merge_promoted now" for now
  by unfold_locales (simp add: merge_promoted_def)

definition promote_row :: "int \<Rightarrow> string \<Rightarrow> generation_row list \<Rightarrow> generation_row list" where
  "promote_row now g rows =
     upsert_row gn_generation_id (merge_promoted now)
       \<lparr>gn_generation_id = g, gn_state = ''promoted'', gn_started_at_ms = now, gn_promoted_at_ms = Some now,
        gn_is_active = True, gn_created_at_ms = now, gn_updated_at_ms = now\<rparr> rows"

definition adopt_row :: "int \<Rightarrow> string \<Rightarrow> usage_table_row \<Rightarrow> usage_table_row" where
  "adopt_row now g r =
     (let key = (let k = sql_trim (ur_dedupe_key r) in if k = [] then row_id r else k) in
      r\<lparr>ur_generation_id := g, ur_dedupe_key := key,
        ur_event := (ur_event r)\<lparr>ue_dedupe_key := Some key, ue_updated_at_ms := now\<rparr>\<rparr>)"

definition all_usage_events :: "usage_table_row list \<Rightarrow> usage_event list" where
  "all_usage_events rows = sort_by (\<lambda>a b. ue_timestamp_ms a \<le> ue_timestamp_ms b) (map ur_event rows)"

definition clear_rollups :: "rollup_db \<Rightarrow> rollup_db" where
  "clear_rollups ro =
     ro\<lparr>ro_buckets_2s := [], ro_buckets_hour := [], ro_buckets_day := [], ro_by_project_day := [],
        ro_by_model_day := [], ro_by_session_day := [], ro_by_client_day := []\<rparr>"

definition daily_generation :: "daily_row \<Rightarrow> string" where
  "daily_generation r = (case dr_key r of (_, _, _, _, _, g) \<Rightarrow> g)"

text \<open>
  Rows written before generations existed have no generation: NULL, here the empty string. The
  first transaction adopts them, the second rebuilds the aggregates; a failure of the second
  leaves the first committed.
\<close>

definition adopt_events :: "int \<Rightarrow> string \<Rightarrow> generation_db \<Rightarrow> string + generation_db" where
  "adopt_events now g db =
     (let rows = map (adopt_row now g) (ud_usage_events (gd_usage db)) in
      if \<not> distinct (map dedupe_pair rows) then Inl ''failed to backfill usage event generation metadata''
      else Inr (db\<lparr>gd_usage := (gd_usage db)\<lparr>ud_usage_events := rows\<rparr>,
                   gd_generations := promote_row now g (deactivate_all now (gd_generations db))\<rparr>))"

definition rebuild_recovered ::
  "(f64_bits \<Rightarrow> f64_bits \<Rightarrow> f64_bits) \<Rightarrow> reporting_timezone option \<Rightarrow> int \<Rightarrow> string \<Rightarrow> generation_db
   \<Rightarrow> string + generation_db" where
  "rebuild_recovered fadd rtz now g db =
     (let events = all_usage_events (ud_usage_events (gd_usage db));
          ro = update_materialized_aggregates_from_events fadd now events g (clear_rollups (gd_rollups db));
          kept = filter (\<lambda>r. daily_generation r \<noteq> g) (ro_daily_usage ro)
      in case rtz of
           None \<Rightarrow> Inl ''failed to parse timezone for daily_usage recovery rebuild''
         | Some tz \<Rightarrow>
             (case upsert_daily_usage_for_events fadd events tz g kept of
                Inl e \<Rightarrow> Inl ''failed to rebuild daily_usage for recovered generation''
              | Inr daily \<Rightarrow>
                  Inr (persist_ready_exact_for_generation now g
                         (db\<lparr>gd_rollups := ro\<lparr>ro_daily_usage := daily\<rparr>\<rparr>))))"

definition bootstrap_id :: "int \<Rightarrow> string" where
  "bootstrap_id id_now = ''gen-bootstrap-'' @ show_int id_now"

definition recover_missing_generation_metadata ::
  "(string \<Rightarrow> string) \<Rightarrow> (f64_bits \<Rightarrow> f64_bits \<Rightarrow> f64_bits) \<Rightarrow> reporting_timezone option \<Rightarrow> int \<Rightarrow> int
   \<Rightarrow> generation_db \<Rightarrow> (string + recovery_result option) \<times> generation_db" where
  "recover_missing_generation_metadata trim fadd rtz id_now now db =
     (case read_active_generation trim db of
        Some active \<Rightarrow>
          if generation_has_usage_events db active \<and> \<not> generation_has_materialized_read_rows db active
          then (Inr (Some \<lparr>gr_generation_id = active, gr_repaired = False, gr_ready_exact = False\<rparr>),
                persist_ready_degraded_for_generation now active db)
          else let repaired = \<not> service_state_is_ready_exact_for_generation db active in
               if repaired \<and> has_blocking_degradation_diagnostic db
               then (Inr (Some \<lparr>gr_generation_id = active, gr_repaired = False, gr_ready_exact = False\<rparr>), db)
               else (Inr (Some \<lparr>gr_generation_id = active, gr_repaired = repaired, gr_ready_exact = True\<rparr>),
                     if repaired then persist_ready_exact_for_generation now active db else db)
      | None \<Rightarrow>
          if gd_generations db \<noteq> [] then (Inr None, db)
          else if 0 < count_where (\<lambda>r. sql_trim (ur_generation_id r) \<noteq> []) (ud_usage_events (gd_usage db))
          then (Inr None, db)
          else if ud_usage_events (gd_usage db) = [] then (Inr None, db)
          else let g = bootstrap_id id_now in
               case adopt_events now g db of
                 Inl e \<Rightarrow> (Inl e, db)
               | Inr db \<Rightarrow>
                   (case rebuild_recovered fadd rtz now g db of
                      Inl e \<Rightarrow> (Inl e, db)
                    | Inr db \<Rightarrow>
                        (Inr (Some \<lparr>gr_generation_id = g, gr_repaired = True, gr_ready_exact = True\<rparr>), db)))"

section \<open>The rebuild: generation, frontiers, observations\<close>

record rebuild_frontier =
  rf_source_file_id :: string
  rf_source_id :: string
  rf_agent :: string
  rf_path :: string
  rf_offset_bytes :: int
  rf_size_bytes :: int
  rf_last_mtime_ms :: "int option"

record frontier_set =
  fs_generation_id :: string
  fs_frontiers :: "rebuild_frontier list"
  fs_captured_at_ms :: int

definition frontier_of :: "file_row \<Rightarrow> rebuild_frontier" where
  "frontier_of f =
     \<lparr>rf_source_file_id = fr_id f, rf_source_id = fr_source_id f, rf_agent = fr_agent f, rf_path = fr_path f,
      rf_offset_bytes = fr_offset_bytes f, rf_size_bytes = fr_size_bytes f, rf_last_mtime_ms = fr_last_mtime_ms f\<rparr>"

definition capture_frontiers :: "int \<Rightarrow> string \<Rightarrow> generation_db \<Rightarrow> frontier_set" where
  "capture_frontiers now g db =
     \<lparr>fs_generation_id = g,
      fs_frontiers = map frontier_of (filter (\<lambda>f. fr_state f = ''active'') (sd_checkpoints (gd_sources db))),
      fs_captured_at_ms = now\<rparr>"

text \<open>\<open>INSERT OR REPLACE\<close>: the row with the same key goes, the new one is appended.\<close>

definition insert_generation_observation ::
  "int \<Rightarrow> string \<Rightarrow> string \<Rightarrow> int \<Rightarrow> int \<Rightarrow> int option \<Rightarrow> string option \<Rightarrow> string option
   \<Rightarrow> generation_db \<Rightarrow> generation_db" where
  "insert_generation_observation now g file_id offset bytes mtime scan_status scan_errors db =
     db\<lparr>gd_observations :=
          filter (\<lambda>x. \<not> (go_generation_id x = g \<and> go_source_file_id x = file_id)) (gd_observations db)
          @ [\<lparr>go_generation_id = g, go_source_file_id = file_id, go_observed_at_ms = now, go_offset_bytes = offset,
              go_size_bytes = bytes, go_last_mtime_ms = mtime, go_scan_status = scan_status,
              go_scan_errors = scan_errors\<rparr>]\<rparr>"

definition persist_frontiers :: "int \<Rightarrow> frontier_set \<Rightarrow> generation_db \<Rightarrow> generation_db" where
  "persist_frontiers now fs =
     fold (\<lambda>f. insert_generation_observation now (fs_generation_id fs) (rf_source_file_id f) (rf_offset_bytes f)
                  (rf_size_bytes f) (rf_last_mtime_ms f) (Some ''ok'') None) (fs_frontiers fs)"

definition create_generation :: "int \<Rightarrow> string \<Rightarrow> generation_db \<Rightarrow> generation_db" where
  "create_generation now g db =
     db\<lparr>gd_generations :=
          filter (\<lambda>r. gn_generation_id r \<noteq> g) (gd_generations db)
          @ [\<lparr>gn_generation_id = g, gn_state = ''building'', gn_started_at_ms = now, gn_promoted_at_ms = None,
              gn_is_active = False, gn_created_at_ms = now, gn_updated_at_ms = now\<rparr>]\<rparr>"

definition initiate_rebuild :: "int \<Rightarrow> string \<Rightarrow> generation_db \<Rightarrow> frontier_set \<times> generation_db" where
  "initiate_rebuild now g db =
     (let db = create_generation now g db; fs = capture_frontiers now g db
      in (fs, persist_frontiers now fs db))"

definition record_new_file_observation ::
  "int \<Rightarrow> string \<Rightarrow> string \<Rightarrow> string \<Rightarrow> string \<Rightarrow> string \<Rightarrow> int \<Rightarrow> int \<Rightarrow> int option \<Rightarrow> generation_db \<Rightarrow> generation_db" where
  "record_new_file_observation now g file_id source_id agent path offset bytes mtime db =
     (let f = new_file_row now file_id source_id agent path None offset bytes mtime ''active'' None;
          sd = gd_sources db;
          sd = sd\<lparr>sd_checkpoints := upsert_source_file_checkpoint f (sd_checkpoints sd),
                  sd_log_files := upsert_log_file_checkpoint f (sd_log_files sd)\<rparr>
      in insert_generation_observation now g file_id offset bytes mtime (Some ''new_file'') None
           (db\<lparr>gd_sources := sd\<rparr>))"

definition record_new_file_during_rebuild :: "int \<Rightarrow> string \<Rightarrow> rebuild_frontier \<Rightarrow> generation_db \<Rightarrow> generation_db" where
  "record_new_file_during_rebuild now g f =
     record_new_file_observation now g (rf_source_file_id f) (rf_source_id f) (rf_agent f) (rf_path f)
       (rf_offset_bytes f) (rf_size_bytes f) (rf_last_mtime_ms f)"

definition rebuild_diagnostic :: "int \<Rightarrow> string \<Rightarrow> string \<Rightarrow> string \<Rightarrow> string \<Rightarrow> diagnostic_event" where
  "rebuild_diagnostic now i severity code message =
     \<lparr>de_id = i, de_agent = None, de_source_id = Some ''rebuild'', de_source_file_id = None,
      de_source_path = None, de_source_line = None, de_category = code, de_severity = severity,
      de_message = message, de_detail_json = None, de_happened_at_ms = now, de_created_at_ms = now\<rparr>"

definition put_diagnostic :: "diagnostic_event \<Rightarrow> generation_db \<Rightarrow> generation_db" where
  "put_diagnostic d db =
     db\<lparr>gd_usage := (gd_usage db)\<lparr>ud_diagnostic_events := upsert_diagnostic_event d (ud_diagnostic_events (gd_usage db))\<rparr>\<rparr>"

definition record_rebuild_diagnostic :: "int \<Rightarrow> string \<Rightarrow> string \<Rightarrow> string \<Rightarrow> generation_db \<Rightarrow> generation_db" where
  "record_rebuild_diagnostic now g severity message =
     put_diagnostic (rebuild_diagnostic now (''rebuild-'' @ g @ ''-'' @ severity @ ''-'' @ show_int now)
       severity ''rebuild_lifecycle'' message)"

section \<open>The replay queue\<close>

record replay_enqueue =
  re_source_file_id :: string
  re_event_seq :: int
  re_event_data_json :: string

definition enqueue_tail_replay_row :: "int \<Rightarrow> replay_enqueue \<Rightarrow> replay_row list \<Rightarrow> replay_row list" where
  "enqueue_tail_replay_row now x rows =
     rows @ [\<lparr>rq_id = (if rows = [] then 1 else Max (set (map rq_id rows)) + 1),
              rq_source_file_id = re_source_file_id x, rq_event_seq = re_event_seq x,
              rq_event_data_json = re_event_data_json x, rq_attempts = 0, rq_last_attempt_at_ms = None,
              rq_status = ''pending'', rq_created_at_ms = now, rq_updated_at_ms = now\<rparr>]"

definition enqueue_tail_replay_rows :: "int \<Rightarrow> replay_enqueue list \<Rightarrow> generation_db \<Rightarrow> generation_db" where
  "enqueue_tail_replay_rows now xs db =
     db\<lparr>gd_replay := fold (enqueue_tail_replay_row now) xs (gd_replay db)\<rparr>"

text \<open>
  The fields of a replayed event with their defaults; \<open>as_i64\<close> is an integer in range, and
  \<open>as_f64\<close> converts integers (a parameter).
\<close>

fun as_i64 :: "json \<Rightarrow> int option" where
  "as_i64 (J_Int i) = checked_i64 i"
| "as_i64 _ = None"

fun as_f64 :: "(int \<Rightarrow> f64_bits) \<Rightarrow> json \<Rightarrow> f64_bits option" where
  "as_f64 of_i (J_Int i) = Some (of_i i)"
| "as_f64 of_i (J_Real x) = Some x"
| "as_f64 of_i _ = None"

definition field_str :: "json \<Rightarrow> string \<Rightarrow> string option" where
  "field_str v k = Option.bind (json_get k v) as_str"

definition field_int :: "json \<Rightarrow> string \<Rightarrow> int option" where
  "field_int v k = Option.bind (json_get k v) as_i64"

definition replay_id :: "json \<Rightarrow> string" where
  "replay_id v = unwrap_or ''replay-unknown'' (field_str v ''id'')"

text \<open>An agent's name is read back as Claude Code unless it is Codex's; \<open>as u64\<close> wraps.\<close>

definition read_agent :: "string \<Rightarrow> agent_kind" where
  "read_agent s = (if s = ''codex'' then Codex else ClaudeCode)"

definition as_u64 :: "int \<Rightarrow> nat" where
  "as_u64 i = nat (i mod 2 ^ 64)"

definition replay_event :: "(int \<Rightarrow> f64_bits) \<Rightarrow> json \<Rightarrow> usage_event" where
  "replay_event of_i v =
     (let str = (\<lambda>k. unwrap_or [] (field_str v k)); num = (\<lambda>k. unwrap_or 0 (field_int v k));
          real = (\<lambda>k. Option.bind (json_get k v) (as_f64 of_i)) in
      \<lparr>ue_id = replay_id v, ue_agent = read_agent (unwrap_or ''claude_code'' (field_str v ''agent'')),
       ue_source = \<lparr>es_file_id = str ''source_file_id'', es_path = str ''source_path'',
                    es_line = as_u64 (num ''source_line''),
                    es_offset_start = as_u64 (num ''source_offset_start''),
                    es_offset_end = as_u64 (num ''source_offset_end'')\<rparr>,
       ue_session_id = str ''session_id'', ue_turn_id = Some (str ''turn_id''),
       ue_source_request_id = Some (str ''source_request_id''), ue_message_id = Some (str ''message_id''),
       ue_timestamp_ms = num ''timestamp_ms'',
       ue_project = \<lparr>ep_project_path = Some (str ''project_path''), ep_project_hash = Some (str ''project_hash''),
                     ep_cwd = Some (str ''cwd'')\<rparr>,
       ue_model = \<lparr>em_model = Some (str ''model''), em_model_provider = Some (str ''model_provider''),
                   em_agent_version = Some (str ''agent_version''), em_client_kind = Some (str ''client_kind''),
                   em_speed = field_str v ''speed''\<rparr>,
       ue_tokens = \<lparr>et_input_tokens = num ''input_tokens'', et_output_tokens = num ''output_tokens'',
                    et_total_tokens = num ''total_tokens'', et_cached_input_tokens = num ''cached_input_tokens'',
                    et_cache_creation_tokens = num ''cache_creation_tokens'',
                    et_cache_read_tokens = num ''cache_read_tokens'', et_reasoning_tokens = num ''reasoning_tokens'',
                    et_thoughts_tokens = num ''thoughts_tokens'', et_tool_tokens = num ''tool_tokens''\<rparr>,
       ue_shape = shape_parse (unwrap_or ''codex'' (field_str v ''provider_payload_shape'')),
       ue_prompt_input_total_tokens = num ''prompt_input_total_tokens'',
       ue_prompt_input_non_cached_tokens = num ''prompt_input_non_cached_tokens'',
       ue_cost = \<lparr>ec_cost_usd = real ''cost_usd'', ec_estimated_cost_usd = real ''estimated_cost_usd'',
                  ec_cost_currency = Some (unwrap_or ''USD'' (field_str v ''cost_currency'')),
                  ec_cost_source = Some (unwrap_or ''unknown'' (field_str v ''cost_source'')),
                  ec_price_catalog_version = Some (str ''price_catalog_version'')\<rparr>,
       ue_is_error = (num ''is_error'' \<noteq> 0), ue_error_type = field_str v ''error_type'',
       ue_usage_limit_reset_time_ms = field_int v ''usage_limit_reset_time_ms'',
       ue_raw_event_hash = str ''raw_event_hash'', ue_is_sidechain = False,
       ue_dedupe_key = Some (str ''id''), ue_created_at_ms = num ''created_at_ms'',
       ue_updated_at_ms = num ''updated_at_ms''\<rparr>)"

text \<open>The diagnostic of a replayed row names the agent only when its name parses.\<close>

definition sync_replay_diagnostic :: "int \<Rightarrow> json \<Rightarrow> usage_event \<Rightarrow> diagnostic_event list \<Rightarrow> diagnostic_event list" where
  "sync_replay_diagnostic now v e ds =
     (if invariant_holds (event_metrics e) then delete_diagnostic_by_id (violation_id (ue_id e)) ds
      else upsert_diagnostic_event
             ((violation_diagnostic now e)\<lparr>
                de_agent := Option.bind (field_str v ''agent'')
                              (\<lambda>s. case agent_parse s of Inl _ \<Rightarrow> None | Inr a \<Rightarrow> Some a),
                de_source_line := Some (unwrap_or 0 (field_int v ''source_line''))\<rparr>) ds)"

record replay_lib =
  rl_parse :: "string \<Rightarrow> json option"
  rl_f64_of_int :: "int \<Rightarrow> f64_bits"

definition apply_single_replay ::
  "replay_lib \<Rightarrow> int \<Rightarrow> string \<Rightarrow> string \<Rightarrow> usage_db \<Rightarrow> string + (nat \<times> usage_db)" where
  "apply_single_replay l now g data db =
     (case rl_parse l data of
        None \<Rightarrow> Inl ''failed to parse replay event JSON''
      | Some v \<Rightarrow>
          (let e = replay_event (rl_f64_of_int l) v;
               (rows, changes) = insert_ignore e g (unwrap_or [] (field_str v ''id'')) (ud_usage_events db)
           in Inr (changes,
                   \<lparr>ud_usage_events = rows,
                    ud_diagnostic_events =
                      (if 0 < changes then sync_replay_diagnostic now v e (ud_diagnostic_events db)
                       else ud_diagnostic_events db)\<rparr>)))"

fun apply_replays ::
  "replay_lib \<Rightarrow> int \<Rightarrow> string \<Rightarrow> replay_row list \<Rightarrow> nat \<Rightarrow> usage_db \<Rightarrow> string + (nat \<times> usage_db)" where
  "apply_replays l now g [] applied db = Inr (applied, db)"
| "apply_replays l now g (r # rows) applied db =
     (case apply_single_replay l now g (rq_event_data_json r) db of
        Inl e \<Rightarrow> Inl e
      | Inr (n, db) \<Rightarrow> apply_replays l now g rows (applied + n) db)"

definition pending :: "replay_row \<Rightarrow> bool" where
  "pending r = (rq_status r = ''pending'')"

definition pending_batch :: "string option \<Rightarrow> int \<Rightarrow> replay_row list \<Rightarrow> replay_row list" where
  "pending_batch file limit rows =
     sql_limit limit (sort_by (\<lambda>a b. rq_event_seq a \<le> rq_event_seq b)
       (filter (\<lambda>r. pending r \<and> (case file of None \<Rightarrow> True | Some f \<Rightarrow> rq_source_file_id r = f)) rows))"

definition mark_applied :: "int \<Rightarrow> replay_row list \<Rightarrow> replay_row list \<Rightarrow> replay_row list" where
  "mark_applied now batch =
     upd_where (\<lambda>r. rq_id r \<in> set (map rq_id batch))
       (\<lambda>r. r\<lparr>rq_status := ''applied'', rq_attempts := rq_attempts r + 1, rq_last_attempt_at_ms := Some now,
              rq_updated_at_ms := now\<rparr>)"

text \<open>One transaction: an event that does not parse rolls the whole batch back.\<close>

definition apply_replay_rows_to_target_generation ::
  "replay_lib \<Rightarrow> int \<Rightarrow> string \<Rightarrow> string option \<Rightarrow> int \<Rightarrow> generation_db \<Rightarrow> string + (nat \<times> generation_db)" where
  "apply_replay_rows_to_target_generation l now g file limit db =
     (let batch = pending_batch file limit (gd_replay db) in
      case apply_replays l now g batch 0 (gd_usage db) of
        Inl e \<Rightarrow> Inl e
      | Inr (applied, usage) \<Rightarrow>
          Inr (applied, db\<lparr>gd_usage := usage, gd_replay := mark_applied now batch (gd_replay db)\<rparr>))"

end
