(* ===== verification/Promotion.thy ===== *)
theory Promotion
  imports Generations
begin

text \<open>
  The promotion barrier of \<open>busytok-runtime/src/rebuild.rs\<close> and the generation manager of
  \<open>generation_manager.rs\<close>: what promotes a generation, what refuses it, and how the in-memory
  snapshot follows the durable state. Elapsed times and clock readings are arguments; so is whether
  a \<open>try_write\<close> of the snapshot finds its lock taken.
\<close>

section \<open>The barrier\<close>

definition BARRIER_TIMEOUT_MS :: int where "BARRIER_TIMEOUT_MS = 5000"
definition REPLAY_DRAIN_BATCH_LIMIT :: int where "REPLAY_DRAIN_BATCH_LIMIT = 10000"
definition CONSISTENCY_CHECK_LIMIT :: int where "CONSISTENCY_CHECK_LIMIT = 500"

record barrier_clock =
  bc_elapsed :: "nat \<Rightarrow> int"
  bc_replay_now :: "nat \<Rightarrow> int"
  bc_after_replay :: int
  bc_total_elapsed :: int
  bc_diag_now :: int
  bc_now :: int

record promotion_result =
  pr_promoted :: bool
  pr_generation_id :: string
  pr_barrier_duration_ms :: int
  pr_replay_rows_applied :: nat
  pr_degradation_reason :: "string option"

lemma count_where_upd_less:
  assumes "x \<in> set xs" "Q x" "P x" "\<And>y. Q y \<Longrightarrow> \<not> P (f y)"
  shows "count_where P (upd_where Q f xs) < count_where P xs"
  using assms(1)
proof (induction xs)
  case (Cons y ys)
  have "count_where P (upd_where Q f ys) \<le> count_where P ys" by (rule count_where_upd_le) (use assms(4) in blast)
  with Cons assms show ?case by fastforce
qed simp

lemma apply_replays_Nil: "apply_replays l now g [] n db = Inr (n, db)"
  by simp

lemma pending_batch_set: "set (pending_batch file limit rows) \<subseteq> {r \<in> set rows. pending r}"
  using set_sql_limit by (fastforce simp: pending_batch_def)

text \<open>A batch that applied something leaves fewer rows pending.\<close>

lemma replay_progress:
  assumes "apply_replay_rows_to_target_generation l now g file limit db = Inr (n, db')" and "n \<noteq> 0"
  shows "count_where pending (gd_replay db') < count_where pending (gd_replay db)"
proof -
  define batch where "batch = pending_batch file limit (gd_replay db)"
  from assms have "batch \<noteq> []"
    by (auto simp: apply_replay_rows_to_target_generation_def batch_def Let_def split: sum.splits)
  then obtain r where r: "r \<in> set batch" by (cases batch) auto
  have db': "gd_replay db' = mark_applied now batch (gd_replay db)"
    using assms(1)
    by (auto simp: apply_replay_rows_to_target_generation_def batch_def Let_def split: sum.splits)
  show ?thesis
    unfolding db' mark_applied_def
    by (rule count_where_upd_less[where x = r])
      (use r pending_batch_set in \<open>auto simp: batch_def pending_def\<close>)
qed

function drain_replay ::
  "replay_lib \<Rightarrow> barrier_clock \<Rightarrow> string \<Rightarrow> nat \<Rightarrow> nat \<Rightarrow> generation_db
   \<Rightarrow> (string + int option \<times> nat) \<times> generation_db" where
  "drain_replay l clk g i applied db =
     (if BARRIER_TIMEOUT_MS \<le> bc_elapsed clk i then (Inr (Some (bc_elapsed clk i), applied), db)
      else case apply_replay_rows_to_target_generation l (bc_replay_now clk i) g None REPLAY_DRAIN_BATCH_LIMIT db of
             Inl e \<Rightarrow> (Inl e, db)
           | Inr (n, db') \<Rightarrow>
               if n = 0 then (Inr (None, applied), db')
               else drain_replay l clk g (Suc i) (applied + n) db')"
  by pat_completeness auto
termination
  by (relation "measure (\<lambda>(l, clk, g, i, applied, db). count_where pending (gd_replay db))")
    (auto dest: replay_progress)

declare drain_replay.simps [simp del]

definition drifted :: "observation_row \<Rightarrow> file_row \<Rightarrow> bool" where
  "drifted x f =
     ((fr_offset_bytes f < go_offset_bytes x \<and> 0 < go_size_bytes x)
      \<or> (case (go_last_mtime_ms x, fr_last_mtime_ms f) of
           (Some a, Some b) \<Rightarrow> a \<noteq> b \<and> go_size_bytes x \<noteq> fr_size_bytes f \<and> 0 < go_size_bytes x
         | _ \<Rightarrow> False))"

text \<open>
  The join is outer but the current offset is read as a number: an observed file without a
  checkpoint is an error, unless an earlier row has already drifted.
\<close>

fun check_drift :: "file_row list \<Rightarrow> observation_row list \<Rightarrow> string + bool" where
  "check_drift checkpoints [] = Inr False"
| "check_drift checkpoints (x # xs) =
     (case row_of fr_id (go_source_file_id x) checkpoints of
        None \<Rightarrow> Inl ''Invalid column type Null at index: 4, name: current_offset''
      | Some f \<Rightarrow> if drifted x f then Inr True else check_drift checkpoints xs)"

definition drift_detected :: "string \<Rightarrow> generation_db \<Rightarrow> string + bool" where
  "drift_detected g db =
     check_drift (sd_checkpoints (gd_sources db))
       (sql_limit CONSISTENCY_CHECK_LIMIT (filter (\<lambda>x. go_generation_id x = g) (gd_observations db)))"

definition refuse_promotion :: "barrier_clock \<Rightarrow> string \<Rightarrow> generation_db \<Rightarrow> generation_db" where
  "refuse_promotion clk g db =
     upsert_service (new_service (bc_now clk) (Some ''ready_degraded'')
         (Some (unwrap_or [] (Option.bind (gd_service db) sv_active_generation_id))) None)
       (\<lambda>s. s\<lparr>sv_readiness := Some ''ready_degraded'', sv_updated_at_ms := bc_now clk\<rparr>)
       (put_diagnostic
          (rebuild_diagnostic (bc_diag_now clk) (''drift-'' @ g @ ''-'' @ show_int (bc_diag_now clk)) ''error''
             ''generation_drift'' (''generation '' @ g @ '' has drift vs current checkpoints; promotion refused'')) db)"

definition promote_generation :: "int \<Rightarrow> string \<Rightarrow> generation_db \<Rightarrow> generation_db" where
  "promote_generation now g db =
     db\<lparr>gd_generations := promote_row now g (deactivate_all now (gd_generations db)),
        gd_sources := rebuild_source_summaries now g (ud_usage_events (gd_usage db)) (gd_sources db),
        gd_service := Some (new_service now (Some ''ready_exact'') (Some g) (Some now))\<rparr>"

definition execute_promotion_barrier ::
  "replay_lib \<Rightarrow> barrier_clock \<Rightarrow> bool \<Rightarrow> string \<Rightarrow> generation_db \<Rightarrow> status_snapshot
   \<Rightarrow> (string + promotion_result) \<times> generation_db \<times> status_snapshot" where
  "execute_promotion_barrier l clk contended g db status =
     (let result = (\<lambda>promoted duration applied reason.
            Inr \<lparr>pr_promoted = promoted, pr_generation_id = g, pr_barrier_duration_ms = duration,
                 pr_replay_rows_applied = applied, pr_degradation_reason = reason\<rparr>)
      in case drain_replay l clk g 0 0 db of
           (Inl e, db) \<Rightarrow> (Inl e, db, status)
         | (Inr (Some elapsed, applied), db) \<Rightarrow>
             (result False elapsed applied (Some ''barrier timeout during replay drain''), db, status)
         | (Inr (None, applied), db) \<Rightarrow>
             if BARRIER_TIMEOUT_MS \<le> bc_after_replay clk
             then (result False (bc_after_replay clk) applied (Some ''barrier timeout after replay drain''), db, status)
             else (case drift_detected g db of
                     Inl e \<Rightarrow> (Inl e, db, status)
                   | Inr True \<Rightarrow>
                       (let db = refuse_promotion clk g db in
                        if contended then (Inl ''status lock contention'', db, status)
                        else (result False (bc_total_elapsed clk) applied (Some ''consistency drift detected''), db,
                              apply_durable_transition Ready_Degraded (ss_active_generation_id status) status))
                   | Inr False \<Rightarrow>
                       (let db = promote_generation (bc_now clk) g db in
                        if contended then (Inl ''status lock contention'', db, status)
                        else (result True (bc_total_elapsed clk) applied None, db,
                              apply_durable_transition Ready_Exact (Some g) status))))"

section \<open>The manager\<close>

record generation_manager =
  gm_db :: generation_db
  gm_status :: status_snapshot
  gm_active :: "string option"

definition activate_generation :: "bool \<Rightarrow> string \<Rightarrow> generation_manager \<Rightarrow> (string + unit) \<times> generation_manager" where
  "activate_generation contended g m =
     (if contended then (Inl ''status snapshot lock contention'', m)
      else (Inr (), m\<lparr>gm_active := Some g, gm_status := (gm_status m)\<lparr>ss_active_generation_id := Some g\<rparr>\<rparr>))"

definition activate_and_apply_ready_exact ::
  "bool \<Rightarrow> string \<Rightarrow> generation_manager \<Rightarrow> (string + unit) \<times> generation_manager" where
  "activate_and_apply_ready_exact contended g m =
     (if contended then (Inl ''status snapshot lock contention'', m)
      else (Inr (), m\<lparr>gm_active := Some g,
                      gm_status := apply_durable_transition Ready_Exact (Some g) (gm_status m)\<rparr>))"

definition ensure_active_generation_for_existing_events ::
  "(string \<Rightarrow> string) \<Rightarrow> generation_manager \<Rightarrow> string option \<times> generation_manager" where
  "ensure_active_generation_for_existing_events trim m =
     (let active = read_active_generation trim (gm_db m)
      in (active, if active \<noteq> None then m\<lparr>gm_active := active\<rparr> else m))"

definition has_active_degradation_blocker :: "generation_manager \<Rightarrow> bool" where
  "has_active_degradation_blocker m = has_blocking_degradation_diagnostic (gm_db m)"

definition can_transition :: "readiness \<Rightarrow> status_snapshot \<Rightarrow> bool" where
  "can_transition target s =
     (ss_readiness s = Starting \<or> (ss_readiness s = Ready_Degraded \<and> target = Ready_Exact))"

text \<open>Between the store's transition and the snapshot's, other tasks may change the snapshot (\<open>between\<close>).\<close>

definition transition_after_initial_scan ::
  "(string \<Rightarrow> string) \<Rightarrow> bool \<Rightarrow> (status_snapshot \<Rightarrow> status_snapshot) \<Rightarrow> int \<Rightarrow> readiness \<Rightarrow> generation_manager
   \<Rightarrow> (string + bool) \<times> generation_manager" where
  "transition_after_initial_scan trim contended between now target m =
     (let active = unwrap_or [] (ss_active_generation_id (gm_status m)) in
      if contended then (Inl ''status snapshot lock contention'', m)
      else if target = Ready_Exact \<and> trim active = [] then (Inr False, m)
      else if \<not> can_transition target (gm_status m) then (Inr False, m)
      else let (transitioned, db) = transition_readiness now (readiness_str target) active (gm_db m);
               m = m\<lparr>gm_db := db, gm_status := between (gm_status m)\<rparr>
           in if transitioned \<and> can_transition target (gm_status m)
              then (Inr True, m\<lparr>gm_status := apply_durable_transition target
                                              (ss_active_generation_id (gm_status m)) (gm_status m)\<rparr>)
              else (Inr False, m))"

definition mark_ready_exact_if_generation_valid ::
  "int \<Rightarrow> string \<Rightarrow> generation_manager \<Rightarrow> bool \<times> generation_manager" where
  "mark_ready_exact_if_generation_valid now g m =
     (if generation_is_promoted_active (gm_db m) g
      then (True, m\<lparr>gm_db := persist_ready_exact_for_generation now g (gm_db m), gm_active := Some g,
                    gm_status := apply_durable_transition Ready_Exact (Some g) (gm_status m)\<rparr>)
      else (False, m))"

text \<open>A row's readiness string; an unknown one, or none, is \<open>Starting\<close>.\<close>

definition readiness_of :: "string option \<Rightarrow> readiness" where
  "readiness_of r =
     (if r = Some ''ready_exact'' then Ready_Exact else if r = Some ''ready_degraded'' then Ready_Degraded
      else if r = Some ''rebuilding'' then Rebuilding else Starting)"

definition read_service_state :: "generation_db \<Rightarrow> service_state_view" where
  "read_service_state db =
     (case gd_service db of
        None \<Rightarrow> \<lparr>vw_latest_event_seq = None, vw_readiness = readiness_of (Some ''starting''),
                 vw_active_generation_id = None, vw_writer_queue_depth = 0, vw_aggregate_lag_ms = 0\<rparr>
      | Some s \<Rightarrow> \<lparr>vw_latest_event_seq = map_option sq_latest_event_seq (ob_sequence (gd_sequence db)),
                   vw_readiness = readiness_of (sv_readiness s),
                   vw_active_generation_id = sv_active_generation_id s,
                   vw_writer_queue_depth = sv_writer_queue_depth s, vw_aggregate_lag_ms = sv_aggregate_lag_ms s\<rparr>)"

record hydration_report =
  hr_active_generation_id :: "string option"
  hr_repaired :: bool
  hr_readiness :: readiness
  hr_latest_event_seq :: "int option"

definition store_readiness :: "recovery_result \<Rightarrow> readiness" where
  "store_readiness r = (if gr_ready_exact r then Ready_Exact else Ready_Degraded)"

definition hydrated_status :: "recovery_result option \<Rightarrow> service_state_view \<Rightarrow> status_snapshot \<Rightarrow> status_snapshot" where
  "hydrated_status recovered row s =
     (let s = hydrate_from_service_state_row row s in
      case recovered of
        None \<Rightarrow> s
      | Some r \<Rightarrow>
          (let s = apply_durable_transition (store_readiness r) (Some (gr_generation_id r)) s
           in if gr_repaired r then invalidate_chip_data s else s))"

definition hydrate_from_db ::
  "(string \<Rightarrow> string) \<Rightarrow> (f64_bits \<Rightarrow> f64_bits \<Rightarrow> f64_bits) \<Rightarrow> reporting_timezone option \<Rightarrow> int \<Rightarrow> int \<Rightarrow> bool
   \<Rightarrow> generation_manager \<Rightarrow> (string + hydration_report) \<times> generation_manager" where
  "hydrate_from_db trim fadd rtz id_now now contended m =
     (case recover_missing_generation_metadata trim fadd rtz id_now now (gm_db m) of
        (Inl e, db) \<Rightarrow> (Inl e, m\<lparr>gm_db := db\<rparr>)
      | (Inr recovered, db) \<Rightarrow>
          (let row = read_service_state db; m = m\<lparr>gm_db := db\<rparr> in
           if contended then (Inl ''status snapshot lock contention'', m)
           else let s = hydrated_status recovered row (gm_status m) in
                (Inr \<lparr>hr_active_generation_id = ss_active_generation_id s,
                      hr_repaired = (case recovered of None \<Rightarrow> False | Some r \<Rightarrow> gr_repaired r),
                      hr_readiness = (case recovered of None \<Rightarrow> vw_readiness row | Some r \<Rightarrow> store_readiness r),
                      hr_latest_event_seq = vw_latest_event_seq row\<rparr>,
                 m\<lparr>gm_status := s, gm_active := ss_active_generation_id s\<rparr>)))"

section \<open>The invariant of the durable state\<close>

text \<open>
  At most one generation is active, an active one is promoted, and \<open>ready_exact\<close> names it.
\<close>

definition gens_ok :: "generation_row list \<Rightarrow> bool" where
  "gens_ok gens =
     (distinct (map gn_generation_id gens) \<and> count_where gn_is_active gens \<le> 1
      \<and> list_all (\<lambda>r. if gn_is_active r then gn_state r = ''promoted'' else True) gens)"

definition service_sound :: "generation_db \<Rightarrow> bool" where
  "service_sound db =
     (case gd_service db of
        None \<Rightarrow> True
      | Some s \<Rightarrow>
          if sv_readiness s = Some ''ready_exact''
          then (case sv_active_generation_id s of None \<Rightarrow> False | Some g \<Rightarrow> generation_is_promoted_active db g)
          else True)"

definition generation_ok :: "generation_db \<Rightarrow> bool" where
  "generation_ok db = (gens_ok (gd_generations db) \<and> service_sound db)"

lemma promoted_active_cong:
  "gd_generations db' = gd_generations db \<Longrightarrow> generation_is_promoted_active db' g = generation_is_promoted_active db g"
  by (simp add: generation_is_promoted_active_def)

lemma generation_ok_cong:
  "gd_generations db' = gd_generations db \<Longrightarrow> gd_service db' = gd_service db \<Longrightarrow> generation_ok db' = generation_ok db"
  by (simp add: generation_ok_def service_sound_def generation_is_promoted_active_def cong: option.case_cong)

text \<open>The operations that leave both tables alone.\<close>

lemma observation_frame [simp]:
  "gd_generations (insert_generation_observation now g f a b c d e db) = gd_generations db"
  "gd_service (insert_generation_observation now g f a b c d e db) = gd_service db"
  by (simp_all add: insert_generation_observation_def)

lemma fold_frame: "(\<And>x s. f (step x s) = f s) \<Longrightarrow> f (fold step xs s) = f s"
  by (induction xs arbitrary: s) simp_all

lemma persist_frame [simp]:
  "gd_generations (persist_frontiers now fs db) = gd_generations db"
  "gd_service (persist_frontiers now fs db) = gd_service db"
  unfolding persist_frontiers_def by (rule fold_frame; simp)+

lemma put_diagnostic_frame [simp]:
  "gd_generations (put_diagnostic d db) = gd_generations db" "gd_service (put_diagnostic d db) = gd_service db"
  by (simp_all add: put_diagnostic_def)

lemma new_file_frame [simp]:
  "gd_generations (record_new_file_during_rebuild now g f db) = gd_generations db"
  "gd_service (record_new_file_during_rebuild now g f db) = gd_service db"
  by (simp_all add: record_new_file_during_rebuild_def record_new_file_observation_def Let_def)

lemma apply_replay_frame:
  assumes "apply_replay_rows_to_target_generation l now g file limit db = Inr (n, db')"
  shows "gd_generations db' = gd_generations db" "gd_service db' = gd_service db"
    "gd_observations db' = gd_observations db" "gd_sources db' = gd_sources db"
  using assms by (auto simp: apply_replay_rows_to_target_generation_def Let_def split: sum.splits)

lemma drain_frame:
  "gd_generations (snd (drain_replay l clk g i n db)) = gd_generations db
   \<and> gd_service (snd (drain_replay l clk g i n db)) = gd_service db"
proof (induction l clk g i n db rule: drain_replay.induct)
  case (1 l clk g i applied db)
  show ?case
    using 1 by (subst (1 2) drain_replay.simps) (auto split: sum.split dest: apply_replay_frame)
qed

lemma upsert_service_frame [simp]:
  "gd_generations (upsert_service fresh change db) = gd_generations db"
  "gd_service (upsert_service fresh change db) = Some (case gd_service db of None \<Rightarrow> fresh | Some s \<Rightarrow> change s)"
  by (simp_all add: upsert_service_def)

lemma service_sound_upsert:
  assumes "service_sound db"
    and "sv_readiness fresh = Some ''ready_exact'' \<Longrightarrow>
      \<exists>g. sv_active_generation_id fresh = Some g \<and> generation_is_promoted_active db g"
    and "\<And>s. sv_readiness (change s) = Some ''ready_exact'' \<Longrightarrow>
      (sv_readiness s = Some ''ready_exact'' \<and> sv_active_generation_id (change s) = sv_active_generation_id s)
      \<or> (\<exists>g. sv_active_generation_id (change s) = Some g \<and> generation_is_promoted_active db g)"
  shows "service_sound (upsert_service fresh change db)"
proof -
  have *: "generation_is_promoted_active (upsert_service fresh change db) g = generation_is_promoted_active db g" for g
    by (rule promoted_active_cong) simp
  show ?thesis
    using assms by (fastforce simp: service_sound_def * split: option.splits if_splits)
qed

text \<open>Promoting a row after deactivating all makes it the only active one.\<close>

lemma promote_row_active:
  assumes "distinct (map gn_generation_id gens)" and "filter gn_is_active gens = []"
  shows "map gn_generation_id (filter gn_is_active (promote_row now g gens)) = [g]"
  using assms
proof (induction gens)
  case (Cons r gens)
  then show ?case by (cases "gn_generation_id r = g") (auto simp: promote_row_def merge_promoted_def split: if_splits)
qed (simp add: promote_row_def)

lemma promote_row_states:
  assumes "filter gn_is_active gens = []"
  shows "list_all (\<lambda>r. if gn_is_active r then gn_state r = ''promoted'' else True) (promote_row now g gens)"
  using assms
  by (induction gens) (auto simp: promote_row_def merge_promoted_def filter_empty_conv list_all_iff split: if_splits)

lemma deactivate_all_off [simp]:
  "filter gn_is_active (deactivate_all now gens) = []"
  "map gn_generation_id (deactivate_all now gens) = map gn_generation_id gens"
  by (simp_all add: deactivate_all_def filter_empty_conv comp_def)

lemma promoted_row_sole:
  assumes "distinct (map gn_generation_id gens)"
  shows "gens_ok (promote_row now g (deactivate_all now gens))"
    and "map gn_generation_id (filter gn_is_active (promote_row now g (deactivate_all now gens))) = [g]"
    and "0 < count_where (\<lambda>r. gn_generation_id r = g \<and> promoted_active r) (promote_row now g (deactivate_all now gens))"
proof -
  define rows where "rows = promote_row now g (deactivate_all now gens)"
  have act: "map gn_generation_id (filter gn_is_active rows) = [g]"
    unfolding rows_def by (rule promote_row_active) (simp_all add: assms)
  have st: "list_all (\<lambda>r. if gn_is_active r then gn_state r = ''promoted'' else True) rows"
    unfolding rows_def by (rule promote_row_states) simp
  have "distinct (map gn_generation_id rows)"
    unfolding rows_def promote_row_def by (rule gens.distinct_upsert) (simp add: assms)
  moreover have "count_where gn_is_active rows = 1"
    using arg_cong[OF act, of length] by (simp add: count_where_def)
  ultimately show "gens_ok (promote_row now g (deactivate_all now gens))"
    using st by (simp add: gens_ok_def rows_def)
  show "map gn_generation_id (filter gn_is_active (promote_row now g (deactivate_all now gens))) = [g]"
    using act by (simp add: rows_def)
  have "g \<in> set (map gn_generation_id (filter gn_is_active rows))" unfolding act by simp
  then obtain r where "r \<in> set rows" "gn_is_active r" "gn_generation_id r = g" by auto
  with st show "0 < count_where (\<lambda>r. gn_generation_id r = g \<and> promoted_active r) (promote_row now g (deactivate_all now gens))"
    by (auto simp: count_where_pos promoted_active_def list_all_iff rows_def split: if_splits intro!: bexI[of _ r])
qed

section \<open>The machine of the durable state\<close>

text \<open>
  Everything that writes \<open>service_state\<close> and \<open>audit_generations\<close>, in any order, with the writes of
  the other tables between. A rebuild's generation id is not the promoted one: ids carry the clock.
\<close>

inductive generation_step ::
  "(string \<Rightarrow> string) \<Rightarrow> (f64_bits \<Rightarrow> f64_bits \<Rightarrow> f64_bits) \<Rightarrow> replay_lib \<Rightarrow> generation_db \<Rightarrow> generation_db \<Rightarrow> bool"
  for trim fadd l where
  gs_initiate: "\<not> generation_is_promoted_active db g \<Longrightarrow>
     generation_step trim fadd l db (snd (initiate_rebuild now g db))"
| gs_new_file: "generation_step trim fadd l db (record_new_file_during_rebuild now g f db)"
| gs_diagnostic: "generation_step trim fadd l db (record_rebuild_diagnostic now g severity message db)"
| gs_enqueue: "generation_step trim fadd l db (enqueue_tail_replay_rows now xs db)"
| gs_apply: "apply_replay_rows_to_target_generation l now g file limit db = Inr (n, db') \<Longrightarrow>
     generation_step trim fadd l db db'"
| gs_barrier: "generation_step trim fadd l db (fst (snd (execute_promotion_barrier l clk contended g db status)))"
| gs_recover: "generation_step trim fadd l db
     (snd (recover_missing_generation_metadata trim fadd rtz id_now now db))"
| gs_transition: "generation_step trim fadd l db (snd (transition_readiness now (readiness_str target) g db))"
| gs_mark: "generation_step trim fadd l (gm_db m) (gm_db (snd (mark_ready_exact_if_generation_valid now g m)))"
| gs_metrics: "generation_step trim fadd l db (checkpoint_writer_metrics now depth lag db)"
| gs_other: "gd_generations db' = gd_generations db \<Longrightarrow> gd_service db' = gd_service db \<Longrightarrow>
     generation_step trim fadd l db db'"

inductive_cases generation_stepE: "generation_step trim fadd l db db'"

definition fresh_generations :: "generation_db \<Rightarrow> bool" where
  "fresh_generations db = (gd_generations db = [] \<and> gd_service db = None)"

lemma generation_ok_frame:
  "generation_ok db \<Longrightarrow> gd_generations db' = gd_generations db \<Longrightarrow> gd_service db' = gd_service db \<Longrightarrow> generation_ok db'"
  using generation_ok_cong by blast

lemma promoted_active_create:
  assumes "\<not> generation_is_promoted_active db g"
  shows "generation_is_promoted_active (create_generation now g db) g' = generation_is_promoted_active db g'"
  using assms
  by (auto simp: generation_is_promoted_active_def create_generation_def count_where_pos promoted_active_def)

lemma create_generation_ok:
  assumes "generation_ok db" "\<not> generation_is_promoted_active db g"
  shows "generation_ok (create_generation now g db)"
proof -
  have "gens_ok (gd_generations (create_generation now g db))"
    using assms(1) count_where_filter_le[of gn_is_active "\<lambda>r. gn_generation_id r \<noteq> g" "gd_generations db"]
    by (auto simp: generation_ok_def gens_ok_def create_generation_def distinct_map_filter list_all_iff)
  moreover have "gd_service (create_generation now g db) = gd_service db" by (simp add: create_generation_def)
  ultimately show ?thesis
    using assms
    by (auto simp: generation_ok_def service_sound_def promoted_active_create split: option.splits if_splits)
qed

lemma promote_generation_ok:
  "gens_ok (gd_generations db) \<Longrightarrow> generation_ok (promote_generation now g db)"
  using promoted_row_sole[where gens = "gd_generations db" and now = now and g = g]
  by (simp add: generation_ok_def service_sound_def promote_generation_def new_service_def gens_ok_def
      generation_is_promoted_active_def)

lemma refuse_promotion_frame [simp]: "gd_generations (refuse_promotion clk g db) = gd_generations db"
  by (simp add: refuse_promotion_def)

lemma refuse_promotion_service:
  "gd_service (refuse_promotion clk g db)
   = Some (case gd_service db of
             None \<Rightarrow> new_service (bc_now clk) (Some ''ready_degraded'') (Some []) None
           | Some s \<Rightarrow> s\<lparr>sv_readiness := Some ''ready_degraded'', sv_updated_at_ms := bc_now clk\<rparr>)"
  by (simp add: refuse_promotion_def split: option.split)

lemma refuse_promotion_ok: "generation_ok db \<Longrightarrow> generation_ok (refuse_promotion clk g db)"
  by (simp add: generation_ok_def service_sound_def refuse_promotion_service new_service_def split: option.split)

text \<open>What a barrier can leave: the drained state, refused or promoted from it.\<close>

lemma barrier_cases:
  obtains (kept) "fst (snd (execute_promotion_barrier l clk contended g db status)) = snd (drain_replay l clk g 0 0 db)"
  | (refused) "fst (snd (execute_promotion_barrier l clk contended g db status))
               = refuse_promotion clk g (snd (drain_replay l clk g 0 0 db))"
  | (promoted) "fst (snd (execute_promotion_barrier l clk contended g db status))
               = promote_generation (bc_now clk) g (snd (drain_replay l clk g 0 0 db))"
proof (cases "drain_replay l clk g 0 0 db")
  case (Pair r d)
  show ?thesis
  proof (cases r)
    case (Inl e)
    then show ?thesis using kept Pair by (simp add: execute_promotion_barrier_def)
  next
    case (Inr q)
    obtain t n where q: "q = (t, n)" by (cases q)
    show ?thesis
    proof (cases t)
      case (Some e)
      then show ?thesis using kept Pair Inr q by (simp add: execute_promotion_barrier_def)
    next
      case None
      note at = Pair Inr q None execute_promotion_barrier_def
      show ?thesis
      proof (cases "BARRIER_TIMEOUT_MS \<le> bc_after_replay clk")
        case True
        then show ?thesis using kept by (simp add: at)
      next
        case False
        show ?thesis
        proof (cases "drift_detected g d")
          case (Inl e)
          with False show ?thesis using kept by (simp add: at)
        next
          case (Inr b)
          with False show ?thesis using refused promoted by (cases b) (simp_all add: at Let_def)
        qed
      qed
    qed
  qed
qed

lemma drain_ok: "generation_ok db \<Longrightarrow> generation_ok (snd (drain_replay l clk g i n db))"
  by (subst generation_ok_cong[of _ db]) (simp_all add: drain_frame)

lemma barrier_ok:
  assumes "generation_ok db"
  shows "generation_ok (fst (snd (execute_promotion_barrier l clk contended g db status)))"
  using drain_ok[OF assms, of l clk g 0 0]
  by (cases rule: barrier_cases[of l clk contended g db status])
    (simp_all add: refuse_promotion_ok promote_generation_ok generation_ok_def[of "snd _"])

lemma service_ok_upsert:
  assumes "generation_ok db" "service_sound (upsert_service fresh change db)"
  shows "generation_ok (upsert_service fresh change db)"
  using assms by (simp add: generation_ok_def)

lemma persist_exact_ok:
  assumes "generation_ok db" "generation_is_promoted_active db g"
  shows "generation_ok (persist_ready_exact_for_generation now g db)"
  unfolding persist_ready_exact_for_generation_def
  by (intro service_ok_upsert service_sound_upsert) (use assms in \<open>auto simp: generation_ok_def new_service_def\<close>)

lemma persist_degraded_ok:
  assumes "generation_ok db"
  shows "generation_ok (persist_ready_degraded_for_generation now g db)"
  unfolding persist_ready_degraded_for_generation_def
  by (intro service_ok_upsert service_sound_upsert) (use assms in \<open>auto simp: generation_ok_def new_service_def\<close>)

lemma metrics_ok:
  assumes "generation_ok db"
  shows "generation_ok (checkpoint_writer_metrics now depth lag db)"
  unfolding checkpoint_writer_metrics_def
  by (intro service_ok_upsert service_sound_upsert) (use assms in \<open>auto simp: generation_ok_def new_service_def\<close>)

lemma readiness_str_exact: "readiness_str t = ''ready_exact'' \<longleftrightarrow> t = Ready_Exact"
  by (cases t) simp_all

lemma transition_ok:
  assumes "generation_ok db"
  shows "generation_ok (snd (transition_readiness now target g db))"
proof (cases "target = ''ready_exact'' \<and> \<not> generation_is_promoted_active db g")
  case False
  then have "snd (transition_readiness now target g db)
      = upsert_service (new_service now (Some target) (Some g) None)
          (\<lambda>s. if (sv_readiness s = Some ''starting'' \<or> sv_readiness s = Some ''ready_degraded'')
                  \<and> (target \<noteq> ''ready_exact'' \<or> generation_is_promoted_active db g)
               then s\<lparr>sv_readiness := Some target, sv_active_generation_id := Some g, sv_updated_at_ms := now\<rparr>
               else s) db"
    unfolding transition_readiness_def if_not_P[OF False] Let_def by simp
  then show ?thesis
    using assms False
    by (auto simp: generation_ok_def new_service_def split: if_splits intro!: service_sound_upsert)
qed (use assms in \<open>simp add: transition_readiness_def\<close>)

lemma mark_ok:
  "generation_ok (gm_db m) \<Longrightarrow> generation_ok (gm_db (snd (mark_ready_exact_if_generation_valid now g m)))"
  by (simp add: mark_ready_exact_if_generation_valid_def persist_exact_ok)

lemma read_active_promoted:
  assumes "read_active_generation trim db = Some g"
  shows "generation_is_promoted_active db g"
proof -
  have newest: "generation_is_promoted_active db (gn_generation_id r)"
    if "sort_by le (filter promoted_active (gd_generations db)) = r # rs" for le r rs
  proof -
    have "r \<in> set (sort_by le (filter promoted_active (gd_generations db)))" using that by simp
    then show ?thesis by (auto simp: generation_is_promoted_active_def count_where_pos)
  qed
  show ?thesis
    using assms newest
    by (auto simp: read_active_generation_def Let_def split: option.splits if_splits list.splits)
qed

lemma adopt_events_ok:
  assumes "generation_ok db" "adopt_events now g db = Inr db'"
  shows "gens_ok (gd_generations db')" "generation_is_promoted_active db' g" "gd_service db' = gd_service db"
  using assms promoted_row_sole[where gens = "gd_generations db" and now = now and g = g]
  by (auto simp: adopt_events_def Let_def generation_ok_def gens_ok_def generation_is_promoted_active_def split: if_splits)

lemma rebuild_recovered_shape:
  assumes "rebuild_recovered fadd rtz now g db = Inr db'"
  obtains ro where "db' = persist_ready_exact_for_generation now g (db\<lparr>gd_rollups := ro\<rparr>)"
  using assms by (auto simp: rebuild_recovered_def Let_def split: option.splits sum.splits)

lemma adopted_sound:
  assumes "generation_ok db" "gd_generations db = []" "adopt_events now g db = Inr db'"
  shows "generation_ok db'"
proof -
  from assms(1,2) have "\<not> generation_is_promoted_active db x" for x
    by (simp add: generation_is_promoted_active_def count_where_def)
  with assms(1) have "service_sound db'"
    using adopt_events_ok(3)[OF assms(1,3)]
    by (auto simp: generation_ok_def service_sound_def split: option.splits if_splits)
  with adopt_events_ok(1)[OF assms(1,3)] show ?thesis by (simp add: generation_ok_def)
qed

lemma recover_ok:
  assumes "generation_ok db"
  shows "generation_ok (snd (recover_missing_generation_metadata trim fadd rtz id_now now db))"
proof (cases "read_active_generation trim db")
  case (Some g)
  then show ?thesis
    using assms read_active_promoted[OF Some]
    by (simp add: recover_missing_generation_metadata_def Let_def persist_degraded_ok persist_exact_ok)
next
  case None
  define g where "g = bootstrap_id id_now"
  have final: "generation_ok d'"
    if ad: "adopt_events now g db = Inr d" and re: "rebuild_recovered fadd rtz now g d = Inr d'"
      and e: "gd_generations db = []" for d d'
  proof -
    obtain ro where d': "d' = persist_ready_exact_for_generation now g (d\<lparr>gd_rollups := ro\<rparr>)"
      using rebuild_recovered_shape[OF re] by blast
    have "generation_ok (d\<lparr>gd_rollups := ro\<rparr>)"
      using adopted_sound[OF assms e ad] by (subst generation_ok_cong[of _ d]) simp_all
    moreover have "generation_is_promoted_active (d\<lparr>gd_rollups := ro\<rparr>) g"
      using adopt_events_ok(2)[OF assms ad] by (subst promoted_active_cong[of _ d]) simp_all
    ultimately show ?thesis unfolding d' by (rule persist_exact_ok)
  qed
  show ?thesis
    using assms final adopted_sound[OF assms, of now g]
    by (simp add: recover_missing_generation_metadata_def None Let_def g_def[symmetric] split: sum.splits)
qed

lemma generation_step_ok:
  assumes "generation_step trim fadd l db db'" "generation_ok db"
  shows "generation_ok db'"
  using assms
proof (induction rule: generation_step.induct)
  case (gs_initiate db g now)
  then show ?case
    by (subst generation_ok_cong[of _ "create_generation now g db"])
      (simp_all add: initiate_rebuild_def Let_def create_generation_ok)
next
  case gs_new_file
  then show ?case by (rule generation_ok_frame) simp_all
next
  case gs_diagnostic
  then show ?case by (rule generation_ok_frame) (simp_all add: record_rebuild_diagnostic_def)
next
  case gs_enqueue
  then show ?case by (rule generation_ok_frame) (simp_all add: enqueue_tail_replay_rows_def)
next
  case gs_apply
  then show ?case using generation_ok_cong apply_replay_frame by metis
next
  case gs_barrier
  then show ?case by (rule barrier_ok)
next
  case gs_recover
  then show ?case by (rule recover_ok)
next
  case gs_transition
  then show ?case by (rule transition_ok)
next
  case gs_mark
  then show ?case by (rule mark_ok)
next
  case gs_metrics
  then show ?case by (rule metrics_ok)
next
  case gs_other
  then show ?case using generation_ok_cong by metis
qed

interpretation generations: invariant_machine fresh_generations "generation_step trim fadd l" generation_ok
  for trim fadd l
proof
  show "generation_ok db" if "fresh_generations db" for db
    using that by (simp add: fresh_generations_def generation_ok_def gens_ok_def service_sound_def count_where_def)
qed (rule generation_step_ok)

section \<open>Facts for the properties\<close>

lemma sole_active:
  assumes "gens_ok (gd_generations db)" "generation_is_promoted_active db g"
  shows "map gn_generation_id (filter gn_is_active (gd_generations db)) = [g]"
    and "map gn_generation_id (filter promoted_active (gd_generations db)) = [g]"
proof -
  from assms(2) obtain r where r: "r \<in> set (gd_generations db)" "gn_generation_id r = g" "promoted_active r"
    by (auto simp: generation_is_promoted_active_def count_where_pos)
  have "length (filter gn_is_active (gd_generations db)) \<le> 1" using assms(1) by (simp add: gens_ok_def count_where_def)
  moreover have "r \<in> set (filter gn_is_active (gd_generations db))" using r by (simp add: promoted_active_def)
  ultimately have one: "filter gn_is_active (gd_generations db) = [r]"
    by (cases "filter gn_is_active (gd_generations db)") (auto simp: le_Suc_eq)
  then show "map gn_generation_id (filter gn_is_active (gd_generations db)) = [g]" using r(2) by simp
  have "filter promoted_active (gd_generations db) = filter gn_is_active (gd_generations db)"
    using assms(1) by (intro filter_cong) (auto simp: gens_ok_def promoted_active_def list_all_iff split: if_splits)
  with one r(2) show "map gn_generation_id (filter promoted_active (gd_generations db)) = [g]" by simp
qed

lemma sort_by_single [simp]: "sort_by le [x] = [x]"
  by simp

lemma active_readers:
  assumes "gens_ok (gd_generations db)" "generation_is_promoted_active db g"
    and "gd_service db = Some s" "sv_active_generation_id s = Some g"
  shows "read_active_generation trim db = Some g" "current_active_generation_id db = Some g"
proof -
  obtain r where r: "filter promoted_active (gd_generations db) = [r]" "gn_generation_id r = g"
    using sole_active(2)[OF assms(1,2)] by (cases "filter promoted_active (gd_generations db)") auto
  obtain q where q: "filter gn_is_active (gd_generations db) = [q]" "gn_generation_id q = g"
    using sole_active(1)[OF assms(1,2)] by (cases "filter gn_is_active (gd_generations db)") auto
  show "read_active_generation trim db = Some g"
    using assms(2-4) r by (simp add: read_active_generation_def Let_def)
  show "current_active_generation_id db = Some g"
    using assms(3,4) q by (cases g) (simp_all add: current_active_generation_id_def)
qed

lemma ready_exact_readers:
  assumes "generation_ok db" "gd_service db = Some s" "sv_readiness s = Some ''ready_exact''"
  shows "\<exists>g. sv_active_generation_id s = Some g \<and> map gn_generation_id (filter gn_is_active (gd_generations db)) = [g]
             \<and> read_active_generation trim db = Some g \<and> current_active_generation_id db = Some g"
proof -
  from assms obtain g where "sv_active_generation_id s = Some g" "generation_is_promoted_active db g"
    by (auto simp: generation_ok_def service_sound_def split: option.splits)
  with assms show ?thesis using active_readers sole_active(1) by (auto simp: generation_ok_def)
qed



section \<open>The properties\<close>

text \<open>
  C7. In every state the service can reach, at most one generation is active, and when the durable
  readiness says \<open>ready_exact\<close> its generation is the only active one: the readers' query, the
  writer's query and the table agree on it.
\<close>

theorem active_generation_sound:
  assumes "reach fresh_generations (generation_step trim fadd l) db"
  shows "count_where gn_is_active (gd_generations db) \<le> 1
    \<and> (case gd_service db of
         None \<Rightarrow> True
       | Some s \<Rightarrow>
           if sv_readiness s = Some ''ready_exact''
           then \<exists>g. sv_active_generation_id s = Some g
                    \<and> map gn_generation_id (filter gn_is_active (gd_generations db)) = [g]
                    \<and> read_active_generation trim db = Some g \<and> current_active_generation_id db = Some g
           else True)"
proof -
  have ok: "generation_ok db" by (rule generations.reachable_inv[OF assms])
  then have "count_where gn_is_active (gd_generations db) \<le> 1" by (simp add: generation_ok_def gens_ok_def)
  with ok ready_exact_readers show ?thesis by (auto split: option.split)
qed











text \<open>A pending row is in the table when its event is there under its id or its dedupe key.\<close>

definition replay_present :: "replay_lib \<Rightarrow> string \<Rightarrow> usage_table_row list \<Rightarrow> replay_row \<Rightarrow> bool" where
  "replay_present l g rows r =
     (case rl_parse l (rq_event_data_json r) of
        None \<Rightarrow> False
      | Some v \<Rightarrow> list_ex (\<lambda>u. row_id u = replay_id v \<or> same_dedupe g (unwrap_or [] (field_str v ''id'')) u) rows)"

lemma replay_present_append: "replay_present l g rows r \<Longrightarrow> replay_present l g (rows @ more_rows) r"
  by (auto simp: replay_present_def split: option.splits)

lemma replay_event_id [simp]: "ue_id (replay_event of_i v) = replay_id v"
  by (simp add: replay_event_def Let_def)

lemma apply_single_effect:
  assumes "rl_parse l (rq_event_data_json r) = Some v"
  shows "\<exists>n db' new. apply_single_replay l now g (rq_event_data_json r) db = Inr (n, db')
           \<and> ud_usage_events db' = ud_usage_events db @ new \<and> length new = n
           \<and> replay_present l g (ud_usage_events db') r"
  using assms
  by (auto simp: apply_single_replay_def insert_ignore_def Let_def replay_present_def table_row_def bound_event_def)

lemma apply_replays_effect:
  assumes "\<And>r. r \<in> set rows \<Longrightarrow> rl_parse l (rq_event_data_json r) \<noteq> None"
  shows "\<exists>n' db' new. apply_replays l now g rows n db = Inr (n', db')
           \<and> ud_usage_events db' = ud_usage_events db @ new \<and> n' = n + length new
           \<and> (\<forall>r \<in> set rows. replay_present l g (ud_usage_events db') r)"
  using assms
proof (induction rows arbitrary: n db)
  case (Cons r rows)
  then obtain v where v: "rl_parse l (rq_event_data_json r) = Some v" by fastforce
  obtain k d new where one: "apply_single_replay l now g (rq_event_data_json r) db = Inr (k, d)"
    "ud_usage_events d = ud_usage_events db @ new" "length new = k" "replay_present l g (ud_usage_events d) r"
    using apply_single_effect[OF v] by blast
  have "\<And>q. q \<in> set rows \<Longrightarrow> rl_parse l (rq_event_data_json q) \<noteq> None" using Cons.prems by simp
  from Cons.IH[OF this, of "n + k" d] obtain n' db' new' where rest:
    "apply_replays l now g rows (n + k) d = Inr (n', db')" "ud_usage_events db' = ud_usage_events d @ new'"
    "n' = n + k + length new'" "\<forall>q \<in> set rows. replay_present l g (ud_usage_events db') q" by blast
  moreover have "replay_present l g (ud_usage_events db') r"
    unfolding rest(2) by (rule replay_present_append[OF one(4)])
  ultimately show ?case using one by auto
qed simp

lemma pending_batch_all:
  assumes "int (count_where pending rows) \<le> limit"
  shows "set (pending_batch None limit rows) = {r \<in> set rows. pending r}"
proof -
  have "length (filter pending rows) \<le> nat limit" using assms by (simp add: count_where_def)
  moreover have "0 \<le> limit" using assms by linarith
  ultimately show ?thesis by (auto simp: pending_batch_def sql_limit_def)
qed

lemma none_pending_after:
  assumes "{r \<in> set rows. pending r} \<subseteq> set batch"
  shows "count_where pending (mark_applied now batch rows) = 0"
  using assms by (auto simp: count_where_zero mark_applied_def upd_where_def pending_def)

lemma apply_batch_effect:
  assumes "int (count_where pending (gd_replay db)) \<le> limit"
    and "list_all (\<lambda>r. if pending r then rl_parse l (rq_event_data_json r) \<noteq> None else True) (gd_replay db)"
  shows "\<exists>n db'. apply_replay_rows_to_target_generation l now g None limit db = Inr (n, db')
      \<and> count_where pending (gd_replay db') = 0
      \<and> length (ud_usage_events (gd_usage db')) = length (ud_usage_events (gd_usage db)) + n
      \<and> list_all (\<lambda>r. if pending r then replay_present l g (ud_usage_events (gd_usage db')) r else True) (gd_replay db)
      \<and> (count_where pending (gd_replay db) = 0 \<longrightarrow> n = 0 \<and> ud_usage_events (gd_usage db') = ud_usage_events (gd_usage db))"
proof -
  define batch where "batch = pending_batch None limit (gd_replay db)"
  have batch: "set batch = {r \<in> set (gd_replay db). pending r}"
    unfolding batch_def by (rule pending_batch_all[OF assms(1)])
  with assms(2) have "\<And>r. r \<in> set batch \<Longrightarrow> rl_parse l (rq_event_data_json r) \<noteq> None"
    by (auto simp: list_all_iff)
  from apply_replays_effect[where rows = batch and l = l and now = now and g = g and n = 0 and db = "gd_usage db", OF this] obtain n usage new where ap:
    "apply_replays l now g batch 0 (gd_usage db) = Inr (n, usage)"
    "ud_usage_events usage = ud_usage_events (gd_usage db) @ new" "n = length new"
    "\<forall>r \<in> set batch. replay_present l g (ud_usage_events usage) r" by auto
  have "n = 0 \<and> usage = gd_usage db" if "count_where pending (gd_replay db) = 0"
  proof -
    from that batch have "set batch = {}" by (auto simp: count_where_zero)
    then have "batch = []" by simp
    with ap(1) show ?thesis by simp
  qed
  with ap batch show ?thesis
    by (auto simp: apply_replay_rows_to_target_generation_def batch_def[symmetric] Let_def none_pending_after
        list_all_iff)
qed

text \<open>
  C35. The drain comes to an end and takes everything: with at most one batch pending, every row
  readable and no timeout, the barrier's loop returns; then no row is pending, every pending
  event is in the usage table under its id or its dedupe key, and the rows counted as applied are
  the rows the table gained.
\<close>

theorem replay_drained:
  assumes "int (count_where pending (gd_replay db)) \<le> REPLAY_DRAIN_BATCH_LIMIT"
    and "list_all (\<lambda>r. if pending r then rl_parse l (rq_event_data_json r) \<noteq> None else True) (gd_replay db)"
    and "bc_elapsed clk 0 < BARRIER_TIMEOUT_MS" "bc_elapsed clk 1 < BARRIER_TIMEOUT_MS"
  shows "\<exists>n db'. drain_replay l clk g 0 0 db = (Inr (None, n), db')
      \<and> count_where pending (gd_replay db') = 0
      \<and> length (ud_usage_events (gd_usage db')) = length (ud_usage_events (gd_usage db)) + n
      \<and> list_all (\<lambda>r. if pending r then replay_present l g (ud_usage_events (gd_usage db')) r else True) (gd_replay db)"
proof -
  obtain n d where d: "apply_replay_rows_to_target_generation l (bc_replay_now clk 0) g None REPLAY_DRAIN_BATCH_LIMIT db
      = Inr (n, d)" "count_where pending (gd_replay d) = 0"
    "length (ud_usage_events (gd_usage d)) = length (ud_usage_events (gd_usage db)) + n"
    "list_all (\<lambda>r. if pending r then replay_present l g (ud_usage_events (gd_usage d)) r else True) (gd_replay db)"
    using apply_batch_effect[OF assms(1,2)] by blast
  from d(2) have "int (count_where pending (gd_replay d)) \<le> REPLAY_DRAIN_BATCH_LIMIT"
    "list_all (\<lambda>r. if pending r then rl_parse l (rq_event_data_json r) \<noteq> None else True) (gd_replay d)"
    by (simp add: REPLAY_DRAIN_BATCH_LIMIT_def, simp add: count_where_zero list_all_iff)
  from apply_batch_effect[OF this, of "bc_replay_now clk 1" g] d(2) obtain d' where d':
    "apply_replay_rows_to_target_generation l (bc_replay_now clk 1) g None REPLAY_DRAIN_BATCH_LIMIT d = Inr (0, d')"
    "count_where pending (gd_replay d') = 0" "ud_usage_events (gd_usage d') = ud_usage_events (gd_usage d)" by auto
  have step: "drain_replay l clk g (Suc 0) n d = (Inr (None, n), d')"
    using assms(4) d'(1) by (subst drain_replay.simps) simp
  show ?thesis
  proof (cases "n = 0")
    case True
    then show ?thesis using assms(3) d by (subst drain_replay.simps) simp
  next
    case False
    then have "drain_replay l clk g 0 0 db = (Inr (None, n), d')"
      using assms(3) d(1) step by (subst drain_replay.simps) simp
    with d d' show ?thesis by (auto simp: list_all_iff)
  qed
qed

text \<open>A run of metrics checkpoints.\<close>

definition checkpoint_run :: "(int \<times> int \<times> int) list \<Rightarrow> generation_db \<Rightarrow> generation_db" where
  "checkpoint_run = fold (\<lambda>(now, depth, lag). checkpoint_writer_metrics now depth lag)"

lemma checkpoint_readiness:
  "gd_service db \<noteq> None \<Longrightarrow> Option.bind (gd_service db) sv_readiness = None \<Longrightarrow>
   gd_service (checkpoint_run xs db) \<noteq> None \<and> Option.bind (gd_service (checkpoint_run xs db)) sv_readiness = None"
proof (induction xs arbitrary: db)
  case (Cons x xs)
  obtain now depth lag where x: "x = (now, depth, lag)" by (cases x)
  have "gd_service (checkpoint_writer_metrics now depth lag db) \<noteq> None"
    "Option.bind (gd_service (checkpoint_writer_metrics now depth lag db)) sv_readiness = None"
    using Cons.prems by (auto simp: checkpoint_writer_metrics_def)
  from Cons.IH[OF this] show ?case by (simp add: checkpoint_run_def x)
qed (simp add: checkpoint_run_def)

text \<open>
  A metrics checkpoint that comes before any readiness is persisted disables the readiness
  transition for good: it creates the row with a NULL readiness, on which the guard
  \<open>readiness IN ('starting', 'ready_degraded')\<close> is never true, and later checkpoints keep it. Without
  that row the same transition to \<open>ready_degraded\<close> succeeds.
\<close>

theorem metrics_row_blocks_transition:
  "let db' = checkpoint_run ((t, d, lag) # xs) (db\<lparr>gd_service := None\<rparr>) in
     fst (transition_readiness now ''ready_degraded'' g db') = False
     \<and> fst (transition_readiness now ''ready_exact'' g db') = False
     \<and> Option.bind (gd_service (snd (transition_readiness now ''ready_degraded'' g db'))) sv_readiness = None
     \<and> fst (transition_readiness now ''ready_degraded'' g (db\<lparr>gd_service := None\<rparr>)) = True"
proof -
  define db' where "db' = checkpoint_run ((t, d, lag) # xs) (db\<lparr>gd_service := None\<rparr>)"
  have "db' = checkpoint_run xs (checkpoint_writer_metrics t d lag (db\<lparr>gd_service := None\<rparr>))"
    by (simp add: db'_def checkpoint_run_def)
  then have "gd_service db' \<noteq> None" "Option.bind (gd_service db') sv_readiness = None"
    using checkpoint_readiness[of "checkpoint_writer_metrics t d lag (db\<lparr>gd_service := None\<rparr>)" xs]
    by (simp_all add: checkpoint_writer_metrics_def new_service_def)
  then obtain s where s: "gd_service db' = Some s" "sv_readiness s = None" by auto
  have "\<not> fst (transition_readiness now target g db')
      \<and> (target \<noteq> ''ready_exact'' \<longrightarrow> Option.bind (gd_service (snd (transition_readiness now target g db'))) sv_readiness = None)"
    for target
    by (simp add: transition_readiness_def Let_def s)
  from this[of "''ready_degraded''"] this[of "''ready_exact''"] show ?thesis
    unfolding db'_def[symmetric] Let_def by (simp add: transition_readiness_def new_service_def)
qed

text \<open>What recovery leaves behind is promoted and exact.\<close>

lemma recover_exact:
  assumes "generation_ok db" "recover_missing_generation_metadata trim fadd rtz id_now now db = (Inr (Some r), db')"
    and "gr_ready_exact r"
  shows "service_state_is_ready_exact_for_generation db' (gr_generation_id r)"
proof -
  have persist: "service_state_is_ready_exact_for_generation (persist_ready_exact_for_generation now g d) g" for g d
    by (simp add: service_state_is_ready_exact_for_generation_def persist_ready_exact_for_generation_def
        new_service_def split: option.split)
  show ?thesis
  proof (cases "read_active_generation trim db")
    case (Some g)
    then show ?thesis
      using assms(2,3) persist
      by (auto simp: recover_missing_generation_metadata_def Let_def split: if_splits)
  next
    case None
    with assms(2,3) obtain d where "rebuild_recovered fadd rtz now (gr_generation_id r) d = Inr db'"
      by (auto simp: recover_missing_generation_metadata_def Let_def split: if_splits sum.splits)
    then show ?thesis using persist rebuild_recovered_shape by metis
  qed
qed

lemma readiness_of_exact: "readiness_of r = Ready_Exact \<longleftrightarrow> r = Some ''ready_exact''"
  by (simp add: readiness_of_def)

lemma hydrated_fields [simp]:
  "ss_readiness (hydrated_status rc row s) = (case rc of None \<Rightarrow> vw_readiness row | Some r \<Rightarrow> store_readiness r)"
  "ss_active_generation_id (hydrated_status rc row s)
   = (case rc of None \<Rightarrow> vw_active_generation_id row | Some r \<Rightarrow> Some (gr_generation_id r))"
  by (simp_all add: hydrated_status_def hydrate_from_service_state_row_def apply_durable_transition_def
      invalidate_chip_data_def Let_def split: option.split)

text \<open>
  Hydration at start agrees with the durable state: the report, the snapshot and the cached
  generation are one, a snapshot that says \<open>ReadyExact\<close> names the generation that the durable
  state says is exact and that is promoted and active; an error leaves the snapshot as it was.
\<close>

theorem hydration_sound:
  assumes "generation_ok (gm_db m)"
  shows "case hydrate_from_db trim fadd rtz id_now now contended m of
      (Inl e, m') \<Rightarrow> gm_status m' = gm_status m \<and> gm_active m' = gm_active m
    | (Inr rep, m') \<Rightarrow>
        ss_readiness (gm_status m') = hr_readiness rep \<and> ss_active_generation_id (gm_status m') = hr_active_generation_id rep
        \<and> gm_active m' = hr_active_generation_id rep
        \<and> (if hr_readiness rep = Ready_Exact
           then \<exists>g. hr_active_generation_id rep = Some g \<and> service_state_is_ready_exact_for_generation (gm_db m') g
                    \<and> generation_is_promoted_active (gm_db m') g
           else True)"
proof -
  obtain res db where rc: "recover_missing_generation_metadata trim fadd rtz id_now now (gm_db m) = (res, db)"
    by (cases "recover_missing_generation_metadata trim fadd rtz id_now now (gm_db m)")
  have ok: "generation_ok db" using recover_ok[OF assms, of trim fadd rtz id_now now] by (simp add: rc)
  have promoted: "generation_is_promoted_active db g" if "service_state_is_ready_exact_for_generation db g" for g
    using ok that
    by (auto simp: generation_ok_def service_sound_def service_state_is_ready_exact_for_generation_def split: option.splits)
  show ?thesis
  proof (cases res)
    case (Inl e)
    then show ?thesis by (simp add: hydrate_from_db_def rc)
  next
    case (Inr r)
    have "\<exists>g. ss_active_generation_id (hydrated_status r (read_service_state db) (gm_status m)) = Some g
        \<and> service_state_is_ready_exact_for_generation db g"
      if "ss_readiness (hydrated_status r (read_service_state db) (gm_status m)) = Ready_Exact"
    proof (cases r)
      case (Some x)
      with that have "gr_ready_exact x" by (simp add: store_readiness_def split: if_splits)
      with Some show ?thesis using recover_exact[OF assms] rc Inr by simp
    next
      case None
      with that obtain sv where "gd_service db = Some sv" "sv_readiness sv = Some ''ready_exact''"
        by (auto simp: read_service_state_def readiness_of_exact split: option.splits)
      with ok None show ?thesis
        by (auto simp: generation_ok_def service_sound_def read_service_state_def
            service_state_is_ready_exact_for_generation_def split: option.splits)
    qed
    with promoted show ?thesis
      by (cases contended) (auto simp: hydrate_from_db_def rc Inr Let_def)
  qed
qed

section \<open>A concrete run\<close>

definition sample_replay_lib :: replay_lib where
  "sample_replay_lib = \<lparr>rl_parse = (\<lambda>s. Some (J_Object [(''id'', J_String s)])), rl_f64_of_int = (\<lambda>_. 0)\<rparr>"

definition sample_clock :: barrier_clock where
  "sample_clock = \<lparr>bc_elapsed = (\<lambda>i. int i), bc_replay_now = (\<lambda>_. 7), bc_after_replay = 3, bc_total_elapsed = 4,
     bc_diag_now = 7, bc_now = 7\<rparr>"

definition sample_gdb :: generation_db where
  "sample_gdb =
     \<lparr>gd_service = None, gd_generations = [], gd_observations = [], gd_replay = [],
      gd_usage = \<lparr>ud_usage_events = [], ud_diagnostic_events = []\<rparr>,
      gd_sources = \<lparr>sd_log_sources = [], sd_log_files = [], sd_checkpoints = [], sd_summaries = []\<rparr>,
      gd_rollups = \<lparr>ro_buckets_2s = [], ro_buckets_hour = [], ro_buckets_day = [], ro_by_project_day = [],
        ro_by_model_day = [], ro_by_session_day = [], ro_by_client_day = [], ro_daily_usage = []\<rparr>,
      gd_sequence = \<lparr>ob_sequence = None, ob_log = []\<rparr>\<rparr>"

definition sample_pending :: generation_db where
  "sample_pending = enqueue_tail_replay_rows 5
     [\<lparr>re_source_file_id = ''f'', re_event_seq = 1, re_event_data_json = ''e1''\<rparr>] sample_gdb"

lemma sample_gdb_ok: "generation_ok sample_gdb" "fresh_generations sample_gdb" "gens_ok (gd_generations sample_gdb)"
  by (simp_all add: sample_gdb_def generation_ok_def gens_ok_def service_sound_def fresh_generations_def count_where_def)

lemma sample_drain: "drain_replay sample_replay_lib sample_clock ''g'' 0 0 sample_gdb = (Inr (None, 0), sample_gdb)"
  by (subst drain_replay.simps)
    (simp add: sample_gdb_def sample_clock_def BARRIER_TIMEOUT_MS_def apply_replay_rows_to_target_generation_def
      pending_batch_def sql_limit_def mark_applied_def Let_def)

lemma sample_barrier:
  "execute_promotion_barrier sample_replay_lib sample_clock False ''g'' sample_gdb status_default
   = (Inr \<lparr>pr_promoted = True, pr_generation_id = ''g'', pr_barrier_duration_ms = 4, pr_replay_rows_applied = 0,
           pr_degradation_reason = None\<rparr>,
      promote_generation 7 ''g'' sample_gdb, apply_durable_transition Ready_Exact (Some ''g'') status_default)"
  by (simp add: execute_promotion_barrier_def sample_drain Let_def drift_detected_def)
    (simp add: sample_gdb_def sample_clock_def BARRIER_TIMEOUT_MS_def sql_limit_def)

theorem active_generation_sound_witness:
  "count_where gn_is_active (gd_generations (promote_generation 7 ''g'' sample_gdb)) \<le> 1
   \<and> read_active_generation id (promote_generation 7 ''g'' sample_gdb) = Some ''g''"
proof -
  have "reach fresh_generations (generation_step id (\<lambda>_ b. b) sample_replay_lib)
      (fst (snd (execute_promotion_barrier sample_replay_lib sample_clock False ''g'' sample_gdb status_default)))"
    by (rule reach_step, rule reach_init, rule sample_gdb_ok, rule gs_barrier)
  from active_generation_sound[OF this[unfolded sample_barrier fst_conv snd_conv]] show ?thesis
    by (simp add: promote_generation_def new_service_def)
qed


theorem replay_drained_witness:
  "\<exists>n db'. drain_replay sample_replay_lib sample_clock ''g'' 0 0 sample_pending = (Inr (None, n), db')
      \<and> count_where pending (gd_replay db') = 0 \<and> length (ud_usage_events (gd_usage db')) = n"
proof -
  have "int (count_where pending (gd_replay sample_pending)) \<le> REPLAY_DRAIN_BATCH_LIMIT"
    "list_all (\<lambda>r. if pending r then rl_parse sample_replay_lib (rq_event_data_json r) \<noteq> None else True)
      (gd_replay sample_pending)"
    "bc_elapsed sample_clock 0 < BARRIER_TIMEOUT_MS" "bc_elapsed sample_clock 1 < BARRIER_TIMEOUT_MS"
    "ud_usage_events (gd_usage sample_pending) = []"
    by (simp_all add: sample_pending_def enqueue_tail_replay_rows_def enqueue_tail_replay_row_def sample_gdb_def
        count_where_def REPLAY_DRAIN_BATCH_LIMIT_def BARRIER_TIMEOUT_MS_def sample_clock_def sample_replay_lib_def)
  from replay_drained[OF this(1-4), of "''g''"] this(5) show ?thesis by auto
qed

theorem hydration_sound_witness:
  "case hydrate_from_db id (\<lambda>_ b. b) None 0 0 False \<lparr>gm_db = sample_gdb, gm_status = status_default, gm_active = None\<rparr> of
      (Inl e, m') \<Rightarrow> False
    | (Inr rep, m') \<Rightarrow> hr_readiness rep = Starting \<and> ss_readiness (gm_status m') = Starting"
  using hydration_sound[of "\<lparr>gm_db = sample_gdb, gm_status = status_default, gm_active = None\<rparr>" id "\<lambda>_ b. b" None 0 0 False]
  by (simp add: sample_gdb_ok)
    (simp add: hydrate_from_db_def recover_missing_generation_metadata_def read_active_generation_def Let_def sample_gdb_def
      count_where_def read_service_state_def readiness_of_def)

end
