(* ===== verification/Codex_Batch.thy ===== *)
theory Codex_Batch
  imports Log_Adapters
begin

text \<open>
  Parsing a batch of tailed lines, \<open>busytok-runtime/src/scan.rs\<close>: \<open>parse_events_with_codex_model_context\<close>
  with its forward inheritance of the model, its delayed per-session backfill and its cap on error
  diagnostics, and \<open>partition_parsed_events\<close>. The hash maps are association lists in insertion order
  and the hash sets lists without duplicates; nothing the code computes depends on their order.
\<close>

section \<open>Models\<close>

definition extract_codex_turn_context_model :: "log_lib \<Rightarrow> string \<Rightarrow> string option" where
  "extract_codex_turn_context_model l line =
     (case ll_json l line of
        None \<Rightarrow> None
      | Some parsed \<Rightarrow>
          if Option.bind (json_get ''type'' parsed) as_str \<noteq> Some ''turn_context'' then None
          else Option.bind (Option.bind (Option.bind (json_get ''payload'' parsed) (json_get ''model'')) as_str)
                 (\<lambda>m. let t = ll_trim l m in if t = [] then None else Some t))"

definition normalized_codex_event_model :: "log_lib \<Rightarrow> string option \<Rightarrow> string option" where
  "normalized_codex_event_model l model =
     Option.bind model (\<lambda>m. let t = ll_trim l m in if t = [] then None else Some t)"

definition effective_codex_model :: "string option \<Rightarrow> string option" where
  "effective_codex_model current_codex_model = current_codex_model"

section \<open>Hash maps of the parser\<close>

definition entry_of :: "string \<Rightarrow> (string \<times> 'a list) list \<Rightarrow> 'a list" where
  "entry_of k kvs = unwrap_or [] (map_of kvs k)"

fun upd_entry :: "('a list \<Rightarrow> 'a list) \<Rightarrow> string \<Rightarrow> (string \<times> 'a list) list \<Rightarrow> (string \<times> 'a list) list" where
  "upd_entry f k [] = [(k, f [])]"
| "upd_entry f k ((k', v) # kvs) = (if k' = k then (k, f v) # kvs else (k', v) # upd_entry f k kvs)"

definition set_insert :: "'a \<Rightarrow> 'a list \<Rightarrow> 'a list" where
  "set_insert x xs = (if x \<in> set xs then xs else xs @ [x])"

lemma entry_of_upd [simp]: "entry_of j (upd_entry f k kvs) = (if j = k then f (entry_of k kvs) else entry_of j kvs)"
  by (induction kvs) (auto simp: entry_of_def)

lemma in_upd_entry:
  "(k', v) \<in> set (upd_entry f k kvs) \<Longrightarrow> (\<exists>w. v = f w \<and> (w = [] \<or> (k, w) \<in> set kvs)) \<or> (k', v) \<in> set kvs"
  by (induction kvs) (fastforce split: if_splits)+

lemma set_set_insert [simp]: "set (set_insert x xs) = insert x (set xs)"
  by (auto simp: set_insert_def)

lemma distinct_set_insert [simp]: "distinct xs \<Longrightarrow> distinct (set_insert x xs)"
  by (simp add: set_insert_def)

section \<open>The loop\<close>

definition MAX_PARSE_ERRORS_PER_FILE :: nat where "MAX_PARSE_ERRORS_PER_FILE = 100"

record batch_state =
  bs_parsed_events :: "parsed_log_event list"
  bs_current_codex_model :: "string option"
  bs_parse_error_count :: nat
  bs_cap_exceeded :: bool
  bs_session_seen_models :: "(string \<times> string list) list"
  bs_turn_context_models_by_path :: "(string \<times> string list) list"
  bs_session_pending :: "(string \<times> nat list) list"

definition batch_start :: "string option \<Rightarrow> batch_state" where
  "batch_start model =
     \<lparr>bs_parsed_events = [], bs_current_codex_model = model, bs_parse_error_count = 0,
      bs_cap_exceeded = False, bs_session_seen_models = [], bs_turn_context_models_by_path = [],
      bs_session_pending = []\<rparr>"

definition push_event :: "parsed_log_event \<Rightarrow> batch_state \<Rightarrow> batch_state" where
  "push_event e st = st\<lparr>bs_parsed_events := bs_parsed_events st @ [e]\<rparr>"

definition note_turn_context :: "log_lib \<Rightarrow> agent_kind \<Rightarrow> tailed_line \<Rightarrow> batch_state \<Rightarrow> batch_state" where
  "note_turn_context l agent tailed st =
     (if agent = Codex
      then case extract_codex_turn_context_model l (tl_text tailed) of
             None \<Rightarrow> st
           | Some model \<Rightarrow>
               st\<lparr>bs_current_codex_model := Some model,
                  bs_turn_context_models_by_path :=
                    upd_entry (set_insert model) (pc_source_path (tl_context tailed))
                      (bs_turn_context_models_by_path st)\<rparr>
      else st)"

definition handle_snapshot :: "log_lib \<Rightarrow> codex_snapshot \<Rightarrow> batch_state \<Rightarrow> batch_state" where
  "handle_snapshot l snap st =
     (case normalized_codex_event_model l (cs_model snap) of
        Some m \<Rightarrow>
          push_event (Codex_Snapshot (snap\<lparr>cs_model := Some m\<rparr>))
            (st\<lparr>bs_current_codex_model := Some m,
                bs_session_seen_models :=
                  upd_entry (set_insert m) (cs_session_id snap) (bs_session_seen_models st)\<rparr>)
      | None \<Rightarrow>
          (let inherited = effective_codex_model (bs_current_codex_model st) in
           push_event (Codex_Snapshot (snap\<lparr>cs_model := inherited\<rparr>))
             (case inherited of
                None \<Rightarrow>
                  st\<lparr>bs_session_pending :=
                       upd_entry (\<lambda>idxs. idxs @ [length (bs_parsed_events st)]) (cs_session_id snap)
                         (bs_session_pending st)\<rparr>
              | Some m \<Rightarrow>
                  st\<lparr>bs_session_seen_models :=
                       upd_entry (set_insert m) (cs_session_id snap) (bs_session_seen_models st)\<rparr>)))"

fun handle_event :: "log_lib \<Rightarrow> parsed_log_event \<Rightarrow> batch_state \<Rightarrow> batch_state" where
  "handle_event l (Codex_Snapshot snap) st = handle_snapshot l snap st"
| "handle_event l other st = push_event other st"

definition cap_diagnostic ::
  "log_lib \<Rightarrow> string \<Rightarrow> agent_kind \<Rightarrow> nat \<Rightarrow> parse_context \<Rightarrow> nat \<Rightarrow> diagnostic_event" where
  "cap_diagnostic l file_id agent total_lines ctx parse_error_count =
     \<lparr>de_id = ''parse_err_cap_'' @ file_id, de_agent = Some agent, de_source_id = Some [],
      de_source_file_id = Some file_id, de_source_path = Some (pc_source_path ctx),
      de_source_line = None, de_category = ''parse_error'', de_severity = ''warning'',
      de_message = ''Parse error cap exceeded: '' @ show_nat parse_error_count @ ''+ errors in ''
        @ show_nat total_lines @ '' lines; file may not be a valid JSONL log'',
      de_detail_json = None, de_happened_at_ms = ll_now l ctx, de_created_at_ms = ll_created l ctx\<rparr>"

definition error_diagnostic ::
  "log_lib \<Rightarrow> string \<Rightarrow> agent_kind \<Rightarrow> parse_context \<Rightarrow> parse_error \<Rightarrow> diagnostic_event" where
  "error_diagnostic l file_id agent ctx e =
     \<lparr>de_id = ''parse_err_'' @ file_id @ ''_'' @ show_nat (pc_source_line ctx), de_agent = Some agent,
      de_source_id = Some [], de_source_file_id = Some file_id,
      de_source_path = Some (pc_source_path ctx), de_source_line = Some (int (pc_source_line ctx)),
      de_category = ''parse_error'', de_severity = ''warning'',
      de_message = ''Parse error: '' @ parse_error_text e,
      de_detail_json = None, de_happened_at_ms = ll_now l ctx, de_created_at_ms = ll_created l ctx\<rparr>"

definition handle_error ::
  "log_lib \<Rightarrow> string \<Rightarrow> agent_kind \<Rightarrow> nat \<Rightarrow> parse_context \<Rightarrow> parse_error \<Rightarrow> batch_state \<Rightarrow> batch_state" where
  "handle_error l file_id agent total_lines ctx e st =
     (let st = st\<lparr>bs_parse_error_count := bs_parse_error_count st + 1\<rparr> in
      if MAX_PARSE_ERRORS_PER_FILE < bs_parse_error_count st
      then if bs_cap_exceeded st then st
           else push_event (Normalized (Diagnostic
                  (cap_diagnostic l file_id agent total_lines ctx (bs_parse_error_count st))))
                  (st\<lparr>bs_cap_exceeded := True\<rparr>)
      else push_event (Normalized (Diagnostic (error_diagnostic l file_id agent ctx e))) st)"

definition handle_line ::
  "log_lib \<Rightarrow> string \<Rightarrow> agent_kind \<Rightarrow> adapter \<Rightarrow> nat \<Rightarrow> tailed_line \<Rightarrow> batch_state \<Rightarrow> batch_state" where
  "handle_line l file_id agent a total_lines tailed st =
     (let st = note_turn_context l agent tailed st in
      case ad_parse_line a (tl_context tailed) (tl_text tailed) of
        Inr parsed \<Rightarrow> fold (handle_event l) parsed st
      | Inl e \<Rightarrow> handle_error l file_id agent total_lines (tl_context tailed) e st)"

section \<open>The delayed backfill\<close>

definition with_model :: "string \<Rightarrow> parsed_log_event \<Rightarrow> parsed_log_event" where
  "with_model m e = (case e of Codex_Snapshot s \<Rightarrow> Codex_Snapshot (s\<lparr>cs_model := Some m\<rparr>) | _ \<Rightarrow> e)"

definition pending_path_models :: "batch_state \<Rightarrow> nat \<Rightarrow> string list" where
  "pending_path_models st idx =
     (case bs_parsed_events st ! idx of
        Codex_Snapshot s \<Rightarrow> entry_of (es_path (cs_source s)) (bs_turn_context_models_by_path st)
      | _ \<Rightarrow> [])"

definition all_models :: "batch_state \<Rightarrow> string \<Rightarrow> nat list \<Rightarrow> string list" where
  "all_models st session_id pending =
     remdups (entry_of session_id (bs_session_seen_models st) @ concat (map (pending_path_models st) pending))"

definition backfill_session ::
  "batch_state \<Rightarrow> string \<times> nat list \<Rightarrow> parsed_log_event list \<Rightarrow> parsed_log_event list" where
  "backfill_session st entry events =
     (case all_models st (fst entry) (snd entry) of
        [m] \<Rightarrow> fold (\<lambda>idx evs. evs[idx := with_model m (evs ! idx)]) (snd entry) events
      | _ \<Rightarrow> events)"

definition backfill :: "agent_kind \<Rightarrow> batch_state \<Rightarrow> parsed_log_event list" where
  "backfill agent st =
     (if agent = Codex then fold (backfill_session st) (bs_session_pending st) (bs_parsed_events st)
      else bs_parsed_events st)"

text \<open>\<open>persisted\<close> is what \<open>load_persisted_codex_model\<close> finds for the file.\<close>

definition parse_lines ::
  "log_lib \<Rightarrow> string option \<Rightarrow> string \<Rightarrow> agent_kind \<Rightarrow> adapter \<Rightarrow> tailed_line list \<Rightarrow> batch_state" where
  "parse_lines l persisted file_id agent a lines =
     fold (handle_line l file_id agent a (length lines)) lines
       (batch_start (if agent = Codex then persisted else None))"

definition parse_events_with_codex_model_context ::
  "log_lib \<Rightarrow> string option \<Rightarrow> string \<Rightarrow> agent_kind \<Rightarrow> adapter \<Rightarrow> tailed_line list \<Rightarrow> parsed_log_event list" where
  "parse_events_with_codex_model_context l persisted file_id agent a lines =
     backfill agent (parse_lines l persisted file_id agent a lines)"

section \<open>What a batch yields\<close>

text \<open>
  The reference: every parsed event in line order, a diagnostic for each of the first hundred lines
  that fail, one summary at the next failure, and nothing for the failures after it.
\<close>

fun batch_reference ::
  "log_lib \<Rightarrow> string \<Rightarrow> agent_kind \<Rightarrow> adapter \<Rightarrow> nat \<Rightarrow> nat \<Rightarrow> tailed_line list \<Rightarrow> parsed_log_event list" where
  "batch_reference l file_id agent a total_lines n [] = []"
| "batch_reference l file_id agent a total_lines n (t # ts) =
     (case ad_parse_line a (tl_context t) (tl_text t) of
        Inr evs \<Rightarrow> evs @ batch_reference l file_id agent a total_lines n ts
      | Inl e \<Rightarrow>
          (if n < 100 then [Normalized (Diagnostic (error_diagnostic l file_id agent (tl_context t) e))]
           else if n = 100
           then [Normalized (Diagnostic (cap_diagnostic l file_id agent total_lines (tl_context t) 101))]
           else [])
          @ batch_reference l file_id agent a total_lines (n + 1) ts)"

text \<open>The models a batch mentions: in turn contexts and in the snapshots themselves.\<close>

fun explicit_model :: "log_lib \<Rightarrow> parsed_log_event \<Rightarrow> string option" where
  "explicit_model l (Codex_Snapshot s) = normalized_codex_event_model l (cs_model s)"
| "explicit_model l _ = None"

definition line_models :: "log_lib \<Rightarrow> adapter \<Rightarrow> tailed_line \<Rightarrow> string set" where
  "line_models l a t =
     set_option (extract_codex_turn_context_model l (tl_text t))
     \<union> (case ad_parse_line a (tl_context t) (tl_text t) of
          Inr evs \<Rightarrow> \<Union> (set_option ` explicit_model l ` set evs) | Inl _ \<Rightarrow> {})"

definition known_models :: "log_lib \<Rightarrow> string option \<Rightarrow> adapter \<Rightarrow> tailed_line list \<Rightarrow> string set" where
  "known_models l persisted a lines = set_option persisted \<union> \<Union> (line_models l a ` set lines)"

text \<open>How an event of the result relates to the parsed one: only a snapshot's model is filled in.\<close>

fun model_resolved :: "log_lib \<Rightarrow> string set \<Rightarrow> parsed_log_event \<Rightarrow> parsed_log_event \<Rightarrow> bool" where
  "model_resolved l K (Codex_Snapshot s) r =
     (\<exists>m. r = Codex_Snapshot (s\<lparr>cs_model := m\<rparr>)
          \<and> (case normalized_codex_event_model l (cs_model s) of
                Some x \<Rightarrow> m = Some x | None \<Rightarrow> set_option m \<subseteq> K))"
| "model_resolved l K e r = (r = e)"

definition pending_ok :: "log_lib \<Rightarrow> parsed_log_event list \<Rightarrow> nat \<Rightarrow> bool" where
  "pending_ok l refs idx =
     (idx < length refs
      \<and> (case refs ! idx of Codex_Snapshot s \<Rightarrow> normalized_codex_event_model l (cs_model s) = None | _ \<Rightarrow> False))"

definition batch_inv :: "log_lib \<Rightarrow> string set \<Rightarrow> parsed_log_event list \<Rightarrow> batch_state \<Rightarrow> bool" where
  "batch_inv l K refs st =
     (list_all2 (model_resolved l K) refs (bs_parsed_events st)
      \<and> set_option (bs_current_codex_model st) \<subseteq> K
      \<and> (\<forall>k. set (entry_of k (bs_session_seen_models st)) \<subseteq> K)
      \<and> (\<forall>k. set (entry_of k (bs_turn_context_models_by_path st)) \<subseteq> K)
      \<and> (\<forall>k idxs. (k, idxs) \<in> set (bs_session_pending st) \<longrightarrow> list_all (pending_ok l refs) idxs))"

lemma pending_ok_append: "pending_ok l refs idx \<Longrightarrow> pending_ok l (refs @ more_refs) idx"
  by (simp add: pending_ok_def nth_append)

lemma list_all2_snocI: "list_all2 P xs ys \<Longrightarrow> P x y \<Longrightarrow> list_all2 P (xs @ [x]) (ys @ [y])"
  by (simp add: list_all2_appendI)

lemma batch_inv_turn_context:
  "batch_inv l K refs st \<Longrightarrow> set_option (extract_codex_turn_context_model l (tl_text t)) \<subseteq> K
   \<Longrightarrow> batch_inv l K refs (note_turn_context l agent t st)"
  by (auto simp: batch_inv_def note_turn_context_def split: option.splits)

lemma batch_inv_push_plain:
  assumes "batch_inv l K refs st" "\<And>s. e \<noteq> Codex_Snapshot s"
  shows "batch_inv l K (refs @ [e]) (push_event e st)"
proof -
  have "model_resolved l K e e" using assms(2) by (cases e) auto
  moreover have "list_all (pending_ok l refs) idxs \<Longrightarrow> list_all (pending_ok l (refs @ [e])) idxs" for idxs
    by (induction idxs) (auto simp: pending_ok_append)
  ultimately show ?thesis
    using assms(1) by (auto simp: batch_inv_def push_event_def list_all2_appendI)
qed

lemma batch_inv_snapshot:
  assumes inv: "batch_inv l K refs st" and K: "set_option (explicit_model l (Codex_Snapshot s)) \<subseteq> K"
  shows "batch_inv l K (refs @ [Codex_Snapshot s]) (handle_snapshot l s st)"
proof -
  have len: "length (bs_parsed_events st) = length refs"
    using inv by (auto simp: batch_inv_def dest: list_all2_lengthD)
  have mono: "list_all (pending_ok l refs) idxs \<Longrightarrow> list_all (pending_ok l (refs @ [e])) idxs" for idxs e
    by (induction idxs) (auto simp: pending_ok_append)
  show ?thesis
  proof (cases "normalized_codex_event_model l (cs_model s)")
    case (Some m)
    then show ?thesis
      using inv K
      by (auto simp: batch_inv_def handle_snapshot_def push_event_def mono intro!: list_all2_snocI)
  next
    case None
    show ?thesis
    proof (cases "bs_current_codex_model st")
      case cur: None
      have here: "pending_ok l (refs @ [Codex_Snapshot s]) (length refs)"
        using None by (simp add: pending_ok_def)
      have "list_all (pending_ok l (refs @ [Codex_Snapshot s])) idxs"
        if "(k, idxs) \<in> set (upd_entry (\<lambda>is. is @ [length refs]) (cs_session_id s) (bs_session_pending st))"
        for k idxs
        using in_upd_entry [OF that] inv here mono by (auto simp: batch_inv_def)
      then show ?thesis
        using inv None cur
        by (auto simp: batch_inv_def handle_snapshot_def push_event_def effective_codex_model_def
                 len intro!: list_all2_snocI)
    next
      case (Some m)
      then show ?thesis
        using inv None
        by (auto simp: batch_inv_def handle_snapshot_def push_event_def effective_codex_model_def
                 mono intro!: list_all2_snocI)
    qed
  qed
qed

lemma batch_inv_events:
  "batch_inv l K refs st \<Longrightarrow> (\<And>e. e \<in> set evs \<Longrightarrow> set_option (explicit_model l e) \<subseteq> K)
   \<Longrightarrow> batch_inv l K (refs @ evs) (fold (handle_event l) evs st)"
proof (induction evs arbitrary: refs st)
  case (Cons e evs)
  have "batch_inv l K (refs @ [e]) (handle_event l e st)"
    using Cons.prems by (cases e) (simp_all add: batch_inv_snapshot batch_inv_push_plain del: explicit_model.simps)
  from Cons.IH [OF this] Cons.prems(2) show ?case by simp
qed simp

definition error_inv :: "nat \<Rightarrow> batch_state \<Rightarrow> bool" where
  "error_inv n st = (bs_parse_error_count st = n \<and> bs_cap_exceeded st = (100 < n))"

lemma error_inv_turn_context [simp]: "error_inv n (note_turn_context l agent t st) = error_inv n st"
  by (simp add: error_inv_def note_turn_context_def split: option.split)

lemma error_inv_push [simp]: "error_inv n (push_event e st) = error_inv n st"
  by (simp add: error_inv_def push_event_def)

lemma error_inv_event [simp]: "error_inv n (handle_event l e st) = error_inv n st"
  by (cases e)
    (auto simp: handle_snapshot_def Let_def effective_codex_model_def error_inv_def push_event_def split: option.split)

lemma error_inv_events [simp]: "error_inv n (fold (handle_event l) evs st) = error_inv n st"
  by (induction evs arbitrary: st) simp_all

lemma batch_inv_flags [simp]:
  "batch_inv l K refs (st\<lparr>bs_parse_error_count := x\<rparr>) = batch_inv l K refs st"
  "batch_inv l K refs (st\<lparr>bs_cap_exceeded := b\<rparr>) = batch_inv l K refs st"
  by (simp_all add: batch_inv_def)

lemma handle_error_inv:
  assumes "batch_inv l K refs st" "error_inv n st"
  shows "batch_inv l K
           (refs @ (if n < 100 then [Normalized (Diagnostic (error_diagnostic l file_id agent ctx e))]
                    else if n = 100 then [Normalized (Diagnostic (cap_diagnostic l file_id agent total_lines ctx 101))]
                    else [])) (handle_error l file_id agent total_lines ctx e st)
         \<and> error_inv (n + 1) (handle_error l file_id agent total_lines ctx e st)"
proof -
  have n: "bs_parse_error_count st = n" "bs_cap_exceeded st = (100 < n)"
    using assms(2) by (simp_all add: error_inv_def)
  consider "n < 100" | "n = 100" | "100 < n" by linarith
  then show ?thesis
    by cases
      (use assms n in \<open>simp_all add: handle_error_def Let_def MAX_PARSE_ERRORS_PER_FILE_def batch_inv_push_plain\<close>,
       simp_all add: error_inv_def)
qed

lemma batch_inv_lines:
  "batch_inv l K refs st \<Longrightarrow> error_inv n st \<Longrightarrow> (\<And>t. t \<in> set ts \<Longrightarrow> line_models l a t \<subseteq> K)
   \<Longrightarrow> batch_inv l K (refs @ batch_reference l file_id agent a total_lines n ts)
        (fold (handle_line l file_id agent a total_lines) ts st)"
proof (induction ts arbitrary: refs st n)
  case (Cons t ts)
  let ?st = "note_turn_context l agent t st"
  have models: "line_models l a t \<subseteq> K" using Cons.prems(3) by simp
  then have inv: "batch_inv l K refs ?st"
    using Cons.prems(1) by (intro batch_inv_turn_context) (auto simp: line_models_def)
  have err: "error_inv n ?st" using Cons.prems(2) by simp
  show ?case
  proof (cases "ad_parse_line a (tl_context t) (tl_text t)")
    case (Inl e)
    show ?thesis
      using Cons.IH [OF handle_error_inv [OF inv err, THEN conjunct1] handle_error_inv [OF inv err, THEN conjunct2]]
        Cons.prems(3) Inl
      by (simp add: handle_line_def)
  next
    case (Inr evs)
    then have "batch_inv l K (refs @ evs) (fold (handle_event l) evs ?st)"
      using models by (intro batch_inv_events [OF inv]) (auto simp: line_models_def)
    from Cons.IH [OF this] err Cons.prems(3) Inr show ?thesis
      by (simp add: handle_line_def)
  qed
qed simp

lemma batch_inv_parse_lines:
  "batch_inv l (known_models l persisted a lines)
     (batch_reference l file_id agent a (length lines) 0 lines) (parse_lines l persisted file_id agent a lines)"
proof -
  let ?st = "batch_start (if agent = Codex then persisted else None)"
  have "batch_inv l (known_models l persisted a lines) [] ?st" "error_inv 0 ?st"
    by (auto simp: batch_inv_def batch_start_def known_models_def entry_of_def error_inv_def)
  moreover have "\<And>t. t \<in> set lines \<Longrightarrow> line_models l a t \<subseteq> known_models l persisted a lines"
    by (auto simp: known_models_def)
  ultimately have "batch_inv l (known_models l persisted a lines)
      ([] @ batch_reference l file_id agent a (length lines) 0 lines)
      (fold (handle_line l file_id agent a (length lines)) lines ?st)"
    by (rule batch_inv_lines)
  then show ?thesis
    by (simp add: parse_lines_def)
qed

lemma resolved_with_model:
  assumes "list_all2 (model_resolved l K) refs evs" "pending_ok l refs idx" "m \<in> K"
  shows "list_all2 (model_resolved l K) refs (evs[idx := with_model m (evs ! idx)])"
proof -
  obtain s where s: "idx < length refs" "refs ! idx = Codex_Snapshot s" "normalized_codex_event_model l (cs_model s) = None"
    using assms(2) by (auto simp: pending_ok_def split: parsed_log_event.splits)
  then obtain x where "evs ! idx = Codex_Snapshot (s\<lparr>cs_model := x\<rparr>)"
    using list_all2_nthD [OF assms(1) s(1)] by auto
  with s assms(3) have "model_resolved l K (refs ! idx) (with_model m (evs ! idx))"
    by (auto simp: with_model_def intro: exI [of _ "Some m"])
  then show ?thesis
    using assms(1) list_all2_update_cong [of "model_resolved l K" refs evs "refs ! idx" _ idx] by simp
qed

lemma resolved_fold_with_model:
  "list_all2 (model_resolved l K) refs evs \<Longrightarrow> list_all (pending_ok l refs) idxs \<Longrightarrow> m \<in> K
   \<Longrightarrow> list_all2 (model_resolved l K) refs (fold (\<lambda>idx evs. evs[idx := with_model m (evs ! idx)]) idxs evs)"
  by (induction idxs arbitrary: evs) (simp_all add: resolved_with_model)

lemma all_models_known: "batch_inv l K refs st \<Longrightarrow> set (all_models st sid idxs) \<subseteq> K"
  by (auto simp: all_models_def batch_inv_def pending_path_models_def split: parsed_log_event.splits)

lemma backfill_session_resolved:
  assumes inv: "batch_inv l K refs st" and "(sid, idxs) \<in> set (bs_session_pending st)"
    and "list_all2 (model_resolved l K) refs evs"
  shows "list_all2 (model_resolved l K) refs (backfill_session st (sid, idxs) evs)"
proof (cases "all_models st sid idxs")
  case (Cons m ms)
  moreover have "m \<in> K" using all_models_known [OF inv, of sid idxs] Cons by simp
  moreover have "list_all (pending_ok l refs) idxs"
    using inv assms(2) by (auto simp: batch_inv_def)
  ultimately show ?thesis
    using assms(3) by (cases ms) (simp_all add: backfill_session_def resolved_fold_with_model)
qed (simp add: backfill_session_def assms(3))

lemma backfill_resolved:
  assumes "batch_inv l K refs st"
  shows "list_all2 (model_resolved l K) refs (backfill agent st)"
proof -
  have "list_all2 (model_resolved l K) refs (fold (backfill_session st) entries evs)"
    if "set entries \<subseteq> set (bs_session_pending st)" "list_all2 (model_resolved l K) refs evs" for entries evs
    using that backfill_session_resolved [OF assms]
    by (induction entries arbitrary: evs) auto
  with assms show ?thesis
    by (simp add: backfill_def batch_inv_def)
qed

text \<open>
  C20. A batch of lines yields exactly the parsed events in line order, one diagnostic for each of the
  first hundred failing lines and a single summary for all the others, and of these events only the
  model of a snapshot may differ from what the adapter gave: a snapshot that names a model keeps it,
  and a model that is filled in, by inheritance or by the backfill, is one the batch mentions or the
  database had for the file.
\<close>

theorem batch_models_sound:
  "list_all2 (model_resolved l (known_models l persisted a lines))
     (batch_reference l file_id agent a (length lines) 0 lines)
     (parse_events_with_codex_model_context l persisted file_id agent a lines)"
  unfolding parse_events_with_codex_model_context_def
  by (rule backfill_resolved [OF batch_inv_parse_lines])

section \<open>Completeness of the backfill\<close>

text \<open>
  In the log of one session: every mentioned model is on record for the session or for the path, and
  every snapshot that has no model yet is pending.
\<close>

definition on_record :: "string \<Rightarrow> string \<Rightarrow> batch_state \<Rightarrow> string set" where
  "on_record path sid st =
     set (entry_of sid (bs_session_seen_models st)) \<union> set (entry_of path (bs_turn_context_models_by_path st))"

definition snapshot_at :: "string \<Rightarrow> parsed_log_event list \<Rightarrow> nat \<Rightarrow> bool" where
  "snapshot_at path evs i =
     (i < length evs
      \<and> (case evs ! i of Codex_Snapshot s \<Rightarrow> es_path (cs_source s) = path | _ \<Rightarrow> False))"

fun unmodelled :: "parsed_log_event \<Rightarrow> bool" where
  "unmodelled (Codex_Snapshot s) = (cs_model s = None)"
| "unmodelled _ = False"

definition session_inv :: "string \<Rightarrow> string \<Rightarrow> string set \<Rightarrow> batch_state \<Rightarrow> bool" where
  "session_inv path sid M st =
     (M \<subseteq> on_record path sid st
      \<and> (bs_session_pending st = [] \<or> (\<exists>idxs. idxs \<noteq> [] \<and> bs_session_pending st = [(sid, idxs)]))
      \<and> list_all (snapshot_at path (bs_parsed_events st)) (entry_of sid (bs_session_pending st))
      \<and> (\<forall>i < length (bs_parsed_events st).
           unmodelled (bs_parsed_events st ! i) \<longrightarrow> i \<in> set (entry_of sid (bs_session_pending st))))"

fun in_session :: "string \<Rightarrow> string \<Rightarrow> parsed_log_event \<Rightarrow> bool" where
  "in_session path sid (Codex_Snapshot s) = (es_path (cs_source s) = path \<and> cs_session_id s = sid)"
| "in_session path sid _ = True"

lemma session_inv_turn_context:
  "session_inv path sid M st \<Longrightarrow> pc_source_path (tl_context t) = path
   \<Longrightarrow> session_inv path sid (M \<union> set_option (extract_codex_turn_context_model l (tl_text t)))
        (note_turn_context l Codex t st)"
  by (auto simp: session_inv_def note_turn_context_def on_record_def snapshot_at_def split: option.splits)

lemma session_inv_push:
  assumes "session_inv path sid M st" "\<not> unmodelled e"
  shows "session_inv path sid M (push_event e st)"
  using assms by (auto simp: session_inv_def push_event_def on_record_def snapshot_at_def nth_append list_all_iff)

lemma session_inv_flags [simp]:
  "session_inv path sid M (st\<lparr>bs_parse_error_count := x\<rparr>) = session_inv path sid M st"
  "session_inv path sid M (st\<lparr>bs_cap_exceeded := b\<rparr>) = session_inv path sid M st"
  by (simp_all add: session_inv_def on_record_def snapshot_at_def)

lemma session_inv_seen:
  "session_inv path sid M st
   \<Longrightarrow> session_inv path sid (insert m M)
        (st\<lparr>bs_session_seen_models := upd_entry (set_insert m) sid (bs_session_seen_models st)\<rparr>)"
  by (auto simp: session_inv_def on_record_def snapshot_at_def)

lemma session_inv_mono: "session_inv path sid M st \<Longrightarrow> N \<subseteq> M \<Longrightarrow> session_inv path sid N st"
  by (auto simp: session_inv_def)

lemma session_inv_current [simp]:
  "session_inv path sid M (st\<lparr>bs_current_codex_model := x\<rparr>) = session_inv path sid M st"
  by (simp add: session_inv_def on_record_def snapshot_at_def)

lemma session_inv_pend:
  assumes "session_inv path sid M st" "es_path (cs_source s) = path" "cs_model s = None"
  shows "session_inv path sid M
           (push_event (Codex_Snapshot s)
             (st\<lparr>bs_session_pending := upd_entry (\<lambda>is. is @ [length (bs_parsed_events st)]) sid (bs_session_pending st)\<rparr>))"
  using assms
  by (auto simp: session_inv_def push_event_def on_record_def snapshot_at_def nth_append list_all_iff
           entry_of_def less_Suc_eq)

lemma session_inv_snapshot:
  assumes inv: "session_inv path sid M st" and e: "in_session path sid (Codex_Snapshot s)"
  shows "session_inv path sid (M \<union> set_option (explicit_model l (Codex_Snapshot s))) (handle_snapshot l s st)"
proof (cases "normalized_codex_event_model l (cs_model s)")
  case None
  show ?thesis
  proof (cases "bs_current_codex_model st")
    case cur: None
    with None e session_inv_pend [OF inv, of "s\<lparr>cs_model := None\<rparr>"] show ?thesis
      by (simp add: handle_snapshot_def effective_codex_model_def)
  next
    case (Some m)
    have "session_inv path sid M (push_event (Codex_Snapshot (s\<lparr>cs_model := Some m\<rparr>))
            (st\<lparr>bs_session_seen_models := upd_entry (set_insert m) sid (bs_session_seen_models st)\<rparr>))"
      by (rule session_inv_push [OF session_inv_mono [OF session_inv_seen [OF inv]]]) auto
    with None Some e show ?thesis
      by (simp add: handle_snapshot_def effective_codex_model_def)
  qed
next
  case (Some m)
  have "session_inv path sid (insert m M) (push_event (Codex_Snapshot (s\<lparr>cs_model := Some m\<rparr>))
          (st\<lparr>bs_current_codex_model := Some m,
              bs_session_seen_models := upd_entry (set_insert m) sid (bs_session_seen_models st)\<rparr>))"
    using session_inv_seen [of path sid M "st\<lparr>bs_current_codex_model := Some m\<rparr>" m] inv
    by (intro session_inv_push) simp_all
  with Some e show ?thesis
    by (simp add: handle_snapshot_def)
qed

lemma session_inv_events:
  "session_inv path sid M st \<Longrightarrow> list_all (in_session path sid) evs
   \<Longrightarrow> session_inv path sid (M \<union> \<Union> (set_option ` explicit_model l ` set evs)) (fold (handle_event l) evs st)"
proof (induction evs arbitrary: M st)
  case (Cons e evs)
  have "session_inv path sid (M \<union> set_option (explicit_model l e)) (handle_event l e st)"
    using Cons.prems
    by (cases e) (auto simp: session_inv_snapshot session_inv_push simp del: explicit_model.simps(1))
  from Cons.IH [OF this] Cons.prems(2) show ?case by (simp add: Un_assoc)
qed simp

lemma session_inv_error:
  "session_inv path sid M st \<Longrightarrow> session_inv path sid M (handle_error l file_id agent n ctx e st)"
  by (auto simp: handle_error_def Let_def intro!: session_inv_push)

definition line_in_session :: "adapter \<Rightarrow> string \<Rightarrow> string \<Rightarrow> tailed_line \<Rightarrow> bool" where
  "line_in_session a path sid t =
     (pc_source_path (tl_context t) = path
      \<and> (case ad_parse_line a (tl_context t) (tl_text t) of
           Inr evs \<Rightarrow> list_all (in_session path sid) evs | Inl _ \<Rightarrow> True))"

lemma session_inv_line:
  assumes inv: "session_inv path sid M st" and t: "line_in_session a path sid t"
  shows "session_inv path sid (M \<union> line_models l a t) (handle_line l file_id Codex a n t st)"
proof -
  have "session_inv path sid (M \<union> set_option (extract_codex_turn_context_model l (tl_text t)))
          (note_turn_context l Codex t st)"
    using session_inv_turn_context [OF inv] t by (simp add: line_in_session_def)
  then show ?thesis
    using t
    by (auto simp: handle_line_def line_models_def line_in_session_def Un_assoc
             dest: session_inv_events session_inv_error split: sum.splits)
qed

lemma session_inv_lines:
  "session_inv path sid M st \<Longrightarrow> list_all (line_in_session a path sid) ts
   \<Longrightarrow> session_inv path sid (M \<union> \<Union> (line_models l a ` set ts)) (fold (handle_line l file_id Codex a n) ts st)"
proof (induction ts arbitrary: M st)
  case (Cons t ts)
  then show ?case
    using Cons.IH [OF session_inv_line [OF Cons.prems(1)]] by (simp add: Un_assoc)
qed simp

lemma fold_with_model_nth:
  "i < length evs \<Longrightarrow>
   fold (\<lambda>idx evs. evs[idx := with_model m (evs ! idx)]) idxs evs ! i
     = (if i \<in> set idxs then with_model m (evs ! i) else evs ! i)"
proof (induction idxs arbitrary: evs)
  case (Cons j idxs)
  have twice: "with_model m (with_model m e) = with_model m e" for e
    by (cases e) (simp_all add: with_model_def)
  show ?case
    using Cons.IH [of "evs[j := with_model m (evs ! j)]"] Cons.prems
    by (cases "j = i") (simp_all add: twice)
qed simp

lemma length_fold_with_model [simp]:
  "length (fold (\<lambda>idx evs. evs[idx := with_model m (evs ! idx)]) idxs evs) = length evs"
  by (induction idxs arbitrary: evs) simp_all

lemma single_list: "distinct xs \<Longrightarrow> set xs = {m} \<Longrightarrow> xs = [m]"
  by (cases xs) (auto simp: subset_singleton_iff)

lemma backfill_complete:
  assumes inv: "session_inv path sid {m} st" and known: "batch_inv l {m} refs st"
    and i: "i < length (bs_parsed_events st)"
  shows "\<not> unmodelled (backfill Codex st ! i)"
proof (cases "bs_session_pending st = []")
  case True
  then show ?thesis
    using inv i by (auto simp: session_inv_def backfill_def entry_of_def)
next
  case False
  then obtain idxs where idxs: "idxs \<noteq> []" "bs_session_pending st = [(sid, idxs)]"
    using inv by (auto simp: session_inv_def)
  have path: "pending_path_models st j = entry_of path (bs_turn_context_models_by_path st)" if "j \<in> set idxs" for j
  proof -
    have "snapshot_at path (bs_parsed_events st) j"
      using inv idxs that by (simp add: session_inv_def entry_of_def list_all_iff)
    then show ?thesis
      by (simp add: snapshot_at_def pending_path_models_def split: parsed_log_event.splits)
  qed
  have "set (all_models st sid idxs) = on_record path sid st"
  proof -
    have "set (concat (map (pending_path_models st) idxs)) = set (entry_of path (bs_turn_context_models_by_path st))"
      using idxs(1) path by (simp add: UN_constant cong: SUP_cong_simp)
    then show ?thesis by (simp add: all_models_def on_record_def)
  qed
  then have "set (all_models st sid idxs) = {m}"
    using inv all_models_known [OF known, of sid idxs] by (auto simp: session_inv_def)
  then have models: "all_models st sid idxs = [m]"
    by (intro single_list) (simp_all add: all_models_def)
  have "backfill Codex st ! i = (if i \<in> set idxs then with_model m (bs_parsed_events st ! i) else bs_parsed_events st ! i)"
    using i by (simp add: backfill_def idxs backfill_session_def models fold_with_model_nth)
  moreover have "\<not> unmodelled (with_model m e)" for e
    by (cases e) (simp_all add: with_model_def)
  ultimately show ?thesis
    using inv i idxs by (auto simp: session_inv_def entry_of_def)
qed

text \<open>
  In the log of one Codex session that mentions exactly one model and has none on record yet,
  every snapshot of the batch ends up with that model, those before the first mention included: a
  turn context that arrives after the first token counts resolves them.
\<close>

theorem single_model_resolves:
  assumes "known_models l None a lines = {m}"
    and "list_all (line_in_session a path sid) lines"
  shows "list_all (\<lambda>e. \<not> unmodelled e) (parse_events_with_codex_model_context l None file_id Codex a lines)"
proof -
  let ?st = "parse_lines l None file_id Codex a lines"
  have known: "batch_inv l {m} (batch_reference l file_id Codex a (length lines) 0 lines) ?st"
    using batch_inv_parse_lines [of l None a lines file_id Codex] assms(1) by simp
  have "session_inv path sid {} (batch_start None)"
    by (simp add: session_inv_def batch_start_def entry_of_def on_record_def)
  from session_inv_lines [OF this assms(2), of l file_id "length lines"] assms(1)
  have "session_inv path sid {m} ?st"
    by (simp add: parse_lines_def known_models_def)
  from backfill_complete [OF this known] show ?thesis
    using list_all2_lengthD [OF backfill_resolved [OF known, of Codex]] known
    by (auto simp: parse_events_with_codex_model_context_def list_all_length batch_inv_def dest: list_all2_lengthD)
qed

definition token_line :: "string \<Rightarrow> codex_line" where
  "token_line s =
     \<lparr>xl_session_id = Some ''s'', xl_timestamp = [], xl_model = None, xl_last_token_usage = None,
      xl_total_token_usage = Some \<lparr>cx_input_tokens = 100, cx_cached_input_tokens = 40, cx_output_tokens = 20,
        cx_reasoning_output_tokens = 5, cx_total_tokens = 120\<rparr>,
      xl_cost_usd = None\<rparr>"

definition turn_lib :: log_lib where
  "turn_lib = (sample_lib sample_line token_line)
     \<lparr>ll_json := (\<lambda>s. if s = ''turn'' then Some (J_Object [(''type'', J_String ''turn_context''),
                     (''payload'', J_Object [(''model'', J_String ''gpt-5'')])]) else None),
      ll_codex_line := (\<lambda>s. if s = ''turn'' then Inl [] else Inr (token_line s)),
      ll_codex_envelope := (\<lambda>_. Inr \<lparr>xe_timestamp = [], xe_event_type = ''turn_context'', xe_payload = J_Null\<rparr>)\<rparr>"

definition turn_batch :: "tailed_line list" where
  "turn_batch = [\<lparr>tl_text = ''tokens'', tl_context = sample_ctx\<rparr>, \<lparr>tl_text = ''turn'', tl_context = sample_ctx\<rparr>]"

theorem single_model_resolves_witness:
  "list_all (\<lambda>e. \<not> unmodelled e)
     (parse_events_with_codex_model_context turn_lib None ''f'' Codex (codex_adapter turn_lib) turn_batch)
   \<and> length (parse_events_with_codex_model_context turn_lib None ''f'' Codex (codex_adapter turn_lib) turn_batch) = 1"
proof -
  have tokens: "codex_parse_line turn_lib sample_ctx ''tokens'' = Inr [Codex_Snapshot s] \<Longrightarrow>
    es_path (cs_source s) = ''/p.jsonl'' \<and> cs_session_id s = ''s'' \<and> cs_model s = None" for s
    by (auto simp: codex_parse_line_def snapshot_from_legacy_line_def snapshot_from_usage_def turn_lib_def
             sample_lib_def token_line_def source_of_def sample_ctx_def)
  obtain s where s: "codex_parse_line turn_lib sample_ctx ''tokens'' = Inr [Codex_Snapshot s]"
    by (simp add: codex_parse_line_def snapshot_from_legacy_line_def snapshot_from_usage_def turn_lib_def
             sample_lib_def token_line_def)
  have turn: "codex_parse_line turn_lib sample_ctx ''turn'' = Inr []"
    by (simp add: codex_parse_line_def codex_event_line_def turn_lib_def sample_lib_def)
  have ctx: "extract_codex_turn_context_model turn_lib ''turn'' = Some ''gpt-5''"
    "extract_codex_turn_context_model turn_lib ''tokens'' = None"
    by (simp_all add: extract_codex_turn_context_model_def turn_lib_def sample_lib_def)
  have "known_models turn_lib None (codex_adapter turn_lib) turn_batch = {''gpt-5''}"
    using tokens [OF s]
    by (simp add: known_models_def turn_batch_def line_models_def codex_adapter_def s turn ctx
             normalized_codex_event_model_def)
  moreover have "list_all (line_in_session (codex_adapter turn_lib) ''/p.jsonl'' ''s'') turn_batch"
    using tokens [OF s] by (simp add: turn_batch_def line_in_session_def codex_adapter_def s turn sample_ctx_def [symmetric])
      (simp add: sample_ctx_def)
  moreover have "length (batch_reference turn_lib ''f'' Codex (codex_adapter turn_lib) 2 0 turn_batch) = 1"
    by (simp add: turn_batch_def codex_adapter_def s turn)
  moreover have "length turn_batch = 2" by (simp add: turn_batch_def)
  ultimately show ?thesis
    using single_model_resolves [of turn_lib "codex_adapter turn_lib" turn_batch "''gpt-5''" "''/p.jsonl''" "''s''" "''f''"]
      list_all2_lengthD [OF backfill_resolved [OF batch_inv_parse_lines
        [of turn_lib None "codex_adapter turn_lib" turn_batch "''f''" Codex], of Codex]]
    by (simp add: parse_events_with_codex_model_context_def)
qed

section \<open>Partition and cost\<close>

text \<open>The price catalog of \<open>busytok-pricing\<close> is a parameter: a version and an estimate in floating point.\<close>

datatype cost_mode = Auto | Calculate | Display

record token_usage =
  tk_input_tokens :: "64 word"
  tk_output_tokens :: "64 word"
  tk_cached_input_tokens :: "64 word"
  tk_cache_creation_tokens :: "64 word"
  tk_reasoning_tokens :: "64 word"

record price_catalog =
  pk_version :: string
  pk_estimate :: "string \<Rightarrow> token_usage \<Rightarrow> f64_bits option \<Rightarrow> string option \<Rightarrow> cost_mode \<Rightarrow> f64_bits option"

definition enrich_cost :: "price_catalog \<Rightarrow> cost_mode \<Rightarrow> usage_event \<Rightarrow> usage_event" where
  "enrich_cost catalog mode event =
     (let t = ue_tokens event; c = ue_cost event;
          usage = \<lparr>tk_input_tokens = word_of_int (et_input_tokens t), tk_output_tokens = word_of_int (et_output_tokens t),
                   tk_cached_input_tokens = word_of_int (et_cached_input_tokens t),
                   tk_cache_creation_tokens = word_of_int (et_cache_creation_tokens t),
                   tk_reasoning_tokens = word_of_int (et_reasoning_tokens t)\<rparr>;
          estimate = pk_estimate catalog (unwrap_or [] (em_model (ue_model event))) usage (ec_cost_usd c)
                       (em_speed (ue_model event)) mode;
          c = (case (ec_estimated_cost_usd c, estimate) of
                 (None, Some x) \<Rightarrow>
                   (let c = c\<lparr>ec_estimated_cost_usd := Some x\<rparr> in
                    if ec_cost_usd c = None
                    then c\<lparr>ec_cost_source := Some ''estimated'', ec_cost_usd := Some x\<rparr> else c)
               | _ \<Rightarrow> c)
      in event\<lparr>ue_cost := c\<lparr>ec_price_catalog_version := Some (pk_version catalog)\<rparr>\<rparr>)"

record partitioned_events =
  pe_usage_events :: "usage_event list"
  pe_tool_events :: "tool_event list"
  pe_diagnostic_events :: "diagnostic_event list"
  pe_parse_errors :: "string list"
  pe_codex_snapshots :: "codex_snapshot list"
  pe_parse_error_count :: nat

fun partition_event ::
  "price_catalog \<Rightarrow> string \<Rightarrow> parsed_log_event \<Rightarrow> partitioned_events \<Rightarrow> partitioned_events" where
  "partition_event catalog source_id (Normalized (Usage u)) p =
     p\<lparr>pe_usage_events := pe_usage_events p @ [enrich_cost catalog Auto u]\<rparr>"
| "partition_event catalog source_id (Normalized (Diagnostic d)) p =
     (let p = (if de_category d = ''parse_error''
               then p\<lparr>pe_parse_error_count := pe_parse_error_count p + 1,
                      pe_parse_errors := pe_parse_errors p @ [de_message d]\<rparr> else p);
          d = (if de_source_id d = Some [] then d\<lparr>de_source_id := Some source_id\<rparr> else d)
      in p\<lparr>pe_diagnostic_events := pe_diagnostic_events p @ [d]\<rparr>)"
| "partition_event catalog source_id (Normalized (Tool t)) p =
     p\<lparr>pe_tool_events := pe_tool_events p @ [t]\<rparr>"
| "partition_event catalog source_id (Codex_Snapshot s) p =
     p\<lparr>pe_codex_snapshots := pe_codex_snapshots p @ [s]\<rparr>"

definition partition_parsed_events ::
  "price_catalog \<Rightarrow> parsed_log_event list \<Rightarrow> string \<Rightarrow> partitioned_events" where
  "partition_parsed_events catalog parsed source_id =
     fold (partition_event catalog source_id) parsed
       \<lparr>pe_usage_events = [], pe_tool_events = [], pe_diagnostic_events = [], pe_parse_errors = [],
        pe_codex_snapshots = [], pe_parse_error_count = 0\<rparr>"

text \<open>Enrichment touches the cost fields only, and partitioning loses and reorders nothing.\<close>

lemma enrich_cost_keeps:
  "ue_tokens (enrich_cost c m e) = ue_tokens e" "ue_id (enrich_cost c m e) = ue_id e"
  "ue_dedupe_key (enrich_cost c m e) = ue_dedupe_key e" "event_metrics (enrich_cost c m e) = event_metrics e"
  by (simp_all add: enrich_cost_def Let_def event_metrics_def)

lemma source_cost_kept: "ec_cost_usd (ue_cost e) = Some x \<Longrightarrow> ec_cost_usd (ue_cost (enrich_cost c m e)) = Some x"
  by (auto simp: enrich_cost_def Let_def split: option.splits)

fun usage_of :: "parsed_log_event \<Rightarrow> usage_event list" where
  "usage_of (Normalized (Usage u)) = [u]"
| "usage_of _ = []"

fun snapshot_of_event :: "parsed_log_event \<Rightarrow> codex_snapshot list" where
  "snapshot_of_event (Codex_Snapshot s) = [s]"
| "snapshot_of_event _ = []"

lemma partition_event_adds:
  "pe_usage_events (partition_event catalog sid e p) = pe_usage_events p @ map (enrich_cost catalog Auto) (usage_of e)
   \<and> pe_codex_snapshots (partition_event catalog sid e p) = pe_codex_snapshots p @ snapshot_of_event e"
  by (induction catalog sid e p rule: partition_event.induct) (simp_all add: Let_def)

lemma partition_fold:
  "pe_usage_events (fold (partition_event catalog sid) evs p)
     = pe_usage_events p @ map (enrich_cost catalog Auto) (concat (map usage_of evs))
   \<and> pe_codex_snapshots (fold (partition_event catalog sid) evs p)
     = pe_codex_snapshots p @ concat (map snapshot_of_event evs)"
  by (induction evs arbitrary: p) (simp_all add: partition_event_adds)

lemma partition_exact:
  "pe_usage_events (partition_parsed_events catalog evs sid) = map (enrich_cost catalog Auto) (concat (map usage_of evs))"
  "pe_codex_snapshots (partition_parsed_events catalog evs sid) = concat (map snapshot_of_event evs)"
  by (simp_all add: partition_parsed_events_def partition_fold)

end
