(* ===== verification/Codex_Deltas.thy ===== *)
theory Codex_Deltas
  imports Codex_Batch
begin

text \<open>
  From cumulative Codex counters to usage events: \<open>build_codex_delta_events\<close> and its helpers in
  \<open>busytok-runtime/src/scan.rs\<close>, over the snapshot table of \<open>busytok-store\<close> (\<open>db.rs\<close>,
  \<open>repository.rs\<close>). SHA-256 and the clock are parameters; reads of the table do not fail.
\<close>

section \<open>The snapshot table\<close>

record codex_row =
  cr_id :: string
  cr_source_file_id :: string
  cr_source_line :: int
  cr_source_offset_start :: int
  cr_source_offset_end :: int
  cr_session_id :: string
  cr_turn_id :: "string option"
  cr_token_event_ordinal :: int
  cr_input_tokens :: int
  cr_cached_input_tokens :: int
  cr_output_tokens :: int
  cr_reasoning_tokens :: int
  cr_total_tokens :: int
  cr_model :: "string option"
  cr_raw_usage_json :: string
  cr_emitted_event_id :: "string option"
  cr_created_at_ms :: int
  cr_updated_at_ms :: int

definition codex_row_id :: "string \<Rightarrow> string \<Rightarrow> string option \<Rightarrow> int \<Rightarrow> string" where
  "codex_row_id file_id session_id turn_id ordinal =
     ''codex-snap:'' @ file_id @ '':'' @ session_id @ '':'' @ unwrap_or ''none'' turn_id @ '':'' @ show_int ordinal"

definition from_domain :: "int \<Rightarrow> codex_snapshot \<Rightarrow> int \<Rightarrow> string option \<Rightarrow> codex_row" where
  "from_domain now s ordinal emitted_event_id =
     \<lparr>cr_id = codex_row_id (es_file_id (cs_source s)) (cs_session_id s) (cs_turn_id s) ordinal,
      cr_source_file_id = es_file_id (cs_source s), cr_source_line = int (es_line (cs_source s)),
      cr_source_offset_start = int (es_offset_start (cs_source s)),
      cr_source_offset_end = int (es_offset_end (cs_source s)), cr_session_id = cs_session_id s,
      cr_turn_id = cs_turn_id s, cr_token_event_ordinal = ordinal, cr_input_tokens = cs_input_tokens s,
      cr_cached_input_tokens = cs_cached_input_tokens s, cr_output_tokens = cs_output_tokens s,
      cr_reasoning_tokens = cs_reasoning_tokens s, cr_total_tokens = cs_total_tokens s,
      cr_model = cs_model s, cr_raw_usage_json = cs_raw_usage_json s,
      cr_emitted_event_id = emitted_event_id, cr_created_at_ms = now, cr_updated_at_ms = now\<rparr>"

definition upsert_codex_snapshot :: "codex_row \<Rightarrow> codex_row list \<Rightarrow> codex_row list" where
  "upsert_codex_snapshot row db =
     (if list_ex (\<lambda>r. cr_id r = cr_id row) db
      then upd_where (\<lambda>r. cr_id r = cr_id row)
             (\<lambda>r. r\<lparr>cr_input_tokens := cr_input_tokens row, cr_cached_input_tokens := cr_cached_input_tokens row,
                    cr_output_tokens := cr_output_tokens row, cr_reasoning_tokens := cr_reasoning_tokens row,
                    cr_total_tokens := cr_total_tokens row, cr_model := cr_model row,
                    cr_raw_usage_json := cr_raw_usage_json row,
                    cr_emitted_event_id := cr_emitted_event_id row,
                    cr_updated_at_ms := cr_updated_at_ms row\<rparr>) db
      else db @ [row])"

text \<open>The rows of a scope; an empty turn id asks for a null one.\<close>

definition scope_rows :: "string \<Rightarrow> string \<Rightarrow> string \<Rightarrow> codex_row list \<Rightarrow> codex_row list" where
  "scope_rows file_id session_id turn_id db =
     filter (\<lambda>r. cr_source_file_id r = file_id \<and> cr_session_id r = session_id
                 \<and> cr_turn_id r = (if turn_id = [] then None else Some turn_id)) db"

fun max_ordinal :: "codex_row list \<Rightarrow> int" where
  "max_ordinal [] = 0"
| "max_ordinal (r # rs) = fold (\<lambda>r m. max (cr_token_event_ordinal r) m) rs (cr_token_event_ordinal r)"

definition next_codex_ordinal :: "string \<Rightarrow> string \<Rightarrow> string \<Rightarrow> codex_row list \<Rightarrow> int" where
  "next_codex_ordinal file_id session_id turn_id db =
     max_ordinal (scope_rows file_id session_id turn_id db) + 1"

definition get_latest_codex_snapshot :: "string \<Rightarrow> string \<Rightarrow> string \<Rightarrow> codex_row list \<Rightarrow> codex_row option" where
  "get_latest_codex_snapshot file_id session_id turn_id db =
     (case sort_by (\<lambda>r s. cr_token_event_ordinal s \<le> cr_token_event_ordinal r)
             (scope_rows file_id session_id turn_id db) of
        [] \<Rightarrow> None | r # _ \<Rightarrow> Some r)"

definition latest_codex_snapshot_model_for_source_file :: "string \<Rightarrow> codex_row list \<Rightarrow> string option" where
  "latest_codex_snapshot_model_for_source_file file_id db =
     (case sort_by (\<lambda>r s. cr_created_at_ms s < cr_created_at_ms r
                        \<or> cr_created_at_ms s = cr_created_at_ms r
                           \<and> cr_token_event_ordinal s \<le> cr_token_event_ordinal r)
             (filter (\<lambda>r. cr_source_file_id r = file_id \<and> cr_model r \<noteq> None \<and> cr_model r \<noteq> Some []) db) of
        [] \<Rightarrow> None | r # _ \<Rightarrow> cr_model r)"

section \<open>One snapshot\<close>

text \<open>Input, cached, output, reasoning, total.\<close>

type_synonym delta = "int \<times> int \<times> int \<times> int \<times> int"

definition explicit_zero_component_codex_delta :: "codex_snapshot \<Rightarrow> bool" where
  "explicit_zero_component_codex_delta s =
     (cs_delta_input_tokens s = Some 0 \<and> cs_delta_cached_input_tokens s = Some 0
      \<and> cs_delta_output_tokens s = Some 0 \<and> cs_delta_reasoning_tokens s = Some 0)"

definition compute_codex_delta :: "codex_snapshot \<Rightarrow> codex_row option \<Rightarrow> delta" where
  "compute_codex_delta current previous =
     (let (i, c, o', r, t) = (case previous of
            Some p \<Rightarrow> (cr_input_tokens p, cr_cached_input_tokens p, cr_output_tokens p,
                       cr_reasoning_tokens p, cr_total_tokens p)
          | None \<Rightarrow> (0, 0, 0, 0, 0))
      in (max 0 (cs_input_tokens current - i), max 0 (cs_cached_input_tokens current - c),
          max 0 (cs_output_tokens current - o'), max 0 (cs_reasoning_tokens current - r),
          max 0 (cs_total_tokens current - t)))"

definition codex_snapshot_delta :: "codex_snapshot \<Rightarrow> codex_row option \<Rightarrow> delta" where
  "codex_snapshot_delta current previous =
     (case (cs_delta_input_tokens current, cs_delta_cached_input_tokens current,
            cs_delta_output_tokens current, cs_delta_reasoning_tokens current,
            cs_delta_total_tokens current) of
        (Some i, Some c, Some o', Some r, Some t) \<Rightarrow> (max 0 i, max 0 c, max 0 o', max 0 r, max 0 t)
      | _ \<Rightarrow> compute_codex_delta current previous)"

definition resolve_codex_event_model :: "log_lib \<Rightarrow> codex_snapshot \<Rightarrow> codex_row option \<Rightarrow> string option" where
  "resolve_codex_event_model l s previous =
     normalized_codex_event_model l (coalesce (cs_model s) (Option.bind previous cr_model))"

definition codex_usage_event_id :: "(string \<Rightarrow> string) \<Rightarrow> string \<Rightarrow> int \<Rightarrow> delta \<Rightarrow> string" where
  "codex_usage_event_id sha256_hex session_id timestamp_ms d =
     (case d of (i, c, o', r, t) \<Rightarrow>
        ''codex-usage:'' @ sha256_hex
          (''codex-usage'' @ [CHR 0x00] @ session_id @ [CHR 0x00] @ le_bytes timestamp_ms @ [CHR 0x00]
           @ le_bytes i @ le_bytes c @ le_bytes o' @ le_bytes r @ le_bytes t))"

definition codex_fingerprint :: "codex_snapshot \<Rightarrow> delta \<Rightarrow> fingerprint" where
  "codex_fingerprint s d =
     (case d of (i, c, o', r, t) \<Rightarrow>
        \<lparr>fp_agent = ''codex'', fp_session_id = cs_session_id s,
         fp_turn_id = Some (unwrap_or [] (cs_turn_id s)), fp_request_id = None, fp_message_id = None,
         fp_input_tokens = i, fp_output_tokens = o', fp_total_tokens = t, fp_exclude_tokens = False\<rparr>)"

definition codex_event :: "log_lib \<Rightarrow> int \<Rightarrow> codex_snapshot \<Rightarrow> codex_row option \<Rightarrow> usage_event" where
  "codex_event l now s previous =
     (let d = codex_snapshot_delta s previous in
      case d of (i, c, o', r, t) \<Rightarrow>
      (let unified = from_raw Codex_Shape i c 0
       in \<lparr>ue_id = codex_usage_event_id (ll_sha256_hex l) (cs_session_id s) (cs_timestamp_ms s) d,
           ue_agent = Codex, ue_source = cs_source s, ue_session_id = cs_session_id s,
           ue_turn_id = cs_turn_id s, ue_source_request_id = None, ue_message_id = None,
           ue_timestamp_ms = cs_timestamp_ms s,
           ue_project = \<lparr>ep_project_path = None, ep_project_hash = None, ep_cwd = None\<rparr>,
           ue_model = \<lparr>em_model = resolve_codex_event_model l s previous,
             em_model_provider = cs_model_provider s, em_agent_version = None,
             em_client_kind = Some ''codex'', em_speed = None\<rparr>,
           ue_tokens = \<lparr>et_input_tokens = i, et_output_tokens = o', et_total_tokens = t,
             et_cached_input_tokens = c, et_cache_creation_tokens = 0, et_cache_read_tokens = c,
             et_reasoning_tokens = r, et_thoughts_tokens = 0, et_tool_tokens = 0\<rparr>,
           ue_shape = Codex_Shape, ue_prompt_input_total_tokens = cm_prompt_input_total_tokens unified,
           ue_prompt_input_non_cached_tokens = cm_prompt_input_non_cached_tokens unified,
           ue_cost = \<lparr>ec_cost_usd = None, ec_estimated_cost_usd = None, ec_cost_currency = Some ''USD'',
             ec_cost_source = Some ''unknown'', ec_price_catalog_version = None\<rparr>,
           ue_is_error = False, ue_error_type = None, ue_usage_limit_reset_time_ms = None,
           ue_raw_event_hash = metadata_event_hash (ll_sha256_hex l) (codex_fingerprint s d),
           ue_is_sidechain = False, ue_dedupe_key = None, ue_created_at_ms = now,
           ue_updated_at_ms = now\<rparr>))"

text \<open>The event a snapshot gives, if any: an explicit delta of zero components is a heartbeat.\<close>

definition emitted_event :: "log_lib \<Rightarrow> int \<Rightarrow> codex_snapshot \<Rightarrow> codex_row option \<Rightarrow> usage_event option" where
  "emitted_event l now s previous =
     (if explicit_zero_component_codex_delta s then None else Some (codex_event l now s previous))"

section \<open>A batch\<close>

type_synonym scope_id = "string \<times> string \<times> string option"
type_synonym scope_state = "scope_id \<Rightarrow> (int \<times> codex_row option) option"

definition scope_key :: "codex_snapshot \<Rightarrow> scope_id" where
  "scope_key s = (es_file_id (cs_source s), cs_session_id s, cs_turn_id s)"

text \<open>The ordinal and the baseline a scope starts with; a restarted file has neither.\<close>

definition scope_start :: "codex_row list \<Rightarrow> bool \<Rightarrow> scope_id \<Rightarrow> int \<times> codex_row option" where
  "scope_start db restarted key =
     (case key of (file_id, session_id, turn_id) \<Rightarrow>
        if restarted then (1, None)
        else (next_codex_ordinal file_id session_id (unwrap_or [] turn_id) db,
              get_latest_codex_snapshot file_id session_id (unwrap_or [] turn_id) db))"

definition load_scopes :: "codex_row list \<Rightarrow> codex_snapshot list \<Rightarrow> bool \<Rightarrow> scope_state" where
  "load_scopes db snapshots restarted =
     (\<lambda>key. if list_ex (\<lambda>s. scope_key s = key) snapshots then Some (scope_start db restarted key) else None)"

text \<open>\<open>now\<close> is read for the event and the baseline, \<open>row_now\<close> for the row to be stored.\<close>

record delta_clock =
  dc_now :: "codex_snapshot \<Rightarrow> int"
  dc_row_now :: "codex_snapshot \<Rightarrow> int"

fun delta_loop ::
  "log_lib \<Rightarrow> delta_clock \<Rightarrow> scope_state \<Rightarrow> codex_snapshot list \<Rightarrow> usage_event list \<times> codex_row list" where
  "delta_loop l clock scopes [] = ([], [])"
| "delta_loop l clock scopes (s # ss) =
     (let (ordinal, previous) = the (scopes (scope_key s));
          event = emitted_event l (dc_now clock s) s previous;
          event_id = map_option ue_id event;
          row = from_domain (dc_row_now clock s) s ordinal event_id;
          previous' = from_domain (dc_now clock s) s ordinal event_id;
          (events, rows) = delta_loop l clock (scopes(scope_key s \<mapsto> (ordinal + 1, Some previous'))) ss
      in (case event of Some e \<Rightarrow> e # events | None \<Rightarrow> events, row # rows))"

definition build_codex_delta_events ::
  "log_lib \<Rightarrow> delta_clock \<Rightarrow> codex_row list \<Rightarrow> codex_snapshot list \<Rightarrow> bool \<Rightarrow> usage_event list \<times> codex_row list" where
  "build_codex_delta_events l clock db snapshots restarted =
     delta_loop l clock (load_scopes db snapshots restarted) snapshots"

text \<open>A committed batch stores its rows.\<close>

definition store_rows :: "codex_row list \<Rightarrow> codex_row list \<Rightarrow> codex_row list" where
  "store_rows rows db = fold upsert_codex_snapshot rows db"

section \<open>Row ids\<close>

lemma digits_value_snoc: "digits_value (s @ [c]) = digits_value s * 10 + (of_char c - 48)"
  by (simp add: digits_value_def)

lemma digits_value_show_nat: "digits_value (show_nat n) = int n"
proof (induction n rule: show_nat.induct)
  case (1 n)
  have digit: "of_char (char_of (48 + m) :: char) = (48 + int m :: int)" if "m < 10" for m :: nat
  proof -
    have "(of_char (char_of (48 + m) :: char) :: int) = int (of_char (char_of (48 + m) :: char))"
      by (rule of_nat_of_char [symmetric])
    also have "\<dots> = 48 + int m"
      using that by (simp only: of_char_of) simp
    finally show ?thesis .
  qed
  show ?case
  proof (cases "n < 10")
    case True
    then show ?thesis by (subst show_nat.simps) (simp add: digits_value_def digit)
  next
    case False
    then have "digits_value (show_nat n) = int (n div 10) * 10 + int (n mod 10)"
      using 1 by (subst show_nat.simps) (simp add: digits_value_snoc digit)
    also have "\<dots> = int n"
      by (metis div_mult_mod_eq of_nat_add of_nat_mult of_nat_numeral)
    finally show ?thesis .
  qed
qed

lemma show_nat_digits: "c \<in> set (show_nat n) \<Longrightarrow> is_digit c"
proof (induction n rule: show_nat.induct)
  case (1 n)
  have "is_digit (char_of (48 + m))" if "m < 10" for m :: nat
    using that by (simp add: is_digit_def)
  with 1 show ?case
    by (subst (asm) show_nat.simps) (auto split: if_splits)
qed

lemma show_int_inj: "show_int m = show_int n \<Longrightarrow> m = n"
proof -
  assume eq: "show_int m = show_int n"
  have minus: "show_nat k \<noteq> CHR ''-'' # s" for k s
    using show_nat_digits [of "CHR ''-''" k] by (auto simp: is_digit_def)
  have nat_inj: "show_nat j = show_nat k \<Longrightarrow> j = k" for j k
    by (metis digits_value_show_nat of_nat_eq_iff)
  show ?thesis
    using eq minus by (auto simp: show_int_def dest!: nat_inj split: if_splits) metis+
qed

lemma colon_show_int: "CHR '':'' \<notin> set (show_int n)"
  using show_nat_digits [of "CHR '':''"] by (auto simp: show_int_def is_digit_def)

lemma cut_at_sep: "c \<notin> set a \<Longrightarrow> c \<notin> set b \<Longrightarrow> a @ c # x = b @ c # y \<Longrightarrow> a = b \<and> x = y"
proof (induction a arbitrary: b)
  case Nil
  then show ?case by (cases b) auto
next
  case (Cons d a)
  then show ?case by (cases b) auto
qed

text \<open>A file id is hexadecimal after its prefix, so it has no colon; Codex rows have no turn id.\<close>

lemma codex_row_id_inj:
  assumes "CHR '':'' \<notin> set f" "CHR '':'' \<notin> set f'"
    and "codex_row_id f s None n = codex_row_id f' s' None n'"
  shows "f = f' \<and> s = s' \<and> n = n'"
proof -
  have "f @ CHR '':'' # (s @ '':none:'' @ show_int n) = f' @ CHR '':'' # (s' @ '':none:'' @ show_int n')"
    using assms(3) by (simp add: codex_row_id_def)
  from cut_at_sep [OF assms(1,2) this]
  have f: "f = f'" and rest: "s @ '':none:'' @ show_int n = s' @ '':none:'' @ show_int n'" by simp_all
  have "rev (show_int n) @ CHR '':'' # rev (s @ '':none'') = rev (show_int n') @ CHR '':'' # rev (s' @ '':none'')"
    using arg_cong [OF rest, of rev] by simp
  from cut_at_sep [OF _ _ this] colon_show_int have "rev (show_int n) = rev (show_int n')" "rev (s @ '':none'') = rev (s' @ '':none'')"
    by simp_all
  with f show ?thesis by (auto dest: show_int_inj)
qed

section \<open>Reloading a scope\<close>

lemma fold_max_ge: "r \<in> set rs \<Longrightarrow> cr_token_event_ordinal r \<le> fold (\<lambda>r m. max (cr_token_event_ordinal r) m) rs (m :: int)"
proof -
  have mono: "x \<le> fold (\<lambda>r m. max (cr_token_event_ordinal r) m) rs x" for x :: int and rs
    by (induction rs arbitrary: x) (simp, metis fold_simps(2) max.cobounded2 order_trans)
  show "r \<in> set rs \<Longrightarrow> ?thesis"
    by (induction rs arbitrary: m) (auto intro: order_trans [OF _ mono])
qed

lemma max_ordinal_ge: "r \<in> set rs \<Longrightarrow> cr_token_event_ordinal r \<le> max_ordinal rs"
proof (cases rs)
  case (Cons q qs)
  have "cr_token_event_ordinal q \<le> fold (\<lambda>r m. max (cr_token_event_ordinal r) m) qs (cr_token_event_ordinal q)"
    using fold_max_ge [of q "q # qs" "cr_token_event_ordinal q"] by simp
  with Cons show "r \<in> set rs \<Longrightarrow> ?thesis" by (auto intro: fold_max_ge)
qed simp

lemma max_ordinal_snoc:
  "rs \<noteq> [] \<Longrightarrow> max_ordinal (rs @ [r]) = max (cr_token_event_ordinal r) (max_ordinal rs)"
  by (cases rs) simp_all

lemma max_ordinal_next:
  "cr_token_event_ordinal r = max_ordinal rs + 1 \<Longrightarrow> max_ordinal (rs @ [r]) = cr_token_event_ordinal r"
  by (cases "rs = []") (simp_all add: max_ordinal_snoc)

lemma latest_snoc:
  assumes "\<And>q. q \<in> set rs \<Longrightarrow> cr_token_event_ordinal q < cr_token_event_ordinal r"
  shows "\<exists>ys. sort_by (\<lambda>r s. cr_token_event_ordinal s \<le> cr_token_event_ordinal r) (rs @ [r]) = r # ys"
  using assms by (induction rs) fastforce+

definition snap_ok :: "codex_snapshot \<Rightarrow> bool" where
  "snap_ok s = (CHR '':'' \<notin> set (es_file_id (cs_source s)) \<and> cs_turn_id s = None)"

definition codex_db_ok :: "codex_row list \<Rightarrow> bool" where
  "codex_db_ok db =
     list_all (\<lambda>r. CHR '':'' \<notin> set (cr_source_file_id r) \<and> cr_turn_id r = None
                   \<and> cr_id r = codex_row_id (cr_source_file_id r) (cr_session_id r) None (cr_token_event_ordinal r)) db"

lemma scope_rows_snoc:
  "scope_rows f s t (db @ [r]) = scope_rows f s t db @ scope_rows f s t [r]"
  by (simp add: scope_rows_def)

text \<open>The row of a snapshot is new, and reloading its scope gives the state the loop keeps in memory.\<close>

lemma store_step:
  assumes db: "codex_db_ok db" and s: "snap_ok s"
    and row: "row = from_domain now s (fst (scope_start db False (scope_key s))) eid"
  shows "upsert_codex_snapshot row db = db @ [row]" "codex_db_ok (db @ [row])"
    "scope_start (db @ [row]) False (scope_key s) = (fst (scope_start db False (scope_key s)) + 1, Some row)"
    "snap_ok s' \<Longrightarrow> scope_key s' \<noteq> scope_key s \<Longrightarrow>
       scope_start (db @ [row]) False (scope_key s') = scope_start db False (scope_key s')"
proof -
  let ?f = "es_file_id (cs_source s)" and ?sid = "cs_session_id s"
  let ?rs = "scope_rows ?f ?sid [] db"
  have o: "cr_token_event_ordinal row = max_ordinal ?rs + 1"
    using s by (simp add: row from_domain_def scope_start_def scope_key_def next_codex_ordinal_def snap_ok_def)
  have fields: "cr_source_file_id row = ?f" "cr_session_id row = ?sid" "cr_turn_id row = None"
    "cr_id row = codex_row_id ?f ?sid None (cr_token_event_ordinal row)"
    using s by (simp_all add: row from_domain_def snap_ok_def)
  have "cr_id r \<noteq> cr_id row" if r: "r \<in> set db" for r
  proof
    assume "cr_id r = cr_id row"
    then have "cr_source_file_id r = ?f \<and> cr_session_id r = ?sid \<and> cr_token_event_ordinal r = cr_token_event_ordinal row"
      using db r s fields by (intro codex_row_id_inj) (auto simp: codex_db_ok_def list_all_iff snap_ok_def)
    moreover from this have "r \<in> set ?rs"
      using db r by (auto simp: codex_db_ok_def list_all_iff scope_rows_def)
    ultimately show False using max_ordinal_ge [of r ?rs] o by simp
  qed
  then show "upsert_codex_snapshot row db = db @ [row]"
    by (auto simp: upsert_codex_snapshot_def list_ex_iff)
  show "codex_db_ok (db @ [row])"
    using db s fields by (simp add: codex_db_ok_def snap_ok_def)
  have one: "scope_rows ?f ?sid [] [row] = [row]"
    using fields by (simp add: scope_rows_def)
  obtain ys where ys: "sort_by (\<lambda>r s. cr_token_event_ordinal s \<le> cr_token_event_ordinal r) (?rs @ [row]) = row # ys"
    using latest_snoc [of ?rs row] max_ordinal_ge [of _ ?rs] o by fastforce
  have "max_ordinal (?rs @ [row]) = max_ordinal ?rs + 1"
    using max_ordinal_next [of row ?rs] o by simp
  then show "scope_start (db @ [row]) False (scope_key s) = (fst (scope_start db False (scope_key s)) + 1, Some row)"
    using s ys by (simp add: scope_start_def scope_key_def next_codex_ordinal_def get_latest_codex_snapshot_def
      scope_rows_snoc one snap_ok_def)
  show "scope_start (db @ [row]) False (scope_key s') = scope_start db False (scope_key s')"
    if "snap_ok s'" "scope_key s' \<noteq> scope_key s"
  proof -
    have "scope_rows (es_file_id (cs_source s')) (cs_session_id s') [] [row] = []"
      using that s fields by (auto simp: scope_rows_def scope_key_def snap_ok_def)
    then show ?thesis
      using that by (simp add: scope_start_def scope_key_def next_codex_ordinal_def get_latest_codex_snapshot_def
        scope_rows_snoc snap_ok_def)
  qed
qed

section \<open>Batches may be split\<close>

text \<open>What the loop reads of a baseline.\<close>

definition row_view :: "codex_row \<Rightarrow> delta \<times> string option" where
  "row_view r = ((cr_input_tokens r, cr_cached_input_tokens r, cr_output_tokens r, cr_reasoning_tokens r,
                  cr_total_tokens r), cr_model r)"

definition same_state :: "(int \<times> codex_row option) option \<Rightarrow> (int \<times> codex_row option) option \<Rightarrow> bool" where
  "same_state x y =
     (map_option (\<lambda>(n, p). (n, map_option row_view p)) x = map_option (\<lambda>(n, p). (n, map_option row_view p)) y)"

lemma same_state_refl [simp]: "same_state x x"
  by (simp add: same_state_def)

lemma compute_delta_view:
  "map_option row_view p = map_option row_view q \<Longrightarrow> compute_codex_delta s p = compute_codex_delta s q"
  by (cases p; cases q) (simp_all add: compute_codex_delta_def row_view_def)

lemma resolve_view:
  "map_option row_view p = map_option row_view q
   \<Longrightarrow> resolve_codex_event_model l s p = resolve_codex_event_model l s q"
  by (cases p; cases q) (simp_all add: resolve_codex_event_model_def row_view_def)

lemma emitted_event_view:
  assumes "map_option row_view p = map_option row_view q"
  shows "emitted_event l now s p = emitted_event l now s q"
proof -
  have "codex_snapshot_delta s p = codex_snapshot_delta s q"
    by (simp only: codex_snapshot_delta_def compute_delta_view [OF assms])
  then show ?thesis
    by (simp only: emitted_event_def codex_event_def resolve_view [OF assms])
qed

lemma delta_loop_pair:
  "delta_loop l clock sc (s # ss) =
     (let n = fst (the (sc (scope_key s))); event = emitted_event l (dc_now clock s) s (snd (the (sc (scope_key s))));
          (events, rows) = delta_loop l clock
             (sc(scope_key s \<mapsto> (n + 1, Some (from_domain (dc_now clock s) s n (map_option ue_id event))))) ss
      in (case event of Some e \<Rightarrow> e # events | None \<Rightarrow> events,
          from_domain (dc_row_now clock s) s n (map_option ue_id event) # rows))"
  by (cases "the (sc (scope_key s))") (simp add: Let_def split: option.split prod.split)

lemma delta_loop_cong:
  assumes "\<And>s. s \<in> set ss \<Longrightarrow> sc (scope_key s) \<noteq> None"
    and "\<And>s. s \<in> set ss \<Longrightarrow> same_state (sc (scope_key s)) (sc' (scope_key s))"
  shows "delta_loop l clock sc ss = delta_loop l clock sc' ss"
  using assms
proof (induction ss arbitrary: sc sc')
  case (Cons s ss)
  obtain n p where p: "sc (scope_key s) = Some (n, p)"
    using Cons.prems(1) [of s] by auto
  obtain q where q: "sc' (scope_key s) = Some (n, q)" "map_option row_view p = map_option row_view q"
    using Cons.prems(2) [of s] p by (cases "sc' (scope_key s)") (auto simp: same_state_def)
  have ev: "emitted_event l now s p = emitted_event l now s q" for now
    by (rule emitted_event_view [OF q(2)])
  have "delta_loop l clock (sc(scope_key s \<mapsto> x)) ss = delta_loop l clock (sc'(scope_key s \<mapsto> x)) ss" for x
    using Cons.prems by (intro Cons.IH) auto
  then show ?case
    by (simp only: delta_loop_pair p q(1) option.sel fst_conv snd_conv ev)
qed simp

definition opt_list :: "'a option \<Rightarrow> 'a list" where
  "opt_list v = (case v of None \<Rightarrow> [] | Some x \<Rightarrow> [x])"

lemma opt_list_simps [simp]: "opt_list None = []" "opt_list (Some x) = [x]"
  by (simp_all add: opt_list_def)

text \<open>One snapshot, then the rest of the batch against the table with its row.\<close>

lemma build_Cons:
  fixes l :: log_lib and clock :: delta_clock
  assumes "codex_db_ok db" "list_all snap_ok (s # ss)"
  defines "start \<equiv> scope_start db False (scope_key s)"
  defines "event \<equiv> emitted_event l (dc_now clock s) s (snd start)"
  defines "row \<equiv> from_domain (dc_row_now clock s) s (fst start) (map_option ue_id event)"
  shows "build_codex_delta_events l clock db (s # ss) False =
           (let (events, rows) = build_codex_delta_events l clock (db @ [row]) ss False
            in (opt_list event @ events, row # rows))"
proof -
  let ?mem = "from_domain (dc_now clock s) s (fst start) (map_option ue_id event)"
  let ?sc = "(load_scopes db (s # ss) False)(scope_key s \<mapsto> (fst start + 1, Some ?mem))"
  have s: "snap_ok s" using assms(2) by simp
  note step = store_step [OF assms(1) s, where eid = "map_option ue_id event" and now = "dc_row_now clock s",
      folded start_def, OF row_def [THEN meta_eq_to_obj_eq]]
  have view: "row_view ?mem = row_view row"
    by (simp add: row_view_def row_def from_domain_def)
  have "delta_loop l clock ?sc ss = delta_loop l clock (load_scopes (db @ [row]) ss False) ss"
  proof (rule delta_loop_cong)
    fix t assume t: "t \<in> set ss"
    then show "?sc (scope_key t) \<noteq> None"
      by (auto simp: load_scopes_def list_ex_iff)
    have ok: "snap_ok t" using t assms(2) by (auto simp: list_all_iff)
    have "load_scopes (db @ [row]) ss False (scope_key t) = Some (scope_start (db @ [row]) False (scope_key t))"
      using t by (auto simp: load_scopes_def list_ex_iff)
    moreover have "?sc (scope_key t) = (if scope_key t = scope_key s then Some (fst start + 1, Some ?mem)
        else Some (scope_start db False (scope_key t)))"
      using t by (auto simp: load_scopes_def list_ex_iff)
    ultimately show "same_state (?sc (scope_key t)) (load_scopes (db @ [row]) ss False (scope_key t))"
      using step(3) step(4) [OF ok] view by (auto simp: same_state_def split: prod.split)
  qed
  moreover have "load_scopes db (s # ss) False (scope_key s) = Some start"
    by (simp add: load_scopes_def start_def)
  ultimately show ?thesis
    by (simp add: build_codex_delta_events_def delta_loop_pair event_def [symmetric] row_def [symmetric] Let_def
             opt_list_def split: option.split prod.split del: delta_loop.simps)
qed

lemma build_append:
  assumes "codex_db_ok db" "list_all snap_ok (xs @ ys)"
  shows "build_codex_delta_events l clock db (xs @ ys) False =
           (let (events, rows) = build_codex_delta_events l clock db xs False;
                (events', rows') = build_codex_delta_events l clock (store_rows rows db) ys False
            in (events @ events', rows @ rows'))"
  using assms
proof (induction xs arbitrary: db)
  case Nil
  then show ?case
    by (simp add: build_codex_delta_events_def store_rows_def split: prod.split)
next
  case (Cons s xs)
  let ?start = "scope_start db False (scope_key s)"
  let ?event = "emitted_event l (dc_now clock s) s (snd ?start)"
  let ?row = "from_domain (dc_row_now clock s) s (fst ?start) (map_option ue_id ?event)"
  have s: "snap_ok s" using Cons.prems by simp
  note step = store_step [OF Cons.prems(1) s refl, where now = "dc_row_now clock s" and eid = "map_option ue_id ?event"]
  have "list_all snap_ok (xs @ ys)" using Cons.prems(2) by simp
  note IH = Cons.IH [OF step(2) this]
  have "list_all snap_ok (s # xs)" using Cons.prems(2) by simp
  note parts = build_Cons [OF Cons.prems(1) this, of l clock]
    build_Cons [OF Cons.prems(1) Cons.prems(2) [simplified append_Cons], of l clock]
  show ?case
    by (simp add: parts IH store_rows_def step(1) split: prod.split)
qed

text \<open>A restart over an empty scope starts it like any other batch.\<close>

definition no_stored_rows :: "codex_row list \<Rightarrow> codex_snapshot list \<Rightarrow> bool" where
  "no_stored_rows db snapshots =
     list_all (\<lambda>s. scope_rows (es_file_id (cs_source s)) (cs_session_id s) (unwrap_or [] (cs_turn_id s)) db = []) snapshots"

lemma restart_over_nothing:
  assumes "no_stored_rows db snapshots"
  shows "build_codex_delta_events l clock db snapshots True = build_codex_delta_events l clock db snapshots False"
proof -
  have "scope_start db True (scope_key s) = scope_start db False (scope_key s)" if "s \<in> set snapshots" for s
    using assms that by (simp add: no_stored_rows_def list_all_iff scope_start_def scope_key_def next_codex_ordinal_def
        get_latest_codex_snapshot_def)
  then have "load_scopes db snapshots True = load_scopes db snapshots False"
    by (fastforce simp: load_scopes_def fun_eq_iff list_ex_iff)
  then show ?thesis by (simp add: build_codex_delta_events_def)
qed

text \<open>
  C19. Unless a file was restarted over rows stored before (where it fails, see \<open>restart_loses_usage\<close>), batches may be split
  anywhere: the events and rows of a batch are those of its first part
  followed by those of its second part computed against the table that holds the first part's rows.
  So how the tailer cuts a Codex log into batches changes neither events, ordinals nor deltas. The rows of the table are such as
  the code writes, the snapshots carry no turn id, as the adapter makes them, and file ids have no colon.
\<close>

theorem batch_split:
  assumes "codex_db_ok db" "list_all snap_ok (xs @ ys)" "if restarted then no_stored_rows db (xs @ ys) else True"
  shows "build_codex_delta_events l clock db (xs @ ys) restarted =
           (let (events, rows) = build_codex_delta_events l clock db xs restarted;
                (events', rows') = build_codex_delta_events l clock (store_rows rows db) ys False
            in (events @ events', rows @ rows'))"
proof (cases restarted)
  case True
  then have none: "no_stored_rows db (xs @ ys)" "no_stored_rows db xs" using assms(3) by (simp_all add: no_stored_rows_def)
  have "restarted = True" using True by simp
  then show ?thesis
    using build_append[OF assms(1,2)] restart_over_nothing[OF none(1)] restart_over_nothing[OF none(2)] by simp
next
  case False
  then show ?thesis using build_append[OF assms(1,2)] by simp
qed

section \<open>Conservation\<close>

definition snap_tokens :: "codex_snapshot \<Rightarrow> event_tokens" where
  "snap_tokens s =
     \<lparr>et_input_tokens = cs_input_tokens s, et_output_tokens = cs_output_tokens s,
      et_total_tokens = cs_total_tokens s, et_cached_input_tokens = cs_cached_input_tokens s,
      et_cache_creation_tokens = 0, et_cache_read_tokens = cs_cached_input_tokens s,
      et_reasoning_tokens = cs_reasoning_tokens s, et_thoughts_tokens = 0, et_tool_tokens = 0\<rparr>"

definition delta_tokens :: "delta \<Rightarrow> event_tokens" where
  "delta_tokens d =
     (case d of (i, c, o', r, t) \<Rightarrow>
        \<lparr>et_input_tokens = i, et_output_tokens = o', et_total_tokens = t, et_cached_input_tokens = c,
         et_cache_creation_tokens = 0, et_cache_read_tokens = c, et_reasoning_tokens = r,
         et_thoughts_tokens = 0, et_tool_tokens = 0\<rparr>)"

definition baseline :: "codex_row option \<Rightarrow> event_tokens" where
  "baseline previous =
     (case previous of None \<Rightarrow> zero_tokens
      | Some p \<Rightarrow> delta_tokens (cr_input_tokens p, cr_cached_input_tokens p, cr_output_tokens p,
                              cr_reasoning_tokens p, cr_total_tokens p))"

definition tokens_le :: "event_tokens \<Rightarrow> event_tokens \<Rightarrow> bool" where
  "tokens_le a b =
     (et_input_tokens a \<le> et_input_tokens b \<and> et_output_tokens a \<le> et_output_tokens b
      \<and> et_total_tokens a \<le> et_total_tokens b \<and> et_cached_input_tokens a \<le> et_cached_input_tokens b
      \<and> et_reasoning_tokens a \<le> et_reasoning_tokens b)"

definition explicit_delta :: "codex_snapshot \<Rightarrow> delta option" where
  "explicit_delta s =
     (case (cs_delta_input_tokens s, cs_delta_cached_input_tokens s, cs_delta_output_tokens s,
            cs_delta_reasoning_tokens s, cs_delta_total_tokens s) of
        (Some i, Some c, Some o', Some r, Some t) \<Rightarrow> Some (i, c, o', r, t)
      | _ \<Rightarrow> None)"

text \<open>The counters of a session only grow.\<close>

fun growing_counters :: "event_tokens \<Rightarrow> codex_snapshot list \<Rightarrow> bool" where
  "growing_counters base [] = True"
| "growing_counters base (s # ss) = (tokens_le base (snap_tokens s) \<and> growing_counters (snap_tokens s) ss)"

text \<open>
  By how much the figures that a log states itself exceed the differences of its counters: an explicit delta, read as at least
  zero, and the nothing of a heartbeat.
\<close>

definition stated_tokens :: "codex_snapshot \<Rightarrow> event_tokens option" where
  "stated_tokens s =
     (if explicit_zero_component_codex_delta s then Some zero_tokens
      else map_option (\<lambda>(i, c, o', r, t). delta_tokens (max 0 i, max 0 c, max 0 o', max 0 r, max 0 t)) (explicit_delta s))"

fun stated_excess :: "event_tokens \<Rightarrow> codex_snapshot list \<Rightarrow> event_tokens" where
  "stated_excess base [] = zero_tokens"
| "stated_excess base (s # ss) =
     add_tokens (case stated_tokens s of None \<Rightarrow> zero_tokens | Some d \<Rightarrow> sub_tokens d (sub_tokens (snap_tokens s) base))
       (stated_excess (snap_tokens s) ss)"

text \<open>Counters that grow, with explicit deltas that are their differences and heartbeats that repeat them.\<close>

fun cumulative_run :: "event_tokens \<Rightarrow> codex_snapshot list \<Rightarrow> bool" where
  "cumulative_run base [] = True"
| "cumulative_run base (s # ss) =
     (tokens_le base (snap_tokens s)
      \<and> (case explicit_delta s of None \<Rightarrow> True | Some d \<Rightarrow> delta_tokens d = sub_tokens (snap_tokens s) base)
      \<and> (if explicit_zero_component_codex_delta s then snap_tokens s = base else True)
      \<and> cumulative_run (snap_tokens s) ss)"

lemma codex_snapshot_delta_explicit:
  "codex_snapshot_delta s p =
     (case explicit_delta s of
        Some (i, c, o', r, t) \<Rightarrow> (max 0 i, max 0 c, max 0 o', max 0 r, max 0 t)
      | None \<Rightarrow> compute_codex_delta s p)"
  by (simp add: codex_snapshot_delta_def explicit_delta_def split: option.split)

lemma codex_event_tokens: "ue_tokens (codex_event l now s p) = delta_tokens (codex_snapshot_delta s p)"
  by (cases "codex_snapshot_delta s p") (simp add: codex_event_def delta_tokens_def Let_def)

lemma tokens_cong: "(a :: event_tokens) = b \<longleftrightarrow> et_input_tokens a = et_input_tokens b \<and> et_output_tokens a = et_output_tokens b
   \<and> et_total_tokens a = et_total_tokens b \<and> et_cached_input_tokens a = et_cached_input_tokens b
   \<and> et_cache_creation_tokens a = et_cache_creation_tokens b \<and> et_cache_read_tokens a = et_cache_read_tokens b
   \<and> et_reasoning_tokens a = et_reasoning_tokens b \<and> et_thoughts_tokens a = et_thoughts_tokens b
   \<and> et_tool_tokens a = et_tool_tokens b"
  by (cases a; cases b) auto

text \<open>What one snapshot adds, with what it states in excess.\<close>

lemma emitted_tokens:
  assumes "tokens_le (baseline p) (snap_tokens s)"
  shows "(case emitted_event l now s p of None \<Rightarrow> zero_tokens | Some e \<Rightarrow> ue_tokens e)
     = add_tokens (sub_tokens (snap_tokens s) (baseline p))
         (case stated_tokens s of None \<Rightarrow> zero_tokens | Some d \<Rightarrow> sub_tokens d (sub_tokens (snap_tokens s) (baseline p)))"
proof (cases "explicit_zero_component_codex_delta s")
  case True
  then show ?thesis by (simp add: emitted_event_def stated_tokens_def tokens_cong map_tokens_def zero_tokens_def)
next
  case False
  show ?thesis
  proof (cases "explicit_delta s")
    case None
    then have "delta_tokens (codex_snapshot_delta s p) = sub_tokens (snap_tokens s) (baseline p)"
      using assms
      by (cases p) (auto simp: codex_snapshot_delta_explicit compute_codex_delta_def baseline_def delta_tokens_def
        snap_tokens_def map_tokens_def zero_tokens_def tokens_le_def)
    with None False show ?thesis
      by (simp add: emitted_event_def stated_tokens_def codex_event_tokens tokens_cong map_tokens_def zero_tokens_def)
  next
    case (Some d)
    with False show ?thesis
      by (cases d) (simp add: emitted_event_def stated_tokens_def codex_event_tokens codex_snapshot_delta_explicit
          tokens_cong map_tokens_def)
  qed
qed

lemma consistent_excess: "cumulative_run base ss \<Longrightarrow> growing_counters base ss \<and> stated_excess base ss = zero_tokens"
proof (induction ss arbitrary: base)
  case (Cons s ss)
  have pos: "0 \<le> i \<and> 0 \<le> c \<and> 0 \<le> o' \<and> 0 \<le> r \<and> 0 \<le> t"
    if "delta_tokens (i, c, o', r, t) = sub_tokens (snap_tokens s) base" "tokens_le base (snap_tokens s)" for i c o' r t
    using that by (simp add: tokens_cong delta_tokens_def map_tokens_def tokens_le_def)
  have "(case stated_tokens s of None \<Rightarrow> zero_tokens | Some d \<Rightarrow> sub_tokens d (sub_tokens (snap_tokens s) base)) = zero_tokens"
    using Cons.prems pos
    by (cases "explicit_delta s")
      (auto simp: stated_tokens_def tokens_cong delta_tokens_def map_tokens_def zero_tokens_def max_def split: prod.splits if_splits)
  with Cons show ?case by (simp add: tokens_laws)
qed simp

lemma baseline_from_domain: "baseline (Some (from_domain now s n eid)) = snap_tokens s"
  by (simp add: baseline_def from_domain_def delta_tokens_def snap_tokens_def)

lemma delta_loop_sum:
  assumes "sc k = Some (n, p)" "list_all (\<lambda>s. scope_key s = k) ss" "growing_counters (baseline p) ss"
  shows "add_tokens (baseline p) (sum_tokens (map ue_tokens (fst (delta_loop l clock sc ss))))
           = add_tokens (if ss = [] then baseline p else snap_tokens (last ss)) (stated_excess (baseline p) ss)"
  using assms
proof (induction ss arbitrary: sc n p)
  case (Cons s ss)
  let ?ev = "emitted_event l (dc_now clock s) s p"
  let ?row = "from_domain (dc_now clock s) s n (map_option ue_id ?ev)"
  let ?rest = "fst (delta_loop l clock (sc(k \<mapsto> (n + 1, Some ?row))) ss)"
  have key: "scope_key s = k" using Cons.prems(2) by simp
  have "add_tokens (baseline (Some ?row)) (sum_tokens (map ue_tokens ?rest))
      = add_tokens (if ss = [] then baseline (Some ?row) else snap_tokens (last ss)) (stated_excess (baseline (Some ?row)) ss)"
    using Cons.prems by (intro Cons.IH) (simp_all add: baseline_from_domain)
  then have "add_tokens (snap_tokens s) (sum_tokens (map ue_tokens ?rest))
      = add_tokens (if ss = [] then snap_tokens s else snap_tokens (last ss)) (stated_excess (snap_tokens s) ss)"
    by (simp only: baseline_from_domain)
  moreover have "sum_tokens (map ue_tokens (fst (delta_loop l clock sc (s # ss))))
      = add_tokens (case ?ev of None \<Rightarrow> zero_tokens | Some e \<Rightarrow> ue_tokens e) (sum_tokens (map ue_tokens ?rest))"
    by (simp add: delta_loop_pair key Cons.prems(1) split_beta Let_def tokens_laws del: delta_loop.simps split: option.split)
  moreover note emitted_tokens[of p s l "dc_now clock s"]
  ultimately show ?case using Cons.prems(3) by (simp add: tokens_cong map_tokens_def)
qed (simp add: tokens_laws)

text \<open>
  C11. Nothing is lost or counted twice while a session's counters only grow: the counters the table
  had for the session plus the tokens of the events of the batch are the counters of the
  batch's last snapshot, field by field, plus exactly what the log's own figures (explicit deltas and heartbeats, which the
  code takes as they are) exceed the differences of its counters by; that is nothing when the deltas are derived, or when the explicit
  ones are those differences and the heartbeats repeat the counters. After a restart of the file the count starts from zero.
\<close>

theorem codex_usage_conserved:
  assumes "snapshots \<noteq> []" "list_all (\<lambda>s. scope_key s = k) snapshots"
    and "growing_counters (baseline (snd (scope_start db restarted k))) snapshots"
  shows "let base = baseline (snd (scope_start db restarted k));
             counted = sum_tokens (map ue_tokens (fst (build_codex_delta_events l clock db snapshots restarted)))
         in add_tokens base counted = add_tokens (snap_tokens (last snapshots)) (stated_excess base snapshots)
          \<and> (if cumulative_run base snapshots \<or> list_all (\<lambda>s. stated_tokens s = None) snapshots
             then add_tokens base counted = snap_tokens (last snapshots) else True)
          \<and> (if restarted then base = zero_tokens else True)"
proof -
  obtain n p where start: "scope_start db restarted k = (n, p)" by (cases "scope_start db restarted k")
  have "load_scopes db snapshots restarted k = Some (n, p)"
    using assms(1,2) by (cases snapshots) (simp_all add: load_scopes_def start)
  from delta_loop_sum [where sc = "load_scopes db snapshots restarted", OF this assms(2), of l clock] assms(1,3)
  have sum: "add_tokens (baseline p) (sum_tokens (map ue_tokens (fst (build_codex_delta_events l clock db snapshots restarted))))
      = add_tokens (snap_tokens (last snapshots)) (stated_excess (baseline p) snapshots)"
    by (simp add: start build_codex_delta_events_def)
  have derived: "list_all (\<lambda>s. stated_tokens s = None) ss \<Longrightarrow> stated_excess base ss = zero_tokens" for ss base
    by (induction ss arbitrary: base) (simp_all add: tokens_laws)
  have "restarted \<Longrightarrow> baseline p = zero_tokens"
    using start by (cases k) (auto simp: scope_start_def baseline_def)
  then show ?thesis
    using sum consistent_excess[of "baseline p" snapshots] derived[of snapshots "baseline p"]
    by (auto simp: Let_def start tokens_laws)
qed

lemma max0: "0 \<le> max 0 (x :: int)" by simp

lemma codex_event_metrics:
  "i64_range (et_input_tokens (ue_tokens (codex_event l now s p))) \<Longrightarrow>
   i64_range (et_cached_input_tokens (ue_tokens (codex_event l now s p))) \<Longrightarrow> invariant_holds (event_metrics (codex_event l now s p)) \<longleftrightarrow>
     et_cached_input_tokens (ue_tokens (codex_event l now s p)) \<le> et_input_tokens (ue_tokens (codex_event l now s p))"
  "0 \<le> et_input_tokens (ue_tokens (codex_event l now s p))" "0 \<le> et_output_tokens (ue_tokens (codex_event l now s p))"
  "0 \<le> et_total_tokens (ue_tokens (codex_event l now s p))" "0 \<le> et_cached_input_tokens (ue_tokens (codex_event l now s p))"
proof -
  obtain i c o' r t where d: "codex_snapshot_delta s p = (i, c, o', r, t)" by (cases "codex_snapshot_delta s p") auto
  then have pos: "0 \<le> i" "0 \<le> c" "0 \<le> o'" "0 \<le> r" "0 \<le> t"
    by (auto simp: codex_snapshot_delta_explicit compute_codex_delta_def split: option.splits)
  have exact: "i64_sub i c = i - c" "i64_add c (i - c) = i" if "i64_range i" "i64_range c"
    using pos that by (auto intro!: i64_exact simp: i64_range_def i64_min_def i64_max_def intro: trans[OF i64_exact(1)])
  show "i64_range (et_input_tokens (ue_tokens (codex_event l now s p))) \<Longrightarrow>
   i64_range (et_cached_input_tokens (ue_tokens (codex_event l now s p))) \<Longrightarrow> invariant_holds (event_metrics (codex_event l now s p)) \<longleftrightarrow>
     et_cached_input_tokens (ue_tokens (codex_event l now s p)) \<le> et_input_tokens (ue_tokens (codex_event l now s p))"
    "0 \<le> et_input_tokens (ue_tokens (codex_event l now s p))" "0 \<le> et_output_tokens (ue_tokens (codex_event l now s p))"
    "0 \<le> et_total_tokens (ue_tokens (codex_event l now s p))" "0 \<le> et_cached_input_tokens (ue_tokens (codex_event l now s p))"
    using pos exact i64_wrap_id[of c]
    by (auto simp: codex_event_def d from_raw_def event_metrics_def invariant_holds_def Let_def i64_add_def)
qed

lemma delta_loop_events:
  "e \<in> set (fst (delta_loop l clock sc ss)) \<Longrightarrow> \<exists>now s p. s \<in> set ss \<and> e = codex_event l now s p"
proof (induction ss arbitrary: sc)
  case (Cons s ss)
  then show ?case
    by (auto simp: delta_loop_pair emitted_event_def split_beta Let_def
             simp del: delta_loop.simps split: if_splits) blast+
qed simp

lemma delta_loop_rows:
  assumes "sc k = Some (n, p)" "list_all (\<lambda>s. scope_key s = k) ss"
  shows "map cr_token_event_ordinal (snd (delta_loop l clock sc ss)) = map (\<lambda>i. n + int i) [0..<length ss]"
  using assms
proof (induction ss arbitrary: sc n p)
  case (Cons s ss)
  have "scope_key s = k" using Cons.prems(2) by simp
  moreover have "map cr_token_event_ordinal (snd (delta_loop l clock (sc(k \<mapsto> (n + 1, Some x))) ss))
      = map (\<lambda>i. n + 1 + int i) [0..<length ss]" for x
    using Cons.prems by (intro Cons.IH) auto
  moreover have "map (\<lambda>i. n + int i) [0..<Suc (length ss)] = n # map (\<lambda>i. n + 1 + int i) [0..<length ss]"
    by (simp add: upt_conv_Cons map_Suc_upt [symmetric] o_def add.assoc del: upt_Suc)
  ultimately show ?case
    using Cons.prems(1)
    by (simp add: delta_loop_pair split_beta Let_def from_domain_def del: delta_loop.simps upt_Suc)
qed simp

text \<open>
  Whatever the log says, no event has a negative counter, its unified metrics satisfy the cache
  invariant exactly when its cached tokens do not exceed its input (both within 64 bits), and the rows of a session's
  batch are numbered without gaps from the next free ordinal.
\<close>

theorem codex_events_sound:
  assumes "snapshots \<noteq> []" "list_all (\<lambda>s. scope_key s = k) snapshots"
  shows "list_all (\<lambda>e. tokens_le zero_tokens (ue_tokens e)
             \<and> (if i64_range (et_input_tokens (ue_tokens e)) \<and> i64_range (et_cached_input_tokens (ue_tokens e))
                then invariant_holds (event_metrics e) = (et_cached_input_tokens (ue_tokens e) \<le> et_input_tokens (ue_tokens e)) else True))
           (fst (build_codex_delta_events l clock db snapshots restarted))
         \<and> map cr_token_event_ordinal (snd (build_codex_delta_events l clock db snapshots restarted))
           = map (\<lambda>i. fst (scope_start db restarted k) + int i) [0..<length snapshots]"
proof
  have "0 \<le> et_reasoning_tokens (ue_tokens (codex_event l now s p))" for now s p
    by (auto simp: codex_event_tokens delta_tokens_def codex_snapshot_delta_explicit compute_codex_delta_def
             split: option.splits prod.splits)
  then show "list_all (\<lambda>e. tokens_le zero_tokens (ue_tokens e)
             \<and> (if i64_range (et_input_tokens (ue_tokens e)) \<and> i64_range (et_cached_input_tokens (ue_tokens e))
                then invariant_holds (event_metrics e) = (et_cached_input_tokens (ue_tokens e) \<le> et_input_tokens (ue_tokens e)) else True))
           (fst (build_codex_delta_events l clock db snapshots restarted))"
    by (auto simp: list_all_iff build_codex_delta_events_def tokens_le_def zero_tokens_def codex_event_metrics
             dest!: delta_loop_events)
  obtain n p where start: "scope_start db restarted k = (n, p)" by (cases "scope_start db restarted k")
  have "load_scopes db snapshots restarted k = Some (n, p)"
    using assms by (cases snapshots) (simp_all add: load_scopes_def start)
  from delta_loop_rows [where sc = "load_scopes db snapshots restarted", OF this assms(2), of l clock]
  show "map cr_token_event_ordinal (snd (build_codex_delta_events l clock db snapshots restarted))
           = map (\<lambda>i. fst (scope_start db restarted k) + int i) [0..<length snapshots]"
    by (simp add: build_codex_delta_events_def start)
qed

section \<open>Concrete sessions\<close>

definition counter_snapshot :: "int \<Rightarrow> codex_snapshot" where
  "counter_snapshot i =
     \<lparr>cs_source = \<lparr>es_file_id = ''f'', es_path = ''/p.jsonl'', es_line = 1, es_offset_start = 0, es_offset_end = 9\<rparr>,
      cs_session_id = ''s'', cs_turn_id = None, cs_token_event_ordinal = 0, cs_input_tokens = i,
      cs_cached_input_tokens = 0, cs_output_tokens = 0, cs_reasoning_tokens = 0, cs_total_tokens = i,
      cs_delta_input_tokens = None, cs_delta_cached_input_tokens = None, cs_delta_output_tokens = None,
      cs_delta_reasoning_tokens = None, cs_delta_total_tokens = None, cs_model = Some ''gpt-5'',
      cs_model_provider = None, cs_cost_usd = None, cs_raw_usage_json = [], cs_timestamp_ms = i\<rparr>"

definition still_clock :: delta_clock where
  "still_clock = \<lparr>dc_now = (\<lambda>_. 0), dc_row_now = (\<lambda>_. 0)\<rparr>"

definition sample_build :: "codex_row list \<Rightarrow> int list \<Rightarrow> bool \<Rightarrow> usage_event list \<times> codex_row list" where
  "sample_build db counters restarted =
     build_codex_delta_events (sample_lib sample_line token_line) still_clock db (map counter_snapshot counters) restarted"

lemma counter_key: "scope_key (counter_snapshot i) = (''f'', ''s'', None)"
  by (simp add: scope_key_def counter_snapshot_def)

lemma counter_cumulative:
  "cumulative_run zero_tokens [counter_snapshot 100, counter_snapshot 250]"
  by (simp add: snap_tokens_def counter_snapshot_def tokens_le_def zero_tokens_def explicit_delta_def
      explicit_zero_component_codex_delta_def)

theorem batch_split_witness:
  "build_codex_delta_events (sample_lib sample_line token_line) still_clock []
       ([counter_snapshot 100] @ [counter_snapshot 250]) True =
     (let (events, rows) = build_codex_delta_events (sample_lib sample_line token_line) still_clock [] [counter_snapshot 100] True;
          (events', rows') = build_codex_delta_events (sample_lib sample_line token_line) still_clock (store_rows rows [])
                               [counter_snapshot 250] False
      in (events @ events', rows @ rows'))"
  by (rule batch_split) (simp_all add: codex_db_ok_def snap_ok_def counter_snapshot_def no_stored_rows_def scope_rows_def)

theorem codex_usage_conserved_witness:
  "et_input_tokens (sum_tokens (map ue_tokens (fst (sample_build [] [100, 250] False)))) = 250"
proof -
  have "scope_start [] False (''f'', ''s'', None) = (1, None)"
    by (simp add: scope_start_def next_codex_ordinal_def get_latest_codex_snapshot_def scope_rows_def)
  moreover have "growing_counters zero_tokens (map counter_snapshot [100, 250])"
    by (simp add: tokens_le_def snap_tokens_def counter_snapshot_def zero_tokens_def)
  moreover have "stated_tokens (counter_snapshot i) = None" for i
    by (simp add: stated_tokens_def explicit_zero_component_codex_delta_def explicit_delta_def counter_snapshot_def)
  ultimately have "add_tokens zero_tokens (sum_tokens (map ue_tokens (fst (sample_build [] [100, 250] False))))
      = snap_tokens (counter_snapshot 250)"
    using codex_usage_conserved [of "map counter_snapshot [100, 250]" "(''f'', ''s'', None)" "[]" False
        "sample_lib sample_line token_line" still_clock] counter_cumulative
    by (simp add: counter_key baseline_def sample_build_def Let_def tokens_laws del: cumulative_run.simps)
  then show ?thesis
    by (simp add: tokens_laws snap_tokens_def counter_snapshot_def)
qed

theorem codex_events_sound_witness:
  "map cr_token_event_ordinal (snd (sample_build [] [100, 250] False)) = [1, 2]"
  using codex_events_sound [of "map counter_snapshot [100, 250]" "(''f'', ''s'', None)"
      "sample_lib sample_line token_line" still_clock "[]" False]
  by (simp add: counter_key sample_build_def scope_start_def next_codex_ordinal_def get_latest_codex_snapshot_def
      scope_rows_def upt_rec)

text \<open>
  A restart loses later usage. A session whose log reached 100, 200 and 300 input tokens is
  restarted and counts 10, which is one event of 10 tokens; the row of that count overwrites the one
  with ordinal 1, but the rows with ordinals 2 and 3 stay, so the next batch, at 50, takes the count
  300 of before the restart as its baseline: its event has no tokens, and 40 tokens are never counted.
\<close>

theorem restart_loses_usage:
  "(let db1 = store_rows (snd (sample_build [] [100, 200, 300] False)) [];
        (events2, rows2) = sample_build db1 [10] True;
        db2 = store_rows rows2 db1;
        (events3, _) = sample_build db2 [50] False
    in (map (et_input_tokens \<circ> ue_tokens) events2, map (et_input_tokens \<circ> ue_tokens) events3,
        map (\<lambda>r. (cr_token_event_ordinal r, cr_input_tokens r)) db2))
   = ([10], [0], [(1, 10), (2, 200), (3, 300)])"
proof -
  have show_int: "show_int 1 = ''1''" "show_int 2 = ''2''" "show_int 3 = ''3''"
    by code_simp+
  have emitted: "emitted_event l now (counter_snapshot i) p = Some (codex_event l now (counter_snapshot i) p)" for l now i p
    by (simp add: emitted_event_def explicit_zero_component_codex_delta_def counter_snapshot_def)
  have tokens: "et_input_tokens (ue_tokens (codex_event l now (counter_snapshot i) p))
      = max 0 (i - (case p of None \<Rightarrow> 0 | Some r \<Rightarrow> cr_input_tokens r))" for l now i p
    by (cases p) (simp_all add: codex_event_tokens codex_snapshot_delta_def compute_codex_delta_def delta_tokens_def
        counter_snapshot_def)
  have row: "cr_id (from_domain now (counter_snapshot i) n eid) = ''codex-snap:f:s:none:'' @ show_int n"
    "cr_source_file_id (from_domain now (counter_snapshot i) n eid) = ''f''"
    "cr_session_id (from_domain now (counter_snapshot i) n eid) = ''s''"
    "cr_turn_id (from_domain now (counter_snapshot i) n eid) = None"
    "cr_token_event_ordinal (from_domain now (counter_snapshot i) n eid) = n"
    "cr_input_tokens (from_domain now (counter_snapshot i) n eid) = i" for now i n eid
    by (simp_all add: from_domain_def counter_snapshot_def codex_row_id_def)
  show ?thesis
    by (simp add: sample_build_def build_codex_delta_events_def delta_loop_pair counter_key Let_def
        emitted tokens row show_int store_rows_def upsert_codex_snapshot_def scope_start_def next_codex_ordinal_def
        get_latest_codex_snapshot_def scope_rows_def load_scopes_def del: delta_loop.simps(2))
qed

end
