(* ===== verification/Usage_Writer.thy ===== *)
theory Usage_Writer
  imports Promotion Codex_Deltas
begin

text \<open>
  The writer actor of \<open>busytok-runtime/src/writer.rs\<close>: the commands, the batching and flushing of
  tail and rebuild batches in one transaction per generation, the handlers of the other commands,
  the periodic metrics checkpoint with its pruning, and the loop that runs them. The readings of one
  step (clock, queue depth, iteration order of the hash map of groups) are one argument; envelopes
  as JSON, time zones and floats are parameters. The session, project, model and realtime tables that
  a rollup rebuild also replaces are not modelled beyond whether replacing them fails.
\<close>

section \<open>Commands and events\<close>

record batch =
  wb_source_id :: string
  wb_source_file_id :: "string option"
  wb_source_file_agent :: string
  wb_source_file_path :: string
  wb_source_file_inode :: "string option"
  wb_events :: "usage_event list"
  wb_tool_events :: "tool_event list"
  wb_diagnostic_events :: "diagnostic_event list"
  wb_codex_snapshots :: "codex_row list"
  wb_generation_id :: string
  wb_checkpoint_offset :: "nat option"
  wb_write_policy :: usage_write_policy

record progress_checkpoint =
  pc_file_id :: string
  pc_source_id :: string
  pc_agent :: string
  pc_path :: string
  pc_inode :: "string option"
  pc_offset_bytes :: int
  pc_size_bytes :: int
  pc_last_mtime_ms :: "int option"
  pc_state :: string

record diagnostic_write =
  dw_source_id :: string
  dw_code :: string
  dw_message :: string
  dw_severity :: string
  dw_details_json :: "string option"

datatype write_command =
    Tail_Batch batch
  | Rebuild_Batch batch bool
  | Generation_Create string
  | Tail_Replay_Batch "replay_enqueue list"
  | Record_Tail_Replay replay_enqueue
  | Apply_Replay_To_Target string "string option" int
  | Progress_Checkpoint progress_checkpoint
  | Promotion_Barrier string string
  | Diagnostic_Write diagnostic_write
  | Settings_Write string string
  | Log_Source_Upsert log_source_row
  | Realtime_Summary_Replace "(string \<times> string) list"
  | Rebuild_Rollups string
  | Reset_Failed_Checkpoints
  | Flush
  | Shutdown

datatype app_event =
    Usage_Event_Inserted string string
  | Summary_Updated "string list"
  | Scan_Progress string nat int
  | Error_Event string "string option"
  | Data_Invalidated
  | Live_Sample live_sample bool
  | Subscription_Connected "string option"
  | Subscription_Disconnected "string option" "string option"
  | Subscription_Reconnect_Failed nat string
  | Writer_Queue_Threshold int int string
  | Writer_Lag_Threshold int int string

fun event_type :: "app_event \<Rightarrow> string" where
  "event_type (Usage_Event_Inserted _ _) = ''usage:event_inserted''"
| "event_type (Summary_Updated _) = ''usage:summary_updated''"
| "event_type (Scan_Progress _ _ _) = ''usage:scan_progress''"
| "event_type (Error_Event _ _) = ''usage:error''"
| "event_type Data_Invalidated = ''data:invalidated''"
| "event_type (Live_Sample _ _) = ''live:sample''"
| "event_type (Subscription_Connected _) = ''subscription:connected''"
| "event_type (Subscription_Disconnected _ _) = ''subscription:disconnected''"
| "event_type (Subscription_Reconnect_Failed _ _) = ''subscription:reconnect_failed''"
| "event_type (Writer_Queue_Threshold _ _ _) = ''diagnostic:writer_queue_threshold''"
| "event_type (Writer_Lag_Threshold _ _ _) = ''diagnostic:writer_lag_threshold''"

fun is_ephemeral :: "app_event \<Rightarrow> bool" where
  "is_ephemeral (Usage_Event_Inserted _ _) = False"
| "is_ephemeral (Summary_Updated _) = False"
| "is_ephemeral (Error_Event _ _) = False"
| "is_ephemeral Data_Invalidated = False"
| "is_ephemeral _ = True"

text \<open>
  A durable event carries its sequence number, generation and watermark; the scopes it invalidates are
  always the canonical ones.
\<close>

datatype published_event = Durable app_event int string int | Ephemeral app_event

datatype reply = Reply_Unit "string + unit" | Reply_Count "string + nat"

record busytok_settings =
  bs_timezone :: string
  bs_week_starts_on :: nat

record writer_lib =
  wl_store :: store_lib
  wl_fadd :: "f64_bits \<Rightarrow> f64_bits \<Rightarrow> f64_bits"
  wl_f64_of_int :: "int \<Rightarrow> f64_bits"
  wl_half :: "f64_bits \<Rightarrow> f64_bits"
  wl_positive :: "f64_bits \<Rightarrow> bool"
  wl_parse_tz :: "string \<Rightarrow> string + reporting_timezone"
  wl_utc :: reporting_timezone
  wl_trim :: "string \<Rightarrow> string"
  wl_replay :: replay_lib
  wl_envelope :: "published_event \<Rightarrow> string option"

record writer_clock =
  wk_now :: int
  wk_queue_depth :: int
  wk_group_order :: "string list \<Rightarrow> string list"
  wk_barrier :: barrier_clock
  wk_contended :: bool
  wk_replace_failure :: "string option"

record writer_state =
  wr_db :: generation_db
  wr_tools :: "tool_event list"
  wr_snapshots :: "codex_row list"
  wr_realtime :: "(string \<times> string) list"
  wr_settings :: busytok_settings
  wr_status :: status_snapshot
  wr_bus :: "published_event list"
  wr_replies :: "reply list"
  wr_pending_batches :: "write_command list"
  wr_pending_errors :: "string list"
  wr_prev_queue_state :: "string option"
  wr_prev_lag_state :: "string option"
  wr_last_metrics_checkpoint :: int
  wr_diag_counter :: nat
  wr_running :: bool

definition QUEUE_WARNING_THRESHOLD :: int where "QUEUE_WARNING_THRESHOLD = 64"
definition QUEUE_CRITICAL_THRESHOLD :: int where "QUEUE_CRITICAL_THRESHOLD = 96"
definition LAG_WARNING_THRESHOLD_MS :: int where "LAG_WARNING_THRESHOLD_MS = 5000"
definition LAG_CRITICAL_THRESHOLD_MS :: int where "LAG_CRITICAL_THRESHOLD_MS = 30000"
definition METRICS_CHECKPOINT_INTERVAL_SECS :: int where "METRICS_CHECKPOINT_INTERVAL_SECS = 30"
definition BATCH_SIZE :: nat where "BATCH_SIZE = 100"

section \<open>Gathering a group of batches\<close>

fun batch_of :: "write_command \<Rightarrow> batch option" where
  "batch_of (Tail_Batch b) = Some b"
| "batch_of (Rebuild_Batch b _) = Some b"
| "batch_of _ = None"

definition pending_event_count :: "write_command list \<Rightarrow> nat" where
  "pending_event_count cmds =
     sum_list (map (\<lambda>c. case batch_of c of Some b \<Rightarrow> length (wb_events b) | None \<Rightarrow> 0) cmds)"

record file_checkpoint =
  fc_source_id :: string
  fc_agent :: string
  fc_path :: string
  fc_inode :: "string option"
  fc_offset :: int
  fc_size :: int

record gathered =
  ga_events :: "(usage_event \<times> usage_write_policy) list"
  ga_tools :: "tool_event list"
  ga_diags :: "diagnostic_event list"
  ga_snapshots :: "codex_row list"
  ga_ckpts :: "(string \<times> file_checkpoint) list"
  ga_source_ids :: "string list"

text \<open>The last batch of a file decides its checkpoint; a batch without an offset sets it to zero.\<close>

definition gather_one :: "batch \<Rightarrow> gathered \<Rightarrow> gathered" where
  "gather_one b a =
     \<lparr>ga_events = ga_events a @ map (\<lambda>e. (e, wb_write_policy b)) (wb_events b),
      ga_tools = ga_tools a @ wb_tool_events b,
      ga_diags = ga_diags a @ wb_diagnostic_events b,
      ga_snapshots = ga_snapshots a @ wb_codex_snapshots b,
      ga_ckpts =
        (case wb_source_file_id b of
           None \<Rightarrow> ga_ckpts a
         | Some fid \<Rightarrow>
             upsert_row fst (\<lambda>_ new. new)
               (fid, \<lparr>fc_source_id = wb_source_id b, fc_agent = wb_source_file_agent b,
                      fc_path = wb_source_file_path b, fc_inode = wb_source_file_inode b,
                      fc_offset = int (unwrap_or 0 (wb_checkpoint_offset b)),
                      fc_size = int (unwrap_or 0 (wb_checkpoint_offset b))\<rparr>)
               (ga_ckpts a)),
      ga_source_ids = (if wb_source_id b \<in> set (ga_source_ids a) then ga_source_ids a
                       else ga_source_ids a @ [wb_source_id b])\<rparr>"

definition gather :: "batch list \<Rightarrow> gathered" where
  "gather bs = fold gather_one bs
     \<lparr>ga_events = [], ga_tools = [], ga_diags = [], ga_snapshots = [], ga_ckpts = [], ga_source_ids = []\<rparr>"

section \<open>The transaction\<close>

text \<open>\<open>INSERT OR IGNORE\<close> for tool events.\<close>

definition insert_tool_event :: "tool_event \<Rightarrow> tool_event list \<Rightarrow> tool_event list" where
  "insert_tool_event t ts = (if list_ex (\<lambda>x. te_id x = te_id t) ts then ts else ts @ [t])"

definition insert_supplementary_events ::
  "gathered \<Rightarrow> tool_event list \<Rightarrow> diagnostic_event list \<Rightarrow> codex_row list
   \<Rightarrow> tool_event list \<times> diagnostic_event list \<times> codex_row list" where
  "insert_supplementary_events a tools diags snaps =
     (fold insert_tool_event (ga_tools a) tools,
      fold upsert_diagnostic_event (ga_diags a) diags,
      store_rows (ga_snapshots a) snaps)"

definition put_checkpoint :: "int \<Rightarrow> string \<times> file_checkpoint \<Rightarrow> source_db \<Rightarrow> source_db" where
  "put_checkpoint now entry sd =
     (let (fid, c) = entry;
          f = new_file_row now fid (fc_source_id c) (fc_agent c) (fc_path c) (fc_inode c) (fc_offset c) (fc_size c)
                None ''active'' None
      in sd\<lparr>sd_checkpoints := upsert_source_file_checkpoint f (sd_checkpoints sd),
            sd_log_files := upsert_log_file_checkpoint f (sd_log_files sd)\<rparr>)"

record flush_outcome =
  fo_inserted :: int
  fo_replaced :: int
  fo_seq_start :: int
  fo_seq_end :: int
  fo_effective_events :: "usage_event list"

definition outbox_entries :: "writer_lib \<Rightarrow> int \<Rightarrow> string \<Rightarrow> string \<Rightarrow> string \<Rightarrow> int \<Rightarrow> int \<Rightarrow> (int \<times> string) list" where
  "outbox_entries l wm source_id agent g seq_start inserted =
     concat (map (\<lambda>i. let seq = seq_start + i in
         case wl_envelope l (Durable (Usage_Event_Inserted (''tail-'' @ source_id @ ''-'' @ show_int seq) agent) seq g wm) of
           None \<Rightarrow> [] | Some json \<Rightarrow> [(seq, json)])
       [0..inserted - 1])"

text \<open>The sequence numbers of a batch: one per inserted event, and two for the notifications.\<close>

definition number_batch ::
  "writer_lib \<Rightarrow> int \<Rightarrow> string \<Rightarrow> string \<Rightarrow> string \<Rightarrow> int \<Rightarrow> bool \<Rightarrow> outbox_db \<Rightarrow> (int \<times> int) \<times> outbox_db" where
  "number_batch l now source_id agent g inserted mutated db =
     (if \<not> mutated then ((0, -1), db)
      else let ((seq_start, seq_end), db) = allocate_event_sequence_batch now (inserted + 2) db;
               entries = outbox_entries l now source_id agent g seq_start inserted
           in ((seq_start, seq_end),
               if entries = [] then db else append_durable_outbox_events now entries db))"

record store_state =
  st_db :: generation_db
  st_tools :: "tool_event list"
  st_snapshots :: "codex_row list"

text \<open>An error anywhere rolls the whole transaction back.\<close>

definition write_batch ::
  "writer_lib \<Rightarrow> int \<Rightarrow> reporting_timezone \<Rightarrow> string \<Rightarrow> string \<Rightarrow> string \<Rightarrow> gathered \<Rightarrow> store_state
   \<Rightarrow> string + (flush_outcome \<times> store_state)" where
  "write_batch l now tz source_id agent g a s =
     (let db = st_db s in
      case upsert_usage_events_dedup_aware (wl_store l) (ga_events a) g (gd_usage db) of
        Inl e \<Rightarrow> Inl ''UNIQUE constraint failed''
      | Inr d \<Rightarrow>
          (let effective = ds_effective_events d; usage = ds_db d;
               (tools, diags, snaps) = insert_supplementary_events a (st_tools s) (ud_diagnostic_events usage) (st_snapshots s);
               ro = update_materialized_aggregates_from_events (wl_fadd l) now effective g (gd_rollups db)
           in case upsert_daily_usage_for_events (wl_fadd l) effective tz g (ro_daily_usage ro) of
                Inl e \<Rightarrow> Inl (''daily_usage upsert failed: '' @ e)
              | Inr daily \<Rightarrow>
                  (let usage = usage\<lparr>ud_diagnostic_events := diags\<rparr>;
                       sd = fold (put_checkpoint now) (ga_ckpts a) (gd_sources db);
                       sd = refresh_source_summaries_for_inserted_events (wl_trim l) now g (ud_usage_events usage)
                              effective (ga_source_ids a) sd;
                       mutated = (0 < ds_inserted d \<or> 0 < ds_replaced d);
                       ((seq_start, seq_end), ob) =
                         number_batch l now source_id agent g (ds_inserted d) mutated (gd_sequence db)
                   in Inr (\<lparr>fo_inserted = ds_inserted d, fo_replaced = ds_replaced d, fo_seq_start = seq_start,
                            fo_seq_end = seq_end, fo_effective_events = effective\<rparr>,
                           \<lparr>st_db = db\<lparr>gd_usage := usage, gd_rollups := ro\<lparr>ro_daily_usage := daily\<rparr>,
                                      gd_sources := sd, gd_sequence := ob\<rparr>,
                            st_tools = tools, st_snapshots = snaps\<rparr>))))"

section \<open>Flushing\<close>

text \<open>The live bucket: it is published when its window has passed, then restarted.\<close>

definition live_sample_of :: "writer_lib \<Rightarrow> live_bucket \<Rightarrow> live_sample" where
  "live_sample_of l b =
     \<lparr>ls_bucket_start_ms = lb_bucket_start_ms b,
      ls_tokens_per_sec = wl_half l (wl_f64_of_int l (lb_total_tokens b)),
      ls_cost_per_sec = (if wl_positive l (lb_cost_usd b) then Some (wl_half l (lb_cost_usd b)) else None),
      ls_events_per_sec = wl_half l (wl_f64_of_int l (lb_event_count b))\<rparr>"

definition add_to_bucket :: "writer_lib \<Rightarrow> usage_event \<Rightarrow> live_bucket \<Rightarrow> live_bucket" where
  "add_to_bucket l e b =
     b\<lparr>lb_total_tokens := lb_total_tokens b + et_total_tokens (ue_tokens e),
       lb_cost_usd := wl_fadd l (lb_cost_usd b) (unwrap_or 0 (ec_cost_usd (ue_cost e))),
       lb_event_count := lb_event_count b + 1\<rparr>"

definition window_crossed :: "int \<Rightarrow> live_bucket \<Rightarrow> bool" where
  "window_crossed now b =
     (lb_bucket_start_ms b \<noteq> 0 \<and> lb_bucket_start_ms b \<noteq> bucket_start 2000 now \<and> 0 < lb_event_count b)"

definition accumulate_live_bucket :: "writer_lib \<Rightarrow> int \<Rightarrow> usage_event list \<Rightarrow> writer_state \<Rightarrow> writer_state" where
  "accumulate_live_bucket l now events w =
     (if events = [] then w
      else let b = ss_live_bucket (wr_status w); crossed = window_crossed now b;
               b' = (if crossed then live_bucket_default else b)
           in w\<lparr>wr_bus := wr_bus w @ (if crossed then [Ephemeral (Live_Sample (live_sample_of l b) False)] else []),
                wr_status := (wr_status w)\<lparr>ss_live_bucket :=
                  fold (add_to_bucket l) events (b'\<lparr>lb_bucket_start_ms := bucket_start 2000 now\<rparr>)\<rparr>\<rparr>)"

definition writer_store :: "writer_state \<Rightarrow> store_state" where
  "writer_store w = \<lparr>st_db = wr_db w, st_tools = wr_tools w, st_snapshots = wr_snapshots w\<rparr>"

definition set_store :: "store_state \<Rightarrow> writer_state \<Rightarrow> writer_state" where
  "set_store s w = w\<lparr>wr_db := st_db s, wr_tools := st_tools s, wr_snapshots := st_snapshots s\<rparr>"

text \<open>After the commit: the snapshot, the live bucket, then the notifications.\<close>

definition after_commit ::
  "writer_lib \<Rightarrow> int \<Rightarrow> string \<Rightarrow> string \<Rightarrow> nat \<Rightarrow> flush_outcome \<Rightarrow> writer_state \<Rightarrow> writer_state" where
  "after_commit l now g source_id file_count out w =
     (let w = (if 0 < fo_seq_end out
               then w\<lparr>wr_status := (wr_status w)\<lparr>ss_latest_event_seq := Some (fo_seq_end out),
                        ss_total_usage_event_count := ss_total_usage_event_count (wr_status w) + fo_inserted out,
                        ss_chip_data_hydrated := False\<rparr>\<rparr>
               else w);
          w = accumulate_live_bucket l now (fo_effective_events out) w
      in if 0 < fo_inserted out \<or> 0 < fo_replaced out
         then w\<lparr>wr_bus := wr_bus w @
                [Durable Data_Invalidated (fo_seq_start out + fo_inserted out) g now,
                 Durable (Summary_Updated [''usage'', ''aggregates'']) (fo_seq_end out) g now,
                 Ephemeral (Scan_Progress source_id file_count (fo_inserted out))]\<rparr>
         else w)"

text \<open>A failed flush is only logged: its batches are gone, and no error is kept for the next barrier.\<close>

definition flush_single_generation ::
  "writer_lib \<Rightarrow> writer_clock \<Rightarrow> batch list \<Rightarrow> string \<Rightarrow> writer_state \<Rightarrow> writer_state" where
  "flush_single_generation l k bs g w =
     (let a = gather bs;
          agent = (case bs of [] \<Rightarrow> [] | b # _ \<Rightarrow> wb_source_file_agent b);
          source_id = (case bs of [] \<Rightarrow> [] | b # _ \<Rightarrow> wb_source_id b);
          tz = (case wl_parse_tz l (bs_timezone (wr_settings w)) of Inr tz \<Rightarrow> tz | Inl _ \<Rightarrow> wl_utc l)
      in case write_batch l (wk_now k) tz source_id agent g a (writer_store w) of
           Inl e \<Rightarrow> w
         | Inr (out, s) \<Rightarrow> after_commit l (wk_now k) g source_id (length (ga_ckpts a)) out (set_store s w))"

definition batches_of :: "string \<Rightarrow> write_command list \<Rightarrow> batch list" where
  "batches_of g cmds = filter (\<lambda>b. wb_generation_id b = g) (List.map_filter batch_of cmds)"

definition flush_pending_batches :: "writer_lib \<Rightarrow> writer_clock \<Rightarrow> writer_state \<Rightarrow> writer_state" where
  "flush_pending_batches l k w =
     (let cmds = wr_pending_batches w;
          gens = wk_group_order k (remdups (map wb_generation_id (List.map_filter batch_of cmds)))
      in fold (\<lambda>g. flush_single_generation l k (batches_of g cmds) g) gens (w\<lparr>wr_pending_batches := []\<rparr>))"

definition prune_old_usage_events :: "int \<Rightarrow> writer_state \<Rightarrow> writer_state" where
  "prune_old_usage_events now w =
     (case ss_active_generation_id (wr_status w) of
        None \<Rightarrow> w
      | Some g \<Rightarrow>
          (let (deleted, usage) = prune_usage_events now g (gd_usage (wr_db w)); s = wr_status w
           in w\<lparr>wr_db := (wr_db w)\<lparr>gd_usage := usage\<rparr>,
                wr_status := (if 0 < deleted
                              then s\<lparr>ss_total_usage_event_count :=
                                       i64_saturating_sub (ss_total_usage_event_count s) deleted\<rparr>
                              else s)\<rparr>))"

definition drain_pending_errors :: "writer_state \<Rightarrow> (string + unit) \<times> writer_state" where
  "drain_pending_errors w =
     (case wr_pending_errors w of
        [] \<Rightarrow> (Inr (), w)
      | [e] \<Rightarrow> (Inl e, w\<lparr>wr_pending_errors := []\<rparr>)
      | es \<Rightarrow>
          (Inl (show_nat (length es) @ '' writer errors since previous barrier: ''
                @ join ''; '' (map (\<lambda>i. show_nat (Suc i) @ ''. '' @ es ! i) [0..<length es])),
           w\<lparr>wr_pending_errors := []\<rparr>))"

section \<open>The other commands\<close>

text \<open>Summaries of one source for the active generation, if there is one.\<close>

definition refresh_active_source :: "int \<Rightarrow> string list \<Rightarrow> generation_db \<Rightarrow> generation_db" where
  "refresh_active_source now ids db =
     (case current_active_generation_id db of
        None \<Rightarrow> db
      | Some g \<Rightarrow> db\<lparr>gd_sources :=
          refresh_source_summaries_for_sources now g (ud_usage_events (gd_usage db)) ids (gd_sources db)\<rparr>)"

definition handle_progress_checkpoint :: "int \<Rightarrow> progress_checkpoint \<Rightarrow> generation_db \<Rightarrow> generation_db" where
  "handle_progress_checkpoint now c db =
     (let f = new_file_row now (pc_file_id c) (pc_source_id c) (pc_agent c) (pc_path c) (pc_inode c)
                (pc_offset_bytes c) (pc_size_bytes c) (pc_last_mtime_ms c) (pc_state c) None;
          sd = gd_sources db
      in refresh_active_source now [pc_source_id c]
           (db\<lparr>gd_sources := sd\<lparr>sd_checkpoints := upsert_source_file_checkpoint f (sd_checkpoints sd),
                                sd_log_files := upsert_log_file_checkpoint f (sd_log_files sd)\<rparr>\<rparr>))"

definition handle_diagnostic_write :: "int \<Rightarrow> diagnostic_write \<Rightarrow> writer_state \<Rightarrow> writer_state" where
  "handle_diagnostic_write now c w =
     (let d = \<lparr>de_id = ''diag-'' @ dw_source_id c @ ''-'' @ show_int now @ ''-'' @ show_nat (wr_diag_counter w),
               de_agent = None, de_source_id = Some (dw_source_id c), de_source_file_id = None,
               de_source_path = None, de_source_line = None, de_category = dw_code c,
               de_severity = dw_severity c, de_message = dw_message c, de_detail_json = dw_details_json c,
               de_happened_at_ms = now, de_created_at_ms = now\<rparr>
      in w\<lparr>wr_diag_counter := Suc (wr_diag_counter w),
           wr_db := refresh_active_source now [dw_source_id c] (put_diagnostic d (wr_db w)),
           wr_bus := wr_bus w @
             (if dw_severity c = ''error'' \<or> dw_severity c = ''warning''
              then [Ephemeral (Error_Event (dw_message c) (Some (dw_source_id c)))] else [])\<rparr>)"

text \<open>\<open>u8::from_str\<close>: an optional plus sign, digits, in range.\<close>

definition parse_u8 :: "string \<Rightarrow> nat option" where
  "parse_u8 s =
     (let digits = (case s of c # cs \<Rightarrow> if c = CHR ''+'' then cs else s | [] \<Rightarrow> s)
      in if digits = [] \<or> \<not> list_all is_digit digits \<or> 255 < digits_value digits then None
         else Some (nat (digits_value digits)))"

definition handle_settings_write :: "string \<Rightarrow> string \<Rightarrow> busytok_settings \<Rightarrow> (string + unit) \<times> busytok_settings" where
  "handle_settings_write key value_json s =
     (if key = ''timezone'' then (Inr (), s\<lparr>bs_timezone := value_json\<rparr>)
      else if key = ''week_starts_on''
      then (case parse_u8 value_json of
              Some v \<Rightarrow> (Inr (), s\<lparr>bs_week_starts_on := v\<rparr>)
            | None \<Rightarrow> (Inl (''invalid week_starts_on value: '' @ value_json), s))
      else (Inl (''unsupported settings key: '' @ key), s))"

definition handle_log_source_upsert :: "int \<Rightarrow> log_source_row \<Rightarrow> generation_db \<Rightarrow> generation_db" where
  "handle_log_source_upsert now row db =
     refresh_active_source now [lo_id row]
       (db\<lparr>gd_sources := (gd_sources db)\<lparr>sd_log_sources := upsert_log_source row (sd_log_sources (gd_sources db))\<rparr>\<rparr>)"

definition failed_file :: "file_row \<Rightarrow> bool" where
  "failed_file f = (fr_state f = ''error'' \<or> fr_state f = ''failed'')"

definition handle_reset_failed_checkpoints :: "int \<Rightarrow> generation_db \<Rightarrow> nat \<times> generation_db" where
  "handle_reset_failed_checkpoints now db =
     (let sd = gd_sources db;
          source_ids = ordered_ids (map fr_source_id (filter failed_file (sd_log_files sd)));
          updated = count_where failed_file (sd_log_files sd);
          files = upd_where failed_file
                    (\<lambda>f. f\<lparr>fr_offset_bytes := 0, fr_state := ''active'', fr_last_error := None\<rparr>) (sd_log_files sd);
          db = db\<lparr>gd_sources := sd\<lparr>sd_log_files := files\<rparr>\<rparr>
      in (updated, if 0 < updated then refresh_active_source now source_ids db else db))"

text \<open>
  The rollup rebuild for a new time zone: \<open>daily_usage\<close> is emptied, of every generation, and filled
  from the events of the active one that are still stored. Its statements are not in one transaction:
  a failure leaves what came before it.
\<close>

definition usage_events_for_generation :: "string \<Rightarrow> usage_table_row list \<Rightarrow> usage_event list" where
  "usage_events_for_generation g rows = all_usage_events (filter (\<lambda>r. ur_generation_id r = g) rows)"

definition rebuild_daily ::
  "writer_lib \<Rightarrow> reporting_timezone \<Rightarrow> string \<Rightarrow> usage_event list \<Rightarrow> daily_row list" where
  "rebuild_daily l tz g events =
     (case upsert_daily_usage_for_events (wl_fadd l)
             (takeWhile (\<lambda>e. tz_local_date tz (ue_timestamp_ms e) \<noteq> None) events) tz g [] of
        Inr rows \<Rightarrow> rows | Inl e \<Rightarrow> [])"

definition rebuild_rollups_store ::
  "writer_lib \<Rightarrow> writer_clock \<Rightarrow> string \<Rightarrow> string option \<Rightarrow> generation_db
   \<Rightarrow> (string + int option) \<times> generation_db" where
  "rebuild_rollups_store l k timezone active db =
     (case wl_parse_tz l timezone of
        Inl e \<Rightarrow> (Inl (''invalid timezone '' @ qt @ timezone @ qt @ '': '' @ e), db)
      | Inr tz \<Rightarrow>
          (case active of
             None \<Rightarrow>
               if ud_usage_events (gd_usage db) = [] then (Inr None, db)
               else (Inl (''rebuild requires an active generation (found '' @ show_nat (length (ud_usage_events (gd_usage db)))
                          @ '' usage events without an active generation; service may be mid-bootstrap)''), db)
           | Some g \<Rightarrow>
               (let events = usage_events_for_generation g (ud_usage_events (gd_usage db));
                    db = db\<lparr>gd_rollups := (gd_rollups db)\<lparr>ro_daily_usage := rebuild_daily l tz g events\<rparr>\<rparr>
                in case upsert_daily_usage_for_events (wl_fadd l) events tz g [] of
                     Inl e \<Rightarrow> (Inl (''failed to rebuild daily_usage: '' @ e), db)
                   | Inr _ \<Rightarrow>
                       (case wk_replace_failure k of
                          Some e \<Rightarrow> (Inl e, db)
                        | None \<Rightarrow>
                            (let ((seq, _), ob) = allocate_event_sequence_batch (wk_now k) 1 (gd_sequence db)
                             in (Inr (Some seq), db\<lparr>gd_sequence := ob\<rparr>))))))"

definition handle_rebuild_rollups ::
  "writer_lib \<Rightarrow> writer_clock \<Rightarrow> string \<Rightarrow> writer_state \<Rightarrow> writer_state" where
  "handle_rebuild_rollups l k timezone w =
     (let (result, db) = rebuild_rollups_store l k timezone (ss_active_generation_id (wr_status w)) (wr_db w);
          w = w\<lparr>wr_db := db\<rparr>
      in case result of
           Inr (Some seq) \<Rightarrow>
             w\<lparr>wr_status := (wr_status w)\<lparr>ss_latest_event_seq := Some seq\<rparr>,
               wr_bus := wr_bus w @ [Durable Data_Invalidated seq
                                       (unwrap_or [] (ss_active_generation_id (wr_status w))) (wk_now k)],
               wr_replies := wr_replies w @ [Reply_Unit (Inr ())]\<rparr>
         | Inr None \<Rightarrow> w\<lparr>wr_replies := wr_replies w @ [Reply_Unit (Inr ())]\<rparr>
         | Inl e \<Rightarrow> w\<lparr>wr_replies := wr_replies w @ [Reply_Unit (Inl e)]\<rparr>)"

definition handle_promotion_barrier ::
  "writer_lib \<Rightarrow> writer_clock \<Rightarrow> string \<Rightarrow> writer_state \<Rightarrow> (string + unit) \<times> writer_state" where
  "handle_promotion_barrier l k g w =
     (let (r, db, status) = execute_promotion_barrier (wl_replay l) (wk_barrier k) (wk_contended k) g (wr_db w) (wr_status w);
          w = w\<lparr>wr_db := db, wr_status := status\<rparr>
      in case r of
           Inl e \<Rightarrow> (Inl e, w)
         | Inr p \<Rightarrow>
             if pr_promoted p then (Inr (), w)
             else (Inl (''promotion barrier refused: '' @ unwrap_or ''unknown'' (pr_degradation_reason p)), w))"

definition set_db :: "generation_db \<Rightarrow> writer_state \<Rightarrow> writer_state" where
  "set_db db w = w\<lparr>wr_db := db\<rparr>"

definition dispatch_command ::
  "writer_lib \<Rightarrow> writer_clock \<Rightarrow> write_command \<Rightarrow> writer_state \<Rightarrow> (string + unit) \<times> writer_state" where
  "dispatch_command l k cmd w =
     (let now = wk_now k; db = wr_db w in
      case cmd of
        Generation_Create g \<Rightarrow> (Inr (), set_db (create_generation now g db) w)
      | Tail_Replay_Batch rows \<Rightarrow> (Inr (), set_db (enqueue_tail_replay_rows now rows db) w)
      | Record_Tail_Replay row \<Rightarrow> (Inr (), set_db (enqueue_tail_replay_rows now [row] db) w)
      | Apply_Replay_To_Target g file limit \<Rightarrow>
          (case apply_replay_rows_to_target_generation (wl_replay l) now g file limit db of
             Inl e \<Rightarrow> (Inl e, w)
           | Inr (_, db) \<Rightarrow> (Inr (), set_db db w))
      | Progress_Checkpoint c \<Rightarrow> (Inr (), set_db (handle_progress_checkpoint now c db) w)
      | Promotion_Barrier _ g \<Rightarrow> handle_promotion_barrier l k g w
      | Diagnostic_Write c \<Rightarrow> (Inr (), handle_diagnostic_write now c w)
      | Settings_Write key value_json \<Rightarrow>
          (let (r, s) = handle_settings_write key value_json (wr_settings w)
           in (Inr (), w\<lparr>wr_settings := s, wr_replies := wr_replies w @ [Reply_Unit r]\<rparr>))
      | Log_Source_Upsert row \<Rightarrow> (Inr (), set_db (handle_log_source_upsert now row db) w)
      | Realtime_Summary_Replace entries \<Rightarrow> (Inr (), w\<lparr>wr_realtime := entries\<rparr>)
      | Rebuild_Rollups timezone \<Rightarrow> (Inr (), handle_rebuild_rollups l k timezone w)
      | Reset_Failed_Checkpoints \<Rightarrow>
          (let (n, db) = handle_reset_failed_checkpoints now db
           in (Inr (), set_db db (w\<lparr>wr_replies := wr_replies w @ [Reply_Count (Inr n)]\<rparr>)))
      | _ \<Rightarrow> (Inr (), w))"

section \<open>The actor's loop\<close>

definition persist_metrics_checkpoint :: "int \<Rightarrow> writer_state \<Rightarrow> writer_state" where
  "persist_metrics_checkpoint now w =
     set_db (checkpoint_writer_metrics now (ss_writer_queue_depth (wr_status w)) (ss_aggregate_lag_ms (wr_status w))
               (wr_db w)) w"

definition severity_of :: "int \<Rightarrow> int \<Rightarrow> int \<Rightarrow> string option" where
  "severity_of critical warning x =
     (if critical \<le> x then Some ''critical'' else if warning \<le> x then Some ''warning'' else None)"

definition emit_queue_threshold :: "int \<Rightarrow> int \<Rightarrow> writer_state \<Rightarrow> writer_state" where
  "emit_queue_threshold now depth w =
     (let current = severity_of QUEUE_CRITICAL_THRESHOLD QUEUE_WARNING_THRESHOLD depth in
      if wr_prev_queue_state w = current then w
      else let w' =
             (case current of
                Some severity \<Rightarrow>
                  persist_metrics_checkpoint now
                    (w\<lparr>wr_bus := wr_bus w @ [Ephemeral (Writer_Queue_Threshold depth
                         (if severity = ''critical'' then QUEUE_CRITICAL_THRESHOLD else QUEUE_WARNING_THRESHOLD)
                         severity)]\<rparr>)
              | None \<Rightarrow>
                  w\<lparr>wr_bus := wr_bus w @ [Ephemeral (Writer_Queue_Threshold depth QUEUE_WARNING_THRESHOLD
                       (''recovered_from_'' @ unwrap_or ''warning'' (wr_prev_queue_state w)))]\<rparr>)
           in w'\<lparr>wr_prev_queue_state := current\<rparr>)"

definition emit_lag_threshold :: "int \<Rightarrow> writer_state \<Rightarrow> writer_state" where
  "emit_lag_threshold now w =
     (let lag = ss_aggregate_lag_ms (wr_status w);
          current = severity_of LAG_CRITICAL_THRESHOLD_MS LAG_WARNING_THRESHOLD_MS lag in
      if wr_prev_lag_state w = current then w
      else let w' =
             (case current of
                Some severity \<Rightarrow>
                  persist_metrics_checkpoint now
                    (w\<lparr>wr_bus := wr_bus w @ [Ephemeral (Writer_Lag_Threshold lag
                         (if severity = ''critical'' then LAG_CRITICAL_THRESHOLD_MS else LAG_WARNING_THRESHOLD_MS)
                         severity)]\<rparr>)
              | None \<Rightarrow>
                  w\<lparr>wr_bus := wr_bus w @ [Ephemeral (Writer_Lag_Threshold lag LAG_WARNING_THRESHOLD_MS
                       (''recovered_from_'' @ unwrap_or ''warning'' (wr_prev_lag_state w)))]\<rparr>)
           in w'\<lparr>wr_prev_lag_state := current\<rparr>)"

definition update_status_snapshot :: "int \<Rightarrow> writer_state \<Rightarrow> writer_state" where
  "update_status_snapshot depth w = w\<lparr>wr_status := (wr_status w)\<lparr>ss_writer_queue_depth := depth\<rparr>\<rparr>"

text \<open>After a command: the queue depth, the thresholds, and every half minute metrics and pruning.\<close>

definition housekeeping :: "writer_clock \<Rightarrow> writer_state \<Rightarrow> writer_state" where
  "housekeeping k w =
     (let w = update_status_snapshot (wk_queue_depth k) w;
          w = emit_lag_threshold (wk_now k) (emit_queue_threshold (wk_now k) (wk_queue_depth k) w)
      in if METRICS_CHECKPOINT_INTERVAL_SECS * 1000 < wk_now k - wr_last_metrics_checkpoint w
         then (prune_old_usage_events (wk_now k) (persist_metrics_checkpoint (wk_now k) w))
                \<lparr>wr_last_metrics_checkpoint := wk_now k\<rparr>
         else w)"

definition push_batch :: "writer_lib \<Rightarrow> writer_clock \<Rightarrow> write_command \<Rightarrow> writer_state \<Rightarrow> writer_state" where
  "push_batch l k cmd w =
     (let w = w\<lparr>wr_pending_batches := wr_pending_batches w @ [cmd]\<rparr>
      in if BATCH_SIZE \<le> pending_event_count (wr_pending_batches w) then flush_pending_batches l k w else w)"

definition answer_barrier :: "writer_state \<Rightarrow> writer_state" where
  "answer_barrier w = (let (r, w) = drain_pending_errors w in w\<lparr>wr_replies := wr_replies w @ [Reply_Unit r]\<rparr>)"

definition run_command :: "writer_lib \<Rightarrow> writer_clock \<Rightarrow> write_command \<Rightarrow> writer_state \<Rightarrow> writer_state" where
  "run_command l k cmd w =
     (let (r, w) = dispatch_command l k cmd (flush_pending_batches l k w)
      in case r of Inr () \<Rightarrow> w | Inl e \<Rightarrow> w\<lparr>wr_pending_errors := wr_pending_errors w @ [e]\<rparr>)"

datatype writer_input = Received write_command | Timed_Out | Channel_Closed

definition stop_writer :: "int \<Rightarrow> writer_state \<Rightarrow> writer_state" where
  "stop_writer now w = (persist_metrics_checkpoint now w)\<lparr>wr_running := False\<rparr>"

definition writer_step :: "writer_lib \<Rightarrow> writer_clock \<Rightarrow> writer_input \<Rightarrow> writer_state \<Rightarrow> writer_state" where
  "writer_step l k inp w =
     (if \<not> wr_running w then w
      else case inp of
             Timed_Out \<Rightarrow> flush_pending_batches l k w
           | Channel_Closed \<Rightarrow> stop_writer (wk_now k) (flush_pending_batches l k w)
           | Received Shutdown \<Rightarrow>
               stop_writer (wk_now k)
                 (answer_barrier (persist_metrics_checkpoint (wk_now k) (flush_pending_batches l k w)))
           | Received Flush \<Rightarrow> housekeeping k (answer_barrier (flush_pending_batches l k w))
           | Received cmd \<Rightarrow>
               housekeeping k (if batch_of cmd \<noteq> None then push_batch l k cmd w else run_command l k cmd w))"

definition writer_run :: "writer_lib \<Rightarrow> (writer_clock \<times> writer_input) list \<Rightarrow> writer_state \<Rightarrow> writer_state" where
  "writer_run l = fold (\<lambda>(k, inp). writer_step l k inp)"

end
