(* ===== verification/Usage_Ledger.thy ===== *)
theory Usage_Ledger
  imports Usage_Writer
begin

text \<open>
  What the writer promises over a run: the rollups equal what was ever written, the sequence numbers
  of notifications never repeat, writing a batch again counts nothing, and what a rollup rebuild and a
  failed flush lose.
\<close>

section \<open>Totals of a generation in the rollups\<close>

text \<open>The counters of the daily table for a generation, and the largest time bucket.\<close>

definition daily_total :: "string \<Rightarrow> token_column option \<Rightarrow> daily_row list \<Rightarrow> int" where
  "daily_total g = count_rows dr_key daily_counter (\<lambda>(_, _, _, _, _, h). h = g)"

definition day_total :: "string \<Rightarrow> bucket_counter \<Rightarrow> time_totals list \<Rightarrow> int" where
  "day_total g = count_rows rr_key row_counter (\<lambda>(h, _). h = g)"

lemma daily_total_upsert:
  assumes "upsert_daily_usage_for_events fadd es tz g rows = Inr rows'"
  shows "daily_total g c rows' = daily_total g c rows + sum_list (map (daily_event_counter c) es)"
proof -
  let ?new = "map (\<lambda>e. daily_row_of tz g (the (tz_local_date tz (ue_timestamp_ms e))) e) es"
  have "rows' = fold (upsert_row dr_key (merge_daily fadd)) ?new rows"
    using assms by (simp add: daily_usage_result upsert_daily_usage_rows_def split: option.splits)
  moreover have "daily_counter c (daily_row_of tz g d e) = daily_event_counter c e" for d e
    by (cases c) (simp_all add: daily_row_of_def)
  then have "daily_total g c ?new = sum_list (map (daily_event_counter c) es)"
    by (simp add: daily_total_def count_rows_map daily_row_of_def comp_def)
  ultimately show ?thesis by (simp add: daily_total_def daily.count_upserts)
qed

lemma day_total_update:
  "day_total g c (ro_buckets_day (update_materialized_aggregates_from_events fadd now es g ro))
   = day_total g c (ro_buckets_day ro) + sum_list (map (event_counter c) es)"
proof -
  have "ro_buckets_day (update_materialized_aggregates_from_events fadd now es g ro)
      = fold (upsert_row rr_key (merge_rollup fadd (\<lambda>_ _. ()))) (map (time_row g 86400000 now) es) (ro_buckets_day ro)"
    by (simp add: update_materialized_aggregates_from_events_def aggregate_tables)
  then show ?thesis
    using rollup_table_exact[of "time_row g 86400000 now"
        "\<lambda>e. (g, bucket_start 86400000 (ue_timestamp_ms e), agent_str (ue_agent e), event_model_name e)" "\<lambda>_. ()" now]
    by (simp add: day_total_def gain_def time_row_def)
qed

text \<open>The token columns an event counts in a time bucket.\<close>

fun bucket_column :: "bucket_counter \<Rightarrow> token_column option" where
  "bucket_column Input_Tokens = Some Col_Input"
| "bucket_column Output_Tokens = Some Col_Output"
| "bucket_column Total_Tokens = Some Col_Total"
| "bucket_column Event_Count = None"

lemma daily_event_counter_fun: "daily_event_counter (Some c) = (\<lambda>e. column_of c (ue_tokens e))"
  by (rule ext) simp

lemma bucket_column_counter: "event_counter c e = daily_event_counter (bucket_column c) e"
  by (cases c) simp_all

section \<open>A flush\<close>

text \<open>The writer's part of the invariant, for the generation all batches are of.\<close>

definition store_ok :: "string \<Rightarrow> (string \<Rightarrow> string) \<Rightarrow> (string \<Rightarrow> bool) \<Rightarrow> generation_db \<Rightarrow> bool" where
  "store_ok g key_of foreign db =
     (table_ok g key_of foreign (ud_usage_events (gd_usage db)) \<and> diagnostics_ok (gd_usage db))"

definition batch_ok :: "string \<Rightarrow> (string \<Rightarrow> string) \<Rightarrow> (string \<Rightarrow> bool) \<Rightarrow> batch \<Rightarrow> bool" where
  "batch_ok g key_of foreign b =
     (wb_generation_id b = g
      \<and> list_all (\<lambda>e. event_ok key_of foreign (e, wb_write_policy b)) (wb_events b)
      \<and> list_all (\<lambda>d. \<not> prefix (violation_id []) (de_id d)) (wb_diagnostic_events b))"

lemma gather_fields:
  "ga_events (gather bs) = concat (map (\<lambda>b. map (\<lambda>e. (e, wb_write_policy b)) (wb_events b)) bs)"
  "ga_diags (gather bs) = concat (map wb_diagnostic_events bs)"
proof -
  have "ga_events (fold gather_one bs a) = ga_events a @ concat (map (\<lambda>b. map (\<lambda>e. (e, wb_write_policy b)) (wb_events b)) bs)"
    "ga_diags (fold gather_one bs a) = ga_diags a @ concat (map wb_diagnostic_events bs)" for a
    by (induction bs arbitrary: a) (simp_all add: gather_one_def)
  then show "ga_events (gather bs) = concat (map (\<lambda>b. map (\<lambda>e. (e, wb_write_policy b)) (wb_events b)) bs)"
    "ga_diags (gather bs) = concat (map wb_diagnostic_events bs)"
    by (simp_all add: gather_def)
qed

lemma gather_events_ok:
  assumes "list_all (batch_ok g key_of foreign) bs"
  shows "list_all (event_ok key_of foreign) (ga_events (gather bs))"
    and "list_all (\<lambda>d. \<not> prefix (violation_id []) (de_id d)) (ga_diags (gather bs))"
  using assms unfolding gather_fields
  by (induction bs) (simp_all add: batch_ok_def list.pred_map comp_def)

lemma put_diagnostics_ok:
  assumes "diagnostics_ok db" "list_all (\<lambda>d. \<not> prefix (violation_id []) (de_id d)) ds"
  shows "diagnostics_ok (db\<lparr>ud_diagnostic_events := fold upsert_diagnostic_event ds (ud_diagnostic_events db)\<rparr>)"
  using assms
proof (induction ds arbitrary: db)
  case (Cons d ds)
  have other: "de_id d \<noteq> violation_id i" for i
    using Cons.prems(2) by (auto simp: violation_id_def)
  have "list_ex (\<lambda>x. de_id x = violation_id i) (upsert_diagnostic_event d ds')
      = list_ex (\<lambda>x. de_id x = violation_id i) ds'" for i ds'
    using other[of i] by (induction ds') (auto simp: upsert_diagnostic_event_def)
  with Cons.prems have "diagnostics_ok (db\<lparr>ud_diagnostic_events := upsert_diagnostic_event d (ud_diagnostic_events db)\<rparr>)"
    by (auto simp: diagnostics_ok_def upsert_diagnostic_event_def list_all_iff)
  from Cons.IH[OF this] Cons.prems(2) show ?case by simp
qed simp

text \<open>The tokens of a table, column by column, and of the events a batch adds.\<close>

definition table_total :: "string \<Rightarrow> token_column \<Rightarrow> usage_table_row list \<Rightarrow> int" where
  "table_total g c rows = column_of c (generation_tokens g rows)"

text \<open>A committed batch adds to every rollup what it adds to the table, and its events to the counts.\<close>

lemma write_batch_effect:
  assumes ok: "store_ok g key_of foreign (st_db s)" and events: "list_all (event_ok key_of foreign) (ga_events a)"
    and diags: "list_all (\<lambda>d. \<not> prefix (violation_id []) (de_id d)) (ga_diags a)"
    and w: "write_batch l now tz source_id agent g a s = Inr (out, s')"
  shows "store_ok g key_of foreign (st_db s')"
    and "daily_total g (Some c) (ro_daily_usage (gd_rollups (st_db s'))) - daily_total g (Some c) (ro_daily_usage (gd_rollups (st_db s)))
         = table_total g c (ud_usage_events (gd_usage (st_db s'))) - table_total g c (ud_usage_events (gd_usage (st_db s)))"
    and "bucket_column b = Some c \<Longrightarrow>
         day_total g b (ro_buckets_day (gd_rollups (st_db s'))) - day_total g b (ro_buckets_day (gd_rollups (st_db s)))
         = table_total g c (ud_usage_events (gd_usage (st_db s'))) - table_total g c (ud_usage_events (gd_usage (st_db s)))"
proof -
  obtain d where d: "upsert_usage_events_dedup_aware (wl_store l) (ga_events a) g (gd_usage (st_db s)) = Inr d"
    "state_ok g key_of foreign d" "step_ok g (dedup_start (gd_usage (st_db s))) d"
    using upsert_batch[of g key_of foreign "gd_usage (st_db s)" "ga_events a" "wl_store l"] ok events
    by (auto simp: store_ok_def)
  let ?es = "ds_effective_events d"
  let ?ro = "update_materialized_aggregates_from_events (wl_fadd l) now ?es g (gd_rollups (st_db s))"
  obtain daily where daily: "upsert_daily_usage_for_events (wl_fadd l) ?es tz g (ro_daily_usage ?ro) = Inr daily"
    using w d(1) by (simp add: write_batch_def Let_def split: sum.splits prod.splits)
  have s': "gd_rollups (st_db s') = ?ro\<lparr>ro_daily_usage := daily\<rparr>"
    "gd_usage (st_db s') = (ds_db d)\<lparr>ud_diagnostic_events :=
        fold upsert_diagnostic_event (ga_diags a) (ud_diagnostic_events (ds_db d))\<rparr>"
    using w d(1) daily by (auto simp: write_batch_def Let_def insert_supplementary_events_def split: prod.splits)
  show "store_ok g key_of foreign (st_db s')"
    using d(2) put_diagnostics_ok[OF _ diags, of "ds_db d"] by (simp add: store_ok_def s' state_ok_def)
  have tokens: "generation_tokens g (ud_usage_events (ds_db d))
      = add_tokens (generation_tokens g (ud_usage_events (gd_usage (st_db s)))) (sum_tokens (map ue_tokens ?es))"
    using d(3) by (simp add: step_ok_def dedup_start_def Let_def tokens_laws(1))
  then have table: "table_total g c (ud_usage_events (gd_usage (st_db s'))) - table_total g c (ud_usage_events (gd_usage (st_db s)))
      = sum_list (map (\<lambda>e. column_of c (ue_tokens e)) ?es)"
    by (simp add: table_total_def s' comp_def)
  show "daily_total g (Some c) (ro_daily_usage (gd_rollups (st_db s'))) - daily_total g (Some c) (ro_daily_usage (gd_rollups (st_db s)))
      = table_total g c (ud_usage_events (gd_usage (st_db s'))) - table_total g c (ud_usage_events (gd_usage (st_db s)))"
    using daily_total_upsert[OF daily, of "Some c"] table s' by (simp add: daily_event_counter_fun)
  show "day_total g b (ro_buckets_day (gd_rollups (st_db s'))) - day_total g b (ro_buckets_day (gd_rollups (st_db s)))
      = table_total g c (ud_usage_events (gd_usage (st_db s'))) - table_total g c (ud_usage_events (gd_usage (st_db s)))"
    if "bucket_column b = Some c"
    using day_total_update[of g b "wl_fadd l" now ?es "gd_rollups (st_db s)"] that table s'
    by (simp add: bucket_column_counter[abs_def] daily_event_counter_fun)
qed

section \<open>The ledger\<close>

text \<open>What a rollup of the generation must hold: what the table holds, and what retention took from it.\<close>

definition balanced :: "string \<Rightarrow> (string \<Rightarrow> string) \<Rightarrow> (string \<Rightarrow> bool) \<Rightarrow> event_tokens \<Rightarrow> generation_db \<Rightarrow> bool" where
  "balanced g key_of foreign pruned db =
     (store_ok g key_of foreign db
      \<and> (\<forall>c. daily_total g (Some c) (ro_daily_usage (gd_rollups db))
             = table_total g c (ud_usage_events (gd_usage db)) + column_of c pruned)
      \<and> (\<forall>b c. bucket_column b = Some c \<longrightarrow>
             day_total g b (ro_buckets_day (gd_rollups db))
             = table_total g c (ud_usage_events (gd_usage db)) + column_of c pruned))"

lemma write_batch_balanced:
  assumes bal: "balanced g key_of foreign p (st_db s)" and "list_all (batch_ok g key_of foreign) bs"
    and w: "write_batch l now tz source_id agent g (gather bs) s = Inr (out, s')"
  shows "balanced g key_of foreign p (st_db s')"
proof -
  from bal have ok: "store_ok g key_of foreign (st_db s)" by (simp add: balanced_def)
  note eff = write_batch_effect[OF ok gather_events_ok[OF assms(2)] w]
  have "daily_total g (Some c) (ro_daily_usage (gd_rollups (st_db s')))
      = table_total g c (ud_usage_events (gd_usage (st_db s'))) + column_of c p" for c
    using bal eff(2)[of c] by (simp add: balanced_def)
  moreover have "day_total g b (ro_buckets_day (gd_rollups (st_db s')))
      = table_total g c (ud_usage_events (gd_usage (st_db s'))) + column_of c p" if "bucket_column b = Some c" for b c
    using bal eff(3)[OF that] that unfolding balanced_def by fastforce
  ultimately show ?thesis using eff(1) by (simp add: balanced_def)
qed

lemma accumulate_keeps [simp]:
  "wr_db (accumulate_live_bucket l now es w) = wr_db w"
  "wr_pending_batches (accumulate_live_bucket l now es w) = wr_pending_batches w"
  "wr_pending_errors (accumulate_live_bucket l now es w) = wr_pending_errors w"
  "wr_replies (accumulate_live_bucket l now es w) = wr_replies w"
  by (simp_all add: accumulate_live_bucket_def Let_def)

lemma after_commit_keeps [simp]:
  "wr_db (after_commit l now g src n out w) = wr_db w"
  "wr_pending_batches (after_commit l now g src n out w) = wr_pending_batches w"
  "wr_pending_errors (after_commit l now g src n out w) = wr_pending_errors w"
  "wr_replies (after_commit l now g src n out w) = wr_replies w"
  by (simp_all add: after_commit_def Let_def)

lemma set_store_simps [simp]:
  "wr_db (set_store s w) = st_db s" "wr_pending_batches (set_store s w) = wr_pending_batches w"
  "wr_pending_errors (set_store s w) = wr_pending_errors w" "wr_replies (set_store s w) = wr_replies w"
  "wr_bus (set_store s w) = wr_bus w"
  by (simp_all add: set_store_def)

lemma flush_single_keeps [simp]:
  "wr_pending_batches (flush_single_generation l k bs g w) = wr_pending_batches w"
  "wr_pending_errors (flush_single_generation l k bs g w) = wr_pending_errors w"
  "wr_replies (flush_single_generation l k bs g w) = wr_replies w"
  by (simp_all add: flush_single_generation_def Let_def split: sum.split prod.split)

lemma flush_single_balanced:
  assumes "balanced g key_of foreign p (wr_db w)" "list_all (batch_ok g key_of foreign) bs"
  shows "balanced g key_of foreign p (wr_db (flush_single_generation l k bs g w))"
  using assms write_batch_balanced[of g key_of foreign p "writer_store w" bs]
  by (auto simp: flush_single_generation_def Let_def writer_store_def split: sum.split prod.split)

definition batches_ok :: "string \<Rightarrow> (string \<Rightarrow> string) \<Rightarrow> (string \<Rightarrow> bool) \<Rightarrow> write_command list \<Rightarrow> bool" where
  "batches_ok g key_of foreign cmds = list_all (batch_ok g key_of foreign) (List.map_filter batch_of cmds)"

lemma flush_pending_balanced:
  assumes "balanced g key_of foreign p (wr_db w)" "batches_ok g key_of foreign (wr_pending_batches w)"
    and "\<And>xs. set (wk_group_order k xs) \<subseteq> set xs"
  shows "balanced g key_of foreign p (wr_db (flush_pending_batches l k w))"
    and "wr_pending_batches (flush_pending_batches l k w) = []"
proof -
  let ?cmds = "wr_pending_batches w"
  have fold: "(balanced g key_of foreign p (wr_db v) \<longrightarrow>
       balanced g key_of foreign p (wr_db (fold (\<lambda>h. flush_single_generation l k (batches_of h ?cmds) h) gens v)))
     \<and> wr_pending_batches (fold (\<lambda>h. flush_single_generation l k (batches_of h ?cmds) h) gens v) = wr_pending_batches v"
    if "set gens \<subseteq> {g}" for gens v
    using that
  proof (induction gens arbitrary: v)
    case (Cons h gens)
    have "list_all (batch_ok g key_of foreign) (batches_of h ?cmds)"
      using assms(2) by (auto simp: batches_ok_def batches_of_def list_all_iff)
    with Cons flush_single_balanced[of g key_of foreign p v "batches_of h ?cmds" l k] show ?case by simp
  qed simp
  have "wb_generation_id b = g" if "b \<in> set (List.map_filter batch_of ?cmds)" for b
    using assms(2) that by (auto simp: batches_ok_def list_all_iff batch_ok_def)
  then have "set (wk_group_order k (remdups (map wb_generation_id (List.map_filter batch_of ?cmds)))) \<subseteq> {g}"
    using assms(3) by fastforce
  from fold[OF this, of "w\<lparr>wr_pending_batches := []\<rparr>"] assms(1)
  show "balanced g key_of foreign p (wr_db (flush_pending_batches l k w))"
    "wr_pending_batches (flush_pending_batches l k w) = []"
    by (simp_all add: flush_pending_batches_def Let_def)
qed

text \<open>What a pruning takes from the generation.\<close>

definition pruned_tokens :: "string \<Rightarrow> int \<Rightarrow> writer_state \<Rightarrow> event_tokens" where
  "pruned_tokens g now w =
     (if ss_active_generation_id (wr_status w) = Some g
      then generation_tokens g (filter (\<lambda>r. ue_timestamp_ms (ur_event r) < now - 86400000)
             (ud_usage_events (gd_usage (wr_db w))))
      else zero_tokens)"

lemma generation_tokens_split:
  "generation_tokens g rows = add_tokens (generation_tokens g (filter P rows)) (generation_tokens g (filter (\<lambda>r. \<not> P r) rows))"
  by (induction rows) (auto simp: tokens_laws(1,2) add_tokens_ac)

lemma generation_tokens_filter:
  "generation_tokens g (filter (\<lambda>r. ur_generation_id r = g \<and> P r) rows) = generation_tokens g (filter P rows)"
  by (induction rows) auto

lemma generation_tokens_other:
  "h \<noteq> g \<Longrightarrow> generation_tokens g (filter (\<lambda>r. \<not> (ur_generation_id r = h \<and> P r)) rows) = generation_tokens g rows"
  by (induction rows) auto

lemma prune_tokens:
  "add_tokens (pruned_tokens g now w) (generation_tokens g (ud_usage_events (gd_usage (wr_db (prune_old_usage_events now w)))))
   = generation_tokens g (ud_usage_events (gd_usage (wr_db w)))"
proof (cases "ss_active_generation_id (wr_status w)")
  case None
  then show ?thesis by (simp add: prune_old_usage_events_def pruned_tokens_def tokens_laws(2))
next
  case (Some h)
  show ?thesis
  proof (cases "h = g")
    case True
    let ?rows = "ud_usage_events (gd_usage (wr_db w))"
    let ?P = "\<lambda>r. ur_generation_id r = g \<and> ue_timestamp_ms (ur_event r) < now - 86400000"
    have "generation_tokens g ?rows = add_tokens (generation_tokens g (filter ?P ?rows)) (generation_tokens g (filter (\<lambda>r. \<not> ?P r) ?rows))"
      by (rule generation_tokens_split)
    with Some True show ?thesis
      by (simp add: prune_old_usage_events_def pruned_tokens_def prune_usage_events_def Let_def generation_tokens_filter
          del: de_Morgan_conj)
  next
    case False
    with Some show ?thesis
      by (simp add: prune_old_usage_events_def pruned_tokens_def prune_usage_events_def Let_def tokens_laws(2)
          generation_tokens_other del: de_Morgan_conj)
  qed
qed

lemma prune_keeps [simp]:
  "gd_rollups (wr_db (prune_old_usage_events now w)) = gd_rollups (wr_db w)"
  "wr_pending_batches (prune_old_usage_events now w) = wr_pending_batches w"
  by (simp_all add: prune_old_usage_events_def Let_def split: option.split prod.split)

lemma prune_balanced:
  assumes "balanced g key_of foreign p (wr_db w)"
  shows "balanced g key_of foreign (add_tokens p (pruned_tokens g now w)) (wr_db (prune_old_usage_events now w))"
proof -
  have ok: "table_ok g key_of foreign (ud_usage_events (gd_usage (wr_db w)))" "diagnostics_ok (gd_usage (wr_db w))"
    using assms by (simp_all add: balanced_def store_ok_def)
  have d: "distinct (map row_id (ud_usage_events (gd_usage (wr_db w))))" using ok(1) by (simp add: table_ok_def)
  have "store_ok g key_of foreign (wr_db (prune_old_usage_events now w))"
    using ok prune_usage_diagnostics[OF d ok(2)] table_ok_filter[OF ok(1)]
    by (auto simp: store_ok_def prune_old_usage_events_def prune_usage_events_def Let_def split: option.split)
  moreover have "table_total g c (ud_usage_events (gd_usage (wr_db w)))
      = column_of c (pruned_tokens g now w) + table_total g c (ud_usage_events (gd_usage (wr_db (prune_old_usage_events now w))))" for c
    using arg_cong[OF prune_tokens[of g now w], of "column_of c"] by (simp add: table_total_def)
  ultimately show ?thesis using assms by (simp add: balanced_def)
qed

text \<open>The commands that leave usage rows and rollups alone.\<close>

fun steady :: "write_command \<Rightarrow> bool" where
  "steady (Generation_Create _) = True"
| "steady (Tail_Replay_Batch _) = True"
| "steady (Record_Tail_Replay _) = True"
| "steady (Progress_Checkpoint _) = True"
| "steady (Diagnostic_Write _) = True"
| "steady (Settings_Write _ _) = True"
| "steady (Log_Source_Upsert _) = True"
| "steady (Realtime_Summary_Replace _) = True"
| "steady Reset_Failed_Checkpoints = True"
| "steady _ = False"

definition same_books :: "generation_db \<Rightarrow> generation_db \<Rightarrow> bool" where
  "same_books db db' =
     (gd_rollups db' = gd_rollups db \<and> ud_usage_events (gd_usage db') = ud_usage_events (gd_usage db))"

lemma refresh_active_books [simp]:
  "gd_rollups (refresh_active_source now ids db) = gd_rollups db"
  "gd_usage (refresh_active_source now ids db) = gd_usage db"
  "gd_sequence (refresh_active_source now ids db) = gd_sequence db"
  by (simp_all add: refresh_active_source_def split: option.split)

lemma put_diagnostic_ok:
  "diagnostics_ok db \<Longrightarrow> \<not> prefix (violation_id []) (de_id d) \<Longrightarrow>
   diagnostics_ok (db\<lparr>ud_diagnostic_events := upsert_diagnostic_event d (ud_diagnostic_events db)\<rparr>)"
  using put_diagnostics_ok[of db "[d]"] by simp

lemma steady_dispatch:
  assumes "steady cmd"
  shows "same_books (wr_db w) (wr_db (snd (dispatch_command l k cmd w)))"
    and "diagnostics_ok (gd_usage (wr_db w)) \<Longrightarrow> diagnostics_ok (gd_usage (wr_db (snd (dispatch_command l k cmd w))))"
    and "wr_pending_batches (snd (dispatch_command l k cmd w)) = wr_pending_batches w"
  using assms
proof (induction cmd rule: steady.induct)
  case (5 c)
  { case 1 then show ?case
      by (simp add: dispatch_command_def handle_diagnostic_write_def same_books_def put_diagnostic_def Let_def)
  next
    case 2
    then show ?case
      by (simp add: dispatch_command_def handle_diagnostic_write_def put_diagnostic_def Let_def put_diagnostic_ok violation_id_def)
  next
    case 3 then show ?case by (simp add: dispatch_command_def handle_diagnostic_write_def Let_def) }
qed (simp_all add: dispatch_command_def same_books_def Let_def set_db_def create_generation_def
  enqueue_tail_replay_rows_def handle_progress_checkpoint_def handle_log_source_upsert_def
  handle_reset_failed_checkpoints_def split: prod.splits)

lemma balanced_same_books:
  assumes "balanced g key_of foreign p db" "same_books db db'" "diagnostics_ok (gd_usage db')"
  shows "balanced g key_of foreign p db'"
  using assms by (simp add: balanced_def store_ok_def same_books_def)

text \<open>
  The writer in steady state: batches of one generation arrive and are flushed, in any order of the
  group map, the other commands are run, metrics are persisted, and retention prunes; the second
  component collects what it takes. Anything may happen to the snapshot, the bus and the replies.
\<close>

inductive ledger_step ::
  "writer_lib \<Rightarrow> string \<Rightarrow> (string \<Rightarrow> string) \<Rightarrow> (string \<Rightarrow> bool) \<Rightarrow> writer_state \<times> event_tokens \<Rightarrow> writer_state \<times> event_tokens \<Rightarrow> bool"
  for l g key_of foreign where
  lg_push: "batch_of cmd = Some b \<Longrightarrow> batch_ok g key_of foreign b \<Longrightarrow>
     ledger_step l g key_of foreign (w, p) (w\<lparr>wr_pending_batches := wr_pending_batches w @ [cmd]\<rparr>, p)"
| lg_flush: "(\<And>xs. set (wk_group_order k xs) \<subseteq> set xs) \<Longrightarrow>
     ledger_step l g key_of foreign (w, p) (flush_pending_batches l k w, p)"
| lg_prune: "ledger_step l g key_of foreign (w, p) (prune_old_usage_events now w, add_tokens p (pruned_tokens g now w))"
| lg_command: "steady cmd \<Longrightarrow> ledger_step l g key_of foreign (w, p) (snd (dispatch_command l k cmd w), p)"
| lg_metrics: "ledger_step l g key_of foreign (w, p) (persist_metrics_checkpoint now w, p)"
| lg_status: "wr_db w' = wr_db w \<Longrightarrow> wr_pending_batches w' = wr_pending_batches w \<Longrightarrow>
     ledger_step l g key_of foreign (w, p) (w', p)"

inductive_cases ledger_stepE: "ledger_step l g key_of foreign x y"

definition ledger_ok :: "string \<Rightarrow> (string \<Rightarrow> string) \<Rightarrow> (string \<Rightarrow> bool) \<Rightarrow> writer_state \<times> event_tokens \<Rightarrow> bool" where
  "ledger_ok g key_of foreign x =
     (balanced g key_of foreign (snd x) (wr_db (fst x)) \<and> batches_ok g key_of foreign (wr_pending_batches (fst x)))"

definition empty_ledger :: "writer_state \<times> event_tokens \<Rightarrow> bool" where
  "empty_ledger x =
     (snd x = zero_tokens \<and> wr_pending_batches (fst x) = [] \<and> ud_usage_events (gd_usage (wr_db (fst x))) = []
      \<and> ud_diagnostic_events (gd_usage (wr_db (fst x))) = [] \<and> ro_daily_usage (gd_rollups (wr_db (fst x))) = []
      \<and> ro_buckets_day (gd_rollups (wr_db (fst x))) = [])"

interpretation ledger: invariant_machine empty_ledger "ledger_step l g key_of foreign" "ledger_ok g key_of foreign"
  for l g key_of foreign
proof
  show "ledger_ok g key_of foreign x" if "empty_ledger x" for x
    using that
    by (simp add: ledger_ok_def empty_ledger_def balanced_def store_ok_def table_ok_def diagnostics_ok_def batches_ok_def
        daily_total_def day_total_def table_total_def List.map_filter_def)
next
  fix x y assume ok: "ledger_ok g key_of foreign x" and step: "ledger_step l g key_of foreign x y"
  from step ok show "ledger_ok g key_of foreign y"
  proof cases
    case (lg_push cmd b w p)
    with ok show ?thesis by (simp add: ledger_ok_def batches_ok_def map_filter_simps List.map_filter_def)
  next
    case (lg_flush k w p)
    with ok flush_pending_balanced[of g key_of foreign p w k l] show ?thesis
      by (simp add: ledger_ok_def batches_ok_def List.map_filter_def)
  next
    case lg_prune
    with ok show ?thesis by (simp add: ledger_ok_def prune_balanced)
  next
    case (lg_command cmd w p k)
    note books = steady_dispatch[OF lg_command(3), where w = w and l = l and k = k]
    have "diagnostics_ok (gd_usage (wr_db w))" using ok lg_command by (simp add: ledger_ok_def balanced_def store_ok_def)
    from balanced_same_books[OF _ books(1) books(2)[OF this], of g key_of foreign p] ok lg_command books(3)
    show ?thesis by (simp add: ledger_ok_def)
  next
    case (lg_metrics w p now)
    have "same_books (wr_db w) (wr_db (persist_metrics_checkpoint now w))"
      "gd_usage (wr_db (persist_metrics_checkpoint now w)) = gd_usage (wr_db w)"
      "wr_pending_batches (persist_metrics_checkpoint now w) = wr_pending_batches w"
      by (simp_all add: same_books_def persist_metrics_checkpoint_def set_db_def checkpoint_writer_metrics_def upsert_service_def)
    with ok lg_metrics balanced_same_books[of g key_of foreign p "wr_db w"] show ?thesis
      by (simp add: ledger_ok_def balanced_def store_ok_def)
  next
    case lg_status
    with ok show ?thesis by (simp add: ledger_ok_def)
  qed
qed

section \<open>Facts for the properties\<close>

lemma table_total_events:
  "sum_list (map (daily_event_counter (Some c)) (usage_events_for_generation g rows)) = table_total g c rows"
  by (simp add: usage_events_for_generation_def all_usage_events_def sum_list_sort_by daily_event_counter_fun
      table_total_def generation_tokens_def comp_def)

lemma dated_upsert:
  assumes "list_all (\<lambda>e. tz_local_date tz (ue_timestamp_ms e) \<noteq> None) events"
  obtains rows where "upsert_daily_usage_for_events fadd events tz g [] = Inr rows"
proof -
  have "find (\<lambda>e. tz_local_date tz (ue_timestamp_ms e) = None) events = None"
    using assms by (auto simp: find_None_iff list_all_iff)
  with that show thesis by (simp add: daily_usage_result)
qed

lemma rebuild_daily_total:
  assumes "list_all (\<lambda>e. tz_local_date tz (ue_timestamp_ms e) \<noteq> None) events"
  shows "daily_total g c (rebuild_daily l tz g events) = sum_list (map (daily_event_counter c) events)"
proof -
  have all: "takeWhile (\<lambda>e. tz_local_date tz (ue_timestamp_ms e) \<noteq> None) events = events"
    using assms by (induction events) auto
  obtain rows where rows: "upsert_daily_usage_for_events (wl_fadd l) events tz g [] = Inr rows"
    using assms by (rule dated_upsert)
  then show ?thesis
    using daily_total_upsert[OF rows, of c] unfolding rebuild_daily_def all by (simp add: daily_total_def)
qed

text \<open>What a written event leaves: a row that a second delivery of the event does not beat.\<close>

fun settled :: "string \<Rightarrow> usage_table_row list \<Rightarrow> usage_event \<times> usage_write_policy \<Rightarrow> bool" where
  "settled g rows (e, Insert_Once) = (fetch_existing_for_dedupe g (ue_id e) rows \<noteq> None)"
| "settled g rows (e, Replace) =
     (\<exists>y. fetch_existing_for_dedupe g (event_dedupe_key e) rows = Some y \<and> at_least y (existing_row_view e))"

lemma settled_step: "settled g (ud_usage_events (ds_db st)) ev \<Longrightarrow> step_ok g st st' \<Longrightarrow> settled g (ud_usage_events (ds_db st')) ev"
  by (cases "(g, ud_usage_events (ds_db st), ev)" rule: settled.cases)
    (fastforce simp: step_ok_def Let_def intro: at_least_trans)+

lemma insert_once_settled:
  assumes st: "state_ok g key_of foreign st" and e: "event_ok key_of foreign (e, Insert_Once)"
  shows "settled g (ud_usage_events (ds_db (write_insert_once l g e st))) (e, Insert_Once)"
proof (cases "fetch_existing_for_dedupe g (ue_id e) (ud_usage_events (ds_db st))")
  case None
  let ?rows = "ud_usage_events (ds_db st)"
  have key: "key_of (ue_id e) = ue_id e" "\<not> foreign (ue_id e)" using e by simp_all
  have ok: "table_ok g key_of foreign ?rows" using st by (simp add: state_ok_def)
  have "list_all (\<lambda>r. row_id r \<noteq> ue_id e \<and> \<not> same_dedupe g (ue_id e) r) ?rows"
    using no_row_with_id [OF ok _ key(2)] None by (simp add: key fetch_existing_for_dedupe_def)
  then have "ud_usage_events (ds_db (write_insert_once l g e st)) = ?rows @ [table_row e g (ue_id e)]"
    by (auto simp: write_insert_once_def insert_ignore_def record_insert_def list_all_iff list_ex_iff)
  then have "list_ex (same_dedupe g (ue_id e)) (ud_usage_events (ds_db (write_insert_once l g e st)))"
    by (simp add: same_dedupe_def table_row_def)
  then show ?thesis by (auto simp: fetch_existing_for_dedupe_def find_None_iff list_ex_iff)
next
  case (Some x)
  then have "list_ex (same_dedupe g (ue_id e)) (ud_usage_events (ds_db st))"
    by (auto simp: fetch_existing_for_dedupe_def list_ex_iff dest: find_SomeD)
  then have "write_insert_once l g e st = st"
    by (auto simp: write_insert_once_def insert_ignore_def list_ex_iff)
  with Some show ?thesis by simp
qed

lemma write_event_settled:
  assumes "state_ok g key_of foreign st" "event_ok key_of foreign ev"
  shows "\<exists>st'. write_event l g ev st = Inr st' \<and> state_ok g key_of foreign st' \<and> step_ok g st st'
           \<and> settled g (ud_usage_events (ds_db st')) ev"
proof (cases ev)
  case (Pair e p)
  then show ?thesis
    using assms insert_once_step[OF assms(1), of e l] insert_once_settled[OF assms(1), of e l]
      write_replace_step[OF assms(1), of e l]
    by (cases p) auto
qed

lemma write_events_settled:
  assumes "state_ok g key_of foreign st" "list_all (event_ok key_of foreign) events"
  shows "\<exists>st'. write_events l g events st = Inr st' \<and> state_ok g key_of foreign st' \<and> step_ok g st st'
           \<and> (\<forall>ev \<in> set events. settled g (ud_usage_events (ds_db st')) ev)"
  using assms
proof (induction events arbitrary: st)
  case Nil
  then show ?case by (auto intro: step_ok_refl)
next
  case (Cons ev events)
  obtain s1 where s1: "write_event l g ev st = Inr s1" "state_ok g key_of foreign s1" "step_ok g st s1"
    "settled g (ud_usage_events (ds_db s1)) ev"
    using write_event_settled[OF Cons.prems(1), of ev l] Cons.prems(2) by auto
  obtain s2 where s2: "write_events l g events s1 = Inr s2" "state_ok g key_of foreign s2" "step_ok g s1 s2"
    "\<forall>ev \<in> set events. settled g (ud_usage_events (ds_db s2)) ev"
    using Cons.IH[OF s1(2)] Cons.prems(2) by auto
  with s1 step_ok_trans[OF s1(3) s2(3)] settled_step[OF s1(4) s2(3)] show ?case by auto
qed

lemma settled_write:
  assumes "settled g (ud_usage_events (ds_db st)) ev" "ds_winners st = (\<lambda>_. None)"
  shows "\<exists>n. write_event l g ev st = Inr (st\<lparr>ds_dropped := n\<rparr>)"
proof (cases ev)
  case (Pair e p)
  show ?thesis
  proof (cases p)
    case Insert_Once
    with assms Pair have "list_ex (same_dedupe g (ue_id e)) (ud_usage_events (ds_db st))"
      by (auto simp: fetch_existing_for_dedupe_def list_ex_iff dest: find_SomeD)
    then have "write_insert_once l g e st = st"
      by (auto simp: write_insert_once_def insert_ignore_def list_ex_iff)
    then show ?thesis using Pair Insert_Once by (auto intro: exI[of _ "ds_dropped st"])
  next
    case Replace
    with assms Pair obtain y where
      "fetch_existing_for_dedupe g (event_dedupe_key e) (ud_usage_events (ds_db st)) = Some y" "\<not> new_beats_existing e y"
      by (auto simp: not_beaten)
    then show ?thesis using Pair Replace assms(2) by (auto simp: write_replace_def Let_def)
  qed
qed

lemma settled_writes:
  assumes "\<And>ev. ev \<in> set events \<Longrightarrow> settled g (ud_usage_events (ds_db st)) ev" "ds_winners st = (\<lambda>_. None)"
  shows "\<exists>n. write_events l g events st = Inr (st\<lparr>ds_dropped := n\<rparr>)"
  using assms
proof (induction events arbitrary: st)
  case Nil
  then show ?case by (auto intro: exI[of _ "ds_dropped st"])
next
  case (Cons ev events)
  obtain n where n: "write_event l g ev st = Inr (st\<lparr>ds_dropped := n\<rparr>)"
    using settled_write[of g st ev l] Cons.prems by auto
  have "\<exists>m. write_events l g events (st\<lparr>ds_dropped := n\<rparr>) = Inr ((st\<lparr>ds_dropped := n\<rparr>)\<lparr>ds_dropped := m\<rparr>)"
    by (rule Cons.IH) (use Cons.prems in auto)
  with n show ?case by auto
qed

section \<open>The properties\<close>

text \<open>
  C5. The rollups never lose or invent a token. In every state of the steady writer, whatever batches
  were flushed, retried or rolled back, each of the nine counters of \<open>daily_usage\<close> summed over the
  generation equals what the rows of the generation hold plus what retention has taken; the day
  buckets agree on input, output and total tokens.
\<close>

theorem rollups_equal_history:
  assumes "reach empty_ledger (ledger_step l g key_of foreign) (w, p)"
  shows "daily_total g (Some c) (ro_daily_usage (gd_rollups (wr_db w)))
           = table_total g c (ud_usage_events (gd_usage (wr_db w))) + column_of c p
    \<and> day_total g Input_Tokens (ro_buckets_day (gd_rollups (wr_db w)))
           = table_total g Col_Input (ud_usage_events (gd_usage (wr_db w))) + et_input_tokens p
    \<and> day_total g Output_Tokens (ro_buckets_day (gd_rollups (wr_db w)))
           = table_total g Col_Output (ud_usage_events (gd_usage (wr_db w))) + et_output_tokens p
    \<and> day_total g Total_Tokens (ro_buckets_day (gd_rollups (wr_db w)))
           = table_total g Col_Total (ud_usage_events (gd_usage (wr_db w))) + et_total_tokens p"
  using ledger.reachable_inv[OF assms] by (simp add: ledger_ok_def balanced_def)

text \<open>
  Changing the reporting time zone loses the pruned history. The rebuild answers Ok, and then
  \<open>daily_usage\<close> holds exactly the events that are still stored: every counter has dropped by what
  retention had taken, while the UTC day buckets keep it.
\<close>

theorem timezone_change_drops_history:
  assumes "reach empty_ledger (ledger_step l g key_of foreign) (w, p)"
    and "ss_active_generation_id (wr_status w) = Some g" "wl_parse_tz l timezone = Inr tz" "wk_replace_failure k = None"
    and "list_all (\<lambda>r. tz_local_date tz (ue_timestamp_ms (ur_event r)) \<noteq> None) (ud_usage_events (gd_usage (wr_db w)))"
  shows "let w' = handle_rebuild_rollups l k timezone w in
      wr_replies w' = wr_replies w @ [Reply_Unit (Inr ())]
      \<and> daily_total g (Some c) (ro_daily_usage (gd_rollups (wr_db w')))
          = daily_total g (Some c) (ro_daily_usage (gd_rollups (wr_db w))) - column_of c p
      \<and> ro_buckets_day (gd_rollups (wr_db w')) = ro_buckets_day (gd_rollups (wr_db w))"
proof -
  let ?rows = "ud_usage_events (gd_usage (wr_db w))"
  let ?events = "usage_events_for_generation g ?rows"
  have ok: "list_all (\<lambda>e. tz_local_date tz (ue_timestamp_ms e) \<noteq> None) ?events"
    using assms(5) by (auto simp: usage_events_for_generation_def all_usage_events_def list_all_iff)
  let ?db = "(wr_db w)\<lparr>gd_rollups := (gd_rollups (wr_db w))\<lparr>ro_daily_usage := rebuild_daily l tz g ?events\<rparr>\<rparr>"
  obtain seq n ob where ob: "allocate_event_sequence_batch (wk_now k) 1 (gd_sequence (wr_db w)) = ((seq, n), ob)"
    by (metis surj_pair)
  have "rebuild_rollups_store l k timezone (Some g) (wr_db w) = (Inr (Some seq), ?db\<lparr>gd_sequence := ob\<rparr>)"
    using ok assms(3,4) ob by (auto simp: rebuild_rollups_store_def Let_def intro: dated_upsert[OF ok, of "wl_fadd l" g])
  moreover have "daily_total g (Some c) (ro_daily_usage (gd_rollups (wr_db w))) = table_total g c ?rows + column_of c p"
    using ledger.reachable_inv[OF assms(1)] by (simp add: ledger_ok_def balanced_def)
  ultimately show ?thesis
    using rebuild_daily_total[OF ok, of g "Some c" l] table_total_events[of c g ?rows] assms(2)
    by (simp add: handle_rebuild_rollups_def Let_def)
qed

text \<open>
  C9. Writing events again counts nothing, as long as no event has the id of a row of another generation and each id
  has one dedupe key (without the first the code counts again, see \<open>shared_id_crosses_generations\<close>): when any of the events of a written
  batch come a second time,
  in any order and number, with the row of none of them pruned in between, the table and its
  diagnostics stay as they are, and nothing is inserted, replaced, or handed to the rollups. The violation diagnostics are in step
  with the rows at the start.
\<close>

theorem redelivery_counts_nothing:
  assumes "usage_schema (ud_usage_events db)" "diagnostics_ok db"
    and "ids_have_one_key g events (ud_usage_events db)" "ids_of_this_generation g events (ud_usage_events db)"
    and "set again \<subseteq> set events"
  shows "\<exists>st st'. upsert_usage_events_dedup_aware l events g db = Inr st
           \<and> upsert_usage_events_dedup_aware l' again g (ds_db st) = Inr st'
           \<and> ds_db st' = ds_db st \<and> ds_effective_events st' = [] \<and> ds_inserted st' = 0 \<and> ds_replaced st' = 0"
proof -
  obtain key_of foreign where ok: "table_ok g key_of foreign (ud_usage_events db)" "list_all (event_ok key_of foreign) events"
    by (rule batch_identity[OF assms(1,3,4)])
  have "state_ok g key_of foreign (dedup_start db)"
    using ok(1) assms(2) by (simp add: state_ok_def dedup_start_def)
  from write_events_settled[OF this ok(2), of l] obtain st where st:
    "write_events l g events (dedup_start db) = Inr st" "\<forall>ev \<in> set events. settled g (ud_usage_events (ds_db st)) ev" by blast
  have "\<exists>n. write_events l' g again (dedup_start (ds_db st)) = Inr ((dedup_start (ds_db st))\<lparr>ds_dropped := n\<rparr>)"
    by (rule settled_writes) (use st(2) assms(5) in \<open>auto simp: dedup_start_def\<close>)
  with st(1) show ?thesis
    by (auto simp: upsert_usage_events_dedup_aware_def dedup_start_def)
qed


section \<open>Witnesses\<close>

text \<open>
  A writer over an empty database receives one batch, flushes it, prunes a day later, and has an
  active generation set.
\<close>

definition sample_zone :: reporting_timezone where
  "sample_zone = \<lparr>tz_canonical_name = ''UTC'', tz_local_date = (\<lambda>_. Some ''1970-01-01'')\<rparr>"

definition sample_writer_lib :: writer_lib where
  "sample_writer_lib =
     \<lparr>wl_store = sample_store_lib, wl_fadd = (+), wl_f64_of_int = (\<lambda>_. 0), wl_half = id, wl_positive = (\<lambda>_. False),
      wl_parse_tz = (\<lambda>_. Inr sample_zone), wl_utc = sample_zone, wl_trim = id, wl_replay = sample_replay_lib,
      wl_envelope = (\<lambda>_. Some [])\<rparr>"

definition sample_writer_clock :: "int \<Rightarrow> writer_clock" where
  "sample_writer_clock now =
     \<lparr>wk_now = now, wk_queue_depth = 0, wk_group_order = id, wk_barrier = sample_clock, wk_contended = False,
      wk_replace_failure = None\<rparr>"

definition sample_tail :: batch where
  "sample_tail =
     \<lparr>wb_source_id = ''s'', wb_source_file_id = None, wb_source_file_agent = ''claude'', wb_source_file_path = ''p'',
      wb_source_file_inode = None, wb_events = [sample_event ''r1''], wb_tool_events = [], wb_diagnostic_events = [],
      wb_codex_snapshots = [], wb_generation_id = ''g'', wb_checkpoint_offset = None, wb_write_policy = Replace\<rparr>"

definition sample_writer :: writer_state where
  "sample_writer =
     \<lparr>wr_db = sample_gdb, wr_tools = [], wr_snapshots = [], wr_realtime = [],
      wr_settings = \<lparr>bs_timezone = ''UTC'', bs_week_starts_on = 1\<rparr>, wr_status = status_default, wr_bus = [],
      wr_replies = [], wr_pending_batches = [], wr_pending_errors = [], wr_prev_queue_state = None,
      wr_prev_lag_state = None, wr_last_metrics_checkpoint = 0, wr_diag_counter = 0, wr_running = True\<rparr>"

definition sample_flushed :: writer_state where
  "sample_flushed =
     flush_pending_batches sample_writer_lib (sample_writer_clock 7)
       (sample_writer\<lparr>wr_pending_batches := [Tail_Batch sample_tail]\<rparr>)"

definition sample_active :: writer_state where
  "sample_active = sample_flushed\<lparr>wr_status := (wr_status sample_flushed)\<lparr>ss_active_generation_id := Some ''g''\<rparr>\<rparr>"

definition sample_aged :: "writer_state \<times> event_tokens" where
  "sample_aged =
     (prune_old_usage_events 86400001 sample_active, add_tokens zero_tokens (pruned_tokens ''g'' 86400001 sample_active))"

lemma sample_batch_ok: "batch_ok ''g'' sample_key (\<lambda>_. False) sample_tail"
  by (simp add: batch_ok_def sample_tail_def event_dedupe_key_def sample_identity sample_key_def)

lemma sample_reach:
  "reach empty_ledger (ledger_step sample_writer_lib ''g'' sample_key (\<lambda>_. False)) sample_aged"
proof -
  let ?step = "ledger_step sample_writer_lib ''g'' sample_key (\<lambda>_. False)"
  have "reach empty_ledger ?step (sample_writer, zero_tokens)"
    by (rule reach_init) (simp add: empty_ledger_def sample_writer_def sample_gdb_def)
  then have "reach empty_ledger ?step (sample_writer\<lparr>wr_pending_batches := wr_pending_batches sample_writer @ [Tail_Batch sample_tail]\<rparr>, zero_tokens)"
    by (rule reach_step) (rule lg_push[where b = sample_tail], simp_all add: sample_batch_ok)
  then have "reach empty_ledger ?step (sample_writer\<lparr>wr_pending_batches := [Tail_Batch sample_tail]\<rparr>, zero_tokens)"
    by (simp add: sample_writer_def)
  then have "reach empty_ledger ?step (sample_flushed, zero_tokens)"
    unfolding sample_flushed_def
    by (rule reach_step) (rule lg_flush, simp add: sample_writer_clock_def)
  then have "reach empty_ledger ?step (sample_active, zero_tokens)"
    by (rule reach_step) (rule lg_status, simp_all add: sample_active_def)
  then show ?thesis
    unfolding sample_aged_def by (rule reach_step) (rule lg_prune)
qed

lemma sample_aged_status: "ss_active_generation_id (wr_status (fst sample_aged)) = Some ''g''"
  by (simp add: sample_aged_def sample_active_def prune_old_usage_events_def Let_def case_prod_unfold)

theorem rollups_equal_history_witness:
  "daily_total ''g'' (Some Col_Total) (ro_daily_usage (gd_rollups (wr_db (fst sample_aged))))
     = table_total ''g'' Col_Total (ud_usage_events (gd_usage (wr_db (fst sample_aged)))) + et_total_tokens (snd sample_aged)"
  using rollups_equal_history[of sample_writer_lib "''g''" sample_key "\<lambda>_. False" "fst sample_aged" "snd sample_aged" Col_Total]
  by (simp add: sample_reach)

theorem timezone_change_drops_history_witness:
  "daily_total ''g'' (Some Col_Total) (ro_daily_usage (gd_rollups (wr_db
       (handle_rebuild_rollups sample_writer_lib (sample_writer_clock 8) ''Asia/Tokyo'' (fst sample_aged)))))
     = daily_total ''g'' (Some Col_Total) (ro_daily_usage (gd_rollups (wr_db (fst sample_aged))))
       - et_total_tokens (snd sample_aged)"
proof -
  have "list_all (\<lambda>r. tz_local_date sample_zone (ue_timestamp_ms (ur_event r)) \<noteq> None)
      (ud_usage_events (gd_usage (wr_db (fst sample_aged))))"
    by (simp add: sample_zone_def list_all_iff)
  moreover have "wl_parse_tz sample_writer_lib ''Asia/Tokyo'' = Inr sample_zone" "wk_replace_failure (sample_writer_clock 8) = None"
    by (simp_all add: sample_writer_lib_def sample_writer_clock_def)
  moreover have "reach empty_ledger (ledger_step sample_writer_lib ''g'' sample_key (\<lambda>_. False)) (fst sample_aged, snd sample_aged)"
    using sample_reach by simp
  ultimately show ?thesis
    using timezone_change_drops_history[OF _ sample_aged_status, of sample_writer_lib sample_key "\<lambda>_. False" "snd sample_aged"
        "''Asia/Tokyo''" sample_zone "sample_writer_clock 8" Col_Total]
    by (simp add: Let_def)
qed

theorem redelivery_counts_nothing_witness:
  "\<exists>st st'. upsert_usage_events_dedup_aware sample_store_lib sample_batch ''g'' empty_usage_db = Inr st
      \<and> upsert_usage_events_dedup_aware sample_store_lib (rev sample_batch) ''g'' (ds_db st) = Inr st'
      \<and> ds_db st' = ds_db st \<and> ds_effective_events st' = []"
  using redelivery_counts_nothing[OF sample_schema(1) sample_ok(2) sample_schema(2,3), of "rev sample_batch" sample_store_lib
      sample_store_lib] by auto

end
