(* ===== verification/Writer_Sequence.thy ===== *)
theory Writer_Sequence
  imports Usage_Ledger
begin

text \<open>
  The sequence numbers of the writer: durable notifications on the bus and rows of the outbox are
  numbered from one sequence, and no number is used twice over a run of the actor.
\<close>

section \<open>The invariant\<close>

fun durable_seq :: "published_event \<Rightarrow> int option" where
  "durable_seq (Durable _ seq _ _) = Some seq"
| "durable_seq (Ephemeral _) = None"

definition durable_seqs :: "published_event list \<Rightarrow> int list" where
  "durable_seqs bus = concat (map (\<lambda>e. case durable_seq e of None \<Rightarrow> [] | Some s \<Rightarrow> [s]) bus)"

lemma durable_seqs_simps [simp]:
  "durable_seqs [] = []" "durable_seqs (xs @ ys) = durable_seqs xs @ durable_seqs ys"
  "durable_seqs (Durable e s g t # xs) = s # durable_seqs xs" "durable_seqs (Ephemeral e # xs) = durable_seqs xs"
  by (simp_all add: durable_seqs_def)

definition notified :: "writer_state \<Rightarrow> outbox_db \<times> int list" where
  "notified w = (gd_sequence (wr_db w), durable_seqs (wr_bus w))"

definition sequence_ok :: "outbox_db \<times> int list \<Rightarrow> bool" where
  "sequence_ok x =
     (let ob = fst x; published = snd x; stored = map fst (ob_log ob) in
      0 \<le> latest_seq ob \<and> sorted_wrt (<) stored \<and> sorted_wrt (<) published
      \<and> set stored \<union> set published \<subseteq> {1..latest_seq ob} \<and> set stored \<inter> set published = {})"

lemma sequence_extend:
  assumes ok: "sequence_ok (ob, published)"
    and log: "map fst (ob_log ob') = map fst (ob_log ob) @ new" and le: "latest_seq ob \<le> latest_seq ob'"
    and new: "sorted_wrt (<) new" "set new \<subseteq> {latest_seq ob + 1..latest_seq ob'}"
    and pub: "sorted_wrt (<) fresh" "set fresh \<subseteq> {latest_seq ob + 1..latest_seq ob'}"
    and sep: "set new \<inter> set fresh = {}"
  shows "sequence_ok (ob', published @ fresh)"
proof -
  have old: "set (map fst (ob_log ob)) \<union> set published \<subseteq> {1..latest_seq ob}" "0 \<le> latest_seq ob"
    "sorted_wrt (<) (map fst (ob_log ob))" "sorted_wrt (<) published" "set (map fst (ob_log ob)) \<inter> set published = {}"
    using ok by (simp_all add: sequence_ok_def Let_def)
  have "a < b" if "a \<in> set (map fst (ob_log ob)) \<union> set published" "b \<in> set new \<union> set fresh" for a b
  proof -
    have "a \<le> latest_seq ob" using that(1) old(1) by auto
    moreover have "latest_seq ob + 1 \<le> b" using that(2) new(2) pub(2) by auto
    ultimately show ?thesis by linarith
  qed
  note lt = this
  have "sorted_wrt (<) (map fst (ob_log ob'))" "sorted_wrt (<) (published @ fresh)"
    using lt old(3,4) new(1) pub(1) by (simp_all add: log sorted_wrt_append)
  moreover have "set (map fst (ob_log ob')) \<union> set (published @ fresh) \<subseteq> {1..latest_seq ob'}"
  proof -
    have "set (map fst (ob_log ob)) \<union> set published \<subseteq> {1..latest_seq ob'}" using old(1) le by fastforce
    moreover have "set new \<union> set fresh \<subseteq> {1..latest_seq ob'}" using new(2) pub(2) old(2) by fastforce
    ultimately show ?thesis by (auto simp: log simp del: set_map)
  qed
  moreover have "set (map fst (ob_log ob')) \<inter> set (published @ fresh) = {}"
  proof -
    have "x \<notin> set published \<and> x \<notin> set fresh" if "x \<in> set (map fst (ob_log ob)) \<union> set new" for x
      using that lt[of x x] old(5) sep by (simp del: set_map) blast
    then show ?thesis unfolding log set_append by blast
  qed
  moreover have "0 \<le> latest_seq ob'" using old(2) le by simp
  ultimately show ?thesis by (simp add: sequence_ok_def)
qed

section \<open>A flush\<close>

lemma inserted_nonneg:
  assumes "write_events l g evs st = Inr st'" "0 \<le> ds_inserted st"
  shows "0 \<le> ds_inserted st'"
  using assms
proof (induction evs arbitrary: st)
  case (Cons ev evs)
  obtain e p where ev: "ev = (e, p)" by (cases ev)
  from Cons.prems(1) obtain s1 where s1: "write_event l g ev st = Inr s1" "write_events l g evs s1 = Inr st'"
    by (auto split: sum.splits)
  have "ds_inserted st \<le> ds_inserted s1"
  proof (cases p)
    case Insert_Once
    then show ?thesis using s1(1) by (auto simp: ev write_insert_once_def record_insert_def split: prod.splits)
  next
    case Replace
    then show ?thesis
      using s1(1) by (auto simp: ev write_replace_def record_insert_def Let_def split: if_splits sum.splits option.splits)
  qed
  with Cons.prems(2) Cons.IH[OF s1(2)] show ?case by simp
qed simp

lemma outbox_entries_seqs:
  "sorted_wrt (<) (map fst (outbox_entries l wm src agent g start n))"
  "set (map fst (outbox_entries l wm src agent g start n)) \<subseteq> {start..start + n - 1}"
proof -
  define entry where "entry = (\<lambda>i. let seq = start + i in
      case wl_envelope l (Durable (Usage_Event_Inserted (''tail-'' @ src @ ''-'' @ show_int seq) agent) seq g wm) of
        None \<Rightarrow> [] | Some json \<Rightarrow> [(seq, json)])"
  have seqs: "set (map fst (entry i)) \<subseteq> {start + i}" "sorted_wrt (<) (map fst (entry i))" for i
    by (auto simp: entry_def Let_def split: option.splits)
  have "set (map fst (concat (map entry xs))) \<subseteq> (\<lambda>i. start + i) ` set xs" for xs
  proof (induction xs)
    case (Cons i xs)
    have "set (map fst (concat (map entry (i # xs)))) = set (map fst (entry i)) \<union> set (map fst (concat (map entry xs)))"
      by (simp add: image_Un)
    with Cons seqs(1)[of i] show ?case by (simp del: set_map) blast
  qed simp
  note mem = this
  have "sorted_wrt (<) (map fst (concat (map entry xs)))" if "sorted_wrt (<) xs" for xs
    using that
  proof (induction xs)
    case (Cons i xs)
    have "a < b" if "a \<in> set (map fst (entry i))" "b \<in> set (map fst (concat (map entry xs)))" for a b
    proof -
      have "a = start + i" using that(1) seqs(1)[of i] by blast
      moreover have "\<exists>j \<in> set xs. b = start + j" using that(2) mem[of xs] by blast
      ultimately show ?thesis using Cons.prems by auto
    qed
    with Cons seqs(2)[of i] show ?case by (simp add: sorted_wrt_append)
  qed simp
  moreover have entries: "outbox_entries l wm src agent g start n = concat (map entry [0..n - 1])"
    unfolding outbox_entries_def entry_def ..
  moreover have "sorted_wrt (<) [0..n - 1]" by simp
  ultimately show "sorted_wrt (<) (map fst (outbox_entries l wm src agent g start n))" by metis
  show "set (map fst (outbox_entries l wm src agent g start n)) \<subseteq> {start..start + n - 1}"
    unfolding entries by (rule subset_trans[OF mem]) auto
qed

text \<open>Allocation: from one past the latest to the new latest.\<close>

lemma outbox_log_append:
  "ob_log (append_durable_outbox_events now es ob) = ob_log ob @ map (\<lambda>(seq, json). (seq, json, now)) es"
  by (simp add: append_durable_outbox_events_def)

lemma number_batch_effect:
  assumes "number_batch l now src agent g n mutated ob = ((a, b), ob')" "0 \<le> n"
  shows "if mutated
         then a = latest_seq ob + 1 \<and> b = latest_seq ob + n + 2 \<and> latest_seq ob' = b
              \<and> ob_log ob' = ob_log ob @ map (\<lambda>(seq, json). (seq, json, now)) (outbox_entries l now src agent g a n)
         else ob' = ob"
proof (cases mutated)
  case True
  obtain r ob1 where al: "allocate_event_sequence_batch now (n + 2) ob = (r, ob1)" by (metis surj_pair)
  have "r = (latest_seq ob + 1, latest_seq ob + (n + 2))" "latest_seq ob1 = latest_seq ob + (n + 2)" "ob_log ob1 = ob_log ob"
    using allocate_result[of now "n + 2" ob] al by simp_all
  with True assms al show ?thesis
    by (auto simp: number_batch_def Let_def outbox_log_append split: if_splits)
qed (use assms in \<open>simp add: number_batch_def\<close>)

lemma write_batch_sequence:
  assumes "write_batch l now tz src agent g a s = Inr (out, s')"
  shows "0 \<le> fo_inserted out"
    and "if 0 < fo_inserted out \<or> 0 < fo_replaced out
         then fo_seq_start out = latest_seq (gd_sequence (st_db s)) + 1
              \<and> fo_seq_end out = latest_seq (gd_sequence (st_db s)) + fo_inserted out + 2
              \<and> latest_seq (gd_sequence (st_db s')) = fo_seq_end out
              \<and> map fst (ob_log (gd_sequence (st_db s'))) = map fst (ob_log (gd_sequence (st_db s)))
                  @ map fst (outbox_entries l now src agent g (fo_seq_start out) (fo_inserted out))
         else gd_sequence (st_db s') = gd_sequence (st_db s)"
proof -
  obtain d where d: "upsert_usage_events_dedup_aware (wl_store l) (ga_events a) g (gd_usage (st_db s)) = Inr d"
    using assms by (auto simp: write_batch_def Let_def split: sum.splits)
  have n: "0 \<le> ds_inserted d"
    using inserted_nonneg d by (fastforce simp: upsert_usage_events_dedup_aware_def dedup_start_def)
  obtain x y ob where nb: "number_batch l now src agent g (ds_inserted d) (0 < ds_inserted d \<or> 0 < ds_replaced d)
      (gd_sequence (st_db s)) = ((x, y), ob)" by (metis surj_pair)
  have out: "fo_inserted out = ds_inserted d" "fo_replaced out = ds_replaced d" "fo_seq_start out = x" "fo_seq_end out = y"
    "gd_sequence (st_db s') = ob"
    using assms d nb by (auto simp: write_batch_def Let_def split: sum.splits prod.splits)
  show "0 \<le> fo_inserted out" using n out by simp
  show "if 0 < fo_inserted out \<or> 0 < fo_replaced out
         then fo_seq_start out = latest_seq (gd_sequence (st_db s)) + 1
              \<and> fo_seq_end out = latest_seq (gd_sequence (st_db s)) + fo_inserted out + 2
              \<and> latest_seq (gd_sequence (st_db s')) = fo_seq_end out
              \<and> map fst (ob_log (gd_sequence (st_db s'))) = map fst (ob_log (gd_sequence (st_db s)))
                  @ map fst (outbox_entries l now src agent g (fo_seq_start out) (fo_inserted out))
         else gd_sequence (st_db s') = gd_sequence (st_db s)"
    using number_batch_effect[OF nb n] by (auto simp: out comp_def case_prod_unfold)
qed

lemma accumulate_seqs [simp]: "durable_seqs (wr_bus (accumulate_live_bucket l now es w)) = durable_seqs (wr_bus w)"
  by (simp add: accumulate_live_bucket_def Let_def)

lemma after_commit_seqs:
  "durable_seqs (wr_bus (after_commit l now g src n out w)) = durable_seqs (wr_bus w)
     @ (if 0 < fo_inserted out \<or> 0 < fo_replaced out then [fo_seq_start out + fo_inserted out, fo_seq_end out] else [])"
  by (simp add: after_commit_def Let_def)

lemma flush_single_sequence:
  assumes "sequence_ok (notified w)"
  shows "sequence_ok (notified (flush_single_generation l k bs g w))"
proof -
  let ?tz = "case wl_parse_tz l (bs_timezone (wr_settings w)) of Inr tz \<Rightarrow> tz | Inl _ \<Rightarrow> wl_utc l"
  let ?agent = "case bs of [] \<Rightarrow> [] | b # _ \<Rightarrow> wb_source_file_agent b" and ?src = "case bs of [] \<Rightarrow> [] | b # _ \<Rightarrow> wb_source_id b"
  show ?thesis
  proof (cases "write_batch l (wk_now k) ?tz ?src ?agent g (gather bs) (writer_store w)")
    case (Inl e)
    with assms show ?thesis by (simp add: flush_single_generation_def Let_def)
  next
    case (Inr r)
    obtain out s where r: "r = (out, s)" by (cases r)
    let ?w' = "flush_single_generation l k bs g w" and ?ob = "gd_sequence (wr_db w)"
    have w': "notified ?w' = (gd_sequence (st_db s), durable_seqs (wr_bus w)
        @ (if 0 < fo_inserted out \<or> 0 < fo_replaced out then [fo_seq_start out + fo_inserted out, fo_seq_end out] else []))"
      by (simp add: flush_single_generation_def Let_def Inr r notified_def after_commit_seqs)
    note eff = write_batch_sequence[OF Inr[unfolded r]]
    have ok: "sequence_ok (?ob, durable_seqs (wr_bus w))" using assms by (simp add: notified_def)
    show ?thesis
    proof (cases "0 < fo_inserted out \<or> 0 < fo_replaced out")
      case True
      let ?new = "map fst (outbox_entries l (wk_now k) ?src ?agent g (fo_seq_start out) (fo_inserted out))"
      have e: "fo_seq_start out = latest_seq ?ob + 1" "fo_seq_end out = latest_seq ?ob + fo_inserted out + 2"
        "latest_seq (gd_sequence (st_db s)) = fo_seq_end out"
        "map fst (ob_log (gd_sequence (st_db s))) = map fst (ob_log ?ob) @ ?new"
        using eff(2) True by (simp_all add: writer_store_def)
      have new: "sorted_wrt (<) ?new" "set ?new \<subseteq> {fo_seq_start out..fo_seq_start out + fo_inserted out - 1}"
        by (rule outbox_entries_seqs)+
      have "sequence_ok (gd_sequence (st_db s), durable_seqs (wr_bus w) @ [fo_seq_start out + fo_inserted out, fo_seq_end out])"
      proof (rule sequence_extend[OF ok e(4)])
        show "set ?new \<subseteq> {latest_seq ?ob + 1..latest_seq (gd_sequence (st_db s))}"
          by (rule subset_trans[OF new(2)]) (use e in auto)
        show "set ?new \<inter> set [fo_seq_start out + fo_inserted out, fo_seq_end out] = {}"
          using new(2) e(1,2) by (fastforce simp del: set_map)
      qed (use e new(1) eff(1) in auto)
      with True w' show ?thesis by simp
    next
      case False
      with ok w' eff(2) show ?thesis by (simp add: writer_store_def)
    qed
  qed
qed

lemma flush_pending_sequence:
  assumes "sequence_ok (notified w)"
  shows "sequence_ok (notified (flush_pending_batches l k w))"
proof -
  have "sequence_ok (notified (fold (\<lambda>h. flush_single_generation l k (batches_of h cmds) h) gens v))"
    if "sequence_ok (notified v)" for cmds gens v
    using that by (induction gens arbitrary: v) (simp_all add: flush_single_sequence)
  moreover have "sequence_ok (notified (w\<lparr>wr_pending_batches := []\<rparr>))" using assms by (simp add: notified_def)
  ultimately show ?thesis by (simp add: flush_pending_batches_def Let_def)
qed

section \<open>The other commands\<close>

lemma drain_sequence: "gd_sequence (snd (drain_replay l clk g i n db)) = gd_sequence db"
proof (induction l clk g i n db rule: drain_replay.induct)
  case (1 l clk g i applied db)
  have "gd_sequence d = gd_sequence db"
    if "apply_replay_rows_to_target_generation l (bc_replay_now clk i) g None REPLAY_DRAIN_BATCH_LIMIT db = Inr (n, d)" for n d
    using that by (auto simp: apply_replay_rows_to_target_generation_def Let_def split: sum.splits)
  with 1 show ?case by (subst drain_replay.simps) (auto split: sum.split)
qed

lemma barrier_sequence:
  "gd_sequence (fst (snd (execute_promotion_barrier l clk contended g db status))) = gd_sequence db"
  by (cases rule: barrier_cases[of l clk contended g db status])
    (simp_all add: drain_sequence refuse_promotion_def promote_generation_def upsert_service_def put_diagnostic_def)

lemma persist_notified [simp]: "notified (persist_metrics_checkpoint now w) = notified w"
  by (simp add: notified_def persist_metrics_checkpoint_def set_db_def checkpoint_writer_metrics_def upsert_service_def)

lemma prune_notified [simp]: "notified (prune_old_usage_events now w) = notified w"
  by (simp add: notified_def prune_old_usage_events_def Let_def split: option.split prod.split)

lemma notified_simps [simp]:
  "notified (w\<lparr>wr_replies := a\<rparr>) = notified w" "notified (w\<lparr>wr_pending_errors := b\<rparr>) = notified w"
  "notified (w\<lparr>wr_pending_batches := c\<rparr>) = notified w" "notified (w\<lparr>wr_running := d\<rparr>) = notified w"
  "notified (w\<lparr>wr_last_metrics_checkpoint := e\<rparr>) = notified w" "notified (w\<lparr>wr_prev_queue_state := f\<rparr>) = notified w"
  "notified (w\<lparr>wr_prev_lag_state := f\<rparr>) = notified w" "notified (w\<lparr>wr_status := h\<rparr>) = notified w"
  "notified (w\<lparr>wr_bus := wr_bus w @ [Ephemeral ev]\<rparr>) = notified w"
  by (simp_all add: notified_def)

lemma threshold_notified [simp]:
  "notified (emit_queue_threshold now depth w) = notified w" "notified (emit_lag_threshold now w) = notified w"
  by (simp_all add: emit_queue_threshold_def emit_lag_threshold_def Let_def split: option.split)

lemma housekeeping_notified [simp]: "notified (housekeeping k w) = notified w"
  by (simp add: housekeeping_def Let_def update_status_snapshot_def)

lemma answer_notified [simp]: "notified (answer_barrier w) = notified w"
  by (simp add: answer_barrier_def drain_pending_errors_def split: list.split prod.split)

lemma stop_notified [simp]: "notified (stop_writer now w) = notified w"
  by (simp add: stop_writer_def)

lemma allocate_one:
  "allocate_event_sequence_batch now 1 ob = ((a, b), ob') \<Longrightarrow>
   a = latest_seq ob + 1 \<and> latest_seq ob' = latest_seq ob + 1 \<and> ob_log ob' = ob_log ob"
  using allocate_result[of now 1 ob] by simp

lemma rebuild_sequence:
  assumes "sequence_ok (notified w)"
  shows "sequence_ok (notified (handle_rebuild_rollups l k timezone w))"
proof -
  obtain r db where rb: "rebuild_rollups_store l k timezone (ss_active_generation_id (wr_status w)) (wr_db w) = (r, db)"
    by (metis surj_pair)
  have kept: "gd_sequence db = gd_sequence (wr_db w)" if "\<nexists>s. r = Inr (Some s)"
    using rb that by (auto simp: rebuild_rollups_store_def Let_def split: option.splits sum.splits if_splits prod.splits)
  show ?thesis
  proof (cases "\<exists>s. r = Inr (Some s)")
    case True
    then obtain q where q: "r = Inr (Some q)" by blast
    then obtain b where "allocate_event_sequence_batch (wk_now k) 1 (gd_sequence (wr_db w)) = ((q, b), gd_sequence db)"
      using rb by (auto simp: rebuild_rollups_store_def Let_def split: option.splits sum.splits if_splits prod.splits)
    note al = allocate_one[OF this]
    have "sequence_ok (gd_sequence (wr_db w), durable_seqs (wr_bus w))" using assms by (simp add: notified_def)
    then have "sequence_ok (gd_sequence db, durable_seqs (wr_bus w) @ [q])"
      by (rule sequence_extend[where new = "[]"]) (use al in auto)
    then show ?thesis by (simp add: handle_rebuild_rollups_def rb q notified_def Let_def)
  next
    case False
    with kept have "notified (handle_rebuild_rollups l k timezone w) = notified w"
      by (cases r) (auto simp: handle_rebuild_rollups_def rb notified_def Let_def split: option.split)
    with assms show ?thesis by simp
  qed
qed

lemma set_db_notified: "gd_sequence db = gd_sequence (wr_db w) \<Longrightarrow> notified (set_db db w) = notified w"
  by (simp add: notified_def set_db_def)

lemma handler_sequences [simp]:
  "gd_sequence (create_generation now g db) = gd_sequence db"
  "gd_sequence (enqueue_tail_replay_rows now rows db) = gd_sequence db"
  "gd_sequence (handle_progress_checkpoint now c db) = gd_sequence db"
  "gd_sequence (handle_log_source_upsert now row db) = gd_sequence db"
  "gd_sequence (snd (handle_reset_failed_checkpoints now db)) = gd_sequence db"
  by (simp_all add: create_generation_def enqueue_tail_replay_rows_def handle_progress_checkpoint_def
      handle_log_source_upsert_def handle_reset_failed_checkpoints_def Let_def)

lemma diagnostic_notified [simp]: "notified (handle_diagnostic_write now c w) = notified w"
  by (simp add: handle_diagnostic_write_def Let_def notified_def put_diagnostic_def)

lemma apply_replay_sequence:
  "apply_replay_rows_to_target_generation l now g fid limit db = Inr (n, db') \<Longrightarrow> gd_sequence db' = gd_sequence db"
  by (auto simp: apply_replay_rows_to_target_generation_def Let_def split: sum.splits)

lemma promotion_notified [simp]: "notified (snd (handle_promotion_barrier l k g w)) = notified w"
proof -
  obtain r db status where ex:
    "execute_promotion_barrier (wl_replay l) (wk_barrier k) (wk_contended k) g (wr_db w) (wr_status w) = (r, db, status)"
    by (metis surj_pair)
  then have "gd_sequence db = gd_sequence (wr_db w)"
    using barrier_sequence[of "wl_replay l" "wk_barrier k" "wk_contended k" g "wr_db w" "wr_status w"] by simp
  then show ?thesis by (simp add: handle_promotion_barrier_def ex notified_def Let_def split: sum.split)
qed

lemma dispatch_notified:
  assumes "\<nexists>t. cmd = Rebuild_Rollups t"
  shows "notified (snd (dispatch_command l k cmd w)) = notified w"
proof (cases cmd)
  case (Apply_Replay_To_Target g fid limit)
  then show ?thesis
    by (auto simp: dispatch_command_def Let_def intro: set_db_notified apply_replay_sequence split: sum.split)
next
  case Reset_Failed_Checkpoints
  then show ?thesis by (simp add: dispatch_command_def Let_def case_prod_unfold set_db_notified)
next
  case (Realtime_Summary_Replace entries)
  then show ?thesis by (simp add: dispatch_command_def Let_def notified_def)
next
  case (Settings_Write key v)
  then show ?thesis by (simp add: dispatch_command_def Let_def notified_def case_prod_unfold)
qed (use assms in \<open>simp_all add: dispatch_command_def Let_def set_db_notified\<close>)

lemma dispatch_sequence:
  assumes "sequence_ok (notified w)"
  shows "sequence_ok (notified (snd (dispatch_command l k cmd w)))"
proof (cases "\<exists>t. cmd = Rebuild_Rollups t")
  case True
  then show ?thesis using rebuild_sequence[OF assms] by (auto simp: dispatch_command_def Let_def)
next
  case False
  then show ?thesis using assms dispatch_notified by simp
qed

lemma run_command_sequence:
  "sequence_ok (notified w) \<Longrightarrow> sequence_ok (notified (run_command l k cmd w))"
proof -
  assume "sequence_ok (notified w)"
  then have ok: "sequence_ok (notified (snd (dispatch_command l k cmd (flush_pending_batches l k w))))"
    by (intro dispatch_sequence flush_pending_sequence)
  have "notified (run_command l k cmd w) = notified (snd (dispatch_command l k cmd (flush_pending_batches l k w)))"
    by (cases "fst (dispatch_command l k cmd (flush_pending_batches l k w))") (simp_all add: run_command_def case_prod_unfold Let_def split: unit.split)
  with ok show ?thesis by simp
qed

lemma push_sequence: "sequence_ok (notified w) \<Longrightarrow> sequence_ok (notified (push_batch l k cmd w))"
  by (simp add: push_batch_def Let_def flush_pending_sequence)

lemma writer_step_sequence:
  assumes "sequence_ok (notified w)"
  shows "sequence_ok (notified (writer_step l k inp w))"
proof (cases "wr_running w")
  case True
  show ?thesis
  proof (cases inp)
    case (Received cmd)
    have "sequence_ok (notified (if batch_of cmd \<noteq> None then push_batch l k cmd w else run_command l k cmd w))"
      using assms by (simp add: push_sequence run_command_sequence)
    with True Received assms show ?thesis
      by (cases cmd) (simp_all add: writer_step_def flush_pending_sequence)
  qed (use True assms in \<open>simp_all add: writer_step_def flush_pending_sequence\<close>)
qed (use assms in \<open>simp add: writer_step_def\<close>)

section \<open>The properties\<close>

text \<open>
  C8. No sequence number is used twice. After any run of the actor from an empty outbox, whatever
  commands, timeouts and failures it saw, the rows of the outbox and the durable notifications on the
  bus are each in strictly increasing order, share no number, and none lies beyond the latest number
  recorded, from which the next allocation continues.
\<close>

theorem sequence_numbers_unique:
  assumes "gd_sequence (wr_db w) = \<lparr>ob_sequence = None, ob_log = []\<rparr>" "wr_bus w = []"
  shows "let w' = writer_run l steps w; ob = gd_sequence (wr_db w');
             stored = map fst (ob_log ob); published = durable_seqs (wr_bus w')
         in sorted_wrt (<) stored \<and> sorted_wrt (<) published \<and> set stored \<inter> set published = {}
            \<and> set stored \<union> set published \<subseteq> {1..latest_seq ob}"
proof -
  have "sequence_ok (notified w)" using assms by (simp add: sequence_ok_def notified_def latest_seq_def)
  then have "sequence_ok (notified (writer_run l steps w))"
    unfolding writer_run_def
    by (induction steps arbitrary: w) (auto simp: writer_step_sequence)
  then show ?thesis by (simp add: sequence_ok_def notified_def Let_def)
qed

text \<open>
  A flush that failed is reported as a success. When the transaction of the pending batch fails, the
  batch is dropped, the database is as before, no error is kept, and the caller that asked the writer
  to flush gets Ok.
\<close>

theorem failed_flush_answers_ok:
  assumes "wr_pending_batches w = [cmd]" "batch_of cmd = Some b" "wr_pending_errors w = []"
    and "wk_group_order k [wb_generation_id b] = [wb_generation_id b]"
    and "wl_parse_tz l (bs_timezone (wr_settings w)) = Inr tz"
    and "write_batch l (wk_now k) tz (wb_source_id b) (wb_source_file_agent b) (wb_generation_id b) (gather [b])
           (writer_store w) = Inl e"
  shows "let w' = answer_barrier (flush_pending_batches l k w) in
      wr_replies w' = wr_replies w @ [Reply_Unit (Inr ())] \<and> wr_pending_batches w' = []
      \<and> wr_pending_errors w' = [] \<and> wr_db w' = wr_db w"
proof -
  have "flush_pending_batches l k w = w\<lparr>wr_pending_batches := []\<rparr>"
    using assms(1,2,4-6)
    by (simp add: flush_pending_batches_def flush_single_generation_def batches_of_def List.map_filter_def Let_def writer_store_def)
  then show ?thesis using assms(3) by (simp add: answer_barrier_def drain_pending_errors_def)
qed


section \<open>Witnesses\<close>

theorem sequence_numbers_unique_witness:
  "sorted_wrt (<) (durable_seqs (wr_bus (writer_run sample_writer_lib
       [(sample_writer_clock 7, Received (Tail_Batch sample_tail)), (sample_writer_clock 8, Received Flush),
        (sample_writer_clock 9, Channel_Closed)] sample_writer)))"
  using sequence_numbers_unique[of sample_writer sample_writer_lib
      "[(sample_writer_clock 7, Received (Tail_Batch sample_tail)), (sample_writer_clock 8, Received Flush),
        (sample_writer_clock 9, Channel_Closed)]"]
  by (simp add: sample_writer_def sample_gdb_def Let_def)

text \<open>A time zone library that cannot date the event makes the transaction fail.\<close>

definition undated_lib :: writer_lib where
  "undated_lib = sample_writer_lib\<lparr>wl_parse_tz := (\<lambda>_. Inr \<lparr>tz_canonical_name = ''UTC'', tz_local_date = (\<lambda>_. None)\<rparr>)\<rparr>"

lemma undated_write:
  "write_batch undated_lib 7 \<lparr>tz_canonical_name = ''UTC'', tz_local_date = (\<lambda>_. None)\<rparr> ''s'' ''claude'' ''g''
     (gather [sample_tail]) (writer_store sample_writer)
   = Inl (''daily_usage upsert failed: '' @ ''failed to compute date for event '' @ ue_id (sample_event ''r1''))"
proof -
  have "ga_events (gather [sample_tail]) = [(sample_event ''r1'', Replace)]"
    by (simp add: gather_fields sample_tail_def)
  moreover obtain st where
    "upsert_usage_events_dedup_aware sample_store_lib [(sample_event ''r1'', Replace)] ''g'' empty_usage_db = Inr st"
    "ds_effective_events st = [sample_event ''r1'']"
    using single_fresh_write[of "''g''" sample_key "\<lambda>_. False" empty_usage_db "sample_event ''r1''" sample_store_lib] sample_ok
    by (auto simp: sample_batch_def fetch_existing_for_dedupe_def empty_usage_db_def)
  ultimately show ?thesis
    by (simp add: write_batch_def writer_store_def sample_writer_def sample_gdb_def undated_lib_def sample_writer_lib_def
        empty_usage_db_def case_prod_unfold)
qed

theorem failed_flush_answers_ok_witness:
  "wr_replies (answer_barrier (flush_pending_batches undated_lib (sample_writer_clock 7)
     (sample_writer\<lparr>wr_pending_batches := [Tail_Batch sample_tail]\<rparr>))) = [Reply_Unit (Inr ())]"
proof -
  have "wb_source_id sample_tail = ''s''" "wb_source_file_agent sample_tail = ''claude''" "wb_generation_id sample_tail = ''g''"
    by (simp_all add: sample_tail_def)
  moreover have "wr_replies sample_writer = []" "wr_pending_errors sample_writer = []"
    by (simp_all add: sample_writer_def)
  moreover have "writer_store (sample_writer\<lparr>wr_pending_batches := [Tail_Batch sample_tail]\<rparr>) = writer_store sample_writer"
    by (simp add: writer_store_def)
  ultimately show ?thesis
    using failed_flush_answers_ok[of "sample_writer\<lparr>wr_pending_batches := [Tail_Batch sample_tail]\<rparr>" "Tail_Batch sample_tail"
        sample_tail "sample_writer_clock 7" undated_lib "\<lparr>tz_canonical_name = ''UTC'', tz_local_date = (\<lambda>_. None)\<rparr>"] undated_write
    by (simp add: sample_writer_clock_def undated_lib_def Let_def)
qed

end
