(* ===== verification/Usage_Aggregates.thy ===== *)
theory Usage_Aggregates
  imports Usage_Rollups Log_Adapters
begin

text \<open>
  The aggregate planner of \<open>busytok-aggregator\<close> (\<open>mutations.rs\<close>): daily, session, project and model
  rollups of a list of events, the full rebuilds of the summary tables, and the conversion to rows. The
  planner itself, which joins the rollups with the summary of the dashboard, is in Aggregate_Planner.
  A hash map is the association list of its entries in order of insertion; the order in which the code
  iterates over it is a parameter.
\<close>

section \<open>Hash maps with entries\<close>

text \<open>\<open>map.entry(k).or_insert(d)\<close> followed by an update of the value.\<close>

fun entry :: "'k \<Rightarrow> 'v \<Rightarrow> ('v \<Rightarrow> 'v) \<Rightarrow> ('k \<times> 'v) list \<Rightarrow> ('k \<times> 'v) list" where
  "entry k d f [] = [(k, f d)]"
| "entry k d f ((k', v) # m) = (if k' = k then (k', f v) # m else (k', v) # entry k d f m)"

text \<open>The sum of an amount over the entries whose key satisfies a predicate.\<close>

definition amount_where :: "('k \<Rightarrow> bool) \<Rightarrow> ('v \<Rightarrow> int) \<Rightarrow> ('k \<times> 'v) list \<Rightarrow> int" where
  "amount_where P amount m = sum_list (map (amount \<circ> snd) (filter (P \<circ> fst) m))"

lemma amount_where_simps [simp]:
  "amount_where P amount [] = 0"
  "amount_where P amount ((k, v) # m) = (if P k then amount v else 0) + amount_where P amount m"
  by (simp_all add: amount_where_def)

lemma amount_entry:
  assumes "\<And>v. amount (f v) = amount v + a" "amount d = 0"
  shows "amount_where P amount (entry k d f m) = amount_where P amount m + (if P k then a else 0)"
  using assms by (induction k d f m rule: entry.induct) auto

lemma entry_keys: "fst ` set (entry k d f m) = insert k (fst ` set m)"
  by (induction k d f m rule: entry.induct) auto

lemma entry_distinct: "distinct (map fst m) \<Longrightarrow> distinct (map fst (entry k d f m))"
  by (induction k d f m rule: entry.induct) (auto simp: entry_keys)

lemma entry_Ball:
  assumes "\<And>v. P k v \<Longrightarrow> P k (f v)" "P k d" "\<forall>(k, v) \<in> set m. P k v"
  shows "\<forall>(k, v) \<in> set (entry k d f m). P k v"
  using assms by (induction k d f m rule: entry.induct) auto

text \<open>An entry whose update merges a row is an upsert of the row.\<close>

lemma entry_upsert:
  assumes "row_of' (k, f d) = x" "\<And>k' v. key (row_of' (k', v)) = code k'" "inj code"
    and "\<And>v. row_of' (k, f v) = merge (row_of' (k, v)) x"
  shows "map row_of' (entry k d f m) = upsert_row key merge x (map row_of' m)"
proof -
  have "key x = code k" using assms(1,2) by metis
  then show ?thesis
    using assms by (induction m) (auto dest: injD)
qed

section \<open>Accumulators\<close>

record daily_acc =
  da_tokens :: event_tokens
  da_cost_usd :: "f64_bits option"
  da_estimated_cost_usd :: "f64_bits option"
  da_event_count :: int

definition daily_acc_default :: daily_acc where
  "daily_acc_default =
     \<lparr>da_tokens = zero_tokens, da_cost_usd = None, da_estimated_cost_usd = None, da_event_count = 0\<rparr>"

record session_acc =
  sa_id :: string
  sa_agent :: "agent_kind option"
  sa_project_hash :: "string option"
  sa_started_at_ms :: int
  sa_last_seen_at_ms :: int
  sa_models :: "string list"
  sa_total_tokens :: int
  sa_total_cost_usd :: "f64_bits option"
  sa_event_count :: int

record project_acc =
  pa_project_hash :: "string option"
  pa_project_path :: "string option"
  pa_agent :: "agent_kind option"
  pa_first_seen_at_ms :: int
  pa_last_seen_at_ms :: int
  pa_total_tokens :: int
  pa_total_cost_usd :: "f64_bits option"
  pa_event_count :: int
  pa_sessions :: "string list"

record model_acc =
  ma_model :: "string option"
  ma_total_tokens :: int
  ma_total_cost_usd :: "f64_bits option"
  ma_event_count :: int

text \<open>
  The orders of iteration over the four maps of the planner and over the three of the rebuilds, which are
  hash maps of their own, and \<open>serde_json::to_string\<close> of a list.
\<close>

record agg_lib =
  al_fadd :: "f64_bits \<Rightarrow> f64_bits \<Rightarrow> f64_bits"
  al_json_list :: "string list \<Rightarrow> string option"
  al_daily_order :: "((string \<times> string \<times> string \<times> string) \<times> daily_acc) list \<Rightarrow> ((string \<times> string \<times> string \<times> string) \<times> daily_acc) list"
  al_session_order :: "(string \<times> session_acc) list \<Rightarrow> (string \<times> session_acc) list"
  al_project_order :: "(string \<times> project_acc) list \<Rightarrow> (string \<times> project_acc) list"
  al_model_order :: "(string \<times> model_acc) list \<Rightarrow> (string \<times> model_acc) list"
  al_rebuilt_session_order :: "(string \<times> session_acc) list \<Rightarrow> (string \<times> session_acc) list"
  al_rebuilt_project_order :: "(string \<times> project_acc) list \<Rightarrow> (string \<times> project_acc) list"
  al_rebuilt_model_order :: "(string \<times> model_acc) list \<Rightarrow> (string \<times> model_acc) list"

section \<open>Daily usage\<close>

definition add_daily :: "agg_lib \<Rightarrow> usage_event \<Rightarrow> daily_acc \<Rightarrow> daily_acc" where
  "add_daily l e a =
     \<lparr>da_tokens = add_tokens (da_tokens a) (ue_tokens e),
      da_cost_usd = merge_cost (al_fadd l) (da_cost_usd a) (ec_cost_usd (ue_cost e)),
      da_estimated_cost_usd = merge_cost (al_fadd l) (da_estimated_cost_usd a) (ec_estimated_cost_usd (ue_cost e)),
      da_event_count = da_event_count a + 1\<rparr>"

text \<open>A date that cannot be computed ends the loop with an error.\<close>

fun daily_map ::
  "agg_lib \<Rightarrow> reporting_timezone \<Rightarrow> usage_event list
   \<Rightarrow> ((string \<times> string \<times> string \<times> string) \<times> daily_acc) list
   \<Rightarrow> ((string \<times> string \<times> string \<times> string) \<times> daily_acc) list option" where
  "daily_map l tz [] m = Some m"
| "daily_map l tz (e # es) m =
     (case tz_local_date tz (ue_timestamp_ms e) of
        None \<Rightarrow> None
      | Some date \<Rightarrow>
          daily_map l tz es
            (entry (date, agent_str (ue_agent e), unwrap_or [] (ep_project_hash (ue_project e)), event_model_name e)
               daily_acc_default (add_daily l e) m))"

definition daily_usage_row ::
  "reporting_timezone \<Rightarrow> string \<Rightarrow> (string \<times> string \<times> string \<times> string) \<times> daily_acc \<Rightarrow> daily_row" where
  "daily_usage_row tz g x =
     (case x of ((date, agent, hash, model), a) \<Rightarrow>
        \<lparr>dr_key = (date, tz_canonical_name tz, agent, hash, model, g), dr_tokens = da_tokens a,
         dr_cost_usd = da_cost_usd a, dr_estimated_cost_usd = da_estimated_cost_usd a,
         dr_event_count = da_event_count a\<rparr>)"

section \<open>Sessions\<close>

definition new_session :: "usage_event \<Rightarrow> session_acc" where
  "new_session e =
     \<lparr>sa_id = ue_session_id e, sa_agent = Some (ue_agent e), sa_project_hash = ep_project_hash (ue_project e),
      sa_started_at_ms = ue_timestamp_ms e, sa_last_seen_at_ms = ue_timestamp_ms e, sa_models = [],
      sa_total_tokens = 0, sa_total_cost_usd = None, sa_event_count = 0\<rparr>"

definition push_new :: "string option \<Rightarrow> string list \<Rightarrow> string list" where
  "push_new s xs = (case s of Some x \<Rightarrow> if x \<noteq> [] \<and> x \<notin> set xs then xs @ [x] else xs | None \<Rightarrow> xs)"

definition add_session :: "agg_lib \<Rightarrow> usage_event \<Rightarrow> session_acc \<Rightarrow> session_acc" where
  "add_session l e a =
     a\<lparr>sa_started_at_ms := (if ue_timestamp_ms e < sa_started_at_ms a then ue_timestamp_ms e else sa_started_at_ms a),
       sa_last_seen_at_ms := (if sa_last_seen_at_ms a < ue_timestamp_ms e then ue_timestamp_ms e else sa_last_seen_at_ms a),
       sa_models := push_new (em_model (ue_model e)) (sa_models a),
       sa_total_tokens := sa_total_tokens a + et_total_tokens (ue_tokens e),
       sa_total_cost_usd := merge_cost (al_fadd l) (sa_total_cost_usd a) (ec_cost_usd (ue_cost e)),
       sa_event_count := sa_event_count a + 1\<rparr>"

definition session_map :: "agg_lib \<Rightarrow> usage_event list \<Rightarrow> (string \<times> session_acc) list" where
  "session_map l events =
     fold (\<lambda>e m. if ue_session_id e = [] then m
                 else entry (ue_session_id e) (new_session e) (add_session l e) m) events []"

record session_summary =
  su_id :: string
  su_agent :: "agent_kind option"
  su_project_hash :: "string option"
  su_started_at_ms :: int
  su_last_seen_at_ms :: int
  su_model_list_json :: "string option"
  su_total_tokens :: int
  su_total_cost_usd :: "f64_bits option"
  su_event_count :: int

definition model_list_json :: "agg_lib \<Rightarrow> string list \<Rightarrow> string" where
  "model_list_json l models = unwrap_or ''[]'' (al_json_list l models)"

definition session_summary_of :: "agg_lib \<Rightarrow> session_acc \<Rightarrow> session_summary" where
  "session_summary_of l a =
     \<lparr>su_id = sa_id a, su_agent = sa_agent a, su_project_hash = sa_project_hash a,
      su_started_at_ms = sa_started_at_ms a, su_last_seen_at_ms = sa_last_seen_at_ms a,
      su_model_list_json = Some (model_list_json l (sa_models a)), su_total_tokens = sa_total_tokens a,
      su_total_cost_usd = sa_total_cost_usd a, su_event_count = sa_event_count a\<rparr>"

section \<open>Projects\<close>

definition new_project :: "usage_event \<Rightarrow> string \<Rightarrow> project_acc" where
  "new_project e hash =
     \<lparr>pa_project_hash = Some hash, pa_project_path = ep_project_path (ue_project e), pa_agent = Some (ue_agent e),
      pa_first_seen_at_ms = ue_timestamp_ms e, pa_last_seen_at_ms = ue_timestamp_ms e, pa_total_tokens = 0,
      pa_total_cost_usd = None, pa_event_count = 0, pa_sessions = []\<rparr>"

definition add_project :: "agg_lib \<Rightarrow> usage_event \<Rightarrow> project_acc \<Rightarrow> project_acc" where
  "add_project l e a =
     a\<lparr>pa_project_path := (if pa_project_path a = None \<and> ep_project_path (ue_project e) \<noteq> None
                           then ep_project_path (ue_project e) else pa_project_path a),
       pa_first_seen_at_ms := (if ue_timestamp_ms e < pa_first_seen_at_ms a then ue_timestamp_ms e else pa_first_seen_at_ms a),
       pa_last_seen_at_ms := (if pa_last_seen_at_ms a < ue_timestamp_ms e then ue_timestamp_ms e else pa_last_seen_at_ms a),
       pa_total_tokens := pa_total_tokens a + et_total_tokens (ue_tokens e),
       pa_total_cost_usd := merge_cost (al_fadd l) (pa_total_cost_usd a) (ec_cost_usd (ue_cost e)),
       pa_event_count := pa_event_count a + 1,
       pa_sessions := push_new (Some (ue_session_id e)) (pa_sessions a)\<rparr>"

definition project_map :: "agg_lib \<Rightarrow> usage_event list \<Rightarrow> (string \<times> project_acc) list" where
  "project_map l events =
     fold (\<lambda>e m. let hash = unwrap_or [] (ep_project_hash (ue_project e)) in
                 if hash = [] then m else entry hash (new_project e hash) (add_project l e) m) events []"

record project_summary =
  pu_project_hash :: "string option"
  pu_project_path :: "string option"
  pu_total_tokens :: int
  pu_total_cost_usd :: "f64_bits option"
  pu_event_count :: int
  pu_session_count :: int

definition project_summary_of :: "project_acc \<Rightarrow> project_summary" where
  "project_summary_of a =
     \<lparr>pu_project_hash = pa_project_hash a, pu_project_path = pa_project_path a, pu_total_tokens = pa_total_tokens a,
      pu_total_cost_usd = pa_total_cost_usd a, pu_event_count = pa_event_count a,
      pu_session_count = int (length (pa_sessions a))\<rparr>"

section \<open>Models\<close>

definition new_model :: "string \<Rightarrow> model_acc" where
  "new_model m = \<lparr>ma_model = Some m, ma_total_tokens = 0, ma_total_cost_usd = None, ma_event_count = 0\<rparr>"

definition add_model :: "agg_lib \<Rightarrow> usage_event \<Rightarrow> model_acc \<Rightarrow> model_acc" where
  "add_model l e a =
     a\<lparr>ma_total_tokens := ma_total_tokens a + et_total_tokens (ue_tokens e),
       ma_total_cost_usd := merge_cost (al_fadd l) (ma_total_cost_usd a) (ec_cost_usd (ue_cost e)),
       ma_event_count := ma_event_count a + 1\<rparr>"

definition model_map :: "agg_lib \<Rightarrow> usage_event list \<Rightarrow> (string \<times> model_acc) list" where
  "model_map l events =
     fold (\<lambda>e m. if event_model_name e = [] then m
                 else entry (event_model_name e) (new_model (event_model_name e)) (add_model l e) m) events []"

record model_summary =
  mu_model :: "string option"
  mu_total_tokens :: int
  mu_total_cost_usd :: "f64_bits option"
  mu_event_count :: int

definition model_summary_of :: "model_acc \<Rightarrow> model_summary" where
  "model_summary_of a =
     \<lparr>mu_model = ma_model a, mu_total_tokens = ma_total_tokens a, mu_total_cost_usd = ma_total_cost_usd a,
      mu_event_count = ma_event_count a\<rparr>"

section \<open>Full rebuilds and conversion to rows\<close>

record session_table_row =
  st_id :: string
  st_agent :: string
  st_project_hash :: "string option"
  st_started_at_ms :: int
  st_last_seen_at_ms :: int
  st_model_list_json :: string
  st_total_tokens :: int
  st_total_cost_usd :: "f64_bits option"
  st_event_count :: int
  st_is_active :: int
  st_created_at_ms :: int
  st_updated_at_ms :: int

record project_table_row =
  pt_id :: string
  pt_project_hash :: string
  pt_project_path :: "string option"
  pt_agent :: "string option"
  pt_display_name :: "string option"
  pt_first_seen_at_ms :: int
  pt_last_seen_at_ms :: int
  pt_total_tokens :: int
  pt_total_cost_usd :: "f64_bits option"
  pt_session_count :: int
  pt_created_at_ms :: int
  pt_updated_at_ms :: int

record model_table_row =
  mt_model :: string
  mt_total_tokens :: int
  mt_total_cost_usd :: "f64_bits option"
  mt_event_count :: int

text \<open>The rebuilds have loops of their own over the events.\<close>

definition rebuilt_new_session :: "usage_event \<Rightarrow> session_acc" where
  "rebuilt_new_session e =
     \<lparr>sa_id = ue_session_id e, sa_agent = Some (ue_agent e), sa_project_hash = ep_project_hash (ue_project e),
      sa_started_at_ms = ue_timestamp_ms e, sa_last_seen_at_ms = ue_timestamp_ms e, sa_models = [],
      sa_total_tokens = 0, sa_total_cost_usd = None, sa_event_count = 0\<rparr>"

definition rebuilt_add_session :: "agg_lib \<Rightarrow> usage_event \<Rightarrow> session_acc \<Rightarrow> session_acc" where
  "rebuilt_add_session l e a =
     (let a = (if ue_timestamp_ms e < sa_started_at_ms a then a\<lparr>sa_started_at_ms := ue_timestamp_ms e\<rparr> else a);
          a = (if ue_timestamp_ms e > sa_last_seen_at_ms a then a\<lparr>sa_last_seen_at_ms := ue_timestamp_ms e\<rparr> else a);
          a = (case em_model (ue_model e) of
                 None \<Rightarrow> a
               | Some m \<Rightarrow> if m \<noteq> [] \<and> m \<notin> set (sa_models a) then a\<lparr>sa_models := sa_models a @ [m]\<rparr> else a)
      in a\<lparr>sa_total_tokens := sa_total_tokens a + et_total_tokens (ue_tokens e),
           sa_total_cost_usd := merge_cost (al_fadd l) (sa_total_cost_usd a) (ec_cost_usd (ue_cost e)),
           sa_event_count := sa_event_count a + 1\<rparr>)"

definition rebuilt_session_map :: "agg_lib \<Rightarrow> usage_event list \<Rightarrow> (string \<times> session_acc) list" where
  "rebuilt_session_map l events =
     fold (\<lambda>e m. if ue_session_id e = [] then m
                 else entry (ue_session_id e) (rebuilt_new_session e) (rebuilt_add_session l e) m) events []"

definition rebuilt_new_project :: "usage_event \<Rightarrow> string \<Rightarrow> project_acc" where
  "rebuilt_new_project e hash =
     \<lparr>pa_project_hash = Some hash, pa_project_path = ep_project_path (ue_project e), pa_agent = Some (ue_agent e),
      pa_first_seen_at_ms = ue_timestamp_ms e, pa_last_seen_at_ms = ue_timestamp_ms e, pa_total_tokens = 0,
      pa_total_cost_usd = None, pa_event_count = 0, pa_sessions = []\<rparr>"

definition rebuilt_add_project :: "agg_lib \<Rightarrow> usage_event \<Rightarrow> project_acc \<Rightarrow> project_acc" where
  "rebuilt_add_project l e a =
     (let a = (if pa_project_path a = None \<and> ep_project_path (ue_project e) \<noteq> None
               then a\<lparr>pa_project_path := ep_project_path (ue_project e)\<rparr> else a);
          a = (if ue_timestamp_ms e < pa_first_seen_at_ms a then a\<lparr>pa_first_seen_at_ms := ue_timestamp_ms e\<rparr> else a);
          a = (if ue_timestamp_ms e > pa_last_seen_at_ms a then a\<lparr>pa_last_seen_at_ms := ue_timestamp_ms e\<rparr> else a);
          a = a\<lparr>pa_total_tokens := pa_total_tokens a + et_total_tokens (ue_tokens e),
                pa_total_cost_usd := merge_cost (al_fadd l) (pa_total_cost_usd a) (ec_cost_usd (ue_cost e)),
                pa_event_count := pa_event_count a + 1\<rparr>
      in if ue_session_id e \<noteq> [] \<and> ue_session_id e \<notin> set (pa_sessions a)
         then a\<lparr>pa_sessions := pa_sessions a @ [ue_session_id e]\<rparr> else a)"

definition rebuilt_project_map :: "agg_lib \<Rightarrow> usage_event list \<Rightarrow> (string \<times> project_acc) list" where
  "rebuilt_project_map l events =
     fold (\<lambda>e m. let hash = unwrap_or [] (ep_project_hash (ue_project e)) in
                 if hash = [] then m else entry hash (rebuilt_new_project e hash) (rebuilt_add_project l e) m) events []"

definition rebuilt_new_model :: "string \<Rightarrow> model_acc" where
  "rebuilt_new_model m = \<lparr>ma_model = Some m, ma_total_tokens = 0, ma_total_cost_usd = None, ma_event_count = 0\<rparr>"

definition rebuilt_add_model :: "agg_lib \<Rightarrow> usage_event \<Rightarrow> model_acc \<Rightarrow> model_acc" where
  "rebuilt_add_model l e a =
     a\<lparr>ma_total_tokens := ma_total_tokens a + et_total_tokens (ue_tokens e),
       ma_total_cost_usd := merge_cost (al_fadd l) (ma_total_cost_usd a) (ec_cost_usd (ue_cost e)),
       ma_event_count := ma_event_count a + 1\<rparr>"

definition rebuilt_model_map :: "agg_lib \<Rightarrow> usage_event list \<Rightarrow> (string \<times> model_acc) list" where
  "rebuilt_model_map l events =
     fold (\<lambda>e m. let model = event_model_name e in
                 if model = [] then m else entry model (rebuilt_new_model model) (rebuilt_add_model l e) m) events []"

definition agent_name :: "agent_kind option \<Rightarrow> string" where
  "agent_name a = unwrap_or [] (map_option agent_str a)"

definition rebuild_sessions :: "agg_lib \<Rightarrow> int \<Rightarrow> usage_event list \<Rightarrow> session_table_row list" where
  "rebuild_sessions l now events =
     map (\<lambda>(_, a). \<lparr>st_id = sa_id a, st_agent = agent_name (sa_agent a), st_project_hash = sa_project_hash a,
                    st_started_at_ms = sa_started_at_ms a, st_last_seen_at_ms = sa_last_seen_at_ms a,
                    st_model_list_json = unwrap_or ''[]'' (al_json_list l (sa_models a)), st_total_tokens = sa_total_tokens a,
                    st_total_cost_usd = sa_total_cost_usd a, st_event_count = sa_event_count a, st_is_active = 0,
                    st_created_at_ms = now, st_updated_at_ms = now\<rparr>)
       (al_rebuilt_session_order l (rebuilt_session_map l events))"

text \<open>The last component of the path, trailing slashes removed.\<close>

definition display_name :: "string option \<Rightarrow> string option" where
  "display_name path = map_option (\<lambda>p. last (split_on CHR ''/'' (trim_end_char CHR ''/'' p))) path"

definition rebuild_projects :: "agg_lib \<Rightarrow> int \<Rightarrow> usage_event list \<Rightarrow> project_table_row list" where
  "rebuild_projects l now events =
     map (\<lambda>(_, a). let hash = unwrap_or [] (pa_project_hash a) in
            \<lparr>pt_id = hash, pt_project_hash = hash, pt_project_path = pa_project_path a,
             pt_agent = map_option agent_str (pa_agent a), pt_display_name = display_name (pa_project_path a),
             pt_first_seen_at_ms = pa_first_seen_at_ms a, pt_last_seen_at_ms = pa_last_seen_at_ms a,
             pt_total_tokens = pa_total_tokens a, pt_total_cost_usd = pa_total_cost_usd a,
             pt_session_count = int (length (pa_sessions a)), pt_created_at_ms = now, pt_updated_at_ms = now\<rparr>)
       (al_rebuilt_project_order l (rebuilt_project_map l events))"

definition rebuild_model_summaries :: "agg_lib \<Rightarrow> usage_event list \<Rightarrow> model_table_row list" where
  "rebuild_model_summaries l events =
     map (\<lambda>(_, a). \<lparr>mt_model = unwrap_or [] (ma_model a), mt_total_tokens = ma_total_tokens a,
                    mt_total_cost_usd = ma_total_cost_usd a, mt_event_count = ma_event_count a\<rparr>)
       (al_rebuilt_model_order l (rebuilt_model_map l events))"

definition session_rollups_to_rows :: "int \<Rightarrow> session_summary list \<Rightarrow> session_table_row list" where
  "session_rollups_to_rows now =
     map (\<lambda>s. \<lparr>st_id = su_id s, st_agent = (case su_agent s of Some a \<Rightarrow> agent_str a | None \<Rightarrow> []), st_project_hash = su_project_hash s,
               st_started_at_ms = su_started_at_ms s, st_last_seen_at_ms = su_last_seen_at_ms s,
               st_model_list_json = unwrap_or ''[]'' (su_model_list_json s), st_total_tokens = su_total_tokens s,
               st_total_cost_usd = su_total_cost_usd s, st_event_count = su_event_count s, st_is_active = 0,
               st_created_at_ms = now, st_updated_at_ms = now\<rparr>)"

text \<open>The conversion derives the display name in a closure of its own.\<close>

definition rollup_display_name :: "string option \<Rightarrow> string option" where
  "rollup_display_name path =
     (case path of None \<Rightarrow> None | Some p \<Rightarrow> Some (last (split_on CHR ''/'' (trim_end_char CHR ''/'' p))))"

definition project_rollups_to_rows :: "int \<Rightarrow> project_summary list \<Rightarrow> project_table_row list" where
  "project_rollups_to_rows now =
     map (\<lambda>p. let hash = unwrap_or [] (pu_project_hash p) in
            \<lparr>pt_id = hash, pt_project_hash = hash, pt_project_path = pu_project_path p, pt_agent = None,
             pt_display_name = rollup_display_name (pu_project_path p), pt_first_seen_at_ms = 0, pt_last_seen_at_ms = 0,
             pt_total_tokens = pu_total_tokens p, pt_total_cost_usd = pu_total_cost_usd p,
             pt_session_count = pu_session_count p, pt_created_at_ms = now, pt_updated_at_ms = now\<rparr>)"

definition model_rollups_to_rows :: "model_summary list \<Rightarrow> model_table_row list" where
  "model_rollups_to_rows =
     map (\<lambda>m. \<lparr>mt_model = unwrap_or [] (mu_model m), mt_total_tokens = mu_total_tokens m,
               mt_total_cost_usd = mu_total_cost_usd m, mt_event_count = mu_event_count m\<rparr>)"

section \<open>The maps\<close>

lemma daily_map_step:
  "map (daily_usage_row tz g)
     (entry (date, agent_str (ue_agent e), unwrap_or [] (ep_project_hash (ue_project e)), event_model_name e)
        daily_acc_default (add_daily l e) m)
   = upsert_row dr_key (merge_daily (al_fadd l)) (daily_row_of tz g date e) (map (daily_usage_row tz g) m)"
proof (rule entry_upsert[where code = "\<lambda>(date, agent, hash, model). (date, tz_canonical_name tz, agent, hash, model, g)"])
  show "inj (\<lambda>(date, agent, hash, model). (date, tz_canonical_name tz, agent, hash, model, g))"
    by (auto simp: inj_def)
qed (auto simp: daily_usage_row_def daily_row_of_def add_daily_def daily_acc_default_def merge_daily_def
    merge_cost_def tokens_laws split: option.splits)

lemma daily_map_upsert:
  "map_option (map (daily_usage_row tz g)) (daily_map l tz es m)
   = (case upsert_daily_usage_for_events (al_fadd l) es tz g (map (daily_usage_row tz g) m) of
        Inl e \<Rightarrow> None | Inr rows \<Rightarrow> Some rows)"
  by (induction es arbitrary: m) (auto simp: daily_map_step split: option.split)

text \<open>An entry is the fold of its events over what the first of them inserted.\<close>

lemma map_of_entry: "map_of (entry k d f m) k' = (if k' = k then Some (f (case map_of m k of None \<Rightarrow> d | Some v \<Rightarrow> v)) else map_of m k')"
  by (induction k d f m rule: entry.induct) auto

definition entry_value :: "('e \<Rightarrow> 'v) \<Rightarrow> ('e \<Rightarrow> 'v \<Rightarrow> 'v) \<Rightarrow> 'v option \<Rightarrow> 'e list \<Rightarrow> 'v option" where
  "entry_value d f v es =
     (case v of
        Some v \<Rightarrow> Some (fold f es v)
      | None \<Rightarrow> (case es of [] \<Rightarrow> None | e # _ \<Rightarrow> Some (fold f es (d e))))"

lemma entry_value_Some:
  "entry_value d f None xs = Some v \<longleftrightarrow> (\<exists>e es. xs = e # es \<and> v = fold f (e # es) (d e))"
  by (cases xs) (auto simp: entry_value_def)

lemma entry_value_None: "entry_value d f None xs = None \<longleftrightarrow> xs = []"
  by (cases xs) (auto simp: entry_value_def)

lemma fold_entries:
  assumes "\<And>e m. step e m = (if key e = [] then m else entry (key e) (d e) (f e) m)"
  shows "map_of (fold step es []) k = (if k = [] then None else entry_value d f None (filter (\<lambda>e. key e = k) es))"
    and "distinct (map fst (fold step es []))"
proof -
  have "map_of (fold step es m) k = (if k = [] then map_of m k else entry_value d f (map_of m k) (filter (\<lambda>e. key e = k) es))" for m
    by (induction es arbitrary: m) (auto simp: assms entry_value_def map_of_entry split: option.splits list.splits)
  then show "map_of (fold step es []) k = (if k = [] then None else entry_value d f None (filter (\<lambda>e. key e = k) es))"
    by simp
  have "distinct (map fst m) \<Longrightarrow> distinct (map fst (fold step es m))" for m
    by (induction es arbitrary: m) (simp_all add: assms entry_distinct)
  then show "distinct (map fst (fold step es []))" by simp
qed

definition project_key :: "usage_event \<Rightarrow> string" where
  "project_key e = unwrap_or [] (ep_project_hash (ue_project e))"

lemma session_map_entries:
  "map_of (session_map l events) k
   = (if k = [] then None else entry_value new_session (add_session l) None (filter (\<lambda>e. ue_session_id e = k) events))"
  "distinct (map fst (session_map l events))"
  unfolding session_map_def
  by (rule fold_entries[where key = ue_session_id and d = new_session and f = "add_session l"], rule refl)+

lemma project_map_entries:
  "map_of (project_map l events) k
   = (if k = [] then None
      else entry_value (\<lambda>e. new_project e (project_key e)) (add_project l) None (filter (\<lambda>e. project_key e = k) events))"
  "distinct (map fst (project_map l events))"
  unfolding project_map_def
  by (rule fold_entries[where key = project_key and d = "\<lambda>e. new_project e (project_key e)" and f = "add_project l"],
      simp add: project_key_def Let_def)+

lemma model_map_entries:
  "map_of (model_map l events) k
   = (if k = [] then None
      else entry_value (\<lambda>e. new_model (event_model_name e)) (add_model l) None (filter (\<lambda>e. event_model_name e = k) events))"
  "distinct (map fst (model_map l events))"
  unfolding model_map_def
  by (rule fold_entries[where key = event_model_name and d = "\<lambda>e. new_model (event_model_name e)" and f = "add_model l"],
      rule refl)+

text \<open>What the accumulators hold after their events.\<close>

lemma fold_session:
  "sa_id (fold (add_session l) es a) = sa_id a"
  "sa_total_tokens (fold (add_session l) es a) = sa_total_tokens a + sum_list (map (\<lambda>e. et_total_tokens (ue_tokens e)) es)"
  "sa_event_count (fold (add_session l) es a) = sa_event_count a + int (length es)"
  "sa_started_at_ms (fold (add_session l) es a) = fold min (map ue_timestamp_ms es) (sa_started_at_ms a)"
  "sa_last_seen_at_ms (fold (add_session l) es a) = fold max (map ue_timestamp_ms es) (sa_last_seen_at_ms a)"
  "set (sa_models (fold (add_session l) es a)) = set (sa_models a) \<union> ({m. \<exists>e \<in> set es. em_model (ue_model e) = Some m} - {[]})"
proof (induction es arbitrary: a)
  case (Cons e es)
  have step: "sa_started_at_ms (add_session l e b) = min (ue_timestamp_ms e) (sa_started_at_ms b)"
    "sa_last_seen_at_ms (add_session l e b) = max (ue_timestamp_ms e) (sa_last_seen_at_ms b)"
    "set (sa_models (add_session l e b)) = set (sa_models b) \<union> ({m. em_model (ue_model e) = Some m} - {[]})"
    "sa_id (add_session l e b) = sa_id b"
    "sa_total_tokens (add_session l e b) = sa_total_tokens b + et_total_tokens (ue_tokens e)"
    "sa_event_count (add_session l e b) = sa_event_count b + 1" for b
    by (auto simp: add_session_def push_new_def split: option.splits)
  { case 1 then show ?case by (simp add: Cons.IH step) }
  { case 2 then show ?case by (simp add: Cons.IH step) }
  { case 3 then show ?case by (simp add: Cons.IH step) }
  { case 4 then show ?case by (simp add: Cons.IH step) }
  { case 5 then show ?case by (simp add: Cons.IH step) }
  { case 6 then show ?case by (auto simp: Cons.IH step) }
qed simp_all

lemma fold_project:
  "pa_project_hash (fold (add_project l) es a) = pa_project_hash a"
  "pa_total_tokens (fold (add_project l) es a) = pa_total_tokens a + sum_list (map (\<lambda>e. et_total_tokens (ue_tokens e)) es)"
  "set (pa_sessions (fold (add_project l) es a)) = set (pa_sessions a) \<union> (ue_session_id ` set es - {[]})"
  "distinct (pa_sessions a) \<Longrightarrow> distinct (pa_sessions (fold (add_project l) es a))"
proof (induction es arbitrary: a)
  case (Cons e es)
  have step: "pa_project_hash (add_project l e b) = pa_project_hash b"
    "pa_total_tokens (add_project l e b) = pa_total_tokens b + et_total_tokens (ue_tokens e)"
    "set (pa_sessions (add_project l e b)) = set (pa_sessions b) \<union> ({ue_session_id e} - {[]})"
    "distinct (pa_sessions b) \<Longrightarrow> distinct (pa_sessions (add_project l e b))" for b
    by (auto simp: add_project_def push_new_def)
  { case 1 then show ?case by (simp add: Cons.IH step) }
  { case 2 then show ?case by (simp add: Cons.IH step) }
  { case 3 then show ?case by (auto simp: Cons.IH step) }
  { case 4 then show ?case by (simp add: Cons.IH step) }
qed simp_all

lemma fold_model:
  "ma_model (fold (add_model l) es a) = ma_model a"
  "ma_total_tokens (fold (add_model l) es a) = ma_total_tokens a + sum_list (map (\<lambda>e. et_total_tokens (ue_tokens e)) es)"
  "ma_event_count (fold (add_model l) es a) = ma_event_count a + int (length es)"
  by (induction es arbitrary: a) (simp_all add: add_model_def)

text \<open>The events of a key, and the entry they make.\<close>

lemma session_entry:
  assumes "(k, a) \<in> set (session_map l events)"
  obtains e es where "k \<noteq> []" "filter (\<lambda>e. ue_session_id e = k) events = e # es" "a = fold (add_session l) (e # es) (new_session e)"
proof -
  have "map_of (session_map l events) k = Some a"
    using assms session_map_entries(2) by simp
  then show thesis using that by (cases "k = []") (auto simp only: session_map_entries(1) entry_value_Some if_True if_False simp_thms option.distinct)
qed

lemma project_entry:
  assumes "(k, a) \<in> set (project_map l events)"
  obtains e es where "k \<noteq> []" "filter (\<lambda>e. project_key e = k) events = e # es"
    "a = fold (add_project l) (e # es) (new_project e k)"
proof -
  have "map_of (project_map l events) k = Some a"
    using assms project_map_entries(2) by simp
  then obtain e es where es: "k \<noteq> []" "filter (\<lambda>e. project_key e = k) events = e # es"
      "a = fold (add_project l) (e # es) (new_project e (project_key e))"
    by (cases "k = []") (auto simp only: project_map_entries(1) entry_value_Some if_True if_False simp_thms option.distinct)
  then have "e \<in> set (filter (\<lambda>e. project_key e = k) events)" by simp
  then have "project_key e = k" by simp
  with es show thesis by (intro that) simp_all
qed

lemma model_entry:
  assumes "(k, a) \<in> set (model_map l events)"
  obtains e es where "k \<noteq> []" "filter (\<lambda>e. event_model_name e = k) events = e # es"
    "a = fold (add_model l) (e # es) (new_model k)"
proof -
  have "map_of (model_map l events) k = Some a"
    using assms model_map_entries(2) by simp
  then obtain e es where es: "k \<noteq> []" "filter (\<lambda>e. event_model_name e = k) events = e # es"
      "a = fold (add_model l) (e # es) (new_model (event_model_name e))"
    by (cases "k = []") (auto simp only: model_map_entries(1) entry_value_Some if_True if_False simp_thms option.distinct)
  then have "e \<in> set (filter (\<lambda>e. event_model_name e = k) events)" by simp
  then have "event_model_name e = k" by simp
  with es show thesis by (intro that) simp_all
qed

lemma map_keys:
  "fst ` set (session_map l events) = ue_session_id ` set events - {[]}"
  "fst ` set (project_map l events) = project_key ` set events - {[]}"
  "fst ` set (model_map l events) = event_model_name ` set events - {[]}"
proof -
  have keys: "k \<in> fst ` set m \<longleftrightarrow> map_of m k \<noteq> None" for m :: "(string \<times> 'v) list" and k
    by (simp add: map_of_eq_None_iff)
  show "fst ` set (session_map l events) = ue_session_id ` set events - {[]}"
    by (rule set_eqI) (auto simp only: keys session_map_entries(1) entry_value_None filter_empty_conv split: if_splits)
  show "fst ` set (project_map l events) = project_key ` set events - {[]}"
    by (rule set_eqI) (auto simp only: keys project_map_entries(1) entry_value_None filter_empty_conv split: if_splits)
  show "fst ` set (model_map l events) = event_model_name ` set events - {[]}"
    by (rule set_eqI) (auto simp only: keys model_map_entries(1) entry_value_None filter_empty_conv split: if_splits)
qed

text \<open>The loops of the rebuilds build the same maps.\<close>

lemma rebuilt_steps:
  "rebuilt_new_session = new_session" "rebuilt_add_session = add_session"
  "rebuilt_new_project = new_project" "rebuilt_add_project = add_project"
  "rebuilt_new_model = new_model" "rebuilt_add_model = add_model"
  by (auto simp: fun_eq_iff rebuilt_new_session_def new_session_def rebuilt_add_session_def add_session_def push_new_def
      rebuilt_new_project_def new_project_def rebuilt_add_project_def add_project_def rebuilt_new_model_def new_model_def
      rebuilt_add_model_def add_model_def Let_def split: option.split)

lemma rebuilt_maps:
  "rebuilt_session_map = session_map" "rebuilt_project_map = project_map" "rebuilt_model_map = model_map"
  by (intro ext; simp only: rebuilt_session_map_def session_map_def rebuilt_project_map_def project_map_def
      rebuilt_model_map_def model_map_def rebuilt_steps Let_def)+

section \<open>The properties\<close>

definition tokens_where :: "(usage_event \<Rightarrow> bool) \<Rightarrow> usage_event list \<Rightarrow> int" where
  "tokens_where P events = sum_list (map (\<lambda>e. et_total_tokens (ue_tokens e)) (filter P events))"

definition orders_permute :: "agg_lib \<Rightarrow> bool" where
  "orders_permute l \<longleftrightarrow>
     (\<forall>m. mset (al_daily_order l m) = mset m) \<and> (\<forall>m. mset (al_session_order l m) = mset m)
     \<and> (\<forall>m. mset (al_project_order l m) = mset m) \<and> (\<forall>m. mset (al_model_order l m) = mset m)
     \<and> (\<forall>m. mset (al_rebuilt_session_order l m) = mset m) \<and> (\<forall>m. mset (al_rebuilt_project_order l m) = mset m)
     \<and> (\<forall>m. mset (al_rebuilt_model_order l m) = mset m)"

lemma orders_permuteD:
  assumes "orders_permute l"
  shows "set (al_rebuilt_session_order l ms) = set ms" "set (al_rebuilt_project_order l mp) = set mp"
    "set (al_rebuilt_model_order l mm) = set mm" "distinct (map fst (al_rebuilt_session_order l ms)) = distinct (map fst ms)"
    "distinct (map fst (al_rebuilt_project_order l mp)) = distinct (map fst mp)"
    "distinct (map fst (al_rebuilt_model_order l mm)) = distinct (map fst mm)"
proof -
  have *: "set xs = set ys" "distinct (map fst xs) = distinct (map fst ys)" if "mset xs = mset ys" for xs ys :: "(string \<times> 'v) list"
    using that mset_eq_imp_distinct_iff[of "map fst xs" "map fst ys"] by (auto dest: mset_eq_setD simp: mset_map)
  show "set (al_rebuilt_session_order l ms) = set ms" "set (al_rebuilt_project_order l mp) = set mp"
    "set (al_rebuilt_model_order l mm) = set mm" "distinct (map fst (al_rebuilt_session_order l ms)) = distinct (map fst ms)"
    "distinct (map fst (al_rebuilt_project_order l mp)) = distinct (map fst mp)"
    "distinct (map fst (al_rebuilt_model_order l mm)) = distinct (map fst mm)"
    using assms by (auto simp only: orders_permute_def intro!: *)
qed

lemma rebuilt_keys:
  "map st_id (rebuild_sessions l now events) = map (sa_id \<circ> snd) (al_rebuilt_session_order l (session_map l events))"
  "map pt_id (rebuild_projects l now events) = map (\<lambda>x. unwrap_or [] (pa_project_hash (snd x))) (al_rebuilt_project_order l (project_map l events))"
  "map mt_model (rebuild_model_summaries l events) = map (\<lambda>x. unwrap_or [] (ma_model (snd x))) (al_rebuilt_model_order l (model_map l events))"
  by (auto simp: rebuild_sessions_def rebuild_projects_def rebuild_model_summaries_def rebuilt_maps Let_def case_prod_unfold)

lemma entry_names:
  "(k, a) \<in> set (session_map l events) \<Longrightarrow> sa_id a = k"
  "(k, b) \<in> set (project_map l events) \<Longrightarrow> pa_project_hash b = Some k"
  "(k, c) \<in> set (model_map l events) \<Longrightarrow> ma_model c = Some k"
proof -
  show "sa_id a = k" if "(k, a) \<in> set (session_map l events)"
  proof -
    from that obtain e es where es: "filter (\<lambda>e. ue_session_id e = k) events = e # es"
        "a = fold (add_session l) (e # es) (new_session e)" by (rule session_entry)
    then have "e \<in> set (filter (\<lambda>e. ue_session_id e = k) events)" by simp
    with es(2) show ?thesis by (simp only: fold_session(1)) (simp add: new_session_def)
  qed
  show "pa_project_hash b = Some k" if "(k, b) \<in> set (project_map l events)"
    using that by (rule project_entry) (simp only: fold_project(1), simp add: new_project_def)
  show "ma_model c = Some k" if "(k, c) \<in> set (model_map l events)"
    using that by (rule model_entry) (simp only: fold_model(1), simp add: new_model_def)
qed

lemma rebuilt_names:
  assumes "orders_permute l"
  shows "map st_id (rebuild_sessions l now events) = map fst (al_rebuilt_session_order l (session_map l events))"
    and "map pt_id (rebuild_projects l now events) = map fst (al_rebuilt_project_order l (project_map l events))"
    and "map mt_model (rebuild_model_summaries l events) = map fst (al_rebuilt_model_order l (model_map l events))"
  unfolding rebuilt_keys
  by (auto intro!: map_cong simp: orders_permuteD[OF assms] entry_names)

text \<open>
  A full rebuild has exactly one row per session, project and model that occurs in the events, the
  empty name excepted, and each row is exact: its tokens and number of events are those of the events
  with that name, a session spans from its first to its last event, a project counts its sessions.
\<close>

theorem rebuilt_summaries_exact:
  assumes "orders_permute l"
  shows "let ss = rebuild_sessions l now events; ps = rebuild_projects l now events; ms = rebuild_model_summaries l events
     in distinct (map st_id ss) \<and> set (map st_id ss) = ue_session_id ` set events - {[]}
      \<and> list_all (\<lambda>r. let mine = filter (\<lambda>e. ue_session_id e = st_id r) events in
            st_total_tokens r = tokens_where (\<lambda>e. ue_session_id e = st_id r) events
            \<and> st_event_count r = int (length mine)
            \<and> st_started_at_ms r = Min (ue_timestamp_ms ` set mine)
            \<and> st_last_seen_at_ms r = Max (ue_timestamp_ms ` set mine)) ss
      \<and> distinct (map pt_id ps) \<and> set (map pt_id ps) = project_key ` set events - {[]}
      \<and> list_all (\<lambda>r. pt_total_tokens r = tokens_where (\<lambda>e. project_key e = pt_id r) events
            \<and> pt_session_count r = int (card (ue_session_id ` set (filter (\<lambda>e. project_key e = pt_id r) events) - {[]}))) ps
      \<and> distinct (map mt_model ms) \<and> set (map mt_model ms) = event_model_name ` set events - {[]}
      \<and> list_all (\<lambda>r. mt_total_tokens r = tokens_where (\<lambda>e. event_model_name e = mt_model r) events) ms"
proof -
  note perm = orders_permuteD[OF assms] and names = rebuilt_names[OF assms]
  have keys: "distinct (map st_id (rebuild_sessions l now events))" "distinct (map pt_id (rebuild_projects l now events))"
    "distinct (map mt_model (rebuild_model_summaries l events))"
    "set (map st_id (rebuild_sessions l now events)) = ue_session_id ` set events - {[]}"
    "set (map pt_id (rebuild_projects l now events)) = project_key ` set events - {[]}"
    "set (map mt_model (rebuild_model_summaries l events)) = event_model_name ` set events - {[]}"
    unfolding names set_map by (simp_all add: perm session_map_entries(2) project_map_entries(2) model_map_entries(2) map_keys)
  have session: "sa_total_tokens a = tokens_where (\<lambda>e. ue_session_id e = k) events
      \<and> sa_event_count a = int (length (filter (\<lambda>e. ue_session_id e = k) events))
      \<and> sa_started_at_ms a = Min (ue_timestamp_ms ` set (filter (\<lambda>e. ue_session_id e = k) events))
      \<and> sa_last_seen_at_ms a = Max (ue_timestamp_ms ` set (filter (\<lambda>e. ue_session_id e = k) events))"
    if "(k, a) \<in> set (session_map l events)" for k a
  proof -
    from that obtain e es where es: "filter (\<lambda>e. ue_session_id e = k) events = e # es"
        "a = fold (add_session l) (e # es) (new_session e)" by (rule session_entry)
    have "Min (ue_timestamp_ms ` set (e # es)) = fold min (map ue_timestamp_ms es) (ue_timestamp_ms e)"
      "Max (ue_timestamp_ms ` set (e # es)) = fold max (map ue_timestamp_ms es) (ue_timestamp_ms e)"
      using Min.set_eq_fold[of "ue_timestamp_ms e" "map ue_timestamp_ms es"]
        Max.set_eq_fold[of "ue_timestamp_ms e" "map ue_timestamp_ms es"] by simp_all
    then show ?thesis
      unfolding es(2) fold_session tokens_where_def es(1) by (simp add: new_session_def)
  qed
  have project: "pa_total_tokens a = tokens_where (\<lambda>e. project_key e = k) events
      \<and> length (pa_sessions a) = card (ue_session_id ` set (filter (\<lambda>e. project_key e = k) events) - {[]})"
    if "(k, a) \<in> set (project_map l events)" for k a
  proof -
    from that obtain e es where es: "filter (\<lambda>e. project_key e = k) events = e # es"
        "a = fold (add_project l) (e # es) (new_project e k)" by (rule project_entry)
    have "distinct (pa_sessions a)" "set (pa_sessions a) = ue_session_id ` set (e # es) - {[]}"
      unfolding es(2) by (rule fold_project(4), simp add: new_project_def) (simp only: fold_project(3), simp add: new_project_def)
    then have "length (pa_sessions a) = card (ue_session_id ` set (e # es) - {[]})"
      by (metis distinct_card)
    then show ?thesis
      unfolding es(1) tokens_where_def by (simp only: es(2) fold_project(2)) (simp add: new_project_def)
  qed
  have model: "ma_total_tokens a = tokens_where (\<lambda>e. event_model_name e = k) events" if "(k, a) \<in> set (model_map l events)" for k a
  proof -
    from that obtain e es where es: "filter (\<lambda>e. event_model_name e = k) events = e # es"
        "a = fold (add_model l) (e # es) (new_model k)" by (rule model_entry)
    then show ?thesis unfolding tokens_where_def es(1) by (simp only: es(2) fold_model(2)) (simp add: new_model_def)
  qed
  have "list_all (\<lambda>r. let mine = filter (\<lambda>e. ue_session_id e = st_id r) events in
            st_total_tokens r = tokens_where (\<lambda>e. ue_session_id e = st_id r) events
            \<and> st_event_count r = int (length mine)
            \<and> st_started_at_ms r = Min (ue_timestamp_ms ` set mine)
            \<and> st_last_seen_at_ms r = Max (ue_timestamp_ms ` set mine)) (rebuild_sessions l now events)"
    unfolding rebuild_sessions_def rebuilt_maps list.pred_map
    by (auto simp: list_all_iff perm Let_def session entry_names(1))
  moreover have "list_all (\<lambda>r. pt_total_tokens r = tokens_where (\<lambda>e. project_key e = pt_id r) events
            \<and> pt_session_count r = int (card (ue_session_id ` set (filter (\<lambda>e. project_key e = pt_id r) events) - {[]})))
      (rebuild_projects l now events)"
    unfolding rebuild_projects_def rebuilt_maps list.pred_map
    by (auto simp: list_all_iff perm Let_def project entry_names(2))
  moreover have "list_all (\<lambda>r. mt_total_tokens r = tokens_where (\<lambda>e. event_model_name e = mt_model r) events)
      (rebuild_model_summaries l events)"
    unfolding rebuild_model_summaries_def rebuilt_maps list.pred_map
    by (auto simp: list_all_iff perm Let_def model entry_names(3))
  ultimately show ?thesis
    unfolding Let_def using keys by simp
qed

section \<open>Witnesses\<close>

definition sample_agg :: agg_lib where
  "sample_agg =
     \<lparr>al_fadd = (+), al_json_list = (\<lambda>_. None), al_daily_order = rev, al_session_order = id, al_project_order = rev,
      al_model_order = id, al_rebuilt_session_order = rev, al_rebuilt_project_order = id, al_rebuilt_model_order = rev\<rparr>"

lemma sample_agg_orders: "orders_permute sample_agg"
  by (simp add: orders_permute_def sample_agg_def)

theorem rebuilt_summaries_exact_witness:
  "set (map mt_model (rebuild_model_summaries sample_agg [sample_event ''r1'', sample_event ''r2'']))
     = {event_model_name (sample_event ''r1''), event_model_name (sample_event ''r2'')} - {[]}"
  using rebuilt_summaries_exact[OF sample_agg_orders, of 0 "[sample_event ''r1'', sample_event ''r2'']"]
  by (simp add: Let_def)

end
