(* ===== verification/Billing_Blocks.thy ===== *)
theory Billing_Blocks
  imports Usage_Aggregates Usage_Store
begin

text \<open>
  Billing blocks of \<open>busytok-aggregator/src/blocks.rs\<close>: the events of an agent cut into windows of a
  few hours, with a gap block where nothing happened, and the burn rate of a block. Floating point
  operations and comparison are parameters.
\<close>

definition DEFAULT_SESSION_DURATION_HOURS :: int where "DEFAULT_SESSION_DURATION_HOURS = 5"

record billing_block =
  bb_id :: string
  bb_start_time_ms :: int
  bb_end_time_ms :: int
  bb_actual_end_time_ms :: "int option"
  bb_is_active :: bool
  bb_is_gap :: bool
  bb_input_tokens :: int
  bb_output_tokens :: int
  bb_total_tokens :: int
  bb_cached_input_tokens :: int
  bb_cache_creation_tokens :: int
  bb_cache_read_tokens :: int
  bb_cost_usd :: "f64_bits option"
  bb_estimated_cost_usd :: "f64_bits option"
  bb_models :: "string list"
  bb_event_count :: int
  bb_usage_limit_reset_time_ms :: "int option"
  bb_agent :: "string option"

definition floor_to_hour_ms :: "int \<Rightarrow> int" where
  "floor_to_hour_ms timestamp_ms = timestamp_ms - timestamp_ms smod 3600000"

text \<open>The loop over the entries of a block.\<close>

definition add_entry :: "(f64_bits \<Rightarrow> f64_bits \<Rightarrow> f64_bits) \<Rightarrow> usage_event \<Rightarrow> billing_block \<Rightarrow> billing_block" where
  "add_entry fadd e b =
     b\<lparr>bb_input_tokens := bb_input_tokens b + et_input_tokens (ue_tokens e),
       bb_output_tokens := bb_output_tokens b + et_output_tokens (ue_tokens e),
       bb_total_tokens := bb_total_tokens b + et_total_tokens (ue_tokens e),
       bb_cached_input_tokens := bb_cached_input_tokens b + et_cached_input_tokens (ue_tokens e),
       bb_cache_creation_tokens := bb_cache_creation_tokens b + et_cache_creation_tokens (ue_tokens e),
       bb_cache_read_tokens := bb_cache_read_tokens b + et_cache_read_tokens (ue_tokens e),
       bb_cost_usd := merge_cost fadd (bb_cost_usd b) (ec_cost_usd (ue_cost e)),
       bb_estimated_cost_usd := merge_cost fadd (bb_estimated_cost_usd b) (ec_estimated_cost_usd (ue_cost e)),
       bb_models := push_new (em_model (ue_model e)) (bb_models b),
       bb_usage_limit_reset_time_ms :=
         (case ue_usage_limit_reset_time_ms e of None \<Rightarrow> bb_usage_limit_reset_time_ms b | Some t \<Rightarrow> Some t)\<rparr>"

definition create_block ::
  "(f64_bits \<Rightarrow> f64_bits \<Rightarrow> f64_bits) \<Rightarrow> int \<Rightarrow> usage_event list \<Rightarrow> int \<Rightarrow> int \<Rightarrow> billing_block" where
  "create_block fadd start_ms entries now_ms duration_ms =
     (let end_ms = start_ms + duration_ms; actual_end = ue_timestamp_ms (last entries)
      in fold (add_entry fadd) entries
           \<lparr>bb_id = ''block_'' @ show_int start_ms, bb_start_time_ms = start_ms, bb_end_time_ms = end_ms,
            bb_actual_end_time_ms = Some actual_end,
            bb_is_active = (now_ms - actual_end < duration_ms \<and> now_ms < end_ms), bb_is_gap = False,
            bb_input_tokens = 0, bb_output_tokens = 0, bb_total_tokens = 0, bb_cached_input_tokens = 0,
            bb_cache_creation_tokens = 0, bb_cache_read_tokens = 0, bb_cost_usd = None, bb_estimated_cost_usd = None,
            bb_models = [], bb_event_count = int (length entries), bb_usage_limit_reset_time_ms = None,
            bb_agent = (case entries of [] \<Rightarrow> None | e # _ \<Rightarrow> Some (agent_str (ue_agent e)))\<rparr>)"

definition create_gap_block :: "int \<Rightarrow> int \<Rightarrow> int \<Rightarrow> billing_block option" where
  "create_gap_block last_time_ms next_time_ms duration_ms =
     (if next_time_ms - last_time_ms \<le> duration_ms then None
      else let gap_start = last_time_ms + duration_ms
           in Some \<lparr>bb_id = ''gap_'' @ show_int gap_start, bb_start_time_ms = gap_start, bb_end_time_ms = next_time_ms,
                    bb_actual_end_time_ms = None, bb_is_active = False, bb_is_gap = True, bb_input_tokens = 0,
                    bb_output_tokens = 0, bb_total_tokens = 0, bb_cached_input_tokens = 0,
                    bb_cache_creation_tokens = 0, bb_cache_read_tokens = 0, bb_cost_usd = None,
                    bb_estimated_cost_usd = None, bb_models = [], bb_event_count = 0,
                    bb_usage_limit_reset_time_ms = None, bb_agent = None\<rparr>)"

text \<open>
  The loop over the sorted events: the blocks so far, and the start and entries of the open block.
\<close>

fun block_loop ::
  "(f64_bits \<Rightarrow> f64_bits \<Rightarrow> f64_bits) \<Rightarrow> int \<Rightarrow> int \<Rightarrow> usage_event list
   \<Rightarrow> billing_block list \<Rightarrow> (int \<times> usage_event list) option \<Rightarrow> billing_block list \<times> (int \<times> usage_event list) option" where
  "block_loop fadd dur now [] blocks cur = (blocks, cur)"
| "block_loop fadd dur now (e # es) blocks cur =
     (case cur of
        None \<Rightarrow> block_loop fadd dur now es blocks (Some (floor_to_hour_ms (ue_timestamp_ms e), [e]))
      | Some (start, entries) \<Rightarrow>
          (let time_since_start = ue_timestamp_ms e - start;
               last_time = ue_timestamp_ms (last entries);
               time_since_last = ue_timestamp_ms e - last_time
           in if dur < time_since_start \<or> dur < time_since_last
              then block_loop fadd dur now es
                     (blocks @ [create_block fadd start entries now dur]
                      @ (if dur < time_since_last
                         then (case create_gap_block last_time (ue_timestamp_ms e) dur of None \<Rightarrow> [] | Some g \<Rightarrow> [g])
                         else []))
                     (Some (floor_to_hour_ms (ue_timestamp_ms e), [e]))
              else block_loop fadd dur now es blocks (Some (start, entries @ [e]))))"

definition identify_session_blocks ::
  "(f64_bits \<Rightarrow> f64_bits \<Rightarrow> f64_bits) \<Rightarrow> int \<Rightarrow> usage_event list \<Rightarrow> int \<Rightarrow> billing_block list" where
  "identify_session_blocks fadd now events session_duration_hours =
     (if events = [] then []
      else let dur = session_duration_hours * 60 * 60 * 1000;
               sorted = sort_by (\<lambda>a b. ue_timestamp_ms a \<le> ue_timestamp_ms b) events;
               (blocks, cur) = block_loop fadd dur now sorted [] None
           in blocks @ (case cur of
                          None \<Rightarrow> []
                        | Some (start, entries) \<Rightarrow>
                            if entries = [] then [] else [create_block fadd start entries now dur]))"

section \<open>Burn rate\<close>

datatype burn_status = Burn_Normal | Burn_Moderate | Burn_High

record burn_rate =
  br_tokens_per_minute :: f64_bits
  br_cost_per_hour :: "f64_bits option"
  br_status :: burn_status

text \<open>Conversion from integers, division, multiplication and comparison of doubles.\<close>

record float_lib =
  fl_of_int :: "int \<Rightarrow> f64_bits"
  fl_div :: "f64_bits \<Rightarrow> f64_bits \<Rightarrow> f64_bits"
  fl_mul :: "f64_bits \<Rightarrow> f64_bits \<Rightarrow> f64_bits"
  fl_less :: "f64_bits \<Rightarrow> f64_bits \<Rightarrow> bool"

definition calculate_burn_rate :: "float_lib \<Rightarrow> billing_block \<Rightarrow> burn_rate option" where
  "calculate_burn_rate f b =
     (case bb_actual_end_time_ms b of
        None \<Rightarrow> None
      | Some actual_end \<Rightarrow>
          (if bb_is_gap b \<or> bb_event_count b = 0 then None
           else let duration_ms = actual_end - bb_start_time_ms b
                in if duration_ms \<le> 0 then None
                   else let duration_min = fl_div f (fl_of_int f duration_ms) (fl_of_int f 60000);
                            indicator_tpm = fl_div f (fl_of_int f (bb_input_tokens b + bb_output_tokens b)) duration_min
                        in Some \<lparr>br_tokens_per_minute = fl_div f (fl_of_int f (bb_total_tokens b)) duration_min,
                                 br_cost_per_hour =
                                   map_option (\<lambda>c. fl_mul f (fl_div f c duration_min) (fl_of_int f 60)) (bb_cost_usd b),
                                 br_status = (if fl_less f indicator_tpm (fl_of_int f 2000) then Burn_Normal
                                              else if fl_less f indicator_tpm (fl_of_int f 5000) then Burn_Moderate
                                              else Burn_High)\<rparr>))"

section \<open>Blocks as a partition\<close>

text \<open>
  The reading of the result: the sorted events cut into segments, a block per segment, and a gap
  where two segments are more than the duration apart.
\<close>

definition block_of :: "(f64_bits \<Rightarrow> f64_bits \<Rightarrow> f64_bits) \<Rightarrow> int \<Rightarrow> int \<Rightarrow> usage_event list \<Rightarrow> billing_block" where
  "block_of fadd dur now seg = create_block fadd (floor_to_hour_ms (ue_timestamp_ms (hd seg))) seg now dur"

definition gap_between :: "int \<Rightarrow> usage_event list \<Rightarrow> usage_event list \<Rightarrow> billing_block list" where
  "gap_between dur s s' =
     (case create_gap_block (ue_timestamp_ms (last s)) (ue_timestamp_ms (hd s')) dur of None \<Rightarrow> [] | Some g \<Rightarrow> [g])"

fun blocks_of_segments ::
  "(f64_bits \<Rightarrow> f64_bits \<Rightarrow> f64_bits) \<Rightarrow> int \<Rightarrow> int \<Rightarrow> usage_event list list \<Rightarrow> billing_block list" where
  "blocks_of_segments fadd dur now [] = []"
| "blocks_of_segments fadd dur now [s] = [block_of fadd dur now s]"
| "blocks_of_segments fadd dur now (s # s' # ss) =
     block_of fadd dur now s # gap_between dur s s' @ blocks_of_segments fadd dur now (s' # ss)"

text \<open>A segment stays within its window, without a pause; the next one starts where that ends.\<close>

definition segment_ok :: "int \<Rightarrow> usage_event list \<Rightarrow> bool" where
  "segment_ok dur s =
     (s \<noteq> [] \<and> successively (\<lambda>a b. ue_timestamp_ms b - ue_timestamp_ms a \<le> dur) s
      \<and> list_all (\<lambda>e. ue_timestamp_ms e - floor_to_hour_ms (ue_timestamp_ms (hd s)) \<le> dur) (tl s))"

definition segment_cut :: "int \<Rightarrow> usage_event list \<Rightarrow> usage_event list \<Rightarrow> bool" where
  "segment_cut dur s s' =
     (dur < ue_timestamp_ms (hd s') - floor_to_hour_ms (ue_timestamp_ms (hd s))
      \<or> dur < ue_timestamp_ms (hd s') - ue_timestamp_ms (last s))"

lemma segment_ok_single: "segment_ok dur [e]"
  by (simp add: segment_ok_def)

lemma segment_ok_snoc:
  assumes "segment_ok dur s" "ue_timestamp_ms e - floor_to_hour_ms (ue_timestamp_ms (hd s)) \<le> dur"
    "ue_timestamp_ms e - ue_timestamp_ms (last s) \<le> dur"
  shows "segment_ok dur (s @ [e])"
proof -
  have "successively (\<lambda>a b. ue_timestamp_ms b - ue_timestamp_ms a \<le> dur) (s @ [e])"
    using assms by (simp add: successively_append_iff segment_ok_def)
  then show ?thesis using assms(1,2) by (cases s) (auto simp: segment_ok_def)
qed

lemma block_loop_segments:
  assumes "segment_ok dur s"
  shows "\<exists>segs bs. fst (block_loop fadd dur now es blocks (Some (floor_to_hour_ms (ue_timestamp_ms (hd s)), s))) = blocks @ bs
      \<and> snd (block_loop fadd dur now es blocks (Some (floor_to_hour_ms (ue_timestamp_ms (hd s)), s)))
        = Some (floor_to_hour_ms (ue_timestamp_ms (hd (last segs))), last segs)
      \<and> bs @ [block_of fadd dur now (last segs)] = blocks_of_segments fadd dur now segs
      \<and> concat segs = s @ es \<and> segs \<noteq> [] \<and> hd (hd segs) = hd s
      \<and> list_all (segment_ok dur) segs \<and> successively (segment_cut dur) segs"
  using assms
proof (induction es arbitrary: blocks s)
  case Nil
  then show ?case by (intro exI[of _ "[s]"] exI[of _ "[]"]) simp
next
  case (Cons e es)
  let ?start = "floor_to_hour_ms (ue_timestamp_ms (hd s))"
  show ?case
  proof (cases "dur < ue_timestamp_ms e - ?start \<or> dur < ue_timestamp_ms e - ue_timestamp_ms (last s)")
    case True
    let ?closed = "blocks @ [block_of fadd dur now s] @ gap_between dur s [e]"
    have step: "block_loop fadd dur now (e # es) blocks (Some (?start, s))
        = block_loop fadd dur now es ?closed (Some (floor_to_hour_ms (ue_timestamp_ms (hd [e])), [e]))"
      using True by (auto simp: Let_def block_of_def gap_between_def create_gap_block_def)
    obtain segs bs where ih:
      "fst (block_loop fadd dur now es ?closed (Some (floor_to_hour_ms (ue_timestamp_ms (hd [e])), [e]))) = ?closed @ bs"
      "snd (block_loop fadd dur now es ?closed (Some (floor_to_hour_ms (ue_timestamp_ms (hd [e])), [e])))
        = Some (floor_to_hour_ms (ue_timestamp_ms (hd (last segs))), last segs)"
      "bs @ [block_of fadd dur now (last segs)] = blocks_of_segments fadd dur now segs"
      "concat segs = [e] @ es" "segs \<noteq> []" "hd (hd segs) = e" "list_all (segment_ok dur) segs"
      "successively (segment_cut dur) segs"
      using Cons.IH[OF segment_ok_single[of dur e], of ?closed] by auto
    obtain s' ss where segs: "segs = s' # ss" using ih(5) by (cases segs) auto
    have gap: "gap_between dur s s' = gap_between dur s [e]"
      using ih(6) segs by (simp add: gap_between_def)
    have "segment_cut dur s s'" using True ih(6) segs by (auto simp: segment_cut_def)
    with ih segs Cons.prems gap show ?thesis
      unfolding step by (intro exI[of _ "s # segs"] exI[of _ "block_of fadd dur now s # gap_between dur s [e] @ bs"]) simp
  next
    case False
    then have ok: "segment_ok dur (s @ [e])" using Cons.prems by (intro segment_ok_snoc) auto
    have "hd (s @ [e]) = hd s" using Cons.prems by (cases s) (auto simp: segment_ok_def)
    moreover have "block_loop fadd dur now (e # es) blocks (Some (?start, s))
        = block_loop fadd dur now es blocks (Some (?start, s @ [e]))"
      using False by (simp add: Let_def)
    ultimately show ?thesis using Cons.IH[OF ok, of blocks] by auto
  qed
qed

lemma identify_segments:
  "\<exists>segs. identify_session_blocks fadd now events h = blocks_of_segments fadd (h * 60 * 60 * 1000) now segs
      \<and> concat segs = sort_by (\<lambda>a b. ue_timestamp_ms a \<le> ue_timestamp_ms b) events
      \<and> list_all (segment_ok (h * 60 * 60 * 1000)) segs \<and> successively (segment_cut (h * 60 * 60 * 1000)) segs"
proof (cases "sort_by (\<lambda>a b. ue_timestamp_ms a \<le> ue_timestamp_ms b) events")
  case Nil
  then have "events = []" by (metis length_sort_by length_0_conv)
  then show ?thesis by (intro exI[of _ "[]"]) (simp add: identify_session_blocks_def)
next
  case (Cons e es)
  let ?dur = "h * 60 * 60 * 1000"
  have "events \<noteq> []" using Cons by auto
  from block_loop_segments[OF segment_ok_single[of ?dur e], of fadd now es "[]"] obtain segs bs where
    "block_loop fadd ?dur now es [] (Some (floor_to_hour_ms (ue_timestamp_ms e), [e]))
       = (bs, Some (floor_to_hour_ms (ue_timestamp_ms (hd (last segs))), last segs))"
    "bs @ [block_of fadd ?dur now (last segs)] = blocks_of_segments fadd ?dur now segs"
    "concat segs = e # es" "segs \<noteq> []" "list_all (segment_ok ?dur) segs" "successively (segment_cut ?dur) segs"
    by (auto simp: prod_eq_iff)
  moreover from this(4,5) have "last segs \<noteq> []" by (auto simp: list_all_iff segment_ok_def)
  ultimately show ?thesis
    using Cons \<open>events \<noteq> []\<close> by (auto simp: identify_session_blocks_def Let_def block_of_def)
qed

section \<open>The properties\<close>

lemma floor_to_hour: "0 \<le> t \<Longrightarrow> floor_to_hour_ms t = t - t mod 3600000"
  by (cases "t = 0") (simp_all add: floor_to_hour_ms_def signed_modulo_int_def)

lemma fold_add_entry:
  "bb_total_tokens (fold (add_entry fadd) es b) = bb_total_tokens b + sum_list (map (\<lambda>e. et_total_tokens (ue_tokens e)) es)"
  "bb_input_tokens (fold (add_entry fadd) es b) = bb_input_tokens b + sum_list (map (\<lambda>e. et_input_tokens (ue_tokens e)) es)"
  "bb_output_tokens (fold (add_entry fadd) es b) = bb_output_tokens b + sum_list (map (\<lambda>e. et_output_tokens (ue_tokens e)) es)"
  "bb_event_count (fold (add_entry fadd) es b) = bb_event_count b"
  "bb_start_time_ms (fold (add_entry fadd) es b) = bb_start_time_ms b"
  "bb_end_time_ms (fold (add_entry fadd) es b) = bb_end_time_ms b"
  "bb_is_gap (fold (add_entry fadd) es b) = bb_is_gap b"
  by (induction es arbitrary: b) (simp_all add: add_entry_def)

lemma block_of_fields:
  "bb_total_tokens (block_of fadd dur now s) = sum_list (map (\<lambda>e. et_total_tokens (ue_tokens e)) s)"
  "bb_event_count (block_of fadd dur now s) = int (length s)"
  "bb_start_time_ms (block_of fadd dur now s) = floor_to_hour_ms (ue_timestamp_ms (hd s))"
  "bb_end_time_ms (block_of fadd dur now s) = floor_to_hour_ms (ue_timestamp_ms (hd s)) + dur"
  "\<not> bb_is_gap (block_of fadd dur now s)"
  by (simp_all add: block_of_def create_block_def Let_def fold_add_entry)

lemma gap_between_fields:
  assumes "b \<in> set (gap_between dur s s')"
  shows "bb_is_gap b" "bb_total_tokens b = 0" "bb_event_count b = 0"
    "bb_start_time_ms b = ue_timestamp_ms (last s) + dur" "bb_end_time_ms b = ue_timestamp_ms (hd s')"
  using assms by (auto simp: gap_between_def create_gap_block_def Let_def split: if_splits)

lemma gap_between_sums:
  "sum_list (map bb_total_tokens (gap_between dur s s')) = 0" "sum_list (map bb_event_count (gap_between dur s s')) = 0"
  by (auto simp: gap_between_def create_gap_block_def Let_def)

lemma blocks_of_segments_sums:
  "sum_list (map bb_total_tokens (blocks_of_segments fadd dur now segs))
     = sum_list (map (\<lambda>e. et_total_tokens (ue_tokens e)) (concat segs))"
  "sum_list (map bb_event_count (blocks_of_segments fadd dur now segs)) = int (length (concat segs))"
  by (induction segs rule: induct_list012) (simp_all add: block_of_fields gap_between_sums)

lemma blocks_of_segments_filter:
  "filter (\<lambda>b. \<not> bb_is_gap b) (blocks_of_segments fadd dur now segs) = map (block_of fadd dur now) segs"
proof (induction segs rule: induct_list012)
  case (3 s s' ss)
  have "filter (\<lambda>b. \<not> bb_is_gap b) (gap_between dur s s') = []"
    by (auto simp: filter_empty_conv dest: gap_between_fields(1))
  with 3 show ?case by (simp add: block_of_fields)
qed (simp_all add: block_of_fields)

lemma sorted_events:
  "sorted_wrt (\<lambda>a b. ue_timestamp_ms a \<le> ue_timestamp_ms b) (sort_by (\<lambda>a b. ue_timestamp_ms a \<le> ue_timestamp_ms b) events)"
  by (rule sorted_sort_by) (auto intro: transpI totalpI reflpI)

text \<open>A gap lies between two segments, so nothing happened in it.\<close>

lemma gap_position:
  assumes "b \<in> set (blocks_of_segments fadd dur now segs)" "bb_is_gap b"
  shows "\<exists>xs ys. segs = xs @ ys \<and> xs \<noteq> [] \<and> ys \<noteq> [] \<and> bb_start_time_ms b = ue_timestamp_ms (last (last xs)) + dur
           \<and> bb_end_time_ms b = ue_timestamp_ms (hd (hd ys))"
  using assms
proof (induction segs rule: induct_list012)
  case (3 s s' ss)
  from "3.prems" block_of_fields(5) consider "b \<in> set (gap_between dur s s')" | "b \<in> set (blocks_of_segments fadd dur now (s' # ss))"
    by auto
  then show ?case
  proof cases
    case 1
    then show ?thesis by (intro exI[of _ "[s]"] exI[of _ "s' # ss"]) (simp add: gap_between_fields)
  next
    case 2
    with "3.IH" "3.prems"(2) obtain xs ys where "s' # ss = xs @ ys" "xs \<noteq> []" "ys \<noteq> []"
      "bb_start_time_ms b = ue_timestamp_ms (last (last xs)) + dur" "bb_end_time_ms b = ue_timestamp_ms (hd (hd ys))"
      by blast
    then show ?thesis by (intro exI[of _ "s # xs"] exI[of _ ys]) simp
  qed
qed (auto simp: block_of_fields)

lemma last_concat: "xs \<noteq> [] \<Longrightarrow> last xs \<noteq> [] \<Longrightarrow> last (concat xs) = last (last xs)"
  by (induction xs rule: rev_induct) auto

lemma sorted_ends:
  assumes "sorted_wrt (\<lambda>a b. ue_timestamp_ms a \<le> ue_timestamp_ms b) es" "e \<in> set es"
  shows "ue_timestamp_ms (hd es) \<le> ue_timestamp_ms e" "ue_timestamp_ms e \<le> ue_timestamp_ms (last es)"
proof -
  show "ue_timestamp_ms (hd es) \<le> ue_timestamp_ms e" using assms by (cases es) auto
  have "es \<noteq> []" using assms(2) by auto
  then obtain ys y where "es = ys @ [y]" by (metis append_butlast_last_id)
  then show "ue_timestamp_ms e \<le> ue_timestamp_ms (last es)" using assms by (auto simp: sorted_wrt_append)
qed

lemma gaps_empty:
  assumes "b \<in> set (blocks_of_segments fadd dur now segs)" "bb_is_gap b" "0 \<le> dur"
    and "sorted_wrt (\<lambda>a b. ue_timestamp_ms a \<le> ue_timestamp_ms b) (concat segs)" "list_all (segment_ok dur) segs"
    and "e \<in> set (concat segs)"
  shows "ue_timestamp_ms e \<le> bb_start_time_ms b \<or> bb_end_time_ms b \<le> ue_timestamp_ms e"
proof -
  obtain xs ys where xy: "segs = xs @ ys" "xs \<noteq> []" "ys \<noteq> []" "bb_start_time_ms b = ue_timestamp_ms (last (last xs)) + dur"
    "bb_end_time_ms b = ue_timestamp_ms (hd (hd ys))"
    using gap_position[OF assms(1,2)] by blast
  have ne: "last xs \<noteq> []" "hd ys \<noteq> []" using assms(5) xy(1-3) by (auto simp: list_all_iff segment_ok_def)
  then have ends: "last (concat xs) = last (last xs)" "hd (concat ys) = hd (hd ys)"
    using xy(2,3) by (simp_all add: last_concat hd_concat)
  have "sorted_wrt (\<lambda>a b. ue_timestamp_ms a \<le> ue_timestamp_ms b) (concat xs)"
    "sorted_wrt (\<lambda>a b. ue_timestamp_ms a \<le> ue_timestamp_ms b) (concat ys)"
    using assms(4) xy(1) by (simp_all add: sorted_wrt_append)
  note ends' = sorted_ends(2)[OF this(1), of e, unfolded ends(1)] sorted_ends(1)[OF this(2), of e, unfolded ends(2)]
  have "e \<in> set (concat xs) \<or> e \<in> set (concat ys)" using assms(6) xy(1) by simp
  then show ?thesis
    using ends' assms(3) unfolding xy(4,5) by linarith
qed

text \<open>
  The billing blocks are a partition of the usage. Whatever the order of the events, the blocks that
  are not gaps are the blocks of consecutive segments of the sorted events, each without a pause
  longer than the duration and within the duration of its start, cut only where one of the two is
  exceeded; so their tokens and event counts sum to those of the events.
\<close>

theorem blocks_partition_usage:
  "let dur = h * 60 * 60 * 1000; bs = identify_session_blocks fadd now events h
   in sum_list (map bb_total_tokens bs) = sum_list (map (\<lambda>e. et_total_tokens (ue_tokens e)) events)
      \<and> sum_list (map bb_event_count bs) = int (length events)
      \<and> (\<exists>segs. concat segs = sort_by (\<lambda>a b. ue_timestamp_ms a \<le> ue_timestamp_ms b) events
            \<and> filter (\<lambda>b. \<not> bb_is_gap b) bs = map (block_of fadd dur now) segs
            \<and> list_all (segment_ok dur) segs \<and> successively (segment_cut dur) segs)"
proof -
  let ?sorted = "sort_by (\<lambda>a b. ue_timestamp_ms a \<le> ue_timestamp_ms b) events"
  obtain segs where segs: "identify_session_blocks fadd now events h = blocks_of_segments fadd (h * 60 * 60 * 1000) now segs"
    "concat segs = ?sorted" "list_all (segment_ok (h * 60 * 60 * 1000)) segs" "successively (segment_cut (h * 60 * 60 * 1000)) segs"
    using identify_segments by blast
  have "sum_list (map (\<lambda>e. et_total_tokens (ue_tokens e)) ?sorted) = sum_list (map (\<lambda>e. et_total_tokens (ue_tokens e)) events)"
    by (simp add: sum_list_sort_by)
  then have sums: "sum_list (map bb_total_tokens (identify_session_blocks fadd now events h)) = sum_list (map (\<lambda>e. et_total_tokens (ue_tokens e)) events)"
    "sum_list (map bb_event_count (identify_session_blocks fadd now events h)) = int (length events)"
    unfolding segs(1) blocks_of_segments_sums segs(2) by simp_all
  have blocks: "filter (\<lambda>b. \<not> bb_is_gap b) (identify_session_blocks fadd now events h) = map (block_of fadd (h * 60 * 60 * 1000) now) segs"
    by (simp only: segs(1) blocks_of_segments_filter)
  show ?thesis
    unfolding Let_def by (intro conjI exI[of _ segs]) (fact sums blocks segs)+
qed

text \<open>
  A gap block is idle: no event lies strictly between its start and its end, and every gap starts a
  whole duration after the activity before it.
\<close>

theorem gap_blocks_idle:
  assumes "0 \<le> h" "b \<in> set (identify_session_blocks fadd now events h)" "bb_is_gap b" "e \<in> set events"
  shows "ue_timestamp_ms e \<le> bb_start_time_ms b \<or> bb_end_time_ms b \<le> ue_timestamp_ms e"
proof -
  obtain segs where segs: "identify_session_blocks fadd now events h = blocks_of_segments fadd (h * 60 * 60 * 1000) now segs"
    "concat segs = sort_by (\<lambda>a b. ue_timestamp_ms a \<le> ue_timestamp_ms b) events" "list_all (segment_ok (h * 60 * 60 * 1000)) segs"
    using identify_segments by blast
  show ?thesis
  proof (rule gaps_empty[of b fadd "h * 60 * 60 * 1000" now segs])
    show "b \<in> set (blocks_of_segments fadd (h * 60 * 60 * 1000) now segs)" using assms(2) by (simp only: segs(1))
    show "sorted_wrt (\<lambda>a b. ue_timestamp_ms a \<le> ue_timestamp_ms b) (concat segs)" by (simp only: segs(2) sorted_events)
    show "e \<in> set (concat segs)" using assms(4) by (simp only: segs(2) set_sort_by)
  qed (use assms(1,3) segs(3) in simp_all)
qed

section \<open>Witness\<close>

definition half_day_later :: usage_event where
  "half_day_later = (sample_event ''r2'')\<lparr>ue_timestamp_ms := 43200000\<rparr>"

theorem gap_blocks_idle_witness:
  "\<exists>b \<in> set (identify_session_blocks (+) 0 [half_day_later, sample_event ''r1''] 5).
     bb_is_gap b \<and> bb_start_time_ms b = 18000000 \<and> bb_end_time_ms b = 43200000
     \<and> (ue_timestamp_ms half_day_later \<le> 18000000 \<or> 43200000 \<le> ue_timestamp_ms half_day_later)"
proof -
  have times: "ue_timestamp_ms (sample_event ''r1'') = 0" "ue_timestamp_ms half_day_later = 43200000"
    by (simp_all add: sample_identity half_day_later_def)
  obtain g where g: "create_gap_block 0 43200000 18000000 = Some g" "bb_is_gap g" "bb_start_time_ms g = 18000000"
      "bb_end_time_ms g = 43200000"
    by (auto simp: create_gap_block_def Let_def)
  then have "g \<in> set (identify_session_blocks (+) 0 [half_day_later, sample_event ''r1''] 5)"
    by (simp add: identify_session_blocks_def times floor_to_hour Let_def)
  with g gap_blocks_idle[of 5 g "(+)" 0 "[half_day_later, sample_event ''r1'']" half_day_later] show ?thesis
    by auto
qed

end
