(* ===== verification/Realtime_Summary.thy ===== *)
theory Realtime_Summary
  imports Billing_Blocks
begin

text \<open>
  The dashboard summary: \<open>busytok-aggregator/src/summary.rs\<close>, the weekly usage of \<open>daily.rs\<close>, and
  \<open>build_full_realtime_summary\<close> of \<open>busytok-runtime/src/scan.rs\<close>, which joins them with the active
  billing blocks. The values are kept as records; their rendering as JSON is not modelled. Parsing of
  civil dates and their numbering by Julian days are parameters.
\<close>

section \<open>Weekly usage\<close>

record calendar =
  ca_parse :: "string \<Rightarrow> int option"
  ca_format :: "int \<Rightarrow> string option"

text \<open>Julian day zero is a Monday; weekdays are counted from Sunday.\<close>

definition days_from_sunday :: "int \<Rightarrow> int" where
  "days_from_sunday jd = (jd + 1) mod 7"

definition get_date_week :: "calendar \<Rightarrow> string \<Rightarrow> int \<Rightarrow> string option" where
  "get_date_week ca date_str start_num =
     (case ca_parse ca date_str of
        None \<Rightarrow> None
      | Some jd \<Rightarrow>
          (let days_back = (days_from_sunday jd - start_num + 7) mod 7
           in ca_format ca (jd - days_back)))"

text \<open>The week a date belongs to starts on the chosen day, at most six days earlier.\<close>

lemma get_date_week_start:
  assumes "get_date_week ca d start = Some w" "0 \<le> start" "start < 7"
  shows "\<exists>jd k. ca_parse ca d = Some jd \<and> ca_format ca (jd - k) = Some w \<and> 0 \<le> k \<and> k < 7
           \<and> days_from_sunday (jd - k) = start"
proof -
  obtain jd where jd: "ca_parse ca d = Some jd" "ca_format ca (jd - (days_from_sunday jd - start + 7) mod 7) = Some w"
    using assms(1) by (auto simp: get_date_week_def Let_def split: option.splits)
  have "days_from_sunday (jd - (days_from_sunday jd - start + 7) mod 7) = start"
  proof -
    define a where "a = jd + 1"
    have "(a - (a mod 7 - start + 7) mod 7) mod 7 = (a - (a mod 7 - start + 7)) mod 7"
      by (rule mod_diff_right_eq)
    also have "a - (a mod 7 - start + 7) = start + 7 * (a div 7 - 1)"
      by (simp add: algebra_simps minus_mod_eq_mult_div)
    finally show ?thesis using assms(2,3) by (simp add: days_from_sunday_def a_def algebra_simps)
  qed
  with jd show ?thesis by (intro exI[of _ jd] exI[of _ "(days_from_sunday jd - start + 7) mod 7"]) simp
qed

text \<open>The map by week, agent, project and model; the first date or week that fails ends the loop.\<close>

fun weekly_map ::
  "agg_lib \<Rightarrow> calendar \<Rightarrow> reporting_timezone \<Rightarrow> usage_event list
   \<Rightarrow> ((string \<times> string \<times> string \<times> string) \<times> daily_acc) list
   \<Rightarrow> ((string \<times> string \<times> string \<times> string) \<times> daily_acc) list option" where
  "weekly_map l ca tz [] m = Some m"
| "weekly_map l ca tz (e # es) m =
     (case Option.bind (tz_local_date tz (ue_timestamp_ms e)) (\<lambda>date. get_date_week ca date 0) of
        None \<Rightarrow> None
      | Some week \<Rightarrow>
          weekly_map l ca tz es
            (entry (week, agent_str (ue_agent e), unwrap_or [] (ep_project_hash (ue_project e)), event_model_name e)
               daily_acc_default (add_daily l e) m))"

record weekly_row =
  wr_week :: string
  wr_timezone :: string
  wr_agent :: string
  wr_project_hash :: string
  wr_model :: string
  wr_usage :: daily_acc

definition build_weekly_usage_value ::
  "agg_lib \<Rightarrow> calendar \<Rightarrow> usage_event list \<Rightarrow> reporting_timezone \<Rightarrow> weekly_row list option" where
  "build_weekly_usage_value l ca events tz =
     map_option (\<lambda>m. map (\<lambda>((week, agent, hash, model), a).
        \<lparr>wr_week = week, wr_timezone = tz_canonical_name tz, wr_agent = agent, wr_project_hash = hash,
         wr_model = model, wr_usage = a\<rparr>) (al_daily_order l m))
       (weekly_map l ca tz events [])"

section \<open>The realtime summary\<close>

record top_entry =
  tp_name :: string
  tp_total_tokens :: int
  tp_total_cost_usd :: "f64_bits option"

record last_event =
  le_id :: string
  le_agent :: string
  le_timestamp_ms :: int
  le_total_tokens :: int
  le_model :: "string option"
  le_cost_usd :: "f64_bits option"

record agent_aggregate =
  aa_event_count :: int
  aa_total_tokens :: int
  aa_last_seen_ms :: int

text \<open>The orders of iteration over the maps and the set of agents; \<open>0.0\<close>, and \<open>x > 0.0\<close>.\<close>

record summary_lib =
  ru_fadd :: "f64_bits \<Rightarrow> f64_bits \<Rightarrow> f64_bits"
  ru_fzero :: f64_bits
  ru_positive :: "f64_bits \<Rightarrow> bool"
  ru_name_order :: "(string \<times> int \<times> f64_bits option) list \<Rightarrow> (string \<times> int \<times> f64_bits option) list"
  ru_agent_order :: "string list \<Rightarrow> string list"
  ru_status_order :: "(string \<times> agent_aggregate) list \<Rightarrow> (string \<times> agent_aggregate) list"

record realtime_summary =
  rs_today_total_tokens :: int
  rs_today_total_cost_usd :: "f64_bits option"
  rs_active_agents :: "string list"
  rs_top_projects :: "top_entry list"
  rs_top_models :: "top_entry list"
  rs_active_sessions :: int
  rs_last_events :: "last_event list"
  rs_agent_status :: "(string \<times> agent_aggregate) list"

definition shown_cost :: "usage_event \<Rightarrow> f64_bits option" where
  "shown_cost e = (case ec_cost_usd (ue_cost e) of Some c \<Rightarrow> Some c | None \<Rightarrow> ec_estimated_cost_usd (ue_cost e))"

definition local_date_or_empty :: "reporting_timezone \<Rightarrow> int \<Rightarrow> string" where
  "local_date_or_empty tz t = unwrap_or [] (tz_local_date tz t)"

definition add_top :: "summary_lib \<Rightarrow> usage_event \<Rightarrow> int \<times> f64_bits option \<Rightarrow> int \<times> f64_bits option" where
  "add_top l e x = (fst x + et_total_tokens (ue_tokens e), merge_cost (ru_fadd l) (snd x) (shown_cost e))"

definition top_data :: "summary_lib \<Rightarrow> (usage_event \<Rightarrow> string) \<Rightarrow> usage_event list \<Rightarrow> (string \<times> int \<times> f64_bits option) list" where
  "top_data l name events =
     fold (\<lambda>e m. if name e = [] then m else entry (name e) (0, None) (add_top l e) m) events []"

definition top_ten :: "summary_lib \<Rightarrow> (usage_event \<Rightarrow> string) \<Rightarrow> usage_event list \<Rightarrow> top_entry list" where
  "top_ten l name events =
     map (\<lambda>(n, t, c). \<lparr>tp_name = n, tp_total_tokens = t, tp_total_cost_usd = c\<rparr>)
       (take 10 (sort_by (\<lambda>a b. fst (snd b) \<le> fst (snd a)) (ru_name_order l (top_data l name events))))"

definition add_agent :: "usage_event \<Rightarrow> agent_aggregate \<Rightarrow> agent_aggregate" where
  "add_agent e a =
     \<lparr>aa_event_count = aa_event_count a + 1, aa_total_tokens = aa_total_tokens a + et_total_tokens (ue_tokens e),
      aa_last_seen_ms = (if aa_last_seen_ms a < ue_timestamp_ms e then ue_timestamp_ms e else aa_last_seen_ms a)\<rparr>"

definition agent_data :: "usage_event list \<Rightarrow> (string \<times> agent_aggregate) list" where
  "agent_data events =
     fold (\<lambda>e. entry (agent_str (ue_agent e)) \<lparr>aa_event_count = 0, aa_total_tokens = 0, aa_last_seen_ms = 0\<rparr> (add_agent e))
       events []"

definition last_event_of :: "usage_event \<Rightarrow> last_event" where
  "last_event_of e =
     \<lparr>le_id = ue_id e, le_agent = agent_str (ue_agent e), le_timestamp_ms = ue_timestamp_ms e,
      le_total_tokens = et_total_tokens (ue_tokens e), le_model = em_model (ue_model e), le_cost_usd = shown_cost e\<rparr>"

definition build_realtime_summary ::
  "summary_lib \<Rightarrow> int \<Rightarrow> usage_event list \<Rightarrow> reporting_timezone \<Rightarrow> realtime_summary" where
  "build_realtime_summary l now events tz =
     (let today_date = local_date_or_empty tz now;
          today = filter (\<lambda>e. local_date_or_empty tz (ue_timestamp_ms e) = today_date) events;
          cost = fold (\<lambda>c s. ru_fadd l s c) (List.map_filter shown_cost today) (ru_fzero l)
      in \<lparr>rs_today_total_tokens = sum_list (map (\<lambda>e. et_total_tokens (ue_tokens e)) today),
          rs_today_total_cost_usd = (if ru_positive l cost then Some cost else None),
          rs_active_agents = ru_agent_order l (remdups (map (\<lambda>e. agent_str (ue_agent e)) events)),
          rs_top_projects = top_ten l project_key events,
          rs_top_models = top_ten l event_model_name events,
          rs_active_sessions = int (length (remdups (filter (\<lambda>s. s \<noteq> []) (map ue_session_id events)))),
          rs_last_events = map last_event_of
             (take 20 (sort_by (\<lambda>a b. ue_timestamp_ms b \<le> ue_timestamp_ms a) events)),
          rs_agent_status = ru_status_order l (agent_data events)\<rparr>)"

section \<open>The full summary\<close>

record context_info =
  ci_input_tokens :: int
  ci_output_tokens :: int
  ci_context_limit :: int

text \<open>A fresh context window, or the stored text of an earlier one.\<close>

datatype context_window = Fresh_Window context_info | Stored_Window string

record active_block =
  ab_block :: billing_block
  ab_burn_rate :: "burn_rate option"

record full_summary =
  fs_summary :: realtime_summary
  fs_active_blocks :: "active_block list"
  fs_context_window_info :: "context_window option"
  fs_weekly_usage :: "weekly_row list option"

text \<open>
  What the full summary reads of the database, when there is one: the stored summary, if it can be
  read, and all events, if they can. \<open>transcript\<close> is \<open>calculate_context_from_transcript\<close>, \<open>is_json\<close>
  whether a text parses.
\<close>

record summary_db =
  sd_realtime :: "(string \<times> string) list option"
  sd_all_events :: "usage_event list option"

definition first_some_of :: "('a \<Rightarrow> 'b option) \<Rightarrow> 'a list \<Rightarrow> 'b option" where
  "first_some_of f xs = (case List.map_filter f xs of [] \<Rightarrow> None | y # _ \<Rightarrow> Some y)"

definition build_full_realtime_summary ::
  "summary_lib \<Rightarrow> agg_lib \<Rightarrow> float_lib \<Rightarrow> calendar \<Rightarrow> (string \<Rightarrow> bool) \<Rightarrow> (string \<Rightarrow> context_info option)
   \<Rightarrow> int \<Rightarrow> usage_event list \<Rightarrow> reporting_timezone \<Rightarrow> summary_db option \<Rightarrow> string list \<Rightarrow> full_summary" where
  "build_full_realtime_summary l al f ca is_json transcript now events tz db paths =
     \<lparr>fs_summary = build_realtime_summary l now events tz,
      fs_active_blocks =
        map (\<lambda>b. \<lparr>ab_block = b, ab_burn_rate = calculate_burn_rate f b\<rparr>)
          (filter bb_is_active (identify_session_blocks (ru_fadd l) now events 5)),
      fs_context_window_info =
        (case first_some_of transcript paths of
           Some ci \<Rightarrow> Some (Fresh_Window ci)
         | None \<Rightarrow>
             (case Option.bind (Option.bind db sd_realtime) (\<lambda>m. map_of m ''context_window_info'') of
                None \<Rightarrow> None
              | Some json \<Rightarrow> if is_json json then Some (Stored_Window json) else None)),
      fs_weekly_usage =
        (case Option.bind (Option.bind db sd_all_events) (\<lambda>es. build_weekly_usage_value al ca es tz) of
           None \<Rightarrow> None
         | Some rows \<Rightarrow> if rows = [] then None else Some rows)\<rparr>"

section \<open>The properties\<close>

lemma fold_top: "fst (fold (add_top l) es x) = fst x + sum_list (map (\<lambda>e. et_total_tokens (ue_tokens e)) es)"
  by (induction es arbitrary: x) (simp_all add: add_top_def)

lemma top_data_entries:
  "(n, t, c) \<in> set (top_data l name events) \<Longrightarrow> n \<noteq> [] \<and> t = tokens_where (\<lambda>e. name e = n) events"
  "distinct (map fst (top_data l name events))"
  "fst ` set (top_data l name events) = name ` set events - {[]}"
proof -
  note * = fold_entries[where key = name and d = "\<lambda>_. (0, None)" and f = "add_top l"
      and step = "\<lambda>e m. if name e = [] then m else entry (name e) (0, None) (add_top l e) m", OF refl, folded top_data_def]
  show distinct: "distinct (map fst (top_data l name events))" by (rule *(2))
  show "n \<noteq> [] \<and> t = tokens_where (\<lambda>e. name e = n) events" if "(n, t, c) \<in> set (top_data l name events)"
  proof -
    from that distinct have lookup: "map_of (top_data l name events) n = Some (t, c)" by simp
    then have n: "n \<noteq> []" by (auto simp: *(1))
    with lookup obtain e es where "filter (\<lambda>e. name e = n) events = e # es"
        "(t, c) = fold (add_top l) (e # es) (0, None)"
      unfolding *(1) by (auto simp only: entry_value_Some if_False)
    with n fold_top[of l "e # es" "(0, None)"] show ?thesis unfolding tokens_where_def by (metis fst_conv add_0)
  qed
  have "k \<in> fst ` set (top_data l name events) \<longleftrightarrow> k \<in> name ` set events - {[]}" for k
  proof -
    have "k \<in> fst ` set (top_data l name events) \<longleftrightarrow> map_of (top_data l name events) k \<noteq> None"
      by (simp add: map_of_eq_None_iff)
    also have "\<dots> \<longleftrightarrow> k \<noteq> [] \<and> filter (\<lambda>e. name e = k) events \<noteq> []"
      unfolding *(1) by (cases "k = []") (simp_all only: entry_value_None if_True if_False simp_thms)
    finally show ?thesis by (auto simp: filter_empty_conv)
  qed
  then show "fst ` set (top_data l name events) = name ` set events - {[]}" by blast
qed

lemma top_ten_exact:
  assumes "\<And>m. mset (ru_name_order l m) = mset m"
  shows "list_all (\<lambda>x. tp_total_tokens x = tokens_where (\<lambda>e. name e = tp_name x) events) (top_ten l name events)"
    and "distinct (map tp_name (top_ten l name events))"
    and "sorted_wrt (\<ge>) (map tp_total_tokens (top_ten l name events))"
    and "length (top_ten l name events) = min 10 (card (name ` set events - {[]}))"
    and "e \<in> set events \<Longrightarrow> name e \<noteq> [] \<Longrightarrow> name e \<notin> tp_name ` set (top_ten l name events) \<Longrightarrow>
         x \<in> set (top_ten l name events) \<Longrightarrow> tokens_where (\<lambda>e'. name e' = name e) events \<le> tp_total_tokens x"
proof -
  let ?le = "\<lambda>a b. fst (snd b) \<le> fst (snd (a :: string \<times> int \<times> f64_bits option))"
  define rows where "rows = sort_by ?le (ru_name_order l (top_data l name events))"
  have mset: "mset rows = mset (top_data l name events)" by (simp add: rows_def assms)
  then have set: "set rows = set (top_data l name events)" by (rule mset_eq_setD)
  have distinct: "distinct (map fst rows)"
    using mset_eq_imp_distinct_iff[of "map fst rows" "map fst (top_data l name events)"] mset
    by (simp add: mset_map top_data_entries(2))
  have sorted: "sorted_wrt ?le rows"
    unfolding rows_def by (rule sorted_sort_by) (auto intro: transpI totalpI reflpI)
  have top: "top_ten l name events = map (\<lambda>(n, t, c). \<lparr>tp_name = n, tp_total_tokens = t, tp_total_cost_usd = c\<rparr>) (take 10 rows)"
    by (simp add: top_ten_def rows_def)
  have names: "map tp_name (top_ten l name events) = map fst (take 10 rows)" by (auto simp: top)
  show "list_all (\<lambda>x. tp_total_tokens x = tokens_where (\<lambda>e. name e = tp_name x) events) (top_ten l name events)"
    using top_data_entries(1) set by (fastforce simp: top list_all_iff dest!: in_set_takeD)
  show "distinct (map tp_name (top_ten l name events))"
    using distinct by (simp add: names flip: take_map)
  show "sorted_wrt (\<ge>) (map tp_total_tokens (top_ten l name events))"
    using sorted_wrt_take[OF sorted, of 10] by (simp add: top sorted_wrt_map case_prod_unfold)
  have "length rows = card (name ` set events - {[]})"
    using distinct_card[OF distinct] by (simp add: set top_data_entries(3))
  then show "length (top_ten l name events) = min 10 (card (name ` set events - {[]}))" by (simp add: top)
  show "tokens_where (\<lambda>e'. name e' = name e) events \<le> tp_total_tokens x"
    if e: "e \<in> set events" "name e \<noteq> []" "name e \<notin> tp_name ` set (top_ten l name events)"
      and x: "x \<in> set (top_ten l name events)"
  proof -
    from e(1,2) have "name e \<in> fst ` set rows" by (simp add: set top_data_entries(3))
    then obtain t c where r: "(name e, t, c) \<in> set rows" by auto
    have "tp_name ` set (top_ten l name events) = fst ` set (take 10 rows)"
      by (metis names list.set_map)
    with e(3) r have "(name e, t, c) \<notin> set (take 10 rows)" by force
    with r have "(name e, t, c) \<in> set (drop 10 rows)" by (metis Un_iff append_take_drop_id set_append)
    moreover from x obtain n t' c' where x': "(n, t', c') \<in> set (take 10 rows)" "tp_total_tokens x = t'"
      by (auto simp: top)
    moreover have "sorted_wrt ?le (take 10 rows @ drop 10 rows)" using sorted by simp
    ultimately have "t \<le> t'"
      unfolding sorted_wrt_append by (metis fst_conv snd_conv)
    moreover have "t = tokens_where (\<lambda>e'. name e' = name e) events"
      using top_data_entries(1) r set by blast
    ultimately show ?thesis using x'(2) by simp
  qed
qed

text \<open>
  The top lists are right: whatever the order of the hash map, each entry carries exactly the tokens of
  its project or model, no name is listed twice, the list is in descending order and has ten entries
  or all there are, and a name that is left out has no more tokens than any that is listed.
\<close>

theorem top_lists_exact:
  assumes "\<And>m. mset (ru_name_order l m) = mset m"
  shows "let s = build_realtime_summary l now events tz; ok = (\<lambda>name xs.
        list_all (\<lambda>x. tp_total_tokens x = tokens_where (\<lambda>e. name e = tp_name x) events) xs
        \<and> distinct (map tp_name xs) \<and> sorted_wrt (\<ge>) (map tp_total_tokens xs)
        \<and> length xs = min 10 (card (name ` set events - {[]}))
        \<and> list_all (\<lambda>e. name e = [] \<or> name e \<in> tp_name ` set xs
             \<or> list_all (\<lambda>x. tokens_where (\<lambda>e'. name e' = name e) events \<le> tp_total_tokens x) xs) events)
     in ok project_key (rs_top_projects s) \<and> ok event_model_name (rs_top_models s)"
  unfolding Let_def build_realtime_summary_def
  using top_ten_exact[OF assms] by (auto simp: list_all_iff)

section \<open>Witness\<close>

definition sample_summary_lib :: summary_lib where
  "sample_summary_lib =
     \<lparr>ru_fadd = (+), ru_fzero = 0, ru_positive = (\<lambda>_. False), ru_name_order = rev, ru_agent_order = id, ru_status_order = id\<rparr>"

theorem top_lists_exact_witness:
  "length (rs_top_models (build_realtime_summary sample_summary_lib 0 [sample_event ''r1'', sample_event ''r2'']
     \<lparr>tz_canonical_name = ''UTC'', tz_local_date = (\<lambda>_. Some ''1970-01-01'')\<rparr>))
   = min 10 (card ({event_model_name (sample_event ''r1''), event_model_name (sample_event ''r2'')} - {[]}))"
  using top_lists_exact[of sample_summary_lib 0 "[sample_event ''r1'', sample_event ''r2'']"
      "\<lparr>tz_canonical_name = ''UTC'', tz_local_date = (\<lambda>_. Some ''1970-01-01'')\<rparr>"]
  by (simp add: sample_summary_lib_def Let_def)

end
