(* ===== verification/Aggregate_Planner.thy ===== *)
theory Aggregate_Planner
  imports Realtime_Summary
begin

text \<open>
  \<open>build_scan_mutations\<close> of \<open>busytok-aggregator/src/mutations.rs\<close>: the five results that a scan derives
  from its events, from the maps of Usage_Aggregates and the summary of Realtime_Summary; and what
  they have to do with the writes of single events and with a full rebuild.
\<close>

section \<open>The planner\<close>

record scan_mutations =
  sm_daily_usage :: "daily_row list"
  sm_session_rollups :: "session_summary list"
  sm_project_rollups :: "project_summary list"
  sm_model_rollups :: "model_summary list"
  sm_realtime_summary :: realtime_summary

text \<open>The summary reads the clock on its own; \<open>build_realtime_summary\<close> never fails.\<close>

definition build_scan_mutations ::
  "agg_lib \<Rightarrow> summary_lib \<Rightarrow> int \<Rightarrow> usage_event list \<Rightarrow> reporting_timezone \<Rightarrow> string \<Rightarrow> scan_mutations option" where
  "build_scan_mutations l rl now events tz g =
     (case daily_map l tz events [] of
        None \<Rightarrow> None
      | Some m \<Rightarrow> Some
          \<lparr>sm_daily_usage = map (daily_usage_row tz g) (al_daily_order l m),
           sm_session_rollups = map (session_summary_of l \<circ> snd) (al_session_order l (session_map l events)),
           sm_project_rollups = map (project_summary_of \<circ> snd) (al_project_order l (project_map l events)),
           sm_model_rollups = map (model_summary_of \<circ> snd) (al_model_order l (model_map l events)),
           sm_realtime_summary = build_realtime_summary rl now events tz\<rparr>)"

section \<open>Rows of the plan and rows of a rebuild\<close>

lemma planned_sessions:
  assumes "orders_permute l"
  shows "mset (session_rollups_to_rows now (map (session_summary_of l \<circ> snd) (al_session_order l (session_map l events))))
     = mset (rebuild_sessions l now events)"
proof -
  let ?row = "\<lambda>x :: string \<times> session_acc. \<lparr>st_id = sa_id (snd x), st_agent = agent_name (sa_agent (snd x)),
      st_project_hash = sa_project_hash (snd x), st_started_at_ms = sa_started_at_ms (snd x),
      st_last_seen_at_ms = sa_last_seen_at_ms (snd x), st_model_list_json = model_list_json l (sa_models (snd x)),
      st_total_tokens = sa_total_tokens (snd x), st_total_cost_usd = sa_total_cost_usd (snd x),
      st_event_count = sa_event_count (snd x), st_is_active = 0, st_created_at_ms = now, st_updated_at_ms = now\<rparr>"
  have "session_rollups_to_rows now (map (session_summary_of l \<circ> snd) xs) = map ?row xs" for xs
    by (simp add: session_rollups_to_rows_def session_summary_of_def agent_name_def split: option.split)
  moreover have "rebuild_sessions l now events = map ?row (al_rebuilt_session_order l (session_map l events))"
    by (simp add: rebuild_sessions_def rebuilt_maps model_list_json_def case_prod_unfold)
  ultimately show ?thesis
    using assms by (simp add: orders_permute_def)
qed

lemma planned_projects:
  assumes "orders_permute l"
  shows "mset (project_rollups_to_rows now (map (project_summary_of \<circ> snd) (al_project_order l (project_map l events))))
     = mset (map (\<lambda>r. r\<lparr>pt_agent := None, pt_first_seen_at_ms := 0, pt_last_seen_at_ms := 0\<rparr>) (rebuild_projects l now events))"
proof -
  let ?row = "\<lambda>x :: string \<times> project_acc. \<lparr>pt_id = unwrap_or [] (pa_project_hash (snd x)),
      pt_project_hash = unwrap_or [] (pa_project_hash (snd x)), pt_project_path = pa_project_path (snd x), pt_agent = None,
      pt_display_name = display_name (pa_project_path (snd x)), pt_first_seen_at_ms = 0, pt_last_seen_at_ms = 0,
      pt_total_tokens = pa_total_tokens (snd x), pt_total_cost_usd = pa_total_cost_usd (snd x),
      pt_session_count = int (length (pa_sessions (snd x))), pt_created_at_ms = now, pt_updated_at_ms = now\<rparr>"
  have "project_rollups_to_rows now (map (project_summary_of \<circ> snd) xs) = map ?row xs" for xs
    by (simp add: project_rollups_to_rows_def project_summary_of_def rollup_display_name_def display_name_def Let_def
        split: option.split)
  moreover have "map (\<lambda>r. r\<lparr>pt_agent := None, pt_first_seen_at_ms := 0, pt_last_seen_at_ms := 0\<rparr>) (rebuild_projects l now events)
      = map ?row (al_rebuilt_project_order l (project_map l events))"
    by (simp add: rebuild_projects_def rebuilt_maps Let_def case_prod_unfold)
  ultimately show ?thesis
    using assms by (simp add: orders_permute_def)
qed

lemma planned_models:
  assumes "orders_permute l"
  shows "mset (model_rollups_to_rows (map (model_summary_of \<circ> snd) (al_model_order l (model_map l events))))
     = mset (rebuild_model_summaries l events)"
proof -
  let ?row = "\<lambda>x :: string \<times> model_acc. \<lparr>mt_model = unwrap_or [] (ma_model (snd x)),
      mt_total_tokens = ma_total_tokens (snd x), mt_total_cost_usd = ma_total_cost_usd (snd x), mt_event_count = ma_event_count (snd x)\<rparr>"
  have "model_rollups_to_rows (map (model_summary_of \<circ> snd) xs) = map ?row xs" for xs
    by (simp add: model_rollups_to_rows_def model_summary_of_def)
  moreover have "rebuild_model_summaries l events = map ?row (al_rebuilt_model_order l (model_map l events))"
    by (simp add: rebuild_model_summaries_def rebuilt_maps case_prod_unfold)
  ultimately show ?thesis
    using assms by (simp add: orders_permute_def)
qed

section \<open>The property\<close>

text \<open>
  C18. Three implementations of one aggregation agree. The planner fails exactly when the write of
  \<open>daily_usage\<close> event by event fails, on a date that cannot be computed; otherwise its daily rows are,
  as a bag, the table that the upserts of the single events make from an empty one, and its session
  and model rollups, turned into rows, are, as bags, the rows of the full rebuild, whose loops are
  separate code and whose hash maps may iterate in another order. The rows of projects agree but for the
  agent and the two times, which the plan leaves empty. The summary is the one of all the events.
\<close>

theorem planner_equals_increments:
  assumes "orders_permute l"
  shows "case build_scan_mutations l rl now events tz g of
      None \<Rightarrow> \<exists>e. upsert_daily_usage_for_events (al_fadd l) events tz g [] = Inl e
    | Some sm \<Rightarrow>
        (\<exists>rows. upsert_daily_usage_for_events (al_fadd l) events tz g [] = Inr rows \<and> mset (sm_daily_usage sm) = mset rows)
        \<and> mset (session_rollups_to_rows now (sm_session_rollups sm)) = mset (rebuild_sessions l now events)
        \<and> mset (model_rollups_to_rows (sm_model_rollups sm)) = mset (rebuild_model_summaries l events)
        \<and> mset (project_rollups_to_rows now (sm_project_rollups sm))
            = mset (map (\<lambda>r. r\<lparr>pt_agent := None, pt_first_seen_at_ms := 0, pt_last_seen_at_ms := 0\<rparr>) (rebuild_projects l now events))
        \<and> sm_realtime_summary sm = build_realtime_summary rl now events tz"
proof (cases "daily_map l tz events []")
  case None
  then show ?thesis
    using daily_map_upsert[of tz g l events "[]"] by (auto simp: build_scan_mutations_def split: sum.splits)
next
  case (Some m)
  then obtain rows where rows: "upsert_daily_usage_for_events (al_fadd l) events tz g [] = Inr rows"
      "map (daily_usage_row tz g) m = rows"
    using daily_map_upsert[of tz g l events "[]"] by (auto split: sum.splits)
  have "mset (map (daily_usage_row tz g) (al_daily_order l m)) = mset rows"
    using assms by (simp add: orders_permute_def flip: rows(2))
  then show ?thesis
    using Some rows(1)
    by (simp add: build_scan_mutations_def planned_sessions planned_projects planned_models assms)
qed

theorem planner_equals_increments_witness:
  "case build_scan_mutations sample_agg sample_summary_lib 5 [sample_event ''r1''] \<lparr>tz_canonical_name = ''UTC'', tz_local_date = (\<lambda>_. Some ''1970-01-01'')\<rparr> ''g'' of
      None \<Rightarrow> False
    | Some sm \<Rightarrow> mset (session_rollups_to_rows 5 (sm_session_rollups sm)) = mset (rebuild_sessions sample_agg 5 [sample_event ''r1''])"
proof -
  have "build_scan_mutations sample_agg sample_summary_lib 5 [sample_event ''r1'']
      \<lparr>tz_canonical_name = ''UTC'', tz_local_date = (\<lambda>_. Some ''1970-01-01'')\<rparr> ''g'' \<noteq> None"
    by (simp add: build_scan_mutations_def)
  then show ?thesis
    using planner_equals_increments[OF sample_agg_orders, where rl = sample_summary_lib and now = 5
      and events = "[sample_event ''r1'']" and g = "''g''"
      and tz = "\<lparr>tz_canonical_name = ''UTC'', tz_local_date = (\<lambda>_. Some ''1970-01-01'')\<rparr>"]
    by (auto split: option.splits)
qed

end
