(* ===== verification/Reporting_Ranges.thy ===== *)
theory Reporting_Ranges
  imports Utc_Dates Log_Adapters
begin

text \<open>
  The reporting time zone of \<open>busytok-domain/timezone.rs\<close> and the time ranges of \<open>busytok-runtime/range.rs\<close>: day, week,
  month and year, their subdivision into trend buckets, and the days of the heat map. A date is its day
  number; dates are those from 1970 on. The zone database is a library parameter, whose midnights exist, and
  the clock is read once.
\<close>

section \<open>The zone\<close>

datatype timezone_kind = Iana | Fixed int

record report_zone =
  rz_canonical :: string
  rz_kind :: timezone_kind

text \<open>The library: known names, the system's zone, midnight of a day and the local day of a timestamp.\<close>

record zone_lib =
  zl_known :: "string \<Rightarrow> bool"
  zl_system :: string
  zl_midnight :: "string \<Rightarrow> int \<Rightarrow> int"
  zl_date :: "string \<Rightarrow> int \<Rightarrow> int"

text \<open>\<open>str::parse::<i8>\<close>.\<close>

definition parse_i8 :: "string \<Rightarrow> int option" where
  "parse_i8 s =
     (case parse_i64 s of
        Some n \<Rightarrow> if - 128 \<le> n \<and> n \<le> 127 then Some n else None
      | None \<Rightarrow> None)"

text \<open>\<open>UtcOffset::from_hms\<close>: the smaller unit takes the sign of the larger one.\<close>

definition offset_seconds :: "int \<Rightarrow> int \<Rightarrow> int" where
  "offset_seconds h m = h * 3600 + (if 0 < h then \<bar>m\<bar> else if h < 0 then - \<bar>m\<bar> else m) * 60"

text \<open>The text is a list of bytes; \<open>None\<close> is the panic of a slice inside a character.\<close>

definition slice_ok :: "string \<Rightarrow> nat \<Rightarrow> bool" where
  "slice_ok s n = (n = length s \<or> n < length s \<and> utf8_start (s ! n))"

definition parse_fixed_offset :: "string \<Rightarrow> (string + int) option" where
  "parse_fixed_offset s =
     (let sign = (if take 1 s = ''+'' then Some 1 else if take 1 s = ''-'' then Some (-1) else None); rest = drop 1 s
      in if length s < 3 then Some (Inl ''too short for fixed offset'')
         else case sign of
           None \<Rightarrow> Some (Inl ''fixed offset must start with + or -'')
         | Some sg \<Rightarrow>
             (case (if CHR '':'' \<in> set rest
                    then (case split_on CHR '':'' rest of [h, m] \<Rightarrow> Some (Inr (h, m)) | _ \<Rightarrow> Some (Inl ''invalid fixed offset format''))
                    else if length rest = 4
                    then (if slice_ok rest 2 then Some (Inr (take 2 rest, drop 2 rest)) else None)
                    else if length rest = 2 then Some (Inr (rest, ''00''))
                    else Some (Inl ''invalid fixed offset format'')) of
                None \<Rightarrow> None
              | Some (Inl e) \<Rightarrow> Some (Inl e)
              | Some (Inr (hs, ms)) \<Rightarrow>
                  (case (parse_i8 hs, parse_i8 ms) of
                     (Some h, Some m) \<Rightarrow>
                       if \<bar>h\<bar> \<le> 23 \<and> \<bar>m\<bar> \<le> 59 then Some (Inr (offset_seconds (sg * h) (sg * m)))
                       else Some (Inl ''fixed offset out of range'')
                   | (None, _) \<Rightarrow> Some (Inl ''invalid hours in offset'')
                   | (_, None) \<Rightarrow> Some (Inl ''invalid minutes in offset''))))"

definition parse_timezone :: "zone_lib \<Rightarrow> string \<Rightarrow> (string + report_zone) option" where
  "parse_timezone lib input =
     (if input = ''UTC'' then Some (Inr \<lparr>rz_canonical = ''UTC'', rz_kind = Fixed 0\<rparr>)
      else if input = ''local''
      then Some (if zl_known lib (zl_system lib) then Inr \<lparr>rz_canonical = zl_system lib, rz_kind = Iana\<rparr>
                 else Inl ''failed to parse system IANA timezone'')
      else case parse_fixed_offset input of
             None \<Rightarrow> None
           | Some (Inr off) \<Rightarrow> Some (Inr \<lparr>rz_canonical = input, rz_kind = Fixed off\<rparr>)
           | Some (Inl _) \<Rightarrow>
               Some (if zl_known lib input then Inr \<lparr>rz_canonical = input, rz_kind = Iana\<rparr>
                     else Inl ''unsupported timezone''))"

definition is_whole_hour_offset :: "report_zone \<Rightarrow> bool" where
  "is_whole_hour_offset z = (case rz_kind z of Fixed off \<Rightarrow> off mod 3600 = 0 | Iana \<Rightarrow> False)"

definition is_fixed_offset :: "report_zone \<Rightarrow> bool" where
  "is_fixed_offset z = (rz_kind z \<noteq> Iana)"

definition use_sql_fast_path :: "report_zone \<Rightarrow> bool" where
  "use_sql_fast_path z = (is_fixed_offset z \<and> is_whole_hour_offset z)"

text \<open>The seconds are the milliseconds divided with truncation.\<close>

definition local_date_for_timestamp_ms :: "zone_lib \<Rightarrow> report_zone \<Rightarrow> int \<Rightarrow> int" where
  "local_date_for_timestamp_ms lib z ts =
     (case rz_kind z of
        Fixed off \<Rightarrow> (ts sdiv 1000 + off) div 86400
      | Iana \<Rightarrow> zl_date lib (rz_canonical z) ts)"

definition civil_date_to_utc_start_ms :: "zone_lib \<Rightarrow> report_zone \<Rightarrow> int \<Rightarrow> int" where
  "civil_date_to_utc_start_ms lib z n =
     (case rz_kind z of Fixed off \<Rightarrow> (n * 86400 - off) * 1000 | Iana \<Rightarrow> zl_midnight lib (rz_canonical z) n)"

definition next_civil_date :: "int \<Rightarrow> int" where
  "next_civil_date n = n + 1"

definition format_date :: "int \<Rightarrow> string" where
  "format_date n = (case civil_date n of (y, m, d) \<Rightarrow> pad_int 4 y @ ''-'' @ pad_int 2 m @ ''-'' @ pad_int 2 d)"

primrec daily_boundaries :: "nat \<Rightarrow> zone_lib \<Rightarrow> report_zone \<Rightarrow> int \<Rightarrow> (string \<times> int \<times> int) list" where
  "daily_boundaries 0 lib z cursor = []"
| "daily_boundaries (Suc k) lib z cursor =
     (format_date cursor, civil_date_to_utc_start_ms lib z cursor, civil_date_to_utc_start_ms lib z (next_civil_date cursor))
       # daily_boundaries k lib z (next_civil_date cursor)"

section \<open>Ranges\<close>

datatype range_preset = Preset_Day | Preset_Week | Preset_Month | Preset_Year

record resolved_range =
  rr_start_ms :: int
  rr_end_ms :: int
  rr_start_date :: string
  rr_end_date :: string

text \<open>0 is Sunday; 1970-01-01 was a Thursday.\<close>

definition number_days_from_sunday :: "int \<Rightarrow> int" where
  "number_days_from_sunday n = (n + 4) mod 7"

definition week_start :: "int \<Rightarrow> int \<Rightarrow> int" where
  "week_start week_starts_on today = today - (number_days_from_sunday today - week_starts_on + 7) mod 7"

definition next_month_start :: "int \<Rightarrow> int \<Rightarrow> int" where
  "next_month_start y m = (if m = 12 then day_number (y + 1, 1, 1) else day_number (y, m + 1, 1))"

definition range_of :: "zone_lib \<Rightarrow> report_zone \<Rightarrow> int \<Rightarrow> int \<Rightarrow> resolved_range" where
  "range_of lib z first after_last =
     \<lparr>rr_start_ms = civil_date_to_utc_start_ms lib z first, rr_end_ms = civil_date_to_utc_start_ms lib z after_last,
      rr_start_date = format_date first, rr_end_date = format_date (after_last - 1)\<rparr>"

definition resolve_range ::
  "zone_lib \<Rightarrow> report_zone \<Rightarrow> int \<times> int \<times> int \<Rightarrow> range_preset \<Rightarrow> int \<Rightarrow> resolved_range" where
  "resolve_range lib z ymd preset week_starts_on =
     (let today = day_number ymd; (y, m, d) = ymd
      in case preset of
        Preset_Day \<Rightarrow> range_of lib z today (next_civil_date today)
      | Preset_Week \<Rightarrow> range_of lib z (week_start week_starts_on today) (week_start week_starts_on today + 7)
      | Preset_Month \<Rightarrow> range_of lib z (day_number (y, m, 1)) (next_month_start y m)
      | Preset_Year \<Rightarrow> range_of lib z (day_number (y, 1, 1)) (day_number (y + 1, 1, 1)))"

section \<open>Windows\<close>

record trend_bucket =
  tw_start_ms :: int
  tw_end_ms :: int
  tw_key :: string
  tw_is_current :: bool

definition is_current_bucket_ms :: "int \<Rightarrow> int \<Rightarrow> int \<Rightarrow> bool" where
  "is_current_bucket_ms now start_ms end_ms = (start_ms \<le> now \<and> now < end_ms)"

definition bucket :: "int \<Rightarrow> string \<Rightarrow> int \<Rightarrow> int \<Rightarrow> trend_bucket" where
  "bucket now key a b = \<lparr>tw_start_ms = a, tw_end_ms = b, tw_key = key, tw_is_current = is_current_bucket_ms now a b\<rparr>"

definition day_bucket :: "zone_lib \<Rightarrow> report_zone \<Rightarrow> int \<Rightarrow> int \<Rightarrow> trend_bucket" where
  "day_bucket lib z now n =
     bucket now (format_date n) (civil_date_to_utc_start_ms lib z n) (civil_date_to_utc_start_ms lib z (next_civil_date n))"

definition trend_buckets_hourly :: "zone_lib \<Rightarrow> report_zone \<Rightarrow> int \<Rightarrow> int \<times> int \<times> int \<Rightarrow> trend_bucket list" where
  "trend_buckets_hourly lib z now ymd =
     (let start = civil_date_to_utc_start_ms lib z (day_number ymd);
          next_day = civil_date_to_utc_start_ms lib z (next_civil_date (day_number ymd))
      in map (\<lambda>h. bucket now (format_date (day_number ymd) @ ''T'' @ pad_int 2 (int h) @ '':00:00'')
                    (start + int h * 3600000) (if h = 23 then next_day else start + (int h + 1) * 3600000)) [0..<24])"

definition trend_buckets_daily_week ::
  "zone_lib \<Rightarrow> report_zone \<Rightarrow> int \<Rightarrow> int \<times> int \<times> int \<Rightarrow> int \<Rightarrow> trend_bucket list" where
  "trend_buckets_daily_week lib z now ymd week_starts_on =
     map (\<lambda>i. day_bucket lib z now (week_start week_starts_on (day_number ymd) + int i)) [0..<7]"

definition trend_buckets_daily_month ::
  "zone_lib \<Rightarrow> report_zone \<Rightarrow> int \<Rightarrow> int \<times> int \<times> int \<Rightarrow> trend_bucket list" where
  "trend_buckets_daily_month lib z now ymd =
     (case ymd of (y, m, _) \<Rightarrow>
        map (\<lambda>i. day_bucket lib z now (day_number (y, m, 1) + int i))
          [0..<nat (next_month_start y m - day_number (y, m, 1))])"

definition trend_buckets_monthly :: "zone_lib \<Rightarrow> report_zone \<Rightarrow> int \<Rightarrow> int \<times> int \<times> int \<Rightarrow> trend_bucket list" where
  "trend_buckets_monthly lib z now ymd =
     (case ymd of (y, _, _) \<Rightarrow>
        map (\<lambda>m. bucket now (pad_int 4 y @ ''-'' @ pad_int 2 (int m))
                   (civil_date_to_utc_start_ms lib z (day_number (y, int m, 1)))
                   (civil_date_to_utc_start_ms lib z (next_month_start y (int m)))) [1..<13])"

definition trend_buckets ::
  "zone_lib \<Rightarrow> report_zone \<Rightarrow> int \<Rightarrow> int \<times> int \<times> int \<Rightarrow> range_preset \<Rightarrow> int \<Rightarrow> trend_bucket list" where
  "trend_buckets lib z now ymd preset week_starts_on =
     (case preset of
        Preset_Day \<Rightarrow> trend_buckets_hourly lib z now ymd
      | Preset_Week \<Rightarrow> trend_buckets_daily_week lib z now ymd week_starts_on
      | Preset_Month \<Rightarrow> trend_buckets_daily_month lib z now ymd
      | Preset_Year \<Rightarrow> trend_buckets_monthly lib z now ymd)"

text \<open>A year back; where that day does not exist, the last day of its month.\<close>

definition heatmap_start :: "int \<times> int \<times> int \<Rightarrow> int" where
  "heatmap_start ymd =
     (case ymd of (y, m, d) \<Rightarrow>
        if valid_date (y - 1, m, d) then day_number (y - 1, m, d) else next_month_start (y - 1) m - 1)"

definition heatmap_window_from_date :: "int \<times> int \<times> int \<Rightarrow> string \<times> string" where
  "heatmap_window_from_date ymd = (format_date (heatmap_start ymd), format_date (day_number ymd))"

definition heatmap_days :: "zone_lib \<Rightarrow> report_zone \<Rightarrow> int \<times> int \<times> int \<Rightarrow> (string \<times> int \<times> int) list" where
  "heatmap_days lib z ymd =
     map (\<lambda>i. let n = heatmap_start ymd + int i
              in (format_date n, civil_date_to_utc_start_ms lib z n, civil_date_to_utc_start_ms lib z (next_civil_date n)))
       [0..<nat (day_number ymd - heatmap_start ymd + 1)]"

section \<open>Tilings\<close>

text \<open>The windows follow each other without gap or overlap from \<open>a\<close> to \<open>b\<close>.\<close>

fun tiles :: "int \<Rightarrow> int \<Rightarrow> trend_bucket list \<Rightarrow> bool" where
  "tiles a b [] = (a = b)"
| "tiles a b (w # ws) = (tw_start_ms w = a \<and> tiles (tw_end_ms w) b ws)"

lemma bucket_fields [simp]:
  "tw_start_ms (bucket now key a b) = a" "tw_end_ms (bucket now key a b) = b"
  "tw_is_current (bucket now key a b) = is_current_bucket_ms now a b"
  by (simp_all add: bucket_def)

lemma tiles_append: "tiles a b ws \<Longrightarrow> tiles b c vs \<Longrightarrow> tiles a c (ws @ vs)"
  by (induction ws arbitrary: a) auto

lemma tiles_upt:
  assumes "\<And>i. m \<le> i \<Longrightarrow> i < n \<Longrightarrow> tw_start_ms (w i) = f i \<and> tw_end_ms (w i) = f (Suc i)" "m \<le> n"
  shows "tiles (f m) (f n) (map w [m..<n])"
  using assms
proof (induction "n - m" arbitrary: m)
  case (Suc k)
  then have "m < n" by simp
  moreover have "tiles (f (Suc m)) (f n) (map w [Suc m..<n])" using Suc by (intro Suc.hyps(1)) auto
  ultimately show ?case using Suc.prems(1)[of m] by (simp add: upt_conv_Cons)
qed simp

lemma tiles_le:
  assumes "tiles a b ws" "list_all (\<lambda>w. tw_start_ms w \<le> tw_end_ms w) ws"
  shows "a \<le> b"
  using assms by (induction ws arbitrary: a) force+

lemma tiles_one_current:
  assumes "tiles a b ws" "list_all (\<lambda>w. tw_start_ms w \<le> tw_end_ms w) ws"
  shows "count_where (\<lambda>w. is_current_bucket_ms now (tw_start_ms w) (tw_end_ms w)) ws = (if a \<le> now \<and> now < b then 1 else 0)"
  using assms
proof (induction ws arbitrary: a)
  case (Cons w ws)
  then have "count_where (\<lambda>w. is_current_bucket_ms now (tw_start_ms w) (tw_end_ms w)) ws
      = (if tw_end_ms w \<le> now \<and> now < b then 1 else 0)"
    and "tw_end_ms w \<le> b" using tiles_le[of "tw_end_ms w" b ws] by auto
  with Cons.prems show ?case by (auto simp: is_current_bucket_ms_def)
qed simp

section \<open>The calendar\<close>

lemma day_of_month: "day_number (y, m, d) = day_number (y, m, 1) + (d - 1)"
  by (simp add: day_number_def)

lemma next_month_length:
  assumes "1970 \<le> y" "1 \<le> m" "m \<le> 12"
  shows "next_month_start y m = day_number (y, m, 1) + month_days y ! nat (m - 1)"
proof (cases "m = 12")
  case True
  have "sum_list (take 11 (month_days y)) + month_days y ! 11 = days_in_year y"
    by (simp add: month_days_def days_in_year_def)
  with True days_before_year_step[OF assms(1)] show ?thesis by (simp add: next_month_start_def day_number_def)
next
  case False
  with assms have k: "nat (m - 1) < length (month_days y)" "nat (m + 1 - 1) = Suc (nat (m - 1))" by auto
  from take_Suc_conv_app_nth[OF k(1)] False k(2) show ?thesis
    by (simp add: next_month_start_def day_number_def)
qed

lemma month_length_pos: "1 \<le> m \<Longrightarrow> m \<le> 12 \<Longrightarrow> 28 \<le> month_days y ! nat (m - 1)"
proof -
  assume "1 \<le> m" "m \<le> 12"
  then have "month_days y ! nat (m - 1) \<in> set (month_days y)" by (intro nth_mem) simp
  then show ?thesis by (auto simp: month_days_def split: if_splits)
qed

text \<open>The first days of the months of a year; the thirteenth entry is the next new year.\<close>

lemma month_starts: "next_month_start y (int k) = (if k = 12 then day_number (y + 1, 1, 1) else day_number (y, int (Suc k), 1))"
  by (simp add: next_month_start_def add.commute)

text \<open>Division of integers by a positive number as bounds.\<close>

lemma le_div_iff_mult_le':
  fixes a c k :: int
  assumes "0 < c"
  shows "k \<le> a div c \<longleftrightarrow> k * c \<le> a"
proof
  assume "k \<le> a div c"
  then have "k * c \<le> (a div c) * c" using assms by (intro mult_right_mono) simp_all
  also have "\<dots> \<le> a" using div_mult_mod_eq[of a c] pos_mod_sign[OF assms, of a] by linarith
  finally show "k * c \<le> a" .
next
  assume "k * c \<le> a"
  from zdiv_mono1[OF this assms] assms show "k \<le> a div c" by simp
qed

lemma div_less_iff': "0 < c \<Longrightarrow> a div c < k \<longleftrightarrow> a < k * c" for a c k :: int
  using le_div_iff_mult_le'[of c k a] by (simp flip: not_le)

lemma floor_div_iff: "(x + off) div 86400 = n \<longleftrightarrow> n * 86400 - off \<le> x \<and> x < (n + 1) * 86400 - off" for x off n :: int
  using le_div_iff_mult_le'[of 86400 n "x + off"] div_less_iff'[of 86400 "x + off" "n + 1"] by auto

section \<open>Properties\<close>

lemma buckets_tile:
  assumes "valid_date ymd"
  shows "tiles (rr_start_ms (resolve_range lib z ymd preset ws)) (rr_end_ms (resolve_range lib z ymd preset ws))
     (trend_buckets lib z now ymd preset ws)"
proof -
  obtain y m d where ymd: "ymd = (y, m, d)" by (cases ymd)
  let ?start = "civil_date_to_utc_start_ms lib z"
  note defs = ymd resolve_range_def range_of_def trend_buckets_def Let_def
  show ?thesis
  proof (cases preset)
    case Preset_Day
    let ?a = "?start (day_number ymd)" and ?b = "?start (next_civil_date (day_number ymd))"
    have "tiles ?a ?b (trend_buckets_hourly lib z now ymd)"
      using tiles_upt[where m = 0 and n = 24 and f = "\<lambda>h. if h = 24 then ?b else ?a + int h * 3600000"]
      unfolding trend_buckets_hourly_def Let_def by (auto simp: algebra_simps)
    with Preset_Day show ?thesis by (simp add: defs)
  next
    case Preset_Week
    have "tiles (?start (w + int 0)) (?start (w + int 7)) (map (\<lambda>i. day_bucket lib z now (w + int i)) [0..<7])" for w
      by (rule tiles_upt) (simp_all add: day_bucket_def next_civil_date_def add.commute add.left_commute)
    with Preset_Week show ?thesis by (simp add: defs trend_buckets_daily_week_def)
  next
    case Preset_Month
    let ?k = "nat (next_month_start y m - day_number (y, m, 1))"
    have "day_number (y, m, 1) + int ?k = next_month_start y m"
      using assms next_month_length[of y m] month_length_pos[of m y] by (simp add: ymd valid_date_def)
    moreover have "tiles (?start (n + int 0)) (?start (n + int ?k)) (map (\<lambda>i. day_bucket lib z now (n + int i)) [0..<?k])" for n
      by (rule tiles_upt) (simp_all add: day_bucket_def next_civil_date_def add.commute add.left_commute)
    ultimately show ?thesis
      using Preset_Month by (simp add: defs trend_buckets_daily_month_def) (metis add_0_right of_nat_0)
  next
    case Preset_Year
    let ?f = "\<lambda>k. ?start (if k = 13 then day_number (y + 1, 1, 1) else day_number (y, int k, 1))"
    have "tiles (?f 1) (?f 13) (trend_buckets_monthly lib z now ymd)"
      unfolding trend_buckets_monthly_def ymd prod.case by (rule tiles_upt) (auto simp: month_starts)
    with Preset_Year show ?thesis by (simp add: defs)
  qed
qed

text \<open>
  For every zone, preset and first day of the week the trend buckets tile the resolved range: the first starts where
  the range starts, each ends where the next one starts, and the last ends where the range ends.
\<close>

theorem buckets_tile_range:
  assumes "valid_date ymd"
  shows "tiles (rr_start_ms (resolve_range lib z ymd preset ws)) (rr_end_ms (resolve_range lib z ymd preset ws))
     (trend_buckets lib z now ymd preset ws)"
  by (rule buckets_tile[OF assms])

text \<open>
  As long as no window runs backwards, exactly one bucket is the current one while the clock is in the range, and none
  outside it.
\<close>

theorem one_current_bucket:
  assumes "valid_date ymd" "list_all (\<lambda>w. tw_start_ms w \<le> tw_end_ms w) (trend_buckets lib z now ymd preset ws)"
  shows "count_where tw_is_current (trend_buckets lib z now ymd preset ws) =
     (if rr_start_ms (resolve_range lib z ymd preset ws) \<le> now \<and> now < rr_end_ms (resolve_range lib z ymd preset ws) then 1 else 0)"
proof -
  have "tw_is_current w = is_current_bucket_ms now (tw_start_ms w) (tw_end_ms w)"
    if "w \<in> set (trend_buckets lib z now ymd preset ws)" for w
    using that by (auto simp: trend_buckets_def trend_buckets_hourly_def trend_buckets_daily_week_def
        trend_buckets_daily_month_def trend_buckets_monthly_def day_bucket_def Let_def
        split: range_preset.splits prod.splits)
  then have "count_where tw_is_current (trend_buckets lib z now ymd preset ws)
      = count_where (\<lambda>w. is_current_bucket_ms now (tw_start_ms w) (tw_end_ms w)) (trend_buckets lib z now ymd preset ws)"
    unfolding count_where_def by (metis (mono_tags, lifting) filter_cong)
  then show ?thesis using tiles_one_current[OF buckets_tile assms(2)] assms(1) by simp
qed

text \<open>
  Where the midnights of a zone never run backwards, every resolved range contains the whole of today's civil day, for any
  preset and any first day of the week.
\<close>

theorem range_contains_today:
  assumes "valid_date ymd" "mono (civil_date_to_utc_start_ms lib z)"
  shows "rr_start_ms (resolve_range lib z ymd preset ws) \<le> civil_date_to_utc_start_ms lib z (day_number ymd)
     \<and> civil_date_to_utc_start_ms lib z (next_civil_date (day_number ymd)) \<le> rr_end_ms (resolve_range lib z ymd preset ws)"
proof -
  obtain y m d where ymd: "ymd = (y, m, d)" by (cases ymd)
  let ?n = "day_number ymd"
  have within: ?thesis if "resolve_range lib z ymd preset ws = range_of lib z a b" "a \<le> ?n" "?n + 1 \<le> b" for a b
    using that monoD[OF assms(2)] by (simp add: range_of_def next_civil_date_def)
  have valid: "1970 \<le> y" "1 \<le> m" "m \<le> 12" "1 \<le> d" "d \<le> month_days y ! nat (m - 1)"
    using assms(1) by (simp_all add: ymd valid_date_def)
  have month: "day_number (y, m, 1) \<le> ?n" "?n + 1 \<le> next_month_start y m"
    using valid next_month_length[OF valid(1-3)] by (simp_all add: ymd day_of_month[of y m d])
  note defs = resolve_range_def Let_def
  show ?thesis
  proof (cases preset)
    case Preset_Day
    then show ?thesis by (intro within[of ?n "?n + 1"]) (simp_all add: defs ymd next_civil_date_def)
  next
    case Preset_Week
    have "0 \<le> k mod 7" "k mod 7 < 7" for k :: int by simp_all
    then have "week_start ws ?n \<le> ?n" "?n + 1 \<le> week_start ws ?n + 7"
      unfolding week_start_def by (simp_all add: algebra_simps zless_imp_add1_zle)
    moreover have "resolve_range lib z ymd preset ws = range_of lib z (week_start ws ?n) (week_start ws ?n + 7)"
      using Preset_Week by (simp add: defs ymd)
    ultimately show ?thesis using within by blast
  next
    case Preset_Month
    then have "resolve_range lib z ymd preset ws = range_of lib z (day_number (y, m, 1)) (next_month_start y m)"
      by (simp add: defs ymd)
    with month show ?thesis by (intro within) simp_all
  next
    case Preset_Year
    have take: "0 \<le> sum_list (take k (month_days y))" "sum_list (take k (month_days y)) \<le> days_in_year y" for k
    proof -
      have "sum_list (take k (month_days y)) + sum_list (drop k (month_days y)) = days_in_year y"
        by (simp add: sum_month_days sum_list_append[symmetric] del: sum_list_append)
      moreover have "0 \<le> sum_list (take k (month_days y))" "0 \<le> sum_list (drop k (month_days y))"
        using month_days_nonneg[of y] by (auto intro!: sum_list_nonneg dest: in_set_takeD in_set_dropD)
      ultimately show "0 \<le> sum_list (take k (month_days y))" "sum_list (take k (month_days y)) \<le> days_in_year y" by simp_all
    qed
    have "next_month_start y m \<le> day_number (y + 1, 1, 1)"
      using take(2)[of "nat m"] valid days_before_year_step[OF valid(1)]
      by (auto simp: next_month_start_def day_number_def)
    moreover have "day_number (y, 1, 1) \<le> day_number (y, m, 1)" using take(1) by (simp add: day_number_def)
    moreover have "resolve_range lib z ymd preset ws = range_of lib z (day_number (y, 1, 1)) (day_number (y + 1, 1, 1))"
      using Preset_Year by (simp add: defs ymd)
    ultimately show ?thesis
      using month by (intro within[of "day_number (y, 1, 1)" "day_number (y + 1, 1, 1)"]) simp_all
  qed
qed

text \<open>
  In a zone with a fixed offset a timestamp from 1970 on is filed under exactly the civil day whose window, from its
  midnight to the next, contains it.
\<close>

theorem fixed_zone_days:
  assumes "rz_kind z = Fixed off" "0 \<le> ts"
  shows "local_date_for_timestamp_ms lib z ts = n \<longleftrightarrow>
     civil_date_to_utc_start_ms lib z n \<le> ts \<and> ts < civil_date_to_utc_start_ms lib z (next_civil_date n)"
proof -
  have "ts sdiv 1000 = ts div 1000" using assms(2) by (simp add: signed_divide_int_def sgn_if)
  moreover have "(x + off) div 86400 = n \<longleftrightarrow> n * 86400 - off \<le> x \<and> x < (n + 1) * 86400 - off" for x
    by (rule floor_div_iff)
  moreover have "k \<le> ts div 1000 \<longleftrightarrow> k * 1000 \<le> ts" "ts div 1000 < k \<longleftrightarrow> ts < k * 1000" for k
    by (auto simp: le_div_iff_mult_le' div_less_iff')
  ultimately show ?thesis
    using assms(1) by (simp add: local_date_for_timestamp_ms_def civil_date_to_utc_start_ms_def next_civil_date_def)
qed

text \<open>Before 1970 the truncating division moves the last second of a day to the next one.\<close>

lemma before_epoch_day:
  "local_date_for_timestamp_ms lib \<lparr>rz_canonical = ''UTC'', rz_kind = Fixed 0\<rparr> (-1) = 0
   \<and> civil_date_to_utc_start_ms lib \<lparr>rz_canonical = ''UTC'', rz_kind = Fixed 0\<rparr> 0 = 0"
  by (simp add: local_date_for_timestamp_ms_def civil_date_to_utc_start_ms_def signed_divide_int_def)

text \<open>
  The fast path over hour buckets is taken exactly for the zones with a fixed offset whose civil days all start on a UTC
  hour, so that no hour bucket is split between two days.
\<close>

theorem fast_path_exact:
  "use_sql_fast_path z \<longleftrightarrow> is_fixed_offset z \<and> civil_date_to_utc_start_ms lib z n mod 3600000 = 0"
proof (cases "rz_kind z")
  case (Fixed off)
  have "(n * 86400 - off) * 1000 = (n * 24) * 3600000 - off * 1000" by (simp add: algebra_simps)
  then have "(n * 86400 - off) * 1000 mod 3600000 = 0 \<longleftrightarrow> 3600 * 1000 dvd off * 1000"
    by (simp add: mod_eq_0_iff_dvd dvd_diff_right_iff)
  also have "\<dots> \<longleftrightarrow> off mod 3600 = 0" by (subst dvd_mult_cancel_right) (simp add: mod_eq_0_iff_dvd)
  finally have "(n * 86400 - off) * 1000 mod 3600000 = 0 \<longleftrightarrow> off mod 3600 = 0" .
  with Fixed show ?thesis
    by (simp add: use_sql_fast_path_def is_fixed_offset_def is_whole_hour_offset_def civil_date_to_utc_start_ms_def)
qed (simp add: use_sql_fast_path_def is_fixed_offset_def)

lemma year_back:
  assumes "valid_date (y, m, d)" "1971 \<le> y"
  shows "day_number (y, m, d) - heatmap_start (y, m, d) \<in> {365, 366}"
proof -
  let ?p = "y - 1" and ?k = "nat (m - 1)"
  have valid: "1 \<le> m" "m \<le> 12" "1 \<le> d" "d \<le> month_days y ! ?k" using assms(1) by (simp_all add: valid_date_def)
  have years: "days_before_year y = days_before_year ?p + days_in_year ?p"
    using days_before_year_step[of ?p] assms(2) by simp
  have months: "sum_list (take ?k (month_days y)) = sum_list (take ?k (month_days ?p))
      + (if 2 < m then (if leap_year y then 1 else 0) - (if leap_year ?p then 1 else 0) else 0)"
  proof (cases "2 < m")
    case True
    then obtain j where "?k = Suc (Suc j)" using less_imp_Suc_add[of 1 ?k] by auto
    with True show ?thesis by (simp add: month_days_def)
  next
    case False
    with valid(1) have "?k = 0 \<or> ?k = 1" by auto
    with False show ?thesis by (auto simp: month_days_def)
  qed
  show ?thesis
  proof (cases "valid_date (?p, m, d)")
    case True
    with years months show ?thesis
      by (auto simp: heatmap_start_def day_number_def days_in_year_def)
  next
    case False
    then have "\<not> d \<le> month_days ?p ! ?k" using valid assms(2) by (auto simp: valid_date_def)
    with valid(4) have feb: "month_days ?p ! ?k < month_days y ! ?k" by simp
    have "?k = 1"
    proof (rule ccontr)
      assume "?k \<noteq> 1"
      moreover have "?k < 12" using valid by simp
      ultimately have "month_days ?p ! ?k = month_days y ! ?k"
        by (auto simp: month_days_def nth_Cons split: nat.splits)
      with feb show False by simp
    qed
    then have m: "m = 2" using valid(1) by simp
    with feb have "leap_year y" "\<not> leap_year ?p" by (auto simp: month_days_def split: if_splits)
    moreover from this m \<open>\<not> d \<le> month_days ?p ! ?k\<close> valid(4) have "d = 29" by (simp add: month_days_def)
    ultimately show ?thesis
      using m False years by (auto simp: heatmap_start_def next_month_start_def day_number_def month_days_def days_in_year_def)
  qed
qed

text \<open>
  The heat map spans 366 or 367 days, from the same date a year ago, or the end of February, up to and including today; each
  day's window ends where the next one starts.
\<close>

theorem heatmap_year:
  assumes "valid_date (y, m, d)" "1971 \<le> y"
  shows "length (heatmap_days lib z (y, m, d)) \<in> {366, 367}
     \<and> last (heatmap_days lib z (y, m, d)) =
         (format_date (day_number (y, m, d)), civil_date_to_utc_start_ms lib z (day_number (y, m, d)),
          civil_date_to_utc_start_ms lib z (next_civil_date (day_number (y, m, d))))
     \<and> list_all (\<lambda>i. snd (snd (heatmap_days lib z (y, m, d) ! i)) = fst (snd (heatmap_days lib z (y, m, d) ! Suc i)))
         [0..<length (heatmap_days lib z (y, m, d)) - 1]"
proof -
  let ?k = "day_number (y, m, d) - heatmap_start (y, m, d)"
  have k: "?k = 365 \<or> ?k = 366" using year_back[OF assms] by blast
  let ?w = "\<lambda>n. (format_date n, civil_date_to_utc_start_ms lib z n, civil_date_to_utc_start_ms lib z (next_civil_date n))"
  have days: "heatmap_days lib z (y, m, d) = map (\<lambda>i. ?w (heatmap_start (y, m, d) + int i)) [0..<nat (?k + 1)]"
    by (simp add: heatmap_days_def Let_def)
  have len: "length (heatmap_days lib z (y, m, d)) = nat (?k + 1)" by (simp add: days)
  have nth: "heatmap_days lib z (y, m, d) ! i = ?w (heatmap_start (y, m, d) + int i)" if "i < nat (?k + 1)" for i
    using that by (simp add: days)
  have "last (heatmap_days lib z (y, m, d)) = ?w (day_number (y, m, d))"
  proof -
    have "heatmap_days lib z (y, m, d) \<noteq> []" using len k by auto
    then have "last (heatmap_days lib z (y, m, d)) = heatmap_days lib z (y, m, d) ! nat ?k"
      using len k by (auto simp: last_conv_nth)
    then show ?thesis using nth[of "nat ?k"] k by auto
  qed
  moreover have "snd (snd (heatmap_days lib z (y, m, d) ! i)) = fst (snd (heatmap_days lib z (y, m, d) ! Suc i))"
    if "i < nat (?k + 1) - 1" for i
    using that nth[of i] nth[of "Suc i"] by (simp add: next_civil_date_def add.assoc add.commute)
  ultimately show ?thesis using len k by (auto simp: list_all_iff)
qed

text \<open>A zone text with a multi-byte character across the middle makes the slice panic.\<close>

lemma zone_text_panics: "parse_fixed_offset [CHR ''+'', CHR ''1'', CHR 0xC3, CHR 0xA9, CHR ''0''] = None"
  by (simp add: parse_fixed_offset_def slice_ok_def utf8_start_def)

section \<open>Concrete runs\<close>

definition utc_zone :: report_zone where
  "utc_zone = \<lparr>rz_canonical = ''UTC'', rz_kind = Fixed 0\<rparr>"

definition no_zones :: zone_lib where
  "no_zones = \<lparr>zl_known = (\<lambda>_. False), zl_system = ''UTC'', zl_midnight = (\<lambda>_ n. n), zl_date = (\<lambda>_ ts. ts)\<rparr>"

theorem buckets_tile_range_witness:
  "tiles (rr_start_ms (resolve_range no_zones utc_zone (2024, 2, 29) Preset_Month 1))
     (rr_end_ms (resolve_range no_zones utc_zone (2024, 2, 29) Preset_Month 1))
     (trend_buckets no_zones utc_zone 0 (2024, 2, 29) Preset_Month 1)"
  by (rule buckets_tile_range) (simp add: valid_date_def month_days_def leap_year_def)

theorem one_current_bucket_witness:
  "count_where tw_is_current (trend_buckets no_zones utc_zone 5 (1970, 1, 1) Preset_Week 4) = 1"
proof -
  have "list_all (\<lambda>w. tw_start_ms w \<le> tw_end_ms w) (trend_buckets no_zones utc_zone 5 (1970, 1, 1) Preset_Week 4)"
    by (simp add: trend_buckets_def trend_buckets_daily_week_def day_bucket_def civil_date_to_utc_start_ms_def utc_zone_def
        next_civil_date_def list_all_iff)
  from one_current_bucket[OF _ this] show ?thesis
    by (simp add: valid_date_def month_days_def resolve_range_def range_of_def civil_date_to_utc_start_ms_def utc_zone_def
        week_start_def number_days_from_sunday_def day_number_def days_before_year_def)
qed

theorem range_contains_today_witness:
  "rr_start_ms (resolve_range no_zones utc_zone (2024, 2, 29) Preset_Week 1)
     \<le> civil_date_to_utc_start_ms no_zones utc_zone (day_number (2024, 2, 29))"
proof -
  have "mono (civil_date_to_utc_start_ms no_zones utc_zone)"
    by (simp add: mono_def civil_date_to_utc_start_ms_def utc_zone_def)
  from range_contains_today[OF _ this, of "(2024, 2, 29)"] show ?thesis
    by (simp add: valid_date_def month_days_def leap_year_def)
qed

theorem fixed_zone_days_witness: "civil_date_to_utc_start_ms no_zones utc_zone 3 \<le> 259200001"
proof -
  have "local_date_for_timestamp_ms no_zones utc_zone 259200001 = 3"
    by (simp add: local_date_for_timestamp_ms_def utc_zone_def signed_divide_int_def)
  with fixed_zone_days[of utc_zone 0 259200001 no_zones 3] show ?thesis by (simp add: utc_zone_def)
qed

theorem heatmap_year_witness: "length (heatmap_days no_zones utc_zone (2024, 2, 29)) \<in> {366, 367}"
  using heatmap_year[of 2024 2 29 no_zones utc_zone] by (simp add: valid_date_def month_days_def leap_year_def)

end
