(* ===== verification/Provider_Catalog.thy ===== *)
theory Provider_Catalog
  imports Store_Tables Step_Machines
begin

text \<open>
  The provider catalog of \<open>busytok-store/src/provider_catalog.rs\<close>: providers, their models and the
  tags of models, with the keys and the cascading foreign keys of migration 0005. New identifiers
  and the clock are arguments; the order in which tag sets are walked is a parameter. The other
  layers read the same two tables through the lookups of \<open>Store_Tables\<close>.
\<close>

section \<open>Tables and requests\<close>

record catalog =
  ct_providers :: "provider list"
  ct_models :: "model list"
  ct_tags :: "(string \<times> string) list"

record create_provider_req =
  cp_name :: string
  cp_provider_kind :: provider_kind
  cp_base_url :: string
  cp_enabled :: bool
  cp_api_key :: "string option"

record update_provider_patch =
  up_name :: "string option"
  up_base_url :: "string option"
  up_enabled :: "bool option"
  up_provider_kind :: "provider_kind option"
  up_api_key :: "string option option"

record create_model_req =
  cm_provider_id :: string
  cm_model_id :: string
  cm_enabled :: bool
  cm_tags :: "string list"
  cm_display_name :: "string option"
  cm_reasoning :: "bool option"
  cm_context_window :: "int option"
  cm_max_tokens :: "int option"

record update_model_patch =
  um_enabled :: "bool option"
  um_display_name :: "string option"
  um_reasoning :: "bool option"
  um_context_window :: "int option"
  um_max_tokens :: "int option"

record provider_summary =
  ps_id :: string
  ps_name :: string
  ps_provider_kind :: provider_kind
  ps_base_url :: string
  ps_enabled :: bool
  ps_has_api_key :: bool
  ps_created_at_ms :: int
  ps_updated_at_ms :: int

record model_catalog_filter =
  mf_provider_id :: "string option"
  mf_tags :: "string list"
  mf_include_disabled :: bool

record model_catalog_entry =
  me_provider_id :: string
  me_provider_name :: string
  me_provider_kind :: provider_kind
  me_provider_enabled :: bool
  me_model_db_id :: string
  me_model_id :: string
  me_model_enabled :: bool
  me_tags :: "string list"
  me_display_name :: "string option"
  me_reasoning :: bool
  me_context_window :: "int option"
  me_max_tokens :: "int option"

section \<open>Providers\<close>

definition provider_with_secret :: "string \<Rightarrow> catalog \<Rightarrow> provider option" where
  "provider_with_secret i c = find (\<lambda>p. p_id p = i) (ct_providers c)"

definition create_provider :: "string \<Rightarrow> int \<Rightarrow> create_provider_req \<Rightarrow> catalog \<Rightarrow> (string + provider) \<times> catalog" where
  "create_provider i now req c =
     (if list_ex (\<lambda>p. p_id p = i) (ct_providers c) then (Inl ''UNIQUE constraint failed: providers.id'', c)
      else let p = \<lparr>p_id = i, p_name = cp_name req, p_provider_kind = cp_provider_kind req,
                    p_base_url = cp_base_url req, p_enabled = cp_enabled req, p_api_key = cp_api_key req,
                    p_created_at_ms = now, p_updated_at_ms = now\<rparr>;
               c = c\<lparr>ct_providers := ct_providers c @ [p]\<rparr>
           in (case provider_with_secret i c of
                 None \<Rightarrow> Inl (''provider '' @ i @ '' not found after insert'')
               | Some p \<Rightarrow> Inr p, c))"

text \<open>One \<open>UPDATE\<close> per field of the patch, each with the new time.\<close>

definition patch_with :: "int \<Rightarrow> ('v \<Rightarrow> provider \<Rightarrow> provider) \<Rightarrow> 'v option \<Rightarrow> provider \<Rightarrow> provider" where
  "patch_with now put v p = (case v of None \<Rightarrow> p | Some x \<Rightarrow> (put x p)\<lparr>p_updated_at_ms := now\<rparr>)"

definition patch_provider :: "int \<Rightarrow> update_provider_patch \<Rightarrow> provider \<Rightarrow> provider" where
  "patch_provider now u p =
     patch_with now (\<lambda>k p. p\<lparr>p_api_key := k\<rparr>) (up_api_key u)
       (patch_with now (\<lambda>k p. p\<lparr>p_provider_kind := k\<rparr>) (up_provider_kind u)
         (patch_with now (\<lambda>b p. p\<lparr>p_enabled := b\<rparr>) (up_enabled u)
           (patch_with now (\<lambda>s p. p\<lparr>p_base_url := s\<rparr>) (up_base_url u)
             (patch_with now (\<lambda>s p. p\<lparr>p_name := s\<rparr>) (up_name u) p))))"

definition update_provider ::
  "int \<Rightarrow> string \<Rightarrow> update_provider_patch \<Rightarrow> catalog \<Rightarrow> (string + provider) \<times> catalog" where
  "update_provider now i u c =
     (if \<not> list_ex (\<lambda>p. p_id p = i) (ct_providers c) then (Inl (''provider not found: '' @ i), c)
      else let c = c\<lparr>ct_providers := upd_where (\<lambda>p. p_id p = i) (patch_provider now u) (ct_providers c)\<rparr>
           in (case provider_with_secret i c of
                 None \<Rightarrow> Inl (''provider '' @ i @ '' not found after update'')
               | Some p \<Rightarrow> Inr p, c))"

text \<open>\<open>DELETE\<close> with the cascades to models and to their tags.\<close>

definition drop_models :: "(model \<Rightarrow> bool) \<Rightarrow> catalog \<Rightarrow> catalog" where
  "drop_models P c =
     c\<lparr>ct_models := filter (\<lambda>m. \<not> P m) (ct_models c),
       ct_tags := filter (\<lambda>(mid, _). \<not> list_ex (\<lambda>m. md_id m = mid \<and> P m) (ct_models c)) (ct_tags c)\<rparr>"

definition delete_provider :: "string \<Rightarrow> catalog \<Rightarrow> (string + unit) \<times> catalog" where
  "delete_provider i c =
     (if count_where (\<lambda>p. p_id p = i) (ct_providers c) = 0 then (Inl (''provider not found: '' @ i), c)
      else (Inr (), drop_models (\<lambda>m. md_provider_id m = i)
              (c\<lparr>ct_providers := filter (\<lambda>p. p_id p \<noteq> i) (ct_providers c)\<rparr>)))"

definition provider_summary_of :: "provider \<Rightarrow> provider_summary" where
  "provider_summary_of p =
     \<lparr>ps_id = p_id p, ps_name = p_name p, ps_provider_kind = p_provider_kind p, ps_base_url = p_base_url p,
      ps_enabled = p_enabled p, ps_has_api_key = (p_api_key p \<noteq> None), ps_created_at_ms = p_created_at_ms p,
      ps_updated_at_ms = p_updated_at_ms p\<rparr>"

definition list_providers :: "catalog \<Rightarrow> provider_summary list" where
  "list_providers c = map provider_summary_of (sort_by (\<lambda>a b. str_le (p_name a) (p_name b)) (ct_providers c))"

section \<open>Models\<close>

definition get_model_by_id :: "string \<Rightarrow> catalog \<Rightarrow> model option" where
  "get_model_by_id i c = find (\<lambda>m. md_id m = i) (ct_models c)"

text \<open>
  The row's two keys come first, then its provider, then its tags, one row per different tag; an
  error rolls the transaction back.
\<close>

definition create_model :: "string \<Rightarrow> int \<Rightarrow> create_model_req \<Rightarrow> catalog \<Rightarrow> (string + model) \<times> catalog" where
  "create_model i now req c =
     (if list_ex (\<lambda>m. md_id m = i \<or> md_provider_id m = cm_provider_id req \<and> md_model_id m = cm_model_id req) (ct_models c)
      then (Inl (''model '' @ qt @ cm_model_id req @ qt @ '' already exists for provider '' @ qt @ cm_provider_id req @ qt), c)
      else if \<not> list_ex (\<lambda>p. p_id p = cm_provider_id req) (ct_providers c)
      then (Inl ''FOREIGN KEY constraint failed'', c)
      else let m = \<lparr>md_id = i, md_provider_id = cm_provider_id req, md_model_id = cm_model_id req,
                    md_enabled = cm_enabled req, md_display_name = cm_display_name req,
                    md_reasoning = unwrap_or False (cm_reasoning req), md_context_window = cm_context_window req,
                    md_max_tokens = cm_max_tokens req, md_created_at_ms = now, md_updated_at_ms = now\<rparr>;
               tags = map (\<lambda>t. (i, t)) (rev (remdups (rev (cm_tags req))))
           in if list_ex (\<lambda>x. x \<in> set (ct_tags c)) tags
              then (Inl ''UNIQUE constraint failed: model_tags.model_id, model_tags.tag'', c)
              else let c = c\<lparr>ct_models := ct_models c @ [m], ct_tags := ct_tags c @ tags\<rparr>
                   in (case get_model_by_id i c of
                         None \<Rightarrow> Inl (''model '' @ i @ '' not found after insert'') | Some m \<Rightarrow> Inr m, c))"

definition patch_model_with :: "int \<Rightarrow> ('v \<Rightarrow> model \<Rightarrow> model) \<Rightarrow> 'v option \<Rightarrow> model \<Rightarrow> model" where
  "patch_model_with now put v m = (case v of None \<Rightarrow> m | Some x \<Rightarrow> (put x m)\<lparr>md_updated_at_ms := now\<rparr>)"

definition patch_model :: "int \<Rightarrow> update_model_patch \<Rightarrow> model \<Rightarrow> model" where
  "patch_model now u m =
     patch_model_with now (\<lambda>x m. m\<lparr>md_max_tokens := Some x\<rparr>) (um_max_tokens u)
       (patch_model_with now (\<lambda>x m. m\<lparr>md_context_window := Some x\<rparr>) (um_context_window u)
         (patch_model_with now (\<lambda>x m. m\<lparr>md_reasoning := x\<rparr>) (um_reasoning u)
           (patch_model_with now (\<lambda>x m. m\<lparr>md_display_name := Some x\<rparr>) (um_display_name u)
             (patch_model_with now (\<lambda>x m. m\<lparr>md_enabled := x\<rparr>) (um_enabled u) m))))"

definition update_model :: "int \<Rightarrow> string \<Rightarrow> update_model_patch \<Rightarrow> catalog \<Rightarrow> (string + model) \<times> catalog" where
  "update_model now i u c =
     (let dirty = (um_enabled u \<noteq> None \<or> um_display_name u \<noteq> None \<or> um_reasoning u \<noteq> None
                   \<or> um_context_window u \<noteq> None \<or> um_max_tokens u \<noteq> None)
      in if \<not> dirty then (Inl ''model update patch is empty'', c)
         else if \<not> list_ex (\<lambda>m. md_id m = i) (ct_models c) then (Inl (''model not found: '' @ i), c)
         else let c = c\<lparr>ct_models := upd_where (\<lambda>m. md_id m = i) (patch_model now u) (ct_models c)\<rparr>
              in (case get_model_by_id i c of
                    None \<Rightarrow> Inl (''model '' @ i @ '' not found after update'') | Some m \<Rightarrow> Inr m, c))"

definition delete_model :: "string \<Rightarrow> catalog \<Rightarrow> (string + unit) \<times> catalog" where
  "delete_model i c =
     (case get_model_by_id i c of
        None \<Rightarrow> (Inl (''model not found: '' @ i), c)
      | Some _ \<Rightarrow> (Inr (), drop_models (\<lambda>m. md_id m = i) c))"

section \<open>Catalog queries\<close>

definition tags_of :: "string \<Rightarrow> catalog \<Rightarrow> string list" where
  "tags_of mid c = map snd (filter (\<lambda>x. fst x = mid) (ct_tags c))"

text \<open>\<open>GROUP_CONCAT\<close>, whose order SQLite leaves open (\<open>ord\<close> below), and the split of its text.\<close>

definition tags_csv :: "string list \<Rightarrow> string" where
  "tags_csv ts = join '','' ts"

definition split_tags :: "string \<Rightarrow> string list" where
  "split_tags csv = (if csv = [] then [] else split_on CHR '','' csv)"

text \<open>The three orders; a missing number is last.\<close>

definition name_le :: "model_catalog_entry \<Rightarrow> model_catalog_entry \<Rightarrow> bool" where
  "name_le a b =
     (if me_provider_name a = me_provider_name b then str_le (me_model_id a) (me_model_id b)
      else str_le (me_provider_name a) (me_provider_name b))"

definition desc_le ::
  "(model_catalog_entry \<Rightarrow> int option) \<Rightarrow> model_catalog_entry \<Rightarrow> model_catalog_entry \<Rightarrow> bool" where
  "desc_le f a b =
     (case (f a, f b) of
        (None, None) \<Rightarrow> name_le a b
      | (None, Some _) \<Rightarrow> False
      | (Some _, None) \<Rightarrow> True
      | (Some x, Some y) \<Rightarrow> if x = y then name_le a b else y < x)"

definition entry_le :: "string option \<Rightarrow> model_catalog_entry \<Rightarrow> model_catalog_entry \<Rightarrow> bool" where
  "entry_le order =
     (let s = unwrap_or ''name'' order in
      if s = ''context_window_desc'' then desc_le me_context_window
      else if s = ''max_tokens_desc'' then desc_le me_max_tokens
      else name_le)"

definition catalog_entry :: "(string list \<Rightarrow> string list) \<Rightarrow> catalog \<Rightarrow> provider \<Rightarrow> model \<Rightarrow> model_catalog_entry" where
  "catalog_entry ord c p m =
     \<lparr>me_provider_id = p_id p, me_provider_name = p_name p, me_provider_kind = p_provider_kind p,
      me_provider_enabled = p_enabled p, me_model_db_id = md_id m, me_model_id = md_model_id m,
      me_model_enabled = md_enabled m, me_tags = split_tags (tags_csv (ord (tags_of (md_id m) c))),
      me_display_name = md_display_name m, me_reasoning = md_reasoning m, me_context_window = md_context_window m,
      me_max_tokens = md_max_tokens m\<rparr>"

text \<open>The number of different tags among the wanted ones is compared with how many were asked for.\<close>

definition has_tags :: "catalog \<Rightarrow> string \<Rightarrow> string list \<Rightarrow> bool" where
  "has_tags c mid wanted =
     (wanted = [] \<or> length (remdups (filter (\<lambda>t. t \<in> set wanted) (tags_of mid c))) = length wanted)"

definition model_listed :: "catalog \<Rightarrow> model_catalog_filter \<Rightarrow> bool option \<Rightarrow> provider \<Rightarrow> model \<Rightarrow> bool" where
  "model_listed c f reasoning p m =
     (p_id p = md_provider_id m
      \<and> (mf_include_disabled f \<or> (p_enabled p \<and> md_enabled m))
      \<and> (mf_provider_id f = None \<or> mf_provider_id f = Some (md_provider_id m))
      \<and> (reasoning = None \<or> reasoning = Some (md_reasoning m))
      \<and> has_tags c (md_id m) (mf_tags f))"

definition list_models_filtered ::
  "(string list \<Rightarrow> string list) \<Rightarrow> catalog \<Rightarrow> model_catalog_filter \<Rightarrow> string option \<Rightarrow> bool option
    \<Rightarrow> model_catalog_entry list" where
  "list_models_filtered ord c f order reasoning =
     sort_by (entry_le order)
       (concat (map (\<lambda>m. map (\<lambda>p. catalog_entry ord c p m) (filter (\<lambda>p. model_listed c f reasoning p m) (ct_providers c)))
         (ct_models c)))"

definition list_models_by_provider :: "(string list \<Rightarrow> string list) \<Rightarrow> catalog \<Rightarrow> string \<Rightarrow> model_catalog_entry list" where
  "list_models_by_provider ord c provider_id =
     list_models_filtered ord c \<lparr>mf_provider_id = Some provider_id, mf_tags = [], mf_include_disabled = True\<rparr> None None"

definition list_tags :: "catalog \<Rightarrow> string list" where
  "list_tags c = sort_by str_le (remdups (map snd (ct_tags c)))"

text \<open>The difference of two tag sets, walked in some order.\<close>

definition set_model_tags ::
  "(string list \<Rightarrow> string list) \<Rightarrow> int \<Rightarrow> string \<Rightarrow> string list \<Rightarrow> catalog \<Rightarrow> (string + unit) \<times> catalog" where
  "set_model_tags ord now mid tags c =
     (if \<not> list_ex (\<lambda>m. md_id m = mid) (ct_models c) then (Inl (''model not found: '' @ mid), c)
      else let existing = tags_of mid c;
               to_remove = filter (\<lambda>t. t \<notin> set tags) existing;
               to_add = ord (remdups (filter (\<lambda>t. t \<notin> set existing) tags))
           in if to_add = [] \<and> to_remove = [] then (Inr (), c)
              else (Inr (), c\<lparr>ct_tags := filter (\<lambda>x. \<not> (fst x = mid \<and> snd x \<in> set to_remove)) (ct_tags c)
                                        @ map (\<lambda>t. (mid, t)) to_add,
                              ct_models := upd_where (\<lambda>m. md_id m = mid) (\<lambda>m. m\<lparr>md_updated_at_ms := now\<rparr>) (ct_models c)\<rparr>))"

section \<open>The schema's invariant\<close>

definition catalog_ok :: "catalog \<Rightarrow> bool" where
  "catalog_ok c =
     (distinct (map p_id (ct_providers c)) \<and> distinct (map md_id (ct_models c))
      \<and> distinct (map (\<lambda>m. (md_provider_id m, md_model_id m)) (ct_models c))
      \<and> list_all (\<lambda>m. md_provider_id m \<in> p_id ` set (ct_providers c)) (ct_models c)
      \<and> distinct (ct_tags c) \<and> list_all (\<lambda>x. fst x \<in> md_id ` set (ct_models c)) (ct_tags c))"

lemma patch_provider_id [simp]: "p_id (patch_provider now u p) = p_id p"
  by (simp add: patch_provider_def patch_with_def split: option.split)

lemma patch_model_keys [simp]:
  "md_id (patch_model now u m) = md_id m" "md_provider_id (patch_model now u m) = md_provider_id m"
  "md_model_id (patch_model now u m) = md_model_id m"
  by (simp_all add: patch_model_def patch_model_with_def split: option.split)

lemma keys_upd_where:
  "(\<And>x. k (f x) = k x) \<Longrightarrow> map k (upd_where P f xs) = map k xs" "(\<And>x. k (f x) = k x) \<Longrightarrow> k ` set (upd_where P f xs) = k ` set xs"
  by (auto simp: map_upd_where simp flip: set_map)

lemma catalog_ok_upd_models:
  assumes "catalog_ok c" "\<And>m. md_id (f m) = md_id m \<and> md_provider_id (f m) = md_provider_id m \<and> md_model_id (f m) = md_model_id m"
  shows "catalog_ok (c\<lparr>ct_models := upd_where P f (ct_models c)\<rparr>)"
proof -
  have "list_all (\<lambda>m. md_provider_id m \<in> p_id ` set (ct_providers c)) (upd_where P f (ct_models c))"
    using assms by (auto simp: catalog_ok_def list_all_iff upd_where_def)
  with assms show ?thesis
    by (simp add: catalog_ok_def keys_upd_where)
qed

lemma catalog_ok_drop_models:
  assumes "distinct (map p_id (ct_providers c))" "distinct (map md_id (ct_models c))"
    "distinct (map (\<lambda>m. (md_provider_id m, md_model_id m)) (ct_models c))" "distinct (ct_tags c)"
    "list_all (\<lambda>m. P m \<or> md_provider_id m \<in> p_id ` set (ct_providers c)) (ct_models c)"
    "list_all (\<lambda>x. fst x \<in> md_id ` set (ct_models c)) (ct_tags c)"
  shows "catalog_ok (drop_models P c)"
  using assms by (auto simp: catalog_ok_def drop_models_def list_all_iff list_ex_iff distinct_map_filter)

lemma create_provider_ok: "catalog_ok c \<Longrightarrow> catalog_ok (snd (create_provider i now req c))"
  by (auto simp: create_provider_def catalog_ok_def Let_def list_ex_iff list_all_iff)

lemma update_provider_ok: "catalog_ok c \<Longrightarrow> catalog_ok (snd (update_provider now i u c))"
  by (auto simp: update_provider_def catalog_ok_def Let_def keys_upd_where)

lemma delete_provider_ok:
  assumes "catalog_ok c"
  shows "catalog_ok (snd (delete_provider i c))"
proof -
  have "catalog_ok (drop_models (\<lambda>m. md_provider_id m = i)
          (c\<lparr>ct_providers := filter (\<lambda>p. p_id p \<noteq> i) (ct_providers c)\<rparr>))"
    by (rule catalog_ok_drop_models)
      (use assms in \<open>auto simp: catalog_ok_def distinct_map_filter list_all_iff image_iff\<close>)
  with assms show ?thesis
    by (simp add: delete_provider_def)
qed

lemma catalog_ok_add_model:
  assumes "catalog_ok c" "md_provider_id m \<in> p_id ` set (ct_providers c)" "distinct tags"
    "\<forall>x\<in>set (ct_models c). md_id x \<noteq> md_id m \<and> (md_provider_id x, md_model_id x) \<noteq> (md_provider_id m, md_model_id m)"
    "\<forall>t\<in>set tags. (md_id m, t) \<notin> set (ct_tags c)"
  shows "catalog_ok (c\<lparr>ct_models := ct_models c @ [m], ct_tags := ct_tags c @ map (\<lambda>t. (md_id m, t)) tags\<rparr>)"
proof -
  have "distinct (map (\<lambda>t. (md_id m, t)) tags)"
    using assms(3) by (simp add: distinct_map inj_on_def)
  with assms show ?thesis
    by (auto simp: catalog_ok_def list_all_iff)
qed

lemma create_model_ok:
  assumes "catalog_ok c"
  shows "catalog_ok (snd (create_model i now req c))"
proof -
  let ?m = "\<lparr>md_id = i, md_provider_id = cm_provider_id req, md_model_id = cm_model_id req,
    md_enabled = cm_enabled req, md_display_name = cm_display_name req,
    md_reasoning = unwrap_or False (cm_reasoning req), md_context_window = cm_context_window req,
    md_max_tokens = cm_max_tokens req, md_created_at_ms = now, md_updated_at_ms = now\<rparr>"
  have "catalog_ok (c\<lparr>ct_models := ct_models c @ [?m],
          ct_tags := ct_tags c @ map (\<lambda>t. (i, t)) (rev (remdups (rev (cm_tags req))))\<rparr>)"
    if "list_ex (\<lambda>p. p_id p = cm_provider_id req) (ct_providers c)"
      "\<not> list_ex (\<lambda>m. md_id m = i \<or> md_provider_id m = cm_provider_id req \<and> md_model_id m = cm_model_id req) (ct_models c)"
      "\<not> list_ex (\<lambda>x. x \<in> set (ct_tags c)) (map (\<lambda>t. (i, t)) (rev (remdups (rev (cm_tags req)))))"
    using that catalog_ok_add_model [OF assms, of ?m "rev (remdups (rev (cm_tags req)))"]
    by (simp add: list_ex_iff image_iff) metis
  with assms show ?thesis
    by (simp add: create_model_def Let_def)
qed

lemma update_model_ok: "catalog_ok c \<Longrightarrow> catalog_ok (snd (update_model now i u c))"
  by (auto simp: update_model_def Let_def intro!: catalog_ok_upd_models)

lemma delete_model_ok:
  assumes "catalog_ok c"
  shows "catalog_ok (snd (delete_model i c))"
proof -
  have "catalog_ok (drop_models (\<lambda>m. md_id m = i) c)"
    by (rule catalog_ok_drop_models) (use assms in \<open>auto simp: catalog_ok_def list_all_iff\<close>)
  with assms show ?thesis
    by (simp add: delete_model_def split: option.split)
qed

lemma set_model_tags_ok:
  assumes "catalog_ok c" "\<And>xs. mset (ord xs) = mset xs"
  shows "catalog_ok (snd (set_model_tags ord now mid tags c))"
proof -
  have s: "set (ord xs) = set xs" "distinct (ord xs) = distinct xs" for xs
    using assms(2) [of xs] by (auto dest: mset_eq_setD mset_eq_imp_distinct_iff)
  let ?rm = "filter (\<lambda>t. t \<notin> set tags) (tags_of mid c)"
  let ?ad = "ord (remdups (filter (\<lambda>t. t \<notin> set (tags_of mid c)) tags))"
  let ?c = "c\<lparr>ct_tags := filter (\<lambda>x. \<not> (fst x = mid \<and> snd x \<in> set ?rm)) (ct_tags c) @ map (\<lambda>t. (mid, t)) ?ad\<rparr>"
  have "distinct (map (\<lambda>t. (mid, t)) ?ad)"
    by (simp add: distinct_map inj_on_def s)
  moreover have "(mid, t) \<notin> set (ct_tags c)" if "t \<notin> set (tags_of mid c)" for t
    using that by (force simp: tags_of_def)
  ultimately have "mid \<in> md_id ` set (ct_models c) \<Longrightarrow> catalog_ok ?c"
    using assms(1) by (auto simp: catalog_ok_def list_all_iff s)
  then have "mid \<in> md_id ` set (ct_models c) \<Longrightarrow>
      catalog_ok (?c\<lparr>ct_models := upd_where (\<lambda>m. md_id m = mid) (\<lambda>m. m\<lparr>md_updated_at_ms := now\<rparr>) (ct_models ?c)\<rparr>)"
    by (intro catalog_ok_upd_models) auto
  with assms(1) show ?thesis
    by (auto simp: set_model_tags_def Let_def list_ex_iff image_iff)
qed

section \<open>Reachable catalogs\<close>

definition empty_catalog :: "catalog \<Rightarrow> bool" where
  "empty_catalog c = (c = \<lparr>ct_providers = [], ct_models = [], ct_tags = []\<rparr>)"

inductive catalog_step :: "catalog \<Rightarrow> catalog \<Rightarrow> bool" where
  "catalog_step c (snd (create_provider i now cp c))"
| "catalog_step c (snd (update_provider now i up c))"
| "catalog_step c (snd (delete_provider i c))"
| "catalog_step c (snd (create_model i now cm c))"
| "catalog_step c (snd (update_model now i um c))"
| "catalog_step c (snd (delete_model i c))"
| "(\<And>xs. mset (ord xs) = mset xs) \<Longrightarrow> catalog_step c (snd (set_model_tags ord now mid tags c))"

lemma catalog_step_ok: "catalog_step c d \<Longrightarrow> catalog_ok c \<Longrightarrow> catalog_ok d"
  by (induction rule: catalog_step.induct)
    (simp_all only: create_provider_ok update_provider_ok delete_provider_ok create_model_ok
      update_model_ok delete_model_ok set_model_tags_ok)

interpretation catalog_runs: invariant_machine empty_catalog catalog_step catalog_ok
  by unfold_locales (simp add: empty_catalog_def catalog_ok_def, rule catalog_step_ok)

lemma distinct_tags_of: "catalog_ok c \<Longrightarrow> distinct (tags_of mid c)"
  by (auto simp: catalog_ok_def tags_of_def distinct_map inj_on_def)

lemma in_tags_of: "t \<in> set (tags_of mid c) \<longleftrightarrow> (mid, t) \<in> set (ct_tags c)"
  by (force simp: tags_of_def)

lemma get_model_listed: "get_model_by_id mid c = Some m \<Longrightarrow> list_ex (\<lambda>m. md_id m = mid) (ct_models c)"
  by (metis (mono_tags, lifting) find_None_iff get_model_by_id_def list_ex_iff option.distinct(1))

lemma set_tags_after:
  assumes "get_model_by_id mid c = Some m" "\<And>xs. set (ord xs) = set xs"
  shows "t \<in> set (tags_of mid' (snd (set_model_tags ord now mid tags c)))
    \<longleftrightarrow> (if mid' = mid then t \<in> set tags else t \<in> set (tags_of mid' c))"
proof -
  let ?rm = "filter (\<lambda>t. t \<notin> set tags) (tags_of mid c)"
  let ?ad = "ord (remdups (filter (\<lambda>t. t \<notin> set (tags_of mid c)) tags))"
  have x: "list_ex (\<lambda>m. md_id m = mid) (ct_models c)"
    using assms(1) by (rule get_model_listed)
  show ?thesis
  proof (cases "?ad = [] \<and> ?rm = []")
    case True
    then have "set tags = set (tags_of mid c)"
      using assms(2) by (metis (lifting) filter_empty_conv remdups_eq_nil_iff set_empty subsetI subset_antisym)
    then show ?thesis
      using True x by (simp add: set_model_tags_def Let_def)
  next
    case False
    then show ?thesis
      using x by (auto simp: set_model_tags_def Let_def in_tags_of assms(2) image_iff)
  qed
qed

section \<open>Properties\<close>

text \<open>
  C26. Whatever sequence of catalog operations ran since migration 0005, whatever order each of them
  walked its tag sets in, identifiers and (provider, model name) pairs are unique, every model has
  its provider and every tag its model, once.
\<close>

theorem reachable_catalog_ok: "reach empty_catalog catalog_step c \<Longrightarrow> catalog_ok c"
  by (rule catalog_runs.reachable_inv)

text \<open>
  setting the tags of a model that exists succeeds, leaves that model exactly the given tags,
  each once, and every other model the tags it had.
\<close>

theorem set_model_tags_exact:
  assumes "\<And>xs. mset (ord xs) = mset xs" "catalog_ok c" "get_model_by_id mid c = Some m"
  shows "fst (set_model_tags ord now mid tags c) = Inr ()
    \<and> distinct (tags_of mid' (snd (set_model_tags ord now mid tags c)))
    \<and> set (tags_of mid' (snd (set_model_tags ord now mid tags c))) = (if mid' = mid then set tags else set (tags_of mid' c))"
proof (intro conjI)
  have s: "set (ord xs) = set xs" for xs
    using assms(1) by (rule mset_eq_setD)
  show "fst (set_model_tags ord now mid tags c) = Inr ()"
    using get_model_listed [OF assms(3)] by (simp add: set_model_tags_def Let_def)
  show "distinct (tags_of mid' (snd (set_model_tags ord now mid tags c)))"
    by (intro distinct_tags_of set_model_tags_ok assms)
  show "set (tags_of mid' (snd (set_model_tags ord now mid tags c))) = (if mid' = mid then set tags else set (tags_of mid' c))"
    using set_tags_after [OF assms(3) s] by (auto split: if_splits)
qed

text \<open>
  a model matches a tag filter exactly when it has every tag asked for and no tag is asked for
  twice.
\<close>

theorem has_tags_iff: "has_tags c mid wanted \<longleftrightarrow> distinct wanted \<and> set wanted \<subseteq> set (tags_of mid c)"
proof -
  have "length (remdups (filter (\<lambda>t. t \<in> set wanted) ts)) = length wanted \<longleftrightarrow> distinct wanted \<and> set wanted \<subseteq> set ts"
    for ts :: "string list"
  proof -
    have n: "length (remdups (filter (\<lambda>t. t \<in> set wanted) ts)) = card (set ts \<inter> set wanted)"
      by (simp add: length_remdups_card_conv Int_def)
    have "card (set ts \<inter> set wanted) \<le> card (set wanted)" "card (set wanted) \<le> length wanted"
      by (simp_all add: card_mono card_length)
    moreover have "card (set ts \<inter> set wanted) = card (set wanted) \<longleftrightarrow> set wanted \<subseteq> set ts"
      by (metis Int_lower2 List.finite_set card_subset_eq inf.absorb_iff2)
    ultimately show ?thesis
      using n card_distinct distinct_card by (metis le_antisym)
  qed
  then show ?thesis
    by (auto simp: has_tags_def)
qed

text \<open>
  The entry's tags are the model's when none of them holds a comma and not all of their texts are
  empty; one tag with a comma comes back as two.
\<close>

lemma split_comma_tag: "split_tags (tags_csv [''a,b'']) = [''a'', ''b'']"
  by (simp add: split_tags_def tags_csv_def)

section \<open>Concrete runs\<close>

definition catalog_x :: catalog where
  "catalog_x =
     snd (create_model ''m1'' 2 \<lparr>cm_provider_id = ''p1'', cm_model_id = ''gpt'', cm_enabled = True,
         cm_tags = [''fast'', ''cheap'', ''fast''], cm_display_name = None, cm_reasoning = None,
         cm_context_window = None, cm_max_tokens = None\<rparr>
       (snd (create_provider ''p1'' 1 \<lparr>cp_name = ''openai'', cp_provider_kind = OpenAiCompatible,
           cp_base_url = ''https://x'', cp_enabled = True, cp_api_key = None\<rparr>
         \<lparr>ct_providers = [], ct_models = [], ct_tags = []\<rparr>)))"

lemma catalog_x_reached: "reach empty_catalog catalog_step catalog_x"
  unfolding catalog_x_def
  by (rule reach_step [OF reach_step [OF reach_init]])
    (simp add: empty_catalog_def, rule catalog_step.intros, rule catalog_step.intros)

lemma catalog_x_tags: "tags_of ''m1'' catalog_x = [''fast'', ''cheap'']"
  by (simp add: catalog_x_def create_model_def create_provider_def provider_with_secret_def
      get_model_by_id_def tags_of_def Let_def)

theorem reachable_catalog_ok_witness: "catalog_ok catalog_x"
  using reachable_catalog_ok [OF catalog_x_reached] .

theorem set_model_tags_exact_witness:
  "set (tags_of ''m1'' (snd (set_model_tags rev 9 ''m1'' [''slow'', ''cheap''] catalog_x))) = {''slow'', ''cheap''}"
proof -
  have "catalog_ok catalog_x"
    using catalog_x_reached by (rule catalog_runs.reachable_inv)
  moreover obtain m where "get_model_by_id ''m1'' catalog_x = Some m"
    by (simp add: catalog_x_def create_model_def create_provider_def provider_with_secret_def
        get_model_by_id_def Let_def)
  ultimately show ?thesis
    using set_model_tags_exact [of rev catalog_x "''m1''" m 9 "[''slow'', ''cheap'']" "''m1''"] by simp
qed

end
