(* ===== verification/Float64.thy ===== *)
theory Float64
  imports Subagent_Models
begin

text \<open>
  The double-precision arithmetic that the Rust sources use on costs (\<open>f64\<close>), on the 64 bits of a
  value: sum, product, quotient, comparison and the conversion of an unsigned integer, each rounded
  to nearest with ties to even. A finite magnitude is counted in units of the smallest subnormal
  \<open>2 ^ (- 1074)\<close>, so all arithmetic is on natural numbers. The payload of a NaN result is not
  specified by the language; the quiet NaN stands for it.
\<close>

section \<open>Representation\<close>

definition f64_infinity :: nat where
  "f64_infinity = 2047 * 2 ^ 52"

definition f64_nan :: f64_bits where
  "f64_nan = 0x7FF8000000000000"

definition f64_neg :: "f64_bits \<Rightarrow> bool" where
  "f64_neg x = (2 ^ 63 \<le> unat x)"

definition f64_pattern :: "f64_bits \<Rightarrow> nat" where
  "f64_pattern x = unat x mod 2 ^ 63"

text \<open>Exponent field 0 holds the subnormals; a higher one shifts the 53-bit significand.\<close>

definition f64_units :: "nat \<Rightarrow> nat" where
  "f64_units p = (let e = p div 2 ^ 52; f = p mod 2 ^ 52 in if e = 0 then f else (2 ^ 52 + f) * 2 ^ (e - 1))"

datatype f64_class = F_NaN | F_Infinite | F_Finite nat

definition f64_class_of :: "f64_bits \<Rightarrow> f64_class" where
  "f64_class_of x =
     (let p = f64_pattern x
      in if f64_infinity < p then F_NaN else if p = f64_infinity then F_Infinite else F_Finite (f64_units p))"

definition f64_make :: "bool \<Rightarrow> nat \<Rightarrow> f64_bits" where
  "f64_make neg p = word_of_nat ((if neg then 2 ^ 63 else 0) + min p f64_infinity)"

section \<open>Rounding\<close>

fun bit_len :: "nat \<Rightarrow> nat" where
  "bit_len n = (if n = 0 then 0 else Suc (bit_len (n div 2)))"

declare bit_len.simps [simp del]

text \<open>The nearest natural number to \<open>a / d\<close>, the even one of two.\<close>

definition round_even :: "nat \<Rightarrow> nat \<Rightarrow> nat" where
  "round_even a d =
     (let t = a div d; r = a mod d in if 2 * r < d \<or> (2 * r = d \<and> even t) then t else t + 1)"

text \<open>
  The bit pattern nearest to \<open>a / b\<close> units. A significand that is rounded up to \<open>2 ^ 53\<close> carries into
  the exponent field, which is the same pattern as the next exponent's first.
\<close>

definition f64_shift :: "nat \<Rightarrow> nat \<Rightarrow> nat" where
  "f64_shift a b = bit_len (a div b) - 53"

definition f64_round :: "nat \<Rightarrow> nat \<Rightarrow> nat" where
  "f64_round a b = (let k = f64_shift a b in k * 2 ^ 52 + round_even a (b * 2 ^ k))"

section \<open>Operations\<close>

definition f64_signed :: "f64_bits \<Rightarrow> nat \<Rightarrow> int" where
  "f64_signed x n = (if f64_neg x then - int n else int n)"

definition f64_add :: "f64_bits \<Rightarrow> f64_bits \<Rightarrow> f64_bits" where
  "f64_add x y =
     (case (f64_class_of x, f64_class_of y) of
        (F_NaN, _) \<Rightarrow> f64_nan
      | (_, F_NaN) \<Rightarrow> f64_nan
      | (F_Infinite, F_Infinite) \<Rightarrow> if f64_neg x = f64_neg y then x else f64_nan
      | (F_Infinite, _) \<Rightarrow> x
      | (_, F_Infinite) \<Rightarrow> y
      | (F_Finite a, F_Finite b) \<Rightarrow>
          (let s = f64_signed x a + f64_signed y b
           in if s = 0 then f64_make (f64_neg x \<and> f64_neg y) 0 else f64_make (s < 0) (f64_round (nat \<bar>s\<bar>) 1)))"

definition f64_mul :: "f64_bits \<Rightarrow> f64_bits \<Rightarrow> f64_bits" where
  "f64_mul x y =
     (let s = (f64_neg x \<noteq> f64_neg y)
      in case (f64_class_of x, f64_class_of y) of
           (F_NaN, _) \<Rightarrow> f64_nan
         | (_, F_NaN) \<Rightarrow> f64_nan
         | (F_Infinite, F_Finite b) \<Rightarrow> if b = 0 then f64_nan else f64_make s f64_infinity
         | (F_Finite a, F_Infinite) \<Rightarrow> if a = 0 then f64_nan else f64_make s f64_infinity
         | (F_Infinite, F_Infinite) \<Rightarrow> f64_make s f64_infinity
         | (F_Finite a, F_Finite b) \<Rightarrow> f64_make s (f64_round (a * b) (2 ^ 1074)))"

definition f64_div :: "f64_bits \<Rightarrow> f64_bits \<Rightarrow> f64_bits" where
  "f64_div x y =
     (let s = (f64_neg x \<noteq> f64_neg y)
      in case (f64_class_of x, f64_class_of y) of
           (F_NaN, _) \<Rightarrow> f64_nan
         | (_, F_NaN) \<Rightarrow> f64_nan
         | (F_Infinite, F_Infinite) \<Rightarrow> f64_nan
         | (F_Infinite, F_Finite b) \<Rightarrow> f64_make s f64_infinity
         | (F_Finite a, F_Infinite) \<Rightarrow> f64_make s 0
         | (F_Finite a, F_Finite b) \<Rightarrow>
             if b = 0 then (if a = 0 then f64_nan else f64_make s f64_infinity)
             else f64_make s (f64_round (a * 2 ^ 1074) b))"

definition f64_of_nat :: "nat \<Rightarrow> f64_bits" where
  "f64_of_nat n = f64_make False (f64_round (n * 2 ^ 1074) 1)"

text \<open>\<open><\<close>: false on a NaN; the two zeros are equal.\<close>

definition f64_less :: "f64_bits \<Rightarrow> f64_bits \<Rightarrow> bool" where
  "f64_less x y =
     (f64_class_of x \<noteq> F_NaN \<and> f64_class_of y \<noteq> F_NaN
      \<and> (let a = f64_signed x (f64_pattern x); b = f64_signed y (f64_pattern y) in a < b))"

definition f64_is_finite :: "f64_bits \<Rightarrow> bool" where
  "f64_is_finite x = (f64_pattern x < f64_infinity)"

section \<open>Rounding is monotone\<close>

lemma bit_len_0 [simp]: "bit_len 0 = 0"
  by (simp add: bit_len.simps)

lemma bit_len_upper: "n < 2 ^ bit_len n"
proof (induction n rule: bit_len.induct)
  case (1 n)
  then show ?case
    by (cases "n = 0") (simp_all add: bit_len.simps [of n] less_mult_imp_div_less div_less_iff_less_mult mult.commute)
qed

lemma bit_len_lower: "0 < n \<Longrightarrow> 2 ^ (bit_len n - 1) \<le> n"
proof (induction n rule: bit_len.induct)
  case (1 n)
  show ?case
  proof (cases "n div 2 = 0")
    case True
    then have "n = 1" using 1 by simp
    then show ?thesis by (simp add: bit_len.simps)
  next
    case False
    with 1 have "2 ^ (bit_len (n div 2) - 1) \<le> n div 2" by simp
    moreover have "0 < bit_len (n div 2)"
      using False bit_len_upper [of "n div 2"] by (cases "bit_len (n div 2)") auto
    ultimately show ?thesis
      using 1(2) by (cases "bit_len (n div 2)") (auto simp: bit_len.simps [of n])
  qed
qed

lemma bit_len_mono: "m \<le> n \<Longrightarrow> bit_len m \<le> bit_len n"
proof (cases "m = 0")
  case False
  assume "m \<le> n"
  then have "(2::nat) ^ (bit_len m - 1) < 2 ^ bit_len n"
    using bit_len_lower [of m] bit_len_upper [of n] False by linarith
  then show ?thesis by simp
qed simp

lemma div_cross_mono:
  assumes "0 < b" "0 < b'" "a * b' \<le> a' * b"
  shows "a div b \<le> a' div (b' :: nat)"
proof -
  have "a div b * b' * b \<le> a * b'"
    by (metis div_times_less_eq_dividend mult.assoc mult.commute mult_le_mono1)
  then have "a div b * b' \<le> a'"
    using assms by (metis le_trans mult_le_cancel2)
  then show ?thesis
    using assms(2) by (simp add: less_eq_div_iff_mult_less_eq)
qed

lemma round_even_mono:
  assumes d: "0 < d" "0 < d'" and le: "a * d' \<le> a' * d"
  shows "round_even a d \<le> round_even a' d'"
proof -
  have t: "a div d \<le> a' div d'"
    using div_cross_mono [OF d le] .
  show ?thesis
  proof (cases "a div d = a' div d'")
    case False
    with t show ?thesis by (simp add: round_even_def Let_def)
  next
    case True
    define r r' where "r = a mod d" and "r' = a' mod d'"
    have e: "a = a div d * d + r" "a' = a div d * d' + r'"
      unfolding r_def r'_def by simp (simp add: True)
    have "(a div d * d + r) * d' \<le> (a div d * d' + r') * d"
      using le e by simp
    then have "r * d' \<le> r' * d"
      by (simp add: algebra_simps)
    then have "2 * r * d' \<le> 2 * r' * d" by simp
    moreover have "2 * r * d' \<ge> d * d'" if "d \<le> 2 * r"
      using that by (rule mult_le_mono1)
    moreover have "2 * r * d' > d * d'" if "d < 2 * r"
      using that d by simp
    ultimately have "d \<le> 2 * r \<Longrightarrow> d' \<le> 2 * r'" "d < 2 * r \<Longrightarrow> d' < 2 * r'"
      using d by (metis le_trans mult.commute mult_le_cancel2, metis leD leI le_trans less_le_trans mult.commute mult_le_cancel2 mult_less_cancel2)
    with True show ?thesis
      unfolding round_even_def Let_def r_def [symmetric] r'_def [symmetric] by auto
  qed
qed

lemma round_even_le: "0 < d \<Longrightarrow> a \<le> m * d \<Longrightarrow> round_even a d \<le> m"
  using round_even_mono [of d 1 a m] by (simp add: round_even_def)

lemma le_round_even: "0 < d \<Longrightarrow> m * d \<le> a \<Longrightarrow> m \<le> round_even a d"
  using round_even_mono [of 1 d m a] by (simp add: round_even_def)

lemma round_even_exact [simp]: "0 < d \<Longrightarrow> round_even (m * d) d = m"
  by (simp add: round_even_def)

lemma shifted_upper:
  assumes "0 < b"
  shows "a \<le> 2 ^ 53 * (b * 2 ^ f64_shift a b)"
proof -
  have "a div b < 2 ^ (53 + f64_shift a b)"
    by (rule less_le_trans [OF bit_len_upper]) (simp add: f64_shift_def)
  then have "a < 2 ^ (53 + f64_shift a b) * b"
    using assms by (simp add: div_less_iff_less_mult)
  then show ?thesis
    by (simp add: power_add algebra_simps)
qed

lemma shifted_lower:
  assumes "0 < b" "0 < f64_shift a b"
  shows "2 ^ 52 * (b * 2 ^ f64_shift a b) \<le> a"
proof -
  have "0 < a div b"
    using assms(2) by (cases "a div b") (simp_all add: f64_shift_def)
  moreover have "52 + f64_shift a b = bit_len (a div b) - 1"
    using assms(2) by (simp add: f64_shift_def)
  ultimately have "2 ^ (52 + f64_shift a b) \<le> a div b"
    using bit_len_lower [of "a div b"] by simp
  then have "2 ^ (52 + f64_shift a b) * b \<le> a"
    using assms(1) by (simp add: less_eq_div_iff_mult_less_eq)
  then show ?thesis
    by (simp add: power_add algebra_simps)
qed

theorem f64_round_mono:
  assumes "0 < b" "0 < b'" "a * b' \<le> a' * b"
  shows "f64_round a b \<le> f64_round a' b'"
proof -
  let ?k = "f64_shift a b" and ?k' = "f64_shift a' b'"
  have "?k \<le> ?k'"
    using bit_len_mono [OF div_cross_mono [OF assms]] by (simp add: f64_shift_def)
  then consider "?k = ?k'" | "?k < ?k'" by linarith
  then show ?thesis
  proof cases
    case 1
    have "a * (b' * 2 ^ ?k') \<le> a' * (b * 2 ^ ?k)"
      using assms(3) 1 by (simp flip: mult.assoc)
    then show ?thesis
      using 1 assms round_even_mono [of "b * 2 ^ ?k" "b' * 2 ^ ?k'" a a'] by (simp add: f64_round_def Let_def)
  next
    case 2
    have "round_even a (b * 2 ^ ?k) \<le> 2 ^ 53"
      using assms(1) shifted_upper [OF assms(1)] by (intro round_even_le) simp_all
    moreover have "2 ^ 52 \<le> round_even a' (b' * 2 ^ ?k')"
      using assms(2) shifted_lower [OF assms(2)] 2 by (intro le_round_even) simp_all
    moreover have "(?k + 1) * 2 ^ 52 \<le> ?k' * 2 ^ 52"
      using 2 by (intro mult_le_mono1) simp
    ultimately show ?thesis
      by (simp add: f64_round_def Let_def)
  qed
qed

section \<open>Values that are not negative\<close>

text \<open>Zero, the positive values and the positive infinity: the patterns of these are in their order.\<close>

definition f64_nonneg :: "f64_bits \<Rightarrow> bool" where
  "f64_nonneg x = (unat x \<le> f64_infinity)"

lemma f64_infinity_less: "f64_infinity < 2 ^ 63"
  by (simp add: f64_infinity_def)

lemma unat_make [simp]: "unat (f64_make False p) = min p f64_infinity"
proof -
  have "min p f64_infinity < 2 ^ 64"
    using f64_infinity_less by simp
  then show ?thesis
    by (simp add: f64_make_def unat_of_nat take_bit_nat_eq_self)
qed

lemma nonneg_make [simp]: "f64_nonneg (f64_make False p)"
  by (simp add: f64_nonneg_def)

lemma nonneg_of_nat [simp]: "f64_nonneg (f64_of_nat n)"
  by (simp add: f64_of_nat_def)

lemma nonneg_pattern: "f64_nonneg x \<Longrightarrow> f64_pattern x = unat x"
  using f64_infinity_less by (simp add: f64_nonneg_def f64_pattern_def)

lemma nonneg_neg [simp]: "f64_nonneg x \<Longrightarrow> \<not> f64_neg x"
  using f64_infinity_less by (simp add: f64_nonneg_def f64_neg_def)

lemma nonneg_class:
  "f64_nonneg x \<Longrightarrow> f64_class_of x = (if unat x = f64_infinity then F_Infinite else F_Finite (f64_units (unat x)))"
  by (simp add: f64_class_of_def Let_def nonneg_pattern) (simp add: f64_nonneg_def)

lemma f64_units_mono:
  assumes "p \<le> q"
  shows "f64_units p \<le> f64_units q"
proof -
  define e e' f f' where d: "e = p div 2 ^ 52" "e' = q div 2 ^ 52" "f = p mod 2 ^ 52" "f' = q mod (2 ^ 52 :: nat)"
  have le: "e \<le> e'"
    using assms by (simp add: d div_le_mono)
  have lt: "f < 2 ^ 52" by (simp add: d)
  show ?thesis
  proof (cases "e = e'")
    case True
    then have "f \<le> f'"
      using assms d by (metis add_le_cancel_left div_mult_mod_eq)
    then show ?thesis
      using True unfolding f64_units_def Let_def d [symmetric] by simp
  next
    case False
    with le have lt': "e < e'" by simp
    have a: "f64_units p \<le> 2 ^ 52 * 2 ^ e"
    proof (cases e)
      case 0
      then show ?thesis using lt unfolding f64_units_def Let_def d [symmetric] by simp
    next
      case (Suc n)
      have "(2 ^ 52 + f) * 2 ^ n \<le> (2 ^ 52 + 2 ^ 52) * 2 ^ n"
        using lt by (intro mult_le_mono1) simp
      then show ?thesis
        using Suc unfolding f64_units_def Let_def d [symmetric] by simp
    qed
    have "(2::nat) ^ e \<le> 2 ^ (e' - 1)"
      using lt' by (intro power_increasing) simp_all
    then have "(2::nat) ^ 52 * 2 ^ e \<le> (2 ^ 52 + f') * 2 ^ (e' - 1)"
      by (intro mult_le_mono) simp_all
    with a show ?thesis
      using lt' unfolding f64_units_def Let_def d [symmetric] by simp
  qed
qed

lemma f64_units_pos: "0 < p \<Longrightarrow> 0 < f64_units p"
proof -
  assume "0 < p"
  then have "p div 2 ^ 52 = 0 \<Longrightarrow> p mod 2 ^ 52 \<noteq> 0"
    by (metis div_mult_mod_eq mult_is_0 add_0 less_irrefl)
  then show ?thesis
    by (auto simp: f64_units_def Let_def)
qed

lemma round_zero [simp]: "f64_round 0 b = 0"
  by (auto simp: f64_round_def f64_shift_def round_even_def)

text \<open>The three operations on such values.\<close>

lemma add_nonneg:
  assumes "f64_nonneg x" "f64_nonneg y"
  shows "f64_nonneg (f64_add x y)"
    and "unat (f64_add x y) =
      (if unat x = f64_infinity \<or> unat y = f64_infinity then f64_infinity
       else min (f64_round (f64_units (unat x) + f64_units (unat y)) 1) f64_infinity)"
proof -
  have eq: "f64_add x y = (if unat x = f64_infinity then x else if unat y = f64_infinity then y
      else f64_make False (f64_round (f64_units (unat x) + f64_units (unat y)) 1))"
    using assms by (auto simp: f64_add_def nonneg_class f64_signed_def Let_def simp flip: of_nat_add)
  then show "f64_nonneg (f64_add x y)"
    using assms by simp
  from eq show "unat (f64_add x y) =
      (if unat x = f64_infinity \<or> unat y = f64_infinity then f64_infinity
       else min (f64_round (f64_units (unat x) + f64_units (unat y)) 1) f64_infinity)"
    by simp
qed

lemma f64_add_mono:
  assumes "f64_nonneg x" "f64_nonneg y" "f64_nonneg x'" "f64_nonneg y'" "x \<le> x'" "y \<le> y'"
  shows "f64_add x y \<le> f64_add x' y'"
proof -
  have le: "unat x \<le> unat x'" "unat y \<le> unat y'"
    using assms by (simp_all add: word_le_nat_alt)
  then have "f64_units (unat x) + f64_units (unat y) \<le> f64_units (unat x') + f64_units (unat y')"
    by (intro add_mono f64_units_mono)
  then have "f64_round (f64_units (unat x) + f64_units (unat y)) 1 \<le> f64_round (f64_units (unat x') + f64_units (unat y')) 1"
    by (intro f64_round_mono) simp_all
  then show ?thesis
    using le assms by (auto simp: word_le_nat_alt add_nonneg(2) f64_nonneg_def)
qed

lemma mul_finite:
  assumes "f64_nonneg x" "f64_nonneg y" "unat x \<noteq> f64_infinity" "unat y \<noteq> f64_infinity"
  shows "f64_mul x y = f64_make False (f64_round (f64_units (unat x) * f64_units (unat y)) (2 ^ 1074))"
  using assms by (simp add: f64_mul_def nonneg_class)

lemma mul_pos:
  assumes "f64_nonneg x" "f64_nonneg y" "unat y \<noteq> f64_infinity" "0 < unat y"
  shows "f64_mul x y = (if unat x = f64_infinity then f64_make False f64_infinity
      else f64_make False (f64_round (f64_units (unat x) * f64_units (unat y)) (2 ^ 1074)))"
  using assms f64_units_pos [of "unat y"] by (simp add: f64_mul_def nonneg_class)

lemma div_pos:
  assumes "f64_nonneg x" "f64_nonneg y" "unat y \<noteq> f64_infinity" "0 < unat y"
  shows "f64_div x y = (if unat x = f64_infinity then f64_make False f64_infinity
      else f64_make False (f64_round (f64_units (unat x) * 2 ^ 1074) (f64_units (unat y))))"
  using assms f64_units_pos [of "unat y"] by (simp add: f64_div_def nonneg_class)

lemma f64_make_mono: "p \<le> q \<Longrightarrow> f64_make False p \<le> f64_make False q"
  by (simp add: word_le_nat_alt)

lemma f64_mul_mono:
  assumes "f64_nonneg x" "f64_nonneg x'" "f64_nonneg y" "unat x' \<noteq> f64_infinity" "unat y \<noteq> f64_infinity" "x \<le> x'"
  shows "f64_mul x y \<le> f64_mul x' y"
proof -
  have "unat x \<le> unat x'" using assms by (simp add: word_le_nat_alt)
  moreover from this have "unat x \<noteq> f64_infinity"
    using assms by (auto simp: f64_nonneg_def)
  moreover have "f64_units (unat x) * f64_units (unat y) \<le> f64_units (unat x') * f64_units (unat y)"
    using calculation by (intro mult_le_mono1 f64_units_mono)
  ultimately show ?thesis
    using assms by (simp add: mul_finite f64_make_mono f64_round_mono)
qed

lemma f64_mul_pos_mono:
  assumes "f64_nonneg x" "f64_nonneg x'" "f64_nonneg y" "unat y \<noteq> f64_infinity" "0 < unat y" "x \<le> x'"
  shows "f64_mul x y \<le> f64_mul x' y"
proof (cases "unat x' = f64_infinity")
  case True
  then show ?thesis
    using assms by (simp add: mul_pos f64_make_mono word_le_nat_alt)
next
  case False
  then show ?thesis
    using assms by (intro f64_mul_mono) simp_all
qed

lemma f64_div_mono:
  assumes "f64_nonneg x" "f64_nonneg x'" "f64_nonneg y" "unat y \<noteq> f64_infinity" "0 < unat y" "x \<le> x'"
  shows "f64_div x y \<le> f64_div x' y"
proof (cases "unat x' = f64_infinity")
  case True
  then show ?thesis
    using assms by (simp add: div_pos word_le_nat_alt)
next
  case False
  have le: "unat x \<le> unat x'" using assms by (simp add: word_le_nat_alt)
  then have "unat x \<noteq> f64_infinity"
    using assms False by (auto simp: f64_nonneg_def)
  moreover have "f64_units (unat x) * 2 ^ 1074 * f64_units (unat y) \<le> f64_units (unat x') * 2 ^ 1074 * f64_units (unat y)"
    using le by (intro mult_le_mono1 f64_units_mono)
  ultimately show ?thesis
    using assms False f64_units_pos [of "unat y"] by (simp add: div_pos f64_make_mono f64_round_mono)
qed

lemma f64_of_nat_mono: "m \<le> n \<Longrightarrow> f64_of_nat m \<le> f64_of_nat n"
  by (simp add: f64_of_nat_def f64_make_mono f64_round_mono)

section \<open>Exact results\<close>

lemma bit_len_eq: "2 ^ k \<le> n \<Longrightarrow> n < 2 ^ Suc k \<Longrightarrow> bit_len n = Suc k"
proof -
  assume a: "2 ^ k \<le> n" "n < 2 ^ Suc k"
  have "(2::nat) ^ k < 2 ^ bit_len n"
    using a(1) bit_len_upper [of n] by linarith
  moreover have "(2::nat) ^ (bit_len n - 1) < 2 ^ Suc k"
    using a bit_len_lower [of n] by (metis le_less_trans less_le_trans zero_less_numeral zero_less_power)
  ultimately show ?thesis
    by (simp only: power_strict_increasing_iff one_less_numeral_iff semiring_norm)
qed

lemma bit_len_le: "n < 2 ^ k \<Longrightarrow> bit_len n \<le> k"
proof (cases "n = 0")
  case False
  assume "n < 2 ^ k"
  then have "(2::nat) ^ (bit_len n - 1) < 2 ^ k"
    using bit_len_lower [of n] False by linarith
  then show ?thesis by simp
qed simp

text \<open>A value survives the trip through its units: rounding adds nothing where nothing is to round.\<close>

theorem f64_round_units: "f64_round (f64_units p) 1 = p"
proof (cases "p div 2 ^ 52")
  case 0
  then have "p < 2 ^ 52" by (simp add: div_eq_0_iff)
  then have "f64_units p = p" "bit_len p \<le> 52"
    using bit_len_le by (simp_all add: f64_units_def)
  then show ?thesis
    by (simp add: f64_round_def f64_shift_def round_even_def)
next
  case (Suc e)
  define f where "f = p mod 2 ^ 52"
  have lt: "f < 2 ^ 52" by (simp add: f_def)
  have p: "p = 2 ^ 52 * Suc e + f"
    by (metis Suc div_mult_mod_eq f_def mult.commute)
  have u: "f64_units p = (2 ^ 52 + f) * 2 ^ e"
    using Suc by (simp add: f64_units_def f_def)
  have "(2 ^ 52 + f) * 2 ^ e < 2 ^ 53 * 2 ^ e"
    using lt by simp
  then have "f64_units p < 2 ^ Suc (52 + e)"
    by (simp add: u power_add)
  moreover have "2 ^ (52 + e) \<le> f64_units p"
    by (simp add: u power_add)
  ultimately have "f64_shift (f64_units p) 1 = e"
    using bit_len_eq [of "52 + e" "f64_units p"] by (simp add: f64_shift_def)
  then show ?thesis
    using u p by (simp add: f64_round_def)
qed

lemma f64_nonneg_0 [simp]: "f64_nonneg 0"
  by (simp add: f64_nonneg_def)

lemma f64_add_0: "f64_nonneg x \<Longrightarrow> f64_add x 0 = x"
proof -
  assume x: "f64_nonneg x"
  have "f64_units 0 = 0" "0 \<noteq> f64_infinity"
    by (simp_all add: f64_units_def f64_infinity_def)
  then have "unat (f64_add x 0) = unat x"
    using x f64_round_units [of "unat x"] by (simp add: add_nonneg f64_nonneg_def)
  then show ?thesis by (rule unsigned_word_eqI)
qed

lemma f64_add_increasing:
  assumes "f64_nonneg x" "f64_nonneg y"
  shows "x \<le> f64_add x y"
  using f64_add_mono [of x 0 x y] assms by (simp add: f64_add_0)

lemma f64_of_1: "f64_of_nat 1 = 0x3FF0000000000000"
proof -
  have "f64_shift (2 ^ 1074) 1 = 1022"
    using bit_len_eq [of 1074 "2 ^ 1074"] by (simp add: f64_shift_def)
  then have "f64_round (2 ^ 1074) 1 = 0x3FF0000000000000"
    by (simp add: f64_round_def round_even_def)
  then show ?thesis
    by (simp add: f64_of_nat_def f64_make_def f64_infinity_def)
qed

lemma f64_of_u64:
  assumes "n \<le> 2 ^ 64"
  shows "unat (f64_of_nat n) < f64_infinity"
proof -
  have "f64_shift (2 ^ 64 * 2 ^ 1074) 1 = 1086"
    using bit_len_eq [of 1138 "2 ^ 64 * 2 ^ 1074"] by (simp add: f64_shift_def)
  then have "f64_round (2 ^ 64 * 2 ^ 1074) 1 = 1087 * 2 ^ 52"
    by (simp add: f64_round_def round_even_def)
  then have "unat (f64_of_nat (2 ^ 64)) < f64_infinity"
    by (simp add: f64_of_nat_def f64_infinity_def)
  with f64_of_nat_mono [OF assms] show ?thesis
    by (simp add: word_le_nat_alt)
qed

lemma f64_of_pos: "0 < n \<Longrightarrow> 0 < unat (f64_of_nat n)"
  using f64_of_nat_mono [of 1 n] by (simp add: f64_of_1 [simplified] word_le_nat_alt)

text \<open>Not below zero by \<open><\<close>: a positive value, or one of the two zeros.\<close>

definition f64_neg_zero :: f64_bits where
  "f64_neg_zero = 2 ^ 63"

lemma f64_not_below_zero:
  assumes "f64_is_finite v" "\<not> f64_less v 0"
  obtains "f64_nonneg v" "unat v < f64_infinity" | "v = f64_neg_zero"
proof (cases "f64_neg v")
  case False
  then have "unat v < 2 ^ 63" by (simp add: f64_neg_def)
  then have "f64_pattern v = unat v" by (simp add: f64_pattern_def)
  then show ?thesis
    using assms(1) that(1) by (simp add: f64_is_finite_def f64_nonneg_def)
next
  case True
  have "f64_class_of v \<noteq> F_NaN" "f64_class_of 0 \<noteq> F_NaN" "f64_pattern 0 = 0"
    using assms(1) by (simp_all add: f64_is_finite_def f64_class_of_def f64_pattern_def Let_def)
  then have z: "f64_pattern v = 0"
    using assms(2) True by (simp add: f64_less_def f64_signed_def)
  have "unat v < 2 ^ 64" "2 ^ 63 \<le> unat v"
    using True unsigned_less [of v] by (simp_all add: f64_neg_def)
  with z have "unat v = 2 ^ 63"
    unfolding f64_pattern_def by (simp add: mod_if split: if_splits)
  then have "unat v = unat f64_neg_zero"
    by (simp add: f64_neg_zero_def)
  then have "v = f64_neg_zero"
    by (rule unsigned_word_eqI)
  then show ?thesis
    by (rule that(2))
qed

end
