(* ===== verification/Pricing.thy ===== *)
theory Pricing
  imports Codex_Batch Step_Machines Float64
begin

text \<open>
  The price catalog of \<open>busytok-pricing/src/lib.rs\<close>: its data and validation, model resolution, the two
  ways a tier ladder is applied, the cost estimate on binary64 values, and the global catalog with its
  hot reload. JSON decoding and the embedded file are parameters; a log warning is a value of the result.
\<close>

section \<open>The catalog\<close>

datatype tier_mode = Marginal | WholeRequest

record price_tier =
  pt_from_tokens :: "64 word"
  pt_input_per_million :: f64_bits
  pt_output_per_million :: f64_bits
  pt_cached_input_per_million :: "f64_bits option"
  pt_cache_write_per_million :: "f64_bits option"
  pt_cache_storage_per_million_hour :: "f64_bits option"
  pt_reasoning_per_million :: "f64_bits option"

record model_price =
  mp_provider :: string
  mp_model :: string
  mp_currency :: string
  mp_effective_date :: string
  mp_fast_multiplier :: "f64_bits option"
  mp_tier_mode :: tier_mode
  mp_tiers :: "price_tier list"

text \<open>The alias table in the order in which the hash map is walked.\<close>

record full_catalog =
  fc_schema_version :: string
  fc_version :: string
  fc_updated :: string
  fc_aliases :: "(string \<times> string) list"
  fc_prices :: "model_price list"

text \<open>\<open>str::trim\<close> on UTF-8: the encodings of the Unicode white space characters.\<close>

definition white_space :: "string list" where
  "white_space =
     map (\<lambda>c. [c]) [CHR 0x09, CHR 0x0A, CHR 0x0B, CHR 0x0C, CHR 0x0D, CHR '' '']
     @ [[CHR 0xC2, CHR 0x85], [CHR 0xC2, CHR 0xA0], [CHR 0xE1, CHR 0x9A, CHR 0x80]]
     @ map (\<lambda>c. [CHR 0xE2, CHR 0x80, c])
         [CHR 0x80, CHR 0x81, CHR 0x82, CHR 0x83, CHR 0x84, CHR 0x85, CHR 0x86, CHR 0x87, CHR 0x88, CHR 0x89,
          CHR 0x8A, CHR 0xA8, CHR 0xA9, CHR 0xAF]
     @ [[CHR 0xE2, CHR 0x81, CHR 0x9F], [CHR 0xE3, CHR 0x80, CHR 0x80]]"

definition leading :: "string list \<Rightarrow> string \<Rightarrow> nat" where
  "leading seqs s = (case find (\<lambda>w. take (length w) s = w) seqs of None \<Rightarrow> 0 | Some w \<Rightarrow> length w)"

function trim_front :: "string list \<Rightarrow> string \<Rightarrow> string" where
  "trim_front seqs s =
     (let n = leading seqs s in if n = 0 \<or> s = [] then s else trim_front seqs (drop n s))"
  by pat_completeness auto

termination by (relation "measure (length \<circ> snd)") auto

declare trim_front.simps [simp del]

definition trim_text :: "string \<Rightarrow> string" where
  "trim_text s = rev (trim_front (map rev white_space) (rev (trim_front white_space s)))"

definition resolve_model :: "full_catalog \<Rightarrow> string \<Rightarrow> model_price option" where
  "resolve_model c name =
     (let trimmed = trim_text name;
          resolved = unwrap_or trimmed (map_of (fc_aliases c) trimmed)
      in find (\<lambda>p. mp_model p = resolved) (fc_prices c))"

section \<open>Validation\<close>

text \<open>Why a catalog is refused, with what the message shows.\<close>

datatype catalog_fault =
    Unsupported_schema string
  | Empty_version
  | No_prices
  | Duplicate_model string nat
  | Unknown_alias_target string string
  | Empty_provider string
  | Provider_not_lowercase string string
  | Not_usd string string
  | Bad_multiplier string f64_bits
  | Empty_tiers string
  | First_tier_not_zero string "64 word"
  | Not_increasing string "64 word" "64 word"
  | Bad_required string nat string f64_bits
  | Bad_optional string nat string f64_bits

fun first_fault :: "('a \<Rightarrow> catalog_fault option) \<Rightarrow> 'a list \<Rightarrow> catalog_fault option" where
  "first_fault f [] = None"
| "first_fault f (x # xs) = (case f x of None \<Rightarrow> first_fault f xs | Some e \<Rightarrow> Some e)"

definition or_fault :: "catalog_fault option \<Rightarrow> catalog_fault option \<Rightarrow> catalog_fault option" where
  "or_fault a b = (case a of None \<Rightarrow> b | Some e \<Rightarrow> Some e)"

definition fault_if :: "bool \<Rightarrow> catalog_fault \<Rightarrow> catalog_fault option" where
  "fault_if b e = (if b then Some e else None)"

definition check_required :: "string \<Rightarrow> f64_bits \<Rightarrow> string \<Rightarrow> nat \<Rightarrow> catalog_fault option" where
  "check_required name val model ti =
     fault_if (\<not> f64_is_finite val \<or> f64_less val 0) (Bad_required model ti name val)"

definition check_optional :: "string \<Rightarrow> f64_bits option \<Rightarrow> string \<Rightarrow> nat \<Rightarrow> catalog_fault option" where
  "check_optional name val model ti =
     (case val of None \<Rightarrow> None
      | Some v \<Rightarrow> fault_if (\<not> f64_is_finite v \<or> f64_less v 0) (Bad_optional model ti name v))"

definition check_tier :: "string \<Rightarrow> nat \<times> price_tier \<Rightarrow> catalog_fault option" where
  "check_tier model x =
     (case x of (ti, t) \<Rightarrow>
       or_fault (check_required ''input_per_million'' (pt_input_per_million t) model ti)
      (or_fault (check_required ''output_per_million'' (pt_output_per_million t) model ti)
      (or_fault (check_optional ''cached_input_per_million'' (pt_cached_input_per_million t) model ti)
      (or_fault (check_optional ''cache_write_per_million'' (pt_cache_write_per_million t) model ti)
      (or_fault (check_optional ''cache_storage_per_million_hour'' (pt_cache_storage_per_million_hour t) model ti)
                (check_optional ''reasoning_per_million'' (pt_reasoning_per_million t) model ti))))))"

fun check_increasing :: "string \<Rightarrow> price_tier list \<Rightarrow> catalog_fault option" where
  "check_increasing model (a # b # ts) =
     (if pt_from_tokens b \<le> pt_from_tokens a then Some (Not_increasing model (pt_from_tokens a) (pt_from_tokens b))
      else check_increasing model (b # ts))"
| "check_increasing model _ = None"

definition provider_char :: "char \<Rightarrow> bool" where
  "provider_char c = ((97 \<le> (of_char c :: nat) \<and> of_char c \<le> (122 :: nat)) \<or> c = CHR ''-'' \<or> c = CHR ''_'')"

definition check_price :: "model_price \<Rightarrow> catalog_fault option" where
  "check_price mp =
     or_fault (fault_if (trim_text (mp_provider mp) = []) (Empty_provider (mp_model mp)))
    (or_fault (fault_if (\<not> list_all provider_char (mp_provider mp)) (Provider_not_lowercase (mp_model mp) (mp_provider mp)))
    (or_fault (fault_if (mp_currency mp \<noteq> ''USD'') (Not_usd (mp_model mp) (mp_currency mp)))
    (or_fault (case mp_fast_multiplier mp of None \<Rightarrow> None
               | Some fm \<Rightarrow> fault_if (\<not> f64_less 0 fm \<or> \<not> f64_is_finite fm) (Bad_multiplier (mp_model mp) fm))
    (or_fault (fault_if (mp_tiers mp = []) (Empty_tiers (mp_model mp)))
    (or_fault (fault_if (pt_from_tokens (hd (mp_tiers mp)) \<noteq> 0) (First_tier_not_zero (mp_model mp) (pt_from_tokens (hd (mp_tiers mp)))))
    (or_fault (check_increasing (mp_model mp) (mp_tiers mp))
              (first_fault (check_tier (mp_model mp)) (enumerate 0 (mp_tiers mp)))))))))"

fun check_unique :: "nat \<Rightarrow> string list \<Rightarrow> string list \<Rightarrow> catalog_fault option" where
  "check_unique i seen [] = None"
| "check_unique i seen (m # ms) =
     (if m \<in> set seen then Some (Duplicate_model m i) else check_unique (i + 1) (m # seen) ms)"

definition check_alias :: "full_catalog \<Rightarrow> string \<times> string \<Rightarrow> catalog_fault option" where
  "check_alias c x =
     fault_if (\<not> list_ex (\<lambda>p. mp_model p = snd x) (fc_prices c)) (Unknown_alias_target (fst x) (snd x))"

definition validate_catalog :: "full_catalog \<Rightarrow> catalog_fault option" where
  "validate_catalog c =
     or_fault (fault_if (fc_schema_version c \<noteq> ''3'') (Unsupported_schema (fc_schema_version c)))
    (or_fault (fault_if (trim_text (fc_version c) = []) Empty_version)
    (or_fault (fault_if (fc_prices c = []) No_prices)
    (or_fault (check_unique 0 [] (map mp_model (fc_prices c)))
    (or_fault (first_fault (check_alias c) (fc_aliases c))
              (first_fault check_price (fc_prices c))))))"

section \<open>Prices\<close>

definition million :: f64_bits where
  "million = f64_of_nat 1000000"

text \<open>\<open>n as f64 * rate / 1_000_000.0\<close>.\<close>

definition tokens_price :: "64 word \<Rightarrow> f64_bits \<Rightarrow> f64_bits" where
  "tokens_price n rate = f64_div (f64_mul (f64_of_nat (unat n)) rate) million"

fun tier_loop :: "64 word \<Rightarrow> (price_tier \<Rightarrow> f64_bits option) \<Rightarrow> price_tier list \<Rightarrow> f64_bits \<Rightarrow> f64_bits" where
  "tier_loop tokens sel [] cost = cost"
| "tier_loop tokens sel (tier # ts) cost =
     (let tier_start = pt_from_tokens tier;
          tier_end = (case ts of [] \<Rightarrow> - 1 | t # _ \<Rightarrow> pt_from_tokens t)
      in if tokens \<le> tier_start then cost
         else let seg_end = min tier_end tokens;
                  in_tier = seg_end - tier_start
              in tier_loop tokens sel ts
                   (case sel tier of None \<Rightarrow> cost | Some rate \<Rightarrow> f64_add cost (tokens_price in_tier rate)))"

definition price_by_tiers :: "64 word \<Rightarrow> price_tier list \<Rightarrow> (price_tier \<Rightarrow> f64_bits option) \<Rightarrow> f64_bits" where
  "price_by_tiers tokens tiers sel = (if tokens = 0 then 0 else tier_loop tokens sel tiers 0)"

text \<open>\<open>None\<close> is the panic of \<open>expect\<close>.\<close>

definition select_whole_request_tier :: "64 word \<Rightarrow> price_tier list \<Rightarrow> price_tier option" where
  "select_whole_request_tier total_input tiers = find (\<lambda>t. pt_from_tokens t \<le> total_input) (rev tiers)"

definition price_whole_request ::
  "64 word \<Rightarrow> 64 word \<Rightarrow> price_tier list \<Rightarrow> (price_tier \<Rightarrow> f64_bits option) \<Rightarrow> f64_bits option" where
  "price_whole_request total_input tokens tiers sel =
     (if tokens = 0 then Some 0
      else case select_whole_request_tier total_input tiers of
             None \<Rightarrow> None
           | Some tier \<Rightarrow> (case sel tier of Some rate \<Rightarrow> Some (tokens_price tokens rate) | None \<Rightarrow> Some 0))"

definition price_category ::
  "tier_mode \<Rightarrow> 64 word \<Rightarrow> 64 word \<Rightarrow> price_tier list \<Rightarrow> (price_tier \<Rightarrow> f64_bits option) \<Rightarrow> f64_bits option" where
  "price_category mode total_input tokens tiers sel =
     (case mode of
        Marginal \<Rightarrow> Some (price_by_tiers tokens tiers sel)
      | WholeRequest \<Rightarrow> price_whole_request total_input tokens tiers sel)"

definition should_warn_null_price ::
  "tier_mode \<Rightarrow> 64 word \<Rightarrow> price_tier list \<Rightarrow> (price_tier \<Rightarrow> f64_bits option) \<Rightarrow> bool option" where
  "should_warn_null_price mode total_input tiers sel =
     (case mode of
        Marginal \<Rightarrow> Some (list_all (\<lambda>t. sel t = None) tiers)
      | WholeRequest \<Rightarrow> map_option (\<lambda>t. sel t = None) (select_whole_request_tier total_input tiers))"

datatype price_warning = Model_not_found | Cache_read_unpriced | Cache_write_unpriced | Reasoning_unpriced

text \<open>One category: its price is added to the cost, and a missing rate is reported.\<close>

definition add_category ::
  "model_price \<Rightarrow> 64 word \<Rightarrow> (price_warning option) \<Rightarrow> (price_tier \<Rightarrow> f64_bits option) \<Rightarrow> 64 word
    \<Rightarrow> f64_bits \<times> price_warning list \<Rightarrow> (f64_bits \<times> price_warning list) option" where
  "add_category price total_input warning sel tokens acc =
     Option.bind (price_category (mp_tier_mode price) total_input tokens (mp_tiers price) sel)
       (\<lambda>x. let cost = f64_add (fst acc) x
            in case warning of
                 None \<Rightarrow> Some (cost, snd acc)
               | Some w \<Rightarrow>
                   if tokens = 0 then Some (cost, snd acc)
                   else map_option (\<lambda>b. (cost, if b then snd acc @ [w] else snd acc))
                          (should_warn_null_price (mp_tier_mode price) total_input (mp_tiers price) sel))"

definition estimate_tokens :: "model_price \<Rightarrow> token_usage \<Rightarrow> string option \<Rightarrow> (f64_bits \<times> price_warning list) option" where
  "estimate_tokens price usage speed =
     (let inp = tk_input_tokens usage;
          cached = min (tk_cached_input_tokens usage) inp;
          creation = min (tk_cache_creation_tokens usage) (inp - cached);
          non_cached = inp - cached - creation
      in Option.bind (add_category price inp None (\<lambda>t. Some (pt_input_per_million t)) non_cached (0, []))
       (\<lambda>a. Option.bind (add_category price inp (Some Cache_read_unpriced) pt_cached_input_per_million cached a)
       (\<lambda>a. Option.bind (add_category price inp (Some Cache_write_unpriced) pt_cache_write_per_million creation a)
       (\<lambda>a. Option.bind (add_category price inp None (\<lambda>t. Some (pt_output_per_million t)) (tk_output_tokens usage) a)
       (\<lambda>a. Option.bind (add_category price inp (Some Reasoning_unpriced) pt_reasoning_per_million (tk_reasoning_tokens usage) a)
       (\<lambda>(cost, ws). Some
          (if speed = Some ''fast''
           then (case mp_fast_multiplier price of None \<Rightarrow> cost | Some m \<Rightarrow> f64_mul cost m) else cost, ws)))))))"

text \<open>\<open>None\<close>: the panic, which a validated catalog excludes.\<close>

definition estimate_cost_with_catalog ::
  "full_catalog \<Rightarrow> string \<Rightarrow> token_usage \<Rightarrow> f64_bits option \<Rightarrow> string option \<Rightarrow> cost_mode
    \<Rightarrow> (f64_bits option \<times> price_warning list) option" where
  "estimate_cost_with_catalog c model usage source_cost speed mode =
     (if mode = Display then Some (Some (unwrap_or 0 source_cost), [])
      else if mode = Auto \<and> source_cost \<noteq> None then Some (source_cost, [])
      else case resolve_model c model of
             None \<Rightarrow> Some (None, if trim_text model = [] then [] else [Model_not_found])
           | Some price \<Rightarrow> map_option (\<lambda>(cost, ws). (Some cost, ws)) (estimate_tokens price usage speed))"

section \<open>The global catalog\<close>

datatype reload_result =
    Unchanged
  | Reloaded string
  | Invalid catalog_fault
  | Parse_error string
  | Io_error string
  | Missing

record pricing_state =
  pg_catalog :: full_catalog
  pg_mtime_nanos :: int
  pg_file_len :: nat

text \<open>What one look at the file gives: its modification time and length, then its text.\<close>

record catalog_file =
  cf_state :: "(int \<times> nat) option"
  cf_text :: "string + string option"

definition parse_catalog_json ::
  "(string \<Rightarrow> string + full_catalog) \<Rightarrow> string \<Rightarrow> reload_result + full_catalog" where
  "parse_catalog_json json_of text =
     (case json_of text of
        Inl e \<Rightarrow> Inl (Parse_error e)
      | Inr c \<Rightarrow> (case validate_catalog c of Some e \<Rightarrow> Inl (Invalid e) | None \<Rightarrow> Inr c))"

text \<open>The fallback: the embedded text, or the panic of \<open>expect\<close> when that is not valid.\<close>

definition embedded_state ::
  "(string \<Rightarrow> string + full_catalog) \<Rightarrow> string \<Rightarrow> pricing_state option" where
  "embedded_state json_of embedded =
     (case parse_catalog_json json_of embedded of
        Inl _ \<Rightarrow> None
      | Inr c \<Rightarrow> Some \<lparr>pg_catalog = c, pg_mtime_nanos = - (2 ^ 63), pg_file_len = 0\<rparr>)"

definition init_catalog ::
  "(string \<Rightarrow> string + full_catalog) \<Rightarrow> string \<Rightarrow> catalog_file option \<Rightarrow> pricing_state \<Rightarrow> pricing_state option" where
  "init_catalog json_of embedded catalog_path s =
     (case catalog_path of
        None \<Rightarrow> embedded_state json_of embedded
      | Some f \<Rightarrow>
          (case cf_text f of
             Inr (Some content) \<Rightarrow>
               (case parse_catalog_json json_of content of
                  Inr c \<Rightarrow>
                    Some (case cf_state f of
                            None \<Rightarrow> s\<lparr>pg_catalog := c\<rparr>
                          | Some (mtime, len) \<Rightarrow> \<lparr>pg_catalog = c, pg_mtime_nanos = mtime, pg_file_len = len\<rparr>)
                | Inl _ \<Rightarrow> embedded_state json_of embedded)
           | _ \<Rightarrow> embedded_state json_of embedded))"

definition try_reload_catalog ::
  "(string \<Rightarrow> string + full_catalog) \<Rightarrow> catalog_file \<Rightarrow> pricing_state \<Rightarrow> reload_result \<times> pricing_state" where
  "try_reload_catalog json_of f s =
     (case cf_state f of
        None \<Rightarrow> (Missing, s)
      | Some (mtime, len) \<Rightarrow>
          if mtime = pg_mtime_nanos s \<and> len = pg_file_len s then (Unchanged, s)
          else (case cf_text f of
                  Inr None \<Rightarrow> (Missing, s)
                | Inl e \<Rightarrow> (Io_error e, s)
                | Inr (Some content) \<Rightarrow>
                    (case parse_catalog_json json_of content of
                       Inl r \<Rightarrow> (r, s)
                     | Inr c \<Rightarrow> (Reloaded (fc_version c), \<lparr>pg_catalog = c, pg_mtime_nanos = mtime, pg_file_len = len\<rparr>))))"

text \<open>The estimate that the scanner calls, over the loaded catalog.\<close>

definition estimate_cost_usd ::
  "pricing_state \<Rightarrow> string \<Rightarrow> token_usage \<Rightarrow> f64_bits option \<Rightarrow> string option \<Rightarrow> cost_mode
    \<Rightarrow> (f64_bits option \<times> price_warning list) option" where
  "estimate_cost_usd s = estimate_cost_with_catalog (pg_catalog s)"

definition loaded_prices :: "pricing_state \<Rightarrow> price_catalog" where
  "loaded_prices s =
     \<lparr>pk_version = fc_version (pg_catalog s),
      pk_estimate = (\<lambda>model usage cost speed mode.
        Option.bind (estimate_cost_usd s model usage cost speed mode) fst)\<rparr>"

section \<open>What validation gives\<close>

lemma or_fault_None [simp]: "or_fault a b = None \<longleftrightarrow> a = None \<and> b = None"
  by (simp add: or_fault_def split: option.split)

lemma fault_if_None [simp]: "fault_if b e = None \<longleftrightarrow> \<not> b"
  by (simp add: fault_if_def)

lemma first_fault_None [simp]: "first_fault f xs = None \<longleftrightarrow> (\<forall>x\<in>set xs. f x = None)"
  by (induction xs) (auto split: option.split)

lemma check_unique_None: "check_unique i seen ms = None \<longleftrightarrow> distinct ms \<and> set ms \<inter> set seen = {}"
  by (induction i seen ms rule: check_unique.induct) auto

lemma check_increasing_None:
  "check_increasing model ts = None \<longleftrightarrow> sorted_wrt (<) (map pt_from_tokens ts)"
  by (induction model ts rule: check_increasing.induct) (auto simp: not_le intro: less_trans)

definition rate_ok :: "f64_bits \<Rightarrow> bool" where
  "rate_ok v = (f64_is_finite v \<and> \<not> f64_less v 0)"

definition tier_ok :: "price_tier \<Rightarrow> bool" where
  "tier_ok t =
     (rate_ok (pt_input_per_million t) \<and> rate_ok (pt_output_per_million t)
      \<and> pred_option rate_ok (pt_cached_input_per_million t) \<and> pred_option rate_ok (pt_cache_write_per_million t)
      \<and> pred_option rate_ok (pt_cache_storage_per_million_hour t) \<and> pred_option rate_ok (pt_reasoning_per_million t))"

definition price_ok :: "model_price \<Rightarrow> bool" where
  "price_ok mp =
     (mp_tiers mp \<noteq> [] \<and> pt_from_tokens (hd (mp_tiers mp)) = 0 \<and> sorted_wrt (<) (map pt_from_tokens (mp_tiers mp))
      \<and> list_all tier_ok (mp_tiers mp)
      \<and> pred_option (\<lambda>m. f64_less 0 m \<and> f64_is_finite m) (mp_fast_multiplier mp))"

lemma check_tier_None: "check_tier m (i, t) = None \<longleftrightarrow> tier_ok t"
  by (auto simp: check_tier_def check_required_def check_optional_def tier_ok_def rate_ok_def pred_option_def
      split: option.splits)

lemma check_tiers_None: "(\<forall>x\<in>set (enumerate 0 ts). check_tier m x = None) \<longleftrightarrow> list_all tier_ok ts"
proof
  assume a: "\<forall>x\<in>set (enumerate 0 ts). check_tier m x = None"
  have "tier_ok (ts ! i)" if "i < length ts" for i
  proof -
    have "(i, ts ! i) \<in> set (enumerate 0 ts)"
      using that by (simp add: in_set_enumerate_eq)
    with a show ?thesis using check_tier_None by blast
  qed
  then show "list_all tier_ok ts" by (simp add: list_all_length)
qed (auto simp: list_all_length in_set_enumerate_eq check_tier_None)

lemma check_price_ok: "check_price mp = None \<Longrightarrow> price_ok mp"
  by (auto simp: check_price_def price_ok_def check_increasing_None check_tiers_None split: option.splits)

lemma validated_prices: "validate_catalog c = None \<Longrightarrow> p \<in> set (fc_prices c) \<Longrightarrow> price_ok p"
  by (simp add: validate_catalog_def check_price_ok)

lemma resolved_price_ok: "validate_catalog c = None \<Longrightarrow> resolve_model c m = Some p \<Longrightarrow> price_ok p"
  by (auto simp: resolve_model_def Let_def find_Some_iff intro!: validated_prices)

section \<open>One term of the sum\<close>

lemma million_pos [simp]: "f64_nonneg million" "unat million \<noteq> f64_infinity" "0 < unat million"
  using f64_of_u64 [of 1000000] f64_of_pos [of 1000000] by (simp_all add: million_def)

lemma neg_zero_product:
  assumes "n \<le> 2 ^ 64"
  shows "f64_mul (f64_of_nat n) f64_neg_zero = f64_neg_zero"
proof -
  have "f64_class_of f64_neg_zero = F_Finite 0" "f64_neg f64_neg_zero" "f64_make True 0 = f64_neg_zero"
    by (simp_all add: f64_class_of_def f64_pattern_def f64_neg_zero_def f64_neg_def f64_units_def
        f64_infinity_def f64_make_def)
  moreover have "unat (f64_of_nat n) \<noteq> f64_infinity"
    using f64_of_u64 [OF assms] by simp
  ultimately show ?thesis
    by (simp add: f64_mul_def nonneg_class)
qed

lemma neg_zero_quotient: "f64_div f64_neg_zero million = f64_neg_zero"
proof -
  have "f64_class_of f64_neg_zero = F_Finite 0" "f64_neg f64_neg_zero" "f64_make True 0 = f64_neg_zero"
    by (simp_all add: f64_class_of_def f64_pattern_def f64_neg_zero_def f64_neg_def f64_units_def
        f64_infinity_def f64_make_def)
  then show ?thesis
    using f64_units_pos [of "unat million"] by (simp add: f64_div_def nonneg_class)
qed

lemma add_neg_zero:
  assumes "f64_nonneg x"
  shows "f64_add x f64_neg_zero = x"
proof -
  have z: "f64_class_of f64_neg_zero = F_Finite 0" "f64_neg f64_neg_zero"
    by (simp_all add: f64_class_of_def f64_pattern_def f64_neg_zero_def f64_neg_def f64_units_def
        f64_infinity_def)
  have "f64_class_of 0 = F_Finite 0" "\<not> f64_neg 0"
    by (simp_all add: f64_class_of_def f64_pattern_def f64_neg_def f64_units_def f64_infinity_def)
  with z assms have "f64_add x f64_neg_zero = f64_add x 0"
    by (simp add: f64_add_def nonneg_class f64_signed_def Let_def)
  then show ?thesis
    using assms by (simp add: f64_add_0)
qed

definition term_value :: "64 word \<Rightarrow> f64_bits \<Rightarrow> f64_bits" where
  "term_value n r = (if r = f64_neg_zero then 0 else tokens_price n r)"

lemma u64_le: "unat (n :: 64 word) \<le> 2 ^ 64"
proof -
  have "unat n < 2 ^ LENGTH(64)" by (rule unsigned_less)
  then show ?thesis by simp
qed

lemma add_term: "f64_nonneg x \<Longrightarrow> f64_add x (tokens_price n r) = f64_add x (term_value n r)"
  by (simp add: term_value_def tokens_price_def neg_zero_product [OF u64_le] neg_zero_quotient add_neg_zero f64_add_0)

lemma rate_okE:
  assumes "rate_ok r"
  obtains "f64_nonneg r" "unat r < f64_infinity" | "r = f64_neg_zero"
  using assms f64_not_below_zero unfolding rate_ok_def by blast

lemma u64_finite: "f64_nonneg (f64_of_nat (unat (n :: 64 word))) \<and> unat (f64_of_nat (unat n)) \<noteq> f64_infinity"
  using f64_of_u64 [OF u64_le, of n] by simp

lemma term_mono:
  assumes "rate_ok r" "m \<le> n"
  shows "f64_nonneg (term_value m r) \<and> term_value m r \<le> term_value n r"
  using assms(1)
proof (cases rule: rate_okE)
  case 1
  let ?f = "\<lambda>n. f64_mul (f64_of_nat (unat n)) r"
  have nn: "f64_nonneg (?f k)" for k :: "64 word"
    using 1 u64_finite [of k] by (simp add: mul_finite)
  have "?f m \<le> ?f n"
    using 1 u64_finite [of n] assms(2) by (intro f64_mul_mono f64_of_nat_mono) (auto simp: word_le_nat_alt)
  then have "f64_div (?f m) million \<le> f64_div (?f n) million"
    by (intro f64_div_mono nn) simp_all
  moreover have "f64_nonneg (f64_div (?f m) million)"
    using nn by (simp add: div_pos)
  ultimately show ?thesis
    by (simp add: term_value_def tokens_price_def)
qed (simp add: term_value_def)

section \<open>The two ladders are monotone\<close>

definition rates_ok :: "price_tier list \<Rightarrow> (price_tier \<Rightarrow> f64_bits option) \<Rightarrow> bool" where
  "rates_ok ts sel = list_all (\<lambda>t. pred_option rate_ok (sel t)) ts"

lemma tier_step:
  assumes "pred_option rate_ok v" "m \<le> n" "f64_nonneg c" "f64_nonneg d" "c \<le> d"
  defines "add \<equiv> \<lambda>k x. case v of None \<Rightarrow> x | Some r \<Rightarrow> f64_add x (tokens_price k r)"
  shows "f64_nonneg (add m c)" "add m c \<le> add n d" "c \<le> add m c"
  using assms term_mono [of _ m n] term_mono [of _ n n]
  by (auto simp: pred_option_def add_term split: option.split intro!: add_nonneg f64_add_mono f64_add_increasing)

lemma tier_loop_increasing:
  "rates_ok ts sel \<Longrightarrow> f64_nonneg c \<Longrightarrow> f64_nonneg (tier_loop n sel ts c) \<and> c \<le> tier_loop n sel ts c"
proof (induction ts arbitrary: c)
  case (Cons t ts)
  define k where "k = min (case ts of [] \<Rightarrow> - 1 | t # _ \<Rightarrow> pt_from_tokens t) n - pt_from_tokens t"
  let ?c = "case sel t of None \<Rightarrow> c | Some r \<Rightarrow> f64_add c (tokens_price k r)"
  have "f64_nonneg ?c" "c \<le> ?c"
    using tier_step [of "sel t" k k c c] Cons.prems by (simp_all add: rates_ok_def)
  moreover have "rates_ok ts sel"
    using Cons.prems by (simp add: rates_ok_def)
  ultimately show ?case
    using Cons.IH [of ?c] Cons.prems unfolding tier_loop.simps Let_def k_def [symmetric] by auto
qed simp

lemma tier_loop_mono:
  assumes "rates_ok ts sel" "sorted_wrt (<) (map pt_from_tokens ts)" "f64_nonneg c" "f64_nonneg d" "c \<le> d" "m \<le> n"
  shows "tier_loop m sel ts c \<le> tier_loop n sel ts d"
  using assms
proof (induction ts arbitrary: c d)
  case (Cons t ts)
  define e where "e = (case ts of [] \<Rightarrow> - 1 | t # _ \<Rightarrow> pt_from_tokens t)"
  define k l where "k = min e m - pt_from_tokens t" and "l = min e n - pt_from_tokens t"
  let ?c = "case sel t of None \<Rightarrow> c | Some r \<Rightarrow> f64_add c (tokens_price k r)"
  let ?d = "case sel t of None \<Rightarrow> d | Some r \<Rightarrow> f64_add d (tokens_price l r)"
  have r: "pred_option rate_ok (sel t)" "rates_ok ts sel" "sorted_wrt (<) (map pt_from_tokens ts)"
    using Cons.prems by (simp_all add: rates_ok_def)
  show ?case
  proof (cases "m \<le> pt_from_tokens t")
    case True
    then have "tier_loop m sel (t # ts) c = c" by simp
    moreover have "d \<le> tier_loop n sel (t # ts) d"
      using tier_loop_increasing [OF Cons.prems(1,4)] by blast
    ultimately show ?thesis
      using Cons.prems(5) by simp
  next
    case False
    have "pt_from_tokens t \<le> e"
      using Cons.prems(2) by (auto simp: e_def split: list.split)
    then have "pt_from_tokens t \<le> min e m" "min e m \<le> min e n"
      using False Cons.prems(6) by (auto simp: min_def)
    then have "k \<le> l"
      unfolding k_def l_def by (simp add: word_le_nat_alt unat_sub)
    with r(1) Cons.prems have "f64_nonneg ?c" "f64_nonneg ?d" "?c \<le> ?d"
      using tier_step [of "sel t" k l c d] tier_step [of "sel t" l l d d] by simp_all
    then have "tier_loop m sel ts ?c \<le> tier_loop n sel ts ?d"
      using Cons.IH r Cons.prems(6) by simp
    then show ?thesis
      using False Cons.prems(6) unfolding tier_loop.simps Let_def e_def [symmetric] k_def [symmetric] l_def [symmetric]
      by auto
  qed
qed simp

section \<open>The estimate is monotone\<close>

definition addend :: "f64_bits \<Rightarrow> f64_bits" where
  "addend x = (if x = f64_neg_zero then 0 else x)"

lemma add_addend: "f64_nonneg c \<Longrightarrow> f64_add c x = f64_add c (addend x)"
  by (simp add: addend_def add_neg_zero f64_add_0)

lemma neg_zero_not_nonneg: "\<not> f64_nonneg f64_neg_zero"
  by (simp add: f64_nonneg_def f64_neg_zero_def f64_infinity_def)

lemma addend_nonneg: "f64_nonneg x \<Longrightarrow> addend x = x"
  using neg_zero_not_nonneg by (auto simp: addend_def)

lemma addend_term: "rate_ok r \<Longrightarrow> addend (tokens_price n r) = term_value n r"
  using term_mono [of r n n] addend_nonneg [of "term_value n r"]
  by (auto simp: addend_def term_value_def tokens_price_def neg_zero_product [OF u64_le] neg_zero_quotient
      split: if_splits)

lemma whole_request_tier:
  assumes "price_ok p"
  obtains t where "select_whole_request_tier n (mp_tiers p) = Some t" "t \<in> set (mp_tiers p)" "pt_from_tokens t \<le> n"
proof -
  have "hd (mp_tiers p) \<in> set (mp_tiers p)" "pt_from_tokens (hd (mp_tiers p)) \<le> n"
    using assms by (simp_all add: price_ok_def)
  then obtain t where t: "find (\<lambda>t. pt_from_tokens t \<le> n) (rev (mp_tiers p)) = Some t"
    by (metis find_None_iff not_None_eq set_rev)
  then have "t \<in> set (rev (mp_tiers p))" "pt_from_tokens t \<le> n"
    by (metis find_Some_iff nth_mem)+
  with t that show ?thesis
    by (simp add: select_whole_request_tier_def)
qed

lemma category_mono:
  assumes p: "price_ok p" and r: "rates_ok (mp_tiers p) sel" and n: "m \<le> n"
    and i: "mp_tier_mode p = Marginal \<or> i = j"
  obtains x y where "price_category (mp_tier_mode p) i m (mp_tiers p) sel = Some x"
    "price_category (mp_tier_mode p) j n (mp_tiers p) sel = Some y"
    "f64_nonneg (addend x)" "f64_nonneg (addend y)" "addend x \<le> addend y"
proof (cases "mp_tier_mode p")
  case Marginal
  have nn: "f64_nonneg (price_by_tiers k (mp_tiers p) sel)" for k
    using tier_loop_increasing [OF r] by (simp add: price_by_tiers_def)
  have "price_by_tiers m (mp_tiers p) sel \<le> price_by_tiers n (mp_tiers p) sel"
    using tier_loop_mono [OF r _ _ _ _ n, of 0 0] n p by (auto simp: price_by_tiers_def price_ok_def)
  with Marginal nn that show ?thesis
    by (simp add: price_category_def addend_nonneg)
next
  case WholeRequest
  obtain t where t: "select_whole_request_tier i (mp_tiers p) = Some t" "t \<in> set (mp_tiers p)"
    using whole_request_tier [OF p] by blast
  have "pred_option rate_ok (sel t)"
    using r t(2) by (simp add: rates_ok_def list_all_iff)
  then have rr: "rate_ok r" if "sel t = Some r" for r
    using that by simp
  let ?v = "\<lambda>k. if k = 0 then 0 else case sel t of Some r \<Rightarrow> tokens_price k r | None \<Rightarrow> 0"
  have "f64_nonneg (addend (?v k))" for k
    using rr term_mono [of _ k k] by (auto simp: addend_term addend_nonneg split: option.split)
  moreover have "addend (?v m) \<le> addend (?v n)"
    using rr term_mono [OF _ n] n by (auto simp: addend_term addend_nonneg split: option.split)
  moreover have "price_category (mp_tier_mode p) i k (mp_tiers p) sel = Some (?v k)" for k
    using WholeRequest t(1) by (simp add: price_category_def price_whole_request_def split: option.split)
  ultimately show ?thesis
    using that i WholeRequest by simp
qed

lemma add_category_mono:
  assumes p: "price_ok p" and r: "rates_ok (mp_tiers p) sel" and n: "m \<le> n"
    and i: "mp_tier_mode p = Marginal \<or> i = j"
    and a: "f64_nonneg (fst a)" "f64_nonneg (fst b)" "fst a \<le> fst b"
  obtains c d where "add_category p i w sel m a = Some c" "add_category p j w sel n b = Some d"
    "f64_nonneg (fst c)" "f64_nonneg (fst d)" "fst c \<le> fst d"
proof -
  obtain x y where xy: "price_category (mp_tier_mode p) i m (mp_tiers p) sel = Some x"
    "price_category (mp_tier_mode p) j n (mp_tiers p) sel = Some y"
    "f64_nonneg (addend x)" "f64_nonneg (addend y)" "addend x \<le> addend y"
    using category_mono [OF p r n i] by blast
  have w: "should_warn_null_price (mp_tier_mode p) k (mp_tiers p) sel \<noteq> None" for k
  proof -
    obtain t where "select_whole_request_tier k (mp_tiers p) = Some t"
      using whole_request_tier [OF p] by blast
    then show ?thesis
      by (simp add: should_warn_null_price_def split: tier_mode.split)
  qed
  have "f64_nonneg (f64_add (fst a) x)" "f64_nonneg (f64_add (fst b) y)" "f64_add (fst a) x \<le> f64_add (fst b) y"
    unfolding add_addend [OF a(1), of x] add_addend [OF a(2), of y]
    using a xy by (simp_all add: add_nonneg f64_add_mono)
  moreover have "\<exists>c. add_category p k w sel l e = Some c \<and> fst c = f64_add (fst e) z"
    if "price_category (mp_tier_mode p) k l (mp_tiers p) sel = Some z" for k l e z
    using that w [of k] by (cases w) (auto simp: add_category_def Let_def)
  ultimately show ?thesis
    using that xy(1,2) by metis
qed

text \<open>The three parts of the input add up to it, and none shrinks when the input grows.\<close>

lemma input_parts:
  fixes i j c k :: "64 word"
  assumes "i \<le> j"
  shows "min c i \<le> min c j" "min k (i - min c i) \<le> min k (j - min c j)"
    "i - min c i - min k (i - min c i) \<le> j - min c j - min k (j - min c j)"
proof -
  have s: "unat (x - min y x) = unat x - unat y" for x y :: "64 word"
    by (cases "y \<le> x") (simp_all add: min_def unat_sub word_le_nat_alt)
  have u: "unat (min x y) = min (unat x) (unat y)" for x y :: "64 word"
    by (simp add: min_def word_le_nat_alt)
  show "min c i \<le> min c j" "min k (i - min c i) \<le> min k (j - min c j)"
    using assms unfolding word_le_nat_alt u s by linarith+
  show "i - min c i - min k (i - min c i) \<le> j - min c j - min k (j - min c j)"
    using assms by (simp add: word_le_nat_alt s)
qed

lemma fast_mono:
  fixes speed :: "string option"
  assumes "price_ok p" "f64_nonneg c" "f64_nonneg d" "c \<le> d"
  defines "fast \<equiv> \<lambda>x. if speed = Some ''fast''
      then (case mp_fast_multiplier p of None \<Rightarrow> x | Some m \<Rightarrow> f64_mul x m) else x"
  shows "f64_nonneg (fast c)" "f64_nonneg (fast d)" "fast c \<le> fast d"
proof -
  have m: "f64_nonneg m \<and> unat m \<noteq> f64_infinity \<and> 0 < unat m" if "mp_fast_multiplier p = Some m" for m
  proof -
    have l: "f64_less 0 m" "f64_is_finite m"
      using assms(1) that by (simp_all add: price_ok_def)
    then have "\<not> f64_neg m" "0 < f64_pattern m"
      by (auto simp: f64_less_def f64_signed_def f64_pattern_def split: if_splits)
    then have "unat m < 2 ^ 63"
      by (simp add: f64_neg_def)
    with l \<open>0 < f64_pattern m\<close> show ?thesis
      by (simp add: f64_nonneg_def f64_is_finite_def f64_pattern_def)
  qed
  have "f64_nonneg (fast x)" if "f64_nonneg x" for x
    using m that by (auto simp: fast_def mul_pos split: option.split)
  then show "f64_nonneg (fast c)" "f64_nonneg (fast d)"
    using assms by blast+
  show "fast c \<le> fast d"
    using m assms(2-4) f64_mul_pos_mono by (auto simp: fast_def split: option.split)
qed

lemma tier_rates:
  assumes "price_ok p"
  shows "rates_ok (mp_tiers p) (\<lambda>t. Some (pt_input_per_million t))" "rates_ok (mp_tiers p) (\<lambda>t. Some (pt_output_per_million t))"
    "rates_ok (mp_tiers p) pt_cached_input_per_million" "rates_ok (mp_tiers p) pt_cache_write_per_million"
    "rates_ok (mp_tiers p) pt_reasoning_per_million"
  using assms by (auto simp: price_ok_def rates_ok_def tier_ok_def list_all_iff)

definition more_usage :: "model_price \<Rightarrow> token_usage \<Rightarrow> token_usage \<Rightarrow> bool" where
  "more_usage p u v =
     (tk_input_tokens u \<le> tk_input_tokens v \<and> (mp_tier_mode p = Marginal \<or> tk_input_tokens u = tk_input_tokens v)
      \<and> tk_cached_input_tokens u = tk_cached_input_tokens v \<and> tk_cache_creation_tokens u = tk_cache_creation_tokens v
      \<and> tk_output_tokens u \<le> tk_output_tokens v \<and> tk_reasoning_tokens u \<le> tk_reasoning_tokens v)"

lemma estimate_tokens_mono:
  assumes p: "price_ok p" and u: "more_usage p u v"
  obtains c ws d vs where "estimate_tokens p u speed = Some (c, ws)" "estimate_tokens p v speed = Some (d, vs)"
    "f64_nonneg c" "f64_nonneg d" "c \<le> d"
proof -
  let ?i = "tk_input_tokens u" and ?j = "tk_input_tokens v"
  let ?c = "tk_cached_input_tokens v" and ?k = "tk_cache_creation_tokens v"
  note le = u [unfolded more_usage_def]
  have ij: "mp_tier_mode p = Marginal \<or> ?i = ?j" "?i \<le> ?j" using le by auto
  note parts = input_parts(1) [OF ij(2), of ?c] input_parts(2) [OF ij(2), of ?k ?c] input_parts(3) [OF ij(2), of ?c ?k]
  obtain a b where 1: "add_category p ?i None (\<lambda>t. Some (pt_input_per_million t)) (?i - min ?c ?i - min ?k (?i - min ?c ?i)) (0, []) = Some a"
    "add_category p ?j None (\<lambda>t. Some (pt_input_per_million t)) (?j - min ?c ?j - min ?k (?j - min ?c ?j)) (0, []) = Some b"
    "f64_nonneg (fst a)" "f64_nonneg (fst b)" "fst a \<le> fst b"
    using add_category_mono [OF p tier_rates(1) [OF p] parts(3) ij(1), of "(0, [])" "(0, [])" None]
    by (metis f64_nonneg_0 fst_conv order_refl)
  obtain a2 b2 where 2: "add_category p ?i (Some Cache_read_unpriced) pt_cached_input_per_million (min ?c ?i) a = Some a2"
    "add_category p ?j (Some Cache_read_unpriced) pt_cached_input_per_million (min ?c ?j) b = Some b2"
    "f64_nonneg (fst a2)" "f64_nonneg (fst b2)" "fst a2 \<le> fst b2"
    using add_category_mono [OF p tier_rates(3) [OF p] parts(1) ij(1) 1(3-5)] by blast
  obtain a3 b3 where 3: "add_category p ?i (Some Cache_write_unpriced) pt_cache_write_per_million (min ?k (?i - min ?c ?i)) a2 = Some a3"
    "add_category p ?j (Some Cache_write_unpriced) pt_cache_write_per_million (min ?k (?j - min ?c ?j)) b2 = Some b3"
    "f64_nonneg (fst a3)" "f64_nonneg (fst b3)" "fst a3 \<le> fst b3"
    using add_category_mono [OF p tier_rates(4) [OF p] parts(2) ij(1) 2(3-5)] by blast
  obtain a4 b4 where 4: "add_category p ?i None (\<lambda>t. Some (pt_output_per_million t)) (tk_output_tokens u) a3 = Some a4"
    "add_category p ?j None (\<lambda>t. Some (pt_output_per_million t)) (tk_output_tokens v) b3 = Some b4"
    "f64_nonneg (fst a4)" "f64_nonneg (fst b4)" "fst a4 \<le> fst b4"
    using add_category_mono [OF p tier_rates(2) [OF p] _ ij(1) 3(3-5)] le by metis
  obtain a5 b5 where 5: "add_category p ?i (Some Reasoning_unpriced) pt_reasoning_per_million (tk_reasoning_tokens u) a4 = Some a5"
    "add_category p ?j (Some Reasoning_unpriced) pt_reasoning_per_million (tk_reasoning_tokens v) b4 = Some b5"
    "f64_nonneg (fst a5)" "f64_nonneg (fst b5)" "fst a5 \<le> fst b5"
    using add_category_mono [OF p tier_rates(5) [OF p] _ ij(1) 4(3-5)] le by metis
  show ?thesis
    by (rule that [OF _ _ fast_mono [OF p 5(3-5)]])
      (use le in \<open>simp_all add: estimate_tokens_def Let_def 1(1,2) 2(1,2) 3(1,2) 4(1,2) 5(1,2) split_beta\<close>)
qed

lemma more_usage_refl [simp]: "more_usage p u u"
  by (simp add: more_usage_def)

section \<open>Segments and reachable catalogs\<close>

text \<open>The marginal reading: how many of the tokens lie in each tier.\<close>

fun segments :: "64 word \<Rightarrow> price_tier list \<Rightarrow> (price_tier \<times> 64 word) list" where
  "segments tokens [] = []"
| "segments tokens (t # ts) =
     (if tokens \<le> pt_from_tokens t then []
      else (t, min (case ts of [] \<Rightarrow> - 1 | u # _ \<Rightarrow> pt_from_tokens u) tokens - pt_from_tokens t) # segments tokens ts)"

definition add_segment :: "(price_tier \<Rightarrow> f64_bits option) \<Rightarrow> price_tier \<times> 64 word \<Rightarrow> f64_bits \<Rightarrow> f64_bits" where
  "add_segment sel x cost =
     (case sel (fst x) of None \<Rightarrow> cost | Some rate \<Rightarrow> f64_add cost (tokens_price (snd x) rate))"

lemma add_segment_pair: "add_segment sel (t, k) cost = (case sel t of None \<Rightarrow> cost | Some rate \<Rightarrow> f64_add cost (tokens_price k rate))"
  by (cases "sel t") (simp_all add: add_segment_def)

lemma tier_loop_segments: "tier_loop tokens sel ts cost = fold (add_segment sel) (segments tokens ts) cost"
proof (induction ts arbitrary: cost)
  case (Cons t ts)
  show ?case
    by (cases "tokens \<le> pt_from_tokens t") (simp_all add: Let_def add_segment_pair Cons.IH)
qed simp

lemma sum_segments:
  "ts \<noteq> [] \<Longrightarrow> sorted_wrt (<) (map pt_from_tokens ts) \<Longrightarrow> pt_from_tokens (hd ts) \<le> tokens \<Longrightarrow>
    sum_list (map (unat \<circ> snd) (segments tokens ts)) = unat tokens - unat (pt_from_tokens (hd ts))"
proof (induction ts)
  case (Cons t ts)
  show ?case
  proof (cases ts)
    case Nil
    have "min (- 1) tokens = tokens" by (simp add: min_def word_order.extremum_unique)
    then show ?thesis
      using Nil Cons.prems by (auto simp: unat_sub word_le_nat_alt)
  next
    case (Cons u us)
    have lt: "pt_from_tokens t < pt_from_tokens u"
      using Cons.prems(2) Cons by simp
    show ?thesis
    proof (cases "tokens \<le> pt_from_tokens u")
      case True
      then have "min (pt_from_tokens u) tokens = tokens" by simp
      then show ?thesis
        using Cons Cons.prems(3) True by (auto simp: unat_sub word_le_nat_alt)
    next
      case False
      then have m: "min (pt_from_tokens u) tokens = pt_from_tokens u" "pt_from_tokens u \<le> tokens" "\<not> tokens \<le> pt_from_tokens t"
        using lt by (auto simp: min_def)
      have "sum_list (map (unat \<circ> snd) (segments tokens ts)) = unat tokens - unat (pt_from_tokens u)"
      proof -
        have "ts \<noteq> []" "hd ts = u" using Cons by simp_all
        then show ?thesis using Cons.IH Cons.prems(2) m(2) by (simp add: comp_def)
      qed
      moreover have "segments tokens (t # ts) = (t, pt_from_tokens u - pt_from_tokens t) # segments tokens ts"
        using Cons m by simp
      ultimately show ?thesis
        using m(2) lt by (simp add: unat_sub word_le_nat_alt word_less_nat_alt comp_def)
    qed
  qed
qed simp

inductive pricing_step ::
  "(string \<Rightarrow> string + full_catalog) \<Rightarrow> string \<Rightarrow> pricing_state \<Rightarrow> pricing_state \<Rightarrow> bool"
  for json_of embedded where
  "init_catalog json_of embedded path s = Some t \<Longrightarrow> pricing_step json_of embedded s t"
| "pricing_step json_of embedded s (snd (try_reload_catalog json_of f s))"

definition catalog_valid :: "pricing_state \<Rightarrow> bool" where
  "catalog_valid s = (validate_catalog (pg_catalog s) = None)"

lemma parsed_valid: "parse_catalog_json json_of text = Inr c \<Longrightarrow> validate_catalog c = None"
  by (auto simp: parse_catalog_json_def split: sum.splits option.splits)

lemma embedded_valid: "embedded_state json_of embedded = Some s \<Longrightarrow> catalog_valid s"
  by (auto simp: embedded_state_def catalog_valid_def dest: parsed_valid split: sum.splits)

lemma pricing_step_valid: "pricing_step json_of embedded s t \<Longrightarrow> catalog_valid s \<Longrightarrow> catalog_valid t"
  by (induction rule: pricing_step.induct)
    (auto simp: init_catalog_def try_reload_catalog_def catalog_valid_def dest: parsed_valid
      dest!: embedded_valid [unfolded catalog_valid_def] split: option.splits sum.splits if_splits)

interpretation pricing: invariant_machine "\<lambda>s. embedded_state json_of embedded = Some s" "pricing_step json_of embedded" catalog_valid
  for json_of embedded
  by unfold_locales (auto intro: embedded_valid pricing_step_valid)

section \<open>Properties\<close>

text \<open>
  C21. Under the marginal mode of a valid price, the cost of a token count is the sum over the tiers,
  in binary64, of what lies in each, and the parts add up to the count: no token is priced twice and
  none is left out.
\<close>

theorem marginal_segments:
  assumes "price_ok p"
  shows "price_by_tiers tokens (mp_tiers p) sel = fold (add_segment sel) (segments tokens (mp_tiers p)) 0
    \<and> sum_list (map (unat \<circ> snd) (segments tokens (mp_tiers p))) = unat tokens"
proof
  have "tokens = 0 \<Longrightarrow> segments tokens (mp_tiers p) = []"
    using assms by (cases "mp_tiers p") (simp_all add: price_ok_def)
  then show "price_by_tiers tokens (mp_tiers p) sel = fold (add_segment sel) (segments tokens (mp_tiers p)) 0"
    by (simp add: price_by_tiers_def tier_loop_segments)
  show "sum_list (map (unat \<circ> snd) (segments tokens (mp_tiers p))) = unat tokens"
    using assms sum_segments [of "mp_tiers p" tokens] by (simp add: price_ok_def)
qed

text \<open>
  C22. Over a validated catalog an estimate never panics; when the cost is computed from tokens it is
  there exactly when the model resolves, and is zero, positive or the positive infinity, never
  negative and never NaN.
\<close>

theorem estimate_sound:
  assumes "validate_catalog c = None" "mode = Calculate \<or> mode = Auto \<and> source_cost = None"
  shows "case resolve_model c model of
      None \<Rightarrow> \<exists>ws. estimate_cost_with_catalog c model usage source_cost speed mode = Some (None, ws)
    | Some p \<Rightarrow> \<exists>cost ws. estimate_cost_with_catalog c model usage source_cost speed mode = Some (Some cost, ws)
        \<and> f64_nonneg cost"
proof (cases "resolve_model c model")
  case None
  then show ?thesis
    using assms(2) by (auto simp: estimate_cost_with_catalog_def)
next
  case (Some p)
  then obtain cost ws where "estimate_tokens p usage speed = Some (cost, ws)" "f64_nonneg cost"
    using estimate_tokens_mono [OF resolved_price_ok [OF assms(1)] more_usage_refl] by metis
  then show ?thesis
    using Some assms(2) by (auto simp: estimate_cost_with_catalog_def)
qed

text \<open>
  more tokens never cost less. With the cache counters unchanged, growing the output and
  reasoning counts, and the input count too under the marginal mode, does not lower the estimate,
  through all roundings and the fast multiplier.
\<close>

theorem estimate_monotone:
  assumes "validate_catalog c = None" "resolve_model c model = Some p" "more_usage p u v"
    "estimate_cost_with_catalog c model u None speed Calculate = Some (Some x, ws)"
    "estimate_cost_with_catalog c model v None speed Calculate = Some (Some y, vs)"
  shows "x \<le> y"
proof -
  obtain a b where "estimate_tokens p u speed = Some (a, ws)" "estimate_tokens p v speed = Some (b, vs)" "x = a" "y = b"
    using assms(2,4,5) by (auto simp: estimate_cost_with_catalog_def)
  then show ?thesis
    using estimate_tokens_mono [OF resolved_price_ok [OF assms(1,2)] assms(3), of speed] by (metis option.inject prod.inject)
qed

text \<open>
  whatever files the catalog was initialised from and reloaded from, the catalog in use passed
  validation, and a reload that does not report a new version left it as it was.
\<close>

theorem reload_keeps_valid:
  assumes "reach (\<lambda>s. embedded_state json_of embedded = Some s) (pricing_step json_of embedded) s"
  shows "validate_catalog (pg_catalog s) = None
    \<and> ((\<exists>version. fst (try_reload_catalog json_of f s) = Reloaded version)
       \<or> snd (try_reload_catalog json_of f s) = s)"
proof
  show "validate_catalog (pg_catalog s) = None"
    using pricing.reachable_inv [OF assms] by (simp add: catalog_valid_def)
  show "(\<exists>version. fst (try_reload_catalog json_of f s) = Reloaded version)
      \<or> snd (try_reload_catalog json_of f s) = s"
    by (auto simp: try_reload_catalog_def split: option.splits sum.splits)
qed

text \<open>
  A ladder with a rate in one tier only prices the other tiers' tokens at zero, and nothing is
  reported.
\<close>

lemma partial_ladder_silent:
  assumes "sel a = Some r" "sel b = None"
  shows "should_warn_null_price Marginal n [a, b] sel = Some False"
  using assms by (simp add: should_warn_null_price_def)

section \<open>A concrete catalog\<close>

definition flat_tier :: price_tier where
  "flat_tier = \<lparr>pt_from_tokens = 0, pt_input_per_million = 0x3FF4000000000000, pt_output_per_million = 0x4024000000000000,
     pt_cached_input_per_million = Some 0x3FC0000000000000, pt_cache_write_per_million = None,
     pt_cache_storage_per_million_hour = None, pt_reasoning_per_million = None\<rparr>"

definition gpt5 :: model_price where
  "gpt5 = \<lparr>mp_provider = ''openai'', mp_model = ''gpt-5'', mp_currency = ''USD'', mp_effective_date = ''2025-08-07'',
     mp_fast_multiplier = Some 0x4000000000000000, mp_tier_mode = Marginal,
     mp_tiers = [flat_tier, flat_tier\<lparr>pt_from_tokens := 200000\<rparr>]\<rparr>"

definition small_catalog :: full_catalog where
  "small_catalog = \<lparr>fc_schema_version = ''3'', fc_version = ''2026'', fc_updated = ''2026'',
     fc_aliases = [(''gpt-5-codex'', ''gpt-5'')], fc_prices = [gpt5]\<rparr>"

lemma gpt5_ok: "check_price gpt5 = None"
  by (simp add: check_price_def gpt5_def flat_tier_def trim_text_def trim_front.simps leading_def white_space_def
      provider_char_def check_tier_None [unfolded check_tier_def] check_tier_def check_required_def check_optional_def
      f64_is_finite_def f64_less_def f64_class_of_def f64_signed_def f64_pattern_def f64_neg_def f64_infinity_def
      or_fault_def fault_if_def)

lemma small_catalog_ok: "validate_catalog small_catalog = None"
  using gpt5_ok
  by (simp add: validate_catalog_def small_catalog_def check_alias_def gpt5_def trim_text_def trim_front.simps
      leading_def white_space_def or_fault_def fault_if_def)

lemma small_catalog_resolves: "resolve_model small_catalog '' gpt-5-codex'' = Some gpt5"
  by (simp add: resolve_model_def small_catalog_def gpt5_def trim_text_def trim_front.simps leading_def white_space_def
      unwrap_or_def)

definition few_tokens :: token_usage where
  "few_tokens = \<lparr>tk_input_tokens = 10, tk_output_tokens = 5, tk_cached_input_tokens = 4, tk_cache_creation_tokens = 0,
     tk_reasoning_tokens = 0\<rparr>"

theorem marginal_segments_witness:
  "sum_list (map (unat \<circ> snd) (segments 250000 (mp_tiers gpt5))) = 250000"
  using marginal_segments [OF check_price_ok [OF gpt5_ok], of 250000] by simp

theorem estimate_sound_witness:
  "\<exists>cost ws. estimate_cost_with_catalog small_catalog '' gpt-5-codex'' few_tokens None (Some ''fast'') Auto = Some (Some cost, ws)
     \<and> f64_nonneg cost"
  using estimate_sound [OF small_catalog_ok, of Auto None "'' gpt-5-codex''" few_tokens "Some ''fast''"]
  by (simp add: small_catalog_resolves)

theorem estimate_monotone_witness:
  "\<exists>x y ws vs. estimate_cost_with_catalog small_catalog '' gpt-5-codex'' few_tokens None None Calculate = Some (Some x, ws)
     \<and> estimate_cost_with_catalog small_catalog '' gpt-5-codex'' (few_tokens\<lparr>tk_output_tokens := 50\<rparr>) None None Calculate
       = Some (Some y, vs) \<and> x \<le> y"
proof -
  let ?e = "\<lambda>u. estimate_cost_with_catalog small_catalog '' gpt-5-codex'' u None None Calculate"
  have "\<exists>x ws. ?e u = Some (Some x, ws)" for u
  proof -
    obtain x ws where "estimate_tokens gpt5 u None = Some (x, ws)"
      using estimate_tokens_mono [OF check_price_ok [OF gpt5_ok] more_usage_refl] by metis
    then show ?thesis
      by (simp add: estimate_cost_with_catalog_def small_catalog_resolves)
  qed
  then obtain x ws y vs where e: "?e few_tokens = Some (Some x, ws)" "?e (few_tokens\<lparr>tk_output_tokens := 50\<rparr>) = Some (Some y, vs)"
    by metis
  have "more_usage gpt5 few_tokens (few_tokens\<lparr>tk_output_tokens := 50\<rparr>)"
    by (simp add: more_usage_def few_tokens_def)
  then have "x \<le> y"
    using estimate_monotone [OF small_catalog_ok small_catalog_resolves _ e] by simp
  with e show ?thesis by blast
qed

theorem reload_keeps_valid_witness:
  "validate_catalog (pg_catalog \<lparr>pg_catalog = small_catalog, pg_mtime_nanos = 7, pg_file_len = 1\<rparr>) = None"
proof -
  let ?j = "\<lambda>_. Inr small_catalog :: string + full_catalog"
  let ?f = "\<lparr>cf_state = Some (7, 1), cf_text = Inr (Some ''x'')\<rparr>"
  let ?s = "\<lparr>pg_catalog = small_catalog, pg_mtime_nanos = - (2 ^ 63), pg_file_len = 0\<rparr>"
  have "embedded_state ?j '''' = Some ?s"
    by (simp add: embedded_state_def parse_catalog_json_def small_catalog_ok)
  then have "reach (\<lambda>s. embedded_state ?j '''' = Some s) (pricing_step ?j '''') (snd (try_reload_catalog ?j ?f ?s))"
    using pricing_step.intros(2) [of ?j "''''" ?s ?f] by (rule reach_step [OF reach_init])
  moreover have "snd (try_reload_catalog ?j ?f ?s) = \<lparr>pg_catalog = small_catalog, pg_mtime_nanos = 7, pg_file_len = 1\<rparr>"
    by (simp add: try_reload_catalog_def parse_catalog_json_def small_catalog_ok)
  ultimately show ?thesis
    using reload_keeps_valid by metis
qed

end
