(* ===== verification/Lifecycle_Coordinator.thy ===== *)
theory Lifecycle_Coordinator
  imports Log_Adapters Step_Machines
begin

text \<open>
  The lifecycle coordinator of the desktop application
  (\<open>apps/gui/src-tauri/src/lifecycle_coordinator.rs\<close>), the persisted session suppression of
  \<open>desktop_lifecycle_settings.rs\<close>, the host-mode flag of \<open>desktop_login_start.rs\<close>, the quit sequence of
  \<open>desktop_runtime.rs\<close> and the bootstrap retries of \<open>lib.rs\<close>. Every stretch of code under one lock of the
  coordinator's mutex is a function; the tasks that are between two such stretches are listed in the
  state, and a step relation interleaves them in any order. The calls of the platform's service
  lifecycle return an arbitrary result and are recorded.
\<close>

section \<open>Causes, phases, records\<close>

datatype lifecycle_cause =
    Startup | ManualReopen | Quit | SettingsToggle | Repair | LoginItemLaunch | AppMoveDetected
  | VersionSkewDetected | CliInvocation | WakeFromSleep | RepairRetry | NewLoginSession

fun cause_str :: "lifecycle_cause \<Rightarrow> string" where
  "cause_str Startup = ''startup''"
| "cause_str ManualReopen = ''manual_reopen''"
| "cause_str Quit = ''quit''"
| "cause_str SettingsToggle = ''settings_toggle''"
| "cause_str Repair = ''repair''"
| "cause_str LoginItemLaunch = ''login_item_launch''"
| "cause_str AppMoveDetected = ''app_move_detected''"
| "cause_str VersionSkewDetected = ''version_skew_detected''"
| "cause_str CliInvocation = ''cli_invocation''"
| "cause_str WakeFromSleep = ''wake_from_sleep''"
| "cause_str RepairRetry = ''repair_retry''"
| "cause_str NewLoginSession = ''new_login_session''"

definition clears_suppression :: "lifecycle_cause \<Rightarrow> bool" where
  "clears_suppression c = (c = ManualReopen \<or> c = NewLoginSession)"

datatype lifecycle_phase = Active | SuppressedForSession

fun phase_str :: "lifecycle_phase \<Rightarrow> string" where
  "phase_str Active = ''active''"
| "phase_str SuppressedForSession = ''suppressed_for_session''"

datatype lifecycle_result = Lr_Ok | Lr_NonRetryable | Lr_RetryableFailure

fun result_str :: "lifecycle_result \<Rightarrow> string" where
  "result_str Lr_Ok = ''ok''"
| "result_str Lr_NonRetryable = ''non_retryable''"
| "result_str Lr_RetryableFailure = ''retryable_failure''"

datatype install_outcome = NewlyInstalled | AlreadyPresent | Upgraded

datatype ensure_outcome = AlreadyRunning | Started install_outcome

record log_record =
  lg_event_code :: string
  lg_cause :: "string option"
  lg_from_state :: string
  lg_to_state :: string
  lg_result :: string
  lg_launchctl_exit_code :: "int option"
  lg_sm_status :: "string option"

record coordinator =
  co_phase :: lifecycle_phase
  co_cause :: "lifecycle_cause option"
  co_last_transition :: "(lifecycle_phase \<times> lifecycle_phase) option"
  co_ensure_in_flight :: nat
  co_quit_requested :: bool
  co_log :: "log_record list"

definition new_coordinator :: coordinator where
  "new_coordinator =
     \<lparr>co_phase = Active, co_cause = None, co_last_transition = None, co_ensure_in_flight = 0,
      co_quit_requested = False, co_log = []\<rparr>"

definition emit_log ::
  "string \<Rightarrow> lifecycle_cause \<Rightarrow> lifecycle_phase \<Rightarrow> lifecycle_phase \<Rightarrow> lifecycle_result \<Rightarrow> int option \<Rightarrow> string option
    \<Rightarrow> coordinator \<Rightarrow> coordinator" where
  "emit_log code cause from_phase to_phase res exit_code sm c =
     c\<lparr>co_log := co_log c @ [\<lparr>lg_event_code = code, lg_cause = Some (cause_str cause), lg_from_state = phase_str from_phase,
                             lg_to_state = phase_str to_phase, lg_result = result_str res,
                             lg_launchctl_exit_code = exit_code, lg_sm_status = sm\<rparr>]\<rparr>"

section \<open>The exit code in an error text\<close>

text \<open>\<open>msg.find(prefix)\<close>, as what follows the first occurrence.\<close>

fun after_first :: "string \<Rightarrow> string \<Rightarrow> string option" where
  "after_first p s =
     (if prefix p s then Some (drop (length p) s)
      else case s of [] \<Rightarrow> None | _ # t \<Rightarrow> after_first p t)"

declare after_first.simps [simp del]

text \<open>\<open>parse::<i32>\<close> of a text of digits and minus signs.\<close>

definition parse_i32 :: "string \<Rightarrow> int option" where
  "parse_i32 s =
     (let neg = (s \<noteq> [] \<and> hd s = CHR ''-''); d = (if neg then tl s else s);
          n = (if neg then - digits_value d else digits_value d)
      in if d \<noteq> [] \<and> list_all is_digit d \<and> - (2 ^ 31) \<le> n \<and> n < 2 ^ 31 then Some n else None)"

definition exit_after :: "string \<Rightarrow> string \<Rightarrow> int option" where
  "exit_after p msg =
     Option.bind (after_first p msg) (\<lambda>t. parse_i32 (takeWhile (\<lambda>c. is_digit c \<or> c = CHR ''-'') t))"

definition extract_launchctl_exit :: "string \<Rightarrow> int option" where
  "extract_launchctl_exit msg =
     (case exit_after ''exit code: '' msg of
        Some n \<Rightarrow> Some n
      | None \<Rightarrow> (case exit_after ''exit='' msg of
                   Some n \<Rightarrow> Some n
                 | None \<Rightarrow> exit_after ''status: '' msg))"

section \<open>Critical sections\<close>

datatype ensure_decision = Return_now ensure_outcome | Proceed lifecycle_phase

text \<open>Phase 1 of \<open>ensure_running\<close>.\<close>

definition ensure_begin :: "lifecycle_cause \<Rightarrow> coordinator \<Rightarrow> ensure_decision \<times> coordinator" where
  "ensure_begin cause c =
     (if co_quit_requested c
      then (Return_now AlreadyRunning, emit_log ''lifecycle.ensure_aborted_quit_in_flight'' cause (co_phase c) (co_phase c) Lr_Ok None None c)
      else if co_phase c = SuppressedForSession \<and> \<not> clears_suppression cause
      then (Return_now AlreadyRunning, emit_log ''lifecycle.ensure_suppressed'' cause (co_phase c) (co_phase c) Lr_Ok None None c)
      else
        let c = (if co_phase c = SuppressedForSession
                 then emit_log ''lifecycle.phase_transition'' cause (co_phase c) Active Lr_Ok None None
                        (c\<lparr>co_phase := Active, co_last_transition := Some (co_phase c, Active)\<rparr>)
                 else c)
        in if 0 < co_ensure_in_flight c
           then (Return_now AlreadyRunning, emit_log ''lifecycle.ensure_coalesced'' cause (co_phase c) (co_phase c) Lr_Ok None None c)
           else (Proceed (co_phase c), c\<lparr>co_ensure_in_flight := co_ensure_in_flight c + 1, co_cause := Some cause\<rparr>))"

text \<open>Phase 3.\<close>

definition ensure_finish ::
  "lifecycle_cause \<Rightarrow> lifecycle_phase \<Rightarrow> string + ensure_outcome \<Rightarrow> coordinator \<Rightarrow> coordinator" where
  "ensure_finish cause from_phase res c =
     (let c = c\<lparr>co_ensure_in_flight := co_ensure_in_flight c - 1\<rparr>
      in case res of
           Inr AlreadyRunning \<Rightarrow> emit_log ''lifecycle.ensure_already_running'' cause from_phase (co_phase c) Lr_Ok None None c
         | Inr (Started _) \<Rightarrow> emit_log ''lifecycle.ensure_started'' cause from_phase (co_phase c) Lr_Ok None None c
         | Inl e \<Rightarrow>
             (let non_retryable = contains_str ''requires user approval'' e
              in emit_log ''lifecycle.ensure_failed'' cause from_phase (co_phase c)
                   (if non_retryable then Lr_NonRetryable else Lr_RetryableFailure)
                   (extract_launchctl_exit e)
                   (if non_retryable then Some ''requires_approval'' else None) c))"

definition stop_begin :: "lifecycle_cause \<Rightarrow> coordinator \<Rightarrow> lifecycle_phase \<times> coordinator" where
  "stop_begin cause c = (co_phase c, c\<lparr>co_cause := Some cause\<rparr>)"

definition stop_finish :: "lifecycle_cause \<Rightarrow> lifecycle_phase \<Rightarrow> bool \<Rightarrow> coordinator \<Rightarrow> coordinator" where
  "stop_finish cause from_phase ok c =
     emit_log ''lifecycle.stop_for_session'' cause from_phase (co_phase c) (if ok then Lr_Ok else Lr_RetryableFailure) None None c"

definition suppress_for_session :: "lifecycle_cause \<Rightarrow> coordinator \<Rightarrow> coordinator" where
  "suppress_for_session cause c =
     emit_log ''lifecycle.suppressed_for_session'' cause (co_phase c) SuppressedForSession Lr_Ok None None
       (c\<lparr>co_phase := SuppressedForSession, co_cause := Some cause,
          co_last_transition := Some (co_phase c, SuppressedForSession)\<rparr>)"

definition clear_phase :: "lifecycle_cause \<Rightarrow> coordinator \<Rightarrow> coordinator" where
  "clear_phase cause c =
     (if co_phase c = SuppressedForSession
      then emit_log ''lifecycle.phase_transition'' cause (co_phase c) Active Lr_Ok None None
             (c\<lparr>co_phase := Active, co_cause := Some cause, co_last_transition := Some (co_phase c, Active)\<rparr>)
      else c)"

definition request_quit :: "coordinator \<Rightarrow> coordinator" where
  "request_quit c =
     emit_log ''lifecycle.quit_requested'' Quit (co_phase c) (co_phase c) Lr_Ok None None (c\<lparr>co_quit_requested := True\<rparr>)"

definition is_suppressed :: "coordinator \<Rightarrow> bool" where
  "is_suppressed c = (co_phase c = SuppressedForSession)"

text \<open>\<open>try_lock\<close> fails while the mutex is held.\<close>

definition phase_snapshot :: "bool \<Rightarrow> coordinator \<Rightarrow> lifecycle_phase" where
  "phase_snapshot contested c = (if contested then Active else co_phase c)"

section \<open>The settings store\<close>

record lifecycle_settings =
  dl_launch_at_login :: bool
  dl_suppressed_for_session :: bool
  dl_suppressed_at_boot_secs :: "nat option"

definition default_settings :: lifecycle_settings where
  "default_settings = \<lparr>dl_launch_at_login = False, dl_suppressed_for_session = False, dl_suppressed_at_boot_secs = None\<rparr>"

text \<open>The file: absent, unreadable or corrupt, or a decoded record.\<close>

datatype settings_file = Absent | Unreadable | Decoded lifecycle_settings

record settings_store =
  ss_memory :: lifecycle_settings
  ss_file :: settings_file

definition load_settings :: "settings_store \<Rightarrow> lifecycle_settings" where
  "load_settings st = (case ss_file st of Decoded s \<Rightarrow> s | _ \<Rightarrow> ss_memory st)"

text \<open>\<open>written\<close>: whether the atomic write succeeded; a failed one leaves the file.\<close>

definition save_settings :: "bool \<Rightarrow> lifecycle_settings \<Rightarrow> settings_store \<Rightarrow> settings_store" where
  "save_settings written s st = st\<lparr>ss_memory := s, ss_file := (if written then Decoded s else ss_file st)\<rparr>"

definition record_suppression :: "nat option \<Rightarrow> bool \<Rightarrow> settings_store \<Rightarrow> settings_store" where
  "record_suppression boot written st =
     save_settings written ((load_settings st)\<lparr>dl_suppressed_for_session := True, dl_suppressed_at_boot_secs := boot\<rparr>) st"

definition clear_suppression :: "bool \<Rightarrow> settings_store \<Rightarrow> settings_store" where
  "clear_suppression written st =
     save_settings written ((load_settings st)\<lparr>dl_suppressed_for_session := False, dl_suppressed_at_boot_secs := None\<rparr>) st"

definition suppression_active :: "nat option \<Rightarrow> settings_store \<Rightarrow> bool" where
  "suppression_active boot st =
     (let s = load_settings st
      in dl_suppressed_for_session s
         \<and> (case (dl_suppressed_at_boot_secs s, boot) of (Some stored, Some current) \<Rightarrow> stored = current | _ \<Rightarrow> False))"

text \<open>
  \<open>restore_from_settings\<close> before other tasks run: the phase is suppressed, or a stale mark is
  cleared.
\<close>

definition restore_from_settings ::
  "nat option \<Rightarrow> bool \<Rightarrow> coordinator \<times> settings_store \<Rightarrow> coordinator \<times> settings_store" where
  "restore_from_settings boot written x =
     (case x of (c, st) \<Rightarrow>
        if suppression_active boot st then (suppress_for_session Quit c, st)
        else if dl_suppressed_for_session (load_settings st) then (c, clear_suppression written st)
        else (c, st))"

text \<open>The start of the application: what it restores, clears and gives as the cause of the first ensure.\<close>

definition startup_cause ::
  "nat option \<Rightarrow> bool \<Rightarrow> bool \<Rightarrow> settings_store option \<Rightarrow> coordinator
    \<Rightarrow> lifecycle_cause \<times> coordinator \<times> settings_store option" where
  "startup_cause boot w1 w2 store c =
     (case store of
        None \<Rightarrow> (Startup, c, None)
      | Some st \<Rightarrow>
          (case restore_from_settings boot w1 (c, st) of (c, st) \<Rightarrow>
             if is_suppressed c then (ManualReopen, clear_phase ManualReopen c, Some (clear_suppression w2 st))
             else (Startup, c, Some st)))"

section \<open>Login start\<close>

record login_start =
  li_settings :: settings_store
  li_registered :: bool
  li_host_mode_active :: bool

text \<open>\<open>os\<close>: whether the call of \<open>SMAppService\<close> succeeded.\<close>

definition set_launch :: "bool \<Rightarrow> bool \<Rightarrow> login_start \<Rightarrow> login_start" where
  "set_launch b written l =
     l\<lparr>li_settings := save_settings written ((load_settings (li_settings l))\<lparr>dl_launch_at_login := b\<rparr>) (li_settings l)\<rparr>"

definition enable_for_future_logins :: "bool \<Rightarrow> bool \<Rightarrow> login_start \<Rightarrow> bool \<times> login_start" where
  "enable_for_future_logins os written l =
     (if os then (True, set_launch True written (l\<lparr>li_registered := True\<rparr>)) else (False, l))"

definition disable :: "bool \<Rightarrow> bool \<Rightarrow> login_start \<Rightarrow> bool \<times> login_start" where
  "disable os written l =
     (let l = l\<lparr>li_host_mode_active := False\<rparr>
      in if os then (True, set_launch False written (l\<lparr>li_registered := False\<rparr>)) else (False, l))"

definition enable_for_current_session :: "bool \<Rightarrow> bool \<Rightarrow> login_start \<Rightarrow> bool \<times> login_start" where
  "enable_for_current_session os written l =
     (case enable_for_future_logins os written l of
        (False, l) \<Rightarrow> (False, l)
      | (True, l) \<Rightarrow> (True, l\<lparr>li_host_mode_active := True\<rparr>))"

definition adopt_current_session :: "login_start \<Rightarrow> login_start" where
  "adopt_current_session l = l\<lparr>li_host_mode_active := True\<rparr>"

definition stop_host_mode :: "login_start \<Rightarrow> login_start" where
  "stop_host_mode l = l\<lparr>li_host_mode_active := False\<rparr>"

definition adopt_if_enabled :: "lifecycle_settings \<Rightarrow> login_start \<Rightarrow> login_start" where
  "adopt_if_enabled s l = (if dl_launch_at_login s then adopt_current_session l else l)"

section \<open>Bootstrap retries\<close>

definition BOOTSTRAP_MAX_ATTEMPTS :: nat where
  "BOOTSTRAP_MAX_ATTEMPTS = 3"

definition bootstrap_failure_is_retryable :: "string \<Rightarrow> bool" where
  "bootstrap_failure_is_retryable err = (\<not> contains_str ''requires user approval'' err)"

datatype bootstrap_state = Ready | Unavailable string

text \<open>The loop after \<open>attempt\<close> failed attempts; the k-th call of \<open>ensure_running\<close> answers \<open>ens k\<close>.\<close>

function bootstrap_loop :: "(nat \<Rightarrow> string + ensure_outcome) \<Rightarrow> nat \<Rightarrow> bootstrap_state \<times> nat" where
  "bootstrap_loop ens attempt =
     (let attempt = attempt + 1
      in case ens attempt of
           Inr _ \<Rightarrow> (Ready, attempt)
         | Inl e \<Rightarrow>
             if bootstrap_failure_is_retryable e \<and> attempt < BOOTSTRAP_MAX_ATTEMPTS then bootstrap_loop ens attempt
             else (Unavailable e, attempt))"
  by pat_completeness auto

termination by (relation "measure (\<lambda>(_, attempt). BOOTSTRAP_MAX_ATTEMPTS - attempt)") auto

declare bootstrap_loop.simps [simp del]

section \<open>Tasks\<close>

text \<open>
  What a task is about to do when the mutex is free again: call the platform, re-enter after the call,
  or write the settings.
\<close>

datatype lifecycle_task =
    Ensure_call lifecycle_cause lifecycle_phase
  | Ensure_return lifecycle_cause lifecycle_phase "string + ensure_outcome"
  | Stop_call lifecycle_cause lifecycle_phase
  | Stop_return lifecycle_cause lifecycle_phase bool
  | Quit_stop
  | Store_suppression
  | Store_clearing

text \<open>The calls of the platform's service lifecycle, in their order.\<close>

datatype platform_call = Called_ensure | Called_stop

record world =
  lw_co :: coordinator
  lw_store :: settings_store
  lw_host_mode :: bool
  lw_pending :: "lifecycle_task list"
  lw_calls :: "platform_call list"
  lw_abandoned :: nat

definition add_pending :: "lifecycle_task \<Rightarrow> world \<Rightarrow> world" where
  "add_pending p w = w\<lparr>lw_pending := lw_pending w @ [p]\<rparr>"

text \<open>A call of \<open>ensure_running\<close> reaches the mutex.\<close>

definition arrive_ensure :: "lifecycle_cause \<Rightarrow> world \<Rightarrow> world" where
  "arrive_ensure cause w =
     (case ensure_begin cause (lw_co w) of
        (Return_now _, c) \<Rightarrow> w\<lparr>lw_co := c\<rparr>
      | (Proceed from_phase, c) \<Rightarrow> add_pending (Ensure_call cause from_phase) (w\<lparr>lw_co := c\<rparr>))"

definition arrive_stop :: "lifecycle_cause \<Rightarrow> world \<Rightarrow> world" where
  "arrive_stop cause w =
     (case stop_begin cause (lw_co w) of
        (from_phase, c) \<Rightarrow> add_pending (Stop_call cause from_phase) (w\<lparr>lw_co := c\<rparr>))"

text \<open>
  The quit sequence of \<open>quit_desktop_host\<close> and \<open>run_stop_operations\<close> takes the mutex twice, then writes
  the settings and calls the platform directly.
\<close>

definition quit_requested_now :: "world \<Rightarrow> world" where
  "quit_requested_now w = w\<lparr>lw_co := request_quit (lw_co w)\<rparr>"

definition quit_suppress :: "world \<Rightarrow> world" where
  "quit_suppress w = add_pending Quit_stop (add_pending Store_suppression (w\<lparr>lw_co := suppress_for_session Quit (lw_co w)\<rparr>))"

definition reopen :: "world \<Rightarrow> world" where
  "reopen w = add_pending Store_clearing (w\<lparr>lw_co := clear_phase ManualReopen (lw_co w)\<rparr>)"

text \<open>One pending step; \<open>res\<close>, \<open>ok\<close>, \<open>boot\<close> and \<open>written\<close> are what the platform answers.\<close>

fun run_pending ::
  "string + ensure_outcome \<Rightarrow> bool \<Rightarrow> nat option \<Rightarrow> bool \<Rightarrow> lifecycle_task \<Rightarrow> world \<Rightarrow> world" where
  "run_pending res ok boot written (Ensure_call cause from_phase) w =
     add_pending (Ensure_return cause from_phase res) (w\<lparr>lw_calls := lw_calls w @ [Called_ensure]\<rparr>)"
| "run_pending res ok boot written (Ensure_return cause from_phase r) w =
     w\<lparr>lw_co := ensure_finish cause from_phase r (lw_co w)\<rparr>"
| "run_pending res ok boot written (Stop_call cause from_phase) w =
     add_pending (Stop_return cause from_phase ok) (w\<lparr>lw_calls := lw_calls w @ [Called_stop]\<rparr>)"
| "run_pending res ok boot written (Stop_return cause from_phase b) w =
     w\<lparr>lw_co := stop_finish cause from_phase b (lw_co w)\<rparr>"
| "run_pending res ok boot written Quit_stop w =
     w\<lparr>lw_host_mode := False, lw_calls := lw_calls w @ [Called_stop]\<rparr>"
| "run_pending res ok boot written Store_suppression w = w\<lparr>lw_store := record_suppression boot written (lw_store w)\<rparr>"
| "run_pending res ok boot written Store_clearing w = w\<lparr>lw_store := clear_suppression written (lw_store w)\<rparr>"

text \<open>
  A task may never come back: its caller drops the future while it waits for the mutex again (the callers put time limits on
  them), or the platform's call panics. Nothing undoes what the first section did; abandoned ensures are
  counted.
\<close>

fun abandon :: "lifecycle_task \<Rightarrow> world \<Rightarrow> world" where
  "abandon (Ensure_call cause from_phase) w =
     w\<lparr>lw_calls := lw_calls w @ [Called_ensure], lw_abandoned := lw_abandoned w + 1\<rparr>"
| "abandon (Ensure_return cause from_phase r) w = w\<lparr>lw_abandoned := lw_abandoned w + 1\<rparr>"
| "abandon (Stop_call cause from_phase) w = w\<lparr>lw_calls := lw_calls w @ [Called_stop]\<rparr>"
| "abandon Quit_stop w = w\<lparr>lw_host_mode := False, lw_calls := lw_calls w @ [Called_stop]\<rparr>"
| "abandon _ w = w"

inductive world_step :: "world \<Rightarrow> world \<Rightarrow> bool" where
  step_ensure: "world_step w (arrive_ensure cause w)"
| step_stop: "world_step w (arrive_stop cause w)"
| step_quit: "world_step w (quit_requested_now w)"
| step_suppress: "co_quit_requested (lw_co w) \<Longrightarrow> world_step w (quit_suppress w)"
| step_reopen: "world_step w (reopen w)"
| step_pending: "lw_pending w = ps @ p # qs \<Longrightarrow>
    world_step w (run_pending res ok boot written p (w\<lparr>lw_pending := ps @ qs\<rparr>))"
| step_abandon: "lw_pending w = ps @ p # qs \<Longrightarrow> world_step w (abandon p (w\<lparr>lw_pending := ps @ qs\<rparr>))"

definition fresh_world :: "world \<Rightarrow> bool" where
  "fresh_world w = (lw_co w = new_coordinator \<and> lw_pending w = [] \<and> lw_calls w = [] \<and> lw_abandoned w = 0)"

section \<open>At most one ensure\<close>

fun is_ensure :: "lifecycle_task \<Rightarrow> bool" where
  "is_ensure (Ensure_call _ _) = True"
| "is_ensure (Ensure_return _ _ _) = True"
| "is_ensure _ = False"

fun is_ensure_call :: "lifecycle_task \<Rightarrow> bool" where
  "is_ensure_call (Ensure_call _ _) = True"
| "is_ensure_call _ = False"

definition counted :: "world \<Rightarrow> bool" where
  "counted w =
     (co_ensure_in_flight (lw_co w) = count_where is_ensure (lw_pending w) + lw_abandoned w
      \<and> co_ensure_in_flight (lw_co w) \<le> 1)"

lemma emit_log_fields [simp]:
  "co_phase (emit_log a b d e f g h c) = co_phase c" "co_quit_requested (emit_log a b d e f g h c) = co_quit_requested c"
  "co_ensure_in_flight (emit_log a b d e f g h c) = co_ensure_in_flight c"
  by (simp_all add: emit_log_def)

lemma ensure_begin_cases:
  obtains c' where "ensure_begin cause c = (Return_now AlreadyRunning, c')"
      "co_ensure_in_flight c' = co_ensure_in_flight c" "co_quit_requested c' = co_quit_requested c"
      "co_phase c' = co_phase c \<or> clears_suppression cause \<and> co_phase c' = Active"
    | c' where "ensure_begin cause c = (Proceed (co_phase c'), c')" "co_ensure_in_flight c = 0" "co_ensure_in_flight c' = 1"
      "\<not> co_quit_requested c" "\<not> co_quit_requested c'" "co_phase c = Active \<or> clears_suppression cause" "co_phase c' = Active"
proof (cases "co_phase c")
  case Active
  then show ?thesis
    using that by (cases "co_quit_requested c"; cases "co_ensure_in_flight c = 0") (simp_all add: ensure_begin_def Let_def)
next
  case SuppressedForSession
  then show ?thesis
    using that
    by (cases "co_quit_requested c"; cases "co_ensure_in_flight c = 0"; cases "clears_suppression cause")
      (simp_all add: ensure_begin_def Let_def)
qed

lemma ensure_finish_fields [simp]:
  "co_phase (ensure_finish cause p r c) = co_phase c" "co_quit_requested (ensure_finish cause p r c) = co_quit_requested c"
  "co_ensure_in_flight (ensure_finish cause p r c) = co_ensure_in_flight c - 1"
  by (simp_all add: ensure_finish_def Let_def split: sum.split ensure_outcome.split)

lemma other_sections [simp]:
  "co_quit_requested (suppress_for_session q c) = co_quit_requested c"
  "co_ensure_in_flight (suppress_for_session q c) = co_ensure_in_flight c"
  "co_phase (suppress_for_session q c) = SuppressedForSession"
  "co_quit_requested (clear_phase q c) = co_quit_requested c"
  "co_ensure_in_flight (clear_phase q c) = co_ensure_in_flight c"
  "co_phase (clear_phase q c) = Active"
  "co_quit_requested (request_quit c)" "co_ensure_in_flight (request_quit c) = co_ensure_in_flight c"
  "co_phase (request_quit c) = co_phase c"
  "co_quit_requested (stop_finish q p b c) = co_quit_requested c"
  "co_ensure_in_flight (stop_finish q p b c) = co_ensure_in_flight c"
  "co_phase (stop_finish q p b c) = co_phase c"
  by (cases "co_phase c"; simp add: suppress_for_session_def clear_phase_def request_quit_def stop_finish_def)+

lemma world_step_counted: "world_step w v \<Longrightarrow> counted w \<Longrightarrow> counted v"
proof (induction rule: world_step.induct)
  case (step_ensure w cause)
  then show ?case
    by (cases rule: ensure_begin_cases [of cause "lw_co w"])
      (auto simp: counted_def arrive_ensure_def add_pending_def)
next
  case (step_pending w ps p qs res ok boot written)
  then show ?case
    by (cases p) (auto simp: counted_def add_pending_def)
next
  case (step_abandon w ps p qs)
  then show ?case
    by (cases p) (auto simp: counted_def)
qed (auto simp: counted_def arrive_stop_def stop_begin_def add_pending_def quit_requested_now_def quit_suppress_def reopen_def)

interpretation one_ensure: invariant_machine fresh_world world_step counted
  by unfold_locales (simp add: fresh_world_def counted_def new_coordinator_def, rule world_step_counted)

section \<open>Quit and suppression\<close>

text \<open>The ensures that have called the platform, or still will without passing the mutex again.\<close>

definition committed :: "world \<Rightarrow> nat" where
  "committed w = count_where (\<lambda>c. c = Called_ensure) (lw_calls w) + count_where is_ensure_call (lw_pending w)"

lemma run_pending_committed:
  assumes "lw_pending w = ps @ p # qs"
  shows "committed (run_pending res ok boot written p (w\<lparr>lw_pending := ps @ qs\<rparr>)) = committed w"
  using assms by (cases p) (simp_all add: committed_def add_pending_def)

lemma abandon_committed:
  assumes "lw_pending w = ps @ p # qs"
  shows "committed (abandon p (w\<lparr>lw_pending := ps @ qs\<rparr>)) = committed w"
  using assms by (cases p) (simp_all add: committed_def)

lemma abandon_frame [simp]: "lw_co (abandon p w) = lw_co w" "lw_pending (abandon p w) = lw_pending w"
  by (cases p; simp)+

lemma other_committed [simp]:
  "committed (arrive_stop cause w) = committed w" "committed (quit_requested_now w) = committed w"
  "committed (quit_suppress w) = committed w" "committed (reopen w) = committed w"
  by (simp_all add: committed_def arrive_stop_def stop_begin_def add_pending_def quit_requested_now_def
      quit_suppress_def reopen_def)

lemma other_abandoned [simp]:
  "lw_abandoned (arrive_stop cause w) = lw_abandoned w" "lw_abandoned (quit_requested_now w) = lw_abandoned w"
  "lw_abandoned (quit_suppress w) = lw_abandoned w" "lw_abandoned (reopen w) = lw_abandoned w"
  by (simp_all add: arrive_stop_def stop_begin_def add_pending_def quit_requested_now_def quit_suppress_def reopen_def)

definition quitting :: "nat \<Rightarrow> world \<Rightarrow> bool" where
  "quitting n w = (co_quit_requested (lw_co w) \<and> committed w = n)"

lemma world_step_quitting: "world_step w v \<Longrightarrow> quitting n w \<Longrightarrow> quitting n v"
proof (induction rule: world_step.induct)
  case (step_ensure w cause)
  then show ?case
    by (cases rule: ensure_begin_cases [of cause "lw_co w"])
      (auto simp: quitting_def committed_def arrive_ensure_def)
next
  case (step_pending w ps p qs res ok boot written)
  then have "committed (run_pending res ok boot written p (w\<lparr>lw_pending := ps @ qs\<rparr>)) = n"
    by (simp add: run_pending_committed quitting_def)
  with step_pending show ?case
    by (cases p) (auto simp: quitting_def add_pending_def)
next
  case (step_abandon w ps p qs)
  then show ?case by (simp add: quitting_def abandon_committed)
qed (auto simp: quitting_def, auto simp: arrive_stop_def stop_begin_def add_pending_def quit_requested_now_def
    quit_suppress_def reopen_def)

interpretation after_quit: invariant_machine "quitting n" world_step "quitting n" for n
  by unfold_locales (auto intro: world_step_quitting)

lemma count_where_mono: "(\<And>x. P x \<Longrightarrow> Q x) \<Longrightarrow> count_where P xs \<le> count_where Q xs"
  by (induction xs) auto

section \<open>Properties\<close>

text \<open>
  C23. Whatever tasks call the coordinator and however they interleave, also when tasks are dropped by their callers or the
  platform's call panics, at most one task is between
  the two critical sections of an ensure, so no two calls of the platform's ensure overlap; and the in-flight counter is the
  number of those plus the number of ensures abandoned between the sections, which never exceeds one.
\<close>

theorem ensures_never_overlap:
  assumes "reach fresh_world world_step w"
  shows "count_where is_ensure (lw_pending w) \<le> 1 \<and> lw_abandoned w \<le> 1
    \<and> co_ensure_in_flight (lw_co w) = count_where is_ensure (lw_pending w) + lw_abandoned w"
  using one_ensure.reachable_inv [OF assms] by (simp add: counted_def)

text \<open>Once an ensure was abandoned.\<close>

definition stuck :: "nat \<Rightarrow> world \<Rightarrow> bool" where
  "stuck n w = (counted w \<and> lw_abandoned w = 1 \<and> committed w = n)"

lemma world_step_stuck:
  assumes "world_step w v" "stuck n w"
  shows "stuck n v"
proof -
  have c: "counted v" using assms world_step_counted by (simp add: stuck_def)
  have none: "count_where is_ensure (lw_pending w) = 0" "0 < co_ensure_in_flight (lw_co w)"
    using assms(2) by (simp_all add: stuck_def counted_def)
  from assms(1,2) none have "lw_abandoned v = 1 \<and> committed v = n"
  proof (induction rule: world_step.induct)
    case (step_ensure w cause)
    then show ?case
      by (cases rule: ensure_begin_cases [of cause "lw_co w"])
        (auto simp: stuck_def arrive_ensure_def committed_def)
  next
    case (step_pending w ps p qs res ok boot written)
    moreover have "lw_abandoned (run_pending res ok boot written p (w\<lparr>lw_pending := ps @ qs\<rparr>)) = lw_abandoned w"
      by (cases p) (simp_all add: add_pending_def)
    ultimately show ?case by (simp add: stuck_def run_pending_committed)
  next
    case (step_abandon w ps p qs)
    then have "\<not> is_ensure p" by auto
    then have "lw_abandoned (abandon p (w\<lparr>lw_pending := ps @ qs\<rparr>)) = lw_abandoned w" by (cases p) simp_all
    with step_abandon show ?case by (simp add: stuck_def abandon_committed)
  qed (auto simp: stuck_def)
  with c show ?thesis by (simp add: stuck_def)
qed

interpretation after_abandon: invariant_machine "stuck n" world_step "stuck n" for n
  by unfold_locales (auto intro: world_step_stuck)

text \<open>
  One abandoned ensure disables the coordinator for the rest of the process: whatever tasks and causes follow, none of them
  gets a call of the platform's ensure through any more, and every ensure answers at once that the service is already running.
\<close>

theorem abandoned_ensure_sticks:
  assumes "reach fresh_world world_step w" "lw_abandoned w = 1" "world_step\<^sup>*\<^sup>* w v"
  shows "count_where (\<lambda>c. c = Called_ensure) (lw_calls v) = count_where (\<lambda>c. c = Called_ensure) (lw_calls w)
    \<and> fst (ensure_begin cause (lw_co v)) = Return_now AlreadyRunning"
proof -
  have "stuck (committed w) w" using one_ensure.reachable_inv [OF assms(1)] assms(2) by (simp add: stuck_def)
  then have v: "stuck (committed w) v" by (rule after_abandon.run_inv [OF assms(3)])
  have none: "count_where is_ensure_call (lw_pending x) = 0" if "stuck n x" for n x
  proof -
    have "count_where is_ensure_call (lw_pending x) \<le> count_where is_ensure (lw_pending x)"
      by (rule count_where_mono) (auto elim: is_ensure_call.elims)
    then show ?thesis using that by (simp add: stuck_def counted_def)
  qed
  have "0 < co_ensure_in_flight (lw_co v)" using v by (simp add: stuck_def counted_def)
  then have "fst (ensure_begin cause (lw_co v)) = Return_now AlreadyRunning"
    by (cases rule: ensure_begin_cases [of cause "lw_co v"]) simp_all
  then show ?thesis using v none[OF v] none[OF \<open>stuck (committed w) w\<close>] by (simp add: stuck_def committed_def)
qed

text \<open>
  C24. Once a quit was requested no further ensure gets to the platform: from then on at most one such
  call is made, and only by a task that had passed the mutex before.
\<close>

theorem quit_stops_ensures:
  assumes "reach fresh_world world_step w" "co_quit_requested (lw_co w)" "world_step\<^sup>*\<^sup>* w v"
  shows "count_where (\<lambda>c. c = Called_ensure) (lw_calls v)
    \<le> count_where (\<lambda>c. c = Called_ensure) (lw_calls w) + count_where is_ensure_call (lw_pending w)
    \<and> count_where is_ensure_call (lw_pending w) \<le> 1"
proof
  have "quitting (committed w) v"
    using after_quit.run_inv [OF assms(3), of "committed w"] assms(2) by (simp add: quitting_def)
  then show "count_where (\<lambda>c. c = Called_ensure) (lw_calls v)
    \<le> count_where (\<lambda>c. c = Called_ensure) (lw_calls w) + count_where is_ensure_call (lw_pending w)"
    by (simp add: quitting_def committed_def)
  have "count_where is_ensure_call (lw_pending w) \<le> count_where is_ensure (lw_pending w)"
    by (rule count_where_mono) (auto elim: is_ensure_call.elims)
  also have "\<dots> \<le> 1"
    using one_ensure.reachable_inv [OF assms(1)] by (simp add: counted_def)
  finally show "count_where is_ensure_call (lw_pending w) \<le> 1" .
qed

text \<open>
  while the session is suppressed, only a cause that clears suppression gets an ensure to the
  platform or ends the suppression: a step of any other kind leaves the phase and starts no call.
\<close>

theorem suppression_holds:
  assumes "co_phase (lw_co w) = SuppressedForSession" "world_step w v"
  shows "co_phase (lw_co v) = SuppressedForSession \<and> committed v = committed w
    \<or> (\<exists>cause. clears_suppression cause \<and> v = arrive_ensure cause w) \<or> v = reopen w"
  using assms(2,1)
proof (induction rule: world_step.induct)
  case (step_ensure w cause)
  then show ?case
    by (cases rule: ensure_begin_cases [of cause "lw_co w"]) (auto simp: arrive_ensure_def committed_def)
next
  case (step_pending w ps p qs res ok boot written)
  then have "committed (run_pending res ok boot written p (w\<lparr>lw_pending := ps @ qs\<rparr>)) = committed w"
    by (simp add: run_pending_committed)
  moreover have "co_phase (lw_co (run_pending res ok boot written p (w\<lparr>lw_pending := ps @ qs\<rparr>))) = co_phase (lw_co w)"
    by (cases p) (simp_all add: add_pending_def)
  ultimately show ?case
    using step_pending.prems by simp
next
  case (step_abandon w ps p qs)
  then show ?case by (simp add: abandon_committed)
qed (auto simp: arrive_stop_def stop_begin_def quit_requested_now_def quit_suppress_def add_pending_def committed_def)

text \<open>
  an ensure that passed the mutex before the quit may call the platform after the quit has
  stopped the service: the application then exits with the service started again.
\<close>

theorem quit_can_be_overtaken:
  "\<exists>w. reach fresh_world world_step w \<and> co_quit_requested (lw_co w) \<and> lw_calls w = [Called_stop, Called_ensure]
    \<and> Ensure_return Startup Active (Inr (Started AlreadyPresent)) \<in> set (lw_pending w)"
proof -
  define w0 where "w0 = \<lparr>lw_co = new_coordinator, lw_store = \<lparr>ss_memory = default_settings, ss_file = Absent\<rparr>,
    lw_host_mode = True, lw_pending = [], lw_calls = [], lw_abandoned = 0\<rparr>"
  define w3 where "w3 = quit_suppress (quit_requested_now (arrive_ensure Startup w0))"
  define w4 where "w4 = run_pending (Inl []) True None True Quit_stop
    (w3\<lparr>lw_pending := [Ensure_call Startup Active, Store_suppression] @ []\<rparr>)"
  define w5 where "w5 = run_pending (Inr (Started AlreadyPresent)) True None True (Ensure_call Startup Active)
    (w4\<lparr>lw_pending := [] @ [Store_suppression]\<rparr>)"
  note defs = w0_def w3_def w4_def w5_def arrive_ensure_def ensure_begin_def new_coordinator_def add_pending_def
    quit_requested_now_def quit_suppress_def request_quit_def suppress_for_session_def emit_log_def
  have q: "co_quit_requested (lw_co (quit_requested_now (arrive_ensure Startup w0)))"
    by (simp add: defs)
  have r0: "reach fresh_world world_step w0"
    by (rule reach_init) (simp add: fresh_world_def w0_def)
  have r1: "reach fresh_world world_step (arrive_ensure Startup w0)"
    by (rule reach_step, rule r0, rule step_ensure)
  have r2: "reach fresh_world world_step (quit_requested_now (arrive_ensure Startup w0))"
    by (rule reach_step, rule r1, rule step_quit)
  have r3: "reach fresh_world world_step w3"
    unfolding w3_def by (rule reach_step, rule r2, rule step_suppress, rule q)
  have p3: "lw_pending w3 = [Ensure_call Startup Active, Store_suppression] @ Quit_stop # []"
    by (simp add: defs)
  have r4: "reach fresh_world world_step w4"
    unfolding w4_def by (rule reach_step, rule r3, rule step_pending, rule p3)
  have p4: "lw_pending w4 = [] @ Ensure_call Startup Active # [Store_suppression]"
    by (simp add: defs)
  have "reach fresh_world world_step w5"
    unfolding w5_def by (rule reach_step, rule r4, rule step_pending, rule p4)
  then show ?thesis
    by (intro exI [of _ w5]) (simp add: defs)
qed

text \<open>
  C25. A suppression does not survive a restart of the application. Whatever the boot time was when it was written and is now, and
  whether either could be read, the start ends with an active phase, and its first ensure gets to the platform. A mark of this same boot
  makes its cause a manual reopen, any other mark a startup; in both cases the mark is removed from the file, if the write succeeds,
  and the login-start preference is kept.
\<close>

theorem startup_ends_suppression:
  assumes "ss_file (record_suppression b True st) = ss_file st'"
    and "startup_cause b' w1 w2 (Some st') new_coordinator = (cause, c, st'')"
  shows "let same = (b \<noteq> None \<and> b = b'); written = (if same then w2 else w1) in
      cause = (if same then ManualReopen else Startup)
    \<and> co_phase c = Active \<and> fst (ensure_begin cause c) = Proceed Active
    \<and> (\<exists>x. st'' = Some x \<and> \<not> dl_suppressed_for_session (ss_memory x)
         \<and> (if written then load_settings x =
              (load_settings st)\<lparr>dl_suppressed_for_session := False, dl_suppressed_at_boot_secs := None\<rparr> else ss_file x = ss_file st'))"
proof -
  have st': "load_settings st' = (load_settings st)\<lparr>dl_suppressed_for_session := True, dl_suppressed_at_boot_secs := b\<rparr>"
    using assms(1) [symmetric] by (simp add: load_settings_def record_suppression_def save_settings_def)
  have active: "suppression_active b' st' \<longleftrightarrow> b \<noteq> None \<and> b = b'"
    by (auto simp: suppression_active_def st' split: option.splits)
  have saved: "load_settings (x\<lparr>ss_memory := m, ss_file := Decoded s\<rparr>) = s" for x m s by (simp add: load_settings_def)
  note at = saved startup_cause_def restore_from_settings_def active st' is_suppressed_def clear_suppression_def save_settings_def
  show ?thesis
  proof (cases "b \<noteq> None \<and> b = b'")
    case True
    with assms(2) show ?thesis
      by (auto simp: at Let_def ensure_begin_def clear_phase_def suppress_for_session_def emit_log_def new_coordinator_def
          split: if_splits)
  next
    case False
    with assms(2) show ?thesis
      by (auto simp: at Let_def ensure_begin_def new_coordinator_def split: if_splits)
  qed
qed

lemma bootstrap_from:
  assumes "bootstrap_loop ens a = (res, n)" "a < 3"
  shows "a < n \<and> n \<le> 3 \<and> (\<forall>k\<in>{a<..<n}. \<exists>e. ens k = Inl e \<and> bootstrap_failure_is_retryable e)
    \<and> (case res of Ready \<Rightarrow> \<exists>x. ens n = Inr x
       | Unavailable e \<Rightarrow> ens n = Inl e \<and> (n = 3 \<or> \<not> bootstrap_failure_is_retryable e))"
  using assms
proof (induction ens a rule: bootstrap_loop.induct)
  case (1 ens a)
  show ?case
  proof (cases "ens (a + 1)")
    case (Inr x)
    then show ?thesis
      using 1 by (auto simp: bootstrap_loop.simps [of ens a])
  next
    case (Inl e)
    show ?thesis
    proof (cases "bootstrap_failure_is_retryable e \<and> a + 1 < 3")
      case False
      then show ?thesis
        using 1 Inl by (auto simp: bootstrap_loop.simps [of ens a] BOOTSTRAP_MAX_ATTEMPTS_def)
    next
      case True
      then have "bootstrap_loop ens (a + 1) = (res, n)"
        using 1 Inl by (simp add: bootstrap_loop.simps [of ens a] BOOTSTRAP_MAX_ATTEMPTS_def)
      then have ih: "a + 1 < n \<and> n \<le> 3 \<and> (\<forall>k\<in>{a+1<..<n}. \<exists>e. ens k = Inl e \<and> bootstrap_failure_is_retryable e)
          \<and> (case res of Ready \<Rightarrow> \<exists>x. ens n = Inr x
             | Unavailable e \<Rightarrow> ens n = Inl e \<and> (n = 3 \<or> \<not> bootstrap_failure_is_retryable e))"
        using 1(1) Inl True by (simp add: BOOTSTRAP_MAX_ATTEMPTS_def)
      have "\<exists>e. ens k = Inl e \<and> bootstrap_failure_is_retryable e" if "a < k" "k < n" for k
        using that ih Inl True by (cases "k = a + 1") auto
      with ih show ?thesis by auto
    qed
  qed
qed

text \<open>
  the bootstrap makes at most three calls of \<open>ensure_running\<close>; it reports ready exactly when one of
  them succeeded with only retryable failures before it, and otherwise reports the error of its last
  call.
\<close>

theorem bootstrap_attempts:
  "case bootstrap_loop ens 0 of (res, n) \<Rightarrow>
     1 \<le> n \<and> n \<le> 3 \<and> (\<forall>k\<in>{0<..<n}. \<exists>e. ens k = Inl e \<and> bootstrap_failure_is_retryable e)
     \<and> (case res of Ready \<Rightarrow> \<exists>x. ens n = Inr x
        | Unavailable e \<Rightarrow> ens n = Inl e \<and> (n = 3 \<or> \<not> bootstrap_failure_is_retryable e))"
  using bootstrap_from [of ens 0] by (cases "bootstrap_loop ens 0") auto

section \<open>Concrete runs\<close>

definition idle_world :: world where
  "idle_world = \<lparr>lw_co = new_coordinator, lw_store = \<lparr>ss_memory = default_settings, ss_file = Absent\<rparr>,
     lw_host_mode = True, lw_pending = [], lw_calls = [], lw_abandoned = 0\<rparr>"

lemma idle_reached: "reach fresh_world world_step idle_world"
  by (rule reach_init) (simp add: fresh_world_def idle_world_def)

definition busy_world :: world where
  "busy_world = quit_requested_now (arrive_ensure Repair (arrive_ensure Startup idle_world))"

lemma busy_reached: "reach fresh_world world_step busy_world"
  unfolding busy_world_def
  by (rule reach_step, rule reach_step, rule reach_step, rule idle_reached, rule step_ensure, rule step_ensure,
      rule step_quit)

lemma busy_world_pending:
  "lw_pending busy_world = [Ensure_call Startup Active]" "lw_calls busy_world = []" "lw_abandoned busy_world = 0"
  by (simp_all add: busy_world_def quit_requested_now_def arrive_ensure_def ensure_begin_def idle_world_def
      new_coordinator_def add_pending_def request_quit_def emit_log_def Let_def)

theorem ensures_never_overlap_witness: "co_ensure_in_flight (lw_co busy_world) = 1"
  using ensures_never_overlap [OF busy_reached] by (simp add: busy_world_pending)

theorem quit_stops_ensures_witness:
  "count_where (\<lambda>c. c = Called_ensure) (lw_calls (arrive_ensure ManualReopen busy_world)) \<le> 1"
proof -
  have "co_quit_requested (lw_co busy_world)"
    by (simp add: busy_world_def quit_requested_now_def)
  moreover have "world_step\<^sup>*\<^sup>* busy_world (arrive_ensure ManualReopen busy_world)"
    by (rule r_into_rtranclp, rule step_ensure)
  ultimately show ?thesis
    using quit_stops_ensures [OF busy_reached] by (force simp: busy_world_pending)
qed

definition suppressed_world :: world where
  "suppressed_world = idle_world\<lparr>lw_co := suppress_for_session Quit new_coordinator\<rparr>"

theorem suppression_holds_witness:
  "co_phase (lw_co (arrive_stop Quit suppressed_world)) = SuppressedForSession
     \<and> committed (arrive_stop Quit suppressed_world) = committed suppressed_world
   \<or> (\<exists>cause. clears_suppression cause \<and> arrive_stop Quit suppressed_world = arrive_ensure cause suppressed_world)
   \<or> arrive_stop Quit suppressed_world = reopen suppressed_world"
  by (rule suppression_holds, simp add: suppressed_world_def, rule step_stop)

theorem startup_ends_suppression_witness:
  "fst (startup_cause (Some 7) True True (Some \<lparr>ss_memory = default_settings,
       ss_file = Decoded (default_settings\<lparr>dl_suppressed_for_session := True, dl_suppressed_at_boot_secs := Some 7\<rparr>)\<rparr>)
     new_coordinator) = ManualReopen"
proof -
  let ?st = "\<lparr>ss_memory = default_settings,
     ss_file = Decoded (default_settings\<lparr>dl_suppressed_for_session := True, dl_suppressed_at_boot_secs := Some 7\<rparr>)\<rparr>"
  have "ss_file (record_suppression (Some 7) True \<lparr>ss_memory = default_settings, ss_file = Absent\<rparr>) = ss_file ?st"
    by (simp add: record_suppression_def save_settings_def load_settings_def)
  moreover obtain cause c st'' where run: "startup_cause (Some 7) True True (Some ?st) new_coordinator = (cause, c, st'')"
    by (cases "startup_cause (Some 7) True True (Some ?st) new_coordinator")
  ultimately have "cause = ManualReopen"
    using startup_ends_suppression by (fastforce simp: Let_def)
  with run show ?thesis by simp
qed

text \<open>A caller's time limit drops its ensure while it waits for the mutex.\<close>

definition stuck_world :: world where
  "stuck_world = abandon (Ensure_call Startup Active) ((arrive_ensure Startup idle_world)\<lparr>lw_pending := [] @ []\<rparr>)"

theorem abandoned_ensure_sticks_witness:
  "fst (ensure_begin ManualReopen (lw_co stuck_world)) = Return_now AlreadyRunning"
proof -
  have "lw_pending (arrive_ensure Startup idle_world) = [] @ Ensure_call Startup Active # []" "lw_abandoned stuck_world = 1"
    by (simp_all add: stuck_world_def arrive_ensure_def ensure_begin_def idle_world_def new_coordinator_def add_pending_def Let_def)
  moreover from this(1) have "reach fresh_world world_step stuck_world"
    unfolding stuck_world_def by (rule reach_step[OF reach_step[OF idle_reached step_ensure] step_abandon])
  ultimately show ?thesis using abandoned_ensure_sticks[of stuck_world stuck_world ManualReopen] by blast
qed

end
