(* ===== verification/Worker_Pool.thy ===== *)
theory Worker_Pool
  imports Store_Bindings Subagent_Error Step_Machines
begin

text \<open>
  The pool of sidecar workers of \<open>sidecar/pool.rs\<close>: one supervisor per provider, created on demand. A
  supervisor is its serial number; all share the base configuration and with it the harness name. The
  methods release the locks between their parts, so the parts are separate functions and a step
  relation interleaves them, together with the start and the kill of the worker processes.
\<close>

section \<open>The pool\<close>

record provider_entry =
  pe_provider_id :: string
  pe_api_key :: string
  pe_base_url :: string

text \<open>The two hash maps; the workers in the map's iteration order.\<close>

record pool =
  wp_providers :: "(string \<times> provider_entry) list"
  wp_workers :: "(string \<times> nat) list"
  wp_created :: nat

definition pool_new :: "(string \<times> provider_entry) list \<Rightarrow> pool" where
  "pool_new entries = \<lparr>wp_providers = entries, wp_workers = [], wp_created = 0\<rparr>"

definition get_worker :: "string \<Rightarrow> pool \<Rightarrow> nat option" where
  "get_worker pid p = map_of (wp_workers p) pid"

text \<open>
  \<open>ensure_worker\<close>: the entry, then the map; when there is no worker one is built outside the lock and
  inserted, unless another caller was faster. \<open>place\<close> is where the hash map puts a new key.
\<close>

datatype 'e ensured = Ensured nat | Building nat | Ensure_failed 'e

definition ensure_lookup :: "string \<Rightarrow> pool \<Rightarrow> string ensured \<times> pool" where
  "ensure_lookup pid p =
     (case map_of (wp_providers p) pid of
        None \<Rightarrow> (Ensure_failed (''unknown provider: '' @ pid), p)
      | Some _ \<Rightarrow> (case get_worker pid p of
                     Some w \<Rightarrow> (Ensured w, p)
                   | None \<Rightarrow> (Building (wp_created p), p\<lparr>wp_created := wp_created p + 1\<rparr>)))"

definition ensure_insert :: "nat \<Rightarrow> string \<Rightarrow> nat \<Rightarrow> pool \<Rightarrow> nat \<times> pool" where
  "ensure_insert place pid w p =
     (case get_worker pid p of
        Some existing \<Rightarrow> (existing, p)
      | None \<Rightarrow> (w, p\<lparr>wp_workers := take place (wp_workers p) @ (pid, w) # drop place (wp_workers p)\<rparr>))"

text \<open>Without another caller in between.\<close>

definition ensure_worker :: "nat \<Rightarrow> string \<Rightarrow> pool \<Rightarrow> ('v sidecar_error + nat) \<times> pool" where
  "ensure_worker place pid p =
     (case ensure_lookup pid p of
        (Ensure_failed e, p) \<Rightarrow> (Inl (SpawnErr e), p)
      | (Ensured w, p) \<Rightarrow> (Inr w, p)
      | (Building w, p) \<Rightarrow> (case ensure_insert place pid w p of (w, p) \<Rightarrow> (Inr w, p)))"

definition take_worker :: "string \<Rightarrow> pool \<Rightarrow> nat option \<times> pool" where
  "take_worker pid p = (get_worker pid p, p\<lparr>wp_workers := filter (\<lambda>x. fst x \<noteq> pid) (wp_workers p)\<rparr>)"

definition remove_provider_entry :: "string \<Rightarrow> pool \<Rightarrow> pool" where
  "remove_provider_entry pid p = p\<lparr>wp_providers := filter (\<lambda>x. fst x \<noteq> pid) (wp_providers p)\<rparr>"

definition insert_provider_entry :: "provider_entry \<Rightarrow> pool \<Rightarrow> pool" where
  "insert_provider_entry e p =
     p\<lparr>wp_providers := (pe_provider_id e, e) # filter (\<lambda>x. fst x \<noteq> pe_provider_id e) (wp_providers p)\<rparr>"

definition drain_workers :: "pool \<Rightarrow> nat list \<times> pool" where
  "drain_workers p = (map snd (wp_workers p), p\<lparr>wp_workers := []\<rparr>)"

definition for_each_supervisor :: "pool \<Rightarrow> (string \<times> nat) list" where
  "for_each_supervisor p = wp_workers p"

text \<open>
  The first supervisor whose harness has a binding of the session; without a database the first one.
  \<open>fails\<close>: whether the query fails.
\<close>

definition supervisor_for_session ::
  "string \<Rightarrow> string \<Rightarrow> db option \<Rightarrow> bool \<Rightarrow> pool \<Rightarrow> string + (string \<times> nat) option" where
  "supervisor_for_session harness session d fails p =
     (case d of
        None \<Rightarrow> Inr (case wp_workers p of [] \<Rightarrow> None | x # _ \<Rightarrow> Some x)
      | Some d \<Rightarrow>
          if wp_workers p = [] then Inr None
          else if fails then Inl ''DB query failed in supervisor_for_session''
          else Inr (find (\<lambda>_. find_binding_by_session session harness d \<noteq> None) (wp_workers p)))"

section \<open>Interleaved callers\<close>

text \<open>
  What a caller is about to do next; the processes that are alive, each with its provider.
\<close>

datatype pool_task =
    Insert_built string nat
  | Start_worker string nat
  | Kill_worker nat
  | Take_old string

record pool_world =
  pw_pool :: pool
  pw_tasks :: "pool_task list"
  pw_alive :: "(string \<times> nat) list"

definition spawn_task :: "pool_task \<Rightarrow> pool_world \<Rightarrow> pool_world" where
  "spawn_task t w = w\<lparr>pw_tasks := pw_tasks w @ [t]\<rparr>"

definition call_ensure :: "string \<Rightarrow> pool_world \<Rightarrow> pool_world" where
  "call_ensure pid w =
     (case ensure_lookup pid (pw_pool w) of
        (Ensure_failed _, p) \<Rightarrow> w\<lparr>pw_pool := p\<rparr>
      | (Ensured i, p) \<Rightarrow> spawn_task (Start_worker pid i) (w\<lparr>pw_pool := p\<rparr>)
      | (Building i, p) \<Rightarrow> spawn_task (Insert_built pid i) (w\<lparr>pw_pool := p\<rparr>))"

definition take_and_kill :: "string \<Rightarrow> pool_world \<Rightarrow> pool_world" where
  "take_and_kill pid w =
     (case take_worker pid (pw_pool w) of
        (None, p) \<Rightarrow> w\<lparr>pw_pool := p\<rparr>
      | (Some i, p) \<Rightarrow> spawn_task (Kill_worker i) (w\<lparr>pw_pool := p\<rparr>))"

definition call_shutdown_all :: "pool_world \<Rightarrow> pool_world" where
  "call_shutdown_all w =
     (case drain_workers (pw_pool w) of
        (ws, p) \<Rightarrow> w\<lparr>pw_pool := p, pw_tasks := pw_tasks w @ map Kill_worker ws\<rparr>)"

text \<open>\<open>ensure_started\<close> spawns a process when the supervisor has none.\<close>

fun run_task :: "nat \<Rightarrow> bool \<Rightarrow> pool_task \<Rightarrow> pool_world \<Rightarrow> pool_world" where
  "run_task place spawns (Insert_built pid i) w =
     (case ensure_insert place pid i (pw_pool w) of
        (j, p) \<Rightarrow> spawn_task (Start_worker pid j) (w\<lparr>pw_pool := p\<rparr>))"
| "run_task place spawns (Start_worker pid i) w =
     (if spawns \<and> (pid, i) \<notin> set (pw_alive w) then w\<lparr>pw_alive := pw_alive w @ [(pid, i)]\<rparr> else w)"
| "run_task place spawns (Kill_worker i) w = w\<lparr>pw_alive := filter (\<lambda>x. snd x \<noteq> i) (pw_alive w)\<rparr>"
| "run_task place spawns (Take_old pid) w = take_and_kill pid w"

inductive pool_step :: "pool_world \<Rightarrow> pool_world \<Rightarrow> bool" where
  pool_ensure: "pool_step w (call_ensure pid w)"
| pool_remove: "pool_step w (take_and_kill pid w)"
| pool_remove_entry: "pool_step w (w\<lparr>pw_pool := remove_provider_entry pid (pw_pool w)\<rparr>)"
| pool_update: "pool_step w (spawn_task (Take_old (pe_provider_id e)) (w\<lparr>pw_pool := insert_provider_entry e (pw_pool w)\<rparr>))"
| pool_shutdown: "pool_step w (call_shutdown_all w)"
| pool_crash: "pool_step w (w\<lparr>pw_alive := filter (\<lambda>x. snd x \<noteq> i) (pw_alive w)\<rparr>)"
| pool_task: "pw_tasks w = ts @ t # us \<Longrightarrow>
    pool_step w (run_task place spawns t (w\<lparr>pw_tasks := ts @ us\<rparr>))"

definition fresh_pool :: "pool_world \<Rightarrow> bool" where
  "fresh_pool w = (\<exists>ps. w = \<lparr>pw_pool = pool_new ps, pw_tasks = [], pw_alive = []\<rparr>)"

section \<open>One worker per provider\<close>

text \<open>
  A serial number belongs to one provider: in the map, in a task or as a process, and below the
  counter; only one task can still insert it.
\<close>

fun task_owner :: "pool_task \<Rightarrow> (string \<times> nat) option" where
  "task_owner (Insert_built pid i) = Some (pid, i)"
| "task_owner (Start_worker pid i) = Some (pid, i)"
| "task_owner _ = None"

fun is_build :: "nat \<Rightarrow> pool_task \<Rightarrow> bool" where
  "is_build i (Insert_built _ j) = (i = j)"
| "is_build i _ = False"

definition owners :: "pool_world \<Rightarrow> (string \<times> nat) set" where
  "owners w = set (wp_workers (pw_pool w)) \<union> set (pw_alive w) \<union> {x. \<exists>t\<in>set (pw_tasks w). task_owner t = Some x}"

definition pool_ok :: "pool_world \<Rightarrow> bool" where
  "pool_ok w =
     (distinct (map fst (wp_workers (pw_pool w)))
      \<and> (\<forall>x\<in>owners w. snd x < wp_created (pw_pool w))
      \<and> (\<forall>x\<in>owners w. \<forall>y\<in>owners w. snd x = snd y \<longrightarrow> fst x = fst y))"

lemma pool_ok_subset:
  assumes "pool_ok w" "owners v \<subseteq> owners w" "wp_created (pw_pool v) = wp_created (pw_pool w)"
    "distinct (map fst (wp_workers (pw_pool v)))"
  shows "pool_ok v"
  using assms unfolding pool_ok_def by (metis subsetD)

lemma pool_ok_fresh:
  assumes "pool_ok w" "owners v = insert (pid, wp_created (pw_pool w)) (owners w)"
    "wp_created (pw_pool v) = Suc (wp_created (pw_pool w))" "wp_workers (pw_pool v) = wp_workers (pw_pool w)"
  shows "pool_ok v"
proof -
  have lt: "snd x < wp_created (pw_pool w)" if "x \<in> owners w" for x
    using assms(1) that by (simp add: pool_ok_def)
  have below: "snd x < Suc (wp_created (pw_pool w))" if "x \<in> owners v" for x
  proof (cases "x \<in> owners w")
    case True
    then show ?thesis using lt [of x] by simp
  next
    case False
    then have "x = (pid, wp_created (pw_pool w))" using that assms(2) by blast
    then show ?thesis by simp
  qed
  have same: "fst x = fst y" if "x \<in> owners v" "y \<in> owners v" "snd x = snd y" for x y
  proof (cases "x \<in> owners w \<and> y \<in> owners w")
    case True
    then show ?thesis using assms(1) that(3) by (simp add: pool_ok_def)
  next
    case False
    have n: "snd z \<noteq> wp_created (pw_pool w)" if "z \<in> owners w" for z
      using lt [OF that] by simp
    have o: "z \<in> owners w \<or> z = (pid, wp_created (pw_pool w))" if "z \<in> owners v" for z
      using that assms(2) by blast
    show ?thesis
    proof (cases "x \<in> owners w")
      case True
      then have "y = (pid, wp_created (pw_pool w))"
        using False o that(2) by blast
      then show ?thesis using n [OF True] that(3) by simp
    next
      case x: False
      then have x': "x = (pid, wp_created (pw_pool w))"
        using o that(1) by blast
      then have "y \<notin> owners w"
        using n that(3) by (metis snd_conv)
      then show ?thesis using x' o that(2) by blast
    qed
  qed
  show ?thesis
    unfolding pool_ok_def
  proof (intro conjI ballI impI)
    show "distinct (map fst (wp_workers (pw_pool v)))"
      unfolding assms(4) using assms(1) by (simp only: pool_ok_def)
    show "snd x < wp_created (pw_pool v)" if "x \<in> owners v" for x
      unfolding assms(3) by (rule below [OF that])
    show "fst x = fst y" if "x \<in> owners v" "y \<in> owners v" "snd x = snd y" for x y
      by (rule same [OF that])
  qed
qed

lemma owners_task: "owners (spawn_task t w) = owners w \<union> {x. task_owner t = Some x}"
  by (auto simp: owners_def spawn_task_def)

lemma map_of_owner: "get_worker pid (pw_pool w) = Some i \<Longrightarrow> (pid, i) \<in> owners w"
  by (auto simp: get_worker_def owners_def dest: map_of_SomeD)

lemma take_and_kill_ok:
  assumes "pool_ok w"
  shows "pool_ok (take_and_kill pid w)"
proof (rule pool_ok_subset [OF assms])
  show "owners (take_and_kill pid w) \<subseteq> owners w"
    by (auto simp: take_and_kill_def take_worker_def owners_def spawn_task_def split: option.split)
  show "distinct (map fst (wp_workers (pw_pool (take_and_kill pid w))))"
    using assms
    by (auto simp: take_and_kill_def take_worker_def spawn_task_def pool_ok_def distinct_map_filter split: option.split)
qed (simp add: take_and_kill_def take_worker_def spawn_task_def split: option.split)

lemma run_task_ok:
  assumes ok: "pool_ok w" and t: "pw_tasks w = ts @ t # us"
  shows "pool_ok (run_task place spawns t (w\<lparr>pw_tasks := ts @ us\<rparr>))"
proof -
  have base: "pool_ok (w\<lparr>pw_tasks := ts @ us\<rparr>)"
    using t ok by (intro pool_ok_subset [OF ok]) (auto simp: owners_def pool_ok_def)
  show ?thesis
  proof (cases t)
    case (Insert_built pid i)
    then have o: "(pid, i) \<in> owners w"
      using t by (force simp: owners_def)
    have d: "distinct (map fst (take place xs @ (pid, i) # drop place xs))"
      if "distinct (map fst xs)" "map_of xs pid = None" for xs :: "(string \<times> nat) list"
    proof -
      have "distinct (map fst (take place xs @ drop place xs))" "pid \<notin> fst ` set (take place xs @ drop place xs)"
        using that by (simp_all add: map_of_eq_None_iff)
      then show ?thesis
        by (auto simp del: append_take_drop_id)
    qed
    have s: "set (take place xs @ (pid, i) # drop place xs) = insert (pid, i) (set xs)" for xs :: "(string \<times> nat) list"
    proof -
      have "set xs = set (take place xs) \<union> set (drop place xs)"
        by (metis append_take_drop_id set_append)
      then show ?thesis by auto
    qed
    show ?thesis
    proof (rule pool_ok_subset [OF ok])
      show "owners (run_task place spawns t (w\<lparr>pw_tasks := ts @ us\<rparr>)) \<subseteq> owners w"
        using o t map_of_owner [of pid w] s
        by (auto simp: Insert_built ensure_insert_def owners_def spawn_task_def split: option.split)
      show "distinct (map fst (wp_workers (pw_pool (run_task place spawns t (w\<lparr>pw_tasks := ts @ us\<rparr>)))))"
        using ok d [of "wp_workers (pw_pool w)"]
        by (simp add: Insert_built ensure_insert_def spawn_task_def pool_ok_def get_worker_def split: option.split)
    qed (simp add: Insert_built ensure_insert_def spawn_task_def split: option.split)
  next
    case (Start_worker pid i)
    then have "(pid, i) \<in> owners w"
      using t by (force simp: owners_def)
    then show ?thesis
      using t ok by (intro pool_ok_subset [OF ok]) (auto simp: Start_worker owners_def pool_ok_def)
  next
    case (Kill_worker i)
    then show ?thesis
      using t ok by (intro pool_ok_subset [OF ok]) (auto simp: owners_def pool_ok_def)
  next
    case (Take_old pid)
    then show ?thesis
      using take_and_kill_ok [OF base] by simp
  qed
qed

lemma pool_step_ok: "pool_step w v \<Longrightarrow> pool_ok w \<Longrightarrow> pool_ok v"
proof (induction rule: pool_step.induct)
  case (pool_ensure w pid)
  have "pool_ok (spawn_task (Start_worker pid i) w)" if "get_worker pid (pw_pool w) = Some i" for i
  proof (rule pool_ok_subset [OF pool_ensure])
    show "owners (spawn_task (Start_worker pid i) w) \<subseteq> owners w"
      using map_of_owner [OF that] by (simp add: owners_task)
  qed (use pool_ensure in \<open>simp_all add: spawn_task_def pool_ok_def\<close>)
  moreover have "pool_ok (spawn_task (Insert_built pid (wp_created (pw_pool w)))
      (w\<lparr>pw_pool := pw_pool w\<lparr>wp_created := wp_created (pw_pool w) + 1\<rparr>\<rparr>))"
  proof (rule pool_ok_fresh [OF pool_ensure])
    have "owners (w\<lparr>pw_pool := pw_pool w\<lparr>wp_created := wp_created (pw_pool w) + 1\<rparr>\<rparr>) = owners w"
      by (simp add: owners_def)
    then show "owners (spawn_task (Insert_built pid (wp_created (pw_pool w)))
        (w\<lparr>pw_pool := pw_pool w\<lparr>wp_created := wp_created (pw_pool w) + 1\<rparr>\<rparr>)) = insert (pid, wp_created (pw_pool w)) (owners w)"
      unfolding owners_task by auto
  qed (simp_all add: spawn_task_def)
  ultimately show ?case
    using pool_ensure by (auto simp: call_ensure_def ensure_lookup_def split: option.split)
next
  case (pool_shutdown w)
  then show ?case
    by (intro pool_ok_subset [OF pool_shutdown])
      (auto simp: call_shutdown_all_def drain_workers_def owners_def)
next
  case (pool_task w ts t us place spawns)
  then show ?case by (intro run_task_ok)
next
  case (pool_update w e)
  then show ?case
    by (intro pool_ok_subset [OF pool_update])
      (auto simp: owners_task, auto simp: owners_def spawn_task_def insert_provider_entry_def pool_ok_def)
next
  case (pool_remove_entry w pid)
  then show ?case
    by (intro pool_ok_subset [OF pool_remove_entry]) (auto simp: owners_def remove_provider_entry_def pool_ok_def)
next
  case (pool_crash w i)
  then show ?case
    by (intro pool_ok_subset [OF pool_crash]) (auto simp: owners_def pool_ok_def)
qed (rule take_and_kill_ok)

interpretation pool: invariant_machine fresh_pool pool_step pool_ok
proof unfold_locales
  show "fresh_pool w \<Longrightarrow> pool_ok w" for w
    by (auto simp: fresh_pool_def pool_ok_def pool_new_def owners_def)
qed (rule pool_step_ok)

section \<open>Properties\<close>

text \<open>
  C17. Whatever callers ensure, remove, update and shut down concurrently, the pool holds at most one
  worker per provider, and a worker, whether in the map, alive as a process or still to be started by
  some caller, never belongs to two providers.
\<close>

theorem one_worker_per_provider:
  assumes "reach fresh_pool pool_step w"
  shows "distinct (map fst (wp_workers (pw_pool w)))
    \<and> ((a, i) \<in> owners w \<longrightarrow> (b, i) \<in> owners w \<longrightarrow> a = b)"
  using pool.reachable_inv [OF assms] unfolding pool_ok_def by fastforce

text \<open>
  a caller that still holds a worker can start its process again after the pool removed and killed
  it; the next caller builds another one, and the provider has two live processes, of which the pool
  knows one.
\<close>

theorem removed_worker_restarts:
  "\<exists>w. reach fresh_pool pool_step w \<and> set (pw_alive w) = {(''p'', 0), (''p'', 1)} \<and> wp_workers (pw_pool w) = [(''p'', 1)]
    \<and> pw_tasks w = []"
proof -
  let ?e = "\<lparr>pe_provider_id = ''p'', pe_api_key = ''k'', pe_base_url = ''u''\<rparr>"
  define w0 where "w0 = \<lparr>pw_pool = pool_new [(''p'', ?e)], pw_tasks = [], pw_alive = []\<rparr>"
  define w1 where "w1 = call_ensure ''p'' w0"
  define w2 where "w2 = run_task 0 True (Insert_built ''p'' 0) (w1\<lparr>pw_tasks := [] @ []\<rparr>)"
  define w3 where "w3 = take_and_kill ''p'' w2"
  define w4 where "w4 = run_task 0 True (Kill_worker 0) (w3\<lparr>pw_tasks := [Start_worker ''p'' 0] @ []\<rparr>)"
  define w5 where "w5 = run_task 0 True (Start_worker ''p'' 0) (w4\<lparr>pw_tasks := [] @ []\<rparr>)"
  define w6 where "w6 = call_ensure ''p'' w5"
  define w7 where "w7 = run_task 0 True (Insert_built ''p'' 1) (w6\<lparr>pw_tasks := [] @ []\<rparr>)"
  define w8 where "w8 = run_task 0 True (Start_worker ''p'' 1) (w7\<lparr>pw_tasks := [] @ []\<rparr>)"
  note defs = w0_def w1_def w2_def w3_def w4_def w5_def w6_def w7_def w8_def pool_new_def call_ensure_def
    ensure_lookup_def get_worker_def spawn_task_def take_and_kill_def take_worker_def ensure_insert_def
  have r0: "reach fresh_pool pool_step w0"
    by (rule reach_init) (auto simp: fresh_pool_def w0_def)
  have r1: "reach fresh_pool pool_step w1"
    unfolding w1_def by (rule reach_step, rule r0, rule pool_ensure)
  have r2: "reach fresh_pool pool_step w2"
    unfolding w2_def by (rule reach_step, rule r1, rule pool_task) (simp add: defs)
  have r3: "reach fresh_pool pool_step w3"
    unfolding w3_def by (rule reach_step, rule r2, rule pool_remove)
  have r4: "reach fresh_pool pool_step w4"
    unfolding w4_def by (rule reach_step, rule r3, rule pool_task) (simp add: defs)
  have r5: "reach fresh_pool pool_step w5"
    unfolding w5_def by (rule reach_step, rule r4, rule pool_task) (simp add: defs)
  have r6: "reach fresh_pool pool_step w6"
    unfolding w6_def by (rule reach_step, rule r5, rule pool_ensure)
  have r7: "reach fresh_pool pool_step w7"
    unfolding w7_def by (rule reach_step, rule r6, rule pool_task) (simp add: defs)
  have "reach fresh_pool pool_step w8"
    unfolding w8_def by (rule reach_step, rule r7, rule pool_task) (simp add: defs)
  then show ?thesis
    by (intro exI [of _ w8]) (auto simp: defs)
qed

text \<open>
  all workers share one harness name, and a binding does not record its provider. The supervisor
  that an eviction is routed to is therefore the first one of the map as soon as the session has any
  binding, whichever provider's worker holds the session.
\<close>

theorem session_routed_to_first:
  assumes "wp_workers p = x # xs" "find_binding_by_session session harness d = Some b"
  shows "supervisor_for_session harness session (Some d) False p = Inr (Some x)"
  using assms by (simp add: supervisor_for_session_def)

section \<open>Concrete runs\<close>

theorem one_worker_per_provider_witness:
  "distinct (map fst (wp_workers (pw_pool (call_ensure ''p'' \<lparr>pw_pool = pool_new [], pw_tasks = [], pw_alive = []\<rparr>))))"
proof -
  have "reach fresh_pool pool_step (call_ensure ''p'' \<lparr>pw_pool = pool_new [], pw_tasks = [], pw_alive = []\<rparr>)"
    by (rule reach_step [OF reach_init]) (auto simp: fresh_pool_def intro: pool_ensure)
  then show ?thesis
    using one_worker_per_provider by blast
qed

definition session_db :: db where
  "session_db = \<lparr>logicals = [], memories = [], tasks = [], bindings =
     [\<lparr>b_id = ''b'', b_subagent_id = ''s'', b_harness = ''pi'', b_adapter_session_id = Some ''sess'', b_adapter_process_id = None,
       b_is_hot = 1, b_status = ''hot'', b_created_at_ms = 0, b_last_used_at_ms = None, b_closed_at_ms = None, b_detail_json = None\<rparr>],
     usages = [], events = [], providers = [], models = []\<rparr>"

theorem session_routed_to_first_witness:
  "supervisor_for_session ''pi'' ''sess'' (Some session_db) False
     \<lparr>wp_providers = [], wp_workers = [(''a'', 0), (''b'', 1)], wp_created = 2\<rparr> = Inr (Some (''a'', 0))"
  by (rule session_routed_to_first, simp) (simp add: find_binding_by_session_def session_db_def)

end
