(* ===== verification/Sidecar_Executor.thy ===== *)
theory Sidecar_Executor
  imports Worker_Pool Manager_Execute Log_Adapters Float64 Store_Invariant
begin

text \<open>
  \<open>SidecarTaskExecutor\<close> of \<open>sidecar/executor.rs\<close>, the implementation of the manager's executor: one turn
  of a subagent through the sidecar of its provider, the eviction of a hot session when the sidecar is
  at its limit, the bounded retries, and the decoding of the sidecar's answers. Calls to a sidecar are
  logged with the store they see; answers, interference between two calls and store failures
  depend on the calls made so far and are a parameter.
\<close>

section \<open>Error classes\<close>

definition to_error :: "json sidecar_error \<Rightarrow> subagent_error" where
  "to_error = from_sidecar_error (\<lambda>v k. Option.bind (json_get k v) as_str)"

definition contains_text :: "string \<Rightarrow> string \<Rightarrow> bool" where
  "contains_text needle s = list_ex (\<lambda>i. take (length needle) (drop i s) = needle) [0..<Suc (length s)]"

fun classify_sidecar_error :: "'v sidecar_error \<Rightarrow> task_error_kind" where
  "classify_sidecar_error (Application code _ _) =
     (if code = AUTH_FAILURE then KAuth
      else if code = RATE_LIMIT then KRateLimit
      else if code = NETWORK_ERROR then KNetwork
      else if code = TASK_TIMEOUT then KTimeout
      else if code = HOT_SESSION_LIMIT_REACHED then KHotSessionLimit
      else KUnknown)"
| "classify_sidecar_error (CrashedErr _) = KCrash"
| "classify_sidecar_error (SpawnErr msg) =
     (if contains_text ''connection refused'' msg then KNetwork else KUnknown)"
| "classify_sidecar_error (TimeoutErr _) = KTimeout"
| "classify_sidecar_error (IoErr msg) =
     (if contains_text ''connection refused'' msg \<or> contains_text ''network'' msg then KNetwork else KUnknown)"
| "classify_sidecar_error (RpcErr _) = KUnknown"

text \<open>The \<open>Display\<close> text of \<open>SidecarError\<close>.\<close>

fun sidecar_error_to_string :: "'v sidecar_error \<Rightarrow> string" where
  "sidecar_error_to_string (SpawnErr s) = ''sidecar spawn failed: '' @ s"
| "sidecar_error_to_string (RpcErr s) = ''sidecar rpc error: '' @ s"
| "sidecar_error_to_string (TimeoutErr s) = ''sidecar timeout: '' @ s"
| "sidecar_error_to_string (CrashedErr s) = ''sidecar crashed: '' @ s"
| "sidecar_error_to_string (IoErr s) = ''sidecar io error: '' @ s"
| "sidecar_error_to_string (Application code s _) = ''sidecar application error ['' @ show_int code @ '']: '' @ s"

fun has_code :: "int \<Rightarrow> 'v sidecar_error \<Rightarrow> bool" where
  "has_code c (Application code _ _) = (code = c)"
| "has_code c _ = False"

fun error_data :: "'v sidecar_error \<Rightarrow> 'v option" where
  "error_data (Application _ _ d) = d"
| "error_data _ = None"

section \<open>Reading JSON\<close>

fun as_bool :: "json \<Rightarrow> bool option" where
  "as_bool (J_Bool b) = Some b"
| "as_bool _ = None"

fun value_i64 :: "json \<Rightarrow> int option" where
  "value_i64 (J_Int i) = (if - (2 ^ 63) \<le> i \<and> i < 2 ^ 63 then Some i else None)"
| "value_i64 _ = None"

fun value_f64 :: "json \<Rightarrow> f64_bits option" where
  "value_f64 (J_Real r) = Some r"
| "value_f64 (J_Int i) = Some (f64_make (i < 0) (f64_round (nat \<bar>i\<bar> * 2 ^ 1074) 1))"
| "value_f64 _ = None"

fun as_array :: "json \<Rightarrow> json list option" where
  "as_array (J_Array xs) = Some xs"
| "as_array _ = None"

definition get_as :: "(json \<Rightarrow> 'a option) \<Rightarrow> string \<Rightarrow> json \<Rightarrow> 'a option" where
  "get_as f k j = Option.bind (json_get k j) f"

datatype hot_limit_outcome = Evict string | All_Busy | Protocol_Violation string

definition classify_hot_limit_error :: "json option \<Rightarrow> hot_limit_outcome" where
  "classify_hot_limit_error data =
     (case data of
        None \<Rightarrow> Protocol_Violation ''HOT_SESSION_LIMIT_REACHED error missing data field''
      | Some d \<Rightarrow>
          if unwrap_or False (get_as as_bool ''all_busy'' d) then All_Busy
          else case get_as as_str ''candidate'' d of
                 Some c \<Rightarrow> if c \<noteq> [] then Evict c
                           else Protocol_Violation ''HOT_SESSION_LIMIT_REACHED error missing data.candidate''
               | None \<Rightarrow> Protocol_Violation ''HOT_SESSION_LIMIT_REACHED error missing data.candidate'')"

definition parse_key_file :: "json \<Rightarrow> key_file option" where
  "parse_key_file f =
     map_option (\<lambda>path.
       \<lparr>kf_path = path, kf_reason = unwrap_or [] (get_as as_str ''reason'' f),
        kf_last_seen_at_ms = unwrap_or 0 (get_as value_i64 ''last_seen_at_ms'' f),
        kf_score = unwrap_or 0 (get_as value_i64 ''score'' f)\<rparr>) (get_as as_str ''path'' f)"

definition parse_open_question :: "json \<Rightarrow> open_question option" where
  "parse_open_question q =
     map_option (\<lambda>question.
       \<lparr>oq_question = question, oq_status = unwrap_or ''open'' (get_as as_str ''status'' q),
        oq_created_at_ms = unwrap_or 0 (get_as value_i64 ''created_at_ms'' q),
        oq_last_seen_at_ms = unwrap_or 0 (get_as value_i64 ''last_seen_at_ms'' q)\<rparr>) (get_as as_str ''question'' q)"

definition parse_memory_update :: "json \<Rightarrow> memory_update" where
  "parse_memory_update mu =
     \<lparr>mu_current_state_summary = get_as as_str ''current_state_summary'' mu,
      mu_key_files = List.map_filter parse_key_file (unwrap_or [] (get_as as_array ''key_files'' mu)),
      mu_decisions = List.map_filter as_str (unwrap_or [] (get_as as_array ''decisions'' mu)),
      mu_open_questions = List.map_filter parse_open_question (unwrap_or [] (get_as as_array ''open_questions'' mu))\<rparr>"

definition parse_status :: "string \<Rightarrow> task_status" where
  "parse_status s = (if s = ''completed'' then Completed else if s = ''failed'' \<or> s = ''timeout'' then Failed
                     else Completed)"

definition parse_usage :: "json \<Rightarrow> task_usage" where
  "parse_usage u =
     \<lparr>tu_model = get_as as_str ''model'' u, tu_provider = get_as as_str ''provider'' u,
      tu_input_tokens = get_as value_i64 ''input_tokens'' u, tu_output_tokens = get_as value_i64 ''output_tokens'' u,
      tu_cache_read_tokens = get_as value_i64 ''cache_read_tokens'' u,
      tu_cache_write_tokens = get_as value_i64 ''cache_write_tokens'' u,
      tu_cost_usd = get_as value_f64 ''cost_usd'' u\<rparr>"

definition parse_turn_auto_result :: "json \<Rightarrow> executor_output" where
  "parse_turn_auto_result r =
     \<lparr>xo_adapter_session_id = get_as as_str ''adapter_session_id'' r,
      xo_session_reused = unwrap_or False (get_as as_bool ''session_reused'' r),
      xo_status = parse_status (unwrap_or ''completed'' (get_as as_str ''status'' r)),
      xo_summary = unwrap_or [] (Option.bind (json_get ''result'' r) (get_as as_str ''task_summary'')),
      xo_usage = (case json_get ''usage'' r of Some u \<Rightarrow> parse_usage u | None \<Rightarrow> task_usage_default),
      xo_memory_update =
        (case Option.bind (json_get ''result'' r) (json_get ''memory_update'') of
           Some mu \<Rightarrow> parse_memory_update mu | None \<Rightarrow> memory_update_default),
      xo_error_kind = None\<rparr>"

section \<open>The parameters of a turn\<close>

definition opt_string :: "string option \<Rightarrow> json" where
  "opt_string s = (case s of Some s \<Rightarrow> J_String s | None \<Rightarrow> J_Null)"

definition key_file_json :: "key_file \<Rightarrow> json" where
  "key_file_json f = J_Object [(''path'', J_String (kf_path f)), (''reason'', J_String (kf_reason f)),
     (''last_seen_at_ms'', J_Int (kf_last_seen_at_ms f)), (''score'', J_Int (kf_score f))]"

definition open_question_json :: "open_question \<Rightarrow> json" where
  "open_question_json q = J_Object [(''question'', J_String (oq_question q)), (''status'', J_String (oq_status q)),
     (''created_at_ms'', J_Int (oq_created_at_ms q)), (''last_seen_at_ms'', J_Int (oq_last_seen_at_ms q))]"

definition memory_json :: "memory_snapshot \<Rightarrow> json" where
  "memory_json m = J_Object
     [(''hot_summary'', opt_string (sn_hot_summary m)), (''long_summary'', opt_string (sn_long_summary m)),
      (''key_files'', J_Array (map key_file_json (sn_key_files m))),
      (''decisions'', J_Array (map J_String (sn_decisions m))),
      (''open_questions'', J_Array (map open_question_json (sn_open_questions m)))]"

definition provider_kind_json :: "provider_kind \<Rightarrow> json" where
  "provider_kind_json k = J_String (case k of OpenAiCompatible \<Rightarrow> ''openai_compatible''
                                     | AnthropicCompatible \<Rightarrow> ''anthropic_compatible'')"

text \<open>The seconds are a \<open>u64\<close>; the product wraps in a release build.\<close>

definition timeout_ms :: "executor_input \<Rightarrow> 64 word option" where
  "timeout_ms i = map_option (\<lambda>s. s * 1000) (xi_timeout_seconds i)"

definition turn_params :: "executor_input \<Rightarrow> json" where
  "turn_params i = J_Object
     [(''task_id'', J_String (xi_task_id i)), (''logical_subagent_id'', J_String (xi_subagent_id i)),
      (''logical_subagent_name'', J_String (xi_subagent_name i)), (''cwd'', J_String (xi_cwd i)),
      (''profile'', J_String (xi_profile i)), (''model'', J_String (xi_model i)),
      (''tools'', J_Array (map J_String (xi_tools i))), (''prompt'', J_String (xi_prompt i)),
      (''prompt_artifact_ref'', opt_string (xi_prompt_artifact_ref i)),
      (''memory'', memory_json (xi_memory i)),
      (''context'', J_Object
         [(''compact_context'', J_String (cc_compact_context (xi_context i))),
          (''budget_tokens'', J_Int (int (cc_budget_tokens (xi_context i)))),
          (''source'', J_String (cc_source (xi_context i)))]),
      (''timeout_ms'', case timeout_ms i of Some t \<Rightarrow> J_Int (uint t) | None \<Rightarrow> J_Null),
      (''constraints'', J_Object
         [(''write_access'', J_Bool (xi_write_access i)),
          (''timeout_ms'', J_Int (uint (unwrap_or 180000 (timeout_ms i))))]),
      (''output_schema'', J_Object
         [(''format'', J_String ''json''), (''name'', J_String ''review_result''), (''version'', J_Int 1)]),
      (''adapter_options'', J_Object []), (''provider_id'', J_String (xi_provider_id i)),
      (''provider_kind'', provider_kind_json (xi_provider_kind i)),
      (''provider_base_url'', J_String (xi_provider_base_url i)),
      (''provider_api_key'', J_String (xi_provider_api_key i)),
      (''model_reasoning'', J_Bool (xi_model_reasoning i)),
      (''model_context_window'', J_Int (xi_model_context_window i)),
      (''model_max_tokens'', J_Int (xi_model_max_tokens i)),
      (''model_display_name'', opt_string (xi_model_display_name i))]"

section \<open>Calls to a sidecar\<close>

text \<open>
  What is sent to a worker: \<open>ensure_started\<close>, a call with its method and parameters, or the kill of
  the process.
\<close>

datatype rpc = Ensure_Started nat | Call nat string json | Force_Kill nat

record sidecar_env =
  se_harness :: string
  se_answer :: "rpc list \<Rightarrow> rpc \<Rightarrow> json sidecar_error + json"
  se_running :: "rpc list \<Rightarrow> nat \<Rightarrow> bool"
  se_pool :: "rpc list \<Rightarrow> pool \<Rightarrow> pool"
  se_store :: "rpc list \<Rightarrow> db \<Rightarrow> db"
  se_db_error :: "rpc list \<Rightarrow> string \<Rightarrow> db_error option"
  se_now :: "rpc list \<Rightarrow> nat \<Rightarrow> int"
  se_uuid :: "rpc list \<Rightarrow> string"
  se_place :: "rpc list \<Rightarrow> nat"
  se_to_string :: "json \<Rightarrow> string"

text \<open>The log holds every call with the store at the moment it is sent.\<close>

record exec_state =
  xs_pool :: pool
  xs_db :: "db option"
  xs_log :: "(rpc \<times> db option) list"

definition sent :: "exec_state \<Rightarrow> rpc list" where
  "sent s = map fst (xs_log s)"

text \<open>During a call no lock is held: other tasks may change the pool and the store.\<close>

definition send_rpc :: "sidecar_env \<Rightarrow> rpc \<Rightarrow> exec_state \<Rightarrow> (json sidecar_error + json) \<times> exec_state" where
  "send_rpc e r s =
     (se_answer e (sent s) r,
      \<lparr>xs_pool = se_pool e (sent s @ [r]) (xs_pool s),
       xs_db = map_option (se_store e (sent s @ [r])) (xs_db s),
       xs_log = xs_log s @ [(r, xs_db s)]\<rparr>)"

definition session_param :: "string \<Rightarrow> json" where
  "session_param session = J_Object [(''adapter_session_id'', J_String session)]"

definition turn_auto :: "nat \<Rightarrow> json \<Rightarrow> rpc" where
  "turn_auto w params = Call w ''session.turn_auto'' params"

definition prepare_hibernate :: "nat \<Rightarrow> string \<Rightarrow> rpc" where
  "prepare_hibernate w session = Call w ''session.prepare_hibernate'' (session_param session)"

definition close_rpc :: "nat \<Rightarrow> string \<Rightarrow> rpc" where
  "close_rpc w session = Call w ''session.close'' (session_param session)"

definition activate_rpc :: "nat \<Rightarrow> string \<Rightarrow> rpc" where
  "activate_rpc w session = Call w ''session.activate'' (session_param session)"

definition cancel_session :: "nat \<Rightarrow> string \<Rightarrow> string option \<Rightarrow> rpc" where
  "cancel_session w subagent_id task_id =
     Call w ''session.cancel'' (J_Object [(''logical_subagent_id'', J_String subagent_id), (''task_id'', opt_string task_id)])"

lemmas rpc_defs = turn_auto_def prepare_hibernate_def close_rpc_def activate_rpc_def cancel_session_def

definition remove_worker_and_kill :: "sidecar_env \<Rightarrow> string \<Rightarrow> exec_state \<Rightarrow> exec_state" where
  "remove_worker_and_kill e pid s =
     (case take_worker pid (xs_pool s) of
        (None, p) \<Rightarrow> s\<lparr>xs_pool := p\<rparr>
      | (Some w, p) \<Rightarrow> snd (send_rpc e (Force_Kill w) (s\<lparr>xs_pool := p\<rparr>)))"

section \<open>Eviction\<close>

datatype eviction_outcome = Evicted | Already_Evicted

definition guarded :: "sidecar_env \<Rightarrow> rpc list \<Rightarrow> string \<Rightarrow> db_error + 'a \<Rightarrow> db_error + 'a" where
  "guarded e h q r = (case se_db_error e h q of Some x \<Rightarrow> Inl x | None \<Rightarrow> r)"

definition hibernate_summary :: "json \<Rightarrow> string option" where
  "hibernate_summary r =
     (case json_get ''memory_delta'' r of
        Some d \<Rightarrow> if d = J_Null then None else get_as as_str ''hot_summary'' d
      | None \<Rightarrow> None)"

definition hibernate_event :: "sidecar_env \<Rightarrow> rpc list \<Rightarrow> string \<Rightarrow> string \<Rightarrow> json \<Rightarrow> event_row" where
  "hibernate_event e h subagent_id session r =
     \<lparr>e_id = ''re_'' @ se_uuid e h, e_event_type = ''session_hibernate'', e_target_id = Some subagent_id,
      e_rss_mb = None, e_cpu_percent = None,
      e_detail_json = Some (se_to_string e (J_Object
        [(''adapter_session_id'', J_String session), (''reason'', J_String ''evicted''),
         (''stats'', unwrap_or J_Null (json_get ''stats'' r))])),
      e_created_at_ms = se_now e h 0\<rparr>"

definition insert_event_best_effort :: "sidecar_env \<Rightarrow> rpc list \<Rightarrow> event_row \<Rightarrow> db \<Rightarrow> db" where
  "insert_event_best_effort e h row d =
     (case guarded e h ''event'' (insert_resource_event row d) of Inr d' \<Rightarrow> d' | Inl _ \<Rightarrow> d)"

definition divergence :: "string \<Rightarrow> string \<Rightarrow> subagent_error" where
  "divergence session why =
     HotSessionStateDivergence (''no binding found in DB for adapter_session_id='' @ session @ ''; sidecar/DB state divergence ('' @ why @ '')'')"

text \<open>The block under the store lock; the first clock is read before the transaction.\<close>

definition evict_persist ::
  "sidecar_env \<Rightarrow> rpc list \<Rightarrow> string \<Rightarrow> json \<Rightarrow> db \<Rightarrow> subagent_error + eviction_outcome \<times> db" where
  "evict_persist e h session r d =
     (case guarded e h ''find hot'' (Inr (find_hot_binding_by_session session (se_harness e) d)) of
        Inl x \<Rightarrow> Inl (Store x)
      | Inr None \<Rightarrow>
          (case guarded e h ''find any'' (Inr (find_binding_by_session session (se_harness e) d)) of
             Inl x \<Rightarrow> Inl (Store x)
           | Inr (Some b) \<Rightarrow>
               if b_is_hot b = 0 then Inr (Already_Evicted, d)
               else Inl (divergence session ''sidecar holds session, DB has no binding'')
           | Inr None \<Rightarrow> Inl (divergence session ''sidecar holds session, DB has no binding''))
      | Inr (Some b) \<Rightarrow>
          (case guarded e h ''commit'' (commit_eviction (se_now e h 1) (se_now e h 2)
                  (b\<lparr>b_is_hot := 0, b_status := ''closed'', b_closed_at_ms := Some (se_now e h 0)\<rparr>)
                  (b_subagent_id b) (hibernate_summary r) d) of
             Inl x \<Rightarrow> Inl (Store x)
           | Inr (_, d') \<Rightarrow>
               Inr (Evicted, insert_event_best_effort e h (hibernate_event e h (b_subagent_id b) session r) d')))"

text \<open>A failed close is fatal.\<close>

definition evict_close ::
  "sidecar_env \<Rightarrow> nat \<Rightarrow> string \<Rightarrow> exec_state \<Rightarrow> (subagent_error + eviction_outcome) \<times> exec_state" where
  "evict_close e w session s =
     (case send_rpc e (close_rpc w session) s of
        (Inl x, s) \<Rightarrow>
          (Inl (SidecarRpc (''session.close failed during eviction for '' @ session @ '': '' @ sidecar_error_to_string x
             @ '' - sidecar pool may be inconsistent, restart recommended'') None), s)
      | (Inr _, s) \<Rightarrow> (Inr Evicted, s))"

definition evict_on ::
  "sidecar_env \<Rightarrow> nat \<Rightarrow> string \<Rightarrow> exec_state \<Rightarrow> (subagent_error + eviction_outcome) \<times> exec_state" where
  "evict_on e w session s =
     (case send_rpc e (prepare_hibernate w session) s of
        (Inl x, s) \<Rightarrow>
          (if has_code SESSION_NOT_FOUND x then Inr Already_Evicted
           else if has_code HOT_SESSION_LIMIT_REACHED x then Inl (HotSessionLimit session)
           else Inl (to_error x), s)
      | (Inr r, s) \<Rightarrow>
          (case xs_db s of
             None \<Rightarrow> evict_close e w session s
           | Some d \<Rightarrow>
               (case evict_persist e (sent s) session r d of
                  Inl x \<Rightarrow> (Inl x, s)
                | Inr (Already_Evicted, _) \<Rightarrow> (Inr Already_Evicted, s)
                | Inr (Evicted, d') \<Rightarrow> evict_close e w session (s\<lparr>xs_db := Some d'\<rparr>))))"

definition evict_session ::
  "sidecar_env \<Rightarrow> string \<Rightarrow> exec_state \<Rightarrow> (subagent_error + eviction_outcome) \<times> exec_state" where
  "evict_session e session s =
     (if xs_db s = None
      then (Inl (Validation (''eviction requires a DB connection for atomic persistence; no-DB executor cannot evict safely (adapter_session_id=''
              @ session @ '')'')), s)
      else case supervisor_for_session (se_harness e) session (xs_db s) (se_db_error e (sent s) ''route'' \<noteq> None) (xs_pool s) of
        Inr None \<Rightarrow> (Inl (divergence session ''sidecar returned LRU candidate with no binding; with two-phase lifecycle this should be impossible - pending sessions are never in LRU''), s)
      | Inl _ \<Rightarrow> (Inl (HotSessionLimit session), s)
      | Inr (Some (_, w)) \<Rightarrow>
          (case send_rpc e (Ensure_Started w) s of
             (Inl x, s) \<Rightarrow> (Inl (to_error x), s)
           | (Inr _, s) \<Rightarrow> evict_on e w session s))"

text \<open>
  \<open>evict_lru\<close>: the least recently used hot binding of each supervisor's harness, and of those the
  first with the smallest time, no time counting as 0.
\<close>

fun first_min :: "('a \<Rightarrow> int) \<Rightarrow> 'a list \<Rightarrow> 'a option" where
  "first_min k [] = None"
| "first_min k (x # xs) = (case first_min k xs of None \<Rightarrow> Some x | Some y \<Rightarrow> Some (if k x \<le> k y then x else y))"

definition lru_candidates :: "sidecar_env \<Rightarrow> rpc list \<Rightarrow> pool \<Rightarrow> db \<Rightarrow> binding_row list" where
  "lru_candidates e h p d =
     List.map_filter (\<lambda>x. case guarded e h ''lru'' (Inr (find_lru_hot_binding (se_harness e) d)) of
         Inr b \<Rightarrow> b | Inl _ \<Rightarrow> None) (for_each_supervisor p)"

definition evict_lru :: "sidecar_env \<Rightarrow> exec_state \<Rightarrow> (subagent_error + unit) \<times> exec_state" where
  "evict_lru e s =
     (case xs_db s of
        None \<Rightarrow> (Inl (Validation ''evict_lru requires a DB connection; no-DB executor cannot pick LRU''), s)
      | Some d \<Rightarrow>
          (case first_min (\<lambda>b. unwrap_or 0 (b_last_used_at_ms b)) (lru_candidates e (sent s) (xs_pool s) d) of
             None \<Rightarrow> (Inr (), s)
           | Some b \<Rightarrow>
               (case b_adapter_session_id b of
                  None \<Rightarrow> (Inl (Validation ''LRU hot binding has no adapter_session_id''), s)
                | Some session \<Rightarrow>
                    (case evict_session e session s of
                       (Inl x, s) \<Rightarrow> (Inl x, s)
                     | (Inr _, s) \<Rightarrow> (Inr (), s)))))"

section \<open>One turn\<close>

definition EVICT_WAIT_MAX_RETRIES :: nat where "EVICT_WAIT_MAX_RETRIES = 5"
definition ALL_BUSY_MAX_RETRIES :: nat where "ALL_BUSY_MAX_RETRIES = 10"

text \<open>An authentication failure also removes and kills the worker.\<close>

definition fail_turn ::
  "sidecar_env \<Rightarrow> string \<Rightarrow> json sidecar_error \<Rightarrow> exec_state \<Rightarrow> (subagent_error + executor_output) \<times> exec_state" where
  "fail_turn e pid x s =
     (Inl (to_error x), if classify_sidecar_error x = KAuth then remove_worker_and_kill e pid s else s)"

text \<open>The retries after an eviction and while all sessions are busy; the number is what is left.\<close>

primrec evict_wait ::
  "nat \<Rightarrow> sidecar_env \<Rightarrow> string \<Rightarrow> nat \<Rightarrow> json \<Rightarrow> exec_state \<Rightarrow> (subagent_error + executor_output) \<times> exec_state" where
  "evict_wait 0 e pid w params s = (Inl (HotSessionLimit []), s)"
| "evict_wait (Suc n) e pid w params s =
     (case send_rpc e (turn_auto w params) s of
        (Inr r, s) \<Rightarrow> (Inr (parse_turn_auto_result r), s)
      | (Inl x, s) \<Rightarrow>
          if has_code HOT_SESSION_LIMIT_REACHED x then evict_wait n e pid w params s
          else fail_turn e pid x s)"

primrec all_busy_wait ::
  "nat \<Rightarrow> sidecar_env \<Rightarrow> string \<Rightarrow> nat \<Rightarrow> json \<Rightarrow> exec_state \<Rightarrow> (subagent_error + executor_output) \<times> exec_state" where
  "all_busy_wait 0 e pid w params s = (Inl (HotSessionLimit []), s)"
| "all_busy_wait (Suc n) e pid w params s =
     (case send_rpc e (turn_auto w params) s of
        (Inr r, s) \<Rightarrow> (Inr (parse_turn_auto_result r), s)
      | (Inl x, s) \<Rightarrow>
          if has_code HOT_SESSION_LIMIT_REACHED x then
            (case classify_hot_limit_error (error_data x) of
               All_Busy \<Rightarrow> all_busy_wait n e pid w params s
             | _ \<Rightarrow> (Inl (HotSessionLimit []), s))
          else fail_turn e pid x s)"

definition run_turn ::
  "sidecar_env \<Rightarrow> string \<Rightarrow> nat \<Rightarrow> json \<Rightarrow> exec_state \<Rightarrow> (subagent_error + executor_output) \<times> exec_state" where
  "run_turn e pid w params s =
     (case send_rpc e (turn_auto w params) s of
        (Inr r, s) \<Rightarrow> (Inr (parse_turn_auto_result r), s)
      | (Inl x, s) \<Rightarrow>
          if has_code HOT_SESSION_LIMIT_REACHED x then
            (case classify_hot_limit_error (error_data x) of
               Evict c \<Rightarrow>
                 (case evict_session e c s of
                    (Inl y, s) \<Rightarrow> (Inl y, s)
                  | (Inr _, s) \<Rightarrow> evict_wait EVICT_WAIT_MAX_RETRIES e pid w params s)
             | All_Busy \<Rightarrow> all_busy_wait ALL_BUSY_MAX_RETRIES e pid w params s
             | Protocol_Violation msg \<Rightarrow> (Inl (Validation msg), s))
          else fail_turn e pid x s)"

definition execute_impl ::
  "sidecar_env \<Rightarrow> executor_input \<Rightarrow> exec_state \<Rightarrow> (subagent_error + executor_output) \<times> exec_state" where
  "execute_impl e input s =
     (case ensure_worker (se_place e (sent s)) (xi_provider_id input) (xs_pool s) of
        (Inl x, p) \<Rightarrow> (Inl (to_error x), s\<lparr>xs_pool := p\<rparr>)
      | (Inr w, p) \<Rightarrow>
          (case send_rpc e (Ensure_Started w) (s\<lparr>xs_pool := p\<rparr>) of
             (Inl x, s) \<Rightarrow> (Inl (to_error x), s)
           | (Inr _, s) \<Rightarrow> run_turn e (xi_provider_id input) w (turn_params input) s))"

section \<open>Session calls\<close>

text \<open>The answer is the message of the error, if there is one.\<close>

definition call_session ::
  "sidecar_env \<Rightarrow> nat \<Rightarrow> string \<Rightarrow> rpc \<Rightarrow> (json sidecar_error \<Rightarrow> bool) \<Rightarrow> exec_state \<Rightarrow> string option \<times> exec_state" where
  "call_session e w what r tolerated s =
     (case send_rpc e (Ensure_Started w) s of
        (Inl x, s) \<Rightarrow> (Some (''sidecar ensure_started failed during '' @ what @ '': '' @ sidecar_error_to_string x), s)
      | (Inr _, s) \<Rightarrow>
          (case send_rpc e r s of
             (Inl x, s) \<Rightarrow>
               (if tolerated x then None
                else Some (''session.'' @ what @ '' RPC failed: '' @ sidecar_error_to_string x), s)
           | (Inr _, s) \<Rightarrow> (None, s)))"

definition cancel_turn ::
  "sidecar_env \<Rightarrow> string \<Rightarrow> string \<Rightarrow> string option \<Rightarrow> exec_state \<Rightarrow> string option \<times> exec_state" where
  "cancel_turn e subagent_id pid task_id s =
     (case get_worker pid (xs_pool s) of
        None \<Rightarrow> (None, s)
      | Some w \<Rightarrow>
          if \<not> se_running e (sent s) w then (None, s)
          else call_session e w ''cancel'' (cancel_session w subagent_id task_id) (\<lambda>_. False) s)"

definition activate_session_rpc ::
  "sidecar_env \<Rightarrow> string \<Rightarrow> string \<Rightarrow> exec_state \<Rightarrow> string option \<times> exec_state" where
  "activate_session_rpc e session pid s =
     (case get_worker pid (xs_pool s) of
        None \<Rightarrow> (Some (''provider worker '' @ pid @ '' is missing while activating session '' @ session), s)
      | Some w \<Rightarrow> call_session e w ''activate'' (activate_rpc w session) (\<lambda>_. False) s)"

definition close_session_rpc ::
  "sidecar_env \<Rightarrow> string \<Rightarrow> string \<Rightarrow> exec_state \<Rightarrow> string option \<times> exec_state" where
  "close_session_rpc e session pid s =
     (case get_worker pid (xs_pool s) of
        None \<Rightarrow> (None, s)
      | Some w \<Rightarrow>
          if \<not> se_running e (sent s) w then (None, s)
          else call_session e w ''close'' (close_rpc w session) (has_code SESSION_NOT_FOUND) s)"

text \<open>What the manager sees of it, from a given state.\<close>

definition sidecar_executor :: "sidecar_env \<Rightarrow> exec_state \<Rightarrow> executor" where
  "sidecar_executor e s =
     \<lparr>ex_execute = (\<lambda>input. map_err Typed (fst (execute_impl e input s))),
      ex_activate_session = (\<lambda>session pid. fst (activate_session_rpc e session pid s)),
      ex_close_session = (\<lambda>session pid. fst (close_session_rpc e session pid s))\<rparr>"

end
