(* ===== verification/Executor_Runs.thy ===== *)
theory Executor_Runs
  imports Sidecar_Executor
begin

text \<open>
  What the runs of the sidecar executor guarantee: the number of turns it may start, what the store
  holds when a session is closed, the store's invariant across a run, the worker after an
  authentication failure, and the decoding of a sidecar's answer.
\<close>

section \<open>Frame lemmas\<close>

lemma send_rpc_simps [simp]:
  "xs_log (snd (send_rpc e r s)) = xs_log s @ [(r, xs_db s)]"
  "xs_db (snd (send_rpc e r s)) = map_option (se_store e (sent s @ [r])) (xs_db s)"
  "xs_pool (snd (send_rpc e r s)) = se_pool e (sent s @ [r]) (xs_pool s)"
  "sent (snd (send_rpc e r s)) = sent s @ [r]"
  by (simp_all add: send_rpc_def sent_def)

lemma send_rpc_case [simp]:
  "case_prod f (send_rpc e r s) = f (se_answer e (sent s) r) (snd (send_rpc e r s))"
  by (simp add: send_rpc_def)

lemma send_rpc_answer [simp]: "fst (send_rpc e r s) = se_answer e (sent s) r"
  by (simp add: send_rpc_def)

lemma sent_update [simp]:
  "sent (s\<lparr>xs_pool := p\<rparr>) = sent s" "sent (s\<lparr>xs_db := d\<rparr>) = sent s"
  by (simp_all add: sent_def)

definition is_turn :: "rpc \<Rightarrow> bool" where
  "is_turn r = (case r of Call _ m _ \<Rightarrow> m = ''session.turn_auto'' | _ \<Rightarrow> False)"

definition turns :: "exec_state \<Rightarrow> nat" where
  "turns s = length (filter is_turn (sent s))"

lemma turns_send [simp]: "turns (snd (send_rpc e r s)) = turns s + (if is_turn r then 1 else 0)"
  by (simp add: turns_def)

lemma turns_update [simp]: "turns (s\<lparr>xs_pool := p\<rparr>) = turns s" "turns (s\<lparr>xs_db := d\<rparr>) = turns s"
  by (simp_all add: turns_def)

lemma is_turn_simps [simp]:
  "is_turn (turn_auto w params)" "\<not> is_turn (prepare_hibernate w session)" "\<not> is_turn (close_rpc w session)"
  "\<not> is_turn (Ensure_Started w)" "\<not> is_turn (Force_Kill w)"
  by (simp_all add: is_turn_def rpc_defs)

text \<open>
  A relation between the states before and after that composes, and that holds of the calls of an
  eviction, of a kill and of a change of the pool, holds of a whole eviction; the close is seen together
  with the transaction before it. When it also holds of a turn it holds of a whole execution.
\<close>

locale evict_relation =
  fixes e :: sidecar_env
    and R :: "exec_state \<Rightarrow> exec_state \<Rightarrow> bool"
  assumes R_refl: "R s s"
    and R_trans: "R s t \<Longrightarrow> R t u \<Longrightarrow> R s u"
    and R_start: "R s (snd (send_rpc e (Ensure_Started w) s))"
    and R_prepare: "R s (snd (send_rpc e (prepare_hibernate w session) s))"
    and R_kill: "R s (snd (send_rpc e (Force_Kill w) s))"
    and R_pool: "R s (s\<lparr>xs_pool := p\<rparr>)"
    and R_evicted: "xs_db s = Some d \<Longrightarrow> evict_persist e (sent s) session j d = Inr (Evicted, d') \<Longrightarrow>
      R s (snd (send_rpc e (close_rpc w session) (s\<lparr>xs_db := Some d'\<rparr>)))"
begin

lemma R_remove: "R s (remove_worker_and_kill e pid s)"
  using R_pool R_trans[OF R_pool R_kill]
  by (auto simp: remove_worker_and_kill_def split: option.splits prod.splits)

lemma R_fail: "R s (snd (fail_turn e pid x s))"
  by (simp add: fail_turn_def R_remove R_refl)

lemma evict_close_snd: "snd (evict_close e w session s) = snd (send_rpc e (close_rpc w session) s)"
  by (simp add: evict_close_def split: sum.splits)

lemma R_evict_on:
  assumes "xs_db s \<noteq> None"
  shows "R s (snd (evict_on e w session s))"
proof (cases "se_answer e (sent s) (prepare_hibernate w session)")
  let ?s = "snd (send_rpc e (prepare_hibernate w session) s)"
  obtain d where d: "xs_db ?s = Some d" using assms by auto
  case (Inr r)
  with R_prepare R_trans[OF R_prepare R_evicted[OF d]] d show ?thesis
    by (auto simp: evict_on_def evict_close_snd split: sum.splits eviction_outcome.splits)
qed (simp add: evict_on_def R_prepare)

lemma R_evict: "R s (snd (evict_session e session s))"
proof -
  have "R s (snd (evict_on e w session (snd (send_rpc e (Ensure_Started v) s))))" if "xs_db s \<noteq> None" for w v
    by (rule R_trans[OF R_start R_evict_on]) (use that in simp)
  then show ?thesis
    using R_start R_refl by (simp add: evict_session_def split: sum.splits option.splits)
qed

lemma R_evict_lru: "R s (snd (evict_lru e s))"
  using R_evict R_refl by (simp add: evict_lru_def case_prod_unfold split: sum.splits option.splits)

end

locale exec_relation = evict_relation +
  assumes R_turn: "R s (snd (send_rpc e (turn_auto w params) s))"
begin

lemma R_evict_wait: "R s (snd (evict_wait n e pid w params s))"
proof (induction n arbitrary: s)
  case (Suc n)
  from R_trans[OF R_turn Suc] R_trans[OF R_turn R_fail] show ?case
    by (simp add: R_turn split: sum.splits)
qed (simp add: R_refl)

lemma R_all_busy: "R s (snd (all_busy_wait n e pid w params s))"
proof (induction n arbitrary: s)
  case (Suc n)
  from R_trans[OF R_turn Suc] R_trans[OF R_turn R_fail] show ?case
    by (simp add: R_turn split: sum.splits hot_limit_outcome.splits)
qed (simp add: R_refl)

lemma R_run_turn: "R s (snd (run_turn e pid w params s))"
proof -
  let ?s = "snd (send_rpc e (turn_auto w params) s)"
  have evicted: "R s (snd (evict_session e c ?s))" for c by (rule R_trans[OF R_turn R_evict])
  have retried: "R s (snd (evict_wait n e pid w params (snd (evict_session e c ?s))))" for c n
    by (rule R_trans[OF evicted R_evict_wait])
  have busy: "R s (snd (all_busy_wait n e pid w params ?s))" for n by (rule R_trans[OF R_turn R_all_busy])
  have failed: "R s (snd (fail_turn e pid x ?s))" for x by (rule R_trans[OF R_turn R_fail])
  show ?thesis
    by (simp add: run_turn_def R_turn evicted retried busy failed case_prod_unfold
        split: sum.splits hot_limit_outcome.splits)
qed

lemma R_execute: "R s (snd (execute_impl e input s))"
proof -
  have started: "R s (snd (send_rpc e (Ensure_Started w) (s\<lparr>xs_pool := p\<rparr>)))" for w p
    by (rule R_trans[OF R_pool R_start])
  have "R s (snd (run_turn e pid w params (snd (send_rpc e (Ensure_Started w) (s\<lparr>xs_pool := p\<rparr>)))))" for p pid w params
    by (rule R_trans[OF started R_run_turn])
  with started R_pool show ?thesis
    by (simp add: execute_impl_def split: sum.splits prod.splits)
qed

end

section \<open>The number of turns\<close>

interpretation turn_free: evict_relation e "\<lambda>s t. turns t = turns s" for e
  by unfold_locales simp_all

lemma evict_wait_turns: "turns (snd (evict_wait n e pid w params s)) \<le> turns s + n"
proof (induction n arbitrary: s)
  case (Suc n)
  from Suc[of "snd (send_rpc e (turn_auto w params) s)"] show ?case
    by (simp add: turn_free.R_fail split: sum.splits)
qed simp

lemma all_busy_turns: "turns (snd (all_busy_wait n e pid w params s)) \<le> turns s + n"
proof (induction n arbitrary: s)
  case (Suc n)
  from Suc[of "snd (send_rpc e (turn_auto w params) s)"] show ?case
    by (simp add: turn_free.R_fail split: sum.splits hot_limit_outcome.splits)
qed simp

lemma run_turn_turns: "turns (snd (run_turn e pid w params s)) \<le> turns s + 1 + ALL_BUSY_MAX_RETRIES"
proof -
  let ?s = "snd (send_rpc e (turn_auto w params) s)"
  have "turns (snd (evict_session e c ?s)) = turns s + 1" for c by (simp add: turn_free.R_evict)
  moreover have "turns (snd (evict_wait EVICT_WAIT_MAX_RETRIES e pid w params (snd (evict_session e c ?s)))) \<le> 11 + turns s" for c
    using evict_wait_turns[of EVICT_WAIT_MAX_RETRIES e pid w params "snd (evict_session e c ?s)"]
    by (simp add: turn_free.R_evict EVICT_WAIT_MAX_RETRIES_def)
  moreover have "turns (snd (all_busy_wait ALL_BUSY_MAX_RETRIES e pid w params ?s)) \<le> 11 + turns s"
    using all_busy_turns[of ALL_BUSY_MAX_RETRIES e pid w params ?s] by (simp add: ALL_BUSY_MAX_RETRIES_def)
  ultimately show ?thesis
    by (simp add: run_turn_def case_prod_unfold turn_free.R_fail ALL_BUSY_MAX_RETRIES_def
        split: sum.splits hot_limit_outcome.splits)
qed

text \<open>
  C32. One execution of a task sends at most eleven turns to the sidecar, whatever the sidecar answers
  and whatever other tasks do meanwhile.
\<close>

theorem turns_bounded: "turns (snd (execute_impl e input s)) \<le> turns s + 11"
proof -
  have "turns (snd (run_turn e pid w params (snd (send_rpc e (Ensure_Started w) (s\<lparr>xs_pool := p\<rparr>))))) \<le> turns s + 11" for pid w params p
    using run_turn_turns[of e pid w params "snd (send_rpc e (Ensure_Started w) (s\<lparr>xs_pool := p\<rparr>))"]
    by (simp add: ALL_BUSY_MAX_RETRIES_def)
  then show ?thesis
    by (simp add: execute_impl_def split: sum.splits prod.splits)
qed

section \<open>The transaction before the close\<close>

lemma hot_binding_found:
  "find_hot_binding_by_session session harness d = Some b \<Longrightarrow>
     b \<in> set (bindings d) \<and> b_adapter_session_id b = Some session \<and> b_harness b = harness \<and> b_is_hot b = 1"
  by (auto simp: find_hot_binding_by_session_def is_hot_def dest!: find_SomeD)

definition status_of_memory :: "string \<Rightarrow> db \<Rightarrow> bool" where
  "status_of_memory sid d =
     list_all (\<lambda>l. l_id l \<noteq> sid \<or> \<not> active l \<or> l_status l = (if has_hot_summary sid d then ''warm'' else ''cold'')) (logicals d)"

definition closed_in :: "string \<Rightarrow> string \<Rightarrow> db \<Rightarrow> bool" where
  "closed_in harness session d =
     list_ex (\<lambda>b. b_adapter_session_id b = Some session \<and> b_harness b = harness \<and> b_is_hot b = 0 \<and> b_status b = ''closed''
        \<and> status_of_memory (b_subagent_id b) d) (bindings d)"

lemma upsert_same_binding:
  assumes "upsert_binding row d = Inr d'" "b \<in> set (bindings d)" "b_id b = b_id row" "b_subagent_id b = b_subagent_id row"
  shows "\<exists>c \<in> set (bindings d'). b_adapter_session_id c = b_adapter_session_id row \<and> b_subagent_id c = b_subagent_id row
    \<and> b_harness c = b_harness b \<and> b_status c = b_status row \<and> b_is_hot c = b_is_hot row"
proof -
  have "list_ex (\<lambda>b. b_id b = b_id row) (bindings d)" using assms(2,3) by (auto simp: list_ex_iff)
  then have "d' = d\<lparr>bindings := upd_where (\<lambda>b. b_id b = b_id row) (overwrite_binding row) (bindings d)\<rparr>"
    using assms(1) by (auto simp: upsert_binding_def dest: put_bindingsD(1))
  with assms(2,3) have "overwrite_binding row b \<in> set (bindings d')" by (auto intro: upd_where_hit)
  with assms(4) show ?thesis by (intro bexI[of _ "overwrite_binding row b"]) (simp_all add: overwrite_binding_def)
qed

lemma eviction_closes:
  assumes ev: "commit_eviction now1 now row (b_subagent_id row) summary d = Inr (st, d')"
    and b: "b \<in> set (bindings d)" "b_id b = b_id row" "b_subagent_id b = b_subagent_id row"
    and h: "b_harness b = harness"
    and row: "b_adapter_session_id row = Some session" "b_is_hot row = 0" "b_status row = ''closed''"
  shows "closed_in harness session d'"
  using ev
proof (cases rule: commit_evictionE)
  case (1 d1 d2)
  note frame = put_logicals_frame[OF 1(4)] put_logicalsD(1)[OF 1(4)]
  have "\<exists>ms. d1 = d\<lparr>memories := ms\<rparr>"
    using 1(1) write_hot_summary_frame by (auto split: option.splits intro: exI[of _ "memories d"])
  then have "bindings d1 = bindings d" by auto
  with upsert_same_binding[OF 1(2) _ b(2,3)] b(1) row h frame(1)
  obtain c where c: "c \<in> set (bindings d')" "b_adapter_session_id c = Some session" "b_subagent_id c = b_subagent_id row"
    "b_status c = ''closed''" "b_is_hot c = 0" "b_harness c = harness" by auto
  have "has_hot_summary (b_subagent_id row) d' = has_hot_summary (b_subagent_id row) d2"
    using frame(1) by (simp add: has_hot_summary_def)
  then have "status_of_memory (b_subagent_id row) d'"
    using frame(2) 1(3) by (auto simp: status_of_memory_def list_all_iff active_def touch_logical_def elim!: in_upd_whereE)
  with c show ?thesis by (auto simp: closed_in_def list_ex_iff)
qed

lemma event_best_effort_frame: "\<exists>es. insert_event_best_effort e h row d = d\<lparr>events := es\<rparr>"
  by (auto simp: insert_event_best_effort_def guarded_def insert_resource_event_def
      split: sum.splits option.splits intro: exI[of _ "events d"])

lemma closed_in_events: "closed_in harness session (d\<lparr>events := es\<rparr>) = closed_in harness session d"
  by (simp add: closed_in_def status_of_memory_def has_hot_summary_def)

lemma insert_event_closed_in:
  "closed_in harness session d \<Longrightarrow> closed_in harness session (insert_event_best_effort e h row d)"
  using event_best_effort_frame[of e h row d] closed_in_events by metis

lemma evict_persist_closes:
  assumes "evict_persist e h session j d = Inr (Evicted, d')"
  shows "closed_in (se_harness e) session d'"
proof -
  obtain b where b: "find_hot_binding_by_session session (se_harness e) d = Some b"
    using assms by (auto simp: evict_persist_def guarded_def split: option.splits if_splits)
  note f = hot_binding_found[OF b]
  let ?row = "b\<lparr>b_is_hot := 0, b_status := ''closed'', b_closed_at_ms := Some (se_now e h 0)\<rparr>"
  obtain st d1 where ev: "commit_eviction (se_now e h 1) (se_now e h 2) ?row (b_subagent_id b) (hibernate_summary j) d = Inr (st, d1)"
    and d': "d' = insert_event_best_effort e h (hibernate_event e h (b_subagent_id b) session j) d1"
    using assms b by (auto simp: evict_persist_def guarded_def split: option.splits sum.splits if_splits)
  have "closed_in (se_harness e) session d1"
    by (rule eviction_closes[of _ _ ?row _ d _ _ b]) (use ev f in simp_all)
  then show ?thesis unfolding d' by (rule insert_event_closed_in)
qed

definition close_logged :: "string \<Rightarrow> rpc \<times> db option \<Rightarrow> bool" where
  "close_logged harness x =
     (\<forall>w session d. x = (close_rpc w session, Some d) \<longrightarrow> closed_in harness session d)"

definition closes_sound :: "sidecar_env \<Rightarrow> (rpc \<times> db option) list \<Rightarrow> bool" where
  "closes_sound e xs = (\<forall>x\<in>set xs. close_logged (se_harness e) x)"

definition closes_after_commit :: "sidecar_env \<Rightarrow> exec_state \<Rightarrow> exec_state \<Rightarrow> bool" where
  "closes_after_commit e s t = (closes_sound e (xs_log s) \<longrightarrow> closes_sound e (xs_log t))"

interpretation closing: exec_relation e "closes_after_commit e" for e
proof unfold_locales
  fix s d session j d' w
  assume "evict_persist e (sent s) session j d = Inr (Evicted, d')"
  then have "closed_in (se_harness e) session d'" by (rule evict_persist_closes)
  then have "close_logged (se_harness e) (close_rpc w session, Some d')"
    by (simp add: close_logged_def rpc_defs session_param_def)
  then show "closes_after_commit e s (snd (send_rpc e (close_rpc w session) (s\<lparr>xs_db := Some d'\<rparr>)))"
    by (simp add: closes_after_commit_def closes_sound_def)
qed (auto simp: closes_after_commit_def closes_sound_def close_logged_def rpc_defs)

text \<open>
  C12. A run closes a session of the sidecar only after the store has been told: at the moment the
  close of an eviction is sent, the binding of that session is closed and no longer hot, and
  the status of its subagent is the one its memory calls for (warm with a hot summary, cold without),
  unless it is deleted.
\<close>

theorem close_after_commit:
  assumes "xs_log s = []" "(close_rpc w session, Some d) \<in> set (xs_log (snd (execute_impl e input s)))"
  shows "closed_in (se_harness e) session d"
proof -
  have "closes_sound e (xs_log (snd (execute_impl e input s)))"
    using closing.R_execute[of e s input] assms(1) by (simp add: closes_after_commit_def closes_sound_def)
  with assms(2) show ?thesis by (auto simp: closes_sound_def close_logged_def)
qed

interpretation growing: exec_relation e "\<lambda>s t. set (xs_log s) \<subseteq> set (xs_log t)" for e
  by unfold_locales auto

interpretation present: exec_relation e "\<lambda>s t. xs_db t = None \<longleftrightarrow> xs_db s = None" for e
  by unfold_locales simp_all

section \<open>The invariant of the store\<close>

definition stored_ok :: "exec_state \<Rightarrow> bool" where
  "stored_ok s = (case xs_db s of None \<Rightarrow> True | Some d \<Rightarrow> db_ok d)"

definition others_keep :: "sidecar_env \<Rightarrow> bool" where
  "others_keep e = (\<forall>h d. db_ok d \<longrightarrow> db_ok (se_store e h d))"

definition store_kept :: "sidecar_env \<Rightarrow> exec_state \<Rightarrow> exec_state \<Rightarrow> bool" where
  "store_kept e s t = (others_keep e \<and> stored_ok s \<longrightarrow> stored_ok t)"

lemma stored_ok_send: "others_keep e \<Longrightarrow> stored_ok s \<Longrightarrow> stored_ok (snd (send_rpc e r s))"
  by (auto simp: stored_ok_def others_keep_def split: option.splits)

lemma event_best_effort_db_ok: "db_ok d \<Longrightarrow> db_ok (insert_event_best_effort e h row d)"
  by (auto simp: insert_event_best_effort_def guarded_def split: sum.splits option.splits intro: insert_event_db_ok)

lemma evict_persist_db_ok:
  assumes "evict_persist e h session j d = Inr (x, d')" "db_ok d"
  shows "db_ok d'"
  using assms commit_eviction_db_ok event_best_effort_db_ok
  by (fastforce simp: evict_persist_def guarded_def split: option.splits sum.splits if_splits)

interpretation keeping: exec_relation e "store_kept e" for e
proof unfold_locales
  fix s d session j d' w
  assume "xs_db s = Some d" "evict_persist e (sent s) session j d = Inr (Evicted, d')"
  then have "stored_ok s \<Longrightarrow> stored_ok (s\<lparr>xs_db := Some d'\<rparr>)"
    using evict_persist_db_ok by (simp add: stored_ok_def)
  then show "store_kept e s (snd (send_rpc e (close_rpc w session) (s\<lparr>xs_db := Some d'\<rparr>)))"
    by (simp add: store_kept_def stored_ok_send)
qed (simp_all add: store_kept_def stored_ok_send stored_ok_def[of "_\<lparr>xs_pool := _\<rparr>"] stored_ok_def[symmetric])

text \<open>
  C13. A run of the executor, with its evictions, keeps the invariant of the store, provided that what
  other tasks do during its calls keeps it.
\<close>

theorem executor_store_ok:
  assumes "xs_db s = Some d" "db_ok d" "\<And>h d. db_ok d \<Longrightarrow> db_ok (se_store e h d)"
    and "xs_db (snd (execute_impl e input s)) = Some d'"
  shows "db_ok d'"
  using keeping.R_execute[of e s input] assms
  by (simp add: store_kept_def stored_ok_def others_keep_def)

section \<open>Authentication failures\<close>

definition others_leave :: "sidecar_env \<Rightarrow> string \<Rightarrow> bool" where
  "others_leave e pid = (\<forall>h p. get_worker pid p = None \<longrightarrow> get_worker pid (se_pool e h p) = None)"

fun auth_failure :: "json sidecar_error + json \<Rightarrow> bool" where
  "auth_failure (Inl x) = has_code AUTH_FAILURE x"
| "auth_failure (Inr _) = False"

definition auth_only_turns :: "sidecar_env \<Rightarrow> bool" where
  "auth_only_turns e = (\<forall>h r. is_turn r \<or> \<not> auth_failure (se_answer e h r))"

fun is_auth_error :: "subagent_error \<Rightarrow> bool" where
  "is_auth_error (SidecarRpc _ c) = (c = Some AUTH_FAILURE)"
| "is_auth_error _ = False"

fun reports_auth :: "subagent_error + 'a \<Rightarrow> bool" where
  "reports_auth (Inl x) = is_auth_error x"
| "reports_auth (Inr _) = False"

lemma is_auth_error_to_error [simp]: "is_auth_error (to_error x) = has_code AUTH_FAILURE x"
  by (cases x) (auto simp: to_error_def from_sidecar_error_def protocol_codes)

lemma take_worker_gone: "get_worker pid (snd (take_worker pid p)) = None"
  by (auto simp: take_worker_def get_worker_def map_of_eq_None_iff)

lemma removed_worker_gone:
  "others_leave e pid \<Longrightarrow> get_worker pid (xs_pool (remove_worker_and_kill e pid s)) = None"
  using take_worker_gone[of pid "xs_pool s"]
  by (auto simp: remove_worker_and_kill_def others_leave_def split: prod.splits option.splits)

lemma fail_turn_gone:
  assumes "others_leave e pid" "reports_auth (fst (fail_turn e pid x s))"
  shows "get_worker pid (xs_pool (snd (fail_turn e pid x s))) = None"
proof -
  have "has_code AUTH_FAILURE x" using assms(2) by (simp add: fail_turn_def)
  then have "classify_sidecar_error x = KAuth" by (cases x) auto
  then show ?thesis using removed_worker_gone[OF assms(1)] by (simp add: fail_turn_def)
qed

lemma evict_reports_no_auth:
  assumes "auth_only_turns e"
  shows "\<not> reports_auth (fst (evict_session e session s))"
proof -
  have no: "\<not> has_code AUTH_FAILURE x" if "se_answer e h r = Inl x" "\<not> is_turn r" for h r x
    using assms that unfolding auth_only_turns_def by (metis auth_failure.simps(1))
  have persist: "\<not> is_auth_error x" if "evict_persist e h session j d = Inl x" for h j d x
    using that by (auto simp: evict_persist_def divergence_def split: option.splits sum.splits if_splits)
  have close: "\<not> reports_auth (fst (evict_close e w session t))" for w t
    by (auto simp: evict_close_def split: sum.splits)
  have "\<not> reports_auth (fst (evict_on e w session t))" for w t
    using close persist no by (auto simp: evict_on_def split: sum.splits option.splits eviction_outcome.splits)
  then show ?thesis
    using no by (auto simp: evict_session_def divergence_def split: sum.splits option.splits)
qed

lemma evict_wait_gone:
  "others_leave e pid \<Longrightarrow> reports_auth (fst (evict_wait n e pid w params s)) \<Longrightarrow>
     get_worker pid (xs_pool (snd (evict_wait n e pid w params s))) = None"
  by (induction n arbitrary: s) (auto simp: fail_turn_gone split: sum.splits if_splits)

lemma all_busy_gone:
  "others_leave e pid \<Longrightarrow> reports_auth (fst (all_busy_wait n e pid w params s)) \<Longrightarrow>
     get_worker pid (xs_pool (snd (all_busy_wait n e pid w params s))) = None"
  by (induction n arbitrary: s) (auto simp: fail_turn_gone split: sum.splits if_splits hot_limit_outcome.splits)

lemma run_turn_gone:
  assumes "others_leave e pid" "auth_only_turns e" "reports_auth (fst (run_turn e pid w params s))"
  shows "get_worker pid (xs_pool (snd (run_turn e pid w params s))) = None"
proof -
  have "\<not> is_auth_error y" if "fst (evict_session e c t) = Inl y" for c t y
    using evict_reports_no_auth[OF assms(2), of c t] that by simp
  then show ?thesis
    using assms(3) evict_wait_gone[OF assms(1)] all_busy_gone[OF assms(1)] fail_turn_gone[OF assms(1)]
    by (auto simp: run_turn_def case_prod_unfold split: sum.splits if_splits hot_limit_outcome.splits)
qed

text \<open>
  C31. When a run ends with the sidecar's authentication failure, the provider has no worker any more: the next
  task of that provider starts a fresh process. This supposes that only turns fail that way and
  that no other task creates the worker anew meanwhile.
\<close>

theorem auth_failure_removes_worker:
  assumes "others_leave e (xi_provider_id input)" "auth_only_turns e"
    and "reports_auth (fst (execute_impl e input s))"
  shows "get_worker (xi_provider_id input) (xs_pool (snd (execute_impl e input s))) = None"
proof -
  have no: "\<not> has_code AUTH_FAILURE x" if "se_answer e h (Ensure_Started w) = Inl x" for h w x
    using assms(2) that unfolding auth_only_turns_def by (metis auth_failure.simps(1) is_turn_simps(4))
  have unknown: "\<not> has_code AUTH_FAILURE x" if "ensure_worker place pid p = (Inl x, q)"
    for place pid p q and x :: "json sidecar_error"
    using that by (auto simp: ensure_worker_def split: prod.splits ensured.splits)
  show ?thesis
    using assms(3) no unknown run_turn_gone[OF assms(1,2)]
    by (auto simp: execute_impl_def split: prod.splits sum.splits)
qed

section \<open>A misrouted eviction\<close>

lemma evict_wait_stuck:
  assumes "\<And>h. \<exists>x. se_answer e h (turn_auto w params) = Inl x \<and> has_code HOT_SESSION_LIMIT_REACHED x"
  shows "fst (evict_wait n e pid w params s) = Inl (HotSessionLimit [])
    \<and> sent (snd (evict_wait n e pid w params s)) = sent s @ replicate n (turn_auto w params)"
proof (induction n arbitrary: s)
  case (Suc n)
  obtain x where "se_answer e (sent s) (turn_auto w params) = Inl x" "has_code HOT_SESSION_LIMIT_REACHED x"
    using assms by blast
  with Suc show ?case by simp
qed simp

text \<open>
  What the misrouting of \<open>supervisor_for_session\<close> does: the hot limit of the worker \<open>w\<close> names a session of
  its own, the lookup answers the first worker \<open>v\<close> of the map, which has no such session.
\<close>

definition undisturbed :: "sidecar_env \<Rightarrow> bool" where
  "undisturbed e = (\<forall>h p d q. se_pool e h p = p \<and> se_store e h d = d \<and> se_db_error e h q = None)"

definition full_sidecar :: "sidecar_env \<Rightarrow> nat \<Rightarrow> nat \<Rightarrow> json \<Rightarrow> string \<Rightarrow> bool" where
  "full_sidecar e w v params session =
     (\<forall>h. (\<exists>x. se_answer e h (turn_auto w params) = Inl x \<and> has_code HOT_SESSION_LIMIT_REACHED x
             \<and> classify_hot_limit_error (error_data x) = Evict session)
        \<and> (\<exists>x. se_answer e h (prepare_hibernate v session) = Inl x \<and> has_code SESSION_NOT_FOUND x)
        \<and> (\<forall>u. \<exists>r. se_answer e h (Ensure_Started u) = Inr r))"

text \<open>
  C30. With two providers, a session that lives in the sidecar of the second one cannot be evicted: the
  eviction asks the first sidecar, its session-not-found is read as already evicted, the turn is repeated
  five times without any change, and the run ends at the hot session limit; the sidecar that holds the
  session is never asked to release it and the store still has it hot.
\<close>

theorem misrouted_eviction:
  assumes "undisturbed e" "full_sidecar e w v (turn_params input) session"
    and pool: "get_worker (xi_provider_id input) (xs_pool s) = Some w"
      "map_of (wp_providers (xs_pool s)) (xi_provider_id input) = Some entry"
      "wp_workers (xs_pool s) = (pid, v) # ws"
    and store: "xs_db s = Some d" "find_binding_by_session session (se_harness e) d = Some b"
  shows "fst (execute_impl e input s) = Inl (HotSessionLimit [])
    \<and> sent (snd (execute_impl e input s)) = sent s @
        [Ensure_Started w, turn_auto w (turn_params input), Ensure_Started v, prepare_hibernate v session]
        @ replicate 5 (turn_auto w (turn_params input))
    \<and> xs_db (snd (execute_impl e input s)) = Some d"
proof -
  let ?params = "turn_params input"
  have keep: "se_pool e h p = p" "se_store e h d = d" "se_db_error e h q = None" for h p d q
    using assms(1) by (simp_all add: undisturbed_def)
  obtain t where turn: "se_answer e h (turn_auto w ?params) = Inl (t h)" "has_code HOT_SESSION_LIMIT_REACHED (t h)"
    "classify_hot_limit_error (error_data (t h)) = Evict session" for h
    using assms(2) unfolding full_sidecar_def by metis
  obtain n where prepare: "se_answer e h (prepare_hibernate v session) = Inl (n h)" "has_code SESSION_NOT_FOUND (n h)" for h
    using assms(2) unfolding full_sidecar_def by metis
  obtain r where started: "se_answer e h (Ensure_Started u) = Inr (r h u)" for h u
    using assms(2) unfolding full_sidecar_def by metis
  have route: "supervisor_for_session (se_harness e) session (Some d) False (xs_pool s) = Inr (Some (pid, v))"
    using pool(3) store(2) by (simp add: supervisor_for_session_def)
  have worker: "ensure_worker place (xi_provider_id input) (xs_pool s) = (Inr w, xs_pool s)" for place
    using pool by (simp add: ensure_worker_def ensure_lookup_def)
  have evict: "evict_session e session u = (Inr Already_Evicted, snd (send_rpc e (prepare_hibernate v session) (snd (send_rpc e (Ensure_Started v) u))))"
    if "xs_db u = Some d" "xs_pool u = xs_pool s" for u
    using that route by (simp add: evict_session_def evict_on_def started prepare keep)
  have stuck: "fst (evict_wait k e pid w ?params u) = Inl (HotSessionLimit [])
      \<and> sent (snd (evict_wait k e pid w ?params u)) = sent u @ replicate k (turn_auto w ?params)" for k pid u
    by (rule evict_wait_stuck) (use turn in blast)
  have same: "xs_db (snd (evict_wait k e pid w ?params u)) = xs_db u" for k pid u
  proof (induction k arbitrary: u)
    case (Suc k)
    have "map_option (se_store e h) x = x" for h x by (cases x) (simp_all add: keep)
    with Suc show ?case by (simp add: turn)
  qed simp
  show ?thesis
    by (simp add: execute_impl_def worker started run_turn_def turn evict store keep stuck same EVICT_WAIT_MAX_RETRIES_def)
qed

section \<open>What is sent parses back\<close>

definition fits_i64 :: "int \<Rightarrow> bool" where
  "fits_i64 i = (- (2 ^ 63) \<le> i \<and> i < 2 ^ 63)"

lemma as_i64_int [simp]: "fits_i64 i \<Longrightarrow> value_i64 (J_Int i) = Some i"
  by (simp add: fits_i64_def)

lemma map_filter_inverse: "(\<And>x. x \<in> set xs \<Longrightarrow> f (g x) = Some x) \<Longrightarrow> List.map_filter f (map g xs) = xs"
  by (induction xs) (simp_all add: List.map_filter_simps)

lemma parse_key_file_json:
  "fits_i64 (kf_last_seen_at_ms f) \<Longrightarrow> fits_i64 (kf_score f) \<Longrightarrow> parse_key_file (key_file_json f) = Some f"
  by (simp add: parse_key_file_def key_file_json_def get_as_def del: value_i64.simps)

lemma parse_open_question_json:
  "fits_i64 (oq_created_at_ms q) \<Longrightarrow> fits_i64 (oq_last_seen_at_ms q) \<Longrightarrow>
     parse_open_question (open_question_json q) = Some q"
  by (simp add: parse_open_question_def open_question_json_def get_as_def del: value_i64.simps)

text \<open>
  The memory a turn sends to the sidecar, when it comes back as a memory update, parses to the same key files,
  decisions and open questions; it has no state summary.
\<close>

theorem sent_memory_parses_back:
  assumes "\<And>f. f \<in> set (sn_key_files m) \<Longrightarrow> fits_i64 (kf_last_seen_at_ms f) \<and> fits_i64 (kf_score f)"
    and "\<And>q. q \<in> set (sn_open_questions m) \<Longrightarrow> fits_i64 (oq_created_at_ms q) \<and> fits_i64 (oq_last_seen_at_ms q)"
  shows "parse_memory_update (memory_json m) =
     \<lparr>mu_current_state_summary = None, mu_key_files = sn_key_files m, mu_decisions = sn_decisions m,
      mu_open_questions = sn_open_questions m\<rparr>"
proof -
  have "List.map_filter parse_key_file (map key_file_json (sn_key_files m)) = sn_key_files m"
    by (rule map_filter_inverse) (use assms(1) parse_key_file_json in blast)
  moreover have "List.map_filter parse_open_question (map open_question_json (sn_open_questions m)) = sn_open_questions m"
    by (rule map_filter_inverse) (use assms(2) parse_open_question_json in blast)
  moreover have "List.map_filter as_str (map J_String (sn_decisions m)) = sn_decisions m"
    by (rule map_filter_inverse) simp
  ultimately show ?thesis
    by (simp add: parse_memory_update_def memory_json_def get_as_def)
qed

section \<open>Concrete runs\<close>

definition turn_input :: executor_input where
  "turn_input =
     \<lparr>xi_task_id = ''t'', xi_subagent_id = ''s2'', xi_subagent_name = ''n'', xi_cwd = ''/'', xi_profile = ''p'', xi_model = ''m'',
      xi_prompt = ''go'', xi_prompt_artifact_ref = None, xi_timeout_seconds = None, xi_tools = [],
      xi_memory = \<lparr>sn_hot_summary = None, sn_long_summary = None, sn_key_files = [], sn_decisions = [], sn_open_questions = []\<rparr>,
      xi_context = \<lparr>cc_compact_context = [], cc_budget_tokens = 0, cc_source = []\<rparr>,
      xi_write_access = False, xi_provider_id = ''b'', xi_provider_kind = OpenAiCompatible,
      xi_provider_base_url = [], xi_provider_api_key = [], xi_model_reasoning = False,
      xi_model_context_window = 0, xi_model_max_tokens = 0, xi_model_display_name = None\<rparr>"

text \<open>Two workers, the second with the session \<open>sess\<close>; the answers are given by the calls so far.\<close>

definition two_workers :: pool where
  "two_workers = \<lparr>wp_providers = [(''b'', \<lparr>pe_provider_id = ''b'', pe_api_key = [], pe_base_url = []\<rparr>)],
     wp_workers = [(''a'', 0), (''b'', 1)], wp_created = 2\<rparr>"

definition start_state :: exec_state where
  "start_state = \<lparr>xs_pool = two_workers, xs_db = Some session_db, xs_log = []\<rparr>"

definition limit_error :: "json sidecar_error" where
  "limit_error = Application HOT_SESSION_LIMIT_REACHED [] (Some (J_Object [(''candidate'', J_String ''sess'')]))"

definition fixed_env :: "(rpc list \<Rightarrow> rpc \<Rightarrow> json sidecar_error + json) \<Rightarrow> sidecar_env" where
  "fixed_env answer =
     \<lparr>se_harness = ''pi'', se_answer = answer, se_running = (\<lambda>_ _. True), se_pool = (\<lambda>_ p. p), se_store = (\<lambda>_ d. d),
      se_db_error = (\<lambda>_ _. None), se_now = (\<lambda>_ _. 7), se_uuid = (\<lambda>_. ''u''), se_place = (\<lambda>_. 0), se_to_string = (\<lambda>_. [])\<rparr>"

definition limit_once :: sidecar_env where
  "limit_once = fixed_env (\<lambda>h r. if is_turn r \<and> length h \<le> 1 then Inl limit_error else Inr J_Null)"

definition always_full :: sidecar_env where
  "always_full = fixed_env (\<lambda>h r. if is_turn r then Inl limit_error
     else if (case r of Ensure_Started _ \<Rightarrow> True | _ \<Rightarrow> False) then Inr J_Null
     else Inl (Application SESSION_NOT_FOUND [] None))"

definition bad_key :: sidecar_env where
  "bad_key = fixed_env (\<lambda>h r. if is_turn r then Inl (Application AUTH_FAILURE [] None) else Inr J_Null)"

lemma start_calls:
  "xi_provider_id turn_input = ''b''"
  "ensure_worker place ''b'' (xs_pool start_state) = (Inr 1, xs_pool start_state)"
  by (simp_all add: turn_input_def start_state_def two_workers_def ensure_worker_def ensure_lookup_def get_worker_def)

lemma limit_once_simps:
  "se_harness limit_once = ''pi''" "se_pool limit_once h p = p" "se_store limit_once h d = d" "se_db_error limit_once h q = None"
  "se_answer limit_once h r = (if is_turn r \<and> length h \<le> 1 then Inl limit_error else Inr J_Null)"
  by (simp_all add: limit_once_def fixed_env_def)

lemma session_persisted: "\<exists>d. evict_persist limit_once h ''sess'' J_Null session_db = Inr (Evicted, d)"
  by (simp add: evict_persist_def guarded_def limit_once_simps find_hot_binding_by_session_def session_db_def is_hot_def
      commit_eviction_def upsert_binding_def put_bindings_def one_hot_def overwrite_binding_def put_logicals_def
      unique_active_names_def hibernate_summary_def Let_def)

lemma session_closed:
  assumes "xs_db u = Some session_db" "xs_pool u = two_workers"
  shows "\<exists>d. (close_rpc 0 ''sess'', Some d) \<in> set (xs_log (snd (evict_session limit_once ''sess'' u)))"
proof -
  have route: "supervisor_for_session ''pi'' ''sess'' (Some session_db) False two_workers = Inr (Some (''a'', 0))"
    by (simp add: supervisor_for_session_def two_workers_def find_binding_by_session_def session_db_def)
  let ?h = "sent u @ [Ensure_Started 0, prepare_hibernate 0 ''sess'']"
  obtain d where "evict_persist limit_once ?h ''sess'' J_Null session_db = Inr (Evicted, d)"
    using session_persisted by blast
  with assms route show ?thesis
    by (intro exI[of _ d]) (simp add: evict_session_def evict_on_def limit_once_simps turn_free.evict_close_snd)
qed

theorem close_after_commit_witness:
  "\<exists>d. (close_rpc 0 ''sess'', Some d) \<in> set (xs_log (snd (execute_impl limit_once turn_input start_state)))
     \<and> closed_in ''pi'' ''sess'' d"
proof -
  let ?u = "snd (send_rpc limit_once (turn_auto 1 (turn_params turn_input)) (snd (send_rpc limit_once (Ensure_Started 1) start_state)))"
  have classified: "classify_hot_limit_error (error_data limit_error) = Evict ''sess''" "has_code HOT_SESSION_LIMIT_REACHED limit_error"
    by (simp_all add: limit_error_def classify_hot_limit_error_def get_as_def)
  have "xs_db ?u = Some session_db" "xs_pool ?u = two_workers"
    by (simp_all add: limit_once_simps start_state_def)
  from session_closed[OF this] obtain d where
    "(close_rpc 0 ''sess'', Some d) \<in> set (xs_log (snd (evict_session limit_once ''sess'' ?u)))" by blast
  moreover have "snd (execute_impl limit_once turn_input start_state) =
    (case evict_session limit_once ''sess'' ?u of (Inl _, s) \<Rightarrow> s
       | (Inr _, s) \<Rightarrow> snd (evict_wait EVICT_WAIT_MAX_RETRIES limit_once ''b'' 1 (turn_params turn_input) s))"
    by (simp add: start_calls execute_impl_def run_turn_def limit_once_simps classified sent_def[of start_state] start_state_def[THEN arg_cong[of _ _ xs_log]]
        case_prod_unfold split: sum.splits)
  ultimately have d: "(close_rpc 0 ''sess'', Some d) \<in> set (xs_log (snd (execute_impl limit_once turn_input start_state)))"
    using subsetD[OF growing.R_evict_wait[where e = limit_once]] by (simp add: case_prod_unfold split: sum.splits)
  have "closed_in (se_harness limit_once) ''sess'' d"
    by (rule close_after_commit[OF _ d]) (simp add: start_state_def)
  with d show ?thesis by (auto simp: limit_once_simps)
qed

theorem executor_store_ok_witness:
  "\<exists>d. xs_db (snd (execute_impl limit_once turn_input (start_state\<lparr>xs_db := Some sample_store\<rparr>))) = Some d \<and> db_ok d"
proof -
  have "xs_db (snd (execute_impl limit_once turn_input (start_state\<lparr>xs_db := Some sample_store\<rparr>))) \<noteq> None"
    using present.R_execute[where s = "start_state\<lparr>xs_db := Some sample_store\<rparr>" and e = limit_once and input = turn_input] by simp
  then obtain d where d: "xs_db (snd (execute_impl limit_once turn_input (start_state\<lparr>xs_db := Some sample_store\<rparr>))) = Some d"
    by blast
  have "db_ok d"
    by (rule executor_store_ok[OF _ sample_store_ok(1) _ d]) (simp_all add: start_state_def limit_once_def fixed_env_def)
  with d show ?thesis by blast
qed

theorem auth_failure_removes_worker_witness:
  "get_worker ''b'' (xs_pool (snd (execute_impl bad_key turn_input start_state))) = None"
proof -
  have "others_leave bad_key ''b''" by (simp add: others_leave_def bad_key_def fixed_env_def)
  moreover have "auth_only_turns bad_key" by (simp add: auth_only_turns_def bad_key_def fixed_env_def)
  moreover have "reports_auth (fst (execute_impl bad_key turn_input start_state))"
    by (simp add: start_calls execute_impl_def run_turn_def fail_turn_def bad_key_def fixed_env_def protocol_codes)
  ultimately show ?thesis
    using auth_failure_removes_worker[of bad_key turn_input start_state] by (simp add: turn_input_def)
qed

theorem misrouted_eviction_witness:
  "fst (execute_impl always_full turn_input start_state) = Inl (HotSessionLimit [])
   \<and> xs_db (snd (execute_impl always_full turn_input start_state)) = Some session_db"
proof -
  have full: "full_sidecar always_full 1 0 (turn_params turn_input) ''sess''"
    by (auto simp: full_sidecar_def always_full_def fixed_env_def limit_error_def classify_hot_limit_error_def get_as_def
        prepare_hibernate_def turn_auto_def is_turn_def)
  have calm: "undisturbed always_full" by (simp add: undisturbed_def always_full_def fixed_env_def)
  have binding: "find_binding_by_session ''sess'' (se_harness always_full) session_db = Some (hd (bindings session_db))"
    by (simp add: find_binding_by_session_def always_full_def fixed_env_def session_db_def)
  show ?thesis
    using misrouted_eviction[OF calm full _ _ _ _ binding, where s = start_state and pid = "''a''" and ws = "[(''b'', 1)]"]
    by (simp add: start_state_def two_workers_def turn_input_def get_worker_def)
qed

theorem sent_memory_parses_back_witness:
  "mu_decisions (parse_memory_update (memory_json ((xi_memory turn_input)\<lparr>sn_decisions := [''keep'']\<rparr>))) = [''keep'']"
  using sent_memory_parses_back[of "(xi_memory turn_input)\<lparr>sn_decisions := [''keep'']\<rparr>"] by (simp add: turn_input_def)

end
