(* ===== verification/Rpc_Client.thy ===== *)
theory Rpc_Client
  imports Subagent_Error Log_Adapters Step_Machines
begin

text \<open>
  The JSON-RPC client of a sidecar process, \<open>sidecar/client.rs\<close>: calls from many tasks on one pair of
  pipes. A call is cut at its atomic operations; a step relation interleaves the calls, the reader
  task and a shutdown that closes the admission and waits for the admitted calls to settle.
\<close>

section \<open>State\<close>

text \<open>
  Where a call is: before its first check of the flags, between that and the increment of the count, between the
  increment and the second check, admitted, in the map of pending requests, past the check of the
  closed flag, its line written, finished with a result, or dropped by its caller.
\<close>

datatype call_phase =
    Asked | Checked | Counted | Admitted
  | Registered nat | Ready nat | Waiting nat
  | Finished "json sidecar_error + json"
  | Dropped

text \<open>\<open>rq_control\<close> is \<open>allow_closing\<close>; the slot is the one-shot channel of the call.\<close>

record rpc_call =
  rq_control :: bool
  rq_phase :: call_phase
  rq_slot :: "(json sidecar_error + json) option"

datatype reader_phase = Reading | Ended "json sidecar_error" | Stopped

datatype closer_phase = Not_Closing | Storing | Drained

text \<open>
  A call is its index in \<open>rc_calls\<close>. \<open>rc_closing\<close> is the flag as other threads see it; \<open>rc_buffered\<close> says that
  the store of it is still on its way.
\<close>

record client =
  rc_next_id :: nat
  rc_pending :: "(nat \<times> nat) list"
  rc_active :: nat
  rc_closing :: bool
  rc_buffered :: bool
  rc_closed :: bool
  rc_reader :: reader_phase
  rc_closer :: closer_phase
  rc_calls :: "rpc_call list"
  rc_written :: "(nat \<times> nat) list"

definition client_new :: client where
  "client_new = \<lparr>rc_next_id = 1, rc_pending = [], rc_active = 0, rc_closing = False, rc_buffered = False,
     rc_closed = False, rc_reader = Reading, rc_closer = Not_Closing, rc_calls = [], rc_written = []\<rparr>"

fun call_id :: "call_phase \<Rightarrow> nat option" where
  "call_id (Registered n) = Some n"
| "call_id (Ready n) = Some n"
| "call_id (Waiting n) = Some n"
| "call_id _ = None"

text \<open>Between the increment of the count and the drop of the guard.\<close>

fun counted :: "call_phase \<Rightarrow> bool" where
  "counted Counted = True"
| "counted Admitted = True"
| "counted p = (call_id p \<noteq> None)"

fun settled :: "call_phase \<Rightarrow> bool" where
  "settled (Finished _) = True"
| "settled Dropped = True"
| "settled _ = False"

definition phase_of :: "nat \<Rightarrow> client \<Rightarrow> call_phase" where
  "phase_of i r = rq_phase (rc_calls r ! i)"

definition set_phase :: "nat \<Rightarrow> call_phase \<Rightarrow> client \<Rightarrow> client" where
  "set_phase i p r = r\<lparr>rc_calls := (rc_calls r)[i := (rc_calls r ! i)\<lparr>rq_phase := p\<rparr>]\<rparr>"

section \<open>A call\<close>

definition client_closed :: "json sidecar_error" where
  "client_closed = CrashedErr ''sidecar RPC client is closed''"

definition refused :: "bool \<Rightarrow> client \<Rightarrow> bool" where
  "refused control r = ((\<not> control \<and> rc_closing r) \<or> rc_closed r)"

definition remove_pending :: "nat \<Rightarrow> client \<Rightarrow> client" where
  "remove_pending n r = r\<lparr>rc_pending := filter (\<lambda>x. fst x \<noteq> n) (rc_pending r)\<rparr>"

text \<open>The call ends in the given phase; its guards are dropped.\<close>

definition end_call :: "nat \<Rightarrow> call_phase \<Rightarrow> client \<Rightarrow> client" where
  "end_call i p r =
     (let r1 = (case call_id (phase_of i r) of None \<Rightarrow> r | Some n \<Rightarrow> remove_pending n r);
          r2 = (if counted (phase_of i r) then r1\<lparr>rc_active := rc_active r1 - 1\<rparr> else r1)
      in set_phase i p r2)"

definition begin_check :: "nat \<Rightarrow> client \<Rightarrow> client" where
  "begin_check i r =
     (if refused (rq_control (rc_calls r ! i)) r then end_call i (Finished (Inl client_closed)) r
      else set_phase i Checked r)"

definition begin_count :: "nat \<Rightarrow> client \<Rightarrow> client" where
  "begin_count i r = set_phase i Counted (r\<lparr>rc_active := rc_active r + 1\<rparr>)"

definition begin_recheck :: "nat \<Rightarrow> client \<Rightarrow> client" where
  "begin_recheck i r =
     (if refused (rq_control (rc_calls r ! i)) r then end_call i (Finished (Inl client_closed)) r
      else set_phase i Admitted r)"

definition register :: "nat \<Rightarrow> client \<Rightarrow> client" where
  "register i r =
     set_phase i (Registered (rc_next_id r))
       (r\<lparr>rc_next_id := rc_next_id r + 1, rc_pending := (rc_next_id r, i) # rc_pending r\<rparr>)"

definition recheck_closed :: "nat \<Rightarrow> nat \<Rightarrow> client \<Rightarrow> client" where
  "recheck_closed i n r =
     (if rc_closed r then end_call i (Finished (Inl client_closed)) r else set_phase i (Ready n) r)"

definition write_request :: "nat \<Rightarrow> nat \<Rightarrow> string option \<Rightarrow> client \<Rightarrow> client" where
  "write_request i n failure r =
     (case failure of
        Some e \<Rightarrow> end_call i (Finished (Inl (IoErr e))) r
      | None \<Rightarrow> set_phase i (Waiting n) (r\<lparr>rc_written := rc_written r @ [(i, n)]\<rparr>))"

definition receive :: "nat \<Rightarrow> client \<Rightarrow> client" where
  "receive i r = (case rq_slot (rc_calls r ! i) of Some x \<Rightarrow> end_call i (Finished x) r | None \<Rightarrow> r)"

definition time_out :: "nat \<Rightarrow> string \<Rightarrow> client \<Rightarrow> client" where
  "time_out i method r = end_call i (Finished (Inl (TimeoutErr method))) r"

section \<open>The reader\<close>

record rpc_lib =
  pl_parse :: "string \<Rightarrow> json option"
  pl_trim :: "string \<Rightarrow> string"
  pl_error_text :: "json \<Rightarrow> string"

fun id_u64 :: "json \<Rightarrow> nat option" where
  "id_u64 (J_Int i) = (if 0 \<le> i \<and> i < 2 ^ 64 then Some (nat i) else None)"
| "id_u64 _ = None"

text \<open>An optional field of a response: absent and null are the same.\<close>

definition optional_field :: "string \<Rightarrow> json \<Rightarrow> json option" where
  "optional_field k v = (case json_get k v of Some J_Null \<Rightarrow> None | x \<Rightarrow> x)"

definition decode_error :: "json \<Rightarrow> json sidecar_error option" where
  "decode_error v =
     (case (json_get ''code'' v, json_get ''message'' v) of
        (Some (J_Int c), Some (J_String m)) \<Rightarrow>
          if - (2 ^ 31) \<le> c \<and> c < 2 ^ 31 then Some (Application c m (optional_field ''data'' v)) else None
      | _ \<Rightarrow> None)"

text \<open>The response as \<open>SidecarResponse\<close>: version text, identifier, and a well-formed error if there is one.\<close>

definition decode_response :: "rpc_lib \<Rightarrow> json \<Rightarrow> json sidecar_error + json" where
  "decode_response lib v =
     (let bad = Inl (RpcErr (''deserialize: '' @ pl_error_text lib v))
      in case Option.bind (json_get ''jsonrpc'' v) as_str of
           None \<Rightarrow> bad
         | Some _ \<Rightarrow>
             (case optional_field ''error'' v of
                Some e \<Rightarrow> (case decode_error e of Some x \<Rightarrow> Inl x | None \<Rightarrow> bad)
              | None \<Rightarrow> Inr (unwrap_or J_Null (optional_field ''result'' v))))"

definition fill_slot :: "json sidecar_error + json \<Rightarrow> rpc_call \<Rightarrow> rpc_call" where
  "fill_slot x c = c\<lparr>rq_slot := Some x\<rparr>"

definition deliver :: "nat \<Rightarrow> json sidecar_error + json \<Rightarrow> client \<Rightarrow> client" where
  "deliver n x r =
     (case map_of (rc_pending r) n of
        None \<Rightarrow> r
      | Some i \<Rightarrow> remove_pending n (r\<lparr>rc_calls := (rc_calls r)[i := fill_slot x (rc_calls r ! i)]\<rparr>))"

definition dispatch_line :: "rpc_lib \<Rightarrow> string \<Rightarrow> client \<Rightarrow> client" where
  "dispatch_line lib line r =
     (if pl_trim lib line = [] then r
      else case pl_parse lib (pl_trim lib line) of
        None \<Rightarrow> r
      | Some v \<Rightarrow>
          if json_get ''method'' v \<noteq> None \<and> json_get ''id'' v = None then r
          else case Option.bind (json_get ''id'' v) id_u64 of
                 None \<Rightarrow> r
               | Some n \<Rightarrow> deliver n (decode_response lib v) r)"

definition reader_ends :: "json sidecar_error \<Rightarrow> client \<Rightarrow> client" where
  "reader_ends e r = r\<lparr>rc_closed := True, rc_reader := Ended e\<rparr>"

definition fail_pending :: "json sidecar_error \<Rightarrow> client \<Rightarrow> client" where
  "fail_pending e r =
     r\<lparr>rc_calls := map (\<lambda>i. if i \<in> snd ` set (rc_pending r) then fill_slot (Inl e) (rc_calls r ! i) else rc_calls r ! i)
                      [0..<length (rc_calls r)],
       rc_pending := [], rc_reader := Stopped\<rparr>"

section \<open>Shutdown\<close>

text \<open>\<open>close_for_shutdown\<close>: the store of the flag, when it becomes visible, and the load of the count that sees zero.\<close>

definition store_closing :: "client \<Rightarrow> client" where
  "store_closing r = r\<lparr>rc_buffered := True, rc_closer := Storing\<rparr>"

definition flush_closing :: "client \<Rightarrow> client" where
  "flush_closing r = (if rc_buffered r then r\<lparr>rc_closing := True, rc_buffered := False\<rparr> else r)"

definition saw_idle :: "client \<Rightarrow> client" where
  "saw_idle r = r\<lparr>rc_closer := Drained\<rparr>"

definition new_call :: "bool \<Rightarrow> client \<Rightarrow> client" where
  "new_call control r = r\<lparr>rc_calls := rc_calls r @ [\<lparr>rq_control = control, rq_phase = Asked, rq_slot = None\<rparr>]\<rparr>"

text \<open>
  \<open>fence\<close>: whether the store of the flag is visible before the count is loaded, as under sequential
  consistency. The calls of a shutdown begin when the others have settled.
\<close>

inductive client_step :: "bool \<Rightarrow> rpc_lib \<Rightarrow> client \<Rightarrow> client \<Rightarrow> bool" for fence lib where
  cs_new: "control \<longrightarrow> rc_closer r = Drained \<Longrightarrow> client_step fence lib r (new_call control r)"
| cs_check: "i < length (rc_calls r) \<Longrightarrow> phase_of i r = Asked \<Longrightarrow> client_step fence lib r (begin_check i r)"
| cs_count: "i < length (rc_calls r) \<Longrightarrow> phase_of i r = Checked \<Longrightarrow> client_step fence lib r (begin_count i r)"
| cs_recheck: "i < length (rc_calls r) \<Longrightarrow> phase_of i r = Counted \<Longrightarrow> client_step fence lib r (begin_recheck i r)"
| cs_register: "i < length (rc_calls r) \<Longrightarrow> phase_of i r = Admitted \<Longrightarrow> client_step fence lib r (register i r)"
| cs_closed: "i < length (rc_calls r) \<Longrightarrow> phase_of i r = Registered n \<Longrightarrow> client_step fence lib r (recheck_closed i n r)"
| cs_write: "i < length (rc_calls r) \<Longrightarrow> phase_of i r = Ready n \<Longrightarrow> client_step fence lib r (write_request i n failure r)"
| cs_receive: "i < length (rc_calls r) \<Longrightarrow> phase_of i r = Waiting n \<Longrightarrow> client_step fence lib r (receive i r)"
| cs_timeout: "i < length (rc_calls r) \<Longrightarrow> phase_of i r = Waiting n \<Longrightarrow> client_step fence lib r (time_out i method r)"
| cs_drop: "i < length (rc_calls r) \<Longrightarrow> \<not> settled (phase_of i r) \<Longrightarrow> client_step fence lib r (end_call i Dropped r)"
| cs_line: "rc_reader r = Reading \<Longrightarrow> client_step fence lib r (dispatch_line lib line r)"
| cs_eof: "rc_reader r = Reading \<Longrightarrow> client_step fence lib r (reader_ends e r)"
| cs_fail: "rc_reader r = Ended e \<Longrightarrow> client_step fence lib r (fail_pending e r)"
| cs_store: "rc_closer r = Not_Closing \<Longrightarrow> client_step fence lib r (store_closing r)"
| cs_flush: "client_step fence lib r (flush_closing r)"
| cs_idle: "rc_closer r = Storing \<Longrightarrow> fence \<longrightarrow> \<not> rc_buffered r \<Longrightarrow> rc_active r = 0 \<Longrightarrow>
    client_step fence lib r (saw_idle r)"

definition fresh_client :: "client \<Rightarrow> bool" where
  "fresh_client r = (r = client_new)"

section \<open>The count of admitted calls\<close>

lemma count_where_update:
  assumes "i < length xs"
  shows "count_where P (xs[i := y]) + (if P (xs ! i) then 1 else 0) = count_where P xs + (if P y then 1 else 0)"
  using assms
proof (induction xs arbitrary: i)
  case (Cons x xs)
  then show ?case by (cases i) (auto split: if_splits)
qed simp

lemma count_where_cong: "(\<And>i. i < length xs \<Longrightarrow> P (xs ! i) = P (ys ! i)) \<Longrightarrow> length xs = length ys \<Longrightarrow> count_where P xs = count_where P ys"
proof (induction xs arbitrary: ys)
  case (Cons x xs)
  then obtain y zs where ys: "ys = y # zs" by (cases ys) auto
  have "P x = P y" using Cons.prems(1)[of 0] ys by simp
  moreover have "count_where P xs = count_where P zs"
    using Cons.IH[of zs] Cons.prems ys by fastforce
  ultimately show ?case by (simp add: ys)
qed simp

abbreviation is_counted :: "rpc_call \<Rightarrow> bool" where
  "is_counted c \<equiv> counted (rq_phase c)"

definition count_ok :: "client \<Rightarrow> bool" where
  "count_ok r = (rc_active r = count_where is_counted (rc_calls r))"

lemma set_phase_simps [simp]:
  "rc_next_id (set_phase i p r) = rc_next_id r" "rc_pending (set_phase i p r) = rc_pending r"
  "rc_active (set_phase i p r) = rc_active r" "rc_closing (set_phase i p r) = rc_closing r"
  "rc_buffered (set_phase i p r) = rc_buffered r" "rc_closed (set_phase i p r) = rc_closed r"
  "rc_reader (set_phase i p r) = rc_reader r" "rc_closer (set_phase i p r) = rc_closer r"
  "rc_written (set_phase i p r) = rc_written r"
  "rc_calls (set_phase i p r) = (rc_calls r)[i := (rc_calls r ! i)\<lparr>rq_phase := p\<rparr>]"
  by (simp_all add: set_phase_def)

lemma end_call_simps [simp]:
  "rc_next_id (end_call i p r) = rc_next_id r" "rc_closing (end_call i p r) = rc_closing r"
  "rc_buffered (end_call i p r) = rc_buffered r" "rc_closed (end_call i p r) = rc_closed r"
  "rc_reader (end_call i p r) = rc_reader r" "rc_closer (end_call i p r) = rc_closer r"
  "rc_written (end_call i p r) = rc_written r"
  "rc_pending (end_call i p r) = filter (\<lambda>x. call_id (phase_of i r) \<noteq> Some (fst x)) (rc_pending r)"
  "rc_active (end_call i p r) = rc_active r - (if counted (phase_of i r) then 1 else 0)"
  "rc_calls (end_call i p r) = (rc_calls r)[i := (rc_calls r ! i)\<lparr>rq_phase := p\<rparr>]"
  by (auto simp: end_call_def Let_def remove_pending_def split: option.splits intro: filter_cong)

lemma settled_not_counted: "settled p \<Longrightarrow> \<not> counted p \<and> call_id p = None"
  by (cases p) auto

lemma count_ok_set_phase:
  assumes "count_ok r" "i < length (rc_calls r)" "counted (phase_of i r) = counted p"
  shows "count_ok (set_phase i p r)"
  using assms count_where_update[of i "rc_calls r" is_counted "(rc_calls r ! i)\<lparr>rq_phase := p\<rparr>"]
  by (auto simp: count_ok_def phase_of_def split: if_splits)

lemma count_ok_end_call:
  assumes "count_ok r" "i < length (rc_calls r)" "settled p"
  shows "count_ok (end_call i p r)"
  using assms count_where_update[of i "rc_calls r" is_counted "(rc_calls r ! i)\<lparr>rq_phase := p\<rparr>"] settled_not_counted[OF assms(3)]
  by (auto simp: count_ok_def phase_of_def split: if_splits)

lemma count_ok_begin_count:
  assumes "count_ok r" "i < length (rc_calls r)" "phase_of i r = Checked"
  shows "count_ok (begin_count i r)"
  using assms count_where_update[of i "rc_calls r" is_counted "(rc_calls r ! i)\<lparr>rq_phase := Counted\<rparr>"]
  by (auto simp: count_ok_def begin_count_def phase_of_def split: if_splits)

lemma count_ok_calls:
  assumes "count_ok r" "rc_active t = rc_active r" "length (rc_calls t) = length (rc_calls r)"
    "\<And>i. i < length (rc_calls r) \<Longrightarrow> phase_of i t = phase_of i r"
  shows "count_ok t"
proof -
  have "count_where is_counted (rc_calls r) = count_where is_counted (rc_calls t)"
    by (rule count_where_cong) (use assms(3,4) in \<open>simp_all add: phase_of_def\<close>)
  with assms(1,2) show ?thesis by (simp add: count_ok_def)
qed

lemma count_ok_frame: "rc_active t = rc_active r \<Longrightarrow> rc_calls t = rc_calls r \<Longrightarrow> count_ok r \<Longrightarrow> count_ok t"
  by (simp add: count_ok_def)

lemma phase_fill_slot: "rq_phase (xs[j := fill_slot x (xs ! j)] ! i) = rq_phase (xs ! i)"
  by (cases "j < length xs") (simp_all add: nth_list_update fill_slot_def list_update_beyond)

lemma deliver_simps [simp]:
  "rc_next_id (deliver n x r) = rc_next_id r" "rc_active (deliver n x r) = rc_active r"
  "rc_closing (deliver n x r) = rc_closing r" "rc_buffered (deliver n x r) = rc_buffered r"
  "rc_closed (deliver n x r) = rc_closed r" "rc_reader (deliver n x r) = rc_reader r"
  "rc_closer (deliver n x r) = rc_closer r" "rc_written (deliver n x r) = rc_written r"
  "length (rc_calls (deliver n x r)) = length (rc_calls r)" "phase_of i (deliver n x r) = phase_of i r"
  by (simp_all add: deliver_def remove_pending_def phase_of_def phase_fill_slot split: option.splits)

lemma dispatch_line_cases:
  obtains "dispatch_line lib line r = r" | n x where "dispatch_line lib line r = deliver n x r"
proof (cases "Option.bind (pl_parse lib (pl_trim lib line)) (\<lambda>v. Option.bind (json_get ''id'' v) id_u64)")
  case None
  then have "dispatch_line lib line r = r" by (auto simp: dispatch_line_def split: option.splits)
  then show thesis by (rule that(1))
next
  case (Some n)
  then obtain v where v: "pl_parse lib (pl_trim lib line) = Some v" "Option.bind (json_get ''id'' v) id_u64 = Some n"
    by (auto simp: bind_eq_Some_conv)
  then have "dispatch_line lib line r = r \<or> dispatch_line lib line r = deliver n (decode_response lib v) r"
    by (auto simp: dispatch_line_def)
  then show thesis using that by blast
qed

lemma fail_pending_simps [simp]:
  "rc_active (fail_pending e r) = rc_active r" "length (rc_calls (fail_pending e r)) = length (rc_calls r)"
  "i < length (rc_calls r) \<Longrightarrow> phase_of i (fail_pending e r) = phase_of i r"
  "rc_next_id (fail_pending e r) = rc_next_id r" "rc_closing (fail_pending e r) = rc_closing r"
  "rc_buffered (fail_pending e r) = rc_buffered r" "rc_closed (fail_pending e r) = rc_closed r"
  "rc_closer (fail_pending e r) = rc_closer r" "rc_written (fail_pending e r) = rc_written r"
  by (simp_all add: fail_pending_def phase_of_def fill_slot_def)

lemmas call_step_defs = begin_check_def begin_recheck_def register_def recheck_closed_def write_request_def
  receive_def time_out_def new_call_def reader_ends_def store_closing_def flush_closing_def saw_idle_def

lemma count_ok_step: "client_step fence lib r t \<Longrightarrow> count_ok r \<Longrightarrow> count_ok t"
proof (induction rule: client_step.induct)
  case (cs_new control r)
  then show ?case by (simp add: new_call_def count_ok_def)
next
  case (cs_register i r)
  then have "count_ok (r\<lparr>rc_next_id := rc_next_id r + 1, rc_pending := (rc_next_id r, i) # rc_pending r\<rparr>)"
    by (simp add: count_ok_def)
  from count_ok_set_phase[OF this] cs_register show ?case by (simp add: register_def phase_of_def)
next
  case (cs_write i r n failure)
  then have "count_ok (r\<lparr>rc_written := rc_written r @ [(i, n)]\<rparr>)" by (simp add: count_ok_def)
  from count_ok_set_phase[OF this] cs_write show ?case
    by (auto simp: write_request_def phase_of_def intro: count_ok_end_call split: option.splits)
next
  case (cs_line r line)
  then show ?case
    by (cases rule: dispatch_line_cases[of lib line r]) (auto intro: count_ok_calls)
next
  case (cs_fail r e)
  then show ?case by (auto intro: count_ok_calls)
qed (auto simp: call_step_defs count_ok_begin_count count_ok_set_phase count_ok_end_call
   intro: count_ok_frame[of _ r for r] split: option.splits)

section \<open>Requests and their identifiers\<close>

definition slot_of :: "nat \<Rightarrow> client \<Rightarrow> (json sidecar_error + json) option" where
  "slot_of i r = rq_slot (rc_calls r ! i)"

fun unregistered :: "call_phase \<Rightarrow> bool" where
  "unregistered p = (\<not> settled p \<and> call_id p = None)"

definition pending_ok :: "client \<Rightarrow> bool" where
  "pending_ok r = (distinct (map fst (rc_pending r)) \<and>
     (\<forall>(n, i)\<in>set (rc_pending r). i < length (rc_calls r) \<and> call_id (phase_of i r) = Some n \<and> slot_of i r = None))"

definition call_ok :: "client \<Rightarrow> nat \<Rightarrow> bool" where
  "call_ok r i = ((unregistered (phase_of i r) \<longrightarrow> slot_of i r = None) \<and>
     (\<forall>n. call_id (phase_of i r) = Some n \<longrightarrow> n < rc_next_id r \<and> (slot_of i r = None \<longrightarrow> (n, i) \<in> set (rc_pending r))))"

definition has_id :: "client \<Rightarrow> nat \<Rightarrow> nat \<Rightarrow> bool" where
  "has_id r i n = (i < length (rc_calls r) \<and> call_id (phase_of i r) = Some n)"

definition ids_distinct :: "client \<Rightarrow> bool" where
  "ids_distinct r = (\<forall>i j n. has_id r i n \<longrightarrow> has_id r j n \<longrightarrow> i = j)"

definition ids_ok :: "client \<Rightarrow> bool" where
  "ids_ok r = (pending_ok r \<and> (\<forall>i<length (rc_calls r). call_ok r i) \<and> ids_distinct r)"

lemma ids_okI: "pending_ok r \<Longrightarrow> (\<And>i. i < length (rc_calls r) \<Longrightarrow> call_ok r i) \<Longrightarrow> ids_distinct r \<Longrightarrow> ids_ok r"
  by (simp add: ids_ok_def)

lemma phase_of_update:
  "i < length (rc_calls r) \<Longrightarrow> rc_calls t = (rc_calls r)[i := (rc_calls r ! i)\<lparr>rq_phase := p\<rparr>] \<Longrightarrow>
     phase_of j t = (if j = i then p else phase_of j r)"
  "i < length (rc_calls r) \<Longrightarrow> rc_calls t = (rc_calls r)[i := (rc_calls r ! i)\<lparr>rq_phase := p\<rparr>] \<Longrightarrow>
     slot_of j t = slot_of j r"
  by (auto simp: phase_of_def slot_of_def nth_list_update)

lemma ids_ok_phase:
  assumes ok: "ids_ok r" and i: "i < length (rc_calls r)"
    and t: "rc_calls t = (rc_calls r)[i := (rc_calls r ! i)\<lparr>rq_phase := p\<rparr>]" "rc_next_id t = rc_next_id r" "rc_pending t = rc_pending r"
    and p: "call_id p = call_id (phase_of i r)" "unregistered p \<longrightarrow> unregistered (phase_of i r)"
  shows "ids_ok t"
proof -
  note u = phase_of_update[OF i t(1)]
  have len: "length (rc_calls t) = length (rc_calls r)" using t(1) by simp
  have id: "call_id (phase_of j t) = call_id (phase_of j r)" for j by (simp add: u p(1))
  show ?thesis
  proof (rule ids_okI)
    show "pending_ok t" using ok by (auto simp: ids_ok_def pending_ok_def id len u(2) t(3))
    have "has_id t = has_id r" by (simp add: fun_eq_iff has_id_def id len)
    then show "ids_distinct t" using ok by (simp add: ids_ok_def ids_distinct_def)
    show "call_ok t j" if "j < length (rc_calls t)" for j
    proof -
      have "unregistered (phase_of j t) \<Longrightarrow> unregistered (phase_of j r)" using p(2) by (simp add: u(1) split: if_splits)
      moreover have "call_ok r j" using ok that by (simp add: ids_ok_def len)
      ultimately show ?thesis by (simp add: call_ok_def id u(2) t)
    qed
  qed
qed

lemma ids_ok_end:
  assumes ok: "ids_ok r" and i: "i < length (rc_calls r)" and p: "settled p"
  shows "ids_ok (end_call i p r)"
proof -
  let ?t = "end_call i p r"
  have t: "rc_calls ?t = (rc_calls r)[i := (rc_calls r ! i)\<lparr>rq_phase := p\<rparr>]" by simp
  note u = phase_of_update[OF i t]
  have none: "call_id p = None" using settled_not_counted[OF p] by blast
  show ?thesis
  proof (rule ids_okI)
    have "has_id ?t j n \<Longrightarrow> has_id r j n" for j n using none by (auto simp: has_id_def u split: if_splits)
    then show "ids_distinct ?t" using ok unfolding ids_ok_def ids_distinct_def by blast
    show "pending_ok ?t"
      using ok by (auto simp: ids_ok_def pending_ok_def u none distinct_map_filter)
    show "call_ok ?t j" if j: "j < length (rc_calls ?t)" for j
    proof (cases "j = i")
      case True
      with none p show ?thesis by (simp add: call_ok_def u)
    next
      case False
      have "call_id (phase_of i r) \<noteq> Some n" if "call_id (phase_of j r) = Some n" for n
        using ok False i j that by (auto simp: ids_ok_def ids_distinct_def has_id_def)
      with False ok j show ?thesis by (auto simp: ids_ok_def call_ok_def u)
    qed
  qed
qed

lemma ids_ok_register:
  assumes ok: "ids_ok r" and i: "i < length (rc_calls r)" "phase_of i r = Admitted"
  shows "ids_ok (register i r)"
proof -
  let ?t = "register i r" and ?n = "rc_next_id r"
  have t: "rc_calls ?t = (rc_calls r)[i := (rc_calls r ! i)\<lparr>rq_phase := Registered ?n\<rparr>]"
    "rc_pending ?t = (?n, i) # rc_pending r" "rc_next_id ?t = ?n + 1"
    by (simp_all add: register_def)
  note u = phase_of_update[OF i(1) t(1)]
  have less: "n < ?n" if "j < length (rc_calls r)" "call_id (phase_of j r) = Some n" for j n
    using ok that by (simp add: ids_ok_def call_ok_def)
  show ?thesis
  proof (rule ids_okI)
    have "has_id ?t j n \<longleftrightarrow> (if j = i then n = ?n else has_id r j n)" for j n
      using i by (auto simp: has_id_def u t)
    moreover have "\<not> has_id r j ?n" for j using less by (auto simp: has_id_def)
    ultimately show "ids_distinct ?t" using ok unfolding ids_ok_def ids_distinct_def by metis
    have "?n \<notin> fst ` set (rc_pending r)" using ok less by (fastforce simp: ids_ok_def pending_ok_def)
    moreover have "slot_of i r = None" using ok i by (simp add: ids_ok_def call_ok_def)
    ultimately show "pending_ok ?t"
      using ok i less by (auto simp: ids_ok_def pending_ok_def u t)
    show "call_ok ?t j" if "j < length (rc_calls ?t)" for j
      using ok that less by (auto simp: ids_ok_def call_ok_def u t less_Suc_eq)
  qed
qed

lemma ids_ok_new:
  assumes ok: "ids_ok r"
  shows "ids_ok (new_call c r)"
proof (rule ids_okI)
  let ?t = "new_call c r"
  have u: "phase_of j ?t = (if j < length (rc_calls r) then phase_of j r else Asked)"
    "slot_of j ?t = (if j < length (rc_calls r) then slot_of j r else None)" if "j < length (rc_calls ?t)" for j
    using that by (auto simp: new_call_def phase_of_def slot_of_def nth_append less_Suc_eq)
  have t: "length (rc_calls ?t) = length (rc_calls r) + 1" "rc_pending ?t = rc_pending r" "rc_next_id ?t = rc_next_id r"
    by (simp_all add: new_call_def)
  show "pending_ok ?t" using ok by (fastforce simp: ids_ok_def pending_ok_def t u)
  show "call_ok ?t i" if "i < length (rc_calls ?t)" for i
    using ok that by (auto simp: ids_ok_def call_ok_def u t)
  have "has_id ?t j n \<Longrightarrow> has_id r j n" for j n by (auto simp: has_id_def u split: if_splits)
  then show "ids_distinct ?t" using ok unfolding ids_ok_def ids_distinct_def by blast
qed

lemma ids_ok_frame:
  assumes "ids_ok r" "rc_calls t = rc_calls r" "rc_pending t = rc_pending r" "rc_next_id t = rc_next_id r"
  shows "ids_ok t"
proof -
  have "phase_of i t = phase_of i r" "slot_of i t = slot_of i r" for i
    using assms(2) by (simp_all add: phase_of_def slot_of_def)
  moreover from this have "has_id t = has_id r" using assms(2) by (simp add: fun_eq_iff has_id_def)
  ultimately show ?thesis using assms by (simp add: ids_ok_def pending_ok_def call_ok_def ids_distinct_def)
qed

text \<open>A response reaches the call that waits for it and no other.\<close>

lemma pending_unique:
  "ids_ok r \<Longrightarrow> (n, i) \<in> set (rc_pending r) \<Longrightarrow> map_of (rc_pending r) n = Some i"
  by (simp add: ids_ok_def pending_ok_def)

lemma deliver_slot:
  assumes "ids_ok r" "j < length (rc_calls r)"
  shows "slot_of j (deliver n x r) = (if (n, j) \<in> set (rc_pending r) then Some x else slot_of j r)"
proof (cases "map_of (rc_pending r) n")
  case None
  then have "(n, j) \<notin> set (rc_pending r)" by (force simp: map_of_eq_None_iff)
  with None show ?thesis by (simp add: deliver_def)
next
  case (Some i)
  then have "(n, i) \<in> set (rc_pending r)" by (rule map_of_SomeD)
  moreover have "(n, j) \<in> set (rc_pending r) \<Longrightarrow> j = i" using pending_unique[OF assms(1)] Some by fastforce
  ultimately show ?thesis
    using Some assms(2) by (cases "j = i") (auto simp: deliver_def remove_pending_def slot_of_def fill_slot_def)
qed

lemma deliver_pending: "ids_ok r \<Longrightarrow> set (rc_pending (deliver n x r)) = {y \<in> set (rc_pending r). fst y \<noteq> n}"
  by (auto simp: deliver_def remove_pending_def dest: pending_unique split: option.splits)

lemma ids_ok_deliver:
  assumes ok: "ids_ok r"
  shows "ids_ok (deliver n x r)"
proof (rule ids_okI)
  let ?t = "deliver n x r"
  have has: "has_id ?t = has_id r" by (simp add: fun_eq_iff has_id_def)
  show "ids_distinct ?t" using ok by (simp add: ids_ok_def ids_distinct_def has)
  have dist: "distinct (map fst (rc_pending ?t))"
    using ok by (auto simp: deliver_def remove_pending_def ids_ok_def pending_ok_def distinct_map_filter split: option.splits)
  have "b < length (rc_calls r) \<and> call_id (phase_of b r) = Some a \<and> slot_of b ?t = None"
    if "(a, b) \<in> set (rc_pending ?t)" for a b
  proof -
    have ab: "(a, b) \<in> set (rc_pending r)" "a \<noteq> n" using that by (auto simp: deliver_pending[OF ok])
    with ok have b: "b < length (rc_calls r)" "call_id (phase_of b r) = Some a" "slot_of b r = None"
      by (auto simp: ids_ok_def pending_ok_def)
    have "(n, b) \<notin> set (rc_pending r)" using ok ab(2) b(2) by (auto simp: ids_ok_def pending_ok_def)
    with b show ?thesis by (simp add: deliver_slot[OF ok])
  qed
  with dist show "pending_ok ?t" by (auto simp: pending_ok_def)
  show "call_ok ?t i" if "i < length (rc_calls ?t)" for i
    using ok that by (auto simp: call_ok_def deliver_pending[OF ok] deliver_slot[OF ok] ids_ok_def pending_ok_def)
qed

lemma fail_pending_slot:
  "j < length (rc_calls r) \<Longrightarrow>
     slot_of j (fail_pending e r) = (if j \<in> snd ` set (rc_pending r) then Some (Inl e) else slot_of j r)"
  by (simp add: fail_pending_def slot_of_def fill_slot_def)

lemma ids_ok_fail:
  assumes ok: "ids_ok r"
  shows "ids_ok (fail_pending e r)"
proof (rule ids_okI)
  let ?t = "fail_pending e r"
  have "has_id ?t = has_id r" by (auto simp: fun_eq_iff has_id_def)
  then show "ids_distinct ?t" using ok by (simp add: ids_ok_def ids_distinct_def)
  show "pending_ok ?t" by (simp add: pending_ok_def fail_pending_def)
  show "call_ok ?t i" if "i < length (rc_calls ?t)" for i
    using ok that by (force simp: call_ok_def fail_pending_slot ids_ok_def pending_ok_def)
qed

lemma ids_ok_step: "client_step fence lib r t \<Longrightarrow> ids_ok r \<Longrightarrow> ids_ok t"
proof (induction rule: client_step.induct)
  case (cs_new control r)
  then show ?case by (simp add: ids_ok_new)
next
  case (cs_check i r)
  then have "ids_ok (set_phase i Checked r)" by (simp add: ids_ok_phase[of r i _ Checked])
  with cs_check show ?case by (simp add: begin_check_def ids_ok_end)
next
  case (cs_count i r)
  then show ?case by (simp add: ids_ok_phase[of r i _ Counted] begin_count_def)
next
  case (cs_recheck i r)
  then have "ids_ok (set_phase i Admitted r)" by (simp add: ids_ok_phase[of r i _ Admitted])
  with cs_recheck show ?case by (simp add: begin_recheck_def ids_ok_end)
next
  case (cs_closed i r n)
  then have "ids_ok (set_phase i (Ready n) r)" by (simp add: ids_ok_phase[of r i _ "Ready n"])
  with cs_closed show ?case by (simp add: recheck_closed_def ids_ok_end)
next
  case (cs_write i r n failure)
  then have "ids_ok (write_request i n None r)"
    by (simp add: ids_ok_phase[of r i _ "Waiting n"] write_request_def)
  with cs_write show ?case by (cases failure) (simp_all add: write_request_def ids_ok_end)
next
  case (cs_line r line)
  then show ?case by (cases rule: dispatch_line_cases[of lib line r]) (simp_all add: ids_ok_deliver)
next
  case (cs_receive i r n)
  then show ?case by (simp add: receive_def ids_ok_end split: option.splits)
next
  case (cs_fail r e)
  then show ?case by (simp add: ids_ok_fail)
next
  case (cs_register i r)
  then show ?case by (simp add: ids_ok_register)
next
  case (cs_eof r e)
  then show ?case by (simp add: reader_ends_def ids_ok_frame[of r])
next
  case (cs_store r)
  then show ?case by (simp add: store_closing_def ids_ok_frame[of r])
next
  case (cs_flush r)
  then show ?case by (simp add: flush_closing_def ids_ok_frame[of r])
next
  case (cs_idle r)
  then show ?case by (simp add: saw_idle_def ids_ok_frame[of r])
qed (simp_all add: time_out_def ids_ok_end)

section \<open>After the end of the reader\<close>

fun is_ready :: "call_phase \<Rightarrow> bool" where
  "is_ready (Ready _) = True"
| "is_ready (Waiting _) = True"
| "is_ready _ = False"

lemma is_ready_id: "is_ready p \<Longrightarrow> \<exists>n. call_id p = Some n"
  by (cases p) auto

lemma settled_not_ready: "settled p \<Longrightarrow> \<not> is_ready p"
  by (cases p) auto

definition answered :: "client \<Rightarrow> bool" where
  "answered r = (\<forall>i<length (rc_calls r). is_ready (phase_of i r) \<longrightarrow> slot_of i r \<noteq> None)"

definition stop_ok :: "client \<Rightarrow> bool" where
  "stop_ok r = ((rc_reader r = Reading \<longleftrightarrow> \<not> rc_closed r) \<and> (rc_reader r = Stopped \<longrightarrow> answered r))"

lemma answered_phase:
  assumes "answered r" "i < length (rc_calls r)" "rc_calls t = (rc_calls r)[i := (rc_calls r ! i)\<lparr>rq_phase := p\<rparr>]"
    "is_ready p \<longrightarrow> is_ready (phase_of i r)"
  shows "answered t"
  using assms phase_of_update[OF assms(2,3)] by (auto simp: answered_def)

lemma stop_ok_phase:
  assumes "stop_ok r" "i < length (rc_calls r)" "rc_calls t = (rc_calls r)[i := (rc_calls r ! i)\<lparr>rq_phase := p\<rparr>]"
    "is_ready p \<longrightarrow> is_ready (phase_of i r)" "rc_reader t = rc_reader r" "rc_closed t = rc_closed r"
  shows "stop_ok t"
  using assms answered_phase[OF _ assms(2-4)] by (auto simp: stop_ok_def)

lemma stop_ok_end: "stop_ok r \<Longrightarrow> i < length (rc_calls r) \<Longrightarrow> settled p \<Longrightarrow> stop_ok (end_call i p r)"
  by (rule stop_ok_phase) (auto dest: settled_not_ready)

lemma stop_ok_frame:
  "stop_ok r \<Longrightarrow> rc_calls t = rc_calls r \<Longrightarrow> rc_reader t = rc_reader r \<Longrightarrow> rc_closed t = rc_closed r \<Longrightarrow> stop_ok t"
  by (simp add: stop_ok_def answered_def phase_of_def slot_of_def)

lemma answered_fail:
  assumes "ids_ok r"
  shows "answered (fail_pending e r)"
proof -
  have "i \<in> snd ` set (rc_pending r)" if "i < length (rc_calls r)" "is_ready (phase_of i r)" "slot_of i r = None" for i
    using assms that is_ready_id[OF that(2)] by (force simp: ids_ok_def call_ok_def)
  then show ?thesis by (auto simp: answered_def fail_pending_slot)
qed

lemma stop_ok_step: "client_step fence lib r t \<Longrightarrow> ids_ok r \<Longrightarrow> stop_ok r \<Longrightarrow> stop_ok t"
proof (induction rule: client_step.induct)
  case (cs_new control r)
  then show ?case
    by (auto simp: new_call_def stop_ok_def answered_def phase_of_def slot_of_def nth_append less_Suc_eq)
next
  case (cs_check i r)
  then show ?case by (simp add: begin_check_def stop_ok_end stop_ok_phase[of r i _ Checked])
next
  case (cs_count i r)
  then show ?case by (simp add: begin_count_def stop_ok_phase[of r i _ Counted])
next
  case (cs_recheck i r)
  then show ?case by (simp add: begin_recheck_def stop_ok_end stop_ok_phase[of r i _ Admitted])
next
  case (cs_register i r)
  then show ?case by (simp add: register_def stop_ok_phase[of r i _ "Registered (rc_next_id r)"])
next
  case (cs_closed i r n)
  then show ?case
    by (auto simp: recheck_closed_def stop_ok_end) (auto simp: stop_ok_def)
next
  case (cs_write i r n failure)
  then show ?case
    by (cases failure) (simp_all add: write_request_def stop_ok_end stop_ok_phase[of r i _ "Waiting n"])
next
  case (cs_line r line)
  then have "stop_ok (deliver n x r)" for n x by (auto simp: stop_ok_def)
  with cs_line show ?case by (cases rule: dispatch_line_cases[of lib line r]) simp_all
next
  case (cs_receive i r n)
  then show ?case by (simp add: receive_def stop_ok_end split: option.splits)
next
  case (cs_fail r e)
  then show ?case using answered_fail[of r e] by (auto simp: stop_ok_def fail_pending_def)
next
  case (cs_eof r e)
  then show ?case by (simp add: reader_ends_def stop_ok_def)
next
  case (cs_store r)
  then show ?case by (simp add: store_closing_def stop_ok_frame[of r])
next
  case (cs_flush r)
  then show ?case by (simp add: flush_closing_def stop_ok_frame[of r])
next
  case (cs_idle r)
  then show ?case by (simp add: saw_idle_def stop_ok_frame[of r])
qed (simp_all add: time_out_def stop_ok_end)

section \<open>After the drain\<close>

fun admitted :: "call_phase \<Rightarrow> bool" where
  "admitted Admitted = True"
| "admitted p = (call_id p \<noteq> None)"

lemma admitted_counted: "admitted p \<Longrightarrow> counted p"
  by (cases p) auto

lemma settled_not_admitted: "settled p \<Longrightarrow> \<not> admitted p"
  by (cases p) auto

definition control_of :: "nat \<Rightarrow> client \<Rightarrow> bool" where
  "control_of i r = rq_control (rc_calls r ! i)"

definition only_control :: "client \<Rightarrow> bool" where
  "only_control r = (\<forall>i<length (rc_calls r). admitted (phase_of i r) \<longrightarrow> control_of i r)"

definition drain_ok :: "client \<Rightarrow> bool" where
  "drain_ok r = ((rc_closer r \<noteq> Not_Closing \<longrightarrow> rc_buffered r \<or> rc_closing r)
     \<and> (rc_closer r = Drained \<longrightarrow> rc_closing r \<and> only_control r))"

lemma control_of_update:
  "i < length (rc_calls r) \<Longrightarrow> rc_calls t = (rc_calls r)[i := (rc_calls r ! i)\<lparr>rq_phase := p\<rparr>] \<Longrightarrow> control_of j t = control_of j r"
  by (auto simp: control_of_def nth_list_update)

lemma drain_ok_phase:
  assumes "drain_ok r" "i < length (rc_calls r)" "rc_calls t = (rc_calls r)[i := (rc_calls r ! i)\<lparr>rq_phase := p\<rparr>]"
    "admitted p \<longrightarrow> admitted (phase_of i r) \<or> control_of i r \<or> \<not> rc_closing r"
    "rc_closer t = rc_closer r" "rc_buffered t = rc_buffered r" "rc_closing t = rc_closing r"
  shows "drain_ok t"
proof -
  have "only_control t" if "only_control r" "rc_closing r"
    using that assms(2,4) phase_of_update[OF assms(2,3)] control_of_update[OF assms(2,3)] assms(3)
    by (auto simp: only_control_def split: if_splits)
  with assms show ?thesis by (auto simp: drain_ok_def)
qed

lemma drain_ok_end: "drain_ok r \<Longrightarrow> i < length (rc_calls r) \<Longrightarrow> settled p \<Longrightarrow> drain_ok (end_call i p r)"
  by (rule drain_ok_phase) (auto dest: settled_not_admitted)

lemma control_of_fill: "rq_control (xs[j := fill_slot x (xs ! j)] ! i) = rq_control (xs ! i)"
  by (cases "j < length xs") (simp_all add: nth_list_update fill_slot_def list_update_beyond)

lemma control_of_deliver [simp]: "control_of i (deliver n x r) = control_of i r"
  by (simp add: deliver_def remove_pending_def control_of_def control_of_fill split: option.splits)

lemma control_of_fail [simp]: "i < length (rc_calls r) \<Longrightarrow> control_of i (fail_pending e r) = control_of i r"
  by (simp add: fail_pending_def control_of_def fill_slot_def)

lemma only_control_idle:
  assumes "count_ok r" "rc_active r = 0"
  shows "only_control r"
proof -
  have "\<not> counted (phase_of i r)" if "i < length (rc_calls r)" for i
    using assms that by (auto simp: count_ok_def count_where_zero phase_of_def)
  then show ?thesis using admitted_counted by (auto simp: only_control_def)
qed

lemma drain_ok_step: "client_step fence lib r t \<Longrightarrow> fence \<Longrightarrow> count_ok r \<Longrightarrow> drain_ok r \<Longrightarrow> drain_ok t"
proof (induction rule: client_step.induct)
  case (cs_new control r)
  then show ?case
    by (auto simp: new_call_def drain_ok_def only_control_def phase_of_def control_of_def nth_append less_Suc_eq)
next
  case (cs_check i r)
  then show ?case by (simp add: begin_check_def drain_ok_end drain_ok_phase[of r i _ Checked])
next
  case (cs_count i r)
  then show ?case by (simp add: begin_count_def drain_ok_phase[of r i _ Counted])
next
  case (cs_recheck i r)
  then show ?case
    by (auto simp: begin_recheck_def refused_def control_of_def drain_ok_end intro: drain_ok_phase[of r i _ Admitted])
next
  case (cs_register i r)
  then show ?case by (simp add: register_def drain_ok_phase[of r i _ "Registered (rc_next_id r)"])
next
  case (cs_closed i r n)
  then show ?case by (simp add: recheck_closed_def drain_ok_end drain_ok_phase[of r i _ "Ready n"])
next
  case (cs_write i r n failure)
  then show ?case
    by (cases failure) (simp_all add: write_request_def drain_ok_end drain_ok_phase[of r i _ "Waiting n"])
next
  case (cs_line r line)
  then have "drain_ok (deliver n x r)" for n x by (auto simp: drain_ok_def only_control_def)
  with cs_line show ?case by (cases rule: dispatch_line_cases[of lib line r]) simp_all
next
  case (cs_receive i r n)
  then show ?case by (simp add: receive_def drain_ok_end split: option.splits)
next
  case (cs_fail r e)
  then show ?case by (auto simp: drain_ok_def only_control_def)
next
  case (cs_idle r)
  then show ?case using only_control_idle[of r]
    by (auto simp: saw_idle_def drain_ok_def only_control_def phase_of_def control_of_def)
next
  case (cs_eof r e)
  then show ?case by (simp add: reader_ends_def drain_ok_def only_control_def phase_of_def control_of_def)
next
  case (cs_store r)
  then show ?case by (simp add: store_closing_def drain_ok_def)
next
  case (cs_flush r)
  then show ?case by (auto simp: flush_closing_def drain_ok_def only_control_def phase_of_def control_of_def)
qed (simp_all add: time_out_def drain_ok_end)

section \<open>Properties of the client\<close>

definition client_ok :: "bool \<Rightarrow> client \<Rightarrow> bool" where
  "client_ok fence r = (count_ok r \<and> ids_ok r \<and> stop_ok r \<and> (fence \<longrightarrow> drain_ok r))"

lemma client_ok_new: "client_ok fence client_new"
  by (simp add: client_ok_def client_new_def count_ok_def ids_ok_def pending_ok_def ids_distinct_def has_id_def
      stop_ok_def drain_ok_def)

interpretation client: invariant_machine fresh_client "client_step fence lib" "client_ok fence" for fence lib
proof
  fix r t
  show "client_ok fence r" if "fresh_client r" using that by (simp add: fresh_client_def client_ok_new)
  show "client_ok fence t" if "client_ok fence r" "client_step fence lib r t"
    using that count_ok_step ids_ok_step stop_ok_step drain_ok_step unfolding client_ok_def by blast
qed

lemmas client_reachable = client.reachable_inv [unfolded client_ok_def]

text \<open>A call from its first check to its line, when nothing refuses it.\<close>

definition sending_call :: "nat \<Rightarrow> nat \<Rightarrow> client \<Rightarrow> client" where
  "sending_call i n r =
     write_request i n None (recheck_closed i n (register i (begin_recheck i (begin_count i r))))"

lemmas run_defs = client_new_def new_call_def begin_check_def refused_def set_phase_def store_closing_def flush_closing_def
  saw_idle_def begin_count_def begin_recheck_def register_def recheck_closed_def write_request_def phase_of_def control_of_def

lemma first_call: "reach fresh_client (client_step fence lib) (new_call False client_new)"
proof (rule reach_step)
  show "reach fresh_client (client_step fence lib) client_new" by (rule reach_init) (simp add: fresh_client_def)
qed (simp add: cs_new)

lemma sending_run:
  assumes "reach fresh_client (client_step fence lib) r" "i < length (rc_calls r)" "phase_of i r = Checked"
    "\<not> rc_closing r" "\<not> rc_closed r"
  shows "reach fresh_client (client_step fence lib) (sending_call i (rc_next_id r) r)"
proof -
  let ?R = "reach fresh_client (client_step fence lib)"
  have "?R (begin_count i r)" by (rule reach_step [OF assms(1)]) (rule cs_count; fact)
  then have "?R (begin_recheck i (begin_count i r))"
    by (rule reach_step) (rule cs_recheck; use assms in \<open>simp add: run_defs\<close>)
  then have "?R (register i (begin_recheck i (begin_count i r)))"
    by (rule reach_step) (rule cs_register; use assms in \<open>simp add: run_defs\<close>)
  then have "?R (recheck_closed i (rc_next_id r) (register i (begin_recheck i (begin_count i r))))"
    by (rule reach_step) (rule cs_closed; use assms in \<open>simp add: run_defs\<close>)
  then show ?thesis unfolding sending_call_def
    by (rule reach_step) (rule cs_write; use assms in \<open>simp add: run_defs\<close>)
qed

text \<open>
  C14. When a shutdown has seen no active call, under sequential consistency, no ordinary call is admitted any
  more: every entry of the pending map belongs to a call of the shutdown itself, and only such calls still
  write a line to the sidecar.
\<close>

theorem shutdown_after_drain:
  assumes "reach fresh_client (client_step True lib) r" "rc_closer r = Drained"
  shows "list_all (\<lambda>(n, i). control_of i r) (rc_pending r)
     \<and> (client_step True lib r t \<longrightarrow> rc_written t = rc_written r \<or> (\<exists>i n. rc_written t = rc_written r @ [(i, n)] \<and> control_of i r))"
proof -
  have ids: "ids_ok r" and only: "only_control r"
    using client_reachable[OF assms(1)] assms(2) by (auto simp: drain_ok_def)
  have adm: "call_id (phase_of i r) \<noteq> None \<Longrightarrow> admitted (phase_of i r)" for i by (cases "phase_of i r") auto
  have "list_all (\<lambda>(n, i). control_of i r) (rc_pending r)"
    using ids only adm by (fastforce simp: ids_ok_def pending_ok_def only_control_def list_all_iff)
  moreover have "rc_written t = rc_written r \<or> (\<exists>i n. rc_written t = rc_written r @ [(i, n)] \<and> control_of i r)"
    if "client_step True lib r t"
    using that
  proof cases
    case (cs_write i n failure)
    then have "control_of i r" using only adm[of i] by (simp add: only_control_def)
    with cs_write show ?thesis by (auto simp: write_request_def split: option.splits)
  next
    case (cs_line line)
    then show ?thesis by (cases rule: dispatch_line_cases[of lib line r]) simp_all
  qed (auto simp: new_call_def begin_check_def begin_count_def begin_recheck_def register_def recheck_closed_def
      receive_def time_out_def reader_ends_def store_closing_def flush_closing_def saw_idle_def split: option.splits)
  ultimately show ?thesis by blast
qed

text \<open>
  C38. The flag is stored with release and the count loaded with acquire, which lets the load overtake the store. Then a
  shutdown can see no active call while an ordinary one is admitted: its line is written to the sidecar
  after the drain.
\<close>

theorem drain_needs_fence:
  "\<exists>r. reach fresh_client (client_step False lib) r \<and> rc_closer r = Drained
     \<and> rc_written r = [(0, 1)] \<and> \<not> control_of 0 r \<and> phase_of 0 r = Waiting 1"
proof -
  let ?b = "saw_idle (store_closing (begin_check 0 (new_call False client_new)))"
  have "reach fresh_client (client_step False lib) (begin_check 0 (new_call False client_new))"
    by (rule reach_step [OF first_call]) (rule cs_check; simp add: run_defs)
  then have "reach fresh_client (client_step False lib) (store_closing (begin_check 0 (new_call False client_new)))"
    by (rule reach_step) (rule cs_store; simp add: run_defs)
  then have "reach fresh_client (client_step False lib) ?b"
    by (rule reach_step) (rule cs_idle; simp add: run_defs)
  from sending_run[OF this] have "reach fresh_client (client_step False lib) (sending_call 0 1 ?b)"
    by (simp add: run_defs)
  moreover have "rc_closer (sending_call 0 1 ?b) = Drained \<and> rc_written (sending_call 0 1 ?b) = [(0, 1)]
      \<and> \<not> control_of 0 (sending_call 0 1 ?b) \<and> phase_of 0 (sending_call 0 1 ?b) = Waiting 1"
    by (simp add: sending_call_def run_defs)
  ultimately show ?thesis by blast
qed

text \<open>
  C15. When the sidecar closes its output no caller is left behind: once the reader has stopped, every call that waits
  for an answer has one, so that it ends without running into its time limit.
\<close>

theorem no_stranded_call:
  assumes "reach fresh_client (client_step fence lib) r" "rc_reader r = Stopped"
    and "i < length (rc_calls r)" "phase_of i r = Waiting n"
  shows "\<exists>x. slot_of i r = Some x \<and> phase_of i (receive i r) = Finished x"
proof -
  have "answered r" using client_reachable[OF assms(1)] assms(2) by (simp add: stop_ok_def)
  with assms(3,4) obtain x where "slot_of i r = Some x" by (auto simp: answered_def)
  with assms(3) show ?thesis by (simp add: receive_def slot_of_def phase_of_def)
qed

text \<open>
  C40. A line of the sidecar answers at most the one call whose request carried its identifier, and only while that call has
  no answer yet; every other call is untouched.
\<close>

theorem response_to_its_call:
  assumes "reach fresh_client (client_step fence lib) r" "j < length (rc_calls r)"
    and "slot_of j (dispatch_line lib line r) \<noteq> slot_of j r"
  shows "slot_of j r = None
     \<and> (\<exists>v n. pl_parse lib (pl_trim lib line) = Some v \<and> Option.bind (json_get ''id'' v) id_u64 = Some n
          \<and> call_id (phase_of j r) = Some n \<and> slot_of j (dispatch_line lib line r) = Some (decode_response lib v))"
proof -
  have ids: "ids_ok r" using client_reachable[OF assms(1)] by blast
  obtain v n where v: "pl_parse lib (pl_trim lib line) = Some v" "Option.bind (json_get ''id'' v) id_u64 = Some n"
    and d: "dispatch_line lib line r = deliver n (decode_response lib v) r"
    using assms(3) by (auto simp: dispatch_line_def split: if_splits option.splits)
  with assms(2,3) have "(n, j) \<in> set (rc_pending r)" by (auto simp: deliver_slot[OF ids] split: if_splits)
  with ids v d assms(2) show ?thesis by (auto simp: ids_ok_def pending_ok_def deliver_slot[OF ids])
qed

section \<open>Concrete runs\<close>

definition plain_lib :: rpc_lib where
  "plain_lib = \<lparr>pl_parse = (\<lambda>_. Some (J_Object [(''jsonrpc'', J_String ''2.0''), (''id'', J_Int 1), (''result'', J_Bool True)])),
     pl_trim = (\<lambda>s. s), pl_error_text = (\<lambda>_. [])\<rparr>"

definition waiting_client :: client where
  "waiting_client = sending_call 0 1 (begin_check 0 (new_call False client_new))"

lemma waiting_reachable: "reach fresh_client (client_step fence lib) waiting_client"
proof -
  have "reach fresh_client (client_step fence lib) (begin_check 0 (new_call False client_new))"
    by (rule reach_step [OF first_call]) (rule cs_check; simp add: run_defs)
  from sending_run[OF this] show ?thesis by (simp add: waiting_client_def run_defs)
qed

lemma waiting_state:
  "rc_calls waiting_client = [\<lparr>rq_control = False, rq_phase = Waiting 1, rq_slot = None\<rparr>]"
  "rc_pending waiting_client = [(1, 0)]" "rc_reader waiting_client = Reading"
  by (simp_all add: waiting_client_def sending_call_def run_defs)

theorem shutdown_after_drain_witness:
  "list_all (\<lambda>(n, i). control_of i (saw_idle (flush_closing (store_closing client_new))))
     (rc_pending (saw_idle (flush_closing (store_closing client_new))))"
proof -
  let ?R = "reach fresh_client (client_step True plain_lib)"
  have "?R client_new" by (rule reach_init) (simp add: fresh_client_def)
  then have "?R (store_closing client_new)" by (rule reach_step) (rule cs_store; simp add: run_defs)
  then have "?R (flush_closing (store_closing client_new))" by (rule reach_step) (rule cs_flush)
  then have "?R (saw_idle (flush_closing (store_closing client_new)))"
    by (rule reach_step) (rule cs_idle; simp add: run_defs)
  then show ?thesis by (rule shutdown_after_drain [THEN conjunct1]) (simp add: run_defs)
qed

theorem no_stranded_call_witness:
  "\<exists>x. slot_of 0 (fail_pending client_closed (reader_ends client_closed waiting_client)) = Some x"
proof -
  let ?R = "reach fresh_client (client_step True plain_lib)"
  have "?R (reader_ends client_closed waiting_client)"
    by (rule reach_step [OF waiting_reachable]) (rule cs_eof; simp add: waiting_state)
  then have r: "?R (fail_pending client_closed (reader_ends client_closed waiting_client))"
    by (rule reach_step) (rule cs_fail; simp add: reader_ends_def)
  show ?thesis
    using no_stranded_call[OF r, of 0 1] by (auto simp: fail_pending_def reader_ends_def waiting_state phase_of_def fill_slot_def)
qed

theorem response_to_its_call_witness:
  "slot_of 0 (dispatch_line plain_lib ''x'' waiting_client) = Some (Inr (J_Bool True))"
proof -
  have d: "dispatch_line plain_lib ''x'' waiting_client = deliver 1 (Inr (J_Bool True)) waiting_client"
    by (simp add: dispatch_line_def plain_lib_def decode_response_def optional_field_def)
  have "slot_of 0 (dispatch_line plain_lib ''x'' waiting_client) \<noteq> slot_of 0 waiting_client"
    unfolding d by (simp add: deliver_def remove_pending_def waiting_state slot_of_def fill_slot_def)
  from response_to_its_call[OF waiting_reachable _ this] show ?thesis
    by (auto simp: waiting_state plain_lib_def decode_response_def optional_field_def)
qed

end
