(* ===== verification/Sidecar_Supervisor.thy ===== *)
theory Sidecar_Supervisor
  imports Store_Invariant Subagent_Error Pressure Step_Machines
begin

text \<open>
  The supervisor of one sidecar process, \<open>sidecar/supervisor.rs\<close>: the lazy spawn with its crash window and backoff,
  the supervision loop, graceful shutdown and forced kill, and the reconciliation of the store. The operations are
  cut where they release the state lock; a step relation interleaves the callers, the loops and the process.
  Times are milliseconds of the monotonic clock.
\<close>

section \<open>State\<close>

datatype worker_state = Worker_Running | Worker_Stopped

datatype pressure_level = Level_Normal | Throttled | Evicting | Restarting

fun severity :: "pressure_level \<Rightarrow> nat" where
  "severity Level_Normal = 0"
| "severity Throttled = 1"
| "severity Evicting = 2"
| "severity Restarting = 3"

definition SHUTDOWN_GRACE :: int where "SHUTDOWN_GRACE = 10000"
definition SHUTDOWN_DRAIN_TIMEOUT :: int where "SHUTDOWN_DRAIN_TIMEOUT = 5000"
definition RESTART_WINDOW :: int where "RESTART_WINDOW = 300000"
definition MAX_CRASHES_PER_WINDOW :: nat where "MAX_CRASHES_PER_WINDOW = 3"

text \<open>The process: its identifier, absent once it has been waited for, and whether it has exited.\<close>

record process =
  ps_pid :: "nat option"
  ps_exited :: bool

record sidecar_config =
  sc_harness :: string
  sc_idle_exit_ms :: int
  sc_health_interval :: int
  sc_monitor_interval :: int
  sc_max_restart_attempts :: nat
  sc_restart_backoff_base :: int

record supervisor =
  sv_child :: "process option"
  sv_client :: bool
  sv_last_activity :: int
  sv_restart_attempts :: nat
  sv_supervision_started :: bool
  sv_generation :: nat
  sv_restart_history :: "int list"
  sv_spawned_at :: "int option"
  sv_pressure :: resource_pressure_state
  sv_memory_used_pct :: "nat option"
  sv_sampled_at_ms :: "int option"
  sv_hot_sessions :: nat

definition supervisor_new :: "int \<Rightarrow> supervisor" where
  "supervisor_new now =
     \<lparr>sv_child = None, sv_client = False, sv_last_activity = now, sv_restart_attempts = 0, sv_supervision_started = False,
      sv_generation = 0, sv_restart_history = [], sv_spawned_at = None, sv_pressure = Normal,
      sv_memory_used_pct = None, sv_sampled_at_ms = None, sv_hot_sessions = 0\<rparr>"

definition child_id :: "supervisor \<Rightarrow> nat option" where
  "child_id s = Option.bind (sv_child s) ps_pid"

text \<open>\<open>try_is_running\<close>: false as well when the state lock is taken.\<close>

definition try_is_running :: "bool \<Rightarrow> supervisor \<Rightarrow> bool" where
  "try_is_running locked s = (\<not> locked \<and> child_id s \<noteq> None)"

record snapshot_fields =
  ws_state :: worker_state
  ws_pid :: "nat option"
  ws_uptime_seconds :: "nat option"
  ws_hot_sessions :: nat
  ws_memory_used_pct :: "nat option"
  ws_pressure_level :: pressure_level
  ws_sampled_at_ms :: "int option"

definition level_of :: "resource_pressure_state \<Rightarrow> pressure_action option \<Rightarrow> pressure_level" where
  "level_of st last_action =
     (case st of
        Normal \<Rightarrow> Level_Normal
      | Pressure \<Rightarrow> (if last_action = Some HibernateLru then Evicting else Throttled)
      | LimitExceeded \<Rightarrow> Restarting)"

definition worker_snapshot :: "int \<Rightarrow> pressure_action option \<Rightarrow> supervisor \<Rightarrow> snapshot_fields" where
  "worker_snapshot now last_action s =
     (let running = (child_id s \<noteq> None)
      in \<lparr>ws_state = (if running then Worker_Running else Worker_Stopped),
          ws_pid = (if running then child_id s else None),
          ws_uptime_seconds = (if running then map_option (\<lambda>t. nat ((now - t) div 1000)) (sv_spawned_at s) else None),
          ws_hot_sessions = sv_hot_sessions s, ws_memory_used_pct = sv_memory_used_pct s,
          ws_pressure_level = level_of (sv_pressure s) last_action, ws_sampled_at_ms = sv_sampled_at_ms s\<rparr>)"

section \<open>Spawning\<close>

definition needs_spawn :: "supervisor \<Rightarrow> bool" where
  "needs_spawn s = (\<not> sv_client s \<or> child_id s = None)"

text \<open>
  The first part of \<open>spawn_internal\<close>, under the state lock: nothing to do, refused (a \<open>Crashed\<close> error), or to be
  spawned after a backoff.
\<close>

datatype spawn_outcome = Already_Running | Refused string | Spawn_After int

definition prune_history :: "int \<Rightarrow> supervisor \<Rightarrow> supervisor" where
  "prune_history now s = s\<lparr>sv_restart_history := filter (\<lambda>t. now - t < RESTART_WINDOW) (sv_restart_history s)\<rparr>"

definition backoff_of :: "sidecar_config \<Rightarrow> nat \<Rightarrow> int" where
  "backoff_of cfg attempts = (if attempts > 0 then sc_restart_backoff_base cfg * 2 ^ (attempts - 1) else 0)"

definition spawn_check :: "sidecar_config \<Rightarrow> int \<Rightarrow> supervisor \<Rightarrow> spawn_outcome \<times> supervisor" where
  "spawn_check cfg now s =
     (if \<not> needs_spawn s then (Already_Running, s)
      else let s = prune_history now s
           in if length (sv_restart_history s) \<ge> MAX_CRASHES_PER_WINDOW
              then (Refused (''max crashes per 5-min window (3) exceeded (''
                      @ show_int (int (length (sv_restart_history s))) @ '' recent crashes)''), s)
              else if sv_restart_attempts s > sc_max_restart_attempts cfg
              then (Refused (''max restart attempts ('' @ show_int (int (sc_max_restart_attempts cfg)) @ '') exceeded''), s)
              else (Spawn_After (backoff_of cfg (sv_restart_attempts s)), s))"

text \<open>The last part, after the handshake; also whether a supervision loop is started.\<close>

definition spawn_install :: "int \<Rightarrow> nat \<Rightarrow> supervisor \<Rightarrow> (bool \<times> bool) \<times> supervisor" where
  "spawn_install now pid s =
     (let is_restart = (sv_restart_attempts s > 0);
          s1 = s\<lparr>sv_child := Some \<lparr>ps_pid = Some pid, ps_exited = False\<rparr>, sv_client := True, sv_last_activity := now,
                 sv_restart_attempts := 0, sv_spawned_at := Some now\<rparr>
      in if sv_supervision_started s1 then ((is_restart, False), s1)
         else ((is_restart, True), s1\<lparr>sv_supervision_started := True, sv_generation := sv_generation s1 + 1\<rparr>))"

definition start_event :: "bool \<Rightarrow> string" where
  "start_event is_restart = (if is_restart then ''sidecar_restart'' else ''sidecar_start'')"

section \<open>The supervision loop\<close>

datatype loop_verdict = Stale | Child_Gone | Child_Crashed | Idle_Exit | Sample | Sleep_On

definition loop_tick ::
  "sidecar_config \<Rightarrow> int \<Rightarrow> nat \<Rightarrow> int \<Rightarrow> int \<Rightarrow> supervisor \<Rightarrow> loop_verdict \<times> supervisor" where
  "loop_tick cfg now my_generation last_health last_sample s =
     (if sv_generation s \<noteq> my_generation then (Stale, s)
      else case sv_child s of
        None \<Rightarrow> (Child_Gone, s\<lparr>sv_supervision_started := False\<rparr>)
      | Some p \<Rightarrow>
          if ps_exited p then
            (Child_Crashed, s\<lparr>sv_client := False, sv_child := None, sv_restart_attempts := sv_restart_attempts s + 1,
               sv_restart_history := sv_restart_history s @ [now], sv_supervision_started := False\<rparr>)
          else if now - sv_last_activity s > sc_idle_exit_ms cfg then
            (Idle_Exit, s\<lparr>sv_supervision_started := False\<rparr>)
          else if now - last_health \<ge> sc_health_interval cfg \<or> now - last_sample \<ge> sc_monitor_interval cfg then (Sample, s)
          else (Sleep_On, s))"

text \<open>\<open>call_rpc\<close> up to the call: the client, if there is one.\<close>

definition call_begin :: "int \<Rightarrow> supervisor \<Rightarrow> bool \<times> supervisor" where
  "call_begin now s = (sv_client s, s\<lparr>sv_last_activity := now\<rparr>)"

section \<open>Shutdown, kill and the store\<close>

definition shutdown_take_client :: "supervisor \<Rightarrow> bool \<times> supervisor" where
  "shutdown_take_client s = (sv_client s, s\<lparr>sv_client := False\<rparr>)"

definition shutdown_take_child :: "supervisor \<Rightarrow> process option \<times> supervisor" where
  "shutdown_take_child s = (sv_child s, s\<lparr>sv_supervision_started := False, sv_spawned_at := None, sv_child := None\<rparr>)"

definition kill_take_child :: "supervisor \<Rightarrow> process option \<times> supervisor" where
  "kill_take_child s = (sv_child s, s\<lparr>sv_child := None\<rparr>)"

text \<open>The control calls of a graceful shutdown; \<open>drained\<close>: whether the calls in flight settled in time.\<close>

definition shutdown_calls :: "bool \<Rightarrow> bool \<Rightarrow> string list" where
  "shutdown_calls had_client drained =
     (if had_client \<and> drained then [''session.prepare_hibernate'', ''adapter.shutdown''] else [])"

definition reconcile_crash :: "sidecar_config \<Rightarrow> int \<Rightarrow> db \<Rightarrow> db" where
  "reconcile_crash cfg now d = (case reconcile_sidecar_crash now (sc_harness cfg) d of Inr (_, d') \<Rightarrow> d' | Inl _ \<Rightarrow> d)"

definition reconcile_shutdown :: "sidecar_config \<Rightarrow> int \<Rightarrow> db \<Rightarrow> db" where
  "reconcile_shutdown cfg now d = (case release_hot_bindings_for_shutdown now (sc_harness cfg) d of Inr (_, d') \<Rightarrow> d' | Inl _ \<Rightarrow> d)"

definition write_resource_event :: "string \<Rightarrow> int \<Rightarrow> string \<Rightarrow> db \<Rightarrow> db" where
  "write_resource_event uuid now event_type d =
     (case insert_resource_event
        \<lparr>e_id = ''re_'' @ uuid, e_event_type = event_type, e_target_id = None, e_rss_mb = None, e_cpu_percent = None,
         e_detail_json = None, e_created_at_ms = now\<rparr> d of Inr d' \<Rightarrow> d' | Inl _ \<Rightarrow> d)"

definition after_crash :: "sidecar_config \<Rightarrow> string \<Rightarrow> int \<Rightarrow> db \<Rightarrow> db" where
  "after_crash cfg uuid now d = write_resource_event uuid now ''sidecar_crash'' (reconcile_crash cfg now d)"

definition after_shutdown :: "sidecar_config \<Rightarrow> string \<Rightarrow> int \<Rightarrow> db \<Rightarrow> db" where
  "after_shutdown cfg uuid now d = write_resource_event uuid now ''sidecar_stop'' (reconcile_shutdown cfg now d)"

section \<open>Interleaving\<close>

text \<open>Who holds the spawn lock: a spawn past its check, or a shutdown before or after it took the process.\<close>

datatype lock_phase = Unlocked | Spawning | Draining | Reaping

record sup_world =
  sw_sup :: supervisor
  sw_loops :: "nat list"
  sw_lock :: lock_phase
  sw_now :: int
  sw_crashes :: "int list"

definition begin_spawn :: "sidecar_config \<Rightarrow> sup_world \<Rightarrow> sup_world" where
  "begin_spawn cfg w =
     (case spawn_check cfg (sw_now w) (sw_sup w) of
        (Spawn_After _, s) \<Rightarrow> w\<lparr>sw_sup := s, sw_lock := Spawning\<rparr>
      | (_, s) \<Rightarrow> w\<lparr>sw_sup := s\<rparr>)"

definition finish_spawn :: "nat \<Rightarrow> sup_world \<Rightarrow> sup_world" where
  "finish_spawn pid w =
     (case spawn_install (sw_now w) pid (sw_sup w) of
        ((_, new_loop), s) \<Rightarrow>
          w\<lparr>sw_sup := s, sw_lock := Unlocked, sw_loops := (if new_loop then sv_generation s # sw_loops w else sw_loops w)\<rparr>)"

definition run_loop :: "sidecar_config \<Rightarrow> nat \<Rightarrow> int \<Rightarrow> int \<Rightarrow> sup_world \<Rightarrow> sup_world" where
  "run_loop cfg g last_health last_sample w =
     (case loop_tick cfg (sw_now w) g last_health last_sample (sw_sup w) of
        (v, s) \<Rightarrow>
          w\<lparr>sw_sup := s,
            sw_loops := (if v = Sample \<or> v = Sleep_On then sw_loops w else remove1 g (sw_loops w)),
            sw_crashes := (if v = Child_Crashed then sw_crashes w @ [sw_now w] else sw_crashes w)\<rparr>)"

inductive sup_step :: "sidecar_config \<Rightarrow> sup_world \<Rightarrow> sup_world \<Rightarrow> bool" for cfg where
  sup_time: "0 \<le> dt \<Longrightarrow> sup_step cfg w (w\<lparr>sw_now := sw_now w + dt\<rparr>)"
| sup_spawn: "sw_lock w = Unlocked \<Longrightarrow> sup_step cfg w (begin_spawn cfg w)"
| sup_spawn_failed: "sw_lock w = Spawning \<Longrightarrow> sup_step cfg w (w\<lparr>sw_lock := Unlocked\<rparr>)"
| sup_spawned: "sw_lock w = Spawning \<Longrightarrow> sup_step cfg w (finish_spawn pid w)"
| sup_loop: "g \<in> set (sw_loops w) \<Longrightarrow> sup_step cfg w (run_loop cfg g last_health last_sample w)"
| sup_exit: "sv_child (sw_sup w) = Some p \<Longrightarrow>
    sup_step cfg w (w\<lparr>sw_sup := (sw_sup w)\<lparr>sv_child := Some (p\<lparr>ps_exited := True\<rparr>)\<rparr>\<rparr>)"
| sup_call: "sup_step cfg w (w\<lparr>sw_sup := snd (call_begin (sw_now w) (sw_sup w))\<rparr>)"
| sup_shutdown: "sw_lock w = Unlocked \<Longrightarrow>
    sup_step cfg w (w\<lparr>sw_sup := snd (shutdown_take_client (sw_sup w)), sw_lock := Draining\<rparr>)"
| sup_take: "sw_lock w = Draining \<Longrightarrow>
    sup_step cfg w (w\<lparr>sw_sup := snd (shutdown_take_child (sw_sup w)), sw_lock := Reaping\<rparr>)"
| sup_reaped: "sw_lock w = Reaping \<Longrightarrow> sup_step cfg w (w\<lparr>sw_lock := Unlocked\<rparr>)"
| sup_kill: "sup_step cfg w (w\<lparr>sw_sup := snd (kill_take_child (sw_sup w))\<rparr>)"

definition fresh_supervisor :: "sup_world \<Rightarrow> bool" where
  "fresh_supervisor w =
     (\<exists>now. w = \<lparr>sw_sup = supervisor_new now, sw_loops = [], sw_lock = Unlocked, sw_now = now, sw_crashes = []\<rparr>)"

section \<open>Backoff\<close>

definition child_ok :: "sup_world \<Rightarrow> bool" where
  "child_ok w = (let s = sw_sup w in
     (case sv_child s of None \<Rightarrow> True | Some p \<Rightarrow> ps_pid p \<noteq> None \<and> sv_restart_attempts s = 0 \<and> sw_lock w \<noteq> Spawning \<and> sw_lock w \<noteq> Reaping
        \<and> (sw_lock w = Unlocked \<longrightarrow> sv_client s))
     \<and> sv_restart_attempts s \<le> 1)"

lemmas step_defs = begin_spawn_def spawn_check_def prune_history_def finish_spawn_def spawn_install_def run_loop_def loop_tick_def
  call_begin_def shutdown_take_client_def shutdown_take_child_def kill_take_child_def needs_spawn_def child_id_def

lemma child_ok_step: "sup_step cfg w v \<Longrightarrow> child_ok w \<Longrightarrow> child_ok v"
proof (induction rule: sup_step.induct)
  case (sup_spawn w)
  then show ?case by (cases "sv_child (sw_sup w)") (auto simp: child_ok_def step_defs Let_def)
next
  case (sup_spawned w pid)
  then show ?case by (auto simp: child_ok_def step_defs Let_def)
next
  case (sup_loop g w last_health last_sample)
  then show ?case by (auto simp: child_ok_def step_defs Let_def split: option.splits)
qed (auto simp: child_ok_def step_defs Let_def split: option.splits)

section \<open>Loops\<close>

definition loops_ok :: "sup_world \<Rightarrow> bool" where
  "loops_ok w = (distinct (sw_loops w) \<and> list_all (\<lambda>g. g \<le> sv_generation (sw_sup w)) (sw_loops w)
     \<and> (sv_supervision_started (sw_sup w) \<longrightarrow> sv_generation (sw_sup w) \<in> set (sw_loops w)))"

lemma distinct_count: "distinct xs \<Longrightarrow> count_list xs x = (if x \<in> set xs then 1 else 0)"
  by (induction xs) auto

lemma loops_ok_step: "sup_step cfg w v \<Longrightarrow> loops_ok w \<Longrightarrow> loops_ok v"
proof (induction rule: sup_step.induct)
  case (sup_spawned w pid)
  then show ?case by (fastforce simp: loops_ok_def step_defs Let_def list_all_iff)
next
  case (sup_loop g w last_health last_sample)
  then show ?case by (auto simp: loops_ok_def step_defs Let_def list_all_iff split: option.splits)
qed (auto simp: loops_ok_def step_defs Let_def)

section \<open>The crash window\<close>

definition recent :: "int \<Rightarrow> int list \<Rightarrow> int list" where
  "recent now cs = filter (\<lambda>t. now - t < RESTART_WINDOW) cs"

definition room :: "int \<Rightarrow> int list \<Rightarrow> bool" where
  "room now cs = (length cs < 3 \<or> RESTART_WINDOW \<le> now - cs ! (length cs - 3))"

definition spaced :: "int list \<Rightarrow> bool" where
  "spaced cs = (\<forall>i. i + 3 < length cs \<longrightarrow> RESTART_WINDOW \<le> cs ! (i + 3) - cs ! i)"

lemma recent_later: "now \<le> later \<Longrightarrow> recent later (recent now cs) = recent later cs"
  by (auto simp: recent_def intro: filter_cong)

lemma recent_later_eq: "recent now cs = recent now ds \<Longrightarrow> now \<le> later \<Longrightarrow> recent later cs = recent later ds"
  using recent_later by metis

lemma room_later: "room now cs \<Longrightarrow> now \<le> later \<Longrightarrow> room later cs"
  by (auto simp: room_def)

lemma spaced_push: "spaced cs \<Longrightarrow> room now cs \<Longrightarrow> spaced (cs @ [now])"
  by (auto simp: spaced_def room_def nth_append less_Suc_eq) (metis add_diff_cancel_right' less_diff_conv not_less)

lemma few_recent_room:
  assumes "sorted cs" "length (recent now cs) < 3"
  shows "room now cs"
proof (rule ccontr)
  assume no: "\<not> room now cs"
  let ?k = "length cs - 3"
  have k: "length cs = ?k + 3" "now - cs ! ?k < RESTART_WINDOW" using no by (auto simp: room_def)
  have all: "now - x < RESTART_WINDOW" if x: "x \<in> set (drop ?k cs)" for x
  proof -
    obtain j where "j < length (drop ?k cs)" "drop ?k cs ! j = x" using x unfolding in_set_conv_nth by blast
    then have j: "?k + j < length cs" "x = cs ! (?k + j)" by auto
    then have "cs ! ?k \<le> x" using assms(1) by (auto intro: sorted_nth_mono)
    with k(2) show ?thesis by simp
  qed
  have "recent now cs = recent now (take ?k cs) @ recent now (drop ?k cs)"
    by (metis append_take_drop_id filter_append recent_def)
  moreover have "recent now (drop ?k cs) = drop ?k cs" using all by (simp add: recent_def)
  ultimately have "3 \<le> length (recent now cs)" using k(1) by simp
  with assms(2) show False by simp
qed

definition crash_ok :: "sup_world \<Rightarrow> bool" where
  "crash_ok w = (sorted (sw_crashes w) \<and> list_all (\<lambda>c. c \<le> sw_now w) (sw_crashes w)
     \<and> recent (sw_now w) (sw_crashes w) = recent (sw_now w) (sv_restart_history (sw_sup w))
     \<and> (sv_child (sw_sup w) \<noteq> None \<or> sw_lock w = Spawning \<longrightarrow> room (sw_now w) (sw_crashes w))
     \<and> spaced (sw_crashes w))"

lemma crash_ok_frame:
  "crash_ok w \<Longrightarrow> sw_crashes v = sw_crashes w \<Longrightarrow> sw_now v = sw_now w \<Longrightarrow>
     sv_restart_history (sw_sup v) = sv_restart_history (sw_sup w) \<Longrightarrow>
     sv_child (sw_sup v) \<noteq> None \<or> sw_lock v = Spawning \<longrightarrow> sv_child (sw_sup w) \<noteq> None \<or> sw_lock w = Spawning \<Longrightarrow> crash_ok v"
  unfolding crash_ok_def by metis

lemma crash_ok_check:
  assumes "crash_ok w" "spawn_check cfg (sw_now w) (sw_sup w) = (c, s)"
  shows "crash_ok (w\<lparr>sw_sup := s, sw_lock := (case c of Spawn_After _ \<Rightarrow> Spawning | _ \<Rightarrow> sw_lock w)\<rparr>)"
proof (cases "needs_spawn (sw_sup w)")
  case False
  with assms show ?thesis by (auto simp: spawn_check_def intro: crash_ok_frame[of w])
next
  case True
  have s: "s = prune_history (sw_now w) (sw_sup w)"
    using assms(2) True by (auto simp: spawn_check_def Let_def split: if_splits)
  have h: "sv_restart_history s = recent (sw_now w) (sw_crashes w)" and child: "sv_child s = sv_child (sw_sup w)"
    using assms(1) by (simp_all add: s prune_history_def crash_ok_def recent_def)
  have "room (sw_now w) (sw_crashes w)" if "c = Spawn_After b" for b
  proof (rule few_recent_room)
    show "length (recent (sw_now w) (sw_crashes w)) < 3"
      using assms(2) True that h s by (auto simp: spawn_check_def Let_def MAX_CRASHES_PER_WINDOW_def split: if_splits)
  qed (use assms(1) in \<open>simp add: crash_ok_def\<close>)
  with assms(1) h child show ?thesis
    by (cases c) (simp_all add: crash_ok_def recent_later)
qed

lemma crash_ok_step: "sup_step cfg w v \<Longrightarrow> child_ok w \<Longrightarrow> crash_ok w \<Longrightarrow> crash_ok v"
proof (induction rule: sup_step.induct)
  case (sup_time dt w)
  let ?C = "sw_crashes w" and ?H = "sv_restart_history (sw_sup w)" and ?t = "sw_now w + dt"
  have later: "sw_now w \<le> ?t" using sup_time by simp
  have "recent ?t ?C = recent ?t ?H"
    by (rule recent_later_eq[OF _ later]) (use sup_time in \<open>simp add: crash_ok_def\<close>)
  moreover have "room (sw_now w) ?C \<Longrightarrow> room ?t ?C" using room_later later by blast
  moreover have "list_all (\<lambda>c. c \<le> ?t) ?C" using sup_time by (fastforce simp: crash_ok_def list_all_iff)
  ultimately show ?case using sup_time by (auto simp: crash_ok_def)
next
  case (sup_spawn w)
  obtain c s where c: "spawn_check cfg (sw_now w) (sw_sup w) = (c, s)" by fastforce
  have "begin_spawn cfg w = w\<lparr>sw_sup := s, sw_lock := (case c of Spawn_After _ \<Rightarrow> Spawning | _ \<Rightarrow> sw_lock w)\<rparr>"
    by (simp add: begin_spawn_def c split: spawn_outcome.splits)
  with crash_ok_check[OF _ c] sup_spawn show ?case by simp
next
  case (sup_spawned w pid)
  then show ?case by (auto simp: step_defs Let_def intro: crash_ok_frame[of w])
next
  case (sup_loop g w last_health last_sample)
  show ?case
  proof (cases "fst (loop_tick cfg (sw_now w) g last_health last_sample (sw_sup w)) = Child_Crashed")
    case False
    with sup_loop show ?thesis
      by (auto simp: step_defs split: option.splits if_splits intro!: crash_ok_frame[of w])
  next
    case True
    then obtain p where "sv_child (sw_sup w) = Some p" and
      v: "run_loop cfg g last_health last_sample w = w\<lparr>sw_sup := (sw_sup w)\<lparr>sv_client := False, sv_child := None,
            sv_restart_attempts := sv_restart_attempts (sw_sup w) + 1,
            sv_restart_history := sv_restart_history (sw_sup w) @ [sw_now w], sv_supervision_started := False\<rparr>,
          sw_loops := remove1 g (sw_loops w), sw_crashes := sw_crashes w @ [sw_now w]\<rparr>"
      by (auto simp: run_loop_def loop_tick_def split: option.splits if_splits)
    moreover have "sw_lock w \<noteq> Spawning" using sup_loop(2) \<open>sv_child (sw_sup w) = Some p\<close> by (simp add: child_ok_def Let_def)
    ultimately show ?thesis
      using sup_loop(3) spaced_push[of "sw_crashes w" "sw_now w"]
      by (auto simp: crash_ok_def recent_def sorted_append list_all_iff)
  qed
qed (auto simp: step_defs intro: crash_ok_frame)

section \<open>Properties\<close>

definition sup_ok :: "sup_world \<Rightarrow> bool" where
  "sup_ok w = (child_ok w \<and> loops_ok w \<and> crash_ok w)"

lemma sup_ok_fresh: "fresh_supervisor w \<Longrightarrow> sup_ok w"
  by (auto simp: fresh_supervisor_def sup_ok_def child_ok_def loops_ok_def crash_ok_def supervisor_new_def spaced_def recent_def)

interpretation supervised: invariant_machine fresh_supervisor "sup_step cfg" sup_ok for cfg
proof
  show "sup_ok w" if "fresh_supervisor w" for w using that by (rule sup_ok_fresh)
  show "sup_ok v" if "sup_ok w" "sup_step cfg w v" for w v
    using that child_ok_step loops_ok_step crash_ok_step unfolding sup_ok_def by blast
qed

lemmas supervised_inv = supervised.reachable_inv [unfolded sup_ok_def]

text \<open>
  C16. A sidecar that keeps crashing is limited: of any four crashes in a row the first and the last are at least five
  minutes apart, whatever callers, shutdowns and kills do in between.
\<close>

theorem crashes_spaced:
  assumes "reach fresh_supervisor (sup_step cfg) w" "i + 3 < length (sw_crashes w)"
  shows "300000 \<le> sw_crashes w ! (i + 3) - sw_crashes w ! i"
  using supervised_inv[OF assms(1)] assms(2) by (simp add: crash_ok_def spaced_def RESTART_WINDOW_def)

text \<open>
  The backoff before a restart never grows: the counter of attempts is reset by each successful spawn and a
  crash needs one, so that it is at most one and every restart waits exactly the base delay.
\<close>

theorem backoff_constant:
  assumes "reach fresh_supervisor (sup_step cfg) w" "spawn_check cfg (sw_now w) (sw_sup w) = (Spawn_After b, s)"
  shows "b = (if sv_restart_attempts (sw_sup w) = 0 then 0 else sc_restart_backoff_base cfg) \<and> sv_restart_attempts (sw_sup w) \<le> 1"
proof -
  have "sv_restart_attempts (sw_sup w) \<le> 1" using supervised_inv[OF assms(1)] by (simp add: child_ok_def Let_def)
  with assms(2) show ?thesis
    by (cases "sv_restart_attempts (sw_sup w) = 0")
       (auto simp: spawn_check_def prune_history_def backoff_of_def Let_def split: if_splits)
qed

text \<open>
  At most one supervision loop runs for a worker: of the loops that are alive exactly one, when the supervisor counts
  one as started, and never two, carry the current generation; the others end at their next tick.
\<close>

theorem one_supervision_loop:
  assumes "reach fresh_supervisor (sup_step cfg) w"
  shows "count_list (sw_loops w) (sv_generation (sw_sup w)) \<le> 1
     \<and> (sv_supervision_started (sw_sup w) \<longrightarrow> count_list (sw_loops w) (sv_generation (sw_sup w)) = 1)
     \<and> (g \<noteq> sv_generation (sw_sup w) \<longrightarrow> fst (loop_tick cfg now g h l (sw_sup w)) = Stale)"
proof -
  have "loops_ok w" using supervised_inv[OF assms] by blast
  then show ?thesis
    by (auto simp: loops_ok_def distinct_count loop_tick_def)
qed

text \<open>
  When no restart is allowed at all, a single crash ends the worker for good: the counter stays at one, and only a
  successful spawn would reset it.
\<close>

lemma no_restart_after_crash:
  assumes "sc_max_restart_attempts cfg = 0" "sup_step cfg w v"
    and "sv_restart_attempts (sw_sup w) = 1" "sv_child (sw_sup w) = None" "sw_lock w \<noteq> Spawning"
  shows "sv_restart_attempts (sw_sup v) = 1 \<and> sv_child (sw_sup v) = None \<and> sw_lock v \<noteq> Spawning"
  using assms(2-5,1)
  by (induction rule: sup_step.induct) (auto simp: step_defs Let_def split: option.splits)

theorem one_crash_is_final:
  assumes "sc_max_restart_attempts cfg = 0" "(sup_step cfg)\<^sup>*\<^sup>* w v"
    and "sv_restart_attempts (sw_sup w) = 1" "sv_child (sw_sup w) = None" "sw_lock w \<noteq> Spawning"
  shows "sv_child (sw_sup v) = None"
proof -
  have "sv_restart_attempts (sw_sup v) = 1 \<and> sv_child (sw_sup v) = None \<and> sw_lock v \<noteq> Spawning"
    using assms(2)
  proof (induction rule: rtranclp_induct)
    case (step x y)
    then show ?case using no_restart_after_crash[OF assms(1), of x y] by blast
  qed (use assms(3-5) in simp)
  then show ?thesis by blast
qed

text \<open>A worker whose only call is a long one looks idle: the time of the last activity is that of the last call's start.\<close>

lemma long_turn_is_idle:
  assumes "sv_generation s = g" "sv_child s = Some p" "\<not> ps_exited p" "sc_idle_exit_ms cfg < now - started"
  shows "fst (loop_tick cfg now g h l (snd (call_begin started s))) = Idle_Exit"
  using assms by (simp add: loop_tick_def call_begin_def)

section \<open>The store after a crash\<close>

text \<open>The subagents with a hot binding under a harness.\<close>

definition hot_under :: "string \<Rightarrow> db \<Rightarrow> string \<Rightarrow> bool" where
  "hot_under h d sid = list_ex (\<lambda>b. b_subagent_id b = sid \<and> b_is_hot b = 1 \<and> b_harness b = h) (bindings d)"

lemma hot_under_iff: "hot_under h d sid \<longleftrightarrow> sid \<in> set (affected_ids h d)"
  by (auto simp: hot_under_def affected_ids_def list_ex_iff is_hot_def)

text \<open>The reconciliation needs only what the schema itself demands of the subagents' table.\<close>

lemma reconcile_crash_tables:
  assumes "unique_active_names (logicals d)" "list_all (\<lambda>l. logical_status_allowed (l_status l)) (logicals d)"
  shows "reconcile_crash cfg now d = d\<lparr>
      bindings := upd_where (live_on (sc_harness cfg)) (release_binding now ''crashed'') (bindings d),
      tasks := upd_where (in_flight (affected_ids (sc_harness cfg) d))
        (\<lambda>t. t\<lparr>t_status := ''failed'', t_error := Some ''SIDECAR_CRASHED'', t_completed_at_ms := Some now\<rparr>) (tasks d),
      logicals := upd_where (rolled_back (affected_ids (sc_harness cfg) d)) (rollback_status now d) (logicals d)\<rparr>"
proof (cases "affected_ids (sc_harness cfg) d = []")
  case True
  then have "\<not> live_on (sc_harness cfg) b" if "b \<in> set (bindings d)" for b
    using that by (auto simp: affected_ids_def live_on_def filter_empty_conv)
  then have "upd_where (live_on (sc_harness cfg)) (release_binding now ''crashed'') (bindings d) = bindings d"
    by (simp add: upd_where_def map_idI)
  with True show ?thesis
    by (simp add: reconcile_crash_def reconcile_sidecar_crash_def in_flight_def rolled_back_def upd_where_id)
next
  case False
  let ?ls = "upd_where (rolled_back (affected_ids (sc_harness cfg) d)) (rollback_status now d) (logicals d)"
  have "unique_active_names ?ls"
    using assms(1) unique_active_names_same[of "rolled_back (affected_ids (sc_harness cfg) d)" "rollback_status now d"]
    by (simp add: rolled_back_def rollback_status_def active_def name_key_def)
  moreover have "list_all (\<lambda>l. logical_status_allowed (l_status l)) ?ls"
    using assms(2) by (auto simp: list_all_iff rollback_status_def logical_status_allowed_def elim!: in_upd_whereE)
  moreover have "rollback_status now (release_hot now ''crashed'' h (fail_in_flight now ids d)) = rollback_status now d" for h ids
    by (simp add: fun_eq_iff rollback_status_def release_hot_def fail_in_flight_def has_hot_summary_def)
  ultimately show ?thesis using False
    by (simp add: reconcile_crash_def reconcile_sidecar_crash_def roll_back_statuses_def put_logicals_def Let_def)
      (simp add: release_hot_def fail_in_flight_def)
qed

text \<open>
  C29. The crash of one worker is booked on every subagent that is hot under the shared harness name; the provider a subagent
  is bound to, and whether the sidecar of that provider is alive, play no part: each of their hot bindings is released and marked
  crashed, each of their running tasks is failed with \<open>SIDECAR_CRASHED\<close>, each of them that is not deleted becomes warm or cold by
  its memory, and every other row stays as it is. This needs only the unique names and the allowed statuses of the schema.
\<close>

theorem crash_hits_all_providers:
  assumes "unique_active_names (logicals d)" "list_all (\<lambda>l. logical_status_allowed (l_status l)) (logicals d)"
  shows "bindings (after_crash cfg uuid now d) =
      map (\<lambda>b. if b_is_hot b = 1 \<and> b_harness b = sc_harness cfg
               then b\<lparr>b_is_hot := 0, b_status := ''crashed'', b_closed_at_ms := Some now\<rparr> else b) (bindings d)
    \<and> tasks (after_crash cfg uuid now d) =
      map (\<lambda>t. if t_status t = ''running'' \<and> hot_under (sc_harness cfg) d (t_subagent_id t)
               then t\<lparr>t_status := ''failed'', t_error := Some ''SIDECAR_CRASHED'', t_completed_at_ms := Some now\<rparr> else t) (tasks d)
    \<and> logicals (after_crash cfg uuid now d) =
      map (\<lambda>l. if l_status l \<noteq> ''deleted'' \<and> hot_under (sc_harness cfg) d (l_id l)
               then l\<lparr>l_status := (if has_hot_summary (l_id l) d then ''warm'' else ''cold''), l_updated_at_ms := now\<rparr>
               else l) (logicals d)"
proof -
  have ev: "bindings (write_resource_event uuid now e x) = bindings x" "tasks (write_resource_event uuid now e x) = tasks x"
    "logicals (write_resource_event uuid now e x) = logicals x"
    for e x by (simp_all add: write_resource_event_def insert_resource_event_def)
  show ?thesis
    by (simp add: after_crash_def ev reconcile_crash_tables[OF assms] upd_where_def live_on_def is_hot_def in_flight_def
        rolled_back_def rollback_status_def release_binding_def hot_under_iff)
qed

section \<open>Concrete runs\<close>

definition daemon_config :: sidecar_config where
  "daemon_config = \<lparr>sc_harness = ''pi-sdk'', sc_idle_exit_ms = 300000, sc_health_interval = 30000, sc_monitor_interval = 30000,
     sc_max_restart_attempts = 3, sc_restart_backoff_base = 1000\<rparr>"

definition start_world :: sup_world where
  "start_world = \<lparr>sw_sup = supervisor_new 0, sw_loops = [], sw_lock = Unlocked, sw_now = 0, sw_crashes = []\<rparr>"

definition exit_process :: "sup_world \<Rightarrow> sup_world" where
  "exit_process w = w\<lparr>sw_sup := (sw_sup w)\<lparr>sv_child := Some \<lparr>ps_pid = Some 7, ps_exited = True\<rparr>\<rparr>\<rparr>"

text \<open>Some time passes, a caller spawns the worker, it exits and the loop sees it.\<close>

definition crash_cycle :: "int \<Rightarrow> sup_world \<Rightarrow> sup_world" where
  "crash_cycle dt w =
     (let v = exit_process (finish_spawn 7 (begin_spawn daemon_config (w\<lparr>sw_now := sw_now w + dt\<rparr>)))
      in run_loop daemon_config (sv_generation (sw_sup v)) 0 0 v)"

definition spawns :: "sup_world \<Rightarrow> bool" where
  "spawns w = (sw_lock w = Unlocked \<and> sw_lock (begin_spawn daemon_config w) = Spawning)"

lemma crash_cycle_reach:
  assumes r: "reach fresh_supervisor (sup_step daemon_config) w" and s: "0 \<le> dt" "spawns (w\<lparr>sw_now := sw_now w + dt\<rparr>)"
    and g: "\<not> sv_supervision_started (sw_sup w)"
  shows "reach fresh_supervisor (sup_step daemon_config) (crash_cycle dt w)"
proof -
  let ?R = "reach fresh_supervisor (sup_step daemon_config)" and ?w = "w\<lparr>sw_now := sw_now w + dt\<rparr>"
  let ?b = "begin_spawn daemon_config ?w"
  have "?R ?w" using s(1) by (intro reach_step [OF r] sup_time)
  then have "?R ?b" by (rule reach_step) (rule sup_spawn; use s(2) in \<open>simp add: spawns_def\<close>)
  then have f: "?R (finish_spawn 7 ?b)" by (rule reach_step) (rule sup_spawned; use s(2) in \<open>simp add: spawns_def\<close>)
  have child: "sv_child (sw_sup (finish_spawn 7 ?b)) = Some \<lparr>ps_pid = Some 7, ps_exited = False\<rparr>"
    by (simp add: finish_spawn_def spawn_install_def Let_def)
  have "?R (exit_process (finish_spawn 7 ?b))"
    using reach_step [OF f sup_exit [OF child]] by (simp add: exit_process_def)
  moreover have "sv_generation (sw_sup (exit_process (finish_spawn 7 ?b))) \<in> set (sw_loops (exit_process (finish_spawn 7 ?b)))"
    using g by (auto simp: exit_process_def finish_spawn_def spawn_install_def begin_spawn_def spawn_check_def prune_history_def Let_def
        split: if_splits)
  ultimately show ?thesis unfolding crash_cycle_def Let_def by (blast intro: reach_step sup_loop)
qed

lemmas sup_run_defs = step_defs start_world_def supervisor_new_def crash_cycle_def spawns_def exit_process_def daemon_config_def
  RESTART_WINDOW_def MAX_CRASHES_PER_WINDOW_def

lemma start_reach: "reach fresh_supervisor (sup_step cfg) start_world"
  by (rule reach_init) (simp add: fresh_supervisor_def start_world_def)

lemma crash_runs:
  "reach fresh_supervisor (sup_step daemon_config) (crash_cycle 1 start_world)"
  "reach fresh_supervisor (sup_step daemon_config) (crash_cycle 300000 (crash_cycle 1 (crash_cycle 1 (crash_cycle 1 start_world))))"
proof -
  show 1: "reach fresh_supervisor (sup_step daemon_config) (crash_cycle 1 start_world)"
    by (rule crash_cycle_reach[OF start_reach]) (simp_all add: sup_run_defs)
  have 2: "reach fresh_supervisor (sup_step daemon_config) (crash_cycle 1 (crash_cycle 1 start_world))"
    by (rule crash_cycle_reach[OF 1]) (simp_all add: sup_run_defs)
  have 3: "reach fresh_supervisor (sup_step daemon_config) (crash_cycle 1 (crash_cycle 1 (crash_cycle 1 start_world)))"
    by (rule crash_cycle_reach[OF 2]) (simp_all add: sup_run_defs)
  show "reach fresh_supervisor (sup_step daemon_config) (crash_cycle 300000 (crash_cycle 1 (crash_cycle 1 (crash_cycle 1 start_world))))"
    by (rule crash_cycle_reach[OF 3]) (simp_all add: sup_run_defs)
qed

theorem crashes_spaced_witness:
  "300000 \<le> sw_crashes (crash_cycle 300000 (crash_cycle 1 (crash_cycle 1 (crash_cycle 1 start_world)))) ! (0 + 3)
     - sw_crashes (crash_cycle 300000 (crash_cycle 1 (crash_cycle 1 (crash_cycle 1 start_world)))) ! 0"
  by (rule crashes_spaced[OF crash_runs(2)]) (simp add: sup_run_defs)

theorem backoff_constant_witness:
  "(1000::int) = (if sv_restart_attempts (sw_sup (crash_cycle 1 start_world)) = 0 then 0 else sc_restart_backoff_base daemon_config)"
proof -
  have "\<exists>s. spawn_check daemon_config (sw_now (crash_cycle 1 start_world)) (sw_sup (crash_cycle 1 start_world)) = (Spawn_After 1000, s)"
    by (simp add: sup_run_defs backoff_of_def)
  then show ?thesis using backoff_constant[OF crash_runs(1)] by blast
qed

theorem one_supervision_loop_witness: "count_list (sw_loops start_world) (sv_generation (sw_sup start_world)) \<le> 1"
  using one_supervision_loop[OF start_reach] by blast

theorem one_crash_is_final_witness:
  "sv_child (sw_sup (begin_spawn (daemon_config\<lparr>sc_max_restart_attempts := 0\<rparr>) (crash_cycle 1 start_world))) = None"
proof (rule one_crash_is_final)
  show "(sup_step (daemon_config\<lparr>sc_max_restart_attempts := 0\<rparr>))\<^sup>*\<^sup>* (crash_cycle 1 start_world)
      (begin_spawn (daemon_config\<lparr>sc_max_restart_attempts := 0\<rparr>) (crash_cycle 1 start_world))"
    by (rule r_into_rtranclp, rule sup_spawn) (simp add: sup_run_defs)
qed (simp_all add: sup_run_defs)

text \<open>A hot subagent of each of two providers.\<close>

definition two_hot :: db where
  "two_hot = empty_db\<lparr>logicals := [(sample_logical ''x'' ''one'' ''hot'')\<lparr>l_bound_provider_id := ''p1''\<rparr>,
       (sample_logical ''y'' ''two'' ''hot'')\<lparr>l_bound_provider_id := ''p2''\<rparr>],
     tasks := [sample_task ''a'' ''x'' ''running'' 1 (Some 1), sample_task ''b'' ''y'' ''running'' 2 (Some 2)],
     bindings := [sample_binding ''bx'' ''x'' 1 ''hot'', sample_binding ''by'' ''y'' 1 ''hot'']\<rparr>"

theorem crash_hits_all_providers_witness:
  "map t_status (tasks (after_crash daemon_config ''u'' 9 two_hot)) = [''failed'', ''failed'']
   \<and> map b_status (bindings (after_crash daemon_config ''u'' 9 two_hot)) = [''crashed'', ''crashed'']
   \<and> map l_status (logicals (after_crash daemon_config ''u'' 9 two_hot)) = [''cold'', ''cold'']"
proof -
  have "unique_active_names (logicals two_hot)" "list_all (\<lambda>l. logical_status_allowed (l_status l)) (logicals two_hot)"
    by (simp_all add: two_hot_def sample_logical_def unique_active_names_def active_def name_key_def logical_status_allowed_def)
  from crash_hits_all_providers[OF this, of daemon_config "''u''" 9] show ?thesis
    by (simp add: two_hot_def hot_under_def sample_task_def sample_binding_def sample_logical_def daemon_config_def empty_db_def
        has_hot_summary_def)
qed

end
