(* ===== verification/Spec2Isabelle.thy ===== *)
theory Spec2Isabelle
  imports Subagent_System Pressure Writer_Sequence Aggregate_Planner Reporting_Ranges Provider_Catalog Pricing Lifecycle_Coordinator Executor_Runs Rpc_Client Sidecar_Supervisor
begin

text \<open>
  Busytok watches the session logs that coding agents (Claude Code, Codex) write, turns every line
  that reports token usage into a normalized event, stores the events without counting one twice,
  keeps rollups of them for a desktop application, and runs subagents (delegated tasks) through a
  sidecar process under resource limits. This library models the Rust crates that carry this logic
  and proves what makes them correct. All paths below are under \<open>src/crates\<close>.

  1. The parts, how they interact, and the theories that model them.

  The subagent layer (\<open>busytok-subagent\<close>, \<open>busytok-store/src/subagent_queries.rs\<close>).
  \<open>Subagent_Models\<close> and \<open>Subagent_Error\<close> are the types of \<open>models.rs\<close>, \<open>error.rs\<close> and the error side
  of \<open>sidecar\<close>. The store is a record of tables: \<open>Store_Tables\<close> (rows, schema constraints),
  \<open>Store_Logicals\<close> (subagents, memory, usage), \<open>Store_Tasks\<close> (the task queue), \<open>Store_Bindings\<close> (the hot
  sessions and the transactions that move a subagent between hot, warm and cold); \<open>Store_Invariant\<close>
  is the invariant of the whole schema. \<open>Subagent_Env\<close> is how handlers run: a state monad over the
  database with errors as values, critical sections, and what other threads may do between them.
  \<open>Resolver\<close> (\<open>resolver.rs\<close>), \<open>Context\<close> (\<open>context.rs\<close>) and \<open>Memory\<close> (\<open>memory.rs\<close>, \<open>util.rs\<close>) serve the
  manager: \<open>Manager_Core\<close>, \<open>Manager_Delegate\<close> (delegate), \<open>Manager_Execute\<close> (running one task with the
  executor's session handshake) and \<open>Manager_Control\<close> (dispatcher, reaper, cancel, hibernate, delete,
  reads) follow \<open>manager.rs\<close>. \<open>Subagent_System\<close> composes the handlers into one step relation.
  \<open>Pressure\<close> is \<open>pressure.rs\<close>, \<open>resource.rs\<close> and the supervision tick of \<open>sidecar/supervisor.rs\<close>.

  The ingestion path. \<open>Jsonl_Scanner\<close> (\<open>busytok-tailer/src/scanner.rs\<close>) reads new bytes of a growing
  file into lines; \<open>Log_Adapters\<close> (\<open>busytok-adapters\<close>) parses a line into events over the domain types
  of \<open>Usage_Events\<close> and \<open>Project_Paths\<close> (\<open>busytok-domain\<close>); \<open>Codex_Batch\<close> and \<open>Codex_Deltas\<close>
  (\<open>busytok-runtime/src/scan.rs\<close>) attribute models and turn the cumulative counters of Codex into
  events.

  The usage store and the writer. \<open>Usage_Store\<close> is the deduplicating write path of
  \<open>busytok-store/src/write_queries.rs\<close>; \<open>Usage_Rollups\<close>, over \<open>Utc_Dates\<close> and \<open>Keyed_Tables\<close>, the
  additive tables it feeds; \<open>Source_Files\<close> the checkpoints, source summaries and the outbox with its
  sequence counter (\<open>outbox_queries.rs\<close>). \<open>Service_Status\<close> is the snapshot the readers see
  (\<open>status.rs\<close>), \<open>Generations\<close> the generations of the data set and the replay queue
  (\<open>generation_queries.rs\<close>, \<open>generation_commands.rs\<close>, \<open>rebuild.rs\<close>), \<open>Promotion\<close> the promotion barrier
  and the generation manager. \<open>Usage_Writer\<close> is the writer actor of \<open>writer.rs\<close>, the only writer of
  all of these: it receives batches of parsed events, writes a group in one transaction, publishes
  notifications, and runs every other command between two flushes. \<open>Usage_Ledger\<close> and
  \<open>Writer_Sequence\<close> prove what a run of it promises.

  The sidecar. \<open>Sidecar_Executor\<close> (\<open>sidecar/executor.rs\<close>) implements the manager's executor: it keeps a
  worker for the provider, sends the turn, and evicts a session when the sidecar is full;
  \<open>Executor_Runs\<close> proves what its runs leave behind. \<open>Worker_Pool\<close> is \<open>sidecar/pool.rs\<close>, one supervisor
  per provider; \<open>Sidecar_Supervisor\<close> is \<open>sidecar/supervisor.rs\<close>: spawn, crash window and backoff,
  supervision loop, shutdown and the reconciliation of a crash in the store; \<open>Rpc_Client\<close> is
  \<open>sidecar/client.rs\<close>: the pending map, the reader and the drain of a shutdown, as interleaved steps.

  Costs, rollups and the dashboard. \<open>Pricing\<close> (\<open>busytok-pricing\<close>) is the price catalog and the estimate,
  over the binary64 arithmetic of \<open>Float64\<close>; \<open>Provider_Catalog\<close> (\<open>busytok-store/src/provider_catalog.rs\<close>)
  providers, models and tags; \<open>Usage_Aggregates\<close>, \<open>Billing_Blocks\<close>, \<open>Realtime_Summary\<close> and
  \<open>Aggregate_Planner\<close> (\<open>busytok-aggregator\<close> and the summary of \<open>busytok-runtime/src/scan.rs\<close>) the rollups
  planned from a list of events, the rebuilds, the five-hour blocks and the summary; \<open>Reporting_Ranges\<close>
  the time zone and the ranges (\<open>busytok-domain/src/timezone.rs\<close>, \<open>busytok-runtime/src/range.rs\<close>).

  The desktop. \<open>Lifecycle_Coordinator\<close> is \<open>apps/gui/src-tauri/src/lifecycle_coordinator.rs\<close> with the
  persisted suppression, the start of the application and its bootstrap retries (under \<open>src\<close>).

  
  2. State and operations.

  A Rust struct is a record with the source's fields under a prefix, an enum a datatype; an operation
  has the name of its function, with the callee's names for its pieces. A table is a list of rows in
  insertion order, a statement a function on it: \<open>INSERT\<close>, \<open>INSERT OR IGNORE\<close>, \<open>ON CONFLICT DO UPDATE\<close>,
  \<open>UPDATE ... WHERE\<close> and \<open>ORDER BY ... LIMIT\<close> are written out, with the CHECK, UNIQUE and foreign key
  constraints of the migrations as error values; a transaction is a function to a sum, so that an
  error is the state before. Handlers of the manager are a state monad over the database; between two
  critical sections the environment applies an arbitrary change that keeps the store's invariant.
  The writer is one function of a step: its state, one input and the readings of that step.

  3. What the lemmas show.

  For the subagent layer: that every reachable database satisfies the schema's invariant with at
  most one running task per subagent and at most one hot session per key; the queue is first in,
  first out per subagent; a successful cancel is never overwritten; what delegate, a completed or
  failed run, cancel and a crash leave in the store; the bounds of prompt and memory.
  For ingestion: lines and offsets do not depend on how the bytes arrive; a batch of a growing file is
  read once and completely; the events of a Codex file sum to its counters and splitting a batch
  changes nothing (unless the file was restarted). For the store and the writer: deduplication keeps the best copy and the token
  deltas it reports sum to what the table holds; the rollups over any run of the writer equal the
  rows stored plus what retention removed; redelivery counts nothing as long as ids are not
  shared between generations; durable sequence numbers are
  never reused; a promotion is all or nothing and at most one generation is active.
  For the sidecar: the number of turns of a run is bounded; a session is closed only after the store
  knows; a run keeps the store's invariant; one worker per provider; crashes are spaced; no caller is
  stranded when the sidecar ends, an answer reaches the call it belongs to, and under sequential
  consistency nothing is admitted after a drain. For costs and rollups: an estimate over a validated
  catalog never panics, nor is it negative or NaN, and the tiers price each token once; the catalog's
  keys stay unique and its references sound; the planner, the single writes and the rebuild agree;
  ranges are tiled by their buckets. For the desktop: ensures of the service never overlap and a quit
  stops them.
  Some properties state what the code does where it is not what its documentation says:
  \<open>timezone_change_drops_history\<close>, \<open>metrics_row_blocks_transition\<close>, \<open>failed_flush_answers_ok\<close>,
  \<open>failing_busy_check\<close>, \<open>shared_id_crosses_generations\<close>, \<open>abandoned_ensure_sticks\<close>, \<open>gate_can_stick\<close>,
  \<open>pruned_message_recounted\<close>, \<open>restart_loses_usage\<close>.
  Laws shared by several components are locales, interpreted on the model's own definitions:
  \<open>invariant_machine\<close> (\<open>Step_Machines\<close>) for the reachable states of the manager, the generations,
  the writer, the client, the pool, the supervisor, the catalog, the gate and the coordinator; \<open>keyed_table\<close> and \<open>additive_table\<close> (\<open>Keyed_Tables\<close>) for the upserts and the rollups,
  \<open>log_adapter\<close> (\<open>Log_Adapters\<close>) for the two parsers, \<open>task_store\<close> (\<open>Store_Tasks\<close>) for the statements
  that write tasks, \<open>evict_relation\<close> and \<open>exec_relation\<close> (\<open>Executor_Runs\<close>) for what every step of a run keeps.

  4. Representation, bounds and fuel.

  A Rust \<open>String\<close> is the list of its UTF-8 bytes (\<open>string\<close>). Timestamps, token counters and row counts
  (\<open>i64\<close>) are \<open>int\<close>: their sums stay far below the width. Where the code itself checks or
  saturates (\<open>checked_add\<close>, \<open>saturating_sub\<close>, \<open>try_from\<close>), and where the counters of a single log
  line, which anything may have written, are added, the operation is written out at its width;
  timeouts given by a client are 64-bit words; file offsets are \<open>nat\<close>. An \<open>f64\<close> that is only stored
  or added is its 64-bit pattern and addition a parameter; ratios that are compared are exact
  rationals. There is no fuel: loops are structural recursion or functions with a termination proof
  (the replay drain terminates because an applied row leaves the queue, the civil date because the
  remaining days decrease). A hash map whose order the code exposes is ordered by an argument.

  Parameters, being no code of this repository: the clock, new identifiers, path canonicalization,
  SHA-256, JSON decoding and encoding, RFC 3339 parsing, Unicode lower case and trim, the time zone
  database, the addition of stored costs (the estimates of \<open>Pricing\<close> compute), the executor (with the contract \<open>executor_ok\<close>) and the
  operating system's readings. Acquisition of a lock with a timeout and a cancellation signal are
  boolean arguments. Rows that predate a column hold the empty string where the code reads NULL.
  Statement failures by I/O appear where the code reacts to them (critical sections of the manager,
  replacing tables in a rebuild), not everywhere.

  5. Not modelled.

  Threads, channels and timers of the asynchronous runtime (a step is what runs between two
  suspensions); process spawning and the RPC framing of the sidecar; file watching; the SQL of the
  user interface reads; the transport and the data transfer objects of the control protocol; the
  command line client and the desktop shell. Of the sidecar, the start of its process and the text
  of its request lines; of the configuration, \<open>config.rs\<close>; the prompt entries; the watcher of the tailer;
  the scheduling of scans in the runtime's supervisor; the discovery of log directories; windows, palette,
  menus and the installers of the desktop shell. The interleavings of \<open>Rpc_Client\<close> are sequentially
  consistent unless a step says otherwise; a cancelled asynchronous call is a step only where the model
  has one (\<open>Lifecycle_Coordinator\<close>).
\<close>

section \<open>Properties of the shared types\<close>

text \<open>
  The status strings of the code and of the schema are one codec: parsing is the exact inverse
  of printing for both enums, the schema's CHECK accepts exactly the strings that parse, and the
  store's terminal test is the enum's.
\<close>

theorem status_codecs_agree:
  "(task_status_parse s = Inr st \<longleftrightarrow> s = task_status_str st)
   \<and> (task_status_allowed s \<longleftrightarrow> is_ok (task_status_parse s))
   \<and> (terminal_string (task_status_str st) \<longleftrightarrow> is_terminal st)
   \<and> (subagent_status_parse s = Inr sub \<longleftrightarrow> s = subagent_status_str sub)
   \<and> (logical_status_allowed s \<longleftrightarrow> is_ok (subagent_status_parse s))"
proof -
  have "terminal_string (task_status_str st) \<longleftrightarrow> is_terminal st"
    by (cases st) (simp_all add: terminal_string_def)
  moreover have "logical_status_allowed s \<longleftrightarrow> is_ok (subagent_status_parse s)"
    by (auto simp: logical_status_allowed_def subagent_status_parse_def is_ok_def)
  ultimately show ?thesis
    by (simp add: task_status_parse_Inr subagent_status_parse_Inr task_status_allowed_parse)
qed

text \<open>
  How a failure reported by the sidecar is classified on the task, end to end: transport failures
  by their kind, application errors by their code, an unknown code as unknown, and the two lookup
  errors not at all; only the capacity code takes the re-queue path.
\<close>

theorem sidecar_error_classification:
  "subagent_error_to_task_error_kind (from_sidecar_error get_str e) =
     (case e of
        SpawnErr _ \<Rightarrow> Some KCrash
      | RpcErr _ \<Rightarrow> Some KUnknown
      | TimeoutErr _ \<Rightarrow> Some KTimeout
      | CrashedErr _ \<Rightarrow> Some KCrash
      | IoErr _ \<Rightarrow> Some KNetwork
      | Application code _ _ \<Rightarrow>
          (if code \<in> {-32001, -32005} then None
           else if code = -32002 then Some KHotSessionLimit
           else if code = -32003 then Some KTimeout
           else if code = -32010 then Some KAuth
           else if code = -32011 then Some KRateLimit
           else if code = -32012 then Some KNetwork
           else Some KUnknown))
   \<and> (is_hot_session_limit (from_sidecar_error get_str e) \<longleftrightarrow>
        (\<exists>msg data. e = Application (-32002) msg data))"
  using from_sidecar_error_hot_limit[of get_str e]
  by (cases e) (auto simp: from_sidecar_error_def protocol_codes)

end
